(* ===== verification/Prelude.thy ===== *)
theory Prelude
  imports Main "HOL-Library.Word" "HOL-Library.AList" "HOL-Library.Monad_Syntax"
begin

text \<open>
  Shared vocabulary of the development: machine integers of the width the code uses, the
  arithmetic of \<^verbatim>\<open>primitive_types::U256\<close> (which panics on overflow, underflow and a zero
  divisor in every build profile), the outcome of a call (a Rust \<^verbatim>\<open>Ok\<close>, an \<^verbatim>\<open>Err\<close>, a panic, or
  a call that never returns because it waits for a lock its own task holds), lock guards, and
  association lists for the hash maps the code iterates over.

  The native integer types wrap: this is the release profile, in which the README builds and
  runs the node (\<^verbatim>\<open>cargo build --release\<close>).
\<close>

type_synonym u8 = "8 word"
type_synonym u32 = "32 word"
type_synonym u64 = "64 word"
type_synonym u128 = "128 word"
type_synonym u256 = "256 word"
type_synonym h256 = "256 word"
type_synonym address = "160 word"

named_theorems checked_ops \<open>what a successful checked operation computes\<close>

section \<open>Outcomes of calls\<close>

text \<open>
  \<open>Hang\<close> is a call that is suspended forever; the state paired with it is the one the other
  tasks would see, with the locks of the suspended task still taken.
\<close>

datatype ('e, 'a) outcome = Ok 'a | Err 'e | Panic | Hang

fun is_ok :: "('e, 'a) outcome \<Rightarrow> bool" where
  "is_ok (Ok _) = True"
| "is_ok _ = False"

text \<open>Sequencing after a call: an error is propagated (the \<open>?\<close> operator), a panic and a hang too.\<close>

fun and_then ::
  "('e, 'a) outcome \<times> 's \<Rightarrow> ('a \<Rightarrow> 's \<Rightarrow> ('e, 'b) outcome \<times> 's) \<Rightarrow> ('e, 'b) outcome \<times> 's" where
  "and_then (Ok a, s) f = f a s"
| "and_then (Err e, s) f = (Err e, s)"
| "and_then (Panic, s) f = (Panic, s)"
| "and_then (Hang, s) f = (Hang, s)"

lemma and_then_Ok [simp]:
  "and_then p f = (Ok b, s') \<longleftrightarrow> (\<exists>a s. p = (Ok a, s) \<and> f a s = (Ok b, s'))"
  by (cases "(p, f)" rule: and_then.cases) auto

text \<open>A checked computation whose failure is a panic in state \<open>s\<close>.\<close>

definition or_panic :: "'s \<Rightarrow> 'a option \<Rightarrow> ('a \<Rightarrow> ('e, 'b) outcome \<times> 's) \<Rightarrow> ('e, 'b) outcome \<times> 's" where
  "or_panic s x f = (case x of None \<Rightarrow> (Panic, s) | Some a \<Rightarrow> f a)"

lemma or_panic_simps [simp]:
  "or_panic s None f = (Panic, s)"
  "or_panic s (Some a) f = f a"
  by (simp_all add: or_panic_def)

lemma or_panic_split:
  "P (or_panic s x f) \<longleftrightarrow> (x = None \<longrightarrow> P (Panic, s)) \<and> (\<forall>a. x = Some a \<longrightarrow> P (f a))"
  by (cases x) auto

lemma or_panic_split_asm:
  "P (or_panic s x f) \<longleftrightarrow> \<not> ((x = None \<and> \<not> P (Panic, s)) \<or> (\<exists>a. x = Some a \<and> \<not> P (f a)))"
  by (cases x) auto

lemma or_panic_Ok [simp]:
  "or_panic s x f = (Ok b, s') \<longleftrightarrow> (\<exists>a. x = Some a \<and> f a = (Ok b, s'))"
  by (cases x) auto

text \<open>Rules for what the state satisfies after a call, whatever its outcome.\<close>

lemma snd_and_then:
  assumes "\<And>a s. p = (Ok a, s) \<Longrightarrow> I (snd (f a s))"
    and "\<not> is_ok (fst p) \<Longrightarrow> I (snd p)"
  shows "I (snd (and_then p f))"
  using assms by (cases "(p, f)" rule: and_then.cases) auto

lemma snd_or_panic:
  assumes "x = None \<Longrightarrow> I s" and "\<And>a. x = Some a \<Longrightarrow> I (snd (f a))"
  shows "I (snd (or_panic s x f))"
  using assms by (cases x) auto

lemma is_ok_and_then [simp]:
  "is_ok (fst (and_then p f)) \<longleftrightarrow> (\<exists>a s. p = (Ok a, s) \<and> is_ok (fst (f a s)))"
  by (cases "(p, f)" rule: and_then.cases) auto

lemma is_ok_or_panic [simp]:
  "is_ok (fst (or_panic s x f)) \<longleftrightarrow> (\<exists>a. x = Some a \<and> is_ok (fst (f a)))"
  by (cases x) auto

lemma is_ok_iff: "is_ok r \<longleftrightarrow> (\<exists>a. r = Ok a)"
  by (cases r) auto

section \<open>Checked unsigned arithmetic\<close>

definition uadd :: "'a::len word \<Rightarrow> 'a word \<Rightarrow> 'a word option" where
  "uadd a b = (if unat a + unat b < 2 ^ LENGTH('a) then Some (a + b) else None)"

definition usub :: "'a::len word \<Rightarrow> 'a word \<Rightarrow> 'a word option" where
  "usub a b = (if b \<le> a then Some (a - b) else None)"

definition umul :: "'a::len word \<Rightarrow> 'a word \<Rightarrow> 'a word option" where
  "umul a b = (if unat a * unat b < 2 ^ LENGTH('a) then Some (a * b) else None)"

definition udiv :: "'a::len word \<Rightarrow> 'a word \<Rightarrow> 'a word option" where
  "udiv a b = (if b = 0 then None else Some (a div b))"

text \<open>\<^verbatim>\<open>U256::as_u128\<close> panics when the value does not fit, \<^verbatim>\<open>saturating_sub\<close> stops at zero.\<close>

definition as_u128 :: "u256 \<Rightarrow> u128 option" where
  "as_u128 a = (if unat a < 2 ^ 128 then Some (ucast a) else None)"

definition saturating_sub :: "'a::len word \<Rightarrow> 'a word \<Rightarrow> 'a word" where
  "saturating_sub a b = (if b \<le> a then a - b else 0)"

lemma uadd_Some [checked_ops]: "uadd a b = Some c \<longleftrightarrow> unat c = unat a + unat b"
  for a b c :: "'a::len word"
proof
  assume "uadd a b = Some c"
  then have lt: "unat a + unat b < 2 ^ LENGTH('a)" and c: "c = a + b"
    by (auto simp: uadd_def split: if_splits)
  from lt show "unat c = unat a + unat b"
    by (simp add: c unat_word_ariths)
next
  assume eq: "unat c = unat a + unat b"
  then have lt: "unat a + unat b < 2 ^ LENGTH('a)"
    by (metis unsigned_less)
  then have "unat (a + b) = unat c"
    by (simp add: eq unat_word_ariths)
  then have "a + b = c"
    by (simp only: word_unat_eq_iff)
  with lt show "uadd a b = Some c"
    by (simp add: uadd_def)
qed

lemma usub_Some [checked_ops]: "usub a b = Some c \<longleftrightarrow> unat a = unat b + unat c"
  for a b c :: "'a::len word"
proof
  assume "usub a b = Some c"
  then have le: "b \<le> a" and c: "c = a - b"
    by (auto simp: usub_def split: if_splits)
  from le show "unat a = unat b + unat c"
    by (simp add: c unat_sub word_le_nat_alt)
next
  assume eq: "unat a = unat b + unat c"
  then have le: "b \<le> a" by (simp add: word_le_nat_alt)
  then have "unat (a - b) = unat c"
    by (simp add: eq unat_sub)
  then have "a - b = c"
    by (simp only: word_unat_eq_iff)
  with le show "usub a b = Some c"
    by (simp add: usub_def)
qed

lemma umul_Some [checked_ops]: "umul a b = Some c \<longleftrightarrow> unat c = unat a * unat b"
  for a b c :: "'a::len word"
proof
  assume "umul a b = Some c"
  then have lt: "unat a * unat b < 2 ^ LENGTH('a)" and c: "c = a * b"
    by (auto simp: umul_def split: if_splits)
  from lt show "unat c = unat a * unat b"
    by (simp add: c unat_word_ariths)
next
  assume eq: "unat c = unat a * unat b"
  then have lt: "unat a * unat b < 2 ^ LENGTH('a)"
    by (metis unsigned_less)
  then have "unat (a * b) = unat c"
    by (simp add: eq unat_word_ariths)
  then have "a * b = c"
    by (simp only: word_unat_eq_iff)
  with lt show "umul a b = Some c"
    by (simp add: umul_def)
qed

lemma udiv_Some [checked_ops]:
  "udiv a b = Some c \<longleftrightarrow> unat b \<noteq> 0 \<and> unat c = unat a div unat b"
  for a b c :: "'a::len word"
  by (auto simp: udiv_def unat_div word_unat_eq_iff)

lemma uadd_None: "uadd a b = None \<longleftrightarrow> 2 ^ LENGTH('a) \<le> unat a + unat b"
  for a b :: "'a::len word"
  by (auto simp: uadd_def)

lemma usub_None: "usub a b = None \<longleftrightarrow> unat a < unat b"
  by (auto simp: usub_def word_le_nat_alt)

lemma umul_None: "umul a b = None \<longleftrightarrow> 2 ^ LENGTH('a) \<le> unat a * unat b"
  for a b :: "'a::len word"
  by (auto simp: umul_def)

lemma udiv_None: "udiv a b = None \<longleftrightarrow> b = 0"
  by (simp add: udiv_def)

lemma as_u128_Some [checked_ops]: "as_u128 a = Some c \<longleftrightarrow> unat c = unat a"
proof -
  have "unat (ucast a :: u128) = unat a" if "unat a < 2 ^ 128"
    using that by (simp add: unsigned_ucast_eq take_bit_nat_eq_self)
  moreover have "unat c < 2 ^ 128"
    using unsigned_less [of c] by simp
  ultimately show ?thesis
    by (auto simp: as_u128_def word_unat_eq_iff)
qed

lemma unat_saturating_sub: "unat (saturating_sub a b) = unat a - unat b"
  by (auto simp: saturating_sub_def unat_sub word_le_nat_alt)

lemma unat_less_256: "unat (a :: u256) < 2 ^ 256"
  using unsigned_less [of a] by simp

text \<open>A running sum that panics when it overflows.\<close>

fun sum_checked :: "u256 \<Rightarrow> u256 list \<Rightarrow> u256 option" where
  "sum_checked acc [] = Some acc"
| "sum_checked acc (x # xs) = do { acc' \<leftarrow> uadd acc x; sum_checked acc' xs }"

lemma sum_checked_Some: "sum_checked acc xs = Some v \<longleftrightarrow> unat v = unat acc + sum_list (map unat xs)"
proof (induction xs arbitrary: acc)
  case (Cons w xs)
  show ?case
  proof
    assume "sum_checked acc (w # xs) = Some v"
    then obtain a where "uadd acc w = Some a" "sum_checked a xs = Some v" by (auto simp: bind_eq_Some_conv)
    with Cons.IH [of a] show "unat v = unat acc + sum_list (map unat (w # xs))" by (simp add: checked_ops)
  next
    assume v: "unat v = unat acc + sum_list (map unat (w # xs))"
    then have "unat acc + unat w < 2 ^ 256" using unat_less_256 [of v] by simp
    then obtain a where a: "uadd acc w = Some a" by (simp add: uadd_def)
    with v Cons.IH [of a] have "sum_checked a xs = Some v" by (simp add: checked_ops)
    with a show "sum_checked acc (w # xs) = Some v" by simp
  qed
qed (auto simp: word_unat_eq_iff)

section \<open>Lock guards\<close>

text \<open>
  The guards a task holds while it calls further. \<^verbatim>\<open>tokio::sync::RwLock\<close> is not reentrant: a task
  that asks for a read guard under its own write guard, or for a write guard under any guard of
  its own, waits for itself.
\<close>

datatype lock_mode = Read_Guard | Write_Guard

definition can_read :: "('l \<times> lock_mode) list \<Rightarrow> 'l \<Rightarrow> bool" where
  "can_read held l \<longleftrightarrow> list_all (\<lambda>(l', m). l' = l \<longrightarrow> m = Read_Guard) held"

definition can_write :: "('l \<times> lock_mode) list \<Rightarrow> 'l \<Rightarrow> bool" where
  "can_write held l \<longleftrightarrow> list_all (\<lambda>(l', m). l' \<noteq> l) held"

section \<open>Hash maps the code iterates over\<close>

text \<open>
  A hash map that is summed up or searched is an association list; the order of the list is the
  (unspecified) iteration order. \<open>credit\<close> is
  \<^verbatim>\<open>let b = m.entry(k).or_insert(U256::zero()); *b = *b + v\<close>.
\<close>

definition balance :: "('k \<times> 'a::len word) list \<Rightarrow> 'k \<Rightarrow> 'a word" where
  "balance m k = (case map_of m k of None \<Rightarrow> 0 | Some v \<Rightarrow> v)"

definition credit :: "'k \<Rightarrow> 'a::len word \<Rightarrow> ('k \<times> 'a word) list \<Rightarrow> ('k \<times> 'a word) list option" where
  "credit k v m = do { b \<leftarrow> uadd (balance m k) v; Some (AList.update k b m) }"

definition total_of :: "('k \<times> 'a::len word) list \<Rightarrow> nat" where
  "total_of m = (\<Sum>(k, v) \<leftarrow> m. unat v)"

lemma total_of_simps [simp]:
  "total_of [] = 0"
  "total_of ((k, v) # m) = unat v + total_of m"
  by (simp_all add: total_of_def)

lemma map_of_rev: "distinct (map fst ls) \<Longrightarrow> map_of (rev ls) k = map_of ls k"
  by (rule map_of_inject_set [THEN iffD2, THEN fun_cong]) (simp_all add: rev_map [symmetric])

lemma total_of_update:
  "total_of (AList.update k v m) + unat (balance m k) = total_of m + unat v"
  by (induction m) (auto simp: balance_def)

lemma balance_update: "balance (AList.update k v m) k' = (if k' = k then v else balance m k')"
  by (simp add: balance_def update_conv)

lemma balance_le_total: "unat (balance m k) \<le> total_of m"
  by (induction m) (auto simp: balance_def)

lemma credit_Some:
  "credit k v m = Some m' \<Longrightarrow>
     total_of m' = total_of m + unat v \<and>
     unat (balance m' k) = unat (balance m k) + unat v \<and>
     (\<forall>k'. k' \<noteq> k \<longrightarrow> balance m' k' = balance m k')"
proof -
  assume "credit k v m = Some m'"
  then obtain b where b: "unat b = unat (balance m k) + unat v" and m': "m' = AList.update k b m"
    by (auto simp: credit_def bind_eq_Some_conv checked_ops)
  with total_of_update [of k b m] show ?thesis
    by (auto simp: balance_update)
qed

lemma credit_None: "credit k v m = None \<longleftrightarrow> 2 ^ LENGTH('a) \<le> unat (balance m k) + unat v"
  for v :: "'a::len word"
  by (auto simp: credit_def bind_eq_None_conv uadd_None)

section \<open>Runs of a component\<close>

text \<open>
  A component driven by a sequence of calls: \<open>step\<close> performs one call, \<open>ok\<close> is what the environment
  guarantees of a call in a state (a fresh identifier, say). An invariant that every call keeps holds
  after every run.
\<close>

fun run :: "('c \<Rightarrow> 's \<Rightarrow> 's) \<Rightarrow> 'c list \<Rightarrow> 's \<Rightarrow> 's" where
  "run step [] s = s"
| "run step (c # cs) s = run step cs (step c s)"

fun run_ok :: "('c \<Rightarrow> 's \<Rightarrow> bool) \<Rightarrow> ('c \<Rightarrow> 's \<Rightarrow> 's) \<Rightarrow> 'c list \<Rightarrow> 's \<Rightarrow> bool" where
  "run_ok ok step [] s = True"
| "run_ok ok step (c # cs) s = (ok c s \<and> run_ok ok step cs (step c s))"

locale invariant_of =
  fixes step :: "'c \<Rightarrow> 's \<Rightarrow> 's" and ok :: "'c \<Rightarrow> 's \<Rightarrow> bool" and inv :: "'s \<Rightarrow> bool"
  assumes inv_step: "inv s \<Longrightarrow> ok c s \<Longrightarrow> inv (step c s)"
begin

lemma inv_run: "inv s \<Longrightarrow> run_ok ok step cs s \<Longrightarrow> inv (run step cs s)"
  by (induction cs arbitrary: s) (auto intro: inv_step)

lemma inv_run_prefix: "inv s \<Longrightarrow> run_ok ok step (cs @ ds) s \<Longrightarrow> inv (run step cs s)"
  by (induction cs arbitrary: s) (auto intro: inv_step)

end

lemma run_append: "run step (cs @ ds) s = run step ds (run step cs s)"
  by (induction cs arbitrary: s) auto

lemma run_ok_append:
  "run_ok ok step (cs @ ds) s \<longleftrightarrow> run_ok ok step cs s \<and> run_ok ok step ds (run step cs s)"
  by (induction cs arbitrary: s) auto

lemma run_ok_always: "run_ok (\<lambda>_ _. True) step cs s"
  by (induction cs arbitrary: s) simp_all

lemma set_update_sub: "set (AList.update k e m) \<subseteq> insert (k, e) (set m)"
  by (induction m) auto

lemma length_update: "length (AList.update k v m) = (if k \<in> fst ` set m then length m else Suc (length m))"
  by (induction m) auto

lemma length_update_le: "length (AList.update k v m) \<le> Suc (length m)"
  by (simp add: length_update)

lemma length_update_ge: "length m \<le> length (AList.update k v m)"
  by (simp add: length_update)

end
