(* ===== verification/Amm.thy ===== *)
theory Amm
  imports Prelude
begin

text \<open>
  The automated market maker of \<^verbatim>\<open>src/dex/amm.rs\<close>: the pool's state, its operations with every
  early return, panic and self-deadlock of the code, and what they guarantee about reserves, LP
  shares and the constant product.

  The clock (\<^verbatim>\<open>current_timestamp\<close>) and the hash of a pool's identity (\<^verbatim>\<open>sha2\<close>, a third-party
  package) are arguments.
\<close>

section \<open>State\<close>

datatype dex_error =
    InvalidAmount | InvalidPrice | InsufficientBalance | InsufficientLiquidity
  | ExcessiveSlippage | OrderNotFound | PoolNotFound | PathNotFound | Expired | Unauthorized

record liquidity_position =
  owner :: address
  tick_lower :: "32 word"
  tick_upper :: "32 word"
  position_liquidity :: u256
  fee_growth_inside_0 :: u256
  fee_growth_inside_1 :: u256

record concentrated_liquidity =
  tick_spacing :: "32 word"
  current_tick :: "32 word"
  active_liquidity :: u256
  positions :: "address \<rightharpoonup> liquidity_position"

record price_oracle =
  price_cumulative :: u256
  last_update :: u64
  twap_window :: u64

record amm_pool =
  token_a :: h256
  token_b :: h256
  reserve_a :: u256
  reserve_b :: u256
  total_supply :: u256
  liquidity_providers :: "(address \<times> u256) list"
  fee_rate :: u256
  concentrated :: concentrated_liquidity
  pool_oracle :: price_oracle

text \<open>
  \<^verbatim>\<open>share\<close> is computed in the code as the floating-point quotient of two \<^verbatim>\<open>u128\<close> values; the model
  keeps the two operands.
\<close>

record liquidity_result =
  pool_id :: h256
  lp_tokens :: u256
  share :: "u128 \<times> u128"

text \<open>The locks of a pool.\<close>

datatype pool_lock =
    Lock_reserve_a | Lock_reserve_b | Lock_total_supply | Lock_providers | Lock_concentrated | Lock_oracle

definition amm_new :: "h256 \<Rightarrow> h256 \<Rightarrow> amm_pool" where
  "amm_new ta tb = \<lparr> token_a = ta, token_b = tb, reserve_a = 0, reserve_b = 0, total_supply = 0,
     liquidity_providers = [], fee_rate = 30,
     concentrated = \<lparr> tick_spacing = 60, current_tick = 0, active_liquidity = 0, positions = Map.empty \<rparr>,
     pool_oracle = \<lparr> price_cumulative = 0, last_update = 0, twap_window = 3600 \<rparr> \<rparr>"

section \<open>Square root\<close>

text \<open>The loop of \<^verbatim>\<open>sqrt\<close>: \<open>z\<close> strictly decreases while it runs.\<close>

function sqrt_loop :: "u256 \<Rightarrow> u256 \<Rightarrow> u256 \<Rightarrow> u256 option" where
  "sqrt_loop x z y =
     (if y < z then
        (case do { q \<leftarrow> udiv x y; t \<leftarrow> uadd q y; udiv t 2 } of
           None \<Rightarrow> None
         | Some y' \<Rightarrow> sqrt_loop x y y')
      else Some z)"
  by pat_completeness auto
termination
  by (relation "measure (\<lambda>(x, z, y). unat z)") (auto simp: word_less_nat_alt)

declare sqrt_loop.simps [simp del]

definition amm_sqrt :: "u256 \<Rightarrow> u256 option" where
  "amm_sqrt x =
     (if x = 0 then Some 0
      else do { t \<leftarrow> uadd x 1; y \<leftarrow> udiv t 2; sqrt_loop x x y })"

section \<open>Price and oracle\<close>

text \<open>\<open>held\<close> lists the guards the calling task already has on this pool.\<close>

definition get_price :: "(pool_lock \<times> lock_mode) list \<Rightarrow> amm_pool \<Rightarrow> (dex_error, u256) outcome" where
  "get_price held s =
     (if \<not> (can_read held Lock_reserve_a \<and> can_read held Lock_reserve_b) then Hang
      else if reserve_a s = 0 then Ok 0
      else (case do { n \<leftarrow> umul (reserve_b s) 1000000000000000000; udiv n (reserve_a s) } of
              None \<Rightarrow> Panic | Some p \<Rightarrow> Ok p))"

definition update_oracle ::
  "(pool_lock \<times> lock_mode) list \<Rightarrow> u64 \<Rightarrow> amm_pool \<Rightarrow> (dex_error, unit) outcome \<times> amm_pool" where
  "update_oracle held now s =
     (if \<not> can_write held Lock_oracle then (Hang, s)
      else
        let time_elapsed = now - last_update (pool_oracle s) in
        if time_elapsed > 0 then
          and_then (get_price held s, s) (\<lambda>current_price s.
            or_panic s (do { w \<leftarrow> umul current_price (ucast time_elapsed);
                             uadd (price_cumulative (pool_oracle s)) w }) (\<lambda>c.
              (Ok (), s\<lparr>pool_oracle := (pool_oracle s)\<lparr>price_cumulative := c, last_update := now\<rparr>\<rparr>)))
        else (Ok (), s))"

definition get_twap :: "u64 \<Rightarrow> amm_pool \<Rightarrow> u256 option" where
  "get_twap now s =
     (let time_elapsed = now - last_update (pool_oracle s) in
      if time_elapsed < twap_window (pool_oracle s) then Some 0
      else udiv (price_cumulative (pool_oracle s)) (ucast time_elapsed))"

section \<open>Adding and removing liquidity\<close>

text \<open>
  The arithmetic of the two branches of \<^verbatim>\<open>add_liquidity\<close>: the minted tokens and the amounts that
  the reserves and the supply become.
\<close>

definition initial_liquidity :: "u256 \<Rightarrow> u256 \<Rightarrow> u256 option" where
  "initial_liquidity amount_a amount_b = do { p \<leftarrow> umul amount_a amount_b; amm_sqrt p }"

definition mint_liquidity ::
  "u256 \<Rightarrow> u256 \<Rightarrow> u256 \<Rightarrow> u256 \<Rightarrow> u256 \<Rightarrow> (u256 \<times> u256 \<times> u256) option" where
  "mint_liquidity ra rb supply amount_a amount_b = do {
     na \<leftarrow> umul amount_a supply;
     liquidity_a \<leftarrow> udiv na ra;
     nb \<leftarrow> umul amount_b supply;
     liquidity_b \<leftarrow> udiv nb rb;
     let liquidity = min liquidity_a liquidity_b;
     xa \<leftarrow> umul liquidity ra;
     actual_a \<leftarrow> udiv xa supply;
     xb \<leftarrow> umul liquidity rb;
     actual_b \<leftarrow> udiv xb supply;
     Some (liquidity, actual_a, actual_b)
   }"

text \<open>The guards \<^verbatim>\<open>add_liquidity\<close>, \<^verbatim>\<open>remove_liquidity\<close> and \<^verbatim>\<open>swap\<close> hold when they call \<^verbatim>\<open>update_oracle\<close>.\<close>

definition liquidity_guards :: "(pool_lock \<times> lock_mode) list" where
  "liquidity_guards = [(Lock_reserve_a, Write_Guard), (Lock_reserve_b, Write_Guard),
     (Lock_total_supply, Write_Guard), (Lock_providers, Write_Guard)]"

definition swap_guards :: "(pool_lock \<times> lock_mode) list" where
  "swap_guards = [(Lock_reserve_a, Write_Guard), (Lock_reserve_b, Write_Guard)]"

text \<open>
  The writes of \<^verbatim>\<open>add_liquidity\<close> to the reserves and the supply, in the code's order: each
  \<^verbatim>\<open>+=\<close> that overflows panics with the earlier ones done.
\<close>

definition apply_mint ::
  "u256 \<Rightarrow> u256 \<Rightarrow> amm_pool \<Rightarrow> (dex_error, u256) outcome \<times> amm_pool" where
  "apply_mint amount_a amount_b s =
     (if total_supply s = 0 then
        or_panic s (initial_liquidity amount_a amount_b) (\<lambda>l.
          (Ok l, s\<lparr>reserve_a := amount_a, reserve_b := amount_b, total_supply := l\<rparr>))
      else
        or_panic s (mint_liquidity (reserve_a s) (reserve_b s) (total_supply s) amount_a amount_b)
          (\<lambda>(l, actual_a, actual_b).
            or_panic s (uadd (reserve_a s) actual_a) (\<lambda>ra.
              let s1 = s\<lparr>reserve_a := ra\<rparr> in
              or_panic s1 (uadd (reserve_b s) actual_b) (\<lambda>rb.
                let s2 = s1\<lparr>reserve_b := rb\<rparr> in
                or_panic s2 (uadd (total_supply s) l) (\<lambda>ts.
                  (Ok l, s2\<lparr>total_supply := ts\<rparr>))))))"

definition credit_provider :: "address \<Rightarrow> u256 \<Rightarrow> amm_pool \<Rightarrow> (dex_error, unit) outcome \<times> amm_pool" where
  "credit_provider provider l s =
     or_panic s (credit provider l (liquidity_providers s)) (\<lambda>ps.
       (Ok (), s\<lparr>liquidity_providers := ps\<rparr>))"

definition add_liquidity ::
  "(h256 \<Rightarrow> h256 \<Rightarrow> h256) \<Rightarrow> u64 \<Rightarrow> u256 \<Rightarrow> u256 \<Rightarrow> address \<Rightarrow> amm_pool
     \<Rightarrow> (dex_error, liquidity_result) outcome \<times> amm_pool" where
  "add_liquidity sha_pair now amount_a amount_b provider s =
     and_then (apply_mint amount_a amount_b s) (\<lambda>l s.
     and_then (credit_provider provider l s) (\<lambda>_ s.
     and_then (update_oracle liquidity_guards now s) (\<lambda>_ s.
       or_panic s (do { n \<leftarrow> as_u128 l; d \<leftarrow> as_u128 (total_supply s); Some (n, d) }) (\<lambda>sh.
         (Ok \<lparr> pool_id = sha_pair (token_a s) (token_b s), lp_tokens = l, share = sh \<rparr>, s)))))"

text \<open>
  \<^verbatim>\<open>providers.get_mut(&provider).unwrap()\<close> panics for an unknown provider: one who redeems zero
  tokens passes the balance check.
\<close>

definition remove_liquidity ::
  "u64 \<Rightarrow> u256 \<Rightarrow> address \<Rightarrow> amm_pool \<Rightarrow> (dex_error, u256 \<times> u256) outcome \<times> amm_pool" where
  "remove_liquidity now l provider s =
     (let bal = balance (liquidity_providers s) provider in
      if bal < l then (Err InsufficientBalance, s)
      else
        or_panic s (do { na \<leftarrow> umul l (reserve_a s); a \<leftarrow> udiv na (total_supply s);
                         nb \<leftarrow> umul l (reserve_b s); b \<leftarrow> udiv nb (total_supply s); Some (a, b) })
          (\<lambda>(a, b).
            or_panic s (usub (reserve_a s) a) (\<lambda>ra.
              let s1 = s\<lparr>reserve_a := ra\<rparr> in
              or_panic s1 (usub (reserve_b s) b) (\<lambda>rb.
                let s2 = s1\<lparr>reserve_b := rb\<rparr> in
                or_panic s2 (usub (total_supply s) l) (\<lambda>ts.
                  let s3 = s2\<lparr>total_supply := ts\<rparr> in
                  or_panic s3 (map_of (liquidity_providers s) provider) (\<lambda>held_lp.
                    or_panic s3 (usub held_lp l) (\<lambda>p.
                      let s4 = s3\<lparr>liquidity_providers := AList.update provider p (liquidity_providers s)\<rparr> in
                      and_then (update_oracle liquidity_guards now s4) (\<lambda>_ s. (Ok (a, b), s)))))))))"

section \<open>Swapping\<close>

definition swap_amount_out :: "u256 \<Rightarrow> u256 \<Rightarrow> u256 \<Rightarrow> u256 \<Rightarrow> u256 option" where
  "swap_amount_out fee reserve_in reserve_out amount_in = do {
     keep \<leftarrow> usub 10000 fee;
     gross \<leftarrow> umul amount_in keep;
     amount_in_with_fee \<leftarrow> udiv gross 10000;
     numerator \<leftarrow> umul amount_in_with_fee reserve_out;
     denominator \<leftarrow> uadd reserve_in amount_in_with_fee;
     udiv numerator denominator
   }"

definition swap :: "u64 \<Rightarrow> u256 \<Rightarrow> h256 \<Rightarrow> amm_pool \<Rightarrow> (dex_error, u256) outcome \<times> amm_pool" where
  "swap now amount_in token_in s =
     (if token_in \<noteq> token_a s \<and> token_in \<noteq> token_b s then (Err InvalidAmount, s)
      else
        let (reserve_in, reserve_out) =
          (if token_in = token_a s then (reserve_a s, reserve_b s) else (reserve_b s, reserve_a s)) in
        or_panic s (swap_amount_out (fee_rate s) reserve_in reserve_out amount_in) (\<lambda>amount_out.
          if amount_out = 0 then (Err InsufficientLiquidity, s)
          else if token_in = token_a s then
            or_panic s (uadd (reserve_a s) amount_in) (\<lambda>ra.
              let s1 = s\<lparr>reserve_a := ra\<rparr> in
              or_panic s1 (usub (reserve_b s) amount_out) (\<lambda>rb.
                and_then (update_oracle swap_guards now (s1\<lparr>reserve_b := rb\<rparr>)) (\<lambda>_ s. (Ok amount_out, s))))
          else
            or_panic s (uadd (reserve_b s) amount_in) (\<lambda>rb.
              let s1 = s\<lparr>reserve_b := rb\<rparr> in
              or_panic s1 (usub (reserve_a s) amount_out) (\<lambda>ra.
                and_then (update_oracle swap_guards now (s1\<lparr>reserve_a := ra\<rparr>)) (\<lambda>_ s. (Ok amount_out, s))))))"

text \<open>The read-only estimate works on two fixed example reserves, not on the pool's.\<close>

definition get_amount_out :: "u256 \<Rightarrow> amm_pool \<Rightarrow> u256 option" where
  "get_amount_out amount_in s = swap_amount_out (fee_rate s) 1000000 1000000 amount_in"

section \<open>Concentrated liquidity\<close>

text \<open>
  Ticks are \<^verbatim>\<open>i32\<close>; the remainder is zero exactly when the (positive) spacing divides the tick, whatever
  the rounding of the quotient. A zero spacing panics.
\<close>

definition tick_aligned :: "32 word \<Rightarrow> 32 word \<Rightarrow> bool option" where
  "tick_aligned tick spacing = (if spacing = 0 then None else Some (sint spacing dvd sint tick))"

definition add_concentrated_liquidity ::
  "address \<Rightarrow> 32 word \<Rightarrow> 32 word \<Rightarrow> u256 \<Rightarrow> amm_pool \<Rightarrow> (dex_error, unit) outcome \<times> amm_pool" where
  "add_concentrated_liquidity provider lo hi l s =
     (let cl = concentrated s in
      if sint hi \<le> sint lo then (Err InvalidPrice, s)
      else
        or_panic s (tick_aligned lo (tick_spacing cl)) (\<lambda>lo_ok.
          if \<not> lo_ok then (Err InvalidPrice, s)
          else or_panic s (tick_aligned hi (tick_spacing cl)) (\<lambda>hi_ok.
            if \<not> hi_ok then (Err InvalidPrice, s)
            else
              let pos = \<lparr> owner = provider, tick_lower = lo, tick_upper = hi, position_liquidity = l,
                          fee_growth_inside_0 = 0, fee_growth_inside_1 = 0 \<rparr>;
                  cl1 = cl\<lparr>positions := (positions cl)(provider \<mapsto> pos)\<rparr>;
                  s1 = s\<lparr>concentrated := cl1\<rparr>
              in if sint lo \<le> sint (current_tick cl) \<and> sint (current_tick cl) < sint hi then
                   or_panic s1 (uadd (active_liquidity cl) l) (\<lambda>al.
                     (Ok (), s\<lparr>concentrated := cl1\<lparr>active_liquidity := al\<rparr>\<rparr>))
                 else (Ok (), s1))))"

section \<open>The square root\<close>

lemma newton_upper:
  fixes x z :: nat
  assumes "0 < z"
  shows "x < ((x div z + z) div 2 + 1)\<^sup>2"
proof -
  define q where "q = x div z"
  define y where "y = (q + z) div 2"
  have x: "x < (q + 1) * z"
    using assms by (simp add: q_def dividend_less_div_times)
  have "int (4 * ((q + 1) * z)) \<le> int ((q + 1 + z)\<^sup>2)"
    using zero_le_power2 [of "int (q + 1) - int z"]
    by (simp add: power2_eq_square algebra_simps)
  then have "4 * ((q + 1) * z) \<le> (q + 1 + z)\<^sup>2"
    by linarith
  also have "\<dots> \<le> (2 * (y + 1))\<^sup>2"
    by (rule power_mono) (auto simp: y_def)
  finally have "4 * ((q + 1) * z) \<le> 4 * (y + 1)\<^sup>2"
    by (simp add: power2_eq_square algebra_simps)
  with x have "x < (y + 1)\<^sup>2" by linarith
  then show ?thesis by (simp add: y_def q_def)
qed

lemma newton_bound:
  fixes x y :: nat
  assumes "0 < y" "y \<le> x"
  shows "x div y + y \<le> x + 1"
proof -
  define q where "q = x div y"
  have "1 \<le> q" using assms by (simp add: q_def div_greater_zero_iff Suc_le_eq)
  then obtain q' where q': "q = q' + 1" by (metis add.commute le_Suc_ex)
  from assms obtain y' where y': "y = y' + 1" by (metis Suc_eq_plus1 gr0_conv_Suc)
  have "q * y \<le> x" by (simp add: q_def)
  moreover have "q + y \<le> q * y + 1" by (simp add: q' y')
  ultimately show ?thesis unfolding q_def by linarith
qed

lemma unat_256_consts [simp]: "unat (1 :: u256) = 1" "unat (2 :: u256) = 2" "unat (10000 :: u256) = 10000"
  by simp_all

text \<open>One Newton step succeeds: nothing overflows as long as \<open>x + 1\<close> does not.\<close>

lemma newton_step:
  fixes x y :: u256
  assumes "0 < unat y" "unat y \<le> unat x" "unat x + 1 < 2 ^ 256"
  obtains y' where "do { q \<leftarrow> udiv x y; t \<leftarrow> uadd q y; udiv t 2 } = Some y'"
    and "unat y' = (unat x div unat y + unat y) div 2"
proof -
  obtain q where q: "udiv x y = Some q"
    using assms(1) by (cases "udiv x y") (auto simp: udiv_None)
  then have uq: "unat q = unat x div unat y" by (simp add: checked_ops)
  have "unat q + unat y < 2 ^ 256"
    using newton_bound [OF assms(1,2)] assms(3) uq by linarith
  then obtain t where t: "uadd q y = Some t"
    by (cases "uadd q y") (auto simp: uadd_None)
  obtain y' where y': "udiv t 2 = Some y'"
    by (cases "udiv t 2") (auto simp: udiv_None)
  show ?thesis
  proof (rule that [of y'])
    show "do { q \<leftarrow> udiv x y; t \<leftarrow> uadd q y; udiv t 2 } = Some y'"
      by (simp add: q t y')
    show "unat y' = (unat x div unat y + unat y) div 2"
      using t y' uq by (simp add: checked_ops)
  qed
qed

lemma sqrt_loop_correct:
  assumes "0 < unat z" "unat z \<le> unat x" "unat x + 1 < 2 ^ 256"
    and "unat x < (unat z + 1)\<^sup>2"
    and "unat y = (unat x div unat z + unat z) div 2"
  shows "\<exists>r. sqrt_loop x z y = Some r \<and> (unat r)\<^sup>2 \<le> unat x \<and> unat x < (unat r + 1)\<^sup>2"
  using assms
proof (induction x z y rule: sqrt_loop.induct)
  case (1 x z y)
  have up: "unat x < (unat y + 1)\<^sup>2"
    using newton_upper [OF "1.prems"(1), of "unat x"] "1.prems"(5) by simp
  show ?case
  proof (cases "y < z")
    case False
    then have "2 * unat z \<le> unat x div unat z + unat z"
      using "1.prems"(5) by (simp add: word_le_nat_alt not_less)
    then have "unat z * unat z \<le> unat x"
      by (metis add_le_cancel_right div_times_less_eq_dividend le_trans mult_2 mult_le_mono1)
    with False "1.prems"(4) show ?thesis
      by (simp add: sqrt_loop.simps [of x z y] power2_eq_square)
  next
    case True
    have "1 \<le> unat x div unat z"
      using "1.prems"(1,2) by (simp add: div_greater_zero_iff Suc_le_eq)
    then have y0: "0 < unat y"
      using "1.prems"(1,5) by linarith
    have yx: "unat y \<le> unat x"
      using True "1.prems"(2) by (simp add: word_less_nat_alt)
    obtain y' where y': "do { q \<leftarrow> udiv x y; t \<leftarrow> uadd q y; udiv t 2 } = Some y'"
      and uy': "unat y' = (unat x div unat y + unat y) div 2"
      using newton_step [OF y0 yx "1.prems"(3)] by blast
    from "1.IH" [OF True y' y0 yx "1.prems"(3) up uy'] True y' show ?thesis
      by (simp add: sqrt_loop.simps [of x z y])
  qed
qed

lemma amm_sqrt_correct:
  assumes "unat x + 1 < 2 ^ 256"
  shows "\<exists>r. amm_sqrt x = Some r \<and> (unat r)\<^sup>2 \<le> unat x \<and> unat x < (unat r + 1)\<^sup>2"
proof (cases "x = 0")
  case True
  then show ?thesis by (simp add: amm_sqrt_def)
next
  case False
  then have x0: "0 < unat x" by (simp add: unat_gt_0)
  obtain t where t: "uadd x 1 = Some t"
    using assms by (cases "uadd x 1") (auto simp: uadd_None)
  obtain y where y: "udiv t 2 = Some y"
    by (cases "udiv t 2") (auto simp: udiv_None)
  have "unat y = (unat x div unat x + unat x) div 2"
    using t y x0 by (auto simp: checked_ops)
  moreover have "unat x < (unat x + 1)\<^sup>2" by (simp add: power2_eq_square)
  ultimately show ?thesis
    using sqrt_loop_correct [of x x y] x0 assms t y False by (simp add: amm_sqrt_def)
qed

section \<open>The oracle under the pool's own locks\<close>

lemma update_oracle_frame:
  "\<exists>o'. snd (update_oracle held now s) = s\<lparr>pool_oracle := o'\<rparr>"
  by (cases "get_price held s")
    (auto simp: update_oracle_def Let_def split: or_panic_split intro: exI [of _ "pool_oracle s"])

lemma update_oracle_fields [simp]:
  "reserve_a (snd (update_oracle held now s)) = reserve_a s"
  "reserve_b (snd (update_oracle held now s)) = reserve_b s"
  "total_supply (snd (update_oracle held now s)) = total_supply s"
  "liquidity_providers (snd (update_oracle held now s)) = liquidity_providers s"
  "fee_rate (snd (update_oracle held now s)) = fee_rate s"
  "token_a (snd (update_oracle held now s)) = token_a s"
  "token_b (snd (update_oracle held now s)) = token_b s"
  "concentrated (snd (update_oracle held now s)) = concentrated s"
  using update_oracle_frame [of held now s] by auto

text \<open>
  With the guards of its callers, \<^verbatim>\<open>update_oracle\<close> asks for a read guard of a reserve its own task
  has locked for writing, unless the clock stands where the last update left it.
\<close>

lemma update_oracle_blocked:
  assumes "held = liquidity_guards \<or> held = swap_guards"
  shows "update_oracle held now s =
    (if now = last_update (pool_oracle s) then (Ok (), s) else (Hang, s))"
proof -
  have "0 < now - last_update (pool_oracle s) \<longleftrightarrow> now \<noteq> last_update (pool_oracle s)"
    by (metis eq_iff_diff_eq_0 word_neq_0_conv)
  moreover have "can_write held Lock_oracle" "\<not> can_read held Lock_reserve_a"
    using assms by (auto simp: liquidity_guards_def swap_guards_def can_write_def can_read_def)
  ultimately show ?thesis
    by (auto simp: update_oracle_def get_price_def Let_def)
qed

lemmas update_oracle_liquidity = update_oracle_blocked [OF disjI1, OF refl]
lemmas update_oracle_swap = update_oracle_blocked [OF disjI2, OF refl]

section \<open>The constant product\<close>

definition pool_product :: "amm_pool \<Rightarrow> nat" where
  "pool_product s = unat (reserve_a s) * unat (reserve_b s)"

lemma constant_product:
  fixes ri ro a f out :: nat
  assumes "out = (f * ro) div (ri + f)" "f \<le> a" "ri + f \<noteq> 0"
  shows "out \<le> ro" and "ri * ro \<le> (ri + a) * (ro - out)"
proof -
  have le: "out * (ri + f) \<le> f * ro"
    by (simp add: assms(1))
  also have "\<dots> \<le> (ri + f) * ro" by simp
  finally have "out * (ri + f) \<le> ro * (ri + f)" by (simp add: mult.commute)
  with assms(3) show out_le: "out \<le> ro" by simp
  have "(ri + f) * (ro - out) = (ri + f) * ro - out * (ri + f)"
    by (simp add: diff_mult_distrib2 mult.commute [of out])
  moreover have "(ri + f) * ro = ri * ro + f * ro" by (simp add: distrib_right)
  ultimately have "ri * ro \<le> (ri + f) * (ro - out)" using le by linarith
  also have "\<dots> \<le> (ri + a) * (ro - out)" using assms(2) by (simp add: mult_le_mono1)
  finally show "ri * ro \<le> (ri + a) * (ro - out)" .
qed

lemma swap_amount_out_Some:
  assumes "swap_amount_out fee ri ro a = Some out"
  obtains f where "f = unat a * (10000 - unat fee) div 10000" "f \<le> unat a"
    "unat out = f * unat ro div (unat ri + f)" "unat ri + f \<noteq> 0" "unat fee \<le> 10000"
proof -
  from assms obtain keep gross f n d where ops: "usub 10000 fee = Some keep"
      "umul a keep = Some gross" "udiv gross 10000 = Some f" "umul f ro = Some n"
      "uadd ri f = Some d" "udiv n d = Some out"
    by (auto simp: swap_amount_out_def bind_eq_Some_conv)
  note eqs = ops [unfolded checked_ops]
  have "unat a * unat keep \<le> unat a * 10000"
    using eqs(1) by (intro mult_le_mono2) simp
  then have "unat f \<le> unat a"
    using eqs(2,3) div_le_mono [of "unat a * unat keep" "unat a * 10000" 10000] by simp
  moreover have "unat keep = 10000 - unat fee" using eqs(1) by simp
  ultimately show ?thesis
    using eqs by (intro that [of "unat f"]) simp_all
qed

lemma swap_amount_out_product:
  assumes "swap_amount_out fee ri ro a = Some out"
  shows "unat out \<le> unat ro"
    and "unat ri * unat ro \<le> (unat ri + unat a) * (unat ro - unat out)"
proof -
  from assms obtain f where "f \<le> unat a" "unat out = f * unat ro div (unat ri + f)" "unat ri + f \<noteq> 0"
    by (rule swap_amount_out_Some)
  then show "unat out \<le> unat ro" "unat ri * unat ro \<le> (unat ri + unat a) * (unat ro - unat out)"
    using constant_product [of "unat out" f "unat ro" "unat ri" "unat a"] by blast+
qed

section \<open>Swaps\<close>

lemma swap_step_product:
  assumes "swap_amount_out fee ri ro a = Some out"
    and "uadd ri a = Some ri'" and "usub ro out = Some ro'"
  shows "unat ri * unat ro \<le> unat ri' * unat ro'"
proof -
  from assms(2,3) have "unat ri' = unat ri + unat a" "unat ro' = unat ro - unat out"
    by (simp_all add: checked_ops)
  then show ?thesis using swap_amount_out_product(2) [OF assms(1)] by simp
qed

lemma swap_step_product':
  "swap_amount_out fee ri ro a = Some out \<Longrightarrow> uadd ri a = Some ri' \<Longrightarrow> usub ro out = Some ro'
     \<Longrightarrow> unat ro * unat ri \<le> unat ro' * unat ri'"
  using swap_step_product by (simp add: mult.commute)

lemma swap_output_available: "swap_amount_out fee ri ro a = Some out \<Longrightarrow> usub ro out \<noteq> None"
  using swap_amount_out_product(1) [of fee ri ro a out] by (simp add: usub_None not_less)

lemma swap_product_mono: "pool_product s \<le> pool_product (snd (swap now a tok s))"
  by (auto simp: swap_def Let_def update_oracle_swap pool_product_def split: or_panic_split
      intro: swap_step_product swap_step_product' dest: swap_output_available)

text \<open>
  What a swap that passes its checks does: the reserves move by exactly the two amounts, and the
  call returns only when the oracle's clock has not moved since its last update.
\<close>

lemma swap_effect:
  assumes "swap_amount_out (fee_rate s) (reserve_a s) (reserve_b s) a = Some out" "out \<noteq> 0"
    and "uadd (reserve_a s) a = Some ra"
  shows "swap now a (token_a s) s =
    (if now = last_update (pool_oracle s) then Ok out else Hang,
     s\<lparr>reserve_a := ra, reserve_b := reserve_b s - out\<rparr>)"
proof -
  have "usub (reserve_b s) out = Some (reserve_b s - out)"
    using swap_output_available [OF assms(1)] by (auto simp: usub_def split: if_splits)
  with assms show ?thesis
    by (simp add: swap_def update_oracle_swap)
qed

section \<open>LP tokens\<close>

text \<open>The LP supply is what the providers hold.\<close>

definition lp_backed :: "amm_pool \<Rightarrow> bool" where
  "lp_backed s \<longleftrightarrow> total_of (liquidity_providers s) = unat (total_supply s)"

lemma lp_backed_new: "lp_backed (amm_new ta tb)"
  by (simp add: lp_backed_def amm_new_def)

lemma lp_backed_oracle [simp]: "lp_backed (snd (update_oracle held now s)) = lp_backed s"
  by (simp add: lp_backed_def)

lemma apply_mint_providers [simp]:
  "liquidity_providers (snd (apply_mint a b s)) = liquidity_providers s"
  by (auto simp: apply_mint_def Let_def split: or_panic_split prod.split)

lemma apply_mint_supply:
  "apply_mint a b s = (Ok l, s') \<Longrightarrow> unat (total_supply s') = unat (total_supply s) + unat l"
  by (auto simp: apply_mint_def Let_def checked_ops split: if_splits prod.splits)

lemma apply_mint_failed:
  "\<not> is_ok (fst (apply_mint a b s)) \<Longrightarrow> total_supply (snd (apply_mint a b s)) = total_supply s"
  by (auto simp: apply_mint_def Let_def split: or_panic_split if_splits prod.splits)

text \<open>Crediting the provider cannot overflow: the supply bounds every balance.\<close>

lemma credit_provider_after_mint:
  assumes "lp_backed s" "apply_mint a b s = (Ok l, s')"
  obtains ps where "credit provider l (liquidity_providers s') = Some ps"
    and "total_of ps = unat (total_supply s')"
proof -
  have ps: "liquidity_providers s' = liquidity_providers s"
    using apply_mint_providers [of a b s] assms(2) by simp
  have sum: "total_of (liquidity_providers s) + unat l = unat (total_supply s')"
    using apply_mint_supply [OF assms(2)] assms(1) by (simp add: lp_backed_def)
  have "unat (balance (liquidity_providers s) provider) + unat l < 2 ^ LENGTH(256)"
    using balance_le_total [of "liquidity_providers s" provider] sum unat_less_256 [of "total_supply s'"]
    by simp
  then obtain m where m: "credit provider l (liquidity_providers s') = Some m"
    unfolding ps by (metis credit_None linorder_not_less not_Some_eq)
  with credit_Some [OF this] sum ps that show ?thesis by auto
qed

lemma add_liquidity_backed:
  assumes "lp_backed s"
  shows "lp_backed (snd (add_liquidity sha now a b provider s))"
  unfolding add_liquidity_def
proof (rule snd_and_then [where I = lp_backed])
  fix l s'
  assume mint: "apply_mint a b s = (Ok l, s')"
  obtain ps where "credit provider l (liquidity_providers s') = Some ps"
    and "total_of ps = unat (total_supply s')"
    by (rule credit_provider_after_mint [OF assms mint])
  then show "lp_backed (snd (and_then (credit_provider provider l s') (\<lambda>_ s.
     and_then (update_oracle liquidity_guards now s) (\<lambda>_ s.
       or_panic s (do { n \<leftarrow> as_u128 l; d \<leftarrow> as_u128 (total_supply s); Some (n, d) }) (\<lambda>sh.
         (Ok \<lparr> pool_id = sha (token_a s) (token_b s), lp_tokens = l, share = sh \<rparr>, s))))))"
    by (auto simp: credit_provider_def update_oracle_liquidity lp_backed_def split: or_panic_split)
next
  assume "\<not> is_ok (fst (apply_mint a b s))"
  with assms show "lp_backed (snd (apply_mint a b s))"
    by (simp add: lp_backed_def apply_mint_failed)
qed

lemma remove_liquidity_backed:
  assumes "lp_backed s"
  shows "lp_backed (snd (remove_liquidity now l provider s))"
proof -
  have upd: "total_of (AList.update provider p (liquidity_providers s)) = unat ts"
    if "usub (total_supply s) l = Some ts" "map_of (liquidity_providers s) provider = Some h"
      "usub h l = Some p" for ts h p
    using that assms total_of_update [of provider p "liquidity_providers s"]
    by (simp add: checked_ops balance_def lp_backed_def)
  have zero: "unat ts = unat (total_supply s)"
    if "usub (total_supply s) l = Some ts" "map_of (liquidity_providers s) provider = None"
      "\<not> balance (liquidity_providers s) provider < l" for ts
    using that by (simp add: checked_ops balance_def word_gt_0)
  have enough: "usub h l \<noteq> None" if "map_of (liquidity_providers s) provider = Some h"
      "\<not> balance (liquidity_providers s) provider < l" for h
    using that by (auto simp: usub_None balance_def word_less_nat_alt)
  show ?thesis
    using assms upd zero enough
    by (auto simp: remove_liquidity_def Let_def update_oracle_liquidity lp_backed_def split: or_panic_split)
qed

lemma redeem_le:
  fixes l ra x S A :: nat
  assumes "l * ra \<le> A * S" "x \<le> A" "0 < S + l"
  shows "l * (ra + x) div (S + l) \<le> A"
proof -
  have "l * ra + l * x \<le> A * S + A * l"
    using assms(1) mult_le_mono2 [OF assms(2), of l] by (simp only: mult.commute [of A l] add_mono)
  then have "l * (ra + x) \<le> A * (S + l)"
    by (simp only: distrib_left)
  then have "l * (ra + x) div (S + l) \<le> A * (S + l) div (S + l)"
    by (rule div_le_mono)
  with assms(3) show ?thesis by simp
qed

text \<open>Tokens minted for two amounts are worth at most these amounts, side by side.\<close>

lemma mint_liquidity_worth:
  assumes "mint_liquidity ra rb S a b = Some (l, xa, xb)"
  shows "unat l * unat ra \<le> unat a * unat S" "unat xa \<le> unat a" "unat xa = unat l * unat ra div unat S"
    and "unat l * unat rb \<le> unat b * unat S" "unat xb \<le> unat b" "unat xb = unat l * unat rb div unat S"
    and "unat S \<noteq> 0"
proof -
  from assms obtain na la nb lb ya yb where ops: "umul a S = Some na" "udiv na ra = Some la"
      "umul b S = Some nb" "udiv nb rb = Some lb" "umul (min la lb) ra = Some ya"
      "udiv ya S = Some xa" "umul (min la lb) rb = Some yb" "udiv yb S = Some xb"
    and l: "l = min la lb"
    by (auto simp: mint_liquidity_def bind_eq_Some_conv Let_def)
  note eqs = ops [folded l, unfolded checked_ops]
  have le: "unat l \<le> unat la" "unat l \<le> unat lb"
    by (simp_all add: l word_le_nat_alt [symmetric])
  show la: "unat l * unat ra \<le> unat a * unat S"
    using mult_le_mono1 [OF le(1), of "unat ra"] eqs(1,2)
    by (metis div_times_less_eq_dividend le_trans)
  show lb: "unat l * unat rb \<le> unat b * unat S"
    using mult_le_mono1 [OF le(2), of "unat rb"] eqs(3,4)
    by (metis div_times_less_eq_dividend le_trans)
  show "unat xa = unat l * unat ra div unat S" "unat xb = unat l * unat rb div unat S" "unat S \<noteq> 0"
    using eqs by simp_all
  show "unat xa \<le> unat a" "unat xb \<le> unat b"
    using eqs la lb div_le_mono [OF la, of "unat S"] div_le_mono [OF lb, of "unat S"] by simp_all
qed

lemma apply_mint_Ok:
  assumes "apply_mint a b s = (Ok l, s')" "unat (total_supply s') \<noteq> 0"
  shows "unat l * unat (reserve_a s') div unat (total_supply s') \<le> unat a"
    and "unat l * unat (reserve_b s') div unat (total_supply s') \<le> unat b"
proof -
  have "unat l * unat (reserve_a s') div unat (total_supply s') \<le> unat a \<and>
        unat l * unat (reserve_b s') div unat (total_supply s') \<le> unat b"
  proof (cases "total_supply s = 0")
    case True
    with assms show ?thesis by (auto simp: apply_mint_def)
  next
    case False
    with assms(1) obtain xa xb ra rb ts where
      mint: "mint_liquidity (reserve_a s) (reserve_b s) (total_supply s) a b = Some (l, xa, xb)"
      and "uadd (reserve_a s) xa = Some ra" "uadd (reserve_b s) xb = Some rb"
        "uadd (total_supply s) l = Some ts"
        "s' = s\<lparr>reserve_a := ra, reserve_b := rb, total_supply := ts\<rparr>"
      by (auto simp: apply_mint_def Let_def split: if_splits prod.splits)
    then show ?thesis
      using mint_liquidity_worth [OF mint]
      by (auto simp: checked_ops intro!: redeem_le)
  qed
  then show "unat l * unat (reserve_a s') div unat (total_supply s') \<le> unat a"
    "unat l * unat (reserve_b s') div unat (total_supply s') \<le> unat b" by blast+
qed

lemma remove_liquidity_Ok:
  assumes "remove_liquidity now l p s = (Ok (a, b), s')"
  shows "unat a = unat l * unat (reserve_a s) div unat (total_supply s)"
    and "unat b = unat l * unat (reserve_b s) div unat (total_supply s)"
    and "unat (total_supply s) \<noteq> 0"
    and "unat (reserve_a s') = unat (reserve_a s) - unat a"
    and "unat (reserve_b s') = unat (reserve_b s) - unat b"
    and "unat (total_supply s') = unat (total_supply s) - unat l"
    and "l \<le> balance (liquidity_providers s) p"
proof -
  from assms obtain na nb ra rb ts where ops: "umul l (reserve_a s) = Some na"
      "udiv na (total_supply s) = Some a" "umul l (reserve_b s) = Some nb"
      "udiv nb (total_supply s) = Some b" "usub (reserve_a s) a = Some ra"
      "usub (reserve_b s) b = Some rb" "usub (total_supply s) l = Some ts"
    and s': "reserve_a s' = ra" "reserve_b s' = rb" "total_supply s' = ts"
    and l: "l \<le> balance (liquidity_providers s) p"
    by (auto simp: remove_liquidity_def Let_def update_oracle_liquidity bind_eq_Some_conv not_less
        split: if_splits prod.splits)
  note eqs = ops [unfolded checked_ops]
  show "unat a = unat l * unat (reserve_a s) div unat (total_supply s)"
    "unat b = unat l * unat (reserve_b s) div unat (total_supply s)" "unat (total_supply s) \<noteq> 0"
    "unat (reserve_a s') = unat (reserve_a s) - unat a"
    "unat (reserve_b s') = unat (reserve_b s) - unat b"
    "unat (total_supply s') = unat (total_supply s) - unat l"
    using eqs s' by simp_all
  show "l \<le> balance (liquidity_providers s) p" by (rule l)
qed

lemma add_liquidity_Ok:
  assumes "add_liquidity sha now a b p s = (Ok r, s')"
  obtains l s1 ps where "apply_mint a b s = (Ok l, s1)" "lp_tokens r = l"
    "credit p l (liquidity_providers s) = Some ps"
    "s' = s1\<lparr>liquidity_providers := ps\<rparr>" "now = last_update (pool_oracle s1)"
proof -
  from assms obtain l s1 ps where mint: "apply_mint a b s = (Ok l, s1)" and l: "lp_tokens r = l"
    and ps: "credit p l (liquidity_providers s1) = Some ps"
    and s': "s' = s1\<lparr>liquidity_providers := ps\<rparr>" and now: "now = last_update (pool_oracle s1)"
    by (auto simp: add_liquidity_def credit_provider_def update_oracle_liquidity split: if_splits)
  have "liquidity_providers s1 = liquidity_providers s"
    using apply_mint_providers [of a b s] mint by simp
  with mint l ps s' now show ?thesis by (intro that) simp_all
qed

lemma apply_mint_oracle [simp]: "pool_oracle (snd (apply_mint a b s)) = pool_oracle s"
  by (auto simp: apply_mint_def Let_def split: or_panic_split prod.split)

text \<open>What a deposit mints and pays in, and what redeeming takes out, whatever the outcome of the call.\<close>

lemma redeem_floor:
  fixes l ra S :: nat
  assumes "0 < S"
  shows "l * (ra + l * ra div S) div (S + l) \<le> l * ra div S"
proof -
  define x where "x = l * ra div S"
  have "l * ra < (x + 1) * S" using assms by (simp add: x_def dividend_less_div_times)
  then have "l * (ra + x) < (x + 1) * (S + l)" by (simp add: algebra_simps)
  then have "l * (ra + x) div (S + l) < x + 1" by (rule less_mult_imp_div_less)
  then show ?thesis by (simp add: x_def)
qed

lemma remove_liquidity_takes:
  "unat (reserve_a s) \<le> unat (reserve_a (snd (remove_liquidity now l p s))) + unat l * unat (reserve_a s) div unat (total_supply s) \<and>
   unat (reserve_b s) \<le> unat (reserve_b (snd (remove_liquidity now l p s))) + unat l * unat (reserve_b s) div unat (total_supply s)"
proof -
  define I where "I = (\<lambda>s' :: amm_pool. unat (reserve_a s) \<le> unat (reserve_a s') + unat l * unat (reserve_a s) div unat (total_supply s) \<and>
      unat (reserve_b s) \<le> unat (reserve_b s') + unat l * unat (reserve_b s) div unat (total_supply s))"
  have same: "I s'" if "reserve_a s' = reserve_a s \<or> unat (reserve_a s') = unat (reserve_a s) - unat l * unat (reserve_a s) div unat (total_supply s)"
    "reserve_b s' = reserve_b s \<or> unat (reserve_b s') = unat (reserve_b s) - unat l * unat (reserve_b s) div unat (total_supply s)" for s'
    using that by (auto simp: I_def)
  have "I (snd (remove_liquidity now l p s))"
  proof (cases "balance (liquidity_providers s) p < l")
    case True
    then show ?thesis by (simp add: remove_liquidity_def same)
  next
    case False
    show ?thesis
      unfolding remove_liquidity_def Let_def if_not_P [OF False]
    proof (rule snd_or_panic [where I = I], goal_cases)
      case 1
      show ?case by (rule same) simp_all
    next
      case (2 ab)
      then obtain a b where ab: "ab = (a, b)" and a: "unat a = unat l * unat (reserve_a s) div unat (total_supply s)"
        and b: "unat b = unat l * unat (reserve_b s) div unat (total_supply s)"
        by (auto simp: bind_eq_Some_conv checked_ops)
      show ?case unfolding ab prod.case
      proof (rule snd_or_panic [where I = I], goal_cases)
        case 1
        show ?case by (rule same) simp_all
      next
        case (2 ra)
        with a have ra: "unat ra = unat (reserve_a s) - unat l * unat (reserve_a s) div unat (total_supply s)"
          by (simp add: checked_ops)
        show ?case
        proof (rule snd_or_panic [where I = I], goal_cases)
          case 1
          show ?case by (rule same) (simp_all add: ra)
        next
          case (2 rb)
          with b have rb: "unat rb = unat (reserve_b s) - unat l * unat (reserve_b s) div unat (total_supply s)"
            by (simp add: checked_ops)
          have both: "I s'" if "reserve_a s' = ra" "reserve_b s' = rb" for s'
            using that ra rb by (intro same) simp_all
          show ?case
            by (intro snd_or_panic [where I = I]) (simp_all add: both update_oracle_liquidity)
        qed
      qed
    qed
  qed
  then show ?thesis by (simp add: I_def)
qed

lemma add_liquidity_reserves:
  "reserve_a (snd (add_liquidity sha now a b p s)) = reserve_a (snd (apply_mint a b s))"
  "reserve_b (snd (add_liquidity sha now a b p s)) = reserve_b (snd (apply_mint a b s))"
  "total_supply (snd (add_liquidity sha now a b p s)) = total_supply (snd (apply_mint a b s))"
proof -
  obtain r s1 where m: "apply_mint a b s = (r, s1)" by fastforce
  show "reserve_a (snd (add_liquidity sha now a b p s)) = reserve_a (snd (apply_mint a b s))"
    "reserve_b (snd (add_liquidity sha now a b p s)) = reserve_b (snd (apply_mint a b s))"
    "total_supply (snd (add_liquidity sha now a b p s)) = total_supply (snd (apply_mint a b s))"
    unfolding add_liquidity_def m
    by (cases r; auto simp: credit_provider_def update_oracle_liquidity split: or_panic_split)+
qed

lemma apply_mint_keeps:
  assumes "total_supply s \<noteq> 0"
  shows "reserve_a s \<le> reserve_a (snd (apply_mint a b s)) \<and> reserve_b s \<le> reserve_b (snd (apply_mint a b s))"
proof -
  have "x \<le> z" if "uadd x y = Some z" for x y z :: u256 using that by (auto simp: checked_ops word_le_nat_alt)
  with assms show ?thesis by (auto simp: apply_mint_def Let_def split: or_panic_split prod.split)
qed

lemma apply_mint_leaves:
  assumes "apply_mint a b s = (Ok l, s')" "total_supply s \<noteq> 0"
  shows "unat (reserve_a s) + unat l * unat (reserve_a s') div unat (total_supply s') \<le> unat (reserve_a s')"
    and "unat (reserve_b s) + unat l * unat (reserve_b s') div unat (total_supply s') \<le> unat (reserve_b s')"
proof -
  from assms obtain xa xb ra rb ts where
    mint: "mint_liquidity (reserve_a s) (reserve_b s) (total_supply s) a b = Some (l, xa, xb)"
    and new: "uadd (reserve_a s) xa = Some ra" "uadd (reserve_b s) xb = Some rb" "uadd (total_supply s) l = Some ts"
      "s' = s\<lparr>reserve_a := ra, reserve_b := rb, total_supply := ts\<rparr>"
    by (auto simp: apply_mint_def Let_def split: if_splits prod.splits)
  have S: "0 < unat (total_supply s)" using assms(2) by (simp add: unat_gt_0)
  note x = mint_liquidity_worth(3,6) [OF mint]
  from redeem_floor [OF S, of "unat l" "unat (reserve_a s)"] redeem_floor [OF S, of "unat l" "unat (reserve_b s)"] new x
  show "unat (reserve_a s) + unat l * unat (reserve_a s') div unat (total_supply s') \<le> unat (reserve_a s')"
    "unat (reserve_b s) + unat l * unat (reserve_b s') div unat (total_supply s') \<le> unat (reserve_b s')"
    by (simp_all add: checked_ops)
qed

section \<open>Properties\<close>

text \<open>\<^verbatim>\<open>sqrt\<close> returns the integer square root of its argument, rounded down, for every 256-bit value
  but the largest one, where \<^verbatim>\<open>x + 1\<close> overflows and it panics. In particular its loop ends.\<close>

theorem amm_sqrt_floor:
  "case amm_sqrt x of
     None \<Rightarrow> unat x = 2 ^ 256 - 1
   | Some r \<Rightarrow> (unat r)\<^sup>2 \<le> unat x \<and> unat x < (unat r + 1)\<^sup>2"
proof (cases "unat x + 1 < 2 ^ 256")
  case True
  from amm_sqrt_correct [OF this] show ?thesis by auto
next
  case False
  then have "unat x = 2 ^ 256 - 1" using unat_less_256 [of x] by linarith
  moreover from this have "uadd x 1 = None" "x \<noteq> 0" by (auto simp: uadd_None)
  ultimately show ?thesis by (simp add: amm_sqrt_def)
qed

text \<open>C10: no call of \<^verbatim>\<open>swap\<close>, whatever its outcome, lowers the product of the two reserves of the
  pool.\<close>

theorem swap_never_lowers_product:
  "unat (reserve_a s) * unat (reserve_b s)
     \<le> unat (reserve_a (snd (swap now amount_in token_in s)))
         * unat (reserve_b (snd (swap now amount_in token_in s)))"
  using swap_product_mono [of s now amount_in token_in] by (simp add: pool_product_def)

text \<open>\<^verbatim>\<open>swap\<close>, \<^verbatim>\<open>add_liquidity\<close> and \<^verbatim>\<open>remove_liquidity\<close> never return \<^verbatim>\<open>Ok\<close> once the clock has moved past the
  oracle's last update (on a new pool, time 0): they call \<^verbatim>\<open>update_oracle\<close>, which reads the reserves'
  locks, while they hold the write guards of the same locks.\<close>

theorem amm_operations_block_themselves:
  assumes "now \<noteq> last_update (pool_oracle s)"
  shows "\<not> is_ok (fst (swap now amount_in token_in s)) \<and>
    \<not> is_ok (fst (add_liquidity sha now amount_a amount_b provider s)) \<and>
    \<not> is_ok (fst (remove_liquidity now tokens provider s))"
proof -
  have "\<not> is_ok (fst (swap now amount_in token_in s))"
    using assms by (auto simp: swap_def Let_def update_oracle_swap split: or_panic_split)
  moreover have "pool_oracle s1 = pool_oracle s" if "apply_mint amount_a amount_b s = (Ok l, s1)" for l s1
    using that apply_mint_oracle [of amount_a amount_b s] by simp
  then have "\<not> is_ok (fst (add_liquidity sha now amount_a amount_b provider s))"
    using assms by (auto simp: add_liquidity_def credit_provider_def update_oracle_liquidity split: if_splits)
  moreover have "\<not> is_ok (fst (remove_liquidity now tokens provider s))"
    using assms by (auto simp: remove_liquidity_def Let_def update_oracle_liquidity split: or_panic_split)
  ultimately show ?thesis by blast
qed

theorem amm_operations_block_themselves_witness:
  "\<not> is_ok (fst (swap 1700000000 5 1 (amm_new 1 2))) \<and>
    \<not> is_ok (fst (add_liquidity (\<lambda>_ _. 0) 1700000000 4 9 7 (amm_new 1 2))) \<and>
    \<not> is_ok (fst (remove_liquidity 1700000000 0 7 (amm_new 1 2)))"
  by (rule amm_operations_block_themselves) (simp add: amm_new_def)

text \<open>A swap of the first token that passes its checks moves the two reserves by exactly the amount paid and
  the amount computed, whether it returns (the oracle's clock has not moved) or is suspended for ever.\<close>

theorem swap_moves_reserves:
  assumes "swap_amount_out (fee_rate s) (reserve_a s) (reserve_b s) a = Some out" and "out \<noteq> 0"
    and "unat (reserve_a s) + unat a < 2 ^ 256"
  shows "swap now a (token_a s) s =
    (if now = last_update (pool_oracle s) then Ok out else Hang,
     s\<lparr>reserve_a := reserve_a s + a, reserve_b := reserve_b s - out\<rparr>)"
proof -
  have "uadd (reserve_a s) a = Some (reserve_a s + a)"
    using assms(3) by (simp add: uadd_def)
  from swap_effect [OF assms(1,2) this] show ?thesis .
qed

theorem swap_moves_reserves_witness:
  "let s = (amm_new 1 2)\<lparr>reserve_a := 1000000, reserve_b := 1000000\<rparr> in
   swap 5 1000 1 s = (Hang, s\<lparr>reserve_a := 1001000, reserve_b := 999004\<rparr>) \<and>
   swap 0 1000 1 s = (Ok 996, s\<lparr>reserve_a := 1001000, reserve_b := 999004\<rparr>)"
proof -
  let ?s = "(amm_new 1 2)\<lparr>reserve_a := 1000000, reserve_b := 1000000\<rparr>"
  have out: "swap_amount_out (fee_rate ?s) (reserve_a ?s) (reserve_b ?s) 1000 = Some 996"
    by (simp add: amm_new_def swap_amount_out_def usub_def umul_def udiv_def uadd_def)
  have lt: "unat (reserve_a ?s) + unat (1000 :: u256) < 2 ^ 256" by simp
  from swap_moves_reserves [OF out _ lt, of 5] swap_moves_reserves [OF out _ lt, of 0]
  show ?thesis by (simp add: amm_new_def)
qed

text \<open>Adding and removing liquidity keep the LP supply of a pool equal to the sum of its providers'
  balances, on every outcome (errors, panics and suspended calls included).\<close>

theorem lp_supply_is_held_by_providers:
  assumes "lp_backed s"
  shows "lp_backed (snd (add_liquidity sha now a b p s)) \<and> lp_backed (snd (remove_liquidity now l p s))"
  using add_liquidity_backed [OF assms] remove_liquidity_backed [OF assms] by blast

theorem lp_supply_is_held_by_providers_witness:
  "lp_backed (amm_new 1 2) \<and> lp_backed (snd (add_liquidity (\<lambda>_ _. 0) 0 4 9 7 (amm_new 1 2))) \<and>
     lp_backed (snd (remove_liquidity 0 0 7 (amm_new 1 2)))"
  using lp_supply_is_held_by_providers [OF lp_backed_new] lp_backed_new by blast

text \<open>
  C12: depositing gains nothing. Redeem as many LP tokens as a deposit minted, at any clock: however the two calls end (also
  when one panics half way, or is suspended by its own oracle update), the redemption takes out of each reserve at most what
  the deposit offered, and when the pool had LP tokens before, each reserve is at least what it was before the deposit. When
  both calls return, they pay out at most the amounts offered; they return only while the clock reads the pool's last update,
  which none of these operations moves (it is 0 in a new pool): the update that would move it suspends the call.
\<close>

theorem deposit_then_withdraw_no_gain:
  assumes "add_liquidity sha t a b p s = (r1, s1)" and "unat (total_supply s1) = unat (total_supply s) + unat l"
    and "remove_liquidity t' l p s1 = (r2, s2)"
  shows "unat (reserve_a s1) \<le> unat (reserve_a s2) + unat a \<and> unat (reserve_b s1) \<le> unat (reserve_b s2) + unat b \<and>
    (total_supply s \<noteq> 0 \<longrightarrow> reserve_a s \<le> reserve_a s2 \<and> reserve_b s \<le> reserve_b s2) \<and>
    (\<forall>r x y. r1 = Ok r \<and> r2 = Ok (x, y) \<longrightarrow> lp_tokens r = l \<and> x \<le> a \<and> y \<le> b \<and>
       t = last_update (pool_oracle s) \<and> t' = t)"
proof -
  obtain r0 s0 where mint: "apply_mint a b s = (r0, s0)" by fastforce
  have s1: "reserve_a s1 = reserve_a s0" "reserve_b s1 = reserve_b s0" "total_supply s1 = total_supply s0"
    using add_liquidity_reserves [of sha t a b p s] assms(1) mint by simp_all
  note drained = remove_liquidity_takes [of s1 t' l p, unfolded assms(3) snd_conv]
  have pays: "unat l * unat (reserve_a s0) div unat (total_supply s0) \<le> unat a \<and>
      unat l * unat (reserve_b s0) div unat (total_supply s0) \<le> unat b \<and>
      (total_supply s \<noteq> 0 \<longrightarrow> unat (reserve_a s) + unat l * unat (reserve_a s0) div unat (total_supply s0) \<le> unat (reserve_a s0) \<and>
        unat (reserve_b s) + unat l * unat (reserve_b s0) div unat (total_supply s0) \<le> unat (reserve_b s0))"
  proof (cases r0)
    case (Ok k)
    have "k = l" using apply_mint_supply [OF mint [unfolded Ok]] assms(2) s1(3) by (simp add: word_unat_eq_iff)
    note m = mint [unfolded Ok this]
    show ?thesis
    proof (cases "unat (total_supply s0) = 0")
      case True
      with apply_mint_supply [OF m] show ?thesis by (simp add: word_unat_eq_iff)
    next
      case False
      then show ?thesis using apply_mint_Ok [OF m] apply_mint_leaves [OF m] by blast
    qed
  qed (use apply_mint_failed [of a b s] apply_mint_keeps [of s a b] mint assms(2) s1(3) in \<open>simp_all add: word_le_nat_alt\<close>)
  moreover have "lp_tokens r = l \<and> x \<le> a \<and> y \<le> b \<and> t = last_update (pool_oracle s) \<and> t' = t"
    if r: "r1 = Ok r" "r2 = Ok (x, y)" for r x y
  proof -
    obtain k s3 ps where k: "apply_mint a b s = (Ok k, s3)" "lp_tokens r = k" "s1 = s3\<lparr>liquidity_providers := ps\<rparr>"
        "t = last_update (pool_oracle s3)"
      by (rule add_liquidity_Ok [OF assms(1) [unfolded r]])
    have o: "pool_oracle s3 = pool_oracle s" using apply_mint_oracle [of a b s] k(1) by simp
    have "k = l" using apply_mint_supply [OF k(1)] assms(2) k(3) by (simp add: word_unat_eq_iff)
    moreover have "t' = last_update (pool_oracle s1)"
      using assms(3) r(2) by (auto simp: remove_liquidity_def Let_def update_oracle_liquidity split: if_splits prod.splits)
    moreover note remove_liquidity_Ok(1,2) [OF assms(3) [unfolded r]]
    ultimately show ?thesis using k o pays s1 by (simp add: word_le_nat_alt)
  qed
  ultimately show ?thesis using drained s1 by (auto simp: word_le_nat_alt)
qed

text \<open>
  Two runs on the same pool: at the pool's clock both calls return; at a later one the redemption is suspended, after it
  has lowered the reserves.
\<close>

theorem deposit_then_withdraw_no_gain_witness:
  "\<exists>s r s1 s2 s3. add_liquidity (\<lambda>_ _. 0) 0 10 40 7 s = (Ok r, s1) \<and> lp_tokens r = 15 \<and>
     remove_liquidity 0 15 7 s1 = (Ok (10, 30), s2) \<and> remove_liquidity 9 15 7 s1 = (Hang, s3) \<and>
     reserve_b s1 = 120 \<and> reserve_b s3 = 90 \<and>
     unat (reserve_b s1) \<le> unat (reserve_b s3) + unat (40 :: u256) \<and> reserve_b s \<le> reserve_b s3 \<and> (10 :: u256) \<le> 10"
proof -
  let ?s = "(amm_new 1 2)\<lparr>reserve_a := 30, reserve_b := 90, total_supply := 45, liquidity_providers := [(3, 45)]\<rparr>"
  let ?r = "\<lparr> pool_id = 0, lp_tokens = 15, share = (15, 60) \<rparr>"
  let ?s1 = "?s\<lparr>reserve_a := 40, reserve_b := 120, total_supply := 60, liquidity_providers := [(3, 45), (7, 15)]\<rparr>"
  let ?s2 = "?s\<lparr>reserve_a := 30, reserve_b := 90, total_supply := 45, liquidity_providers := [(3, 45), (7, 0)]\<rparr>"
  have add: "add_liquidity (\<lambda>_ _. 0) 0 10 40 7 ?s = (Ok ?r, ?s1)"
    by (simp add: add_liquidity_def apply_mint_def mint_liquidity_def credit_provider_def credit_def
        balance_def update_oracle_liquidity amm_new_def umul_def udiv_def uadd_def as_u128_def Let_def
        min_def)
  have "remove_liquidity t 15 7 ?s1 = ((if t = 0 then Ok (10, 30) else Hang), ?s2)" for t
    by (simp add: remove_liquidity_def balance_def update_oracle_liquidity amm_new_def umul_def udiv_def
        usub_def Let_def)
  from this [of 0] this [of 9] have remove: "remove_liquidity 0 15 7 ?s1 = (Ok (10, 30), ?s2)" "remove_liquidity 9 15 7 ?s1 = (Hang, ?s2)"
    by simp_all
  have minted: "unat (total_supply ?s1) = unat (total_supply ?s) + unat (15 :: u256)" by simp
  from deposit_then_withdraw_no_gain [OF add minted remove(1)] deposit_then_withdraw_no_gain [OF add minted remove(2)] add remove
  show ?thesis by (intro exI [of _ ?s] exI [of _ ?r] exI [of _ ?s1] exI [of _ ?s2]) simp
qed

text \<open>Redeeming pays at most the pro-rata part of the reserves and never lowers what backs a remaining
  LP token, in either reserve.\<close>

theorem remove_liquidity_pro_rata:
  assumes "remove_liquidity now l p s = (Ok (a, b), s')"
  shows "unat a * unat (total_supply s) \<le> unat l * unat (reserve_a s) \<and>
    unat b * unat (total_supply s) \<le> unat l * unat (reserve_b s) \<and>
    unat (reserve_a s) * unat (total_supply s') \<le> unat (reserve_a s') * unat (total_supply s) \<and>
    unat (reserve_b s) * unat (total_supply s') \<le> unat (reserve_b s') * unat (total_supply s) \<and>
    l \<le> balance (liquidity_providers s) p"
proof -
  note eff = remove_liquidity_Ok [OF assms]
  have a: "unat a * unat (total_supply s) \<le> unat l * unat (reserve_a s)"
    and b: "unat b * unat (total_supply s) \<le> unat l * unat (reserve_b s)"
    by (simp_all add: eff(1,2))
  have rest: "r * (S - k) \<le> (r - x) * S" if "x * S \<le> k * r" for r S k x :: nat
    using that by (simp add: diff_mult_distrib diff_mult_distrib2 mult.commute diff_le_mono2)
  from rest [OF a] rest [OF b] a b eff(4-7) show ?thesis by simp
qed

theorem remove_liquidity_pro_rata_witness:
  "\<exists>s s'. remove_liquidity 0 15 7 s = (Ok (10, 30), s') \<and> total_supply s = 60 \<and> reserve_a s = 41 \<and>
     unat (10 :: u256) * unat (60 :: u256) \<le> unat (15 :: u256) * unat (41 :: u256)"
proof -
  let ?s = "(amm_new 1 2)\<lparr>reserve_a := 41, reserve_b := 120, total_supply := 60,
    liquidity_providers := [(3, 45), (7, 15)]\<rparr>"
  let ?s' = "?s\<lparr>reserve_a := 31, reserve_b := 90, total_supply := 45, liquidity_providers := [(3, 45), (7, 0)]\<rparr>"
  have "remove_liquidity 0 15 7 ?s = (Ok (10, 30), ?s')"
    by (simp add: remove_liquidity_def balance_def update_oracle_liquidity amm_new_def umul_def udiv_def
        usub_def Let_def)
  from remove_liquidity_pro_rata [OF this] this show ?thesis
    by (intro exI [of _ ?s] exI [of _ ?s']) simp
qed

end
