(* ===== verification/OrderBook.thy ===== *)
theory OrderBook
  imports Amm
begin

text \<open>
  The limit order book of \<^verbatim>\<open>src/dex/orderbook.rs\<close> (with the order and trade types of
  \<^verbatim>\<open>src/dex/mod.rs\<close>): adding, matching and cancelling orders, market statistics, depth and the cost
  of a market buy.

  A \<^verbatim>\<open>BTreeMap<U256, VecDeque<Order>>\<close> is an association list in ascending key order. The identifier
  of a new order (a hash over random bytes) and the clock are arguments; \<open>clock n\<close> is the time read
  for the \<open>n\<close>-th trade of a call. The code reaches its error and panic exits before it stores anything
  unless the definitions say otherwise.
\<close>

section \<open>Orders and the book\<close>

datatype order_type = Market | Limit | StopLoss | TakeProfit | IcebergOrder u256

datatype order_side = Buy | Sell

record order =
  id_of :: "h256 option"
  trader :: address
  type_of :: order_type
  side :: order_side
  base_token :: h256
  quote_token :: h256
  amount :: u256
  price :: u256
  timestamp :: u64
  expiry :: "u64 option"

record trade =
  maker_order_id :: h256
  taker_order_id :: h256
  trade_amount :: u256
  trade_price :: u256
  trade_timestamp :: u64

type_synonym levels = "(u256 \<times> order list) list"

record market_stats =
  volume_24h :: u256
  high_24h :: u256
  low_24h :: u256
  trades_24h :: u64

record order_book =
  buy_orders :: levels
  sell_orders :: levels
  order_index :: "h256 \<rightharpoonup> order"
  last_price :: u256
  stats :: market_stats

definition book_new :: order_book where
  "book_new = \<lparr> buy_orders = [], sell_orders = [], order_index = Map.empty, last_price = 0,
     stats = \<lparr> volume_24h = 0, high_24h = 0, low_24h = 0, trades_24h = 0 \<rparr> \<rparr>"

section \<open>Adding orders\<close>

text \<open>\<^verbatim>\<open>entry(price).or_insert_with(VecDeque::new).push_back(order)\<close> on the ordered map.\<close>

fun push_back :: "u256 \<Rightarrow> order \<Rightarrow> levels \<Rightarrow> levels" where
  "push_back p ord [] = [(p, [ord])]"
| "push_back p ord ((q, os) # ls) =
     (if p < q then (p, [ord]) # (q, os) # ls
      else if p = q then (q, os @ [ord]) # ls
      else (q, os) # push_back p ord ls)"

definition add_limit_order :: "order \<Rightarrow> order_book \<Rightarrow> (dex_error, unit) outcome \<times> order_book" where
  "add_limit_order ord b =
     or_panic b (id_of ord) (\<lambda>i.
       let b1 = b\<lparr>order_index := (order_index b)(i \<mapsto> ord)\<rparr> in
       (Ok (), case side ord of
          Buy \<Rightarrow> b1\<lparr>buy_orders := push_back (price ord) ord (buy_orders b1)\<rparr>
        | Sell \<Rightarrow> b1\<lparr>sell_orders := push_back (price ord) ord (sell_orders b1)\<rparr>))"

text \<open>
  Only the visible part of an iceberg order is stored; the hidden remainder is computed (and panics when
  the visible amount exceeds the order) and dropped.
\<close>

definition add_iceberg_order ::
  "order \<Rightarrow> u256 \<Rightarrow> order_book \<Rightarrow> (dex_error, unit) outcome \<times> order_book" where
  "add_iceberg_order ord visible b =
     or_panic b (usub (amount ord) visible) (\<lambda>hidden. add_limit_order (ord\<lparr>amount := visible\<rparr>) b)"

definition add_conditional_order :: "order \<Rightarrow> order_book \<Rightarrow> (dex_error, unit) outcome \<times> order_book" where
  "add_conditional_order ord b = (Ok (), b)"

definition add_order :: "h256 \<Rightarrow> order \<Rightarrow> order_book \<Rightarrow> (dex_error, h256) outcome \<times> order_book" where
  "add_order fresh_id ord0 b =
     (let ord = ord0\<lparr>id_of := Some fresh_id\<rparr> in
      case type_of ord of
        Limit \<Rightarrow> and_then (add_limit_order ord b) (\<lambda>_ b. (Ok fresh_id, b))
      | Market \<Rightarrow> (Err InvalidPrice, b)
      | StopLoss \<Rightarrow> and_then (add_conditional_order ord b) (\<lambda>_ b. (Ok fresh_id, b))
      | TakeProfit \<Rightarrow> and_then (add_conditional_order ord b) (\<lambda>_ b. (Ok fresh_id, b))
      | IcebergOrder v \<Rightarrow> and_then (add_iceberg_order ord v b) (\<lambda>_ b. (Ok fresh_id, b)))"

section \<open>Matching\<close>

text \<open>The variables the matching loops update; \<open>queue\<close> is the price level at hand.\<close>

record matching =
  index :: "h256 \<rightharpoonup> order"
  remaining :: u256
  trades :: "trade list"

definition trade_of :: "order \<Rightarrow> (nat \<Rightarrow> u64) \<Rightarrow> u256 \<Rightarrow> h256 \<Rightarrow> u256 \<Rightarrow> matching \<Rightarrow> trade" where
  "trade_of taker clock p maker_id amt m =
     \<lparr> maker_order_id = maker_id,
       taker_order_id = (case id_of taker of None \<Rightarrow> 0 | Some i \<Rightarrow> i),
       trade_amount = amt, trade_price = p, trade_timestamp = clock (length (trades m)) \<rparr>"

definition after_trade :: "order \<Rightarrow> (nat \<Rightarrow> u64) \<Rightarrow> u256 \<Rightarrow> h256 \<Rightarrow> u256 \<Rightarrow> matching \<Rightarrow> matching" where
  "after_trade taker clock p maker_id amt m =
     m\<lparr>trades := trades m @ [trade_of taker clock p maker_id amt m], remaining := remaining m - amt\<rparr>"

definition used_up :: "h256 \<Rightarrow> matching \<Rightarrow> matching" where
  "used_up maker_id m = m\<lparr>index := (index m)(maker_id := None)\<rparr>"

text \<open>
  The inner loop over the orders of one price level. The flag is \<open>False\<close> after a panic (a resting order
  without an identifier). A maker that is not used up stays in front; then nothing remains to fill.
\<close>

function fill_level ::
  "order \<Rightarrow> (nat \<Rightarrow> u64) \<Rightarrow> u256 \<Rightarrow> order list \<Rightarrow> matching \<Rightarrow> bool \<times> order list \<times> matching" where
  "fill_level taker clock p [] m = (True, [], m)"
| "fill_level taker clock p (mk # mks) m =
     (if remaining m = 0 then (True, mk # mks, m)
      else
        let amt = min (remaining m) (amount mk) in
        case id_of mk of
          None \<Rightarrow> (False, mk # mks, m)
        | Some i \<Rightarrow>
            if amount mk - amt = 0
            then fill_level taker clock p mks (used_up i (after_trade taker clock p i amt m))
            else fill_level taker clock p (mk\<lparr>amount := amount mk - amt\<rparr> # mks)
                   (after_trade taker clock p i amt m))"
  by pat_completeness auto
termination
proof (relation "measures [\<lambda>(_, _, _, os, _). length os, \<lambda>(_, _, _, _, m). unat (remaining m)]", goal_cases)
  case 1
  show ?case by simp
next
  case (2 taker clock p mk mks m amt i)
  then show ?case by simp
next
  case (3 taker clock p mk mks m amt i)
  then have "amount mk - min (remaining m) (amount mk) \<noteq> 0" by simp
  then have "min (remaining m) (amount mk) = remaining m"
    by (auto simp: min_def split: if_splits)
  with 3 show ?case by (simp add: after_trade_def unat_gt_0)
qed

declare fill_level.simps(2) [simp del]

text \<open>
  The outer loop over a snapshot of the prices, best first. \<open>beyond\<close> is the limit check that ends it.
\<close>

definition store_level :: "u256 \<Rightarrow> order list \<Rightarrow> levels \<Rightarrow> levels" where
  "store_level p os ls = (if os = [] then AList.delete p ls else AList.update p os ls)"

fun match_prices ::
  "order \<Rightarrow> (nat \<Rightarrow> u64) \<Rightarrow> (u256 \<Rightarrow> bool) \<Rightarrow> u256 list \<Rightarrow> levels \<Rightarrow> matching
     \<Rightarrow> bool \<times> levels \<times> matching" where
  "match_prices taker clock beyond [] ls m = (True, ls, m)"
| "match_prices taker clock beyond (p # ps) ls m =
     (if remaining m = 0 then (True, ls, m)
      else if beyond p then (True, ls, m)
      else case map_of ls p of
        None \<Rightarrow> match_prices taker clock beyond ps ls m
      | Some os \<Rightarrow>
          (case fill_level taker clock p os m of
             (ok, os', m') \<Rightarrow>
               if ok then match_prices taker clock beyond ps (store_level p os' ls) m'
               else (False, AList.update p os' ls, m')))"

definition beyond_limit :: "order \<Rightarrow> u256 \<Rightarrow> bool" where
  "beyond_limit taker p \<longleftrightarrow> type_of taker = Limit \<and>
     (case side taker of Buy \<Rightarrow> price taker < p | Sell \<Rightarrow> p < price taker)"

definition start_matching :: "u256 \<Rightarrow> order_book \<Rightarrow> matching" where
  "start_matching amt b = \<lparr> index = order_index b, remaining = amt, trades = [] \<rparr>"

definition match_buy_order ::
  "(nat \<Rightarrow> u64) \<Rightarrow> order \<Rightarrow> u256 \<Rightarrow> order_book \<Rightarrow> (dex_error, trade list) outcome \<times> order_book" where
  "match_buy_order clock taker amt b =
     (case match_prices taker clock (beyond_limit taker) (map fst (sell_orders b)) (sell_orders b)
             (start_matching amt b) of
        (ok, ls, m) \<Rightarrow>
          (if ok then Ok (trades m) else Panic, b\<lparr>sell_orders := ls, order_index := index m\<rparr>))"

definition match_sell_order ::
  "(nat \<Rightarrow> u64) \<Rightarrow> order \<Rightarrow> u256 \<Rightarrow> order_book \<Rightarrow> (dex_error, trade list) outcome \<times> order_book" where
  "match_sell_order clock taker amt b =
     (case match_prices taker clock (beyond_limit taker) (rev (map fst (buy_orders b))) (buy_orders b)
             (start_matching amt b) of
        (ok, ls, m) \<Rightarrow>
          (if ok then Ok (trades m) else Panic, b\<lparr>buy_orders := ls, order_index := index m\<rparr>))"

text \<open>The statistics: the trade counter is a wrapping \<^verbatim>\<open>u64\<close>, the volume panics on overflow.\<close>

definition record_trade :: "trade \<Rightarrow> order_book \<Rightarrow> order_book option" where
  "record_trade t b = do {
     v \<leftarrow> uadd (volume_24h (stats b)) (trade_amount t);
     let s = stats b;
     Some (b\<lparr>stats := \<lparr> volume_24h = v,
        high_24h = (if high_24h s < trade_price t then trade_price t else high_24h s),
        low_24h = (if low_24h s = 0 \<or> trade_price t < low_24h s then trade_price t else low_24h s),
        trades_24h = trades_24h s + 1 \<rparr>, last_price := trade_price t\<rparr>)
   }"

fun update_stats :: "trade list \<Rightarrow> order_book \<Rightarrow> (dex_error, unit) outcome \<times> order_book" where
  "update_stats [] b = (Ok (), b)"
| "update_stats (t # ts) b = or_panic b (record_trade t b) (update_stats ts)"

definition match_order ::
  "(nat \<Rightarrow> u64) \<Rightarrow> order \<Rightarrow> order_book \<Rightarrow> (dex_error, trade list) outcome \<times> order_book" where
  "match_order clock taker b =
     and_then (case side taker of
                 Buy \<Rightarrow> match_buy_order clock taker (amount taker) b
               | Sell \<Rightarrow> match_sell_order clock taker (amount taker) b) (\<lambda>ts b.
     and_then (update_stats ts b) (\<lambda>_ b. (Ok ts, b)))"

section \<open>Cancelling\<close>

definition retain_other :: "h256 \<Rightarrow> u256 \<Rightarrow> levels \<Rightarrow> levels" where
  "retain_other i p ls =
     (case map_of ls p of
        None \<Rightarrow> ls
      | Some os \<Rightarrow> store_level p (filter (\<lambda>ord. id_of ord \<noteq> Some i) os) ls)"

definition cancel_order :: "h256 \<Rightarrow> order_book \<Rightarrow> (dex_error, unit) outcome \<times> order_book" where
  "cancel_order i b =
     (case order_index b i of
        None \<Rightarrow> (Err OrderNotFound, b)
      | Some ord \<Rightarrow>
          let b1 = b\<lparr>order_index := (order_index b)(i := None)\<rparr> in
          (Ok (), case side ord of
             Buy \<Rightarrow> b1\<lparr>buy_orders := retain_other i (price ord) (buy_orders b)\<rparr>
           | Sell \<Rightarrow> b1\<lparr>sell_orders := retain_other i (price ord) (sell_orders b)\<rparr>))"

section \<open>Queries\<close>

record price_level =
  level_price :: u256
  level_amount :: u256
  level_orders :: nat

record order_book_depth =
  bids :: "price_level list"
  asks :: "price_level list"
  depth_last_price :: u256
  depth_timestamp :: u64

fun sum_amounts :: "u256 \<Rightarrow> order list \<Rightarrow> u256 option" where
  "sum_amounts acc [] = Some acc"
| "sum_amounts acc (ord # os) = do { acc' \<leftarrow> uadd acc (amount ord); sum_amounts acc' os }"

fun depth_levels :: "levels \<Rightarrow> price_level list option" where
  "depth_levels [] = Some []"
| "depth_levels ((p, os) # ls) = do {
     total \<leftarrow> sum_amounts 0 os;
     rest \<leftarrow> depth_levels ls;
     Some (\<lparr> level_price = p, level_amount = total, level_orders = length os \<rparr> # rest)
   }"

definition get_depth :: "u64 \<Rightarrow> nat \<Rightarrow> order_book \<Rightarrow> order_book_depth option" where
  "get_depth now n b = do {
     bs \<leftarrow> depth_levels (take n (rev (buy_orders b)));
     as \<leftarrow> depth_levels (take n (sell_orders b));
     Some \<lparr> bids = bs, asks = as, depth_last_price = last_price b, depth_timestamp = now \<rparr>
   }"

text \<open>
  The two nested loops of \<^verbatim>\<open>calculate_market_buy\<close> over \<open>(cost, remaining)\<close>; \<open>Inr\<close> is the early
  return with the cost.
\<close>

fun buy_level :: "u256 \<Rightarrow> order list \<Rightarrow> u256 \<Rightarrow> u256 \<Rightarrow> (u256 \<times> u256 + u256) option" where
  "buy_level p [] cost rem = Some (Inl (cost, rem))"
| "buy_level p (ord # os) cost rem = do {
     let amt = min rem (amount ord);
     c \<leftarrow> umul amt p;
     cost' \<leftarrow> uadd cost c;
     (if rem - amt = 0 then Some (Inr cost') else buy_level p os cost' (rem - amt))
   }"

fun buy_levels :: "levels \<Rightarrow> u256 \<Rightarrow> u256 \<Rightarrow> (u256 \<times> u256 + u256) option" where
  "buy_levels [] cost rem = Some (Inl (cost, rem))"
| "buy_levels ((p, os) # ls) cost rem = do {
     r \<leftarrow> buy_level p os cost rem;
     (case r of Inr c \<Rightarrow> Some (Inr c) | Inl (cost', rem') \<Rightarrow> buy_levels ls cost' rem')
   }"

definition calculate_market_buy :: "u256 \<Rightarrow> order_book \<Rightarrow> (dex_error, u256) outcome" where
  "calculate_market_buy amt b =
     (case buy_levels (sell_orders b) 0 amt of
        None \<Rightarrow> Panic
      | Some (Inr c) \<Rightarrow> Ok c
      | Some (Inl (cost, rem)) \<Rightarrow> if rem > 0 then Err InsufficientLiquidity else Ok cost)"

definition get_best_bid :: "order_book \<Rightarrow> u256 option" where
  "get_best_bid b = (case rev (buy_orders b) of [] \<Rightarrow> None | l # _ \<Rightarrow> Some (fst l))"

definition get_best_ask :: "order_book \<Rightarrow> u256 option" where
  "get_best_ask b = (case sell_orders b of [] \<Rightarrow> None | l # _ \<Rightarrow> Some (fst l))"

end
