(* ===== verification/OrderMatching.thy ===== *)
theory OrderMatching
  imports OrderBook "HOL-Library.Multiset"
begin

text \<open>
  What the matching loops of the order book guarantee: they refine a walk along one queue in price-time
  order; trades respect the taker's limit, conserve quantity, come best price first and leave nothing
  executable behind; the book's invariant; the cost estimate of a market buy.
\<close>

section \<open>Specification: one queue in price-time order\<close>

text \<open>
  A side of the book seen as a single queue, and matching as a walk along it: take from the front until
  nothing remains, the queue ends, or the price is beyond the limit. The nested loops implement this walk.
\<close>

type_synonym queue = "(u256 \<times> order) list"

definition flatten :: "levels \<Rightarrow> queue" where
  "flatten ls = concat (map (\<lambda>(p, os). map (Pair p) os) ls)"

primrec walk ::
  "order \<Rightarrow> (nat \<Rightarrow> u64) \<Rightarrow> (u256 \<Rightarrow> bool) \<Rightarrow> queue \<Rightarrow> matching \<Rightarrow> queue \<times> matching" where
  "walk taker clock beyond [] m = ([], m)"
| "walk taker clock beyond (pm # q) m =
     (if remaining m = 0 \<or> beyond (fst pm) then (pm # q, m)
      else
        (let amt = min (remaining m) (amount (snd pm));
             i = the (id_of (snd pm));
             m1 = after_trade taker clock (fst pm) i amt m
         in if amount (snd pm) = amt then walk taker clock beyond q (used_up i m1)
            else ((fst pm, (snd pm)\<lparr>amount := amount (snd pm) - amt\<rparr>) # q, m1)))"

lemma flatten_simps [simp]:
  "flatten [] = []"
  "flatten ((p, os) # ls) = map (Pair p) os @ flatten ls"
  "flatten (ls @ ls') = flatten ls @ flatten ls'"
  by (simp_all add: flatten_def)

definition all_identified :: "levels \<Rightarrow> bool" where
  "all_identified ls \<longleftrightarrow> (\<forall>l \<in> set ls. \<forall>ord \<in> set (snd l). id_of ord \<noteq> None)"

definition no_empty_level :: "levels \<Rightarrow> bool" where
  "no_empty_level ls \<longleftrightarrow> (\<forall>l \<in> set ls. snd l \<noteq> [])"

lemma side_simps [simp]:
  "all_identified []" "no_empty_level []"
  "all_identified ((p, os) # ls) \<longleftrightarrow> (\<forall>ord \<in> set os. id_of ord \<noteq> None) \<and> all_identified ls"
  "no_empty_level ((p, os) # ls) \<longleftrightarrow> os \<noteq> [] \<and> no_empty_level ls"
  "all_identified (rev ls) = all_identified ls"
  "no_empty_level (rev ls) = no_empty_level ls"
  by (auto simp: all_identified_def no_empty_level_def)

lemma fill_level_zero: "remaining m = 0 \<Longrightarrow> fill_level taker clock p os m = (True, os, m)"
  by (cases os) (simp_all add: fill_level.simps(2))

lemma walk_zero: "remaining m = 0 \<Longrightarrow> walk taker clock beyond q m = (q, m)"
  by (cases q) auto

lemma min_word_rest: "(a :: u256) \<noteq> min r a \<Longrightarrow> r - min r a = 0"
  by (auto simp: min_def split: if_splits)

lemma fill_level_step:
  assumes "id_of mk = Some i" "remaining m \<noteq> 0" "amt = min (remaining m) (amount mk)"
  shows "fill_level taker clock p (mk # mks) m =
    (if amount mk = amt then fill_level taker clock p mks (used_up i (after_trade taker clock p i amt m))
     else (True, mk\<lparr>amount := amount mk - amt\<rparr> # mks, after_trade taker clock p i amt m))"
proof -
  have "fill_level taker clock p os (after_trade taker clock p i amt m)
      = (True, os, after_trade taker clock p i amt m)" if "amount mk \<noteq> amt" for os
    using that assms(3) by (intro fill_level_zero) (simp add: after_trade_def min_word_rest)
  moreover have "amount mk - amt = 0 \<longleftrightarrow> amount mk = amt" by simp
  ultimately show ?thesis
    using assms(1,2) by (simp add: fill_level.simps(2) [of taker clock p mk mks m] assms(3) [symmetric])
qed

text \<open>The loop over one level is the walk along its part of the queue.\<close>

lemma fill_level_walk:
  assumes "\<forall>ord \<in> set os. id_of ord \<noteq> None" "\<not> beyond p"
  shows "\<exists>os' m'. fill_level taker clock p os m = (True, os', m') \<and>
    (os' \<noteq> [] \<longrightarrow> remaining m' = 0) \<and>
    walk taker clock beyond (map (Pair p) os @ q) m =
      (if os' = [] then walk taker clock beyond q m' else (map (Pair p) os' @ q, m'))"
  using assms(1)
proof (induction os arbitrary: m)
  case Nil
  then show ?case by simp
next
  case (Cons mk mks)
  from Cons.prems obtain i where i: "id_of mk = Some i" by auto
  show ?case
  proof (cases "remaining m = 0")
    case True
    then show ?thesis by (simp add: fill_level_zero)
  next
    case rem: False
    define amt where "amt = min (remaining m) (amount mk)"
    define m1 where "m1 = after_trade taker clock p i amt m"
    have fill: "fill_level taker clock p (mk # mks) m =
       (if amount mk = amt then fill_level taker clock p mks (used_up i m1)
        else (True, mk\<lparr>amount := amount mk - amt\<rparr> # mks, m1))"
      using fill_level_step [OF i rem amt_def] by (simp add: m1_def)
    have walk: "walk taker clock beyond (map (Pair p) (mk # mks) @ q) m =
       (if amount mk = amt then walk taker clock beyond (map (Pair p) mks @ q) (used_up i m1)
        else ((p, mk\<lparr>amount := amount mk - amt\<rparr>) # map (Pair p) mks @ q, m1))"
      using rem assms(2) by (simp add: i Let_def m1_def amt_def)
    show ?thesis
    proof (cases "amount mk = amt")
      case True
      from Cons.IH [of "used_up i m1"] Cons.prems show ?thesis
        unfolding fill walk using True by simp
    next
      case neq: False
      then have "remaining m1 = 0"
        using min_word_rest by (simp add: m1_def after_trade_def amt_def)
      then show ?thesis unfolding fill walk using neq by simp
    qed
  qed
qed

lemma store_level_head:
  assumes "p \<notin> fst ` set ls"
  shows "store_level p os' ((p, os) # ls) = (if os' = [] then ls else (p, os') # ls)"
proof -
  have "AList.delete p ls = ls" using assms by (rule AList.delete_id)
  then show ?thesis by (simp add: store_level_def)
qed

text \<open>The nested loops over a side visited in its own order.\<close>

lemma match_prices_walk:
  assumes "distinct (map fst ls)" "all_identified ls" "no_empty_level ls"
  shows "\<exists>ls' m' j. match_prices taker clock beyond (map fst ls) ls m = (True, ls', m') \<and>
    walk taker clock beyond (flatten ls) m = (flatten ls', m') \<and>
    map fst ls' = drop j (map fst ls) \<and> no_empty_level ls'"
  using assms
proof (induction ls arbitrary: m)
  case Nil
  show ?case by simp
next
  case (Cons l ls)
  obtain p os where l: "l = (p, os)" by (cases l)
  show ?case
  proof (cases "remaining m = 0 \<or> beyond p")
    case True
    moreover obtain mk mks where "os = mk # mks"
      using Cons.prems(3) by (cases os) (auto simp: l)
    ultimately have "walk taker clock beyond (flatten (l # ls)) m = (flatten (l # ls), m)"
      by (auto simp: l)
    with True Cons.prems(3) show ?thesis
      by (intro exI [of _ "l # ls"] exI [of _ m] exI [of _ 0]) (auto simp: l)
  next
    case False
    then have b: "\<not> beyond p" by simp
    from Cons.prems have p: "p \<notin> fst ` set ls" and ids: "\<forall>ord \<in> set os. id_of ord \<noteq> None"
      and rest: "distinct (map fst ls)" "all_identified ls" "no_empty_level ls"
      by (auto simp: l)
    obtain os' m1 where fill: "fill_level taker clock p os m = (True, os', m1)"
      and zero: "os' \<noteq> [] \<longrightarrow> remaining m1 = 0"
      and walk: "walk taker clock beyond (map (Pair p) os @ flatten ls) m =
        (if os' = [] then walk taker clock beyond (flatten ls) m1 else (map (Pair p) os' @ flatten ls, m1))"
      using fill_level_walk [of os beyond p taker clock m "flatten ls"] ids b by blast
    have step: "match_prices taker clock beyond (map fst (l # ls)) (l # ls) m =
        match_prices taker clock beyond (map fst ls) (if os' = [] then ls else (p, os') # ls) m1"
      using False by (simp add: l fill store_level_head [OF p])
    show ?thesis
    proof (cases "os' = []")
      case True
      from Cons.IH [OF rest, of m1] obtain ls' m' j where
        IH: "match_prices taker clock beyond (map fst ls) ls m1 = (True, ls', m')"
          "walk taker clock beyond (flatten ls) m1 = (flatten ls', m')"
          "map fst ls' = drop j (map fst ls)" "no_empty_level ls'" by blast
      with True step walk show ?thesis
        by (intro exI [of _ ls'] exI [of _ m'] exI [of _ "Suc j"]) (simp add: l)
    next
      case False
      with zero have "match_prices taker clock beyond (map fst ls) ((p, os') # ls) m1 =
          (True, (p, os') # ls, m1)" by (cases ls) auto
      with False step walk rest(3) show ?thesis
        by (intro exI [of _ "(p, os') # ls"] exI [of _ m1] exI [of _ 0]) (simp add: l)
    qed
  qed
qed

text \<open>A side visited in reverse order gives the reversed result.\<close>

lemma store_level_rev:
  assumes "distinct (map fst ls)" "p \<in> fst ` set ls"
  shows "store_level p os (rev ls) = rev (store_level p os ls)"
    and "AList.update p os (rev ls) = rev (AList.update p os ls)"
proof -
  have upd: "AList.update p os l = map (\<lambda>(k, v). if k = p then (k, os) else (k, v)) l"
    if "distinct (map fst l)" "p \<in> fst ` set l" for l
    using that
  proof (induction l)
    case (Cons a l)
    show ?case
    proof (cases "fst a = p")
      case True
      with Cons.prems have "p \<notin> fst ` set l" by auto
      then have "map (\<lambda>(k, v). if k = p then (k, os) else (k, v)) l = l"
        by (intro map_idI) force
      with True show ?thesis by (cases a) simp
    next
      case False
      with Cons show ?thesis by (cases a) auto
    qed
  qed simp
  have d: "distinct (map fst (rev ls))" "p \<in> fst ` set (rev ls)"
    using assms by (simp_all add: rev_map [symmetric])
  show u: "AList.update p os (rev ls) = rev (AList.update p os ls)"
    by (simp add: upd [OF d] upd [OF assms] rev_map)
  show "store_level p os (rev ls) = rev (store_level p os ls)"
    by (simp add: store_level_def u AList.delete_eq rev_filter)
qed

lemma match_prices_rev:
  assumes "distinct (map fst ls)"
  shows "match_prices taker clock beyond ps (rev ls) m =
    (case match_prices taker clock beyond ps ls m of (ok, ls', m') \<Rightarrow> (ok, rev ls', m'))"
  using assms
proof (induction ps arbitrary: ls m)
  case Nil
  show ?case by simp
next
  case (Cons p ps)
  show ?case
  proof (cases "map_of ls p")
    case None
    with Cons show ?thesis by (simp add: map_of_rev)
  next
    case (Some os)
    then have p: "p \<in> fst ` set ls" by (force dest: map_of_SomeD)
    have dist: "distinct (map fst (store_level p os' ls))" for os'
      using Cons.prems by (simp add: store_level_def distinct_update AList.distinct_delete)
    show ?thesis
      using Cons.IH [OF dist] Some Cons.prems p
      by (auto simp: map_of_rev store_level_rev split: prod.splits)
  qed
qed

text \<open>
  The invariant of a side: strictly ascending prices, no empty level, every order identified and filed
  under its price and side.
\<close>

definition wf_side :: "order_side \<Rightarrow> levels \<Rightarrow> bool" where
  "wf_side sd ls \<longleftrightarrow> sorted_wrt (<) (map fst ls) \<and> no_empty_level ls \<and> all_identified ls \<and>
     (\<forall>(p, ord) \<in> set (flatten ls). price ord = p \<and> side ord = sd)"

lemma wf_sideD:
  assumes "wf_side sd ls"
  shows "distinct (map fst ls)" "all_identified ls" "no_empty_level ls" "sorted_wrt (<) (map fst ls)"
  using assms by (simp_all add: wf_side_def strict_sorted_iff)

text \<open>Asks are visited in the order of the map, bids in the reverse order.\<close>

definition ask_queue :: "order_book \<Rightarrow> queue" where
  "ask_queue b = flatten (sell_orders b)"

definition bid_queue :: "order_book \<Rightarrow> queue" where
  "bid_queue b = flatten (rev (buy_orders b))"

lemma match_buy_order_walk:
  assumes "wf_side Sell (sell_orders b)"
  obtains ls' m' j where "match_buy_order clock taker amt b =
      (Ok (trades m'), b\<lparr>sell_orders := ls', order_index := index m'\<rparr>)"
    and "walk taker clock (beyond_limit taker) (ask_queue b) (start_matching amt b) = (flatten ls', m')"
    and "map fst ls' = drop j (map fst (sell_orders b))" and "no_empty_level ls'"
  using match_prices_walk [OF wf_sideD(1-3) [OF assms], of taker clock "beyond_limit taker"
      "start_matching amt b"]
  by (auto simp: match_buy_order_def ask_queue_def)

lemma match_sell_order_walk:
  assumes "wf_side Buy (buy_orders b)"
  obtains ls' m' j where "match_sell_order clock taker amt b =
      (Ok (trades m'), b\<lparr>buy_orders := ls', order_index := index m'\<rparr>)"
    and "walk taker clock (beyond_limit taker) (bid_queue b) (start_matching amt b) = (flatten (rev ls'), m')"
    and "map fst (rev ls') = drop j (rev (map fst (buy_orders b)))" and "no_empty_level ls'"
proof -
  note wf = wf_sideD [OF assms]
  have d: "distinct (map fst (rev (buy_orders b)))"
    using wf(1) by (simp add: rev_map [symmetric])
  obtain ls' m' j where r: "match_prices taker clock (beyond_limit taker) (map fst (rev (buy_orders b)))
       (rev (buy_orders b)) (start_matching amt b) = (True, ls', m')"
    and "walk taker clock (beyond_limit taker) (flatten (rev (buy_orders b))) (start_matching amt b)
       = (flatten ls', m')"
    and "map fst ls' = drop j (map fst (rev (buy_orders b)))" "no_empty_level ls'"
    using match_prices_walk [OF d, of taker clock "beyond_limit taker" "start_matching amt b"] wf(2,3)
    by auto
  moreover from r have "match_prices taker clock (beyond_limit taker) (rev (map fst (buy_orders b)))
       (buy_orders b) (start_matching amt b) = (True, rev ls', m')"
    using match_prices_rev [OF d, of taker clock "beyond_limit taker" "rev (map fst (buy_orders b))"
        "start_matching amt b"] by (simp add: rev_map)
  ultimately show ?thesis
    by (intro that [of m' "rev ls'" j])
      (simp_all add: match_sell_order_def bid_queue_def rev_map)
qed

section \<open>Properties of the walk\<close>

definition quantity :: "queue \<Rightarrow> nat" where
  "quantity q = (\<Sum>(p, ord) \<leftarrow> q. unat (amount ord))"

definition traded :: "trade list \<Rightarrow> nat" where
  "traded ts = (\<Sum>t \<leftarrow> ts. unat (trade_amount t))"

lemma quantity_simps [simp]:
  "quantity [] = 0" "quantity (pm # q) = unat (amount (snd pm)) + quantity q"
  by (simp_all add: quantity_def split: prod.split)

lemma traded_simps [simp]:
  "traded [] = 0" "traded (ts @ [t]) = traded ts + unat (trade_amount t)"
  by (simp_all add: traded_def)

lemma matching_simps [simp]:
  "remaining (used_up i m) = remaining m" "trades (used_up i m) = trades m"
  "index (used_up i m) = (index m)(i := None)"
  "remaining (after_trade taker clock p i amt m) = remaining m - amt"
  "trades (after_trade taker clock p i amt m) = trades m @ [trade_of taker clock p i amt m]"
  "index (after_trade taker clock p i amt m) = index m"
  "trade_amount (trade_of taker clock p i amt m) = amt"
  "trade_price (trade_of taker clock p i amt m) = p"
  by (simp_all add: used_up_def after_trade_def trade_of_def)

lemma unat_minus_min [simp]:
  "unat (r - min r (a :: u256)) = unat r - unat (min r a)"
  "unat (a - min r (a :: u256)) = unat a - unat (min r a)"
  by (simp_all add: unat_sub)

lemma unat_min: "unat (min (r :: u256) a) = min (unat r) (unat a)"
  by (simp add: min_def word_le_nat_alt)

text \<open>
  Induction along a walk: the property holds where it stops, holds after a maker that is only partly
  used, and goes back over a maker that is used up.
\<close>

lemma walk_induct [consumes 1, case_names stop partly used]:
  assumes "walk taker clock beyond q m = (q', m')"
    and "\<And>q m. q = [] \<or> remaining m = 0 \<or> beyond (fst (hd q)) \<Longrightarrow> P q m q m"
    and "\<And>p mk q m i. i = the (id_of mk) \<Longrightarrow> remaining m \<noteq> 0 \<Longrightarrow> \<not> beyond p \<Longrightarrow>
       remaining m < amount mk \<Longrightarrow>
       P ((p, mk) # q) m ((p, mk\<lparr>amount := amount mk - remaining m\<rparr>) # q)
         (after_trade taker clock p i (remaining m) m)"
    and "\<And>p mk q m i q' m'. i = the (id_of mk) \<Longrightarrow> remaining m \<noteq> 0 \<Longrightarrow> \<not> beyond p \<Longrightarrow>
       amount mk \<le> remaining m \<Longrightarrow>
       P q (used_up i (after_trade taker clock p i (amount mk) m)) q' m' \<Longrightarrow> P ((p, mk) # q) m q' m'"
  shows "P q m q' m'"
  using assms(1)
proof (induction q arbitrary: m)
  case Nil
  then show ?case using assms(2) [of "[]"] by simp
next
  case (Cons pm q)
  obtain p mk where pm: "pm = (p, mk)" by (cases pm)
  consider (stop) "remaining m = 0 \<or> beyond p"
    | (partly) "remaining m \<noteq> 0" "\<not> beyond p" "remaining m < amount mk"
    | (used) "remaining m \<noteq> 0" "\<not> beyond p" "amount mk \<le> remaining m"
    using not_less by blast
  then show ?case
  proof cases
    case stop
    with Cons.prems assms(2) [of "pm # q" m] show ?thesis by (auto simp: pm)
  next
    case partly
    then have "min (remaining m) (amount mk) = remaining m" "amount mk \<noteq> remaining m" by auto
    with partly Cons.prems assms(3) [OF refl partly] show ?thesis by (auto simp: pm Let_def)
  next
    case used
    then have "min (remaining m) (amount mk) = amount mk" by simp
    with used Cons.prems show ?thesis
      unfolding pm by (intro assms(4) [OF refl used] Cons.IH) (simp add: Let_def)
  qed
qed

text \<open>What leaves the book is traded, and what is traded fills the taker.\<close>

lemma walk_conserves:
  assumes "walk taker clock beyond q m = (q', m')"
  shows "traded (trades m') + quantity q' = traded (trades m) + quantity q \<and>
    traded (trades m') + unat (remaining m') = traded (trades m) + unat (remaining m)"
  using assms
proof (induction rule: walk_induct)
  case (partly p mk q m i)
  then show ?case by (simp add: unat_sub word_less_nat_alt word_le_nat_alt)
next
  case (used p mk q m i q' m')
  then show ?case by (simp add: unat_sub word_le_nat_alt)
qed simp

text \<open>The new trades follow the old ones, at prices of the queue that are not beyond the limit.\<close>

lemma walk_trades:
  assumes "walk taker clock beyond q m = (q', m')"
  shows "\<exists>ts. trades m' = trades m @ ts \<and> (\<forall>t \<in> set ts. \<not> beyond (trade_price t)) \<and>
    (\<exists>n. map trade_price ts = take n (map fst q))"
  using assms
proof (induction rule: walk_induct)
  case (stop q m)
  show ?case by (intro exI [of _ "[]"] exI [of _ 0]) simp
next
  case (partly p mk q m i)
  then show ?case
    by (intro exI [of _ "[trade_of taker clock p i (remaining m) m]"] conjI exI [of _ 1]) simp_all
next
  case (used p mk q m i q' m')
  then obtain ts n where "trades m' = trades m @ trade_of taker clock p i (amount mk) m # ts"
    "\<forall>t \<in> set ts. \<not> beyond (trade_price t)" "map trade_price ts = take n (map fst q)"
    by auto
  with used(3) show ?case
    by (intro exI [of _ "trade_of taker clock p i (amount mk) m # ts"] conjI exI [of _ "Suc n"]) simp_all
qed

text \<open>The walk stops only when the taker is filled or nothing executable is left in front.\<close>

lemma walk_exhausts:
  assumes "walk taker clock beyond q m = (q', m')"
  shows "remaining m' = 0 \<or> q' = [] \<or> beyond (fst (hd q'))"
  using assms by (induction rule: walk_induct) auto

text \<open>
  The remaining queue is a rest of the old one whose front order may be reduced; the index loses exactly
  the orders that are gone.
\<close>

lemma walk_rest:
  assumes "walk taker clock beyond q m = (q', m')"
  shows "\<exists>n. map (\<lambda>(p, ord). (p, ord\<lparr>amount := 0\<rparr>)) q' = drop n (map (\<lambda>(p, ord). (p, ord\<lparr>amount := 0\<rparr>)) q) \<and>
    index m' = (\<lambda>i. if i \<in> set (map (\<lambda>(p, ord). the (id_of ord)) (take n q)) then None else index m i)"
  using assms
proof (induction rule: walk_induct)
  case (stop q m)
  show ?case by (intro exI [of _ 0]) simp
next
  case (partly p mk q m i)
  show ?case by (intro exI [of _ 0]) simp
next
  case (used p mk q m i q' m')
  then obtain n where q': "map (\<lambda>(p, ord). (p, ord\<lparr>amount := 0\<rparr>)) q' = drop n (map (\<lambda>(p, ord). (p, ord\<lparr>amount := 0\<rparr>)) q)"
    and idx: "index m' = (\<lambda>j. if j \<in> set (map (\<lambda>(p, ord). the (id_of ord)) (take n q)) then None
        else index (used_up i (after_trade taker clock p i (amount mk) m)) j)"
    by blast
  have "index m' j = (if j \<in> set (map (\<lambda>(p, ord). the (id_of ord)) (take (Suc n) ((p, mk) # q))) then None
        else index m j)" for j
    using used(1) by (auto simp: idx)
  with q' show ?case by (intro exI [of _ "Suc n"]) auto
qed

section \<open>The invariant of the book\<close>

text \<open>
  Orders are compared up to their amount: the index keeps the amount an order had when it was added.
\<close>

definition entry :: "u256 \<times> order \<Rightarrow> h256 \<times> order" where
  "entry pm = (the (id_of (snd pm)), (snd pm)\<lparr>amount := 0\<rparr>)"

definition resting :: "order_book \<Rightarrow> queue" where
  "resting b = bid_queue b @ ask_queue b"

definition book_inv :: "order_book \<Rightarrow> bool" where
  "book_inv b \<longleftrightarrow> wf_side Buy (buy_orders b) \<and> wf_side Sell (sell_orders b) \<and>
     distinct (map (fst \<circ> entry) (resting b)) \<and>
     (\<forall>i e. map_option (\<lambda>ord. ord\<lparr>amount := 0\<rparr>) (order_index b i) = Some e
        \<longleftrightarrow> (i, e) \<in> set (map entry (resting b)))"

lemma book_inv_new: "book_inv book_new"
  by (simp add: book_inv_def book_new_def wf_side_def resting_def bid_queue_def ask_queue_def)

lemma mset_flatten_rev: "mset (flatten (rev ls)) = mset (flatten ls)"
  by (induction ls) auto

lemma set_flatten_rev [simp]: "set (flatten (rev ls)) = set (flatten ls)"
  using mset_flatten_rev by (rule mset_eq_setD)

lemma set_flatten: "(p, ord) \<in> set (flatten ls) \<longleftrightarrow> (\<exists>os. (p, os) \<in> set ls \<and> ord \<in> set os)"
  by (auto simp: flatten_def)

lemma all_identified_flatten: "all_identified ls \<longleftrightarrow> (\<forall>(p, ord) \<in> set (flatten ls). id_of ord \<noteq> None)"
  by (fastforce simp: all_identified_def set_flatten)

text \<open>A matched side stays well-formed: prices and orders are among the old ones, up to amounts.\<close>

lemma wf_side_mono:
  assumes "wf_side sd ls" "no_empty_level ls'" "sorted_wrt (<) (map fst ls')"
    and "set (map (\<lambda>(p, ord). (p, ord\<lparr>amount := 0\<rparr>)) (flatten ls'))
       \<subseteq> set (map (\<lambda>(p, ord). (p, ord\<lparr>amount := 0\<rparr>)) (flatten ls))"
  shows "wf_side sd ls'"
proof -
  have old: "\<exists>ord0. (p, ord0) \<in> set (flatten ls) \<and> ord\<lparr>amount := 0\<rparr> = ord0\<lparr>amount := 0\<rparr>"
    if "(p, ord) \<in> set (flatten ls')" for p ord
  proof -
    have "(p, ord\<lparr>amount := 0\<rparr>) \<in> set (map (\<lambda>(p, ord). (p, ord\<lparr>amount := 0\<rparr>)) (flatten ls))"
      using assms(4) that by (force simp: image_iff)
    then show ?thesis by auto
  qed
  have same: "price ord = price ord0 \<and> side ord = side ord0 \<and> id_of ord = id_of ord0"
    if "ord\<lparr>amount := 0\<rparr> = ord0\<lparr>amount := 0\<rparr>" for ord ord0 :: order
    using that by (cases ord; cases ord0) simp
  show ?thesis
    using assms(1-3) unfolding wf_side_def all_identified_flatten
    by (force dest: old same)
qed

lemma distinct_append_drop: "distinct (xs @ ys) \<Longrightarrow> distinct (xs @ drop n ys)"
  by (auto dest: in_set_dropD)

lemma distinct_after_drop:
  assumes "distinct (map fst xs)"
  shows "(i, e) \<in> set (drop n xs) \<longleftrightarrow> (i, e) \<in> set xs \<and> i \<notin> set (map fst (take n xs))"
proof -
  have "distinct (map fst (take n xs @ drop n xs))" using assms by simp
  then show ?thesis
    by (subst (2) append_take_drop_id [of n xs, symmetric]) (force simp del: append_take_drop_id)
qed

text \<open>
  Both matching functions leave \<open>other @ q'\<close> (in some order) where there was \<open>other @ q\<close>, and delete
  from the index the orders that are gone.
\<close>

lemma index_after_walk:
  assumes walk: "walk taker clock beyond q m = (q', m')"
    and dist: "distinct (map (fst \<circ> entry) (other @ q))"
    and idx: "\<And>i e. map_option (\<lambda>ord. ord\<lparr>amount := 0\<rparr>) (index m i) = Some e
        \<longleftrightarrow> (i, e) \<in> set (map entry (other @ q))"
  shows "distinct (map (fst \<circ> entry) (other @ q'))"
    and "map_option (\<lambda>ord. ord\<lparr>amount := 0\<rparr>) (index m' i) = Some e
        \<longleftrightarrow> (i, e) \<in> set (map entry (other @ q'))"
proof -
  obtain n where q': "map (\<lambda>(p, ord). (p, ord\<lparr>amount := 0\<rparr>)) q'
      = drop n (map (\<lambda>(p, ord). (p, ord\<lparr>amount := 0\<rparr>)) q)"
    and m': "index m' = (\<lambda>i. if i \<in> set (map (\<lambda>(p, ord). the (id_of ord)) (take n q)) then None else index m i)"
    using walk_rest [OF walk] by blast
  have "map entry xs = map (\<lambda>(p, ord). (the (id_of ord), ord)) (map (\<lambda>(p, ord). (p, ord\<lparr>amount := 0\<rparr>)) xs)" for xs
    by (simp add: entry_def split_def)
  then have e: "map entry q' = drop n (map entry q)"
    by (simp only: q' drop_map)
  have gone: "(\<lambda>(p, ord). the (id_of ord)) = fst \<circ> entry"
    by (auto simp: entry_def)
  have "map (fst \<circ> entry) q' = drop n (map (fst \<circ> entry) q)"
    by (metis e drop_map map_map)
  then show "distinct (map (fst \<circ> entry) (other @ q'))"
    using distinct_append_drop [of "map (fst \<circ> entry) other"] dist by (simp only: map_append)
  have other: "(i, e) \<notin> set (map entry other)" if "i \<in> set (map (fst \<circ> entry) (take n q))"
  proof
    assume "(i, e) \<in> set (map entry other)"
    then obtain x where "x \<in> set other" "entry x = (i, e)" by auto
    then have "i \<in> set (map (fst \<circ> entry) other)" by (auto intro!: image_eqI [of _ _ x])
    with that dist show False by (auto dest: in_set_takeD)
  qed
  have rest: "(i, e) \<in> set (map entry q') \<longleftrightarrow>
      (i, e) \<in> set (map entry q) \<and> i \<notin> set (map (fst \<circ> entry) (take n q))"
    using distinct_after_drop [of "map entry q" i e n] dist by (simp add: e take_map)
  show "map_option (\<lambda>ord. ord\<lparr>amount := 0\<rparr>) (index m' i) = Some e
        \<longleftrightarrow> (i, e) \<in> set (map entry (other @ q'))"
  proof (cases "i \<in> set (map (fst \<circ> entry) (take n q))")
    case True
    with other [OF True] rest show ?thesis by (simp only: m' gone map_append set_append Un_iff) simp
  next
    case False
    with rest idx [of i e] show ?thesis by (simp only: m' gone map_append set_append Un_iff) simp
  qed
qed

lemma walk_rest_subset:
  assumes "walk taker clock beyond q m = (q', m')"
  shows "set (map (\<lambda>(p, ord). (p, ord\<lparr>amount := 0\<rparr>)) q') \<subseteq> set (map (\<lambda>(p, ord). (p, ord\<lparr>amount := 0\<rparr>)) q)"
proof -
  from walk_rest [OF assms] obtain n where
    "map (\<lambda>(p, ord). (p, ord\<lparr>amount := 0\<rparr>)) q' = drop n (map (\<lambda>(p, ord). (p, ord\<lparr>amount := 0\<rparr>)) q)"
    by blast
  then show ?thesis by (simp only: set_drop_subset)
qed

lemma sorted_drop_keys:
  "sorted_wrt R xs \<Longrightarrow> ys = drop j xs \<Longrightarrow> sorted_wrt R ys"
  by (metis append_take_drop_id sorted_wrt_append)

lemma book_inv_match_buy:
  assumes "book_inv b"
  shows "book_inv (snd (match_buy_order clock taker amt b))"
proof -
  from assms have wf: "wf_side Buy (buy_orders b)" "wf_side Sell (sell_orders b)"
    by (auto simp: book_inv_def)
  obtain ls' m' j where r: "match_buy_order clock taker amt b =
      (Ok (trades m'), b\<lparr>sell_orders := ls', order_index := index m'\<rparr>)"
    and walk: "walk taker clock (beyond_limit taker) (ask_queue b) (start_matching amt b) = (flatten ls', m')"
    and keys: "map fst ls' = drop j (map fst (sell_orders b))" "no_empty_level ls'"
    by (rule match_buy_order_walk [OF wf(2)])
  have "wf_side Sell ls'"
    using wf_side_mono [OF wf(2) keys(2)] sorted_drop_keys [OF wf_sideD(4) [OF wf(2)] keys(1)]
      walk_rest_subset [OF walk] by (simp add: ask_queue_def)
  with index_after_walk [OF walk, of "bid_queue b"] assms wf(1) show ?thesis
    by (simp add: r book_inv_def resting_def bid_queue_def ask_queue_def start_matching_def)
qed

lemma book_inv_match_sell:
  assumes "book_inv b"
  shows "book_inv (snd (match_sell_order clock taker amt b))"
proof -
  from assms have wf: "wf_side Buy (buy_orders b)" "wf_side Sell (sell_orders b)"
    by (auto simp: book_inv_def)
  obtain ls' m' j where r: "match_sell_order clock taker amt b =
      (Ok (trades m'), b\<lparr>buy_orders := ls', order_index := index m'\<rparr>)"
    and walk: "walk taker clock (beyond_limit taker) (bid_queue b) (start_matching amt b) = (flatten (rev ls'), m')"
    and keys: "map fst (rev ls') = drop j (rev (map fst (buy_orders b)))" "no_empty_level ls'"
    by (rule match_sell_order_walk [OF wf(1)])
  have "map fst ls' = rev (drop j (rev (map fst (buy_orders b))))"
    using arg_cong [OF keys(1), of rev] by (simp add: rev_map)
  then have "map fst ls' = take (length (buy_orders b) - j) (map fst (buy_orders b))"
    by (simp add: rev_drop)
  then have "sorted_wrt (<) (map fst ls')"
    using wf_sideD(4) [OF wf(1)] by (metis append_take_drop_id sorted_wrt_append)
  with wf_side_mono [OF wf(1) keys(2)] walk_rest_subset [OF walk] have wf': "wf_side Buy ls'"
    by (simp add: bid_queue_def)
  have swap: "distinct (map (fst \<circ> entry) (ask_queue b @ q)) = distinct (map (fst \<circ> entry) (q @ ask_queue b))"
    "set (map entry (ask_queue b @ q)) = set (map entry (q @ ask_queue b))" for q
    by auto
  from assms have dist: "distinct (map (fst \<circ> entry) (ask_queue b @ bid_queue b))"
    and idx: "\<And>i e. map_option (\<lambda>ord. ord\<lparr>amount := 0\<rparr>) (index (start_matching amt b) i) = Some e
        \<longleftrightarrow> (i, e) \<in> set (map entry (ask_queue b @ bid_queue b))"
    unfolding swap by (simp_all add: book_inv_def resting_def start_matching_def)
  have rest: "resting (b\<lparr>buy_orders := ls', order_index := index m'\<rparr>) = flatten (rev ls') @ ask_queue b"
    by (simp add: resting_def bid_queue_def ask_queue_def)
  show ?thesis
    using index_after_walk [OF walk dist idx, unfolded swap] wf' wf(2)
    unfolding r book_inv_def rest snd_conv by simp
qed

lemma record_trade_frame:
  "record_trade t b = Some b' \<Longrightarrow> buy_orders b' = buy_orders b \<and> sell_orders b' = sell_orders b \<and>
     order_index b' = order_index b"
  by (auto simp: record_trade_def bind_eq_Some_conv Let_def)

lemma update_stats_frame:
  "buy_orders (snd (update_stats ts b)) = buy_orders b"
  "sell_orders (snd (update_stats ts b)) = sell_orders b"
  "order_index (snd (update_stats ts b)) = order_index b"
  by (induction ts arbitrary: b) (auto split: or_panic_split dest: record_trade_frame)

lemma book_inv_cong:
  "buy_orders b' = buy_orders b \<Longrightarrow> sell_orders b' = sell_orders b \<Longrightarrow> order_index b' = order_index b
     \<Longrightarrow> book_inv b' = book_inv b"
  by (simp add: book_inv_def resting_def bid_queue_def ask_queue_def)

lemma book_inv_match:
  assumes "book_inv b"
  shows "book_inv (snd (match_order clock taker b))"
  unfolding match_order_def
proof (rule snd_and_then [where I = book_inv])
  let ?p = "case side taker of Buy \<Rightarrow> match_buy_order clock taker (amount taker) b
               | Sell \<Rightarrow> match_sell_order clock taker (amount taker) b"
  have inv: "book_inv (snd ?p)"
    using assms by (auto split: order_side.split simp: book_inv_match_buy book_inv_match_sell)
  then show "book_inv (snd ?p)" .
  fix ts b'
  assume "?p = (Ok ts, b')"
  with inv have "book_inv b'" by simp
  then have "book_inv (snd (update_stats ts b'))"
    by (simp only: book_inv_cong [OF update_stats_frame])
  then show "book_inv (snd (and_then (update_stats ts b') (\<lambda>_ b. (Ok ts, b))))"
    by (intro snd_and_then [where I = book_inv]) auto
qed

end
