(* ===== verification/OrderBookProps.thy ===== *)
theory OrderBookProps
  imports OrderMatching
begin

text \<open>
  The properties of the order book: the invariant over all its operations and the theorems about
  matching, cancelling and the cost estimate.
\<close>

section \<open>Adding and cancelling keep the invariant\<close>

lemma mset_flatten_push_back: "mset (flatten (push_back p ord ls)) = add_mset (p, ord) (mset (flatten ls))"
  by (induction p ord ls rule: push_back.induct) auto

lemma set_flatten_push_back: "set (flatten (push_back p ord ls)) = insert (p, ord) (set (flatten ls))"
  using arg_cong [OF mset_flatten_push_back [of p ord ls], of set_mset] by simp

lemma keys_push_back: "set (map fst (push_back p ord ls)) = insert p (set (map fst ls))"
  by (induction p ord ls rule: push_back.induct) auto

lemma sorted_push_back:
  "sorted_wrt (<) (map fst ls) \<Longrightarrow> sorted_wrt (<) (map fst (push_back p ord ls))"
proof (induction p ord ls rule: push_back.induct)
  case (2 p ord q os ls)
  have "\<forall>k \<in> set (map fst (push_back p ord ls)). q < k" if "q < p"
    using 2 that unfolding keys_push_back by auto
  with 2 show ?case by (auto simp: not_less less_le)
qed simp

lemma wf_side_push_back:
  assumes "wf_side sd ls" "price ord = p" "side ord = sd" "id_of ord \<noteq> None"
  shows "wf_side sd (push_back p ord ls)"
proof -
  have "no_empty_level (push_back p ord ls)" if "no_empty_level ls"
    using that by (induction p ord ls rule: push_back.induct) auto
  with assms sorted_push_back show ?thesis
    by (auto simp: wf_side_def all_identified_flatten set_flatten_push_back)
qed

text \<open>
  The index part of the invariant depends on the resting orders as a multiset only.
\<close>

lemma resting_facts:
  assumes "mset (resting b') = add_mset pm (mset (resting b))"
  shows "distinct (map (fst \<circ> entry) (resting b')) \<longleftrightarrow>
      distinct (map (fst \<circ> entry) (resting b)) \<and> fst (entry pm) \<notin> set (map (fst \<circ> entry) (resting b))"
    and "set (map entry (resting b')) = insert (entry pm) (set (map entry (resting b)))"
proof -
  have "mset (resting b') = mset (pm # resting b)" using assms by simp
  then have m: "mset (map (fst \<circ> entry) (resting b')) = mset (map (fst \<circ> entry) (pm # resting b))"
    and s: "set (resting b') = set (pm # resting b)"
    by (metis mset_map, metis set_mset_mset)
  show "distinct (map (fst \<circ> entry) (resting b')) \<longleftrightarrow>
      distinct (map (fst \<circ> entry) (resting b)) \<and> fst (entry pm) \<notin> set (map (fst \<circ> entry) (resting b))"
    using mset_eq_imp_distinct_iff [OF m] by auto
  show "set (map entry (resting b')) = insert (entry pm) (set (map entry (resting b)))"
    by (simp add: s)
qed

lemma fst_entry_set: "i \<in> set (map (fst \<circ> entry) q) \<longleftrightarrow> (\<exists>e. (i, e) \<in> set (map entry q))"
proof
  assume "i \<in> set (map (fst \<circ> entry) q)"
  then obtain x where "x \<in> set q" "i = fst (entry x)" by auto
  then show "\<exists>e. (i, e) \<in> set (map entry q)"
    by (intro exI [of _ "snd (entry x)"]) simp
next
  assume "\<exists>e. (i, e) \<in> set (map entry q)"
  then obtain e x where "x \<in> set q" "entry x = (i, e)" by (metis imageE set_map)
  then show "i \<in> set (map (fst \<circ> entry) q)"
    by (auto intro!: image_eqI [of _ _ x])
qed

lemma book_inv_add_limit:
  assumes inv: "book_inv b" and id: "id_of ord = Some i" and fresh: "order_index b i = None"
  shows "book_inv (snd (add_limit_order ord b))"
proof -
  define b' where "b' = snd (add_limit_order ord b)"
  have m: "mset (resting b') = add_mset (price ord, ord) (mset (resting b))"
    by (cases "side ord")
      (simp_all add: b'_def add_limit_order_def id Let_def resting_def bid_queue_def ask_queue_def
        mset_flatten_rev mset_flatten_push_back)
  have idx: "order_index b' = (order_index b)(i \<mapsto> ord)"
    by (cases "side ord") (simp_all add: b'_def add_limit_order_def id Let_def)
  have wf: "wf_side Buy (buy_orders b')" "wf_side Sell (sell_orders b')"
    using inv wf_side_push_back [of "side ord" _ ord "price ord"]
    by (cases "side ord"; simp add: b'_def add_limit_order_def id Let_def book_inv_def)+
  have old: "i \<notin> set (map (fst \<circ> entry) (resting b))"
  proof
    assume "i \<in> set (map (fst \<circ> entry) (resting b))"
    then obtain e where "(i, e) \<in> set (map entry (resting b))" unfolding fst_entry_set by blast
    then have "map_option (\<lambda>ord. ord\<lparr>amount := 0\<rparr>) (order_index b i) = Some e"
      using inv unfolding book_inv_def by blast
    then show False using fresh by simp
  qed
  have e: "entry (price ord, ord) = (i, ord\<lparr>amount := 0\<rparr>)"
    by (simp add: entry_def id)
  have "map_option (\<lambda>ord. ord\<lparr>amount := 0\<rparr>) (order_index b' j) = Some e'
      \<longleftrightarrow> (j, e') \<in> set (map entry (resting b'))" for j e'
  proof (cases "j = i")
    case True
    have "(i, e') \<notin> set (map entry (resting b))"
      using old unfolding fst_entry_set by blast
    then show ?thesis unfolding resting_facts(2) [OF m] e using True by (auto simp: idx)
  next
    case False
    then show ?thesis
      unfolding resting_facts(2) [OF m] e using inv by (simp add: idx book_inv_def)
  qed
  moreover have "distinct (map (fst \<circ> entry) (resting b'))"
    using inv old unfolding resting_facts(1) [OF m] by (simp add: e book_inv_def)
  ultimately show ?thesis using wf by (simp add: book_inv_def b'_def)
qed

lemma book_inv_add:
  assumes "book_inv b" "order_index b i = None"
  shows "book_inv (snd (add_order i ord b))"
proof -
  have limit: "book_inv (snd (and_then (add_limit_order o' b) (\<lambda>_ b. (Ok i, b))))" if "id_of o' = Some i" for o'
    using book_inv_add_limit [OF assms(1) that assms(2)]
    by (intro snd_and_then [where I = book_inv]) (auto dest: arg_cong [of _ _ snd])
  show ?thesis
    using assms(1) limit
    by (auto simp: add_order_def Let_def add_conditional_order_def add_iceberg_order_def
        split: order_type.split or_panic_split)
qed

text \<open>Removing an order from its level is filtering the queue.\<close>

lemma flatten_delete: "flatten (AList.delete p ls) = filter (\<lambda>(q, ord). q \<noteq> p) (flatten ls)"
  by (induction ls) (auto simp: filter_id_conv filter_empty_conv)

lemma flatten_update:
  assumes "distinct (map fst ls)" "map_of ls p = Some os"
  shows "flatten (AList.update p (filter P os) ls) = filter (\<lambda>(q, ord). q = p \<longrightarrow> P ord) (flatten ls)"
  using assms
proof (induction ls)
  case (Cons l ls)
  obtain q os' where l: "l = (q, os')" by (cases l)
  show ?case
  proof (cases "q = p")
    case True
    with Cons.prems have "p \<notin> fst ` set ls" "os' = os" by (auto simp: l)
    then have "filter (\<lambda>(q, ord). q = p \<longrightarrow> P ord) (flatten ls) = flatten ls"
      by (intro filter_True) (force simp: set_flatten)
    with True \<open>os' = os\<close> show ?thesis by (simp add: l filter_map comp_def)
  next
    case False
    then have "filter (\<lambda>(q, ord). q = p \<longrightarrow> P ord) (map (Pair q) os') = map (Pair q) os'"
      by (intro filter_True) auto
    with False Cons show ?thesis by (simp add: l)
  qed
qed simp

lemma flatten_retain_other:
  assumes "distinct (map fst ls)"
  shows "flatten (retain_other i p ls) = filter (\<lambda>(q, ord). \<not> (q = p \<and> id_of ord = Some i)) (flatten ls)"
proof (cases "map_of ls p")
  case None
  then have "filter (\<lambda>(q, ord). \<not> (q = p \<and> id_of ord = Some i)) (flatten ls) = flatten ls"
    by (intro filter_True) (force simp: set_flatten map_of_eq_None_iff)
  with None show ?thesis by (simp add: retain_other_def)
next
  case (Some os)
  have upd: "flatten (AList.update p (filter (\<lambda>ord. id_of ord \<noteq> Some i) os) ls)
      = filter (\<lambda>(q, ord). q = p \<longrightarrow> id_of ord \<noteq> Some i) (flatten ls)"
    by (rule flatten_update [OF assms Some])
  show ?thesis
  proof (cases "filter (\<lambda>ord. id_of ord \<noteq> Some i) os = []")
    case True
    have "id_of ord = Some i" if "(p, ord) \<in> set (flatten ls)" for ord
    proof -
      from that obtain os' where "(p, os') \<in> set ls" "ord \<in> set os'"
        by (auto simp: set_flatten)
      with Some assms have "ord \<in> set os" by (metis map_of_is_SomeI option.inject)
      with True show ?thesis by (auto simp: filter_empty_conv)
    qed
    then have "filter (\<lambda>(q, ord). q \<noteq> p) (flatten ls)
        = filter (\<lambda>(q, ord). \<not> (q = p \<and> id_of ord = Some i)) (flatten ls)"
      by (intro filter_cong) auto
    with True Some show ?thesis by (simp add: retain_other_def store_level_def flatten_delete)
  next
    case False
    with Some upd show ?thesis
      by (simp add: retain_other_def store_level_def)
  qed
qed

lemma set_update_mem: "x \<in> set (AList.update k v m) \<Longrightarrow> x = (k, v) \<or> x \<in> set m"
  by (induction m) (auto split: if_splits)

lemma wf_side_retain_other:
  assumes "wf_side sd ls"
  shows "wf_side sd (retain_other i p ls)"
proof -
  note wf = wf_sideD [OF assms]
  have keys: "sorted_wrt (<) (map fst (retain_other i p ls))"
  proof (cases "map_of ls p")
    case (Some os)
    then have "p \<in> fst ` set ls" by (force dest: map_of_SomeD)
    then have "map fst (AList.update p os' ls) = map fst ls" for os'
      by (simp add: update_keys)
    moreover have "sorted_wrt (<) (filter (\<lambda>x. p \<noteq> x) (map fst ls))"
      by (rule sorted_wrt_filter [OF wf(4)])
    ultimately show ?thesis using wf(4) Some
      by (simp add: retain_other_def store_level_def AList.delete_keys removeAll_filter_not_eq)
  qed (use wf(4) in \<open>simp add: retain_other_def\<close>)
  have "no_empty_level (retain_other i p ls)"
    using wf(3) by (auto simp: retain_other_def store_level_def no_empty_level_def AList.delete_eq
        dest!: set_update_mem split: option.split)
  moreover have "set (flatten (retain_other i p ls)) \<subseteq> set (flatten ls)"
    by (auto simp: flatten_retain_other [OF wf(1)])
  ultimately show ?thesis using assms keys
    by (auto simp: wf_side_def all_identified_flatten)
qed

lemma filter_resting:
  assumes "book_inv b" "order_index b i = Some ord0"
  shows "(case side ord0 of
      Buy \<Rightarrow> flatten (retain_other i (price ord0) (buy_orders b)) @ flatten (sell_orders b)
    | Sell \<Rightarrow> flatten (buy_orders b) @ flatten (retain_other i (price ord0) (sell_orders b)))
    = filter (\<lambda>pm. id_of (snd pm) \<noteq> Some i) (flatten (buy_orders b) @ flatten (sell_orders b))"
proof -
  from assms have wf: "wf_side Buy (buy_orders b)" "wf_side Sell (sell_orders b)"
    by (auto simp: book_inv_def)
  have at: "p = price ord0 \<and> side ord = side ord0"
    if mem: "(p, ord) \<in> set (flatten (buy_orders b)) \<union> set (flatten (sell_orders b))"
      and i: "id_of ord = Some i" for p ord
  proof -
    have "(p, ord) \<in> set (resting b)" using mem by (simp add: resting_def bid_queue_def ask_queue_def)
    then have "(i, ord\<lparr>amount := 0\<rparr>) \<in> set (map entry (resting b))"
      by (force simp: entry_def i image_iff)
    then have "map_option (\<lambda>ord. ord\<lparr>amount := 0\<rparr>) (order_index b i) = Some (ord\<lparr>amount := 0\<rparr>)"
      using assms(1) unfolding book_inv_def by blast
    then have "ord0\<lparr>amount := 0\<rparr> = ord\<lparr>amount := 0\<rparr>" by (simp add: assms(2))
    then have "price ord = price ord0 \<and> side ord = side ord0"
      by (cases ord; cases ord0) simp
    moreover have "p = price ord" using mem wf by (auto simp: wf_side_def)
    ultimately show ?thesis by simp
  qed
  have sides: "side ord = Buy" if "(p, ord) \<in> set (flatten (buy_orders b))" for p ord
    using wf that by (auto simp: wf_side_def)
  have sides': "side ord = Sell" if "(p, ord) \<in> set (flatten (sell_orders b))" for p ord
    using wf that by (auto simp: wf_side_def)
  show ?thesis
  proof (cases "side ord0")
    case Buy
    have "id_of ord \<noteq> Some i" if "(p, ord) \<in> set (flatten (sell_orders b))" for p ord
      using at [of p ord] sides' [OF that] that Buy by auto
    then have "filter (\<lambda>pm. id_of (snd pm) \<noteq> Some i) (flatten (sell_orders b)) = flatten (sell_orders b)"
      by (intro filter_True) auto
    moreover have "filter (\<lambda>(q, ord). \<not> (q = price ord0 \<and> id_of ord = Some i)) (flatten (buy_orders b))
        = filter (\<lambda>pm. id_of (snd pm) \<noteq> Some i) (flatten (buy_orders b))"
    proof (rule filter_cong [OF refl])
      fix pm
      assume "pm \<in> set (flatten (buy_orders b))"
      then show "(case pm of (q, ord) \<Rightarrow> \<not> (q = price ord0 \<and> id_of ord = Some i)) \<longleftrightarrow> id_of (snd pm) \<noteq> Some i"
        using at [of "fst pm" "snd pm"] by (cases pm) auto
    qed
    ultimately show ?thesis
      unfolding Buy order_side.case filter_append flatten_retain_other [OF wf_sideD(1) [OF wf(1)]] by simp
  next
    case Sell
    have "id_of ord \<noteq> Some i" if "(p, ord) \<in> set (flatten (buy_orders b))" for p ord
      using at [of p ord] sides [OF that] that Sell by auto
    then have "filter (\<lambda>pm. id_of (snd pm) \<noteq> Some i) (flatten (buy_orders b)) = flatten (buy_orders b)"
      by (intro filter_True) auto
    moreover have "filter (\<lambda>(q, ord). \<not> (q = price ord0 \<and> id_of ord = Some i)) (flatten (sell_orders b))
        = filter (\<lambda>pm. id_of (snd pm) \<noteq> Some i) (flatten (sell_orders b))"
    proof (rule filter_cong [OF refl])
      fix pm
      assume "pm \<in> set (flatten (sell_orders b))"
      then show "(case pm of (q, ord) \<Rightarrow> \<not> (q = price ord0 \<and> id_of ord = Some i)) \<longleftrightarrow> id_of (snd pm) \<noteq> Some i"
        using at [of "fst pm" "snd pm"] by (cases pm) auto
    qed
    ultimately show ?thesis
      unfolding Sell order_side.case filter_append flatten_retain_other [OF wf_sideD(1) [OF wf(2)]] by simp
  qed
qed

lemma mset_resting: "mset (resting b) = mset (flatten (buy_orders b) @ flatten (sell_orders b))"
  by (simp add: resting_def bid_queue_def ask_queue_def mset_flatten_rev)

lemma cancel_order_resting:
  assumes "book_inv b" "order_index b i = Some ord0"
  shows "mset (resting (snd (cancel_order i b)))
    = mset (filter (\<lambda>pm. id_of (snd pm) \<noteq> Some i) (resting b))"
proof -
  have "mset (resting (snd (cancel_order i b)))
      = mset (filter (\<lambda>pm. id_of (snd pm) \<noteq> Some i) (flatten (buy_orders b) @ flatten (sell_orders b)))"
    unfolding mset_resting filter_resting [OF assms, symmetric]
    by (cases "side ord0") (simp_all add: cancel_order_def assms(2) Let_def)
  then show ?thesis
    by (simp only: mset_filter mset_resting [symmetric])
qed

lemma book_inv_cancel:
  assumes "book_inv b"
  shows "book_inv (snd (cancel_order i b))"
proof (cases "order_index b i")
  case None
  with assms show ?thesis by (simp add: cancel_order_def)
next
  case (Some ord0)
  define b' where "b' = snd (cancel_order i b)"
  have wf: "wf_side Buy (buy_orders b')" "wf_side Sell (sell_orders b')"
    using assms by (cases "side ord0";
        simp add: b'_def cancel_order_def Some Let_def book_inv_def wf_side_retain_other)+
  have idx: "order_index b' = (order_index b)(i := None)"
    by (cases "side ord0") (simp_all add: b'_def cancel_order_def Some Let_def)
  have m: "mset (resting b') = mset (filter (\<lambda>pm. id_of (snd pm) \<noteq> Some i) (resting b))"
    unfolding b'_def by (rule cancel_order_resting [OF assms Some])
  have ident: "id_of ord \<noteq> None" if "(p, ord) \<in> set (resting b)" for p ord
    using that assms
    by (auto simp: resting_def bid_queue_def ask_queue_def book_inv_def wf_side_def all_identified_flatten)
  have s: "set (map entry (resting b')) = {(j, e) \<in> set (map entry (resting b)). j \<noteq> i}"
  proof -
    have "set (resting b') = {pm \<in> set (resting b). id_of (snd pm) \<noteq> Some i}"
      using mset_eq_setD [OF m] by simp
    also have "\<dots> = {pm \<in> set (resting b). fst (entry pm) \<noteq> i}"
      using ident by (force simp: entry_def)
    finally show ?thesis by (auto simp: image_iff) (metis fst_conv)+
  qed
  have "distinct (map (fst \<circ> entry) (resting b'))"
    using mset_eq_imp_distinct_iff [of "map (fst \<circ> entry) (resting b')"
        "map (fst \<circ> entry) (filter (\<lambda>pm. id_of (snd pm) \<noteq> Some i) (resting b))"] m assms
    by (simp add: distinct_map_filter book_inv_def)
  moreover have "map_option (\<lambda>ord. ord\<lparr>amount := 0\<rparr>) (order_index b' j) = Some e
      \<longleftrightarrow> (j, e) \<in> set (map entry (resting b'))" for j e
    using assms unfolding s idx book_inv_def by simp
  ultimately show ?thesis using wf by (simp add: book_inv_def b'_def)
qed

section \<open>The book as a component driven by calls\<close>

datatype book_call = Add h256 order | Match "nat \<Rightarrow> u64" order | Cancel h256

fun book_step :: "book_call \<Rightarrow> order_book \<Rightarrow> order_book" where
  "book_step (Add i ord) b = snd (add_order i ord b)"
| "book_step (Match clock taker) b = snd (match_order clock taker b)"
| "book_step (Cancel i) b = snd (cancel_order i b)"

text \<open>The hash that names a new order is assumed not to collide with a resting order's.\<close>

fun book_ok :: "book_call \<Rightarrow> order_book \<Rightarrow> bool" where
  "book_ok (Add i ord) b \<longleftrightarrow> order_index b i = None"
| "book_ok _ b \<longleftrightarrow> True"

interpretation book: invariant_of book_step book_ok book_inv
proof
  fix b c
  assume "book_inv b" "book_ok c b"
  then show "book_inv (book_step c b)"
    by (cases c) (auto simp: book_inv_add book_inv_match book_inv_cancel)
qed

section \<open>Matching on one side or the other\<close>

definition opposite :: "order \<Rightarrow> order_book \<Rightarrow> queue" where
  "opposite taker b = (case side taker of Buy \<Rightarrow> ask_queue b | Sell \<Rightarrow> bid_queue b)"

lemma queues_cong [simp]:
  "ask_queue (b\<lparr>sell_orders := ls, order_index := idx\<rparr>) = flatten ls"
  "bid_queue (b\<lparr>buy_orders := ls, order_index := idx\<rparr>) = flatten (rev ls)"
  "bid_queue (b\<lparr>sell_orders := ls, order_index := idx\<rparr>) = bid_queue b"
  "ask_queue (b\<lparr>buy_orders := ls, order_index := idx\<rparr>) = ask_queue b"
  by (simp_all add: ask_queue_def bid_queue_def)

lemma update_stats_queues:
  "ask_queue (snd (update_stats ts b)) = ask_queue b" "bid_queue (snd (update_stats ts b)) = bid_queue b"
  by (simp_all add: ask_queue_def bid_queue_def update_stats_frame)

text \<open>Matching is the walk along the opposite queue; the own side does not change.\<close>

lemma match_order_walk:
  assumes "book_inv b" "match_order clock taker b = (Ok ts, b')"
  obtains m' where
    "walk taker clock (beyond_limit taker) (opposite taker b) (start_matching (amount taker) b)
       = (opposite taker b', m')"
    and "ts = trades m'" and "order_index b' = index m'"
    and "side taker = Buy \<Longrightarrow> bid_queue b' = bid_queue b"
    and "side taker = Sell \<Longrightarrow> ask_queue b' = ask_queue b"
proof (cases "side taker")
  case Buy
  have wf: "wf_side Sell (sell_orders b)" using assms(1) by (simp add: book_inv_def)
  obtain ls' m' j where
    r: "match_buy_order clock taker (amount taker) b =
      (Ok (trades m'), b\<lparr>sell_orders := ls', order_index := index m'\<rparr>)"
    and walk: "walk taker clock (beyond_limit taker) (ask_queue b) (start_matching (amount taker) b)
       = (flatten ls', m')" and "map fst ls' = drop j (map fst (sell_orders b))" "no_empty_level ls'"
    by (rule match_buy_order_walk [OF wf])
  let ?b = "b\<lparr>sell_orders := ls', order_index := index m'\<rparr>"
  obtain u where u: "update_stats ts ?b = (Ok u, b')" and ts: "ts = trades m'"
    using assms(2) unfolding match_order_def Buy order_side.case r and_then.simps and_then_Ok by blast
  then have b': "b' = snd (update_stats ts ?b)" by simp
  show ?thesis
  proof (rule that)
    show "walk taker clock (beyond_limit taker) (opposite taker b) (start_matching (amount taker) b)
       = (opposite taker b', m')"
      using walk unfolding b' opposite_def Buy order_side.case update_stats_queues queues_cong .
    show "order_index b' = index m'"
      unfolding b' update_stats_frame by simp
    show "bid_queue b' = bid_queue b" if "side taker = Buy"
      unfolding b' update_stats_queues using that Buy by simp
    show "ask_queue b' = ask_queue b" if "side taker = Sell"
      unfolding b' update_stats_queues using that Buy by simp
  qed (rule ts)
next
  case Sell
  have wf: "wf_side Buy (buy_orders b)" using assms(1) by (simp add: book_inv_def)
  obtain ls' m' j where
    r: "match_sell_order clock taker (amount taker) b =
      (Ok (trades m'), b\<lparr>buy_orders := ls', order_index := index m'\<rparr>)"
    and walk: "walk taker clock (beyond_limit taker) (bid_queue b) (start_matching (amount taker) b)
       = (flatten (rev ls'), m')"
    and "map fst (rev ls') = drop j (rev (map fst (buy_orders b)))" "no_empty_level ls'"
    by (rule match_sell_order_walk [OF wf])
  let ?b = "b\<lparr>buy_orders := ls', order_index := index m'\<rparr>"
  obtain u where u: "update_stats ts ?b = (Ok u, b')" and ts: "ts = trades m'"
    using assms(2) unfolding match_order_def Sell order_side.case r and_then.simps and_then_Ok by blast
  then have b': "b' = snd (update_stats ts ?b)" by simp
  show ?thesis
  proof (rule that)
    show "walk taker clock (beyond_limit taker) (opposite taker b) (start_matching (amount taker) b)
       = (opposite taker b', m')"
      using walk unfolding b' opposite_def Sell order_side.case update_stats_queues queues_cong .
    show "order_index b' = index m'"
      unfolding b' update_stats_frame by simp
    show "bid_queue b' = bid_queue b" if "side taker = Buy"
      unfolding b' update_stats_queues using that Sell by simp
    show "ask_queue b' = ask_queue b" if "side taker = Sell"
      unfolding b' update_stats_queues using that Sell by simp
  qed (rule ts)
qed

lemma start_matching_simps [simp]:
  "index (start_matching amt b) = order_index b" "remaining (start_matching amt b) = amt"
  "trades (start_matching amt b) = []"
  by (simp_all add: start_matching_def)

text \<open>Prices along the queues: asks ascend, bids descend.\<close>

lemma sorted_ask_queue:
  assumes "wf_side Sell (sell_orders b)"
  shows "sorted_wrt (\<le>) (map fst (ask_queue b))"
proof -
  have "sorted_wrt (<) (map fst ls) \<Longrightarrow> sorted_wrt (\<le>) (map fst (flatten ls))" for ls
    by (induction ls) (force simp: sorted_wrt_append sorted_wrt_map set_flatten comp_def
        intro: less_imp_le sorted_wrt01)+
  with wf_sideD(4) [OF assms] show ?thesis by (simp add: ask_queue_def)
qed

lemma sorted_bid_queue:
  assumes "wf_side Buy (buy_orders b)"
  shows "sorted_wrt (\<ge>) (map fst (bid_queue b))"
proof -
  have "sorted_wrt (>) (map fst ls) \<Longrightarrow> sorted_wrt (\<ge>) (map fst (flatten ls))" for ls
    by (induction ls) (force simp: sorted_wrt_append sorted_wrt_map set_flatten comp_def
        intro: less_imp_le sorted_wrt01)+
  moreover have "sorted_wrt (>) (map fst (rev (buy_orders b)))"
    using wf_sideD(4) [OF assms] by (simp add: rev_map [symmetric] sorted_wrt_rev)
  ultimately show ?thesis by (simp add: bid_queue_def)
qed

section \<open>The cost of a market buy\<close>

fun buy_queue :: "queue \<Rightarrow> u256 \<Rightarrow> u256 \<Rightarrow> (u256 \<times> u256 + u256) option" where
  "buy_queue [] cost rem = Some (Inl (cost, rem))"
| "buy_queue ((p, ord) # q) cost rem = do {
     let amt = min rem (amount ord);
     c \<leftarrow> umul amt p;
     cost' \<leftarrow> uadd cost c;
     (if rem - amt = 0 then Some (Inr cost') else buy_queue q cost' (rem - amt))
   }"

lemma buy_level_queue:
  "(do { r \<leftarrow> buy_level p os cost rem;
         (case r of Inr c \<Rightarrow> Some (Inr c) | Inl (cost', rem') \<Rightarrow> buy_queue q cost' rem') })
   = buy_queue (map (Pair p) os @ q) cost rem"
proof (induction os arbitrary: cost rem)
  case (Cons ord os)
  show ?case
    by (cases "umul (min rem (amount ord)) p"; simp add: Let_def;
        cases "uadd cost (the (umul (min rem (amount ord)) p))"; simp add: Cons.IH [symmetric])
qed simp

lemma buy_levels_queue: "buy_levels ls cost rem = buy_queue (flatten ls) cost rem"
proof (induction ls arbitrary: cost rem)
  case (Cons l ls)
  obtain p os where l: "l = (p, os)" by (cases l)
  have IH: "buy_levels ls = buy_queue (flatten ls)"
    by (intro ext) (rule Cons.IH)
  show ?case
    using buy_level_queue [of p os cost rem "flatten ls"] by (simp add: l IH)
qed simp

definition trades_cost :: "trade list \<Rightarrow> nat" where
  "trades_cost ts = (\<Sum>t \<leftarrow> ts. unat (trade_amount t) * unat (trade_price t))"

lemma trades_cost_simps [simp]:
  "trades_cost [] = 0"
  "trades_cost (t # ts) = unat (trade_amount t) * unat (trade_price t) + trades_cost ts"
  by (simp_all add: trades_cost_def)

text \<open>One step of a walk without a price limit.\<close>

lemma walk_market_step:
  assumes "walk taker clock (\<lambda>_. False) ((p, mk) # q) m = (q', m')" "remaining m \<noteq> 0"
    and "amt = min (remaining m) (amount mk)"
  obtains (full) t where "trade_amount t = amt" "trade_price t = p" "remaining m = amt"
      "trades m' = trades m @ [t]" "remaining m' = 0"
  | (more) t m1 where "trade_amount t = amt" "trade_price t = p" "remaining m \<noteq> amt"
      "trades m1 = trades m @ [t]" "remaining m1 = remaining m - amt"
      "walk taker clock (\<lambda>_. False) q m1 = (q', m')"
proof -
  define i where "i = the (id_of mk)"
  define m1 where "m1 = after_trade taker clock p i amt m"
  have walk: "(if amount mk = amt then walk taker clock (\<lambda>_. False) q (used_up i m1)
      else ((p, mk\<lparr>amount := amount mk - amt\<rparr>) # q, m1)) = (q', m')"
    using assms(1,2) by (simp add: Let_def m1_def i_def flip: assms(3) split: if_splits)
  show ?thesis
  proof (cases "remaining m = amt")
    case True
    then have "remaining m1 = 0" by (simp add: m1_def)
    then have "remaining m' = 0 \<and> trades m' = trades m1"
      using walk by (auto simp: walk_zero split: if_splits)
    then show ?thesis
      using True by (intro full [of "trade_of taker clock p i amt m"]) (simp_all add: m1_def)
  next
    case False
    then have "amount mk = amt" using assms(3) by (auto simp: min_def split: if_splits)
    with walk False show ?thesis
      by (intro more [of "trade_of taker clock p i amt m" "used_up i m1"]) (simp_all add: m1_def)
  qed
qed

text \<open>The estimate walks the asks as a market order would, and panics exactly when its sum overflows.\<close>

definition estimate_ok :: "(u256 \<times> u256 + u256) option \<Rightarrow> nat \<Rightarrow> u256 \<Rightarrow> bool" where
  "estimate_ok r cost left = (case r of
      None \<Rightarrow> 2 ^ 256 \<le> cost
    | Some (Inr c) \<Rightarrow> unat c = cost \<and> left = 0
    | Some (Inl (c, rem)) \<Rightarrow> unat c = cost \<and> left = rem)"

lemma estimate_overflow:
  "umul amt p = None \<Longrightarrow> estimate_ok None (n + (unat amt * unat (p :: u256) + k)) left"
  "umul amt p = Some v \<Longrightarrow> uadd c v = None \<Longrightarrow>
     estimate_ok None (unat c + (unat amt * unat (p :: u256) + k)) left"
  by (auto simp: estimate_ok_def umul_None uadd_None checked_ops)

lemma walk_buy_queue:
  "walk taker clock (\<lambda>_. False) q m = (q', m') \<Longrightarrow>
   \<exists>ts. trades m' = trades m @ ts \<and>
     estimate_ok (buy_queue q c (remaining m)) (unat c + trades_cost ts) (remaining m')"
proof (induction q arbitrary: m c)
  case Nil
  then show ?case by (simp add: estimate_ok_def)
next
  case (Cons pm q)
  obtain p mk where pm: "pm = (p, mk)" by (cases pm)
  define amt where "amt = min (remaining m) (amount mk)"
  show ?case
  proof (cases "remaining m = 0")
    case True
    have "umul 0 p = Some 0" "uadd c 0 = Some c" by (simp_all add: checked_ops)
    with True Cons.prems show ?thesis by (auto simp: pm Let_def estimate_ok_def)
  next
    case False
    have eq: "buy_queue (pm # q) c (remaining m) = do {
        k \<leftarrow> umul amt p; c1 \<leftarrow> uadd c k;
        (if remaining m = amt then Some (Inr c1) else buy_queue q c1 (remaining m - amt)) }"
      by (simp add: pm Let_def flip: amt_def)
    from Cons.prems [unfolded pm] False amt_def show ?thesis
    proof (cases rule: walk_market_step)
      case (full t)
      then show ?thesis
        unfolding eq
        by (intro exI [of _ "[t]"])
          (auto simp: bind_eq_None_conv estimate_overflow [where k = 0, simplified] estimate_ok_def
            checked_ops umul_None uadd_None split: bind_split)
    next
      case (more t m1)
      have step: "\<exists>ts. trades m' = trades m @ t # ts \<and>
          estimate_ok (buy_queue q c1 (remaining m - amt)) (unat c1 + trades_cost ts) (remaining m')" for c1
        using Cons.IH [OF more(6), of c1] by (auto simp: more(4,5))
      show ?thesis
      proof (cases "do { k \<leftarrow> umul amt p; uadd c k }")
        case None
        from step [of 0] obtain ts where ts: "trades m' = trades m @ t # ts" by blast
        have "buy_queue (pm # q) c (remaining m) = None"
          unfolding eq using None by (cases "umul amt p") auto
        moreover have "estimate_ok None (unat c + (unat amt * unat p + trades_cost ts)) (remaining m')"
          using None by (cases "umul amt p") (auto intro: estimate_overflow)
        ultimately show ?thesis
          using ts by (intro exI [of _ "t # ts"]) (simp add: more(1,2))
      next
        case (Some c1)
        then have "unat c1 = unat c + unat amt * unat p"
          by (auto simp: bind_eq_Some_conv checked_ops)
        moreover from Some have "buy_queue (pm # q) c (remaining m) = buy_queue q c1 (remaining m - amt)"
          unfolding eq using more(3) by (auto simp: bind_eq_Some_conv)
        moreover obtain ts where "trades m' = trades m @ t # ts"
          "estimate_ok (buy_queue q c1 (remaining m - amt)) (unat c1 + trades_cost ts) (remaining m')"
          using step by blast
        ultimately show ?thesis
          by (intro exI [of _ "t # ts"]) (simp add: more(1,2) add.assoc)
      qed
    qed
  qed
qed

section \<open>Properties\<close>

text \<open>A book with two asks and a bid, for concrete instances.\<close>

definition sample_order :: "order_side \<Rightarrow> u256 \<Rightarrow> u256 \<Rightarrow> order" where
  "sample_order sd amt p = \<lparr> id_of = None, trader = 7, type_of = Limit, side = sd, base_token = 1,
     quote_token = 2, amount = amt, price = p, timestamp = 0, expiry = None \<rparr>"

definition sample_calls :: "book_call list" where
  "sample_calls = [Add 11 (sample_order Sell 5 100), Add 12 (sample_order Sell 4 90),
     Add 13 (sample_order Buy 3 80)]"

definition sample_book :: order_book where
  "sample_book = run book_step sample_calls book_new"

definition sample_taker :: "order_type \<Rightarrow> order" where
  "sample_taker ty = (sample_order Buy 6 95)\<lparr>type_of := ty\<rparr>"

lemmas sample_simps = sample_order_def sample_calls_def sample_book_def sample_taker_def book_new_def
  add_order_def add_limit_order_def Let_def

text \<open>C2: after every sequence of calls on a new book (orders added under fresh identifiers, takers matched,
  orders cancelled) the book's invariant holds: prices strictly ascend on both sides, no level is
  empty, every order is filed under its own side and price, identifiers are unique, and the index
  holds exactly the resting orders.\<close>

theorem book_invariant_in_every_run:
  assumes "run_ok book_ok book_step cs book_new"
  shows "book_inv (run book_step cs book_new)"
  by (rule book.inv_run [OF book_inv_new assms])

lemma sample_run_ok: "run_ok book_ok book_step sample_calls book_new"
  by (simp add: sample_simps)

theorem book_invariant_in_every_run_witness: "book_inv sample_book"
  unfolding sample_book_def by (rule book_invariant_in_every_run [OF sample_run_ok])

lemma book_inv_sample: "book_inv sample_book"
  unfolding sample_book_def by (rule book.inv_run [OF book_inv_new sample_run_ok])

lemma sample_match:
  "fst (match_order (\<lambda>n. 50) (sample_taker Limit) sample_book) =
     Ok [\<lparr> maker_order_id = 12, taker_order_id = 0, trade_amount = 4, trade_price = 90, trade_timestamp = 50 \<rparr>]"
  "fst (match_order (\<lambda>n. 50) (sample_taker Market) sample_book) =
     Ok [\<lparr> maker_order_id = 12, taker_order_id = 0, trade_amount = 4, trade_price = 90, trade_timestamp = 50 \<rparr>,
         \<lparr> maker_order_id = 11, taker_order_id = 0, trade_amount = 2, trade_price = 100, trade_timestamp = 50 \<rparr>]"
  by (simp_all add: sample_simps match_order_def match_buy_order_def beyond_limit_def start_matching_def
      fill_level.simps(2) store_level_def trade_of_def after_trade_def used_up_def record_trade_def
      uadd_def min_def)

text \<open>C1: matching implements price-time priority: the nested loops over price levels do exactly what a walk
  along the opposite side as one queue (best price first, oldest first within a price) does, and
  the own side is not touched.\<close>

theorem matching_refines_queue_walk:
  assumes "book_inv b" "fst (match_order clock taker b) = Ok ts"
  shows "\<exists>m'. walk taker clock (beyond_limit taker) (opposite taker b) (start_matching (amount taker) b)
       = (opposite taker (snd (match_order clock taker b)), m') \<and>
     ts = trades m' \<and> order_index (snd (match_order clock taker b)) = index m' \<and>
     (side taker = Buy \<longrightarrow> bid_queue (snd (match_order clock taker b)) = bid_queue b) \<and>
     (side taker = Sell \<longrightarrow> ask_queue (snd (match_order clock taker b)) = ask_queue b)"
proof -
  have "match_order clock taker b = (Ok ts, snd (match_order clock taker b))"
    using assms(2) by (metis prod.collapse)
  from match_order_walk [OF assms(1) this] show ?thesis by metis
qed

theorem matching_refines_queue_walk_witness:
  "\<exists>m'. walk (sample_taker Limit) (\<lambda>n. 50) (beyond_limit (sample_taker Limit))
      (opposite (sample_taker Limit) sample_book) (start_matching (amount (sample_taker Limit)) sample_book)
       = (opposite (sample_taker Limit) (snd (match_order (\<lambda>n. 50) (sample_taker Limit) sample_book)), m')"
  using matching_refines_queue_walk [OF book_inv_sample sample_match(1)] by blast

text \<open>C9: matching conserves quantity: what the opposite side loses is what is traded, which never exceeds
  the taker's amount; every trade is within the taker's limit and no later trade has a better price.\<close>

theorem matching_conserves_and_respects_limit:
  assumes "book_inv b" "fst (match_order clock taker b) = Ok ts"
  shows "traded ts + quantity (opposite taker (snd (match_order clock taker b))) = quantity (opposite taker b) \<and>
    traded ts \<le> unat (amount taker) \<and>
    (\<forall>t \<in> set ts. \<not> beyond_limit taker (trade_price t)) \<and>
    sorted_wrt (case side taker of Buy \<Rightarrow> (\<le>) | Sell \<Rightarrow> (\<ge>)) (map trade_price ts)"
proof -
  have "match_order clock taker b = (Ok ts, snd (match_order clock taker b))"
    using assms(2) by (metis prod.collapse)
  then obtain m' where walk: "walk taker clock (beyond_limit taker) (opposite taker b)
      (start_matching (amount taker) b) = (opposite taker (snd (match_order clock taker b)), m')"
    and ts: "ts = trades m'"
    using match_order_walk [OF assms(1)] by metis
  obtain n where prices: "map trade_price ts = take n (map fst (opposite taker b))"
    and limit: "\<forall>t \<in> set ts. \<not> beyond_limit taker (trade_price t)"
    using walk_trades [OF walk] by (auto simp: ts)
  have "sorted_wrt (case side taker of Buy \<Rightarrow> (\<le>) | Sell \<Rightarrow> (\<ge>)) (map fst (opposite taker b))"
    using assms(1) sorted_ask_queue [of b] sorted_bid_queue [of b]
    by (cases "side taker") (simp_all add: book_inv_def opposite_def)
  then have "sorted_wrt (case side taker of Buy \<Rightarrow> (\<le>) | Sell \<Rightarrow> (\<ge>)) (map trade_price ts)"
    unfolding prices by (metis append_take_drop_id sorted_wrt_append)
  with walk_conserves [OF walk] limit show ?thesis by (simp add: ts)
qed

theorem matching_conserves_and_respects_limit_witness:
  "traded [\<lparr> maker_order_id = 12, taker_order_id = 0, trade_amount = 4, trade_price = 90, trade_timestamp = 50 \<rparr>]
     + quantity (opposite (sample_taker Limit) (snd (match_order (\<lambda>n. 50) (sample_taker Limit) sample_book)))
     = quantity (opposite (sample_taker Limit) sample_book)"
  using matching_conserves_and_respects_limit [OF book_inv_sample sample_match(1)] by blast

text \<open>C11: matching leaves nothing executable behind: either the taker is filled, or the opposite side is empty,
  or its best price is beyond the taker's limit.\<close>

theorem matching_exhausts_the_book:
  assumes "book_inv b" "fst (match_order clock taker b) = Ok ts"
  shows "traded ts = unat (amount taker) \<or> opposite taker (snd (match_order clock taker b)) = [] \<or>
    beyond_limit taker (fst (hd (opposite taker (snd (match_order clock taker b)))))"
proof -
  have "match_order clock taker b = (Ok ts, snd (match_order clock taker b))"
    using assms(2) by (metis prod.collapse)
  then obtain m' where walk: "walk taker clock (beyond_limit taker) (opposite taker b)
      (start_matching (amount taker) b) = (opposite taker (snd (match_order clock taker b)), m')"
    and ts: "ts = trades m'"
    using match_order_walk [OF assms(1)] by metis
  from walk_conserves [OF walk] walk_exhausts [OF walk] show ?thesis by (auto simp: ts)
qed

theorem matching_exhausts_the_book_witness:
  "traded [\<lparr> maker_order_id = 12, taker_order_id = 0, trade_amount = 4, trade_price = 90, trade_timestamp = 50 \<rparr>]
     = unat (amount (sample_taker Limit)) \<or>
   opposite (sample_taker Limit) (snd (match_order (\<lambda>n. 50) (sample_taker Limit) sample_book)) = [] \<or>
   beyond_limit (sample_taker Limit)
     (fst (hd (opposite (sample_taker Limit) (snd (match_order (\<lambda>n. 50) (sample_taker Limit) sample_book)))))"
  using matching_exhausts_the_book [OF book_inv_sample sample_match(1)] .

text \<open>Cancelling removes exactly the order with the given identifier from the book and from the index, and
  leaves the book alone (with \<^verbatim>\<open>OrderNotFound\<close>) when no such order rests.\<close>

theorem cancel_removes_exactly_the_order:
  assumes "book_inv b"
  shows "case order_index b i of
      None \<Rightarrow> cancel_order i b = (Err OrderNotFound, b)
    | Some _ \<Rightarrow> fst (cancel_order i b) = Ok () \<and>
        mset (resting (snd (cancel_order i b))) = filter_mset (\<lambda>pm. id_of (snd pm) \<noteq> Some i) (mset (resting b)) \<and>
        order_index (snd (cancel_order i b)) = (order_index b)(i := None)"
proof (cases "order_index b i")
  case None
  then show ?thesis by (simp add: cancel_order_def)
next
  case (Some ord0)
  then have "fst (cancel_order i b) = Ok () \<and> order_index (snd (cancel_order i b)) = (order_index b)(i := None)"
    by (cases "side ord0") (simp_all add: cancel_order_def Let_def)
  with cancel_order_resting [OF assms Some] Some show ?thesis by simp
qed

theorem cancel_removes_exactly_the_order_witness:
  "fst (cancel_order 12 sample_book) = Ok () \<and>
   mset (resting (snd (cancel_order 12 sample_book)))
     = filter_mset (\<lambda>pm. id_of (snd pm) \<noteq> Some 12) (mset (resting sample_book))"
proof -
  have "order_index sample_book 12 \<noteq> None" by (simp add: sample_simps)
  with cancel_removes_exactly_the_order [OF book_inv_sample, of 12] show ?thesis by auto
qed

text \<open>\<^verbatim>\<open>calculate_market_buy\<close> returns what a market buy of that amount would pay, trade by trade; it reports
  insufficient liquidity exactly when that order would not be filled, and panics only when the sum does
  not fit in 256 bits.\<close>

theorem market_buy_estimate_is_the_cost:
  assumes "book_inv b" "type_of taker = Market" "side taker = Buy"
    and "fst (match_order clock taker b) = Ok ts"
  shows "case calculate_market_buy (amount taker) b of
      Ok c \<Rightarrow> unat c = trades_cost ts \<and> traded ts = unat (amount taker)
    | Err e \<Rightarrow> e = InsufficientLiquidity \<and> traded ts < unat (amount taker)
    | Panic \<Rightarrow> 2 ^ 256 \<le> trades_cost ts
    | Hang \<Rightarrow> False"
proof -
  have "match_order clock taker b = (Ok ts, snd (match_order clock taker b))"
    using assms(4) by (metis prod.collapse)
  then obtain m' where "walk taker clock (beyond_limit taker) (opposite taker b)
      (start_matching (amount taker) b) = (opposite taker (snd (match_order clock taker b)), m')"
    and ts: "ts = trades m'"
    using match_order_walk [OF assms(1)] by metis
  moreover have "beyond_limit taker = (\<lambda>_. False)"
    by (auto simp: beyond_limit_def assms(2))
  ultimately have walk: "walk taker clock (\<lambda>_. False) (ask_queue b) (start_matching (amount taker) b)
      = (opposite taker (snd (match_order clock taker b)), m')"
    by (simp add: opposite_def assms(3))
  have ok: "estimate_ok (buy_levels (sell_orders b) 0 (amount taker)) (trades_cost ts) (remaining m')"
    using walk_buy_queue [OF walk, of 0] by (auto simp: buy_levels_queue ask_queue_def ts)
  have filled: "traded ts + unat (remaining m') = unat (amount taker)"
    using walk_conserves [OF walk] by (simp add: ts)
  have short: "remaining m' \<noteq> 0 \<Longrightarrow> traded ts < unat (amount taker)"
    using filled by (metis less_add_same_cancel1 unat_gt_0)
  show ?thesis
    using ok filled short
    by (auto simp: calculate_market_buy_def estimate_ok_def word_gt_0 unat_gt_0
        split: option.splits sum.splits if_splits)
qed

theorem market_buy_estimate_is_the_cost_witness:
  "case calculate_market_buy 6 sample_book of
      Ok c \<Rightarrow> unat c = 560 \<and> (6 :: nat) = unat (6 :: u256)
    | Err e \<Rightarrow> e = InsufficientLiquidity \<and> (6 :: nat) < unat (6 :: u256)
    | Panic \<Rightarrow> 2 ^ 256 \<le> (560 :: nat)
    | Hang \<Rightarrow> False"
  using market_buy_estimate_is_the_cost [OF book_inv_sample _ _ sample_match(2)]
  by (simp add: sample_taker_def sample_order_def traded_def trades_cost_def cong: outcome.case_cong)

end
