(* ===== verification/DexEngine.thy ===== *)
theory DexEngine
  imports OrderBookProps
begin

text \<open>
  The exchange's front end, \<^verbatim>\<open>DexEngine\<close> of \<^verbatim>\<open>src/dex/mod.rs\<close> with the matching engine of
  \<^verbatim>\<open>src/dex/matching_engine.rs\<close>: validation and placing of orders, the map of liquidity pools and the
  operations that go through it, and the routed swap.

  The route a swap takes is an argument here, and the theorems of this theory hold for every route; the theory
  of \<^verbatim>\<open>src/dex/router.rs\<close> supplies the one that the exchange computes.
\<close>

section \<open>State and results\<close>

text \<open>
  \<open>pools_taken\<close>: a call that was suspended for ever inside a pool still has the write guard of the
  pool map.
\<close>

record dex_engine =
  orderbook :: order_book
  amm_pools :: "h256 \<rightharpoonup> amm_pool"
  pools_taken :: bool

datatype trade_hop = Hop_AmmPool h256 | Hop_OrderBook h256

record execution_result =
  executed_id :: h256
  executed_amount :: u256
  average_price :: u256
  execution_fee :: u256
  execution_trades :: "trade list"

record swap_result =
  swap_path :: "trade_hop list"
  swap_amount_in :: u256
  swap_out :: u256
  swap_recipient :: address
  swap_timestamp :: u64

definition engine_new :: dex_engine where
  "engine_new = \<lparr> orderbook = book_new, amm_pools = Map.empty, pools_taken = False \<rparr>"

section \<open>Orders\<close>

definition validate_order :: "order \<Rightarrow> (dex_error, unit) outcome" where
  "validate_order ord =
     (if amount ord = 0 then Err InvalidAmount
      else if price ord = 0 \<and> type_of ord = Limit then Err InvalidPrice
      else Ok ())"

text \<open>The matching engine is a stub in the code: it never trades.\<close>

definition try_match :: "order \<Rightarrow> (dex_error, trade list) outcome" where
  "try_match ord = Ok []"

definition execute_market_order :: "order \<Rightarrow> (dex_error, execution_result) outcome" where
  "execute_market_order ord = Ok \<lparr> executed_id = 0, executed_amount = 0, average_price = 0,
     execution_fee = 0, execution_trades = [] \<rparr>"

definition place_limit_order ::
  "h256 \<Rightarrow> order \<Rightarrow> dex_engine \<Rightarrow> (dex_error, h256) outcome \<times> dex_engine" where
  "place_limit_order fresh_id ord e =
     and_then (validate_order ord, e) (\<lambda>_ e.
     case add_order fresh_id ord (orderbook e) of
       (r, b) \<Rightarrow> and_then (r, e\<lparr>orderbook := b\<rparr>) (\<lambda>i e.
                   and_then (try_match ord, e) (\<lambda>_ e. (Ok i, e))))"

definition place_market_order ::
  "order \<Rightarrow> dex_engine \<Rightarrow> (dex_error, execution_result) outcome \<times> dex_engine" where
  "place_market_order ord e = and_then (execute_market_order ord, e) (\<lambda>r e. (Ok r, e))"

section \<open>Pools\<close>

definition compute_pool_id :: "(h256 \<Rightarrow> h256 \<Rightarrow> h256) \<Rightarrow> h256 \<Rightarrow> h256 \<Rightarrow> h256" where
  "compute_pool_id sha ta tb = (if ta < tb then sha ta tb else sha tb ta)"

definition get_or_create_pool ::
  "(h256 \<Rightarrow> h256 \<Rightarrow> h256) \<Rightarrow> h256 \<Rightarrow> h256 \<Rightarrow> dex_engine \<Rightarrow> (dex_error, h256) outcome \<times> dex_engine" where
  "get_or_create_pool sha ta tb e =
     (let k = compute_pool_id sha ta tb in
      if pools_taken e then (Hang, e)
      else (Ok k, case amm_pools e k of
                    None \<Rightarrow> e\<lparr>amm_pools := (amm_pools e)(k \<mapsto> amm_new ta tb)\<rparr>
                  | Some _ \<Rightarrow> e))"

text \<open>\<^verbatim>\<open>pools.write()\<close>, \<^verbatim>\<open>get_mut\<close> and a call of the pool under the guard.\<close>

definition with_pool ::
  "h256 \<Rightarrow> (amm_pool \<Rightarrow> (dex_error, 'a) outcome \<times> amm_pool) \<Rightarrow> dex_engine
     \<Rightarrow> (dex_error, 'a) outcome \<times> dex_engine" where
  "with_pool k f e =
     (if pools_taken e then (Hang, e)
      else case amm_pools e k of
        None \<Rightarrow> (Err PoolNotFound, e)
      | Some s \<Rightarrow> (fst (f s), e\<lparr>amm_pools := (amm_pools e)(k \<mapsto> snd (f s)), pools_taken := (fst (f s) = Hang)\<rparr>))"

definition engine_add_liquidity ::
  "(h256 \<Rightarrow> h256 \<Rightarrow> h256) \<Rightarrow> u64 \<Rightarrow> h256 \<Rightarrow> h256 \<Rightarrow> u256 \<Rightarrow> u256 \<Rightarrow> address \<Rightarrow> dex_engine
     \<Rightarrow> (dex_error, liquidity_result) outcome \<times> dex_engine" where
  "engine_add_liquidity sha now ta tb a b provider e =
     and_then (get_or_create_pool sha ta tb e) (\<lambda>k e. with_pool k (add_liquidity sha now a b provider) e)"

definition engine_remove_liquidity ::
  "u64 \<Rightarrow> h256 \<Rightarrow> u256 \<Rightarrow> address \<Rightarrow> dex_engine \<Rightarrow> (dex_error, u256 \<times> u256) outcome \<times> dex_engine" where
  "engine_remove_liquidity now k l provider e = with_pool k (remove_liquidity now l provider) e"

section \<open>Routed swaps\<close>

fun calculate_output :: "trade_hop list \<Rightarrow> u256 \<Rightarrow> dex_engine \<Rightarrow> (dex_error, u256) outcome \<times> dex_engine" where
  "calculate_output [] amt e = (Ok amt, e)"
| "calculate_output (Hop_AmmPool k # hops) amt e =
     (if pools_taken e then (Hang, e)
      else case amm_pools e k of
        None \<Rightarrow> (Err PoolNotFound, e)
      | Some s \<Rightarrow> or_panic e (get_amount_out amt s) (\<lambda>amt. calculate_output hops amt e))"
| "calculate_output (Hop_OrderBook pair # hops) amt e =
     and_then (calculate_market_buy amt (orderbook e), e) (\<lambda>amt e. calculate_output hops amt e)"

definition execute_swap ::
  "u64 \<Rightarrow> trade_hop list \<Rightarrow> u256 \<Rightarrow> u256 \<Rightarrow> address \<Rightarrow> dex_engine \<Rightarrow> (dex_error, swap_result) outcome \<times> dex_engine" where
  "execute_swap now path amount_in amount_out recipient e =
     (Ok \<lparr> swap_path = path, swap_amount_in = amount_in, swap_out = amount_out,
           swap_recipient = recipient, swap_timestamp = now \<rparr>, e)"

definition engine_swap ::
  "(h256 \<Rightarrow> h256 \<Rightarrow> u256 \<Rightarrow> (dex_error, trade_hop list) outcome) \<Rightarrow> u64 \<Rightarrow> h256 \<Rightarrow> h256 \<Rightarrow> u256 \<Rightarrow> u256
     \<Rightarrow> address \<Rightarrow> dex_engine \<Rightarrow> (dex_error, swap_result) outcome \<times> dex_engine" where
  "engine_swap find_best_path now token_in token_out amount_in min_amount_out recipient e =
     and_then (find_best_path token_in token_out amount_in, e) (\<lambda>path e.
     and_then (calculate_output path amount_in e) (\<lambda>amount_out e.
       if amount_out < min_amount_out then (Err ExcessiveSlippage, e)
       else execute_swap now path amount_in amount_out recipient e))"

section \<open>The engine as a component driven by calls\<close>

datatype engine_call =
    Place h256 order
  | Place_market order
  | Deposit u64 h256 h256 u256 u256 address
  | Withdraw u64 h256 u256 address
  | Swap "(dex_error, trade_hop list) outcome" u64 h256 h256 u256 u256 address

fun engine_step :: "(h256 \<Rightarrow> h256 \<Rightarrow> h256) \<Rightarrow> engine_call \<Rightarrow> dex_engine \<Rightarrow> dex_engine" where
  "engine_step sha (Place i ord) e = snd (place_limit_order i ord e)"
| "engine_step sha (Place_market ord) e = snd (place_market_order ord e)"
| "engine_step sha (Deposit now ta tb a b p) e = snd (engine_add_liquidity sha now ta tb a b p e)"
| "engine_step sha (Withdraw now k l p) e = snd (engine_remove_liquidity now k l p e)"
| "engine_step sha (Swap route now tin tout a m r) e = snd (engine_swap (\<lambda>_ _ _. route) now tin tout a m r e)"

fun engine_ok :: "engine_call \<Rightarrow> dex_engine \<Rightarrow> bool" where
  "engine_ok (Place i ord) e \<longleftrightarrow> order_index (orderbook e) i = None"
| "engine_ok _ e \<longleftrightarrow> True"

text \<open>
  The invariant: the book's, and every pool is filed under the identifier of its token pair, takes the
  fee it was created with and has its LP supply backed by its providers.
\<close>

definition pool_filed :: "(h256 \<Rightarrow> h256 \<Rightarrow> h256) \<Rightarrow> h256 \<Rightarrow> amm_pool \<Rightarrow> bool" where
  "pool_filed sha k s \<longleftrightarrow> k = compute_pool_id sha (token_a s) (token_b s) \<and> fee_rate s = 30 \<and> lp_backed s"

definition engine_inv :: "(h256 \<Rightarrow> h256 \<Rightarrow> h256) \<Rightarrow> dex_engine \<Rightarrow> bool" where
  "engine_inv sha e \<longleftrightarrow> book_inv (orderbook e) \<and> (\<forall>k s. amm_pools e k = Some s \<longrightarrow> pool_filed sha k s)"

lemma engine_inv_new: "engine_inv sha engine_new"
  by (simp add: engine_inv_def engine_new_def book_inv_new)

lemma calculate_output_state [simp]: "snd (calculate_output hops amt e) = e"
proof (induction hops arbitrary: amt)
  case (Cons h hops)
  show ?case
  proof (cases h)
    case (Hop_AmmPool k)
    then show ?thesis
      using Cons.IH by (auto split: option.split or_panic_split)
  next
    case (Hop_OrderBook p)
    then show ?thesis
      using Cons.IH by (cases "calculate_market_buy amt (orderbook e)") auto
  qed
qed simp

lemma engine_swap_state [simp]: "snd (engine_swap route now tin tout a m r e) = e"
proof -
  have "snd (and_then (calculate_output path a e) (\<lambda>amount_out e.
       if amount_out < m then (Err ExcessiveSlippage, e)
       else execute_swap now path a amount_out r e)) = e" for path
    using calculate_output_state [of path a e]
    by (cases "calculate_output path a e"; cases "fst (calculate_output path a e)")
      (auto simp: execute_swap_def)
  then show ?thesis
    by (cases "route tin tout a") (auto simp: engine_swap_def)
qed

lemma place_limit_order_cases:
  "place_limit_order i ord e =
    (case validate_order ord of
       Ok _ \<Rightarrow> (fst (add_order i ord (orderbook e)),
               e\<lparr>orderbook := snd (add_order i ord (orderbook e))\<rparr>)
     | Err x \<Rightarrow> (Err x, e) | Panic \<Rightarrow> (Panic, e) | Hang \<Rightarrow> (Hang, e))"
proof (cases "validate_order ord")
  case (Ok u)
  then show ?thesis
    by (cases "add_order i ord (orderbook e)"; cases "fst (add_order i ord (orderbook e))")
      (auto simp: place_limit_order_def try_match_def)
qed (simp_all add: place_limit_order_def)

text \<open>The tokens and the fee of a pool never change.\<close>

lemma apply_mint_frame [simp]:
  "token_a (snd (apply_mint a b s)) = token_a s" "token_b (snd (apply_mint a b s)) = token_b s"
  "fee_rate (snd (apply_mint a b s)) = fee_rate s"
  by (auto simp: apply_mint_def Let_def split: or_panic_split prod.split)

lemma add_liquidity_frame:
  "pool_filed sha k s \<Longrightarrow> pool_filed sha k (snd (add_liquidity h now a b p s))"
proof -
  assume f: "pool_filed sha k s"
  have "token_a (snd (add_liquidity h now a b p s)) = token_a s \<and>
      token_b (snd (add_liquidity h now a b p s)) = token_b s \<and>
      fee_rate (snd (add_liquidity h now a b p s)) = fee_rate s"
    unfolding add_liquidity_def
    by (rule snd_and_then)
      (auto simp: credit_provider_def update_oracle_liquidity split: or_panic_split
        dest!: arg_cong [of _ _ "\<lambda>x. (token_a (snd x), token_b (snd x), fee_rate (snd x))"])
  with f add_liquidity_backed [of s h now a b p] show ?thesis
    by (simp add: pool_filed_def)
qed

lemma remove_liquidity_frame:
  "pool_filed sha k s \<Longrightarrow> pool_filed sha k (snd (remove_liquidity now l p s))"
proof -
  assume f: "pool_filed sha k s"
  have "token_a (snd (remove_liquidity now l p s)) = token_a s \<and>
      token_b (snd (remove_liquidity now l p s)) = token_b s \<and>
      fee_rate (snd (remove_liquidity now l p s)) = fee_rate s"
    by (auto simp: remove_liquidity_def Let_def update_oracle_liquidity split: or_panic_split prod.split)
  with f remove_liquidity_backed [of s now l p] show ?thesis
    by (simp add: pool_filed_def)
qed

lemma with_pool_inv:
  assumes "engine_inv sha e" and "\<And>s. pool_filed sha k s \<Longrightarrow> pool_filed sha k (snd (f s))"
  shows "engine_inv sha (snd (with_pool k f e))"
  using assms by (auto simp: with_pool_def engine_inv_def split: option.split if_splits)

lemma get_or_create_pool_inv:
  "engine_inv sha e \<Longrightarrow> engine_inv sha (snd (get_or_create_pool sha ta tb e))"
  using lp_backed_new [of ta tb]
  by (auto simp: get_or_create_pool_def engine_inv_def Let_def pool_filed_def amm_new_def
      split: option.split if_splits)

lemma engine_inv_step:
  assumes "engine_inv sha e" "engine_ok c e"
  shows "engine_inv sha (engine_step sha c e)"
proof (cases c)
  case (Place i ord)
  then have "book_inv (snd (add_order i ord (orderbook e)))"
    using assms by (auto simp: engine_inv_def intro: book_inv_add)
  with Place assms show ?thesis
    by (auto simp: place_limit_order_cases engine_inv_def split: outcome.split)
next
  case (Place_market ord)
  with assms show ?thesis by (simp add: place_market_order_def execute_market_order_def)
next
  case (Deposit now ta tb a b p)
  have "engine_inv sha (snd (engine_add_liquidity sha now ta tb a b p e))"
    unfolding engine_add_liquidity_def
    using get_or_create_pool_inv [OF assms(1), of ta tb]
    by (intro snd_and_then [where I = "engine_inv sha"])
      (auto intro!: with_pool_inv add_liquidity_frame dest!: arg_cong [of _ _ snd])
  with Deposit show ?thesis by simp
next
  case (Withdraw now k l p)
  with assms show ?thesis
    by (simp add: engine_remove_liquidity_def with_pool_inv remove_liquidity_frame)
next
  case (Swap route now tin tout a m r)
  with assms show ?thesis by simp
qed

interpretation engine: invariant_of "engine_step sha" engine_ok "engine_inv sha" for sha
  by unfold_locales (rule engine_inv_step)

section \<open>Placing an order\<close>

lemma add_limit_order_resting:
  assumes "id_of ord = Some i"
  shows "fst (add_limit_order ord b) = Ok () \<and>
    mset (resting (snd (add_limit_order ord b))) = add_mset (price ord, ord) (mset (resting b)) \<and>
    stats (snd (add_limit_order ord b)) = stats b \<and> last_price (snd (add_limit_order ord b)) = last_price b"
  by (cases "side ord")
    (simp_all add: add_limit_order_def assms Let_def resting_def bid_queue_def ask_queue_def
      mset_flatten_rev mset_flatten_push_back)

lemma and_then_const: "fst p = Ok () \<Longrightarrow> and_then p (\<lambda>_ b. (Ok i, b)) = (Ok i, snd p)"
  by (cases p) auto

lemma add_order_stats [simp]:
  "stats (snd (add_order i ord b)) = stats b" "last_price (snd (add_order i ord b)) = last_price b"
proof -
  have "stats (snd (add_order i ord b)) = stats b \<and> last_price (snd (add_order i ord b)) = last_price b"
    by (auto simp: add_order_def Let_def add_conditional_order_def add_iceberg_order_def add_limit_order_def
        split: order_type.split order_side.split or_panic_split)
  then show "stats (snd (add_order i ord b)) = stats b" "last_price (snd (add_order i ord b)) = last_price b"
    by blast+
qed

text \<open>What a call of the engine cannot touch: the statistics of the book.\<close>

lemma pool_calls_orderbook [simp]:
  "orderbook (snd (with_pool k f e)) = orderbook e"
  "orderbook (snd (get_or_create_pool sha ta tb e)) = orderbook e"
  by (auto simp: with_pool_def get_or_create_pool_def Let_def split: option.split)

lemma engine_add_liquidity_orderbook [simp]:
  "orderbook (snd (engine_add_liquidity sha now ta tb a b p e)) = orderbook e"
  using pool_calls_orderbook(2) [of sha ta tb e]
  by (cases "get_or_create_pool sha ta tb e"; cases "fst (get_or_create_pool sha ta tb e)")
    (auto simp: engine_add_liquidity_def)

lemma engine_step_stats:
  "stats (orderbook (engine_step sha c e)) = stats (orderbook e) \<and>
   last_price (orderbook (engine_step sha c e)) = last_price (orderbook e)"
proof (cases c)
  case (Place i ord)
  then show ?thesis by (auto simp: place_limit_order_cases split: outcome.split)
qed (simp_all add: place_market_order_def execute_market_order_def engine_remove_liquidity_def)

lemma engine_run_stats:
  "stats (orderbook (run (engine_step sha) cs e)) = stats (orderbook e) \<and>
   last_price (orderbook (run (engine_step sha) cs e)) = last_price (orderbook e)"
  by (induction cs arbitrary: e) (simp_all add: engine_step_stats)

section \<open>A pool call that never returns\<close>

lemma pools_taken_step: "pools_taken e \<Longrightarrow> pools_taken (engine_step sha c e)"
proof (cases c)
  case (Place i ord)
  assume "pools_taken e"
  with Place show ?thesis by (auto simp: place_limit_order_cases split: outcome.split)
qed (auto simp: place_market_order_def execute_market_order_def engine_remove_liquidity_def
    engine_add_liquidity_def get_or_create_pool_def with_pool_def Let_def)

lemma pools_taken_run: "pools_taken e \<Longrightarrow> pools_taken (run (engine_step sha) cs e)"
  by (induction cs arbitrary: e) (auto simp: pools_taken_step)

lemma first_deposit:
  assumes "now \<noteq> 0" "unat a * unat b + 1 < 2 ^ 256"
  shows "fst (engine_add_liquidity sha now ta tb a b p engine_new) = Hang"
    and "pools_taken (snd (engine_add_liquidity sha now ta tb a b p engine_new))"
proof -
  obtain m where m: "umul a b = Some m"
    using assms(2) by (cases "umul a b") (auto simp: umul_None)
  then have "unat m + 1 < 2 ^ 256" using assms(2) by (simp add: checked_ops)
  from amm_sqrt_correct [OF this] obtain r where "initial_liquidity a b = Some r"
    using m by (auto simp: initial_liquidity_def)
  then have "fst (add_liquidity sha now a b p (amm_new ta tb)) = Hang"
    using assms(1)
    using unat_less_256 [of r]
    by (simp add: add_liquidity_def apply_mint_def credit_provider_def credit_def balance_def uadd_def
        update_oracle_liquidity amm_new_def)
  then show "fst (engine_add_liquidity sha now ta tb a b p engine_new) = Hang"
    "pools_taken (snd (engine_add_liquidity sha now ta tb a b p engine_new))"
    by (simp_all add: engine_add_liquidity_def get_or_create_pool_def with_pool_def engine_new_def Let_def)
qed

section \<open>Properties\<close>

text \<open>C39: after every sequence of calls of the engine (placed orders with fresh identifiers, deposits,
  withdrawals, swaps along any routes) the order book is well formed, and every pool is filed under the
  identifier of its token pair, takes a fee of 30 basis points and has exactly the LP supply its
  providers hold.\<close>

theorem engine_invariant_in_every_run:
  assumes "run_ok engine_ok (engine_step sha) cs engine_new"
  shows "engine_inv sha (run (engine_step sha) cs engine_new)"
  by (rule engine.inv_run [OF engine_inv_new assms])

theorem engine_invariant_in_every_run_witness:
  "engine_inv (\<lambda>x y. x + 2 * y)
     (run (engine_step (\<lambda>x y. x + 2 * y)) [Place 11 (sample_order Sell 5 100), Deposit 0 1 2 4 9 7,
        Withdraw 0 5 2 7] engine_new)"
  by (rule engine_invariant_in_every_run) (simp add: engine_new_def book_new_def)

text \<open>\<^verbatim>\<open>place_limit_order\<close> on every branch: a zero amount, a limit order at price zero and a market order
  are refused; a stop or take-profit order is acknowledged and dropped; an iceberg order rests with
  its visible amount only (and panics when that exceeds its amount); a limit order rests in the book. No
  resting order is ever matched.\<close>

theorem place_limit_order_rests:
  "let (r, e') = place_limit_order i ord e;
       joins = (\<lambda>ord'. mset (resting (orderbook e')) = add_mset (price ord, ord') (mset (resting (orderbook e))))
   in if amount ord = 0 then r = Err InvalidAmount \<and> e' = e
      else case type_of ord of
        Market \<Rightarrow> r = Err InvalidPrice \<and> e' = e
      | Limit \<Rightarrow> if price ord = 0 then r = Err InvalidPrice \<and> e' = e
                else r = Ok i \<and> joins (ord\<lparr>id_of := Some i\<rparr>)
      | StopLoss \<Rightarrow> r = Ok i \<and> e' = e
      | TakeProfit \<Rightarrow> r = Ok i \<and> e' = e
      | IcebergOrder v \<Rightarrow> if amount ord < v then r = Panic \<and> e' = e
                         else r = Ok i \<and> joins (ord\<lparr>id_of := Some i, amount := v\<rparr>)"
proof -
  have swap_upd: "ord\<lparr>id_of := Some i, amount := v\<rparr> = ord\<lparr>amount := v, id_of := Some i\<rparr>" for v
    by simp
  show ?thesis
    using add_limit_order_resting [of "ord\<lparr>id_of := Some i\<rparr>" i "orderbook e"]
      add_limit_order_resting [of "ord\<lparr>id_of := Some i, amount := v\<rparr>" i "orderbook e" for v]
    by (auto simp: place_limit_order_cases validate_order_def add_order_def Let_def add_conditional_order_def
        add_iceberg_order_def and_then_const usub_def split: order_type.split)
qed

text \<open>No sequence of calls of the engine ever trades: the last price, the volume, the high, the low and
  the trade counter of the book stay what they were, since the engine's matching is a stub.\<close>

theorem engine_never_trades:
  "stats (orderbook (run (engine_step sha) cs engine_new)) = stats book_new \<and>
   last_price (orderbook (run (engine_step sha) cs engine_new)) = last_price book_new"
  using engine_run_stats [of sha cs engine_new] by (simp add: engine_new_def)

text \<open>A routed swap that succeeds promises at least the minimum the caller asked for, but moves nothing:
  the engine's state is the one before; and a route that ends in a pool never promises a million units or
  more, however large the pool, since its estimate uses fixed reserves.\<close>

theorem engine_swap_promises:
  assumes "engine_swap route now tin tout a m rcpt e = (Ok r, e')"
  shows "e' = e \<and> m \<le> swap_out r \<and> swap_amount_in r = a \<and>
    route tin tout a = Ok (swap_path r) \<and> calculate_output (swap_path r) a e = (Ok (swap_out r), e) \<and>
    (\<forall>hops k. swap_path r = hops @ [Hop_AmmPool k] \<longrightarrow> unat (swap_out r) < 1000000)"
proof -
  have bound: "unat out < 1000000" if "calculate_output (hops @ [Hop_AmmPool k]) x e = (Ok out, e)" for hops k x out
    using that
  proof (induction hops arbitrary: x)
    case Nil
    then obtain fee where "swap_amount_out fee 1000000 1000000 x = Some out"
      by (force simp: get_amount_out_def split: if_splits option.splits)
    then obtain f where "unat out = f * unat (1000000 :: u256) div (unat (1000000 :: u256) + f)"
      by (rule swap_amount_out_Some)
    moreover have "f * 1000000 div (1000000 + f) < 1000000"
      by (simp add: div_less_iff_less_mult)
    ultimately show ?case by simp
  next
    case (Cons h hops)
    then show ?case by (cases h) (auto split: if_splits option.splits)
  qed
  have calculate_output_Ok: "s = e" if "calculate_output path x e = (Ok out, s)" for path x out s
    using calculate_output_state [of path x e] that by simp
  from assms obtain path out where path: "route tin tout a = Ok path"
    and out: "calculate_output path a e = (Ok out, e)" and m: "\<not> out < m"
    and r: "execute_swap now path a out rcpt e = (Ok r, e')"
    using calculate_output_Ok by (fastforce simp: engine_swap_def split: if_splits)
  from r have "swap_path r = path" "swap_out r = out" "swap_amount_in r = a" "e' = e"
    by (auto simp: execute_swap_def)
  with path out m bound show ?thesis by auto
qed

definition sample_engine :: dex_engine where
  "sample_engine = engine_new\<lparr>orderbook := sample_book, amm_pools := [5 \<mapsto> amm_new 1 2]\<rparr>"

theorem engine_swap_promises_witness:
  "\<exists>r e'. engine_swap (\<lambda>_ _ _. Ok [Hop_OrderBook 9, Hop_AmmPool 5]) 50 1 2 6 500 7 sample_engine = (Ok r, e') \<and>
     e' = sample_engine \<and> 500 \<le> swap_out r \<and> swap_amount_in r = 6 \<and> unat (swap_out r) < 1000000"
proof -
  let ?route = "\<lambda>_ _ _. Ok [Hop_OrderBook 9, Hop_AmmPool 5]"
  let ?r = "\<lparr> swap_path = [Hop_OrderBook 9, Hop_AmmPool 5], swap_amount_in = 6, swap_out = 557,
     swap_recipient = 7, swap_timestamp = 50 \<rparr>"
  have "engine_swap ?route 50 1 2 6 500 7 sample_engine = (Ok ?r, sample_engine)"
    by (simp add: engine_swap_def sample_engine_def sample_simps calculate_market_buy_def engine_new_def
        execute_swap_def get_amount_out_def swap_amount_out_def amm_new_def usub_def umul_def udiv_def uadd_def
        min_def)
  from engine_swap_promises [OF this] this show ?thesis
    by (intro exI [of _ ?r] exI [of _ sample_engine]) simp
qed

text \<open>The first deposit into a new engine is suspended for ever with the guard of the pool map taken
  (the clock of a running node is not 0), and whatever is called afterwards, every later deposit and withdrawal
  is suspended too.\<close>

theorem one_deposit_stops_all_pools:
  assumes "now \<noteq> 0" "unat a * unat b + 1 < 2 ^ 256"
  shows "fst (engine_add_liquidity sha now ta tb a b p engine_new) = Hang \<and>
    fst (engine_add_liquidity sha now' ta' tb' a' b' p'
      (run (engine_step sha) cs (snd (engine_add_liquidity sha now ta tb a b p engine_new)))) = Hang \<and>
    fst (engine_remove_liquidity now' k l p'
      (run (engine_step sha) cs (snd (engine_add_liquidity sha now ta tb a b p engine_new)))) = Hang"
  using first_deposit [OF assms] pools_taken_run [OF first_deposit(2) [OF assms]]
  by (simp add: engine_add_liquidity_def [of sha now'] get_or_create_pool_def engine_remove_liquidity_def
      with_pool_def Let_def)

text \<open>The engine takes the two amounts of a deposit by position and not by token: once the pool of a
  pair exists, a deposit that names the tokens in the other order does exactly what the deposit with the
  amounts interchanged would do.\<close>

theorem deposit_ignores_token_order:
  assumes "amm_pools e (compute_pool_id sha ta tb) \<noteq> None"
  shows "engine_add_liquidity sha now tb ta a b p e = engine_add_liquidity sha now ta tb a b p e"
proof -
  have "compute_pool_id sha tb ta = compute_pool_id sha ta tb"
    by (cases "ta = tb") (auto simp: compute_pool_id_def)
  with assms show ?thesis
    by (auto simp: engine_add_liquidity_def get_or_create_pool_def Let_def)
qed

theorem one_deposit_stops_all_pools_witness:
  "fst (engine_add_liquidity (\<lambda>x y. x + 2 * y) 1700000000 1 2 4 9 7 engine_new) = Hang \<and>
   fst (engine_add_liquidity (\<lambda>x y. x + 2 * y) 1700000001 3 4 10 10 8
     (run (engine_step (\<lambda>x y. x + 2 * y)) []
       (snd (engine_add_liquidity (\<lambda>x y. x + 2 * y) 1700000000 1 2 4 9 7 engine_new)))) = Hang"
  using one_deposit_stops_all_pools [of 1700000000 4 9 "\<lambda>x y. x + 2 * y" 1 2 7 1700000001 3 4 10 10 8 "[]"]
  by simp

theorem deposit_ignores_token_order_witness:
  "engine_add_liquidity (\<lambda>x y. x + 2 * y) 0 2 1 4 9 7 sample_engine
     = engine_add_liquidity (\<lambda>x y. x + 2 * y) 0 1 2 4 9 7 sample_engine \<and>
   is_ok (fst (engine_add_liquidity (\<lambda>x y. x + 2 * y) 0 1 2 4 9 7 sample_engine))"
proof -
  have "is_ok (fst (engine_add_liquidity (\<lambda>x y. x + 2 * y) 0 1 2 4 9 7 sample_engine))"
    by (simp add: engine_add_liquidity_def get_or_create_pool_def with_pool_def sample_engine_def engine_new_def
        compute_pool_id_def add_liquidity_def apply_mint_def credit_provider_def credit_def balance_def uadd_def
        update_oracle_liquidity amm_new_def initial_liquidity_def umul_def amm_sqrt_def udiv_def as_u128_def
        sqrt_loop.simps)
  moreover have "amm_pools sample_engine (compute_pool_id (\<lambda>x y. x + 2 * y) 1 2) \<noteq> None"
    by (simp add: sample_engine_def compute_pool_id_def)
  ultimately show ?thesis
    using deposit_ignores_token_order by blast
qed

end
