(* ===== verification/TxBytes.thy ===== *)
theory TxBytes
  imports Prelude
begin

text \<open>
  Byte strings the components hash or use as keys: \<^verbatim>\<open>to_be_bytes\<close>, \<^verbatim>\<open>hex::encode\<close>, and the bytes of a
  transaction that both \<^verbatim>\<open>consensus/tendermint.rs\<close> and \<^verbatim>\<open>state_machine/transaction.rs\<close> feed to SHA-256.
\<close>

text \<open>\<^verbatim>\<open>to_be_bytes\<close> of a value of \<open>k\<close> bytes.\<close>

definition be_bytes :: "nat \<Rightarrow> 'a::len word \<Rightarrow> u8 list" where
  "be_bytes k w = map (\<lambda>i. ucast (drop_bit (8 * (k - 1 - i)) w)) [0..<k]"

lemma length_be_bytes [simp]: "length (be_bytes k w) = k"
  by (simp add: be_bytes_def)

lemma be_bytes_zero: "be_bytes k (0 :: 'a::len word) = replicate k 0"
  by (simp add: be_bytes_def map_replicate_const)

lemma be_bytes_inj:
  fixes v w :: "'a::len word"
  assumes "LENGTH('a) = 8 * k" "be_bytes k v = be_bytes k w"
  shows "v = w"
proof (rule bit_word_eqI)
  fix n
  assume n: "n < LENGTH('a)"
  define i where "i = k - 1 - n div 8"
  have i: "i < k" "k - 1 - i = n div 8"
    using n assms(1) by (auto simp: i_def)
  have "be_bytes k v ! i = be_bytes k w ! i"
    using assms(2) by simp
  then have "(ucast (drop_bit (8 * (n div 8)) v) :: u8) = ucast (drop_bit (8 * (n div 8)) w)"
    using i by (simp add: be_bytes_def)
  then have "bit (ucast (drop_bit (8 * (n div 8)) v) :: u8) (n mod 8) =
      bit (ucast (drop_bit (8 * (n div 8)) w) :: u8) (n mod 8)"
    by simp
  moreover have "8 * (n div 8) + n mod 8 = n" by simp
  ultimately show "bit v n = bit w n"
    by (simp add: bit_ucast_iff bit_drop_bit_eq)
qed

text \<open>\<^verbatim>\<open>to_le_bytes\<close> and \<^verbatim>\<open>to_little_endian\<close>.\<close>

definition le_bytes :: "nat \<Rightarrow> 'a::len word \<Rightarrow> u8 list" where
  "le_bytes k w = rev (be_bytes k w)"

lemma length_le_bytes [simp]: "length (le_bytes k w) = k"
  by (simp add: le_bytes_def)

lemma le_bytes_inj: "LENGTH('a::len) = 8 * k \<Longrightarrow> le_bytes k (v :: 'a word) = le_bytes k w \<longleftrightarrow> v = w"
  by (auto simp: le_bytes_def dest: be_bytes_inj)

definition hex_digit :: "u8 \<Rightarrow> char" where
  "hex_digit d = (if d < 10 then char_of (48 + unat d) else char_of (87 + unat d))"

definition hex :: "u8 list \<Rightarrow> string" where
  "hex bs = concat (map (\<lambda>b. [hex_digit (drop_bit 4 b), hex_digit (take_bit 4 b)]) bs)"

lemma length_hex [simp]: "length (hex bs) = 2 * length bs"
  by (induction bs) (simp_all add: hex_def)

lemma hex_digit_inj:
  assumes "unat c < 16" "unat d < 16" "hex_digit c = hex_digit d"
  shows "c = d"
proof -
  have "of_char (hex_digit x) = (if unat x < 10 then 48 + unat x else 87 + unat x)" if "unat x < 16" for x
    using that by (auto simp: hex_digit_def word_less_nat_alt of_char_of)
  then have "(if unat c < 10 then 48 + unat c else 87 + unat c) = (if unat d < 10 then 48 + unat d else 87 + unat d)"
    using assms by metis
  then have "unat c = unat d"
    using assms(1,2) by (auto split: if_splits)
  then show ?thesis by (simp add: word_unat_eq_iff)
qed

lemma hex_inj:
  assumes "hex as = hex bs"
  shows "as = bs"
proof -
  have "length as = length bs"
    using assms by (metis length_hex mult_left_cancel zero_neq_numeral)
  then show ?thesis
    using assms
  proof (induction as bs rule: list_induct2)
    case (Cons a as b bs)
    then have d: "hex_digit (drop_bit 4 a) = hex_digit (drop_bit 4 b)"
        "hex_digit (take_bit 4 a) = hex_digit (take_bit 4 b)" and "hex as = hex bs"
      by (simp_all add: hex_def)
    have "unat (drop_bit 4 x) < 16" "unat (take_bit 4 x) < 16" for x :: u8
    proof -
      have "unat x < 256" using unsigned_less [of x] by simp
      then show "unat (drop_bit 4 x) < 16"
        by (simp add: unsigned_drop_bit_eq drop_bit_nat_def take_bit_nat_eq_self)
      show "unat (take_bit 4 x) < 16"
        by (simp add: unsigned_take_bit_eq take_bit_nat_def)
    qed
    with d have "drop_bit 4 a = drop_bit 4 b" "take_bit 4 a = take_bit 4 b"
      by (blast intro: hex_digit_inj)+
    then have "a = b"
      by (metis bits_ident)
    with Cons.IH \<open>hex as = hex bs\<close> show ?case by simp
  qed simp
qed

lemma hex_be_bytes_inj:
  "LENGTH('a::len) = 8 * k \<Longrightarrow> hex (be_bytes k (v :: 'a word)) = hex (be_bytes k w) \<longleftrightarrow> v = w"
  by (metis be_bytes_inj hex_inj)

text \<open>Decimal digits, as \<^verbatim>\<open>format!\<close> prints a number, and the bytes of a string.\<close>

fun show_nat :: "nat \<Rightarrow> string" where
  "show_nat n = (if n < 10 then [char_of (48 + n)] else show_nat (n div 10) @ [char_of (48 + n mod 10)])"

declare show_nat.simps [simp del]

definition string_bytes :: "string \<Rightarrow> u8 list" where
  "string_bytes cs = map of_char cs"

text \<open>The fields of a transaction that are hashed, in the code's order.\<close>

definition tx_bytes ::
  "u64 \<Rightarrow> address \<Rightarrow> address option \<Rightarrow> u128 \<Rightarrow> u8 list \<Rightarrow> u64 \<Rightarrow> u128 \<Rightarrow> u8 list" where
  "tx_bytes nonce sender to value data gas_limit gas_price =
     be_bytes 8 nonce @ be_bytes 20 sender
     @ (case to of None \<Rightarrow> [] | Some a \<Rightarrow> be_bytes 20 a)
     @ be_bytes 16 value @ data @ be_bytes 8 gas_limit @ be_bytes 16 gas_price"

text \<open>The optional recipient is not delimited.\<close>

lemma tx_bytes_ambiguous:
  "tx_bytes n f (Some 0) 0 d gl gp = tx_bytes n f None 0 (replicate 20 0 @ d) gl gp"
proof -
  have "replicate 20 (0 :: u8) @ replicate 16 0 = replicate 16 0 @ replicate 20 0"
    by (simp only: replicate_add [symmetric] add.commute)
  then have "replicate 20 (0 :: u8) @ replicate 16 0 @ xs = replicate 16 0 @ replicate 20 0 @ xs" for xs
    by (metis append_assoc)
  then show ?thesis
    by (simp only: tx_bytes_def be_bytes_zero option.case append_assoc append_Nil)
qed

end
