(* ===== verification/PathFinder.thy ===== *)
theory PathFinder
  imports TxBytes "HOL-Library.Sublist"
begin

text \<open>
  The path search of \<^verbatim>\<open>src/dex/smart_routing/pathfinder.rs\<close>: tokens are the nodes of a graph whose edges are the pools, and
  the routes between two tokens are collected by a search in the order of costs, one in breadth and one in depth, of which
  doubles are dropped by the hash of the path. Keccak is an argument. \<^verbatim>\<open>BinaryHeap\<close> leaves open which of several nodes of equal
  cost comes first: \<open>tie\<close> makes that choice. Costs are \<^verbatim>\<open>u128\<close> values and wrap.
\<close>

section \<open>Pools and edges\<close>

datatype protocol = Venue_Order_Book | Amm_V2 | Amm_V3 | Stable_Swap | Concentrated_Liquidity | Rfq_System

record pool_info =
  pi_address :: h256
  pi_protocol :: protocol
  pi_token_a :: h256
  pi_token_b :: h256
  pi_fee_tier :: u32
  pi_liquidity :: u256
  pi_volume :: u256
  pi_tvl :: u256

datatype routing_error =
    NoRouteFound | NoPoolsAvailable | PoolNotFound | Insufficient_Liquidity | ExcessivePriceImpact | PathTooLong | GasOptimizationFailed

record edge =
  edge_to :: h256
  edge_pool :: h256
  edge_weight :: u128
  edge_liquidity :: u256

type_synonym graph = "(h256 \<times> edge list) list"

definition saturating_add :: "'a::len word \<Rightarrow> 'a word \<Rightarrow> 'a word" where
  "saturating_add a b = (if unat a + unat b < 2 ^ LENGTH('a) then a + b else - 1)"

definition saturating_mul :: "'a::len word \<Rightarrow> 'a word \<Rightarrow> 'a word" where
  "saturating_mul a b = (if unat a * unat b < 2 ^ LENGTH('a) then a * b else - 1)"

fun fee_multiplier :: "protocol \<Rightarrow> u128" where
  "fee_multiplier Venue_Order_Book = 100"
| "fee_multiplier Amm_V2 = 150"
| "fee_multiplier Amm_V3 = 120"
| "fee_multiplier Stable_Swap = 80"
| "fee_multiplier Concentrated_Liquidity = 110"
| "fee_multiplier Rfq_System = 90"

text \<open>The score is at most the largest \<^verbatim>\<open>u128\<close>, so that reading it as one does not panic.\<close>

definition calculate_edge_weight :: "pool_info \<Rightarrow> u128" where
  "calculate_edge_weight p =
     (let score = (if 0 < pi_liquidity p then 10 ^ 18 div pi_liquidity p else 2 ^ 128 - 1);
          base = saturating_add (ucast score) (ucast (pi_fee_tier p))
      in saturating_mul base (fee_multiplier (pi_protocol p)) div 100)"

definition edges_of :: "graph \<Rightarrow> h256 \<Rightarrow> edge list" where
  "edges_of g t = (case map_of g t of None \<Rightarrow> [] | Some es \<Rightarrow> es)"

definition add_edge :: "h256 \<Rightarrow> edge \<Rightarrow> graph \<Rightarrow> graph" where
  "add_edge t e g = AList.update t (edges_of g t @ [e]) g"

definition edge_of :: "h256 \<Rightarrow> pool_info \<Rightarrow> edge" where
  "edge_of t p = \<lparr> edge_to = t, edge_pool = pi_address p, edge_weight = calculate_edge_weight p, edge_liquidity = pi_liquidity p \<rparr>"

definition add_pool :: "pool_info \<Rightarrow> graph \<Rightarrow> graph" where
  "add_pool p g = add_edge (pi_token_b p) (edge_of (pi_token_a p) p) (add_edge (pi_token_a p) (edge_of (pi_token_b p) p) g)"

definition build_graph :: "pool_info list \<Rightarrow> graph" where
  "build_graph pools = map (\<lambda>(t, es). (t, sort_key edge_weight es)) (fold add_pool pools [])"

text \<open>The size of a graph and what a node with a path of a given length may still lead to.\<close>

definition branching :: "graph \<Rightarrow> nat" where
  "branching g = Suc (sum_list (map (length \<circ> snd) g))"

definition mass :: "graph \<Rightarrow> nat \<Rightarrow> 'a list list \<Rightarrow> nat" where
  "mass g hops ps = (\<Sum>p \<leftarrow> ps. branching g ^ (hops + 1 - length p))"

lemma branching_pos [simp]: "0 < branching g"
  by (simp add: branching_def)

lemma mass_simps [simp]:
  "mass g hops [] = 0"
  "mass g hops (p # ps) = branching g ^ (hops + 1 - length p) + mass g hops ps"
  "mass g hops (ps @ qs) = mass g hops ps + mass g hops qs"
  by (simp_all add: mass_def)

lemma length_edges_of: "length (edges_of g t) < branching g"
proof (cases "map_of g t")
  case (Some es)
  then have "length es \<in> set (map (length \<circ> snd) g)" using map_of_SomeD [OF Some] by force
  then have "length es \<le> sum_list (map (length \<circ> snd) g)" by (intro member_le_sum_list) auto
  with Some show ?thesis by (simp add: edges_of_def branching_def)
qed (simp add: edges_of_def branching_def)

lemma mass_children:
  assumes "length p \<le> hops" "length ps \<le> length (edges_of g t)" "\<And>q. q \<in> set ps \<Longrightarrow> length q = Suc (length p)"
  shows "mass g hops ps < branching g ^ (hops + 1 - length p)"
proof -
  have "mass g hops ps = length ps * branching g ^ (hops - length p)"
    using assms(3) by (induction ps) (simp_all add: assms(1))
  also have "\<dots> < branching g * branching g ^ (hops - length p)"
    using assms(2) length_edges_of [of g t] by (intro mult_strict_right_mono) (simp_all add: branching_def)
  finally show ?thesis using assms(1) by (simp add: Suc_diff_le)
qed

lemma mass_remove1: "p \<in> set ps \<Longrightarrow> mass g hops ps = branching g ^ (hops + 1 - length p) + mass g hops (remove1 p ps)"
  by (induction ps) auto

section \<open>The search in the order of costs\<close>

record search_node =
  nd_token :: h256
  nd_cost :: u128
  nd_path :: "h256 list"

definition cheapest :: "search_node list \<Rightarrow> search_node list" where
  "cheapest h = filter (\<lambda>n. nd_cost n = Min (nd_cost ` set h)) h"

definition heap_pop :: "(search_node list \<Rightarrow> nat) \<Rightarrow> search_node list \<Rightarrow> search_node \<times> search_node list" where
  "heap_pop tie h = (let n = cheapest h ! (tie h mod length (cheapest h)) in (n, remove1 n h))"

lemma cheapest_nonempty: "h \<noteq> [] \<Longrightarrow> cheapest h \<noteq> []"
proof -
  assume "h \<noteq> []"
  then have "Min (nd_cost ` set h) \<in> nd_cost ` set h" by (intro Min_in) auto
  then obtain n where "n \<in> set h" "nd_cost n = Min (nd_cost ` set h)" by (metis imageE)
  then show ?thesis by (auto simp: cheapest_def filter_empty_conv)
qed

lemma heap_pop_in: "h \<noteq> [] \<Longrightarrow> heap_pop tie h = (n, r) \<Longrightarrow> n \<in> set h \<and> r = remove1 n h"
proof -
  assume h: "h \<noteq> []" "heap_pop tie h = (n, r)"
  then have "n \<in> set (cheapest h)" using cheapest_nonempty [OF h(1)] by (auto simp: heap_pop_def Let_def)
  with h show ?thesis by (auto simp: heap_pop_def Let_def cheapest_def)
qed

type_synonym search_state = "(h256 \<rightharpoonup> u128) \<times> search_node list"

definition relax :: "h256 \<Rightarrow> u128 \<Rightarrow> h256 list \<Rightarrow> edge \<Rightarrow> search_state \<Rightarrow> search_state" where
  "relax end_token cost path e st =
     (case st of (dist, heap) \<Rightarrow>
        let t = edge_to e; next_cost = cost + edge_weight e
        in if t \<in> set path then st
           else if (case dist t of None \<Rightarrow> False | Some d \<Rightarrow> d \<le> next_cost \<and> t \<noteq> end_token) then st
           else (dist(t \<mapsto> next_cost), heap @ [\<lparr> nd_token = t, nd_cost = next_cost, nd_path = path @ [t] \<rparr>]))"

text \<open>The nodes an edge list adds to the heap.\<close>

lemma fold_relax:
  "\<exists>new. snd (fold (relax e c path) es (d, heap)) = heap @ new \<and> length new \<le> length es \<and>
     (\<forall>n \<in> set new. \<exists>x \<in> set es. nd_token n = edge_to x \<and> nd_path n = path @ [edge_to x] \<and> edge_to x \<notin> set path)"
proof (induction es arbitrary: d heap)
  case (Cons x es)
  obtain d1 h1 where step: "relax e c path x (d, heap) = (d1, h1)" by (cases "relax e c path x (d, heap)")
  then have h1: "h1 = heap \<or> (\<exists>n. h1 = heap @ [n] \<and> nd_token n = edge_to x \<and> nd_path n = path @ [edge_to x] \<and> edge_to x \<notin> set path)"
    by (auto simp: relax_def Let_def split: if_splits)
  from Cons.IH [of d1 h1] obtain new where new: "snd (fold (relax e c path) es (d1, h1)) = h1 @ new" "length new \<le> length es"
    "\<forall>n \<in> set new. \<exists>x \<in> set es. nd_token n = edge_to x \<and> nd_path n = path @ [edge_to x] \<and> edge_to x \<notin> set path" by blast
  from h1 show ?case
  proof
    assume "h1 = heap"
    with new step show ?thesis by (intro exI [of _ new]) auto
  next
    assume "\<exists>n. h1 = heap @ [n] \<and> nd_token n = edge_to x \<and> nd_path n = path @ [edge_to x] \<and> edge_to x \<notin> set path"
    then obtain n where "h1 = heap @ [n]" "nd_token n = edge_to x" "nd_path n = path @ [edge_to x]" "edge_to x \<notin> set path" by blast
    with new step show ?thesis by (intro exI [of _ "n # new"]) auto
  qed
qed simp

definition heap_mass :: "graph \<Rightarrow> nat \<Rightarrow> search_node list \<Rightarrow> nat" where
  "heap_mass g hops h = mass g hops (map nd_path h)"

lemma heap_mass_pop: "n \<in> set h \<Longrightarrow> heap_mass g hops h = branching g ^ (hops + 1 - length (nd_path n)) + heap_mass g hops (remove1 n h)"
  by (induction h) (auto simp: heap_mass_def)

lemma heap_mass_relax:
  assumes "n \<in> set h" "length (nd_path n) \<le> hops" "fold (relax e c (nd_path n)) (edges_of g t) (d, remove1 n h) = (d', h')"
  shows "heap_mass g hops h' < heap_mass g hops h"
proof -
  obtain new where h': "h' = remove1 n h @ new" and len: "length new \<le> length (edges_of g t)"
    and new: "\<forall>m \<in> set new. \<exists>x \<in> set (edges_of g t). nd_token m = edge_to x \<and> nd_path m = nd_path n @ [edge_to x] \<and> edge_to x \<notin> set (nd_path n)"
    using fold_relax [of e c "nd_path n" "edges_of g t" d "remove1 n h"] assms(3) by auto
  have "mass g hops (map nd_path new) < branching g ^ (hops + 1 - length (nd_path n))"
    by (rule mass_children [where t = t]) (use assms(2) len new in auto)
  then show ?thesis using heap_mass_pop [OF assms(1), of g hops] by (simp add: h' heap_mass_def)
qed

lemma heap_mass_rest: "h \<noteq> [] \<Longrightarrow> (n, r) = heap_pop tie h \<Longrightarrow> heap_mass g hops r < heap_mass g hops h"
  using heap_pop_in [of h tie n r] heap_mass_pop [of n h g hops] by simp

lemma heap_mass_relax_pop:
  "h \<noteq> [] \<Longrightarrow> (n, r) = heap_pop tie h \<Longrightarrow> \<not> hops < length (nd_path n) \<Longrightarrow>
     (d', h') = fold (relax e (nd_cost n) (nd_path n)) (edges_of g (nd_token n)) (d, r) \<Longrightarrow>
     heap_mass g hops h' < heap_mass g hops h"
  using heap_pop_in [of h tie n r] heap_mass_relax [of n h hops e "nd_cost n" g "nd_token n" d d' h'] by simp

text \<open>The loop of \<^verbatim>\<open>dijkstra\<close>: at most three paths are collected.\<close>

function dijkstra_loop ::
  "(search_node list \<Rightarrow> nat) \<Rightarrow> graph \<Rightarrow> h256 \<Rightarrow> nat \<Rightarrow> (h256 \<rightharpoonup> u128) \<Rightarrow> search_node list \<Rightarrow> h256 list list \<Rightarrow> h256 list list" where
  "dijkstra_loop tie g end_token hops dist heap paths =
     (if heap = [] then paths
      else case heap_pop tie heap of (n, rest) \<Rightarrow>
        if nd_token n = end_token \<and> length (nd_path n) \<le> hops + 1 then
          if 3 \<le> length paths + 1 then paths @ [nd_path n]
          else dijkstra_loop tie g end_token hops dist rest (paths @ [nd_path n])
        else if hops < length (nd_path n) then dijkstra_loop tie g end_token hops dist rest paths
        else if (case dist (nd_token n) of None \<Rightarrow> False | Some d \<Rightarrow> d < nd_cost n) then
          dijkstra_loop tie g end_token hops dist rest paths
        else
          (case fold (relax end_token (nd_cost n) (nd_path n)) (edges_of g (nd_token n)) (dist, rest) of (dist', heap') \<Rightarrow>
             dijkstra_loop tie g end_token hops dist' heap' paths))"
  by pat_completeness auto

termination
  by (relation "measure (\<lambda>(tie, g, e, hops, d, heap, ps). heap_mass g hops heap)")
    (auto intro: heap_mass_rest heap_mass_relax_pop)

declare dijkstra_loop.simps [simp del]

definition dijkstra ::
  "(search_node list \<Rightarrow> nat) \<Rightarrow> graph \<Rightarrow> h256 \<Rightarrow> h256 \<Rightarrow> nat \<Rightarrow> (routing_error, h256 list list) outcome" where
  "dijkstra tie g start end_token hops =
     (let ps = dijkstra_loop tie g end_token hops [start \<mapsto> 0] [\<lparr> nd_token = start, nd_cost = 0, nd_path = [start] \<rparr>] []
      in if ps = [] then Err NoRouteFound else Ok ps)"

section \<open>The search in breadth\<close>

fun children :: "h256 list \<Rightarrow> edge list \<Rightarrow> (h256 \<times> h256 list) list" where
  "children path [] = []"
| "children path (e # es) =
     (if edge_to e \<in> set path then children path es else (edge_to e, path @ [edge_to e]) # children path es)"

lemma children_in: "x \<in> set (children path es) \<longleftrightarrow> (\<exists>e \<in> set es. edge_to e \<notin> set path \<and> x = (edge_to e, path @ [edge_to e]))"
  by (induction es) auto

lemma length_children: "length (children path es) \<le> length es"
  by (induction es) auto

lemma mass_queue_children:
  "length path \<le> hops \<Longrightarrow> mass g hops (map snd (children path (edges_of g t))) < branching g ^ (hops + 1 - length path)"
  using length_children [of path "edges_of g t"] by (intro mass_children [where t = t]) (auto simp: children_in)

function bfs_loop ::
  "graph \<Rightarrow> h256 \<Rightarrow> nat \<Rightarrow> (h256 \<times> h256 list) list \<Rightarrow> h256 list list \<Rightarrow> h256 list list" where
  "bfs_loop g end_token hops [] paths = paths"
| "bfs_loop g end_token hops ((cur, path) # queue) paths =
     (if cur = end_token then
        if 3 \<le> length paths + 1 then paths @ [path] else bfs_loop g end_token hops queue (paths @ [path])
      else if hops < length path then bfs_loop g end_token hops queue paths
      else bfs_loop g end_token hops (queue @ children path (edges_of g cur)) paths)"
  by pat_completeness auto

termination
  by (relation "measure (\<lambda>(g, e, hops, q, ps). mass g hops (map snd q))")
    (use mass_queue_children in \<open>auto simp: not_less Suc_diff_le\<close>)

declare bfs_loop.simps(2) [simp del]

definition bfs_paths :: "graph \<Rightarrow> h256 \<Rightarrow> h256 \<Rightarrow> nat \<Rightarrow> h256 list list" where
  "bfs_paths g start end_token hops = bfs_loop g end_token hops [(start, [start])] []"

section \<open>The search in depth\<close>

text \<open>
  \<open>path\<close> is pushed before a recursive call and popped after it, so it is an argument here; the set of visited tokens and the
  paths found are handed on.
\<close>

type_synonym dfs_state = "h256 set \<times> h256 list list"

definition depth_left :: "nat \<Rightarrow> h256 list \<Rightarrow> nat" where
  "depth_left hops path = (if hops < length path then 0 else 2 * (hops + 1 - length path))"

function dfs_helper :: "graph \<Rightarrow> h256 \<Rightarrow> nat \<Rightarrow> nat \<Rightarrow> h256 \<Rightarrow> h256 list \<Rightarrow> dfs_state \<Rightarrow> dfs_state"
  and dfs_edges :: "graph \<Rightarrow> h256 \<Rightarrow> nat \<Rightarrow> nat \<Rightarrow> edge list \<Rightarrow> h256 list \<Rightarrow> dfs_state \<Rightarrow> dfs_state" where
  "dfs_helper g end_token hops max_paths cur path (visited, paths) =
     (if max_paths \<le> length paths then (visited, paths)
      else if cur = end_token then (visited, paths @ [path])
      else if hops < length path then (visited, paths)
      else case dfs_edges g end_token hops max_paths (edges_of g cur) path (insert cur visited, paths) of
             (visited', paths') \<Rightarrow> (visited' - {cur}, paths'))"
| "dfs_edges g end_token hops max_paths [] path st = st"
| "dfs_edges g end_token hops max_paths (e # es) path st =
     dfs_edges g end_token hops max_paths es path
       (if edge_to e \<in> fst st then st
        else dfs_helper g end_token hops max_paths (edge_to e) (path @ [edge_to e]) st)"
  by pat_completeness auto

termination
  by (relation "measures [\<lambda>x. case x of Inl (g, e, hops, m, cur, path, st) \<Rightarrow> depth_left hops path
      | Inr (g, e, hops, m, es, path, st) \<Rightarrow> (if hops < length path then 1 else depth_left hops path - 1),
      \<lambda>x. case x of Inl y \<Rightarrow> 0 | Inr (g, e, hops, m, es, path, st) \<Rightarrow> length es]")
    (auto simp: depth_left_def)

declare dfs_helper.simps [simp del]

definition dfs_paths :: "graph \<Rightarrow> h256 \<Rightarrow> h256 \<Rightarrow> nat \<Rightarrow> nat \<Rightarrow> h256 list list" where
  "dfs_paths g start end_token hops max_paths = snd (dfs_helper g end_token hops max_paths start [start] ({}, []))"

section \<open>Collecting the routes\<close>

definition hash_path :: "(u8 list \<Rightarrow> h256) \<Rightarrow> h256 list \<Rightarrow> h256" where
  "hash_path keccak path = keccak (concat (map (be_bytes 32) path))"

fun first_of_hash :: "(u8 list \<Rightarrow> h256) \<Rightarrow> h256 set \<Rightarrow> h256 list list \<Rightarrow> h256 list list" where
  "first_of_hash keccak seen [] = []"
| "first_of_hash keccak seen (p # ps) =
     (if hash_path keccak p \<in> seen then first_of_hash keccak seen ps
      else p # first_of_hash keccak (insert (hash_path keccak p) seen) ps)"

definition deduplicate_paths :: "(u8 list \<Rightarrow> h256) \<Rightarrow> h256 list list \<Rightarrow> (routing_error, h256 list list) outcome" where
  "deduplicate_paths keccak paths =
     (let r = first_of_hash keccak {} paths in if r = [] then Err NoRouteFound else Ok (sort_key length r))"

definition find_all_paths ::
  "(u8 list \<Rightarrow> h256) \<Rightarrow> (search_node list \<Rightarrow> nat) \<Rightarrow> h256 \<Rightarrow> h256 \<Rightarrow> pool_info list \<Rightarrow> nat \<Rightarrow>
     (routing_error, h256 list list) outcome" where
  "find_all_paths keccak tie token_in token_out pools hops =
     (let g = build_graph pools
      in case dijkstra tie g token_in token_out hops of
           Ok ps \<Rightarrow> deduplicate_paths keccak
             (ps @ bfs_paths g token_in token_out hops @ dfs_paths g token_in token_out hops 5)
         | r \<Rightarrow> r)"

text \<open>The bound here is that of the path finder itself.\<close>

definition find_shortest_path ::
  "nat \<Rightarrow> (search_node list \<Rightarrow> nat) \<Rightarrow> h256 \<Rightarrow> h256 \<Rightarrow> pool_info list \<Rightarrow> (routing_error, h256 list) outcome" where
  "find_shortest_path max_hops tie token_in token_out pools =
     (case dijkstra tie (build_graph pools) token_in token_out max_hops of
        Ok (p # ps) \<Rightarrow> Ok p
      | Ok [] \<Rightarrow> Err NoRouteFound
      | Err e \<Rightarrow> Err e
      | Panic \<Rightarrow> Panic
      | Hang \<Rightarrow> Hang)"

definition validate_path :: "nat \<Rightarrow> h256 list \<Rightarrow> bool" where
  "validate_path max_hops path \<longleftrightarrow> \<not> (length path < 2 \<or> max_hops + 1 < length path) \<and> distinct path"

end
