(* ===== verification/PathFinderProps.thy ===== *)
theory PathFinderProps
  imports PathFinder
begin

text \<open>
  The searches of the path finder against a plain notion of a route: a list of distinct tokens in which each two neighbours
  are the tokens of a pool. All three find routes only, the breadth-first one finds a shortest route whenever there is one,
  and the search by cost can miss them all.
\<close>

section \<open>Routes\<close>

definition joined :: "pool_info list \<Rightarrow> h256 \<Rightarrow> h256 \<Rightarrow> bool" where
  "joined pools a b \<longleftrightarrow>
     (\<exists>p \<in> set pools. a = pi_token_a p \<and> b = pi_token_b p \<or> a = pi_token_b p \<and> b = pi_token_a p)"

definition is_route :: "pool_info list \<Rightarrow> h256 \<Rightarrow> h256 \<Rightarrow> nat \<Rightarrow> h256 list \<Rightarrow> bool" where
  "is_route pools start end_token hops p \<longleftrightarrow>
     p \<noteq> [] \<and> hd p = start \<and> last p = end_token \<and> distinct p \<and> successively (joined pools) p \<and> length p \<le> hops + 1"

definition graph_linked :: "graph \<Rightarrow> h256 \<Rightarrow> h256 \<Rightarrow> bool" where
  "graph_linked g a b \<longleftrightarrow> b \<in> edge_to ` set (edges_of g a)"

lemma edges_of_add_edge: "edges_of (add_edge t e g) t' = (if t' = t then edges_of g t @ [e] else edges_of g t')"
  by (simp add: edges_of_def add_edge_def update_conv')

lemma linked_fold: "graph_linked (fold add_pool pools g) a b \<longleftrightarrow> graph_linked g a b \<or> joined pools a b"
proof (induction pools arbitrary: g)
  case (Cons p pools)
  have "graph_linked (add_pool p g) a b \<longleftrightarrow> graph_linked g a b \<or> joined [p] a b"
    by (auto simp: graph_linked_def add_pool_def edges_of_add_edge joined_def edge_of_def)
  with Cons show ?case by (auto simp: joined_def)
qed (simp add: joined_def)

lemma linked_build_graph: "graph_linked (build_graph pools) = joined pools"
proof (intro ext)
  fix a b
  have "edges_of (build_graph pools) a = sort_key edge_weight (edges_of (fold add_pool pools []) a)"
    by (simp add: build_graph_def edges_of_def map_of_map split: option.split)
  then have "graph_linked (build_graph pools) a b \<longleftrightarrow> graph_linked (fold add_pool pools []) a b" by (simp add: graph_linked_def)
  then show "graph_linked (build_graph pools) a b = joined pools a b" by (simp add: linked_fold) (simp add: graph_linked_def edges_of_def)
qed

definition graph_walk :: "graph \<Rightarrow> nat \<Rightarrow> h256 \<Rightarrow> h256 \<Rightarrow> h256 list \<Rightarrow> bool" where
  "graph_walk g hops start t p \<longleftrightarrow>
     p \<noteq> [] \<and> hd p = start \<and> last p = t \<and> distinct p \<and> successively (graph_linked g) p \<and> length p \<le> hops + 1"

lemma is_route_walk: "is_route pools start t hops p \<longleftrightarrow> graph_walk (build_graph pools) hops start t p"
  by (simp add: is_route_def graph_walk_def linked_build_graph)

lemma walk_start: "graph_walk g hops t t [t]"
  by (simp add: graph_walk_def)

lemma walk_extend:
  "graph_walk g hops s t p \<Longrightarrow> x \<in> set (edges_of g t) \<Longrightarrow> edge_to x \<notin> set p \<Longrightarrow> length p \<le> hops \<Longrightarrow>
     graph_walk g hops s (edge_to x) (p @ [edge_to x])"
  by (auto simp: graph_walk_def successively_append_iff graph_linked_def)

section \<open>The search in the order of costs\<close>

lemma dijkstra_loop_walks:
  "\<forall>n \<in> set heap. graph_walk g hops s (nd_token n) (nd_path n) \<Longrightarrow> \<forall>p \<in> set paths. graph_walk g hops s e p \<Longrightarrow>
     \<forall>p \<in> set (dijkstra_loop tie g e hops dist heap paths). graph_walk g hops s e p"
proof (induction tie g e hops dist heap paths rule: dijkstra_loop.induct)
  case (1 tie g e hops dist heap paths)
  show ?case
  proof (cases "heap = []")
    case True
    with "1.prems" show ?thesis by (simp add: dijkstra_loop.simps)
  next
    case False
    obtain n rest where pop: "heap_pop tie heap = (n, rest)" by (cases "heap_pop tie heap")
    then have n: "graph_walk g hops s (nd_token n) (nd_path n)" and rest: "\<forall>n \<in> set rest. graph_walk g hops s (nd_token n) (nd_path n)"
      using heap_pop_in [OF False pop] "1.prems"(1) by (auto dest: notin_set_remove1)
    obtain d' h' where relax: "fold (relax e (nd_cost n) (nd_path n)) (edges_of g (nd_token n)) (dist, rest) = (d', h')"
      by (cases "fold (relax e (nd_cost n) (nd_path n)) (edges_of g (nd_token n)) (dist, rest)")
    have h': "\<forall>n \<in> set h'. graph_walk g hops s (nd_token n) (nd_path n)" if "length (nd_path n) \<le> hops"
    proof -
      from relax fold_relax [of e "nd_cost n" "nd_path n" "edges_of g (nd_token n)" dist rest] obtain new where
        "h' = rest @ new" "\<forall>m \<in> set new. \<exists>x \<in> set (edges_of g (nd_token n)). nd_token m = edge_to x \<and>
           nd_path m = nd_path n @ [edge_to x] \<and> edge_to x \<notin> set (nd_path n)" by auto
      with rest walk_extend [OF n _ _ that] show ?thesis by fastforce
    qed
    note IH = "1.IH" [OF False pop [symmetric]]
    show ?thesis
    proof (cases "nd_token n = e \<and> length (nd_path n) \<le> hops + 1")
      case True
      with n "1.prems"(2) have "\<forall>p \<in> set (paths @ [nd_path n]). graph_walk g hops s e p" by auto
      with IH(1) [OF True _ rest] True False pop show ?thesis by (auto simp: dijkstra_loop.simps [of tie g e hops dist heap])
    next
      case no: False
      show ?thesis
        using IH(2) [OF no _ rest "1.prems"(2)] IH(3) [OF no _ _ rest "1.prems"(2)]
          IH(4) [OF no _ _ relax [symmetric] h' "1.prems"(2)] no False pop relax
        by (auto simp: dijkstra_loop.simps [of tie g e hops dist heap])
    qed
  qed
qed

lemma dijkstra_walks: "dijkstra tie g s e hops = Ok ps \<Longrightarrow> ps \<noteq> [] \<and> (\<forall>p \<in> set ps. graph_walk g hops s e p)"
  using dijkstra_loop_walks [of "[\<lparr> nd_token = s, nd_cost = 0, nd_path = [s] \<rparr>]" g hops s "[]" e tie]
  by (auto simp: dijkstra_def Let_def walk_start split: if_splits)

section \<open>The search in breadth\<close>

lemma bfs_loop_keeps: "\<exists>more. bfs_loop g e hops queue paths = paths @ more"
proof (induction g e hops queue paths rule: bfs_loop.induct)
  case (2 g e hops cur path queue paths)
  then show ?case by (auto simp: bfs_loop.simps(2))
qed simp

lemma bfs_loop_walks:
  "\<forall>(t, p) \<in> set queue. graph_walk g hops s t p \<Longrightarrow> \<forall>p \<in> set paths. graph_walk g hops s e p \<Longrightarrow>
     \<forall>p \<in> set (bfs_loop g e hops queue paths). graph_walk g hops s e p"
proof (induction g e hops queue paths rule: bfs_loop.induct)
  case (2 g e hops cur path queue paths)
  have "\<forall>(t, p) \<in> set (queue @ children path (edges_of g cur)). graph_walk g hops s t p" if "length path \<le> hops"
    using "2.prems"(1) that by (auto simp: children_in intro: walk_extend)
  note queue = this and keep = "2.prems"(2)
  consider "cur = e" "2 \<le> length paths" | "cur = e" "\<not> 2 \<le> length paths" | "cur \<noteq> e" "hops < length path"
    | "cur \<noteq> e" "\<not> hops < length path" by blast
  then show ?case
  proof cases
    case 1
    with "2.prems" show ?thesis by (simp add: bfs_loop.simps(2))
  next
    case 2
    with "2.prems" "2.IH"(1) show ?thesis by (simp add: bfs_loop.simps(2))
  next
    case 3
    with "2.prems" "2.IH"(2) show ?thesis by (simp add: bfs_loop.simps(2))
  next
    case 4
    with queue keep "2.IH"(3) show ?thesis by (simp add: bfs_loop.simps(2))
  qed
qed simp

lemma bfs_walks: "p \<in> set (bfs_paths g s e hops) \<Longrightarrow> graph_walk g hops s e p"
  using bfs_loop_walks [of "[(s, [s])]" g hops s "[]" e] by (auto simp: bfs_paths_def walk_start)

text \<open>The queue is in the order of the lengths, and the last differ from the first by one at most.\<close>

definition leveled :: "(h256 \<times> h256 list) list \<Rightarrow> bool" where
  "leveled q \<longleftrightarrow> sorted (map (length \<circ> snd) q) \<and> (\<forall>x \<in> set q. \<forall>y \<in> set q. length (snd y) \<le> length (snd x) + 1)"

lemma leveled_tail: "leveled (x # q) \<Longrightarrow> leveled q"
  by (simp add: leveled_def)

lemma leveled_children:
  assumes "leveled ((t, p) # q)"
  shows "leveled (q @ children p es)"
proof -
  let ?c = "children p es"
  have c: "length (snd x) = length p + 1" if "x \<in> set ?c" for x using that by (auto simp: children_in)
  have q: "length p \<le> length (snd x)" "length (snd x) \<le> length p + 1" if "x \<in> set q" for x
    using assms that by (auto simp: leveled_def)
  have "map (length \<circ> snd) ?c = replicate (length ?c) (length p + 1)" by (rule replicate_eqI) (auto simp: c)
  then have "sorted (map (length \<circ> snd) (q @ ?c))" using assms q(2) by (auto simp: leveled_def sorted_append)
  moreover have "length (snd y) \<le> length (snd x) + 1" if "x \<in> set (q @ ?c)" "y \<in> set (q @ ?c)" for x y
    using that c [of x] c [of y] q [of x] q [of y] by auto
  ultimately show ?thesis by (simp add: leveled_def)
qed

text \<open>A route that starts like a queued path is longer than the path found first.\<close>

lemma bfs_loop_shortest:
  "\<forall>(t, p) \<in> set queue. graph_walk g hops s t p \<Longrightarrow> leveled queue \<Longrightarrow> graph_walk g hops s e r \<Longrightarrow>
     \<exists>(t, p) \<in> set queue. prefix p r \<Longrightarrow>
     \<exists>first more. bfs_loop g e hops queue [] = first # more \<and> length first \<le> length r"
proof (induction g e hops queue "[] :: h256 list list" rule: bfs_loop.induct)
  case (2 g e hops cur path queue)
  have cur: "graph_walk g hops s cur path" using "2.prems"(1) by simp
  from "2.prems"(4) obtain t p where tp: "(t, p) \<in> set ((cur, path) # queue)" "prefix p r" by blast
  have tail: "\<forall>(t, p) \<in> set queue. graph_walk g hops s t p" "leveled queue" using "2.prems"(1,2) leveled_tail by auto
  consider "cur = e" | "cur \<noteq> e" "hops < length path" | "cur \<noteq> e" "length path \<le> hops" by linarith
  then show ?case
  proof cases
    case 1
    have "length path \<le> length p" using tp(1) "2.prems"(2) by (auto simp: leveled_def)
    then have "length path \<le> length r" using prefix_length_le [OF tp(2)] by simp
    with 1 bfs_loop_keeps [of g e hops queue "[path]"] show ?thesis by (auto simp: bfs_loop.simps(2))
  next
    case 2
    have "\<not> prefix path r"
    proof
      assume "prefix path r"
      then obtain zs where "r = path @ zs" by (rule prefixE)
      then have "path = r" using 2 "2.prems"(3) by (cases zs) (simp_all add: graph_walk_def)
      with 2 cur "2.prems"(3) show False by (simp add: graph_walk_def)
    qed
    with tp have "\<exists>(t, p) \<in> set queue. prefix p r" by auto
    with 2 "2.hyps"(2) tail "2.prems"(3) show ?thesis by (simp add: bfs_loop.simps(2))
  next
    case 3
    let ?q = "queue @ children path (edges_of g cur)"
    have walks: "\<forall>(t, p) \<in> set ?q. graph_walk g hops s t p"
      using tail(1) walk_extend [OF cur _ _ 3(2)] by (auto simp: children_in)
    have "\<exists>(t, p) \<in> set ?q. prefix p r"
    proof (cases "(t, p) \<in> set queue")
      case True
      with tp(2) show ?thesis by auto
    next
      case False
      with tp have path: "prefix path r" by simp
      have "path \<noteq> r" using 3 cur "2.prems"(3) by (auto simp: graph_walk_def)
      with path obtain b rest where r: "r = path @ b # rest" by (metis append.right_neutral list.exhaust prefixE)
      have "successively (graph_linked g) r" "distinct r" using "2.prems"(3) by (simp_all add: graph_walk_def)
      then have "graph_linked g cur b" "b \<notin> set path" using cur by (auto simp: r graph_walk_def successively_append_iff)
      then obtain x where "x \<in> set (edges_of g cur)" "edge_to x = b" "b \<notin> set path" by (auto simp: graph_linked_def)
      then have "(b, path @ [b]) \<in> set (children path (edges_of g cur))" by (auto simp: children_in)
      with r show ?thesis by (intro bexI [of _ "(b, path @ [b])"]) auto
    qed
    with 3 "2.hyps"(3) walks leveled_children [OF "2.prems"(2)] "2.prems"(3) show ?thesis
      by (simp add: bfs_loop.simps(2))
  qed
qed simp

lemma bfs_shortest:
  assumes "graph_walk g hops s e r"
  obtains first more where "bfs_paths g s e hops = first # more" "length first \<le> length r" "graph_walk g hops s e first"
proof -
  have "prefix [s] r" using assms by (cases r) (auto simp: graph_walk_def)
  with bfs_loop_shortest [of "[(s, [s])]" g hops s e r] assms obtain first more where
    "bfs_paths g s e hops = first # more" "length first \<le> length r"
    by (auto simp: bfs_paths_def walk_start leveled_def)
  with bfs_walks [of first g s e hops] that show thesis by simp
qed

section \<open>The search in depth\<close>

text \<open>The visited tokens are those of the path, so a path never meets itself; they are the same again after a call.\<close>

lemma dfs_walks_aux:
  "graph_walk g hops s cur path \<Longrightarrow> fst st = set (butlast path) \<Longrightarrow> \<forall>p \<in> set (snd st). graph_walk g hops s e p \<Longrightarrow>
     fst (dfs_helper g e hops m cur path st) = fst st \<and> (\<forall>p \<in> set (snd (dfs_helper g e hops m cur path st)). graph_walk g hops s e p)"
  "graph_walk g hops s (last path) path \<Longrightarrow> length path \<le> hops \<Longrightarrow> set es \<subseteq> set (edges_of g (last path)) \<Longrightarrow> fst st = set path \<Longrightarrow>
     \<forall>p \<in> set (snd st). graph_walk g hops s e p \<Longrightarrow>
     fst (dfs_edges g e hops m es path st) = fst st \<and> (\<forall>p \<in> set (snd (dfs_edges g e hops m es path st)). graph_walk g hops s e p)"
proof (induction g e hops m cur path st and g e hops m es path st rule: dfs_helper_dfs_edges.induct)
  case (1 g e hops m cur path visited paths)
  obtain bs where path: "path = bs @ [cur]"
    using "1.prems"(1) append_butlast_last_id [of path] by (metis graph_walk_def)
  then have set: "insert cur visited = set path" "visited = set path - {cur}" and v: "visited = set bs"
    using "1.prems"(1,2) by (auto simp: graph_walk_def)
  show ?case
  proof (cases "m \<le> length paths \<or> cur = e \<or> hops < length path")
    case True
    then show ?thesis
      by (cases "m \<le> length paths"; cases "cur = e") (use "1.prems" in \<open>simp_all add: dfs_helper.simps\<close>)
  next
    case False
    with "1.IH" "1.prems"(1,3) path set(1) have "fst (dfs_edges g e hops m (edges_of g cur) path (insert cur visited, paths)) = set path \<and>
        (\<forall>p \<in> set (snd (dfs_edges g e hops m (edges_of g cur) path (insert cur visited, paths))). graph_walk g hops s e p)"
      by simp
    with False set(2) show ?thesis by (simp add: dfs_helper.simps case_prod_beta)
  qed
next
  case (3 g e hops m x es path st)
  let ?st = "if edge_to x \<in> fst st then st else dfs_helper g e hops m (edge_to x) (path @ [edge_to x]) st"
  have "fst ?st = fst st \<and> (\<forall>p \<in> set (snd ?st). graph_walk g hops s e p)"
  proof (cases "edge_to x \<in> fst st")
    case True
    with "3.prems" show ?thesis by simp
  next
    case False
    then have "graph_walk g hops s (edge_to x) (path @ [edge_to x])"
      using "3.prems" by (intro walk_extend [OF "3.prems"(1)]) auto
    with "3.IH"(1) [OF False] "3.prems"(4,5) False show ?thesis by simp
  qed
  with "3.IH"(2) "3.prems" show ?case by simp
qed simp_all

lemma dfs_walks: "p \<in> set (dfs_paths g s e hops m) \<Longrightarrow> graph_walk g hops s e p"
  using dfs_walks_aux(1) [of g hops s s "[s]" "({}, [])" e m] by (simp add: dfs_paths_def walk_start)

section \<open>The routes the path finder returns\<close>

lemma first_of_hash_set: "set (first_of_hash keccak seen ps) \<subseteq> set ps"
  by (induction ps arbitrary: seen) auto

lemma first_of_hash_complete:
  "p \<in> set ps \<Longrightarrow> hash_path keccak p \<notin> seen \<Longrightarrow> inj_on (hash_path keccak) (set ps) \<Longrightarrow> p \<in> set (first_of_hash keccak seen ps)"
proof (induction ps arbitrary: seen)
  case (Cons q ps)
  then show ?case by (cases "p = q") (auto simp: inj_on_def)
qed simp

lemma first_of_hash_new: "p \<in> set (first_of_hash keccak seen ps) \<Longrightarrow> hash_path keccak p \<notin> seen"
proof (induction ps arbitrary: seen)
  case (Cons q ps)
  show ?case
  proof (cases "hash_path keccak q \<in> seen")
    case True
    with Cons show ?thesis by simp
  next
    case False
    with Cons.prems Cons.IH [of "insert (hash_path keccak q) seen"] show ?thesis by auto
  qed
qed simp

lemma first_of_hash_distinct: "distinct (first_of_hash keccak seen ps)"
proof (induction ps arbitrary: seen)
  case (Cons q ps)
  then show ?case using first_of_hash_new [of q keccak "insert (hash_path keccak q) seen" ps] by auto
qed simp

text \<open>All that is found, before the doubles are dropped.\<close>

definition found_paths :: "(search_node list \<Rightarrow> nat) \<Rightarrow> h256 \<Rightarrow> h256 \<Rightarrow> pool_info list \<Rightarrow> nat \<Rightarrow> h256 list list" where
  "found_paths tie s e pools hops =
     (case dijkstra tie (build_graph pools) s e hops of
        Ok ps \<Rightarrow> ps @ bfs_paths (build_graph pools) s e hops @ dfs_paths (build_graph pools) s e hops 5
      | _ \<Rightarrow> [])"

lemma found_paths_are_routes: "p \<in> set (found_paths tie s e pools hops) \<Longrightarrow> is_route pools s e hops p"
  unfolding is_route_walk found_paths_def
  by (cases "dijkstra tie (build_graph pools) s e hops") (auto dest: bfs_walks dfs_walks dijkstra_walks)

lemma dijkstra_cases: "dijkstra tie g s e hops = Err NoRouteFound \<or> (\<exists>p ps. dijkstra tie g s e hops = Ok (p # ps))"
  by (cases "dijkstra_loop tie g e hops [s \<mapsto> 0] [\<lparr> nd_token = s, nd_cost = 0, nd_path = [s] \<rparr>] []") (auto simp: dijkstra_def)

lemma find_all_paths_cases:
  obtains "find_all_paths keccak tie s e pools hops = Err NoRouteFound"
  | p where "find_all_paths keccak tie s e pools hops = Ok (sort_key length (first_of_hash keccak {} (found_paths tie s e pools hops)))"
      "p \<in> set (first_of_hash keccak {} (found_paths tie s e pools hops))"
proof (cases "find_all_paths keccak tie s e pools hops = Err NoRouteFound")
  case False
  with dijkstra_cases [of tie "build_graph pools" s e hops] obtain p ps where
    d: "dijkstra tie (build_graph pools) s e hops = Ok (p # ps)" by (auto simp: find_all_paths_def Let_def)
  then have "p \<in> set (first_of_hash keccak {} (found_paths tie s e pools hops))" by (simp add: found_paths_def)
  moreover from d have "find_all_paths keccak tie s e pools hops =
      Ok (sort_key length (first_of_hash keccak {} (found_paths tie s e pools hops)))"
    by (simp add: find_all_paths_def found_paths_def deduplicate_paths_def Let_def)
  ultimately show thesis by (rule that(2) [rotated])
qed (use that in blast)

lemma find_all_paths_route:
  assumes "find_all_paths keccak tie s e pools hops = Ok ps" "p \<in> set ps"
  shows "is_route pools s e hops p"
proof (cases rule: find_all_paths_cases [where keccak = keccak and tie = tie and s = s and e = e and pools = pools and hops = hops])
  case (2 q)
  then have "set ps = set (first_of_hash keccak {} (found_paths tie s e pools hops))" using assms(1) by simp
  then have "p \<in> set (found_paths tie s e pools hops)" using assms(2) first_of_hash_set by blast
  then show ?thesis by (rule found_paths_are_routes)
qed (use assms(1) in simp)

text \<open>C16: every path the path finder returns is a route: it leads from the one token to the other through distinct tokens,
  each two neighbours of which are the tokens of a pool, within the bound on the hops. There are no doubles, and the routes
  are in the order of their lengths.\<close>

theorem found_routes_are_simple_paths:
  "case find_all_paths keccak tie s e pools hops of
     Ok ps \<Rightarrow> ps \<noteq> [] \<and> list_all (is_route pools s e hops) ps \<and> distinct ps \<and> sorted (map length ps)
   | r \<Rightarrow> r = Err NoRouteFound"
proof (cases rule: find_all_paths_cases [where keccak = keccak and tie = tie and s = s and e = e and pools = pools and hops = hops])
  case (2 p)
  let ?ps = "sort_key length (first_of_hash keccak {} (found_paths tie s e pools hops))"
  have "?ps \<noteq> []" using 2(2) by (metis set_sort empty_iff list.set(1))
  moreover have "distinct ?ps" using first_of_hash_distinct by simp
  moreover have "list_all (is_route pools s e hops) ?ps" using find_all_paths_route [OF 2(1)] by (auto simp: list_all_iff)
  ultimately show ?thesis using 2(1) by (simp add: sorted_sort_key)
qed simp

text \<open>C15: unless the hash collides on the paths found, the first route returned is a shortest one there is.\<close>

theorem first_route_is_shortest:
  assumes "find_all_paths keccak tie s e pools hops = Ok (p # ps)"
    and "inj_on (hash_path keccak) (set (found_paths tie s e pools hops))"
    and "is_route pools s e hops r"
  shows "length p \<le> length r"
proof -
  let ?g = "build_graph pools" and ?all = "found_paths tie s e pools hops"
  let ?ps = "sort_key length (first_of_hash keccak {} ?all)"
  have ps: "p # ps = ?ps"
    by (rule find_all_paths_cases [where keccak = keccak and tie = tie and s = s and e = e and pools = pools and hops = hops])
      (use assms(1) in simp_all)
  obtain first more where first: "bfs_paths ?g s e hops = first # more" "length first \<le> length r"
    using bfs_shortest assms(3) unfolding is_route_walk by metis
  have "first \<in> set ?all"
    using assms(1) first(1) by (auto simp: found_paths_def find_all_paths_def Let_def split: outcome.splits)
  then have "first \<in> set (p # ps)" unfolding ps using first_of_hash_complete [of first ?all keccak "{}"] assms(2) by simp
  moreover have "sorted (map length (p # ps))" unfolding ps by (rule sorted_sort_key)
  ultimately have "length p \<le> length first" by auto
  with first(2) show ?thesis by simp
qed

lemmas search_defs = found_paths_def find_all_paths_def dijkstra_def dijkstra_loop.simps heap_pop_def cheapest_def relax_def
  bfs_paths_def bfs_loop.simps dfs_paths_def dfs_helper.simps deduplicate_paths_def hash_path_def build_graph_def add_pool_def
  add_edge_def edges_of_def edge_of_def calculate_edge_weight_def saturating_add_def saturating_mul_def

text \<open>A pool between tokens 1 and 2, as the searches see it.\<close>

definition sample_pool :: "h256 \<Rightarrow> h256 \<Rightarrow> u32 \<Rightarrow> pool_info" where
  "sample_pool a b fee = \<lparr> pi_address = 1, pi_protocol = Rfq_System, pi_token_a = a, pi_token_b = b, pi_fee_tier = fee,
     pi_liquidity = 10 ^ 18 + 1, pi_volume = 0, pi_tvl = 0 \<rparr>"

theorem first_route_is_shortest_witness:
  "find_all_paths (\<lambda>_. 0) (\<lambda>_. 0) 1 2 [sample_pool 1 2 10] 3 = Ok [[1, 2]] \<and> length [1 :: h256, 2] \<le> length [1 :: h256, 2]"
proof
  show found: "find_all_paths (\<lambda>_. 0) (\<lambda>_. 0) 1 2 [sample_pool 1 2 10] 3 = Ok [[1, 2]]"
    by (simp add: search_defs sample_pool_def)
  have "set (found_paths (\<lambda>_. 0) 1 2 [sample_pool 1 2 10] 3) = {[1, 2]}"
    by (simp add: search_defs sample_pool_def)
  then show "length [1 :: h256, 2] \<le> length [1 :: h256, 2]"
    by (intro first_route_is_shortest [OF found]) (simp_all add: is_route_def joined_def sample_pool_def)
qed

text \<open>The search by cost can miss every route: here the tokens 1 and 5 are two hops apart (over 4), and the breadth-first
  search finds that route, but a cheaper way to 4 of three hops hides it from the search by cost, whose failure is the answer
  of the whole path finder.\<close>

theorem cheap_detours_hide_short_routes:
  "case [sample_pool 1 2 10, sample_pool 2 3 10, sample_pool 3 4 10, sample_pool 1 4 1000, sample_pool 4 5 10] of pools \<Rightarrow>
     is_route pools 1 5 3 [1, 4, 5] \<and> bfs_paths (build_graph pools) 1 5 3 = [[1, 4, 5]] \<and>
     find_all_paths keccak tie 1 5 pools 3 = Err NoRouteFound"
  by (simp add: search_defs sample_pool_def is_route_def joined_def)

end
