(* ===== verification/GasOptimizer.thy ===== *)
theory GasOptimizer
  imports PathFinderProps
begin

text \<open>
  The gas estimates of \<^verbatim>\<open>src/dex/smart_routing/gas_optimizer.rs\<close> and the routes of \<^verbatim>\<open>src/dex/smart_routing/mod.rs\<close> they
  are made for. The arithmetic of \<^verbatim>\<open>f64\<close> is an argument, a record of its operations: nothing is shown that depends on how
  it rounds. Instants are arguments.
\<close>

section \<open>Floating point\<close>

record 'f floats =
  fl_lit :: "int \<Rightarrow> int \<Rightarrow> 'f"
  fl_of :: "u128 \<Rightarrow> 'f"
  fl_add :: "'f \<Rightarrow> 'f \<Rightarrow> 'f"
  fl_sub :: "'f \<Rightarrow> 'f \<Rightarrow> 'f"
  fl_mul :: "'f \<Rightarrow> 'f \<Rightarrow> 'f"
  fl_div :: "'f \<Rightarrow> 'f \<Rightarrow> 'f"
  fl_min :: "'f \<Rightarrow> 'f \<Rightarrow> 'f"
  fl_max :: "'f \<Rightarrow> 'f \<Rightarrow> 'f"
  fl_abs :: "'f \<Rightarrow> 'f"
  fl_less :: "'f \<Rightarrow> 'f \<Rightarrow> bool"
  fl_to_u64 :: "'f \<Rightarrow> u64"

section \<open>Routes\<close>

record hop =
  hop_protocol :: protocol
  hop_pool :: h256
  hop_token_in :: h256
  hop_token_out :: h256
  hop_amount_in :: u256
  hop_amount_out :: u256
  hop_fee :: u256
  hop_reserves :: "u256 \<times> u256"

record 'f route =
  rt_id :: h256
  rt_path :: "hop list"
  rt_input :: u256
  rt_output :: u256
  rt_price_impact :: 'f
  rt_gas_cost :: u256
  rt_execution_price :: u256
  rt_confidence :: 'f

section \<open>State\<close>

record gas_price =
  gp_timestamp :: u64
  gp_base_fee :: u256
  gp_priority_fee :: u256

record gas_tracker =
  base_fee :: u256
  priority_fee :: u256
  max_fee :: u256
  gas_updated :: u64
  historical :: "gas_price list"

record protocol_cost =
  base_gas :: u32
  per_hop_gas :: u32
  approval_gas :: u32
  verification_gas :: u32

text \<open>The table has an entry for each protocol.\<close>

fun protocol_costs :: "protocol \<Rightarrow> protocol_cost" where
  "protocol_costs Venue_Order_Book = \<lparr> base_gas = 150000, per_hop_gas = 30000, approval_gas = 45000, verification_gas = 20000 \<rparr>"
| "protocol_costs Amm_V2 = \<lparr> base_gas = 120000, per_hop_gas = 60000, approval_gas = 45000, verification_gas = 10000 \<rparr>"
| "protocol_costs Amm_V3 = \<lparr> base_gas = 180000, per_hop_gas = 80000, approval_gas = 45000, verification_gas = 15000 \<rparr>"
| "protocol_costs Stable_Swap = \<lparr> base_gas = 100000, per_hop_gas = 40000, approval_gas = 45000, verification_gas = 10000 \<rparr>"
| "protocol_costs Concentrated_Liquidity = \<lparr> base_gas = 200000, per_hop_gas = 90000, approval_gas = 45000, verification_gas = 20000 \<rparr>"
| "protocol_costs Rfq_System = \<lparr> base_gas = 80000, per_hop_gas = 20000, approval_gas = 0, verification_gas = 25000 \<rparr>"

definition gas_tracker_new :: gas_tracker where
  "gas_tracker_new = \<lparr> base_fee = 30000000000, priority_fee = 2000000000, max_fee = 100000000000, gas_updated = 0, historical = [] \<rparr>"

section \<open>Estimates\<close>

definition estimate_gas :: "protocol \<Rightarrow> u256" where
  "estimate_gas p = ucast (base_gas (protocol_costs p))"

fun add_hop_gas :: "protocol set \<Rightarrow> u256 \<Rightarrow> hop list \<Rightarrow> u256 option" where
  "add_hop_gas seen acc [] = Some acc"
| "add_hop_gas seen acc (h # hs) =
     (let p = hop_protocol h; c = protocol_costs p in do {
       acc \<leftarrow> (if p \<in> seen then Some acc
               else do { a \<leftarrow> uadd acc (ucast (base_gas c)); uadd a (ucast (approval_gas c)) });
       acc \<leftarrow> uadd acc (ucast (per_hop_gas c));
       add_hop_gas (insert p seen) acc hs })"

definition calculate_verification_gas :: "hop list \<Rightarrow> u256 option" where
  "calculate_verification_gas path = do {
     g \<leftarrow> sum_checked 0 (map (\<lambda>h. ucast (verification_gas (protocol_costs (hop_protocol h)))) path);
     if 2 < length path then uadd g (ucast (word_of_nat (10000 * (length path - 2)) :: u64)) else Some g }"

definition same_protocol :: "hop list \<Rightarrow> bool" where
  "same_protocol path \<longleftrightarrow> successively (\<lambda>a b. hop_protocol a = hop_protocol b) path"

definition percent_off :: "u256 \<Rightarrow> u256 \<Rightarrow> u256 \<Rightarrow> u256 option" where
  "percent_off base n g = do { m \<leftarrow> umul base n; Some (saturating_sub g (m div 100)) }"

definition apply_optimizations :: "u256 \<Rightarrow> hop list \<Rightarrow> u256 option" where
  "apply_optimizations base path = do {
     g \<leftarrow> (if 1 < length path then percent_off base 5 base else Some base);
     g \<leftarrow> (if same_protocol path then percent_off base 10 g else Some g);
     if length path \<le> 2 then percent_off base 3 g else Some g }"

definition estimate_route_gas :: "hop list \<Rightarrow> u256 option" where
  "estimate_route_gas path = do {
     g \<leftarrow> add_hop_gas {} 0 path;
     v \<leftarrow> calculate_verification_gas path;
     total \<leftarrow> uadd g v;
     apply_optimizations total path }"

section \<open>Prices\<close>

definition get_current_gas_price :: "gas_tracker \<Rightarrow> u256 option" where
  "get_current_gas_price t = uadd (base_fee t) (priority_fee t)"

definition update_gas_price :: "u64 \<Rightarrow> u256 \<Rightarrow> u256 \<Rightarrow> gas_tracker \<Rightarrow> gas_tracker" where
  "update_gas_price now base priority t =
     (let h = historical t @ [\<lparr> gp_timestamp = now, gp_base_fee = base_fee t, gp_priority_fee = priority_fee t \<rparr>]
      in t\<lparr>historical := (if 100 < length h then tl h else h), base_fee := base, priority_fee := priority, gas_updated := now\<rparr>)"

text \<open>The least-squares slope over the last ten prices; reading a price as \<^verbatim>\<open>u128\<close> may panic.\<close>

record 'f sums =
  sum_x :: 'f
  sum_y :: 'f
  sum_xx :: 'f
  sum_xy :: 'f

fun add_sums :: "'f floats \<Rightarrow> nat \<Rightarrow> gas_price list \<Rightarrow> 'f sums \<Rightarrow> 'f sums option" where
  "add_sums F i [] s = Some s"
| "add_sums F i (p # ps) s = do {
     fee \<leftarrow> uadd (gp_base_fee p) (gp_priority_fee p);
     v \<leftarrow> as_u128 fee;
     let x = fl_of F (word_of_nat i); y = fl_of F v;
         s1 = \<lparr> sum_x = fl_add F (sum_x s) x, sum_y = fl_add F (sum_y s) y,
                sum_xx = fl_add F (sum_xx s) (fl_mul F x x), sum_xy = fl_add F (sum_xy s) (fl_mul F x y) \<rparr>
     in add_sums F (Suc i) ps s1 }"

definition calculate_trend :: "'f floats \<Rightarrow> gas_price list \<Rightarrow> 'f option" where
  "calculate_trend F ps =
     (let zero = fl_lit F 0 1 in
      if length ps < 2 then Some zero
      else
        let recent = drop (length ps - 10) ps; n = fl_of F (word_of_nat (length recent)) in do {
          s \<leftarrow> add_sums F 0 recent \<lparr> sum_x = zero, sum_y = zero, sum_xx = zero, sum_xy = zero \<rparr>;
          Some (fl_div F (fl_sub F (fl_mul F n (sum_xy s)) (fl_mul F (sum_x s) (sum_y s)))
                 (fl_sub F (fl_mul F n (sum_xx s)) (fl_mul F (sum_x s) (sum_x s)))) })"

definition get_gas_price_prediction :: "'f floats \<Rightarrow> u64 \<Rightarrow> gas_tracker \<Rightarrow> u256 option" where
  "get_gas_price_prediction F blocks t =
     (if historical t = [] then uadd (base_fee t) (priority_fee t)
      else do {
        trend \<leftarrow> calculate_trend F (historical t);
        current \<leftarrow> uadd (base_fee t) (priority_fee t);
        let n = fl_of F (ucast blocks);
            delta = (\<lambda>x. ucast (fl_to_u64 F (fl_mul F x n)));
            up = fl_less F (fl_lit F 0 1) trend;
            down = saturating_sub current (delta (fl_abs F trend))
        in do {
          predicted \<leftarrow> (if up then uadd current (delta trend) else Some down);
          Some (min predicted (max_fee t)) } })"

definition estimate_congestion :: "'f floats \<Rightarrow> gas_tracker \<Rightarrow> 'f option" where
  "estimate_congestion F t = do {
     current \<leftarrow> uadd (base_fee t) (priority_fee t);
     if max_fee t = 0 then Some (fl_lit F 1 2)
     else do {
       c \<leftarrow> as_u128 current;
       m \<leftarrow> as_u128 (max_fee t);
       Some (fl_min F (fl_div F (fl_of F c) (fl_of F m)) (fl_lit F 1 1)) } }"

record gas_option =
  go_max_fee :: u256
  go_priority_fee :: u256
  go_estimated_time :: u64

record 'f gas_suggestion =
  slow :: gas_option
  standard :: gas_option
  fast :: gas_option
  instant :: gas_option
  recommended :: gas_option
  congestion_level :: 'f

definition suggest_gas_settings :: "'f floats \<Rightarrow> gas_tracker \<Rightarrow> 'f gas_suggestion option" where
  "suggest_gas_settings F t = do {
     congestion \<leftarrow> estimate_congestion F t;
     s \<leftarrow> uadd (base_fee t) 1000000000;
     m \<leftarrow> uadd (base_fee t) (priority_fee t);
     p2 \<leftarrow> umul (priority_fee t) 2;
     f \<leftarrow> uadd (base_fee t) p2;
     p5 \<leftarrow> umul (priority_fee t) 5;
     i \<leftarrow> uadd (base_fee t) p5;
     let standard_option = \<lparr> go_max_fee = m, go_priority_fee = priority_fee t, go_estimated_time = 30 \<rparr>;
         fast_option = \<lparr> go_max_fee = f, go_priority_fee = p2, go_estimated_time = 12 \<rparr>
     in Some \<lparr> slow = \<lparr> go_max_fee = s, go_priority_fee = 1000000000, go_estimated_time = 180 \<rparr>,
          standard = standard_option, fast = fast_option,
          instant = \<lparr> go_max_fee = i, go_priority_fee = p5, go_estimated_time = 6 \<rparr>,
          recommended = (if fl_less F (fl_lit F 8 10) congestion then fast_option else standard_option),
          congestion_level = congestion \<rparr> }"

section \<open>Strategies\<close>

definition scale_gas :: "u256 \<Rightarrow> 'f route \<Rightarrow> 'f route option" where
  "scale_gas percent r = do { g \<leftarrow> umul (rt_gas_cost r) percent; Some (r\<lparr>rt_gas_cost := g div 100\<rparr>) }"

definition batching_strategy :: "'f route \<Rightarrow> 'f route option" where
  "batching_strategy r = (if 3 < length (rt_path r) then scale_gas 95 r else Some r)"

text \<open>Dividing first, the product is at most the amount.\<close>

definition call_data_optimization :: "'f route \<Rightarrow> 'f route option" where
  "call_data_optimization r =
     Some (r\<lparr>rt_path := map (\<lambda>h. h\<lparr>hop_amount_in := hop_amount_in h div 10000000000 * 10000000000\<rparr>) (rt_path r)\<rparr>)"

definition storage_optimization :: "'f route \<Rightarrow> 'f route option" where
  "storage_optimization r =
     (if card (set (concat (map (\<lambda>h. [hop_token_in h, hop_token_out h]) (rt_path r)))) \<le> 3 then scale_gas 97 r else Some r)"

definition multi_call_strategy :: "'f route \<Rightarrow> 'f route option" where
  "multi_call_strategy r = (if card (set (map hop_protocol (rt_path r))) = 1 then scale_gas 90 r else Some r)"

text \<open>The strategies run in this order; the gas cost they scaled is estimated anew at the end.\<close>

definition optimize_for_sender :: "'f floats \<Rightarrow> gas_tracker \<Rightarrow> 'f route \<Rightarrow> 'f route option" where
  "optimize_for_sender F t r = do {
     price \<leftarrow> get_current_gas_price t;
     congestion \<leftarrow> estimate_congestion F t;
     r \<leftarrow> batching_strategy r;
     r \<leftarrow> call_data_optimization r;
     r \<leftarrow> storage_optimization r;
     r \<leftarrow> multi_call_strategy r;
     g \<leftarrow> estimate_route_gas (rt_path r);
     Some (r\<lparr>rt_gas_cost := g\<rparr>) }"

section \<open>What a route is estimated to cost\<close>

text \<open>The costs as numbers: each protocol of the route is set up and approved once, each hop is run and verified.\<close>

definition gas_of :: "(protocol_cost \<Rightarrow> u32) \<Rightarrow> protocol \<Rightarrow> nat" where
  "gas_of f p = unat (f (protocol_costs p))"

definition plain_gas :: "hop list \<Rightarrow> nat" where
  "plain_gas path =
     (\<Sum>p \<in> hop_protocol ` set path. gas_of base_gas p + gas_of approval_gas p)
     + (\<Sum>h \<leftarrow> path. gas_of per_hop_gas (hop_protocol h)) + (\<Sum>h \<leftarrow> path. gas_of verification_gas (hop_protocol h))
     + 10000 * (length path - 2)"

definition discounted :: "hop list \<Rightarrow> nat \<Rightarrow> nat" where
  "discounted path t =
     t - (if 1 < length path then t * 5 div 100 else 0) - (if same_protocol path then t * 10 div 100 else 0)
       - (if length path \<le> 2 then t * 3 div 100 else 0)"

lemma gas_of_le: "gas_of base_gas p \<le> 200000" "gas_of approval_gas p \<le> 45000" "gas_of per_hop_gas p \<le> 90000" "gas_of verification_gas p \<le> 25000"
  by (cases p; simp add: gas_of_def)+

lemma unat_word_of_nat_256: "n < 2 ^ 256 \<Longrightarrow> unat (word_of_nat n :: u256) = n"
  by (simp add: unat_of_nat)

lemma unat_ucast_of_nat: "n < 2 ^ 64 \<Longrightarrow> unat (ucast (word_of_nat n :: u64) :: u256) = n"
  by (simp add: unsigned_ucast_eq unat_of_nat take_bit_nat_eq_self)

lemma unat_cost [simp]: "unat (ucast (f (protocol_costs p)) :: u256) = gas_of f p"
  for f :: "protocol_cost \<Rightarrow> u32"
proof -
  have "gas_of f p < 2 ^ 32" using unsigned_less [of "f (protocol_costs p)"] by (simp add: gas_of_def)
  then show ?thesis by (simp add: gas_of_def unsigned_ucast_eq take_bit_nat_eq_self)
qed

lemma add_hop_gas_Some:
  "add_hop_gas seen acc hs = Some g \<longleftrightarrow>
     unat g = unat acc + (\<Sum>p \<in> hop_protocol ` set hs - seen. gas_of base_gas p + gas_of approval_gas p)
       + (\<Sum>h \<leftarrow> hs. gas_of per_hop_gas (hop_protocol h))"
proof (induction hs arbitrary: seen acc)
  case (Cons h hs)
  let ?p = "hop_protocol h" and ?c = "\<lambda>p. gas_of base_gas p + gas_of approval_gas p"
  let ?new = "if ?p \<in> seen then 0 else ?c ?p"
  have fin: "finite (hop_protocol ` set hs - insert ?p seen)" by simp
  have "hop_protocol ` set (h # hs) - seen = (if ?p \<in> seen then {} else {?p}) \<union> (hop_protocol ` set hs - insert ?p seen)" by auto
  then have split: "(\<Sum>p \<in> hop_protocol ` set (h # hs) - seen. ?c p) = ?new + (\<Sum>p \<in> hop_protocol ` set hs - insert ?p seen. ?c p)"
    by (simp add: sum.insert [OF fin])
  have first: "(if ?p \<in> seen then Some acc else do { a \<leftarrow> uadd acc (ucast (base_gas (protocol_costs ?p)));
      uadd a (ucast (approval_gas (protocol_costs ?p))) }) = Some b \<longleftrightarrow> unat b = unat acc + ?new" for b
  proof (cases "?p \<in> seen")
    case False
    have "(\<exists>a :: u256. unat a = unat acc + gas_of base_gas ?p \<and> unat b = unat a + gas_of approval_gas ?p) \<longleftrightarrow> unat b = unat acc + ?c ?p"
    proof
      assume b: "unat b = unat acc + ?c ?p"
      then have "unat acc + gas_of base_gas ?p < 2 ^ 256" using unat_less_256 [of b] by simp
      then have "unat (word_of_nat (unat acc + gas_of base_gas ?p) :: u256) = unat acc + gas_of base_gas ?p"
        by (rule unat_word_of_nat_256)
      with b show "\<exists>a :: u256. unat a = unat acc + gas_of base_gas ?p \<and> unat b = unat a + gas_of approval_gas ?p"
        by (metis add.assoc)
    qed auto
    with False show ?thesis by (simp add: bind_eq_Some_conv checked_ops)
  qed (auto simp: word_unat_eq_iff)
  show ?case
  proof
    assume "add_hop_gas seen acc (h # hs) = Some g"
    then have "\<exists>b :: u256. unat b = unat acc + ?new \<and>
        (\<exists>c :: u256. unat c = unat b + gas_of per_hop_gas ?p \<and> add_hop_gas (insert ?p seen) c hs = Some g)"
      by (simp add: Let_def bind_eq_Some_conv first checked_ops del: if_split)
    then obtain b c :: u256 where "unat b = unat acc + ?new" "unat c = unat b + gas_of per_hop_gas ?p"
      "add_hop_gas (insert ?p seen) c hs = Some g" by blast
    with Cons.IH show "unat g = unat acc + (\<Sum>p \<in> hop_protocol ` set (h # hs) - seen. ?c p)
        + (\<Sum>h \<leftarrow> h # hs. gas_of per_hop_gas (hop_protocol h))"
      unfolding split by simp
  next
    assume g: "unat g = unat acc + (\<Sum>p \<in> hop_protocol ` set (h # hs) - seen. ?c p)
        + (\<Sum>h \<leftarrow> h # hs. gas_of per_hop_gas (hop_protocol h))"
    define b c :: u256 where "b = word_of_nat (unat acc + ?new)" and "c = word_of_nat (unat acc + ?new + gas_of per_hop_gas ?p)"
    have lt: "unat acc + ?new + gas_of per_hop_gas ?p < 2 ^ 256" using g unat_less_256 [of g] unfolding split by simp
    have b: "unat b = unat acc + ?new" unfolding b_def by (rule unat_word_of_nat_256) (rule le_less_trans [OF _ lt], simp)
    have "unat c = unat acc + ?new + gas_of per_hop_gas ?p" unfolding c_def by (rule unat_word_of_nat_256) (rule lt)
    with b have c: "unat c = unat b + gas_of per_hop_gas ?p" by simp
    then have "add_hop_gas (insert ?p seen) c hs = Some g" unfolding Cons.IH using g b unfolding split by simp
    then show "add_hop_gas seen acc (h # hs) = Some g"
      using first [of b] b c by (auto simp: Let_def bind_eq_Some_conv checked_ops simp del: if_split)
  qed
qed (auto simp: word_unat_eq_iff)

lemma sum_list_bound: "(\<And>x. x \<in> set xs \<Longrightarrow> f x \<le> (m :: nat)) \<Longrightarrow> sum_list (map f xs) \<le> length xs * m"
  using sum_list_mono [of xs f "\<lambda>_. m"] by (simp add: sum_list_triv)

lemma plain_gas_bound: "plain_gas path \<le> length path * 370000"
proof -
  have "(\<Sum>p \<in> hop_protocol ` set path. gas_of base_gas p + gas_of approval_gas p) \<le> card (hop_protocol ` set path) * 245000"
    using sum_bounded_above [of "hop_protocol ` set path" "\<lambda>p. gas_of base_gas p + gas_of approval_gas p" 245000]
    by (simp add: add_mono [OF gas_of_le(1,2), simplified])
  also have "\<dots> \<le> length path * 245000"
    using card_image_le [of "set path" hop_protocol] card_length [of path] by simp
  finally have a: "(\<Sum>p \<in> hop_protocol ` set path. gas_of base_gas p + gas_of approval_gas p) \<le> length path * 245000" .
  have b: "(\<Sum>h \<leftarrow> path. gas_of per_hop_gas (hop_protocol h)) \<le> length path * 90000"
    "(\<Sum>h \<leftarrow> path. gas_of verification_gas (hop_protocol h)) \<le> length path * 25000"
    by (rule sum_list_bound; simp add: gas_of_le)+
  show ?thesis unfolding plain_gas_def using a b by simp
qed

lemma percent_off_Some:
  "unat b * unat n < 2 ^ 256 \<Longrightarrow> \<exists>r. percent_off b n g = Some r \<and> unat r = unat g - unat b * unat n div 100"
proof -
  assume "unat b * unat n < 2 ^ 256"
  then obtain m where m: "umul b n = Some m" by (simp add: umul_def)
  then have "unat (m div 100) = unat b * unat n div 100" by (simp add: checked_ops unat_div)
  with m show ?thesis by (simp add: percent_off_def unat_saturating_sub)
qed

lemma percent_off_if:
  assumes "unat b * unat n < 2 ^ 256"
  obtains r where "(if c then percent_off b n g else Some g) = Some r" "unat r = unat g - (if c then unat b * unat n div 100 else 0)"
  using percent_off_Some [OF assms, of g] that by (cases c) auto

lemma apply_optimizations_Some:
  assumes "unat t * 10 < 2 ^ 256"
  shows "\<exists>g. apply_optimizations t path = Some g \<and> unat g = discounted path (unat t)"
proof -
  have n: "unat (5 :: u256) = 5" "unat (10 :: u256) = 10" "unat (3 :: u256) = 3" by simp_all
  have small: "unat t * unat (5 :: u256) < 2 ^ 256" "unat t * unat (10 :: u256) < 2 ^ 256" "unat t * unat (3 :: u256) < 2 ^ 256"
    using assms by (simp_all add: n)
  obtain a where a: "(if 1 < length path then percent_off t 5 t else Some t) = Some a"
    "unat a = unat t - (if 1 < length path then unat t * unat (5 :: u256) div 100 else 0)"
    by (rule percent_off_if [OF small(1)])
  obtain b where b: "(if same_protocol path then percent_off t 10 a else Some a) = Some b"
    "unat b = unat a - (if same_protocol path then unat t * unat (10 :: u256) div 100 else 0)"
    by (rule percent_off_if [OF small(2)])
  obtain c where c: "(if length path \<le> 2 then percent_off t 3 b else Some b) = Some c"
    "unat c = unat b - (if length path \<le> 2 then unat t * unat (3 :: u256) div 100 else 0)"
    by (rule percent_off_if [OF small(3)])
  have "apply_optimizations t path = Some c" unfolding apply_optimizations_def a(1) by (simp only: bind.bind_lunit b(1) c(1))
  with a(2) b(2) c(2) show ?thesis unfolding discounted_def n by auto
qed

text \<open>The estimate of a route never panics, and it is what its hops cost, each protocol of it being set up once, less the
  discounts: five percent for more than one hop, ten for a single protocol, three for at most two hops.\<close>

theorem route_gas_is_the_discounted_sum:
  assumes "length path < 2 ^ 32"
  shows "map_option unat (estimate_route_gas path) = Some (discounted path (plain_gas path))"
proof -
  let ?v = "(\<Sum>h \<leftarrow> path. gas_of verification_gas (hop_protocol h))"
  define hops where "hops = (\<Sum>p \<in> hop_protocol ` set path. gas_of base_gas p + gas_of approval_gas p)
      + (\<Sum>h \<leftarrow> path. gas_of per_hop_gas (hop_protocol h))"
  have total: "plain_gas path = hops + ?v + 10000 * (length path - 2)" by (simp add: plain_gas_def hops_def)
  have small: "plain_gas path * 10 < 2 ^ 256" using plain_gas_bound [of path] assms by simp
  define g v w :: u256 where "g = word_of_nat hops" and "v = word_of_nat ?v" and "w = word_of_nat (?v + 10000 * (length path - 2))"
  have g: "unat g = hops" and v: "unat v = ?v" and w: "unat w = ?v + 10000 * (length path - 2)"
    unfolding g_def v_def w_def by (rule unat_word_of_nat_256; use small in \<open>simp add: total\<close>)+
  have hop: "add_hop_gas {} 0 path = Some g" by (simp add: add_hop_gas_Some g hops_def)
  have sum: "sum_checked 0 (map (\<lambda>h. ucast (verification_gas (protocol_costs (hop_protocol h)))) path) = Some v"
    by (simp add: sum_checked_Some v comp_def)
  have extra: "unat (ucast (word_of_nat (10000 * (length path - 2)) :: u64) :: u256) = 10000 * (length path - 2)"
    by (rule unat_ucast_of_nat) (use assms in simp)
  have verify: "calculate_verification_gas path = Some w"
  proof (cases "2 < length path")
    case True
    have "uadd v (ucast (word_of_nat (10000 * (length path - 2)) :: u64)) = Some w" by (simp only: uadd_Some extra v w)
    with True sum show ?thesis by (simp add: calculate_verification_gas_def)
  next
    case False
    with v w have "v = w" by (simp add: word_unat_eq_iff)
    with False sum show ?thesis by (simp add: calculate_verification_gas_def)
  qed
  define t :: u256 where "t = word_of_nat (plain_gas path)"
  have t: "unat t = plain_gas path" unfolding t_def by (rule unat_word_of_nat_256) (use small in simp)
  have "uadd g w = Some t" by (simp add: uadd_Some g w t total)
  moreover obtain r where "apply_optimizations t path = Some r" "unat r = discounted path (plain_gas path)"
    using apply_optimizations_Some [of t path] small t by auto
  ultimately show ?thesis by (simp add: estimate_route_gas_def hop verify)
qed

definition sample_hop :: "protocol \<Rightarrow> hop" where
  "sample_hop p = \<lparr> hop_protocol = p, hop_pool = 1, hop_token_in = 1, hop_token_out = 2, hop_amount_in = 12345678901,
     hop_amount_out = 1, hop_fee = 0, hop_reserves = (1, 1) \<rparr>"

theorem route_gas_is_the_discounted_sum_witness:
  "map_option unat (estimate_route_gas [sample_hop Amm_V2, sample_hop Amm_V2]) = Some 250100"
  using route_gas_is_the_discounted_sum [of "[sample_hop Amm_V2, sample_hop Amm_V2]"]
  by (simp add: discounted_def plain_gas_def gas_of_def sample_hop_def same_protocol_def)

text \<open>The history is bounded; the settings are in the order of their fees when the priority fee is; small inputs of a route
  are rounded down to nothing.\<close>

lemma price_history_is_bounded: "length (historical t) \<le> 100 \<Longrightarrow> length (historical (update_gas_price now b p t)) \<le> 100"
  by (simp add: update_gas_price_def Let_def)

lemma suggestions_are_ordered:
  assumes "suggest_gas_settings F t = Some s"
  shows "go_max_fee (standard s) \<le> go_max_fee (fast s)" "go_max_fee (fast s) \<le> go_max_fee (instant s)"
    "go_max_fee (slow s) \<le> go_max_fee (standard s) \<longleftrightarrow> 1000000000 \<le> priority_fee t"
  using assms by (auto simp: suggest_gas_settings_def bind_eq_Some_conv checked_ops word_le_nat_alt Let_def)

lemma small_inputs_vanish:
  "call_data_optimization r = Some r' \<Longrightarrow> h \<in> set (rt_path r) \<Longrightarrow> hop_amount_in h < 10000000000 \<Longrightarrow>
     \<exists>h' \<in> set (rt_path r'). hop_pool h' = hop_pool h \<and> hop_amount_in h' = 0"
proof (rule bexI)
  assume "hop_amount_in h < 10000000000"
  then have "hop_amount_in h div 10000000000 = 0" by (simp add: word_unat_eq_iff unat_div word_less_nat_alt)
  then show "hop_pool (h\<lparr>hop_amount_in := hop_amount_in h div 10000000000 * 10000000000\<rparr>) = hop_pool h \<and>
      hop_amount_in (h\<lparr>hop_amount_in := hop_amount_in h div 10000000000 * 10000000000\<rparr>) = 0" by simp
qed (auto simp: call_data_optimization_def)

end
