(* ===== verification/LiquidityAggregator.thy ===== *)
theory LiquidityAggregator
  imports Amm GasOptimizer
begin

text \<open>
  What a pool pays for an amount, as \<^verbatim>\<open>src/dex/smart_routing/liquidity_aggregator.rs\<close> estimates it per kind of pool. The
  order book and the quotes of the code are constants, as are the ticks of a concentrated pool, whose prices are computed
  in floating point and not used: only the panics on the way are kept. The arithmetic panics on overflow, so a result is
  one of three: the amounts, an error, a panic. Instants are arguments.
\<close>

record liquidity_source =
  ls_pool :: h256
  ls_protocol :: protocol
  ls_reserve_a :: u256
  ls_reserve_b :: u256
  ls_total_supply :: u256
  ls_fee_rate :: u32
  ls_last_update :: u64

datatype price_source = Oracle_Price | Twap_Price | Spot_Price

record price_feed =
  pf_price :: u256
  pf_timestamp :: u64
  pf_source :: price_source

record aggregator =
  liquidity_sources :: "h256 \<rightharpoonup> liquidity_source"
  price_feeds :: "h256 \<times> h256 \<rightharpoonup> price_feed"

definition aggregator_new :: aggregator where
  "aggregator_new = \<lparr> liquidity_sources = Map.empty, price_feeds = Map.empty \<rparr>"

definition update_liquidity_source :: "h256 \<Rightarrow> liquidity_source \<Rightarrow> aggregator \<Rightarrow> aggregator" where
  "update_liquidity_source pool source a = a\<lparr>liquidity_sources := (liquidity_sources a)(pool \<mapsto> source)\<rparr>"

definition update_price_feed :: "u64 \<Rightarrow> h256 \<Rightarrow> h256 \<Rightarrow> u256 \<Rightarrow> aggregator \<Rightarrow> aggregator" where
  "update_price_feed now x y price a =
     a\<lparr>price_feeds := (price_feeds a)((x, y) \<mapsto> \<lparr> pf_price = price, pf_timestamp = now, pf_source = Spot_Price \<rparr>)\<rparr>"

text \<open>The amount out, the fee and the reserves.\<close>

type_synonym swap_amounts = "u256 \<times> u256 \<times> (u256 \<times> u256)"
type_synonym swap_outcome = "(routing_error, swap_amounts) outcome"

definition unless_panic :: "'a option \<Rightarrow> ('a \<Rightarrow> ('e, 'b) outcome) \<Rightarrow> ('e, 'b) outcome" where
  "unless_panic x f = (case x of None \<Rightarrow> Panic | Some a \<Rightarrow> f a)"

lemma unless_panic_Ok [simp]: "unless_panic x f = Ok b \<longleftrightarrow> (\<exists>a. x = Some a \<and> f a = Ok b)"
  by (cases x) (simp_all add: unless_panic_def)

lemma unless_panic_simps [simp]: "unless_panic None f = Panic" "unless_panic (Some a) f = f a"
  by (simp_all add: unless_panic_def)

definition with_source :: "aggregator \<Rightarrow> pool_info \<Rightarrow> (liquidity_source \<Rightarrow> swap_outcome) \<Rightarrow> swap_outcome" where
  "with_source a pool f = (case liquidity_sources a (pi_address pool) of None \<Rightarrow> Err PoolNotFound | Some s \<Rightarrow> f s)"

definition reserves_of :: "liquidity_source \<Rightarrow> u256 \<times> u256" where
  "reserves_of s = (ls_reserve_a s, ls_reserve_b s)"

definition tier_fee :: "pool_info \<Rightarrow> u256 \<Rightarrow> u256 option" where
  "tier_fee pool amount = do { f \<leftarrow> umul amount (ucast (pi_fee_tier pool)); Some (f div 1000000) }"

section \<open>Constant product\<close>

definition calculate_amm_v2_output :: "aggregator \<Rightarrow> pool_info \<Rightarrow> u256 \<Rightarrow> swap_outcome" where
  "calculate_amm_v2_output a pool amount = with_source a pool (\<lambda>s.
     unless_panic (do {
       w \<leftarrow> umul amount 997;
       numerator \<leftarrow> umul w (ls_reserve_b s);
       r \<leftarrow> umul (ls_reserve_a s) 1000;
       denominator \<leftarrow> uadd r w;
       Some (numerator, denominator) }) (\<lambda>(numerator, denominator).
     if denominator = 0 then Err Insufficient_Liquidity
     else unless_panic (umul amount 3) (\<lambda>f. Ok (numerator div denominator, f div 1000, reserves_of s))))"

section \<open>Square roots of prices\<close>

abbreviation q96 :: u256 where
  "q96 \<equiv> 2 ^ 96"

definition aggregator_sqrt :: "u256 \<Rightarrow> u256 option" where
  "aggregator_sqrt v = (if v = 0 then Some 0 else do { t \<leftarrow> uadd v 1; sqrt_loop v v (t div 2) })"

definition calculate_sqrt_price :: "u256 \<Rightarrow> u256 \<Rightarrow> u256 option" where
  "calculate_sqrt_price ra rb =
     (if ra = 0 \<or> rb = 0 then Some q96 else do { n \<leftarrow> umul rb q96; aggregator_sqrt (n div ra) })"

definition calculate_liquidity_v3 :: "u256 \<Rightarrow> u256 \<Rightarrow> u256 \<Rightarrow> u256 option" where
  "calculate_liquidity_v3 ra rb sp =
     (if sp = 0 then Some 0
      else do { x \<leftarrow> umul ra sp; y \<leftarrow> umul rb q96; Some (min (x div q96) (y div sp)) })"

definition get_sqrt_price_target :: "u256 \<Rightarrow> u256 \<Rightarrow> u256 \<Rightarrow> bool \<Rightarrow> u256 option" where
  "get_sqrt_price_target sp liq amount zero_for_one =
     (if liq = 0 then Some sp
      else do { d \<leftarrow> umul amount q96;
                if zero_for_one then Some (saturating_sub sp (d div liq)) else uadd sp (d div liq) })"

definition calculate_output_from_price_change :: "u256 \<Rightarrow> u256 \<Rightarrow> u256 \<Rightarrow> u256 option" where
  "calculate_output_from_price_change liq from_price to_price =
     (if from_price = to_price then Some 0
      else do { p \<leftarrow> umul liq (if to_price < from_price then from_price - to_price else to_price - from_price); Some (p div q96) })"

definition calculate_amm_v3_output :: "aggregator \<Rightarrow> pool_info \<Rightarrow> u256 \<Rightarrow> swap_outcome" where
  "calculate_amm_v3_output a pool amount = with_source a pool (\<lambda>s.
     unless_panic (do {
       sp \<leftarrow> calculate_sqrt_price (ls_reserve_a s) (ls_reserve_b s);
       liq \<leftarrow> calculate_liquidity_v3 (ls_reserve_a s) (ls_reserve_b s) sp;
       target \<leftarrow> get_sqrt_price_target sp liq amount True;
       out \<leftarrow> calculate_output_from_price_change liq sp target;
       fee \<leftarrow> tier_fee pool amount;
       Some (out, fee, reserves_of s) }) Ok)"

section \<open>Stable swaps\<close>

definition close_to :: "u256 \<Rightarrow> u256 \<Rightarrow> bool" where
  "close_to x y \<longleftrightarrow> (if y < x then x - y \<le> 1 else y - x \<le> 1)"

fun d_loop :: "nat \<Rightarrow> u256 \<Rightarrow> u256 \<Rightarrow> u256 \<Rightarrow> u256 option" where
  "d_loop 0 s amp d = Some d"
| "d_loop (Suc n) s amp d = do {
     d2 \<leftarrow> umul d d;
     d3 \<leftarrow> umul d2 d;
     as \<leftarrow> umul amp s;
     ass \<leftarrow> umul as s;
     numerator \<leftarrow> uadd d3 ass;
     dd \<leftarrow> umul 2 d2;
     t \<leftarrow> uadd dd as;
     denominator \<leftarrow> usub t d;
     if denominator = 0 then Some d
     else let d' = numerator div denominator in if close_to d' d then Some d' else d_loop n s amp d' }"

definition calculate_d :: "u256 \<Rightarrow> u256 \<Rightarrow> u256 \<Rightarrow> u256 option" where
  "calculate_d x y amp = do { s \<leftarrow> uadd x y; if s = 0 then Some 0 else d_loop 255 s amp s }"

fun y_loop :: "nat \<Rightarrow> u256 \<Rightarrow> u256 \<Rightarrow> u256 \<Rightarrow> u256 \<Rightarrow> u256 option" where
  "y_loop 0 x d amp y = Some y"
| "y_loop (Suc n) x d amp y = do {
     y2 \<leftarrow> umul y y;
     dd \<leftarrow> umul d d;
     xx \<leftarrow> umul 2 x;
     c \<leftarrow> udiv dd xx;
     numerator \<leftarrow> uadd y2 c;
     yy \<leftarrow> umul 2 y;
     q \<leftarrow> udiv d amp;
     t \<leftarrow> uadd yy q;
     denominator \<leftarrow> usub t d;
     if denominator = 0 then Some y
     else let y' = numerator div denominator in if close_to y' y then Some y' else y_loop n x d amp y' }"

definition calculate_y :: "u256 \<Rightarrow> u256 \<Rightarrow> u256 \<Rightarrow> u256 option" where
  "calculate_y x d amp = y_loop 255 x d amp d"

definition calculate_stable_swap_output :: "aggregator \<Rightarrow> pool_info \<Rightarrow> u256 \<Rightarrow> swap_outcome" where
  "calculate_stable_swap_output a pool amount = with_source a pool (\<lambda>s.
     unless_panic (do {
       d \<leftarrow> calculate_d (ls_reserve_a s) (ls_reserve_b s) 100;
       x \<leftarrow> uadd (ls_reserve_a s) amount;
       calculate_y x d 100 }) (\<lambda>y.
     if ls_reserve_b s \<le> y then Err Insufficient_Liquidity
     else let out = ls_reserve_b s - y
          in unless_panic (do { f \<leftarrow> umul out 4; rest \<leftarrow> usub out (f div 10000); Some (rest, f div 10000, reserves_of s) }) Ok))"

section \<open>Concentrated liquidity\<close>

text \<open>The current tick is computed from the price, which may panic, and then ignored.\<close>

definition tick_panics :: "u256 \<Rightarrow> u256 \<Rightarrow> bool" where
  "tick_panics ra rb \<longleftrightarrow> ra \<noteq> 0 \<and> rb \<noteq> 0 \<and> do { n \<leftarrow> umul rb (10 ^ 18); as_u128 (n div ra) } = None"

definition initialized_ticks :: "int list" where
  "initialized_ticks = [-100, -60, 0, 60, 100]"

definition get_tick_liquidity :: "int \<Rightarrow> u256" where
  "get_tick_liquidity tick = 1000000"

definition calculate_swap_within_tick :: "u256 \<Rightarrow> u256 \<Rightarrow> u256 option" where
  "calculate_swap_within_tick amount liq =
     (if liq = 0 then Some 0 else do { w \<leftarrow> umul amount 997; Some (w div 1000) })"

fun swap_ticks :: "int list \<Rightarrow> u256 \<Rightarrow> u256 \<Rightarrow> u256 \<Rightarrow> u256 option" where
  "swap_ticks [] remaining out liq = Some out"
| "swap_ticks (tick # ticks) remaining out liq =
     (if remaining = 0 then Some out
      else let swap = min remaining (get_tick_liquidity tick) in do {
        o' \<leftarrow> calculate_swap_within_tick swap liq;
        out \<leftarrow> uadd out o';
        liq \<leftarrow> uadd liq (get_tick_liquidity tick);
        swap_ticks ticks (remaining - swap) out liq })"

definition calculate_concentrated_output :: "aggregator \<Rightarrow> pool_info \<Rightarrow> u256 \<Rightarrow> swap_outcome" where
  "calculate_concentrated_output a pool amount = with_source a pool (\<lambda>s.
     if tick_panics (ls_reserve_a s) (ls_reserve_b s) then Panic
     else unless_panic (do {
       out \<leftarrow> swap_ticks initialized_ticks amount 0 (pi_liquidity pool);
       fee \<leftarrow> tier_fee pool amount;
       Some (out, fee, reserves_of s) }) Ok)"

section \<open>Order books and quotes\<close>

definition orderbook_asks :: "(u256 \<times> u256) list" where
  "orderbook_asks = [(1000, 100000), (1001, 200000), (1002, 300000)]"

fun take_asks :: "(u256 \<times> u256) list \<Rightarrow> u256 \<Rightarrow> u256 \<Rightarrow> u256 \<Rightarrow> (u256 \<times> u256 \<times> u256) option" where
  "take_asks [] remaining out cost = Some (remaining, out, cost)"
| "take_asks ((price, available) # asks) remaining out cost =
     (if remaining = 0 then Some (remaining, out, cost)
      else let fill = min remaining available in do {
        c \<leftarrow> umul fill price;
        out \<leftarrow> uadd out fill;
        cost \<leftarrow> uadd cost (c div 10 ^ 18);
        take_asks asks (remaining - fill) out cost })"

definition calculate_orderbook_output :: "pool_info \<Rightarrow> u256 \<Rightarrow> swap_outcome" where
  "calculate_orderbook_output pool amount =
     unless_panic (take_asks orderbook_asks amount 0 0) (\<lambda>(remaining, out, cost).
       if 0 < remaining then Err Insufficient_Liquidity
       else unless_panic (tier_fee pool cost) (\<lambda>fee. Ok (out, fee, (pi_liquidity pool, pi_liquidity pool))))"

record quote =
  qt_provider :: h256
  qt_output :: u256
  qt_expiry :: u64

definition request_quotes :: "h256 \<Rightarrow> quote list" where
  "request_quotes provider = [\<lparr> qt_provider = provider, qt_output = 990000, qt_expiry = 1000 \<rparr>]"

text \<open>Of several best quotes the last is taken.\<close>

definition best_quote :: "quote list \<Rightarrow> quote" where
  "best_quote qs = foldl (\<lambda>b q. if qt_output b \<le> qt_output q then q else b) (hd qs) (tl qs)"

definition calculate_rfq_output :: "h256 \<Rightarrow> pool_info \<Rightarrow> u256 \<Rightarrow> swap_outcome" where
  "calculate_rfq_output provider pool amount =
     (let qs = request_quotes provider
      in if qs = [] then Err NoPoolsAvailable
         else unless_panic (tier_fee pool amount) (\<lambda>fee.
           Ok (qt_output (best_quote qs), fee, (pi_liquidity pool, pi_liquidity pool))))"

definition calculate_swap_output :: "h256 \<Rightarrow> aggregator \<Rightarrow> pool_info \<Rightarrow> u256 \<Rightarrow> swap_outcome" where
  "calculate_swap_output provider a pool amount =
     (case pi_protocol pool of
        Amm_V2 \<Rightarrow> calculate_amm_v2_output a pool amount
      | Amm_V3 \<Rightarrow> calculate_amm_v3_output a pool amount
      | Stable_Swap \<Rightarrow> calculate_stable_swap_output a pool amount
      | Concentrated_Liquidity \<Rightarrow> calculate_concentrated_output a pool amount
      | Venue_Order_Book \<Rightarrow> calculate_orderbook_output pool amount
      | Rfq_System \<Rightarrow> calculate_rfq_output provider pool amount)"

section \<open>What the pools pay\<close>

text \<open>A swap of a constant-product pool never lowers the product of its reserves, and pays less than it has.\<close>

theorem v2_swap_keeps_the_product:
  assumes "calculate_amm_v2_output a pool amount = Ok (out, fee, ra, rb)"
  shows "unat ra * unat rb \<le> (unat ra + unat amount) * (unat rb - unat out) \<and> unat out \<le> unat rb"
proof -
  obtain n d where n: "unat n = unat amount * 997 * unat rb" and d: "unat d = unat ra * 1000 + unat amount * 997" "d \<noteq> 0"
    and out: "out = n div d"
    using assms by (auto simp: calculate_amm_v2_output_def with_source_def reserves_of_def bind_eq_Some_conv checked_ops
        split: option.splits if_splits)
  let ?a = "unat amount" and ?x = "unat ra" and ?y = "unat rb"
  have o: "unat out * (?x * 1000 + ?a * 997) \<le> ?a * 997 * ?y"
    unfolding out unat_div n d(1) [symmetric] by (simp add: div_times_less_eq_dividend)
  have pos: "0 < ?x * 1000 + ?a * 997" using d by (metis neq0_conv unat_eq_zero)
  have "?a * 997 * ?y \<le> ?y * (?x * 1000 + ?a * 997)" by (simp add: algebra_simps)
  with o have "unat out * (?x * 1000 + ?a * 997) \<le> ?y * (?x * 1000 + ?a * 997)" by linarith
  then have le: "unat out \<le> ?y" using pos by (metis mult_le_cancel2)
  then obtain k where k: "?y = unat out + k" by (metis le_iff_add)
  have "unat out * ?x * 1000 + unat out * ?a * 997 \<le> ?a * 997 * unat out + ?a * 997 * k" using o by (simp add: k algebra_simps)
  then have "unat out * ?x * 1000 \<le> ?a * k * 997" by (simp add: algebra_simps)
  also have "\<dots> \<le> ?a * k * 1000" by simp
  finally have "unat out * ?x \<le> ?a * k" by simp
  then have "?x * ?y \<le> (?x + ?a) * k" by (simp add: k algebra_simps)
  with le k show ?thesis by simp
qed

lemma aggregator_sqrt_le: "aggregator_sqrt v = Some r \<Longrightarrow> unat v + 1 < 2 ^ 256 \<Longrightarrow> unat r * unat r \<le> unat v"
proof -
  assume v: "aggregator_sqrt v = Some r" "unat v + 1 < 2 ^ 256"
  have "aggregator_sqrt v = amm_sqrt v" by (simp add: aggregator_sqrt_def amm_sqrt_def udiv_def)
  with v amm_sqrt_correct [of v] show ?thesis by (auto simp: power2_eq_square)
qed

text \<open>A swap of a "V3" pool pays nothing, unless the pool holds at least \<open>2 ^ 96\<close> units of the token paid out: the square
  root is taken of the price times \<open>2 ^ 96\<close>, where the fixed point would need \<open>2 ^ 192\<close>.\<close>

theorem v3_swaps_pay_nothing:
  assumes "calculate_amm_v3_output a pool amount = Ok (out, fee, ra, rb)" and "unat rb < 2 ^ 96"
  shows "out = 0"
proof -
  obtain sp liq target where sp: "calculate_sqrt_price ra rb = Some sp" and liq: "calculate_liquidity_v3 ra rb sp = Some liq"
    and target: "get_sqrt_price_target sp liq amount True = Some target"
    and out: "calculate_output_from_price_change liq sp target = Some out"
    using assms(1) by (auto simp: calculate_amm_v3_output_def with_source_def reserves_of_def bind_eq_Some_conv split: option.splits)
  show ?thesis
  proof (cases "liq = 0")
    case True
    with target out show ?thesis by (simp add: get_sqrt_price_target_def calculate_output_from_price_change_def)
  next
    case liq0: False
    have q: "unat q96 = 2 ^ 96" by simp
    have "sp \<noteq> 0" using liq liq0 by (auto simp: calculate_liquidity_v3_def)
    with liq obtain x y where x: "unat x = unat ra * unat sp" and y: "unat y = unat rb * unat q96" and lq: "liq = min (x div q96) (y div sp)"
      by (auto simp: calculate_liquidity_v3_def bind_eq_Some_conv checked_ops)
    have "unat liq \<le> unat x div 2 ^ 96" unfolding lq min_def by (auto simp: word_le_nat_alt unat_div simp del: div_le_dividend)
    then have a: "unat liq * 2 ^ 96 \<le> unat ra * unat sp" unfolding x [symmetric] by (simp add: less_eq_div_iff_mult_less_eq)
    have "ra \<noteq> 0 \<and> rb \<noteq> 0"
    proof -
      have "unat liq \<noteq> 0" using liq0 by (simp add: unat_eq_zero)
      then have "unat ra \<noteq> 0" using a by (metis mult_is_0 le_zero_eq power_not_zero zero_neq_numeral)
      moreover have "rb \<noteq> 0"
      proof
        assume "rb = 0"
        with y have "y = 0" by (simp add: unat_eq_zero)
        then have "liq = 0" unfolding lq by (simp add: min_def word_le_nat_alt unat_eq_zero)
        with liq0 show False ..
      qed
      ultimately show ?thesis by (auto simp: unat_eq_zero)
    qed
    then obtain n where n: "unat n = unat rb * 2 ^ 96" and s: "aggregator_sqrt (n div ra) = Some sp"
      using sp by (auto simp: calculate_sqrt_price_def bind_eq_Some_conv checked_ops)
    have "unat n < 2 ^ 192" using n assms(2) by simp
    moreover have "(2 :: nat) ^ 192 + 1 < 2 ^ 256" by simp
    ultimately have "unat (n div ra) + 1 < 2 ^ 256" using div_le_dividend [of "unat n" "unat ra"] unfolding unat_div by linarith
    with s have "unat sp * unat sp \<le> unat n div unat ra" using aggregator_sqrt_le unat_div by metis
    then have b: "unat sp * unat sp * unat ra \<le> unat n"
      by (meson div_times_less_eq_dividend le_trans mult_le_mono1)
    have "target \<le> sp" using target liq0
      by (auto simp: get_sqrt_price_target_def bind_eq_Some_conv word_le_nat_alt unat_saturating_sub)
    then consider "out = 0" | p where "unat p = unat liq * (unat sp - unat target)" "out = p div q96"
    proof (cases "sp = target")
      case True
      with out that(1) show ?thesis by (simp add: calculate_output_from_price_change_def)
    next
      case False
      with \<open>target \<le> sp\<close> have "target < sp" by simp
      with out False obtain p where "umul liq (sp - target) = Some p" "out = p div q96"
        by (auto simp: calculate_output_from_price_change_def bind_eq_Some_conv)
      with \<open>target \<le> sp\<close> that(2) show ?thesis by (simp add: checked_ops unat_sub)
    qed
    then show ?thesis
    proof cases
      case 2
      have "unat out * 2 ^ 96 \<le> unat liq * (unat sp - unat target)" unfolding 2(2) unat_div q 2(1) [symmetric] by (rule div_times_less_eq_dividend)
      also have "\<dots> \<le> unat liq * unat sp" by simp
      finally have "unat out * 2 ^ 96 * 2 ^ 96 \<le> unat liq * 2 ^ 96 * unat sp" by simp
      also have "\<dots> \<le> unat ra * unat sp * unat sp" using a by (rule mult_le_mono1)
      also have "\<dots> \<le> unat n" using b by (simp add: algebra_simps)
      finally have "unat out * 2 ^ 192 < 1 * 2 ^ 192" using \<open>unat n < 2 ^ 192\<close> by simp
      then have "unat out = 0" by simp
      then show ?thesis by (simp add: unat_eq_zero)
    qed
  qed
qed

definition sample_source :: "u256 \<Rightarrow> u256 \<Rightarrow> aggregator" where
  "sample_source ra rb = update_liquidity_source 1 \<lparr> ls_pool = 1, ls_protocol = Amm_V2, ls_reserve_a = ra, ls_reserve_b = rb,
     ls_total_supply = 0, ls_fee_rate = 0, ls_last_update = 0 \<rparr> aggregator_new"

lemmas aggregator_eval = sample_source_def update_liquidity_source_def aggregator_new_def sample_pool_def with_source_def
  reserves_of_def tier_fee_def uadd_def usub_def umul_def udiv_def

theorem v2_swap_keeps_the_product_witness:
  "calculate_amm_v2_output (sample_source 1000000 2000000) (sample_pool 1 2 3000) 1000 = Ok (1992, 3, 1000000, 2000000) \<and>
     unat (1000000 :: u256) * unat (2000000 :: u256) \<le> (unat (1000000 :: u256) + unat (1000 :: u256)) * (unat (2000000 :: u256) - unat (1992 :: u256))"
proof
  show swap: "calculate_amm_v2_output (sample_source 1000000 2000000) (sample_pool 1 2 3000) 1000 = Ok (1992, 3, 1000000, 2000000)"
    by (simp add: calculate_amm_v2_output_def aggregator_eval)
  show "unat (1000000 :: u256) * unat (2000000 :: u256) \<le>
      (unat (1000000 :: u256) + unat (1000 :: u256)) * (unat (2000000 :: u256) - unat (1992 :: u256))"
    by (rule conjunct1 [OF v2_swap_keeps_the_product [OF swap]])
qed

theorem v3_swaps_pay_nothing_witness:
  "calculate_amm_v3_output (sample_source (2 ^ 94) 1) (sample_pool 1 2 3000) 1000 = Ok (0, 3, 2 ^ 94, 1) \<and> (0 :: u256) = 0"
proof
  show swap: "calculate_amm_v3_output (sample_source (2 ^ 94) 1) (sample_pool 1 2 3000) 1000 = Ok (0, 3, 2 ^ 94, 1)"
    by (simp add: calculate_amm_v3_output_def aggregator_eval calculate_sqrt_price_def aggregator_sqrt_def sqrt_loop.simps
        calculate_liquidity_v3_def get_sqrt_price_target_def calculate_output_from_price_change_def)
  show "(0 :: u256) = 0" by (rule v3_swaps_pay_nothing [OF swap]) simp
qed

lemmas loop_numeral = d_loop.simps(2) [where n = "pred_numeral k" for k, folded numeral_eq_Suc]
  y_loop.simps(2) [where n = "pred_numeral k" for k, folded numeral_eq_Suc]

text \<open>The equations of the stable swap do not balance the reserves: one unit paid into a pool of a million each takes out
  more than nine tenths of it.\<close>

theorem stable_swap_gives_the_pool_away:
  "calculate_stable_swap_output (sample_source 1000000 1000000) (sample_pool 1 2 3000) 1 = Ok (927580, 371, 1000000, 1000000)"
proof -
  have "calculate_d 1000000 1000000 100 = Some 72776"
    by (simp add: calculate_d_def loop_numeral close_to_def word_le_nat_alt uadd_def usub_def umul_def)
  moreover have "calculate_y 1000001 72776 100 = Some 72049"
    by (simp add: calculate_y_def loop_numeral close_to_def word_le_nat_alt uadd_def usub_def umul_def udiv_def)
  ultimately show ?thesis by (simp add: calculate_stable_swap_output_def aggregator_eval)
qed

text \<open>A concentrated pool pays at most what its five ticks hold, whatever is paid in; an order book pays the amount itself, at
  whatever price; a quote pays the same for any amount.\<close>

lemma swap_ticks_bound: "swap_ticks ts remaining out liq = Some out' \<Longrightarrow> unat out' \<le> unat out + length ts * 997000"
proof (induction ts remaining out liq rule: swap_ticks.induct)
  case (2 t ts remaining out liq)
  show ?case
  proof (cases "remaining = 0")
    case False
    let ?s = "min remaining (get_tick_liquidity t)"
    obtain p q l where p: "calculate_swap_within_tick ?s liq = Some p" and q: "uadd out p = Some q" "uadd liq (get_tick_liquidity t) = Some l"
      and rest: "swap_ticks ts (remaining - ?s) q l = Some out'"
      using "2.prems" False by (auto simp: Let_def bind_eq_Some_conv)
    have "unat ?s \<le> unat (1000000 :: u256)"
      unfolding word_le_nat_alt [symmetric] by (simp add: get_tick_liquidity_def)
    then have "unat ?s * 997 div 1000 \<le> 1000000 * 997 div 1000" by (intro div_le_mono mult_le_mono1) simp
    then have "unat p \<le> 997000"
      using p by (auto simp: calculate_swap_within_tick_def bind_eq_Some_conv checked_ops unat_div split: if_splits)
    moreover have "unat out' \<le> unat q + length ts * 997000"
      using "2.IH" [OF False refl p q rest] .
    ultimately show ?thesis using q(1) by (simp add: checked_ops)
  qed (use "2.prems" in simp)
qed simp

lemma concentrated_swaps_are_capped: "calculate_concentrated_output a pool amount = Ok (out, fee, r) \<Longrightarrow> unat out \<le> 4985000"
  using swap_ticks_bound [of initialized_ticks amount 0 "pi_liquidity pool" out]
  by (auto simp: calculate_concentrated_output_def with_source_def bind_eq_Some_conv initialized_ticks_def split: option.splits if_splits)

lemma take_asks_out: "take_asks asks remaining out cost = Some (remaining', out', cost') \<Longrightarrow> unat out' + unat remaining' = unat out + unat remaining"
proof (induction asks remaining out cost rule: take_asks.induct)
  case (2 price available asks remaining out cost)
  show ?case
  proof (cases "remaining = 0")
    case False
    let ?f = "min remaining available"
    obtain c q d where q: "umul ?f price = Some c" "uadd out ?f = Some q" "uadd cost (c div 10 ^ 18) = Some d"
      and rest: "take_asks asks (remaining - ?f) q d = Some (remaining', out', cost')"
      using "2.prems" False by (auto simp: Let_def bind_eq_Some_conv)
    have "unat (remaining - ?f) + unat ?f = unat remaining"
      by (simp add: unat_sub word_le_nat_alt [symmetric])
    with "2.IH" [OF False refl q rest] q(2) show ?thesis by (simp add: checked_ops)
  qed (use "2.prems" in simp)
qed simp

lemma order_book_pays_the_amount: "calculate_orderbook_output pool amount = Ok (out, fee, r) \<Longrightarrow> out = amount"
  using take_asks_out [of orderbook_asks amount 0 0]
  by (auto simp: calculate_orderbook_output_def word_unat_eq_iff word_less_nat_alt split: if_splits)

lemma quotes_ignore_the_amount: "calculate_rfq_output provider pool amount = Ok (out, fee, r) \<Longrightarrow> out = 990000"
  by (auto simp: calculate_rfq_output_def request_quotes_def best_quote_def)

end
