(* ===== verification/SmartRouter.thy ===== *)
theory SmartRouter
  imports LiquidityAggregator
begin

text \<open>
  The smart router of \<^verbatim>\<open>src/dex/smart_routing/mod.rs\<close>: a registry of pools, a cache of routes, and the choice of a best
  route or of a split of an amount over several. Instants are arguments; the hash, the order of equal nodes of the search,
  the floating-point operations and the random identifiers are the environment \<open>W\<close>.
\<close>

section \<open>State\<close>

record 'f router_env =
  env_keccak :: "u8 list \<Rightarrow> h256"
  env_tie :: "search_node list \<Rightarrow> nat"
  env_floats :: "'f floats"
  env_id :: "nat \<Rightarrow> h256"

record 'f routing_config =
  rc_max_hops :: nat
  rc_max_splits :: nat
  rc_price_impact_threshold :: 'f
  rc_gas_price_threshold :: u256
  rc_slippage_tolerance :: 'f
  rc_enable_multi_path :: bool
  rc_enable_gas_optimization :: bool

definition routing_config_default :: "'f floats \<Rightarrow> 'f routing_config" where
  "routing_config_default F = \<lparr> rc_max_hops = 4, rc_max_splits = 3, rc_price_impact_threshold = fl_lit F 5 100,
     rc_gas_price_threshold = 100000000000, rc_slippage_tolerance = fl_lit F 5 1000, rc_enable_multi_path = True,
     rc_enable_gas_optimization = True \<rparr>"

record 'f cached_route =
  cr_route :: "'f route"
  cr_timestamp :: u64
  cr_hit_count :: u32

record 'f split_route =
  sr_routes :: "'f route list"
  sr_percentages :: "'f list"
  sr_total_output :: u256
  sr_average_price :: u256
  sr_total_gas :: u256

record 'f smart_router =
  rt_config :: "'f routing_config"
  rt_aggregator :: aggregator
  rt_gas :: gas_tracker
  route_cache :: "(h256 \<times> 'f cached_route) list"
  pool_registry :: "(h256 \<times> pool_info) list"

definition smart_router_new :: "'f routing_config \<Rightarrow> 'f smart_router" where
  "smart_router_new config = \<lparr> rt_config = config, rt_aggregator = aggregator_new, rt_gas = gas_tracker_new, route_cache = [],
     pool_registry = [] \<rparr>"

definition register_pool :: "pool_info \<Rightarrow> 'f smart_router \<Rightarrow> 'f smart_router" where
  "register_pool p s = s\<lparr>pool_registry := AList.update (pi_address p) p (pool_registry s)\<rparr>"

definition get_pool_info :: "h256 \<Rightarrow> 'f smart_router \<Rightarrow> (routing_error, pool_info) outcome" where
  "get_pool_info address s = (case map_of (pool_registry s) address of None \<Rightarrow> Err PoolNotFound | Some p \<Rightarrow> Ok p)"

section \<open>Pools and paths\<close>

definition is_relevant :: "h256 \<Rightarrow> h256 \<Rightarrow> pool_info \<Rightarrow> bool" where
  "is_relevant x y p \<longleftrightarrow> pi_token_a p = x \<and> pi_token_b p = y \<or> pi_token_a p = y \<and> pi_token_b p = x \<or>
     pi_token_a p = x \<or> pi_token_b p = x \<or> pi_token_a p = y \<or> pi_token_b p = y"

definition get_relevant_pools :: "h256 \<Rightarrow> h256 \<Rightarrow> 'f smart_router \<Rightarrow> (routing_error, pool_info list) outcome" where
  "get_relevant_pools x y s =
     (let ps = filter (is_relevant x y) (map snd (pool_registry s))
      in if ps = [] then Err NoPoolsAvailable else Ok (sort_key (\<lambda>p. - int (unat (pi_liquidity p))) ps))"

definition router_paths :: "'f router_env \<Rightarrow> h256 \<Rightarrow> h256 \<Rightarrow> 'f smart_router \<Rightarrow> (routing_error, h256 list list) outcome" where
  "router_paths W x y s =
     (case get_relevant_pools x y s of
        Ok ps \<Rightarrow> find_all_paths (env_keccak W) (env_tie W) x y ps (rc_max_hops (rt_config s))
      | Err e \<Rightarrow> Err e | Panic \<Rightarrow> Panic | Hang \<Rightarrow> Hang)"

section \<open>Evaluating a path\<close>

text \<open>The elements of a path are tokens; each but the last is looked up as the address of a pool.\<close>

fun evaluate_hops ::
  "'f router_env \<Rightarrow> 'f smart_router \<Rightarrow> h256 list \<Rightarrow> u256 \<Rightarrow> u256 \<Rightarrow> hop list \<Rightarrow> (routing_error, hop list \<times> u256 \<times> u256) outcome" where
  "evaluate_hops W s [] current gas hops = Ok (hops, current, gas)"
| "evaluate_hops W s (t # ts) current gas hops =
     (case get_pool_info t s of
        Ok pool \<Rightarrow>
          (case calculate_swap_output (env_id W 0) (rt_aggregator s) pool current of
             Ok (out, fee, reserves) \<Rightarrow>
               unless_panic (uadd gas (estimate_gas (pi_protocol pool))) (\<lambda>gas.
                 evaluate_hops W s ts out gas (hops @ [\<lparr> hop_protocol = pi_protocol pool, hop_pool = t,
                   hop_token_in = pi_token_a pool, hop_token_out = pi_token_b pool, hop_amount_in = current,
                   hop_amount_out = out, hop_fee = fee, hop_reserves = reserves \<rparr>]))
           | Err e \<Rightarrow> Err e | Panic \<Rightarrow> Panic | Hang \<Rightarrow> Hang)
      | Err e \<Rightarrow> Err e | Panic \<Rightarrow> Panic | Hang \<Rightarrow> Hang)"

fun sum_impact :: "'f floats \<Rightarrow> 'f \<Rightarrow> hop list \<Rightarrow> 'f option" where
  "sum_impact F acc [] = Some acc"
| "sum_impact F acc (h # hs) = do {
     a \<leftarrow> as_u128 (hop_amount_in h);
     r \<leftarrow> as_u128 (fst (hop_reserves h));
     sum_impact F (fl_add F acc (fl_mul F (fl_div F (fl_of F a) (fl_of F r)) (fl_lit F 997 1000))) hs }"

definition calculate_price_impact :: "'f floats \<Rightarrow> hop list \<Rightarrow> 'f option" where
  "calculate_price_impact F hops =
     (if hops = [] then Some (fl_lit F 0 1)
      else do { i \<leftarrow> sum_impact F (fl_lit F 0 1) hops; Some (fl_min F i (fl_lit F 1 1)) })"

definition calculate_confidence :: "'f floats \<Rightarrow> u256 \<Rightarrow> 'f" where
  "calculate_confidence F out = (if out = 0 then fl_lit F 0 1 else fl_lit F 95 100)"

definition evaluate_path ::
  "'f router_env \<Rightarrow> 'f smart_router \<Rightarrow> h256 \<Rightarrow> h256 list \<Rightarrow> u256 \<Rightarrow> (routing_error, 'f route) outcome" where
  "evaluate_path W s i path amount =
     (case evaluate_hops W s (butlast path) amount 0 [] of
        Ok (hops, out, gas) \<Rightarrow>
          unless_panic (do {
            impact \<leftarrow> calculate_price_impact (env_floats W) hops;
            n \<leftarrow> umul out (10 ^ 18);
            price \<leftarrow> udiv n amount;
            Some \<lparr> rt_id = i, rt_path = hops, rt_input = amount, rt_output = out, rt_price_impact = impact, rt_gas_cost = gas,
              rt_execution_price = price, rt_confidence = calculate_confidence (env_floats W) out \<rparr> }) Ok
      | Err e \<Rightarrow> Err e | Panic \<Rightarrow> Panic | Hang \<Rightarrow> Hang)"

text \<open>Paths that fail are skipped; each evaluation draws an identifier.\<close>

fun evaluate_paths ::
  "'f router_env \<Rightarrow> 'f smart_router \<Rightarrow> nat \<Rightarrow> h256 list list \<Rightarrow> u256 \<Rightarrow> (routing_error, 'f route list) outcome" where
  "evaluate_paths W s i [] amount = Ok []"
| "evaluate_paths W s i (p # ps) amount =
     (case evaluate_path W s (env_id W i) p amount of
        Ok r \<Rightarrow> (case evaluate_paths W s (Suc i) ps amount of Ok rs \<Rightarrow> Ok (r # rs) | x \<Rightarrow> x)
      | Err e \<Rightarrow> evaluate_paths W s (Suc i) ps amount
      | Panic \<Rightarrow> Panic | Hang \<Rightarrow> Hang)"

section \<open>Choosing a route\<close>

definition calculate_route_score :: "'f floats \<Rightarrow> u256 \<Rightarrow> 'f route \<Rightarrow> 'f option" where
  "calculate_route_score F gas_price r = do {
     out \<leftarrow> as_u128 (rt_output r);
     g \<leftarrow> umul (rt_gas_cost r) gas_price;
     gas \<leftarrow> as_u128 g;
     let v = fl_of F out
     in Some (fl_max F (fl_sub F (fl_sub F v (fl_of F gas)) (fl_mul F (rt_price_impact r) v)) (fl_lit F 0 1)) }"

fun best_by_score :: "'f floats \<Rightarrow> u256 \<Rightarrow> 'f route \<Rightarrow> 'f \<Rightarrow> 'f route list \<Rightarrow> 'f route option" where
  "best_by_score F gas_price best score [] = Some best"
| "best_by_score F gas_price best score (r # rs) = do {
     v \<leftarrow> calculate_route_score F gas_price r;
     if fl_less F score v then best_by_score F gas_price r v rs else best_by_score F gas_price best score rs }"

definition optimize_for_gas :: "'f router_env \<Rightarrow> address option \<Rightarrow> 'f smart_router \<Rightarrow> 'f route list \<Rightarrow> 'f route option" where
  "optimize_for_gas W sender s rs = do {
     gas_price \<leftarrow> get_current_gas_price (rt_gas s);
     score \<leftarrow> calculate_route_score (env_floats W) gas_price (hd rs);
     best \<leftarrow> best_by_score (env_floats W) gas_price (hd rs) score (tl rs);
     case sender of None \<Rightarrow> Some best | Some a \<Rightarrow> optimize_for_sender (env_floats W) (rt_gas s) best }"

text \<open>Of several routes of the same output the last one.\<close>

definition select_best_by_output :: "'f route list \<Rightarrow> 'f route" where
  "select_best_by_output rs = foldl (\<lambda>b r. if rt_output b \<le> rt_output r then r else b) (hd rs) (tl rs)"

section \<open>The cache\<close>

definition compute_cache_key :: "'f router_env \<Rightarrow> h256 \<Rightarrow> h256 \<Rightarrow> u256 \<Rightarrow> h256" where
  "compute_cache_key W x y amount = env_keccak W (be_bytes 32 x @ be_bytes 32 y @ le_bytes 32 amount)"

definition get_cached_route :: "h256 \<Rightarrow> 'f smart_router \<Rightarrow> 'f cached_route option \<times> 'f smart_router" where
  "get_cached_route key s =
     (case map_of (route_cache s) key of
        None \<Rightarrow> (None, s)
      | Some c \<Rightarrow> let c' = c\<lparr>cr_hit_count := cr_hit_count c + 1\<rparr>
                  in (Some c', s\<lparr>route_cache := AList.update key c' (route_cache s)\<rparr>))"

definition oldest_key :: "(h256 \<times> 'f cached_route) list \<Rightarrow> h256" where
  "oldest_key m = fst (foldl (\<lambda>b x. if cr_timestamp (snd x) < cr_timestamp (snd b) then x else b) (hd m) (tl m))"

definition cache_route :: "u64 \<Rightarrow> h256 \<Rightarrow> 'f route \<Rightarrow> 'f smart_router \<Rightarrow> 'f smart_router" where
  "cache_route now key r s =
     (let m = (if 1000 < length (route_cache s) then AList.delete (oldest_key (route_cache s)) (route_cache s) else route_cache s)
      in s\<lparr>route_cache := AList.update key \<lparr> cr_route = r, cr_timestamp = now, cr_hit_count = 0 \<rparr> m\<rparr>)"

definition is_route_valid :: "'f route \<Rightarrow> 'f smart_router \<Rightarrow> bool" where
  "is_route_valid r s \<longleftrightarrow> list_all (\<lambda>h. case get_pool_info (hop_pool h) s of Ok p \<Rightarrow> \<not> pi_liquidity p < hop_amount_in h | _ \<Rightarrow> False) (rt_path r)"

section \<open>Finding routes\<close>

definition find_best_route ::
  "'f router_env \<Rightarrow> u64 \<Rightarrow> h256 \<Rightarrow> h256 \<Rightarrow> u256 \<Rightarrow> address option \<Rightarrow> 'f smart_router \<Rightarrow>
     (routing_error, 'f route) outcome \<times> 'f smart_router" where
  "find_best_route W now x y amount sender s =
     (let key = compute_cache_key W x y amount
      in case get_cached_route key s of (cached, s1) \<Rightarrow>
        case (case cached of None \<Rightarrow> None | Some c \<Rightarrow> if is_route_valid (cr_route c) s1 then Some (cr_route c) else None) of
          Some r \<Rightarrow> (Ok r, s1)
        | None \<Rightarrow>
            (case router_paths W x y s1 of
               Ok ps \<Rightarrow>
                 (case evaluate_paths W s1 1 ps amount of
                    Ok rs \<Rightarrow>
                      if rs = [] then (Err NoRouteFound, s1)
                      else (case (if rc_enable_gas_optimization (rt_config s1) then optimize_for_gas W sender s1 rs
                                  else Some (select_best_by_output rs)) of
                              None \<Rightarrow> (Panic, s1)
                            | Some best \<Rightarrow> (Ok best, cache_route now key best s1))
                  | Err e \<Rightarrow> (Err e, s1) | Panic \<Rightarrow> (Panic, s1) | Hang \<Rightarrow> (Hang, s1))
             | Err e \<Rightarrow> (Err e, s1) | Panic \<Rightarrow> (Panic, s1) | Hang \<Rightarrow> (Hang, s1)))"

text \<open>The rest of the division goes to the first path.\<close>

definition split_amounts :: "u256 \<Rightarrow> nat \<Rightarrow> u256 list" where
  "split_amounts amount n =
     (let base = amount div word_of_nat n; remaining = amount - base * word_of_nat n
      in map (\<lambda>i. if i = 0 then base + remaining else base) [0..<n])"

fun collect_split ::
  "'f router_env \<Rightarrow> 'f smart_router \<Rightarrow> nat \<Rightarrow> u256 \<Rightarrow> (h256 list \<times> u256) list \<Rightarrow> 'f split_route \<Rightarrow>
     (routing_error, 'f split_route) outcome" where
  "collect_split W s i amount [] b = Ok b"
| "collect_split W s i amount ((p, part) # ps) b =
     (case evaluate_path W s (env_id W i) p part of
        Ok r \<Rightarrow>
          unless_panic (do {
            x \<leftarrow> as_u128 part;
            y \<leftarrow> as_u128 amount;
            out \<leftarrow> uadd (sr_total_output b) (rt_output r);
            gas \<leftarrow> uadd (sr_total_gas b) (rt_gas_cost r);
            let F = env_floats W
            in Some (b\<lparr>sr_routes := sr_routes b @ [r], sr_percentages := sr_percentages b @ [fl_div F (fl_of F x) (fl_of F y)],
                 sr_total_output := out, sr_total_gas := gas\<rparr>) })
            (collect_split W s (Suc i) amount ps)
      | Err e \<Rightarrow> collect_split W s (Suc i) amount ps b
      | Panic \<Rightarrow> Panic | Hang \<Rightarrow> Hang)"

definition calculate_optimal_split ::
  "'f router_env \<Rightarrow> 'f smart_router \<Rightarrow> h256 list list \<Rightarrow> u256 \<Rightarrow> nat \<Rightarrow> (routing_error, 'f split_route) outcome" where
  "calculate_optimal_split W s paths amount max_splits =
     (let n = min (length paths) max_splits
      in if n = 0 then Err NoRouteFound
         else case collect_split W s 1 amount (zip paths (split_amounts amount n))
                \<lparr> sr_routes = [], sr_percentages = [], sr_total_output = 0, sr_average_price = 0, sr_total_gas = 0 \<rparr> of
                Ok b \<Rightarrow>
                  if sr_routes b = [] then Err NoRouteFound
                  else unless_panic (do { t \<leftarrow> umul (sr_total_output b) (10 ^ 18); udiv t amount }) (\<lambda>price.
                    Ok (b\<lparr>sr_average_price := price\<rparr>))
              | r \<Rightarrow> r)"

definition find_split_route ::
  "'f router_env \<Rightarrow> u64 \<Rightarrow> h256 \<Rightarrow> h256 \<Rightarrow> u256 \<Rightarrow> 'f smart_router \<Rightarrow> (routing_error, 'f split_route) outcome \<times> 'f smart_router" where
  "find_split_route W now x y amount s =
     (if \<not> rc_enable_multi_path (rt_config s) then
        and_then (find_best_route W now x y amount None s) (\<lambda>r s.
          (Ok \<lparr> sr_routes = [r], sr_percentages = [fl_lit (env_floats W) 1 1], sr_total_output = rt_output r,
                sr_average_price = rt_execution_price r, sr_total_gas = rt_gas_cost r \<rparr>, s))
      else
        (case router_paths W x y s of
           Ok ps \<Rightarrow> calculate_optimal_split W s ps amount (rc_max_splits (rt_config s))
         | Err e \<Rightarrow> Err e | Panic \<Rightarrow> Panic | Hang \<Rightarrow> Hang, s))"

section \<open>Runs\<close>

datatype router_call =
    Register_pool pool_info
  | Find_best u64 h256 h256 u256 "address option"
  | Find_split u64 h256 h256 u256

fun router_step :: "'f router_env \<Rightarrow> router_call \<Rightarrow> 'f smart_router \<Rightarrow> 'f smart_router" where
  "router_step W (Register_pool p) s = register_pool p s"
| "router_step W (Find_best now x y amount sender) s = snd (find_best_route W now x y amount sender s)"
| "router_step W (Find_split now x y amount) s = snd (find_split_route W now x y amount s)"

section \<open>What the router finds\<close>


lemma router_paths_routes:
  assumes "router_paths W x y s = Ok ps" "p \<in> set ps"
  obtains pools where "is_route pools x y (rc_max_hops (rt_config s)) p"
    "\<And>q. q \<in> set pools \<Longrightarrow> q \<in> snd ` set (pool_registry s) \<and> is_relevant x y q"
proof -
  obtain pools where pools: "get_relevant_pools x y s = Ok pools"
    and found: "find_all_paths (env_keccak W) (env_tie W) x y pools (rc_max_hops (rt_config s)) = Ok ps"
    using assms(1) by (auto simp: router_paths_def split: outcome.splits)
  have "is_route pools x y (rc_max_hops (rt_config s)) p"
    by (rule find_all_paths_route [OF found assms(2)])
  moreover have "pools = sort_key (\<lambda>p. - int (unat (pi_liquidity p))) (filter (is_relevant x y) (map snd (pool_registry s)))"
    using pools by (simp add: get_relevant_pools_def Let_def split: if_splits)
  moreover from this have "set pools \<subseteq> {q. q \<in> snd ` set (pool_registry s) \<and> is_relevant x y q}" by auto
  ultimately show thesis by (intro that) blast+
qed

lemma inner_tokens_are_unrelated:
  assumes "is_route pools x y hops p" "\<And>q. q \<in> set pools \<Longrightarrow> is_relevant x y q"
  shows "length p \<le> 3"
proof (rule ccontr)
  assume "\<not> length p \<le> 3"
  then obtain a b c q where p: "p = a # b # c # q" "q \<noteq> []" by (auto simp: numeral_eq_Suc not_le Suc_le_length_iff dest!: Suc_leI)
  have r: "a = x" "last q = y" "distinct p" "joined pools b c" using assms(1) p by (auto simp: is_route_def)
  have "last q \<in> set q" using p(2) by simp
  with r p have "b \<notin> {x, y}" "c \<notin> {x, y}" by auto
  moreover from r(4) obtain u where "u \<in> set pools" "{b, c} = {pi_token_a u, pi_token_b u}" by (auto simp: joined_def)
  ultimately show False using assms(2) [of u] by (auto simp: is_relevant_def doubleton_eq_iff)
qed

text \<open>A route of the router has at most two hops, whatever bound it is configured with: the pools it hands to the search
  are those of the two tokens, and a hop in between needs another.\<close>

theorem routes_have_at_most_two_hops:
  "case router_paths W x y s of Ok ps \<Rightarrow> \<forall>p \<in> set ps. length p \<le> 3 | _ \<Rightarrow> True"
  using router_paths_routes [of W x y s] inner_tokens_are_unrelated by (auto split: outcome.split) metis

lemma first_token_is_of_a_pool:
  assumes "router_paths W x y s = Ok ps" "p \<in> set ps" "x \<noteq> y"
  obtains b q u where "p = x # b # q" "u \<in> snd ` set (pool_registry s)" "x = pi_token_a u \<or> x = pi_token_b u"
proof -
  from router_paths_routes [OF assms(1,2)] obtain pools where route: "is_route pools x y (rc_max_hops (rt_config s)) p"
    and pools: "\<And>q. q \<in> set pools \<Longrightarrow> q \<in> snd ` set (pool_registry s) \<and> is_relevant x y q" by blast
  from route assms(3) obtain b q where p: "p = x # b # q" by (cases p; cases "tl p") (auto simp: is_route_def)
  with route have "joined pools x b" by (auto simp: is_route_def)
  with pools that [OF p] show thesis by (auto simp: joined_def)
qed

lemma evaluate_unknown: "get_pool_info x s = Err PoolNotFound \<Longrightarrow> evaluate_path W s i (x # b # q) amount = Err PoolNotFound"
  by (simp add: evaluate_path_def)

lemma evaluate_paths_unknown:
  "\<forall>p \<in> set ps. \<forall>i. evaluate_path W s i p amount = Err PoolNotFound \<Longrightarrow> evaluate_paths W s i ps amount = Ok []"
  by (induction ps arbitrary: i) auto

text \<open>The registry holds pools under their addresses, no token of a pool is the address of one, and the keys
  of the cached routes are in \<open>K\<close>.\<close>

definition no_token_is_a_pool :: "pool_info list \<Rightarrow> bool" where
  "no_token_is_a_pool ps \<longleftrightarrow> (\<forall>p \<in> set ps. \<forall>q \<in> set ps. pi_token_a p \<noteq> pi_address q \<and> pi_token_b p \<noteq> pi_address q)"

definition router_inv :: "pool_info list \<Rightarrow> h256 set \<Rightarrow> 'f smart_router \<Rightarrow> bool" where
  "router_inv ps K s \<longleftrightarrow> fst ` set (route_cache s) \<subseteq> K \<and> (\<forall>(a, p) \<in> set (pool_registry s). p \<in> set ps \<and> a = pi_address p)"

lemma router_inv_unknown:
  assumes "router_inv ps K s" "no_token_is_a_pool ps" "u \<in> snd ` set (pool_registry s)" "x = pi_token_a u \<or> x = pi_token_b u"
  shows "get_pool_info x s = Err PoolNotFound"
proof (cases "map_of (pool_registry s) x")
  case (Some p)
  then have "p \<in> set ps" "x = pi_address p" using assms(1) by (auto simp: router_inv_def dest: map_of_SomeD)
  moreover have "u \<in> set ps" using assms(1,3) by (auto simp: router_inv_def)
  ultimately have False using assms(2,4) unfolding no_token_is_a_pool_def by metis
  then show ?thesis ..
qed (simp add: get_pool_info_def)

lemma router_paths_cases:
  "router_paths W x y s = Err NoPoolsAvailable \<or> router_paths W x y s = Err NoRouteFound \<or> (\<exists>ps. router_paths W x y s = Ok ps)"
proof (cases "get_relevant_pools x y s")
  case (Ok pools)
  then show ?thesis
    by (cases rule: find_all_paths_cases [where keccak = "env_keccak W" and tie = "env_tie W" and s = x and e = y
        and pools = pools and hops = "rc_max_hops (rt_config s)"]) (simp_all add: router_paths_def)
qed (auto simp: router_paths_def get_relevant_pools_def Let_def split: if_splits)

lemma evaluate_paths_fails:
  assumes "router_inv ps K s" "no_token_is_a_pool ps" "x \<noteq> y" "router_paths W x y s = Ok qs"
  shows "evaluate_paths W s i qs amount = Ok []"
proof (rule evaluate_paths_unknown, intro ballI allI)
  fix p i
  assume "p \<in> set qs"
  with assms(3,4) obtain b q u where u: "p = x # b # q" "u \<in> snd ` set (pool_registry s)" "x = pi_token_a u \<or> x = pi_token_b u"
    by (elim first_token_is_of_a_pool)
  show "evaluate_path W s i p amount = Err PoolNotFound"
    unfolding u(1) by (rule evaluate_unknown) (rule router_inv_unknown [OF assms(1,2) u(2,3)])
qed

lemma find_best_route_fails:
  assumes "router_inv ps K s" "no_token_is_a_pool ps" "x \<noteq> y" "compute_cache_key W x y amount \<notin> K"
  shows "find_best_route W now x y amount sender s = (Err NoRouteFound, s) \<or>
    find_best_route W now x y amount sender s = (Err NoPoolsAvailable, s)"
proof -
  have "map_of (route_cache s) (compute_cache_key W x y amount) = None"
    using assms(1,4) by (auto simp: router_inv_def map_of_eq_None_iff)
  then have cache: "get_cached_route (compute_cache_key W x y amount) s = (None, s)" by (simp add: get_cached_route_def)
  consider "router_paths W x y s = Err NoPoolsAvailable" | "router_paths W x y s = Err NoRouteFound"
    | qs where "router_paths W x y s = Ok qs" using router_paths_cases [of W x y s] by blast
  then show ?thesis
  proof cases
    case 3
    with evaluate_paths_fails [OF assms(1-3) 3] cache show ?thesis by (simp add: find_best_route_def Let_def)
  qed (simp_all add: find_best_route_def Let_def cache)
qed

lemma update_keys: "fst ` set (AList.update key c m) \<subseteq> insert key (fst ` set m)"
  by (induction m) auto

lemma cached_keys:
  assumes "get_cached_route key s = (c, s1)" "router_inv ps K s"
  shows "router_inv ps K s1"
proof (cases "map_of (route_cache s) key")
  case (Some e)
  then have "key \<in> fst ` set (route_cache s)" by (force dest: map_of_SomeD)
  with assms(2) have "fst ` set (AList.update key e' (route_cache s)) \<subseteq> K" for e'
    using update_keys [of key e' "route_cache s"] by (auto simp: router_inv_def)
  moreover have "s1 = s\<lparr>route_cache := AList.update key (e\<lparr>cr_hit_count := cr_hit_count e + 1\<rparr>) (route_cache s)\<rparr>"
    using assms(1) Some by (simp add: get_cached_route_def Let_def)
  ultimately show ?thesis using assms(2) by (simp add: router_inv_def)
qed (use assms in \<open>simp add: get_cached_route_def\<close>)

lemma cache_route_keys:
  assumes "router_inv ps K s" "key \<in> K"
  shows "router_inv ps K (cache_route now key r s)"
proof -
  let ?m = "if 1000 < length (route_cache s) then AList.delete (oldest_key (route_cache s)) (route_cache s) else route_cache s"
  have "fst ` set ?m \<subseteq> K" using assms(1) by (auto simp: router_inv_def AList.delete_eq)
  with assms(2) have "fst ` set (AList.update key \<lparr> cr_route = r, cr_timestamp = now, cr_hit_count = 0 \<rparr> ?m) \<subseteq> K"
    using update_keys [of key "\<lparr> cr_route = r, cr_timestamp = now, cr_hit_count = 0 \<rparr>" ?m] by blast
  with assms(1) show ?thesis by (simp add: cache_route_def router_inv_def Let_def)
qed

text \<open>Only a request for a token in exchange for itself can put a route into the cache.\<close>

lemma router_inv_request:
  assumes "router_inv ps K s" "no_token_is_a_pool ps" "x = y \<longrightarrow> compute_cache_key W x y amount \<in> K"
  shows "router_inv ps K (snd (find_best_route W now x y amount sender s))"
proof -
  let ?key = "compute_cache_key W x y amount"
  obtain c s1 where c: "get_cached_route ?key s = (c, s1)" by fastforce
  then have s1: "router_inv ps K s1" by (rule cached_keys [OF _ assms(1)])
  have empty: "rs = []" if "x \<noteq> y" "router_paths W x y s1 = Ok qs" "evaluate_paths W s1 1 qs amount = Ok rs" for qs rs
    using evaluate_paths_fails [OF s1 assms(2) that(1,2), of 1 amount] that(3) by simp
  have "router_inv ps K (cache_route now ?key best s1)" if "x = y" for best
    using cache_route_keys [OF s1] assms(3) that by simp
  with empty s1 c show ?thesis
    by (cases "x = y") (auto simp: find_best_route_def Let_def split: option.split outcome.split)
qed

lemma router_inv_register: "router_inv ps K s \<Longrightarrow> p \<in> set ps \<Longrightarrow> router_inv ps K (register_pool p s)"
  using set_update_sub [of "pi_address p" p "pool_registry s"] by (fastforce simp: router_inv_def register_pool_def)

fun call_ok :: "pool_info list \<Rightarrow> router_call \<Rightarrow> bool" where
  "call_ok ps (Register_pool p) \<longleftrightarrow> p \<in> set ps"
| "call_ok ps (Find_best now x y amount sender) \<longleftrightarrow> x \<noteq> y"
| "call_ok ps (Find_split now x y amount) \<longleftrightarrow> x \<noteq> y"

lemma router_inv_step:
  assumes "router_inv ps K s" "no_token_is_a_pool ps" "call_ok ps c"
  shows "router_inv ps K (router_step W c s)"
proof (cases c)
  case (Register_pool p)
  with assms router_inv_register show ?thesis by simp
next
  case (Find_best now x y amount sender)
  with assms router_inv_request [OF assms(1,2), of x y W amount now sender] show ?thesis by simp
next
  case (Find_split now x y amount)
  let ?b = "find_best_route W now x y amount None s"
  have "router_inv ps K (snd ?b)" using assms Find_split by (intro router_inv_request) simp_all
  moreover have "snd (and_then ?b (\<lambda>r s. (Ok (f r), s))) = snd ?b" for f :: "'a route \<Rightarrow> 'a split_route"
    by (cases ?b; cases "fst ?b") auto
  ultimately show ?thesis using assms(1) Find_split by (simp add: find_split_route_def)
qed

lemma router_inv_run:
  "router_inv ps K s \<Longrightarrow> no_token_is_a_pool ps \<Longrightarrow> list_all (call_ok ps) cs \<Longrightarrow> router_inv ps K (run (router_step W) cs s)"
  by (induction cs arbitrary: s) (auto intro: router_inv_step)

lemma router_inv_new: "router_inv ps K (smart_router_new config)"
  by (simp add: router_inv_def smart_router_new_def)

text \<open>The router finds no route at all: the tokens of a path are looked up as addresses of pools, so unless some token is
  one, whatever pools were registered and routes asked for before, the answer is an error.\<close>

theorem router_finds_no_route:
  assumes "no_token_is_a_pool ps" and "list_all (call_ok ps) cs" and "x \<noteq> y"
  shows "fst (find_best_route W now x y amount sender (run (router_step W) cs (smart_router_new config))) \<in>
    {Err NoRouteFound, Err NoPoolsAvailable}"
  using find_best_route_fails [OF router_inv_run [where K = "{}", OF router_inv_new assms(1,2)] assms(1,3)] by (metis empty_iff fst_conv insertCI)

definition unit_floats :: "unit floats" where
  "unit_floats = \<lparr> fl_lit = \<lambda>_ _. (), fl_of = \<lambda>_. (), fl_add = \<lambda>_ _. (), fl_sub = \<lambda>_ _. (), fl_mul = \<lambda>_ _. (),
     fl_div = \<lambda>_ _. (), fl_min = \<lambda>_ _. (), fl_max = \<lambda>_ _. (), fl_abs = \<lambda>_. (), fl_less = \<lambda>_ _. False, fl_to_u64 = \<lambda>_. 0 \<rparr>"

definition unit_env :: "unit router_env" where
  "unit_env = \<lparr> env_keccak = \<lambda>_. 0, env_tie = \<lambda>_. 0, env_floats = unit_floats, env_id = \<lambda>_. 0 \<rparr>"

definition two_pools :: "pool_info list" where
  "two_pools = [(sample_pool 2 3 10)\<lparr>pi_address := 100\<rparr>, (sample_pool 3 4 10)\<lparr>pi_address := 101\<rparr>]"

theorem router_finds_no_route_witness:
  "is_route two_pools 2 4 4 [2, 3, 4] \<and>
   fst (find_best_route unit_env 5 2 4 1000 None
     (run (router_step unit_env) (map Register_pool two_pools) (smart_router_new (routing_config_default unit_floats)))) \<in>
     {Err NoRouteFound, Err NoPoolsAvailable}"
proof
  show "is_route two_pools 2 4 4 [2, 3, 4]" by (simp add: two_pools_def is_route_def joined_def sample_pool_def)
  show "fst (find_best_route unit_env 5 2 4 1000 None
     (run (router_step unit_env) (map Register_pool two_pools) (smart_router_new (routing_config_default unit_floats)))) \<in>
     {Err NoRouteFound, Err NoPoolsAvailable}"
    by (rule router_finds_no_route [where ps = two_pools])
      (simp_all add: two_pools_def no_token_is_a_pool_def sample_pool_def)
qed

text \<open>The parts of a split add up to the amount.\<close>

lemma split_amounts_add_up:
  assumes "0 < n" "n < 2 ^ 64"
  shows "sum_list (map unat (split_amounts amount n)) = unat amount"
proof -
  obtain m where n: "n = Suc m" using assms(1) by (cases n) simp_all
  have un: "unat (word_of_nat n :: u256) = n" using assms(2) by (intro unat_word_of_nat_256) simp
  define b where "b = amount div word_of_nat n"
  have b: "unat b = unat amount div n" by (simp add: b_def unat_div un)
  have le: "unat b * n \<le> unat amount" by (simp add: b)
  then have bn: "unat (b * word_of_nat n) = unat b * n" using unat_less_256 [of amount] by (simp add: unat_word_ariths un)
  then have r: "unat (amount - b * word_of_nat n) = unat amount - unat b * n" using le by (simp add: unat_sub word_le_nat_alt)
  have "unat b + (unat amount - unat b * n) < 2 ^ 256" using le n unat_less_256 [of amount] by (cases m) auto
  then have s: "unat (b + (amount - b * word_of_nat n)) = unat b + (unat amount - unat b * n)"
    by (simp add: unat_word_ariths r)
  have upt: "[0..<n] = 0 # [1..<n]" using assms(1) by (simp add: upt_conv_Cons)
  have "split_amounts amount n = (b + (amount - b * word_of_nat n)) # map (\<lambda>i. b) [1..<n]"
    unfolding split_amounts_def Let_def upt b_def [symmetric] by simp
  then have "sum_list (map unat (split_amounts amount n)) = unat (b + (amount - b * word_of_nat n)) + (n - 1) * unat b"
    by (simp add: comp_def sum_list_triv del: of_nat_Suc)
  also have "\<dots> = unat amount" using le n unfolding s by (simp add: algebra_simps)
  finally show ?thesis .
qed

end
