(* ===== verification/DexRouter.thy ===== *)
theory DexRouter
  imports DexEngine SmartRouter
begin

text \<open>
  The router of the exchange, \<^verbatim>\<open>src/dex/router.rs\<close>: two sample pools are registered with the smart router before each
  search, and the route found becomes the path of a swap. With it the swap of the exchange is closed: what the exchange
  takes for an argument is what this router answers.
\<close>

record 'f trade_path =
  tp_hops :: "trade_hop list"
  tp_expected_output :: u256
  tp_price_impact :: 'f

definition router_new :: "'f floats \<Rightarrow> 'f smart_router" where
  "router_new F = smart_router_new (routing_config_default F)"

definition router_pools :: "pool_info list" where
  "router_pools =
     [\<lparr> pi_address = 1, pi_protocol = Amm_V2, pi_token_a = 100, pi_token_b = 200, pi_fee_tier = 3000, pi_liquidity = 1000000,
        pi_volume = 100000, pi_tvl = 2000000 \<rparr>,
      \<lparr> pi_address = 2, pi_protocol = Amm_V3, pi_token_a = 200, pi_token_b = 300, pi_fee_tier = 500, pi_liquidity = 5000000,
        pi_volume = 500000, pi_tvl = 10000000 \<rparr>]"

definition register_sample_pools :: "'f smart_router \<Rightarrow> 'f smart_router" where
  "register_sample_pools s = fold register_pool router_pools s"

definition find_best_path ::
  "'f router_env \<Rightarrow> u64 \<Rightarrow> h256 \<Rightarrow> h256 \<Rightarrow> u256 \<Rightarrow> 'f smart_router \<Rightarrow> (dex_error, 'f trade_path) outcome \<times> 'f smart_router" where
  "find_best_path W now x y amt s =
     (case find_best_route W now x y amt None (register_sample_pools s) of
        (Ok r, s) \<Rightarrow> (Ok \<lparr> tp_hops = map (\<lambda>h. Hop_AmmPool (hop_pool h)) (rt_path r), tp_expected_output = rt_output r,
                           tp_price_impact = rt_price_impact r \<rparr>, s)
      | (Err _, s) \<Rightarrow> (Err PathNotFound, s)
      | (Panic, s) \<Rightarrow> (Panic, s)
      | (Hang, s) \<Rightarrow> (Hang, s))"

text \<open>The exchange asks for the hops only; requests come one after the other.\<close>

fun route_requests :: "'f router_env \<Rightarrow> (u64 \<times> h256 \<times> h256 \<times> u256) list \<Rightarrow> 'f smart_router \<Rightarrow> 'f smart_router" where
  "route_requests W [] s = s"
| "route_requests W ((now, x, y, amt) # reqs) s = route_requests W reqs (snd (find_best_path W now x y amt s))"

definition hops_for :: "'f router_env \<Rightarrow> u64 \<Rightarrow> 'f smart_router \<Rightarrow> h256 \<Rightarrow> h256 \<Rightarrow> u256 \<Rightarrow> (dex_error, trade_hop list) outcome" where
  "hops_for W now s x y amt =
     (case fst (find_best_path W now x y amt s) of Ok p \<Rightarrow> Ok (tp_hops p) | Err e \<Rightarrow> Err e | Panic \<Rightarrow> Panic | Hang \<Rightarrow> Hang)"

section \<open>Swaps through the router\<close>

lemma router_pools_apart: "no_token_is_a_pool router_pools"
  by (simp add: no_token_is_a_pool_def router_pools_def)

lemma register_sample_pools_inv: "router_inv router_pools K s \<Longrightarrow> router_inv router_pools K (register_sample_pools s)"
proof -
  have "set ps \<subseteq> set router_pools \<Longrightarrow> router_inv router_pools K s \<Longrightarrow> router_inv router_pools K (fold register_pool ps s)" for ps s
    by (induction ps arbitrary: s) (auto intro: router_inv_register)
  from this [OF subset_refl] show "router_inv router_pools K s \<Longrightarrow> ?thesis" unfolding register_sample_pools_def .
qed

lemma find_best_path_fails:
  assumes "router_inv router_pools K s" "x \<noteq> y" "compute_cache_key W x y amt \<notin> K"
  shows "find_best_path W now x y amt s = (Err PathNotFound, register_sample_pools s)"
  using find_best_route_fails [OF register_sample_pools_inv [OF assms(1)] router_pools_apart assms(2,3), of now None]
  by (auto simp: find_best_path_def)

lemma find_best_path_inv:
  assumes "router_inv router_pools K s" "x = y \<longrightarrow> compute_cache_key W x y amt \<in> K"
  shows "router_inv router_pools K (snd (find_best_path W now x y amt s))"
proof -
  let ?b = "find_best_route W now x y amt None (register_sample_pools s)"
  have "router_inv router_pools K (snd ?b)"
    by (rule router_inv_request [OF register_sample_pools_inv [OF assms(1)] router_pools_apart assms(2)])
  then show ?thesis by (cases ?b; cases "fst ?b") (simp_all add: find_best_path_def)
qed

lemma route_requests_inv:
  "router_inv router_pools K s \<Longrightarrow>
   \<forall>(now, x, y, amt) \<in> set reqs. x = y \<longrightarrow> compute_cache_key W x y amt \<in> K \<Longrightarrow>
     router_inv router_pools K (route_requests W reqs s)"
  by (induction W reqs s rule: route_requests.induct) (auto simp: find_best_path_inv)

text \<open>
  C17: the exchange never swaps one token for another: whatever was asked of its router before, the path of a swap between
  two different tokens is not found, and the swap fails without touching the exchange. The earlier requests are any at
  all, for different tokens or for a token in exchange for itself; a request of the latter kind is answered with a route
  without hops, which is cached, so the hash must not give the swap at hand the cache key of one of those.
\<close>

theorem exchange_swaps_always_fail:
  assumes "\<forall>(t, a, b, m) \<in> set reqs. a = b \<longrightarrow> compute_cache_key W a b m \<noteq> compute_cache_key W x y amt" and "x \<noteq> y"
  shows "engine_swap (hops_for W now (route_requests W reqs (router_new F))) now x y amt least recipient e = (Err PathNotFound, e)"
proof -
  let ?K = "- {compute_cache_key W x y amt}"
  have "router_inv router_pools ?K (route_requests W reqs (router_new F))"
    unfolding router_new_def by (rule route_requests_inv [OF router_inv_new]) (use assms(1) in auto)
  from find_best_path_fails [OF this assms(2)] show ?thesis by (simp add: engine_swap_def hops_for_def)
qed

text \<open>A route for token 200 in exchange for itself is cached when the exchange asks for a path from 100 to 300.\<close>

definition byte_env :: "unit router_env" where
  "byte_env = unit_env\<lparr>env_keccak := \<lambda>bs. ucast (bs ! 31)\<rparr>"

theorem exchange_swaps_always_fail_witness:
  "map fst (route_cache (route_requests byte_env [(1, 200, 200, 50)] (router_new unit_floats))) = [200] \<and>
   engine_swap (hops_for byte_env 2 (route_requests byte_env [(1, 200, 200, 50), (1, 100, 200, 50)] (router_new unit_floats)))
     2 100 300 1000 0 7 engine_new = (Err PathNotFound, engine_new)"
proof
  have key: "compute_cache_key byte_env 100 300 1000 = 100" "compute_cache_key byte_env 200 200 50 = 200"
    by (simp_all add: compute_cache_key_def byte_env_def unit_env_def nth_append be_bytes_def)
  show "engine_swap (hops_for byte_env 2 (route_requests byte_env [(1, 200, 200, 50), (1, 100, 200, 50)] (router_new unit_floats)))
     2 100 300 1000 0 7 engine_new = (Err PathNotFound, engine_new)"
    by (rule exchange_swaps_always_fail) (simp_all add: key)
  show "map fst (route_cache (route_requests byte_env [(1, 200, 200, 50)] (router_new unit_floats))) = [200]"
    using key(2)
    by (simp add: find_best_path_def find_best_route_def router_new_def register_sample_pools_def router_pools_def smart_router_new_def
        register_pool_def get_cached_route_def router_paths_def get_relevant_pools_def is_relevant_def search_defs evaluate_path_def
        optimize_for_gas_def get_current_gas_price_def gas_tracker_new_def cache_route_def routing_config_default_def Let_def
        calculate_price_impact_def calculate_route_score_def as_u128_def umul_def udiv_def uadd_def)
qed

end
