(* ===== verification/DefiErrors.thy ===== *)
theory DefiErrors
  imports Prelude
begin

text \<open>
  What the components of \<^verbatim>\<open>src/defi\<close> share: the error type and the configuration of
  \<^verbatim>\<open>src/defi/mod.rs\<close>.
\<close>

datatype defi_error =
    Insufficient_Balance | Insufficient_Collateral | Excessive_Leverage | Position_Not_Found
  | Market_Closed | Invalid_Expiry | Flash_Loan_Not_Repaid | Position_Healthy | Oracle_Error | Not_Authorized

record defi_config =
  flash_loan_fee_bps :: u32
  liquidation_penalty_bps :: u32
  min_collateral_ratio :: u32
  max_leverage :: u32
  funding_interval :: u64
  oracle_price_tolerance :: u32

definition defi_config_default :: defi_config where
  "defi_config_default = \<lparr> flash_loan_fee_bps = 9, liquidation_penalty_bps = 500,
     min_collateral_ratio = 15000, max_leverage = 100, funding_interval = 28800,
     oracle_price_tolerance = 100 \<rparr>"

text \<open>A share of an amount in basis points, \<^verbatim>\<open>amount * U256::from(bps) / U256::from(10000)\<close>.\<close>

definition bps_of :: "u32 \<Rightarrow> u256 \<Rightarrow> u256 option" where
  "bps_of bps amt = do { p \<leftarrow> umul amt (ucast bps); udiv p 10000 }"

lemma unat_ucast_u32 [simp]: "unat (ucast (x :: u32) :: u256) = unat x"
  by (simp add: unsigned_ucast_eq take_bit_nat_eq_self order_less_trans [OF unsigned_less])

lemma bps_of_Some: "bps_of bps amt = Some f \<Longrightarrow> unat f = unat amt * unat bps div 10000"
  by (auto simp: bps_of_def bind_eq_Some_conv checked_ops)

lemma bps_of_fits:
  assumes "unat amt * unat bps < 2 ^ 256"
  obtains f where "bps_of bps amt = Some f" "unat f = unat amt * unat bps div 10000"
proof -
  obtain p where "umul amt (ucast bps) = Some p"
    using assms by (cases "umul amt (ucast bps)") (auto simp: umul_None)
  moreover obtain f where "udiv p 10000 = Some f"
    by (cases "udiv p 10000") (auto simp: udiv_None)
  ultimately have "bps_of bps amt = Some f" by (simp add: bps_of_def)
  with bps_of_Some [OF this] that show ?thesis by blast
qed

end
