(* ===== verification/Perpetual.thy ===== *)
theory Perpetual
  imports DefiErrors "HOL-Library.Signed_Division"
begin

text \<open>
  The perpetual futures engine of \<^verbatim>\<open>src/defi/perpetual.rs\<close> and the part of \<^verbatim>\<open>DeFiEngine\<close>
  (\<^verbatim>\<open>src/defi/mod.rs\<close>) that guards it: markets, positions, funding, liquidation, collateral.

  Profits are \<^verbatim>\<open>i128\<close>: a 128-bit word read with \<open>sint\<close>, whose arithmetic wraps and whose division
  rounds towards zero. The clock (\<open>clock n\<close> is the \<open>n\<close>-th reading of a call) and the random
  identifiers are arguments.
\<close>

type_synonym i128 = "128 word"
type_synonym i64 = "64 word"

section \<open>State\<close>

record perp_market =
  market_base :: h256
  market_quote :: h256
  index_price :: u256
  mark_price :: u256
  open_interest_long :: u256
  open_interest_short :: u256
  market_max_leverage :: u32
  maintenance_margin_ratio :: u32
  initial_margin_ratio :: u32
  funding_rate :: i64
  next_funding_time :: u64
  is_active :: bool

record position =
  pos_trader :: address
  pos_market :: h256
  pos_size :: u256
  collateral :: u256
  entry_price :: u256
  pos_leverage :: u32
  is_long :: bool
  realized_pnl :: i128
  unrealized_pnl :: i128
  funding_paid :: i128
  liquidation_price :: u256
  created_at :: u64
  last_funding_update :: u64

record funding_entry =
  funding_market :: h256
  funding_value :: i64
  funding_timestamp :: u64
  long_interest :: u256
  short_interest :: u256

record insurance_fund =
  fund_balance :: u256
  total_contributions :: u256
  total_payouts :: u256

record oracle_price =
  oracle_value :: u256
  oracle_timestamp :: u64
  confidence :: u32

text \<open>
  \<open>perp_taken\<close>: a suspended \<^verbatim>\<open>open_position\<close> still has the write guards of the markets and of the
  positions. The positions are summed up in iteration order, so they are an association list.
\<close>

record perp_engine =
  perp_config :: defi_config
  markets :: "h256 \<rightharpoonup> perp_market"
  perp_positions :: "(h256 \<times> position) list"
  funding_rates :: "h256 \<rightharpoonup> funding_entry"
  insurance :: insurance_fund
  oracle_prices :: "h256 \<rightharpoonup> oracle_price"
  perp_taken :: bool

datatype perp_lock = Lock_markets | Lock_positions | Lock_funding_rates | Lock_insurance

definition perp_new :: "defi_config \<Rightarrow> perp_engine" where
  "perp_new cfg = \<lparr> perp_config = cfg, markets = Map.empty, perp_positions = [], funding_rates = Map.empty,
     insurance = \<lparr> fund_balance = 0, total_contributions = 0, total_payouts = 0 \<rparr>,
     oracle_prices = Map.empty, perp_taken = False \<rparr>"

text \<open>\<^verbatim>\<open>i128\<close> division; the divisors of the code are positive.\<close>

definition idiv :: "i128 \<Rightarrow> i128 \<Rightarrow> i128" where
  "idiv a b = word_of_int (sint a sdiv sint b)"

section \<open>Prices, margins and profit\<close>

definition calculate_required_collateral :: "u256 \<Rightarrow> u256 \<Rightarrow> u32 \<Rightarrow> u32 \<Rightarrow> u256 option" where
  "calculate_required_collateral sz p leverage imr = do {
     v \<leftarrow> umul sz p;
     min_collateral \<leftarrow> udiv v (ucast leverage);
     initial_margin \<leftarrow> bps_of imr v;
     Some (max min_collateral initial_margin)
   }"

definition calculate_liquidation_price :: "u256 \<Rightarrow> u32 \<Rightarrow> bool \<Rightarrow> u32 \<Rightarrow> u256 option" where
  "calculate_liquidation_price p leverage long mmr = do {
     m \<leftarrow> umul (ucast mmr) 100;
     maintenance \<leftarrow> udiv m 10000;
     q \<leftarrow> udiv 10000 (ucast leverage);
     factor \<leftarrow> (if long then do { d \<leftarrow> usub 10000 q; uadd d maintenance }
                else do { d \<leftarrow> uadd 10000 q; usub d maintenance });
     n \<leftarrow> umul p factor;
     udiv n 10000
   }"

definition calculate_pnl :: "position \<Rightarrow> u256 \<Rightarrow> i128 option" where
  "calculate_pnl p current = do {
     e \<leftarrow> umul (pos_size p) (entry_price p);
     entry_value \<leftarrow> as_u128 e;
     c \<leftarrow> umul (pos_size p) current;
     current_value \<leftarrow> as_u128 c;
     Some (if is_long p then current_value - entry_value else entry_value - current_value)
   }"

definition calculate_accumulated_funding :: "defi_config \<Rightarrow> u64 \<Rightarrow> position \<Rightarrow> perp_market \<Rightarrow> i128 option" where
  "calculate_accumulated_funding cfg now p m = do {
     periods \<leftarrow> udiv (now - last_funding_update p) (funding_interval cfg);
     v \<leftarrow> umul (pos_size p) (mark_price m);
     position_value \<leftarrow> as_u128 v;
     let product = position_value * scast (funding_rate m) * ucast periods;
     Some (if is_long p then idiv (- product) 10000 else idiv product 10000)
   }"

section \<open>Funding rate\<close>

definition update_funding_rate ::
  "(perp_lock \<times> lock_mode) list \<Rightarrow> u64 \<Rightarrow> h256 \<Rightarrow> h256 \<Rightarrow> perp_engine
     \<Rightarrow> (defi_error, unit) outcome \<times> perp_engine" where
  "update_funding_rate held now entry_id mid s =
     (if \<not> can_write held Lock_markets then (Hang, s\<lparr>perp_taken := True\<rparr>)
      else case markets s mid of
        None \<Rightarrow> (Err Market_Closed, s)
      | Some m \<Rightarrow>
          if next_funding_time m \<le> now then
            or_panic s (as_u128 (open_interest_long m)) (\<lambda>long_oi.
            or_panic s (as_u128 (open_interest_short m)) (\<lambda>short_oi.
              let imbalance = long_oi - short_oi;
                  total_oi = long_oi + short_oi;
                  rate = (if 0 < sint total_oi then scast (idiv (imbalance * 100) total_oi) else 0) :: i64;
                  m' = m\<lparr>funding_rate := rate, next_funding_time := now + funding_interval (perp_config s)\<rparr>;
                  fe = \<lparr> funding_market = mid, funding_value = rate, funding_timestamp = now,
                         long_interest = open_interest_long m, short_interest = open_interest_short m \<rparr>
              in (Ok (), s\<lparr>markets := (markets s)(mid \<mapsto> m'), funding_rates := (funding_rates s)(entry_id \<mapsto> fe)\<rparr>)))
          else (Ok (), s))"

section \<open>Positions\<close>

text \<open>The guards \<^verbatim>\<open>open_position\<close> holds when it calls \<^verbatim>\<open>update_funding_rate\<close>.\<close>

definition open_guards :: "(perp_lock \<times> lock_mode) list" where
  "open_guards = [(Lock_markets, Write_Guard), (Lock_positions, Write_Guard)]"

definition raise_interest :: "bool \<Rightarrow> u256 \<Rightarrow> perp_market \<Rightarrow> perp_market option" where
  "raise_interest long sz m =
     (if long then do { oi \<leftarrow> uadd (open_interest_long m) sz; Some (m\<lparr>open_interest_long := oi\<rparr>) }
      else do { oi \<leftarrow> uadd (open_interest_short m) sz; Some (m\<lparr>open_interest_short := oi\<rparr>) })"

definition lower_interest :: "bool \<Rightarrow> u256 \<Rightarrow> perp_market \<Rightarrow> perp_market" where
  "lower_interest long sz m =
     (if long then m\<lparr>open_interest_long := saturating_sub (open_interest_long m) sz\<rparr>
      else m\<lparr>open_interest_short := saturating_sub (open_interest_short m) sz\<rparr>)"

definition open_position ::
  "(nat \<Rightarrow> u64) \<Rightarrow> h256 \<Rightarrow> h256 \<Rightarrow> address \<Rightarrow> h256 \<Rightarrow> u256 \<Rightarrow> u32 \<Rightarrow> bool \<Rightarrow> perp_engine
     \<Rightarrow> (defi_error, h256) outcome \<times> perp_engine" where
  "open_position clock pid entry_id who mid sz leverage long s =
     (if perp_taken s then (Hang, s)
      else case markets s mid of
        None \<Rightarrow> (Err Market_Closed, s)
      | Some m \<Rightarrow>
          if \<not> is_active m then (Err Market_Closed, s)
          else if market_max_leverage m < leverage then (Err Excessive_Leverage, s)
          else
            or_panic s (calculate_required_collateral sz (mark_price m) leverage (initial_margin_ratio m)) (\<lambda>c.
            or_panic s (calculate_liquidation_price (mark_price m) leverage long (maintenance_margin_ratio m)) (\<lambda>lp.
            or_panic s (raise_interest long sz m) (\<lambda>m'.
              let pos = \<lparr> pos_trader = who, pos_market = mid, pos_size = sz, collateral = c,
                          entry_price = mark_price m, pos_leverage = leverage, is_long = long,
                          realized_pnl = 0, unrealized_pnl = 0, funding_paid = 0, liquidation_price = lp,
                          created_at = clock 0, last_funding_update = clock 1 \<rparr>;
                  s1 = s\<lparr>markets := (markets s)(mid \<mapsto> m'),
                         perp_positions := AList.update pid pos (perp_positions s)\<rparr>
              in and_then (update_funding_rate open_guards (clock 2) entry_id mid s1) (\<lambda>_ s. (Ok pid, s))))))"

record closed_position =
  closed_id :: h256
  closed_pnl :: i128
  closed_funding :: i128
  return_amount :: u256

definition close_position ::
  "u64 \<Rightarrow> address \<Rightarrow> h256 \<Rightarrow> perp_engine \<Rightarrow> (defi_error, closed_position) outcome \<times> perp_engine" where
  "close_position now who pid s =
     (if perp_taken s then (Hang, s)
      else case map_of (perp_positions s) pid of
        None \<Rightarrow> (Err Position_Not_Found, s)
      | Some p \<Rightarrow>
          if pos_trader p \<noteq> who then (Err Not_Authorized, s)
          else case markets s (pos_market p) of
            None \<Rightarrow> (Err Market_Closed, s)
          | Some m \<Rightarrow>
              or_panic s (calculate_pnl p (mark_price m)) (\<lambda>pnl.
              or_panic s (calculate_accumulated_funding (perp_config s) now p m) (\<lambda>funding.
              or_panic s (as_u128 (collateral p)) (\<lambda>c.
                let final_pnl = pnl - funding;
                    amt = c + final_pnl
                in (Ok \<lparr> closed_id = pid, closed_pnl = final_pnl, closed_funding = funding,
                         return_amount = (if 0 < sint amt then ucast amt else 0) \<rparr>,
                    s\<lparr>markets := (markets s)(pos_market p \<mapsto> lower_interest (is_long p) (pos_size p) m),
                      perp_positions := AList.delete pid (perp_positions s)\<rparr>)))))"

definition liquidatable :: "position \<Rightarrow> perp_market \<Rightarrow> bool" where
  "liquidatable p m \<longleftrightarrow>
     (if is_long p then mark_price m \<le> liquidation_price p else liquidation_price p \<le> mark_price m)"

definition liquidate_position ::
  "h256 \<Rightarrow> perp_engine \<Rightarrow> (defi_error, u256) outcome \<times> perp_engine" where
  "liquidate_position pid s =
     (if perp_taken s then (Hang, s)
      else case map_of (perp_positions s) pid of
        None \<Rightarrow> (Err Position_Not_Found, s)
      | Some p \<Rightarrow>
          (case markets s (pos_market p) of
             None \<Rightarrow> (Err Market_Closed, s)
           | Some m \<Rightarrow>
               if \<not> liquidatable p m then (Err Position_Healthy, s)
               else
                 or_panic s (bps_of (liquidation_penalty_bps (perp_config s)) (collateral p)) (\<lambda>fee.
                 or_panic s (udiv fee 2) (\<lambda>reward.
                 or_panic s (usub fee reward) (\<lambda>contribution.
                 or_panic s (uadd (fund_balance (insurance s)) contribution) (\<lambda>bal.
                   let s1 = s\<lparr>insurance := (insurance s)\<lparr>fund_balance := bal\<rparr>\<rparr> in
                   or_panic s1 (uadd (total_contributions (insurance s)) contribution) (\<lambda>tot.
                     (Ok reward, s\<lparr>insurance := (insurance s)\<lparr>fund_balance := bal, total_contributions := tot\<rparr>,
                       perp_positions := AList.delete pid (perp_positions s)\<rparr>))))))))"

definition add_collateral ::
  "address \<Rightarrow> h256 \<Rightarrow> u256 \<Rightarrow> perp_engine \<Rightarrow> (defi_error, unit) outcome \<times> perp_engine" where
  "add_collateral who pid amt s =
     (if perp_taken s then (Hang, s)
      else case map_of (perp_positions s) pid of
        None \<Rightarrow> (Err Position_Not_Found, s)
      | Some p \<Rightarrow>
          if pos_trader p \<noteq> who then (Err Not_Authorized, s)
          else or_panic s (uadd (collateral p) amt) (\<lambda>c.
            let p1 = p\<lparr>collateral := c\<rparr>;
                s1 = s\<lparr>perp_positions := AList.update pid p1 (perp_positions s)\<rparr>
            in case markets s (pos_market p) of
                 None \<Rightarrow> (Err Market_Closed, s1)
               | Some m \<Rightarrow>
                   or_panic s1 (calculate_liquidation_price (entry_price p) (pos_leverage p) (is_long p)
                                  (maintenance_margin_ratio m)) (\<lambda>lp.
                     (Ok (), s\<lparr>perp_positions := AList.update pid (p1\<lparr>liquidation_price := lp\<rparr>)
                                 (perp_positions s)\<rparr>))))"

fun position_values :: "address \<Rightarrow> (h256 \<rightharpoonup> perp_market) \<Rightarrow> u256 \<Rightarrow> position list \<Rightarrow> u256 option" where
  "position_values who ms acc [] = Some acc"
| "position_values who ms acc (p # ps) =
     (if pos_trader p \<noteq> who then position_values who ms acc ps
      else case ms (pos_market p) of
        None \<Rightarrow> position_values who ms acc ps
      | Some m \<Rightarrow> do {
          pnl \<leftarrow> calculate_pnl p (mark_price m);
          c \<leftarrow> as_u128 (collateral p);
          let v = c + pnl;
          acc' \<leftarrow> (if 0 < sint v then uadd acc (ucast v) else Some acc);
          position_values who ms acc' ps
        })"

definition get_position_value :: "address \<Rightarrow> perp_engine \<Rightarrow> (defi_error, u256) outcome" where
  "get_position_value who s =
     (if perp_taken s then Hang
      else case position_values who (markets s) 0 (map snd (perp_positions s)) of
        None \<Rightarrow> Panic | Some v \<Rightarrow> Ok v)"

section \<open>Markets and the oracle\<close>

text \<open>The initial price is computed in \<^verbatim>\<open>u64\<close>, where \<^verbatim>\<open>1000 * 10^18\<close> wraps.\<close>

definition create_market ::
  "u64 \<Rightarrow> h256 \<Rightarrow> h256 \<Rightarrow> h256 \<Rightarrow> u32 \<Rightarrow> perp_engine \<Rightarrow> (defi_error, h256) outcome \<times> perp_engine" where
  "create_market now mid base quote_tok lev s =
     (if perp_taken s then (Hang, s)
      else (Ok mid, s\<lparr>markets := (markets s)(mid \<mapsto>
        \<lparr> market_base = base, market_quote = quote_tok,
          index_price = ucast (1000 * 10 ^ 18 :: u64), mark_price = ucast (1000 * 10 ^ 18 :: u64),
          open_interest_long = 0, open_interest_short = 0, market_max_leverage = lev,
          maintenance_margin_ratio = 250, initial_margin_ratio = 500, funding_rate = 0,
          next_funding_time = now + funding_interval (perp_config s), is_active = True \<rparr>)\<rparr>))"

definition update_price :: "u64 \<Rightarrow> h256 \<Rightarrow> u256 \<Rightarrow> perp_engine \<Rightarrow> perp_engine" where
  "update_price now tok p s =
     s\<lparr>oracle_prices := (oracle_prices s)(tok \<mapsto>
        \<lparr> oracle_value = p, oracle_timestamp = now, confidence = 99 \<rparr>)\<rparr>"

definition oracle_get_price :: "h256 \<Rightarrow> perp_engine \<Rightarrow> u256 option" where
  "oracle_get_price tok s = map_option oracle_value (oracle_prices s tok)"

section \<open>The guards of \<^verbatim>\<open>DeFiEngine\<close>\<close>

definition open_perpetual_position ::
  "(nat \<Rightarrow> u64) \<Rightarrow> h256 \<Rightarrow> h256 \<Rightarrow> address \<Rightarrow> h256 \<Rightarrow> u256 \<Rightarrow> u32 \<Rightarrow> bool \<Rightarrow> perp_engine
     \<Rightarrow> (defi_error, h256) outcome \<times> perp_engine" where
  "open_perpetual_position clock pid entry_id who mid sz leverage long s =
     (if max_leverage (perp_config s) < leverage then (Err Excessive_Leverage, s)
      else open_position clock pid entry_id who mid sz leverage long s)"

definition calculate_health_factor :: "h256 \<Rightarrow> (defi_error, u256) outcome" where
  "calculate_health_factor pid = Ok 12000"

record liquidation_result =
  liquidated_id :: h256
  liquidator :: address
  liquidation_value :: u256
  liquidation_penalty :: u256
  liquidation_timestamp :: u64

definition engine_liquidate ::
  "u64 \<Rightarrow> address \<Rightarrow> h256 \<Rightarrow> perp_engine \<Rightarrow> (defi_error, liquidation_result) outcome \<times> perp_engine" where
  "engine_liquidate now who pid s =
     and_then (calculate_health_factor pid, s) (\<lambda>health s.
       if 10000 \<le> health then (Err Position_Healthy, s)
       else and_then (liquidate_position pid s) (\<lambda>v s.
         or_panic s (bps_of (liquidation_penalty_bps (perp_config s)) v) (\<lambda>penalty.
           (Ok \<lparr> liquidated_id = pid, liquidator = who, liquidation_value = v, liquidation_penalty = penalty,
                 liquidation_timestamp = now \<rparr>, s))))"

end
