(* ===== verification/FlashLoan.thy ===== *)
theory FlashLoan
  imports DefiErrors
begin

text \<open>
  The flash loan provider of \<^verbatim>\<open>src/defi/flash_loan.rs\<close>: its pools, the execution of a loan with the
  (simulated) callback and its repayment, deposits and withdrawals, statistics.

  The random loan identifier and the clock are arguments. Every write of the code that precedes a panic
  is in the state the panic leaves behind.
\<close>

section \<open>State\<close>

record flash_pool =
  pool_token :: h256
  available_balance :: u256
  total_balance :: u256
  utilization_rate :: u32

datatype loan_status = Loan_Active | Loan_Repaid | Loan_Failed

record flash_loan =
  flash_id :: h256
  flash_borrower :: address
  flash_token :: h256
  flash_amount :: u256
  flash_fee :: u256
  callback_data :: "u8 list"
  initiated_at :: u64
  loan_status :: loan_status

record loan_record =
  record_loan_id :: h256
  record_borrower :: address
  record_token :: h256
  record_amount :: u256
  record_fee :: u256
  record_timestamp :: u64
  record_success :: bool

record flash_provider =
  fee_bps :: u32
  flash_pools :: "h256 \<rightharpoonup> flash_pool"
  active_loans :: "(h256 \<times> flash_loan) list"
  loan_history :: "loan_record list"

definition flash_new :: "u32 \<Rightarrow> flash_provider" where
  "flash_new bps = \<lparr> fee_bps = bps, flash_pools = Map.empty, active_loans = [], loan_history = [] \<rparr>"

section \<open>Loans\<close>

text \<open>
  The callback is simulated in the code: it repays the loan, the fee and two per cent of the amount,
  whatever the borrower's data.
\<close>

definition execute_callback :: "address \<Rightarrow> u256 \<Rightarrow> u256 \<Rightarrow> u8 list \<Rightarrow> u256 option" where
  "execute_callback who amt fee data = do {
     p \<leftarrow> umul amt 200;
     profit \<leftarrow> udiv p 10000;
     r \<leftarrow> uadd amt fee;
     uadd r profit
   }"

definition set_pool :: "h256 \<Rightarrow> flash_pool \<Rightarrow> flash_provider \<Rightarrow> flash_provider" where
  "set_pool tok p s = s\<lparr>flash_pools := (flash_pools s)(tok \<mapsto> p)\<rparr>"

definition complete_repayment ::
  "h256 \<Rightarrow> u256 \<Rightarrow> flash_provider \<Rightarrow> (defi_error, unit) outcome \<times> flash_provider" where
  "complete_repayment i repaid s =
     (case map_of (active_loans s) i of
        None \<Rightarrow> (Err Position_Not_Found, s)
      | Some loan \<Rightarrow>
          or_panic s (uadd (flash_amount loan) (flash_fee loan)) (\<lambda>expected.
            if repaid < expected then (Err Flash_Loan_Not_Repaid, s)
            else case flash_pools s (flash_token loan) of
              None \<Rightarrow> (Ok (), s)
            | Some p \<Rightarrow>
                or_panic s (uadd (available_balance p) repaid) (\<lambda>av.
                  let s1 = set_pool (flash_token loan) (p\<lparr>available_balance := av\<rparr>) s in
                  or_panic s1 (uadd (total_balance p) (flash_fee loan)) (\<lambda>tot.
                    (Ok (), set_pool (flash_token loan) (p\<lparr>available_balance := av, total_balance := tot\<rparr>) s)))))"

text \<open>The first critical section: the loan is booked and its amount leaves the pool.\<close>

definition book_loan ::
  "h256 \<Rightarrow> u64 \<Rightarrow> address \<Rightarrow> h256 \<Rightarrow> u256 \<Rightarrow> u8 list \<Rightarrow> flash_provider
     \<Rightarrow> (defi_error, u256) outcome \<times> flash_provider" where
  "book_loan i now who tok amt data s =
     (case flash_pools s tok of
        None \<Rightarrow> (Err Insufficient_Balance, s)
      | Some p \<Rightarrow>
          if available_balance p < amt then (Err Insufficient_Balance, s)
          else or_panic s (bps_of (fee_bps s) amt) (\<lambda>fee.
            or_panic s (usub (available_balance p) amt) (\<lambda>av.
              let loan = \<lparr> flash_id = i, flash_borrower = who, flash_token = tok, flash_amount = amt,
                           flash_fee = fee, callback_data = data, initiated_at = now,
                           loan_status = Loan_Active \<rparr>;
                  s1 = set_pool tok (p\<lparr>available_balance := av\<rparr>) s
              in (Ok fee, s1\<lparr>active_loans := AList.update i loan (active_loans s1)\<rparr>))))"

definition settle_loan ::
  "h256 \<Rightarrow> u64 \<Rightarrow> address \<Rightarrow> h256 \<Rightarrow> u256 \<Rightarrow> u256 \<Rightarrow> bool \<Rightarrow> flash_provider \<Rightarrow> flash_provider" where
  "settle_loan i now who tok amt fee ok s =
     (let s1 = (case map_of (active_loans s) i of
                  None \<Rightarrow> s
                | Some loan \<Rightarrow> s\<lparr>active_loans := AList.update i
                    (loan\<lparr>loan_status := if ok then Loan_Repaid else Loan_Failed\<rparr>) (active_loans s)\<rparr>)
      in s1\<lparr>loan_history := loan_history s1 @
            [\<lparr> record_loan_id = i, record_borrower = who, record_token = tok, record_amount = amt,
               record_fee = fee, record_timestamp = now, record_success = ok \<rparr>]\<rparr>)"

definition execute_loan ::
  "h256 \<Rightarrow> u64 \<Rightarrow> address \<Rightarrow> h256 \<Rightarrow> u256 \<Rightarrow> u8 list \<Rightarrow> flash_provider
     \<Rightarrow> (defi_error, h256) outcome \<times> flash_provider" where
  "execute_loan i now who tok amt data s =
     and_then (book_loan i now who tok amt data s) (\<lambda>fee s.
     or_panic s (execute_callback who amt fee data) (\<lambda>repaid.
     or_panic s (uadd amt fee) (\<lambda>due.
       if due \<le> repaid then
         and_then (complete_repayment i repaid s) (\<lambda>_ s. (Ok i, settle_loan i now who tok amt fee True s))
       else (Err Flash_Loan_Not_Repaid, settle_loan i now who tok amt fee False s))))"

section \<open>Deposits and withdrawals\<close>

definition flash_deposit :: "h256 \<Rightarrow> u256 \<Rightarrow> flash_provider \<Rightarrow> (defi_error, unit) outcome \<times> flash_provider" where
  "flash_deposit tok amt s =
     (case flash_pools s tok of
        None \<Rightarrow> (Ok (), set_pool tok \<lparr> pool_token = tok, available_balance = amt, total_balance = amt,
                                     utilization_rate = 0 \<rparr> s)
      | Some p \<Rightarrow>
          or_panic s (uadd (available_balance p) amt) (\<lambda>av.
            let p1 = p\<lparr>available_balance := av\<rparr> in
            or_panic (set_pool tok p1 s) (uadd (total_balance p) amt) (\<lambda>tot.
              (Ok (), set_pool tok (p1\<lparr>total_balance := tot\<rparr>) s))))"

definition flash_withdraw :: "h256 \<Rightarrow> u256 \<Rightarrow> flash_provider \<Rightarrow> (defi_error, unit) outcome \<times> flash_provider" where
  "flash_withdraw tok amt s =
     (case flash_pools s tok of
        None \<Rightarrow> (Err Insufficient_Balance, s)
      | Some p \<Rightarrow>
          if available_balance p < amt then (Err Insufficient_Balance, s)
          else or_panic s (usub (available_balance p) amt) (\<lambda>av.
            let p1 = p\<lparr>available_balance := av\<rparr> in
            or_panic (set_pool tok p1 s) (usub (total_balance p) amt) (\<lambda>tot.
              (Ok (), set_pool tok (p1\<lparr>total_balance := tot\<rparr>) s))))"

definition get_available_liquidity :: "h256 \<Rightarrow> flash_provider \<Rightarrow> u256" where
  "get_available_liquidity tok s = (case flash_pools s tok of None \<Rightarrow> 0 | Some p \<Rightarrow> available_balance p)"

section \<open>Statistics\<close>

record flash_stats =
  total_loans :: nat
  successful_loans :: nat
  failed_loans :: nat
  active_count :: nat
  total_volume :: u256
  total_fees_collected :: u256

definition get_loan_stats :: "flash_provider \<Rightarrow> flash_stats option" where
  "get_loan_stats s =
     (let total = length (loan_history s);
          good = length (filter record_success (loan_history s))
      in do {
        volume \<leftarrow> sum_checked 0 (map record_amount (loan_history s));
        fees \<leftarrow> sum_checked 0 (map record_fee (loan_history s));
        Some \<lparr> total_loans = total, successful_loans = good, failed_loans = total - good,
               active_count = length (active_loans s), total_volume = volume, total_fees_collected = fees \<rparr>
      })"

section \<open>The example receiver\<close>

text \<open>
  The prices are computed in \<^verbatim>\<open>u64\<close>, where \<^verbatim>\<open>1000 * 10^18\<close> and \<^verbatim>\<open>1010 * 10^18\<close> wrap.
\<close>

definition arbitrage_operation :: "u256 \<Rightarrow> u256 \<Rightarrow> (defi_error, unit) outcome" where
  "arbitrage_operation amt fee =
     (let buy_price = ucast (1000 * 10 ^ 18 :: u64) :: u256;
          sell_price = ucast (1010 * 10 ^ 18 :: u64) :: u256
      in case do { g \<leftarrow> umul amt 10100; bought \<leftarrow> udiv g buy_price;
                   h \<leftarrow> umul bought sell_price; proceeds \<leftarrow> udiv h 10000;
                   repayment \<leftarrow> uadd amt fee; Some (proceeds, repayment) } of
           None \<Rightarrow> Panic
         | Some (proceeds, repayment) \<Rightarrow>
             if repayment \<le> proceeds then Ok () else Err Insufficient_Balance)"

section \<open>The callback and its repayment\<close>

lemma execute_callback_Some:
  "execute_callback who amt fee data = Some r \<Longrightarrow>
     unat r = unat amt + unat fee + unat amt * 200 div 10000"
  by (auto simp: execute_callback_def bind_eq_Some_conv checked_ops)

lemma execute_callback_covers:
  assumes "execute_callback who amt fee data = Some r"
  obtains due where "uadd amt fee = Some due" "due \<le> r"
proof -
  from assms obtain due where due: "uadd amt fee = Some due"
    by (auto simp: execute_callback_def bind_eq_Some_conv)
  moreover have "due \<le> r"
    using execute_callback_Some [OF assms] due by (simp add: checked_ops word_le_nat_alt)
  ultimately show ?thesis by (rule that)
qed

lemma book_loan_Ok:
  assumes "book_loan i now who tok amt data s = (Ok fee, s1)"
  obtains p loan where "flash_pools s tok = Some p" "amt \<le> available_balance p" "bps_of (fee_bps s) amt = Some fee"
    "s1 = s\<lparr>flash_pools := (flash_pools s)(tok \<mapsto> p\<lparr>available_balance := available_balance p - amt\<rparr>),
            active_loans := AList.update i loan (active_loans s)\<rparr>"
    "loan = \<lparr> flash_id = i, flash_borrower = who, flash_token = tok, flash_amount = amt, flash_fee = fee,
       callback_data = data, initiated_at = now, loan_status = Loan_Active \<rparr>"
  using assms
  by (auto simp: book_loan_def set_pool_def usub_def Let_def not_less split: option.splits if_splits)

lemma book_loan_cases:
  "fst (book_loan i now who tok amt data s) = Err e \<Longrightarrow>
     e = Insufficient_Balance \<and> snd (book_loan i now who tok amt data s) = s"
  by (auto simp: book_loan_def Let_def split: option.splits if_splits or_panic_split_asm)

lemma book_loan_no_hang: "fst (book_loan i now who tok amt data s) \<noteq> Hang"
  by (auto simp: book_loan_def Let_def split: option.splits or_panic_split)

text \<open>After booking, the repayment finds the loan and pays the pool the surplus of two per cent.\<close>

definition repaid_pool :: "flash_pool \<Rightarrow> u256 \<Rightarrow> u256 \<Rightarrow> u256 \<Rightarrow> flash_pool option" where
  "repaid_pool p amt fee repaid = do {
     av \<leftarrow> uadd (available_balance p - amt) repaid;
     tot \<leftarrow> uadd (total_balance p) fee;
     Some (p\<lparr>available_balance := av, total_balance := tot\<rparr>)
   }"

lemma complete_repayment_booked:
  assumes "book_loan i now who tok amt data s = (Ok fee, s1)" and "flash_pools s tok = Some p"
    and "uadd amt fee = Some due" "due \<le> repaid"
  shows "complete_repayment i repaid s1 =
    (case repaid_pool p amt fee repaid of
       Some p' \<Rightarrow> (Ok (), set_pool tok p' s1)
     | None \<Rightarrow> (Panic, snd (complete_repayment i repaid s1)))"
  by (rule book_loan_Ok [OF assms(1)])
    (use assms(2-4) in \<open>auto simp: complete_repayment_def repaid_pool_def set_pool_def update_conv Let_def
      bind_eq_Some_conv bind_eq_None_conv split: option.split or_panic_split\<close>)

lemma execute_loan_unfold:
  assumes "book_loan i now who tok amt data s = (Ok fee, s1)" "flash_pools s tok = Some p"
    and "execute_callback who amt fee data = Some repaid"
  shows "case repaid_pool p amt fee repaid of
       Some p' \<Rightarrow> execute_loan i now who tok amt data s =
         (Ok i, settle_loan i now who tok amt fee True (set_pool tok p' s1))
     | None \<Rightarrow> fst (execute_loan i now who tok amt data s) = Panic \<and>
         loan_history (snd (execute_loan i now who tok amt data s)) = loan_history s"
proof -
  obtain due where due: "uadd amt fee = Some due" "due \<le> repaid"
    by (rule execute_callback_covers [OF assms(3)])
  have hist: "loan_history (snd (complete_repayment i repaid s1)) = loan_history s"
    by (rule book_loan_Ok [OF assms(1)])
      (auto simp: complete_repayment_def set_pool_def Let_def split: option.split or_panic_split)
  show ?thesis
    using complete_repayment_booked [OF assms(1,2) due] due hist assms(1,3)
    by (cases "repaid_pool p amt fee repaid"; cases "complete_repayment i repaid s1")
      (auto simp: execute_loan_def)
qed

text \<open>Every outcome of \<^verbatim>\<open>execute_loan\<close>.\<close>

lemma execute_loan_cases:
  obtains (refused) "execute_loan i now who tok amt data s = (Err Insufficient_Balance, s)"
  | (panicked) "fst (execute_loan i now who tok amt data s) = Panic"
      "loan_history (snd (execute_loan i now who tok amt data s)) = loan_history s"
  | (repaid) fee s1 p repaid p' where "book_loan i now who tok amt data s = (Ok fee, s1)"
      "flash_pools s tok = Some p" "execute_callback who amt fee data = Some repaid"
      "repaid_pool p amt fee repaid = Some p'"
      "execute_loan i now who tok amt data s =
         (Ok i, settle_loan i now who tok amt fee True (set_pool tok p' s1))"
proof (cases "fst (book_loan i now who tok amt data s)")
  case (Err e)
  with book_loan_cases [OF Err] show thesis
    by (intro refused) (cases "book_loan i now who tok amt data s", auto simp: execute_loan_def)
next
  case Panic
  then have "loan_history (snd (book_loan i now who tok amt data s)) = loan_history s"
    by (auto simp: book_loan_def Let_def set_pool_def split: option.splits or_panic_split)
  with Panic show thesis
    by (intro panicked) (cases "book_loan i now who tok amt data s", auto simp: execute_loan_def)+
next
  case Hang
  then show thesis using book_loan_no_hang by blast
next
  case (Ok fee)
  define s1 where "s1 = snd (book_loan i now who tok amt data s)"
  with Ok have book: "book_loan i now who tok amt data s = (Ok fee, s1)"
    by (cases "book_loan i now who tok amt data s") simp
  then obtain p where p: "flash_pools s tok = Some p" and hist: "loan_history s1 = loan_history s"
    by (auto elim: book_loan_Ok)
  show thesis
  proof (cases "execute_callback who amt fee data")
    case None
    with book hist show thesis by (intro panicked) (simp_all add: execute_loan_def)
  next
    case (Some r)
    from execute_loan_unfold [OF book p Some] show thesis
      using panicked repaid [OF book p Some]
      by (cases "repaid_pool p amt fee r") auto
  qed
qed

section \<open>The provider as a component driven by calls\<close>

datatype flash_call =
    Loan h256 u64 address h256 u256 "u8 list"
  | Supply h256 u256
  | Take h256 u256

fun flash_do :: "flash_call \<Rightarrow> flash_provider \<Rightarrow> bool \<times> flash_provider" where
  "flash_do (Loan i now who tok amt data) s =
     (case execute_loan i now who tok amt data s of (r, s') \<Rightarrow> (r \<noteq> Panic, s'))"
| "flash_do (Supply tok amt) s = (case flash_deposit tok amt s of (r, s') \<Rightarrow> (r \<noteq> Panic, s'))"
| "flash_do (Take tok amt) s = (case flash_withdraw tok amt s of (r, s') \<Rightarrow> (r \<noteq> Panic, s'))"

definition flash_step :: "flash_call \<Rightarrow> flash_provider \<Rightarrow> flash_provider" where
  "flash_step c s = snd (flash_do c s)"

definition no_panic :: "flash_call \<Rightarrow> flash_provider \<Rightarrow> bool" where
  "no_panic c s = fst (flash_do c s)"

text \<open>
  The surplus of a pool: what its loans repaid beyond amount and fee. It is in the available
  balance and not in the total.
\<close>

definition profit_of :: "h256 \<Rightarrow> loan_record list \<Rightarrow> nat" where
  "profit_of tok hs = sum_list (map (\<lambda>r. unat (record_amount r) * 200 div 10000)
     (filter (\<lambda>r. record_token r = tok) hs))"

lemma profit_of_simps [simp]:
  "profit_of tok [] = 0"
  "profit_of tok (hs @ [r]) =
     profit_of tok hs + (if record_token r = tok then unat (record_amount r) * 200 div 10000 else 0)"
  by (simp_all add: profit_of_def)

definition surplus_ok :: "h256 \<Rightarrow> flash_provider \<Rightarrow> bool" where
  "surplus_ok tok s \<longleftrightarrow> (case flash_pools s tok of
       None \<Rightarrow> profit_of tok (loan_history s) = 0
     | Some p \<Rightarrow> unat (available_balance p) = unat (total_balance p) + profit_of tok (loan_history s))"

definition flash_inv :: "flash_provider \<Rightarrow> bool" where
  "flash_inv s \<longleftrightarrow> (\<forall>tok. surplus_ok tok s) \<and> (\<forall>r \<in> set (loan_history s). record_success r)"

lemma flash_inv_new: "flash_inv (flash_new bps)"
  by (simp add: flash_inv_def surplus_ok_def flash_new_def)

lemma flash_invD:
  "flash_inv s \<Longrightarrow> flash_pools s tok = Some p \<Longrightarrow>
     unat (available_balance p) = unat (total_balance p) + profit_of tok (loan_history s)"
  by (auto simp: flash_inv_def surplus_ok_def split: option.splits dest: spec [of _ tok])

lemma flash_inv_pools:
  assumes "flash_inv s" "loan_history s' = loan_history s" "flash_pools s' = (flash_pools s)(tok \<mapsto> p')"
    and "unat (available_balance p') = unat (total_balance p') + profit_of tok (loan_history s)"
  shows "flash_inv s'"
proof -
  have "surplus_ok t s'" if "surplus_ok t s" for t
    using that assms(2-4) by (cases "t = tok") (simp_all add: surplus_ok_def cong: option.case_cong)
  with assms(1,2) show ?thesis by (simp add: flash_inv_def)
qed

lemma settle_loan_simps [simp]:
  "flash_pools (settle_loan i now who tok amt fee ok s) = flash_pools s"
  "loan_history (settle_loan i now who tok amt fee ok s) = loan_history s @
     [\<lparr> record_loan_id = i, record_borrower = who, record_token = tok, record_amount = amt,
        record_fee = fee, record_timestamp = now, record_success = ok \<rparr>]"
  by (simp_all add: settle_loan_def Let_def split: option.split)

lemma flash_inv_loan:
  assumes inv: "flash_inv s" and book: "book_loan i now who tok amt data s = (Ok fee, s1)"
    and p: "flash_pools s tok = Some p" and cb: "execute_callback who amt fee data = Some repaid"
    and p': "repaid_pool p amt fee repaid = Some p'"
  shows "flash_inv (settle_loan i now who tok amt fee True (set_pool tok p' s1))"
proof -
  from book p have le: "amt \<le> available_balance p" and s1: "loan_history s1 = loan_history s"
      "\<And>t. t \<noteq> tok \<Longrightarrow> flash_pools s1 t = flash_pools s t"
    by (auto elim!: book_loan_Ok)
  from p' obtain av tot where sums: "uadd (available_balance p - amt) repaid = Some av"
      "uadd (total_balance p) fee = Some tot" and p'_eq: "p' = p\<lparr>available_balance := av, total_balance := tot\<rparr>"
    by (auto simp: repaid_pool_def bind_eq_Some_conv)
  have "unat (available_balance p - amt) = unat (available_balance p) - unat amt"
    using le by (simp add: unat_sub)
  with sums flash_invD [OF inv p] execute_callback_Some [OF cb] le
  have "unat av = unat tot + profit_of tok (loan_history s) + unat amt * 200 div 10000"
    by (simp add: checked_ops word_le_nat_alt)
  then have "surplus_ok t (settle_loan i now who tok amt fee True (set_pool tok p' s1))" if "surplus_ok t s" for t
    using that s1 by (cases "t = tok") (simp_all add: surplus_ok_def set_pool_def p'_eq cong: option.case_cong)
  with inv s1(1) show ?thesis
    by (simp add: flash_inv_def set_pool_def)
qed

lemma flash_inv_step:
  assumes "flash_inv s" "no_panic c s"
  shows "flash_inv (flash_step c s)"
proof (cases c)
  case (Loan i now who tok amt data)
  show ?thesis
  proof (cases rule: execute_loan_cases [of i now who tok amt data s])
    case refused
    with Loan assms show ?thesis by (simp add: flash_step_def)
  next
    case panicked
    with Loan assms show ?thesis by (auto simp: no_panic_def split: prod.splits)
  next
    case (repaid fee s1 p r p')
    with flash_inv_loan [OF assms(1) repaid(1-4)] Loan show ?thesis by (simp add: flash_step_def)
  qed
next
  case (Supply tok amt)
  show ?thesis
  proof (cases "flash_pools s tok")
    case None
    then have "profit_of tok (loan_history s) = 0"
      using assms(1) by (auto simp: flash_inv_def surplus_ok_def dest: spec [of _ tok])
    with None Supply show ?thesis
      by (intro flash_inv_pools [OF assms(1), where tok = tok])
        (auto simp: flash_step_def flash_deposit_def set_pool_def)
  next
    case (Some p)
    then obtain av tot where ops: "uadd (available_balance p) amt = Some av" "uadd (total_balance p) amt = Some tot"
      using Supply assms(2)
      by (auto simp: no_panic_def flash_deposit_def Let_def split: prod.splits or_panic_split_asm)
    with Some Supply have "flash_step c s = set_pool tok (p\<lparr>available_balance := av, total_balance := tot\<rparr>) s"
      by (simp add: flash_step_def flash_deposit_def)
    with ops flash_invD [OF assms(1) Some] show ?thesis
      by (intro flash_inv_pools [OF assms(1), where tok = tok and
          p' = "p\<lparr>available_balance := av, total_balance := tot\<rparr>"]) (auto simp: set_pool_def checked_ops)
  qed
next
  case (Take tok amt)
  show ?thesis
  proof (cases "fst (flash_withdraw tok amt s) = Ok ()")
    case False
    with Take assms show ?thesis
      by (auto simp: flash_step_def no_panic_def flash_withdraw_def Let_def
          split: option.splits prod.splits or_panic_split_asm or_panic_split if_splits)
  next
    case True
    then obtain p av tot where p: "flash_pools s tok = Some p" "\<not> available_balance p < amt"
      "usub (available_balance p) amt = Some av" "usub (total_balance p) amt = Some tot"
      by (auto simp: flash_withdraw_def Let_def split: option.splits if_splits or_panic_split_asm)
    with Take have "flash_step c s = set_pool tok (p\<lparr>available_balance := av, total_balance := tot\<rparr>) s"
      by (simp add: flash_step_def flash_withdraw_def)
    with p flash_invD [OF assms(1) p(1)] show ?thesis
      by (intro flash_inv_pools [OF assms(1), where tok = tok and
          p' = "p\<lparr>available_balance := av, total_balance := tot\<rparr>"]) (auto simp: set_pool_def checked_ops)
  qed
qed

interpretation flash: invariant_of flash_step no_panic flash_inv
  by unfold_locales (rule flash_inv_step)

section \<open>Properties\<close>

text \<open>A loan the pool can cover returns its identifier; the pool gets back the amount, the fee and two per cent
  of the amount, its total grows by the fee only, and the loan is recorded as repaid.\<close>

theorem flash_loan_pays_the_pool:
  assumes "flash_pools s tok = Some p" "amt \<le> available_balance p"
    and "unat amt * unat (fee_bps s) < 2 ^ 256" "unat amt * 200 < 2 ^ 256"
    and "unat (available_balance p) + unat amt * unat (fee_bps s) div 10000 + unat amt * 200 div 10000 < 2 ^ 256"
    and "unat (total_balance p) + unat amt * unat (fee_bps s) div 10000 < 2 ^ 256"
  shows "\<exists>s' p'. execute_loan i now who tok amt data s = (Ok i, s') \<and>
    flash_pools s' = (flash_pools s)(tok \<mapsto> p') \<and>
    unat (available_balance p') = unat (available_balance p) + unat amt * unat (fee_bps s) div 10000
       + unat amt * 200 div 10000 \<and>
    unat (total_balance p') = unat (total_balance p) + unat amt * unat (fee_bps s) div 10000 \<and>
    map_option loan_status (map_of (active_loans s') i) = Some Loan_Repaid \<and>
    length (loan_history s') = Suc (length (loan_history s)) \<and> record_success (last (loan_history s'))"
proof -
  obtain fee where fee: "bps_of (fee_bps s) amt = Some fee" "unat fee = unat amt * unat (fee_bps s) div 10000"
    by (rule bps_of_fits [OF assms(3)])
  have le: "unat amt \<le> unat (available_balance p)"
    using assms(2) by (simp add: word_le_nat_alt)
  obtain loan where book: "book_loan i now who tok amt data s = (Ok fee, (set_pool tok
      (p\<lparr>available_balance := available_balance p - amt\<rparr>) s)\<lparr>active_loans := AList.update i loan (active_loans s)\<rparr>)"
    using assms(1,2) fee(1) by (simp add: book_loan_def usub_def Let_def set_pool_def not_less)
  obtain q where q: "umul amt 200 = Some q"
    using assms(4) by (cases "umul amt 200") (auto simp: umul_None)
  obtain pr where pr: "udiv q 10000 = Some pr"
    by (cases "udiv q 10000") (auto simp: udiv_None)
  have upr: "unat pr = unat amt * 200 div 10000"
    using q pr by (simp add: checked_ops)
  obtain r where r: "uadd amt fee = Some r"
    using assms(5) fee(2) le by (cases "uadd amt fee") (auto simp: uadd_None)
  obtain repaid where "uadd r pr = Some repaid"
    using assms(5) fee(2) le upr r by (cases "uadd r pr") (auto simp: uadd_None checked_ops)
  with q pr r have cb: "execute_callback who amt fee data = Some repaid"
    by (simp add: execute_callback_def)
  have ua: "unat (available_balance p - amt) + unat repaid = unat (available_balance p) + unat fee + unat pr"
    using execute_callback_Some [OF cb] upr le assms(2) by (simp add: unat_sub)
  obtain av where av: "uadd (available_balance p - amt) repaid = Some av"
    using ua assms(5) fee(2) upr by (cases "uadd (available_balance p - amt) repaid") (auto simp: uadd_None)
  obtain tot where tot: "uadd (total_balance p) fee = Some tot"
    using assms(6) fee(2) by (cases "uadd (total_balance p) fee") (auto simp: uadd_None)
  let ?p' = "p\<lparr>available_balance := av, total_balance := tot\<rparr>"
  have "repaid_pool p amt fee repaid = Some ?p'"
    by (simp add: repaid_pool_def av tot)
  with execute_loan_unfold [OF book assms(1) cb]
  have run: "execute_loan i now who tok amt data s = (Ok i, settle_loan i now who tok amt fee True
      (set_pool tok ?p' ((set_pool tok (p\<lparr>available_balance := available_balance p - amt\<rparr>) s)
        \<lparr>active_loans := AList.update i loan (active_loans s)\<rparr>)))"
    by simp
  have "unat av = unat (available_balance p) + unat fee + unat pr" "unat tot = unat (total_balance p) + unat fee"
    using av ua tot by (simp_all add: checked_ops)
  with fee(2) upr show ?thesis
    unfolding run by (intro exI [of _ ?p'] exI conjI)
      (auto simp: set_pool_def settle_loan_def update_conv Let_def)
qed

definition sample_provider :: flash_provider where
  "sample_provider = run flash_step [Supply 5 1000000, Loan 77 50 7 5 100000 []] (flash_new 9)"

lemmas flash_simps = flash_step_def flash_new_def flash_deposit_def set_pool_def execute_loan_def book_loan_def
  bps_of_def execute_callback_def complete_repayment_def settle_loan_def umul_def uadd_def usub_def udiv_def Let_def

lemma sample_provider_pool:
  "flash_pools sample_provider 5 = Some \<lparr> pool_token = 5, available_balance = 1002090, total_balance = 1000090,
     utilization_rate = 0 \<rparr>"
  "profit_of 5 (loan_history sample_provider) = 2000" "fee_bps sample_provider = 9"
  by (simp_all add: sample_provider_def flash_simps profit_of_def)

lemma sample_provider_ok:
  "run_ok no_panic flash_step [Supply 5 1000000, Loan 77 50 7 5 100000 []] (flash_new 9)"
  by (simp add: no_panic_def flash_simps)

theorem flash_loan_pays_the_pool_witness:
  "\<exists>s' p'. execute_loan 78 60 7 5 20000 [1, 2] sample_provider = (Ok 78, s') \<and>
     flash_pools s' = (flash_pools sample_provider)(5 \<mapsto> p') \<and>
     unat (available_balance p') = 1002090 + 18 + 400 \<and> unat (total_balance p') = 1000090 + 18"
  using flash_loan_pays_the_pool [OF sample_provider_pool(1), of 20000 78 60 7 "[1, 2]"]
  by (auto simp: sample_provider_pool(3))

text \<open>\<^verbatim>\<open>execute_loan\<close> never reports a loan that was not repaid and never records one as failed: since the
  callback is simulated, its only outcomes are success, an insufficient pool and a panic, and the borrower's data
  does not matter.\<close>

theorem flash_loan_always_repaid:
  "(case fst (execute_loan i now who tok amt data s) of
      Ok j \<Rightarrow> j = i | Err e \<Rightarrow> e = Insufficient_Balance | Panic \<Rightarrow> True | Hang \<Rightarrow> False) \<and>
   filter (\<lambda>r. \<not> record_success r) (loan_history (snd (execute_loan i now who tok amt data s)))
     = filter (\<lambda>r. \<not> record_success r) (loan_history s) \<and>
   flash_pools (snd (execute_loan i now who tok amt data s)) = flash_pools (snd (execute_loan i now who tok amt [] s))"
proof -
  have "flash_pools (snd (execute_loan i now who tok amt data s)) = flash_pools (snd (execute_loan i now who tok amt [] s))"
    by (auto simp: execute_loan_def book_loan_def complete_repayment_def execute_callback_def set_pool_def
        update_conv Let_def split: option.split or_panic_split)
  moreover have "(case fst (execute_loan i now who tok amt data s) of
      Ok j \<Rightarrow> j = i | Err e \<Rightarrow> e = Insufficient_Balance | Panic \<Rightarrow> True | Hang \<Rightarrow> False) \<and>
    filter (\<lambda>r. \<not> record_success r) (loan_history (snd (execute_loan i now who tok amt data s)))
     = filter (\<lambda>r. \<not> record_success r) (loan_history s)"
  proof (cases rule: execute_loan_cases [of i now who tok amt data s])
    case (repaid fee s1 p r p')
    then have "loan_history s1 = loan_history s" by (auto elim!: book_loan_Ok)
    with repaid(5) show ?thesis by (simp add: set_pool_def)
  qed simp_all
  ultimately show ?thesis by blast
qed

text \<open>After every run without a panic, what a pool has available exceeds its total by exactly the two per cent
  its loans paid on top, and the history holds successful loans only.\<close>

theorem flash_surplus_in_every_run:
  assumes "run_ok no_panic flash_step cs (flash_new bps)"
    and "flash_pools (run flash_step cs (flash_new bps)) tok = Some p"
  shows "unat (available_balance p) = unat (total_balance p)
      + profit_of tok (loan_history (run flash_step cs (flash_new bps)))"
  using flash_invD [OF flash.inv_run [OF flash_inv_new assms(1)] assms(2)] .

theorem flash_surplus_in_every_run_witness:
  "unat (1002090 :: u256) = unat (1000090 :: u256) + profit_of 5 (loan_history sample_provider)"
  using flash_surplus_in_every_run [OF sample_provider_ok, of 5] sample_provider_pool
  by (simp add: sample_provider_def)

text \<open>Once a pool has made a profit, withdrawing everything it has available panics, and the panic comes after
  the available balance was reduced: the pool is left with nothing available and an unchanged total. Without a profit
  the withdrawal succeeds.\<close>

theorem withdrawing_the_surplus_panics:
  assumes "flash_inv s" "flash_pools s tok = Some p"
  shows "flash_withdraw tok (available_balance p) s =
    (if profit_of tok (loan_history s) = 0
     then (Ok (), set_pool tok (p\<lparr>available_balance := 0, total_balance := 0\<rparr>) s)
     else (Panic, set_pool tok (p\<lparr>available_balance := 0\<rparr>) s))"
proof (cases "profit_of tok (loan_history s) = 0")
  case True
  then have "available_balance p = total_balance p"
    using flash_invD [OF assms] by (simp add: word_unat_eq_iff)
  with True assms(2) show ?thesis by (simp add: flash_withdraw_def usub_def)
next
  case False
  then have "usub (total_balance p) (available_balance p) = None"
    using flash_invD [OF assms] by (simp add: usub_None)
  with False assms(2) show ?thesis by (simp add: flash_withdraw_def usub_def [of "available_balance p"])
qed

theorem withdrawing_the_surplus_panics_witness:
  "fst (flash_withdraw 5 1002090 sample_provider) = Panic"
proof -
  have "flash_inv sample_provider"
    unfolding sample_provider_def by (rule flash.inv_run [OF flash_inv_new sample_provider_ok])
  from withdrawing_the_surplus_panics [OF this sample_provider_pool(1)] show ?thesis
    by (simp add: sample_provider_pool)
qed

end
