(* ===== verification/Options.thy ===== *)
theory Options
  imports DefiErrors
begin

text \<open>
  The options of \<^verbatim>\<open>src/defi/options.rs\<close>: contracts are written, bought and exercised against a fixed price. The
  Black-Scholes formula in floating point (with the volatility of the underlying) is an argument that yields the premium of
  a unit, and so are the clock, read at each use, and random identifiers.
\<close>

section \<open>State\<close>

datatype option_type = Call | Put

datatype option_style = European | American

record option_contract =
  oc_id :: h256
  oc_type :: option_type
  oc_style :: option_style
  oc_underlying :: h256
  oc_strike :: u256
  oc_expiry :: u64
  oc_amount :: u256
  oc_writer :: address
  oc_holder :: "address option"
  oc_premium :: u256
  oc_collateral :: u256
  oc_exercised :: bool
  oc_expired :: bool

record exercise_result =
  er_id :: h256
  payout :: u256
  collateral_returned :: u256

record options_protocol =
  contracts :: "(h256 \<times> option_contract) list"

definition options_new :: options_protocol where
  "options_new = \<lparr> contracts = [] \<rparr>"

section \<open>Prices\<close>

text \<open>The price is computed in \<^verbatim>\<open>u64\<close>, where \<^verbatim>\<open>2000 * 10^18\<close> wraps.\<close>

definition get_spot_price :: "h256 \<Rightarrow> u256" where
  "get_spot_price token = ucast (2000 * 10 ^ 18 :: u64)"

text \<open>\<^verbatim>\<open>a * b / U256::from(10u64.pow(18))\<close>.\<close>

definition per_unit :: "u256 \<Rightarrow> u256 \<Rightarrow> u256 option" where
  "per_unit a b = do { p \<leftarrow> umul a b; udiv p (10 ^ 18) }"

type_synonym pricing = "bool \<Rightarrow> h256 \<Rightarrow> u128 \<Rightarrow> u128 \<Rightarrow> u64 \<Rightarrow> u128"

text \<open>The remaining time is a difference in \<^verbatim>\<open>u64\<close>, from a clock that is read again.\<close>

definition calculate_premium :: "pricing \<Rightarrow> u64 \<Rightarrow> option_type \<Rightarrow> h256 \<Rightarrow> u256 \<Rightarrow> u64 \<Rightarrow> u256 \<Rightarrow> u256 option" where
  "calculate_premium price now kind underlying strike expiry amount = do {
     spot \<leftarrow> as_u128 (get_spot_price underlying);
     k \<leftarrow> as_u128 strike;
     per_unit (ucast (price (kind = Call) underlying spot k (expiry - now))) amount
   }"

definition intrinsic :: "option_type \<Rightarrow> u256 \<Rightarrow> u256 \<Rightarrow> u256 \<Rightarrow> u256 option" where
  "intrinsic kind spot strike amount =
     (case kind of
        Call \<Rightarrow> if strike < spot then do { d \<leftarrow> usub spot strike; per_unit d amount } else Some 0
      | Put \<Rightarrow> if spot < strike then do { d \<leftarrow> usub strike spot; per_unit d amount } else Some 0)"

definition calculate_intrinsic_value :: "option_contract \<Rightarrow> u256 option" where
  "calculate_intrinsic_value c = intrinsic (oc_type c) (get_spot_price (oc_underlying c)) (oc_strike c) (oc_amount c)"

section \<open>Operations\<close>

definition create_option ::
  "pricing \<Rightarrow> u64 \<Rightarrow> u64 \<Rightarrow> h256 \<Rightarrow> address \<Rightarrow> option_type \<Rightarrow> h256 \<Rightarrow> u256 \<Rightarrow> u64 \<Rightarrow> u256 \<Rightarrow> options_protocol
     \<Rightarrow> (defi_error, h256) outcome \<times> options_protocol" where
  "create_option price t0 t1 i writer kind underlying strike expiry amount s =
     (if expiry \<le> t0 then (Err Invalid_Expiry, s)
      else or_panic s (calculate_premium price t1 kind underlying strike expiry amount) (\<lambda>premium.
        or_panic s (case kind of Call \<Rightarrow> Some amount | Put \<Rightarrow> per_unit strike amount) (\<lambda>collat.
          (Ok i, s\<lparr>contracts := AList.update i
             \<lparr> oc_id = i, oc_type = kind, oc_style = European, oc_underlying = underlying, oc_strike = strike,
               oc_expiry = expiry, oc_amount = amount, oc_writer = writer, oc_holder = None, oc_premium = premium,
               oc_collateral = collat, oc_exercised = False, oc_expired = False \<rparr> (contracts s)\<rparr>))))"

definition put_contract :: "h256 \<Rightarrow> option_contract \<Rightarrow> options_protocol \<Rightarrow> options_protocol" where
  "put_contract i c s = s\<lparr>contracts := AList.update i c (contracts s)\<rparr>"

definition buy_option :: "address \<Rightarrow> h256 \<Rightarrow> options_protocol \<Rightarrow> (defi_error, u256) outcome \<times> options_protocol" where
  "buy_option buyer i s =
     (case map_of (contracts s) i of
        None \<Rightarrow> (Err Position_Not_Found, s)
      | Some c \<Rightarrow>
          if oc_holder c \<noteq> None then (Err Not_Authorized, s)
          else (Ok (oc_premium c), put_contract i (c\<lparr>oc_holder := Some buyer\<rparr>) s))"

text \<open>The payout of the code's branches is the intrinsic value; no profit is an error.\<close>

definition profitable :: "option_contract \<Rightarrow> bool" where
  "profitable c = (case oc_type c of
     Call \<Rightarrow> oc_strike c < get_spot_price (oc_underlying c)
   | Put \<Rightarrow> get_spot_price (oc_underlying c) < oc_strike c)"

definition exercise_option :: "u64 \<Rightarrow> address \<Rightarrow> h256 \<Rightarrow> options_protocol \<Rightarrow> (defi_error, exercise_result) outcome \<times> options_protocol" where
  "exercise_option now holder i s =
     (case map_of (contracts s) i of
        None \<Rightarrow> (Err Position_Not_Found, s)
      | Some c \<Rightarrow>
          if oc_holder c \<noteq> Some holder then (Err Not_Authorized, s)
          else if oc_exercised c \<or> oc_expired c then (Err Invalid_Expiry, s)
          else if oc_expiry c < now then (Err Invalid_Expiry, put_contract i (c\<lparr>oc_expired := True\<rparr>) s)
          else or_panic s (calculate_intrinsic_value c) (\<lambda>p.
            if \<not> profitable c then (Err Position_Healthy, s)
            else (Ok \<lparr> er_id = i, payout = p, collateral_returned = saturating_sub (oc_collateral c) p \<rparr>,
                  put_contract i (c\<lparr>oc_exercised := True\<rparr>) s)))"

fun options_value :: "address \<Rightarrow> u256 \<Rightarrow> option_contract list \<Rightarrow> u256 option" where
  "options_value user acc [] = Some acc"
| "options_value user acc (c # cs) =
     (if oc_holder c = Some user \<and> \<not> oc_exercised c \<and> \<not> oc_expired c
      then do { v \<leftarrow> calculate_intrinsic_value c; a \<leftarrow> uadd acc v; options_value user a cs }
      else options_value user acc cs)"

definition get_portfolio_value :: "address \<Rightarrow> options_protocol \<Rightarrow> (defi_error, u256) outcome" where
  "get_portfolio_value user s =
     (case options_value user 0 (map snd (contracts s)) of None \<Rightarrow> Panic | Some v \<Rightarrow> Ok v)"

section \<open>Runs\<close>

datatype option_call =
    Write u64 u64 h256 address option_type h256 u256 u64 u256
  | Buy address h256
  | Exercise u64 address h256

fun option_step :: "pricing \<Rightarrow> option_call \<Rightarrow> options_protocol \<Rightarrow> options_protocol" where
  "option_step price (Write t0 t1 i writer kind underlying strike expiry amount) s =
     snd (create_option price t0 t1 i writer kind underlying strike expiry amount s)"
| "option_step price (Buy buyer i) s = snd (buy_option buyer i s)"
| "option_step price (Exercise now holder i) s = snd (exercise_option now holder i s)"

section \<open>The life of a contract\<close>

text \<open>
  A contract is exercised or expired only once it is held, never both, its strike fits 128 bits, and its collateral is the
  amount for a call, the strike per unit for a put.
\<close>

definition contract_ok :: "option_contract \<Rightarrow> bool" where
  "contract_ok c \<longleftrightarrow> (oc_exercised c \<or> oc_expired c \<longrightarrow> oc_holder c \<noteq> None) \<and> \<not> (oc_exercised c \<and> oc_expired c) \<and>
     unat (oc_strike c) < 2 ^ 128 \<and> (oc_exercised c \<longrightarrow> profitable c) \<and>
     Some (oc_collateral c) = (case oc_type c of Call \<Rightarrow> Some (oc_amount c) | Put \<Rightarrow> per_unit (oc_strike c) (oc_amount c))"

definition options_inv :: "options_protocol \<Rightarrow> bool" where
  "options_inv s \<longleftrightarrow> (\<forall>i c. map_of (contracts s) i = Some c \<longrightarrow> contract_ok c)"

lemma options_inv_put: "options_inv s \<Longrightarrow> contract_ok c \<Longrightarrow> options_inv (put_contract i c s)"
  by (auto simp: options_inv_def put_contract_def update_conv)

lemma options_inv_write: "options_inv s \<Longrightarrow> options_inv (snd (create_option price t0 t1 i writer kind underlying strike expiry amount s))"
proof -
  assume inv: "options_inv s"
  have "contract_ok \<lparr> oc_id = i, oc_type = kind, oc_style = European, oc_underlying = underlying, oc_strike = strike,
      oc_expiry = expiry, oc_amount = amount, oc_writer = writer, oc_holder = None, oc_premium = premium,
      oc_collateral = collat, oc_exercised = False, oc_expired = False \<rparr>"
    if premium: "calculate_premium price t1 kind underlying strike expiry amount = Some premium"
      and col: "(case kind of Call \<Rightarrow> Some amount | Put \<Rightarrow> per_unit strike amount) = Some collat" for premium collat
  proof -
    obtain k where "as_u128 strike = Some k" using premium unfolding calculate_premium_def bind_eq_Some_conv by blast
    then have "unat strike < 2 ^ 128" by (auto simp: as_u128_def split: if_splits)
    with col show ?thesis by (simp add: contract_ok_def split: option_type.splits)
  qed
  with inv show ?thesis
    by (auto simp: create_option_def options_inv_put simp flip: put_contract_def split: or_panic_split)
qed

lemma options_inv_buy: "options_inv s \<Longrightarrow> options_inv (snd (buy_option buyer i s))"
proof -
  assume inv: "options_inv s"
  have "contract_ok (c\<lparr>oc_holder := Some buyer\<rparr>)" if "contract_ok c" for c
    using that by (auto simp: contract_ok_def profitable_def split: option_type.splits)
  moreover have "contract_ok c" if "map_of (contracts s) i = Some c" for c
    using inv that by (auto simp: options_inv_def)
  ultimately show ?thesis using inv by (auto simp: buy_option_def options_inv_put split: option.split)
qed

lemma options_inv_exercise: "options_inv s \<Longrightarrow> options_inv (snd (exercise_option now holder i s))"
proof -
  assume inv: "options_inv s"
  have "contract_ok (c\<lparr>oc_expired := True\<rparr>)" if "contract_ok c" "oc_holder c = Some holder" "\<not> oc_exercised c" for c
    using that by (auto simp: contract_ok_def profitable_def split: option_type.splits)
  moreover have "contract_ok (c\<lparr>oc_exercised := True\<rparr>)"
    if "contract_ok c" "oc_holder c = Some holder" "\<not> oc_expired c" "profitable c" for c
    using that by (auto simp: contract_ok_def profitable_def split: option_type.splits)
  moreover have "contract_ok c" if "map_of (contracts s) i = Some c" for c
    using inv that by (auto simp: options_inv_def)
  ultimately show ?thesis
    using inv by (auto simp: exercise_option_def options_inv_put split: option.split or_panic_split)
qed

lemma options_inv_step: "options_inv s \<Longrightarrow> options_inv (option_step price c s)"
  by (cases c) (simp_all add: options_inv_write options_inv_buy options_inv_exercise)

interpretation contract_book: invariant_of "option_step price" "\<lambda>_ _. True" options_inv
  by unfold_locales (rule options_inv_step)

lemma options_inv_run: "options_inv (run (option_step price) cs options_new)"
  by (rule contract_book.inv_run [OF _ run_ok_always]) (simp add: options_inv_def options_new_def)

section \<open>Contracts that are over\<close>

definition over :: "h256 \<Rightarrow> option_contract \<Rightarrow> options_protocol \<Rightarrow> bool" where
  "over i c s \<longleftrightarrow> map_of (contracts s) i = Some c \<and> (oc_exercised c \<or> oc_expired c) \<and> oc_holder c \<noteq> None"

fun not_written :: "h256 \<Rightarrow> option_call \<Rightarrow> bool" where
  "not_written i (Write t0 t1 j writer kind underlying strike expiry amount) \<longleftrightarrow> j \<noteq> i"
| "not_written i _ \<longleftrightarrow> True"

lemma over_step: "over i c s \<Longrightarrow> not_written i a \<Longrightarrow> over i c (option_step price a s)"
  by (cases a) (auto simp: over_def create_option_def buy_option_def exercise_option_def put_contract_def update_conv
      split: option.split or_panic_split)

interpretation closed_contract: invariant_of "option_step price" "\<lambda>a s. not_written i a" "over i c"
  by unfold_locales (rule over_step)

text \<open>
  An option that was exercised pays once: whatever is called afterwards (short of writing a contract of the same
  identifier), exercising it again is refused for everybody, and so is buying it.
\<close>

theorem options_pay_once:
  assumes "exercise_option now holder i s0 = (Ok r, s1)" and "list_all (not_written i) cs" and "s = run (option_step price) cs s1"
  shows "\<exists>e. exercise_option now' holder' i s = (Err e, s) \<and> e \<in> {Not_Authorized, Invalid_Expiry} \<and>
    buy_option buyer i s = (Err Not_Authorized, s)"
proof -
  obtain c where c: "map_of (contracts s0) i = Some c" "oc_holder c = Some holder" "s1 = put_contract i (c\<lparr>oc_exercised := True\<rparr>) s0"
    using assms(1) by (auto simp: exercise_option_def split: option.splits if_splits)
  then have "over i (c\<lparr>oc_exercised := True\<rparr>) s1"
    by (simp add: over_def put_contract_def update_conv)
  moreover have "run_ok (\<lambda>a s. not_written i a) (option_step price) cs s" for s
    using assms(2) by (induction cs arbitrary: s) auto
  ultimately have "over i (c\<lparr>oc_exercised := True\<rparr>) s"
    unfolding assms(3) by (rule closed_contract.inv_run)
  then show ?thesis
    by (auto simp: over_def exercise_option_def buy_option_def)
qed

section \<open>Collateral\<close>

lemma per_unit_Some: "per_unit a b = Some c \<Longrightarrow> unat c = unat a * unat b div 10 ^ 18"
  by (auto simp: per_unit_def bind_eq_Some_conv checked_ops)

lemma spot_price: "unat (get_spot_price t) = 7751640039368425472"
  by (simp add: get_spot_price_def)

text \<open>
  In every run, an exercised put is paid out of its collateral: payout and returned collateral add up to it.
\<close>

theorem puts_are_covered:
  assumes "s = run (option_step price) cs options_new" and "map_of (contracts s) i = Some c" and "oc_type c = Put"
    and "exercise_option now holder i s = (Ok r, s')"
  shows "unat (payout r) + unat (collateral_returned r) = unat (oc_collateral c) \<and> get_spot_price (oc_underlying c) < oc_strike c"
proof -
  let ?spot = "get_spot_price (oc_underlying c)"
  have ok: "contract_ok c" using options_inv_run [of price cs] assms(1,2) by (auto simp: options_inv_def)
  from assms(2-4) obtain p where p: "calculate_intrinsic_value c = Some p" "profitable c" "payout r = p"
      "collateral_returned r = saturating_sub (oc_collateral c) p"
    by (auto simp: exercise_option_def split: if_splits)
  with assms(3) have lt: "?spot < oc_strike c" by (simp add: profitable_def)
  then obtain d where d: "usub (oc_strike c) ?spot = Some d" "per_unit d (oc_amount c) = Some p"
    using p(1) assms(3) by (auto simp: calculate_intrinsic_value_def intrinsic_def bind_eq_Some_conv)
  have "unat d \<le> unat (oc_strike c)" using d(1) by (auto simp: checked_ops)
  then have "unat p \<le> unat (oc_strike c) * unat (oc_amount c) div 10 ^ 18"
    unfolding per_unit_Some [OF d(2)] by (intro div_le_mono mult_right_mono) simp_all
  also have "\<dots> = unat (oc_collateral c)"
    using ok assms(3) per_unit_Some [of "oc_strike c" "oc_amount c" "oc_collateral c"] by (simp add: contract_ok_def)
  finally show ?thesis using lt by (simp add: p unat_saturating_sub)
qed

text \<open>
  A call whose strike is below the price by more than a unit (\<open>10 ^ 18\<close>) pays at least its collateral and returns
  nothing: the collateral is a number of tokens, the payout their price.
\<close>

theorem calls_outgrow_their_collateral:
  assumes "s = run (option_step price) cs options_new" and "map_of (contracts s) i = Some c" and "oc_type c = Call"
    and "exercise_option now holder i s = (Ok r, s')"
    and "unat (oc_strike c) + 10 ^ 18 \<le> unat (get_spot_price (oc_underlying c))"
  shows "oc_collateral c \<le> payout r \<and> collateral_returned r = 0"
proof -
  let ?spot = "get_spot_price (oc_underlying c)"
  have ok: "contract_ok c" using options_inv_run [of price cs] assms(1,2) by (auto simp: options_inv_def)
  from assms(2-4) obtain p where p: "calculate_intrinsic_value c = Some p" "profitable c" "payout r = p"
      "collateral_returned r = saturating_sub (oc_collateral c) p"
    by (auto simp: exercise_option_def split: if_splits)
  with assms(3) have "oc_strike c < ?spot" by (simp add: profitable_def)
  then obtain d where d: "usub ?spot (oc_strike c) = Some d" "per_unit d (oc_amount c) = Some p"
    using p(1) assms(3) by (auto simp: calculate_intrinsic_value_def intrinsic_def bind_eq_Some_conv)
  have "10 ^ 18 \<le> unat d" using d(1) assms(5) by (auto simp: checked_ops)
  then have "10 ^ 18 * unat (oc_amount c) div 10 ^ 18 \<le> unat p"
    unfolding per_unit_Some [OF d(2)] by (intro div_le_mono mult_right_mono) simp_all
  then have "oc_amount c \<le> p" by (simp add: word_le_nat_alt)
  moreover have "oc_collateral c = oc_amount c" using ok assms(3) by (simp add: contract_ok_def)
  ultimately show ?thesis by (simp add: p saturating_sub_def)
qed

section \<open>Examples\<close>

definition sample_price :: pricing where
  "sample_price is_call underlying spot strike time = 5"

definition sample_contract :: "option_type \<Rightarrow> u256 \<Rightarrow> option_call list" where
  "sample_contract kind strike = [Write 10 10 1 7 kind 2 strike 100 (2 * 10 ^ 18), Buy 8 1]"

definition sample_options :: "option_type \<Rightarrow> u256 \<Rightarrow> options_protocol" where
  "sample_options kind strike = run (option_step sample_price) (sample_contract kind strike) options_new"

lemmas sample_option_defs = sample_options_def sample_contract_def sample_price_def options_new_def create_option_def buy_option_def
  put_contract_def calculate_premium_def per_unit_def get_spot_price_def as_u128_def umul_def udiv_def

lemma sample_put: "map_of (contracts (sample_options Put 10000000000000000000)) 1 = Some
    \<lparr> oc_id = 1, oc_type = Put, oc_style = European, oc_underlying = 2, oc_strike = 10000000000000000000, oc_expiry = 100, oc_amount = 2 * 10 ^ 18,
      oc_writer = 7, oc_holder = Some 8, oc_premium = 10, oc_collateral = 2 * 10 ^ 19, oc_exercised = False, oc_expired = False \<rparr>"
  by (simp add: sample_option_defs)

lemma sample_call: "map_of (contracts (sample_options Call 1000000000000000000)) 1 = Some
    \<lparr> oc_id = 1, oc_type = Call, oc_style = European, oc_underlying = 2, oc_strike = 1000000000000000000, oc_expiry = 100, oc_amount = 2 * 10 ^ 18,
      oc_writer = 7, oc_holder = Some 8, oc_premium = 10, oc_collateral = 2 * 10 ^ 18, oc_exercised = False, oc_expired = False \<rparr>"
  by (simp add: sample_option_defs)

lemma exercise_put: "exercise_option 50 8 1 (sample_options Put 10000000000000000000) =
    (Ok \<lparr> er_id = 1, payout = 4496719921263149056, collateral_returned = 15503280078736850944 \<rparr>,
     snd (exercise_option 50 8 1 (sample_options Put 10000000000000000000)))"
  by (simp add: exercise_option_def sample_put calculate_intrinsic_value_def intrinsic_def profitable_def usub_def per_unit_def umul_def
      udiv_def get_spot_price_def saturating_sub_def)

lemma exercise_call: "exercise_option 50 8 1 (sample_options Call 1000000000000000000) =
    (Ok \<lparr> er_id = 1, payout = 13503280078736850944, collateral_returned = 0 \<rparr>,
     snd (exercise_option 50 8 1 (sample_options Call 1000000000000000000)))"
  by (simp add: exercise_option_def sample_call calculate_intrinsic_value_def intrinsic_def profitable_def usub_def per_unit_def umul_def
      udiv_def get_spot_price_def saturating_sub_def)

theorem options_pay_once_witness:
  "\<exists>e. fst (exercise_option 60 9 1 (option_step sample_price (Buy 9 1) (snd (exercise_option 50 8 1 (sample_options Put 10000000000000000000))))) = Err e"
proof -
  have "list_all (not_written 1) [Buy 9 1]" by simp
  from options_pay_once [OF exercise_put this refl, where now' = 60 and holder' = 9 and price = sample_price and buyer = 9] show ?thesis by auto
qed

theorem puts_are_covered_witness:
  "unat (4496719921263149056 :: u256) + unat (15503280078736850944 :: u256) = 2 * 10 ^ 19"
  using puts_are_covered [OF sample_options_def sample_put _ exercise_put] by simp

theorem calls_outgrow_their_collateral_witness:
  "(2 * 10 ^ 18 :: u256) \<le> 13503280078736850944"
proof -
  have "unat (10 ^ 18 :: u256) + 10 ^ 18 \<le> unat (get_spot_price 2)" by (simp add: spot_price)
  with calls_outgrow_their_collateral [OF sample_options_def sample_call _ exercise_call] show ?thesis by simp
qed

end
