(* ===== verification/Ledgers.thy ===== *)
theory Ledgers
  imports DefiErrors
begin

text \<open>
  The lending pool of \<^verbatim>\<open>src/defi/lending.rs\<close> and the staking of \<^verbatim>\<open>src/defi/yield_farming.rs\<close>: ledgers of amounts per user
  and token. Random identifiers are arguments.
\<close>

section \<open>Ledgers\<close>

type_synonym ledger = "((address \<times> h256) \<times> u256) list"

text \<open>
  \<^verbatim>\<open>*entry(k).or_insert(0) = *entry + v\<close>: the entry exists before the sum can overflow. The value is the sum over the
  entries of a user.
\<close>

definition touch :: "address \<times> h256 \<Rightarrow> ledger \<Rightarrow> ledger" where
  "touch k m = AList.update k (balance m k) m"

definition user_sum :: "address \<Rightarrow> ledger \<Rightarrow> u256 option" where
  "user_sum u m = sum_checked 0 (map snd (filter (\<lambda>((u', _), _). u' = u) m))"

text \<open>What a user owns, as a number.\<close>

definition owned :: "address \<Rightarrow> ledger \<Rightarrow> nat" where
  "owned u m = total_of (filter (\<lambda>((u', _), _). u' = u) m)"

lemma user_sum_Some: "user_sum u m = Some v \<longleftrightarrow> unat v = owned u m"
proof -
  have "sum_list (map unat (map snd m)) = total_of m" for m :: ledger by (induction m) auto
  then show ?thesis by (simp add: user_sum_def owned_def sum_checked_Some)
qed

lemma owned_update: "owned u (AList.update k v m) + (if fst k = u then unat (balance m k) else 0) = owned u m + (if fst k = u then unat v else 0)"
  by (induction m) (auto simp: owned_def balance_def)

lemma owned_add:
  "uadd (balance m k) v = Some b \<Longrightarrow> owned u (AList.update k b m) = owned u m + (if fst k = u then unat v else 0)"
  using owned_update [of u k b m] by (auto simp: checked_ops split: if_splits)

lemma owned_touch [simp]: "owned u (touch k m) = owned u m"
  using owned_update [of u k "balance m k" m] by (auto simp: touch_def split: if_splits)

section \<open>Lending\<close>

record interest_rate =
  supply_rate :: u32
  borrow_rate :: u32
  utilization :: u32

record lending_pool =
  lend_config :: defi_config
  deposits :: ledger
  borrows :: ledger
  interest_rates :: "h256 \<rightharpoonup> interest_rate"

definition lending_new :: "defi_config \<Rightarrow> lending_pool" where
  "lending_new c = \<lparr> lend_config = c, deposits = [], borrows = [], interest_rates = Map.empty \<rparr>"

definition lending_deposit :: "address \<Rightarrow> h256 \<Rightarrow> u256 \<Rightarrow> lending_pool \<Rightarrow> (defi_error, u256) outcome \<times> lending_pool" where
  "lending_deposit user token amount s =
     or_panic (s\<lparr>deposits := touch (user, token) (deposits s)\<rparr>) (uadd (balance (deposits s) (user, token)) amount)
       (\<lambda>b. (Ok b, s\<lparr>deposits := AList.update (user, token) b (deposits s)\<rparr>))"

definition lending_borrow ::
  "h256 \<Rightarrow> address \<Rightarrow> h256 \<Rightarrow> u256 \<Rightarrow> h256 \<Rightarrow> lending_pool \<Rightarrow> (defi_error, h256) outcome \<times> lending_pool" where
  "lending_borrow i user token amount collateral_token s =
     or_panic (s\<lparr>borrows := touch (user, token) (borrows s)\<rparr>) (uadd (balance (borrows s) (user, token)) amount)
       (\<lambda>b. (Ok i, s\<lparr>borrows := AList.update (user, token) b (borrows s)\<rparr>))"

definition get_account_value :: "address \<Rightarrow> lending_pool \<Rightarrow> (defi_error, u256) outcome" where
  "get_account_value user s = (case user_sum user (deposits s) of None \<Rightarrow> Panic | Some v \<Rightarrow> Ok v)"

section \<open>Staking\<close>

record yield_optimizer =
  staked_balances :: ledger

definition yield_new :: yield_optimizer where
  "yield_new = \<lparr> staked_balances = [] \<rparr>"

definition stake :: "address \<Rightarrow> h256 \<Rightarrow> u256 \<Rightarrow> yield_optimizer \<Rightarrow> (defi_error, unit) outcome \<times> yield_optimizer" where
  "stake user pool amount s =
     or_panic (s\<lparr>staked_balances := touch (user, pool) (staked_balances s)\<rparr>) (uadd (balance (staked_balances s) (user, pool)) amount)
       (\<lambda>b. (Ok (), s\<lparr>staked_balances := AList.update (user, pool) b (staked_balances s)\<rparr>))"

definition get_staked_value :: "address \<Rightarrow> yield_optimizer \<Rightarrow> (defi_error, u256) outcome" where
  "get_staked_value user s = (case user_sum user (staked_balances s) of None \<Rightarrow> Panic | Some v \<Rightarrow> Ok v)"

section \<open>The contract of both\<close>

text \<open>
  An account: \<open>put\<close> tells whether a payment went through and the new state, \<open>worth\<close> what a user owns. A payment that goes
  through adds its amount to its user and nothing to others, one that does not adds nothing.
\<close>

locale account =
  fixes put :: "'p \<Rightarrow> 's \<Rightarrow> bool \<times> 's" and payment :: "'p \<Rightarrow> address \<times> u256" and worth :: "address \<Rightarrow> 's \<Rightarrow> nat"
  assumes worth_put: "worth u (snd (put p s)) = worth u s + (if fst (put p s) \<and> fst (payment p) = u then unat (snd (payment p)) else 0)"
begin

fun paid :: "address \<Rightarrow> 'p list \<Rightarrow> 's \<Rightarrow> nat" where
  "paid u [] s = 0"
| "paid u (p # ps) s =
     (if fst (put p s) \<and> fst (payment p) = u then unat (snd (payment p)) else 0) + paid u ps (snd (put p s))"

lemma worth_run: "worth u (run (\<lambda>p s. snd (put p s)) ps s) = worth u s + paid u ps s"
  by (induction ps arbitrary: s) (simp_all add: worth_put)

end

datatype lending_call = Lend address h256 u256 | Borrow h256 address h256 u256 h256

fun lending_do :: "lending_call \<Rightarrow> lending_pool \<Rightarrow> bool \<times> lending_pool" where
  "lending_do (Lend u t v) s = (is_ok (fst (lending_deposit u t v s)), snd (lending_deposit u t v s))"
| "lending_do (Borrow i u t v c) s = (is_ok (fst (lending_borrow i u t v c s)), snd (lending_borrow i u t v c s))"

fun lent :: "lending_call \<Rightarrow> address \<times> u256" where
  "lent (Lend u t v) = (u, v)"
| "lent (Borrow i u t v c) = (u, 0)"

interpretation lender: account lending_do lent "\<lambda>u s. owned u (deposits s)"
proof
  fix u p s
  show "owned u (deposits (snd (lending_do p s))) =
      owned u (deposits s) + (if fst (lending_do p s) \<and> fst (lent p) = u then unat (snd (lent p)) else 0)"
    by (cases p) (auto simp: lending_deposit_def lending_borrow_def owned_add split: or_panic_split)
qed

definition stake_do :: "address \<times> h256 \<times> u256 \<Rightarrow> yield_optimizer \<Rightarrow> bool \<times> yield_optimizer" where
  "stake_do p s = (case p of (u, k, v) \<Rightarrow> (is_ok (fst (stake u k v s)), snd (stake u k v s)))"

interpretation staker: account stake_do "\<lambda>(u, k, v). (u, v)" "\<lambda>u s. owned u (staked_balances s)"
proof
  fix u p s
  show "owned u (staked_balances (snd (stake_do p s))) = owned u (staked_balances s)
      + (if fst (stake_do p s) \<and> fst (case p of (u, k, v) \<Rightarrow> (u, v)) = u then unat (snd (case p of (u, k, v) \<Rightarrow> (u, v))) else 0)"
    by (cases p) (auto simp: stake_do_def stake_def owned_add split: or_panic_split)
qed

text \<open>The deposits of a user among the calls of a run, up to the ones that overflow.\<close>

fun deposited :: "address \<Rightarrow> lending_call list \<Rightarrow> lending_pool \<Rightarrow> nat" where
  "deposited u [] s = 0"
| "deposited u (Lend u' t v # cs) s =
     (if u' = u \<and> is_ok (fst (lending_deposit u' t v s)) then unat v else 0) + deposited u cs (snd (lending_deposit u' t v s))"
| "deposited u (Borrow i u' t v c # cs) s = deposited u cs (snd (lending_borrow i u' t v c s))"

lemma deposited_paid: "deposited u cs s = lender.paid u cs s"
  by (induction u cs s rule: deposited.induct) auto

text \<open>
  The account value of a user is what the user's accepted deposits add up to, in every run, borrows included; it is
  reported exactly when the sum fits its 256 bits, and is a panic otherwise.
\<close>

theorem account_value_is_what_was_deposited:
  "get_account_value u (run (\<lambda>p s. snd (lending_do p s)) cs (lending_new c)) =
     (if deposited u cs (lending_new c) < 2 ^ 256 then Ok (of_nat (deposited u cs (lending_new c))) else Panic)"
proof -
  let ?s = "run (\<lambda>p s. snd (lending_do p s)) cs (lending_new c)" and ?n = "deposited u cs (lending_new c)"
  have n: "owned u (deposits ?s) = ?n"
    using lender.worth_run [of u cs "lending_new c"] by (simp add: deposited_paid lending_new_def owned_def)
  show ?thesis
  proof (cases "?n < 2 ^ 256")
    case True
    then have "user_sum u (deposits ?s) = Some (of_nat ?n)"
      by (simp add: user_sum_Some n unat_of_nat)
    with True show ?thesis by (simp add: get_account_value_def)
  next
    case False
    then have "user_sum u (deposits ?s) = None"
      using unat_less_256 by (metis n not_Some_eq user_sum_Some)
    with False show ?thesis by (simp add: get_account_value_def)
  qed
qed

text \<open>
  A loan is granted to anybody, whatever the amount, the deposits and the token named as collateral, as long as the debt
  fits its 256 bits; no account value changes by it.
\<close>

theorem loans_need_no_collateral:
  assumes "unat (balance (borrows s) (u, t)) + unat v < 2 ^ 256"
  shows "fst (lending_borrow i u t v c s) = Ok i \<and> balance (borrows (snd (lending_borrow i u t v c s))) (u, t) = balance (borrows s) (u, t) + v \<and>
    get_account_value w (snd (lending_borrow i u t v c s)) = get_account_value w s"
  using assms by (simp add: lending_borrow_def uadd_def balance_update get_account_value_def)

theorem loans_need_no_collateral_witness:
  "fst (lending_borrow 9 1 2 1000 3 (lending_new defi_config_default)) = Ok 9"
  using loans_need_no_collateral [of "lending_new defi_config_default" 1 2 1000 9 3] by (simp add: lending_new_def balance_def)

end
