(* ===== verification/DefiEngine.thy ===== *)
theory DefiEngine
  imports Perpetual FlashLoan Options Ledgers
begin

text \<open>
  The engine of \<^verbatim>\<open>src/defi/mod.rs\<close>: it holds the perpetual futures, the flash loans, the options, the lending pool and the
  staking, forwards calls to them, and values what a user has in all of them. The guards on opening and liquidating positions
  are in \<^verbatim>\<open>Perpetual\<close>. The connection to the external exchange is an argument: \<open>None\<close> when it is not enabled.
\<close>

section \<open>State\<close>

record defi_engine =
  de_config :: defi_config
  de_perp :: perp_engine
  de_flash :: flash_provider
  de_options :: options_protocol
  de_lending :: lending_pool
  de_yield :: yield_optimizer

definition defi_new :: "defi_config \<Rightarrow> defi_engine" where
  "defi_new c = \<lparr> de_config = c, de_perp = perp_new c, de_flash = flash_new (flash_loan_fee_bps c), de_options = options_new,
     de_lending = lending_new c, de_yield = yield_new \<rparr>"

section \<open>Forwarding\<close>

definition execute_flash_loan ::
  "h256 \<Rightarrow> u64 \<Rightarrow> address \<Rightarrow> h256 \<Rightarrow> u256 \<Rightarrow> u8 list \<Rightarrow> defi_engine \<Rightarrow> (defi_error, h256) outcome \<times> defi_engine" where
  "execute_flash_loan i now who token amount data s =
     (case execute_loan i now who token amount data (de_flash s) of (r, f) \<Rightarrow> (r, s\<lparr>de_flash := f\<rparr>))"

definition engine_create_option ::
  "pricing \<Rightarrow> u64 \<Rightarrow> u64 \<Rightarrow> h256 \<Rightarrow> address \<Rightarrow> option_type \<Rightarrow> h256 \<Rightarrow> u256 \<Rightarrow> u64 \<Rightarrow> u256 \<Rightarrow> defi_engine
     \<Rightarrow> (defi_error, h256) outcome \<times> defi_engine" where
  "engine_create_option price t0 t1 i writer kind underlying strike expiry amount s =
     (case create_option price t0 t1 i writer kind underlying strike expiry amount (de_options s) of
        (r, p) \<Rightarrow> (r, s\<lparr>de_options := p\<rparr>))"

definition deposit_to_lending :: "address \<Rightarrow> h256 \<Rightarrow> u256 \<Rightarrow> defi_engine \<Rightarrow> (defi_error, u256) outcome \<times> defi_engine" where
  "deposit_to_lending user token amount s =
     (case lending_deposit user token amount (de_lending s) of (r, p) \<Rightarrow> (r, s\<lparr>de_lending := p\<rparr>))"

definition borrow_from_lending ::
  "h256 \<Rightarrow> address \<Rightarrow> h256 \<Rightarrow> u256 \<Rightarrow> h256 \<Rightarrow> defi_engine \<Rightarrow> (defi_error, h256) outcome \<times> defi_engine" where
  "borrow_from_lending i user token amount collateral_token s =
     (case lending_borrow i user token amount collateral_token (de_lending s) of (r, p) \<Rightarrow> (r, s\<lparr>de_lending := p\<rparr>))"

definition stake_for_yield :: "address \<Rightarrow> h256 \<Rightarrow> u256 \<Rightarrow> defi_engine \<Rightarrow> (defi_error, unit) outcome \<times> defi_engine" where
  "stake_for_yield user pool amount s =
     (case stake user pool amount (de_yield s) of (r, y) \<Rightarrow> (r, s\<lparr>de_yield := y\<rparr>))"

section \<open>The portfolio\<close>

record portfolio =
  pf_total :: u256
  pf_perpetual :: u256
  pf_lending :: u256
  pf_options :: u256
  pf_yield :: u256
  pf_hyperliquid :: u256

definition hyperliquid_value :: "(address \<Rightarrow> u256 option) option \<Rightarrow> address \<Rightarrow> u256" where
  "hyperliquid_value hl user =
     (case hl of None \<Rightarrow> 0 | Some info \<Rightarrow> (case info user of None \<Rightarrow> 0 | Some b \<Rightarrow> b))"

definition calculate_portfolio_value ::
  "(address \<Rightarrow> u256 option) option \<Rightarrow> address \<Rightarrow> defi_engine \<Rightarrow> (defi_error, portfolio) outcome" where
  "calculate_portfolio_value hl user s = fst
     (and_then (get_position_value user (de_perp s), ()) (\<lambda>perp _.
      and_then (get_account_value user (de_lending s), ()) (\<lambda>lend _.
      and_then (get_portfolio_value user (de_options s), ()) (\<lambda>opts _.
      and_then (get_staked_value user (de_yield s), ()) (\<lambda>farm _.
        let h = hyperliquid_value hl user in
        or_panic () (sum_checked perp [lend, opts, farm, h]) (\<lambda>v.
          (Ok \<lparr> pf_total = v, pf_perpetual = perp, pf_lending = lend, pf_options = opts, pf_yield = farm, pf_hyperliquid = h \<rparr>, ())))))))"

section \<open>The external exchange\<close>

definition place_hyperliquid_order ::
  "(address \<Rightarrow> string \<Rightarrow> u256 \<Rightarrow> u32 \<Rightarrow> bool \<Rightarrow> (defi_error, h256) outcome) option \<Rightarrow> address \<Rightarrow> string \<Rightarrow> u256 \<Rightarrow> u32 \<Rightarrow> bool
     \<Rightarrow> (defi_error, h256) outcome" where
  "place_hyperliquid_order hl trader symbol sz leverage long =
     (case hl of Some place \<Rightarrow> place trader symbol sz leverage long | None \<Rightarrow> Err Market_Closed)"

definition get_hyperliquid_positions ::
  "(address \<Rightarrow> (defi_error, 'p list) outcome) option \<Rightarrow> address \<Rightarrow> (defi_error, 'p list) outcome" where
  "get_hyperliquid_positions hl trader = (case hl of Some positions \<Rightarrow> positions trader | None \<Rightarrow> Ok [])"

definition deposit_to_hyperliquid_vault ::
  "(address \<Rightarrow> address \<Rightarrow> u256 \<Rightarrow> (defi_error, h256) outcome) option \<Rightarrow> address \<Rightarrow> address \<Rightarrow> u256 \<Rightarrow> (defi_error, h256) outcome" where
  "deposit_to_hyperliquid_vault hl user vault amount =
     (case hl of Some pay \<Rightarrow> pay user vault amount | None \<Rightarrow> Err Market_Closed)"

section \<open>What the portfolio says\<close>

lemma portfolio_Ok:
  "calculate_portfolio_value hl u s = Ok v \<longleftrightarrow>
     get_position_value u (de_perp s) = Ok (pf_perpetual v) \<and> get_account_value u (de_lending s) = Ok (pf_lending v) \<and>
     get_portfolio_value u (de_options s) = Ok (pf_options v) \<and> get_staked_value u (de_yield s) = Ok (pf_yield v) \<and>
     hyperliquid_value hl u = pf_hyperliquid v \<and>
     unat (pf_total v) = unat (pf_perpetual v) + unat (pf_lending v) + unat (pf_options v) + unat (pf_yield v) + unat (pf_hyperliquid v)"
  (is "?l \<longleftrightarrow> ?r")
proof -
  have "?l \<longleftrightarrow> (\<exists>p l opt f t. get_position_value u (de_perp s) = Ok p \<and> get_account_value u (de_lending s) = Ok l \<and>
      get_portfolio_value u (de_options s) = Ok opt \<and> get_staked_value u (de_yield s) = Ok f \<and>
      sum_checked p [l, opt, f, hyperliquid_value hl u] = Some t \<and>
      v = \<lparr> pf_total = t, pf_perpetual = p, pf_lending = l, pf_options = opt, pf_yield = f, pf_hyperliquid = hyperliquid_value hl u \<rparr>)"
    unfolding calculate_portfolio_value_def
    by (cases "get_position_value u (de_perp s)"; cases "get_account_value u (de_lending s)";
        cases "get_portfolio_value u (de_options s)"; cases "get_staked_value u (de_yield s)")
      (auto simp: Let_def or_panic_def simp del: sum_checked.simps split: option.splits)
  also have "\<dots> \<longleftrightarrow> ?r"
    by (cases v) (auto simp: sum_checked_Some simp del: sum_checked.simps)
  finally show ?thesis .
qed

lemma account_value_deposit:
  assumes "get_account_value u p = Ok v" "lending_deposit u t amount p = (r, p')" "is_ok r" "unat v + unat amount < 2 ^ 256"
  shows "get_account_value u p' = Ok (v + amount)"
proof -
  obtain b where b: "uadd (balance (deposits p) (u, t)) amount = Some b" "p' = p\<lparr>deposits := AList.update (u, t) b (deposits p)\<rparr>"
    using assms(2,3) by (auto simp: lending_deposit_def is_ok_iff)
  have "unat v = owned u (deposits p)" using assms(1) by (auto simp: get_account_value_def user_sum_Some split: option.splits)
  then have "user_sum u (deposits p') = Some (v + amount)"
    using owned_add [OF b(1), of u] assms(4) by (simp add: user_sum_Some b(2) unat_word_ariths)
  then show ?thesis by (simp add: get_account_value_def)
qed

text \<open>
  The portfolio of a user is the sum, without overflow, of what the five components report; a deposit that is accepted
  raises it by its amount, in the lending part, and leaves the other parts.
\<close>

theorem deposits_raise_the_portfolio:
  assumes "calculate_portfolio_value hl u s = Ok v" and "deposit_to_lending u t amount s = (Ok b, s')"
    and "unat (pf_total v) + unat amount < 2 ^ 256"
  shows "unat (pf_total v) = unat (pf_perpetual v) + unat (pf_lending v) + unat (pf_options v) + unat (pf_yield v) + unat (pf_hyperliquid v) \<and>
    calculate_portfolio_value hl u s' = Ok (v\<lparr>pf_total := pf_total v + amount, pf_lending := pf_lending v + amount\<rparr>)"
proof -
  note v = assms(1) [unfolded portfolio_Ok]
  obtain p' where p': "lending_deposit u t amount (de_lending s) = (Ok b, p')" "s' = s\<lparr>de_lending := p'\<rparr>"
    using assms(2) by (auto simp: deposit_to_lending_def split: prod.splits)
  have "get_account_value u p' = Ok (pf_lending v + amount)"
    using account_value_deposit [of u "de_lending s" "pf_lending v" t amount "Ok b" p'] v p' assms(3) by simp
  then show ?thesis
    unfolding portfolio_Ok using v assms(3) by (simp add: p'(2) unat_word_ariths)
qed

text \<open>
  Borrowed money counts as wealth: a user who borrows an amount and deposits it is worth that much more, since the
  portfolio does not look at debts.
\<close>

theorem borrowed_money_raises_the_portfolio:
  assumes "calculate_portfolio_value hl u s = Ok v" and "borrow_from_lending i u t amount c s = (Ok l, s1)"
    and "deposit_to_lending u t amount s1 = (Ok b, s2)" and "unat (pf_total v) + unat amount < 2 ^ 256"
  shows "calculate_portfolio_value hl u s2 = Ok (v\<lparr>pf_total := pf_total v + amount, pf_lending := pf_lending v + amount\<rparr>) \<and>
    unat (balance (borrows (de_lending s2)) (u, t)) = unat (balance (borrows (de_lending s)) (u, t)) + unat amount"
proof -
  obtain d where d: "uadd (balance (borrows (de_lending s)) (u, t)) amount = Some d"
      "s1 = s\<lparr>de_lending := (de_lending s)\<lparr>borrows := AList.update (u, t) d (borrows (de_lending s))\<rparr>\<rparr>"
    using assms(2) by (auto simp: borrow_from_lending_def lending_borrow_def split: prod.splits)
  have "get_account_value u (de_lending s1) = get_account_value u (de_lending s)"
    by (simp add: d(2) get_account_value_def)
  then have v: "get_account_value u (de_lending s1) = Ok (pf_lending v)" using assms(1) by (simp add: portfolio_Ok)
  obtain p' where p': "lending_deposit u t amount (de_lending s1) = (Ok b, p')" "s2 = s1\<lparr>de_lending := p'\<rparr>"
    using assms(3) by (auto simp: deposit_to_lending_def split: prod.splits)
  have "get_account_value u p' = Ok (pf_lending v + amount)"
    using account_value_deposit [OF v p'(1)] assms(1,4) by (simp add: portfolio_Ok)
  moreover have "borrows p' = borrows (de_lending s1)"
    using p'(1) by (auto simp: lending_deposit_def)
  ultimately show ?thesis
    using assms(1,4) d unfolding portfolio_Ok by (simp add: p'(2) unat_word_ariths balance_update checked_ops)
qed

section \<open>Examples\<close>

lemma sample_portfolio: "calculate_portfolio_value None 1 (defi_new defi_config_default) =
    Ok \<lparr> pf_total = 0, pf_perpetual = 0, pf_lending = 0, pf_options = 0, pf_yield = 0, pf_hyperliquid = 0 \<rparr>"
  by (simp add: portfolio_Ok defi_new_def get_position_value_def get_account_value_def get_portfolio_value_def get_staked_value_def
      perp_new_def lending_new_def options_new_def yield_new_def user_sum_def hyperliquid_value_def)

theorem deposits_raise_the_portfolio_witness:
  "map_option pf_total (case calculate_portfolio_value None 1 (snd (deposit_to_lending 1 2 70 (defi_new defi_config_default))) of
     Ok v \<Rightarrow> Some v | _ \<Rightarrow> None) = Some 70"
proof -
  have d: "deposit_to_lending 1 2 70 (defi_new defi_config_default) = (Ok 70, snd (deposit_to_lending 1 2 70 (defi_new defi_config_default)))"
    by (simp add: deposit_to_lending_def lending_deposit_def defi_new_def lending_new_def balance_def uadd_def)
  from deposits_raise_the_portfolio [OF sample_portfolio d] show ?thesis by simp
qed

theorem borrowed_money_raises_the_portfolio_witness:
  "\<exists>s v. calculate_portfolio_value None 1 s = Ok v \<and> pf_total v = 50 \<and> balance (borrows (de_lending s)) (1, 2) = 50"
proof -
  define s1 where "s1 = snd (borrow_from_lending 9 1 2 50 3 (defi_new defi_config_default))"
  have b: "borrow_from_lending 9 1 2 50 3 (defi_new defi_config_default) = (Ok 9, s1)"
    by (simp add: s1_def borrow_from_lending_def lending_borrow_def defi_new_def lending_new_def balance_def uadd_def)
  have d: "deposit_to_lending 1 2 50 s1 = (Ok 50, snd (deposit_to_lending 1 2 50 s1))"
    by (simp add: s1_def borrow_from_lending_def lending_borrow_def deposit_to_lending_def lending_deposit_def defi_new_def lending_new_def
        balance_def uadd_def)
  let ?s2 = "snd (deposit_to_lending 1 2 50 s1)"
  from borrowed_money_raises_the_portfolio [OF sample_portfolio b d]
  have "calculate_portfolio_value None 1 ?s2 = Ok \<lparr> pf_total = 50, pf_perpetual = 0, pf_lending = 50, pf_options = 0, pf_yield = 0, pf_hyperliquid = 0 \<rparr>"
    and "unat (balance (borrows (de_lending ?s2)) (1, 2)) = 50"
    by (simp_all add: defi_new_def lending_new_def balance_def)
  then show ?thesis
    by (intro exI [of _ ?s2] exI [of _ "\<lparr> pf_total = 50, pf_perpetual = 0, pf_lending = 50, pf_options = 0, pf_yield = 0, pf_hyperliquid = 0 \<rparr>"])
      (simp add: word_unat_eq_iff)
qed

end
