(* ===== verification/PerpetualProps.thy ===== *)
theory PerpetualProps
  imports Perpetual
begin

text \<open>
  What the perpetual futures engine of theory \<open>Perpetual\<close> guarantees: which states its calls can
  reach, what closing and liquidating a position pay, how the liquidation price and the funding rate
  come about.
\<close>

section \<open>Signed 128-bit arithmetic within its range\<close>

lemma sint_of_int_128:
  assumes "- (2 ^ 127) \<le> k" "k < 2 ^ 127"
  shows "sint (word_of_int k :: i128) = k"
  using assms by (simp add: signed_of_int signed_take_bit_int_eq_self)

lemma i128_minus: "sint (a - b :: i128) = sint a - sint b"
  if "- (2 ^ 127) \<le> sint a - sint b" "sint a - sint b < 2 ^ 127"
  using sint_of_int_128 [OF that] by simp

lemma i128_plus: "sint (a + b :: i128) = sint a + sint b"
  if "- (2 ^ 127) \<le> sint a + sint b" "sint a + sint b < 2 ^ 127"
  using sint_of_int_128 [OF that] by simp

lemma i128_times3: "sint (a * b * c :: i128) = sint a * sint b * sint c"
  if "- (2 ^ 127) \<le> sint a * sint b * sint c" "sint a * sint b * sint c < 2 ^ 127"
  using sint_of_int_128 [OF that] by simp

lemma i128_uminus: "sint (- a :: i128) = - sint a"
  if "- (2 ^ 127) \<le> - sint a" "- sint a < 2 ^ 127"
  using sint_of_int_128 [OF that] by simp

lemma sint_128_small:
  assumes "unat (a :: i128) < 2 ^ 127"
  shows "sint a = int (unat a)"
proof -
  have "int (unat a) < 2 ^ 127"
    using assms by (simp only: of_nat_less_numeral_power_cancel_iff)
  moreover have "- (2 ^ 127) \<le> int (unat a)"
    by (rule order_trans [of _ 0]) simp_all
  ultimately have "sint (word_of_int (int (unat a)) :: i128) = int (unat a)"
    by (intro sint_of_int_128)
  moreover have "(word_of_int (int (unat a)) :: i128) = a" by simp
  ultimately show ?thesis by metis
qed

lemma sint_scast_64 [simp]: "sint (scast (r :: i64) :: i128) = sint r"
proof -
  have "- (2 ^ 63) \<le> sint r" "sint r < 2 ^ 63"
    using sint_greater_eq [of r] sint_less [of r] by simp_all
  then show ?thesis
    unfolding scast_eq by (intro sint_of_int_128) simp_all
qed

lemma sint_ucast_64 [simp]: "sint (ucast (r :: u64) :: i128) = int (unat r)"
proof -
  have r: "unat r < 2 ^ 64" using unsigned_less [of r] by simp
  then have "unat (ucast r :: i128) = unat r"
    by (simp add: unsigned_ucast_eq take_bit_nat_eq_self)
  with r sint_128_small [of "ucast r"] show ?thesis by simp
qed

section \<open>Profit and funding as integers\<close>

definition value_at :: "position \<Rightarrow> u256 \<Rightarrow> int" where
  "value_at p price = int (unat (pos_size p)) * int (unat price)"

text \<open>The product the funding is computed from, for a number of elapsed funding periods.\<close>

definition funding_product :: "defi_config \<Rightarrow> u64 \<Rightarrow> position \<Rightarrow> perp_market \<Rightarrow> int" where
  "funding_product cfg now p m =
     value_at p (mark_price m) * sint (funding_rate m)
       * int (unat (now - last_funding_update p) div unat (funding_interval cfg))"

lemma checked_value:
  assumes "value_at p price < 2 ^ 126"
  obtains v w where "umul (pos_size p) price = Some v" "as_u128 v = Some w" "sint w = value_at p price"
proof -
  have n: "unat (pos_size p) * unat price < 2 ^ 126"
    using assms unfolding value_at_def by (metis of_nat_less_numeral_power_cancel_iff of_nat_mult)
  then obtain v where v: "umul (pos_size p) price = Some v"
    by (cases "umul (pos_size p) price") (auto simp: umul_None)
  then have uv: "unat v = unat (pos_size p) * unat price" by (simp add: checked_ops)
  then obtain w where w: "as_u128 v = Some w"
    using n by (simp add: as_u128_def)
  then have uw: "unat w = unat (pos_size p) * unat price" using uv by (simp add: checked_ops)
  then have "sint w = int (unat w)"
    using n by (intro sint_128_small) simp
  then have "sint w = value_at p price"
    by (simp only: uw value_at_def of_nat_mult)
  with v w that show ?thesis by blast
qed

lemma value_at_nonneg: "0 \<le> value_at p price"
  by (simp add: value_at_def)

lemma calculate_pnl_exact:
  assumes "value_at p (entry_price p) < 2 ^ 126" "value_at p price < 2 ^ 126"
  obtains r where "calculate_pnl p price = Some r"
    and "sint r = (if is_long p then value_at p price - value_at p (entry_price p)
                   else value_at p (entry_price p) - value_at p price)"
proof -
  obtain e ev where e: "umul (pos_size p) (entry_price p) = Some e" "as_u128 e = Some ev"
      "sint ev = value_at p (entry_price p)"
    by (rule checked_value [OF assms(1)])
  obtain c cv where c: "umul (pos_size p) price = Some c" "as_u128 c = Some cv"
      "sint cv = value_at p price"
    by (rule checked_value [OF assms(2)])
  have "sint (cv - ev) = sint cv - sint ev" "sint (ev - cv) = sint ev - sint cv"
    by (rule i128_minus; use assms e(3) c(3) value_at_nonneg [of p price]
        value_at_nonneg [of p "entry_price p"] in simp)+
  with e c show ?thesis
    by (intro that [of "if is_long p then cv - ev else ev - cv"]) (auto simp: calculate_pnl_def)
qed

lemma sdiv_10000_bounds:
  assumes "\<bar>k :: int\<bar> < 2 ^ 126"
  shows "\<bar>k sdiv 10000\<bar> \<le> 2 ^ 113"
proof -
  have "\<bar>k sdiv 10000\<bar> = \<bar>k\<bar> div 10000"
    by (cases "k = 0") (simp_all add: signed_divide_int_def abs_mult abs_sgn_eq)
  also have "\<dots> \<le> 2 ^ 126 div 10000"
    using assms by (intro zdiv_mono1) simp_all
  also have "\<dots> \<le> 2 ^ 113" by simp
  finally show ?thesis .
qed

lemma idiv_10000:
  assumes "\<bar>sint a\<bar> < 2 ^ 126"
  shows "sint (idiv a 10000) = sint a sdiv 10000"
proof -
  have "sint (10000 :: i128) = 10000" by simp
  moreover have "sint (word_of_int (sint a sdiv 10000) :: i128) = sint a sdiv 10000"
    using sdiv_10000_bounds [OF assms] by (intro sint_of_int_128) (simp_all add: abs_le_iff)
  ultimately show ?thesis by (simp only: idiv_def)
qed

lemma calculate_funding_exact:
  assumes "funding_interval cfg \<noteq> 0" "value_at p (mark_price m) < 2 ^ 126"
    and "\<bar>funding_product cfg now p m\<bar> < 2 ^ 126"
  obtains f where "calculate_accumulated_funding cfg now p m = Some f"
    and "sint f = (if is_long p then - funding_product cfg now p m else funding_product cfg now p m) sdiv 10000"
proof -
  define n where "n = (now - last_funding_update p) div funding_interval cfg"
  have n: "udiv (now - last_funding_update p) (funding_interval cfg) = Some n"
    using assms(1) by (simp add: udiv_def n_def)
  have un: "int (unat n) = int (unat (now - last_funding_update p) div unat (funding_interval cfg))"
    by (simp only: n_def unat_div)
  obtain v w where v: "umul (pos_size p) (mark_price m) = Some v" "as_u128 v = Some w"
      "sint w = value_at p (mark_price m)"
    by (rule checked_value [OF assms(2)])
  define pr :: i128 where "pr = w * scast (funding_rate m) * ucast n"
  have prod: "sint w * sint (scast (funding_rate m) :: i128) * sint (ucast n :: i128) = funding_product cfg now p m"
    by (simp only: sint_scast_64 sint_ucast_64 v(3) un funding_product_def)
  have pr: "sint pr = funding_product cfg now p m"
    unfolding pr_def prod [symmetric]
    by (rule i128_times3; unfold prod; use assms(3) in \<open>simp add: abs_less_iff\<close>)
  have npr: "sint (- pr) = - funding_product cfg now p m"
    by (subst i128_uminus; unfold pr; use assms(3) in \<open>simp add: abs_less_iff\<close>)
  have "calculate_accumulated_funding cfg now p m = Some (if is_long p then idiv (- pr) 10000 else idiv pr 10000)"
    by (simp add: calculate_accumulated_funding_def n v pr_def)
  moreover have "sint (idiv pr 10000) = funding_product cfg now p m sdiv 10000"
      "sint (idiv (- pr) 10000) = (- funding_product cfg now p m) sdiv 10000"
    using assms(3) idiv_10000 [of pr] idiv_10000 [of "- pr"] by (simp_all only: pr npr abs_minus_cancel)
  ultimately show ?thesis
    by (intro that) auto
qed

section \<open>Closing a position\<close>

definition pnl_at :: "position \<Rightarrow> u256 \<Rightarrow> int" where
  "pnl_at p price = (if is_long p then value_at p price - value_at p (entry_price p)
                     else value_at p (entry_price p) - value_at p price)"

definition funding_of :: "defi_config \<Rightarrow> u64 \<Rightarrow> position \<Rightarrow> perp_market \<Rightarrow> int" where
  "funding_of cfg now p m =
     (if is_long p then - funding_product cfg now p m else funding_product cfg now p m) sdiv 10000"

text \<open>Nothing of the closing computation leaves the range of \<^verbatim>\<open>i128\<close>.\<close>

definition closing_fits :: "defi_config \<Rightarrow> u64 \<Rightarrow> position \<Rightarrow> perp_market \<Rightarrow> bool" where
  "closing_fits cfg now p m \<longleftrightarrow> funding_interval cfg \<noteq> 0 \<and>
     value_at p (entry_price p) < 2 ^ 125 \<and> value_at p (mark_price m) < 2 ^ 125 \<and>
     unat (collateral p) < 2 ^ 125 \<and> \<bar>funding_product cfg now p m\<bar> < 2 ^ 125"

lemma close_position_effect:
  assumes "\<not> perp_taken s" "map_of (perp_positions s) pid = Some p" "pos_trader p = who"
    and "markets s (pos_market p) = Some m" and fits: "closing_fits (perp_config s) now p m"
  obtains r where "close_position now who pid s = (Ok r,
      s\<lparr>markets := (markets s)(pos_market p \<mapsto> lower_interest (is_long p) (pos_size p) m),
        perp_positions := AList.delete pid (perp_positions s)\<rparr>)"
    and "sint (closed_funding r) = funding_of (perp_config s) now p m"
    and "sint (closed_pnl r) = pnl_at p (mark_price m) - funding_of (perp_config s) now p m"
    and "int (unat (return_amount r)) =
      max 0 (int (unat (collateral p)) + pnl_at p (mark_price m) - funding_of (perp_config s) now p m)"
proof -
  let ?f = "funding_of (perp_config s) now p m" and ?g = "pnl_at p (mark_price m)"
  note b = fits [unfolded closing_fits_def]
  have fp: "\<bar>funding_product (perp_config s) now p m\<bar> < 2 ^ 126"
    using b by simp
  obtain pnl where pnl: "calculate_pnl p (mark_price m) = Some pnl" "sint pnl = ?g"
    using b by (rule_tac calculate_pnl_exact [of p "mark_price m"]) (simp_all add: pnl_at_def)
  obtain f where f: "calculate_accumulated_funding (perp_config s) now p m = Some f" "sint f = ?f"
    using b fp by (rule_tac calculate_funding_exact [of "perp_config s" p m now]) (simp_all add: funding_of_def)
  obtain c where c: "as_u128 (collateral p) = Some c"
    using b by (simp add: as_u128_def)
  then have uc: "unat c = unat (collateral p)" by (simp add: checked_ops)
  then have sc: "sint c = int (unat (collateral p))"
    using b by (subst sint_128_small) simp_all
  have g_bound: "\<bar>?g\<bar> < 2 ^ 125"
    using b value_at_nonneg [of p "mark_price m"] value_at_nonneg [of p "entry_price p"]
    by (simp add: pnl_at_def abs_less_iff)
  have f_bound: "\<bar>?f\<bar> \<le> 2 ^ 113"
    unfolding funding_of_def using fp by (intro sdiv_10000_bounds) (simp split: if_splits)
  have fin: "sint (pnl - f) = ?g - ?f"
    by (subst i128_minus; unfold pnl(2) f(2); use g_bound f_bound in \<open>simp add: abs_less_iff abs_le_iff\<close>)
  have c_bound: "0 \<le> sint c" "sint c < 2 ^ 125"
    using b by (simp_all only: sc of_nat_less_numeral_power_cancel_iff of_nat_0_le_iff)
  have amt: "sint (c + (pnl - f)) = sint c + (?g - ?f)"
    by (subst i128_plus; unfold fin; use g_bound f_bound c_bound in \<open>simp add: abs_less_iff abs_le_iff\<close>)
  define amt_w where "amt_w = c + (pnl - f)"
  have ret: "int (unat (if 0 < sint amt_w then ucast amt_w else (0 :: u256))) = max 0 (sint amt_w)"
  proof (cases "0 < sint amt_w")
    case True
    have "unat (ucast amt_w :: u256) = unat amt_w"
    proof -
      have "unat amt_w < 2 ^ 128" using unsigned_less [of amt_w] by simp
      then show ?thesis by (simp add: unsigned_ucast_eq take_bit_nat_eq_self)
    qed
    moreover have "uint amt_w = sint amt_w"
      using True sint_less [of amt_w] by (simp add: uint_sint take_bit_int_eq_self)
    ultimately show ?thesis using True by simp
  qed simp
  show ?thesis
  proof (rule that)
    show "close_position now who pid s = (Ok \<lparr> closed_id = pid, closed_pnl = pnl - f, closed_funding = f,
        return_amount = (if 0 < sint amt_w then ucast amt_w else 0) \<rparr>,
      s\<lparr>markets := (markets s)(pos_market p \<mapsto> lower_interest (is_long p) (pos_size p) m),
        perp_positions := AList.delete pid (perp_positions s)\<rparr>)"
      using assms(1-4) pnl(1) f(1) c by (simp add: close_position_def amt_w_def Let_def)
  qed (simp_all only: closed_position.select_convs f(2) fin ret, simp add: amt_w_def amt sc)
qed

section \<open>The engine as a component driven by calls\<close>

datatype perp_call =
    Create u64 h256 h256 h256 u32
  | Open "nat \<Rightarrow> u64" h256 h256 address h256 u256 u32 bool
  | Close u64 address h256
  | Liquidate h256
  | Top_up address h256 u256
  | Price u64 h256 u256

fun perp_step :: "perp_call \<Rightarrow> perp_engine \<Rightarrow> perp_engine" where
  "perp_step (Create now mid b q lev) s = snd (create_market now mid b q lev s)"
| "perp_step (Open clock pid eid who mid sz lev long) s = snd (open_position clock pid eid who mid sz lev long s)"
| "perp_step (Close now who pid) s = snd (close_position now who pid s)"
| "perp_step (Liquidate pid) s = snd (liquidate_position pid s)"
| "perp_step (Top_up who pid amt) s = snd (add_collateral who pid amt s)"
| "perp_step (Price now tok p) s = update_price now tok p s"

text \<open>
  \<^verbatim>\<open>open_position\<close> calls \<^verbatim>\<open>update_funding_rate\<close> with its own write guard of the markets.
\<close>

lemma update_funding_blocked [simp]:
  "update_funding_rate open_guards now eid mid s = (Hang, s\<lparr>perp_taken := True\<rparr>)"
  by (simp add: update_funding_rate_def open_guards_def can_write_def)

lemma open_position_cases:
  "(\<exists>e. open_position clock pid eid who mid sz lev long s = (Err e, s)) \<or>
   open_position clock pid eid who mid sz lev long s = (Panic, s) \<or>
   fst (open_position clock pid eid who mid sz lev long s) = Hang \<and>
     perp_taken (snd (open_position clock pid eid who mid sz lev long s))"
  by (auto simp: open_position_def Let_def split: option.split or_panic_split)

text \<open>No position is ever stored in a state whose guards are free.\<close>

definition perp_inv :: "perp_engine \<Rightarrow> bool" where
  "perp_inv s \<longleftrightarrow> perp_taken s \<or> perp_positions s = []"

lemma perp_inv_new: "perp_inv (perp_new cfg)"
  by (simp add: perp_inv_def perp_new_def)

lemma perp_inv_step: "perp_inv s \<Longrightarrow> perp_inv (perp_step c s)"
proof (cases c)
  case (Open clock pid eid who mid sz lev long)
  assume "perp_inv s"
  with Open open_position_cases [of clock pid eid who mid sz lev long s] show ?thesis
    by (auto simp: perp_inv_def)
qed (auto simp: perp_inv_def create_market_def close_position_def liquidate_position_def add_collateral_def
    update_price_def)

interpretation perp: invariant_of perp_step "\<lambda>_ _. True" perp_inv
  by unfold_locales (rule perp_inv_step)

section \<open>Liquidation price\<close>

lemma udiv_nonzero: "(b :: u256) \<noteq> 0 \<Longrightarrow> udiv a b = Some (a div b)"
  by (simp add: udiv_def)

lemma unat_maintenance:
  obtains m where "umul (ucast (mmr :: u32)) (100 :: u256) = Some m" "udiv m 10000 = Some (m div 10000)"
    "unat (m div 10000) = unat mmr div 100"
proof -
  have "unat mmr < 2 ^ 32" using unsigned_less [of mmr] by simp
  then obtain m where m: "umul (ucast mmr) (100 :: u256) = Some m"
    by (cases "umul (ucast mmr) (100 :: u256)") (auto simp: umul_None)
  then have "unat m = unat mmr * 100" by (simp add: checked_ops)
  then have "unat (m div 10000) = unat mmr div 100"
    by (simp add: unat_div)
  with m that show ?thesis by (simp add: udiv_def)
qed

lemma calculate_liquidation_price_exact:
  assumes "lev \<noteq> 0" and "unat p * (20000 + unat mmr) < 2 ^ 256"
    and "\<not> long \<Longrightarrow> unat mmr div 100 \<le> 10000"
  obtains r where "calculate_liquidation_price p lev long mmr = Some r"
    and "unat r = unat p * (if long then 10000 - 10000 div unat lev + unat mmr div 100
                            else 10000 + 10000 div unat lev - unat mmr div 100) div 10000"
proof -
  let ?k = "if long then 10000 - 10000 div unat lev + unat mmr div 100
            else 10000 + 10000 div unat lev - unat mmr div 100"
  obtain m where m: "umul (ucast mmr) (100 :: u256) = Some m" "udiv m 10000 = Some (m div 10000)"
    and um: "unat (m div 10000) = unat mmr div 100"
    by (rule unat_maintenance)
  have lev: "(ucast lev :: u256) \<noteq> 0"
    using assms(1) unat_ucast_u32 [of lev] by (metis unat_0 unat_eq_zero)
  define q where "q = (10000 :: u256) div ucast lev"
  have q: "udiv 10000 (ucast lev :: u256) = Some q"
    by (simp add: udiv_def lev q_def)
  then have uq: "unat q = 10000 div unat lev" by (simp add: checked_ops)
  then have q_le: "unat q \<le> 10000" by simp
  have mmr: "unat mmr < 2 ^ 32" using unsigned_less [of mmr] by simp
  have "\<exists>f. (if long then do { d \<leftarrow> usub 10000 q; uadd d (m div 10000) }
                else do { d \<leftarrow> uadd 10000 q; usub d (m div 10000) }) = Some f \<and> unat f = ?k"
  proof (cases long)
    case True
    obtain d where d: "usub 10000 q = Some d"
      using q_le by (cases "usub 10000 q") (auto simp: usub_None)
    then have ud: "unat d = 10000 - unat q" by (simp add: checked_ops)
    obtain f where f: "uadd d (m div 10000) = Some f"
      using ud um mmr by (cases "uadd d (m div 10000)") (auto simp: uadd_None)
    then have "unat f = unat d + unat mmr div 100" by (simp add: checked_ops um)
    with True d f ud uq show ?thesis by simp
  next
    case False
    obtain d where d: "uadd 10000 q = Some d"
      using q_le by (cases "uadd 10000 q") (auto simp: uadd_None)
    then have ud: "unat d = 10000 + unat q" by (simp add: checked_ops)
    obtain f where f: "usub d (m div 10000) = Some f"
      using ud um assms(3) False by (cases "usub d (m div 10000)") (auto simp: usub_None)
    then have "unat d = unat mmr div 100 + unat f" by (simp add: checked_ops um)
    with False d f ud uq show ?thesis by simp
  qed
  then obtain f where f: "(if long then do { d \<leftarrow> usub 10000 q; uadd d (m div 10000) }
                else do { d \<leftarrow> uadd 10000 q; usub d (m div 10000) }) = Some f" and uf: "unat f = ?k"
    by blast
  have le: "10000 div unat lev \<le> 10000" "unat mmr div 100 \<le> unat mmr" by simp_all
  have "unat f \<le> 20000 + unat mmr"
  proof (cases long)
    case True
    then have "unat f = 10000 - 10000 div unat lev + unat mmr div 100" using uf by simp
    with le show ?thesis by linarith
  next
    case False
    then have "unat f = 10000 + 10000 div unat lev - unat mmr div 100" using uf by simp
    with le show ?thesis by linarith
  qed
  then have "unat p * unat f < 2 ^ 256"
    using assms(2) by (meson le_less_trans mult_le_mono2)
  then obtain n where n: "umul p f = Some n"
    by (cases "umul p f") (auto simp: umul_None)
  have "udiv n 10000 = Some (n div 10000)" by (simp add: udiv_def)
  moreover from this n have "unat (n div 10000) = unat p * unat f div 10000"
    by (simp add: checked_ops)
  ultimately show ?thesis
    using m q f n uf by (intro that [of "n div 10000"]) (simp_all add: calculate_liquidation_price_def)
qed

section \<open>Liquidation and collateral\<close>

lemma liquidate_position_Ok:
  assumes "liquidate_position pid s = (Ok reward, s')"
  obtains p m bal tot and fee :: u256 where "map_of (perp_positions s) pid = Some p" "markets s (pos_market p) = Some m"
    "liquidatable p m" "unat fee = unat (collateral p) * unat (liquidation_penalty_bps (perp_config s)) div 10000"
    "unat reward = unat fee div 2"
    "unat bal = unat (fund_balance (insurance s)) + (unat fee - unat fee div 2)"
    "unat tot = unat (total_contributions (insurance s)) + (unat fee - unat fee div 2)"
    "s' = s\<lparr>insurance := (insurance s)\<lparr>fund_balance := bal, total_contributions := tot\<rparr>,
            perp_positions := AList.delete pid (perp_positions s)\<rparr>"
proof -
  from assms obtain p m where p: "map_of (perp_positions s) pid = Some p" "markets s (pos_market p) = Some m"
      "liquidatable p m"
    by (simp add: liquidate_position_def split: if_splits option.splits)
  with assms obtain fee contribution bal tot where
    ops: "bps_of (liquidation_penalty_bps (perp_config s)) (collateral p) = Some fee" "udiv fee 2 = Some reward"
      "usub fee reward = Some contribution" "uadd (fund_balance (insurance s)) contribution = Some bal"
      "uadd (total_contributions (insurance s)) contribution = Some tot"
    and s': "s' = s\<lparr>insurance := (insurance s)\<lparr>fund_balance := bal, total_contributions := tot\<rparr>,
            perp_positions := AList.delete pid (perp_positions s)\<rparr>"
    by (simp add: liquidate_position_def Let_def split: if_splits) blast
  note eqs = ops(2-5) [unfolded checked_ops]
  have reward: "unat reward = unat fee div 2" using eqs(1) by simp
  have contribution: "unat contribution = unat fee - unat fee div 2" using eqs(2) reward by linarith
  show ?thesis
  proof (rule that [OF p bps_of_Some [OF ops(1)] reward])
    show "unat bal = unat (fund_balance (insurance s)) + (unat fee - unat fee div 2)"
      "unat tot = unat (total_contributions (insurance s)) + (unat fee - unat fee div 2)"
      by (simp_all only: eqs(3,4) contribution)
  qed (rule s')
qed

section \<open>Properties\<close>

text \<open>A market at 1100 with a long position opened at 1000.\<close>

definition sample_market :: perp_market where
  "sample_market = \<lparr> market_base = 1, market_quote = 2, index_price = 1000, mark_price = 1100,
     open_interest_long = 50, open_interest_short = 20, market_max_leverage = 50, maintenance_margin_ratio = 250,
     initial_margin_ratio = 500, funding_rate = 10, next_funding_time = 28800, is_active = True \<rparr>"

definition sample_position :: position where
  "sample_position = \<lparr> pos_trader = 7, pos_market = 3, pos_size = 50, collateral = 5000, entry_price = 1000,
     pos_leverage = 10, is_long = True, realized_pnl = 0, unrealized_pnl = 0, funding_paid = 0,
     liquidation_price = 900, created_at = 0, last_funding_update = 0 \<rparr>"

definition sample_perp :: perp_engine where
  "sample_perp = (perp_new defi_config_default)\<lparr>markets := [3 \<mapsto> sample_market],
     perp_positions := [(9, sample_position)]\<rparr>"

lemmas perp_samples = sample_perp_def sample_market_def sample_position_def perp_new_def defi_config_default_def

text \<open>C38: after every run of a new engine, opening a position never returns \<^verbatim>\<open>Ok\<close> (an opening that passes its checks
  asks for the market lock it holds itself), and no position can ever be closed, liquidated or topped up: these calls
  report \<^verbatim>\<open>PositionNotFound\<close>, or are suspended too once an opening was.\<close>

theorem no_position_is_ever_opened:
  "let s = run perp_step cs (perp_new cfg)
   in \<not> is_ok (fst (open_position clock pid' eid who mid sz lev long s)) \<and>
      (if perp_taken s
       then fst (close_position now who pid s) = Hang \<and> fst (liquidate_position pid s) = Hang \<and>
            fst (add_collateral who pid amt s) = Hang
       else fst (close_position now who pid s) = Err Position_Not_Found \<and>
            fst (liquidate_position pid s) = Err Position_Not_Found \<and>
            fst (add_collateral who pid amt s) = Err Position_Not_Found)"
proof -
  define s where "s = run perp_step cs (perp_new cfg)"
  have "perp_inv s"
    unfolding s_def by (rule perp.inv_run [OF perp_inv_new run_ok_always])
  moreover have "\<not> is_ok (fst (open_position clock pid' eid who mid sz lev long s))"
    using open_position_cases [of clock pid' eid who mid sz lev long s] by auto
  ultimately show ?thesis
    unfolding s_def [symmetric]
    by (auto simp: perp_inv_def close_position_def liquidate_position_def add_collateral_def)
qed

text \<open>What closing would pay: no run of the engine opens a position, but if there is one (and no intermediate value
  leaves the range of \<^verbatim>\<open>i128\<close>), closing it pays collateral plus profit minus funding, and nothing when that is negative;
  profit is size times the price difference, with its sign for a short, and funding has the sign of the code, not of its
  comment. The position is removed and its size leaves the open interest.\<close>

theorem closing_pays_collateral_profit_and_funding:
  assumes "\<not> perp_taken s" "map_of (perp_positions s) pid = Some p" "pos_trader p = who"
    and "markets s (pos_market p) = Some m" "closing_fits (perp_config s) now p m"
  shows "\<exists>r s'. close_position now who pid s = (Ok r, s') \<and>
    sint (closed_pnl r) = pnl_at p (mark_price m) - funding_of (perp_config s) now p m \<and>
    int (unat (return_amount r)) =
      max 0 (int (unat (collateral p)) + pnl_at p (mark_price m) - funding_of (perp_config s) now p m) \<and>
    map_of (perp_positions s') pid = None \<and>
    markets s' = (markets s)(pos_market p \<mapsto> lower_interest (is_long p) (pos_size p) m)"
proof -
  obtain r where "close_position now who pid s = (Ok r,
      s\<lparr>markets := (markets s)(pos_market p \<mapsto> lower_interest (is_long p) (pos_size p) m),
        perp_positions := AList.delete pid (perp_positions s)\<rparr>)"
    "sint (closed_pnl r) = pnl_at p (mark_price m) - funding_of (perp_config s) now p m"
    "int (unat (return_amount r)) =
      max 0 (int (unat (collateral p)) + pnl_at p (mark_price m) - funding_of (perp_config s) now p m)"
    by (rule close_position_effect [OF assms])
  then show ?thesis by (simp add: delete_conv)
qed

lemma sample_closing:
  "\<not> perp_taken sample_perp" "map_of (perp_positions sample_perp) 9 = Some sample_position"
  "pos_trader sample_position = 7" "markets sample_perp (pos_market sample_position) = Some sample_market"
  "closing_fits (perp_config sample_perp) 57600 sample_position sample_market"
  "pnl_at sample_position (mark_price sample_market) = 5000"
  "funding_of (perp_config sample_perp) 57600 sample_position sample_market = - 110"
  by (simp_all add: perp_samples closing_fits_def value_at_def funding_product_def pnl_at_def funding_of_def
      signed_divide_int_def)

theorem closing_pays_collateral_profit_and_funding_witness:
  "\<exists>r s'. close_position 57600 7 9 sample_perp = (Ok r, s') \<and> sint (closed_pnl r) = 5110 \<and>
     int (unat (return_amount r)) = 10110"
  using closing_pays_collateral_profit_and_funding [OF sample_closing(1-5)]
  by (simp only: sample_closing(6,7)) (auto simp: sample_position_def)

text \<open>A long position that is closed while the funding rate is positive realises at least its price profit: it
  receives the funding that, by the comment in the code, longs pay. A short one realises at most its price
  profit.\<close>

theorem positive_funding_is_paid_to_longs:
  assumes "\<not> perp_taken s" "map_of (perp_positions s) pid = Some p" "pos_trader p = who"
    and "markets s (pos_market p) = Some m" "closing_fits (perp_config s) now p m"
    and "0 < sint (funding_rate m)"
  shows "\<exists>r s'. close_position now who pid s = (Ok r, s') \<and>
    (if is_long p then pnl_at p (mark_price m) \<le> sint (closed_pnl r) \<and> sint (closed_funding r) \<le> 0
     else sint (closed_pnl r) \<le> pnl_at p (mark_price m) \<and> 0 \<le> sint (closed_funding r))"
proof -
  have "0 \<le> funding_product (perp_config s) now p m"
    using assms(6) by (simp add: funding_product_def value_at_nonneg)
  then have "if is_long p then funding_of (perp_config s) now p m \<le> 0 else 0 \<le> funding_of (perp_config s) now p m"
    by (auto simp: funding_of_def signed_divide_int_def sgn_if)
  moreover obtain r s' where "close_position now who pid s = (Ok r, s')"
    "sint (closed_funding r) = funding_of (perp_config s) now p m"
    "sint (closed_pnl r) = pnl_at p (mark_price m) - funding_of (perp_config s) now p m"
    by (rule close_position_effect [OF assms(1-5)])
  ultimately show ?thesis by (cases "is_long p") auto
qed

theorem positive_funding_is_paid_to_longs_witness:
  "\<exists>r s'. close_position 57600 7 9 sample_perp = (Ok r, s') \<and> 5000 \<le> sint (closed_pnl r)"
proof -
  have "0 < sint (funding_rate sample_market)" "is_long sample_position"
    by (simp_all add: sample_market_def sample_position_def)
  with positive_funding_is_paid_to_longs [OF sample_closing(1-5)] show ?thesis
    by (auto simp: sample_closing(6))
qed

text \<open>The liquidation price, whenever nothing overflows: the entry price times one minus (for a long) or plus (for a short)
  the inverse leverage, corrected by the maintenance margin. The margin enters divided by a hundred twice: the
  ratio of 250 (2.5 per cent) that every market is created with moves the factor by 2 of 10000.\<close>

theorem liquidation_price_formula:
  assumes "lev \<noteq> 0" "unat p * 20250 < 2 ^ 256"
  shows "\<exists>r. calculate_liquidation_price p lev long 250 = Some r \<and>
    unat r = unat p * (if long then 10002 - 10000 div unat lev else 9998 + 10000 div unat lev) div 10000"
proof -
  have le: "10000 div unat lev \<le> 10000" and m: "unat (250 :: u32) div 100 = 2" by simp_all
  obtain r where "calculate_liquidation_price p lev long 250 = Some r"
    and "unat r = unat p * (if long then 10000 - 10000 div unat lev + unat (250 :: u32) div 100
        else 10000 + 10000 div unat lev - unat (250 :: u32) div 100) div 10000"
    using assms by (rule_tac calculate_liquidation_price_exact [of lev p 250 long]) simp_all
  moreover have "10000 - 10000 div unat lev + unat (250 :: u32) div 100 = 10002 - 10000 div unat lev"
    "10000 + 10000 div unat lev - unat (250 :: u32) div 100 = 9998 + 10000 div unat lev"
    unfolding m using le by linarith+
  ultimately show ?thesis by (simp only:) blast
qed

theorem liquidation_price_formula_witness:
  "\<exists>r. calculate_liquidation_price 1000 10 True 250 = Some r \<and> unat r = 900"
  using liquidation_price_formula [of 10 1000 True] by simp

text \<open>A liquidation takes place only at or beyond the liquidation price; it pays half of the penalty to the
  liquidator and the rest to the insurance fund, and removes the position. The rest of its collateral goes to nobody, and the
  market (its open interest too) is not touched.\<close>

theorem liquidation_splits_the_penalty:
  assumes "liquidate_position pid s = (Ok reward, s')"
  shows "\<exists>p m. map_of (perp_positions s) pid = Some p \<and> markets s (pos_market p) = Some m \<and>
    (if is_long p then mark_price m \<le> liquidation_price p else liquidation_price p \<le> mark_price m) \<and>
    unat reward + (unat (fund_balance (insurance s')) - unat (fund_balance (insurance s)))
      = unat (collateral p) * unat (liquidation_penalty_bps (perp_config s)) div 10000 \<and>
    unat (fund_balance (insurance s)) \<le> unat (fund_balance (insurance s')) \<and>
    perp_positions s' = AList.delete pid (perp_positions s) \<and> markets s' = markets s"
proof -
  obtain p m bal tot and fee :: u256 where eff: "map_of (perp_positions s) pid = Some p"
    "markets s (pos_market p) = Some m" "liquidatable p m"
    "unat fee = unat (collateral p) * unat (liquidation_penalty_bps (perp_config s)) div 10000"
    "unat reward = unat fee div 2"
    "unat bal = unat (fund_balance (insurance s)) + (unat fee - unat fee div 2)"
    "s' = s\<lparr>insurance := (insurance s)\<lparr>fund_balance := bal, total_contributions := tot\<rparr>,
            perp_positions := AList.delete pid (perp_positions s)\<rparr>"
    by (rule liquidate_position_Ok [OF assms])
  have sum: "unat reward + (unat bal - unat (fund_balance (insurance s))) = unat fee"
    and le: "unat (fund_balance (insurance s)) \<le> unat bal"
    using eff(5,6) by linarith+
  show ?thesis
    using eff(1-3) le sum [unfolded eff(4)] unfolding liquidatable_def
    by (intro exI [of _ p] exI [of _ m] conjI) (simp_all add: eff(7))
qed

theorem liquidation_splits_the_penalty_witness:
  "\<exists>s'. liquidate_position 9 (sample_perp\<lparr>markets := [3 \<mapsto> sample_market\<lparr>mark_price := 890\<rparr>]\<rparr>) = (Ok 125, s') \<and>
     unat (125 :: u256) + unat (fund_balance (insurance s')) = 250 \<and> perp_positions s' = []"
proof -
  let ?s = "sample_perp\<lparr>markets := [3 \<mapsto> sample_market\<lparr>mark_price := 890\<rparr>]\<rparr>"
  have "\<exists>s'. liquidate_position 9 ?s = (Ok 125, s')"
    by (simp add: liquidate_position_def perp_samples liquidatable_def bps_of_def umul_def udiv_def usub_def uadd_def)
  then obtain s' where s': "liquidate_position 9 ?s = (Ok 125, s')" ..
  from liquidation_splits_the_penalty [OF this] s' show ?thesis
    by (auto simp: perp_samples)
qed

text \<open>Adding collateral raises the collateral and nothing else: the liquidation price is recomputed from entry price
  and leverage, so it stays where the opening put it.\<close>

theorem collateral_does_not_move_the_liquidation_price:
  assumes "\<not> perp_taken s" "map_of (perp_positions s) pid = Some p" "pos_trader p = who"
    and "markets s (pos_market p) = Some m" "unat (collateral p) + unat amt < 2 ^ 256"
    and "calculate_liquidation_price (entry_price p) (pos_leverage p) (is_long p) (maintenance_margin_ratio m)
           = Some (liquidation_price p)"
  shows "add_collateral who pid amt s =
    (Ok (), s\<lparr>perp_positions := AList.update pid (p\<lparr>collateral := collateral p + amt\<rparr>) (perp_positions s)\<rparr>)"
  using assms by (simp add: add_collateral_def uadd_def Let_def)

theorem collateral_does_not_move_the_liquidation_price_witness:
  "add_collateral 7 9 300 sample_perp =
     (Ok (), sample_perp\<lparr>perp_positions := [(9, sample_position\<lparr>collateral := 5300\<rparr>)]\<rparr>)"
proof -
  have "calculate_liquidation_price 1000 10 True 250 = Some 900"
    by (simp add: calculate_liquidation_price_def umul_def udiv_def usub_def uadd_def)
  with collateral_does_not_move_the_liquidation_price [OF sample_closing(1-4), of 300] show ?thesis
    by (simp add: perp_samples)
qed

text \<open>An update of the funding rate of a market whose open interests stay below 2 to the 119 leaves it between
  minus 100 and 100 basis points, positive only if longs prevail and negative only if shorts do.\<close>

theorem funding_rate_bounds:
  assumes "markets s mid = Some m" "next_funding_time m \<le> now"
    and "unat (open_interest_long m) < 2 ^ 119" "unat (open_interest_short m) < 2 ^ 119"
  shows "\<exists>s' m'. update_funding_rate [] now eid mid s = (Ok (), s') \<and> markets s' mid = Some m' \<and>
    sint (funding_rate m') = (let l = int (unat (open_interest_long m)); k = int (unat (open_interest_short m))
       in if 0 < l + k then ((l - k) * 100) sdiv (l + k) else 0) \<and>
    \<bar>sint (funding_rate m')\<bar> \<le> 100"
proof -
  obtain l k where lk: "as_u128 (open_interest_long m) = Some l" "as_u128 (open_interest_short m) = Some k"
    using assms(3,4) by (simp add: as_u128_def)
  then have ul: "unat l = unat (open_interest_long m)" "unat k = unat (open_interest_short m)"
    by (simp_all add: checked_ops)
  have sl: "sint l = int (unat (open_interest_long m))" "sint k = int (unat (open_interest_short m))"
    using assms(3,4) ul by (simp_all add: sint_128_small del: of_nat_unat)
  define total where "total = sint l + sint k"
  define rate where "rate = (if 0 < total then ((sint l - sint k) * 100) sdiv total else 0)"
  have pos: "0 \<le> sint l" "sint l < 2 ^ 119" "0 \<le> sint k" "sint k < 2 ^ 119"
    using assms(3,4) by (simp_all only: sl of_nat_0_le_iff of_nat_less_numeral_power_cancel_iff)
  have plus: "sint (l + k) = total"
    unfolding total_def by (rule i128_plus; use pos in simp)
  have minus: "sint (l - k) = sint l - sint k"
    by (rule i128_minus; use pos in simp)
  have "sint ((l - k) * 100 * 1) = sint (l - k) * sint (100 :: i128) * sint (1 :: i128)"
    by (rule i128_times3; use pos minus in simp)
  then have times: "sint ((l - k) * 100) = (sint l - sint k) * 100"
    by (simp add: minus)
  have bound: "\<bar>rate\<bar> \<le> 100"
  proof (cases "0 < total")
    case True
    then have "\<bar>rate\<bar> = \<bar>(sint l - sint k) * 100\<bar> div total"
      by (cases "sint l = sint k")
        (simp_all add: rate_def signed_divide_int_def abs_mult abs_sgn_eq abs_of_nonneg pos_imp_zdiv_nonneg_iff)
    also have "\<dots> \<le> (100 * total) div total"
      using pos True by (intro zdiv_mono1) (auto simp: total_def abs_if)
    finally show ?thesis using True by simp
  qed (simp add: rate_def)
  define rw :: i64 where "rw = (if 0 < sint (l + k) then scast (idiv ((l - k) * 100) (l + k)) else 0)"
  have "sint (idiv ((l - k) * 100) (l + k)) = rate" if "0 < total"
    using that bound by (simp only: idiv_def times plus)
      (subst sint_of_int_128, simp_all add: rate_def abs_le_iff)
  then have "rw = word_of_int rate"
    by (auto simp: rw_def plus scast_eq rate_def)
  moreover have "sint (word_of_int rate :: i64) = rate"
    using bound by (simp add: signed_of_int signed_take_bit_int_eq_self abs_le_iff)
  ultimately have rw: "sint rw = rate" by simp
  define m' where "m' = m\<lparr>funding_rate := rw, next_funding_time := now + funding_interval (perp_config s)\<rparr>"
  have "\<exists>s'. update_funding_rate [] now eid mid s = (Ok (), s') \<and> markets s' mid = Some m'"
    using assms(1,2) lk
    by (simp add: update_funding_rate_def can_write_def Let_def m'_def rw_def)
  moreover have "sint (funding_rate m') = rate" by (simp add: m'_def rw)
  ultimately show ?thesis
    using bound unfolding Let_def sl [symmetric] total_def [symmetric] rate_def [symmetric] by auto
qed

theorem funding_rate_bounds_witness:
  "\<exists>s' m'. update_funding_rate [] 30000 4 3 sample_perp = (Ok (), s') \<and> markets s' 3 = Some m' \<and>
     sint (funding_rate m') = 42 \<and> \<bar>sint (funding_rate m')\<bar> \<le> 100"
  using funding_rate_bounds [of sample_perp 3 sample_market 30000 4]
  by (simp add: perp_samples signed_divide_int_def)

text \<open>\<^verbatim>\<open>DeFiEngine::liquidate_position\<close> never liquidates: its health factor is the constant 120 per cent, so every
  call reports a healthy position and leaves the state alone, whatever the position.\<close>

theorem engine_never_liquidates:
  "engine_liquidate now who pid s = (Err Position_Healthy, s)"
  by (simp add: engine_liquidate_def calculate_health_factor_def)

end
