(* ===== verification/Tendermint.thy ===== *)
theory Tendermint
  imports TxBytes
begin

text \<open>
  The Tendermint-style consensus of \<^verbatim>\<open>src/consensus/tendermint.rs\<close>: blocks and transactions with what
  their hashes are taken of, the round state machine of one node with the handler of each phase, and the
  vote channel.

  The hash functions (packages \<^verbatim>\<open>sha2\<close> and \<^verbatim>\<open>bincode\<close>) and the clock are arguments. The node is one task,
  so its locks are free unless it holds them itself, and the timeouts around a free lock do not fire. The receiver
  of the decided blocks is assumed to keep its channel from filling up.
\<close>

section \<open>Blocks and transactions\<close>

record block_tx =
  tx_nonce :: u64
  tx_from :: address
  tx_to :: "address option"
  tx_value :: u128
  tx_data :: "u8 list"
  tx_gas_limit :: u64
  tx_gas_price :: u128
  tx_signature :: "u8 list"

record block =
  block_height :: u64
  block_timestamp :: u64
  previous_hash :: h256
  block_state_root :: h256
  transactions :: "block_tx list"
  block_proposer :: "u8 list"

definition tx_hash_input :: "block_tx \<Rightarrow> u8 list" where
  "tx_hash_input tx = tx_bytes (tx_nonce tx) (tx_from tx) (tx_to tx) (tx_value tx) (tx_data tx)
     (tx_gas_limit tx) (tx_gas_price tx)"

definition tx_hash :: "(u8 list \<Rightarrow> h256) \<Rightarrow> block_tx \<Rightarrow> h256" where
  "tx_hash sha tx = sha (tx_hash_input tx)"

definition block_hash_input :: "block \<Rightarrow> u8 list" where
  "block_hash_input b =
     be_bytes 8 (block_height b) @ be_bytes 8 (block_timestamp b) @ be_bytes 32 (previous_hash b)
     @ be_bytes 32 (block_state_root b) @ block_proposer b
     @ concat (map (\<lambda>tx. tx_hash_input tx @ tx_signature tx) (transactions b))"

definition block_hash :: "(u8 list \<Rightarrow> h256) \<Rightarrow> block \<Rightarrow> h256" where
  "block_hash sha b = sha (block_hash_input b)"

section \<open>State of a node\<close>

datatype consensus_state = NewHeight | Propose | Prevote | Precommit | Commit

datatype vote_type = Vote_Prevote | Vote_Precommit

record vote =
  vote_height :: u64
  vote_round :: u32
  vote_kind :: vote_type
  vote_block :: "h256 option"
  vote_validator :: "u8 list"
  vote_signature :: "u8 list"

type_synonym vote_key = "u64 \<times> u32 \<times> vote_type"

text \<open>A validator; the signing key belongs to the package \<^verbatim>\<open>ed25519_dalek\<close> and is not used here.\<close>

record validator =
  public_key :: "u8 list"
  voting_power :: u64
  validator_address :: address

definition word_of_bytes :: "u8 list \<Rightarrow> 'a::len word" where
  "word_of_bytes bs = fold (\<lambda>b acc. acc * 256 + ucast b) bs 0"

definition validator_new :: "u8 list \<Rightarrow> validator" where
  "validator_new pk = \<lparr> public_key = pk, voting_power = 1,
     validator_address = (if 20 \<le> length pk then word_of_bytes (take 20 pk) else 0) \<rparr>"

text \<open>\<open>vote_queue\<close> is what is in the vote channel, \<open>decided\<close> what was sent to the block channel.\<close>

record tendermint =
  height :: u64
  round :: u32
  phase :: consensus_state
  validators :: "validator list"
  votes :: "vote_key \<rightharpoonup> vote list"
  locked_block :: "block option"
  locked_round :: "u32 option"
  valid_block :: "block option"
  valid_round :: "u32 option"
  vote_queue :: "vote list"
  decided :: "block list"

datatype tm_lock = Lock_valid_block | Lock_other

definition tm_new :: "validator list \<Rightarrow> tendermint" where
  "tm_new vs = \<lparr> height = 0, round = 0, phase = NewHeight, validators = vs, votes = Map.empty,
     locked_block = None, locked_round = None, valid_block = None, valid_round = None,
     vote_queue = [], decided = [] \<rparr>"

section \<open>Handlers\<close>

type_synonym tm_result = "(unit, unit) outcome \<times> tendermint"

definition start_new_height :: "tendermint \<Rightarrow> tm_result" where
  "start_new_height s = (Ok (), s\<lparr>height := height s + 1, round := 0, phase := Propose\<rparr>)"

text \<open>\<^verbatim>\<open>is_proposer\<close> divides by the number of validators, then answers \<^verbatim>\<open>true\<close>.\<close>

definition is_proposer :: "u64 \<Rightarrow> u32 \<Rightarrow> tendermint \<Rightarrow> bool option" where
  "is_proposer h r s = (if validators s = [] then None else Some True)"

definition create_block :: "u64 \<Rightarrow> tendermint \<Rightarrow> block" where
  "create_block now s = \<lparr> block_height = height s, block_timestamp = now, previous_hash = 0, block_state_root = 0,
     transactions = [], block_proposer = [1, 2, 3] \<rparr>"

definition handle_propose :: "(block \<Rightarrow> h256) \<Rightarrow> u64 \<Rightarrow> tendermint \<Rightarrow> tm_result" where
  "handle_propose hash_block now s =
     or_panic s (is_proposer (height s) (round s) s) (\<lambda>mine.
       let s1 = (if mine then
                   let b = create_block now s;
                       v = \<lparr> vote_height = height s, vote_round = round s, vote_kind = Vote_Prevote,
                             vote_block = Some (hash_block b), vote_validator = [1, 2, 3], vote_signature = [] \<rparr>
                   in s\<lparr>vote_queue := vote_queue s @ [v], valid_block := Some b\<rparr>
                 else s)
       in (Ok (), s1\<lparr>phase := Prevote\<rparr>))"

definition has_two_thirds :: "vote_type \<Rightarrow> u64 \<Rightarrow> u32 \<Rightarrow> tendermint \<Rightarrow> bool" where
  "has_two_thirds k h r s =
     (case votes s (h, r, k) of
        None \<Rightarrow> False
      | Some vs \<Rightarrow> length (validators s) * 2 div 3 + 1 \<le> length vs)"

text \<open>Both branches of \<^verbatim>\<open>handle_prevote\<close> go on to the precommit phase.\<close>

definition handle_prevote :: "tendermint \<Rightarrow> tm_result" where
  "handle_prevote s =
     (if has_two_thirds Vote_Prevote (height s) (round s) s
      then (Ok (), s\<lparr>phase := Precommit\<rparr>)
      else (Ok (), s\<lparr>phase := Precommit\<rparr>))"

definition start_new_round :: "tendermint \<Rightarrow> tm_result" where
  "start_new_round s = (Ok (), s\<lparr>round := round s + 1, phase := Propose\<rparr>)"

definition handle_precommit :: "tendermint \<Rightarrow> tm_result" where
  "handle_precommit s =
     (if has_two_thirds Vote_Precommit (height s) (round s) s
      then (Ok (), s\<lparr>phase := Commit\<rparr>)
      else start_new_round s)"

definition reset_round_state :: "(tm_lock \<times> lock_mode) list \<Rightarrow> tendermint \<Rightarrow> tm_result" where
  "reset_round_state held s =
     (let s1 = s\<lparr>votes := Map.empty, locked_block := None, locked_round := None\<rparr> in
      if can_write held Lock_valid_block
      then (Ok (), s1\<lparr>valid_block := None, valid_round := None\<rparr>)
      else (Hang, s1))"

text \<open>
  The read guard in \<^verbatim>\<open>if let Some(block) = self.valid_block.read().await.clone()\<close> lives until the end of
  the \<^verbatim>\<open>if let\<close> (edition 2021).
\<close>

definition commit_guards :: "(tm_lock \<times> lock_mode) list" where
  "commit_guards = [(Lock_valid_block, Read_Guard), (Lock_other, Write_Guard)]"

definition handle_commit :: "tendermint \<Rightarrow> tm_result" where
  "handle_commit s =
     (case valid_block s of
        None \<Rightarrow> (Ok (), s)
      | Some b \<Rightarrow> reset_round_state commit_guards (s\<lparr>decided := decided s @ [b], phase := NewHeight\<rparr>))"

definition vote_key_of :: "vote \<Rightarrow> vote_key" where
  "vote_key_of v = (vote_height v, vote_round v, vote_kind v)"

definition record_vote :: "vote \<Rightarrow> (vote_key \<rightharpoonup> vote list) \<Rightarrow> (vote_key \<rightharpoonup> vote list)" where
  "record_vote v vs = vs(vote_key_of v \<mapsto> (case vs (vote_key_of v) of None \<Rightarrow> [v] | Some l \<Rightarrow> l @ [v]))"

definition process_votes :: "tendermint \<Rightarrow> tm_result" where
  "process_votes s = (Ok (), s\<lparr>votes := fold record_vote (vote_queue s) (votes s), vote_queue := []\<rparr>)"

text \<open>One round of the loop in \<^verbatim>\<open>start\<close>.\<close>

definition tick :: "(block \<Rightarrow> h256) \<Rightarrow> u64 \<Rightarrow> tendermint \<Rightarrow> tm_result" where
  "tick hash_block now s =
     and_then (case phase s of
         NewHeight \<Rightarrow> start_new_height s
       | Propose \<Rightarrow> handle_propose hash_block now s
       | Prevote \<Rightarrow> handle_prevote s
       | Precommit \<Rightarrow> handle_precommit s
       | Commit \<Rightarrow> handle_commit s) (\<lambda>_ s. process_votes s)"

text \<open>The loop, as far as a list of clock readings takes it; it ends with a panic or a suspended tick.\<close>

fun run_node :: "(block \<Rightarrow> h256) \<Rightarrow> u64 list \<Rightarrow> tendermint \<Rightarrow> tm_result" where
  "run_node hash_block [] s = (Ok (), s)"
| "run_node hash_block (now # ts) s = and_then (tick hash_block now s) (\<lambda>_ s. run_node hash_block ts s)"

record consensus_metrics =
  metric_height :: u64
  metric_round :: u32
  metric_state :: consensus_state
  validator_count :: nat

definition get_metrics :: "tendermint \<Rightarrow> consensus_metrics" where
  "get_metrics s = \<lparr> metric_height = height s, metric_round = round s, metric_state = phase s,
     validator_count = length (validators s) \<rparr>"

section \<open>Votes and quorums\<close>

lemma has_two_thirds_iff:
  "has_two_thirds k h r s \<longleftrightarrow>
     (\<exists>l. votes s (h, r, k) = Some l \<and> 2 * length (validators s) < 3 * length l)"
proof -
  have "n * 2 div 3 + 1 \<le> m \<longleftrightarrow> 2 * n < 3 * m" for n m :: nat by linarith
  then show ?thesis by (simp add: has_two_thirds_def split: option.split)
qed

lemma record_vote_other: "k \<noteq> vote_key_of v \<Longrightarrow> record_vote v vs k = vs k"
  by (simp add: record_vote_def)

lemma fold_record_vote_other:
  "k \<notin> vote_key_of ` set q \<Longrightarrow> fold record_vote q vs k = vs k"
  by (induction q arbitrary: vs) (simp_all add: record_vote_other)

text \<open>What the channel delivers under one key is appended to what is known under it.\<close>

lemma fold_record_vote:
  "fold record_vote q vs k =
    (case vs k of
       None \<Rightarrow> if k \<in> vote_key_of ` set q then Some (filter (\<lambda>v. vote_key_of v = k) q) else None
     | Some l \<Rightarrow> Some (l @ filter (\<lambda>v. vote_key_of v = k) q))"
proof (induction q arbitrary: vs)
  case (Cons v q)
  show ?case
  proof (cases "k = vote_key_of v")
    case True
    then have "record_vote v vs k = Some ((case vs k of None \<Rightarrow> [] | Some l \<Rightarrow> l) @ [v])"
      by (simp add: record_vote_def split: option.split)
    with Cons.IH [of "record_vote v vs"] True show ?thesis
      by (simp split: option.split)
  next
    case False
    with Cons.IH [of "record_vote v vs"] show ?thesis
      by (simp add: record_vote_other cong: option.case_cong)
  qed
qed (simp split: option.split)

lemmas tm_handlers = tick_def start_new_height_def handle_propose_def handle_prevote_def handle_precommit_def
  handle_commit_def start_new_round_def process_votes_def is_proposer_def create_block_def

section \<open>What a node does by itself\<close>

text \<open>
  After \<open>n\<close> ticks past the first: no precommit is ever known, so every third tick starts a new round.
\<close>

definition phase_after :: "nat \<Rightarrow> consensus_state" where
  "phase_after n = (if n mod 3 = 0 then Propose else if n mod 3 = 1 then Prevote else Precommit)"

definition tm_inv :: "validator list \<Rightarrow> nat \<Rightarrow> tendermint \<Rightarrow> bool" where
  "tm_inv vs n s \<longleftrightarrow> validators s = vs \<and> height s = 1 \<and> round s = of_nat (n div 3) \<and> phase s = phase_after n \<and>
     decided s = [] \<and> vote_queue s = [] \<and> (\<forall>h r. votes s (h, r, Vote_Precommit) = None)"

lemma tm_inv_tick:
  assumes "tm_inv vs n s" "vs \<noteq> []"
  shows "\<exists>s'. tick hb now s = (Ok (), s') \<and> tm_inv vs (Suc n) s'"
proof -
  consider "n mod 3 = 0" | "n mod 3 = 1" | "n mod 3 = 2" by linarith
  then show ?thesis
  proof cases
    case 1
    then have "Suc n div 3 = n div 3" "Suc n mod 3 = 1" by presburger+
    with 1 assms show ?thesis
      by (simp add: tm_inv_def phase_after_def tm_handlers Let_def record_vote_def vote_key_of_def)
  next
    case 2
    then have "Suc n div 3 = n div 3" "Suc n mod 3 = 2" by presburger+
    with 2 assms show ?thesis
      by (simp add: tm_inv_def phase_after_def tm_handlers)
  next
    case 3
    then have "Suc n div 3 = Suc (n div 3)" "Suc n mod 3 = 0" by presburger+
    with 3 assms show ?thesis
      by (simp add: tm_inv_def phase_after_def tm_handlers has_two_thirds_iff)
  qed
qed

lemma tm_inv_run:
  assumes "tm_inv vs n s" "vs \<noteq> []"
  shows "\<exists>s'. run_node hb ts s = (Ok (), s') \<and> tm_inv vs (n + length ts) s'"
  using assms(1)
proof (induction ts arbitrary: n s)
  case (Cons t ts)
  obtain s1 where "tick hb t s = (Ok (), s1)" "tm_inv vs (Suc n) s1"
    using tm_inv_tick [OF Cons.prems assms(2)] by blast
  with Cons.IH [of "Suc n" s1] show ?case by simp
qed simp

section \<open>Properties\<close>

text \<open>C14: a node never decides a block by itself. Its first tick enters height 1; from then on the phase cycles through
  propose, prevote and precommit, the round grows by one (wrapping at 32 bits) every three ticks, and
  the height stays 1 for ever, because no precommit is ever sent.\<close>

theorem node_never_decides:
  assumes "vs \<noteq> []"
  shows "\<exists>s. run_node hb (t # ts) (tm_new vs) = (Ok (), s) \<and> height s = 1 \<and>
    round s = of_nat (length ts div 3) \<and>
    phase s = (if length ts mod 3 = 0 then Propose else if length ts mod 3 = 1 then Prevote else Precommit) \<and>
    decided s = []"
proof -
  have "\<exists>s. tick hb t (tm_new vs) = (Ok (), s) \<and> tm_inv vs 0 s"
    by (simp add: tm_new_def tm_handlers tm_inv_def phase_after_def)
  then obtain s where s: "tick hb t (tm_new vs) = (Ok (), s)" "tm_inv vs 0 s" by blast
  with tm_inv_run [OF s(2) assms, of hb ts] show ?thesis
    by (auto simp: tm_inv_def phase_after_def)
qed

theorem node_never_decides_witness:
  "\<exists>s. run_node (\<lambda>_. 5) (100 # replicate 7 200) (tm_new [validator_new [1], validator_new [2]]) = (Ok (), s) \<and>
     round s = 2 \<and> phase s = Prevote \<and> decided s = []"
  using node_never_decides [of "[validator_new [1], validator_new [2]]" "\<lambda>_. 5" 100 "replicate 7 200"]
  by auto

text \<open>In the precommit phase a node commits exactly when more than two thirds as many precommits as there are
  validators have arrived for its height and round. It counts messages: neither the voter, the
  signature nor the block voted for matters, so copies of one vote are as good as votes of all validators.\<close>

theorem commit_counts_messages:
  assumes "phase s = Precommit"
  shows "phase (snd (tick hb now s)) = Commit \<longleftrightarrow>
    (\<exists>l. votes s (height s, round s, Vote_Precommit) = Some l \<and> 2 * length (validators s) < 3 * length l)"
  using assms by (auto simp: tm_handlers has_two_thirds_iff)

theorem commit_counts_messages_witness:
  "phase (snd (tick (\<lambda>_. 5) 100 ((tm_new [validator_new [1], validator_new [2], validator_new [3]])
     \<lparr>phase := Precommit, votes := [(0, 0, Vote_Precommit) \<mapsto> replicate 3 \<lparr> vote_height = 0, vote_round = 0,
        vote_kind = Vote_Precommit, vote_block = None, vote_validator = [9], vote_signature = [] \<rparr>]\<rparr>))) = Commit"
  by (subst commit_counts_messages) (simp_all add: tm_new_def)

text \<open>A node in the commit phase that has a valid block sends it and is then suspended for ever: it resets the valid
  block under the read guard it took it with. Without a valid block it stays in the commit phase.\<close>

theorem commit_suspends_the_node:
  assumes "phase s = Commit"
  shows "case valid_block s of
      None \<Rightarrow> fst (tick hb now s) = Ok () \<and> phase (snd (tick hb now s)) = Commit \<and> decided (snd (tick hb now s)) = decided s
    | Some b \<Rightarrow> fst (tick hb now s) = Hang \<and> decided (snd (tick hb now s)) = decided s @ [b] \<and>
        valid_block (snd (tick hb now s)) = Some b"
  using assms
  by (simp add: tm_handlers reset_round_state_def commit_guards_def can_write_def Let_def split: option.split)

theorem commit_suspends_the_node_witness:
  "fst (tick (\<lambda>_. 5) 100 ((tm_new [])\<lparr>phase := Commit, valid_block := Some (create_block 7 (tm_new []))\<rparr>)) = Hang"
  using commit_suspends_the_node [of "(tm_new [])\<lparr>phase := Commit, valid_block := Some (create_block 7 (tm_new []))\<rparr>" "\<lambda>_. 5" 100]
  by simp

text \<open>Whatever the hash function, two different transactions have the same hash: a call of the zero address and a
  contract creation whose data has twenty more leading zero bytes, since the optional recipient is not
  delimited in what is hashed.\<close>

theorem transaction_hash_is_ambiguous:
  "let call = \<lparr> tx_nonce = n, tx_from = sender, tx_to = Some 0, tx_value = 0, tx_data = d, tx_gas_limit = gl,
         tx_gas_price = gp, tx_signature = sg \<rparr>;
       create = \<lparr> tx_nonce = n, tx_from = sender, tx_to = None, tx_value = 0, tx_data = replicate 20 0 @ d,
         tx_gas_limit = gl, tx_gas_price = gp, tx_signature = sg \<rparr>
   in tx_hash sha call = tx_hash sha create \<and> call \<noteq> create"
  by (simp add: tx_hash_def tx_hash_input_def tx_bytes_ambiguous)

end
