(* ===== verification/StateDB.thy ===== *)
theory StateDB
  imports TxBytes
begin

text \<open>
  The state of the execution layer: transactions (\<^verbatim>\<open>src/state_machine/transaction.rs\<close>) and the account
  and storage database \<^verbatim>\<open>StateDB\<close> (\<^verbatim>\<open>src/state_machine/state.rs\<close>) with its caches, dirty accounts,
  commit to the backend, rollback and snapshots.

  The backend is a key-value store whose reads and writes succeed. Serialisation of accounts (package \<^verbatim>\<open>bincode\<close>), SHA-256 and
  the coin flips of the cache eviction are arguments. A \<^verbatim>\<open>DashMap\<close> is an association list in iteration order.
\<close>

section \<open>Transactions\<close>

record tx_signature =
  sig_v :: u8
  sig_r :: "u8 list"
  sig_s :: "u8 list"

record state_tx =
  stx_nonce :: u64
  stx_from :: address
  stx_to :: "address option"
  stx_value :: u128
  stx_data :: "u8 list"
  stx_gas_limit :: u64
  stx_gas_price :: u128
  stx_signature :: tx_signature

record tx_receipt =
  receipt_hash :: h256
  receipt_from :: address
  receipt_to :: "address option"
  gas_used :: u64
  receipt_status :: bool
  logs :: "string list"
  execution_time_us :: u64

definition signature_default :: tx_signature where
  "signature_default = \<lparr> sig_v = 0, sig_r = replicate 32 0, sig_s = replicate 32 0 \<rparr>"

definition state_tx_new ::
  "address \<Rightarrow> address option \<Rightarrow> u128 \<Rightarrow> u8 list \<Rightarrow> u64 \<Rightarrow> u64 \<Rightarrow> u128 \<Rightarrow> state_tx" where
  "state_tx_new sender to value data nonce gl gp =
     \<lparr> stx_nonce = nonce, stx_from = sender, stx_to = to, stx_value = value, stx_data = data,
       stx_gas_limit = gl, stx_gas_price = gp, stx_signature = signature_default \<rparr>"

definition state_tx_hash :: "(u8 list \<Rightarrow> h256) \<Rightarrow> state_tx \<Rightarrow> h256" where
  "state_tx_hash sha tx = sha (tx_bytes (stx_nonce tx) (stx_from tx) (stx_to tx) (stx_value tx) (stx_data tx)
     (stx_gas_limit tx) (stx_gas_price tx))"

text \<open>The simplified signature: the hash and the private key themselves.\<close>

definition state_tx_sign :: "(u8 list \<Rightarrow> h256) \<Rightarrow> u8 list \<Rightarrow> state_tx \<Rightarrow> state_tx" where
  "state_tx_sign sha private_key tx =
     tx\<lparr>stx_signature := \<lparr> sig_v = 27, sig_r = be_bytes 32 (state_tx_hash sha tx), sig_s = private_key \<rparr>\<rparr>"

definition verify_signature :: "state_tx \<Rightarrow> bool" where
  "verify_signature tx \<longleftrightarrow>
     \<not> list_all (\<lambda>b. b = 0) (sig_r (stx_signature tx)) \<and> \<not> list_all (\<lambda>b. b = 0) (sig_s (stx_signature tx))"

definition sender :: "state_tx \<Rightarrow> address" where
  "sender tx = stx_from tx"

definition gas_cost :: "state_tx \<Rightarrow> u256 option" where
  "gas_cost tx = umul (ucast (stx_gas_limit tx)) (ucast (stx_gas_price tx))"

definition total_cost :: "state_tx \<Rightarrow> u256 option" where
  "total_cost tx = do { g \<leftarrow> gas_cost tx; uadd (ucast (stx_value tx)) g }"

definition receipt_gas_cost :: "u128 \<Rightarrow> tx_receipt \<Rightarrow> u128" where
  "receipt_gas_cost price r = ucast (gas_used r) * price"

section \<open>State\<close>

record account =
  acc_nonce :: u64
  acc_balance :: u256
  storage_root :: h256
  code_hash :: "h256 option"

definition account_new :: "u256 \<Rightarrow> account" where
  "account_new bal = \<lparr> acc_nonce = 0, acc_balance = bal, storage_root = 0, code_hash = None \<rparr>"

definition account_is_empty :: "account \<Rightarrow> bool" where
  "account_is_empty a \<longleftrightarrow> acc_nonce a = 0 \<and> acc_balance a = 0 \<and> code_hash a = None"

record state_db =
  accounts :: "(address \<times> account) list"
  storage :: "((h256 \<times> h256) \<times> h256) list"
  code :: "(h256 \<times> u8 list) list"
  dirty_accounts :: "(address \<times> account) list"
  backend :: "string \<rightharpoonup> u8 list"
  dirty_taken :: bool

text \<open>\<open>dirty_taken\<close>: a suspended eviction still has the write guard of the dirty accounts.\<close>

definition db_new :: "(string \<rightharpoonup> u8 list) \<Rightarrow> state_db" where
  "db_new be = \<lparr> accounts = [], storage = [], code = [], dirty_accounts = [], backend = be,
     dirty_taken = False \<rparr>"

definition cache_size :: nat where
  "cache_size = 10000"

section \<open>Keys of the backend\<close>

definition account_key :: "address \<Rightarrow> string" where
  "account_key a = ''account:'' @ hex (be_bytes 20 a)"

definition storage_key :: "address \<Rightarrow> h256 \<Rightarrow> string" where
  "storage_key a k = ''storage:'' @ hex (be_bytes 20 a) @ '':'' @ hex (be_bytes 32 k)"

definition storage_key_from_hash :: "h256 \<Rightarrow> h256 \<Rightarrow> string" where
  "storage_key_from_hash a k = ''storage:'' @ hex (be_bytes 32 a) @ '':'' @ hex (be_bytes 32 k)"

definition code_key :: "h256 \<Rightarrow> string" where
  "code_key c = ''code:'' @ hex (be_bytes 32 c)"

definition block_key :: "h256 \<Rightarrow> string" where
  "block_key h = ''block:'' @ hex (be_bytes 32 h)"

text \<open>The address in the last 20 of 32 bytes.\<close>

definition address_hash :: "address \<Rightarrow> h256" where
  "address_hash a = ucast a"

section \<open>Accounts, storage and code\<close>

definition db_get_account ::
  "(u8 list \<Rightarrow> account option) \<Rightarrow> address \<Rightarrow> state_db \<Rightarrow> account option \<times> state_db" where
  "db_get_account dec a s =
     (case map_of (accounts s) a of
        Some acc \<Rightarrow> (Some acc, s)
      | None \<Rightarrow>
          (case backend s (account_key a) of
             None \<Rightarrow> (None, s)
           | Some data \<Rightarrow>
               (case dec data of
                  None \<Rightarrow> (None, s)
                | Some acc \<Rightarrow> (Some acc, s\<lparr>accounts := AList.update a acc (accounts s)\<rparr>))))"

text \<open>
  \<^verbatim>\<open>evict_cache\<close> removes an entry of the \<^verbatim>\<open>DashMap\<close> while its iterator still has the guard of the entry's
  shard: the first coin that shows heads (\<open>True\<close>) suspends the call. It visits every entry as long as all coins
  show tails.
\<close>

definition evict_cache :: "bool list \<Rightarrow> state_db \<Rightarrow> (unit, unit) outcome \<times> state_db" where
  "evict_cache coins s = (if True \<in> set (take (length (accounts s)) coins) then (Hang, s\<lparr>dirty_taken := True\<rparr>) else (Ok (), s))"

definition db_set_account ::
  "bool list \<Rightarrow> address \<Rightarrow> account \<Rightarrow> state_db \<Rightarrow> (unit, unit) outcome \<times> state_db" where
  "db_set_account coins a acc s =
     (let s1 = s\<lparr>accounts := AList.update a acc (accounts s)\<rparr>;
          s2 = s1\<lparr>dirty_accounts := AList.update a acc (dirty_accounts s)\<rparr>
      in if dirty_taken s then (Hang, s1)
         else if cache_size < length (accounts s2) then evict_cache coins s2 else (Ok (), s2))"

definition db_get_storage :: "address \<Rightarrow> h256 \<Rightarrow> state_db \<Rightarrow> h256 \<times> state_db" where
  "db_get_storage a k s =
     (case map_of (storage s) (address_hash a, k) of
        Some v \<Rightarrow> (v, s)
      | None \<Rightarrow>
          (case backend s (storage_key a k) of
             None \<Rightarrow> (0, s)
           | Some data \<Rightarrow>
               if length data = 32
               then let v = fold (\<lambda>b acc. acc * 256 + ucast b) data 0
                    in (v, s\<lparr>storage := AList.update (address_hash a, k) v (storage s)\<rparr>)
               else (0, s)))"

definition db_set_storage :: "address \<Rightarrow> h256 \<Rightarrow> h256 \<Rightarrow> state_db \<Rightarrow> state_db" where
  "db_set_storage a k v s = s\<lparr>storage := AList.update (address_hash a, k) v (storage s)\<rparr>"

definition db_get_code :: "h256 \<Rightarrow> state_db \<Rightarrow> u8 list option \<times> state_db" where
  "db_get_code h s =
     (case map_of (code s) h of
        Some c \<Rightarrow> (Some c, s)
      | None \<Rightarrow>
          (case backend s (code_key h) of
             None \<Rightarrow> (None, s)
           | Some c \<Rightarrow> (Some c, s\<lparr>code := AList.update h c (code s)\<rparr>)))"

definition db_set_code ::
  "(u8 list \<Rightarrow> h256) \<Rightarrow> (u8 list \<Rightarrow> account option) \<Rightarrow> bool list \<Rightarrow> address \<Rightarrow> u8 list \<Rightarrow> state_db
     \<Rightarrow> (unit, h256) outcome \<times> state_db" where
  "db_set_code sha dec coins a c s =
     (let h = sha c;
          s1 = s\<lparr>code := AList.update h c (code s)\<rparr>
      in case db_get_account dec a s1 of
           (None, s2) \<Rightarrow> (Ok h, s2)
         | (Some acc, s2) \<Rightarrow>
             and_then (db_set_account coins a (acc\<lparr>code_hash := Some h\<rparr>) s2) (\<lambda>_ s. (Ok h, s)))"

definition db_is_contract :: "(u8 list \<Rightarrow> account option) \<Rightarrow> address \<Rightarrow> state_db \<Rightarrow> bool \<times> state_db" where
  "db_is_contract dec a s =
     (case db_get_account dec a s of (acc, s') \<Rightarrow>
        (case acc of None \<Rightarrow> False | Some x \<Rightarrow> code_hash x \<noteq> None, s'))"

section \<open>Commit, rollback, snapshots\<close>

definition batch_put :: "(string \<times> u8 list) list \<Rightarrow> (string \<rightharpoonup> u8 list) \<Rightarrow> (string \<rightharpoonup> u8 list)" where
  "batch_put items be = fold (\<lambda>(k, v) m. m(k \<mapsto> v)) items be"

definition commit_items :: "(account \<Rightarrow> u8 list) \<Rightarrow> state_db \<Rightarrow> (string \<times> u8 list) list" where
  "commit_items enc s =
     map (\<lambda>(a, acc). (account_key a, enc acc)) (dirty_accounts s)
     @ map (\<lambda>((ah, k), v). (storage_key_from_hash ah k, be_bytes 32 v)) (storage s)
     @ map (\<lambda>(h, c). (code_key h, c)) (code s)"

definition db_commit :: "(account \<Rightarrow> u8 list) \<Rightarrow> h256 \<Rightarrow> state_db \<Rightarrow> (unit, unit) outcome \<times> state_db" where
  "db_commit enc h s =
     (if dirty_taken s then (Hang, s)
      else (Ok (), s\<lparr>backend := (batch_put (commit_items enc s) (backend s))(block_key h \<mapsto> be_bytes 32 h),
                     dirty_accounts := []\<rparr>))"

definition db_rollback :: "h256 \<Rightarrow> state_db \<Rightarrow> (unit, unit) outcome \<times> state_db" where
  "db_rollback h s =
     (let s1 = s\<lparr>accounts := [], storage := []\<rparr>
      in if dirty_taken s then (Hang, s1) else (Ok (), s1\<lparr>dirty_accounts := []\<rparr>))"

record state_snapshot =
  snap_accounts :: "(address \<times> account) list"
  snap_storage :: "((h256 \<times> h256) \<times> h256) list"
  snap_code :: "(h256 \<times> u8 list) list"

definition create_snapshot :: "state_db \<Rightarrow> state_snapshot" where
  "create_snapshot s = \<lparr> snap_accounts = accounts s, snap_storage = storage s, snap_code = code s \<rparr>"

definition restore_snapshot :: "state_snapshot \<Rightarrow> state_db \<Rightarrow> state_db" where
  "restore_snapshot sn s =
     s\<lparr>accounts := fold (\<lambda>(k, v). AList.update k v) (snap_accounts sn) [],
       storage := fold (\<lambda>(k, v). AList.update k v) (snap_storage sn) [],
       code := fold (\<lambda>(k, v). AList.update k v) (snap_code sn) []\<rparr>"

definition get_account_count :: "state_db \<Rightarrow> nat" where
  "get_account_count s = length (accounts s)"

definition get_storage_count :: "state_db \<Rightarrow> nat" where
  "get_storage_count s = length (storage s)"

definition get_code_count :: "state_db \<Rightarrow> nat" where
  "get_code_count s = length (code s)"

section \<open>Which keys the backend holds\<close>

lemma key_lengths [simp]:
  "length (account_key a) = 48" "length (storage_key a k) = 113"
  "length (storage_key_from_hash h k) = 137" "length (code_key c) = 69" "length (block_key b) = 70"
  by (simp_all add: account_key_def storage_key_def storage_key_from_hash_def code_key_def block_key_def)

lemma account_key_inj [simp]: "account_key a = account_key b \<longleftrightarrow> a = b"
  by (simp add: account_key_def hex_be_bytes_inj)

lemma batch_put_lookup:
  "batch_put items be k = (case map_of (rev items) k of Some v \<Rightarrow> Some v | None \<Rightarrow> be k)"
  unfolding batch_put_def
  by (induction items arbitrary: be) (auto simp: map_add_def split: option.split)

lemma batch_put_other: "k \<notin> fst ` set items \<Longrightarrow> batch_put items be k = be k"
  unfolding batch_put_def by (induction items arbitrary: be) auto

lemma commit_item_lengths:
  "(k, v) \<in> set (commit_items enc s) \<Longrightarrow> length k = 48 \<or> length k = 137 \<or> length k = 69"
  by (auto simp: commit_items_def)

definition no_storage_keys :: "state_db \<Rightarrow> bool" where
  "no_storage_keys s \<longleftrightarrow> (\<forall>k. length k = 113 \<longrightarrow> backend s k = None)"

lemma no_storage_keys_commit: "no_storage_keys s \<Longrightarrow> no_storage_keys (snd (db_commit enc h s))"
proof -
  assume s: "no_storage_keys s"
  have "backend (snd (db_commit enc h s)) k = None" if "length k = 113" for k
  proof -
    have "k \<notin> fst ` set (commit_items enc s)"
      using commit_item_lengths [of k _ enc s] that by auto
    moreover have "k \<noteq> block_key h"
      using that by auto
    ultimately show ?thesis
      using s that by (simp add: db_commit_def batch_put_other no_storage_keys_def)
  qed
  then show ?thesis by (simp add: no_storage_keys_def)
qed

section \<open>The database as a component driven by calls\<close>

datatype db_call =
    Set_account "bool list" address account
  | Set_storage address h256 h256
  | Set_code "bool list" address "u8 list"
  | Get_account address
  | Get_storage address h256
  | Get_code h256
  | Commit h256
  | Rollback h256
  | Restore state_snapshot

fun db_step ::
  "(u8 list \<Rightarrow> h256) \<Rightarrow> (account \<Rightarrow> u8 list) \<Rightarrow> (u8 list \<Rightarrow> account option) \<Rightarrow> db_call \<Rightarrow> state_db \<Rightarrow> state_db" where
  "db_step sha enc dec (Set_account coins a acc) s = snd (db_set_account coins a acc s)"
| "db_step sha enc dec (Set_storage a k v) s = db_set_storage a k v s"
| "db_step sha enc dec (Set_code coins a c) s = snd (db_set_code sha dec coins a c s)"
| "db_step sha enc dec (Get_account a) s = snd (db_get_account dec a s)"
| "db_step sha enc dec (Get_storage a k) s = snd (db_get_storage a k s)"
| "db_step sha enc dec (Get_code h) s = snd (db_get_code h s)"
| "db_step sha enc dec (Commit h) s = snd (db_commit enc h s)"
| "db_step sha enc dec (Rollback h) s = snd (db_rollback h s)"
| "db_step sha enc dec (Restore sn) s = restore_snapshot sn s"

lemma db_set_account_backend [simp]: "backend (snd (db_set_account coins a acc s)) = backend s"
  by (simp add: db_set_account_def evict_cache_def Let_def)

lemma db_get_account_backend [simp]: "backend (snd (db_get_account dec a s)) = backend s"
  by (auto simp: db_get_account_def split: option.split)

lemma db_step_backend:
  "(\<And>h. c \<noteq> Commit h) \<Longrightarrow> backend (db_step sha enc dec c s) = backend s"
proof (cases c)
  case (Set_code coins a bs)
  define s1 where "s1 = s\<lparr>code := AList.update (sha bs) bs (code s)\<rparr>"
  obtain r s2 where r: "db_get_account dec a s1 = (r, s2)" by (cases "db_get_account dec a s1")
  then have b2: "backend s2 = backend s"
    using db_get_account_backend [of dec a s1] by (simp add: s1_def)
  have "backend (snd (and_then (db_set_account coins a x s2) (\<lambda>_ s. (Ok (sha bs) :: (unit, h256) outcome, s)))) = backend s2" for x
    using db_set_account_backend [of coins a x s2]
    by (cases "db_set_account coins a x s2"; cases "fst (db_set_account coins a x s2)") auto
  with Set_code r b2 show ?thesis
    by (auto simp: db_set_code_def Let_def s1_def split: option.split)
qed (auto simp: db_set_storage_def db_get_storage_def db_get_code_def db_rollback_def restore_snapshot_def
    Let_def split: option.split)

lemma no_storage_keys_step: "no_storage_keys s \<Longrightarrow> no_storage_keys (db_step sha enc dec c s)"
proof (cases "\<exists>h. c = Commit h")
  case True
  assume "no_storage_keys s"
  with True show ?thesis by (auto simp: no_storage_keys_commit)
next
  case False
  assume "no_storage_keys s"
  with False db_step_backend [of c sha enc dec s] show ?thesis by (simp add: no_storage_keys_def)
qed

interpretation db: invariant_of "db_step sha enc dec" "\<lambda>_ _. True" no_storage_keys for sha enc dec
  by unfold_locales (rule no_storage_keys_step)

section \<open>What a commit writes\<close>

lemma map_of_account_keys:
  "map_of (map (\<lambda>(a, acc). (account_key a, enc acc)) m) (account_key a) = map_option enc (map_of m a)"
  by (induction m) auto

lemma commit_writes_dirty:
  assumes "distinct (map fst (dirty_accounts s))" "map_of (dirty_accounts s) a = Some acc" "\<not> dirty_taken s"
  shows "backend (snd (db_commit enc h s)) (account_key a) = Some (enc acc)"
proof -
  let ?A = "map (\<lambda>(a, acc). (account_key a, enc acc)) (dirty_accounts s)"
  let ?B = "map (\<lambda>((ah, k), v). (storage_key_from_hash ah k, be_bytes 32 v)) (storage s)
     @ map (\<lambda>(h, c). (code_key h, c)) (code s)"
  have keys: "map fst ?A = map account_key (map fst (dirty_accounts s))"
    by (induction "dirty_accounts s") auto
  have "inj_on account_key (set (map fst (dirty_accounts s)))" by (simp add: inj_on_def)
  with assms(1) have "distinct (map fst ?A)"
    unfolding keys distinct_map [of account_key] by blast
  then have "map_of (rev ?A) (account_key a) = Some (enc acc)"
    using assms(2) map_of_rev [of ?A "account_key a"] map_of_account_keys [of enc "dirty_accounts s" a] by simp
  moreover have "map_of (rev ?B) (account_key a) = None"
  proof -
    have "length k \<noteq> 48" if "(k, v) \<in> set ?B" for k v
      using that by auto
    then have "account_key a \<notin> fst ` set (rev ?B)"
      by (metis (no_types, lifting) imageE key_lengths(1) prod.collapse set_rev)
    then show ?thesis by (simp only: map_of_eq_None_iff not_False_eq_True)
  qed
  moreover have "account_key a \<noteq> block_key h"
    by (rule notI, drule arg_cong [of _ _ length]) simp
  moreover have "commit_items enc s = ?A @ ?B" by (simp add: commit_items_def)
  ultimately have "map_of (rev (commit_items enc s)) (account_key a) = Some (enc acc)"
    by (simp only: rev_append map_of_append map_add_def option.case)
  with \<open>account_key a \<noteq> block_key h\<close> assms(3) show ?thesis
    by (simp add: db_commit_def batch_put_lookup)
qed

lemma distinct_alist_update: "distinct (map fst m) \<Longrightarrow> distinct (map fst (AList.update k v m))"
  by (rule distinct_update)

section \<open>Properties\<close>

text \<open>An account that was set is what the database returns after a commit even when the caches are dropped by a
  rollback, provided the account's serialisation can be read back.\<close>

theorem committed_account_survives_rollback:
  assumes "dec (enc acc) = Some acc" "\<not> dirty_taken s" "distinct (map fst (dirty_accounts s))"
    and "db_set_account coins a acc s = (Ok (), s1)"
  shows "fst (db_get_account dec a (snd (db_rollback h' (snd (db_commit enc h s1))))) = Some acc"
proof -
  from assms(2,4) have s1: "\<not> dirty_taken s1" "dirty_accounts s1 = AList.update a acc (dirty_accounts s)"
    by (auto simp: db_set_account_def evict_cache_def Let_def split: if_splits)
  then have "backend (snd (db_commit enc h s1)) (account_key a) = Some (enc acc)"
    using assms(3) by (intro commit_writes_dirty) (simp_all add: distinct_update update_conv)
  with assms(1) s1(1) show ?thesis
    by (simp add: db_rollback_def db_commit_def db_get_account_def Let_def)
qed

theorem committed_account_survives_rollback_witness:
  "\<exists>s1. db_set_account [] 7 (account_new 500) (db_new Map.empty) = (Ok (), s1) \<and>
     fst (db_get_account (\<lambda>_. Some (account_new 500)) 7
       (snd (db_rollback 2 (snd (db_commit (\<lambda>acc. be_bytes 32 (acc_balance acc)) 1 s1))))) = Some (account_new 500)"
proof -
  have "\<exists>s1. db_set_account [] 7 (account_new 500) (db_new Map.empty) = (Ok (), s1)"
    by (simp add: db_set_account_def db_new_def cache_size_def)
  then obtain s1 where s1: "db_set_account [] 7 (account_new 500) (db_new Map.empty) = (Ok (), s1)" ..
  moreover have "\<not> dirty_taken (db_new Map.empty)" "distinct (map fst (dirty_accounts (db_new Map.empty)))"
    by (simp_all add: db_new_def)
  ultimately show ?thesis
    using committed_account_survives_rollback [of "\<lambda>_. Some (account_new 500)" "\<lambda>acc. be_bytes 32 (acc_balance acc)"]
    by blast
qed

text \<open>Contract storage does not survive: after any run of calls on an empty backend, commits included, a
  rollback makes every storage slot read as zero, because a commit writes the slots under keys with the
  32-byte form of the address and reads look for the 20-byte form.\<close>

theorem committed_storage_is_never_found:
  "fst (db_get_storage a k (snd (db_rollback h (run (db_step sha enc dec) cs (db_new Map.empty))))) = 0"
proof -
  have "no_storage_keys (run (db_step sha enc dec) cs (db_new Map.empty))"
    by (rule db.inv_run [OF _ run_ok_always]) (simp add: no_storage_keys_def db_new_def)
  then show ?thesis
    by (simp add: db_get_storage_def db_rollback_def no_storage_keys_def Let_def)
qed

text \<open>The cost of a transaction never overflows 256 bits: it is the value plus gas limit times gas price.\<close>

theorem total_cost_exact:
  "\<exists>c. total_cost tx = Some c \<and>
     unat c = unat (stx_value tx) + unat (stx_gas_limit tx) * unat (stx_gas_price tx)"
proof -
  have lt: "unat (stx_gas_limit tx) < 2 ^ 64" "unat (stx_gas_price tx) < 2 ^ 128" "unat (stx_value tx) < 2 ^ 128"
    using unsigned_less [of "stx_gas_limit tx"] unsigned_less [of "stx_gas_price tx"]
      unsigned_less [of "stx_value tx"] by simp_all
  have u: "unat (ucast (stx_gas_limit tx) :: u256) = unat (stx_gas_limit tx)"
    "unat (ucast (stx_gas_price tx) :: u256) = unat (stx_gas_price tx)"
    "unat (ucast (stx_value tx) :: u256) = unat (stx_value tx)"
    using lt by (simp_all add: unsigned_ucast_eq take_bit_nat_eq_self)
  have prod: "unat (stx_gas_limit tx) * unat (stx_gas_price tx) < 2 ^ 64 * 2 ^ 128"
    using lt by (intro mult_strict_mono) simp_all
  then obtain g where g: "gas_cost tx = Some g"
    by (cases "gas_cost tx") (simp_all add: gas_cost_def umul_None u)
  then have ug: "unat g = unat (stx_gas_limit tx) * unat (stx_gas_price tx)"
    by (simp add: gas_cost_def checked_ops u)
  with prod lt(3) obtain c where c: "uadd (ucast (stx_value tx)) g = Some c"
    by (cases "uadd (ucast (stx_value tx)) g") (simp_all add: uadd_None u)
  then have "unat c = unat (stx_value tx) + unat g" by (simp add: checked_ops u)
  with g c ug show ?thesis by (simp add: total_cost_def)
qed

text \<open>A signed transaction verifies for every key that is not zero (and a hash that is not), its signature contains the
  private key, and the verification does not look at the transaction at all: any other transaction
  with that signature verifies too.\<close>

theorem signature_is_no_signature:
  assumes "state_tx_hash sha tx \<noteq> 0" "\<not> list_all (\<lambda>b. b = 0) pk"
  shows "sig_s (stx_signature (state_tx_sign sha pk tx)) = pk \<and>
    verify_signature (other\<lparr>stx_signature := stx_signature (state_tx_sign sha pk tx)\<rparr>)"
proof -
  have "be_bytes 32 (state_tx_hash sha tx) \<noteq> replicate 32 0"
    using assms(1) be_bytes_inj [where 'a = 256, of 32 "state_tx_hash sha tx" 0] by (auto simp: be_bytes_zero)
  then have "\<not> list_all (\<lambda>b. b = 0) (be_bytes 32 (state_tx_hash sha tx))"
    using replicate_eqI [of "be_bytes 32 (state_tx_hash sha tx)" 32 0] by (auto simp: list_all_iff)
  with assms(2) show ?thesis by (simp add: state_tx_sign_def verify_signature_def)
qed

theorem signature_is_no_signature_witness:
  "verify_signature ((state_tx_new 1 None 100 [] 0 21000 1)
     \<lparr>stx_signature := stx_signature (state_tx_sign (\<lambda>_. 5) (replicate 32 3) (state_tx_new 2 None 7 [] 0 0 0))\<rparr>)"
  using signature_is_no_signature [of "\<lambda>_. 5" "state_tx_new 2 None 7 [] 0 0 0" "replicate 32 3"
      "state_tx_new 1 None 100 [] 0 21000 1"]
  by (simp add: state_tx_hash_def list_all_iff)

end
