(* ===== verification/HotStuff.thy ===== *)
theory HotStuff
  imports Tendermint StateDB
begin

text \<open>
  The chained HotStuff consensus of \<^verbatim>\<open>src/consensus/hotstuff.rs\<close>: the state a node's three tasks share (the main
  loop, the message loop and the view timer), every handler, and the interleavings of the tasks as a step
  relation. A step of a task runs until the task waits for its next message, timer or turn.

  \<^verbatim>\<open>hash_block\<close> (packages \<^verbatim>\<open>bincode\<close> and \<^verbatim>\<open>sha2\<close>) and the clock are arguments. The channels hold 1000 messages; only
  the message loop reads from one of them, and nobody reads the other, where a node puts its own votes.
\<close>

section \<open>Messages and state\<close>

record partial_sig =
  ps_validator :: "u8 list"
  ps_signature :: "u8 list"

record quorum_cert =
  qc_block :: h256
  qc_view :: u64
  qc_signatures :: "partial_sig list"

record hs_block =
  hb_height :: u64
  hb_view :: u64
  parent_hash :: h256
  hb_qc :: quorum_cert
  hb_transactions :: "state_tx list"
  hb_timestamp :: u64

record proposal_msg =
  prop_block :: hs_block
  prop_justify :: quorum_cert
  prop_view :: u64
  prop_sender :: "u8 list"

record vote_msg =
  vm_block :: h256
  vm_view :: u64
  vm_sig :: partial_sig

record new_view_msg =
  nv_view :: u64
  nv_justify :: quorum_cert
  nv_sender :: "u8 list"

datatype hs_message = Msg_Proposal proposal_msg | Msg_Vote vote_msg | Msg_NewView new_view_msg

record hs_metrics =
  views_processed :: u64
  blocks_committed :: u64
  avg_latency_ms :: u64
  message_count :: u64

datatype task_state = Running | Suspended | Dead

text \<open>
  \<open>own_votes\<close> is the vote channel, \<open>committed\<close> what was sent to the block channel, \<open>last_view\<close> the timer's local
  variable, \<open>leaf_taken\<close> says that the suspended message loop has the write guard of \<open>b_leaf\<close>.
\<close>

record hotstuff =
  node_id :: "u8 list"
  view :: u64
  hs_height :: u64
  hs_validators :: "validator list"
  b_lock :: "hs_block option"
  b_exec :: "hs_block option"
  b_leaf :: "hs_block option"
  generic_qc :: "quorum_cert option"
  locked_qc :: "quorum_cert option"
  highest_qc :: "quorum_cert option"
  hs_votes :: "(h256 \<times> u64) \<rightharpoonup> vote_msg list"
  committed :: "hs_block list"
  msg_queue :: "hs_message list"
  own_votes :: "vote_msg list"
  hs_stats :: hs_metrics
  last_view :: u64
  leaf_taken :: bool
  main_task :: task_state
  message_task :: task_state

definition hs_new :: "u8 list \<Rightarrow> validator list \<Rightarrow> hotstuff" where
  "hs_new i vs = \<lparr> node_id = i, view = 0, hs_height = 0, hs_validators = vs, b_lock = None, b_exec = None,
     b_leaf = None, generic_qc = None, locked_qc = None, highest_qc = None, hs_votes = Map.empty,
     committed = [], msg_queue = [], own_votes = [],
     hs_stats = \<lparr> views_processed = 0, blocks_committed = 0, avg_latency_ms = 0, message_count = 0 \<rparr>,
     last_view = 0, leaf_taken = False, main_task = Running, message_task = Running \<rparr>"

definition channel_size :: nat where
  "channel_size = 1000"

datatype hs_lock = Lock_leaf | Lock_locked

type_synonym 'a hs_result = "(unit, 'a) outcome \<times> hotstuff"

section \<open>Helpers\<close>

definition is_leader :: "u64 \<Rightarrow> hotstuff \<Rightarrow> bool option" where
  "is_leader v s =
     (if hs_validators s = [] then None
      else Some (public_key (hs_validators s ! (unat v mod length (hs_validators s))) = node_id s))"

text \<open>
  The simplified signature has a slice of four bytes for the node's name; copying a shorter name into it
  panics.
\<close>

definition hs_sign :: "h256 \<Rightarrow> hotstuff \<Rightarrow> u8 list option" where
  "hs_sign h s =
     (if length (node_id s) < 4 then None
      else Some (be_bytes 32 h @ take 4 (node_id s) @ replicate 28 0))"

definition threshold :: "hotstuff \<Rightarrow> nat" where
  "threshold s = length (hs_validators s) * 2 div 3 + 1"

definition verify_qc :: "quorum_cert \<Rightarrow> hotstuff \<Rightarrow> bool" where
  "verify_qc qc s \<longleftrightarrow> threshold s \<le> length (qc_signatures qc)"

definition verify_block :: "hs_block \<Rightarrow> bool" where
  "verify_block b \<longleftrightarrow> 0 < hb_height b \<and> 0 \<le> hb_view b"

definition genesis_qc :: quorum_cert where
  "genesis_qc = \<lparr> qc_block = 0, qc_view = 0, qc_signatures = [] \<rparr>"

definition get_pending_transactions :: "state_tx list" where
  "get_pending_transactions = []"

definition broadcast :: "hs_message \<Rightarrow> hotstuff \<Rightarrow> hotstuff" where
  "broadcast m s = s\<lparr>msg_queue := msg_queue s @ [m]\<rparr>"

definition send_to_leader :: "hs_message \<Rightarrow> u64 \<Rightarrow> hotstuff \<Rightarrow> unit hs_result" where
  "send_to_leader m v s =
     or_panic s (is_leader v s) (\<lambda>lead. (Ok (), if lead then broadcast m s else s))"

text \<open>The channel of the node's own votes is never read: a full one suspends the sender for ever.\<close>

definition send_own_vote :: "vote_msg \<Rightarrow> hotstuff \<Rightarrow> unit hs_result" where
  "send_own_vote v s =
     (if channel_size \<le> length (own_votes s) then (Hang, s) else (Ok (), s\<lparr>own_votes := own_votes s @ [v]\<rparr>))"

definition count_view :: "hotstuff \<Rightarrow> hotstuff" where
  "count_view s = s\<lparr>hs_stats := (hs_stats s)\<lparr>views_processed := views_processed (hs_stats s) + 1\<rparr>\<rparr>"

section \<open>Proposing\<close>

definition make_block :: "(hs_block \<Rightarrow> h256) \<Rightarrow> u64 \<Rightarrow> hotstuff \<Rightarrow> hs_block" where
  "make_block hash now s =
     \<lparr> hb_height = hs_height s + 1, hb_view = view s,
       parent_hash = (case b_leaf s of None \<Rightarrow> 0 | Some b \<Rightarrow> hash b),
       hb_qc = (case highest_qc s of None \<Rightarrow> genesis_qc | Some q \<Rightarrow> q),
       hb_transactions = get_pending_transactions, hb_timestamp = now \<rparr>"

definition propose :: "(hs_block \<Rightarrow> h256) \<Rightarrow> u64 \<Rightarrow> hotstuff \<Rightarrow> unit hs_result" where
  "propose hash now s =
     (if leaf_taken s then (Hang, s)
      else
        let b = make_block hash now s;
            s1 = broadcast (Msg_Proposal \<lparr> prop_block = b, prop_justify = hb_qc b, prop_view = view s,
                                           prop_sender = node_id s \<rparr>) s
        in or_panic s1 (hs_sign (hash b) s1) (\<lambda>sg.
             send_own_vote \<lparr> vm_block = hash b, vm_view = view s,
               vm_sig = \<lparr> ps_validator = node_id s, ps_signature = sg \<rparr> \<rparr> s1))"

text \<open>One turn of the main loop.\<close>

definition hs_main :: "(hs_block \<Rightarrow> h256) \<Rightarrow> u64 \<Rightarrow> hotstuff \<Rightarrow> unit hs_result" where
  "hs_main hash now s =
     or_panic s (is_leader (view s) s) (\<lambda>lead. if lead then propose hash now s else (Ok (), s))"

section \<open>Proposals\<close>

text \<open>\<^verbatim>\<open>get_block\<close> reads \<open>b_leaf\<close> and, when that is another block, \<open>b_lock\<close>.\<close>

definition get_block ::
  "(hs_block \<Rightarrow> h256) \<Rightarrow> (hs_lock \<times> lock_mode) list \<Rightarrow> h256 \<Rightarrow> hotstuff \<Rightarrow> hs_block option hs_result" where
  "get_block hash held h s =
     (if \<not> can_read held Lock_leaf then (Hang, s\<lparr>leaf_taken := True\<rparr>)
      else case b_leaf s of
        Some b \<Rightarrow> if hash b = h then (Ok (Some b), s)
                  else if \<not> can_read held Lock_locked then (Hang, s\<lparr>leaf_taken := True\<rparr>)
                  else (Ok (case b_lock s of None \<Rightarrow> None | Some l \<Rightarrow> if hash l = h then Some l else None), s)
      | None \<Rightarrow> if \<not> can_read held Lock_locked then (Hang, s\<lparr>leaf_taken := True\<rparr>)
                else (Ok (case b_lock s of None \<Rightarrow> None | Some l \<Rightarrow> if hash l = h then Some l else None), s))"

definition commit_block :: "hs_block \<Rightarrow> hotstuff \<Rightarrow> unit hs_result" where
  "commit_block b s =
     (Ok (), s\<lparr>b_exec := Some b, committed := committed s @ [b], hs_height := hs_height s + 1,
              hs_stats := (hs_stats s)\<lparr>blocks_committed := blocks_committed (hs_stats s) + 1\<rparr>\<rparr>)"

definition leaf_guards :: "(hs_lock \<times> lock_mode) list" where
  "leaf_guards = [(Lock_leaf, Write_Guard)]"

definition lock_guards :: "(hs_lock \<times> lock_mode) list" where
  "lock_guards = [(Lock_leaf, Write_Guard), (Lock_locked, Write_Guard)]"

text \<open>\<^verbatim>\<open>update\<close> calls \<^verbatim>\<open>get_block\<close> with its own write guard of \<open>b_leaf\<close>.\<close>

definition update :: "(hs_block \<Rightarrow> h256) \<Rightarrow> hs_block \<Rightarrow> quorum_cert \<Rightarrow> hotstuff \<Rightarrow> unit hs_result" where
  "update hash b qc s =
     and_then (get_block hash leaf_guards (parent_hash b) (s\<lparr>b_leaf := Some b\<rparr>)) (\<lambda>parent s.
       case parent of
         None \<Rightarrow> (Ok (), s)
       | Some p \<Rightarrow>
           if qc_block qc = hash p then
             and_then (get_block hash lock_guards (parent_hash p) (s\<lparr>b_lock := Some p\<rparr>)) (\<lambda>grandparent s.
               case grandparent of
                 None \<Rightarrow> (Ok (), s)
               | Some g \<Rightarrow> if qc_block (hb_qc p) = hash g then commit_block g s else (Ok (), s))
           else (Ok (), s))"

definition vote_for_block :: "(hs_block \<Rightarrow> h256) \<Rightarrow> hs_block \<Rightarrow> hotstuff \<Rightarrow> unit hs_result" where
  "vote_for_block hash b s =
     or_panic s (hs_sign (hash b) s) (\<lambda>sg.
       let v = \<lparr> vm_block = hash b, vm_view = hb_view b,
                 vm_sig = \<lparr> ps_validator = node_id s, ps_signature = sg \<rparr> \<rparr>
       in or_panic s (is_leader (hb_view b) s) (\<lambda>lead.
            if lead then send_own_vote v s else send_to_leader (Msg_Vote v) (hb_view b) s))"

definition handle_proposal :: "(hs_block \<Rightarrow> h256) \<Rightarrow> proposal_msg \<Rightarrow> hotstuff \<Rightarrow> unit hs_result" where
  "handle_proposal hash p s =
     (if prop_view p \<noteq> view s then (Ok (), s)
      else if \<not> verify_qc (prop_justify p) s then (Ok (), s)
      else if \<not> verify_block (prop_block p) then (Ok (), s)
      else and_then (update hash (prop_block p) (prop_justify p) s) (\<lambda>_ s. vote_for_block hash (prop_block p) s))"

section \<open>Votes and views\<close>

definition handle_vote :: "vote_msg \<Rightarrow> hotstuff \<Rightarrow> unit hs_result" where
  "handle_vote v s =
     (let key = (vm_block v, vm_view v);
          vs = (case hs_votes s key of None \<Rightarrow> [] | Some l \<Rightarrow> l) @ [v];
          s1 = s\<lparr>hs_votes := (hs_votes s)(key \<mapsto> vs)\<rparr>
      in if threshold s \<le> length vs
         then (Ok (), s1\<lparr>highest_qc := Some \<lparr> qc_block = vm_block v, qc_view = vm_view v,
                           qc_signatures = map vm_sig vs \<rparr>, view := vm_view v + 1\<rparr>)
         else (Ok (), s1))"

definition enter_new_view :: "u64 \<Rightarrow> hotstuff \<Rightarrow> unit hs_result" where
  "enter_new_view v s =
     (let s1 = s\<lparr>view := v\<rparr> in
      and_then (case highest_qc s1 of
                  None \<Rightarrow> (Ok (), s1)
                | Some qc \<Rightarrow>
                    or_panic s1 (is_leader v s1) (\<lambda>lead.
                      if lead then (Ok (), count_view s1)
                      else send_to_leader (Msg_NewView \<lparr> nv_view = v, nv_justify = qc, nv_sender = node_id s1 \<rparr>) v s1))
        (\<lambda>_ s. (Ok (), count_view s)))"

definition handle_new_view :: "new_view_msg \<Rightarrow> hotstuff \<Rightarrow> unit hs_result" where
  "handle_new_view m s =
     or_panic s (is_leader (nv_view m) s) (\<lambda>lead. (Ok (), if lead then count_view s else s))"

definition update_avg_latency :: "u64 \<Rightarrow> hs_metrics \<Rightarrow> hs_metrics" where
  "update_avg_latency latency m = m\<lparr>avg_latency_ms := (avg_latency_ms m * 9 + latency) div 10\<rparr>"

text \<open>One turn of the message loop: the message at the head of the channel.\<close>

definition hs_deliver :: "(hs_block \<Rightarrow> h256) \<Rightarrow> u64 \<Rightarrow> hs_message \<Rightarrow> hotstuff \<Rightarrow> unit hs_result" where
  "hs_deliver hash latency m s =
     and_then (case m of
                 Msg_Proposal p \<Rightarrow> handle_proposal hash p s
               | Msg_Vote v \<Rightarrow> handle_vote v s
               | Msg_NewView nv \<Rightarrow> handle_new_view nv s) (\<lambda>_ s.
       let m1 = update_avg_latency latency (hs_stats s)
       in (Ok (), s\<lparr>hs_stats := m1\<lparr>message_count := message_count m1 + 1\<rparr>\<rparr>))"

text \<open>One tick of the view timer: it advances a view that did not change since the last tick.\<close>

definition hs_timer :: "hotstuff \<Rightarrow> hotstuff" where
  "hs_timer s =
     (let s1 = (if view s = last_view s then count_view (s\<lparr>view := view s + 1\<rparr>) else s)
      in s1\<lparr>last_view := view s\<rparr>)"

record hs_snapshot =
  snap_views :: u64
  snap_committed :: u64
  snap_latency :: u64
  snap_messages :: u64
  snap_view :: u64
  snap_height :: u64

definition hs_get_metrics :: "hotstuff \<Rightarrow> hs_snapshot" where
  "hs_get_metrics s = \<lparr> snap_views = views_processed (hs_stats s), snap_committed = blocks_committed (hs_stats s),
     snap_latency = avg_latency_ms (hs_stats s), snap_messages = message_count (hs_stats s),
     snap_view = view s, snap_height = hs_height s \<rparr>"

section \<open>Interleaving of the tasks\<close>

fun task_after :: "(unit, unit) outcome \<Rightarrow> task_state" where
  "task_after (Ok _) = Running"
| "task_after (Err _) = Running"
| "task_after Panic = Dead"
| "task_after Hang = Suspended"

inductive hs_step :: "(hs_block \<Rightarrow> h256) \<Rightarrow> hotstuff \<Rightarrow> hotstuff \<Rightarrow> bool" for hash where
  Main: "main_task s = Running \<Longrightarrow> length (msg_queue s) < channel_size \<Longrightarrow> hs_main hash now s = (r, s') \<Longrightarrow>
     hs_step hash s (s'\<lparr>main_task := task_after r\<rparr>)"
| Deliver: "message_task s = Running \<Longrightarrow> msg_queue s = m # ms \<Longrightarrow>
     hs_deliver hash latency m (s\<lparr>msg_queue := ms\<rparr>) = (r, s') \<Longrightarrow> hs_step hash s (s'\<lparr>message_task := task_after r\<rparr>)"
| Timer: "hs_step hash s (hs_timer s)"

inductive hs_reachable :: "(hs_block \<Rightarrow> h256) \<Rightarrow> hotstuff \<Rightarrow> hotstuff \<Rightarrow> bool" for hash where
  Start: "hs_reachable hash s s"
| Step: "hs_reachable hash s s1 \<Longrightarrow> hs_step hash s1 s2 \<Longrightarrow> hs_reachable hash s s2"

inductive_cases hs_stepE: "hs_step hash s s'"

section \<open>What a node can reach\<close>

text \<open>
  Nothing is ever certified: the only messages are the node's own proposals, justified by the genesis
  certificate, which has no signature.
\<close>

definition hs_inv :: "hotstuff \<Rightarrow> bool" where
  "hs_inv s \<longleftrightarrow> committed s = [] \<and> hs_height s = 0 \<and> b_leaf s = None \<and> b_lock s = None \<and> b_exec s = None \<and>
     generic_qc s = None \<and> locked_qc s = None \<and> highest_qc s = None \<and> hs_votes s = Map.empty \<and>
     blocks_committed (hs_stats s) = 0 \<and> \<not> leaf_taken s \<and> message_task s = Running \<and>
     list_all (\<lambda>m. case m of Msg_Proposal p \<Rightarrow> prop_justify p = genesis_qc | _ \<Rightarrow> False) (msg_queue s) \<and>
     length (own_votes s) \<le> channel_size \<and>
     (main_task s = Suspended \<longrightarrow> length (own_votes s) = channel_size)"

lemma hs_inv_new: "hs_inv (hs_new i vs)"
  by (simp add: hs_inv_def hs_new_def)

lemma genesis_not_certified [simp]: "\<not> verify_qc genesis_qc s"
  by (simp add: verify_qc_def genesis_qc_def threshold_def)

lemma hs_inv_main:
  assumes "hs_inv s" "main_task s = Running" "hs_main hash now s = (r, s')"
  shows "hs_inv (s'\<lparr>main_task := task_after r\<rparr>)"
proof -
  have "hs_inv (snd (hs_main hash now s)\<lparr>main_task := task_after (fst (hs_main hash now s))\<rparr>)"
    using assms(1,2)
    by (auto simp: hs_main_def propose_def hs_inv_def Let_def make_block_def broadcast_def send_own_vote_def
        split: or_panic_split)
  with assms(3) show ?thesis by simp
qed

lemma hs_inv_deliver:
  assumes "hs_inv s" "msg_queue s = m # ms" "hs_deliver hash latency m (s\<lparr>msg_queue := ms\<rparr>) = (r, s')"
  shows "hs_inv (s'\<lparr>message_task := task_after r\<rparr>)"
proof -
  obtain p where m: "m = Msg_Proposal p" "prop_justify p = genesis_qc"
    using assms(1,2) by (auto simp: hs_inv_def split: hs_message.splits)
  then have "handle_proposal hash p (s\<lparr>msg_queue := ms\<rparr>) = (Ok (), s\<lparr>msg_queue := ms\<rparr>)"
    by (simp add: handle_proposal_def)
  with assms m show ?thesis
    by (auto simp: hs_deliver_def hs_inv_def update_avg_latency_def Let_def)
qed

lemma hs_inv_timer: "hs_inv s \<Longrightarrow> hs_inv (hs_timer s)"
  by (auto simp: hs_timer_def hs_inv_def count_view_def Let_def)

lemma hs_inv_step: "hs_inv s \<Longrightarrow> hs_step hash s s' \<Longrightarrow> hs_inv s'"
  by (erule hs_stepE) (auto intro: hs_inv_main hs_inv_deliver hs_inv_timer)

lemma hs_inv_reachable: "hs_reachable hash s s' \<Longrightarrow> hs_inv s \<Longrightarrow> hs_inv s'"
  by (induction rule: hs_reachable.induct) (auto intro: hs_inv_step)

section \<open>Properties\<close>

text \<open>
  C13: whatever the interleaving of a node's tasks (main loop, message loop, timer), it never certifies, locks or commits a
  block: it files no vote and has no certificate (generic, locked or highest), its leaf, its locked and its executed block
  stay empty, nothing is sent to the block channel, the height and the count of commits stay 0, and its message loop goes
  on. The only messages in its channel are its own proposals, and each is rejected, since the genesis certificate it is
  justified by has no signature and at least one is required.
\<close>

theorem hotstuff_never_commits:
  assumes "hs_reachable hash (hs_new i vs) s"
  shows "committed s = [] \<and> hs_height s = 0 \<and> blocks_committed (hs_stats s) = 0 \<and>
    b_exec s = None \<and> b_lock s = None \<and> b_leaf s = None \<and>
    generic_qc s = None \<and> locked_qc s = None \<and> highest_qc s = None \<and> hs_votes s = Map.empty \<and>
    message_task s = Running"
  using hs_inv_reachable [OF assms hs_inv_new] by (simp add: hs_inv_def)

text \<open>A turn of the leader's main loop, the rejection of its proposal, a tick of the timer.\<close>

theorem hotstuff_never_commits_witness:
  "\<exists>s. hs_reachable (\<lambda>_. 9) (hs_new [1, 2, 3, 4] [validator_new [1, 2, 3, 4]]) s \<and>
     view s = 1 \<and> length (own_votes s) = 1 \<and> message_count (hs_stats s) = 1 \<and> msg_queue s = [] \<and>
     committed s = [] \<and> b_lock s = None"
proof -
  let ?s = "hs_new [1, 2, 3, 4] [validator_new [1, 2, 3, 4]]"
  let ?main = "hs_main (\<lambda>_. 9) 100 ?s"
  let ?s1 = "snd ?main\<lparr>main_task := task_after (fst ?main)\<rparr>"
  let ?del = "hs_deliver (\<lambda>_. 9) 0 (hd (msg_queue ?s1)) (?s1\<lparr>msg_queue := []\<rparr>)"
  let ?s2 = "snd ?del\<lparr>message_task := task_after (fst ?del)\<rparr>"
  note eval = hs_main_def propose_def is_leader_def hs_new_def validator_new_def hs_sign_def send_own_vote_def
    broadcast_def make_block_def channel_size_def hs_deliver_def handle_proposal_def Let_def
  have "hs_step (\<lambda>_. 9) ?s ?s1" by (rule hs_step.Main [of _ _ 100]) (simp_all add: eval)
  moreover have "hs_step (\<lambda>_. 9) ?s1 ?s2" by (rule hs_step.Deliver [of _ "hd (msg_queue ?s1)" "[]" _ 0]) (simp_all add: eval)
  ultimately have reach: "hs_reachable (\<lambda>_. 9) ?s (hs_timer ?s2)"
    by (rule hs_reachable.Step [OF hs_reachable.Step [OF hs_reachable.Step [OF hs_reachable.Start]] hs_step.Timer])
  have "view (hs_timer ?s2) = 1 \<and> length (own_votes (hs_timer ?s2)) = 1 \<and>
      message_count (hs_stats (hs_timer ?s2)) = 1 \<and> msg_queue (hs_timer ?s2) = []"
    by (simp add: eval hs_timer_def count_view_def update_avg_latency_def)
  with hotstuff_never_commits [OF reach] reach show ?thesis by blast
qed

text \<open>In every reachable state, the leader's next proposal suspends its main loop for ever exactly when a thousand of its
  own votes have piled up in the channel that nobody reads; before that the proposal adds one vote.\<close>

theorem leader_stalls_after_thousand_proposals:
  assumes "hs_reachable hash (hs_new i vs) s" "is_leader (view s) s = Some True" "4 \<le> length (node_id s)"
  shows "if length (own_votes s) = 1000 then fst (hs_main hash now s) = Hang
    else fst (hs_main hash now s) = Ok () \<and> length (own_votes (snd (hs_main hash now s))) = Suc (length (own_votes s))"
proof -
  have inv: "hs_inv s" by (rule hs_inv_reachable [OF assms(1) hs_inv_new])
  then have "\<not> leaf_taken s" "length (own_votes s) \<le> 1000" by (simp_all add: hs_inv_def channel_size_def)
  with assms(2,3) show ?thesis
    by (auto simp: hs_main_def propose_def broadcast_def hs_sign_def send_own_vote_def channel_size_def Let_def)
qed

theorem leader_stalls_after_thousand_proposals_witness:
  "length (own_votes (snd (hs_main (\<lambda>_. 9) 100 (hs_new [1, 2, 3, 4] [validator_new [1, 2, 3, 4]])))) = 1"
  using leader_stalls_after_thousand_proposals [OF hs_reachable.Start, of "[1, 2, 3, 4]" "[validator_new [1, 2, 3, 4]]" "\<lambda>_. 9" 100]
  by (simp add: is_leader_def hs_new_def validator_new_def)

text \<open>A proposal that passes all checks (a quorum of signatures, whatever they are, in the node's view) suspends the message loop for
  ever: \<^verbatim>\<open>update\<close> looks up the parent under its own write guard of the leaf. The node neither votes nor
  commits.\<close>

theorem accepted_proposal_suspends:
  assumes "prop_view p = view s" "verify_qc (prop_justify p) s" "0 < hb_height (prop_block p)"
  shows "handle_proposal hash p s = (Hang, s\<lparr>b_leaf := Some (prop_block p), leaf_taken := True\<rparr>)"
  using assms
  by (simp add: handle_proposal_def verify_block_def update_def get_block_def leaf_guards_def can_read_def)

theorem accepted_proposal_suspends_witness:
  "\<exists>p s. fst (handle_proposal (\<lambda>_. 9) p s) = Hang"
proof -
  let ?s = "hs_new [1, 2, 3, 4] [validator_new [1, 2, 3, 4]]"
  let ?b = "(make_block (\<lambda>_. 9) 100 ?s)\<lparr>hb_qc := genesis_qc\<lparr>qc_signatures := [\<lparr> ps_validator = [], ps_signature = [] \<rparr>]\<rparr>\<rparr>"
  let ?p = "\<lparr> prop_block = ?b, prop_justify = hb_qc ?b, prop_view = 0, prop_sender = [] \<rparr>"
  have "handle_proposal (\<lambda>_. 9) ?p ?s = (Hang, ?s\<lparr>b_leaf := Some (prop_block ?p), leaf_taken := True\<rparr>)"
    by (rule accepted_proposal_suspends)
      (simp_all add: make_block_def hs_new_def verify_qc_def threshold_def)
  then have "fst (handle_proposal (\<lambda>_. 9) ?p ?s) = Hang" by simp
  then show ?thesis by blast
qed

text \<open>A vote is filed under its block and view; the vote that makes more than two thirds of the number of validators certifies
  the block with the signatures collected, whoever they are from, and moves the node to the view after the
  vote's, forwards or backwards. Other votes change nothing else.\<close>

theorem handle_vote_certifies:
  "let key = (vm_block v, vm_view v);
       vs = (case hs_votes s key of None \<Rightarrow> [] | Some l \<Rightarrow> l) @ [v]
   in \<exists>s'. handle_vote v s = (Ok (), s') \<and> hs_votes s' = (hs_votes s)(key \<mapsto> vs) \<and>
      (if 2 * length (hs_validators s) < 3 * length vs
       then view s' = vm_view v + 1 \<and>
            highest_qc s' = Some \<lparr> qc_block = vm_block v, qc_view = vm_view v, qc_signatures = map vm_sig vs \<rparr> \<and>
            verify_qc (the (highest_qc s')) s'
       else view s' = view s \<and> highest_qc s' = highest_qc s)"
proof -
  have "n * 2 div 3 + 1 \<le> m \<longleftrightarrow> 2 * n < 3 * m" for n m :: nat by linarith
  then have "threshold s \<le> m \<longleftrightarrow> 2 * length (hs_validators s) < 3 * m" for m
    by (simp add: threshold_def)
  moreover have "threshold (s\<lparr>hs_votes := vts, highest_qc := q, view := w\<rparr>) = threshold s" for vts q w
    by (simp add: threshold_def)
  ultimately show ?thesis
    by (simp add: handle_vote_def Let_def verify_qc_def del: One_nat_def)
qed

end
