(* ===== verification/OptimisticBft.thy ===== *)
theory OptimisticBft
  imports Tendermint TxBytes
begin

text \<open>
  The optimistic consensus protocol of \<^verbatim>\<open>src/consensus/optimistic_bft.rs\<close>: the state the four tasks of a node share (the
  main loop, the message loop, the network monitor and the speculation), every handler, and the interleavings of the
  tasks as a step relation.

  \<^verbatim>\<open>hash_block\<close> is \<open>sha (ser b)\<close> for the arguments \<open>sha\<close> (\<^verbatim>\<open>sha2\<close>) and \<open>ser\<close> (\<^verbatim>\<open>bincode\<close>); clocks and random numbers are arguments.
  Floating-point scores enter the code only through comparisons with constants: the state keeps the answers. The message
  channel holds 1000 messages and is read by the node's own message loop only, the block channel holds 100.
\<close>

section \<open>Messages and state\<close>

record opt_tx =
  otx_hash :: h256
  otx_from :: address
  otx_to :: "address option"
  otx_data :: "u8 list"
  otx_nonce :: u64

record opt_block =
  ob_height :: u64
  ob_epoch :: u64
  ob_parent :: h256
  ob_transactions :: "opt_tx list"
  ob_state_root :: h256
  ob_timestamp :: u64
  ob_proposer :: "u8 list"
  ob_fast_path :: bool

record fast_proposal =
  fpr_block :: opt_block
  fpr_epoch :: u64
  fpr_sender :: "u8 list"

record normal_proposal =
  npr_block :: opt_block
  npr_epoch :: u64
  npr_proof :: "u8 list"
  npr_sender :: "u8 list"

record fast_vote =
  fv_block :: h256
  fv_epoch :: u64
  fv_voter :: "u8 list"
  fv_signature :: "u8 list"

record normal_vote =
  nv_block :: h256
  nv_epoch :: u64
  nv_state :: h256
  nv_voter :: "u8 list"
  nv_signature :: "u8 list"

record commit_msg =
  cm_block :: h256
  cm_epoch :: u64
  cm_votes :: "fast_vote list"

record rollback_msg =
  rm_epoch :: u64
  rm_height :: u64
  rm_reason :: string

datatype opt_message =
    Fast_Proposal fast_proposal
  | Normal_Proposal normal_proposal
  | Fast_Vote fast_vote
  | Normal_Vote normal_vote
  | Commit_Msg commit_msg
  | Rollback_Msg rollback_msg

record prediction_result =
  pr_height :: u64
  pr_predicted :: bool
  pr_correct :: bool
  pr_saved :: u64

text \<open>\<open>confident\<close> is \<^verbatim>\<open>confidence > 0.7\<close>, \<open>stable\<close> and \<open>unstable\<close> are \<^verbatim>\<open>stability_score > 0.8\<close> and \<^verbatim>\<open>stability_score < 0.5\<close>.\<close>

record speculative_state =
  predictions :: "(u64 \<times> opt_block) list"
  confident :: bool
  spec_history :: "prediction_result list"

record network_conditions =
  net_latency :: u64
  net_bandwidth :: u64
  stable :: bool
  unstable :: bool

record opt_metrics =
  fast_success :: u64
  fast_failure :: u64
  om_executed :: u64
  om_committed :: u64
  om_rolled_back :: u64
  om_latency :: u64
  spec_hits :: u64
  spec_misses :: u64

record opt_bft =
  opt_id :: "u8 list"
  opt_epoch :: u64
  opt_height :: u64
  opt_validators :: "validator list"
  executed_blocks :: "opt_block list"
  committed_blocks :: "opt_block list"
  speculation :: speculative_state
  fast_votes :: "(h256 \<times> u64) \<rightharpoonup> fast_vote list"
  normal_votes :: "(h256 \<times> u64) \<rightharpoonup> normal_vote list"
  fast_path_enabled :: bool
  network :: network_conditions
  block_channel :: "opt_block list"
  opt_inbox :: "opt_message list"
  opt_stats :: opt_metrics

definition opt_new :: "u8 list \<Rightarrow> validator list \<Rightarrow> opt_bft" where
  "opt_new i vs = \<lparr> opt_id = i, opt_epoch = 0, opt_height = 0, opt_validators = vs, executed_blocks = [],
     committed_blocks = [], speculation = \<lparr> predictions = [], confident = False, spec_history = [] \<rparr>,
     fast_votes = Map.empty, normal_votes = Map.empty, fast_path_enabled = True,
     network = \<lparr> net_latency = 10, net_bandwidth = 1000, stable = True, unstable = False \<rparr>,
     block_channel = [], opt_inbox = [], opt_stats = \<lparr> fast_success = 0, fast_failure = 0, om_executed = 0, om_committed = 0,
       om_rolled_back = 0, om_latency = 0, spec_hits = 0, spec_misses = 0 \<rparr> \<rparr>"

definition inbox_size :: nat where
  "inbox_size = 1000"

definition block_channel_size :: nat where
  "block_channel_size = 100"

type_synonym 'a opt_result = "(unit, 'a) outcome \<times> opt_bft"

section \<open>Helpers\<close>

definition opt_is_leader :: "u64 \<Rightarrow> opt_bft \<Rightarrow> bool option" where
  "opt_is_leader e s =
     (if opt_validators s = [] then None
      else Some (public_key (opt_validators s ! (unat e mod length (opt_validators s))) = opt_id s))"

definition opt_hash :: "(u8 list \<Rightarrow> h256) \<Rightarrow> (opt_block \<Rightarrow> u8 list) \<Rightarrow> opt_block \<Rightarrow> h256" where
  "opt_hash sha ser b = sha (ser b)"

definition opt_sign :: "opt_block \<Rightarrow> u8 list" where
  "opt_sign b = replicate 64 0"

definition quick_verify :: "opt_block \<Rightarrow> bool" where
  "quick_verify b \<longleftrightarrow> 0 < ob_height b \<and> 0 < ob_epoch b"

definition full_verify :: "opt_block \<Rightarrow> u8 list \<Rightarrow> bool" where
  "full_verify b proof_bytes \<longleftrightarrow> quick_verify b \<and> 0 < length proof_bytes"

definition opt_proof :: "opt_block \<Rightarrow> u8 list" where
  "opt_proof b = replicate 128 0"

definition opt_transactions :: "opt_tx list" where
  "opt_transactions = []"

text \<open>A full channel suspends the sender until the message loop reads from it, for ever when the sender is that loop.\<close>

definition opt_broadcast :: "opt_message \<Rightarrow> opt_bft \<Rightarrow> unit opt_result" where
  "opt_broadcast m s =
     (if inbox_size \<le> length (opt_inbox s) then (Hang, s) else (Ok (), s\<lparr>opt_inbox := opt_inbox s @ [m]\<rparr>))"

definition opt_send_to_leader :: "opt_message \<Rightarrow> u64 \<Rightarrow> opt_bft \<Rightarrow> unit opt_result" where
  "opt_send_to_leader m e s =
     or_panic s (opt_is_leader e s) (\<lambda>lead. if lead then opt_broadcast m s else (Ok (), s))"

definition count_stat :: "(opt_metrics \<Rightarrow> opt_metrics) \<Rightarrow> opt_bft \<Rightarrow> opt_bft" where
  "count_stat f s = s\<lparr>opt_stats := f (opt_stats s)\<rparr>"

definition count_fast :: "opt_metrics \<Rightarrow> opt_metrics" where
  "count_fast m = m\<lparr>fast_success := fast_success m + 1\<rparr>"

section \<open>Execution and commitment\<close>

text \<open>At most ten blocks wait for their commitment.\<close>

definition optimistic_execute :: "opt_block \<Rightarrow> opt_bft \<Rightarrow> opt_bft" where
  "optimistic_execute b s =
     (let bs = executed_blocks s @ [b]
      in count_stat (\<lambda>m. m\<lparr>om_executed := om_executed m + 1\<rparr>)
           (s\<lparr>executed_blocks := (if 10 < length bs then tl bs else bs)\<rparr>))"

definition execute_with_verification :: "(u8 list \<Rightarrow> h256) \<Rightarrow> opt_block \<Rightarrow> opt_bft \<Rightarrow> h256 \<times> opt_bft" where
  "execute_with_verification sha b s =
     (sha (be_bytes 32 (ob_state_root b) @ be_bytes 8 (ob_height b)), optimistic_execute b s)"

text \<open>
  The first executed block with the hash is committed; it and the blocks before it leave the queue. The block is sent to
  the state machine under the guards of both queues, before the height is raised.
\<close>

definition opt_commit_block ::
  "(u8 list \<Rightarrow> h256) \<Rightarrow> (opt_block \<Rightarrow> u8 list) \<Rightarrow> h256 \<Rightarrow> opt_bft \<Rightarrow> unit opt_result" where
  "opt_commit_block sha ser h s =
     (case dropWhile (\<lambda>b. opt_hash sha ser b \<noteq> h) (executed_blocks s) of
        [] \<Rightarrow> (Ok (), s)
      | b # later \<Rightarrow>
          let s1 = s\<lparr>committed_blocks := committed_blocks s @ [b], executed_blocks := later\<rparr>
          in if block_channel_size \<le> length (block_channel s1) then (Hang, s1)
             else (Ok (), count_stat (\<lambda>m. m\<lparr>om_committed := om_committed m + 1\<rparr>)
               (s1\<lparr>block_channel := block_channel s1 @ [b], opt_height := opt_height s1 + 1\<rparr>)))"

definition rollback_to_height :: "u64 \<Rightarrow> opt_bft \<Rightarrow> opt_bft" where
  "rollback_to_height n s =
     (let s1 = s\<lparr>executed_blocks := []\<rparr> in
      if n < opt_height s
      then s1\<lparr>committed_blocks := take (unat n) (committed_blocks s1), opt_height := n\<rparr> else s1)"

section \<open>Proposing\<close>

definition use_fast_path :: "opt_bft \<Rightarrow> bool" where
  "use_fast_path s \<longleftrightarrow> stable (network s) \<and> net_latency (network s) < 20 \<and> fast_path_enabled s"

definition opt_parent_hash :: "(u8 list \<Rightarrow> h256) \<Rightarrow> (opt_block \<Rightarrow> u8 list) \<Rightarrow> opt_bft \<Rightarrow> h256" where
  "opt_parent_hash sha ser s = (if committed_blocks s = [] then 0 else opt_hash sha ser (last (committed_blocks s)))"

definition opt_make_block :: "(u8 list \<Rightarrow> h256) \<Rightarrow> (opt_block \<Rightarrow> u8 list) \<Rightarrow> u64 \<Rightarrow> opt_bft \<Rightarrow> opt_block" where
  "opt_make_block sha ser now s =
     \<lparr> ob_height = opt_height s + 1, ob_epoch = opt_epoch s, ob_parent = opt_parent_hash sha ser s,
       ob_transactions = opt_transactions, ob_state_root = 0, ob_timestamp = now, ob_proposer = opt_id s,
       ob_fast_path = use_fast_path s \<rparr>"

definition opt_propose :: "(u8 list \<Rightarrow> h256) \<Rightarrow> (opt_block \<Rightarrow> u8 list) \<Rightarrow> u64 \<Rightarrow> opt_bft \<Rightarrow> unit opt_result" where
  "opt_propose sha ser now s =
     (let b = opt_make_block sha ser now s in
      if use_fast_path s
      then opt_broadcast (Fast_Proposal \<lparr> fpr_block = b, fpr_epoch = opt_epoch s, fpr_sender = opt_id s \<rparr>)
             (optimistic_execute b s)
      else opt_broadcast (Normal_Proposal \<lparr> npr_block = b, npr_epoch = opt_epoch s, npr_proof = opt_proof b,
             npr_sender = opt_id s \<rparr>) s)"

text \<open>One turn of the main loop.\<close>

definition opt_main :: "(u8 list \<Rightarrow> h256) \<Rightarrow> (opt_block \<Rightarrow> u8 list) \<Rightarrow> u64 \<Rightarrow> opt_bft \<Rightarrow> unit opt_result" where
  "opt_main sha ser now s =
     or_panic s (opt_is_leader (opt_epoch s) s) (\<lambda>lead. if lead then opt_propose sha ser now s else (Ok (), s))"

section \<open>Handlers\<close>

definition fast_threshold :: "opt_bft \<Rightarrow> nat" where
  "fast_threshold s = length (opt_validators s) div 3 + 1"

definition normal_threshold :: "opt_bft \<Rightarrow> nat" where
  "normal_threshold s = length (opt_validators s) * 2 div 3 + 1"

definition handle_fast_vote :: "fast_vote \<Rightarrow> opt_bft \<Rightarrow> unit opt_result" where
  "handle_fast_vote v s =
     (let key = (fv_block v, fv_epoch v);
          vs = (case fast_votes s key of None \<Rightarrow> [] | Some l \<Rightarrow> l) @ [v];
          s1 = s\<lparr>fast_votes := (fast_votes s)(key \<mapsto> vs)\<rparr>
      in if fast_threshold s \<le> length vs
         then and_then (opt_broadcast (Commit_Msg \<lparr> cm_block = fv_block v, cm_epoch = fv_epoch v, cm_votes = vs \<rparr>) s1)
                (\<lambda>_ s. (Ok (), count_stat count_fast s))
         else (Ok (), s1))"

definition handle_normal_vote ::
  "(u8 list \<Rightarrow> h256) \<Rightarrow> (opt_block \<Rightarrow> u8 list) \<Rightarrow> normal_vote \<Rightarrow> opt_bft \<Rightarrow> unit opt_result" where
  "handle_normal_vote sha ser v s =
     (let key = (nv_block v, nv_epoch v);
          vs = (case normal_votes s key of None \<Rightarrow> [] | Some l \<Rightarrow> l) @ [v];
          s1 = s\<lparr>normal_votes := (normal_votes s)(key \<mapsto> vs)\<rparr>
      in if normal_threshold s \<le> length vs
         then if card (set (map nv_state vs)) = 1 then opt_commit_block sha ser (nv_block v) s1
              else opt_broadcast (Rollback_Msg \<lparr> rm_epoch = nv_epoch v, rm_height = opt_height s1,
                     rm_reason = ''State hash mismatch'' \<rparr>) s1
         else (Ok (), s1))"

text \<open>\<open>quick\<close> says that verifying, executing and voting took less than 30 milliseconds.\<close>

definition handle_fast_proposal ::
  "(u8 list \<Rightarrow> h256) \<Rightarrow> (opt_block \<Rightarrow> u8 list) \<Rightarrow> bool \<Rightarrow> fast_proposal \<Rightarrow> opt_bft \<Rightarrow> unit opt_result" where
  "handle_fast_proposal sha ser quick p s =
     (if \<not> quick_verify (fpr_block p) then (Ok (), s)
      else
        let s1 = optimistic_execute (fpr_block p) s;
            v = \<lparr> fv_block = opt_hash sha ser (fpr_block p), fv_epoch = fpr_epoch p, fv_voter = opt_id s1,
                  fv_signature = opt_sign (fpr_block p) \<rparr>
        in or_panic s1 (opt_is_leader (fpr_epoch p) s1) (\<lambda>lead.
             and_then (if lead then handle_fast_vote v s1 else opt_send_to_leader (Fast_Vote v) (fpr_epoch p) s1)
               (\<lambda>_ s. (Ok (), if quick then count_stat count_fast s else s))))"

definition handle_normal_proposal ::
  "(u8 list \<Rightarrow> h256) \<Rightarrow> (opt_block \<Rightarrow> u8 list) \<Rightarrow> normal_proposal \<Rightarrow> opt_bft \<Rightarrow> unit opt_result" where
  "handle_normal_proposal sha ser p s =
     (if \<not> full_verify (npr_block p) (npr_proof p) then (Ok (), s)
      else
        case execute_with_verification sha (npr_block p) s of (st, s1) \<Rightarrow>
          let v = \<lparr> nv_block = opt_hash sha ser (npr_block p), nv_epoch = npr_epoch p, nv_state = st, nv_voter = opt_id s1,
                    nv_signature = opt_sign (npr_block p) \<rparr>
          in or_panic s1 (opt_is_leader (npr_epoch p) s1) (\<lambda>lead.
               if lead then handle_normal_vote sha ser v s1
               else opt_send_to_leader (Normal_Vote v) (npr_epoch p) s1))"

definition opt_handle_commit ::
  "(u8 list \<Rightarrow> h256) \<Rightarrow> (opt_block \<Rightarrow> u8 list) \<Rightarrow> commit_msg \<Rightarrow> opt_bft \<Rightarrow> unit opt_result" where
  "opt_handle_commit sha ser c s =
     (if fast_threshold s \<le> length (cm_votes c) then opt_commit_block sha ser (cm_block c) s else (Ok (), s))"

text \<open>The task that should enable the fast path again after ten seconds only sleeps.\<close>

definition opt_handle_rollback :: "rollback_msg \<Rightarrow> opt_bft \<Rightarrow> unit opt_result" where
  "opt_handle_rollback r s =
     (let s1 = count_stat (\<lambda>m. m\<lparr>om_rolled_back := om_rolled_back m + 1\<rparr>) (rollback_to_height (rm_height r) s)
      in (Ok (), s1\<lparr>fast_path_enabled := False\<rparr>))"

definition opt_update_latency :: "u64 \<Rightarrow> opt_metrics \<Rightarrow> opt_metrics" where
  "opt_update_latency latency m = m\<lparr>om_latency := (om_latency m * 9 + latency) div 10\<rparr>"

text \<open>One turn of the message loop.\<close>

definition opt_handle ::
  "(u8 list \<Rightarrow> h256) \<Rightarrow> (opt_block \<Rightarrow> u8 list) \<Rightarrow> bool \<Rightarrow> opt_message \<Rightarrow> opt_bft \<Rightarrow> unit opt_result" where
  "opt_handle sha ser quick m s =
     (case m of
        Fast_Proposal p \<Rightarrow> handle_fast_proposal sha ser quick p s
      | Normal_Proposal p \<Rightarrow> handle_normal_proposal sha ser p s
      | Fast_Vote v \<Rightarrow> handle_fast_vote v s
      | Normal_Vote v \<Rightarrow> handle_normal_vote sha ser v s
      | Commit_Msg c \<Rightarrow> opt_handle_commit sha ser c s
      | Rollback_Msg r \<Rightarrow> opt_handle_rollback r s)"

definition opt_deliver ::
  "(u8 list \<Rightarrow> h256) \<Rightarrow> (opt_block \<Rightarrow> u8 list) \<Rightarrow> bool \<Rightarrow> u64 \<Rightarrow> opt_message \<Rightarrow> opt_bft \<Rightarrow> unit opt_result" where
  "opt_deliver sha ser quick latency m s =
     and_then (opt_handle sha ser quick m s) (\<lambda>_ s. (Ok (), count_stat (opt_update_latency latency) s))"

section \<open>Speculation and the network monitor\<close>

definition predict_next_block :: "u64 \<Rightarrow> u64 \<Rightarrow> opt_bft \<Rightarrow> opt_block" where
  "predict_next_block now h s = \<lparr> ob_height = h, ob_epoch = opt_epoch s, ob_parent = 0, ob_transactions = [],
     ob_state_root = 0, ob_timestamp = now, ob_proposer = [], ob_fast_path = True \<rparr>"

text \<open>The quotient of the hits and at most 101 results compares with 0.7 as the integers do.\<close>

definition update_speculation_confidence :: "speculative_state \<Rightarrow> speculative_state" where
  "update_speculation_confidence sp =
     (let n = length (spec_history sp); hits = length (filter pr_correct (spec_history sp)) in
      if 10 \<le> n
      then sp\<lparr>confident := (7 * n < 10 * hits),
              spec_history := (if 100 < n then tl (spec_history sp) else spec_history sp)\<rparr>
      else sp)"

definition speculate_block :: "u64 \<Rightarrow> opt_bft \<Rightarrow> opt_bft" where
  "speculate_block now s =
     (let h = opt_height s + 1;
          b = predict_next_block now h s;
          ps = AList.update h b (predictions (speculation s));
          ps' = (if 3 < length ps then filter (\<lambda>(h', _). h - 3 \<le> h') ps else ps);
          s1 = optimistic_execute b s
      in s1\<lparr>speculation := (speculation s1)\<lparr>predictions := ps'\<rparr>\<rparr>)"

text \<open>One tick of the speculation.\<close>

definition opt_speculate :: "u64 \<Rightarrow> opt_bft \<Rightarrow> opt_bft" where
  "opt_speculate now s =
     (let s1 = (if confident (speculation s) then speculate_block now s else s)
      in s1\<lparr>speculation := update_speculation_confidence (speculation s1)\<rparr>)"

text \<open>One tick of the monitor, for a random number and the two comparisons of the new stability score.\<close>

definition monitor_network :: "u64 \<Rightarrow> bool \<Rightarrow> bool \<Rightarrow> opt_bft \<Rightarrow> opt_bft" where
  "monitor_network rnd hi lo s =
     s\<lparr>network := (network s)\<lparr>net_latency := 10 + rnd mod 20, stable := hi, unstable := lo\<rparr>,
       fast_path_enabled := (if lo then False else if hi then True else fast_path_enabled s)\<rparr>"

record opt_snapshot =
  os_metrics :: opt_metrics
  os_stable :: bool
  os_confident :: bool
  os_fast_path :: bool

definition opt_get_metrics :: "opt_bft \<Rightarrow> opt_snapshot" where
  "opt_get_metrics s = \<lparr> os_metrics = opt_stats s, os_stable = stable (network s),
     os_confident = confident (speculation s), os_fast_path = fast_path_enabled s \<rparr>"

section \<open>Interleaving of the tasks\<close>

text \<open>
  A step of a task runs until the task waits for its next message, tick or turn. A message loop that panicked or waits for
  ever is \<open>stopped\<close>; the receiver of the blocks may take one at any time.
\<close>

record opt_node =
  bft :: opt_bft
  main_stopped :: bool
  loop_stopped :: bool

definition opt_start :: "u8 list \<Rightarrow> validator list \<Rightarrow> opt_node" where
  "opt_start i vs = \<lparr> bft = opt_new i vs, main_stopped = False, loop_stopped = False \<rparr>"

inductive opt_step :: "(u8 list \<Rightarrow> h256) \<Rightarrow> (opt_block \<Rightarrow> u8 list) \<Rightarrow> opt_node \<Rightarrow> opt_node \<Rightarrow> bool" for sha ser where
  Main_turn: "\<not> main_stopped n \<Longrightarrow> length (opt_inbox (bft n)) < inbox_size \<Longrightarrow> opt_main sha ser now (bft n) = (r, s') \<Longrightarrow>
     opt_step sha ser n (n\<lparr>bft := s', main_stopped := \<not> is_ok r\<rparr>)"
| Deliver_turn: "\<not> loop_stopped n \<Longrightarrow> opt_inbox (bft n) = m # ms \<Longrightarrow>
     opt_deliver sha ser quick latency m (bft n\<lparr>opt_inbox := ms\<rparr>) = (r, s') \<Longrightarrow>
     opt_step sha ser n (n\<lparr>bft := s', loop_stopped := \<not> is_ok r\<rparr>)"
| Monitor_tick: "opt_step sha ser n (n\<lparr>bft := monitor_network rnd hi lo (bft n)\<rparr>)"
| Speculation_tick: "opt_step sha ser n (n\<lparr>bft := opt_speculate now (bft n)\<rparr>)"
| Block_taken: "block_channel (bft n) = b # bs \<Longrightarrow> opt_step sha ser n (n\<lparr>bft := (bft n)\<lparr>block_channel := bs\<rparr>\<rparr>)"

inductive opt_reachable :: "(u8 list \<Rightarrow> h256) \<Rightarrow> (opt_block \<Rightarrow> u8 list) \<Rightarrow> opt_node \<Rightarrow> opt_node \<Rightarrow> bool" for sha ser where
  Opt_start: "opt_reachable sha ser n n"
| Opt_next: "opt_reachable sha ser n n1 \<Longrightarrow> opt_step sha ser n1 n2 \<Longrightarrow> opt_reachable sha ser n n2"

inductive_cases opt_stepE: "opt_step sha ser n n'"

end
