(* ===== verification/OptimisticBftProps.thy ===== *)
theory OptimisticBftProps
  imports OptimisticBft
begin

text \<open>
  The optimistic protocol: what a node reaches on its own messages, the height in runs with any messages, and what its
  quorums are worth.
\<close>

section \<open>A node on its own\<close>

text \<open>
  The epoch is 0 and never changes, so every proposal of the node fails its own check: no vote is ever cast.
\<close>

definition own_block :: "opt_block \<Rightarrow> bool" where
  "own_block b \<longleftrightarrow> ob_height b = 1 \<and> ob_epoch b = 0 \<and> ob_transactions b = []"

fun own_message :: "opt_message \<Rightarrow> bool" where
  "own_message (Fast_Proposal p) = own_block (fpr_block p)"
| "own_message (Normal_Proposal p) = own_block (npr_block p)"
| "own_message m = False"

definition quiet :: "validator list \<Rightarrow> opt_bft \<Rightarrow> bool" where
  "quiet vs s \<longleftrightarrow> opt_epoch s = 0 \<and> opt_height s = 0 \<and> opt_validators s = vs \<and> committed_blocks s = [] \<and>
     fast_votes s = Map.empty \<and> normal_votes s = Map.empty \<and> block_channel s = [] \<and>
     speculation s = \<lparr> predictions = [], confident = False, spec_history = [] \<rparr> \<and>
     list_all own_message (opt_inbox s) \<and> list_all own_block (executed_blocks s) \<and> length (executed_blocks s) \<le> 10"

lemma quiet_new: "quiet vs (opt_new i vs)"
  by (simp add: quiet_def opt_new_def)

lemma own_make_block: "quiet vs s \<Longrightarrow> own_block (opt_make_block sha ser now s)"
  by (simp add: own_block_def opt_make_block_def quiet_def opt_transactions_def)

lemma own_not_verified: "own_block b \<Longrightarrow> \<not> quick_verify b"
  by (simp add: own_block_def quick_verify_def)

lemma quiet_execute: "quiet vs s \<Longrightarrow> own_block b \<Longrightarrow> quiet vs (optimistic_execute b s)"
  by (cases "executed_blocks s") (auto simp: quiet_def optimistic_execute_def count_stat_def Let_def)

lemma quiet_broadcast: "quiet vs s \<Longrightarrow> own_message m \<Longrightarrow> quiet vs (snd (opt_broadcast m s))"
  by (simp add: quiet_def opt_broadcast_def)

lemma quiet_main:
  assumes "quiet vs s" "length (opt_inbox s) < inbox_size"
  shows "quiet vs (snd (opt_main sha ser now s)) \<and> (is_ok (fst (opt_main sha ser now s)) \<or> vs = [])"
proof (cases "vs = []")
  case True
  with assms show ?thesis by (simp add: opt_main_def opt_is_leader_def quiet_def)
next
  case False
  then obtain lead where lead: "opt_is_leader (opt_epoch s) s = Some lead"
    using assms(1) by (simp add: opt_is_leader_def quiet_def)
  have "quiet vs (snd (opt_propose sha ser now s)) \<and> is_ok (fst (opt_propose sha ser now s))"
  proof (cases "use_fast_path s")
    case True
    have "quiet vs (optimistic_execute (opt_make_block sha ser now s) s)"
      by (rule quiet_execute [OF assms(1) own_make_block [OF assms(1)]])
    moreover have "opt_inbox (optimistic_execute b s) = opt_inbox s" for b
      by (simp add: optimistic_execute_def count_stat_def Let_def)
    ultimately show ?thesis
      using True assms own_make_block [OF assms(1)]
      by (simp add: opt_propose_def Let_def quiet_broadcast) (simp add: opt_broadcast_def)
  next
    case False
    then show ?thesis
      using assms own_make_block [OF assms(1)]
      by (simp add: opt_propose_def Let_def quiet_broadcast) (simp add: opt_broadcast_def)
  qed
  with lead assms(1) show ?thesis by (cases lead) (simp_all add: opt_main_def)
qed

lemma quiet_deliver:
  assumes "quiet vs s" "own_message m"
  shows "quiet vs (snd (opt_deliver sha ser quick latency m s)) \<and> is_ok (fst (opt_deliver sha ser quick latency m s))"
proof -
  have "opt_handle sha ser quick m s = (Ok (), s)"
    using assms(2) own_not_verified
    by (cases m) (auto simp: opt_handle_def handle_fast_proposal_def handle_normal_proposal_def full_verify_def)
  with assms(1) show ?thesis by (simp add: opt_deliver_def quiet_def count_stat_def)
qed

definition node_quiet :: "validator list \<Rightarrow> opt_node \<Rightarrow> bool" where
  "node_quiet vs n \<longleftrightarrow> quiet vs (bft n) \<and> \<not> loop_stopped n \<and> (main_stopped n \<longrightarrow> vs = [])"

lemma quiet_step:
  assumes "opt_step sha ser n n'" "node_quiet vs n"
  shows "node_quiet vs n'"
  using assms(1)
proof (cases rule: opt_step.cases)
  case (Main_turn now r s')
  with quiet_main [of vs "bft n" sha ser now] assms(2) show ?thesis by (auto simp: node_quiet_def)
next
  case (Deliver_turn m ms quick latency r s')
  have "quiet vs (bft n\<lparr>opt_inbox := ms\<rparr>)" "own_message m"
    using assms(2) Deliver_turn by (auto simp: node_quiet_def quiet_def)
  from quiet_deliver [OF this, of sha ser quick latency] Deliver_turn assms(2) show ?thesis
    by (auto simp: node_quiet_def)
next
  case (Monitor_tick rnd hi lo)
  with assms(2) show ?thesis by (simp add: node_quiet_def quiet_def monitor_network_def)
next
  case (Speculation_tick now)
  with assms(2) show ?thesis
    by (simp add: node_quiet_def quiet_def opt_speculate_def update_speculation_confidence_def Let_def)
next
  case (Block_taken b bs)
  with assms(2) show ?thesis by (simp add: node_quiet_def quiet_def)
qed

lemma quiet_reachable: "opt_reachable sha ser n n' \<Longrightarrow> node_quiet vs n \<Longrightarrow> node_quiet vs n'"
  by (induction rule: opt_reachable.induct) (auto intro: quiet_step)

text \<open>
  C31: in every reachable interleaving of the four tasks of a node nothing is voted for, committed or handed to the state
  machine, the speculation never predicts a block, and at most ten empty proposals of height 1 wait for ever; the message
  loop never stops, the main loop only for want of validators.
\<close>

theorem optimistic_never_commits:
  assumes "opt_reachable sha ser (opt_start i vs) n"
  shows "committed_blocks (bft n) = [] \<and> opt_height (bft n) = 0 \<and> block_channel (bft n) = [] \<and>
    fast_votes (bft n) = Map.empty \<and> normal_votes (bft n) = Map.empty \<and> predictions (speculation (bft n)) = [] \<and>
    length (executed_blocks (bft n)) \<le> 10 \<and>
    (\<forall>b \<in> set (executed_blocks (bft n)). ob_height b = 1 \<and> ob_transactions b = []) \<and>
    \<not> loop_stopped n \<and> (main_stopped n \<longrightarrow> vs = [])"
proof -
  have "node_quiet vs (opt_start i vs)"
    by (simp add: node_quiet_def opt_start_def quiet_new)
  then have "node_quiet vs n" by (rule quiet_reachable [OF assms])
  then show ?thesis by (auto simp: node_quiet_def quiet_def own_block_def list_all_iff)
qed

section \<open>The height\<close>

text \<open>
  From here on any messages arrive. A commitment that waits for room in the block channel has filed the block, but not
  raised the height.
\<close>

datatype opt_event =
    Ev_main u64
  | Ev_message bool u64 opt_message
  | Ev_monitor u64 bool bool
  | Ev_speculate u64
  | Ev_taken

fun opt_event_step :: "(u8 list \<Rightarrow> h256) \<Rightarrow> (opt_block \<Rightarrow> u8 list) \<Rightarrow> opt_event \<Rightarrow> opt_node \<Rightarrow> opt_node" where
  "opt_event_step sha ser (Ev_main now) n =
     (if main_stopped n then n
      else case opt_main sha ser now (bft n) of (r, s) \<Rightarrow> n\<lparr>bft := s, main_stopped := \<not> is_ok r\<rparr>)"
| "opt_event_step sha ser (Ev_message quick latency m) n =
     (if loop_stopped n then n
      else case opt_deliver sha ser quick latency m (bft n) of (r, s) \<Rightarrow> n\<lparr>bft := s, loop_stopped := \<not> is_ok r\<rparr>)"
| "opt_event_step sha ser (Ev_monitor rnd hi lo) n = n\<lparr>bft := monitor_network rnd hi lo (bft n)\<rparr>"
| "opt_event_step sha ser (Ev_speculate now) n = n\<lparr>bft := opt_speculate now (bft n)\<rparr>"
| "opt_event_step sha ser Ev_taken n = n\<lparr>bft := (bft n)\<lparr>block_channel := tl (block_channel (bft n))\<rparr>\<rparr>"

definition queues_bounded :: "opt_bft \<Rightarrow> bool" where
  "queues_bounded s \<longleftrightarrow> length (executed_blocks s) \<le> 10 \<and> length (block_channel s) \<le> block_channel_size"

definition counted :: "opt_bft \<Rightarrow> bool" where
  "counted s \<longleftrightarrow> queues_bounded s \<and> unat (opt_height s) = length (committed_blocks s)"

definition lagging :: "opt_bft \<Rightarrow> bool" where
  "lagging s \<longleftrightarrow> queues_bounded s \<and> unat (opt_height s) + 1 = length (committed_blocks s)"

definition settled :: "'a opt_result \<Rightarrow> bool" where
  "settled p \<longleftrightarrow> counted (snd p) \<or> \<not> is_ok (fst p) \<and> lagging (snd p)"

lemma settled_Ok [simp]: "settled (Ok a, s) \<longleftrightarrow> counted s"
  by (simp add: settled_def)

lemma settled_and_then:
  assumes "settled p" "\<And>a s. p = (Ok a, s) \<Longrightarrow> counted s \<Longrightarrow> settled (f a s)"
  shows "settled (and_then p f)"
  using assms by (cases "(p, f)" rule: and_then.cases) (auto simp: settled_def)

lemma settled_or_panic: "counted s \<Longrightarrow> (\<And>a. x = Some a \<Longrightarrow> settled (f a)) \<Longrightarrow> settled (or_panic s x f)"
  by (cases x) (auto simp: settled_def)

lemma counted_frame:
  "counted s \<Longrightarrow> executed_blocks s' = executed_blocks s \<Longrightarrow> block_channel s' = block_channel s \<Longrightarrow>
     opt_height s' = opt_height s \<Longrightarrow> committed_blocks s' = committed_blocks s \<Longrightarrow> counted s'"
  by (simp add: counted_def queues_bounded_def)

lemma counted_stat [simp]: "counted (count_stat f s) = counted s"
  by (simp add: counted_def queues_bounded_def count_stat_def)

lemma counted_votes [simp]:
  "counted (s\<lparr>fast_votes := fv\<rparr>) = counted s" "counted (s\<lparr>normal_votes := nv\<rparr>) = counted s"
  "counted (s\<lparr>opt_inbox := ms\<rparr>) = counted s"
  by (simp_all add: counted_def queues_bounded_def)

lemma settled_broadcast: "counted s \<Longrightarrow> settled (opt_broadcast m s)"
  by (simp add: opt_broadcast_def settled_def)

lemma settled_send: "counted s \<Longrightarrow> settled (opt_send_to_leader m e s)"
  by (auto simp: opt_send_to_leader_def intro!: settled_or_panic settled_broadcast)

lemma counted_execute: "counted s \<Longrightarrow> counted (optimistic_execute b s)"
  by (cases "executed_blocks s") (auto simp: counted_def queues_bounded_def optimistic_execute_def count_stat_def Let_def)

lemma execute_committed [simp]:
  "committed_blocks (optimistic_execute b s) = committed_blocks s"
  by (simp add: optimistic_execute_def count_stat_def Let_def)

lemma settled_commit:
  assumes "counted s" "Suc (length (committed_blocks s)) < 2 ^ 64"
  shows "settled (opt_commit_block sha ser h s)"
proof (cases "dropWhile (\<lambda>b. opt_hash sha ser b \<noteq> h) (executed_blocks s)")
  case Nil
  with assms(1) show ?thesis unfolding opt_commit_block_def Nil by simp
next
  case (Cons b later)
  have "length (b # later) \<le> length (executed_blocks s)"
    unfolding Cons [symmetric] by (rule length_dropWhile_le)
  moreover have "unat (opt_height s + 1) = Suc (unat (opt_height s))"
    using assms by (simp add: counted_def unat_word_ariths)
  ultimately show ?thesis
    using assms(1) Cons
    by (auto simp: opt_commit_block_def Let_def settled_def counted_def lagging_def queues_bounded_def count_stat_def)
qed

lemma settled_fast_vote: "counted s \<Longrightarrow> settled (handle_fast_vote v s)"
  unfolding handle_fast_vote_def Let_def
  by (auto intro!: settled_and_then settled_broadcast)

lemma settled_normal_vote:
  "counted s \<Longrightarrow> Suc (length (committed_blocks s)) < 2 ^ 64 \<Longrightarrow> settled (handle_normal_vote sha ser v s)"
  unfolding handle_normal_vote_def Let_def
  by (auto intro!: settled_commit settled_broadcast)

lemma settled_rollback:
  assumes "counted s"
  shows "settled (opt_handle_rollback r s)"
proof -
  have "unat (rm_height r) \<le> length (committed_blocks s)" if "rm_height r < opt_height s"
    using that assms by (simp add: counted_def word_less_nat_alt)
  with assms show ?thesis
    by (auto simp: opt_handle_rollback_def rollback_to_height_def counted_def queues_bounded_def count_stat_def Let_def)
qed

lemma settled_handle:
  assumes "counted s" "Suc (length (committed_blocks s)) < 2 ^ 64"
  shows "settled (opt_handle sha ser quick m s)"
proof (cases m)
  case (Fast_Proposal p)
  have e: "counted (optimistic_execute (fpr_block p) s)" by (rule counted_execute [OF assms(1)])
  have "settled (handle_fast_proposal sha ser quick p s)"
    unfolding handle_fast_proposal_def Let_def
    by (auto intro!: settled_or_panic settled_and_then settled_fast_vote settled_send e simp: assms(1))
  with Fast_Proposal show ?thesis by (simp add: opt_handle_def)
next
  case (Normal_Proposal p)
  have e: "counted (optimistic_execute (npr_block p) s)" by (rule counted_execute [OF assms(1)])
  have "settled (handle_normal_proposal sha ser p s)"
    unfolding handle_normal_proposal_def Let_def execute_with_verification_def
    using assms by (auto intro!: settled_or_panic settled_normal_vote settled_send e)
  with Normal_Proposal show ?thesis by (simp add: opt_handle_def)
qed (use assms in \<open>auto simp: opt_handle_def opt_handle_commit_def
       intro: settled_fast_vote settled_normal_vote settled_rollback settled_commit\<close>)

lemma counted_main:
  assumes "counted s"
  shows "counted (snd (opt_main sha ser now s))"
proof -
  have b: "counted (snd (opt_broadcast m s'))" if "counted s'" for m s'
    using that by (simp add: opt_broadcast_def)
  have "counted (snd (opt_propose sha ser now s))"
    using b [OF assms] b [OF counted_execute [OF assms]] by (simp add: opt_propose_def Let_def)
  with assms show ?thesis by (simp add: opt_main_def or_panic_def split: option.split)
qed

definition height_inv :: "opt_node \<Rightarrow> bool" where
  "height_inv n \<longleftrightarrow> counted (bft n) \<or> loop_stopped n \<and> lagging (bft n)"

definition room_to_commit :: "opt_event \<Rightarrow> opt_node \<Rightarrow> bool" where
  "room_to_commit e n \<longleftrightarrow> Suc (length (committed_blocks (bft n))) < 2 ^ 64"


lemma counted_monitor: "counted s \<Longrightarrow> counted (monitor_network rnd hi lo s)"
  by (rule counted_frame) (simp_all add: monitor_network_def)

lemma lagging_monitor: "lagging s \<Longrightarrow> lagging (monitor_network rnd hi lo s)"
  by (simp add: lagging_def queues_bounded_def monitor_network_def)

lemma speculate_frame:
  "opt_height (opt_speculate now s) = opt_height s" "committed_blocks (opt_speculate now s) = committed_blocks s"
  "block_channel (opt_speculate now s) = block_channel s"
  "length (executed_blocks s) \<le> 10 \<Longrightarrow> length (executed_blocks (opt_speculate now s)) \<le> 10"
  by (auto simp: opt_speculate_def speculate_block_def optimistic_execute_def count_stat_def Let_def)

lemma main_frame:
  "opt_height (snd (opt_main sha ser now s)) = opt_height s" "committed_blocks (snd (opt_main sha ser now s)) = committed_blocks s"
  "block_channel (snd (opt_main sha ser now s)) = block_channel s"
  "length (executed_blocks s) \<le> 10 \<Longrightarrow> length (executed_blocks (snd (opt_main sha ser now s))) \<le> 10"
  by (auto simp: opt_main_def or_panic_def opt_propose_def opt_broadcast_def optimistic_execute_def count_stat_def Let_def
      split: option.split)

lemma height_inv_step:
  assumes "height_inv n" "room_to_commit e n"
  shows "height_inv (opt_event_step sha ser e n)"
proof (cases e)
  case (Ev_main now)
  obtain r s where m: "opt_main sha ser now (bft n) = (r, s)" by fastforce
  with assms(1) main_frame [where sha = sha and ser = ser and now = now and s = "bft n"] show ?thesis
    by (auto simp: Ev_main height_inv_def counted_def lagging_def queues_bounded_def)
next
  case (Ev_message quick latency m)
  show ?thesis
  proof (cases "loop_stopped n")
    case True
    with assms(1) show ?thesis by (simp add: Ev_message)
  next
    case False
    obtain r s where d: "opt_deliver sha ser quick latency m (bft n) = (r, s)" by fastforce
    have "settled (opt_deliver sha ser quick latency m (bft n))"
      unfolding opt_deliver_def using assms False
      by (intro settled_and_then) (auto simp: height_inv_def room_to_commit_def intro: settled_handle)
    with d False show ?thesis by (auto simp: Ev_message height_inv_def settled_def)
  qed
next
  case (Ev_monitor rnd hi lo)
  with assms(1) show ?thesis by (auto simp: height_inv_def intro: counted_monitor lagging_monitor)
next
  case (Ev_speculate now)
  with assms(1) speculate_frame [where s = "bft n" and now = now] show ?thesis
    by (auto simp: height_inv_def counted_def lagging_def queues_bounded_def)
next
  case Ev_taken
  with assms(1) show ?thesis by (auto simp: height_inv_def counted_def lagging_def queues_bounded_def)
qed

interpretation height: invariant_of "opt_event_step sha ser" room_to_commit height_inv
  by unfold_locales (rule height_inv_step)

text \<open>
  Whatever messages arrive, in every run the height of a node is the number of its committed blocks; only when the
  message loop waits for ever for room in the block channel it is one behind. Never more than ten blocks wait for their
  commitment.
\<close>

theorem height_counts_the_commits:
  assumes "run_ok room_to_commit (opt_event_step sha ser) es (opt_start i vs)"
    and "n = run (opt_event_step sha ser) es (opt_start i vs)"
  shows "(unat (opt_height (bft n)) = length (committed_blocks (bft n)) \<or>
      loop_stopped n \<and> unat (opt_height (bft n)) + 1 = length (committed_blocks (bft n))) \<and>
    length (executed_blocks (bft n)) \<le> 10 \<and> length (block_channel (bft n)) \<le> 100"
proof -
  have "height_inv (opt_start i vs)"
    by (simp add: height_inv_def opt_start_def opt_new_def counted_def queues_bounded_def)
  then have "height_inv n" unfolding assms(2) by (rule height.inv_run [OF _ assms(1)])
  then show ?thesis
    by (auto simp: height_inv_def counted_def lagging_def queues_bounded_def block_channel_size_def)
qed

section \<open>Quorums\<close>

definition handle_all :: "(u8 list \<Rightarrow> h256) \<Rightarrow> (opt_block \<Rightarrow> u8 list) \<Rightarrow> opt_message list \<Rightarrow> opt_bft \<Rightarrow> opt_bft" where
  "handle_all sha ser = run (\<lambda>m s. snd (opt_handle sha ser True m s))"

definition vote_of :: "(u8 list \<Rightarrow> h256) \<Rightarrow> (opt_block \<Rightarrow> u8 list) \<Rightarrow> u64 \<Rightarrow> opt_block \<Rightarrow> validator \<Rightarrow> fast_vote" where
  "vote_of sha ser e b v = \<lparr> fv_block = opt_hash sha ser b, fv_epoch = e, fv_voter = public_key v, fv_signature = opt_sign b \<rparr>"

definition cast_votes ::
  "(u8 list \<Rightarrow> h256) \<Rightarrow> (opt_block \<Rightarrow> u8 list) \<Rightarrow> u64 \<Rightarrow> opt_block \<Rightarrow> validator list \<Rightarrow> opt_message list" where
  "cast_votes sha ser e b vs = map (\<lambda>v. Fast_Vote (vote_of sha ser e b v)) vs"

lemma handle_all_simps [simp]:
  "handle_all sha ser [] s = s"
  "handle_all sha ser (m # ms) s = handle_all sha ser ms (snd (opt_handle sha ser True m s))"
  "handle_all sha ser (ms @ ms') s = handle_all sha ser ms' (handle_all sha ser ms s)"
  by (simp_all add: handle_all_def run_append)

text \<open>Votes below the threshold are only filed.\<close>

lemma votes_are_filed:
  assumes "(case fast_votes s (opt_hash sha ser b, e) of None \<Rightarrow> [] | Some l \<Rightarrow> l) = acc"
    and "length acc + length vs < fast_threshold s"
  shows "handle_all sha ser (cast_votes sha ser e b vs) s
    = s\<lparr>fast_votes := (if vs = [] then fast_votes s
        else (fast_votes s)((opt_hash sha ser b, e) \<mapsto> acc @ map (vote_of sha ser e b) vs))\<rparr>"
  using assms
proof (induction vs arbitrary: s acc)
  case (Cons v vs)
  let ?s = "s\<lparr>fast_votes := (fast_votes s)((opt_hash sha ser b, e) \<mapsto> acc @ [vote_of sha ser e b v])\<rparr>"
  have "opt_handle sha ser True (Fast_Vote (vote_of sha ser e b v)) s = (Ok (), ?s)"
    using Cons.prems by (simp add: opt_handle_def handle_fast_vote_def Let_def vote_of_def)
  moreover have "handle_all sha ser (cast_votes sha ser e b vs) ?s = ?s\<lparr>fast_votes := (if vs = [] then fast_votes ?s
      else (fast_votes ?s)((opt_hash sha ser b, e) \<mapsto> (acc @ [vote_of sha ser e b v]) @ map (vote_of sha ser e b) vs))\<rparr>"
    using Cons.prems by (intro Cons.IH) (simp_all add: fast_threshold_def)
  ultimately show ?case by (cases "vs = []") (simp_all add: cast_votes_def fun_upd_def cong: if_cong)
qed (simp add: cast_votes_def)

text \<open>A third of the validators and one more make a commitment.\<close>

lemma quorum_commits:
  assumes "fast_votes s (opt_hash sha ser b, e) = None" "length vs = fast_threshold s"
    and "length (opt_inbox s) < inbox_size"
  shows "handle_all sha ser (cast_votes sha ser e b vs) s
    = count_stat count_fast (s\<lparr>fast_votes := (fast_votes s)((opt_hash sha ser b, e) \<mapsto> map (vote_of sha ser e b) vs),
        opt_inbox := opt_inbox s @ [Commit_Msg \<lparr> cm_block = opt_hash sha ser b, cm_epoch = e,
          cm_votes = map (vote_of sha ser e b) vs \<rparr>]\<rparr>)"
proof -
  obtain us v where vs: "vs = us @ [v]"
    using assms(2) by (cases vs rule: rev_cases) (auto simp: fast_threshold_def)
  let ?s = "handle_all sha ser (cast_votes sha ser e b us) s"
  have s: "?s = s\<lparr>fast_votes := (if us = [] then fast_votes s
      else (fast_votes s)((opt_hash sha ser b, e) \<mapsto> map (vote_of sha ser e b) us))\<rparr>"
    using votes_are_filed [of s sha ser b e "[]" us] assms(1,2) vs by simp
  have "handle_all sha ser (cast_votes sha ser e b vs) s = snd (opt_handle sha ser True (Fast_Vote (vote_of sha ser e b v)) ?s)"
    by (simp add: vs cast_votes_def)
  also have "\<dots> = count_stat count_fast (s\<lparr>fast_votes := (fast_votes s)((opt_hash sha ser b, e) \<mapsto> map (vote_of sha ser e b) vs),
        opt_inbox := opt_inbox s @ [Commit_Msg \<lparr> cm_block = opt_hash sha ser b, cm_epoch = e,
          cm_votes = map (vote_of sha ser e b) vs \<rparr>]\<rparr>)"
    unfolding s using assms vs
    by (auto simp: opt_handle_def handle_fast_vote_def opt_broadcast_def Let_def vote_of_def fast_threshold_def)
  finally show ?thesis .
qed

lemma commit_pops:
  assumes "executed_blocks s = b # bs" "fast_threshold s \<le> length qs" "length (block_channel s) < block_channel_size"
  shows "opt_handle sha ser True (Commit_Msg \<lparr> cm_block = opt_hash sha ser b, cm_epoch = e, cm_votes = qs \<rparr>) s
    = (Ok (), count_stat (\<lambda>m. m\<lparr>om_committed := om_committed m + 1\<rparr>)
        (s\<lparr>committed_blocks := committed_blocks s @ [b], executed_blocks := bs,
           block_channel := block_channel s @ [b], opt_height := opt_height s + 1\<rparr>))"
  using assms by (simp add: opt_handle_def opt_handle_commit_def opt_commit_block_def Let_def)

text \<open>
  C32: the quorums of the fast path need not intersect. When the validators split into two groups of a third and one more
  each, and every validator votes once, for the block of its group, a node that has executed both blocks commits both,
  even when they are blocks of one height; the height counts them both.
\<close>

theorem disjoint_quorums_commit_two_blocks:
  assumes "opt_validators s = A @ B @ C" "length A = fast_threshold s" "length B = fast_threshold s"
    and "executed_blocks s = [b1, b2]" "opt_hash sha ser b1 \<noteq> opt_hash sha ser b2"
    and "fast_votes s = Map.empty" "opt_inbox s = []" "length (block_channel s) < 99"
    and "s1 = handle_all sha ser (cast_votes sha ser e b1 A @ cast_votes sha ser e b2 B) s"
    and "s2 = handle_all sha ser (opt_inbox s1) (s1\<lparr>opt_inbox := []\<rparr>)"
  shows "committed_blocks s2 = committed_blocks s @ [b1, b2] \<and> block_channel s2 = block_channel s @ [b1, b2] \<and>
    opt_height s2 = opt_height s + 2"
proof -
  let ?t = "handle_all sha ser (cast_votes sha ser e b1 A) s"
  let ?c = "\<lambda>b vs. Commit_Msg \<lparr> cm_block = opt_hash sha ser b, cm_epoch = e, cm_votes = map (vote_of sha ser e b) vs \<rparr>"
  have t: "?t = count_stat count_fast (s\<lparr>fast_votes := [(opt_hash sha ser b1, e) \<mapsto> map (vote_of sha ser e b1) A],
      opt_inbox := [?c b1 A]\<rparr>)"
    using quorum_commits [of s sha ser b1 e A] assms(2,6,7) by (simp add: inbox_size_def)
  have "fast_votes ?t (opt_hash sha ser b2, e) = None" "length B = fast_threshold ?t" "length (opt_inbox ?t) < inbox_size"
    unfolding t using assms(3,5) by (simp_all add: count_stat_def fast_threshold_def inbox_size_def)
  then have s1: "s1 = count_stat count_fast (?t\<lparr>fast_votes := (fast_votes ?t)((opt_hash sha ser b2, e) \<mapsto>
      map (vote_of sha ser e b2) B), opt_inbox := [?c b1 A, ?c b2 B]\<rparr>)"
    using quorum_commits [of ?t sha ser b2 e B] assms(9) t by (simp add: count_stat_def)
  have u: "executed_blocks s1 = [b1, b2]" "committed_blocks s1 = committed_blocks s" "block_channel s1 = block_channel s"
    "opt_height s1 = opt_height s" "fast_threshold s1 = fast_threshold s" "opt_inbox s1 = [?c b1 A, ?c b2 B]"
    unfolding s1 t using assms(4) by (simp_all add: count_stat_def fast_threshold_def)
  have "fst (opt_handle sha ser True (?c b1 A) (s1\<lparr>opt_inbox := []\<rparr>)) = Ok ()"
    using u assms(2,8) by (subst commit_pops [where bs = "[b2]"]) (simp_all add: fast_threshold_def block_channel_size_def)
  let ?v = "snd (opt_handle sha ser True (?c b1 A) (s1\<lparr>opt_inbox := []\<rparr>))"
  have v: "executed_blocks ?v = [b2]" "committed_blocks ?v = committed_blocks s @ [b1]"
    "block_channel ?v = block_channel s @ [b1]" "opt_height ?v = opt_height s + 1" "fast_threshold ?v = fast_threshold s"
    using u assms(2,8)
    by (simp_all add: commit_pops [where bs = "[b2]"] fast_threshold_def block_channel_size_def count_stat_def)
  have "s2 = snd (opt_handle sha ser True (?c b2 B) ?v)"
    unfolding assms(10) u(6) by simp
  then show ?thesis
    using v assms(3,8)
    by (simp add: commit_pops [where bs = "[]"] fast_threshold_def block_channel_size_def count_stat_def)
qed

text \<open>
  A commitment takes one block out of the executed ones: the blocks executed before it are dropped, they are neither
  committed nor handed to the state machine, and no later commitment finds them.
\<close>

theorem earlier_blocks_are_dropped:
  assumes "executed_blocks s = bs @ b # later" "\<forall>b' \<in> set bs. opt_hash sha ser b' \<noteq> opt_hash sha ser b"
    and "length (block_channel s) < 100" "opt_commit_block sha ser (opt_hash sha ser b) s = (r, s')"
    and "b' \<in> set bs" "\<forall>b'' \<in> set later. opt_hash sha ser b'' \<noteq> opt_hash sha ser b'"
  shows "r = Ok () \<and> committed_blocks s' = committed_blocks s @ [b] \<and> block_channel s' = block_channel s @ [b] \<and>
    executed_blocks s' = later \<and> opt_commit_block sha ser (opt_hash sha ser b') s' = (Ok (), s')"
proof -
  have "dropWhile (\<lambda>x. opt_hash sha ser x \<noteq> opt_hash sha ser b) (executed_blocks s) = b # later"
    unfolding assms(1) using assms(2) by (simp add: dropWhile_append2)
  then have s': "r = Ok ()" "committed_blocks s' = committed_blocks s @ [b]" "block_channel s' = block_channel s @ [b]"
    "executed_blocks s' = later"
    using assms(3,4) by (auto simp: opt_commit_block_def Let_def block_channel_size_def count_stat_def)
  have "dropWhile (\<lambda>x. opt_hash sha ser x \<noteq> opt_hash sha ser b') later = []"
    using assms(6) by (simp add: dropWhile_eq_Nil_conv)
  then have "opt_commit_block sha ser (opt_hash sha ser b') s' = (Ok (), s')"
    unfolding opt_commit_block_def s'(4) by (simp only: list.case)
  with s' show ?thesis by simp
qed

text \<open>
  One unsigned message erases the chain: a rollback to height \<open>k\<close> keeps the first \<open>k\<close> committed blocks, forgets what
  was executed and closes the fast path, whoever sent it.
\<close>

theorem rollback_message_erases_commits:
  assumes "unat (opt_height s) = length (committed_blocks s)"
  shows "\<exists>s'. opt_handle sha ser quick (Rollback_Msg r) s = (Ok (), s') \<and>
    committed_blocks s' = take (unat (rm_height r)) (committed_blocks s) \<and> executed_blocks s' = [] \<and>
    opt_height s' = min (rm_height r) (opt_height s) \<and> \<not> use_fast_path s'"
  using assms
  by (auto simp: opt_handle_def opt_handle_rollback_def rollback_to_height_def count_stat_def use_fast_path_def Let_def
      word_less_nat_alt min_def word_le_nat_alt word_unat_eq_iff)

section \<open>Examples\<close>

definition sample_validators :: "validator list" where
  "sample_validators = map (\<lambda>k. \<lparr> public_key = [k], voting_power = 1, validator_address = 0 \<rparr>) [0, 1, 2, 3]"

definition sample_oblock :: "u64 \<Rightarrow> opt_block" where
  "sample_oblock now = \<lparr> ob_height = 1, ob_epoch = 0, ob_parent = 0, ob_transactions = [], ob_state_root = 0,
     ob_timestamp = now, ob_proposer = [0], ob_fast_path = True \<rparr>"

definition two_blocks :: opt_bft where
  "two_blocks = optimistic_execute (sample_oblock 2) (optimistic_execute (sample_oblock 1) (opt_new [0] sample_validators))"

theorem optimistic_never_commits_witness:
  "\<exists>n. opt_reachable (\<lambda>_. 7) (\<lambda>_. []) (opt_start [0] sample_validators) n \<and>
     executed_blocks (bft n) = [sample_oblock 5] \<and> committed_blocks (bft n) = [] \<and> \<not> main_stopped n"
proof -
  let ?n = "opt_start [0] sample_validators"
  let ?p = "opt_main (\<lambda>_. 7) (\<lambda>_. []) 5 (bft ?n)"
  let ?n' = "?n\<lparr>bft := snd ?p, main_stopped := \<not> is_ok (fst ?p)\<rparr>"
  have "opt_step (\<lambda>_. 7) (\<lambda>_. []) ?n ?n'"
    by (rule Main_turn [where now = 5]) (simp_all add: opt_start_def opt_new_def inbox_size_def)
  then have r: "opt_reachable (\<lambda>_. 7) (\<lambda>_. []) ?n ?n'" by (rule Opt_next [OF Opt_start])
  have "executed_blocks (bft ?n') = [sample_oblock 5]"
    by (simp add: opt_main_def opt_is_leader_def opt_propose_def opt_start_def opt_new_def sample_validators_def use_fast_path_def
        optimistic_execute_def opt_broadcast_def inbox_size_def opt_make_block_def sample_oblock_def opt_parent_hash_def
        opt_transactions_def count_stat_def Let_def)
  moreover have "committed_blocks (bft ?n') = [] \<and> \<not> main_stopped ?n'"
    using optimistic_never_commits [OF r] by (simp add: sample_validators_def)
  ultimately show ?thesis using r by blast
qed

theorem height_counts_the_commits_witness:
  "unat (opt_height (bft (run (opt_event_step (\<lambda>_. 7) (\<lambda>_. []))
      [Ev_monitor 3 True False, Ev_message True 1 (Rollback_Msg \<lparr> rm_epoch = 0, rm_height = 0, rm_reason = [] \<rparr>)]
      (opt_start [0] sample_validators)))) = 0"
proof -
  let ?es = "[Ev_monitor 3 True False, Ev_message True 1 (Rollback_Msg \<lparr> rm_epoch = 0, rm_height = 0, rm_reason = [] \<rparr>)]"
  let ?n = "run (opt_event_step (\<lambda>_. 7) (\<lambda>_. [])) ?es (opt_start [0] sample_validators)"
  have "run_ok room_to_commit (opt_event_step (\<lambda>_. 7) (\<lambda>_. [])) ?es (opt_start [0] sample_validators)"
    by (simp add: room_to_commit_def opt_start_def opt_new_def monitor_network_def)
  from height_counts_the_commits [OF this refl]
  have "unat (opt_height (bft ?n)) \<le> length (committed_blocks (bft ?n))" by linarith
  moreover have "committed_blocks (bft ?n) = []"
    by (simp add: opt_start_def opt_new_def monitor_network_def opt_deliver_def opt_handle_def opt_handle_rollback_def
        rollback_to_height_def count_stat_def Let_def)
  ultimately show ?thesis by simp
qed

lemma two_blocks_simps:
  "executed_blocks two_blocks = [sample_oblock 1, sample_oblock 2]" "opt_validators two_blocks = sample_validators"
  "fast_votes two_blocks = Map.empty" "opt_inbox two_blocks = []" "block_channel two_blocks = []"
  "committed_blocks two_blocks = []" "opt_height two_blocks = 0"
  by (simp_all add: two_blocks_def opt_new_def optimistic_execute_def count_stat_def)

definition sample_ser :: "opt_block \<Rightarrow> u8 list" where
  "sample_ser b = be_bytes 8 (ob_timestamp b)"

definition sample_sha :: "u8 list \<Rightarrow> h256" where
  "sample_sha bs = ucast (last bs)"

lemma sample_hash: "opt_hash sample_sha sample_ser (sample_oblock 1) = 1" "opt_hash sample_sha sample_ser (sample_oblock 2) = 2"
  by (simp_all add: opt_hash_def sample_sha_def sample_ser_def be_bytes_def sample_oblock_def upt_rec)

theorem disjoint_quorums_commit_two_blocks_witness:
  "committed_blocks (let s1 = handle_all sample_sha sample_ser
       (cast_votes sample_sha sample_ser 0 (sample_oblock 1) (take 2 sample_validators)
        @ cast_votes sample_sha sample_ser 0 (sample_oblock 2) (drop 2 sample_validators)) two_blocks
     in handle_all sample_sha sample_ser (opt_inbox s1) (s1\<lparr>opt_inbox := []\<rparr>))
   = [sample_oblock 1, sample_oblock 2]"
  using disjoint_quorums_commit_two_blocks [of two_blocks "take 2 sample_validators" "drop 2 sample_validators" "[]"
      "sample_oblock 1" "sample_oblock 2" sample_sha sample_ser, OF _ _ _ _ _ _ _ _ refl refl, of 0]
  by (simp add: two_blocks_simps sample_hash fast_threshold_def Let_def) (simp add: sample_validators_def)

theorem earlier_blocks_are_dropped_witness:
  "committed_blocks (snd (opt_commit_block sample_sha sample_ser 2 two_blocks)) = [sample_oblock 2] \<and>
   opt_commit_block sample_sha sample_ser 1 (snd (opt_commit_block sample_sha sample_ser 2 two_blocks))
     = (Ok (), snd (opt_commit_block sample_sha sample_ser 2 two_blocks))"
  using earlier_blocks_are_dropped [of two_blocks "[sample_oblock 1]" "sample_oblock 2" "[]" sample_sha sample_ser
      "fst (opt_commit_block sample_sha sample_ser 2 two_blocks)" "snd (opt_commit_block sample_sha sample_ser 2 two_blocks)"
      "sample_oblock 1"]
  by (simp add: two_blocks_simps sample_hash)

theorem rollback_message_erases_commits_witness:
  "\<exists>s'. opt_handle sample_sha sample_ser True (Rollback_Msg \<lparr> rm_epoch = 0, rm_height = 0, rm_reason = [] \<rparr>)
       (snd (opt_commit_block sample_sha sample_ser 2 two_blocks)) = (Ok (), s') \<and> committed_blocks s' = []"
proof -
  have "unat (opt_height (snd (opt_commit_block sample_sha sample_ser 2 two_blocks)))
      = length (committed_blocks (snd (opt_commit_block sample_sha sample_ser 2 two_blocks)))"
    by (simp add: opt_commit_block_def two_blocks_simps sample_hash block_channel_size_def count_stat_def Let_def)
  from rollback_message_erases_commits [OF this, of sample_sha sample_ser True "\<lparr> rm_epoch = 0, rm_height = 0, rm_reason = [] \<rparr>"]
  show ?thesis by auto
qed

end
