(* ===== verification/MerkleTrie.thy ===== *)
theory MerkleTrie
  imports Prelude "HOL-Library.List_Lexorder"
begin

text \<open>
  The Merkle Patricia trie of \<^verbatim>\<open>src/storage/merkle_trie.rs\<close>: packed nibble paths, the content-addressed node
  store, lookup, insertion and deletion with their splits and merges, batches, and the path cache.

  The hash of a node (packages \<^verbatim>\<open>bincode\<close> and \<^verbatim>\<open>sha2\<close>) and of a key are arguments. The recursions follow hashes through
  the store, so they take fuel, the number of nodes they may visit; without fuel the call is \<open>Hang\<close>.
\<close>

section \<open>Nibble paths\<close>

text \<open>\<open>path_odd\<close> is the code's \<^verbatim>\<open>offset\<close>, which is 0 or 1.\<close>

record nibble_path =
  path_data :: "u8 list"
  path_odd :: bool

fun pack :: "u8 list \<Rightarrow> u8 list" where
  "pack (a # b # ns) = or (push_bit 4 a) b # pack ns"
| "pack [a] = [push_bit 4 a]"
| "pack [] = []"

definition from_nibbles :: "u8 list \<Rightarrow> nibble_path" where
  "from_nibbles ns = \<lparr> path_data = pack ns, path_odd = odd (length ns) \<rparr>"

definition unpack :: "u8 list \<Rightarrow> u8 list" where
  "unpack bs = concat (map (\<lambda>b. [drop_bit 4 b, and b 15]) bs)"

definition to_nibbles :: "nibble_path \<Rightarrow> u8 list" where
  "to_nibbles p =
     (let ns = (case path_data p of
                  [] \<Rightarrow> []
                | b # bs \<Rightarrow> (if path_odd p then [and b 15] else [drop_bit 4 b, and b 15]) @ unpack bs)
      in if path_odd p \<and> 0 < length ns then tl ns else ns)"

definition path_concat :: "nibble_path \<Rightarrow> nibble_path \<Rightarrow> nibble_path" where
  "path_concat p q = from_nibbles (to_nibbles p @ to_nibbles q)"

definition bytes_to_nibbles :: "u8 list \<Rightarrow> u8 list" where
  "bytes_to_nibbles bs = unpack bs"

fun common_prefix_len :: "u8 list \<Rightarrow> u8 list \<Rightarrow> nat" where
  "common_prefix_len (a # as) (b # bs) = (if a = b then Suc (common_prefix_len as bs) else 0)"
| "common_prefix_len _ _ = 0"

fun starts_with :: "u8 list \<Rightarrow> u8 list \<Rightarrow> bool" where
  "starts_with as [] = True"
| "starts_with [] (b # bs) = False"
| "starts_with (a # as) (b # bs) = (a = b \<and> starts_with as bs)"

section \<open>Nodes and their store\<close>

type_synonym bytes = "u8 list"

text \<open>A branch has 16 children.\<close>

datatype trie_node =
    Empty_Node
  | Leaf nibble_path bytes
  | Extension nibble_path h256
  | Branch "h256 option list" "bytes option"

record node_store =
  nodes :: "(h256 \<times> trie_node) list"
  nodes_created :: u64
  nodes_deleted :: u64

definition remove_node :: "h256 \<Rightarrow> node_store \<Rightarrow> node_store" where
  "remove_node h st = st\<lparr>nodes := AList.delete h (nodes st)\<rparr>"

definition create_node :: "(trie_node \<Rightarrow> h256) \<Rightarrow> trie_node \<Rightarrow> node_store \<Rightarrow> h256 \<times> node_store" where
  "create_node hash n st =
     (hash n, st\<lparr>nodes := AList.update (hash n) n (nodes st), nodes_created := nodes_created st + 1\<rparr>)"

definition no_children :: "h256 option list" where
  "no_children = replicate 16 None"

type_synonym trie_result = "(unit, h256 option) outcome \<times> node_store"

text \<open>Create a node and return it as the new subtree.\<close>

definition put_node :: "(trie_node \<Rightarrow> h256) \<Rightarrow> trie_node \<Rightarrow> node_store \<Rightarrow> trie_result" where
  "put_node hash n st = (case create_node hash n st of (h, st') \<Rightarrow> (Ok (Some h), st'))"

section \<open>Lookup\<close>

text \<open>The value found and the hashes visited.\<close>

fun get_recursive ::
  "nat \<Rightarrow> (h256 \<times> trie_node) list \<Rightarrow> h256 \<Rightarrow> u8 list \<Rightarrow> (unit, bytes option) outcome \<times> h256 list" where
  "get_recursive 0 ns h key = (Hang, [])"
| "get_recursive (Suc fuel) ns h key =
     (case map_of ns h of
        None \<Rightarrow> (Ok None, [h])
      | Some Empty_Node \<Rightarrow> (Ok None, [h])
      | Some (Leaf p v) \<Rightarrow> (Ok (if key = to_nibbles p then Some v else None), [h])
      | Some (Extension p c) \<Rightarrow>
          if starts_with key (to_nibbles p)
          then (case get_recursive fuel ns c (drop (length (to_nibbles p)) key) of (r, path) \<Rightarrow> (r, h # path))
          else (Ok None, [h])
      | Some (Branch cs v) \<Rightarrow>
          (case key of
             [] \<Rightarrow> (Ok v, [h])
           | k # ks \<Rightarrow>
               (case cs ! unat k of
                  None \<Rightarrow> (Ok None, [h])
                | Some c \<Rightarrow> (case get_recursive fuel ns c ks of (r, path) \<Rightarrow> (r, h # path)))))"

section \<open>Insertion\<close>

text \<open>Create a node and hang it under nibble \<open>i\<close> of a branch being built.\<close>

definition add_child ::
  "(trie_node \<Rightarrow> h256) \<Rightarrow> u8 \<Rightarrow> trie_node \<Rightarrow> h256 option list \<times> node_store \<Rightarrow> h256 option list \<times> node_store" where
  "add_child hash i n p =
     (case create_node hash n (snd p) of (h, st) \<Rightarrow> ((fst p)[unat i := Some h], st))"

definition split_and_insert ::
  "(trie_node \<Rightarrow> h256) \<Rightarrow> u8 list \<Rightarrow> bytes \<Rightarrow> u8 list \<Rightarrow> bytes option \<Rightarrow> nat \<Rightarrow> node_store \<Rightarrow> trie_result" where
  "split_and_insert hash key value existing_key existing_value common st =
     (let p0 = (no_children, st);
          p1 = (if common < length key
                then add_child hash (key ! common) (Leaf (from_nibbles (drop (common + 1) key)) value) p0 else p0);
          p2 = (case existing_value of
                  Some val \<Rightarrow>
                    if common < length existing_key
                    then add_child hash (existing_key ! common)
                           (Leaf (from_nibbles (drop (common + 1) existing_key)) val) p1
                    else p1
                | None \<Rightarrow> p1)
      in case create_node hash (Branch (fst p2) (if length key = common then Some value else existing_value)) (snd p2) of
           (b, st3) \<Rightarrow>
             if 0 < common then put_node hash (Extension (from_nibbles (take common key)) b) st3
             else (Ok (Some b), st3))"

definition split_extension ::
  "(trie_node \<Rightarrow> h256) \<Rightarrow> u8 list \<Rightarrow> bytes \<Rightarrow> u8 list \<Rightarrow> h256 \<Rightarrow> nat \<Rightarrow> node_store \<Rightarrow> trie_result" where
  "split_extension hash key value ext child common st =
     (let p0 = (no_children, st);
          p1 = (if common < length key
                then add_child hash (key ! common) (Leaf (from_nibbles (drop (common + 1) key)) value) p0 else p0);
          p2 = (if common + 1 < length ext
                then add_child hash (ext ! common) (Extension (from_nibbles (drop (common + 1) ext)) child) p1
                else ((fst p1)[unat (ext ! common) := Some child], snd p1))
      in case create_node hash (Branch (fst p2) (if length key = common then Some value else None)) (snd p2) of
           (b, st3) \<Rightarrow>
             if 0 < common then put_node hash (Extension (from_nibbles (take common ext)) b) st3
             else (Ok (Some b), st3))"

text \<open>\<open>key\<close> is the part of the key below the node, the code's \<^verbatim>\<open>key[key_index..]\<close>.\<close>

fun insert_recursive ::
  "nat \<Rightarrow> (trie_node \<Rightarrow> h256) \<Rightarrow> h256 option \<Rightarrow> u8 list \<Rightarrow> bytes \<Rightarrow> node_store \<Rightarrow> trie_result" where
  "insert_recursive 0 hash at key value st = (Hang, st)"
| "insert_recursive (Suc fuel) hash at key value st =
     (case at of
        None \<Rightarrow> put_node hash (Leaf (from_nibbles key) value) st
      | Some h \<Rightarrow>
          or_panic st (map_of (nodes st) h) (\<lambda>node.
            case node of
              Empty_Node \<Rightarrow> put_node hash (Leaf (from_nibbles key) value) st
            | Leaf p v \<Rightarrow>
                let ln = to_nibbles p; common = common_prefix_len key ln in
                if common = length ln \<and> common = length key
                then put_node hash (Leaf p value) (remove_node h st)
                else split_and_insert hash key value ln (Some v) common st
            | Extension p c \<Rightarrow>
                let en = to_nibbles p; common = common_prefix_len key en in
                if common = length en
                then and_then (insert_recursive fuel hash (Some c) (drop common key) value st) (\<lambda>c' st.
                       let st1 = remove_node h st in
                       or_panic st1 c' (\<lambda>c'. put_node hash (Extension p c') st1))
                else split_extension hash key value en c common st
            | Branch cs v \<Rightarrow>
                (case key of
                   [] \<Rightarrow> put_node hash (Branch cs (Some value)) (remove_node h st)
                 | k # ks \<Rightarrow>
                     and_then (insert_recursive fuel hash (cs ! unat k) ks value st) (\<lambda>c' st.
                       put_node hash (Branch (cs[unat k := c']) v) (remove_node h st)))))"

section \<open>Deletion\<close>

definition try_merge_extension ::
  "(trie_node \<Rightarrow> h256) \<Rightarrow> nibble_path \<Rightarrow> h256 \<Rightarrow> node_store \<Rightarrow> trie_result" where
  "try_merge_extension hash p c st =
     (case map_of (nodes st) c of
        None \<Rightarrow> (Ok None, st)
      | Some (Extension q g) \<Rightarrow> put_node hash (Extension (path_concat p q) g) (remove_node c st)
      | Some (Leaf q v) \<Rightarrow> put_node hash (Leaf (path_concat p q) v) (remove_node c st)
      | Some _ \<Rightarrow> put_node hash (Extension p c) st)"

definition non_empty_children :: "h256 option list \<Rightarrow> (nat \<times> h256) list" where
  "non_empty_children cs = List.map_filter (\<lambda>(i, c). map_option (Pair i) c) (enumerate 0 cs)"

definition simplify_branch ::
  "(trie_node \<Rightarrow> h256) \<Rightarrow> h256 option list \<Rightarrow> bytes option \<Rightarrow> node_store \<Rightarrow> trie_result" where
  "simplify_branch hash cs value st =
     (case (non_empty_children cs, value) of
        ([], None) \<Rightarrow> (Ok None, st)
      | ([], Some v) \<Rightarrow> put_node hash (Leaf (from_nibbles []) v) st
      | ([(i, c)], None) \<Rightarrow>
          (case map_of (nodes st) c of
             None \<Rightarrow> (Ok None, st)
           | Some (Leaf p v) \<Rightarrow>
               put_node hash (Leaf (from_nibbles (of_nat i # to_nibbles p)) v) (remove_node c st)
           | Some (Extension p g) \<Rightarrow>
               put_node hash (Extension (from_nibbles (of_nat i # to_nibbles p)) g) (remove_node c st)
           | Some _ \<Rightarrow> put_node hash (Branch cs value) st)
      | _ \<Rightarrow> put_node hash (Branch cs value) st)"

fun delete_recursive ::
  "nat \<Rightarrow> (trie_node \<Rightarrow> h256) \<Rightarrow> h256 option \<Rightarrow> u8 list \<Rightarrow> node_store \<Rightarrow> trie_result" where
  "delete_recursive 0 hash at key st = (Hang, st)"
| "delete_recursive (Suc fuel) hash at key st =
     (case at of
        None \<Rightarrow> (Ok None, st)
      | Some h \<Rightarrow>
          (case map_of (nodes st) h of
             None \<Rightarrow> (Ok None, st)
           | Some Empty_Node \<Rightarrow> (Ok (Some h), st)
           | Some (Leaf p v) \<Rightarrow>
               if key = to_nibbles p
               then (Ok None, (remove_node h st)\<lparr>nodes_deleted := nodes_deleted st + 1\<rparr>)
               else (Ok (Some h), st)
           | Some (Extension p c) \<Rightarrow>
               if starts_with key (to_nibbles p)
               then and_then (delete_recursive fuel hash (Some c) (drop (length (to_nibbles p)) key) st) (\<lambda>c' st.
                      case c' of
                        None \<Rightarrow> (Ok None, remove_node h st)
                      | Some c' \<Rightarrow> try_merge_extension hash p c' st)
               else (Ok (Some h), st)
           | Some (Branch cs v) \<Rightarrow>
               (case key of
                  [] \<Rightarrow> simplify_branch hash cs None (remove_node h st)
                | k # ks \<Rightarrow>
                    (case cs ! unat k of
                       None \<Rightarrow> (Ok (Some h), st)
                     | Some c \<Rightarrow>
                         and_then (delete_recursive fuel hash (Some c) ks st) (\<lambda>c' st.
                           simplify_branch hash (cs[unat k := c']) v (remove_node h st))))))"

section \<open>The path cache\<close>

record path_cache =
  cached_paths :: "(bytes \<times> h256 list) list"
  cached_hashes :: "h256 \<rightharpoonup> h256"
  access_count :: "h256 \<rightharpoonup> u64"
  max_size :: nat

definition cache_new :: "nat \<Rightarrow> path_cache" where
  "cache_new n = \<lparr> cached_paths = [], cached_hashes = Map.empty, access_count = Map.empty, max_size = n \<rparr>"

definition accesses :: "path_cache \<Rightarrow> h256 \<Rightarrow> u64" where
  "accesses c h = (case access_count c h of None \<Rightarrow> 0 | Some n \<Rightarrow> n)"

text \<open>
  The first of the keys with the fewest accesses, in the order of the list, which stands for the iteration order of
  the hash map. The count is looked up under the hash of the key.
\<close>

fun least_used :: "(bytes \<Rightarrow> u64) \<Rightarrow> bytes list \<Rightarrow> bytes option" where
  "least_used f [] = None"
| "least_used f (k # ks) =
     (case least_used f ks of
        None \<Rightarrow> Some k
      | Some k' \<Rightarrow> if f k \<le> f k' then Some k else Some k')"

definition evict :: "(bytes \<Rightarrow> h256) \<Rightarrow> path_cache \<Rightarrow> path_cache" where
  "evict sha c =
     (case least_used (\<lambda>k. accesses c (sha k)) (map fst (cached_paths c)) of
        None \<Rightarrow> c
      | Some k \<Rightarrow> c\<lparr>cached_paths := AList.delete k (cached_paths c)\<rparr>)"

definition count_access :: "h256 \<Rightarrow> (h256 \<rightharpoonup> u64) \<Rightarrow> (h256 \<rightharpoonup> u64)" where
  "count_access h m = m(h \<mapsto> (case m h of None \<Rightarrow> 0 | Some n \<Rightarrow> n) + 1)"

definition cache_path :: "(bytes \<Rightarrow> h256) \<Rightarrow> bytes \<Rightarrow> h256 list \<Rightarrow> path_cache \<Rightarrow> path_cache" where
  "cache_path sha key path c =
     (let c1 = (if max_size c \<le> length (cached_paths c) then evict sha c else c)
      in c1\<lparr>access_count := fold count_access path (access_count c1),
            cached_paths := AList.update key path (cached_paths c1)\<rparr>)"

definition invalidate :: "path_cache \<Rightarrow> path_cache" where
  "invalidate c = c\<lparr>cached_paths := [], cached_hashes := Map.empty, access_count := Map.empty\<rparr>"

section \<open>The trie\<close>

record batch_update =
  upd_key :: bytes
  upd_value :: "bytes option"

record trie =
  root :: "h256 option"
  store :: node_store
  cache :: path_cache
  batch :: "batch_update list"
  reads :: u64
  writes :: u64
  cache_hits :: u64
  cache_misses :: u64

definition trie_new :: trie where
  "trie_new = \<lparr> root = None, store = \<lparr> nodes = [], nodes_created = 0, nodes_deleted = 0 \<rparr>,
     cache = cache_new 10000, batch = [], reads = 0, writes = 0, cache_hits = 0, cache_misses = 0 \<rparr>"

text \<open>A path through an acyclic store visits a node at most once, and an insertion ends one step below it.\<close>

definition fuel_for :: "node_store \<Rightarrow> nat" where
  "fuel_for st = length (nodes st) + 1"

text \<open>The node a cached path ends in gives the value, whatever the key.\<close>

definition get_with_cached_path :: "(h256 \<times> trie_node) list \<Rightarrow> h256 list \<Rightarrow> bytes option" where
  "get_with_cached_path ns path =
     (if path = [] then None
      else case map_of ns (last path) of
        Some (Leaf p v) \<Rightarrow> Some v
      | Some (Branch cs v) \<Rightarrow> v
      | _ \<Rightarrow> None)"

definition trie_get :: "(bytes \<Rightarrow> h256) \<Rightarrow> bytes \<Rightarrow> trie \<Rightarrow> (unit, bytes option) outcome \<times> trie" where
  "trie_get sha key t =
     (let t1 = t\<lparr>reads := reads t + 1\<rparr> in
      case map_of (cached_paths (cache t1)) key of
        Some path \<Rightarrow> (Ok (get_with_cached_path (nodes (store t1)) path), t1\<lparr>cache_hits := cache_hits t1 + 1\<rparr>)
      | None \<Rightarrow>
          let t2 = t1\<lparr>cache_misses := cache_misses t1 + 1\<rparr> in
          (case root t2 of
             None \<Rightarrow> (Ok None, t2)
           | Some h \<Rightarrow>
               (case get_recursive (fuel_for (store t2)) (nodes (store t2)) h (bytes_to_nibbles key) of
                  (Ok (Some v), path) \<Rightarrow> (Ok (Some v), t2\<lparr>cache := cache_path sha key path (cache t2)\<rparr>)
                | (r, path) \<Rightarrow> (r, t2))))"

definition apply_update ::
  "(trie_node \<Rightarrow> h256) \<Rightarrow> batch_update \<Rightarrow> h256 option \<Rightarrow> node_store \<Rightarrow> trie_result" where
  "apply_update hash u r st =
     (case upd_value u of
        Some v \<Rightarrow> insert_recursive (fuel_for st) hash r (bytes_to_nibbles (upd_key u)) v st
      | None \<Rightarrow> delete_recursive (fuel_for st) hash r (bytes_to_nibbles (upd_key u)) st)"

fun apply_updates ::
  "(trie_node \<Rightarrow> h256) \<Rightarrow> batch_update list \<Rightarrow> h256 option \<Rightarrow> node_store
     \<Rightarrow> (unit, unit) outcome \<times> h256 option \<times> node_store" where
  "apply_updates hash [] r st = (Ok (), r, st)"
| "apply_updates hash (u # us) r st =
     (case apply_update hash u r st of
        (Ok r', st') \<Rightarrow> apply_updates hash us r' st'
      | (Err e, st') \<Rightarrow> (Err e, r, st')
      | (Panic, st') \<Rightarrow> (Panic, r, st')
      | (Hang, st') \<Rightarrow> (Hang, r, st'))"

text \<open>
  The updates are sorted by key, stably. A panic half-way leaves the changes made so far, and the cache as
  it was.
\<close>

definition commit_batch :: "(trie_node \<Rightarrow> h256) \<Rightarrow> trie \<Rightarrow> (unit, unit) outcome \<times> trie" where
  "commit_batch hash t =
     (let updates = batch t; t1 = t\<lparr>batch := []\<rparr> in
      if updates = [] then (Ok (), t1)
      else
        let t2 = t1\<lparr>writes := writes t1 + of_nat (length updates)\<rparr> in
        case apply_updates hash (sort_key upd_key updates) (root t2) (store t2) of (res, r, st) \<Rightarrow>
          (res, t2\<lparr>root := r, store := st, cache := (if is_ok res then invalidate (cache t2) else cache t2)\<rparr>))"

definition trie_insert ::
  "(trie_node \<Rightarrow> h256) \<Rightarrow> bytes \<Rightarrow> bytes \<Rightarrow> trie \<Rightarrow> (unit, unit) outcome \<times> trie" where
  "trie_insert hash key value t =
     (let t1 = t\<lparr>batch := batch t @ [\<lparr> upd_key = key, upd_value = Some value \<rparr>]\<rparr>
      in if 100 \<le> length (batch t1) then commit_batch hash t1 else (Ok (), t1))"

definition trie_delete :: "bytes \<Rightarrow> trie \<Rightarrow> trie" where
  "trie_delete key t = t\<lparr>batch := batch t @ [\<lparr> upd_key = key, upd_value = None \<rparr>]\<rparr>"

definition root_hash :: "trie \<Rightarrow> h256 option" where
  "root_hash t = root t"

section \<open>Proofs and metrics\<close>

fun prove_recursive ::
  "nat \<Rightarrow> (trie_node \<Rightarrow> bytes) \<Rightarrow> (h256 \<times> trie_node) list \<Rightarrow> h256 \<Rightarrow> u8 list \<Rightarrow> bytes list option" where
  "prove_recursive 0 ser ns h key = None"
| "prove_recursive (Suc fuel) ser ns h key =
     (case map_of ns h of
        None \<Rightarrow> Some []
      | Some node \<Rightarrow>
          map_option (Cons (ser node))
            (case node of
               Extension p c \<Rightarrow>
                 if starts_with key (to_nibbles p)
                 then prove_recursive fuel ser ns c (drop (length (to_nibbles p)) key)
                 else Some []
             | Branch cs v \<Rightarrow>
                 (case key of
                    [] \<Rightarrow> Some []
                  | k # ks \<Rightarrow>
                      (case cs ! unat k of None \<Rightarrow> Some [] | Some c \<Rightarrow> prove_recursive fuel ser ns c ks))
             | _ \<Rightarrow> Some []))"

definition prove :: "(trie_node \<Rightarrow> bytes) \<Rightarrow> bytes \<Rightarrow> trie \<Rightarrow> bytes list option" where
  "prove ser key t =
     (case root t of
        None \<Rightarrow> Some []
      | Some h \<Rightarrow> prove_recursive (fuel_for (store t)) ser (nodes (store t)) h (bytes_to_nibbles key))"

text \<open>The verification is a stub: it looks at nothing but whether the proof is empty.\<close>

definition verify_proof :: "h256 \<Rightarrow> bytes \<Rightarrow> bytes list \<Rightarrow> bytes option" where
  "verify_proof r key proof = (if proof = [] then None else Some [])"

record trie_metrics =
  metric_reads :: u64
  metric_writes :: u64
  metric_hits :: u64
  metric_misses :: u64
  metric_created :: u64
  metric_deleted :: u64
  total_nodes :: u64

definition trie_get_metrics :: "trie \<Rightarrow> trie_metrics" where
  "trie_get_metrics t = \<lparr> metric_reads = reads t, metric_writes = writes t, metric_hits = cache_hits t,
     metric_misses = cache_misses t, metric_created = nodes_created (store t),
     metric_deleted = nodes_deleted (store t), total_nodes = of_nat (length (nodes (store t))) \<rparr>"

end
