(* ===== verification/MerkleTrieProps.thy ===== *)
theory MerkleTrieProps
  imports MerkleTrie
begin

text \<open>
  What the trie of theory \<open>MerkleTrie\<close> guarantees and what it loses: the packing of nibbles, the content
  addressing of the store, the path cache, and lookups after insertions.
\<close>

section \<open>Packing nibbles\<close>

definition nibbles :: "u8 list \<Rightarrow> bool" where
  "nibbles ns \<longleftrightarrow> list_all (\<lambda>n. n < 16) ns"

lemma nibbles_simps [simp]: "nibbles []" "nibbles (n # ns) \<longleftrightarrow> n < 16 \<and> nibbles ns"
  by (simp_all add: nibbles_def)

lemma and_15: "and b 15 = take_bit 4 b" for b :: u8
  using take_bit_eq_mask [of 4 b] by (simp add: mask_eq_exp_minus_1)

lemma nibble_take_bit: "n < 16 \<Longrightarrow> take_bit 4 n = n" for n :: u8
  by (simp add: word_unat_eq_iff unsigned_take_bit_eq word_less_nat_alt take_bit_nat_eq_self)

lemma nibble_bits: "n < 16 \<Longrightarrow> bit n i \<Longrightarrow> i < 4" for n :: u8
  using nibble_take_bit [of n] by (metis bit_take_bit_iff)

lemma nibble_simps:
  assumes "a < (16 :: u8)"
  shows "drop_bit 4 (push_bit 4 a) = a" "drop_bit 4 a = 0" "and (push_bit 4 b) 15 = (0 :: u8)"
    "and a 15 = a" "and (or (push_bit 4 b) a) 15 = a"
proof -
  have high: "bit a (4 + n) = False" "4 \<le> n \<Longrightarrow> bit a n = False" for n
    using nibble_bits [OF assms] by (metis add_leD1 le_add1 not_less, metis not_less)
  show "drop_bit 4 (push_bit 4 a) = a" "drop_bit 4 a = 0" "and (push_bit 4 b) 15 = (0 :: u8)"
    "and a 15 = a" "and (or (push_bit 4 b) a) 15 = a"
    unfolding and_15
    by (rule bit_word_eqI; use high nibble_bits [OF assms] in \<open>auto simp: bit_simps not_less\<close>)+
qed

lemma unpack_pack_even: "nibbles ns \<Longrightarrow> even (length ns) \<Longrightarrow> unpack (pack ns) = ns"
  by (induction ns rule: pack.induct) (simp_all add: unpack_def nibble_simps)

lemma unpack_pack_odd: "nibbles ns \<Longrightarrow> odd (length ns) \<Longrightarrow> unpack (pack ns) = ns @ [0]"
  by (induction ns rule: pack.induct) (simp_all add: unpack_def nibble_simps)

lemma to_from_nibbles:
  assumes "nibbles ns"
  shows "to_nibbles (from_nibbles ns) =
    (if even (length ns) then ns else if length ns = 1 then [] else drop 2 ns @ [0])"
proof (cases ns rule: pack.cases)
  case (1 a b ms)
  with assms unpack_pack_even [of ms] unpack_pack_odd [of ms] show ?thesis
    by (auto simp: to_nibbles_def from_nibbles_def nibble_simps)
next
  case (2 a)
  with assms show ?thesis
    by (simp add: to_nibbles_def from_nibbles_def nibble_simps unpack_def)
qed (simp add: to_nibbles_def from_nibbles_def unpack_def)

lemma even_to_nibbles: "nibbles ns \<Longrightarrow> even (length (to_nibbles (from_nibbles ns)))"
  by (cases ns rule: pack.cases) (auto simp: to_from_nibbles)

lemma nibbles_unpack [simp]: "nibbles (unpack bs)"
proof (induction bs)
  case (Cons b bs)
  have "unat b < 256" using unsigned_less [of b] by simp
  then have "unat (drop_bit 4 b) < 16" "unat (take_bit 4 b) < 16"
    by (simp_all add: unsigned_drop_bit_eq drop_bit_nat_def unsigned_take_bit_eq take_bit_nat_def)
  with Cons show ?case
    by (simp add: unpack_def and_15 word_less_nat_alt)
qed (simp add: unpack_def)

lemma length_unpack [simp]: "length (unpack bs) = 2 * length bs"
  by (induction bs) (simp_all add: unpack_def)

lemma unpack_inj: "unpack as = unpack bs \<longleftrightarrow> as = bs"
proof
  assume "unpack as = unpack bs"
  then show "as = bs"
  proof (induction as arbitrary: bs)
    case Nil
    then show ?case by (cases bs) (simp_all add: unpack_def)
  next
    case (Cons a as)
    then obtain b bs' where bs: "bs = b # bs'" by (cases bs) (simp_all add: unpack_def)
    with Cons.prems have "drop_bit 4 a = drop_bit 4 b" "take_bit 4 a = take_bit 4 b"
      by (simp_all add: unpack_def and_15)
    then have "a = b" by (metis bits_ident)
    with Cons bs show ?case by (simp add: unpack_def)
  qed
qed simp

section \<open>The store is addressed by content\<close>

definition addressed :: "(trie_node \<Rightarrow> h256) \<Rightarrow> node_store \<Rightarrow> bool" where
  "addressed hash st \<longleftrightarrow> (\<forall>(h, n) \<in> set (nodes st). hash n = h)"

lemma set_alist_update: "x \<in> set (AList.update k v m) \<Longrightarrow> x = (k, v) \<or> x \<in> set m"
  by (induction m) (auto split: if_splits)

lemma addressed_create [simp]: "addressed hash st \<Longrightarrow> addressed hash (snd (create_node hash n st))"
  by (auto simp: addressed_def create_node_def dest!: set_alist_update)

lemma addressed_remove [simp]: "addressed hash st \<Longrightarrow> addressed hash (remove_node h st)"
  by (auto simp: addressed_def remove_node_def AList.delete_eq)

lemma addressed_put [simp]: "addressed hash st \<Longrightarrow> addressed hash (snd (put_node hash n st))"
  using addressed_create [of hash st n] by (simp add: put_node_def create_node_def)

lemma addressed_child [simp]: "addressed hash (snd p) \<Longrightarrow> addressed hash (snd (add_child hash i n p))"
  using addressed_create [of hash "snd p" n] by (simp add: add_child_def create_node_def)

lemma addressed_branch:
  assumes "addressed hash st"
  shows "addressed hash (snd (case create_node hash n st of (b, st3) \<Rightarrow>
     if q then put_node hash (f b) st3 else (Ok (Some b), st3)))"
  using addressed_create [OF assms, of n] by (cases "create_node hash n st") simp

lemma addressed_split_and_insert [simp]:
  "addressed hash st \<Longrightarrow> addressed hash (snd (split_and_insert hash key v ek ev common st))"
  unfolding split_and_insert_def Let_def
  by (rule addressed_branch) (simp split: option.split)

lemma addressed_split_extension [simp]:
  "addressed hash st \<Longrightarrow> addressed hash (snd (split_extension hash key v ext c common st))"
  unfolding split_extension_def Let_def by (rule addressed_branch) simp

lemma addressed_then:
  assumes "addressed hash (snd p)" "\<And>a st. addressed hash st \<Longrightarrow> addressed hash (snd (f a st))"
  shows "addressed hash (snd (and_then p f))"
  using assms by (intro snd_and_then [where I = "addressed hash"]) (auto dest!: arg_cong [of _ _ snd])

lemma addressed_insert: "addressed hash st \<Longrightarrow> addressed hash (snd (insert_recursive fuel hash at key v st))"
proof (induction fuel arbitrary: at key st)
  case (Suc fuel)
  then show ?case
    by (auto simp: Let_def split: option.split or_panic_split trie_node.split list.split
        intro!: addressed_then)
qed simp

lemma addressed_simplify: "addressed hash st \<Longrightarrow> addressed hash (snd (simplify_branch hash cs v st))"
  by (simp add: simplify_branch_def split: list.split option.split trie_node.split prod.split)

lemma addressed_merge: "addressed hash st \<Longrightarrow> addressed hash (snd (try_merge_extension hash p c st))"
  by (simp add: try_merge_extension_def split: option.split trie_node.split)

lemma addressed_deleted [simp]: "addressed hash (st\<lparr>nodes_deleted := d\<rparr>) = addressed hash st"
  by (simp add: addressed_def)

lemma addressed_delete: "addressed hash st \<Longrightarrow> addressed hash (snd (delete_recursive fuel hash at key st))"
proof (induction fuel arbitrary: at key st)
  case (Suc fuel)
  then show ?case
    by (auto simp: addressed_simplify addressed_merge split: option.split trie_node.split list.split
        intro!: addressed_then)
qed simp

section \<open>The trie as a component driven by calls\<close>

datatype trie_call = Trie_Get bytes | Trie_Insert bytes bytes | Trie_Delete bytes | Trie_Commit

fun trie_do :: "(trie_node \<Rightarrow> h256) \<Rightarrow> (bytes \<Rightarrow> h256) \<Rightarrow> trie_call \<Rightarrow> trie \<Rightarrow> bool \<times> trie" where
  "trie_do hash sha (Trie_Get k) t = (True, snd (trie_get sha k t))"
| "trie_do hash sha (Trie_Insert k v) t = (case trie_insert hash k v t of (r, t') \<Rightarrow> (is_ok r, t'))"
| "trie_do hash sha (Trie_Delete k) t = (True, trie_delete k t)"
| "trie_do hash sha Trie_Commit t = (case commit_batch hash t of (r, t') \<Rightarrow> (is_ok r, t'))"

definition trie_step :: "(trie_node \<Rightarrow> h256) \<Rightarrow> (bytes \<Rightarrow> h256) \<Rightarrow> trie_call \<Rightarrow> trie \<Rightarrow> trie" where
  "trie_step hash sha c t = snd (trie_do hash sha c t)"

lemma trie_step_simps [simp]:
  "trie_step hash sha (Trie_Get k) t = snd (trie_get sha k t)"
  "trie_step hash sha (Trie_Insert k v) t = snd (trie_insert hash k v t)"
  "trie_step hash sha (Trie_Delete k) t = trie_delete k t"
  "trie_step hash sha Trie_Commit t = snd (commit_batch hash t)"
  by (simp_all add: trie_step_def split: prod.split)

text \<open>No commit panics.\<close>

definition trie_ok :: "(trie_node \<Rightarrow> h256) \<Rightarrow> (bytes \<Rightarrow> h256) \<Rightarrow> trie_call \<Rightarrow> trie \<Rightarrow> bool" where
  "trie_ok hash sha c t = fst (trie_do hash sha c t)"

lemma addressed_updates:
  "addressed hash st \<Longrightarrow> apply_updates hash us r st = (res, r', st') \<Longrightarrow> addressed hash st'"
proof (induction us arbitrary: r st)
  case (Cons u us)
  have "addressed hash (snd (apply_update hash u r st))"
    using Cons.prems(1) by (auto simp: apply_update_def addressed_insert addressed_delete split: option.split)
  with Cons show ?case
    by (cases "apply_update hash u r st"; cases "fst (apply_update hash u r st)") auto
qed simp

lemma addressed_commit:
  "addressed hash (store t) \<Longrightarrow> addressed hash (store (snd (commit_batch hash t)))"
  by (auto simp: commit_batch_def Let_def split: prod.split dest: addressed_updates)

lemma trie_get_frame [simp]:
  "store (snd (trie_get sha k t)) = store t" "root (snd (trie_get sha k t)) = root t"
  by (auto simp: trie_get_def Let_def split: option.split prod.split outcome.split)

lemma addressed_step: "addressed hash (store t) \<Longrightarrow> addressed hash (store (trie_step hash sha c t))"
  by (cases c) (simp_all add: trie_insert_def trie_delete_def Let_def addressed_commit)

interpretation trie_store: invariant_of "trie_step hash sha" "\<lambda>_ _. True" "\<lambda>t. addressed hash (store t)" for hash sha
  by unfold_locales (rule addressed_step)

section \<open>The path cache\<close>

text \<open>Where a successful lookup ends is where the value is.\<close>

lemma get_with_cached_path_Cons [simp]:
  "path \<noteq> [] \<Longrightarrow> get_with_cached_path ns (h # path) = get_with_cached_path ns path"
  by (simp add: get_with_cached_path_def)

lemma get_recursive_path:
  "get_recursive fuel ns h key = (Ok (Some v), path) \<Longrightarrow> path \<noteq> [] \<and> get_with_cached_path ns path = Some v"
proof (induction fuel arbitrary: h key path)
  case (Suc fuel)
  show ?case
  proof (cases "map_of ns h")
    case None
    with Suc.prems show ?thesis by simp
  next
    case (Some n)
    show ?thesis
    proof (cases n)
      case (Extension p c)
      with Some Suc.prems obtain path' where
        "get_recursive fuel ns c (drop (length (to_nibbles p)) key) = (Ok (Some v), path')" "path = h # path'"
        by (auto split: if_splits prod.splits)
      with Suc.IH show ?thesis by fastforce
    next
      case (Branch cs w)
      show ?thesis
      proof (cases key)
        case Nil
        with Some Branch Suc.prems show ?thesis by (auto simp: get_with_cached_path_def)
      next
        case (Cons k ks)
        with Some Branch Suc.prems obtain c path' where
          "get_recursive fuel ns c ks = (Ok (Some v), path')" "path = h # path'"
          by (auto split: option.splits prod.splits)
        with Suc.IH show ?thesis by fastforce
      qed
    qed (use Some Suc.prems in \<open>auto simp: get_with_cached_path_def split: if_splits\<close>)
  qed
qed simp

definition uncached_get :: "bytes \<Rightarrow> trie \<Rightarrow> (unit, bytes option) outcome" where
  "uncached_get key t =
     (case root t of
        None \<Rightarrow> Ok None
      | Some h \<Rightarrow> fst (get_recursive (fuel_for (store t)) (nodes (store t)) h (bytes_to_nibbles key)))"

definition cache_ok :: "trie \<Rightarrow> bool" where
  "cache_ok t \<longleftrightarrow> (\<forall>(k, path) \<in> set (cached_paths (cache t)).
     \<exists>v. uncached_get k t = Ok (Some v) \<and> get_with_cached_path (nodes (store t)) path = Some v)"

lemma cached_paths_update:
  "x \<in> set (cached_paths (cache_path sha k path c)) \<Longrightarrow> x = (k, path) \<or> x \<in> set (cached_paths c)"
  by (auto simp: cache_path_def evict_def AList.delete_eq Let_def split: option.splits if_splits dest!: set_alist_update)

lemma uncached_get_cong: "root t' = root t \<Longrightarrow> store t' = store t \<Longrightarrow> uncached_get k t' = uncached_get k t"
  by (simp add: uncached_get_def cong: option.case_cong)

lemma cache_okD:
  "cache_ok t \<Longrightarrow> map_of (cached_paths (cache t)) k = Some path \<Longrightarrow>
     \<exists>v. uncached_get k t = Ok (Some v) \<and> get_with_cached_path (nodes (store t)) path = Some v"
  by (auto simp: cache_ok_def dest!: map_of_SomeD)

lemma cache_ok_mono:
  assumes "cache_ok t" "root t' = root t" "store t' = store t"
    and "set (cached_paths (cache t')) \<subseteq> set (cached_paths (cache t))"
  shows "cache_ok t'"
  using assms(1,4) by (auto simp: cache_ok_def uncached_get_cong [OF assms(2,3)] assms(3))

lemma cache_ok_add:
  assumes "cache_ok t" "uncached_get key t = Ok (Some v)" "get_with_cached_path (nodes (store t)) path = Some v"
    and "root t' = root t" "store t' = store t" "cache t' = cache_path sha key path (cache t)"
  shows "cache_ok t'"
  unfolding cache_ok_def
proof (intro ballI, clarify)
  have u: "uncached_get k t' = uncached_get k t" for k by (rule uncached_get_cong [OF assms(4,5)])
  fix k p
  assume "(k, p) \<in> set (cached_paths (cache t'))"
  then consider "(k, p) = (key, path)" | "(k, p) \<in> set (cached_paths (cache t))"
    using cached_paths_update [of "(k, p)" sha key path "cache t"] assms(6) by auto
  then show "\<exists>v. uncached_get k t' = Ok (Some v) \<and> get_with_cached_path (nodes (store t')) p = Some v"
  proof cases
    case 1
    with assms(2,3) show ?thesis by (simp add: u assms(5))
  next
    case 2
    with assms(1) show ?thesis by (fastforce simp: u assms(5) cache_ok_def)
  qed
qed

lemma trie_get_uncached:
  assumes "cache_ok t"
  shows "fst (trie_get sha key t) = uncached_get key t \<and> cache_ok (snd (trie_get sha key t))"
proof (cases "map_of (cached_paths (cache t)) key")
  case (Some path)
  then have eq: "trie_get sha key t = (Ok (get_with_cached_path (nodes (store t)) path),
      t\<lparr>reads := reads t + 1, cache_hits := cache_hits t + 1\<rparr>)"
    by (simp add: trie_get_def)
  show ?thesis
    unfolding eq using cache_okD [OF assms Some] assms by (auto intro!: cache_ok_mono [OF assms])
next
  case None
  let ?t2 = "t\<lparr>reads := reads t + 1, cache_misses := cache_misses t + 1\<rparr>"
  show ?thesis
  proof (cases "root t")
    case None: None
    then have "trie_get sha key t = (Ok None, ?t2)"
      using \<open>map_of (cached_paths (cache t)) key = None\<close> by (simp add: trie_get_def)
    with None assms show ?thesis
      by (auto simp: uncached_get_def intro!: cache_ok_mono [OF assms])
  next
    case (Some h)
    obtain r path where g: "get_recursive (fuel_for (store t)) (nodes (store t)) h (bytes_to_nibbles key) = (r, path)"
      by (cases "get_recursive (fuel_for (store t)) (nodes (store t)) h (bytes_to_nibbles key)")
    show ?thesis
    proof (cases "\<exists>v. r = Ok (Some v)")
      case True
      then obtain v where r: "r = Ok (Some v)" ..
      with g Some None have eq: "trie_get sha key t = (Ok (Some v), ?t2\<lparr>cache := cache_path sha key path (cache t)\<rparr>)"
        by (simp add: trie_get_def)
      have u: "uncached_get key t = Ok (Some v)" using g r Some by (simp add: uncached_get_def)
      moreover have "get_with_cached_path (nodes (store t)) path = Some v"
        using get_recursive_path g r by blast
      ultimately have "cache_ok (?t2\<lparr>cache := cache_path sha key path (cache t)\<rparr>)"
        by (intro cache_ok_add [OF assms]) simp_all
      with eq u show ?thesis by simp
    next
      case False
      with g Some None have "trie_get sha key t = (r, ?t2)"
        by (cases r; cases "\<exists>x. r = Ok x") (auto simp: trie_get_def split: option.split)
      moreover have "uncached_get key t = r" using g Some by (simp add: uncached_get_def)
      ultimately show ?thesis using assms by (auto intro!: cache_ok_mono [OF assms])
    qed
  qed
qed

lemma cache_ok_commit:
  assumes "cache_ok t" "is_ok (fst (commit_batch hash t))"
  shows "cache_ok (snd (commit_batch hash t))"
proof (cases "batch t = []")
  case True
  then show ?thesis using assms(1) by (auto simp: commit_batch_def intro: cache_ok_mono)
next
  case False
  with assms(2) have "cached_paths (cache (snd (commit_batch hash t))) = []"
    by (auto simp: commit_batch_def Let_def invalidate_def split: prod.splits)
  then show ?thesis by (simp add: cache_ok_def)
qed

lemma cache_ok_step: "cache_ok t \<Longrightarrow> trie_ok hash sha c t \<Longrightarrow> cache_ok (trie_step hash sha c t)"
proof (cases c)
  case (Trie_Insert k v)
  assume "cache_ok t" "trie_ok hash sha c t"
  let ?t = "t\<lparr>batch := batch t @ [\<lparr>upd_key = k, upd_value = Some v\<rparr>]\<rparr>"
  have "cache_ok ?t" using \<open>cache_ok t\<close> by (auto intro: cache_ok_mono)
  with Trie_Insert \<open>trie_ok hash sha c t\<close> cache_ok_commit [of ?t hash] show ?thesis
    by (auto simp: trie_ok_def trie_insert_def Let_def split: prod.splits if_splits)
next
  case Trie_Commit
  assume "cache_ok t" "trie_ok hash sha c t"
  with Trie_Commit cache_ok_commit [of t hash] show ?thesis
    by (auto simp: trie_ok_def split: prod.splits)
qed (auto simp: trie_get_uncached trie_delete_def intro: cache_ok_mono)

interpretation trie_cache: invariant_of "trie_step hash sha" "trie_ok hash sha" cache_ok for hash sha
  by unfold_locales (rule cache_ok_step)

section \<open>A trie used with a single key\<close>

definition single_key_inv :: "(trie_node \<Rightarrow> h256) \<Rightarrow> bytes \<Rightarrow> bytes option \<Rightarrow> h256 option \<Rightarrow> node_store \<Rightarrow> bool" where
  "single_key_inv hash key v r st \<longleftrightarrow>
     (case v of
        None \<Rightarrow> r = None \<and> nodes st = []
      | Some v \<Rightarrow>
          let leaf = Leaf (from_nibbles (unpack key)) v in r = Some (hash leaf) \<and> nodes st = [(hash leaf, leaf)])"

lemma to_from_unpack [simp]: "to_nibbles (from_nibbles (unpack bs)) = unpack bs"
  by (simp add: to_from_nibbles)

lemma common_prefix_len_same [simp]: "common_prefix_len as as = length as"
  by (induction as) auto

lemma single_key_update:
  assumes "single_key_inv hash key v r st"
  shows "\<exists>r' st'. apply_update hash \<lparr>upd_key = key, upd_value = w\<rparr> r st = (Ok r', st') \<and> single_key_inv hash key w r' st'"
  using assms
  by (cases v; cases w)
    (auto simp: single_key_inv_def apply_update_def fuel_for_def bytes_to_nibbles_def put_node_def create_node_def
      remove_node_def Let_def)

lemma single_key_updates:
  "single_key_inv hash key v r st \<Longrightarrow> \<forall>u \<in> set us. upd_key u = key \<Longrightarrow>
     \<exists>r' st'. apply_updates hash us r st = (Ok (), r', st') \<and>
       single_key_inv hash key (fold (\<lambda>u _. upd_value u) us v) r' st'"
proof (induction us arbitrary: v r st)
  case (Cons u us)
  have u: "u = \<lparr>upd_key = key, upd_value = upd_value u\<rparr>" using Cons.prems(2) by simp
  obtain r' st' where "apply_update hash u r st = (Ok r', st')" "single_key_inv hash key (upd_value u) r' st'"
    using single_key_update [OF Cons.prems(1), of "upd_value u"] u by metis
  with Cons.IH [of "upd_value u" r' st'] Cons.prems(2) show ?case by auto
qed simp

text \<open>What the calls on one key have committed and what they have pending.\<close>

fun key_call :: "bytes \<Rightarrow> trie_call \<Rightarrow> bool" where
  "key_call key (Trie_Get k) = True"
| "key_call key (Trie_Insert k v) = (k = key)"
| "key_call key (Trie_Delete k) = (k = key)"
| "key_call key Trie_Commit = True"

fun last_write :: "trie_call list \<Rightarrow> bytes option \<Rightarrow> bytes option" where
  "last_write [] w = w"
| "last_write (Trie_Insert k v # cs) w = last_write cs (Some v)"
| "last_write (Trie_Delete k # cs) w = last_write cs None"
| "last_write (_ # cs) w = last_write cs w"

definition single_key_sim :: "(trie_node \<Rightarrow> h256) \<Rightarrow> bytes \<Rightarrow> bytes option \<Rightarrow> trie \<Rightarrow> bool" where
  "single_key_sim hash key w t \<longleftrightarrow> cache_ok t \<and> (\<forall>u \<in> set (batch t). upd_key u = key) \<and>
     (\<exists>v. single_key_inv hash key v (root t) (store t) \<and> w = fold (\<lambda>u _. upd_value u) (batch t) v)"

lemma sort_key_same: "\<forall>u \<in> set us. f u = k \<Longrightarrow> sort_key f us = us"
  by (rule sort_key_id_if_sorted) (induction us; simp)

lemma single_key_commit:
  assumes "single_key_sim hash key w t"
  shows "fst (commit_batch hash t) = Ok () \<and> single_key_sim hash key w (snd (commit_batch hash t))
    \<and> batch (snd (commit_batch hash t)) = []"
proof -
  obtain v where v: "single_key_inv hash key v (root t) (store t)" "w = fold (\<lambda>u _. upd_value u) (batch t) v"
    and us: "\<forall>u \<in> set (batch t). upd_key u = key" and ok: "cache_ok t"
    using assms by (auto simp: single_key_sim_def)
  from single_key_updates [OF v(1) us] obtain r' st' where
    c: "apply_updates hash (sort_key upd_key (batch t)) (root t) (store t) = (Ok (), r', st')"
      "single_key_inv hash key w r' st'"
    using v(2) sort_key_same [OF us] by metis
  have fst: "fst (commit_batch hash t) = Ok ()"
    using c by (simp add: commit_batch_def Let_def)
  with cache_ok_commit [OF ok, of hash] have "cache_ok (snd (commit_batch hash t))" by simp
  with fst c v show ?thesis
    by (auto simp: commit_batch_def Let_def single_key_sim_def)
qed

lemma single_key_step:
  assumes "single_key_sim hash key w t" "key_call key c"
  shows "single_key_sim hash key (last_write [c] w) (trie_step hash sha c t)"
proof (cases c)
  case (Trie_Get k)
  have "batch (snd (trie_get sha k t)) = batch t"
    by (auto simp: trie_get_def Let_def split: option.split prod.split outcome.split)
  with assms Trie_Get trie_get_uncached [of t sha k] show ?thesis by (simp add: single_key_sim_def)
next
  case (Trie_Insert k v)
  let ?t = "t\<lparr>batch := batch t @ [\<lparr>upd_key = k, upd_value = Some v\<rparr>]\<rparr>"
  have "cache_ok ?t" using assms(1) by (auto simp: single_key_sim_def intro: cache_ok_mono)
  then have "single_key_sim hash key (Some v) ?t"
    using assms Trie_Insert by (auto simp: single_key_sim_def)
  with single_key_commit [of hash key "Some v" ?t] Trie_Insert show ?thesis
    by (simp add: trie_insert_def Let_def)
next
  case (Trie_Delete k)
  have "cache_ok (trie_delete k t)" using assms(1) by (auto simp: single_key_sim_def trie_delete_def intro: cache_ok_mono)
  then show ?thesis using assms Trie_Delete by (auto simp: single_key_sim_def trie_delete_def)
next
  case Trie_Commit
  with single_key_commit [OF assms(1)] show ?thesis by simp
qed

lemma last_write_Cons: "last_write (c # cs) w = last_write cs (last_write [c] w)"
  by (cases c) simp_all

lemma single_key_run:
  "single_key_sim hash key w t \<Longrightarrow> \<forall>c \<in> set cs. key_call key c \<Longrightarrow>
     single_key_sim hash key (last_write cs w) (run (trie_step hash sha) cs t)"
proof (induction cs arbitrary: w t)
  case (Cons c cs)
  then show ?case
    using single_key_step [OF Cons.prems(1), of c sha] by (simp add: last_write_Cons [of c cs w])
qed simp

lemma single_key_get:
  "single_key_inv hash key v (root t) (store t) \<Longrightarrow> uncached_get k t = Ok (if k = key then v else None)"
  by (cases v) (auto simp: single_key_inv_def uncached_get_def fuel_for_def bytes_to_nibbles_def unpack_inj Let_def)

section \<open>Two keys\<close>

text \<open>The kind of a node. A collision-resistant hash tells nodes of different kinds apart.\<close>

definition kind :: "trie_node \<Rightarrow> nat" where
  "kind n = (case n of Empty_Node \<Rightarrow> 0 | Leaf p v \<Rightarrow> 1 | Extension p c \<Rightarrow> 2 | Branch cs v \<Rightarrow> 3)"

lemma kind_simps [simp]:
  "kind Empty_Node = 0" "kind (Leaf p v) = 1" "kind (Extension p c) = 2" "kind (Branch cs w) = 3"
  by (simp_all add: kind_def)

definition separates :: "(trie_node \<Rightarrow> h256) \<Rightarrow> bool" where
  "separates hash \<longleftrightarrow> (\<forall>n m. hash n = hash m \<longrightarrow> kind n = kind m)"

text \<open>Below a branch of leaves, a key of even length finds nothing: the leaves hold paths of even length.\<close>

definition even_leaf :: "(h256 \<times> trie_node) list \<Rightarrow> h256 \<Rightarrow> bool" where
  "even_leaf ns h \<longleftrightarrow> (\<exists>p v. map_of ns h = Some (Leaf p v) \<and> even (length (to_nibbles p)))"

lemma branch_loses:
  assumes "map_of ns h = Some (Branch cs w)" "\<forall>i < 16. \<forall>c. cs ! i = Some c \<longrightarrow> even_leaf ns c"
    and "nibbles key" "even (length key)" "key \<noteq> []"
  shows "fst (get_recursive (Suc (Suc fuel)) ns h key) = Ok None"
proof (cases key)
  case (Cons k ks)
  then have "unat k < 16" "odd (length ks)" using assms(3,4) by (auto simp: word_less_nat_alt)
  show ?thesis
  proof (cases "cs ! unat k")
    case (Some c)
    with assms(2) \<open>unat k < 16\<close> have "even_leaf ns c" by blast
    with Some Cons assms(1) \<open>odd (length ks)\<close> show ?thesis
      by (auto simp: even_leaf_def split: prod.split)
  qed (use Cons assms(1) in simp)
qed (use assms(5) in simp)

lemma nibbles_take_drop [simp]: "nibbles ns \<Longrightarrow> nibbles (drop n ns)" "nibbles ns \<Longrightarrow> nibbles (take n ns)"
  unfolding nibbles_def list_all_iff using set_drop_subset [of n ns] set_take_subset [of n ns] by blast+

lemma extension_loses:
  assumes "map_of ns h = Some (Extension p b)" "even (length (to_nibbles p))"
    and "map_of ns b = Some (Branch cs w)" "\<forall>i < 16. \<forall>c. cs ! i = Some c \<longrightarrow> even_leaf ns c"
    and "nibbles key" "even (length key)" "length (to_nibbles p) < length key"
  shows "fst (get_recursive (Suc (Suc (Suc fuel))) ns h key) = Ok None"
proof -
  have "fst (get_recursive (Suc (Suc fuel)) ns b (drop (length (to_nibbles p)) key)) = Ok None"
    using assms(2,5-7) by (intro branch_loses [OF assms(3,4)]) simp_all
  then show ?thesis
    by (subst get_recursive.simps) (simp add: assms(1) split_beta del: get_recursive.simps)
qed

lemma starts_with_same [simp]: "starts_with as as"
  by (induction as) auto

lemma branch_finds: "map_of ns h = Some (Branch cs w) \<Longrightarrow> fst (get_recursive (Suc fuel) ns h []) = Ok w"
  by simp

lemma extension_finds:
  "map_of ns h = Some (Extension p b) \<Longrightarrow> map_of ns b = Some (Branch cs w) \<Longrightarrow>
     fst (get_recursive (Suc (Suc fuel)) ns h (to_nibbles p)) = Ok w"
  by (simp split: prod.split)

lemma length_to_from_le: "nibbles ns \<Longrightarrow> length (to_nibbles (from_nibbles ns)) \<le> length ns"
  by (cases ns rule: pack.cases) (auto simp: to_from_nibbles)

lemma common_prefix_len_le: "common_prefix_len as bs \<le> length as" "common_prefix_len as bs \<le> length bs"
  by (induction as bs rule: common_prefix_len.induct) auto

lemma common_prefix_len_less:
  "\<not> starts_with bs as \<Longrightarrow> common_prefix_len as bs < length as"
  "\<not> starts_with as bs \<Longrightarrow> common_prefix_len as bs < length bs"
  by (induction as bs rule: common_prefix_len.induct) auto

lemma starts_with_unpack: "starts_with (unpack as) (unpack bs) = starts_with as bs"
proof (induction as bs rule: starts_with.induct)
  case (3 a as b bs)
  have "unpack (a # as) = unpack [a] @ unpack as" "unpack (b # bs) = unpack [b] @ unpack bs"
    by (simp_all add: unpack_def)
  moreover have "starts_with (unpack [a] @ xs) (unpack [b] @ ys) = (unpack [a] = unpack [b] \<and> starts_with xs ys)" for xs ys
    by (auto simp: unpack_def)
  ultimately show ?case using 3 by (simp add: unpack_inj)
qed (simp_all add: unpack_def)

lemma even_from_nibbles [simp]: "nibbles ns \<Longrightarrow> even (length (to_nibbles (from_nibbles (drop n ns))))"
    "nibbles ns \<Longrightarrow> even (length (to_nibbles (from_nibbles (take n ns))))"
  by (simp_all add: even_to_nibbles)

lemma even_leaf_update:
  "even_leaf ns k \<Longrightarrow> h \<noteq> k \<Longrightarrow> even_leaf (AList.update h n ns) k"
  "even_leaf ns k \<Longrightarrow> nibbles xs \<Longrightarrow> even_leaf (AList.update h (Leaf (from_nibbles (drop m xs)) v) ns) k"
  "nibbles xs \<Longrightarrow> even_leaf (AList.update h (Leaf (from_nibbles (drop m xs)) v) ns) h"
  by (auto simp: even_leaf_def AList.update_conv')

text \<open>Lookups in a subtree lose the longer keys, and find \<open>w\<close> for the prefix \<open>p\<close>.\<close>

definition lost :: "u8 list \<Rightarrow> bytes \<Rightarrow> h256 option \<Rightarrow> node_store \<Rightarrow> bool" where
  "lost p w r st \<longleftrightarrow> (\<exists>h. r = Some h \<and>
     (\<forall>key. nibbles key \<longrightarrow> even (length key) \<longrightarrow> length p < length key \<longrightarrow>
       fst (get_recursive (fuel_for st) (nodes st) h key) = Ok None) \<and>
     (even (length p) \<longrightarrow> fst (get_recursive (fuel_for st) (nodes st) h p) = Ok (Some w)))"

lemma two_children: "no_children[a := Some x, b := Some y] ! i = Some c \<Longrightarrow> i < 16 \<Longrightarrow> c = x \<or> c = y"
  by (cases "a < 16"; cases "b < 16") (auto simp: no_children_def nth_list_update split: if_splits)

lemma two_le: "2 \<le> n \<Longrightarrow> \<exists>f. n = Suc (Suc f)"
  by (intro exI [of _ "n - 2"]) simp

lemma two_leaves:
  assumes "separates hash" "nibbles as" "nibbles bs" "c < length as" "c < length bs"
    and st: "nodes st = [(hash leaf, leaf)]" "kind leaf = 1"
  shows "\<exists>r st'. split_and_insert hash as v bs (Some w) c st = (Ok r, st') \<and> lost (take c as) w r st'"
proof -
  let ?A = "Leaf (from_nibbles (drop (c + 1) as)) v" and ?B = "Leaf (from_nibbles (drop (c + 1) bs)) w"
  let ?cs = "no_children[unat (as ! c) := Some (hash ?A), unat (bs ! c) := Some (hash ?B)]"
  let ?N = "Branch ?cs (Some w)" and ?E = "Extension (from_nibbles (take c as)) (hash (Branch ?cs (Some w)))"
  let ?ns = "AList.update (hash ?N) ?N (AList.update (hash ?B) ?B (AList.update (hash ?A) ?A (nodes st)))"
  have sep: "hash n \<noteq> hash m" if "kind n \<noteq> kind m" for n m
    using assms(1) that unfolding separates_def by blast
  have leaves: "map_of ns (hash ?N) = Some ?N \<and> even_leaf ns (hash ?A) \<and> even_leaf ns (hash ?B)"
    if "ns = ?ns \<or> ns = AList.update (hash ?E) ?E ?ns" for ns
  proof -
    let ?sa = "AList.update (hash ?A) ?A (nodes st)"
    have "even_leaf ?sa (hash ?A)" by (rule even_leaf_update(3) [OF assms(2)])
    then have "even_leaf (AList.update (hash ?B) ?B ?sa) (hash ?A)" by (rule even_leaf_update(2) [OF _ assms(3)])
    then have A: "even_leaf ?ns (hash ?A)" by (rule even_leaf_update(1)) (rule sep, simp)
    have "even_leaf (AList.update (hash ?B) ?B ?sa) (hash ?B)" by (rule even_leaf_update(3) [OF assms(3)])
    then have B: "even_leaf ?ns (hash ?B)" by (rule even_leaf_update(1)) (rule sep, simp)
    have "even_leaf (AList.update (hash ?E) ?E ?ns) (hash ?A)" by (rule even_leaf_update(1) [OF A]) (rule sep, simp)
    moreover have "even_leaf (AList.update (hash ?E) ?E ?ns) (hash ?B)" by (rule even_leaf_update(1) [OF B]) (rule sep, simp)
    ultimately show ?thesis
      using A B that sep [of ?E ?N] by (elim disjE) (simp_all add: AList.update_conv')
  qed
  have cs: "\<forall>i < 16. \<forall>x. ?cs ! i = Some x \<longrightarrow> even_leaf ns x"
    if "ns = ?ns \<or> ns = AList.update (hash ?E) ?E ?ns" for ns
    using leaves [OF that] two_children by blast
  have "hash ?N \<notin> fst ` set (AList.update (hash ?B) ?B (AList.update (hash ?A) ?A (nodes st)))"
    using sep [of ?N ?A] sep [of ?N ?B] sep [of ?N leaf] st by (auto simp: dom_update)
  then have two: "2 \<le> length ?ns"
    using length_update_ge [of "nodes st" "hash ?A" ?A] st(1)
      length_update_ge [of "AList.update (hash ?A) ?A (nodes st)" "hash ?B" ?B]
    by (simp add: length_update)
  obtain f where f: "length ?ns = Suc (Suc f)" using two_le [OF two] ..
  obtain g where g: "length (AList.update (hash ?E) ?E ?ns) = Suc (Suc g)"
    using two_le [OF order_trans [OF two length_update_ge]] ..
  have split: "split_and_insert hash as v bs (Some w) c st =
    (if 0 < c
     then (Ok (Some (hash ?E)), st\<lparr>nodes := AList.update (hash ?E) ?E ?ns, nodes_created := nodes_created st + 1 + 1 + 1 + 1\<rparr>)
     else (Ok (Some (hash ?N)), st\<lparr>nodes := ?ns, nodes_created := nodes_created st + 1 + 1 + 1\<rparr>))"
    using assms(4,5) by (simp add: split_and_insert_def Let_def add_child_def create_node_def put_node_def)
  show ?thesis
  proof (cases "c = 0")
    case True
    have N: "map_of ?ns (hash ?N) = Some ?N" using leaves by blast
    have "fst (get_recursive (Suc (Suc (Suc f))) ?ns (hash ?N) key) = Ok None"
      if "nibbles key" "even (length key)" "key \<noteq> []" for key
      using that by (intro branch_loses [OF N cs]) auto
    moreover have "fst (get_recursive (Suc (Suc (Suc f))) ?ns (hash ?N) []) = Ok (Some w)" by (rule branch_finds [OF N])
    ultimately have "lost (take c as) w (Some (hash ?N)) (st\<lparr>nodes := ?ns, nodes_created := nodes_created st + 1 + 1 + 1\<rparr>)"
      using f True by (simp add: lost_def fuel_for_def del: get_recursive.simps)
    with True split show ?thesis by simp
  next
    case False
    let ?nse = "AList.update (hash ?E) ?E ?ns"
    have E: "map_of ?nse (hash ?E) = Some ?E" by (simp add: AList.update_conv')
    have N: "map_of ?nse (hash ?N) = Some ?N" using leaves by blast
    have "fst (get_recursive (Suc (Suc (Suc g))) ?nse (hash ?E) key) = Ok None"
      if "nibbles key" "even (length key)" "c < length key" for key
      using that assms(2,4) length_to_from_le [of "take c as"] by (intro extension_loses [OF E _ N cs]) auto
    moreover have "fst (get_recursive (Suc (Suc (Suc g))) ?nse (hash ?E) (take c as)) = Ok (Some w)" if "even c"
    proof -
      have "to_nibbles (from_nibbles (take c as)) = take c as" using that assms(2,4) by (simp add: to_from_nibbles)
      from extension_finds [OF E N, unfolded this] show ?thesis .
    qed
    ultimately have "lost (take c as) w (Some (hash ?E)) (st\<lparr>nodes := ?nse, nodes_created := nodes_created st + 1 + 1 + 1 + 1\<rparr>)"
      using g assms(4) by (simp add: lost_def fuel_for_def del: get_recursive.simps)
    with False split show ?thesis by simp
  qed
qed

lemma common_nibbles:
  assumes "\<not> starts_with k1 k2" "\<not> starts_with k2 k1"
  shows "common_prefix_len (unpack k2) (unpack k1) < length (unpack k2)"
    "common_prefix_len (unpack k2) (unpack k1) < length (unpack k1)"
  using assms common_prefix_len_less [of "unpack k2" "unpack k1"] common_prefix_len_less [of "unpack k1" "unpack k2"]
  by (simp_all add: starts_with_unpack)

lemma two_updates:
  assumes "separates hash" "\<not> starts_with k1 k2" "\<not> starts_with k2 k1" "nodes st = []"
  shows "\<exists>r st'. apply_updates hash [\<lparr>upd_key = k1, upd_value = Some v1\<rparr>, \<lparr>upd_key = k2, upd_value = Some v2\<rparr>] None st
      = (Ok (), r, st') \<and>
    lost (take (common_prefix_len (unpack k2) (unpack k1)) (unpack k2)) v1 r st'"
proof -
  let ?L = "Leaf (from_nibbles (unpack k1)) v1" and ?c = "common_prefix_len (unpack k2) (unpack k1)"
  let ?st = "st\<lparr>nodes := [(hash ?L, ?L)], nodes_created := nodes_created st + 1\<rparr>"
  have c: "?c < length (unpack k2)" "?c < length (unpack k1)" using common_nibbles assms(2,3) by blast+
  obtain r st' where r: "split_and_insert hash (unpack k2) v2 (unpack k1) (Some v1) ?c ?st = (Ok r, st')"
      "lost (take ?c (unpack k2)) v1 r st'"
    using two_leaves [OF assms(1) nibbles_unpack nibbles_unpack c, of ?st ?L v2 v1] by auto
  have first: "apply_update hash \<lparr>upd_key = k1, upd_value = Some v1\<rparr> None st = (Ok (Some (hash ?L)), ?st)"
    by (simp add: apply_update_def fuel_for_def put_node_def create_node_def bytes_to_nibbles_def assms(4))
  have "apply_update hash \<lparr>upd_key = k2, upd_value = Some v2\<rparr> (Some (hash ?L)) ?st = (Ok r, st')"
    using c r(1) by (simp add: apply_update_def fuel_for_def bytes_to_nibbles_def to_from_nibbles Let_def)
  with first r(2) show ?thesis by simp
qed

lemma two_inserts:
  assumes "separates hash" "\<not> starts_with k1 k2" "\<not> starts_with k2 k1" "k1 \<le> k2"
    and "batch t = [a, b]" "{a, b} = {\<lparr>upd_key = k1, upd_value = Some v1\<rparr>, \<lparr>upd_key = k2, upd_value = Some v2\<rparr>}"
    and "root t = None" "nodes (store t) = []"
  shows "fst (commit_batch hash t) = Ok () \<and>
    cache_ok (snd (commit_batch hash t)) \<and>
    (\<forall>k. length (take (common_prefix_len (unpack k2) (unpack k1)) (unpack k2)) < 2 * length k \<longrightarrow>
      uncached_get k (snd (commit_batch hash t)) = Ok None) \<and>
    (\<forall>p. unpack p = take (common_prefix_len (unpack k2) (unpack k1)) (unpack k2) \<longrightarrow>
      uncached_get p (snd (commit_batch hash t)) = Ok (Some v1))"
proof -
  let ?p = "take (common_prefix_len (unpack k2) (unpack k1)) (unpack k2)"
  have "k1 \<noteq> k2" using assms(2) by (metis common_prefix_len_less(2) common_prefix_len_same less_irrefl)
  then have sorted: "sort_key upd_key (batch t) =
      [\<lparr>upd_key = k1, upd_value = Some v1\<rparr>, \<lparr>upd_key = k2, upd_value = Some v2\<rparr>]"
    using assms(4-6) by (auto simp: doubleton_eq_iff)
  obtain r st' where r: "apply_updates hash (sort_key upd_key (batch t)) (root t) (store t) = (Ok (), r, st')"
      "lost ?p v1 r st'"
    using two_updates [OF assms(1-3,8)] assms(7) sorted by metis
  have c: "commit_batch hash t = (Ok (), t\<lparr>batch := [], writes := writes t + of_nat (length (batch t)), root := r,
      store := st', cache := invalidate (cache t)\<rparr>)"
    using r(1) assms(5) by (simp add: commit_batch_def Let_def)
  obtain h where h: "r = Some h"
      "\<And>key. nibbles key \<Longrightarrow> even (length key) \<Longrightarrow> length ?p < length key \<Longrightarrow>
         fst (get_recursive (fuel_for st') (nodes st') h key) = Ok None"
      "even (length ?p) \<Longrightarrow> fst (get_recursive (fuel_for st') (nodes st') h ?p) = Ok (Some v1)"
    using r(2) unfolding lost_def by blast
  have "even (length ?p)" if "unpack p = ?p" for p using that by (metis dvd_triv_left length_unpack)
  then show ?thesis
    using h(2) [OF nibbles_unpack] h(3)
    by (auto simp: c uncached_get_def h(1) bytes_to_nibbles_def cache_ok_def invalidate_def)
qed

lemma common_prefix_len_append [simp]:
  "common_prefix_len (xs @ as) (xs @ bs) = length xs + common_prefix_len as bs"
  by (induction xs) simp_all

lemma unpack_append [simp]: "unpack (as @ bs) = unpack as @ unpack bs"
  by (simp add: unpack_def)

lemma starts_with_append [simp]: "starts_with (xs @ as) (xs @ bs) = starts_with as bs"
  by (induction xs) simp_all

lemma append_Cons_le: "a < b \<Longrightarrow> p @ a # as \<le> p @ b # bs" for a :: "'a :: linorder"
  by (induction p) auto

section \<open>The properties\<close>

text \<open>
  Packing nibbles into a path and unpacking them gives them back exactly when their number is even. A single
  nibble comes back as the empty path, and a longer odd path loses its first two nibbles and gains a zero.
\<close>

theorem nibble_path_roundtrip:
  assumes "list_all (\<lambda>n. n < 16) ns"
  shows "to_nibbles (from_nibbles ns) =
      (if even (length ns) then ns else if length ns = 1 then [] else drop 2 ns @ [0])
    \<and> (to_nibbles (from_nibbles ns) = ns \<longleftrightarrow> even (length ns))"
proof -
  have "to_nibbles (from_nibbles ns) = ns \<longleftrightarrow> even (length ns)"
    using even_to_nibbles [of ns] assms by (metis nibbles_def to_from_nibbles)
  then show ?thesis using to_from_nibbles [of ns] assms by (simp add: nibbles_def)
qed

theorem nibble_path_roundtrip_witness:
  "to_nibbles (from_nibbles [1, 2, 3]) = [3, 0] \<and> to_nibbles (from_nibbles [1, 2]) = [1, 2]"
  using nibble_path_roundtrip [of "[1, 2, 3]"] nibble_path_roundtrip [of "[1, 2]"] by simp

text \<open>
  Whatever calls a trie receives, every node of its store stays filed under its own hash: insertion, deletion,
  splits and merges, batches and panics never leave a node under a stale key.
\<close>

theorem trie_store_is_content_addressed:
  "case run (trie_step hash sha) cs trie_new of
     t \<Rightarrow> map_of (nodes (store t)) h = Some n \<longrightarrow> hash n = h"
proof -
  have "addressed hash (store (run (trie_step hash sha) cs trie_new))"
    by (rule trie_store.inv_run [OF _ run_ok_always]) (simp add: addressed_def trie_new_def)
  then show ?thesis by (auto simp: addressed_def dest!: map_of_SomeD)
qed

theorem trie_store_is_content_addressed_witness:
  "map_of (nodes (store (run (trie_step (\<lambda>n. 7) (\<lambda>k. 0)) [Trie_Insert [1] [2], Trie_Commit] trie_new))) 7
     = Some (Leaf (from_nibbles [0, 1]) [2])
   \<and> (\<lambda>n. 7 :: h256) (Leaf (from_nibbles [0, 1]) [2]) = 7"
proof -
  have "map_of (nodes (store (run (trie_step (\<lambda>n. 7) (\<lambda>k. 0)) [Trie_Insert [1] [2], Trie_Commit] trie_new))) 7
     = Some (Leaf (from_nibbles [0, 1]) [2])"
    by (simp add: trie_insert_def trie_new_def commit_batch_def apply_update_def fuel_for_def put_node_def
      create_node_def bytes_to_nibbles_def unpack_def)
  with trie_store_is_content_addressed [of "\<lambda>n. 7" "\<lambda>k. 0" "[Trie_Insert [1] [2], Trie_Commit]" 7]
  show ?thesis by simp
qed

text \<open>
  C6: the path cache is transparent: after every sequence of calls in which no commit panics, a lookup returns what
  walking the trie from its root returns, whether the path was cached or not, although a cached path is read
  without comparing the key.
\<close>

theorem path_cache_is_transparent:
  assumes "run_ok (trie_ok hash sha) (trie_step hash sha) cs trie_new"
  shows "case run (trie_step hash sha) cs trie_new of
    t \<Rightarrow> fst (trie_get sha key t) =
      (case root t of
         None \<Rightarrow> Ok None
       | Some h \<Rightarrow> fst (get_recursive (fuel_for (store t)) (nodes (store t)) h (bytes_to_nibbles key)))"
proof -
  have "cache_ok (run (trie_step hash sha) cs trie_new)"
    by (rule trie_cache.inv_run [OF _ assms]) (simp add: cache_ok_def trie_new_def cache_new_def)
  from trie_get_uncached [OF this] show ?thesis by (simp add: uncached_get_def)
qed

definition sample_trie :: trie where
  "sample_trie = run (trie_step (\<lambda>n. 7) (\<lambda>k. 0)) [Trie_Insert [1] [2], Trie_Commit, Trie_Get [1]] trie_new"

theorem path_cache_is_transparent_witness:
  "fst (trie_get (\<lambda>k. 0) [1] sample_trie) =
      (case root sample_trie of
         None \<Rightarrow> Ok None
       | Some h \<Rightarrow> fst (get_recursive (fuel_for (store sample_trie)) (nodes (store sample_trie)) h (bytes_to_nibbles [1])))
   \<and> map_of (cached_paths (cache sample_trie)) [1] = Some [7]"
proof -
  note evaluate = trie_ok_def trie_insert_def trie_new_def commit_batch_def apply_update_def fuel_for_def
    put_node_def create_node_def bytes_to_nibbles_def unpack_def trie_get_def Let_def to_nibbles_def from_nibbles_def
    cache_path_def invalidate_def cache_new_def
  have "run_ok (trie_ok (\<lambda>n. 7) (\<lambda>k. 0)) (trie_step (\<lambda>n. 7) (\<lambda>k. 0))
      [Trie_Insert [1] [2], Trie_Commit, Trie_Get [1]] trie_new"
    by (simp add: evaluate)
  from path_cache_is_transparent [OF this, of "[1]"]
  have "fst (trie_get (\<lambda>k. 0) [1] sample_trie) =
      (case root sample_trie of
         None \<Rightarrow> Ok None
       | Some h \<Rightarrow> fst (get_recursive (fuel_for (store sample_trie)) (nodes (store sample_trie)) h (bytes_to_nibbles [1])))"
    unfolding sample_trie_def .
  moreover have "map_of (cached_paths (cache sample_trie)) [1] = Some [7]"
    by (simp add: evaluate sample_trie_def)
  ultimately show ?thesis ..
qed

text \<open>
  C4: a trie whose writes all go to one key is a register. After any sequence of insertions and deletions of that key,
  commits, automatic commits and lookups of any keys, the next commit succeeds, and then the key reads as its
  last write and every other key as absent, for every hash function.
\<close>

theorem one_key_trie_is_a_register:
  assumes "\<forall>c \<in> set cs. key_call key c"
  shows "case commit_batch hash (run (trie_step hash sha) cs trie_new) of
    (r, t) \<Rightarrow> r = Ok () \<and> fst (trie_get sha k t) = Ok (if k = key then last_write cs None else None)"
proof -
  let ?t = "run (trie_step hash sha) cs trie_new"
  have "single_key_sim hash key None trie_new"
    by (simp add: single_key_sim_def single_key_inv_def trie_new_def cache_ok_def cache_new_def)
  from single_key_commit [OF single_key_run [OF this assms, of sha]]
  show ?thesis
    using single_key_get [of hash key "last_write cs None" "snd (commit_batch hash ?t)" k]
      trie_get_uncached [of "snd (commit_batch hash ?t)" sha k]
    by (auto simp: single_key_sim_def split: prod.split)
qed

theorem one_key_trie_is_a_register_witness:
  "fst (trie_get (\<lambda>k. 0) [1] (snd (commit_batch (\<lambda>n. 7) (run (trie_step (\<lambda>n. 7) (\<lambda>k. 0))
     [Trie_Insert [1] [5], Trie_Commit, Trie_Get [1], Trie_Insert [1] [6]] trie_new)))) = Ok (Some [6])"
  using one_key_trie_is_a_register
    [where cs = "[Trie_Insert [1] [5], Trie_Commit, Trie_Get [1], Trie_Insert [1] [6]]" and key = "[1]"
      and hash = "\<lambda>n. 7" and sha = "\<lambda>k. 0" and k = "[1]"]
  by (simp split: prod.splits)

text \<open>
  C5: two keys lose each other. When neither key is a prefix of the other, inserting both into an empty trie and
  committing succeeds, and then neither is found: the split takes one nibble off the keys, so their leaves get
  paths of odd length, which do not survive packing.
\<close>

theorem two_keys_lose_each_other:
  assumes "separates hash" "\<not> starts_with k1 k2" "\<not> starts_with k2 k1"
  shows "case commit_batch hash (snd (trie_insert hash k2 v2 (snd (trie_insert hash k1 v1 trie_new)))) of
    (r, t) \<Rightarrow> r = Ok () \<and> fst (trie_get sha k1 t) = Ok None \<and> fst (trie_get sha k2 t) = Ok None"
proof -
  let ?a = "\<lparr>upd_key = k1, upd_value = Some v1\<rparr>" and ?b = "\<lparr>upd_key = k2, upd_value = Some v2\<rparr>"
  let ?t = "snd (trie_insert hash k2 v2 (snd (trie_insert hash k1 v1 trie_new)))"
  have t: "batch ?t = [?a, ?b]" "root ?t = None" "nodes (store ?t) = []"
    by (simp_all add: trie_insert_def trie_new_def Let_def)
  consider "k1 \<le> k2" | "k2 \<le> k1" by (rule linear [THEN disjE])
  then show ?thesis
  proof cases
    case 1
    have "{?a, ?b} = {?a, ?b}" ..
    from two_inserts [OF assms 1 t(1) this t(2,3)] common_nibbles [OF assms(2,3)] trie_get_uncached
    show ?thesis by (auto split: prod.split)
  next
    case 2
    have "{?a, ?b} = {?b, ?a}" by (rule insert_commute)
    from two_inserts [OF assms(1,3,2) 2 t(1) this t(2,3)] common_nibbles [OF assms(3,2)] trie_get_uncached
    show ?thesis by (auto split: prod.split)
  qed
qed

lemma separates_kind: "separates (\<lambda>n. of_nat (kind n))"
  unfolding separates_def kind_def by (auto split: trie_node.splits)

theorem two_keys_lose_each_other_witness:
  "case commit_batch (\<lambda>n. of_nat (kind n)) (snd (trie_insert (\<lambda>n. of_nat (kind n)) [34] [2]
      (snd (trie_insert (\<lambda>n. of_nat (kind n)) [17] [1] trie_new)))) of
    (r, t) \<Rightarrow> r = Ok () \<and> fst (trie_get (\<lambda>k. 0) [17] t) = Ok None \<and> fst (trie_get (\<lambda>k. 0) [34] t) = Ok None"
  by (rule two_keys_lose_each_other [OF separates_kind]) simp_all

text \<open>
  A key that was never written can read as present. When two keys share their first bytes \<open>p\<close> and differ in the
  high nibble of the next one, then after both are committed the key \<open>p\<close> reads as the value of the smaller key,
  because the branch of a split keeps the value of the leaf it replaces.
\<close>

theorem shared_prefix_reads_as_present:
  assumes "separates hash" "drop_bit 4 a \<noteq> drop_bit 4 (b :: u8)" "a < b"
  shows "fst (trie_get sha p (snd (commit_batch hash (snd (trie_insert hash (p @ b # bs) v2
    (snd (trie_insert hash (p @ a # as) v1 trie_new))))))) = Ok (Some v1)"
proof -
  let ?k1 = "p @ a # as" and ?k2 = "p @ b # bs"
  let ?a = "\<lparr>upd_key = ?k1, upd_value = Some v1\<rparr>" and ?b = "\<lparr>upd_key = ?k2, upd_value = Some v2\<rparr>"
  let ?t = "snd (trie_insert hash ?k2 v2 (snd (trie_insert hash ?k1 v1 trie_new)))"
  have t: "batch ?t = [?a, ?b]" "root ?t = None" "nodes (store ?t) = []"
    by (simp_all add: trie_insert_def trie_new_def Let_def)
  have k: "\<not> starts_with ?k1 ?k2" "\<not> starts_with ?k2 ?k1" "?k1 \<le> ?k2"
    using assms(3) append_Cons_le [of a b p as bs] by auto
  have "common_prefix_len (unpack ?k2) (unpack ?k1) = length (unpack p)"
    using assms(2) by (simp add: unpack_def)
  with two_inserts [OF assms(1) k t(1) refl t(2,3)] trie_get_uncached show ?thesis by simp
qed

theorem shared_prefix_reads_as_present_witness:
  "fst (trie_get (\<lambda>k. 0) [] (snd (commit_batch (\<lambda>n. of_nat (kind n)) (snd (trie_insert (\<lambda>n. of_nat (kind n)) [34] [2]
    (snd (trie_insert (\<lambda>n. of_nat (kind n)) [17] [1] trie_new))))))) = Ok (Some [1])"
proof -
  have "drop_bit 4 (17 :: u8) \<noteq> drop_bit 4 34" "(17 :: u8) < 34" by (simp_all add: drop_bit_word_beyond)
  from shared_prefix_reads_as_present [OF separates_kind this, of "\<lambda>k. 0" "[]" "[]" "[2]" "[]" "[1]"]
  show ?thesis by simp
qed

end
