(* ===== verification/Executor.thy ===== *)
theory Executor
  imports StateDB
begin

text \<open>
  Execution of transactions: \<^verbatim>\<open>src/state_machine/executor.rs\<close> with the errors of \<^verbatim>\<open>src/state_machine/mod.rs\<close>. One transaction is
  a part that reads the database (\<open>tx_plan\<close>: validation and the computed state changes) and a part that writes the
  changes; a block is analysed for dependencies, cut into groups, and each group is run by workers whose
  steps, one for every awaited call of the database, interleave.

  SHA-256, the decoding of accounts, the coins of the cache eviction and the clock are arguments.
\<close>

section \<open>Errors, gas and addresses\<close>

datatype sm_error =
    InvalidTransaction string
  | InsufficientBalance
  | GasLimitExceeded
  | StateNotFound
  | ExecutionFailed string
  | StorageError string

definition max_parallel_workers :: nat where
  "max_parallel_workers = 16"

definition estimate_contract_gas :: "u8 list \<Rightarrow> u64" where
  "estimate_contract_gas data = 32000 + of_nat (length data) * 68"

definition calculate_contract_address :: "(u8 list \<Rightarrow> h256) \<Rightarrow> address \<Rightarrow> u64 \<Rightarrow> address" where
  "calculate_contract_address sha creator nonce = ucast (sha (be_bytes 20 creator @ be_bytes 8 nonce))"

definition hash_code :: "(u8 list \<Rightarrow> h256) \<Rightarrow> u8 list \<Rightarrow> h256" where
  "hash_code sha c = sha c"

text \<open>\<^verbatim>\<open>{:?}\<close> of an address.\<close>

definition show_byte :: "u8 \<Rightarrow> string" where
  "show_byte b =
     (let n = unat b; digit = (\<lambda>d. char_of (48 + d))
      in if n < 10 then [digit n]
         else if n < 100 then [digit (n div 10), digit (n mod 10)]
         else [digit (n div 100), digit (n div 10 mod 10), digit (n mod 10)])"

fun show_bytes :: "u8 list \<Rightarrow> string" where
  "show_bytes [] = ''''"
| "show_bytes [b] = show_byte b"
| "show_bytes (b # c # bs) = show_byte b @ '', '' @ show_bytes (c # bs)"

definition show_address :: "address \<Rightarrow> string" where
  "show_address a = ''['' @ show_bytes (be_bytes 20 a) @ '']''"

section \<open>One transaction\<close>

type_synonym 'a sm_result = "(sm_error, 'a) outcome \<times> state_db"

definition validate_transaction ::
  "(u8 list \<Rightarrow> account option) \<Rightarrow> state_tx \<Rightarrow> state_db \<Rightarrow> unit sm_result" where
  "validate_transaction dec tx s =
     (if \<not> verify_signature tx then (Err (InvalidTransaction ''Invalid signature''), s)
      else case db_get_account dec (stx_from tx) s of
        (None, s) \<Rightarrow> (Err StateNotFound, s)
      | (Some acc, s) \<Rightarrow>
          if acc_nonce acc \<noteq> stx_nonce tx then (Err (InvalidTransaction ''Invalid nonce''), s)
          else or_panic s (total_cost tx) (\<lambda>cost.
            if acc_balance acc < cost then (Err InsufficientBalance, s)
            else if stx_gas_limit tx < 21000 then (Err (InvalidTransaction ''Gas limit too low''), s)
            else (Ok (), s)))"

text \<open>The changes a transaction wants to write (in the iteration order of the map), the gas it used and its logs.\<close>

record tx_plan =
  plan_changes :: "(address \<times> account) list"
  plan_gas :: u64
  plan_logs :: "string list"

text \<open>The refund of unused gas, the last part of the plan.\<close>

definition refund_gas ::
  "state_tx \<Rightarrow> u64 \<Rightarrow> string list \<Rightarrow> (address \<times> account) list \<Rightarrow> state_db \<Rightarrow> tx_plan sm_result" where
  "refund_gas tx gas ls changes s =
     (let refund = stx_gas_limit tx - gas in
      if 0 < refund
      then or_panic s (do { acc \<leftarrow> map_of changes (stx_from tx);
                            r \<leftarrow> umul (ucast refund) (ucast (stx_gas_price tx));
                            b \<leftarrow> uadd (acc_balance acc) r;
                            Some (acc\<lparr>acc_balance := b\<rparr>) })
             (\<lambda>acc. (Ok \<lparr> plan_changes = AList.update (stx_from tx) acc changes, plan_gas = gas, plan_logs = ls \<rparr>, s))
      else (Ok \<lparr> plan_changes = changes, plan_gas = gas, plan_logs = ls \<rparr>, s))"

text \<open>The three kinds of transaction, after the sender has paid.\<close>

definition call_gas :: "state_tx \<Rightarrow> bool \<Rightarrow> u64" where
  "call_gas tx is_c = (if is_c then 21000 + estimate_contract_gas (stx_data tx) else 21000)"

definition plan_credit ::
  "(u8 list \<Rightarrow> account option) \<Rightarrow> state_tx \<Rightarrow> address \<Rightarrow> bool \<Rightarrow> (address \<times> account) list \<Rightarrow> state_db \<Rightarrow> tx_plan sm_result" where
  "plan_credit dec tx to is_c changes s =
     (let ls = (if is_c then [''Contract executed: '' @ show_address to] else []) in
      case db_get_account dec to s of (found, s) \<Rightarrow>
        let acc = (case found of None \<Rightarrow> account_new 0 | Some x \<Rightarrow> x)
        in or_panic s (uadd (acc_balance acc) (ucast (stx_value tx))) (\<lambda>b.
             refund_gas tx (call_gas tx is_c) ls (AList.update to (acc\<lparr>acc_balance := b\<rparr>) changes) s))"

definition plan_transfer ::
  "(u8 list \<Rightarrow> account option) \<Rightarrow> state_tx \<Rightarrow> address \<Rightarrow> (address \<times> account) list \<Rightarrow> state_db \<Rightarrow> tx_plan sm_result" where
  "plan_transfer dec tx to changes s =
     (case db_is_contract dec to s of (is_c, s) \<Rightarrow>
        if is_c \<and> stx_gas_limit tx < call_gas tx is_c then (Err GasLimitExceeded, s)
        else plan_credit dec tx to is_c changes s)"

definition plan_creation ::
  "(u8 list \<Rightarrow> h256) \<Rightarrow> state_tx \<Rightarrow> u64 \<Rightarrow> (address \<times> account) list \<Rightarrow> state_db \<Rightarrow> tx_plan sm_result" where
  "plan_creation sha tx nonce changes s =
     (let gas = 21000 + estimate_contract_gas (stx_data tx) * 2 in
      if stx_gas_limit tx < gas then (Err GasLimitExceeded, s)
      else
        let ca = calculate_contract_address sha (stx_from tx) nonce;
            acc = (account_new (ucast (stx_value tx)))\<lparr>code_hash := Some (hash_code sha (stx_data tx))\<rparr>
        in refund_gas tx gas [''Contract created: '' @ show_address ca] (AList.update ca acc changes) s)"

definition charge_sender ::
  "(u8 list \<Rightarrow> account option) \<Rightarrow> state_tx \<Rightarrow> state_db \<Rightarrow> account sm_result" where
  "charge_sender dec tx s =
     (case db_get_account dec (stx_from tx) s of
        (None, s) \<Rightarrow> (Err StateNotFound, s)
      | (Some acc, s) \<Rightarrow>
          or_panic s (total_cost tx) (\<lambda>cost.
            if acc_balance acc < cost then (Err InsufficientBalance, s)
            else (Ok (acc\<lparr>acc_balance := acc_balance acc - cost, acc_nonce := acc_nonce acc + 1\<rparr>), s)))"

definition plan_transaction ::
  "(u8 list \<Rightarrow> h256) \<Rightarrow> (u8 list \<Rightarrow> account option) \<Rightarrow> state_tx \<Rightarrow> state_db \<Rightarrow> tx_plan sm_result" where
  "plan_transaction sha dec tx s =
     and_then (validate_transaction dec tx s) (\<lambda>_ s.
       and_then (charge_sender dec tx s) (\<lambda>acc s.
         case stx_to tx of
           Some to \<Rightarrow> plan_transfer dec tx to [(stx_from tx, acc)] s
         | None \<Rightarrow> plan_creation sha tx (acc_nonce acc - 1) [(stx_from tx, acc)] s))"

text \<open>Writing the changes; the coins of the eviction are those of the account written.\<close>

fun apply_changes :: "(address \<Rightarrow> bool list) \<Rightarrow> (address \<times> account) list \<Rightarrow> state_db \<Rightarrow> unit sm_result" where
  "apply_changes coins [] s = (Ok (), s)"
| "apply_changes coins ((a, acc) # cs) s =
     (case db_set_account (coins a) a acc s of
        (Ok _, s') \<Rightarrow> apply_changes coins cs s'
      | (Err _, s') \<Rightarrow> (Panic, s')
      | (Panic, s') \<Rightarrow> (Panic, s')
      | (Hang, s') \<Rightarrow> (Hang, s'))"

definition receipt_of :: "(u8 list \<Rightarrow> h256) \<Rightarrow> u64 \<Rightarrow> state_tx \<Rightarrow> tx_plan \<Rightarrow> tx_receipt" where
  "receipt_of sha us tx p =
     \<lparr> receipt_hash = state_tx_hash sha tx, receipt_from = stx_from tx, receipt_to = stx_to tx,
       gas_used = plan_gas p, receipt_status = True, logs = plan_logs p, execution_time_us = us \<rparr>"

definition execute_single_transaction ::
  "(u8 list \<Rightarrow> h256) \<Rightarrow> (u8 list \<Rightarrow> account option) \<Rightarrow> (address \<Rightarrow> bool list) \<Rightarrow> u64 \<Rightarrow> state_tx \<Rightarrow> state_db
     \<Rightarrow> tx_receipt sm_result" where
  "execute_single_transaction sha dec coins us tx s =
     and_then (plan_transaction sha dec tx s) (\<lambda>p s.
       and_then (apply_changes coins (plan_changes p) s) (\<lambda>_ s. (Ok (receipt_of sha us tx p), s)))"

section \<open>One transaction among others\<close>

text \<open>
  The same transaction where other tasks use the database in between: every awaited call of the database is a step of
  its own. The account of the sender is looked up when the transaction is validated and again when it is charged; then
  the recipient is looked up twice (is it a contract, and its account); then the changes are written one by one.
\<close>

datatype tx_run =
    Validating state_tx
  | Charging state_tx
  | Calling state_tx address "(address \<times> account) list"
  | Crediting state_tx address bool "(address \<times> account) list"
  | Writing "(address \<times> account) list" tx_receipt
  | Finished "(sm_error, tx_receipt) outcome"

fun on_ok :: "(sm_error, 'a) outcome \<Rightarrow> ('a \<Rightarrow> tx_run) \<Rightarrow> tx_run" where
  "on_ok (Ok x) f = f x"
| "on_ok (Err e) f = Finished (Err e)"
| "on_ok Panic f = Finished Panic"
| "on_ok Hang f = Finished Hang"

definition write_plan :: "(u8 list \<Rightarrow> h256) \<Rightarrow> u64 \<Rightarrow> state_tx \<Rightarrow> tx_plan \<Rightarrow> tx_run" where
  "write_plan sha us tx p = Writing (plan_changes p) (receipt_of sha us tx p)"

fun tx_step ::
  "(u8 list \<Rightarrow> h256) \<Rightarrow> (u8 list \<Rightarrow> account option) \<Rightarrow> (address \<Rightarrow> bool list) \<Rightarrow> u64 \<Rightarrow> tx_run \<Rightarrow> state_db
     \<Rightarrow> tx_run \<times> state_db" where
  "tx_step sha dec coins us (Validating tx) s =
     (case validate_transaction dec tx s of (r, s) \<Rightarrow> (on_ok r (\<lambda>_. Charging tx), s))"
| "tx_step sha dec coins us (Charging tx) s =
     (case charge_sender dec tx s of (r, s) \<Rightarrow>
        (on_ok r (\<lambda>acc. case stx_to tx of
             Some to \<Rightarrow> Calling tx to [(stx_from tx, acc)]
           | None \<Rightarrow> on_ok (fst (plan_creation sha tx (acc_nonce acc - 1) [(stx_from tx, acc)] s)) (write_plan sha us tx)), s))"
| "tx_step sha dec coins us (Calling tx to changes) s =
     (case db_is_contract dec to s of (is_c, s) \<Rightarrow>
        (if is_c \<and> stx_gas_limit tx < call_gas tx is_c then Finished (Err GasLimitExceeded)
         else Crediting tx to is_c changes, s))"
| "tx_step sha dec coins us (Crediting tx to is_c changes) s =
     (case plan_credit dec tx to is_c changes s of (r, s) \<Rightarrow> (on_ok r (write_plan sha us tx), s))"
| "tx_step sha dec coins us (Writing [] r) s = (Finished (Ok r), s)"
| "tx_step sha dec coins us (Writing ((a, acc) # cs) r) s =
     (case db_set_account (coins a) a acc s of
        (Ok _, s) \<Rightarrow> (Writing cs r, s)
      | (_, s) \<Rightarrow> (Finished Hang, s))"
| "tx_step sha dec coins us (Finished r) s = (Finished r, s)"

section \<open>Dependencies and groups\<close>

text \<open>
  The dependencies of the transactions by index. \<^verbatim>\<open>account_last_tx\<close> is the last transaction that touched an
  account; a recipient counts only when it is a contract.
\<close>

fun build_dependency_graph ::
  "(u8 list \<Rightarrow> account option) \<Rightarrow> nat \<Rightarrow> (address \<rightharpoonup> nat) \<Rightarrow> state_tx list \<Rightarrow> state_db \<Rightarrow> nat list list \<times> state_db" where
  "build_dependency_graph dec idx last_tx [] s = ([], s)"
| "build_dependency_graph dec idx last_tx (tx # txs) s =
     (let from_deps = (case last_tx (stx_from tx) of None \<Rightarrow> [] | Some i \<Rightarrow> [i]);
          last1 = last_tx(stx_from tx \<mapsto> idx)
      in case stx_to tx of
           None \<Rightarrow>
             (case build_dependency_graph dec (Suc idx) last1 txs s of (g, s) \<Rightarrow> (from_deps # g, s))
         | Some to \<Rightarrow>
             (case db_is_contract dec to s of (is_c, s) \<Rightarrow>
                let deps = from_deps @ (if is_c then (case last1 to of None \<Rightarrow> [] | Some i \<Rightarrow> [i]) else []);
                    last2 = (if is_c then last1(to \<mapsto> idx) else last1)
                in (case build_dependency_graph dec (Suc idx) last2 txs s of (g, s) \<Rightarrow> (deps # g, s))))"

text \<open>One pass over the transactions not processed yet. \<open>None\<close> is an index out of range, which panics.\<close>

fun group_pass ::
  "nat list list \<Rightarrow> nat \<Rightarrow> state_tx list \<Rightarrow> bool list \<Rightarrow> state_tx list \<Rightarrow> (bool list \<times> state_tx list) option" where
  "group_pass graph idx [] processed chosen = Some (processed, chosen)"
| "group_pass graph idx (tx # txs) processed chosen =
     (if processed ! idx then group_pass graph (Suc idx) txs processed chosen
      else if \<not> idx < length graph \<or> \<not> list_all (\<lambda>d. d < length processed) (graph ! idx) then None
      else if list_all (\<lambda>d. processed ! d) (graph ! idx)
      then group_pass graph (Suc idx) txs (processed[idx := True]) (chosen @ [tx])
      else group_pass graph (Suc idx) txs processed chosen)"

text \<open>The loop ends with the first pass that finds nothing; every other pass processes a transaction.\<close>

lemma count_False_update:
  "i < length bs \<Longrightarrow> \<not> bs ! i \<Longrightarrow> count_list bs False = Suc (count_list (bs[i := True]) False)"
proof (induction bs arbitrary: i)
  case (Cons b bs)
  then show ?case by (cases i) auto
qed simp

lemma group_pass_grows:
  "group_pass graph idx txs processed chosen = Some (processed', chosen') \<Longrightarrow> idx + length txs \<le> length processed \<Longrightarrow>
     length processed' = length processed \<and>
     count_list processed' False + length chosen' = count_list processed False + length chosen"
proof (induction graph idx txs processed chosen rule: group_pass.induct)
  case (2 graph idx tx txs processed chosen)
  have "count_list processed False = Suc (count_list (processed[idx := True]) False)" if "\<not> processed ! idx"
    using that "2.prems"(2) by (intro count_False_update) simp_all
  with 2 show ?case by (auto split: if_splits)
qed simp

function group_loop :: "nat list list \<Rightarrow> state_tx list \<Rightarrow> bool list \<Rightarrow> state_tx list list option" where
  "group_loop graph txs processed =
     (if length processed \<noteq> length txs then None
      else case group_pass graph 0 txs processed [] of
        None \<Rightarrow> None
      | Some (processed', chosen) \<Rightarrow>
          if chosen = [] then Some []
          else map_option (Cons chosen) (group_loop graph txs processed'))"
  by pat_completeness auto
termination
proof (relation "measure (\<lambda>(_, _, processed). count_list processed False)", goal_cases)
  case (2 graph txs processed p processed' chosen)
  then show ?case
    using group_pass_grows [of graph 0 txs processed "[]" processed' chosen] by (cases chosen) simp_all
qed simp

declare group_loop.simps [simp del]

definition group_by_dependency :: "state_tx list \<Rightarrow> nat list list \<Rightarrow> state_tx list list option" where
  "group_by_dependency txs graph = group_loop graph txs (replicate (length txs) False)"

section \<open>A group and its workers\<close>

text \<open>
  A pool of workers over a shared state. A schedule is a list of worker numbers: the chosen worker makes its next step.
\<close>

definition pool_step :: "('w \<Rightarrow> 's \<Rightarrow> 'w \<times> 's) \<Rightarrow> nat \<Rightarrow> 'w list \<times> 's \<Rightarrow> 'w list \<times> 's" where
  "pool_step move i = (\<lambda>(ws, s). if i < length ws then case move (ws ! i) s of (w, s') \<Rightarrow> (ws[i := w], s') else (ws, s))"

text \<open>
  The workers of a group take transactions from one channel, in its order. A worker whose transaction panics or is
  suspended stays there for ever; one that finds the channel empty has returned.
\<close>

datatype group_worker =
    Receiving
  | Running state_tx tx_run
  | Returned

record group_run =
  group_queue :: "state_tx list"
  results :: "(sm_error, tx_receipt) outcome list"
  shared_db :: state_db

fun worker_step ::
  "(u8 list \<Rightarrow> h256) \<Rightarrow> (u8 list \<Rightarrow> account option) \<Rightarrow> (address \<Rightarrow> bool list) \<Rightarrow> u64 \<Rightarrow> group_worker \<Rightarrow> group_run
     \<Rightarrow> group_worker \<times> group_run" where
  "worker_step sha dec coins us Receiving g =
     (case group_queue g of
        [] \<Rightarrow> (Returned, g)
      | tx # txs \<Rightarrow> (Running tx (Validating tx), g\<lparr>group_queue := txs\<rparr>))"
| "worker_step sha dec coins us (Running tx (Finished r)) g =
     (case r of
        Ok _ \<Rightarrow> (Receiving, g\<lparr>results := results g @ [r]\<rparr>)
      | Err _ \<Rightarrow> (Receiving, g\<lparr>results := results g @ [r]\<rparr>)
      | _ \<Rightarrow> (Running tx (Finished r), g))"
| "worker_step sha dec coins us (Running tx st) g =
     (case tx_step sha dec coins us st (shared_db g) of (st, s) \<Rightarrow> (Running tx st, g\<lparr>shared_db := s\<rparr>))"
| "worker_step sha dec coins us Returned g = (Returned, g)"

definition group_start :: "state_tx list \<Rightarrow> state_db \<Rightarrow> group_worker list \<times> group_run" where
  "group_start txs s =
     (replicate (min max_parallel_workers (length txs)) Receiving, \<lparr> group_queue = txs, results = [], shared_db = s \<rparr>)"

text \<open>
  The workers are awaited one after the other: the first one that panicked ends the caller with its panic, and the
  first one that never returns suspends it.
\<close>

fun join_workers :: "group_worker list \<Rightarrow> (sm_error, unit) outcome" where
  "join_workers [] = Ok ()"
| "join_workers (Returned # ws) = join_workers ws"
| "join_workers (Running tx (Finished Panic) # ws) = Panic"
| "join_workers (w # ws) = Hang"

text \<open>The results in the order they were sent; the first error is returned.\<close>

fun first_error :: "(sm_error, tx_receipt) outcome list \<Rightarrow> (sm_error, tx_receipt list) outcome" where
  "first_error [] = Ok []"
| "first_error (Ok r # rs) =
     (case first_error rs of Ok l \<Rightarrow> Ok (r # l) | Err e \<Rightarrow> Err e | Panic \<Rightarrow> Panic | Hang \<Rightarrow> Hang)"
| "first_error (Err e # rs) = Err e"
| "first_error (Panic # rs) = Panic"
| "first_error (Hang # rs) = Hang"

definition collect_results :: "group_worker list \<times> group_run \<Rightarrow> (sm_error, tx_receipt list) outcome" where
  "collect_results = (\<lambda>(ws, g).
     case join_workers ws of Ok _ \<Rightarrow> first_error (results g) | Err e \<Rightarrow> Err e | Panic \<Rightarrow> Panic | Hang \<Rightarrow> Hang)"

definition execute_group_parallel ::
  "(u8 list \<Rightarrow> h256) \<Rightarrow> (u8 list \<Rightarrow> account option) \<Rightarrow> (address \<Rightarrow> bool list) \<Rightarrow> u64 \<Rightarrow> nat list \<Rightarrow> state_tx list \<Rightarrow> state_db
     \<Rightarrow> tx_receipt list sm_result" where
  "execute_group_parallel sha dec coins us sched txs s =
     (let g = run (pool_step (worker_step sha dec coins us)) sched (group_start txs s)
      in (collect_results g, shared_db (snd g)))"

section \<open>A block\<close>

record state_machine =
  sm_db :: state_db
  tx_pool :: "state_tx list"
  sm_receipts :: "h256 \<rightharpoonup> tx_receipt"
  total_transactions :: u64
  successful_transactions :: u64
  failed_transactions :: u64
  total_gas_used :: u64
  average_execution_time_us :: u64

definition state_machine_new :: "(string \<rightharpoonup> u8 list) \<Rightarrow> state_machine" where
  "state_machine_new be = \<lparr> sm_db = db_new be, tx_pool = [], sm_receipts = Map.empty, total_transactions = 0,
     successful_transactions = 0, failed_transactions = 0, total_gas_used = 0, average_execution_time_us = 0 \<rparr>"

text \<open>The groups one after the other, each with its own schedule.\<close>

fun execute_groups ::
  "(u8 list \<Rightarrow> h256) \<Rightarrow> (u8 list \<Rightarrow> account option) \<Rightarrow> (address \<Rightarrow> bool list) \<Rightarrow> u64 \<Rightarrow> (nat \<Rightarrow> nat list) \<Rightarrow> nat
     \<Rightarrow> state_tx list list \<Rightarrow> state_db \<Rightarrow> tx_receipt list sm_result" where
  "execute_groups sha dec coins us scheds n [] s = (Ok [], s)"
| "execute_groups sha dec coins us scheds n (g # gs) s =
     and_then (execute_group_parallel sha dec coins us (scheds n) g s) (\<lambda>rs s.
       and_then (execute_groups sha dec coins us scheds (Suc n) gs s) (\<lambda>rs' s. (Ok (rs @ rs'), s)))"

text \<open>The average divides the elapsed time by the number of transactions.\<close>

definition execute_transactions_parallel ::
  "(u8 list \<Rightarrow> h256) \<Rightarrow> (u8 list \<Rightarrow> account option) \<Rightarrow> (address \<Rightarrow> bool list) \<Rightarrow> u64 \<Rightarrow> (nat \<Rightarrow> nat list)
     \<Rightarrow> state_tx list \<Rightarrow> state_machine \<Rightarrow> (sm_error, tx_receipt list) outcome \<times> state_machine" where
  "execute_transactions_parallel sha dec coins us scheds txs m =
     (case build_dependency_graph dec 0 Map.empty txs (sm_db m) of (graph, s) \<Rightarrow>
        case group_by_dependency txs graph of
          None \<Rightarrow> (Panic, m\<lparr>sm_db := s\<rparr>)
        | Some groups \<Rightarrow>
            (case execute_groups sha dec coins us scheds 0 groups s of
               (Ok rs, s) \<Rightarrow>
                 if txs = [] then (Panic, m\<lparr>sm_db := s\<rparr>)
                 else (Ok rs, m\<lparr>sm_db := s, average_execution_time_us := us div of_nat (length txs)\<rparr>)
             | (r, s) \<Rightarrow> (r, m\<lparr>sm_db := s\<rparr>)))"

definition get_state :: "(u8 list \<Rightarrow> account option) \<Rightarrow> address \<Rightarrow> state_machine \<Rightarrow> account option \<times> state_machine" where
  "get_state dec a m = (case db_get_account dec a (sm_db m) of (r, s) \<Rightarrow> (r, m\<lparr>sm_db := s\<rparr>))"

definition commit_state ::
  "(account \<Rightarrow> u8 list) \<Rightarrow> h256 \<Rightarrow> state_machine \<Rightarrow> (unit, unit) outcome \<times> state_machine" where
  "commit_state enc h m = (case db_commit enc h (sm_db m) of (r, s) \<Rightarrow> (r, m\<lparr>sm_db := s\<rparr>))"

definition rollback_state :: "h256 \<Rightarrow> state_machine \<Rightarrow> (unit, unit) outcome \<times> state_machine" where
  "rollback_state h m = (case db_rollback h (sm_db m) of (r, s) \<Rightarrow> (r, m\<lparr>sm_db := s\<rparr>))"

end
