(* ===== verification/ParallelExec.thy ===== *)
theory ParallelExec
  imports Executor
begin

text \<open>
  The parallel executor of \<^verbatim>\<open>src/state_machine/parallel.rs\<close>: read and write sets, the conflict graph, the layered sort of the
  tasks, and the conflict detector.

  The hash maps and sets the code iterates over are lists; their order is the (unspecified) iteration order. The tasks
  of a batch are taken by workers whose steps interleave: checking a lock, taking it, every awaited call of the database
  and releasing a lock are steps of their own.
\<close>

section \<open>Tasks\<close>

record exec_task =
  task_id :: nat
  task_tx :: state_tx
  read_set :: "address list"
  write_set :: "address list"

definition predict_accessed_accounts :: "u8 list \<Rightarrow> address list option" where
  "predict_accessed_accounts data =
     (if 24 \<le> length data then Some [fold (\<lambda>b a. a * 256 + ucast b) (take 20 (drop 4 data)) 0] else None)"

definition analyze_transaction ::
  "(u8 list \<Rightarrow> account option) \<Rightarrow> nat \<Rightarrow> state_tx \<Rightarrow> state_db \<Rightarrow> exec_task \<times> state_db" where
  "analyze_transaction dec i tx s =
     (case stx_to tx of
        None \<Rightarrow> (\<lparr> task_id = i, task_tx = tx, read_set = [stx_from tx], write_set = [stx_from tx] \<rparr>, s)
      | Some to \<Rightarrow>
          (case db_is_contract dec to s of (is_c, s) \<Rightarrow>
             let predicted = (case predict_accessed_accounts (stx_data tx) of None \<Rightarrow> [] | Some l \<Rightarrow> l);
                 rs = (if is_c then fold List.insert predicted (List.insert to [stx_from tx]) else [stx_from tx])
             in (\<lparr> task_id = i, task_tx = tx, read_set = rs, write_set = List.insert to [stx_from tx] \<rparr>, s)))"

fun analyze_transactions ::
  "(u8 list \<Rightarrow> account option) \<Rightarrow> nat \<Rightarrow> state_tx list \<Rightarrow> state_db \<Rightarrow> exec_task list \<times> state_db" where
  "analyze_transactions dec i [] s = ([], s)"
| "analyze_transactions dec i (tx # txs) s =
     (case analyze_transaction dec i tx s of (t, s) \<Rightarrow>
        case analyze_transactions dec (Suc i) txs s of (ts, s) \<Rightarrow> (t # ts, s))"

definition is_disjoint :: "address list \<Rightarrow> address list \<Rightarrow> bool" where
  "is_disjoint as bs \<longleftrightarrow> list_all (\<lambda>a. a \<notin> set bs) as"

definition has_conflict :: "exec_task \<Rightarrow> exec_task \<Rightarrow> bool" where
  "has_conflict t u \<longleftrightarrow>
     \<not> is_disjoint (write_set t) (write_set u) \<or>
     \<not> is_disjoint (read_set t) (write_set u) \<or>
     \<not> is_disjoint (write_set t) (read_set u)"

text \<open>The graph as a list: the earlier tasks that conflict with task \<open>i\<close>.\<close>

definition conflict_graph :: "exec_task list \<Rightarrow> nat list list" where
  "conflict_graph ts = map (\<lambda>i. filter (\<lambda>j. has_conflict (ts ! j) (ts ! i)) [0..<i]) [0..<length ts]"

section \<open>The layered sort\<close>

definition init_degrees :: "exec_task list \<Rightarrow> (nat \<times> nat) list" where
  "init_degrees ts = fold (\<lambda>t. AList.update (task_id t) 0) ts []"

text \<open>\<^verbatim>\<open>*in_degree.get_mut(&dep).unwrap() += 1\<close> for every dependency of every task.\<close>

fun count_degrees :: "nat list \<Rightarrow> (nat \<times> nat) list \<Rightarrow> (nat \<times> nat) list option" where
  "count_degrees [] deg = Some deg"
| "count_degrees (d # ds) deg =
     (if map_of deg d = None then None else count_degrees ds (AList.map_entry d Suc deg))"

definition deps_of :: "nat list list \<Rightarrow> nat \<Rightarrow> nat list" where
  "deps_of graph i = (if i < length graph then graph ! i else [])"

text \<open>A task that leaves is taken off the degrees of the tasks it depends on.\<close>

definition release :: "nat list list \<Rightarrow> nat \<Rightarrow> (nat \<times> nat) list \<Rightarrow> (nat \<times> nat) list" where
  "release graph i deg = fold (\<lambda>d. AList.map_entry d (\<lambda>n. n - 1)) (deps_of graph i) (AList.delete i deg)"

lemma length_map_entry [simp]: "length (AList.map_entry k f m) = length m"
  by (induction m) auto

lemma keys_map_entry [simp]: "map fst (AList.map_entry k f m) = map fst m"
  by (induction m) auto

lemma length_release: "length (release graph i deg) = length (AList.delete i deg)"
proof -
  have "length (fold (\<lambda>d. AList.map_entry d (\<lambda>n. n - 1)) ds m) = length m" for ds and m :: "(nat \<times> nat) list"
    by (induction ds arbitrary: m) simp_all
  then show ?thesis by (simp add: release_def)
qed

lemma length_fold_release: "length (fold (release graph) is deg) \<le> length deg"
proof (induction "is" arbitrary: deg)
  case (Cons i "is")
  have "length (release graph i deg) \<le> length deg" by (simp add: length_release length_delete_le)
  with Cons [of "release graph i deg"] show ?case by simp
qed simp

lemma fold_release_less:
  assumes "i \<in> fst ` set deg"
  shows "length (fold (release graph) (i # is) deg) < length deg"
proof -
  have "length (AList.delete i deg) < length deg"
    unfolding AList.delete_eq using assms by (auto intro!: length_filter_less)
  with length_fold_release [of graph "is" "release graph i deg"] show ?thesis
    by (simp add: length_release)
qed

text \<open>
  The loop. \<open>tmap\<close> are the tasks not scheduled yet. Without a task of degree zero some task is forced (a cycle).
\<close>

function topo_loop :: "nat list list \<Rightarrow> (nat \<times> nat) list \<Rightarrow> (nat \<rightharpoonup> exec_task) \<Rightarrow> exec_task list list" where
  "topo_loop graph [] tmap = []"
| "topo_loop graph (e # deg) tmap =
     (let ready = map fst (filter (\<lambda>(i, d). d = 0) (e # deg));
          found = List.map_filter tmap ready;
          forced = (if found = [] then [fst e] else []);
          batch = found @ List.map_filter tmap forced;
          gone = ready @ forced;
          later = topo_loop graph (fold (release graph) gone (e # deg)) (\<lambda>i. if i \<in> set gone then None else tmap i)
      in if batch = [] then later else batch # later)"
  by pat_completeness auto
termination
proof (relation "measure (\<lambda>(_, deg, _). length deg)", goal_cases)
  case (2 graph e deg tmap ready found forced batch gone)
  have "gone \<noteq> [] \<and> set gone \<subseteq> fst ` set (e # deg)"
    using 2 by (auto simp: map_filter_simps)
  then obtain i rest where "gone = i # rest" "i \<in> fst ` set (e # deg)" by (cases gone) auto
  with fold_release_less [of i "e # deg" graph rest] show ?case by simp
qed simp

declare topo_loop.simps(2) [simp del]

definition topological_sort :: "exec_task list \<Rightarrow> nat list list \<Rightarrow> exec_task list list option" where
  "topological_sort ts graph =
     map_option (\<lambda>deg. topo_loop graph deg (map_of (rev (map (\<lambda>t. (task_id t, t)) ts))))
       (count_degrees (concat graph) (init_degrees ts))"

section \<open>Locks\<close>

datatype lock_handle = Read_Lock address | Write_Lock address

record conflict_detector =
  read_locks :: "address \<rightharpoonup> nat list"
  write_locks :: "address \<rightharpoonup> nat"

definition detector_new :: conflict_detector where
  "detector_new = \<lparr> read_locks = Map.empty, write_locks = Map.empty \<rparr>"

definition lock_write :: "nat \<Rightarrow> address \<Rightarrow> conflict_detector \<Rightarrow> conflict_detector" where
  "lock_write i a c = c\<lparr>write_locks := (write_locks c)(a \<mapsto> i)\<rparr>"

definition lock_read :: "nat \<Rightarrow> address \<Rightarrow> conflict_detector \<Rightarrow> conflict_detector" where
  "lock_read i a c =
     c\<lparr>read_locks := (read_locks c)(a \<mapsto> (case read_locks c a of None \<Rightarrow> [] | Some l \<Rightarrow> l) @ [i])\<rparr>"

text \<open>Releasing a read lock keeps every reader whose number is not 0.\<close>

fun release_lock :: "lock_handle \<Rightarrow> conflict_detector \<Rightarrow> conflict_detector" where
  "release_lock (Write_Lock a) c = c\<lparr>write_locks := (write_locks c)(a := None)\<rparr>"
| "release_lock (Read_Lock a) c =
     c\<lparr>read_locks := (case read_locks c a of
         None \<Rightarrow> read_locks c
       | Some l \<Rightarrow> (read_locks c)(a \<mapsto> filter (\<lambda>i. i \<noteq> 0) l))\<rparr>"

section \<open>Execution\<close>

record task_result =
  res_id :: nat
  res_receipt :: "(sm_error, tx_receipt) outcome"
  res_changes :: "(address \<times> account) list"

record parallel_executor =
  detector :: conflict_detector
  worker_count :: nat
  pending_tasks :: "exec_task list"
  completed_results :: "task_result list"

definition parallel_executor_new :: "nat \<Rightarrow> parallel_executor" where
  "parallel_executor_new n = \<lparr> detector = detector_new, worker_count = n, pending_tasks = [], completed_results = [] \<rparr>"

text \<open>
  A worker of a batch: it takes a task, checks and takes the write locks one by one (waiting while another task holds
  one), takes the read locks, executes the transaction, collects the accounts of the write set, releases the locks and
  sends the result. A worker whose transaction panics or is suspended stays there for ever.
\<close>

datatype batch_worker =
    Awaiting
  | Locking exec_task "address list" "lock_handle list"
  | Taking exec_task address "address list" "lock_handle list"
  | Sharing exec_task "address list" "lock_handle list"
  | Executing exec_task "lock_handle list" tx_run
  | Collecting exec_task "lock_handle list" "(sm_error, tx_receipt) outcome" "address list" "(address \<times> account) list"
  | Releasing exec_task "lock_handle list" task_result
  | Exited

record batch_run =
  batch_queue :: "exec_task list"
  batch_locks :: conflict_detector
  batch_db :: state_db
  batch_results :: "task_result list"

fun batch_step ::
  "(u8 list \<Rightarrow> h256) \<Rightarrow> (u8 list \<Rightarrow> account option) \<Rightarrow> (address \<Rightarrow> bool list) \<Rightarrow> u64 \<Rightarrow> batch_worker \<Rightarrow> batch_run
     \<Rightarrow> batch_worker \<times> batch_run" where
  "batch_step sha dec coins us Awaiting g =
     (case batch_queue g of
        [] \<Rightarrow> (Exited, g)
      | t # ts \<Rightarrow> (Locking t (write_set t) [], g\<lparr>batch_queue := ts\<rparr>))"
| "batch_step sha dec coins us (Locking t [] ls) g =
     (Sharing t (filter (\<lambda>a. a \<notin> set (write_set t)) (read_set t)) ls, g)"
| "batch_step sha dec coins us (Locking t (a # as) ls) g =
     (if write_locks (batch_locks g) a \<noteq> None then (Locking t (a # as) ls, g) else (Taking t a as ls, g))"
| "batch_step sha dec coins us (Taking t a as ls) g =
     (Locking t as (ls @ [Write_Lock a]), g\<lparr>batch_locks := lock_write (task_id t) a (batch_locks g)\<rparr>)"
| "batch_step sha dec coins us (Sharing t [] ls) g = (Executing t ls (Validating (task_tx t)), g)"
| "batch_step sha dec coins us (Sharing t (a # as) ls) g =
     (Sharing t as (ls @ [Read_Lock a]), g\<lparr>batch_locks := lock_read (task_id t) a (batch_locks g)\<rparr>)"
| "batch_step sha dec coins us (Executing t ls (Finished r)) g =
     (case r of
        Ok _ \<Rightarrow> (Collecting t ls r (write_set t) [], g)
      | Err _ \<Rightarrow> (Collecting t ls r (write_set t) [], g)
      | _ \<Rightarrow> (Executing t ls (Finished r), g))"
| "batch_step sha dec coins us (Executing t ls st) g =
     (case tx_step sha dec coins us st (batch_db g) of (st, s) \<Rightarrow> (Executing t ls st, g\<lparr>batch_db := s\<rparr>))"
| "batch_step sha dec coins us (Collecting t ls r (a # as) cs) g =
     (case db_get_account dec a (batch_db g) of (found, s) \<Rightarrow>
        (Collecting t ls r as (case found of None \<Rightarrow> cs | Some acc \<Rightarrow> cs @ [(a, acc)]), g\<lparr>batch_db := s\<rparr>))"
| "batch_step sha dec coins us (Collecting t ls r [] cs) g =
     (Releasing t ls \<lparr> res_id = task_id t, res_receipt = r, res_changes = cs \<rparr>, g)"
| "batch_step sha dec coins us (Releasing t (l # ls) res) g =
     (Releasing t ls res, g\<lparr>batch_locks := release_lock l (batch_locks g)\<rparr>)"
| "batch_step sha dec coins us (Releasing t [] res) g = (Awaiting, g\<lparr>batch_results := batch_results g @ [res]\<rparr>)"
| "batch_step sha dec coins us Exited g = (Exited, g)"

definition batch_start ::
  "nat \<Rightarrow> exec_task list \<Rightarrow> conflict_detector \<Rightarrow> state_db \<Rightarrow> batch_worker list \<times> batch_run" where
  "batch_start n ts c s =
     (replicate (min n (length ts)) Awaiting,
      \<lparr> batch_queue = ts, batch_locks = c, batch_db = s, batch_results = [] \<rparr>)"

text \<open>The workers are awaited one after the other: a panic is passed on, one that never returns suspends the caller.\<close>

fun join_batch :: "batch_worker list \<Rightarrow> (unit, unit) outcome" where
  "join_batch [] = Ok ()"
| "join_batch (Exited # ws) = join_batch ws"
| "join_batch (Executing t ls (Finished Panic) # ws) = Panic"
| "join_batch (w # ws) = Hang"

text \<open>Receipts are kept and their changes written again; a transaction that was refused leaves nothing behind.\<close>

fun apply_results ::
  "(address \<Rightarrow> bool list) \<Rightarrow> task_result list \<Rightarrow> state_db \<Rightarrow> (unit, tx_receipt list) outcome \<times> state_db" where
  "apply_results coins [] s = (Ok [], s)"
| "apply_results coins (r # rs) s =
     (case res_receipt r of
        Ok rc \<Rightarrow>
          (case apply_changes coins (res_changes r) s of
             (Ok _, s) \<Rightarrow> and_then (apply_results coins rs s) (\<lambda>l s. (Ok (rc # l), s))
           | (_, s) \<Rightarrow> (Hang, s))
      | _ \<Rightarrow> apply_results coins rs s)"

definition execute_parallel_batch ::
  "(u8 list \<Rightarrow> h256) \<Rightarrow> (u8 list \<Rightarrow> account option) \<Rightarrow> (address \<Rightarrow> bool list) \<Rightarrow> u64 \<Rightarrow> nat \<Rightarrow> nat list
     \<Rightarrow> exec_task list \<Rightarrow> conflict_detector \<times> state_db
     \<Rightarrow> (unit, tx_receipt list) outcome \<times> conflict_detector \<times> state_db" where
  "execute_parallel_batch sha dec coins us n sched ts cs =
     (case run (pool_step (batch_step sha dec coins us)) sched (batch_start n ts (fst cs) (snd cs)) of (ws, g) \<Rightarrow>
        and_then (join_batch ws, batch_locks g, batch_db g) (\<lambda>_ (c, s).
          case apply_results coins (batch_results g) s of (res, s) \<Rightarrow> (res, c, s)))"

text \<open>The batches one after the other, each with its own schedule.\<close>

fun execute_batches ::
  "(u8 list \<Rightarrow> h256) \<Rightarrow> (u8 list \<Rightarrow> account option) \<Rightarrow> (address \<Rightarrow> bool list) \<Rightarrow> u64 \<Rightarrow> nat \<Rightarrow> (nat \<Rightarrow> nat list)
     \<Rightarrow> nat \<Rightarrow> exec_task list list \<Rightarrow> conflict_detector \<times> state_db
     \<Rightarrow> (unit, tx_receipt list) outcome \<times> conflict_detector \<times> state_db" where
  "execute_batches sha dec coins us n scheds k [] cs = (Ok [], cs)"
| "execute_batches sha dec coins us n scheds k (b # bs) cs =
     and_then (execute_parallel_batch sha dec coins us n (scheds k) b cs) (\<lambda>rs cs.
       and_then (execute_batches sha dec coins us n scheds (Suc k) bs cs) (\<lambda>rs' cs. (Ok (rs @ rs'), cs)))"

definition execute_batch ::
  "(u8 list \<Rightarrow> h256) \<Rightarrow> (u8 list \<Rightarrow> account option) \<Rightarrow> (address \<Rightarrow> bool list) \<Rightarrow> u64 \<Rightarrow> (nat \<Rightarrow> nat list)
     \<Rightarrow> state_tx list \<Rightarrow> parallel_executor \<times> state_db
     \<Rightarrow> (unit, tx_receipt list) outcome \<times> parallel_executor \<times> state_db" where
  "execute_batch sha dec coins us scheds txs es =
     (case analyze_transactions dec 0 txs (snd es) of (ts, s) \<Rightarrow>
        case topological_sort ts (conflict_graph ts) of
          None \<Rightarrow> (Panic, fst es, s)
        | Some batches \<Rightarrow>
            (case execute_batches sha dec coins us (worker_count (fst es)) scheds 0 batches (detector (fst es), s) of
               (r, c, s) \<Rightarrow> (r, (fst es)\<lparr>detector := c\<rparr>, s)))"

record executor_stats =
  stat_workers :: nat
  stat_pending :: nat
  stat_completed :: nat

text \<open>
  Both \<^verbatim>\<open>self.task_queue.lock()\<close> guards are temporaries of one expression, so the first is still held when the second is
  asked for.
\<close>

datatype pe_lock = Lock_task_queue

definition get_stats :: "parallel_executor \<Rightarrow> (unit, executor_stats) outcome" where
  "get_stats e =
     (if can_write [(Lock_task_queue, Write_Guard)] Lock_task_queue
      then Ok \<lparr> stat_workers = worker_count e, stat_pending = length (pending_tasks e),
        stat_completed = length (completed_results e) \<rparr>
      else Hang)"

end
