(* ===== verification/ExecutorProps.thy ===== *)
theory ExecutorProps
  imports Executor
begin

text \<open>
  What executing transactions does to the accounts, seen through the account map a database stands for: effects of one
  transaction on every branch, the groups of a block, and the schedules of a group.
\<close>

section \<open>The account map a database stands for\<close>

definition db_view :: "(u8 list \<Rightarrow> account option) \<Rightarrow> state_db \<Rightarrow> address \<rightharpoonup> account" where
  "db_view dec s a =
     (case map_of (accounts s) a of
        Some acc \<Rightarrow> Some acc
      | None \<Rightarrow> (case backend s (account_key a) of None \<Rightarrow> None | Some data \<Rightarrow> dec data))"

text \<open>A store with a cache in front of it, as its clients see it: lookups change nothing, writes overwrite.\<close>

locale cached_store =
  fixes get :: "'k \<Rightarrow> 's \<Rightarrow> 'v option \<times> 's"
    and put :: "'k \<Rightarrow> 'v \<Rightarrow> 's \<Rightarrow> ('e, unit) outcome \<times> 's"
    and view :: "'s \<Rightarrow> 'k \<rightharpoonup> 'v"
  assumes get_result: "fst (get k s) = view s k"
    and get_view: "view (snd (get k s)) = view s"
    and put_view: "view (snd (put k v s)) = (view s)(k \<mapsto> v)"
begin

definition put_all :: "('k \<times> 'v) list \<Rightarrow> 's \<Rightarrow> 's" where
  "put_all kvs s = fold (\<lambda>(k, v) s. snd (put k v s)) kvs s"

lemma get_pair: "get k s = (view s k, snd (get k s))"
  using get_result [of k s] by (metis prod.collapse)

lemma view_put_all: "distinct (map fst kvs) \<Longrightarrow> view (put_all kvs s) = view s ++ map_of kvs"
proof (induction kvs arbitrary: s)
  case (Cons kv kvs)
  obtain k v where kv: "kv = (k, v)" by (cases kv)
  with Cons.prems have "map_of kvs k = None" by (simp add: map_of_eq_None_iff)
  with Cons kv show ?case
    by (auto simp: put_all_def put_view map_add_def fun_eq_iff split: option.split)
qed (simp add: put_all_def)

end

lemma db_get_view [simp]: "fst (db_get_account dec a s) = db_view dec s a"
  by (simp add: db_get_account_def db_view_def split: option.split)

lemma db_view_get [simp]: "db_view dec (snd (db_get_account dec a s)) = db_view dec s"
  by (rule ext) (auto simp: db_get_account_def db_view_def update_conv split: option.split)

lemma db_view_set [simp]: "db_view dec (snd (db_set_account coins a acc s)) = (db_view dec s)(a \<mapsto> acc)"
  by (rule ext) (auto simp: db_set_account_def evict_cache_def Let_def db_view_def update_conv split: option.split)

interpretation account_store:
  cached_store "db_get_account dec" "\<lambda>a. db_set_account (coins a) a" "db_view dec" for dec coins
  by unfold_locales simp_all

lemma db_get_pair: "db_get_account dec a s = (db_view dec s a, snd (db_get_account dec a s))"
  by (rule account_store.get_pair)

lemma db_get_cases:
  obtains s' where "db_get_account dec a s = (db_view dec s a, s')" "db_view dec s' = db_view dec s"
  using db_get_pair db_view_get by metis

definition contract_at :: "(address \<rightharpoonup> account) \<Rightarrow> address \<Rightarrow> bool" where
  "contract_at V a = (case V a of None \<Rightarrow> False | Some acc \<Rightarrow> code_hash acc \<noteq> None)"

lemma db_is_contract_cases:
  obtains s' where "db_is_contract dec a s = (contract_at (db_view dec s) a, s')" "db_view dec s' = db_view dec s"
proof -
  obtain s' where "db_get_account dec a s = (db_view dec s a, s')" "db_view dec s' = db_view dec s"
    by (rule db_get_cases)
  then show thesis using that by (simp add: db_is_contract_def contract_at_def)
qed

section \<open>The plan as a function of the account map\<close>

definition validate_spec :: "state_tx \<Rightarrow> (address \<rightharpoonup> account) \<Rightarrow> (sm_error, account) outcome" where
  "validate_spec tx V =
     (if \<not> verify_signature tx then Err (InvalidTransaction ''Invalid signature'')
      else case V (stx_from tx) of
        None \<Rightarrow> Err StateNotFound
      | Some acc \<Rightarrow>
          if acc_nonce acc \<noteq> stx_nonce tx then Err (InvalidTransaction ''Invalid nonce'')
          else if unat (acc_balance acc) < unat (stx_value tx) + unat (stx_gas_limit tx) * unat (stx_gas_price tx)
          then Err InsufficientBalance
          else if stx_gas_limit tx < 21000 then Err (InvalidTransaction ''Gas limit too low'')
          else Ok acc)"

definition cost_of :: "state_tx \<Rightarrow> u256" where
  "cost_of tx = the (total_cost tx)"

lemma total_cost_of: "total_cost tx = Some (cost_of tx)"
  and unat_cost_of: "unat (cost_of tx) = unat (stx_value tx) + unat (stx_gas_limit tx) * unat (stx_gas_price tx)"
  using total_cost_exact [of tx] by (auto simp: cost_of_def)

definition charged :: "state_tx \<Rightarrow> account \<Rightarrow> account" where
  "charged tx acc = acc\<lparr>acc_balance := acc_balance acc - cost_of tx, acc_nonce := acc_nonce acc + 1\<rparr>"

definition refund_spec ::
  "state_tx \<Rightarrow> u64 \<Rightarrow> string list \<Rightarrow> (address \<times> account) list \<Rightarrow> (sm_error, tx_plan) outcome" where
  "refund_spec tx gas ls changes = fst (refund_gas tx gas ls changes (db_new Map.empty))"

definition transfer_spec ::
  "state_tx \<Rightarrow> address \<Rightarrow> (address \<times> account) list \<Rightarrow> (address \<rightharpoonup> account) \<Rightarrow> (sm_error, tx_plan) outcome" where
  "transfer_spec tx to changes V =
     (let is_c = contract_at V to;
          gas = (if is_c then 21000 + estimate_contract_gas (stx_data tx) else 21000);
          ls = (if is_c then [''Contract executed: '' @ show_address to] else []);
          acc = (case V to of None \<Rightarrow> account_new 0 | Some x \<Rightarrow> x)
      in if is_c \<and> stx_gas_limit tx < gas then Err GasLimitExceeded
         else (case uadd (acc_balance acc) (ucast (stx_value tx)) of
             None \<Rightarrow> Panic
           | Some b \<Rightarrow> refund_spec tx gas ls (AList.update to (acc\<lparr>acc_balance := b\<rparr>) changes)))"

definition plan_spec ::
  "(u8 list \<Rightarrow> h256) \<Rightarrow> state_tx \<Rightarrow> (address \<rightharpoonup> account) \<Rightarrow> (sm_error, tx_plan) outcome" where
  "plan_spec sha tx V =
     (case validate_spec tx V of
        Err e \<Rightarrow> Err e | Panic \<Rightarrow> Panic | Hang \<Rightarrow> Hang
      | Ok acc \<Rightarrow>
          let changes = [(stx_from tx, charged tx acc)] in
          case stx_to tx of
            None \<Rightarrow> fst (plan_creation sha tx (acc_nonce acc) changes (db_new Map.empty))
          | Some to \<Rightarrow> transfer_spec tx to changes V)"

lemma refund_gas_spec: "refund_gas tx gas ls changes s = (refund_spec tx gas ls changes, s)"
  by (auto simp: refund_spec_def refund_gas_def Let_def or_panic_def split: option.split)

lemma plan_creation_spec: "plan_creation sha tx n changes s = (fst (plan_creation sha tx n changes (db_new Map.empty)), s)"
  by (auto simp: plan_creation_def Let_def refund_gas_spec)

lemma validate_refines:
  obtains s' where "validate_transaction dec tx s =
      ((case validate_spec tx (db_view dec s) of Ok _ \<Rightarrow> Ok () | Err e \<Rightarrow> Err e | Panic \<Rightarrow> Panic | Hang \<Rightarrow> Hang), s')"
    "db_view dec s' = db_view dec s"
proof -
  obtain s' where g: "db_get_account dec (stx_from tx) s = (db_view dec s (stx_from tx), s')"
      "db_view dec s' = db_view dec s" by (rule db_get_cases)
  show thesis
  proof (cases "verify_signature tx")
    case False
    then show thesis using that [of s] by (simp add: validate_transaction_def validate_spec_def)
  next
    case True
    have "validate_transaction dec tx s =
      ((case validate_spec tx (db_view dec s) of Ok _ \<Rightarrow> Ok () | Err e \<Rightarrow> Err e | Panic \<Rightarrow> Panic | Hang \<Rightarrow> Hang), s')"
      using True g(1) by (simp add: validate_transaction_def validate_spec_def total_cost_of word_less_nat_alt unat_cost_of
        split: option.split)
    with g(2) show thesis by (rule that [rotated])
  qed
qed

lemma validate_spec_Ok:
  "validate_spec tx V = Ok acc \<longleftrightarrow>
     verify_signature tx \<and> V (stx_from tx) = Some acc \<and> acc_nonce acc = stx_nonce tx \<and>
     cost_of tx \<le> acc_balance acc \<and> 21000 \<le> stx_gas_limit tx"
  by (auto simp: validate_spec_def word_le_nat_alt word_less_nat_alt unat_cost_of not_less split: option.split if_splits)

lemma validate_spec_no_panic: "validate_spec tx V \<noteq> Panic" "validate_spec tx V \<noteq> Hang"
  by (auto simp: validate_spec_def split: option.split)

lemma plan_transfer_refines:
  obtains s' where "plan_transfer dec tx to changes s = (transfer_spec tx to changes (db_view dec s), s')"
    "db_view dec s' = db_view dec s"
proof -
  obtain s1 where c: "db_is_contract dec to s = (contract_at (db_view dec s) to, s1)" "db_view dec s1 = db_view dec s"
    by (rule db_is_contract_cases)
  obtain s2 where g: "db_get_account dec to s1 = (db_view dec s to, s2)" "db_view dec s2 = db_view dec s"
    using db_get_cases [of dec to s1] c(2) by metis
  show thesis
  proof (cases "contract_at (db_view dec s) to \<and>
      stx_gas_limit tx < 21000 + estimate_contract_gas (stx_data tx)")
    case True
    with that [of s1] c show thesis by (simp add: plan_transfer_def call_gas_def transfer_spec_def)
  next
    case False
    with that [of s2] c(1) g show thesis
      by (simp add: plan_transfer_def plan_credit_def call_gas_def transfer_spec_def Let_def refund_gas_spec or_panic_def split: option.split)
  qed
qed

lemma plan_refines:
  obtains s' where "plan_transaction sha dec tx s = (plan_spec sha tx (db_view dec s), s')"
    "db_view dec s' = db_view dec s"
proof -
  let ?V = "db_view dec s"
  obtain s1 where v: "validate_transaction dec tx s =
      ((case validate_spec tx ?V of Ok _ \<Rightarrow> Ok () | Err e \<Rightarrow> Err e | Panic \<Rightarrow> Panic | Hang \<Rightarrow> Hang), s1)"
    "db_view dec s1 = ?V" by (rule validate_refines)
  show thesis
  proof (cases "validate_spec tx ?V")
    case (Ok acc)
    then have acc: "?V (stx_from tx) = Some acc" "\<not> acc_balance acc < cost_of tx"
      by (simp_all add: validate_spec_Ok not_less)
    obtain s2 where g: "db_get_account dec (stx_from tx) s1 = (Some acc, s2)" "db_view dec s2 = ?V"
      using db_get_cases [of dec "stx_from tx" s1] v(2) acc(1) by metis
    have step: "plan_transaction sha dec tx s =
      (case stx_to tx of
         Some to \<Rightarrow> plan_transfer dec tx to [(stx_from tx, charged tx acc)] s2
       | None \<Rightarrow> plan_creation sha tx (acc_nonce acc) [(stx_from tx, charged tx acc)] s2)"
      using v(1) Ok g(1) acc(2) by (simp add: plan_transaction_def charge_sender_def total_cost_of Let_def charged_def split: option.split)
    show thesis
    proof (cases "stx_to tx")
      case None
      with step Ok g(2) that [of s2] plan_creation_spec [of sha tx "acc_nonce acc" _ s2] show thesis
        by (simp add: plan_spec_def Let_def)
    next
      case (Some to)
      obtain s3 where "plan_transfer dec tx to [(stx_from tx, charged tx acc)] s2 =
          (transfer_spec tx to [(stx_from tx, charged tx acc)] (db_view dec s2), s3)" "db_view dec s3 = db_view dec s2"
        by (rule plan_transfer_refines)
      with step Some Ok g(2) that [of s3] show thesis by (simp add: plan_spec_def)
    qed
  qed (use v that [of s1] in \<open>auto simp: plan_transaction_def plan_spec_def\<close>)
qed

section \<open>Effects of a plan\<close>

lemma unat_ucast_256:
  fixes w :: "'a::len word"
  assumes "LENGTH('a) \<le> 256"
  shows "unat (ucast w :: u256) = unat w"
proof -
  have "(2 :: nat) ^ LENGTH('a) \<le> 2 ^ 256" using assms by (intro power_increasing) simp_all
  then have "unat w < 2 ^ 256" using unsigned_less [of w] by (meson less_le_trans)
  then show ?thesis by (simp add: unsigned_ucast_eq take_bit_nat_eq_self)
qed

lemma refund_spec_Ok:
  assumes "refund_spec tx gas ls changes = Ok p"
  shows "plan_gas p = gas \<and> plan_logs p = ls \<and>
    (if stx_gas_limit tx = gas then plan_changes p = changes
     else \<exists>acc b. map_of changes (stx_from tx) = Some acc \<and>
       unat b = unat (acc_balance acc) + unat (stx_gas_limit tx - gas) * unat (stx_gas_price tx) \<and>
       plan_changes p = AList.update (stx_from tx) (acc\<lparr>acc_balance := b\<rparr>) changes)"
proof -
  have u: "unat (ucast (stx_gas_limit tx - gas) :: u256) = unat (stx_gas_limit tx - gas)"
    "unat (ucast (stx_gas_price tx) :: u256) = unat (stx_gas_price tx)"
    by (rule unat_ucast_256; simp)+
  have "0 < stx_gas_limit tx - gas \<longleftrightarrow> stx_gas_limit tx \<noteq> gas"
    by (metis eq_iff_diff_eq_0 word_neq_0_conv)
  with assms u show ?thesis
    by (auto simp: refund_spec_def refund_gas_def Let_def or_panic_def bind_eq_Some_conv checked_ops
        split: if_splits option.splits)
qed

lemma plan_spec_Ok:
  assumes "plan_spec sha tx V = Ok p"
  obtains acc where "validate_spec tx V = Ok acc"
  using assms by (auto simp: plan_spec_def split: outcome.splits)

lemma plan_distinct:
  assumes "plan_spec sha tx V = Ok p"
  shows "distinct (map fst (plan_changes p))"
proof -
  have upd: "distinct (map fst (AList.update a x [(stx_from tx, y)]))" for a x and y :: account
    by (simp add: distinct_update)
  have "distinct (map fst (plan_changes p))"
    if "refund_spec tx gas ls (AList.update a x [(stx_from tx, y)]) = Ok p" for gas ls a x and y :: account
    using refund_spec_Ok [OF that] upd by (auto simp: distinct_update split: if_splits)
  with assms show ?thesis
    by (auto simp: plan_spec_def transfer_spec_def plan_creation_def Let_def refund_gas_spec
        split: outcome.splits option.splits if_splits)
qed

text \<open>Writing the changes either succeeds or is suspended by an eviction; it never fails otherwise.\<close>

lemma apply_changes_cases:
  "apply_changes coins cs s = (Ok (), s') \<and> db_view dec s' = db_view dec s ++ map_of cs \<or>
   fst (apply_changes coins cs s) = Hang"
  if "distinct (map fst cs)" "apply_changes coins cs s = (r, s')"
  using that
proof (induction cs arbitrary: s)
  case (Cons c cs)
  obtain a acc where c: "c = (a, acc)" by (cases c)
  obtain r1 s1 where w: "db_set_account (coins a) a acc s = (r1, s1)" by (cases "db_set_account (coins a) a acc s")
  have view: "db_view dec s1 = (db_view dec s)(a \<mapsto> acc)" using db_view_set [of dec "coins a" a acc s] w by simp
  have "r1 = Ok () \<or> r1 = Hang" using w by (auto simp: db_set_account_def evict_cache_def Let_def split: if_splits)
  then show ?case
  proof
    assume r1: "r1 = Ok ()"
    have "map_of cs a = None" using Cons.prems(1) c by (simp add: map_of_eq_None_iff)
    then have "(db_view dec s)(a \<mapsto> acc) ++ map_of cs = db_view dec s ++ (map_of cs)(a \<mapsto> acc)"
      by (auto simp: map_add_def fun_eq_iff split: option.split)
    with Cons.IH [of s1] Cons.prems c w r1 view show ?thesis by (simp del: fun_upd_apply)
  next
    assume "r1 = Hang"
    with c w show ?thesis by simp
  qed
qed simp

lemma execute_cases:
  assumes "execute_single_transaction sha dec coins us tx s = (res, s')" "res \<noteq> Hang"
  shows "case plan_spec sha tx (db_view dec s) of
      Ok p \<Rightarrow> res = Ok (receipt_of sha us tx p) \<and> db_view dec s' = db_view dec s ++ map_of (plan_changes p)
    | Err e \<Rightarrow> res = Err e \<and> db_view dec s' = db_view dec s
    | Panic \<Rightarrow> res = Panic \<and> db_view dec s' = db_view dec s
    | Hang \<Rightarrow> False"
proof -
  obtain s1 where p: "plan_transaction sha dec tx s = (plan_spec sha tx (db_view dec s), s1)"
    "db_view dec s1 = db_view dec s" by (rule plan_refines)
  show ?thesis
  proof (cases "plan_spec sha tx (db_view dec s)")
    case (Ok pl)
    obtain r s2 where a: "apply_changes coins (plan_changes pl) s1 = (r, s2)"
      by (cases "apply_changes coins (plan_changes pl) s1")
    from apply_changes_cases [OF plan_distinct [OF Ok] a, of dec] show ?thesis
      using assms p Ok a by (auto simp: execute_single_transaction_def)
  qed (use assms p in \<open>auto simp: execute_single_transaction_def\<close>)
qed

text \<open>What the sender has after paying and getting the unused gas back.\<close>

definition paid :: "state_tx \<Rightarrow> u64 \<Rightarrow> account \<Rightarrow> account \<Rightarrow> bool" where
  "paid tx gas acc acc1 \<longleftrightarrow>
     acc1 = acc\<lparr>acc_balance := acc_balance acc1, acc_nonce := acc_nonce acc + 1\<rparr> \<and> gas \<le> stx_gas_limit tx \<and>
     unat (acc_balance acc1) + unat (stx_value tx) + unat gas * unat (stx_gas_price tx) = unat (acc_balance acc)"

lemma paidD:
  assumes "paid tx gas acc acc1"
  shows "acc_nonce acc1 = acc_nonce acc + 1" "gas \<le> stx_gas_limit tx"
    "unat (acc_balance acc1) + unat (stx_value tx) + unat gas * unat (stx_gas_price tx) = unat (acc_balance acc)"
    "code_hash acc1 = code_hash acc" "storage_root acc1 = storage_root acc"
proof -
  have acc1: "acc1 = acc\<lparr>acc_balance := acc_balance acc1, acc_nonce := acc_nonce acc + 1\<rparr>"
    using assms by (simp only: paid_def)
  show "acc_nonce acc1 = acc_nonce acc + 1" "code_hash acc1 = code_hash acc" "storage_root acc1 = storage_root acc"
    by (subst acc1, simp)+
  show "gas \<le> stx_gas_limit tx"
    "unat (acc_balance acc1) + unat (stx_value tx) + unat gas * unat (stx_gas_price tx) = unat (acc_balance acc)"
    using assms by (simp_all only: paid_def)
qed

lemma refund_amount:
  assumes "refund_spec tx gas ls ((stx_from tx, charged tx acc) # cs) = Ok p"
    and "cost_of tx \<le> acc_balance acc" "gas \<le> stx_gas_limit tx"
  shows "\<exists>acc1. plan_changes p = (stx_from tx, acc1) # cs \<and> paid tx gas acc acc1 \<and> plan_gas p = gas"
proof -
  let ?l = "unat (stx_gas_limit tx)" and ?p = "unat (stx_gas_price tx)"
  have le: "unat gas \<le> ?l" using assms(3) by (simp add: word_le_nat_alt)
  then have mult: "unat gas * ?p + unat (stx_gas_limit tx - gas) * ?p = ?l * ?p"
    using assms(3) by (simp add: unat_sub flip: add_mult_distrib)
  have charged: "unat (acc_balance (charged tx acc)) + unat (stx_value tx) + ?l * ?p = unat (acc_balance acc)"
    using assms(2) unat_cost_of [of tx] by (simp add: charged_def unat_sub word_le_nat_alt)
  show ?thesis
  proof (cases "stx_gas_limit tx = gas")
    case True
    with refund_spec_Ok [OF assms(1)] charged have "plan_changes p = (stx_from tx, charged tx acc) # cs \<and>
        paid tx gas acc (charged tx acc) \<and> plan_gas p = gas"
      by (simp add: paid_def) (simp add: charged_def)
    then show ?thesis by blast
  next
    case False
    with refund_spec_Ok [OF assms(1)] obtain b where b:
      "unat b = unat (acc_balance (charged tx acc)) + unat (stx_gas_limit tx - gas) * ?p"
      "plan_changes p = (stx_from tx, (charged tx acc)\<lparr>acc_balance := b\<rparr>) # cs" "plan_gas p = gas"
      by auto
    then have "paid tx gas acc ((charged tx acc)\<lparr>acc_balance := b\<rparr>)"
      using charged mult assms(3) by (simp add: paid_def) (simp add: charged_def)
    with b show ?thesis by blast
  qed
qed

definition balance_at :: "(address \<rightharpoonup> account) \<Rightarrow> address \<Rightarrow> nat" where
  "balance_at V a = (case V a of None \<Rightarrow> 0 | Some acc \<Rightarrow> unat (acc_balance acc))"

definition account_at :: "(address \<rightharpoonup> account) \<Rightarrow> address \<Rightarrow> account" where
  "account_at V a = (case V a of None \<Rightarrow> account_new 0 | Some acc \<Rightarrow> acc)"

lemma balance_account_at: "unat (acc_balance (account_at V a)) = balance_at V a"
  by (simp add: balance_at_def account_at_def account_new_def split: option.split)

lemma transfer_spec_Ok:
  assumes "transfer_spec tx to changes V = Ok p" "21000 \<le> stx_gas_limit tx"
  shows "\<exists>gas b ls. refund_spec tx gas ls (AList.update to ((account_at V to)\<lparr>acc_balance := b\<rparr>) changes) = Ok p \<and>
    gas \<le> stx_gas_limit tx \<and> unat b = balance_at V to + unat (stx_value tx)"
proof -
  have "unat (ucast (stx_value tx) :: u256) = unat (stx_value tx)" by (rule unat_ucast_256) simp
  with assms show ?thesis
    unfolding balance_account_at [symmetric]
    by (auto simp: transfer_spec_def Let_def checked_ops not_less account_at_def [symmetric]
        split: if_splits option.splits)
qed

lemma plan_transfer_Ok:
  assumes "plan_spec sha tx V = Ok p" "stx_to tx = Some to" "to \<noteq> stx_from tx"
  obtains acc acc1 b where "validate_spec tx V = Ok acc" "paid tx (plan_gas p) acc acc1"
    "plan_changes p = [(stx_from tx, acc1), (to, (account_at V to)\<lparr>acc_balance := b\<rparr>)]"
    "unat b = balance_at V to + unat (stx_value tx)"
proof -
  obtain acc where v: "validate_spec tx V = Ok acc" using assms(1) by (rule plan_spec_Ok)
  then have "21000 \<le> stx_gas_limit tx" "cost_of tx \<le> acc_balance acc" by (simp_all add: validate_spec_Ok)
  moreover have "transfer_spec tx to [(stx_from tx, charged tx acc)] V = Ok p"
    using assms(1,2) v by (simp add: plan_spec_def)
  ultimately obtain gas b ls where
    "refund_spec tx gas ls [(stx_from tx, charged tx acc), (to, (account_at V to)\<lparr>acc_balance := b\<rparr>)] = Ok p"
    "gas \<le> stx_gas_limit tx" "unat b = balance_at V to + unat (stx_value tx)"
    using transfer_spec_Ok assms(3) by fastforce
  moreover from refund_amount [OF this(1) \<open>cost_of tx \<le> acc_balance acc\<close> this(2)]
  obtain acc1 where "plan_changes p = [(stx_from tx, acc1), (to, (account_at V to)\<lparr>acc_balance := b\<rparr>)]"
    "paid tx gas acc acc1" "plan_gas p = gas" by blast
  ultimately show thesis using that v by blast
qed

section \<open>The effects of one transaction\<close>

text \<open>
  C7: a successful transfer or contract call to another account conserves value: the sender pays exactly the value
  and the gas used, the recipient gets exactly the value, the sender's nonce was the transaction's and grows
  by one, and no other account changes.
\<close>

theorem transfer_conserves_value:
  assumes "execute_single_transaction sha dec coins us tx s = (Ok r, s')"
    and "stx_to tx = Some to" "to \<noteq> stx_from tx"
  shows "let V = db_view dec s; V' = db_view dec s' in
    balance_at V' (stx_from tx) + unat (stx_value tx) + unat (gas_used r) * unat (stx_gas_price tx)
      = balance_at V (stx_from tx) \<and>
    balance_at V' to = balance_at V to + unat (stx_value tx) \<and>
    gas_used r \<le> stx_gas_limit tx \<and>
    acc_nonce (account_at V (stx_from tx)) = stx_nonce tx \<and>
    acc_nonce (account_at V' (stx_from tx)) = stx_nonce tx + 1 \<and>
    (\<forall>a. a \<noteq> stx_from tx \<and> a \<noteq> to \<longrightarrow> V' a = V a)"
proof -
  let ?V = "db_view dec s"
  obtain p where p: "plan_spec sha tx ?V = Ok p" "r = receipt_of sha us tx p"
      "db_view dec s' = ?V ++ map_of (plan_changes p)"
    using execute_cases [OF assms(1)] by (auto split: outcome.splits)
  obtain acc acc1 b where t: "validate_spec tx ?V = Ok acc" "paid tx (plan_gas p) acc acc1"
    "plan_changes p = [(stx_from tx, acc1), (to, (account_at ?V to)\<lparr>acc_balance := b\<rparr>)]"
    "unat b = balance_at ?V to + unat (stx_value tx)"
    using plan_transfer_Ok [OF p(1) assms(2,3)] .
  have "?V (stx_from tx) = Some acc" "acc_nonce acc = stx_nonce tx" using t(1) by (simp_all add: validate_spec_Ok)
  with paidD [OF t(2)] t(3,4) p(2,3) assms(3) show ?thesis
    by (simp add: Let_def balance_at_def account_at_def receipt_of_def map_add_def)
qed

lemma plan_creation_Ok:
  assumes "plan_spec sha tx V = Ok p" "stx_to tx = None"
    and "calculate_contract_address sha (stx_from tx) (stx_nonce tx) \<noteq> stx_from tx"
  obtains acc acc1 where "validate_spec tx V = Ok acc" "paid tx (plan_gas p) acc acc1"
    "plan_changes p = [(stx_from tx, acc1), (calculate_contract_address sha (stx_from tx) (stx_nonce tx),
       (account_new (ucast (stx_value tx)))\<lparr>code_hash := Some (hash_code sha (stx_data tx))\<rparr>)]"
proof -
  let ?ca = "calculate_contract_address sha (stx_from tx) (stx_nonce tx)"
  let ?new = "(account_new (ucast (stx_value tx)))\<lparr>code_hash := Some (hash_code sha (stx_data tx))\<rparr>"
  obtain acc where v: "validate_spec tx V = Ok acc" using assms(1) by (rule plan_spec_Ok)
  then have nonce: "acc_nonce acc = stx_nonce tx" and cost: "cost_of tx \<le> acc_balance acc"
    by (simp_all add: validate_spec_Ok)
  have "\<exists>gas ls. refund_spec tx gas ls [(stx_from tx, charged tx acc), (?ca, ?new)] = Ok p \<and> gas \<le> stx_gas_limit tx"
    using assms v nonce by (auto simp: plan_spec_def plan_creation_def Let_def refund_gas_spec not_less split: if_splits)
  then obtain gas ls where g: "refund_spec tx gas ls [(stx_from tx, charged tx acc), (?ca, ?new)] = Ok p"
    "gas \<le> stx_gas_limit tx" by blast
  from refund_amount [OF g(1) cost g(2)] that v show thesis by blast
qed

text \<open>
  A contract creation takes value and gas from the sender and puts an account with the value and the hash of the
  code at the computed address. Whatever was at that address, balance and code included, is overwritten.
\<close>

theorem creation_overwrites_the_address:
  assumes "execute_single_transaction sha dec coins us tx s = (Ok r, s')" "stx_to tx = None"
    and "calculate_contract_address sha (stx_from tx) (stx_nonce tx) \<noteq> stx_from tx"
  shows "let V = db_view dec s; V' = db_view dec s'; ca = calculate_contract_address sha (stx_from tx) (stx_nonce tx) in
    balance_at V' (stx_from tx) + unat (stx_value tx) + unat (gas_used r) * unat (stx_gas_price tx)
      = balance_at V (stx_from tx) \<and>
    acc_nonce (account_at V' (stx_from tx)) = stx_nonce tx + 1 \<and>
    V' ca = Some \<lparr> acc_nonce = 0, acc_balance = ucast (stx_value tx), storage_root = 0,
      code_hash = Some (sha (stx_data tx)) \<rparr> \<and>
    (\<forall>a. a \<noteq> stx_from tx \<and> a \<noteq> ca \<longrightarrow> V' a = V a)"
proof -
  let ?V = "db_view dec s"
  obtain p where p: "plan_spec sha tx ?V = Ok p" "r = receipt_of sha us tx p"
      "db_view dec s' = ?V ++ map_of (plan_changes p)"
    using execute_cases [OF assms(1)] by (auto split: outcome.splits)
  obtain acc acc1 where t: "validate_spec tx ?V = Ok acc" "paid tx (plan_gas p) acc acc1"
    "plan_changes p = [(stx_from tx, acc1), (calculate_contract_address sha (stx_from tx) (stx_nonce tx),
       (account_new (ucast (stx_value tx)))\<lparr>code_hash := Some (hash_code sha (stx_data tx))\<rparr>)]"
    using plan_creation_Ok [OF p(1) assms(2,3)] .
  have "?V (stx_from tx) = Some acc" "acc_nonce acc = stx_nonce tx" using t(1) by (simp_all add: validate_spec_Ok)
  with paidD [OF t(2)] t(3) p(2,3) assms(3) show ?thesis
    by (simp add: Let_def balance_at_def account_at_def receipt_of_def map_add_def account_new_def hash_code_def)
qed

text \<open>
  A transaction to its own sender mints money. The recipient's account is read from the database, before the sender
  was charged, and replaces the charged one: the sender pays neither value nor gas, gets the value and the
  refund on top, and keeps its nonce, so the same transaction is valid again.
\<close>

theorem self_transfer_mints_value:
  assumes "execute_single_transaction sha dec coins us tx s = (Ok r, s')" "stx_to tx = Some (stx_from tx)"
  shows "\<exists>acc b. db_view dec s (stx_from tx) = Some acc \<and>
    db_view dec s' = (db_view dec s)(stx_from tx \<mapsto> acc\<lparr>acc_balance := b\<rparr>) \<and>
    unat b = unat (acc_balance acc) + unat (stx_value tx)
      + (unat (stx_gas_limit tx) - unat (gas_used r)) * unat (stx_gas_price tx) \<and>
    fst (validate_transaction dec tx s') = Ok ()"
proof -
  let ?V = "db_view dec s" and ?a = "stx_from tx"
  obtain p where p: "plan_spec sha tx ?V = Ok p" "r = receipt_of sha us tx p"
      "db_view dec s' = ?V ++ map_of (plan_changes p)"
    using execute_cases [OF assms(1)] by (auto split: outcome.splits)
  obtain acc where v: "validate_spec tx ?V = Ok acc" using p(1) by (rule plan_spec_Ok)
  then have acc: "?V ?a = Some acc" and limit: "21000 \<le> stx_gas_limit tx" by (simp_all add: validate_spec_Ok)
  have "transfer_spec tx ?a [(?a, charged tx acc)] ?V = Ok p"
    using p(1) v assms(2) by (simp add: plan_spec_def)
  from transfer_spec_Ok [OF this limit] obtain gas b ls where
    g: "refund_spec tx gas ls [(?a, acc\<lparr>acc_balance := b\<rparr>)] = Ok p" "gas \<le> stx_gas_limit tx"
      "unat b = unat (acc_balance acc) + unat (stx_value tx)"
    using acc by (auto simp: account_at_def balance_at_def)
  have "unat (stx_gas_limit tx - gas) = unat (stx_gas_limit tx) - unat gas"
    using g(2) by (simp add: unat_sub)
  with refund_spec_Ok [OF g(1)] g(3) obtain b' where b': "plan_changes p = [(?a, acc\<lparr>acc_balance := b'\<rparr>)]" "plan_gas p = gas"
      "unat b' = unat (acc_balance acc) + unat (stx_value tx)
        + (unat (stx_gas_limit tx) - unat gas) * unat (stx_gas_price tx)"
    by (cases "stx_gas_limit tx = gas") (auto split: if_splits)
  have V': "db_view dec s' = ?V(?a \<mapsto> acc\<lparr>acc_balance := b'\<rparr>)"
    using p(3) b'(1) by simp
  have "validate_spec tx (db_view dec s') = Ok (acc\<lparr>acc_balance := b'\<rparr>)"
    using v b'(3) unfolding V' by (simp add: validate_spec_Ok word_le_nat_alt)
  moreover obtain s2 where "validate_transaction dec tx s' = ((case validate_spec tx (db_view dec s') of
      Ok _ \<Rightarrow> Ok () | Err e \<Rightarrow> Err e | Panic \<Rightarrow> Panic | Hang \<Rightarrow> Hang), s2)" by (rule validate_refines)
  ultimately have "fst (validate_transaction dec tx s') = Ok ()" by simp
  with acc V' b' p(2) show ?thesis by (auto simp: receipt_of_def)
qed

text \<open>A transaction that is refused, or that panics, has changed no account.\<close>

lemma refused_transaction_changes_nothing:
  assumes "execute_single_transaction sha dec coins us tx s = (res, s')" "\<not> is_ok res" "res \<noteq> Hang"
  shows "db_view dec s' = db_view dec s"
  using execute_cases [OF assms(1,3)] assms(2) by (auto split: outcome.splits)

lemma execute_refused:
  assumes "plan_spec sha tx (db_view dec s) = Err e"
  shows "fst (execute_single_transaction sha dec coins us tx s) = Err e"
proof -
  obtain s1 where "plan_transaction sha dec tx s = (plan_spec sha tx (db_view dec s), s1)" by (rule plan_refines)
  with assms show ?thesis by (simp add: execute_single_transaction_def)
qed

lemma sender_after_plan:
  assumes "plan_spec sha tx V = Ok p" "stx_to tx \<noteq> Some (stx_from tx)"
    and "calculate_contract_address sha (stx_from tx) (stx_nonce tx) \<noteq> stx_from tx"
  shows "\<exists>acc1. map_of (plan_changes p) (stx_from tx) = Some acc1 \<and> acc_nonce acc1 = stx_nonce tx + 1"
proof (cases "stx_to tx")
  case None
  obtain acc acc1 where "validate_spec tx V = Ok acc" "paid tx (plan_gas p) acc acc1"
    "plan_changes p = [(stx_from tx, acc1), (calculate_contract_address sha (stx_from tx) (stx_nonce tx),
       (account_new (ucast (stx_value tx)))\<lparr>code_hash := Some (hash_code sha (stx_data tx))\<rparr>)]"
    using plan_creation_Ok [OF assms(1) None assms(3)] .
  with paidD(1) show ?thesis by (auto simp: validate_spec_Ok)
next
  case (Some to)
  with assms(2) have "to \<noteq> stx_from tx" by simp
  from plan_transfer_Ok [OF assms(1) Some this] paidD(1) show ?thesis
    by (metis map_of_Cons_code(2) validate_spec_Ok)
qed

text \<open>A transaction that was executed is refused the second time, unless it was sent to its own sender.\<close>

theorem executed_transaction_is_not_replayed:
  assumes "execute_single_transaction sha dec coins us tx s = (Ok r, s')" "stx_to tx \<noteq> Some (stx_from tx)"
    and "calculate_contract_address sha (stx_from tx) (stx_nonce tx) \<noteq> stx_from tx"
  shows "fst (execute_single_transaction sha dec coins' us' tx s') = Err (InvalidTransaction ''Invalid nonce'')"
proof (rule execute_refused)
  obtain p where p: "plan_spec sha tx (db_view dec s) = Ok p" "db_view dec s' = db_view dec s ++ map_of (plan_changes p)"
    using execute_cases [OF assms(1)] by (auto split: outcome.splits)
  have "verify_signature tx" using p(1) by (auto elim!: plan_spec_Ok simp: validate_spec_Ok)
  with sender_after_plan [OF p(1) assms(2,3)] p(2)
  have "validate_spec tx (db_view dec s') = Err (InvalidTransaction ''Invalid nonce'')"
    by (auto simp: validate_spec_def map_add_def)
  then show "plan_spec sha tx (db_view dec s') = Err (InvalidTransaction ''Invalid nonce'')"
    by (simp add: plan_spec_def)
qed

section \<open>Examples\<close>

definition sample_db :: state_db where
  "sample_db = (db_new Map.empty)\<lparr>accounts := [(1, account_new 1000000), (2, account_new 1000000)]\<rparr>"

definition sample_transfer :: "address \<Rightarrow> address option \<Rightarrow> u128 \<Rightarrow> state_tx" where
  "sample_transfer a to v = (state_tx_new a to v [] 0 100000 1)\<lparr>stx_signature := \<lparr> sig_v = 27, sig_r = [1], sig_s = [1] \<rparr>\<rparr>"

definition sample_receipt :: "address \<Rightarrow> address option \<Rightarrow> u64 \<Rightarrow> string list \<Rightarrow> tx_receipt" where
  "sample_receipt a to g ls = \<lparr> receipt_hash = 7, receipt_from = a, receipt_to = to, gas_used = g, receipt_status = True, logs = ls, execution_time_us = 3 \<rparr>"

lemmas evaluate_transaction =
  sample_db_def sample_transfer_def sample_receipt_def db_new_def account_new_def state_tx_new_def
  execute_single_transaction_def plan_transaction_def validate_transaction_def charge_sender_def plan_transfer_def plan_credit_def call_gas_def plan_creation_def
  refund_gas_def db_get_account_def db_set_account_def db_is_contract_def verify_signature_def total_cost_def gas_cost_def
  uadd_def umul_def receipt_of_def state_tx_hash_def cache_size_def Let_def
  calculate_contract_address_def estimate_contract_gas_def hash_code_def

lemma sample_execution:
  "execute_single_transaction (\<lambda>_. 7) (\<lambda>_. None) (\<lambda>_. []) 3 (sample_transfer 1 (Some 9) 5) sample_db =
     (Ok (sample_receipt 1 (Some 9) 21000 []),
      sample_db\<lparr>accounts := [(1, (account_new 978995)\<lparr>acc_nonce := 1\<rparr>), (2, account_new 1000000), (9, account_new 5)], dirty_accounts := [(1, (account_new 978995)\<lparr>acc_nonce := 1\<rparr>), (9, account_new 5)]\<rparr>)"
  by (simp add: evaluate_transaction)


lemma sample_execution2:
  "execute_single_transaction (\<lambda>_. 7) (\<lambda>_. None) (\<lambda>_. []) 3 (sample_transfer 2 (Some 9) 6) sample_db =
     (Ok (sample_receipt 2 (Some 9) 21000 []), sample_db\<lparr>accounts := [(1, account_new 1000000), (2, (account_new 978994)\<lparr>acc_nonce := 1\<rparr>),
         (9, account_new 6)], dirty_accounts := [(2, (account_new 978994)\<lparr>acc_nonce := 1\<rparr>), (9, account_new 6)]\<rparr>)"
  by (simp add: evaluate_transaction)

lemma sample_self:
  "execute_single_transaction (\<lambda>_. 7) (\<lambda>_. None) (\<lambda>_. []) 3 (sample_transfer 1 (Some 1) 5) sample_db =
     (Ok (sample_receipt 1 (Some 1) 21000 []), sample_db\<lparr>accounts := [(1, account_new 1079005), (2, account_new 1000000)],
        dirty_accounts := [(1, account_new 1079005)]\<rparr>)"
  by (simp add: evaluate_transaction)

lemma sample_creation:
  "execute_single_transaction (\<lambda>_. 7) (\<lambda>_. None) (\<lambda>_. []) 3 (sample_transfer 1 None 5) sample_db =
     (Ok (sample_receipt 1 None 85000 [''Contract created: '' @ show_address 7]), sample_db\<lparr>accounts := [(1, (account_new 914995)\<lparr>acc_nonce := 1\<rparr>), (2, account_new 1000000),
         (7, (account_new 5)\<lparr>code_hash := Some 7\<rparr>)], dirty_accounts := [(1, (account_new 914995)\<lparr>acc_nonce := 1\<rparr>), (7, (account_new 5)\<lparr>code_hash := Some 7\<rparr>)]\<rparr>)"
  by (simp add: evaluate_transaction)

theorem transfer_conserves_value_witness:
  "let V' = db_view (\<lambda>_. None) (snd (execute_single_transaction (\<lambda>_. 7) (\<lambda>_. None) (\<lambda>_. []) 3
        (sample_transfer 1 (Some 9) 5) sample_db)) in
    balance_at V' 1 + 21005 = 1000000 \<and> balance_at V' 9 = 5"
  using transfer_conserves_value [OF sample_execution, of 9] sample_execution
  by (simp add: sample_transfer_def sample_receipt_def state_tx_new_def sample_db_def db_new_def db_view_def balance_at_def
    account_new_def Let_def)

theorem creation_overwrites_the_address_witness:
  "db_view (\<lambda>_. None) (snd (execute_single_transaction (\<lambda>_. 7) (\<lambda>_. None) (\<lambda>_. []) 3
        (sample_transfer 1 None 5) sample_db)) 7 =
    Some \<lparr> acc_nonce = 0, acc_balance = 5, storage_root = 0, code_hash = Some 7 \<rparr>"
  using creation_overwrites_the_address [OF sample_creation] sample_creation
  by (simp add: sample_transfer_def state_tx_new_def Let_def calculate_contract_address_def)

theorem self_transfer_mints_value_witness:
  "\<exists>b. db_view (\<lambda>_. None) (snd (execute_single_transaction (\<lambda>_. 7) (\<lambda>_. None) (\<lambda>_. []) 3
        (sample_transfer 1 (Some 1) 5) sample_db)) 1 = Some ((account_new 1000000)\<lparr>acc_balance := b\<rparr>) \<and>
    unat b = 1079005"
  using self_transfer_mints_value [OF sample_self] sample_self
  by (auto simp: sample_transfer_def sample_receipt_def state_tx_new_def sample_db_def db_new_def db_view_def account_new_def)

theorem executed_transaction_is_not_replayed_witness:
  "fst (execute_single_transaction (\<lambda>_. 7) (\<lambda>_. None) (\<lambda>_. []) 4 (sample_transfer 1 (Some 9) 5)
     (snd (execute_single_transaction (\<lambda>_. 7) (\<lambda>_. None) (\<lambda>_. []) 3 (sample_transfer 1 (Some 9) 5) sample_db)))
   = Err (InvalidTransaction ''Invalid nonce'')"
  using executed_transaction_is_not_replayed [OF sample_execution] sample_execution
  by (simp add: sample_transfer_def state_tx_new_def calculate_contract_address_def)

end
