(* ===== verification/Interleaving.thy ===== *)
theory Interleaving
  imports ExecutorProps "HOL-Library.Multiset"
begin

text \<open>
  Transactions whose steps interleave, on the account map. A transaction reads and writes the accounts of its sender and
  its recipient only, so a pool of transactions over disjoint accounts, whatever the schedule of its workers, does what
  running them one after the other does. Both executors rest on this.
\<close>

section \<open>Transactions on the account map\<close>

definition run_spec ::
  "(u8 list \<Rightarrow> h256) \<Rightarrow> u64 \<Rightarrow> state_tx \<Rightarrow> (address \<rightharpoonup> account) \<times> tx_receipt list
     \<Rightarrow> (address \<rightharpoonup> account) \<times> tx_receipt list" where
  "run_spec sha us tx = (\<lambda>(V, rs). case plan_spec sha tx V of
      Ok p \<Rightarrow> (V ++ map_of (plan_changes p), rs @ [receipt_of sha us tx p])
    | _ \<Rightarrow> (V, rs))"

definition touched :: "state_tx \<Rightarrow> address set" where
  "touched tx = insert (stx_from tx) (set_option (stx_to tx))"

lemma plan_keys:
  assumes "plan_spec sha tx V = Ok p" "stx_to tx \<noteq> None"
  shows "fst ` set (plan_changes p) \<subseteq> touched tx"
proof -
  obtain to where to: "stx_to tx = Some to" using assms(2) by blast
  have "fst ` set (plan_changes p) \<subseteq> {stx_from tx, to}"
    if "refund_spec tx gas ls (AList.update to x [(stx_from tx, y)]) = Ok p" for gas ls and x y :: account
    using refund_spec_Ok [OF that] by (auto simp: dom_update split: if_splits)
  with assms(1) to show ?thesis
    by (auto simp: plan_spec_def transfer_spec_def Let_def touched_def
        split: outcome.splits option.splits if_splits)
qed

lemma plan_local:
  assumes "stx_to tx \<noteq> None" "\<forall>a \<in> touched tx. V a = W a"
  shows "plan_spec sha tx V = plan_spec sha tx W"
proof -
  obtain to where "stx_to tx = Some to" "V (stx_from tx) = W (stx_from tx)" "V to = W to"
    using assms by (auto simp: touched_def)
  moreover from this have "validate_spec tx V = validate_spec tx W"
    "transfer_spec tx to cs V = transfer_spec tx to cs W" for cs
    by (simp_all add: validate_spec_def transfer_spec_def contract_at_def)
  ultimately show ?thesis by (cases "validate_spec tx W") (simp_all add: plan_spec_def)
qed

lemma run_spec_accounts: "fst (run_spec sha us tx (V, rs)) = fst (run_spec sha us tx (V, []))"
  and run_spec_receipts: "snd (run_spec sha us tx (V, rs)) = rs @ snd (run_spec sha us tx (V, []))"
  by (simp_all add: run_spec_def split: outcome.split)

lemma run_spec_outside:
  "stx_to tx \<noteq> None \<Longrightarrow> a \<notin> touched tx \<Longrightarrow> fst (run_spec sha us tx (V, rs)) a = V a"
proof (cases "plan_spec sha tx V")
  case (Ok p)
  assume "stx_to tx \<noteq> None" "a \<notin> touched tx"
  with plan_keys [OF Ok] have "map_of (plan_changes p) a = None" by (auto simp: map_of_eq_None_iff)
  with Ok show ?thesis by (simp add: run_spec_def map_add_def)
qed (simp_all add: run_spec_def)

lemma fold_run_spec:
  "fold (run_spec sha us) txs (V, rs) =
     (fst (fold (run_spec sha us) txs (V, [])), rs @ snd (fold (run_spec sha us) txs (V, [])))"
proof (induction txs arbitrary: V rs)
  case (Cons tx txs)
  let ?W = "fst (run_spec sha us tx (V, []))" and ?l = "snd (run_spec sha us tx (V, []))"
  have "run_spec sha us tx (V, rs) = (?W, rs @ ?l)" "run_spec sha us tx (V, []) = (?W, ?l)"
    using run_spec_accounts run_spec_receipts by (metis prod.collapse)+
  with Cons.IH [of ?W "rs @ ?l"] Cons.IH [of ?W ?l] show ?case by simp
qed simp

lemma fold_run_outside:
  "\<forall>tx \<in> set txs. stx_to tx \<noteq> None \<and> a \<notin> touched tx \<Longrightarrow> fst (fold (run_spec sha us) txs (V, rs)) a = V a"
proof (induction txs arbitrary: V rs)
  case (Cons tx txs)
  obtain W l where r: "run_spec sha us tx (V, rs) = (W, l)" by fastforce
  with Cons run_spec_outside [of tx a sha us V rs] show ?case by simp
qed simp

section \<open>What is left of a transaction\<close>

definition credit_spec ::
  "state_tx \<Rightarrow> address \<Rightarrow> bool \<Rightarrow> (address \<times> account) list \<Rightarrow> (address \<rightharpoonup> account) \<Rightarrow> (sm_error, tx_plan) outcome" where
  "credit_spec tx to is_c changes V =
     (let ls = (if is_c then [''Contract executed: '' @ show_address to] else []);
          acc = (case V to of None \<Rightarrow> account_new 0 | Some x \<Rightarrow> x)
      in case uadd (acc_balance acc) (ucast (stx_value tx)) of
           None \<Rightarrow> Panic
         | Some b \<Rightarrow> refund_spec tx (call_gas tx is_c) ls (AList.update to (acc\<lparr>acc_balance := b\<rparr>) changes))"

lemma transfer_credit_spec:
  "transfer_spec tx to changes V =
     (if contract_at V to \<and> stx_gas_limit tx < call_gas tx (contract_at V to) then Err GasLimitExceeded
      else credit_spec tx to (contract_at V to) changes V)"
  by (cases "contract_at V to") (simp_all add: transfer_spec_def credit_spec_def call_gas_def Let_def split: option.split)

definition write_all :: "(address \<times> account) list \<Rightarrow> (address \<rightharpoonup> account) \<Rightarrow> (address \<rightharpoonup> account)" where
  "write_all cs V = fold (\<lambda>(a, x) W. W(a \<mapsto> x)) cs V"

lemma write_all_simps [simp]: "write_all [] V = V" "write_all ((a, x) # cs) V = write_all cs (V(a \<mapsto> x))"
  by (simp_all add: write_all_def)

lemma write_all_distinct: "distinct (map fst cs) \<Longrightarrow> write_all cs V = V ++ map_of cs"
proof (induction cs arbitrary: V)
  case (Cons c cs)
  obtain a x where c: "c = (a, x)" by (cases c)
  with Cons.prems have "map_of cs a = None" by (simp add: map_of_eq_None_iff)
  with Cons c show ?case by (auto simp: map_add_def fun_eq_iff split: option.split)
qed simp

text \<open>The outcome of a transaction whose remaining steps run undisturbed, and the accounts it leaves.\<close>

fun on_plan ::
  "(u8 list \<Rightarrow> h256) \<Rightarrow> u64 \<Rightarrow> state_tx \<Rightarrow> (address \<rightharpoonup> account) \<Rightarrow> (sm_error, tx_plan) outcome
     \<Rightarrow> (sm_error, tx_receipt) outcome \<times> (address \<rightharpoonup> account)" where
  "on_plan sha us tx V (Ok p) = (Ok (receipt_of sha us tx p), write_all (plan_changes p) V)"
| "on_plan sha us tx V (Err e) = (Err e, V)"
| "on_plan sha us tx V Panic = (Panic, V)"
| "on_plan sha us tx V Hang = (Hang, V)"

fun rest_of ::
  "(u8 list \<Rightarrow> h256) \<Rightarrow> u64 \<Rightarrow> tx_run \<Rightarrow> (address \<rightharpoonup> account)
     \<Rightarrow> (sm_error, tx_receipt) outcome \<times> (address \<rightharpoonup> account)" where
  "rest_of sha us (Validating tx) V = on_plan sha us tx V (plan_spec sha tx V)"
| "rest_of sha us (Charging tx) V = on_plan sha us tx V (case V (stx_from tx) of
     None \<Rightarrow> Err StateNotFound
   | Some acc \<Rightarrow>
       if acc_balance acc < cost_of tx then Err InsufficientBalance
       else case stx_to tx of
         Some to \<Rightarrow> transfer_spec tx to [(stx_from tx, charged tx acc)] V
       | None \<Rightarrow> fst (plan_creation sha tx (acc_nonce acc) [(stx_from tx, charged tx acc)] (db_new Map.empty)))"
| "rest_of sha us (Calling tx to changes) V = on_plan sha us tx V (transfer_spec tx to changes V)"
| "rest_of sha us (Crediting tx to is_c changes) V = on_plan sha us tx V (credit_spec tx to is_c changes V)"
| "rest_of sha us (Writing cs r) V = (Ok r, write_all cs V)"
| "rest_of sha us (Finished r) V = (r, V)"

lemma on_ok_plan: "rest_of sha us (on_ok r (write_plan sha us tx)) V = on_plan sha us tx V r"
  by (cases r) (simp_all add: write_plan_def)

lemma charge_refines:
  obtains s' where "charge_sender dec tx s =
      ((case db_view dec s (stx_from tx) of None \<Rightarrow> Err StateNotFound
        | Some acc \<Rightarrow> if acc_balance acc < cost_of tx then Err InsufficientBalance else Ok (charged tx acc)), s')"
    "db_view dec s' = db_view dec s"
proof -
  obtain s' where g: "db_get_account dec (stx_from tx) s = (db_view dec s (stx_from tx), s')"
      "db_view dec s' = db_view dec s" by (rule db_get_cases)
  then show thesis
    using that [of s'] by (auto simp: charge_sender_def total_cost_of charged_def split: option.splits)
qed

lemma credit_refines:
  obtains s' where "plan_credit dec tx to is_c changes s = (credit_spec tx to is_c changes (db_view dec s), s')"
    "db_view dec s' = db_view dec s"
proof -
  obtain s' where g: "db_get_account dec to s = (db_view dec s to, s')" "db_view dec s' = db_view dec s"
    by (rule db_get_cases)
  then show thesis
    using that [of s'] by (auto simp: plan_credit_def credit_spec_def Let_def refund_gas_spec or_panic_def split: option.split)
qed

lemma db_set_outcome: "fst (db_set_account c a acc s) = Ok () \<or> fst (db_set_account c a acc s) = Hang"
  by (simp add: db_set_account_def evict_cache_def Let_def)

text \<open>A step leaves the same rest, unless it is suspended by an eviction.\<close>

lemma step_keeps_rest:
  assumes "tx_step sha dec coins us st s = (st', s')" "st' \<noteq> Finished Hang"
  shows "rest_of sha us st' (db_view dec s') = rest_of sha us st (db_view dec s)"
proof (cases st)
  case (Validating tx)
  obtain s1 where v: "validate_transaction dec tx s =
      ((case validate_spec tx (db_view dec s) of Ok _ \<Rightarrow> Ok () | Err e \<Rightarrow> Err e | Panic \<Rightarrow> Panic | Hang \<Rightarrow> Hang), s1)"
    "db_view dec s1 = db_view dec s" by (rule validate_refines)
  show ?thesis
  proof (cases "validate_spec tx (db_view dec s)")
    case (Ok acc)
    then have "db_view dec s (stx_from tx) = Some acc" "\<not> acc_balance acc < cost_of tx"
      by (simp_all add: validate_spec_Ok not_less)
    with Ok assms(1) Validating v show ?thesis by (auto simp: plan_spec_def Let_def split: option.split)
  qed (use assms(1) Validating v in \<open>auto simp: plan_spec_def\<close>)
next
  case (Charging tx)
  obtain s1 where c: "charge_sender dec tx s =
      ((case db_view dec s (stx_from tx) of None \<Rightarrow> Err StateNotFound
        | Some acc \<Rightarrow> if acc_balance acc < cost_of tx then Err InsufficientBalance else Ok (charged tx acc)), s1)"
    "db_view dec s1 = db_view dec s" by (rule charge_refines)
  have nonce: "acc_nonce (charged tx acc) - 1 = acc_nonce acc" for acc by (simp add: charged_def)
  have create: "fst (plan_creation sha tx n cs s1) = fst (plan_creation sha tx n cs (db_new Map.empty))" for n cs
    by (subst plan_creation_spec) simp
  show ?thesis
  proof (cases "db_view dec s (stx_from tx)")
    case (Some acc)
    with assms(1) Charging c create [of "acc_nonce acc"] show ?thesis
      by (cases "acc_balance acc < cost_of tx") (auto simp: nonce on_ok_plan split: option.split)
  qed (use assms(1) Charging c in auto)
next
  case (Calling tx to changes)
  obtain s1 where "db_is_contract dec to s = (contract_at (db_view dec s) to, s1)" "db_view dec s1 = db_view dec s"
    by (rule db_is_contract_cases)
  with assms(1) Calling show ?thesis by (auto simp: transfer_credit_spec split: if_splits)
next
  case (Crediting tx to is_c changes)
  obtain s1 where "plan_credit dec tx to is_c changes s = (credit_spec tx to is_c changes (db_view dec s), s1)"
    "db_view dec s1 = db_view dec s" by (rule credit_refines)
  with assms(1) Crediting show ?thesis by (auto simp: on_ok_plan)
next
  case (Writing cs r)
  show ?thesis
  proof (cases cs)
    case (Cons c cs')
    obtain a acc where c: "c = (a, acc)" by (cases c)
    obtain w s1 where w: "db_set_account (coins a) a acc s = (w, s1)" by fastforce
    then have "db_view dec s1 = (db_view dec s)(a \<mapsto> acc)" using db_view_set [of dec "coins a" a acc s] by simp
    with assms Writing Cons c w show ?thesis by (cases w) auto
  qed (use assms(1) Writing in auto)
qed (use assms(1) in auto)

section \<open>Locality\<close>

definition same_on :: "address set \<Rightarrow> (address \<rightharpoonup> account) \<Rightarrow> (address \<rightharpoonup> account) \<Rightarrow> bool" where
  "same_on A V W \<longleftrightarrow> (\<forall>a \<in> A. V a = W a)"

text \<open>The accounts a running transaction still has to do with are those of \<open>tx\<close>.\<close>

fun run_in :: "state_tx \<Rightarrow> tx_run \<Rightarrow> bool" where
  "run_in tx (Validating t) \<longleftrightarrow> t = tx"
| "run_in tx (Charging t) \<longleftrightarrow> t = tx"
| "run_in tx (Calling t to changes) \<longleftrightarrow> t = tx \<and> stx_to tx = Some to \<and> map fst changes = [stx_from tx]"
| "run_in tx (Crediting t to is_c changes) \<longleftrightarrow> t = tx \<and> stx_to tx = Some to \<and> map fst changes = [stx_from tx]"
| "run_in tx (Writing cs r) \<longleftrightarrow> fst ` set cs \<subseteq> touched tx"
| "run_in tx (Finished r) \<longleftrightarrow> True"

lemma credit_keys:
  assumes "credit_spec tx to is_c changes V = Ok p" "stx_to tx = Some to" "map fst changes = [stx_from tx]"
  shows "fst ` set (plan_changes p) \<subseteq> touched tx"
proof -
  obtain y where c: "changes = [(stx_from tx, y)]" using assms(3) by (auto simp: map_eq_Cons_conv)
  have "fst ` set (plan_changes p) \<subseteq> {stx_from tx, to}"
    if "refund_spec tx gas ls (AList.update to x [(stx_from tx, y)]) = Ok p" for gas ls and x y :: account
    using refund_spec_Ok [OF that] by (auto simp: dom_update split: if_splits)
  with assms(1,2) c show ?thesis by (auto simp: credit_spec_def Let_def touched_def split: option.splits)
qed

lemma step_run_in:
  assumes "tx_step sha dec coins us st s = (st', s')" "run_in tx st" "stx_to tx \<noteq> None"
  shows "run_in tx st'"
proof (cases st)
  case (Validating t)
  obtain r s1 where "validate_transaction dec tx s = (r, s1)" by fastforce
  with Validating assms show ?thesis by (cases r) auto
next
  case (Charging t)
  obtain r s1 where "charge_sender dec tx s = (r, s1)" by fastforce
  with Charging assms show ?thesis by (cases r) auto
next
  case (Calling t to changes)
  with assms show ?thesis by (auto split: prod.splits if_splits)
next
  case (Crediting t to is_c changes)
  obtain s1 where c: "plan_credit dec tx to is_c changes s = (credit_spec tx to is_c changes (db_view dec s), s1)"
    by (rule credit_refines)
  with Crediting assms show ?thesis
    using credit_keys [of tx to is_c changes "db_view dec s"]
    by (cases "credit_spec tx to is_c changes (db_view dec s)") (auto simp: write_plan_def)
next
  case (Writing cs r)
  with assms show ?thesis
    by (cases cs) (auto split: prod.splits outcome.splits)
qed (use assms in auto)

lemma step_outside:
  assumes "tx_step sha dec coins us st s = (st', s')" "run_in tx st" "a \<notin> touched tx"
  shows "db_view dec s' a = db_view dec s a"
proof (cases st)
  case (Validating t)
  obtain r s1 where "validate_transaction dec t s = (r, s1)" "db_view dec s1 = db_view dec s" by (rule validate_refines)
  with Validating assms(1) show ?thesis by simp
next
  case (Charging t)
  obtain r s1 where "charge_sender dec t s = (r, s1)" "db_view dec s1 = db_view dec s" by (rule charge_refines)
  with Charging assms(1) show ?thesis by simp
next
  case (Calling t to changes)
  obtain c s1 where "db_is_contract dec to s = (c, s1)" "db_view dec s1 = db_view dec s" by (rule db_is_contract_cases)
  with Calling assms(1) show ?thesis by simp
next
  case (Crediting t to is_c changes)
  obtain r s1 where "plan_credit dec t to is_c changes s = (r, s1)" "db_view dec s1 = db_view dec s" by (rule credit_refines)
  with Crediting assms(1) show ?thesis by simp
next
  case (Writing cs r)
  show ?thesis
  proof (cases cs)
    case (Cons c cs')
    obtain b acc where c: "c = (b, acc)" by (cases c)
    obtain w s1 where w: "db_set_account (coins b) b acc s = (w, s1)" by fastforce
    then have "db_view dec s1 = (db_view dec s)(b \<mapsto> acc)" using db_view_set [of dec "coins b" b acc s] by simp
    moreover have "s' = s1" using assms(1) Writing Cons c w by (auto split: outcome.splits)
    moreover have "b \<noteq> a" using assms(2,3) Writing Cons c by auto
    ultimately show ?thesis by simp
  qed (use assms(1) Writing in auto)
qed (use assms(1) in auto)

lemma write_all_same: "same_on A V W \<Longrightarrow> same_on A (write_all cs V) (write_all cs W)"
proof (induction cs arbitrary: V W)
  case (Cons c cs)
  obtain a x where c: "c = (a, x)" by (cases c)
  have "same_on A (V(a \<mapsto> x)) (W(a \<mapsto> x))" using Cons.prems by (simp add: same_on_def)
  with Cons.IH c show ?case by simp
qed simp

lemma rest_local:
  assumes "run_in tx st" "stx_to tx \<noteq> None" "same_on (touched tx) V W"
  shows "fst (rest_of sha us st V) = fst (rest_of sha us st W) \<and>
    same_on (touched tx) (snd (rest_of sha us st V)) (snd (rest_of sha us st W))"
proof -
  obtain to where to: "stx_to tx = Some to" using assms(2) by blast
  have same: "V (stx_from tx) = W (stx_from tx)" "V to = W to" using assms(3) to by (auto simp: same_on_def touched_def)
  then have eq: "transfer_spec tx to cs V = transfer_spec tx to cs W" "credit_spec tx to is_c cs V = credit_spec tx to is_c cs W"
    "plan_spec sha tx V = plan_spec sha tx W" for cs is_c
    using plan_local [of tx V W sha] assms(2,3)
    by (simp_all add: transfer_spec_def credit_spec_def contract_at_def same_on_def)
  have plan: "fst (on_plan sha us tx V r) = fst (on_plan sha us tx W r) \<and>
      same_on (touched tx) (snd (on_plan sha us tx V r)) (snd (on_plan sha us tx W r))" for r
    using assms(3) by (cases r) (simp_all add: write_all_same)
  from plan to same eq assms write_all_same [OF assms(3)] show ?thesis
    by (cases st) (simp_all split: option.split)
qed

section \<open>A pool of transactions\<close>

definition outcome_of ::
  "(u8 list \<Rightarrow> h256) \<Rightarrow> u64 \<Rightarrow> (address \<rightharpoonup> account) \<Rightarrow> state_tx \<Rightarrow> (sm_error, tx_receipt) outcome \<times> (address \<rightharpoonup> account)" where
  "outcome_of sha us V tx = rest_of sha us (Validating tx) V"

definition receipt_list :: "(sm_error, tx_receipt) outcome \<Rightarrow> tx_receipt list" where
  "receipt_list r = (case r of Ok rc \<Rightarrow> [rc] | _ \<Rightarrow> [])"

lemma run_spec_outcome:
  "run_spec sha us tx (V, rs) = (snd (outcome_of sha us V tx), rs @ receipt_list (fst (outcome_of sha us V tx)))"
  by (cases "plan_spec sha tx V") (simp_all add: run_spec_def outcome_of_def receipt_list_def write_all_distinct plan_distinct)

definition holds :: "(address \<rightharpoonup> account) \<Rightarrow> (address \<times> account) list \<Rightarrow> bool" where
  "holds V cs \<longleftrightarrow> (\<forall>(a, x) \<in> set cs. V a = Some x)"

text \<open>
  A job of a worker: its transaction, how far it is, and the accounts collected so far. \<open>going\<close>: what is left of it on the
  accounts \<open>V\<close> gives what the whole transaction gives on the accounts \<open>V0\<close> the pool started from.
\<close>

type_synonym job = "state_tx \<times> tx_run \<times> (address \<times> account) list"

definition going ::
  "(u8 list \<Rightarrow> h256) \<Rightarrow> u64 \<Rightarrow> (address \<rightharpoonup> account) \<Rightarrow> (address \<rightharpoonup> account) \<Rightarrow> job \<Rightarrow> bool" where
  "going sha us V0 V = (\<lambda>(tx, st, cs).
     run_in tx st \<and> fst (rest_of sha us st V) = fst (outcome_of sha us V0 tx) \<and>
     same_on (touched tx) (snd (rest_of sha us st V)) (snd (outcome_of sha us V0 tx)) \<and>
     holds V cs \<and> fst ` set cs \<subseteq> touched tx)"

lemma same_on_sym: "same_on A V W \<Longrightarrow> same_on A W V"
  and same_on_trans: "same_on A V W \<Longrightarrow> same_on A W X \<Longrightarrow> same_on A V X"
  and same_on_refl [simp]: "same_on A V V"
  by (simp_all add: same_on_def)

lemma going_start: "stx_to tx \<noteq> None \<Longrightarrow> same_on (touched tx) V V0 \<Longrightarrow> going sha us V0 V (tx, Validating tx, [])"
  using rest_local [of tx "Validating tx" V V0 sha us] by (simp add: going_def outcome_of_def holds_def)

lemma going_step:
  assumes "going sha us V0 (db_view dec s) (tx, st, [])" "stx_to tx \<noteq> None"
    and "tx_step sha dec coins us st s = (st', s')" "st' \<noteq> Finished Hang"
  shows "going sha us V0 (db_view dec s') (tx, st', [])"
  using assms step_keeps_rest [OF assms(3,4)] step_run_in [OF assms(3) _ assms(2)]
  by (simp add: going_def holds_def)

lemma going_elsewhere:
  assumes "going sha us V0 V (tx, st, cs)" "stx_to tx \<noteq> None" "same_on (touched tx) V W"
  shows "going sha us V0 W (tx, st, cs)"
proof -
  have "fst (rest_of sha us st V) = fst (rest_of sha us st W)"
    "same_on (touched tx) (snd (rest_of sha us st V)) (snd (rest_of sha us st W))"
    using assms rest_local [of tx st V W sha us] by (simp_all add: going_def)
  moreover have "holds W cs" using assms by (fastforce simp: going_def holds_def same_on_def)
  moreover have "run_in tx st" "fst (rest_of sha us st V) = fst (outcome_of sha us V0 tx)"
    "same_on (touched tx) (snd (rest_of sha us st V)) (snd (outcome_of sha us V0 tx))" "fst ` set cs \<subseteq> touched tx"
    using assms(1) by (simp_all add: going_def)
  ultimately show ?thesis by (simp add: going_def same_on_def)
qed

lemma going_end:
  assumes "going sha us V0 V (tx, Finished r, cs)"
  shows "r = fst (outcome_of sha us V0 tx)" "same_on (touched tx) V (snd (outcome_of sha us V0 tx))" "holds V cs"
  using assms by (simp_all add: going_def)

text \<open>Transactions over disjoint accounts, in a list and in a multiset.\<close>

definition disjoint_txs :: "state_tx list \<Rightarrow> bool" where
  "disjoint_txs txs \<longleftrightarrow> (\<forall>tx \<in> set txs. stx_to tx \<noteq> None) \<and> sorted_wrt (\<lambda>t u. touched t \<inter> touched u = {}) txs"

lemma disjoint_txsD:
  assumes "disjoint_txs txs" "mset txs = add_mset tx M" "u \<in># M"
  shows "touched tx \<inter> touched u = {}"
proof -
  have "tx \<in> set txs" using assms(2) by (metis set_mset_mset union_single_eq_member)
  then obtain as bs where txs: "txs = as @ tx # bs" by (meson split_list)
  with assms(2) have "M = mset as + mset bs" by simp
  with assms(1,3) txs show ?thesis by (auto simp: disjoint_txs_def sorted_wrt_append)
qed

text \<open>
  The invariant of a pool that started with the transactions \<open>txs\<close> on the accounts \<open>V0\<close>: \<open>q\<close> are queued, \<open>J\<close> are the jobs of
  the workers, \<open>rs\<close> the results sent so far with the accounts collected for them.
\<close>

definition pool_inv ::
  "(u8 list \<Rightarrow> h256) \<Rightarrow> u64 \<Rightarrow> state_tx list \<Rightarrow> (address \<rightharpoonup> account) \<Rightarrow> state_tx list \<Rightarrow> job multiset
     \<Rightarrow> ((sm_error, tx_receipt) outcome \<times> (address \<times> account) list) list \<Rightarrow> (address \<rightharpoonup> account) \<Rightarrow> bool" where
  "pool_inv sha us txs V0 q J rs V \<longleftrightarrow>
     (\<exists>ended. mset txs = mset q + image_mset fst J + mset ended \<and>
        list_all2 (\<lambda>tx (r, cs). going sha us V0 V (tx, Finished r, cs)) ended rs) \<and>
     (\<forall>tx \<in> set q. same_on (touched tx) V V0) \<and> (\<forall>j \<in># J. going sha us V0 V j) \<and>
     (\<forall>a. (\<forall>tx \<in> set txs. a \<notin> touched tx) \<longrightarrow> V a = V0 a)"

lemma pool_start: "pool_inv sha us txs V txs {#} [] V"
  by (simp add: pool_inv_def)

lemma pool_in:
  assumes "pool_inv sha us txs V0 q J rs V"
  shows "set q \<subseteq> set txs" "j \<in># J \<Longrightarrow> fst j \<in> set txs"
proof -
  from assms obtain ended where m: "mset txs = mset q + image_mset fst J + mset ended" by (auto simp: pool_inv_def)
  from arg_cong [OF m, of set_mset] show "set q \<subseteq> set txs" by auto
  from arg_cong [OF m, of set_mset] show "j \<in># J \<Longrightarrow> fst j \<in> set txs" by auto
qed

lemma pool_take:
  assumes "pool_inv sha us txs V0 (tx # q) J rs V" "disjoint_txs txs"
  shows "pool_inv sha us txs V0 q (add_mset (tx, Validating tx, []) J) rs V"
proof -
  have "stx_to tx \<noteq> None" using pool_in(1) [OF assms(1)] assms(2) by (auto simp: disjoint_txs_def)
  with assms(1) show ?thesis by (auto simp: pool_inv_def going_start)
qed

lemma pool_send:
  assumes "pool_inv sha us txs V0 q (add_mset (tx, Finished r, cs) J) rs V"
  shows "pool_inv sha us txs V0 q J (rs @ [(r, cs)]) V"
proof -
  let ?P = "\<lambda>tx (r, cs). going sha us V0 V (tx, Finished r, cs)"
  from assms obtain ended where ended: "mset txs = mset q + image_mset fst (add_mset (tx, Finished r, cs) J) + mset ended"
    "list_all2 ?P ended rs" and g: "going sha us V0 V (tx, Finished r, cs)"
    by (auto simp: pool_inv_def)
  have "mset txs = mset q + image_mset fst J + mset (ended @ [tx])" using ended(1) by simp
  moreover have "list_all2 ?P (ended @ [tx]) (rs @ [(r, cs)])" using ended(2) g by (simp add: list_all2_appendI)
  ultimately have "\<exists>ended. mset txs = mset q + image_mset fst J + mset ended \<and> list_all2 ?P ended (rs @ [(r, cs)])" by blast
  with assms show ?thesis by (simp add: pool_inv_def)
qed

lemma pool_collect:
  assumes "pool_inv sha us txs V0 q (add_mset (tx, Finished r, cs) J) rs V" "V a = Some acc" "a \<in> touched tx"
  shows "pool_inv sha us txs V0 q (add_mset (tx, Finished r, cs @ [(a, acc)]) J) rs V"
  using assms by (auto simp: pool_inv_def going_def holds_def)

lemma pool_step_keeps:
  assumes "pool_inv sha us txs V0 q (add_mset (tx, st, []) J) rs (db_view dec s)" "disjoint_txs txs"
    and "tx_step sha dec coins us st s = (st', s')" "st' \<noteq> Finished Hang"
  shows "pool_inv sha us txs V0 q (add_mset (tx, st', []) J) rs (db_view dec s')"
proof -
  let ?V = "db_view dec s" and ?W = "db_view dec s'"
  from assms(1) obtain ended where ended: "mset txs = add_mset tx (mset q + image_mset fst J + mset ended)"
    "list_all2 (\<lambda>tx (r, cs). going sha us V0 ?V (tx, Finished r, cs)) ended rs"
    and g: "going sha us V0 ?V (tx, st, [])"
    and rest: "\<forall>u \<in> set q. same_on (touched u) ?V V0" "\<forall>j \<in># J. going sha us V0 ?V j"
      "\<forall>a. (\<forall>u \<in> set txs. a \<notin> touched u) \<longrightarrow> ?V a = V0 a"
    by (auto simp: pool_inv_def)
  have mem: "set txs = insert tx (set q \<union> fst ` set_mset J \<union> set ended)"
    using arg_cong [OF ended(1), of set_mset] by auto
  have to: "stx_to u \<noteq> None" if "u \<in> set txs" for u using assms(2) that by (auto simp: disjoint_txs_def)
  have out: "?W a = ?V a" if "a \<notin> touched tx" for a
    using step_outside [OF assms(3) _ that] g by (simp add: going_def)
  have same: "same_on (touched u) ?V ?W" if "u \<in># mset q + image_mset fst J + mset ended" for u
    using disjoint_txsD [OF assms(2) ended(1) that] out by (fastforce simp: same_on_def)
  have other: "going sha us V0 ?W (u, st1, cs)"
    if "going sha us V0 ?V (u, st1, cs)" "u \<in># mset q + image_mset fst J + mset ended" for u st1 cs
  proof (rule going_elsewhere [OF that(1) to same [OF that(2)]])
    show "u \<in> set txs" using that(2) mem by auto
  qed
  have "list_all2 (\<lambda>tx (r, cs). going sha us V0 ?W (tx, Finished r, cs)) ended rs"
    using ended(2) by (rule list.rel_mono_strong) (auto intro!: other simp: case_prod_beta)
  moreover have "going sha us V0 ?W (tx, st', [])" using going_step [OF g _ assms(3,4)] to mem by simp
  moreover have "\<forall>j \<in># J. going sha us V0 ?W j"
  proof
    fix j
    assume "j \<in># J"
    then have "fst j \<in># mset q + image_mset fst J + mset ended" "going sha us V0 ?V j" using rest(2) by auto
    then show "going sha us V0 ?W j" using other [of "fst j" "fst (snd j)" "snd (snd j)"] by simp
  qed
  moreover have "\<forall>u \<in> set q. same_on (touched u) ?W V0"
  proof
    fix u
    assume "u \<in> set q"
    then have "same_on (touched u) ?V ?W" "same_on (touched u) ?V V0" using same [of u] rest(1) by simp_all
    then show "same_on (touched u) ?W V0" by (simp add: same_on_def)
  qed
  moreover have "\<forall>a. (\<forall>u \<in> set txs. a \<notin> touched u) \<longrightarrow> ?W a = V0 a" using rest(3) out mem by auto
  moreover have "mset txs = mset q + image_mset fst (add_mset (tx, st', []) J) + mset ended" using ended(1) by simp
  ultimately show ?thesis unfolding pool_inv_def by (intro conjI exI [of _ ended]) simp_all
qed

text \<open>Transactions that ended one by one, each on its own accounts: running them in that order gives the same.\<close>

lemma ended_in_turn:
  assumes "list_all2 (\<lambda>tx r. r = fst (outcome_of sha us V0 tx) \<and> same_on (touched tx) V (snd (outcome_of sha us V0 tx))) ended rs"
    and "disjoint_txs ended" "\<forall>a. (\<forall>tx \<in> set ended. a \<notin> touched tx) \<longrightarrow> V a = V0 a"
  shows "fold (run_spec sha us) ended (V0, []) = (V, concat (map receipt_list rs))"
  using assms
proof (induction ended arbitrary: rs V0)
  case Nil
  then show ?case by (auto simp: fun_eq_iff)
next
  case (Cons tx ended rs')
  obtain r rs where rs': "rs' = r # rs" using Cons.prems(1) by (cases rs') simp_all
  have first: "r = fst (outcome_of sha us V0 tx)" "same_on (touched tx) V (snd (outcome_of sha us V0 tx))"
    and later: "list_all2 (\<lambda>tx r. r = fst (outcome_of sha us V0 tx) \<and> same_on (touched tx) V (snd (outcome_of sha us V0 tx))) ended rs"
    using Cons.prems(1) rs' by simp_all
  let ?W = "snd (outcome_of sha us V0 tx)"
  have step: "run_spec sha us tx (V0, []) = (?W, receipt_list r)" using first by (simp add: run_spec_outcome)
  have to: "stx_to tx \<noteq> None" "disjoint_txs ended" "\<And>u. u \<in> set ended \<Longrightarrow> touched tx \<inter> touched u = {}"
    using Cons.prems(2) by (simp_all add: disjoint_txs_def)
  have out: "?W a = V0 a" if "a \<notin> touched tx" for a
    using run_spec_outside [OF to(1) that, of sha us V0 "[]"] step by simp
  have "list_all2 (\<lambda>tx r. r = fst (outcome_of sha us ?W tx) \<and> same_on (touched tx) V (snd (outcome_of sha us ?W tx))) ended rs"
  proof (rule list.rel_mono_strong [OF later])
    fix u q
    assume u: "u \<in> set ended" "q \<in> set rs" and q: "q = fst (outcome_of sha us V0 u) \<and> same_on (touched u) V (snd (outcome_of sha us V0 u))"
    have "same_on (touched u) V0 ?W" using to(3) [OF u(1)] out by (fastforce simp: same_on_def)
    moreover have "stx_to u \<noteq> None" using u(1) to(2) by (simp add: disjoint_txs_def)
    ultimately have "fst (outcome_of sha us V0 u) = fst (outcome_of sha us ?W u) \<and>
        same_on (touched u) (snd (outcome_of sha us V0 u)) (snd (outcome_of sha us ?W u))"
      using rest_local [of u "Validating u" V0 ?W sha us] by (simp add: outcome_of_def)
    with q show "q = fst (outcome_of sha us ?W u) \<and> same_on (touched u) V (snd (outcome_of sha us ?W u))"
      by (simp add: same_on_def)
  qed
  moreover have "\<forall>a. (\<forall>u \<in> set ended. a \<notin> touched u) \<longrightarrow> V a = ?W a"
  proof (intro allI impI)
    fix a
    assume a: "\<forall>u \<in> set ended. a \<notin> touched u"
    show "V a = ?W a"
    proof (cases "a \<in> touched tx")
      case True
      with first(2) show ?thesis by (simp add: same_on_def)
    next
      case False
      with a Cons.prems(3) out show ?thesis by simp
    qed
  qed
  ultimately have "fold (run_spec sha us) ended (?W, []) = (V, concat (map receipt_list rs))"
    using Cons.IH to(2) by blast
  with step rs' show ?case by (simp add: fold_run_spec [of sha us ended ?W "receipt_list r"])
qed

lemma disjoint_txs_perm: "disjoint_txs txs \<Longrightarrow> mset txs = mset ys \<Longrightarrow> disjoint_txs ys"
proof (induction ys arbitrary: txs)
  case (Cons y ys)
  have "y \<in> set txs" using Cons.prems(2) by (metis list.set_intros(1) mset_eq_setD)
  then obtain as bs where txs: "txs = as @ y # bs" by (meson split_list)
  then have m: "mset (as @ bs) = mset ys" using Cons.prems(2) by simp
  have "disjoint_txs (as @ bs)" using Cons.prems(1) txs by (auto simp: disjoint_txs_def sorted_wrt_append)
  then have "disjoint_txs ys" using Cons.IH m by blast
  moreover have "touched y \<inter> touched u = {}" if "u \<in> set ys" for u
    using disjoint_txsD [OF Cons.prems(1), of y "mset ys" u] Cons.prems(2) that by simp
  moreover have "stx_to y \<noteq> None" using Cons.prems(1) txs by (simp add: disjoint_txs_def)
  ultimately show ?case by (simp add: disjoint_txs_def)
qed (simp add: disjoint_txs_def)

lemma pool_end:
  assumes "pool_inv sha us txs V0 [] {#} rs V" "disjoint_txs txs"
  obtains order where "mset order = mset txs" "fold (run_spec sha us) order (V0, []) = (V, concat (map (receipt_list \<circ> fst) rs))"
    "\<forall>(r, cs) \<in> set rs. holds V cs" "length rs = length txs"
proof -
  from assms(1) obtain ended where ended: "mset txs = mset ended"
    "list_all2 (\<lambda>tx (r, cs). going sha us V0 V (tx, Finished r, cs)) ended rs"
    and out: "\<forall>a. (\<forall>tx \<in> set txs. a \<notin> touched tx) \<longrightarrow> V a = V0 a"
    by (auto simp: pool_inv_def)
  have "list_all2 (\<lambda>tx r. r = fst (outcome_of sha us V0 tx) \<and> same_on (touched tx) V (snd (outcome_of sha us V0 tx)))
      ended (map fst rs)"
    unfolding list.rel_map using ended(2) by (rule list.rel_mono_strong) (auto dest: going_end)
  moreover have "disjoint_txs ended" using disjoint_txs_perm [OF assms(2) ended(1)] .
  moreover have "set ended = set txs" using mset_eq_setD [OF ended(1)] by simp
  ultimately have "fold (run_spec sha us) ended (V0, []) = (V, concat (map receipt_list (map fst rs)))"
    using out by (intro ended_in_turn) simp_all
  moreover have "\<forall>(r, cs) \<in> set rs. holds V cs"
    using ended(2) by (fastforce simp: list_all2_conv_all_nth in_set_conv_nth dest: going_end(3))
  moreover have "length rs = length txs"
    using list_all2_lengthD [OF ended(2)] mset_eq_length [OF ended(1)] by simp
  ultimately show thesis using that [of ended] ended(1) by simp
qed

text \<open>The jobs of a list of workers, when one of them makes a step.\<close>

definition jobs :: "('w \<Rightarrow> job list) \<Rightarrow> 'w list \<Rightarrow> job multiset" where
  "jobs job ws = mset (concat (map job ws))"

lemma jobs_update:
  assumes "i < length ws"
  obtains J where "jobs job ws = mset (job (ws ! i)) + J" "\<And>w. jobs job (ws[i := w]) = mset (job w) + J"
proof -
  have ws: "ws = take i ws @ ws ! i # drop (Suc i) ws" using assms by (simp add: id_take_nth_drop)
  have "jobs job (ws[i := w]) = mset (job w) + (jobs job (take i ws) + jobs job (drop (Suc i) ws))" for w
    using assms by (simp add: jobs_def upd_conv_take_nth_drop)
  moreover have "jobs job ws = mset (job (ws ! i)) + (jobs job (take i ws) + jobs job (drop (Suc i) ws))"
    by (subst ws) (simp add: jobs_def)
  ultimately show thesis by (intro that)
qed

end
