(* ===== verification/BlockProps.thy ===== *)
theory BlockProps
  imports Interleaving
begin

text \<open>Blocks of transactions: the groups a block is cut into, and what the schedules of the workers can do.\<close>

section \<open>Groups\<close>

definition before :: "nat \<Rightarrow> (address \<rightharpoonup> nat) \<Rightarrow> bool" where
  "before n last_tx \<longleftrightarrow> (\<forall>a i. last_tx a = Some i \<longrightarrow> i < n)"

lemma before_upd: "before n m \<Longrightarrow> before (Suc n) (m(a \<mapsto> n))"
  by (auto simp: before_def less_Suc_eq)

lemma before_again: "before (Suc n) m \<Longrightarrow> before (Suc n) (m(a \<mapsto> n))"
  by (auto simp: before_def)

lemma before_Suc: "before n m \<Longrightarrow> before (Suc n) m"
  by (auto simp: before_def less_Suc_eq)

text \<open>A transaction depends on earlier ones only; one that an account sends to itself may depend on itself.\<close>

lemma dependencies_are_earlier:
  assumes "before idx last_tx" "\<forall>tx \<in> set txs. stx_to tx \<noteq> Some (stx_from tx)"
    and "build_dependency_graph dec idx last_tx txs s = (g, s')"
  shows "length g = length txs \<and> (\<forall>k < length g. \<forall>d \<in> set (g ! k). d < idx + k)"
  using assms
proof (induction txs arbitrary: idx last_tx s g)
  case (Cons tx txs)
  let ?from = "case last_tx (stx_from tx) of None \<Rightarrow> [] | Some i \<Rightarrow> [i]"
  obtain deps m g' s1 where g: "g = deps # g'" "build_dependency_graph dec (Suc idx) m txs s1 = (g', s')"
    and deps: "\<forall>d \<in> set deps. d < idx" and m: "before (Suc idx) m"
  proof (cases "stx_to tx")
    case None
    with Cons.prems that [of ?from _ "last_tx(stx_from tx \<mapsto> idx)" s] before_upd [OF Cons.prems(1)] show thesis
      by (auto simp: Let_def before_def split: prod.splits option.splits)
  next
    case (Some to)
    obtain is_c s1 where c: "db_is_contract dec to s = (is_c, s1)" by (cases "db_is_contract dec to s")
    let ?last1 = "last_tx(stx_from tx \<mapsto> idx)"
    let ?deps = "?from @ (if is_c then (case ?last1 to of None \<Rightarrow> [] | Some i \<Rightarrow> [i]) else [])"
    let ?last2 = "if is_c then ?last1(to \<mapsto> idx) else ?last1"
    obtain g' s'' where r: "build_dependency_graph dec (Suc idx) ?last2 txs s1 = (g', s'')"
      by (cases "build_dependency_graph dec (Suc idx) ?last2 txs s1")
    have "to \<noteq> stx_from tx" using Cons.prems(2) Some by auto
    then have "?last1 to = last_tx to" by simp
    have "d < idx" if "d \<in> set ?deps" for d
    proof -
      have "last_tx (stx_from tx) = Some d \<or> last_tx to = Some d"
        using that unfolding \<open>?last1 to = last_tx to\<close> by (cases is_c) (auto split: option.splits)
      with Cons.prems(1) show ?thesis by (auto simp: before_def)
    qed
    then have "\<forall>d \<in> set ?deps. d < idx" by blast
    moreover have "before (Suc idx) ?last2"
      using before_upd [OF Cons.prems(1)] by (simp add: before_again)
    moreover have "build_dependency_graph dec idx last_tx (tx # txs) s = (?deps # g', s'')"
      using Some c r by (cases is_c) (simp_all add: Let_def del: fun_upd_apply)
    from this Cons.prems(3) have eq: "(?deps # g', s'') = (g, s')" by (rule trans [OF sym])
    ultimately show thesis using that [of ?deps g' ?last2 s1] r eq by blast
  qed
  have "length g' = length txs \<and> (\<forall>k < length g'. \<forall>d \<in> set (g' ! k). d < Suc idx + k)"
    using Cons.IH [OF m _ g(2)] Cons.prems(2) by simp
  with g(1) deps show ?case by (auto simp: nth_Cons split: nat.split)
qed simp

lemma group_pass_takes_all:
  assumes "\<forall>k < length txs. idx + k < length graph \<and> (\<forall>d \<in> set (graph ! (idx + k)). d < idx + k)"
  shows "group_pass graph idx txs (replicate idx True @ replicate (length txs) False) chosen
    = Some (replicate (idx + length txs) True, chosen @ txs)"
  using assms
proof (induction txs arbitrary: idx chosen)
  case (Cons tx txs)
  define p where "p = replicate idx True @ replicate (length (tx # txs)) False"
  have idx: "idx < length graph" "\<forall>d \<in> set (graph ! idx). d < idx"
    using Cons.prems [rule_format, of 0] by simp_all
  then have ready: "list_all (\<lambda>d. d < length p) (graph ! idx)" "list_all (\<lambda>d. p ! d) (graph ! idx)" "\<not> p ! idx"
    by (auto simp: list_all_iff nth_append p_def)
  have next_p: "p[idx := True] = replicate (Suc idx) True @ replicate (length txs) False"
    using list_update_length [of "replicate idx True" False "replicate (length txs) False" True]
    by (simp add: p_def replicate_app_Cons_same)
  have "\<forall>k < length txs. Suc idx + k < length graph \<and> (\<forall>d \<in> set (graph ! (Suc idx + k)). d < Suc idx + k)"
    using Cons.prems by (metis Suc_less_eq add_Suc_right add_Suc_shift length_Cons)
  from Cons.IH [OF this, of "chosen @ [tx]"] next_p idx(1) ready
  have "group_pass graph idx (tx # txs) p chosen = Some (replicate (Suc idx + length txs) True, (chosen @ [tx]) @ txs)"
    by (simp del: replicate_Suc)
  then show ?case by (simp add: p_def)
qed simp

lemma group_pass_skips:
  "idx + length txs \<le> n \<Longrightarrow> group_pass graph idx txs (replicate n True) chosen = Some (replicate n True, chosen)"
  by (induction txs arbitrary: idx) simp_all

text \<open>
  The dependency analysis separates nothing: a transaction is marked as processed the moment it is put into the
  group at hand, so transactions that depend on it follow into the same group. Every block, whatever its
  dependencies, becomes one group whose transactions run in parallel.
\<close>

theorem every_block_is_one_group:
  assumes "txs \<noteq> []" "\<forall>tx \<in> set txs. stx_to tx \<noteq> Some (stx_from tx)"
  shows "group_by_dependency txs (fst (build_dependency_graph dec 0 Map.empty txs s)) = Some [txs]"
proof -
  obtain g s' where b: "build_dependency_graph dec 0 Map.empty txs s = (g, s')"
    by (cases "build_dependency_graph dec 0 Map.empty txs s")
  have g: "length g = length txs" "\<forall>k < length g. \<forall>d \<in> set (g ! k). d < k"
    using dependencies_are_earlier [OF _ assms(2) b] by (simp_all add: before_def)
  have p: "group_pass g 0 txs (replicate (length txs) False) [] = Some (replicate (length txs) True, txs)"
    using group_pass_takes_all [of txs 0 g "[]"] g by simp
  have "group_loop g txs (replicate (length txs) True) = Some []"
    by (subst group_loop.simps) (simp add: group_pass_skips)
  then have "group_loop g txs (replicate (length txs) False) = Some [txs]"
    using assms(1) by (subst group_loop.simps) (simp add: p)
  with b show ?thesis by (simp add: group_by_dependency_def)
qed

section \<open>Disjoint groups\<close>

fun group_job :: "group_worker \<Rightarrow> job list" where
  "group_job (Running tx st) = [(tx, st, [])]"
| "group_job w = []"

definition group_inv ::
  "(u8 list \<Rightarrow> h256) \<Rightarrow> (u8 list \<Rightarrow> account option) \<Rightarrow> u64 \<Rightarrow> state_tx list \<Rightarrow> (address \<rightharpoonup> account)
     \<Rightarrow> group_worker list \<times> group_run \<Rightarrow> bool" where
  "group_inv sha dec us txs V0 = (\<lambda>(ws, g).
     (\<exists>tx. Running tx (Finished Hang) \<in> set ws) \<or>
     pool_inv sha us txs V0 (group_queue g) (jobs group_job ws) (map (\<lambda>r. (r, [])) (results g)) (db_view dec (shared_db g)) \<and>
     (group_queue g = [] \<or> ws \<noteq> [] \<and> Returned \<notin> set ws))"

lemma group_inv_step:
  assumes "group_inv sha dec us txs V0 (ws, g)" "disjoint_txs txs"
  shows "group_inv sha dec us txs V0 (pool_step (worker_step sha dec coins us) i (ws, g))"
proof (cases "i < length ws")
  case i: True
  obtain w g' where w: "worker_step sha dec coins us (ws ! i) g = (w, g')" by fastforce
  then have step: "pool_step (worker_step sha dec coins us) i (ws, g) = (ws[i := w], g')"
    using i by (simp add: pool_step_def)
  have stay: ?thesis if "w = ws ! i" "g' = g" using assms(1) step that by simp
  show ?thesis
  proof (cases "\<exists>tx. Running tx (Finished Hang) \<in> set ws")
    case True
    then obtain tx j where j: "j < length ws" "ws ! j = Running tx (Finished Hang)" by (auto simp: in_set_conv_nth)
    then have "ws[i := w] ! j = Running tx (Finished Hang)" using w i by (cases "i = j") auto
    then have "Running tx (Finished Hang) \<in> set (ws[i := w])" using j(1) by (metis length_list_update nth_mem)
    with step show ?thesis by (auto simp: group_inv_def)
  next
    case False
    obtain J where J: "jobs group_job ws = mset (group_job (ws ! i)) + J"
      "\<And>w. jobs group_job (ws[i := w]) = mset (group_job w) + J" using jobs_update [OF i] by blast
    have inv: "pool_inv sha us txs V0 (group_queue g) (mset (group_job (ws ! i)) + J) (map (\<lambda>r. (r, [])) (results g))
        (db_view dec (shared_db g))" "group_queue g = [] \<or> ws \<noteq> [] \<and> Returned \<notin> set ws"
      using assms(1) False J(1) by (simp_all add: group_inv_def)
    have keep: "v \<noteq> Returned \<Longrightarrow> group_queue g = [] \<or> ws[i := v] \<noteq> [] \<and> Returned \<notin> set (ws[i := v])" for v
      using inv(2) set_update_subset_insert [of ws i v] by auto
    show ?thesis
    proof (cases "ws ! i")
      case Receiving
      with w inv keep J(2) assms(2) step show ?thesis
        by (auto simp: group_inv_def intro: pool_take split: list.splits)
    next
      case (Running tx st)
      show ?thesis
      proof (cases "\<exists>r. st = Finished r")
        case True
        then obtain r where r: "st = Finished r" by blast
        show ?thesis
        proof (cases "r = Panic \<or> r = Hang")
          case False
          then have "w = Receiving" "g' = g\<lparr>results := results g @ [r]\<rparr>" using w Running r by (cases r; simp)+
          moreover have "pool_inv sha us txs V0 (group_queue g) J (map (\<lambda>r. (r, [])) (results g) @ [(r, [])]) (db_view dec (shared_db g))"
            using inv(1) Running r by (intro pool_send) simp
          ultimately show ?thesis using step keep [of w] J(2) by (simp add: group_inv_def)
        next
          case True
          with w Running r show ?thesis by (intro stay) auto
        qed
      next
        case running: False
        obtain st' s' where t: "tx_step sha dec coins us st (shared_db g) = (st', s')" by fastforce
        with running w Running have "w = Running tx st'" "g' = g\<lparr>shared_db := s'\<rparr>" by (cases st; simp)+
        moreover have "pool_inv sha us txs V0 (group_queue g) (add_mset (tx, st', []) J) (map (\<lambda>r. (r, [])) (results g))
            (db_view dec s')" if "st' \<noteq> Finished Hang"
          using pool_step_keeps [OF _ assms(2) t that] inv(1) Running by simp
        ultimately show ?thesis
          using step keep [of w] J(2) set_update_memI [OF i, of w] by (cases "st' = Finished Hang") (auto simp: group_inv_def)
      qed
    next
      case Returned
      with w show ?thesis by (intro stay) simp_all
    qed
  qed
qed (use assms in \<open>simp add: pool_step_def\<close>)

lemma group_inv_run:
  "group_inv sha dec us txs V0 x \<Longrightarrow> disjoint_txs txs \<Longrightarrow>
     group_inv sha dec us txs V0 (run (pool_step (worker_step sha dec coins us)) sched x)"
proof (induction sched arbitrary: x)
  case (Cons i sched)
  obtain ws g where "x = (ws, g)" by (cases x)
  with Cons group_inv_step [of sha dec us txs V0 ws g coins i] show ?case by simp
qed simp

lemma join_workers_Ok: "join_workers ws = Ok u \<longleftrightarrow> set ws \<subseteq> {Returned}"
  by (induction ws rule: join_workers.induct) auto

lemma first_error_Ok: "first_error rs = Ok l \<Longrightarrow> rs = map Ok l"
  by (induction rs arbitrary: l rule: first_error.induct) (auto split: outcome.splits)

text \<open>
  C35: transactions over disjoint accounts may interleave. When a group of transfers and calls, no two of which share a
  sender or recipient, completes without an error, then whatever the schedule of its workers, all of them are executed, and
  the accounts and the receipts are those of running them one after the other in some order.
\<close>

theorem disjoint_group_is_serialisable:
  assumes "\<forall>tx \<in> set txs. stx_to tx \<noteq> None" "sorted_wrt (\<lambda>t u. touched t \<inter> touched u = {}) txs"
    and "execute_group_parallel sha dec coins us sched txs s = (Ok rs, s')"
  shows "\<exists>order. mset order = mset txs \<and> length rs = length txs \<and>
    fold (run_spec sha us) order (db_view dec s, []) = (db_view dec s', rs)"
proof -
  have dis: "disjoint_txs txs" using assms(1,2) by (simp add: disjoint_txs_def)
  obtain ws g where g: "run (pool_step (worker_step sha dec coins us)) sched (group_start txs s) = (ws, g)" by fastforce
  have "jobs group_job (replicate n Receiving) = {#}" for n by (simp add: jobs_def)
  then have "group_inv sha dec us txs (db_view dec s) (group_start txs s)"
    by (auto simp: group_inv_def group_start_def pool_start max_parallel_workers_def)
  from group_inv_run [OF this dis, of coins sched] have inv: "group_inv sha dec us txs (db_view dec s) (ws, g)" by (simp add: g)
  have join: "join_workers ws = Ok ()" "first_error (results g) = Ok rs" "s' = shared_db g"
    using assms(3) g by (auto simp: execute_group_parallel_def collect_results_def Let_def split: outcome.splits)
  then have ws: "set ws \<subseteq> {Returned}" by (simp add: join_workers_Ok)
  then have "jobs group_job ws = {#}" by (induction ws) (auto simp: jobs_def)
  moreover have "group_queue g = []" using inv ws by (cases ws) (auto simp: group_inv_def)
  ultimately have fin: "pool_inv sha us txs (db_view dec s) [] {#} (map (\<lambda>r. (r, [])) (results g)) (db_view dec s')"
    using inv ws join(3) by (auto simp: group_inv_def)
  let ?sent = "map (\<lambda>r. (r, [] :: (address \<times> account) list)) (results g)"
  have rs: "concat (map (receipt_list \<circ> fst) ?sent) = rs" "length ?sent = length rs"
  proof -
    have "concat (map receipt_list (map Ok l)) = l" for l by (induction l) (simp_all add: receipt_list_def)
    then show "concat (map (receipt_list \<circ> fst) ?sent) = rs" "length ?sent = length rs"
      using first_error_Ok [OF join(2)] by (simp_all add: comp_def)
  qed
  show ?thesis
  proof (rule pool_end [OF fin dis], unfold rs)
    fix order
    assume "mset order = mset txs" "fold (run_spec sha us) order (db_view dec s, []) = (db_view dec s', rs)" "length rs = length txs"
    then show ?thesis by blast
  qed
qed

section \<open>Schedules\<close>

text \<open>The moves of one worker while the others wait.\<close>

definition leads ::
  "(u8 list \<Rightarrow> h256) \<Rightarrow> (u8 list \<Rightarrow> account option) \<Rightarrow> (address \<Rightarrow> bool list) \<Rightarrow> u64 \<Rightarrow> group_worker \<times> group_run
     \<Rightarrow> group_worker \<times> group_run \<Rightarrow> bool" where
  "leads sha dec coins us x y \<longleftrightarrow> (\<exists>n. ((\<lambda>(w, g). worker_step sha dec coins us w g) ^^ n) x = y)"

lemma leads_refl: "leads sha dec coins us x x"
  unfolding leads_def by (rule exI [of _ 0]) simp

lemma leads_step: "worker_step sha dec coins us w g = x \<Longrightarrow> leads sha dec coins us x y \<Longrightarrow> leads sha dec coins us (w, g) y"
  unfolding leads_def by (metis (mono_tags, lifting) comp_apply funpow_Suc_right split_conv)

lemma leads_trans: "leads sha dec coins us x y \<Longrightarrow> leads sha dec coins us y z \<Longrightarrow> leads sha dec coins us x z"
  unfolding leads_def by (metis comp_apply funpow_add)

lemma leads_pool:
  assumes "leads sha dec coins us (w, g) (w', g')" "i < length ws" "ws ! i = w"
  shows "\<exists>sched. run (pool_step (worker_step sha dec coins us)) sched (ws, g) = (ws[i := w'], g')"
proof -
  obtain n where "((\<lambda>(w, g). worker_step sha dec coins us w g) ^^ n) (w, g) = (w', g')" using assms(1) by (auto simp: leads_def)
  then have "run (pool_step (worker_step sha dec coins us)) (replicate n i) (ws, g) = (ws[i := w'], g')"
    using assms(2,3)
  proof (induction n arbitrary: w g ws)
    case (Suc n)
    obtain v h where v: "worker_step sha dec coins us w g = (v, h)" by fastforce
    with Suc.prems Suc.IH [of v h "ws[i := v]"] show ?case by (simp add: funpow_Suc_right pool_step_def del: funpow.simps)
  qed auto
  then show ?thesis by blast
qed

lemma leads_tx:
  assumes "tx_step sha dec coins us st (shared_db g) = (st', s')" "\<And>r. st \<noteq> Finished r"
  shows "leads sha dec coins us (Running tx st, g) (Running tx st', g\<lparr>shared_db := s'\<rparr>)"
proof (rule leads_step [OF _ leads_refl])
  show "worker_step sha dec coins us (Running tx st) g = (Running tx st', g\<lparr>shared_db := s'\<rparr>)"
  proof (cases st)
    case (Finished r)
    with assms(2) show ?thesis by blast
  qed (use assms in \<open>simp_all del: tx_step.simps\<close>)
qed

lemma writes_lead:
  "leads sha dec coins us (Running tx (Writing cs r), g)
     (Running tx (Finished (fst (and_then (apply_changes coins cs (shared_db g)) (\<lambda>_ s. (Ok r, s))))),
      g\<lparr>shared_db := snd (apply_changes coins cs (shared_db g))\<rparr>)"
proof (induction cs arbitrary: g)
  case Nil
  show ?case by (rule leads_step [OF _ leads_refl]) simp
next
  case (Cons c cs)
  obtain a acc where c: "c = (a, acc)" by (cases c)
  obtain w s1 where w: "db_set_account (coins a) a acc (shared_db g) = (w, s1)" by fastforce
  have "w = Ok () \<or> w = Hang" using db_set_outcome [of "coins a" a acc "shared_db g"] w by simp
  then show ?case
  proof
    assume "w = Ok ()"
    with w c Cons.IH [of "g\<lparr>shared_db := s1\<rparr>"] show ?thesis by (intro leads_step [where w = "Running _ _"]) simp_all
  next
    assume "w = Hang"
    with w c show ?thesis by (intro leads_step [OF _ leads_refl]) simp
  qed
qed

lemma reads_lead:
  assumes "plan_transaction sha dec tx (shared_db g) = (r, s')"
  shows "leads sha dec coins us (Running tx (Validating tx), g) (Running tx (on_ok r (write_plan sha us tx)), g\<lparr>shared_db := s'\<rparr>)"
proof -
  obtain r1 s1 where v: "validate_transaction dec tx (shared_db g) = (r1, s1)" by fastforce
  have l1: "leads sha dec coins us (Running tx (Validating tx), g) (Running tx (on_ok r1 (\<lambda>_. Charging tx)), g\<lparr>shared_db := s1\<rparr>)"
    by (rule leads_tx) (simp_all add: v)
  show ?thesis
  proof (cases r1)
    case Ok1: (Ok u)
    obtain r2 s2 where c: "charge_sender dec tx s1 = (r2, s2)" by fastforce
    let ?next = "\<lambda>acc. case stx_to tx of
        Some to \<Rightarrow> Calling tx to [(stx_from tx, acc)]
      | None \<Rightarrow> on_ok (fst (plan_creation sha tx (acc_nonce acc - 1) [(stx_from tx, acc)] s2)) (write_plan sha us tx)"
    have l2: "leads sha dec coins us (Running tx (Charging tx), g\<lparr>shared_db := s1\<rparr>) (Running tx (on_ok r2 ?next), g\<lparr>shared_db := s2\<rparr>)"
      using leads_tx [of sha dec coins us "Charging tx" "g\<lparr>shared_db := s1\<rparr>"] c by simp
    have start: "leads sha dec coins us (Running tx (Validating tx), g) (Running tx (on_ok r2 ?next), g\<lparr>shared_db := s2\<rparr>)"
      using leads_trans [OF l1] l2 Ok1 by simp
    show ?thesis
    proof (cases r2)
      case Ok2: (Ok acc)
      show ?thesis
      proof (cases "stx_to tx")
        case None
        with start assms v c Ok1 Ok2 plan_creation_spec [of sha tx "acc_nonce acc - 1" "[(stx_from tx, acc)]" s2] show ?thesis
          by (auto simp: plan_transaction_def)
      next
        case (Some to)
        obtain is_c s3 where ic: "db_is_contract dec to s2 = (is_c, s3)" by fastforce
        let ?call = "if is_c \<and> stx_gas_limit tx < call_gas tx is_c then Finished (Err GasLimitExceeded)
            else Crediting tx to is_c [(stx_from tx, acc)]"
        have l3: "leads sha dec coins us (Running tx (Calling tx to [(stx_from tx, acc)]), g\<lparr>shared_db := s2\<rparr>)
            (Running tx ?call, g\<lparr>shared_db := s3\<rparr>)"
          using leads_tx [of sha dec coins us "Calling tx to [(stx_from tx, acc)]" "g\<lparr>shared_db := s2\<rparr>"] ic by simp
        obtain r4 s4 where cr: "plan_credit dec tx to is_c [(stx_from tx, acc)] s3 = (r4, s4)" by fastforce
        have l4: "leads sha dec coins us (Running tx (Crediting tx to is_c [(stx_from tx, acc)]), g\<lparr>shared_db := s3\<rparr>)
            (Running tx (on_ok r4 (write_plan sha us tx)), g\<lparr>shared_db := s4\<rparr>)"
          using leads_tx [of sha dec coins us "Crediting tx to is_c [(stx_from tx, acc)]" "g\<lparr>shared_db := s3\<rparr>"] cr by simp
        have "plan_transfer dec tx to [(stx_from tx, acc)] s2 = (r, s')"
          using assms v c Ok1 Ok2 Some by (simp add: plan_transaction_def)
        then have plan: "(r, s') = (if is_c \<and> stx_gas_limit tx < call_gas tx is_c then (Err GasLimitExceeded, s3) else (r4, s4))"
          unfolding plan_transfer_def ic split_conv cr by (rule sym)
        have "leads sha dec coins us (Running tx (Validating tx), g) (Running tx ?call, g\<lparr>shared_db := s3\<rparr>)"
          using leads_trans [OF _ l3] start Ok2 Some by simp
        then show ?thesis using plan leads_trans [OF _ l4] by (auto split: if_splits)
      qed
    qed (use start assms v c Ok1 in \<open>auto simp: plan_transaction_def\<close>)
  qed (use l1 assms v in \<open>auto simp: plan_transaction_def\<close>)
qed

lemma execution_leads:
  assumes "execute_single_transaction sha dec coins us tx (shared_db g) = (r, s')"
  shows "leads sha dec coins us (Running tx (Validating tx), g) (Running tx (Finished r), g\<lparr>shared_db := s'\<rparr>)"
proof -
  obtain r1 s1 where p: "plan_transaction sha dec tx (shared_db g) = (r1, s1)" by fastforce
  note reads = reads_lead [OF p, of coins us]
  show ?thesis
  proof (cases r1)
    case (Ok pl)
    have "leads sha dec coins us (Running tx (Writing (plan_changes pl) (receipt_of sha us tx pl)), g\<lparr>shared_db := s1\<rparr>)
        (Running tx (Finished r), g\<lparr>shared_db := s'\<rparr>)"
      using writes_lead [of sha dec coins us tx "plan_changes pl" "receipt_of sha us tx pl" "g\<lparr>shared_db := s1\<rparr>"] assms p Ok
      by (cases "apply_changes coins (plan_changes pl) s1"; cases "fst (apply_changes coins (plan_changes pl) s1)")
        (simp_all add: execute_single_transaction_def)
    with leads_trans [OF reads] Ok show ?thesis by (simp add: write_plan_def)
  qed (use reads assms p in \<open>auto simp: execute_single_transaction_def\<close>)
qed

text \<open>
  A block is not atomic. When its first transaction succeeds and its second one is refused, the block reports the
  error and no receipt, but the first transaction's changes stay in the database.
\<close>

theorem failed_block_keeps_its_changes:
  assumes "execute_single_transaction sha dec coins us tx1 s = (Ok r, s1)"
    and "execute_single_transaction sha dec coins us tx2 s1 = (Err e, s2)"
  shows "\<exists>sched s'. execute_group_parallel sha dec coins us sched [tx1, tx2] s = (Err e, s') \<and>
    db_view dec s' = db_view dec s1"
proof -
  let ?g = "\<lambda>q rs s. \<lparr> group_queue = q, results = rs, shared_db = s \<rparr>"
  have view: "db_view dec s2 = db_view dec s1" using refused_transaction_changes_nothing [OF assms(2)] by simp
  have first: "leads sha dec coins us (Receiving, ?g [tx1, tx2] [] s) (Running tx1 (Finished (Ok r)), ?g [tx2] [] s1)"
    using execution_leads [of sha dec coins us tx1 "?g [tx2] [] s"] assms(1) by (intro leads_step) simp_all
  have second: "leads sha dec coins us (Running tx1 (Finished (Ok r)), ?g [tx2] [] s1) (Running tx2 (Finished (Err e)), ?g [] [Ok r] s2)"
    using execution_leads [of sha dec coins us tx2 "?g [] [Ok r] s1"] assms(2)
    by (intro leads_step [OF refl]) (simp, intro leads_step [OF refl], simp)
  have third: "leads sha dec coins us (Running tx2 (Finished (Err e)), ?g [] [Ok r] s2) (Returned, ?g [] [Ok r, Err e] s2)"
    by (rule leads_step [OF refl], simp, rule leads_step [OF refl], simp, rule leads_refl)
  let ?step = "pool_step (worker_step sha dec coins us)"
  obtain sched where "run ?step sched ([Receiving, Receiving], ?g [tx1, tx2] [] s) = ([Returned, Receiving], ?g [] [Ok r, Err e] s2)"
    using leads_pool [OF leads_trans [OF leads_trans [OF first second] third], of 0 "[Receiving, Receiving]"] by auto
  then have "run ?step (sched @ [1]) (group_start [tx1, tx2] s) = ([Returned, Returned], ?g [] [Ok r, Err e] s2)"
    by (simp add: group_start_def run_append max_parallel_workers_def pool_step_def)
  then have "execute_group_parallel sha dec coins us (sched @ [1]) [tx1, tx2] s = (Err e, s2)"
    by (simp add: execute_group_parallel_def collect_results_def)
  with view show ?thesis by blast
qed

text \<open>Executing an empty block panics, after it has stored nothing: the average time divides by the number of transactions.\<close>

theorem empty_block_panics:
  "execute_transactions_parallel sha dec coins us scheds [] m = (Panic, m)"
proof -
  have "group_loop [] [] [] = Some []" by (subst group_loop.simps) simp
  then show ?thesis by (simp add: execute_transactions_parallel_def group_by_dependency_def)
qed

section \<open>Interleaved transfers\<close>

text \<open>Room in the account cache for \<open>n\<close> more accounts, so that nothing is evicted.\<close>

definition room :: "nat \<Rightarrow> state_db \<Rightarrow> bool" where
  "room n s \<longleftrightarrow> \<not> dirty_taken s \<and> length (accounts s) + n \<le> cache_size"

lemma room_less: "room m s \<Longrightarrow> n \<le> m \<Longrightarrow> room n s"
  by (simp add: room_def)

lemma room_get: "room (Suc n) s \<Longrightarrow> room n (snd (db_get_account dec a s))"
  by (auto simp: room_def db_get_account_def split: option.split
      intro!: le_trans [OF add_le_mono1 [OF length_update_le]])

lemma room_set:
  assumes "room (Suc n) s"
  shows "\<exists>s'. db_set_account c a acc s = (Ok (), s') \<and> room n s'"
  using assms length_update_le [of a acc "accounts s"]
  by (auto simp: room_def db_set_account_def Let_def)

lemma room_pair:
  "room (Suc n) s \<Longrightarrow> db_get_account dec a s = (r, s') \<Longrightarrow> room n s'"
  using room_get [of n s dec a] by simp

lemma room_validate: "room (Suc n) s \<Longrightarrow> room n (snd (validate_transaction dec tx s))"
  by (auto simp: validate_transaction_def or_panic_def room_less [of "Suc n" s n]
      split: option.split prod.split dest: room_pair)

lemma room_contract: "room (Suc n) s \<Longrightarrow> db_is_contract dec a s = (r, s') \<Longrightarrow> room n s'"
  using room_get [of n s dec a] by (auto simp: db_is_contract_def split: prod.splits)

lemma room_transfer: "room (n + 2) s \<Longrightarrow> room n (snd (plan_transfer dec tx to changes s))"
proof -
  assume r: "room (n + 2) s"
  obtain c s1 where c: "db_is_contract dec to s = (c, s1)" by (cases "db_is_contract dec to s")
  obtain y s2 where g: "db_get_account dec to s1 = (y, s2)" by (cases "db_get_account dec to s1")
  have r1: "room (Suc n) s1" using room_contract [OF _ c, of "Suc n"] r by simp
  with g room_pair [OF r1 g] room_less [OF r1, of n] show ?thesis
    by (simp add: plan_transfer_def plan_credit_def c g or_panic_def refund_gas_spec Let_def split: option.split)
qed

lemma room_plan: "room (n + 4) s \<Longrightarrow> room n (snd (plan_transaction sha dec tx s))"
proof -
  assume r: "room (n + 4) s"
  obtain x s1 where v: "validate_transaction dec tx s = (x, s1)" by (cases "validate_transaction dec tx s")
  with r have r1: "room (n + 3) s1" using room_validate [of "n + 3" s dec tx] by (simp add: eval_nat_numeral)
  obtain y s2 where g: "db_get_account dec (stx_from tx) s1 = (y, s2)" by (cases "db_get_account dec (stx_from tx) s1")
  with r1 have r2: "room (n + 2) s2" using room_pair [of "n + 2" s1] by (simp add: eval_nat_numeral)
  have "room n (snd (plan_transfer dec tx to cs s2))" for to cs using room_transfer r2 by blast
  moreover have "room n (snd (plan_creation sha tx k cs s2))" for k cs
    using r2 by (subst plan_creation_spec) (simp add: room_less [of "n + 2"])
  moreover have "room n s1" "room n s2" using r1 r2 by (auto intro: room_less)
  ultimately show ?thesis
    by (cases x) (auto simp: plan_transaction_def charge_sender_def v g or_panic_def Let_def split: option.split)
qed

lemma execute_Ok_plan:
  assumes "execute_single_transaction sha dec coins us tx s = (Ok r, s')"
  obtains p where "plan_spec sha tx (db_view dec s) = Ok p" "r = receipt_of sha us tx p"
  using execute_cases [OF assms] by (auto split: outcome.splits)

lemma apply_changes_room:
  assumes "distinct (map fst cs)" "room (n + length cs) s"
  obtains s' where "apply_changes coins cs s = (Ok (), s')" "db_view dec s' = db_view dec s ++ map_of cs" "room n s'"
proof -
  have "\<exists>s'. apply_changes coins cs s = (Ok (), s') \<and> room n s'" using assms(2)
  proof (induction cs arbitrary: s)
    case (Cons c cs)
    obtain a acc where c: "c = (a, acc)" by (cases c)
    obtain s1 where "db_set_account (coins a) a acc s = (Ok (), s1)" "room (n + length cs) s1"
      using room_set [of "n + length cs" s "coins a" a acc] Cons.prems by auto
    with Cons.IH [of s1] c show ?case by simp
  qed simp
  then obtain s' where s': "apply_changes coins cs s = (Ok (), s')" "room n s'" by blast
  with apply_changes_cases [OF assms(1) s'(1), of dec] that show thesis by auto
qed

text \<open>Both tasks read before either writes.\<close>

lemma plan_changes_length:
  assumes "plan_spec sha tx V = Ok p"
  shows "length (plan_changes p) = 1 \<or> length (plan_changes p) = 2"
proof -
  have "length (plan_changes p) = 1 \<or> length (plan_changes p) = 2"
    if "refund_spec tx gas ls (AList.update a x [(stx_from tx, y)]) = Ok p" for gas ls a x and y :: account
    using refund_spec_Ok [OF that] by (auto split: if_splits)
  with assms show ?thesis
    by (auto simp: plan_spec_def transfer_spec_def plan_creation_def Let_def refund_gas_spec
        split: outcome.splits option.splits if_splits)
qed

lemma read_read_write_write:
  assumes "plan_spec sha tx0 (db_view dec s) = Ok p0" "plan_spec sha tx1 (db_view dec s) = Ok p1" "room 12 s"
  shows "\<exists>sched s'. execute_group_parallel sha dec coins us sched [tx0, tx1] s =
      (Ok [receipt_of sha us tx0 p0, receipt_of sha us tx1 p1], s') \<and>
    db_view dec s' = db_view dec s ++ map_of (plan_changes p0) ++ map_of (plan_changes p1)"
proof -
  let ?V = "db_view dec s" and ?r0 = "receipt_of sha us tx0 p0" and ?r1 = "receipt_of sha us tx1 p1"
  let ?step = "pool_step (worker_step sha dec coins us)" and ?leads = "leads sha dec coins us"
  let ?g = "\<lambda>q rs s. \<lparr> group_queue = q, results = rs, shared_db = s \<rparr>"
  let ?w0 = "Running tx0 (Writing (plan_changes p0) ?r0)" and ?w1 = "Running tx1 (Writing (plan_changes p1) ?r1)"
  obtain s1 where s1: "plan_transaction sha dec tx0 s = (Ok p0, s1)" "db_view dec s1 = ?V"
    using plan_refines [of sha dec tx0 s] assms(1) by metis
  then have "room 8 s1" using room_plan [of 8 s sha dec tx0] assms(3) by simp
  obtain s2 where s2: "plan_transaction sha dec tx1 s1 = (Ok p1, s2)" "db_view dec s2 = ?V"
    using plan_refines [of sha dec tx1 s1] assms(2) s1(2) by metis
  then have "room 4 s2" using room_plan [of 4 s1 sha dec tx1] \<open>room 8 s1\<close> by simp
  have len: "length (plan_changes p0) \<le> 2" "length (plan_changes p1) \<le> 2"
    using plan_changes_length [OF assms(1)] plan_changes_length [OF assms(2)] by auto
  with \<open>room 4 s2\<close> have "room (2 + length (plan_changes p0)) s2" by (auto intro: room_less)
  then obtain s3 where s3: "apply_changes coins (plan_changes p0) s2 = (Ok (), s3)"
      "db_view dec s3 = ?V ++ map_of (plan_changes p0)" "room 2 s3"
    using apply_changes_room [OF plan_distinct [OF assms(1)], of 2 s2 coins dec] s2(2) by metis
  then have "room (0 + length (plan_changes p1)) s3" using len(2) by (auto intro: room_less)
  then obtain s4 where s4: "apply_changes coins (plan_changes p1) s3 = (Ok (), s4)"
      "db_view dec s4 = ?V ++ map_of (plan_changes p0) ++ map_of (plan_changes p1)"
    using apply_changes_room [OF plan_distinct [OF assms(2)], of 0 s3 coins dec] s3(2) by metis
  have "?leads (Receiving, ?g [tx0, tx1] [] s) (?w0, ?g [tx1] [] s1)"
    using reads_lead [of sha dec tx0 "?g [tx1] [] s" "Ok p0" s1 coins us] s1(1) by (intro leads_step) (simp_all add: write_plan_def)
  from leads_pool [OF this, of 0 "[Receiving, Receiving]"] obtain a where
    a: "run ?step a ([Receiving, Receiving], ?g [tx0, tx1] [] s) = ([?w0, Receiving], ?g [tx1] [] s1)" by auto
  have "?leads (Receiving, ?g [tx1] [] s1) (?w1, ?g [] [] s2)"
    using reads_lead [of sha dec tx1 "?g [] [] s1" "Ok p1" s2 coins us] s2(1) by (intro leads_step) (simp_all add: write_plan_def)
  from leads_pool [OF this, of 1 "[?w0, Receiving]"] obtain b where
    b: "run ?step b ([?w0, Receiving], ?g [tx1] [] s1) = ([?w0, ?w1], ?g [] [] s2)" by auto
  have "?leads (?w0, ?g [] [] s2) (Returned, ?g [] [Ok ?r0] s3)"
    using leads_trans [OF writes_lead [of sha dec coins us tx0 "plan_changes p0" ?r0 "?g [] [] s2"]] s3(1)
    by (simp add: leads_step [OF _ leads_step [OF _ leads_refl]])
  from leads_pool [OF this, of 0 "[?w0, ?w1]"] obtain c where
    c: "run ?step c ([?w0, ?w1], ?g [] [] s2) = ([Returned, ?w1], ?g [] [Ok ?r0] s3)" by auto
  have "?leads (?w1, ?g [] [Ok ?r0] s3) (Returned, ?g [] [Ok ?r0, Ok ?r1] s4)"
    using leads_trans [OF writes_lead [of sha dec coins us tx1 "plan_changes p1" ?r1 "?g [] [Ok ?r0] s3"]] s4(1)
    by (simp add: leads_step [OF _ leads_step [OF _ leads_refl]])
  from leads_pool [OF this, of 1 "[Returned, ?w1]"] obtain d where
    d: "run ?step d ([Returned, ?w1], ?g [] [Ok ?r0] s3) = ([Returned, Returned], ?g [] [Ok ?r0, Ok ?r1] s4)" by auto
  have "run ?step (a @ b @ c @ d) (group_start [tx0, tx1] s) = ([Returned, Returned], ?g [] [Ok ?r0, Ok ?r1] s4)"
    using a b c d by (simp add: run_append group_start_def max_parallel_workers_def)
  then have "execute_group_parallel sha dec coins us (a @ b @ c @ d) [tx0, tx1] s = (Ok [?r0, ?r1], s4)"
    by (simp add: execute_group_parallel_def collect_results_def)
  with s4(2) show ?thesis by blast
qed

text \<open>
  Parallel transfers lose money. Two transfers of different senders to one recipient, each of which would succeed
  alone, both succeed under a schedule of the workers in which both read the database before either writes, and both
  senders pay; but the recipient gets only the value of the one that wrote last.
\<close>

theorem parallel_transfers_lose_money:
  assumes "execute_single_transaction sha dec coins us tx0 s = (Ok r0, sa)"
    and "execute_single_transaction sha dec coins us tx1 s = (Ok r1, sb)"
    and "stx_to tx0 = Some to" "stx_to tx1 = Some to" "distinct [to, stx_from tx0, stx_from tx1]"
    and "\<not> dirty_taken s" "length (accounts s) + 12 \<le> cache_size"
  shows "\<exists>sched s'. execute_group_parallel sha dec coins us sched [tx0, tx1] s = (Ok [r0, r1], s') \<and>
    balance_at (db_view dec s') to = balance_at (db_view dec s) to + unat (stx_value tx1) \<and>
    balance_at (db_view dec s') (stx_from tx0) + unat (stx_value tx0) + unat (gas_used r0) * unat (stx_gas_price tx0)
      = balance_at (db_view dec s) (stx_from tx0) \<and>
    balance_at (db_view dec s') (stx_from tx1) + unat (stx_value tx1) + unat (gas_used r1) * unat (stx_gas_price tx1)
      = balance_at (db_view dec s) (stx_from tx1)"
proof -
  let ?V = "db_view dec s"
  obtain p0 p1 where p: "plan_spec sha tx0 ?V = Ok p0" "r0 = receipt_of sha us tx0 p0"
    "plan_spec sha tx1 ?V = Ok p1" "r1 = receipt_of sha us tx1 p1"
    using execute_Ok_plan [OF assms(1)] execute_Ok_plan [OF assms(2)] by metis
  have ne: "to \<noteq> stx_from tx0" "to \<noteq> stx_from tx1" "stx_from tx0 \<noteq> stx_from tx1" using assms(5) by auto
  obtain acc0 a0 b0 where t0: "validate_spec tx0 ?V = Ok acc0" "paid tx0 (plan_gas p0) acc0 a0"
    "plan_changes p0 = [(stx_from tx0, a0), (to, (account_at ?V to)\<lparr>acc_balance := b0\<rparr>)]"
    using plan_transfer_Ok [OF p(1) assms(3) ne(1)] by metis
  obtain acc1 a1 b1 where t1: "validate_spec tx1 ?V = Ok acc1" "paid tx1 (plan_gas p1) acc1 a1"
    "plan_changes p1 = [(stx_from tx1, a1), (to, (account_at ?V to)\<lparr>acc_balance := b1\<rparr>)]"
    "unat b1 = balance_at ?V to + unat (stx_value tx1)"
    using plan_transfer_Ok [OF p(3) assms(4) ne(2)] .
  have "?V (stx_from tx0) = Some acc0" "?V (stx_from tx1) = Some acc1"
    using t0(1) t1(1) by (simp_all add: validate_spec_Ok)
  moreover have "room 12 s" using assms(6,7) by (simp add: room_def)
  ultimately have V: "?V (stx_from tx0) = Some acc0" "?V (stx_from tx1) = Some acc1" "room 12 s" by auto
  obtain sched s' where s': "execute_group_parallel sha dec coins us sched [tx0, tx1] s = (Ok [r0, r1], s')"
    "db_view dec s' = ?V ++ map_of (plan_changes p0) ++ map_of (plan_changes p1)"
    using read_read_write_write [OF p(1,3) V(3), of coins us] p(2,4) by blast
  have "balance_at (db_view dec s') to = balance_at ?V to + unat (stx_value tx1) \<and>
    balance_at (db_view dec s') (stx_from tx0) + unat (stx_value tx0) + unat (gas_used r0) * unat (stx_gas_price tx0)
      = balance_at ?V (stx_from tx0) \<and>
    balance_at (db_view dec s') (stx_from tx1) + unat (stx_value tx1) + unat (gas_used r1) * unat (stx_gas_price tx1)
      = balance_at ?V (stx_from tx1)"
    using V(1,2) ne t0(3) t1(3,4) paidD(3) [OF t0(2)] paidD(3) [OF t1(2)] p(2,4)
    by (auto simp: s'(2) balance_at_def map_add_def receipt_of_def)
  with s'(1) show ?thesis by blast
qed

section \<open>Examples\<close>

theorem every_block_is_one_group_witness:
  "group_by_dependency [sample_transfer 1 (Some 9) 5, sample_transfer 1 (Some 9) 6]
     (fst (build_dependency_graph (\<lambda>_. None) 0 Map.empty [sample_transfer 1 (Some 9) 5, sample_transfer 1 (Some 9) 6] sample_db))
   = Some [[sample_transfer 1 (Some 9) 5, sample_transfer 1 (Some 9) 6]]"
  by (rule every_block_is_one_group) (simp_all add: sample_transfer_def state_tx_new_def)

text \<open>Two transfers over four accounts; the two workers take turns, one call of the database each.\<close>

lemma sample_group:
  "\<exists>s'. execute_group_parallel (\<lambda>_. 7) (\<lambda>_. None) (\<lambda>_. []) 3 [0, 1, 0, 1, 0, 1, 0, 1, 0, 1, 0, 1, 0, 1, 0, 1, 0, 1, 0, 1]
      [sample_transfer 1 (Some 9) 5, sample_transfer 2 (Some 8) 6] sample_db =
        (Ok [sample_receipt 1 (Some 9) 21000 [], sample_receipt 2 (Some 8) 21000 []], s')"
proof -
  have two: "replicate (min max_parallel_workers (length [x, y :: state_tx])) Receiving = [Receiving, Receiving]" for x y
    by (simp add: max_parallel_workers_def numeral_2_eq_2)
  show ?thesis
    unfolding execute_group_parallel_def group_start_def two
    by (simp add: evaluate_transaction write_plan_def pool_step_def collect_results_def)
qed

theorem disjoint_group_is_serialisable_witness:
  "\<exists>order V. mset order = mset [sample_transfer 1 (Some 9) 5, sample_transfer 2 (Some 8) 6] \<and>
     fold (run_spec (\<lambda>_. 7) 3) order (db_view (\<lambda>_. None) sample_db, []) =
       (V, [sample_receipt 1 (Some 9) 21000 [], sample_receipt 2 (Some 8) 21000 []])"
proof -
  obtain s' where g: "execute_group_parallel (\<lambda>_. 7) (\<lambda>_. None) (\<lambda>_. []) 3 [0, 1, 0, 1, 0, 1, 0, 1, 0, 1, 0, 1, 0, 1, 0, 1, 0, 1, 0, 1]
      [sample_transfer 1 (Some 9) 5, sample_transfer 2 (Some 8) 6] sample_db =
        (Ok [sample_receipt 1 (Some 9) 21000 [], sample_receipt 2 (Some 8) 21000 []], s')"
    using sample_group by blast
  have "\<forall>tx \<in> set [sample_transfer 1 (Some 9) 5, sample_transfer 2 (Some 8) 6]. stx_to tx \<noteq> None"
    "sorted_wrt (\<lambda>t u. touched t \<inter> touched u = {}) [sample_transfer 1 (Some 9) 5, sample_transfer 2 (Some 8) 6]"
    by (simp_all add: sample_transfer_def state_tx_new_def touched_def)
  from disjoint_group_is_serialisable [OF this g] show ?thesis by blast
qed

theorem failed_block_keeps_its_changes_witness:
  "\<exists>sched s'. execute_group_parallel (\<lambda>_. 7) (\<lambda>_. None) (\<lambda>_. []) 3 sched
      [sample_transfer 1 (Some 9) 5, sample_transfer 3 (Some 9) 5] sample_db = (Err StateNotFound, s') \<and>
    balance_at (db_view (\<lambda>_. None) s') 9 = 5"
proof -
  let ?s1 = "snd (execute_single_transaction (\<lambda>_. 7) (\<lambda>_. None) (\<lambda>_. []) 3 (sample_transfer 1 (Some 9) 5) sample_db)"
  have "execute_single_transaction (\<lambda>_. 7) (\<lambda>_. None) (\<lambda>_. []) 3 (sample_transfer 3 (Some 9) 5) ?s1 = (Err StateNotFound, ?s1)"
    unfolding sample_execution snd_conv by (simp add: evaluate_transaction)
  moreover have "execute_single_transaction (\<lambda>_. 7) (\<lambda>_. None) (\<lambda>_. []) 3 (sample_transfer 1 (Some 9) 5) sample_db =
      (Ok (sample_receipt 1 (Some 9) 21000 []), ?s1)"
    by (simp add: sample_execution)
  moreover have "balance_at (db_view (\<lambda>_. None) ?s1) 9 = 5"
    by (simp add: sample_execution balance_at_def db_view_def account_new_def)
  ultimately show ?thesis using failed_block_keeps_its_changes by metis
qed

theorem parallel_transfers_lose_money_witness:
  "\<exists>sched s'. execute_group_parallel (\<lambda>_. 7) (\<lambda>_. None) (\<lambda>_. []) 3 sched
      [sample_transfer 1 (Some 9) 5, sample_transfer 2 (Some 9) 6] sample_db =
        (Ok [sample_receipt 1 (Some 9) 21000 [], sample_receipt 2 (Some 9) 21000 []], s') \<and>
    balance_at (db_view (\<lambda>_. None) s') 9 = 6"
proof -
  have "stx_to (sample_transfer 1 (Some 9) 5) = Some 9" "stx_to (sample_transfer 2 (Some 9) 6) = Some 9"
    "distinct [9, stx_from (sample_transfer 1 (Some 9) 5), stx_from (sample_transfer 2 (Some 9) 6)]"
    "\<not> dirty_taken sample_db" "length (accounts sample_db) + 12 \<le> cache_size"
    by (simp_all add: sample_transfer_def state_tx_new_def sample_db_def db_new_def cache_size_def)
  from parallel_transfers_lose_money [OF sample_execution sample_execution2 this] show ?thesis
    by (auto simp: balance_at_def db_view_def sample_db_def db_new_def sample_transfer_def state_tx_new_def)
qed

end
