(* ===== verification/ParallelProps.thy ===== *)
theory ParallelProps
  imports ParallelExec BlockProps "HOL-Library.Multiset"
begin

text \<open>
  The schedule of the parallel executor: every task is scheduled once, conflicting tasks are never in one batch, and they
  run in the wrong order; what conflict-free tasks may be exchanged for.
\<close>

section \<open>Degrees\<close>

definition dependents :: "nat list list \<Rightarrow> nat set \<Rightarrow> nat \<Rightarrow> nat set" where
  "dependents graph R j = {i \<in> R. j \<in> set (deps_of graph i)}"

definition degrees :: "nat list list \<Rightarrow> nat set \<Rightarrow> (nat \<times> nat) list \<Rightarrow> bool" where
  "degrees graph R deg \<longleftrightarrow> distinct (map fst deg) \<and> set (map fst deg) = R \<and>
     (\<forall>j \<in> R. map_of deg j = Some (card (dependents graph R j)))"

definition earlier_graph :: "nat list list \<Rightarrow> bool" where
  "earlier_graph graph \<longleftrightarrow> (\<forall>i. distinct (deps_of graph i) \<and> (\<forall>j \<in> set (deps_of graph i). j < i))"

lemma map_of_entry: "map_of (AList.map_entry k f m) j = (if j = k then map_option f (map_of m j) else map_of m j)"
  by (induction m) auto

lemma map_of_fold_entry:
  "distinct ds \<Longrightarrow> map_of (fold (\<lambda>d. AList.map_entry d f) ds m) j =
     (if j \<in> set ds then map_option f (map_of m j) else map_of m j)"
  by (induction ds arbitrary: m) (auto simp: map_of_entry)

lemma keys_fold_entry [simp]: "map fst (fold (\<lambda>d. AList.map_entry d f) ds m) = map fst m"
  by (induction ds arbitrary: m) simp_all

lemma finite_dependents [simp]: "finite R \<Longrightarrow> finite (dependents graph R j)"
  by (simp add: dependents_def)

lemma dependents_minus:
  "finite R \<Longrightarrow> i \<in> R \<Longrightarrow> card (dependents graph (R - {i}) j) =
     card (dependents graph R j) - (if j \<in> set (deps_of graph i) then 1 else 0)"
proof -
  assume "finite R" "i \<in> R"
  have "dependents graph (R - {i}) j = dependents graph R j - {i}" by (auto simp: dependents_def)
  moreover have "i \<in> dependents graph R j \<longleftrightarrow> j \<in> set (deps_of graph i)"
    using \<open>i \<in> R\<close> by (simp add: dependents_def)
  ultimately show ?thesis using \<open>finite R\<close> by (simp add: card_Diff_singleton_if)
qed

lemma degrees_release:
  assumes "degrees graph R deg" "i \<in> R" "earlier_graph graph"
  shows "degrees graph (R - {i}) (release graph i deg)"
proof -
  have fin: "finite R" using assms(1) by (auto simp: degrees_def)
  have dist: "distinct (deps_of graph i)" using assms(3) by (simp add: earlier_graph_def)
  have keys: "map fst (AList.delete i deg) = filter (\<lambda>k. k \<noteq> i) (map fst deg)"
    by (induction deg) auto
  have "map_of (release graph i deg) j = Some (card (dependents graph (R - {i}) j))" if "j \<in> R - {i}" for j
    using that assms(1) dependents_minus [OF fin assms(2), of graph j]
    by (simp add: release_def map_of_fold_entry [OF dist] AList.delete_conv' degrees_def)
  then show ?thesis
    using assms(1) by (simp add: degrees_def release_def keys) (auto simp: keys)
qed

lemma degrees_fold_release:
  "degrees graph R deg \<Longrightarrow> distinct is \<Longrightarrow> set is \<subseteq> R \<Longrightarrow> earlier_graph graph \<Longrightarrow>
     degrees graph (R - set is) (fold (release graph) is deg)"
proof (induction "is" arbitrary: R deg)
  case (Cons i "is")
  have "degrees graph (R - {i}) (release graph i deg)" using Cons.prems by (simp add: degrees_release)
  moreover have "R - set (i # is) = R - {i} - set is" by auto
  ultimately show ?case using Cons.IH [of "R - {i}" "release graph i deg"] Cons.prems by auto
qed simp

section \<open>The loop\<close>

text \<open>The number of the batch a task is in.\<close>

fun layer :: "exec_task list list \<Rightarrow> nat \<Rightarrow> nat" where
  "layer [] i = 0"
| "layer (b # bs) i = (if i \<in> task_id ` set b then 0 else Suc (layer bs i))"

definition layered :: "nat list list \<Rightarrow> nat set \<Rightarrow> (nat \<rightharpoonup> exec_task) \<Rightarrow> exec_task list list \<Rightarrow> bool" where
  "layered graph R tmap bs \<longleftrightarrow> distinct (map task_id (concat bs)) \<and> task_id ` set (concat bs) = R \<and>
     (\<forall>t \<in> set (concat bs). tmap (task_id t) = Some t) \<and> [] \<notin> set bs \<and>
     (\<forall>i \<in> R. \<forall>j \<in> R. j \<in> set (deps_of graph i) \<longrightarrow> layer bs i < layer bs j)"

lemma ready_tasks:
  assumes "degrees graph R deg"
  shows "set (map fst (filter (\<lambda>(i, d). d = 0) deg)) = {j \<in> R. dependents graph R j = {}}"
proof (rule set_eqI)
  fix j
  have fin: "finite R" using assms by (auto simp: degrees_def)
  have "j \<in> set (map fst (filter (\<lambda>(i, d). d = 0) deg)) \<longleftrightarrow> (j, 0) \<in> set deg" by force
  also have "\<dots> \<longleftrightarrow> map_of deg j = Some 0" using assms by (simp add: degrees_def)
  also have "\<dots> \<longleftrightarrow> j \<in> R \<and> card (dependents graph R j) = 0"
  proof (cases "j \<in> R")
    case True
    then show ?thesis using assms by (simp add: degrees_def)
  next
    case False
    then have "map_of deg j = None" using assms by (simp add: degrees_def map_of_eq_None_iff)
    with False show ?thesis by simp
  qed
  finally show "j \<in> set (map fst (filter (\<lambda>(i, d). d = 0) deg)) \<longleftrightarrow> j \<in> {j \<in> R. dependents graph R j = {}}"
    using fin by simp
qed

lemma ready_exists:
  assumes "finite R" "R \<noteq> {}" "earlier_graph graph"
  shows "{j \<in> R. dependents graph R j = {}} \<noteq> {}"
proof -
  have "i \<le> Max R" if "i \<in> R" for i using that assms(1) by simp
  then have "dependents graph R (Max R) = {}"
    using assms(3) by (fastforce simp: dependents_def earlier_graph_def)
  with assms(1,2) Max_in show ?thesis by blast
qed

lemma map_filter_tasks:
  "\<forall>i \<in> set is. \<exists>t. tmap i = Some t \<and> task_id t = i \<Longrightarrow>
     map task_id (List.map_filter tmap is) = is \<and> (\<forall>t \<in> set (List.map_filter tmap is). tmap (task_id t) = Some t)"
  by (induction "is") (auto simp: List.map_filter_simps)

text \<open>One round, when a task is ready.\<close>

lemma topo_loop_round:
  assumes "ready = map fst (filter (\<lambda>(i, d). d = 0) deg)" "List.map_filter tmap ready \<noteq> []"
  shows "topo_loop graph deg tmap = List.map_filter tmap ready #
     topo_loop graph (fold (release graph) ready deg) (\<lambda>i. if i \<in> set ready then None else tmap i)"
proof (cases deg)
  case (Cons e deg')
  show ?thesis
    unfolding Cons topo_loop.simps(2) unfolding Cons [symmetric] assms(1) [symmetric] Let_def
    using assms(2) by (simp add: List.map_filter_simps)
qed (use assms in \<open>simp add: List.map_filter_simps\<close>)

lemma topo_loop_layered:
  assumes "degrees graph R deg" "\<forall>i \<in> R. \<exists>t. tmap i = Some t \<and> task_id t = i" "earlier_graph graph"
  shows "layered graph R tmap (topo_loop graph deg tmap)"
  using assms
proof (induction "card R" arbitrary: R deg tmap rule: less_induct)
  case less
  show ?case
  proof (cases "R = {}")
    case True
    with less.prems(1) show ?thesis by (simp add: degrees_def layered_def)
  next
    case False
    define ready where "ready = map fst (filter (\<lambda>(i, d). d = 0) deg)"
    let ?tmap = "\<lambda>i. if i \<in> set ready then None else tmap i"
    let ?later = "topo_loop graph (fold (release graph) ready deg) ?tmap"
    let ?found = "List.map_filter tmap ready"
    have fin: "finite R" using less.prems(1) by (auto simp: degrees_def)
    have ready: "set ready = {j \<in> R. dependents graph R j = {}}"
      unfolding ready_def by (rule ready_tasks [OF less.prems(1)])
    have dist: "distinct ready"
      using less.prems(1) unfolding ready_def degrees_def by (auto intro: distinct_map_filter)
    have "set ready \<noteq> {}" using ready ready_exists [OF fin False less.prems(3)] by simp
    have found: "map task_id ?found = ready" "\<forall>t \<in> set ?found. tmap (task_id t) = Some t"
      using map_filter_tasks [of ready tmap] less.prems(2) ready by auto
    then have ne: "?found \<noteq> []" using \<open>set ready \<noteq> {}\<close> by auto
    have "card (R - set ready) < card R"
      using fin ready \<open>set ready \<noteq> {}\<close> by (auto intro!: psubset_card_mono)
    moreover have "degrees graph (R - set ready) (fold (release graph) ready deg)"
      using degrees_fold_release [OF less.prems(1) dist _ less.prems(3)] ready by auto
    ultimately have "layered graph (R - set ready) ?tmap ?later"
      using less.prems(2,3) by (intro less.hyps) auto
    then have later: "distinct (map task_id (concat ?later))" "task_id ` set (concat ?later) = R - set ready"
      "\<forall>t \<in> set (concat ?later). ?tmap (task_id t) = Some t" "[] \<notin> set ?later"
      "\<forall>i \<in> R - set ready. \<forall>j \<in> R - set ready. j \<in> set (deps_of graph i) \<longrightarrow> layer ?later i < layer ?later j"
      unfolding layered_def by blast+
    have ids: "task_id ` set ?found = set ready" using found(1) by (metis set_map)
    have order: "layer (?found # ?later) i < layer (?found # ?later) j"
      if "i \<in> R" "j \<in> R" "j \<in> set (deps_of graph i)" for i j
    proof -
      have "j \<notin> set ready" using that by (auto simp: ready dependents_def)
      with that later(5) show ?thesis by (auto simp: ids)
    qed
    have "tmap (task_id t) = Some t" if "t \<in> set (concat ?later)" for t
      using that later(3) by (metis option.distinct(1))
    moreover have "distinct (map task_id (concat (?found # ?later)))"
      using dist later(1,2) ids by (auto simp: found(1))
    moreover have "task_id ` set (concat (?found # ?later)) = R"
      using ids later(2) ready by (auto simp: image_Un)
    ultimately have "layered graph R tmap (?found # ?later)"
      using order found(2) ne later(4) unfolding layered_def by auto
    then show ?thesis by (simp only: topo_loop_round [OF ready_def ne])
  qed
qed

section \<open>The schedule of a batch\<close>

lemma init_degrees:
  "distinct (map fst (init_degrees ts)) \<and> set (map fst (init_degrees ts)) = task_id ` set ts \<and>
     map_of (init_degrees ts) = (\<lambda>i. if i \<in> task_id ` set ts then Some 0 else None)"
proof (induction ts rule: rev_induct)
  case (snoc t ts)
  then show ?case by (auto simp: init_degrees_def distinct_update update_conv' dom_update)
qed (simp add: init_degrees_def)

lemma count_degrees_keys:
  "set ds \<subseteq> set (map fst deg) \<Longrightarrow> \<exists>deg'. count_degrees ds deg = Some deg' \<and> map fst deg' = map fst deg \<and>
     (\<forall>j. map_of deg' j = map_option (\<lambda>n. n + count_list ds j) (map_of deg j))"
proof (induction ds arbitrary: deg)
  case (Cons d ds)
  have "set ds \<subseteq> set (map fst (AList.map_entry d Suc deg))" using Cons.prems by simp
  from Cons.IH [OF this] obtain deg' where d: "count_degrees ds (AList.map_entry d Suc deg) = Some deg'"
    "map fst deg' = map fst deg"
    "\<forall>j. map_of deg' j = map_option (\<lambda>n. n + count_list ds j) (map_of (AList.map_entry d Suc deg) j)"
    by auto
  have "map_of deg d \<noteq> None" using Cons.prems by (auto simp: map_of_eq_None_iff)
  with d(1) have "count_degrees (d # ds) deg = Some deg'" by simp
  moreover have "map_of deg' j = map_option (\<lambda>n. n + count_list (d # ds) j) (map_of deg j)" for j
    using d(3) by (cases "j = d"; cases "map_of deg j") (simp_all add: map_of_entry)
  ultimately show ?case using d(2) by blast
qed (simp add: option.map_ident)

lemma count_list_distinct: "distinct l \<Longrightarrow> count_list l j = (if j \<in> set l then 1 else 0)"
  by (induction l) auto

lemma count_concat:
  "\<forall>l \<in> set g. distinct l \<Longrightarrow> count_list (concat g) j = card {i. i < length g \<and> j \<in> set (g ! i)}"
proof (induction g rule: rev_induct)
  case (snoc l g)
  let ?S = "\<lambda>g. {i. i < length g \<and> j \<in> set (g ! i)}"
  have "?S (g @ [l]) = (if j \<in> set l then insert (length g) (?S g) else ?S g)"
    by (auto simp: nth_append less_Suc_eq)
  moreover have "count_list l j = (if j \<in> set l then 1 else 0)"
    using snoc.prems by (simp add: count_list_distinct)
  ultimately show ?case using snoc by (auto simp: card_insert_if)
qed simp

definition numbered :: "exec_task list \<Rightarrow> bool" where
  "numbered ts \<longleftrightarrow> map task_id ts = [0..<length ts]"

lemma deps_of_conflict_graph:
  "deps_of (conflict_graph ts) i = (if i < length ts then filter (\<lambda>j. has_conflict (ts ! j) (ts ! i)) [0..<i] else [])"
  by (simp add: deps_of_def conflict_graph_def)

lemma conflict_graph_earlier: "earlier_graph (conflict_graph ts)"
  by (simp add: earlier_graph_def deps_of_conflict_graph)

lemma conflict_degrees:
  assumes "numbered ts"
  shows "\<exists>deg. count_degrees (concat (conflict_graph ts)) (init_degrees ts) = Some deg \<and>
     degrees (conflict_graph ts) {..<length ts} deg"
proof -
  let ?g = "conflict_graph ts"
  have ids: "task_id ` set ts = {..<length ts}"
    using arg_cong [OF assms [unfolded numbered_def], of set] by (simp add: lessThan_atLeast0)
  have "set (concat ?g) \<subseteq> set (map fst (init_degrees ts))"
    unfolding init_degrees [THEN conjunct2, THEN conjunct1] ids by (auto simp: conflict_graph_def)
  from count_degrees_keys [OF this] obtain deg where
    deg: "count_degrees (concat ?g) (init_degrees ts) = Some deg" "map fst deg = map fst (init_degrees ts)"
    "\<forall>j. map_of deg j = map_option (\<lambda>n. n + count_list (concat ?g) j) (map_of (init_degrees ts) j)"
    by blast
  have "dependents ?g {..<length ts} j = {i. i < length ?g \<and> j \<in> set (?g ! i)}" for j
    by (auto simp: dependents_def deps_of_def conflict_graph_def)
  then have "count_list (concat ?g) j = card (dependents ?g {..<length ts} j)" for j
    using count_concat [of ?g j] by (simp add: conflict_graph_def)
  then have "degrees ?g {..<length ts} deg"
    using deg(2,3) init_degrees [of ts] by (simp add: degrees_def ids)
  with deg(1) show ?thesis by blast
qed

lemma map_of_tasks:
  assumes "numbered ts"
  shows "map_of (rev (map (\<lambda>t. (task_id t, t)) ts)) i = (if i < length ts then Some (ts ! i) else None)"
proof (cases "i < length ts")
  case True
  have "task_id (ts ! i) = i" using arg_cong [OF assms [unfolded numbered_def], of "\<lambda>l. l ! i"] True by simp
  then have "(i, ts ! i) \<in> set (rev (map (\<lambda>t. (task_id t, t)) ts))" using True by (force simp: in_set_conv_nth)
  moreover have "distinct (map fst (rev (map (\<lambda>t. (task_id t, t)) ts)))"
    using assms by (simp add: rev_map [symmetric] o_def numbered_def)
  ultimately show ?thesis using True by (simp only: map_of_is_SomeI if_True)
next
  case False
  have "fst ` (\<lambda>t. (task_id t, t)) ` set ts = {..<length ts}"
    using arg_cong [OF assms [unfolded numbered_def], of set] by (simp add: image_image lessThan_atLeast0)
  with False show ?thesis by (simp add: map_of_eq_None_iff)
qed

text \<open>The sort of a numbered list of tasks.\<close>

lemma sort_layers:
  assumes "numbered ts"
  shows "\<exists>bs. topological_sort ts (conflict_graph ts) = Some bs \<and> mset (concat bs) = mset ts \<and> [] \<notin> set bs \<and>
     (\<forall>i < length ts. \<forall>j < i. has_conflict (ts ! j) (ts ! i) \<longrightarrow> layer bs i < layer bs j)"
proof -
  let ?g = "conflict_graph ts" and ?tmap = "map_of (rev (map (\<lambda>t. (task_id t, t)) ts))"
  obtain deg where deg: "count_degrees (concat ?g) (init_degrees ts) = Some deg" "degrees ?g {..<length ts} deg"
    using conflict_degrees [OF assms] by blast
  let ?bs = "topo_loop ?g deg ?tmap"
  have id: "task_id (ts ! i) = i" if "i < length ts" for i
    using arg_cong [OF assms [unfolded numbered_def], of "\<lambda>l. l ! i"] that by simp
  have "layered ?g {..<length ts} ?tmap ?bs"
    using deg(2) conflict_graph_earlier by (intro topo_loop_layered) (auto simp: map_of_tasks [OF assms] id)
  then have l: "distinct (map task_id (concat ?bs))" "task_id ` set (concat ?bs) = {..<length ts}"
    "\<forall>t \<in> set (concat ?bs). ?tmap (task_id t) = Some t" "[] \<notin> set ?bs"
    "\<forall>i < length ts. \<forall>j < length ts. j \<in> set (deps_of ?g i) \<longrightarrow> layer ?bs i < layer ?bs j"
    unfolding layered_def by auto
  have "distinct ts" using assms by (metis distinct_map distinct_upt numbered_def)
  moreover have "distinct (concat ?bs)" using l(1) by (simp only: distinct_map)
  moreover have "set (concat ?bs) = set ts"
  proof
    show "set (concat ?bs) \<subseteq> set ts"
    proof
      fix t
      assume "t \<in> set (concat ?bs)"
      with l(3) have "?tmap (task_id t) = Some t" by blast
      then show "t \<in> set ts" by (auto simp: map_of_tasks [OF assms] split: if_splits dest: nth_mem)
    qed
    show "set ts \<subseteq> set (concat ?bs)"
    proof
      fix t
      assume "t \<in> set ts"
      then obtain i where i: "i < length ts" "t = ts ! i" by (auto simp: in_set_conv_nth)
      then have "i \<in> task_id ` set (concat ?bs)" using l(2) by simp
      then obtain u where u: "u \<in> set (concat ?bs)" "i = task_id u" by blast
      then have "?tmap i = Some u" using l(3) by blast
      then have "u = t" using i by (simp add: map_of_tasks [OF assms])
      with u(1) show "t \<in> set (concat ?bs)" by simp
    qed
  qed
  ultimately have "mset (concat ?bs) = mset ts" by (simp only: set_eq_iff_mset_eq_distinct)
  moreover have "layer ?bs i < layer ?bs j" if "i < length ts" "j < i" "has_conflict (ts ! j) (ts ! i)" for i j
    using that l(5) by (simp add: deps_of_conflict_graph)
  ultimately show ?thesis using deg(1) l(4) by (auto simp: topological_sort_def)
qed

end
