(* ===== verification/ScheduleProps.thy ===== *)
theory ScheduleProps
  imports ParallelProps
begin

text \<open>
  What a block run by the parallel executor does: whatever the schedules of the workers, it is the sequential execution of
  the transactions batch by batch, in some order inside each batch; the order of the batches is not that of the block.
\<close>

section \<open>A batch\<close>

definition task_of :: "exec_task \<Rightarrow> bool" where
  "task_of t \<longleftrightarrow> stx_to (task_tx t) \<noteq> None \<and> set (write_set t) = touched (task_tx t)"

definition apart :: "exec_task \<Rightarrow> exec_task \<Rightarrow> bool" where
  "apart t u \<longleftrightarrow> set (write_set t) \<inter> set (write_set u) = {}"

definition receipts :: "task_result list \<Rightarrow> tx_receipt list" where
  "receipts rs = concat (map (\<lambda>r. receipt_list (res_receipt r)) rs)"

lemma apply_holds:
  "holds (db_view dec s) cs \<Longrightarrow> apply_changes coins cs s = (r, s') \<Longrightarrow>
     r = Ok () \<and> db_view dec s' = db_view dec s \<or> r = Hang"
proof (induction cs arbitrary: s)
  case (Cons c cs)
  obtain a acc where c: "c = (a, acc)" by (cases c)
  obtain r1 s1 where w: "db_set_account (coins a) a acc s = (r1, s1)" by (cases "db_set_account (coins a) a acc s")
  have "db_view dec s1 = (db_view dec s)(a \<mapsto> acc)" using db_view_set [of dec "coins a" a acc s] w by simp
  moreover have "db_view dec s a = Some acc" using Cons.prems(1) c by (simp add: holds_def)
  ultimately have "db_view dec s1 = db_view dec s" by (simp add: fun_upd_idem)
  moreover from this have "r = Ok () \<and> db_view dec s' = db_view dec s1 \<or> r = Hang"
    if "apply_changes coins cs s1 = (r, s')"
    using Cons.IH [of s1] Cons.prems(1) that by (simp add: holds_def)
  ultimately show ?case
    using Cons.prems(2) db_set_outcome [of "coins a" a acc s] c w by auto
qed simp

lemma apply_results_view:
  "\<forall>r \<in> set rs. holds (db_view dec s) (res_changes r) \<Longrightarrow> apply_results coins rs s = (Ok l, s') \<Longrightarrow>
     l = receipts rs \<and> db_view dec s' = db_view dec s"
proof (induction rs arbitrary: s s' l)
  case (Cons r rs)
  show ?case
  proof (cases "res_receipt r")
    case (Ok rc)
    obtain w s1 where w: "apply_changes coins (res_changes r) s = (w, s1)" by fastforce
    have "w = Ok () \<and> db_view dec s1 = db_view dec s"
      using apply_holds [OF _ w, of dec] Cons.prems Ok w by (auto split: outcome.splits)
    moreover obtain q s2 where q: "apply_results coins rs s1 = (q, s2)" by fastforce
    ultimately have "\<exists>l'. q = Ok l' \<and> l = rc # l' \<and> s2 = s'"
      using Cons.prems(2) Ok w by (cases q) simp_all
    then obtain l' where l': "q = Ok l'" "l = rc # l'" "s2 = s'" by blast
    then have "l' = receipts rs \<and> db_view dec s' = db_view dec s1"
      using Cons.IH [of s1 l' s'] Cons.prems(1) q \<open>w = Ok () \<and> _\<close> by simp
    with l'(2) Ok \<open>w = Ok () \<and> _\<close> show ?thesis by (simp add: receipts_def receipt_list_def)
  qed (use Cons.IH [of s l s'] Cons.prems in \<open>simp_all add: receipts_def receipt_list_def\<close>)
qed (simp add: receipts_def)

text \<open>The job of a worker; while it takes locks, its transaction has not started.\<close>

fun batch_job :: "batch_worker \<Rightarrow> job list" where
  "batch_job (Locking t as ls) = [(task_tx t, Validating (task_tx t), [])]"
| "batch_job (Taking t a as ls) = [(task_tx t, Validating (task_tx t), [])]"
| "batch_job (Sharing t as ls) = [(task_tx t, Validating (task_tx t), [])]"
| "batch_job (Executing t ls st) = [(task_tx t, st, [])]"
| "batch_job (Collecting t ls r as cs) = [(task_tx t, Finished r, cs)]"
| "batch_job (Releasing t ls res) = [(task_tx t, Finished (res_receipt res), res_changes res)]"
| "batch_job w = []"

fun worker_ok :: "batch_worker \<Rightarrow> bool" where
  "worker_ok (Locking t as ls) \<longleftrightarrow> task_of t"
| "worker_ok (Taking t a as ls) \<longleftrightarrow> task_of t"
| "worker_ok (Sharing t as ls) \<longleftrightarrow> task_of t"
| "worker_ok (Executing t ls st) \<longleftrightarrow> task_of t"
| "worker_ok (Collecting t ls r as cs) \<longleftrightarrow> set as \<subseteq> touched (task_tx t)"
| "worker_ok w \<longleftrightarrow> True"

definition sent :: "task_result list \<Rightarrow> ((sm_error, tx_receipt) outcome \<times> (address \<times> account) list) list" where
  "sent rs = map (\<lambda>r. (res_receipt r, res_changes r)) rs"

definition stuck :: "batch_worker \<Rightarrow> bool" where
  "stuck w \<longleftrightarrow> (\<exists>t ls. w = Executing t ls (Finished Hang))"

definition batch_inv ::
  "(u8 list \<Rightarrow> h256) \<Rightarrow> (u8 list \<Rightarrow> account option) \<Rightarrow> u64 \<Rightarrow> state_tx list \<Rightarrow> (address \<rightharpoonup> account)
     \<Rightarrow> batch_worker list \<times> batch_run \<Rightarrow> bool" where
  "batch_inv sha dec us txs V0 = (\<lambda>(ws, g).
     (\<exists>w \<in> set ws. stuck w) \<or>
     pool_inv sha us txs V0 (map task_tx (batch_queue g)) (jobs batch_job ws) (sent (batch_results g)) (db_view dec (batch_db g)) \<and>
     (\<forall>t \<in> set (batch_queue g). task_of t) \<and> (\<forall>w \<in> set ws. worker_ok w) \<and>
     (batch_queue g = [] \<or> ws \<noteq> [] \<and> Exited \<notin> set ws))"

text \<open>One move of a worker, with the jobs \<open>J\<close> of the others.\<close>

lemma batch_move:
  assumes "pool_inv sha us txs V0 (map task_tx (batch_queue g)) (mset (batch_job w) + J) (sent (batch_results g)) (db_view dec (batch_db g))"
    and "\<forall>t \<in> set (batch_queue g). task_of t" "worker_ok w" "disjoint_txs txs"
    and "batch_step sha dec coins us w g = (w', g')" "\<not> stuck w'"
  shows "pool_inv sha us txs V0 (map task_tx (batch_queue g')) (mset (batch_job w') + J) (sent (batch_results g')) (db_view dec (batch_db g'))
    \<and> (\<forall>t \<in> set (batch_queue g'). task_of t) \<and> worker_ok w' \<and> (batch_queue g = [] \<longrightarrow> batch_queue g' = []) \<and>
    (w' = Exited \<longrightarrow> batch_queue g' = [] \<or> w = Exited)"
proof (cases w)
  case Awaiting
  with assms show ?thesis by (auto intro: pool_take split: list.splits)
next
  case (Locking t as ls)
  with assms show ?thesis by (cases "as") (auto split: if_splits)
next
  case (Sharing t as ls)
  with assms show ?thesis by (cases "as") auto
next
  case (Executing t ls st)
  show ?thesis
  proof (cases "\<exists>r. st = Finished r")
    case True
    then obtain r where "st = Finished r" by blast
    with assms Executing show ?thesis by (cases r) (auto simp: task_of_def)
  next
    case False
    obtain st' s' where t: "tx_step sha dec coins us st (batch_db g) = (st', s')" by fastforce
    with False assms(5) Executing have w': "w' = Executing t ls st'" "g' = g\<lparr>batch_db := s'\<rparr>" by (cases st; simp)+
    with assms(6) have "st' \<noteq> Finished Hang" by (auto simp: stuck_def)
    from pool_step_keeps [OF _ assms(4) t this] assms(1-3) Executing w' show ?thesis by simp
  qed
next
  case (Collecting t ls r as cs)
  show ?thesis
  proof (cases "as")
    case (Cons a as')
    obtain s1 where s1: "db_get_account dec a (batch_db g) = (db_view dec (batch_db g) a, s1)"
      "db_view dec s1 = db_view dec (batch_db g)" by (rule db_get_cases)
    show ?thesis
    proof (cases "db_view dec (batch_db g) a")
      case (Some acc)
      with assms(1,3) Collecting Cons have
        "pool_inv sha us txs V0 (map task_tx (batch_queue g)) (add_mset (task_tx t, Finished r, cs @ [(a, acc)]) J)
          (sent (batch_results g)) (db_view dec (batch_db g))"
        by (intro pool_collect) simp_all
      with assms(2-5) Collecting Cons s1 Some show ?thesis by auto
    qed (use assms Collecting Cons s1 in auto)
  qed (use assms Collecting in auto)
next
  case (Releasing t ls res)
  show ?thesis
  proof (cases ls)
    case Nil
    have "pool_inv sha us txs V0 (map task_tx (batch_queue g)) J (sent (batch_results g) @ [(res_receipt res, res_changes res)])
        (db_view dec (batch_db g))"
      using assms(1) Releasing by (intro pool_send) simp
    with assms(2,5) Releasing Nil show ?thesis by (auto simp: sent_def)
  qed (use assms Releasing in auto)
qed (use assms in auto)

lemma batch_inv_step:
  assumes "batch_inv sha dec us txs V0 (ws, g)" "disjoint_txs txs"
  shows "batch_inv sha dec us txs V0 (pool_step (batch_step sha dec coins us) i (ws, g))"
proof (cases "i < length ws")
  case i: True
  obtain w g' where w: "batch_step sha dec coins us (ws ! i) g = (w, g')" by fastforce
  then have step: "pool_step (batch_step sha dec coins us) i (ws, g) = (ws[i := w], g')" using i by (simp add: pool_step_def)
  have set: "set (ws[i := w]) \<subseteq> insert w (set ws)" "w \<in> set (ws[i := w])" "ws[i := w] \<noteq> []"
    using set_update_subset_insert [of ws i w] set_update_memI [OF i] i by auto
  show ?thesis
  proof (cases "\<exists>w \<in> set ws. stuck w")
    case True
    then obtain j t ls where j: "j < length ws" "ws ! j = Executing t ls (Finished Hang)" by (auto simp: in_set_conv_nth stuck_def)
    then have "ws[i := w] ! j = Executing t ls (Finished Hang)" using w i by (cases "i = j") simp_all
    then have "stuck (ws[i := w] ! j)" by (simp add: stuck_def)
    then have "\<exists>w \<in> set (ws[i := w]). stuck w" using j(1) by (metis length_list_update nth_mem)
    with step show ?thesis by (simp add: batch_inv_def)
  next
    case False
    obtain J where J: "jobs batch_job ws = mset (batch_job (ws ! i)) + J"
      "\<And>w. jobs batch_job (ws[i := w]) = mset (batch_job w) + J" using jobs_update [OF i] by blast
    have inv: "pool_inv sha us txs V0 (map task_tx (batch_queue g)) (mset (batch_job (ws ! i)) + J) (sent (batch_results g))
        (db_view dec (batch_db g))" "\<forall>t \<in> set (batch_queue g). task_of t" "\<forall>w \<in> set ws. worker_ok w"
        "batch_queue g = [] \<or> ws \<noteq> [] \<and> Exited \<notin> set ws"
      using assms(1) False J(1) by (simp_all add: batch_inv_def)
    have ok: "worker_ok (ws ! i)" using inv(3) i by simp
    show ?thesis
    proof (cases "stuck w")
      case True
      with set step show ?thesis by (auto simp: batch_inv_def)
    next
      case not_stuck: False
      have move: "pool_inv sha us txs V0 (map task_tx (batch_queue g')) (mset (batch_job w) + J) (sent (batch_results g'))
          (db_view dec (batch_db g'))" "\<forall>t \<in> set (batch_queue g'). task_of t" "worker_ok w"
          "batch_queue g = [] \<longrightarrow> batch_queue g' = []" "w = Exited \<longrightarrow> batch_queue g' = [] \<or> ws ! i = Exited"
        using batch_move [OF inv(1,2) ok assms(2) w not_stuck] by blast+
      have "batch_queue g' = [] \<or> Exited \<notin> set (ws[i := w])"
        using move(4,5) inv(4) set(1) i by (metis insertE nth_mem subsetD)
      then show ?thesis using step move(1-3) J(2) inv(3) set by (auto simp: batch_inv_def)
    qed
  qed
qed (use assms in \<open>simp add: pool_step_def\<close>)

lemma batch_inv_run:
  "batch_inv sha dec us txs V0 x \<Longrightarrow> disjoint_txs txs \<Longrightarrow>
     batch_inv sha dec us txs V0 (run (pool_step (batch_step sha dec coins us)) sched x)"
proof (induction sched arbitrary: x)
  case (Cons i sched)
  obtain ws g where "x = (ws, g)" by (cases x)
  with Cons batch_inv_step [of sha dec us txs V0 ws g coins i] show ?case by simp
qed simp

lemma join_batch_Ok: "join_batch ws = Ok u \<longleftrightarrow> set ws \<subseteq> {Exited}"
  by (induction ws rule: join_batch.induct) auto

lemma batch_disjoint:
  "\<forall>t \<in> set ts. task_of t \<Longrightarrow> sorted_wrt apart ts \<Longrightarrow> disjoint_txs (map task_tx ts)"
  by (induction ts) (auto simp: disjoint_txs_def task_of_def apart_def)

lemma execute_parallel_batch_view:
  assumes "execute_parallel_batch sha dec coins us n sched ts (c, s) = (Ok l, c', s')"
    and "\<forall>t \<in> set ts. task_of t" "sorted_wrt apart ts" "0 < n"
  obtains order where "mset order = mset (map task_tx ts)"
    "fold (run_spec sha us) order (db_view dec s, []) = (db_view dec s', l)"
proof -
  note dis = batch_disjoint [OF assms(2,3)]
  obtain ws g where g: "run (pool_step (batch_step sha dec coins us)) sched (batch_start n ts c s) = (ws, g)" by fastforce
  have "jobs batch_job (replicate k Awaiting) = {#}" for k by (simp add: jobs_def)
  then have "batch_inv sha dec us (map task_tx ts) (db_view dec s) (batch_start n ts c s)"
    using assms(2,4) by (auto simp: batch_inv_def batch_start_def pool_start sent_def)
  from batch_inv_run [OF this dis, of coins sched]
  have inv: "batch_inv sha dec us (map task_tx ts) (db_view dec s) (ws, g)" by (simp add: g)
  obtain p s2 where a: "apply_results coins (batch_results g) (batch_db g) = (p, s2)" by fastforce
  have join: "join_batch ws = Ok ()" "p = Ok l" "s2 = s'"
    using assms(1) g a by (auto simp: execute_parallel_batch_def)
  then have ws: "set ws \<subseteq> {Exited}" by (simp add: join_batch_Ok)
  then have "jobs batch_job ws = {#}" "\<not> (\<exists>w \<in> set ws. stuck w)" by (induction ws) (auto simp: jobs_def stuck_def)
  moreover have "batch_queue g = []" using inv ws calculation(2) by (cases ws) (auto simp: batch_inv_def)
  ultimately have fin: "pool_inv sha us (map task_tx ts) (db_view dec s) [] {#} (sent (batch_results g)) (db_view dec (batch_db g))"
    using inv by (simp add: batch_inv_def)
  show thesis
  proof (rule pool_end [OF fin dis])
    fix order
    assume order: "mset order = mset (map task_tx ts)"
      "fold (run_spec sha us) order (db_view dec s, []) =
         (db_view dec (batch_db g), concat (map (receipt_list \<circ> fst) (sent (batch_results g))))"
      and "\<forall>(r, cs) \<in> set (sent (batch_results g)). holds (db_view dec (batch_db g)) cs"
    then have "\<forall>r \<in> set (batch_results g). holds (db_view dec (batch_db g)) (res_changes r)" by (auto simp: sent_def)
    from apply_results_view [OF this, of coins l s'] a join(2,3)
    have "l = receipts (batch_results g)" "db_view dec s' = db_view dec (batch_db g)" by simp_all
    with order that [of order] show thesis by (simp add: receipts_def sent_def comp_def)
  qed
qed

text \<open>The transactions of each batch in some order, one batch after the other.\<close>

definition orders_of :: "exec_task list list \<Rightarrow> state_tx list list \<Rightarrow> bool" where
  "orders_of bs os \<longleftrightarrow> list_all2 (\<lambda>b order. mset order = mset (map task_tx b)) bs os"

lemma execute_batches_view:
  assumes "execute_batches sha dec coins us n scheds k bs (c, s) = (Ok l, c', s')" "0 < n"
    and "\<forall>b \<in> set bs. (\<forall>t \<in> set b. task_of t) \<and> sorted_wrt apart b"
  shows "\<exists>os. orders_of bs os \<and> fold (run_spec sha us) (concat os) (db_view dec s, []) = (db_view dec s', l)"
  using assms
proof (induction bs arbitrary: c s l k)
  case Nil
  then show ?case by (auto simp: orders_of_def intro: exI [of _ "[]"])
next
  case (Cons b bs)
  obtain q c1 s1 where b: "execute_parallel_batch sha dec coins us n (scheds k) b (c, s) = (q, c1, s1)" by (metis prod.collapse)
  with Cons.prems(1) obtain l1 where q: "q = Ok l1" by (cases q) auto
  obtain p c2 s2 where r: "execute_batches sha dec coins us n scheds (Suc k) bs (c1, s1) = (p, c2, s2)" by (metis prod.collapse)
  have "\<exists>l2. p = Ok l2 \<and> l = l1 @ l2 \<and> c2 = c' \<and> s2 = s'" using Cons.prems(1) b q r by (cases p) auto
  then obtain l2 where l2: "p = Ok l2" "l = l1 @ l2" "c2 = c'" "s2 = s'" by blast
  obtain order where order: "mset order = mset (map task_tx b)"
    "fold (run_spec sha us) order (db_view dec s, []) = (db_view dec s1, l1)"
    using execute_parallel_batch_view [OF b [unfolded q] _ _ Cons.prems(2)] Cons.prems(3) by (metis list.set_intros(1))
  obtain os where "orders_of bs os" "fold (run_spec sha us) (concat os) (db_view dec s1, []) = (db_view dec s', l2)"
    using Cons.IH [of "Suc k" c1 s1 l2] Cons.prems(2,3) r l2 by auto
  with order l2(2) fold_run_spec [of sha us "concat os" "db_view dec s1" l1]
  have "orders_of (b # bs) (order # os) \<and>
      fold (run_spec sha us) (concat (order # os)) (db_view dec s, []) = (db_view dec s', l)"
    by (simp add: orders_of_def)
  then show ?case by blast
qed

lemma orders_of_mset: "orders_of bs os \<Longrightarrow> mset (concat os) = mset (map task_tx (concat bs))"
  unfolding orders_of_def by (induction bs os rule: list_all2_induct) simp_all

section \<open>The schedule of a block\<close>

lemma analyzed:
  "analyze_transactions dec i txs s = (ts, s') \<Longrightarrow>
     map task_id ts = [i..<i + length txs] \<and> map task_tx ts = txs \<and> db_view dec s' = db_view dec s \<and>
     (\<forall>t \<in> set ts. stx_to (task_tx t) \<noteq> None \<longrightarrow> task_of t)"
proof (induction txs arbitrary: i s s' ts)
  case (Cons tx txs)
  obtain t s1 where t: "analyze_transaction dec i tx s = (t, s1)" by fastforce
  obtain ts1 s2 where r: "analyze_transactions dec (Suc i) txs s1 = (ts1, s2)" by fastforce
  have "task_id t = i \<and> task_tx t = tx \<and> db_view dec s1 = db_view dec s \<and> (stx_to tx \<noteq> None \<longrightarrow> task_of t)"
  proof (cases "stx_to tx")
    case None
    with t show ?thesis by (auto simp: analyze_transaction_def)
  next
    case (Some to)
    obtain s3 where "db_is_contract dec to s = (contract_at (db_view dec s) to, s3)" "db_view dec s3 = db_view dec s"
      by (rule db_is_contract_cases)
    with t Some show ?thesis by (auto simp: analyze_transaction_def Let_def task_of_def touched_def)
  qed
  moreover have "[i..<i + length (tx # txs)] = i # [Suc i..<Suc i + length txs]"
    by (simp add: upt_conv_Cons del: upt_Suc)
  ultimately show ?case using Cons.IH [OF r] Cons.prems t r by auto
qed simp

lemma analyzed_numbered: "analyze_transactions dec 0 txs s = (ts, s') \<Longrightarrow> numbered ts"
  using analyzed [of dec 0 txs s ts s'] by (auto simp: numbered_def dest: map_eq_imp_length_eq)

text \<open>
  C8: the sort of a block always returns. Every task is in exactly one of its batches, no batch is empty, and of two
  tasks that conflict the later one is in an earlier batch: conflicting tasks are kept apart, but they run in the
  reverse of the order of the block.
\<close>

theorem batches_reverse_conflicts:
  "let ts = fst (analyze_transactions dec 0 txs s) in
   \<exists>bs. topological_sort ts (conflict_graph ts) = Some bs \<and>
     mset (map task_tx (concat bs)) = mset txs \<and> mset (concat bs) = mset ts \<and> [] \<notin> set bs \<and>
     (\<forall>i < length txs. \<forall>j < i. has_conflict (ts ! j) (ts ! i) \<longrightarrow> layer bs i < layer bs j)"
proof -
  obtain ts s' where ts: "analyze_transactions dec 0 txs s = (ts, s')" by fastforce
  obtain bs where "topological_sort ts (conflict_graph ts) = Some bs" "mset (concat bs) = mset ts" "[] \<notin> set bs"
    "\<forall>i < length ts. \<forall>j < i. has_conflict (ts ! j) (ts ! i) \<longrightarrow> layer bs i < layer bs j"
    using sort_layers [OF analyzed_numbered [OF ts]] by blast
  moreover have "map task_tx ts = txs" using analyzed [OF ts] by simp
  moreover from this have "length ts = length txs" "mset (map task_tx (concat bs)) = mset txs"
    using \<open>mset (concat bs) = mset ts\<close> by (auto simp: mset_map)
  ultimately show ?thesis using ts by auto
qed

lemma layer_here:
  "distinct (map task_id (concat bs)) \<Longrightarrow> b \<in> set bs \<Longrightarrow> t \<in> set b \<Longrightarrow> u \<in> set b \<Longrightarrow>
     layer bs (task_id t) = layer bs (task_id u)"
proof (induction bs)
  case (Cons c bs)
  show ?case
  proof (cases "b = c")
    case False
    then have "b \<in> set bs" using Cons.prems(2) by simp
    moreover from this have "task_id t \<notin> task_id ` set c" "task_id u \<notin> task_id ` set c"
      using Cons.prems by (auto simp: image_iff)
    ultimately show ?thesis using Cons by auto
  qed (use Cons.prems in simp)
qed simp

lemma batches_apart:
  assumes "numbered ts" "mset (concat bs) = mset ts" "b \<in> set bs"
    and "\<forall>i < length ts. \<forall>j < i. has_conflict (ts ! j) (ts ! i) \<longrightarrow> layer bs i < layer bs j"
  shows "sorted_wrt apart b"
proof -
  have "mset (map task_id (concat bs)) = mset (map task_id ts)" using assms(2) by (simp only: mset_map)
  from mset_eq_imp_distinct_iff [OF this] assms(1) have dist: "distinct (map task_id (concat bs))"
    by (simp only: numbered_def distinct_upt)
  have sub: "set b \<subseteq> set ts" using mset_eq_setD [OF assms(2)] assms(3) by auto
  have id: "task_id (ts ! i) = i" if "i < length ts" for i
    using arg_cong [OF assms(1) [unfolded numbered_def], of "\<lambda>l. l ! i"] that by simp
  have dist_b: "distinct b" using dist assms(3) by (auto simp: distinct_map distinct_concat_iff)
  have "apart t u" if "t \<in> set b" "u \<in> set b" "t \<noteq> u" for t u
  proof (rule ccontr)
    assume c: "\<not> apart t u"
    have "t \<in> set ts" "u \<in> set ts" using that sub by auto
    then obtain i j where ij: "i < length ts" "j < length ts" "t = ts ! i" "u = ts ! j"
      by (auto simp: in_set_conv_nth)
    then have "i \<noteq> j" using that by auto
    have "has_conflict t u" "has_conflict u t"
      using c by (auto simp: apart_def has_conflict_def is_disjoint_def list_all_iff)
    then have "layer bs i < layer bs j \<or> layer bs j < layer bs i"
      using assms(4) ij \<open>i \<noteq> j\<close> by (cases "i < j") auto
    with layer_here [OF dist assms(3) that(1,2)] ij id show False by simp
  qed
  then show ?thesis using dist_b by (auto simp: sorted_wrt_iff_nth_less distinct_conv_nth)
qed

lemma block_fold:
  assumes "execute_batch sha dec coins us scheds txs (e, s) = (Ok rs, e', s')" "\<forall>tx \<in> set txs. stx_to tx \<noteq> None"
    and "0 < worker_count e" and ts: "analyze_transactions dec 0 txs s = (ts, s1)"
    and bs: "topological_sort ts (conflict_graph ts) = Some bs" "mset (concat bs) = mset ts"
      "\<forall>i < length ts. \<forall>j < i. has_conflict (ts ! j) (ts ! i) \<longrightarrow> layer bs i < layer bs j"
  shows "\<exists>os. orders_of bs os \<and> fold (run_spec sha us) (concat os) (db_view dec s, []) = (db_view dec s', rs)"
proof -
  obtain c2 where r: "execute_batches sha dec coins us (worker_count e) scheds 0 bs (detector e, s1) = (Ok rs, c2, s')"
    using assms(1) ts bs(1) by (auto simp: execute_batch_def split: prod.splits)
  have "task_of t" if "t \<in> set ts" for t
    using analyzed [OF ts] assms(2) that by auto
  moreover have "set (concat bs) = set ts" using mset_eq_setD [OF bs(2)] .
  ultimately have "\<forall>b \<in> set bs. (\<forall>t \<in> set b. task_of t) \<and> sorted_wrt apart b"
    using batches_apart [OF analyzed_numbered [OF ts] bs(2) _ bs(3)] by auto
  from execute_batches_view [OF r assms(3) this] show ?thesis using analyzed [OF ts] by simp
qed

text \<open>
  C3: when the parallel executor, with at least one worker, completes a block of transfers and calls (every transaction has a
  recipient; a contract creation writes an account its task does not declare), then whatever the schedules of the workers,
  whose steps interleave at every lock and every access to the database, the block has the effect of running its
  transactions one after the other, one batch of the sort after the other, in some order inside each batch: the accounts
  are the same, and so are the receipts, in that order. Refused transactions change nothing and leave no receipt, the others
  are charged once, although their changes are written a second time when the results are collected.
\<close>

theorem block_runs_in_batch_order:
  assumes "execute_batch sha dec coins us scheds txs (e, s) = (Ok rs, e', s')"
    and "\<forall>tx \<in> set txs. stx_to tx \<noteq> None" "0 < worker_count e"
  shows "let ts = fst (analyze_transactions dec 0 txs s) in
    \<exists>bs os. topological_sort ts (conflict_graph ts) = Some bs \<and>
      list_all2 (\<lambda>b order. mset order = mset (map task_tx b)) bs os \<and> mset (concat os) = mset txs \<and>
      fold (run_spec sha us) (concat os) (db_view dec s, []) = (db_view dec s', rs)"
proof -
  obtain ts s1 where ts: "analyze_transactions dec 0 txs s = (ts, s1)" by fastforce
  obtain bs where bs: "topological_sort ts (conflict_graph ts) = Some bs" "mset (concat bs) = mset ts"
    "\<forall>i < length ts. \<forall>j < i. has_conflict (ts ! j) (ts ! i) \<longrightarrow> layer bs i < layer bs j"
    using sort_layers [OF analyzed_numbered [OF ts]] by blast
  obtain os where os: "orders_of bs os" "fold (run_spec sha us) (concat os) (db_view dec s, []) = (db_view dec s', rs)"
    using block_fold [OF assms ts bs] by blast
  have "mset (map task_tx (concat bs)) = mset txs" using bs(2) analyzed [OF ts] by (metis mset_map)
  with orders_of_mset [OF os(1)] os bs(1) ts show ?thesis by (auto simp: orders_of_def)
qed

text \<open>
  Consecutive transactions of one sender do not survive a block. Of two transactions of an account, the second, whose
  nonce is not the account's yet, runs first and is refused without a receipt; the block does what the first one
  does alone.
\<close>

theorem later_transaction_of_a_sender_is_dropped:
  assumes "execute_batch sha dec coins us scheds [tx0, tx1] (e, s) = (Ok rs, e', s')" "0 < worker_count e"
    and "stx_to tx0 \<noteq> None" "stx_to tx1 \<noteq> None" "stx_from tx0 = stx_from tx1"
    and "db_view dec s (stx_from tx1) = Some acc" "acc_nonce acc \<noteq> stx_nonce tx1"
  shows "(db_view dec s', rs) = run_spec sha us tx0 (db_view dec s, []) \<and> length rs \<le> 1"
proof -
  obtain ts s1 where ts: "analyze_transactions dec 0 [tx0, tx1] s = (ts, s1)" by fastforce
  have a: "numbered ts" "map task_tx ts = [tx0, tx1]" "\<forall>t \<in> set ts. stx_to (task_tx t) \<noteq> None \<longrightarrow> task_of t"
    using analyzed [OF ts] analyzed_numbered [OF ts] by auto
  then obtain t0 t1 where t: "ts = [t0, t1]" "task_tx t0 = tx0" "task_tx t1 = tx1"
    by (auto simp: map_eq_Cons_conv)
  then have ids: "task_id t0 = 0" "task_id t1 = 1" using a(1) by (auto simp: numbered_def)
  have "has_conflict t0 t1"
    using a(3) t assms(3-5) by (auto simp: task_of_def touched_def has_conflict_def is_disjoint_def list_all_iff)
  obtain bs where bs: "topological_sort ts (conflict_graph ts) = Some bs" "mset (concat bs) = mset ts"
    "\<forall>i < length ts. \<forall>j < i. has_conflict (ts ! j) (ts ! i) \<longrightarrow> layer bs i < layer bs j" "[] \<notin> set bs"
    using sort_layers [OF a(1)] by blast
  then have less: "layer bs 1 < layer bs 0" using t(1) \<open>has_conflict t0 t1\<close> by simp
  have "length (concat bs) = 2" using arg_cong [OF bs(2), of size] t(1) by simp
  then have "bs = [[t1], [t0]]"
  proof -
    obtain b cs where b: "bs = b # cs" "b \<noteq> []" using \<open>length (concat bs) = 2\<close> bs(4) by (cases bs) auto
    have "length b + length (concat cs) = 2" "0 < length b" using \<open>length (concat bs) = 2\<close> b by simp_all
    then have "length b = 2 \<and> length (concat cs) = 0 \<or> length b = 1 \<and> length (concat cs) = 1" by linarith
    then consider "length b = 2" "concat cs = []" | "length b = 1" "length (concat cs) = 1" by (auto simp del: length_concat)
    then have "(\<exists>x y. bs = [[x, y]]) \<or> (\<exists>x y. bs = [[x], [y]])"
    proof cases
      case 1
      then have "cs = []" using bs(4) b(1) by (cases cs) auto
      with 1 b show ?thesis by (auto simp: length_Suc_conv numeral_2_eq_2)
    next
      case 2
      then obtain c ds where c: "cs = c # ds" "c \<noteq> []" using bs(4) b(1) by (cases cs) auto
      with 2 have "length c = 1" "concat ds = []" by (cases c; simp)+
      moreover have "ds = []" using calculation(2) bs(4) b(1) c(1) by (cases ds) auto
      ultimately show ?thesis using 2 b(1) c(1) by (auto simp: length_Suc_conv)
    qed
    with bs(2) t(1) less ids show ?thesis
      by (auto simp: add_eq_conv_ex image_iff split: if_splits)
  qed
  moreover from this obtain os where os: "orders_of bs os"
      "fold (run_spec sha us) (concat os) (db_view dec s, []) = (db_view dec s', rs)"
    using block_fold [OF assms(1) _ assms(2) ts bs(1-3)] assms(3,4) by auto
  ultimately have "concat os = [tx1, tx0]" using t(2,3) by (auto simp: orders_of_def list_all2_Cons1)
  moreover have "run_spec sha us tx1 (db_view dec s, []) = (db_view dec s, [])"
    using assms(6,7) by (auto simp: run_spec_def plan_spec_def validate_spec_def)
  ultimately have "run_spec sha us tx0 (db_view dec s, []) = (db_view dec s', rs)" using os(2) by simp
  then show ?thesis by (auto simp: run_spec_def split: outcome.splits)
qed

section \<open>Examples\<close>

text \<open>Two transfers over different accounts; two workers take turns, step by step.\<close>

fun in_turns :: "nat \<Rightarrow> nat list" where
  "in_turns 0 = []"
| "in_turns (Suc n) = 0 # 1 # in_turns n"

lemmas evaluate_batch =
  evaluate_transaction detector_new_def lock_write_def write_plan_def charge_sender_def pool_step_def batch_start_def
  parallel_executor_new_def execute_batch_def execute_parallel_batch_def analyze_transaction_def topological_sort_def
  conflict_graph_def has_conflict_def is_disjoint_def init_degrees_def topo_loop.simps release_def deps_of_def

definition sample_next :: state_tx where
  "sample_next = (sample_transfer 1 (Some 9) 6)\<lparr>stx_nonce := 1\<rparr>"

lemma sample_parallel_block:
  "\<exists>e' s'. execute_batch (\<lambda>_. 7) (\<lambda>_. None) (\<lambda>_. []) 3 (\<lambda>_. in_turns 22)
     [sample_transfer 1 (Some 9) 5, sample_transfer 2 (Some 8) 6] (parallel_executor_new 4, sample_db)
     = (Ok [sample_receipt 1 (Some 9) 21000 [], sample_receipt 2 (Some 8) 21000 []], e', s')"
proof -
  have "in_turns 22 = [0, 1, 0, 1, 0, 1, 0, 1, 0, 1, 0, 1, 0, 1, 0, 1, 0, 1, 0, 1, 0, 1,
      0, 1, 0, 1, 0, 1, 0, 1, 0, 1, 0, 1, 0, 1, 0, 1, 0, 1, 0, 1, 0, 1]" by (simp add: eval_nat_numeral)
  then show ?thesis by (simp add: evaluate_batch)
qed

lemma sample_block:
  "\<exists>e' s'. execute_batch (\<lambda>_. 7) (\<lambda>_. None) (\<lambda>_. []) 3 (\<lambda>_. replicate 22 0) [sample_transfer 1 (Some 9) 5, sample_next]
     (parallel_executor_new 4, sample_db) = (Ok [sample_receipt 1 (Some 9) 21000 []], e', s')"
proof -
  have "replicate 22 (0 :: nat) = [0, 0, 0, 0, 0, 0, 0, 0, 0, 0, 0, 0, 0, 0, 0, 0, 0, 0, 0, 0, 0, 0]" by (simp add: eval_nat_numeral)
  then show ?thesis by (simp add: evaluate_batch sample_next_def)
qed

theorem batches_reverse_conflicts_witness:
  "\<exists>bs. topological_sort (fst (analyze_transactions (\<lambda>_. None) 0 [sample_transfer 1 (Some 9) 5, sample_next] sample_db))
      (conflict_graph (fst (analyze_transactions (\<lambda>_. None) 0 [sample_transfer 1 (Some 9) 5, sample_next] sample_db)))
      = Some bs \<and> layer bs 1 < layer bs 0"
  using batches_reverse_conflicts [of "\<lambda>_. None" "[sample_transfer 1 (Some 9) 5, sample_next]" sample_db]
  by (auto simp: Let_def analyze_transaction_def db_is_contract_def db_get_account_def sample_next_def sample_transfer_def
    state_tx_new_def sample_db_def db_new_def has_conflict_def is_disjoint_def split: prod.splits)

theorem block_runs_in_batch_order_witness:
  "\<exists>order V. mset order = mset [sample_transfer 1 (Some 9) 5, sample_transfer 2 (Some 8) 6] \<and>
     fold (run_spec (\<lambda>_. 7) 3) order (db_view (\<lambda>_. None) sample_db, []) =
       (V, [sample_receipt 1 (Some 9) 21000 [], sample_receipt 2 (Some 8) 21000 []])"
proof -
  obtain e' s' where r: "execute_batch (\<lambda>_. 7) (\<lambda>_. None) (\<lambda>_. []) 3 (\<lambda>_. in_turns 22)
     [sample_transfer 1 (Some 9) 5, sample_transfer 2 (Some 8) 6] (parallel_executor_new 4, sample_db)
     = (Ok [sample_receipt 1 (Some 9) 21000 [], sample_receipt 2 (Some 8) 21000 []], e', s')"
    using sample_parallel_block by blast
  have "\<forall>tx \<in> set [sample_transfer 1 (Some 9) 5, sample_transfer 2 (Some 8) 6]. stx_to tx \<noteq> None"
    "0 < worker_count (parallel_executor_new 4)"
    by (simp_all add: sample_transfer_def state_tx_new_def parallel_executor_new_def)
  from block_runs_in_batch_order [OF r this] show ?thesis unfolding Let_def by blast
qed

theorem later_transaction_of_a_sender_is_dropped_witness:
  "snd (run_spec (\<lambda>_. 7) 3 (sample_transfer 1 (Some 9) 5) (db_view (\<lambda>_. None) sample_db, []))
     = [sample_receipt 1 (Some 9) 21000 []]"
proof -
  obtain e' s' where r: "execute_batch (\<lambda>_. 7) (\<lambda>_. None) (\<lambda>_. []) 3 (\<lambda>_. replicate 22 0) [sample_transfer 1 (Some 9) 5, sample_next]
     (parallel_executor_new 4, sample_db) = (Ok [sample_receipt 1 (Some 9) 21000 []], e', s')"
    using sample_block by blast
  from later_transaction_of_a_sender_is_dropped [OF r, of "account_new 1000000"] show ?thesis
    by (simp add: parallel_executor_new_def sample_next_def sample_transfer_def state_tx_new_def db_view_def sample_db_def account_new_def)
      (metis snd_conv)
qed

end
