(* ===== verification/BatchAuction.thy ===== *)
theory BatchAuction
  imports TxBytes "HOL-Library.Multiset"
begin

text \<open>
  Protection against front-running: the transactions of \<^verbatim>\<open>src/dex/mev_protection/mod.rs\<close> and the batch auction of
  \<^verbatim>\<open>src/dex/mev_protection/batch_auction.rs\<close>.

  Keccak and the shuffle of the \<^verbatim>\<open>rand\<close> package (a seed and a list to a list) are arguments; a call reads the clock as often as
  the code does, \<open>clock i\<close> is its i-th reading in nanoseconds.
\<close>

section \<open>Protected transactions\<close>

datatype protection_type = By_batch_auction | By_threshold | By_private_pool | By_commit_reveal | Unprotected

record protected_tx =
  pt_hash :: h256
  pt_sender :: address
  pt_nonce :: u64
  pt_gas_price :: u256
  pt_data :: "u8 list"
  pt_protection :: protection_type
  pt_time :: u64

datatype mev_error =
    BatchAuctionFailed string
  | EncryptionFailed string
  | DecryptionFailed string
  | ThresholdNotMet
  | RevealTimeout
  | InvalidCommitment
  | PrivatePoolAccessDenied

section \<open>Orders and batches\<close>

record batch_order =
  bo_tx :: protected_tx
  bid_price :: u256
  priority_fee :: u256
  submission_time :: u64

datatype batch_status = Collecting | Sealed | Executing | Completed | Batch_failed

record batch =
  batch_id :: h256
  batch_orders :: "batch_order list"
  batch_start :: u64
  batch_end :: u64
  batch_status_of :: batch_status

record batch_auction =
  current_batch :: "batch option"
  pending_orders :: "batch_order list"
  executed_batches :: "h256 \<rightharpoonup> batch"
  batch_interval :: nat
  min_batch_size :: nat
  max_batch_size :: nat
  fair_ordering :: bool

definition batch_auction_new :: "nat \<Rightarrow> batch_auction" where
  "batch_auction_new interval = \<lparr> current_batch = None, pending_orders = [], executed_batches = Map.empty,
     batch_interval = interval, min_batch_size = 10, max_batch_size = 1000, fair_ordering = True \<rparr>"

definition calculate_priority_fee :: "protected_tx \<Rightarrow> u256" where
  "calculate_priority_fee tx = (if 1000000000 < pt_gas_price tx then pt_gas_price tx - 1000000000 else 0)"

definition order_of :: "u64 \<Rightarrow> protected_tx \<Rightarrow> batch_order" where
  "order_of now tx = \<lparr> bo_tx = tx, bid_price = pt_gas_price tx, priority_fee = calculate_priority_fee tx, submission_time = now \<rparr>"

text \<open>The interval is compared with the elapsed nanoseconds, which wrap when the clock went back.\<close>

definition should_seal_batch :: "u64 \<Rightarrow> batch_auction \<Rightarrow> bool" where
  "should_seal_batch now s =
     (case current_batch s of
        None \<Rightarrow> False
      | Some b \<Rightarrow> batch_interval s \<le> unat (now - batch_start b) \<or> max_batch_size s \<le> length (batch_orders b))"

text \<open>The oldest pending orders move into a new batch, which replaces the one at hand.\<close>

definition create_new_batch :: "h256 \<Rightarrow> u64 \<Rightarrow> u64 \<Rightarrow> batch_auction \<Rightarrow> batch_auction" where
  "create_new_batch i t0 t1 s =
     s\<lparr>current_batch := Some \<lparr> batch_id = i, batch_orders = take (max_batch_size s) (pending_orders s),
         batch_start = t0, batch_end = t1, batch_status_of = Collecting \<rparr>,
       pending_orders := drop (max_batch_size s) (pending_orders s)\<rparr>"

definition push_order :: "batch_order \<Rightarrow> batch_auction \<Rightarrow> batch_auction" where
  "push_order ord s =
     (case current_batch s of
        None \<Rightarrow> s
      | Some b \<Rightarrow>
          if length (batch_orders b) < max_batch_size s
          then s\<lparr>current_batch := Some (b\<lparr>batch_orders := batch_orders b @ [ord]\<rparr>)\<rparr> else s)"

definition submit_to_batch ::
  "h256 \<Rightarrow> (nat \<Rightarrow> u64) \<Rightarrow> protected_tx \<Rightarrow> batch_auction \<Rightarrow> (mev_error, h256) outcome \<times> batch_auction" where
  "submit_to_batch i clock tx s =
     (let ord = order_of (clock 0) tx;
          s1 = s\<lparr>pending_orders := pending_orders s @ [ord]\<rparr>;
          s2 = (if current_batch s1 = None \<or> should_seal_batch (clock 1) s1
                then create_new_batch i (clock 2) (clock 3) s1 else s1)
      in (Ok (pt_hash tx), push_order ord s2))"

section \<open>The order of a batch\<close>

text \<open>The groups by bid price, in ascending order of the price (a \<^verbatim>\<open>BTreeMap\<close>).\<close>

fun add_to_group :: "batch_order \<Rightarrow> (u256 \<times> batch_order list) list \<Rightarrow> (u256 \<times> batch_order list) list" where
  "add_to_group ord [] = [(bid_price ord, [ord])]"
| "add_to_group ord ((p, ords) # gs) =
     (if bid_price ord = p then (p, ords @ [ord]) # gs
      else if bid_price ord < p then (bid_price ord, [ord]) # (p, ords) # gs
      else (p, ords) # add_to_group ord gs)"

definition price_groups :: "batch_order list \<Rightarrow> (u256 \<times> batch_order list) list" where
  "price_groups ords = fold add_to_group ords []"

definition calculate_group_hash :: "(u8 list \<Rightarrow> h256) \<Rightarrow> batch_order list \<Rightarrow> h256" where
  "calculate_group_hash keccak ords = keccak (concat (map (\<lambda>ord. be_bytes 32 (pt_hash (bo_tx ord))) ords))"

definition order_group ::
  "(u8 list \<Rightarrow> h256) \<Rightarrow> (h256 \<Rightarrow> batch_order list \<Rightarrow> batch_order list) \<Rightarrow> batch_order list \<Rightarrow> batch_order list" where
  "order_group keccak shuffle ords =
     (let sorted_ords = sort_key submission_time ords in shuffle (calculate_group_hash keccak sorted_ords) sorted_ords)"

definition order_batch_fairly ::
  "(u8 list \<Rightarrow> h256) \<Rightarrow> (h256 \<Rightarrow> batch_order list \<Rightarrow> batch_order list) \<Rightarrow> bool \<Rightarrow> batch \<Rightarrow> protected_tx list" where
  "order_batch_fairly keccak shuffle fair b =
     (if \<not> fair then map bo_tx (sort_key (\<lambda>ord. - uint (bid_price ord)) (batch_orders b))
      else map bo_tx (concat (map (\<lambda>(p, ords). order_group keccak shuffle ords) (rev (price_groups (batch_orders b))))))"

text \<open>The simulation accepts every transaction; the snapshot only collects nonces.\<close>

definition simulate_transaction :: "protected_tx \<Rightarrow> (address \<rightharpoonup> u64) \<Rightarrow> bool" where
  "simulate_transaction tx nonces = True"

fun execute_ordered_transactions :: "protected_tx list \<Rightarrow> (address \<rightharpoonup> u64) \<Rightarrow> protected_tx list" where
  "execute_ordered_transactions [] nonces = []"
| "execute_ordered_transactions (tx # txs) nonces =
     (if simulate_transaction tx nonces
      then tx # execute_ordered_transactions txs (nonces(pt_sender tx \<mapsto> pt_nonce tx + 1))
      else execute_ordered_transactions txs nonces)"

definition auction_batch ::
  "(u8 list \<Rightarrow> h256) \<Rightarrow> (h256 \<Rightarrow> batch_order list \<Rightarrow> batch_order list) \<Rightarrow> u64 \<Rightarrow> batch_auction
     \<Rightarrow> (mev_error, protected_tx list) outcome \<times> batch_auction" where
  "auction_batch keccak shuffle now s =
     (case current_batch s of
        None \<Rightarrow> (Ok [], s)
      | Some b \<Rightarrow>
          let s1 = s\<lparr>current_batch := None\<rparr> in
          if length (batch_orders b) < min_batch_size s
          then (Err (BatchAuctionFailed ''Batch size below minimum''), s1)
          else
            let ordered = order_batch_fairly keccak shuffle (fair_ordering s) b;
                results = execute_ordered_transactions ordered Map.empty;
                b1 = b\<lparr>batch_status_of := Completed, batch_end := now\<rparr>
            in (Ok results, s1\<lparr>executed_batches := (executed_batches s1)(batch_id b \<mapsto> b1)\<rparr>))"

section \<open>Reports\<close>

record batch_info =
  info_id :: h256
  info_count :: nat
  info_value :: u256
  info_time :: u64
  info_status :: batch_status

fun sum_bids :: "u256 \<Rightarrow> batch_order list \<Rightarrow> u256 option" where
  "sum_bids acc [] = Some acc"
| "sum_bids acc (ord # ords) = do { a \<leftarrow> uadd acc (bid_price ord); sum_bids a ords }"

definition get_batch_info :: "h256 \<Rightarrow> batch_auction \<Rightarrow> (unit, batch_info option) outcome" where
  "get_batch_info i s =
     (case executed_batches s i of
        None \<Rightarrow> Ok None
      | Some b \<Rightarrow>
          (case sum_bids 0 (batch_orders b) of
             None \<Rightarrow> Panic
           | Some v \<Rightarrow> Ok (Some \<lparr> info_id = batch_id b, info_count = length (batch_orders b), info_value = v,
               info_time = (batch_end b - batch_start b) div 1000000, info_status = batch_status_of b \<rparr>)))"

definition get_current_batch_status :: "batch_auction \<Rightarrow> batch_status option" where
  "get_current_batch_status s = map_option batch_status_of (current_batch s)"

section \<open>Groups by price\<close>

lemma mset_add_to_group: "mset (concat (map snd (add_to_group ord gs))) = add_mset ord (mset (concat (map snd gs)))"
  by (induction ord gs rule: add_to_group.induct) simp_all

lemma keys_add_to_group: "fst ` set (add_to_group ord gs) = insert (bid_price ord) (fst ` set gs)"
  by (induction ord gs rule: add_to_group.induct) auto

definition grouped :: "(u256 \<times> batch_order list) list \<Rightarrow> bool" where
  "grouped gs \<longleftrightarrow> sorted_wrt (<) (map fst gs) \<and> (\<forall>(p, ords) \<in> set gs. \<forall>ord \<in> set ords. bid_price ord = p)"

lemma grouped_add: "grouped gs \<Longrightarrow> grouped (add_to_group ord gs)"
proof (induction ord gs rule: add_to_group.induct)
  case (2 ord p ords gs)
  have "grouped gs" using "2.prems" by (auto simp: grouped_def)
  show ?case
  proof (cases "p < bid_price ord")
    case True
    then have "add_to_group ord ((p, ords) # gs) = (p, ords) # add_to_group ord gs" by auto
    moreover have "grouped (add_to_group ord gs)" using True \<open>grouped gs\<close> by (intro "2.IH") auto
    moreover have "\<forall>q \<in> fst ` set (add_to_group ord gs). p < q"
      using "2.prems" True unfolding keys_add_to_group by (auto simp: grouped_def)
    ultimately show ?thesis using "2.prems" by (auto simp: grouped_def)
  next
    case False
    with "2.prems" show ?thesis by (auto simp: grouped_def)
  qed
qed (simp add: grouped_def)

lemma price_groups_grouped: "grouped (price_groups ords)"
proof -
  have "grouped gs \<Longrightarrow> grouped (fold add_to_group ords gs)" for gs
    by (induction ords arbitrary: gs) (simp_all add: grouped_add)
  from this [of "[]"] show ?thesis by (simp add: price_groups_def) (simp add: grouped_def)
qed

lemma mset_price_groups: "mset (concat (map snd (price_groups ords))) = mset ords"
proof -
  have "mset (concat (map snd (fold add_to_group ords gs))) = mset (concat (map snd gs)) + mset ords" for gs
    by (induction ords arbitrary: gs) (simp_all add: mset_add_to_group)
  then show ?thesis by (simp add: price_groups_def)
qed

end
