(* ===== verification/BatchAuctionProps.thy ===== *)
theory BatchAuctionProps
  imports BatchAuction
begin

text \<open>
  The batch auction: the order in which a batch is executed, the bounds of batches in every run, and what becomes of an
  order that is filed both as pending and in the current batch.
\<close>

section \<open>The order of a batch\<close>

definition shuffles :: "(h256 \<Rightarrow> batch_order list \<Rightarrow> batch_order list) \<Rightarrow> bool" where
  "shuffles shuffle \<longleftrightarrow> (\<forall>h ords. mset (shuffle h ords) = mset ords)"

lemma mset_order_group: "shuffles shuffle \<Longrightarrow> mset (order_group keccak shuffle ords) = mset ords"
  by (simp add: order_group_def shuffles_def Let_def)

lemma set_order_group: "shuffles shuffle \<Longrightarrow> set (order_group keccak shuffle ords) = set ords"
  using mset_order_group mset_eq_setD by blast

lemma mset_concat_cong: "(\<And>x. x \<in> set xs \<Longrightarrow> mset (f x) = mset (g x)) \<Longrightarrow> mset (concat (map f xs)) = mset (concat (map g xs))"
  by (induction xs) simp_all

lemma sorted_wrt_same_price:
  "\<forall>x \<in> set ords. bid_price x = p \<Longrightarrow> sorted_wrt (\<lambda>x y. bid_price y \<le> bid_price x) ords"
  by (induction ords) auto

lemma sorted_concat_groups:
  assumes "sorted_wrt (\<lambda>x y. fst y < fst x) gs"
    and "\<And>p ords x. (p, ords) \<in> set gs \<Longrightarrow> x \<in> set (f ords) \<Longrightarrow> bid_price x = p"
  shows "sorted_wrt (\<lambda>x y. bid_price y \<le> bid_price x) (concat (map (\<lambda>(p, ords). f ords) gs))"
  using assms
proof (induction gs)
  case (Cons g gs)
  obtain p ords where g: "g = (p, ords)" by (cases g)
  have "sorted_wrt (\<lambda>x y. bid_price y \<le> bid_price x) (f ords)"
    using Cons.prems(2) [of p ords] g by (intro sorted_wrt_same_price [of _ p]) auto
  moreover have "bid_price y \<le> bid_price x"
    if "x \<in> set (f ords)" "(q, os) \<in> set gs" "y \<in> set (f os)" for x y q os
  proof -
    have "bid_price x = p" "bid_price y = q" using Cons.prems(2) that g by auto
    moreover have "q < p" using Cons.prems(1) that(2) g by auto
    ultimately show ?thesis by simp
  qed
  moreover have "sorted_wrt (\<lambda>x y. bid_price y \<le> bid_price x) (concat (map (\<lambda>(p, ords). f ords) gs))"
    using Cons.prems by (intro Cons.IH) auto
  ultimately show ?case by (auto simp: g sorted_wrt_append)
qed simp

definition fair_orders ::
  "(u8 list \<Rightarrow> h256) \<Rightarrow> (h256 \<Rightarrow> batch_order list \<Rightarrow> batch_order list) \<Rightarrow> bool \<Rightarrow> batch_order list \<Rightarrow> batch_order list" where
  "fair_orders keccak shuffle fair ords =
     (if fair then concat (map (\<lambda>(p, os). order_group keccak shuffle os) (rev (price_groups ords)))
      else sort_key (\<lambda>ord. - uint (bid_price ord)) ords)"

lemma order_batch_fairly_orders:
  "order_batch_fairly keccak shuffle fair b = map bo_tx (fair_orders keccak shuffle fair (batch_orders b))"
  by (simp add: order_batch_fairly_def fair_orders_def)

lemma mset_fair_orders:
  assumes "shuffles shuffle"
  shows "mset (fair_orders keccak shuffle fair ords) = mset ords"
proof (cases fair)
  case True
  have "mset (concat (map (\<lambda>(p, os). order_group keccak shuffle os) (rev (price_groups ords)))) =
      mset (concat (map snd (rev (price_groups ords))))"
    by (rule mset_concat_cong) (auto simp: mset_order_group [OF assms])
  also have "\<dots> = mset (concat (map snd (price_groups ords)))"
    by (simp add: mset_concat sum_list_rev flip: rev_map)
  finally show ?thesis using True by (simp add: fair_orders_def mset_price_groups)
qed (simp add: fair_orders_def)

lemma sorted_fair_orders:
  assumes "shuffles shuffle"
  shows "sorted_wrt (\<lambda>x y. bid_price y \<le> bid_price x) (fair_orders keccak shuffle fair ords)"
proof (cases fair)
  case True
  have g: "grouped (price_groups ords)" by (rule price_groups_grouped)
  have "sorted_wrt (\<lambda>x y. fst y < fst x) (rev (price_groups ords))"
    using g by (simp add: grouped_def sorted_wrt_map sorted_wrt_rev)
  moreover have "bid_price x = p"
    if "(p, os) \<in> set (rev (price_groups ords))" "x \<in> set (order_group keccak shuffle os)" for p os x
    using that g by (auto simp: grouped_def set_order_group [OF assms])
  ultimately have "sorted_wrt (\<lambda>x y. bid_price y \<le> bid_price x)
      (concat (map (\<lambda>(p, os). order_group keccak shuffle os) (rev (price_groups ords))))"
    by (rule sorted_concat_groups)
  with True show ?thesis by (simp add: fair_orders_def)
next
  case False
  have "sorted (map (\<lambda>ord. - uint (bid_price ord)) (sort_key (\<lambda>ord. - uint (bid_price ord)) ords))" by simp
  with False show ?thesis by (simp add: fair_orders_def sorted_map word_le_def)
qed

lemma execute_ordered [simp]: "execute_ordered_transactions txs nonces = txs"
  by (induction txs arbitrary: nonces) (simp_all add: simulate_transaction_def)

section \<open>Runs\<close>

datatype auction_call = Submit h256 "nat \<Rightarrow> u64" protected_tx | Execute u64

fun auction_step ::
  "(u8 list \<Rightarrow> h256) \<Rightarrow> (h256 \<Rightarrow> batch_order list \<Rightarrow> batch_order list) \<Rightarrow> auction_call \<Rightarrow> batch_auction \<Rightarrow> batch_auction" where
  "auction_step keccak shuffle (Submit i clock tx) s = snd (submit_to_batch i clock tx s)"
| "auction_step keccak shuffle (Execute now) s = snd (auction_batch keccak shuffle now s)"

definition priced :: "batch_order \<Rightarrow> bool" where
  "priced ord \<longleftrightarrow> bid_price ord = pt_gas_price (bo_tx ord)"

definition auction_inv :: "batch_auction \<Rightarrow> bool" where
  "auction_inv s \<longleftrightarrow> min_batch_size s = 10 \<and> max_batch_size s = 1000 \<and> fair_ordering s \<and>
     (\<forall>ord \<in> set (pending_orders s). priced ord) \<and>
     (\<forall>b. current_batch s = Some b \<longrightarrow> batch_status_of b = Collecting \<and> batch_orders b \<noteq> [] \<and>
        length (batch_orders b) \<le> 1000 \<and> (\<forall>ord \<in> set (batch_orders b). priced ord)) \<and>
     (\<forall>i b. executed_batches s i = Some b \<longrightarrow> batch_id b = i \<and> batch_status_of b = Completed \<and>
        10 \<le> length (batch_orders b) \<and> length (batch_orders b) \<le> 1000 \<and> (\<forall>ord \<in> set (batch_orders b). priced ord))"

lemma auction_inv_step: "auction_inv s \<Longrightarrow> auction_inv (auction_step keccak shuffle c s)"
proof (induction c)
  case (Submit i clock tx)
  then show ?case
    by (auto simp: submit_to_batch_def Let_def create_new_batch_def push_order_def auction_inv_def order_of_def priced_def
      dest: in_set_takeD in_set_dropD split: option.split)
next
  case (Execute now)
  then show ?case
    by (auto simp: auction_batch_def Let_def auction_inv_def split: option.split)
qed

interpretation auction: invariant_of "auction_step keccak shuffle" "\<lambda>_ _. True" auction_inv for keccak shuffle
  by unfold_locales (rule auction_inv_step)

lemma auction_inv_new: "auction_inv (batch_auction_new interval)"
  by (simp add: auction_inv_def batch_auction_new_def)

text \<open>
  In every run of submissions and executions a batch being collected is not empty, holds at most 1000 orders, each
  filed with the gas price of its transaction, and has not been executed; an executed batch is filed under its
  identifier, is completed and holds at least ten and at most 1000 orders.
\<close>

theorem auction_batches_are_well_formed:
  "auction_inv (run (auction_step keccak shuffle) cs (batch_auction_new interval))"
  by (rule auction.inv_run [OF auction_inv_new run_ok_always])

text \<open>
  C37: in every run a batch of at least ten orders is executed whole: the transactions of the batch, each as often as it
  was filed, by descending gas price, whatever the shuffle does inside a price. The batch is then closed.
\<close>

theorem batch_runs_by_descending_price:
  assumes "s = run (auction_step keccak shuffle) cs (batch_auction_new interval)"
    and "current_batch s = Some b" "10 \<le> length (batch_orders b)" "shuffles shuffle"
  shows "\<exists>txs s'. auction_batch keccak shuffle now s = (Ok txs, s') \<and>
    mset txs = mset (map bo_tx (batch_orders b)) \<and> sorted_wrt (\<lambda>x y. pt_gas_price y \<le> pt_gas_price x) txs \<and>
    current_batch s' = None \<and> pending_orders s' = pending_orders s \<and> executed_batches s' (batch_id b) \<noteq> None"
proof -
  let ?ords = "fair_orders keccak shuffle (fair_ordering s) (batch_orders b)"
  have inv: "auction_inv s"
    unfolding assms(1) by (rule auction.inv_run [OF auction_inv_new run_ok_always])
  have perm: "mset ?ords = mset (batch_orders b)" by (rule mset_fair_orders [OF assms(4)])
  have "\<forall>ord \<in> set ?ords. priced ord"
    using inv assms(2) mset_eq_setD [OF perm] by (auto simp: auction_inv_def)
  moreover have "sorted_wrt (\<lambda>x y. bid_price y \<le> bid_price x) ?ords" by (rule sorted_fair_orders [OF assms(4)])
  ultimately have "sorted_wrt (\<lambda>x y. pt_gas_price y \<le> pt_gas_price x) (map bo_tx ?ords)"
    by (auto simp: sorted_wrt_map priced_def elim!: sorted_wrt_mono_rel [rotated])
  moreover have "mset (map bo_tx ?ords) = mset (map bo_tx (batch_orders b))" using perm by (simp only: mset_map)
  ultimately show ?thesis
    using inv assms(2,3) by (auto simp: auction_batch_def Let_def auction_inv_def order_batch_fairly_orders simp del: mset_map)
qed

text \<open>
  An order is executed in two batches. It is filed both as pending and in the current batch; when that batch has been
  executed, the next submission collects the pending orders into a new batch, so the order is in it again, and
  the new order is in it twice.
\<close>

theorem order_enters_two_batches:
  assumes "current_batch s = Some b" "\<not> should_seal_batch (clock 1) s" "length (batch_orders b) < max_batch_size s"
    and "min_batch_size s \<le> length (batch_orders b) + 1" "length (pending_orders s) + 3 \<le> max_batch_size s"
    and "submit_to_batch i clock tx s = (r1, s1)" "auction_batch keccak shuffle now s1 = (r2, s2)"
    and "submit_to_batch i' clock' tx' s2 = (r3, s3)" "shuffles shuffle"
  shows "\<exists>txs b'. r2 = Ok txs \<and> tx \<in> set txs \<and> current_batch s3 = Some b' \<and>
    map bo_tx (batch_orders b') = map bo_tx (pending_orders s) @ [tx, tx', tx']"
proof -
  have "should_seal_batch (clock 1) (s\<lparr>pending_orders := p\<rparr>) = should_seal_batch (clock 1) s" for p
    by (simp add: should_seal_batch_def split: option.split)
  then have s1: "s1 = s\<lparr>pending_orders := pending_orders s @ [order_of (clock 0) tx],
      current_batch := Some (b\<lparr>batch_orders := batch_orders b @ [order_of (clock 0) tx]\<rparr>)\<rparr>"
    using assms(1-3,6) by (auto simp: submit_to_batch_def push_order_def Let_def)
  let ?b1 = "b\<lparr>batch_orders := batch_orders b @ [order_of (clock 0) tx]\<rparr>"
  have r2: "r2 = Ok (order_batch_fairly keccak shuffle (fair_ordering s) ?b1)"
    and s2: "current_batch s2 = None" "pending_orders s2 = pending_orders s @ [order_of (clock 0) tx]"
      "max_batch_size s2 = max_batch_size s"
    using assms(4,7) by (auto simp: auction_batch_def Let_def s1)
  have "tx \<in> set (order_batch_fairly keccak shuffle (fair_ordering s) ?b1)"
    using mset_eq_setD [OF mset_fair_orders [OF assms(9)]]
    by (force simp: order_batch_fairly_orders order_of_def)
  moreover have "\<exists>b'. current_batch s3 = Some b' \<and> map bo_tx (batch_orders b') = map bo_tx (pending_orders s) @ [tx, tx', tx']"
    using assms(5,8) s2 by (auto simp: submit_to_batch_def create_new_batch_def push_order_def Let_def order_of_def)
  ultimately show ?thesis using r2 by auto
qed

text \<open>
  A batch below the minimum is dropped, not kept: after the first submission, which was accepted, an execution
  reports that the batch is too small and leaves the auction as it was before the submission.
\<close>

theorem undersized_batch_is_dropped:
  "auction_batch keccak shuffle now (snd (submit_to_batch i clock tx (batch_auction_new interval)))
     = (Err (BatchAuctionFailed ''Batch size below minimum''), batch_auction_new interval)"
  by (simp add: submit_to_batch_def batch_auction_new_def create_new_batch_def push_order_def auction_batch_def Let_def)

section \<open>Examples\<close>

definition sample_ptx :: "u256 \<Rightarrow> protected_tx" where
  "sample_ptx p = \<lparr> pt_hash = p, pt_sender = 1, pt_nonce = 0, pt_gas_price = p, pt_data = [],
     pt_protection = By_batch_auction, pt_time = 0 \<rparr>"

definition sample_auction :: batch_auction where
  "sample_auction = run (auction_step (\<lambda>_. 7) (\<lambda>_ ords. ords))
     (map (\<lambda>p. Submit 3 (\<lambda>_. 0) (sample_ptx p)) [5, 6, 7, 8, 9, 1, 2, 3, 4]) (batch_auction_new 100)"

lemma sample_current:
  "current_batch sample_auction = Some \<lparr> batch_id = 3, batch_orders = map (\<lambda>p. order_of 0 (sample_ptx p)) [5, 5, 6, 7, 8, 9, 1, 2, 3, 4],
     batch_start = 0, batch_end = 0, batch_status_of = Collecting \<rparr>"
  "pending_orders sample_auction = map (\<lambda>p. order_of 0 (sample_ptx p)) [6, 7, 8, 9, 1, 2, 3, 4]"
  "max_batch_size sample_auction = 1000" "min_batch_size sample_auction = 10" "batch_interval sample_auction = 100"
  by (simp_all add: sample_auction_def submit_to_batch_def batch_auction_new_def create_new_batch_def push_order_def
    should_seal_batch_def Let_def)

theorem batch_runs_by_descending_price_witness:
  "\<exists>txs s'. auction_batch (\<lambda>_. 7) (\<lambda>_ ords. ords) 50 sample_auction = (Ok txs, s') \<and>
    mset txs = mset (map sample_ptx [5, 5, 6, 7, 8, 9, 1, 2, 3, 4]) \<and>
    sorted_wrt (\<lambda>x y. pt_gas_price y \<le> pt_gas_price x) txs"
  using batch_runs_by_descending_price [OF sample_auction_def sample_current(1), of 50]
  by (auto simp: shuffles_def order_of_def)

theorem order_enters_two_batches_witness:
  "\<exists>b'. current_batch (snd (submit_to_batch 5 (\<lambda>_. 0) (sample_ptx 12) (snd (auction_batch (\<lambda>_. 7) (\<lambda>_ ords. ords) 50
      (snd (submit_to_batch 4 (\<lambda>_. 0) (sample_ptx 11) sample_auction)))))) = Some b' \<and>
    map bo_tx (batch_orders b') = map sample_ptx ([6, 7, 8, 9, 1, 2, 3, 4] @ [11, 12, 12])"
proof -
  let ?s1 = "snd (submit_to_batch 4 (\<lambda>_. 0) (sample_ptx 11) sample_auction)"
  let ?s2 = "snd (auction_batch (\<lambda>_. 7) (\<lambda>_ ords. ords) 50 ?s1)"
  have "\<exists>txs b'. fst (auction_batch (\<lambda>_. 7) (\<lambda>_ ords. ords) 50 ?s1) = Ok txs \<and> sample_ptx 11 \<in> set txs \<and>
      current_batch (snd (submit_to_batch 5 (\<lambda>_. 0) (sample_ptx 12) ?s2)) = Some b' \<and>
      map bo_tx (batch_orders b') = map bo_tx (pending_orders sample_auction) @ [sample_ptx 11, sample_ptx 12, sample_ptx 12]"
    by (rule order_enters_two_batches [OF sample_current(1)])
      (auto simp: sample_current should_seal_batch_def shuffles_def intro: prod.collapse [symmetric])
  moreover have "map bo_tx (pending_orders sample_auction) @ [sample_ptx 11, sample_ptx 12, sample_ptx 12]
      = map sample_ptx ([6, 7, 8, 9, 1, 2, 3, 4] @ [11, 12, 12])"
    by (simp add: sample_current(2) order_of_def)
  ultimately show ?thesis by metis
qed

end
