(* ===== verification/PrivatePool.thy ===== *)
theory PrivatePool
  imports BatchAuction
begin

text \<open>
  The private transaction pool of \<^verbatim>\<open>src/dex/mev_protection/private_pool.rs\<close>: bundles of searchers in a queue by bid, access by
  reputation or whitelist, and the results reported for bundles. Random identifiers and the clock (in seconds) are
  arguments; the profiles are counted, so they are an association list.
\<close>

section \<open>State\<close>

record private_bundle =
  pb_id :: h256
  pb_txs :: "protected_tx list"
  min_block :: u64
  max_block :: u64
  searcher :: address
  bid_amount :: u256
  revert_protection :: bool

record searcher_profile =
  sp_address :: address
  reputation :: u32
  bundles_submitted :: u64
  bundles_successful :: u64
  sp_bid_value :: u256
  whitelisted :: bool
  last_activity :: u64

record private_pool_config =
  min_reputation :: u32
  max_bundle_size :: nat
  bundle_timeout :: u64
  min_bid_amount :: u256
  whitelist_only :: bool

definition pool_config_default :: private_pool_config where
  "pool_config_default = \<lparr> min_reputation = 50, max_bundle_size = 20, bundle_timeout = 100,
     min_bid_amount = 1000000000, whitelist_only = False \<rparr>"

record bundle_result =
  br_bundle :: h256
  br_block :: u64
  br_gas :: u256
  br_profit :: u256
  br_reverted :: bool
  br_index :: nat

record private_pool =
  pool_config :: private_pool_config
  private_bundles :: "(h256 \<times> private_bundle) list"
  pending_queue :: "private_bundle list"
  profiles :: "(address \<times> searcher_profile) list"
  whitelist :: "address set"
  bundle_results :: "h256 \<rightharpoonup> bundle_result"

definition pool_with_config :: "private_pool_config \<Rightarrow> private_pool" where
  "pool_with_config c = \<lparr> pool_config = c, private_bundles = [], pending_queue = [], profiles = [], whitelist = {},
     bundle_results = Map.empty \<rparr>"

definition private_pool_new :: private_pool where
  "private_pool_new = pool_with_config pool_config_default"

section \<open>Access and the queue\<close>

text \<open>Outside the whitelist mode a searcher without a profile is admitted.\<close>

definition verify_access :: "address \<Rightarrow> private_pool \<Rightarrow> bool" where
  "verify_access a s =
     (if whitelist_only (pool_config s) then a \<in> whitelist s
      else case map_of (profiles s) a of
        Some p \<Rightarrow> min_reputation (pool_config s) \<le> reputation p
      | None \<Rightarrow> \<not> whitelist_only (pool_config s))"

text \<open>Before the first bundle with a smaller bid.\<close>

fun insert_by_bid :: "private_bundle \<Rightarrow> private_bundle list \<Rightarrow> private_bundle list" where
  "insert_by_bid b [] = [b]"
| "insert_by_bid b (x # xs) = (if bid_amount x < bid_amount b then b # x # xs else x # insert_by_bid b xs)"

definition add_bundle :: "private_bundle \<Rightarrow> private_pool \<Rightarrow> private_pool" where
  "add_bundle b s =
     s\<lparr>private_bundles := AList.update (pb_id b) b (private_bundles s),
       pending_queue := insert_by_bid b (pending_queue s)\<rparr>"

definition searcher_profile_new :: "address \<Rightarrow> u32 \<Rightarrow> bool \<Rightarrow> u64 \<Rightarrow> searcher_profile" where
  "searcher_profile_new a score listed now = \<lparr> sp_address = a, reputation = score, bundles_submitted = 0,
     bundles_successful = 0, sp_bid_value = 0, whitelisted = listed, last_activity = now \<rparr>"

text \<open>The profile of a searcher is created with its first bundle. A sum of bids that overflows panics, the count raised already.\<close>

definition update_searcher_stats ::
  "u64 \<Rightarrow> address \<Rightarrow> private_bundle \<Rightarrow> private_pool \<Rightarrow> (mev_error, unit) outcome \<times> private_pool" where
  "update_searcher_stats now a b s =
     (let p = (case map_of (profiles s) a of Some p \<Rightarrow> p | None \<Rightarrow> searcher_profile_new a 50 False 0);
          p1 = p\<lparr>bundles_submitted := bundles_submitted p + 1\<rparr>;
          put = (\<lambda>p. s\<lparr>profiles := AList.update a p (profiles s)\<rparr>)
      in or_panic (put p1) (uadd (sp_bid_value p1) (bid_amount b))
           (\<lambda>v. (Ok (), put (p1\<lparr>sp_bid_value := v, last_activity := now\<rparr>))))"

definition submit_private ::
  "h256 \<Rightarrow> protected_tx \<Rightarrow> private_pool \<Rightarrow> (mev_error, h256) outcome \<times> private_pool" where
  "submit_private i tx s =
     (if \<not> verify_access (pt_sender tx) s then (Err PrivatePoolAccessDenied, s)
      else (Ok i, add_bundle \<lparr> pb_id = i, pb_txs = [tx], min_block = 0, max_block = - 1, searcher = pt_sender tx,
        bid_amount = pt_gas_price tx, revert_protection = True \<rparr> s))"

definition submit_bundle ::
  "u64 \<Rightarrow> private_bundle \<Rightarrow> private_pool \<Rightarrow> (mev_error, h256) outcome \<times> private_pool" where
  "submit_bundle now b s =
     (if \<not> verify_access (searcher b) s then (Err PrivatePoolAccessDenied, s)
      else if max_bundle_size (pool_config s) < length (pb_txs b)
      then (Err (BatchAuctionFailed ''Bundle exceeds maximum size''), s)
      else if bid_amount b < min_bid_amount (pool_config s)
      then (Err (BatchAuctionFailed ''Bid amount below minimum''), s)
      else and_then (update_searcher_stats now (searcher b) b (add_bundle b s)) (\<lambda>_ s. (Ok (pb_id b), s)))"

section \<open>Bundles for a block\<close>

text \<open>Bundles of the block are taken, those of later blocks stay, the others are dropped.\<close>

definition in_window :: "u64 \<Rightarrow> private_bundle \<Rightarrow> bool" where
  "in_window n b \<longleftrightarrow> min_block b \<le> n \<and> n \<le> max_block b"

definition get_next_bundles :: "u64 \<Rightarrow> private_pool \<Rightarrow> private_bundle list \<times> private_pool" where
  "get_next_bundles n s =
     (sort_key (\<lambda>b. - uint (bid_amount b)) (filter (in_window n) (pending_queue s)),
      s\<lparr>pending_queue := filter (\<lambda>b. \<not> in_window n b \<and> n < min_block b) (pending_queue s)\<rparr>)"

section \<open>Reputation and whitelist\<close>

text \<open>\<^verbatim>\<open>min(100, score + 2)\<close> for a bundle that went through, five less, but not below zero, for one that was reverted.\<close>

definition judge :: "bool \<Rightarrow> searcher_profile \<Rightarrow> searcher_profile" where
  "judge reverted p =
     (if \<not> reverted then p\<lparr>bundles_successful := bundles_successful p + 1, reputation := min 100 (reputation p + 2)\<rparr>
      else p\<lparr>reputation := saturating_sub (reputation p) 5\<rparr>)"

definition update_searcher_reputation :: "address \<Rightarrow> bundle_result \<Rightarrow> private_pool \<Rightarrow> private_pool" where
  "update_searcher_reputation a r s =
     s\<lparr>profiles := AList.map_entry a (judge (br_reverted r)) (profiles s)\<rparr>"

definition report_bundle_result :: "bundle_result \<Rightarrow> private_pool \<Rightarrow> private_pool" where
  "report_bundle_result r s =
     (let s1 = s\<lparr>bundle_results := (bundle_results s)(br_bundle r \<mapsto> r)\<rparr> in
      case map_of (private_bundles s1) (br_bundle r) of
        None \<Rightarrow> s1
      | Some b \<Rightarrow> update_searcher_reputation (searcher b) r s1)"

definition add_to_whitelist :: "u64 \<Rightarrow> address \<Rightarrow> private_pool \<Rightarrow> private_pool" where
  "add_to_whitelist now a s =
     (let p = (case map_of (profiles s) a of Some p \<Rightarrow> p | None \<Rightarrow> searcher_profile_new a 100 True now)
      in s\<lparr>whitelist := insert a (whitelist s), profiles := AList.update a (p\<lparr>whitelisted := True\<rparr>) (profiles s)\<rparr>)"

definition remove_from_whitelist :: "address \<Rightarrow> private_pool \<Rightarrow> private_pool" where
  "remove_from_whitelist a s =
     s\<lparr>whitelist := whitelist s - {a},
       profiles := AList.map_entry a (\<lambda>p. p\<lparr>whitelisted := False\<rparr>) (profiles s)\<rparr>"

definition get_searcher_profile :: "address \<Rightarrow> private_pool \<Rightarrow> searcher_profile option" where
  "get_searcher_profile a s = map_of (profiles s) a"

section \<open>Simulation and statistics\<close>

record tx_simulation =
  sim_hash :: h256
  sim_gas :: u256
  sim_success :: bool

record bundle_simulation =
  bsim_bundle :: h256
  bsim_gas :: u256
  bsim_profit :: u256
  bsim_txs :: "tx_simulation list"
  bsim_reverts :: bool

fun simulate_txs :: "u256 \<Rightarrow> protected_tx list \<Rightarrow> (u256 \<times> tx_simulation list) option" where
  "simulate_txs gas [] = Some (gas, [])"
| "simulate_txs gas (tx # txs) =
     do { g \<leftarrow> uadd gas 21000;
          (g', sims) \<leftarrow> simulate_txs g txs;
          Some (g', \<lparr> sim_hash = pt_hash tx, sim_gas = 21000, sim_success = True \<rparr> # sims) }"

definition simulate_bundle :: "private_bundle \<Rightarrow> (mev_error, bundle_simulation) outcome" where
  "simulate_bundle b =
     (case do { (gas, sims) \<leftarrow> simulate_txs 0 (pb_txs b); cost \<leftarrow> umul gas 20000000000; Some (gas, cost, sims) } of
        None \<Rightarrow> Panic
      | Some (gas, cost, sims) \<Rightarrow> Ok \<lparr> bsim_bundle = pb_id b, bsim_gas = gas,
          bsim_profit = saturating_sub (bid_amount b) cost, bsim_txs = sims, bsim_reverts = False \<rparr>)"

record pool_stats =
  ps_bundles :: nat
  ps_pending :: nat
  ps_searchers :: nat
  ps_whitelisted :: nat
  ps_bid_value :: u256

definition get_pool_stats :: "private_pool \<Rightarrow> (mev_error, pool_stats) outcome" where
  "get_pool_stats s =
     (case sum_checked 0 (map bid_amount (pending_queue s)) of
        None \<Rightarrow> Panic
      | Some v \<Rightarrow> Ok \<lparr> ps_bundles = length (private_bundles s), ps_pending = length (pending_queue s),
          ps_searchers = length (profiles s), ps_whitelisted = length (filter (\<lambda>(a, p). whitelisted p) (profiles s)),
          ps_bid_value = v \<rparr>)"

end
