(* ===== verification/PrivatePoolProps.thy ===== *)
theory PrivatePoolProps
  imports PrivatePool
begin

text \<open>
  The private pool: what every run keeps of the queue, the profiles and the whitelist, which bundles a block gets, and whom
  the reputation judges.
\<close>

section \<open>The queue\<close>

definition by_bid :: "private_bundle list \<Rightarrow> bool" where
  "by_bid bs \<longleftrightarrow> sorted_wrt (\<lambda>x y. bid_amount y \<le> bid_amount x) bs"

lemma set_insert_by_bid [simp]: "set (insert_by_bid b bs) = insert b (set bs)"
  by (induction bs) auto

lemma by_bid_insert: "by_bid bs \<Longrightarrow> by_bid (insert_by_bid b bs)"
proof (induction bs)
  case (Cons x xs)
  show ?case
  proof (cases "bid_amount x < bid_amount b")
    case True
    moreover from this have "bid_amount y \<le> bid_amount b" if "y \<in> set xs" for y
      using that Cons.prems order.trans [of "bid_amount y" "bid_amount x" "bid_amount b"]
      by (auto simp: by_bid_def)
    ultimately show ?thesis using Cons.prems by (auto simp: by_bid_def)
  next
    case False
    then show ?thesis using Cons by (auto simp: by_bid_def not_less)
  qed
qed (simp add: by_bid_def)

lemma by_bid_filter: "by_bid bs \<Longrightarrow> by_bid (filter P bs)"
  by (induction bs) (auto simp: by_bid_def)

lemma sort_by_bid: "by_bid bs \<Longrightarrow> sort_key (\<lambda>b. - uint (bid_amount b)) bs = bs"
  by (rule sort_key_id_if_sorted) (simp add: by_bid_def sorted_map sorted_wrt_map word_le_def)

section \<open>The invariant\<close>

datatype pool_call =
    Submit_private h256 protected_tx
  | Submit_bundle u64 private_bundle
  | Next_bundles u64
  | Report bundle_result
  | Whitelist u64 address
  | Unlist address

fun pool_step :: "pool_call \<Rightarrow> private_pool \<Rightarrow> private_pool" where
  "pool_step (Submit_private i tx) s = snd (submit_private i tx s)"
| "pool_step (Submit_bundle now b) s = snd (submit_bundle now b s)"
| "pool_step (Next_bundles n) s = snd (get_next_bundles n s)"
| "pool_step (Report r) s = report_bundle_result r s"
| "pool_step (Whitelist now a) s = add_to_whitelist now a s"
| "pool_step (Unlist a) s = remove_from_whitelist a s"

definition profile_ok :: "address set \<Rightarrow> address \<Rightarrow> searcher_profile \<Rightarrow> bool" where
  "profile_ok W a p \<longleftrightarrow> sp_address p = a \<and> reputation p \<le> 100 \<and> (whitelisted p \<longleftrightarrow> a \<in> W)"

definition pool_inv :: "private_pool \<Rightarrow> bool" where
  "pool_inv s \<longleftrightarrow> by_bid (pending_queue s) \<and>
     (\<forall>b \<in> set (pending_queue s). map_of (private_bundles s) (pb_id b) \<noteq> None \<and>
        length (pb_txs b) \<le> max 1 (max_bundle_size (pool_config s))) \<and>
     (\<forall>i b. map_of (private_bundles s) i = Some b \<longrightarrow> pb_id b = i) \<and>
     (\<forall>a p. map_of (profiles s) a = Some p \<longrightarrow> profile_ok (whitelist s) a p) \<and>
     (\<forall>a \<in> whitelist s. map_of (profiles s) a \<noteq> None)"

lemma judge_bound: "reputation p \<le> 100 \<Longrightarrow> reputation (judge r p) \<le> 100"
proof -
  assume p: "reputation p \<le> 100"
  have "unat (saturating_sub (reputation p) 5) \<le> unat (reputation p)"
    by (simp add: unat_saturating_sub)
  with p show ?thesis by (auto simp: judge_def word_le_nat_alt min_def)
qed

lemma judge_fields [simp]: "sp_address (judge r p) = sp_address p" "whitelisted (judge r p) = whitelisted p"
  by (simp_all add: judge_def)

lemma map_of_entry_pool: "map_of (AList.map_entry k f m) k' = (if k' = k then map_option f (map_of m k') else map_of m k')"
  by (induction m) auto

lemma pool_inv_new: "pool_inv (pool_with_config c)"
  by (simp add: pool_inv_def pool_with_config_def by_bid_def)

lemma pool_inv_add:
  assumes "pool_inv s" "length (pb_txs b) \<le> max 1 (max_bundle_size (pool_config s))"
  shows "pool_inv (add_bundle b s)"
  using assms by (auto simp: pool_inv_def add_bundle_def by_bid_insert update_conv)

text \<open>A profile may be replaced by one of the same searcher with the same standing.\<close>

lemma pool_inv_profile:
  assumes "pool_inv s" "profile_ok (whitelist s) a p"
  shows "pool_inv (s\<lparr>profiles := AList.update a p (profiles s)\<rparr>)"
  using assms by (auto simp: pool_inv_def update_conv)

lemma profile_ok_of:
  assumes "pool_inv s"
  shows "profile_ok (whitelist s) a (case map_of (profiles s) a of Some p \<Rightarrow> p | None \<Rightarrow> searcher_profile_new a 50 False 0)"
  using assms by (cases "map_of (profiles s) a") (auto simp: pool_inv_def profile_ok_def searcher_profile_new_def)

lemma pool_inv_stats: "pool_inv s \<Longrightarrow> pool_inv (snd (update_searcher_stats now a b s))"
  unfolding update_searcher_stats_def Let_def
  by (rule snd_or_panic; insert profile_ok_of [of s a]; simp; rule pool_inv_profile;
      simp add: profile_ok_def)

lemma pool_inv_step:
  assumes "pool_inv s"
  shows "pool_inv (pool_step c s)"
proof (cases c)
  case (Submit_private i tx)
  with assms show ?thesis by (simp add: submit_private_def pool_inv_add)
next
  case (Submit_bundle now b)
  have "pool_inv (snd (and_then (update_searcher_stats now (searcher b) b (add_bundle b s)) (\<lambda>_ s. (Ok (pb_id b), s))))"
    if "length (pb_txs b) \<le> max_bundle_size (pool_config s)"
  proof (rule snd_and_then)
    have "pool_inv (add_bundle b s)" using that assms by (simp add: pool_inv_add)
    then have stats: "pool_inv (snd (update_searcher_stats now (searcher b) b (add_bundle b s)))" by (rule pool_inv_stats)
    then show "pool_inv (snd (update_searcher_stats now (searcher b) b (add_bundle b s)))" .
    fix a :: unit and s' assume "update_searcher_stats now (searcher b) b (add_bundle b s) = (Ok a, s')"
    with stats show "pool_inv (snd (Ok (pb_id b) :: (mev_error, h256) outcome, s'))" by simp
  qed
  with assms Submit_bundle show ?thesis by (auto simp: submit_bundle_def not_less)
next
  case (Next_bundles n)
  with assms show ?thesis by (simp add: get_next_bundles_def pool_inv_def by_bid_filter)
next
  case (Report r)
  have "pool_inv (update_searcher_reputation a r s')" if "pool_inv s'" for a s'
    using that judge_bound by (auto simp: pool_inv_def update_searcher_reputation_def map_of_entry_pool profile_ok_def)
  moreover have "pool_inv (s\<lparr>bundle_results := (bundle_results s)(br_bundle r \<mapsto> r)\<rparr>)"
    using assms by (simp add: pool_inv_def)
  ultimately show ?thesis using Report by (simp add: report_bundle_result_def Let_def split: option.split)
next
  case (Whitelist now a)
  with assms show ?thesis
    by (auto simp: pool_inv_def add_to_whitelist_def Let_def update_conv profile_ok_def searcher_profile_new_def
        split: option.split)
next
  case (Unlist a)
  with assms show ?thesis
    by (auto simp: pool_inv_def remove_from_whitelist_def map_of_entry_pool profile_ok_def)
qed

interpretation pool: invariant_of pool_step "\<lambda>_ _. True" pool_inv
  by unfold_locales (rule pool_inv_step)

text \<open>
  In every run of the private pool the queue is sorted by bid, every bundle in it is registered under its identifier
  and keeps to the size limit, no reputation exceeds 100, and the profiles that count as whitelisted are exactly those of
  the whitelist.
\<close>

theorem private_pool_invariant:
  "pool_inv (run pool_step cs (pool_with_config c))"
  by (rule pool.inv_run [OF pool_inv_new run_ok_always])

text \<open>
  In every run a block gets exactly the bundles of the queue whose window contains it, highest bid first and the
  earlier of equal bids first; bundles of later blocks stay in the queue, expired ones are gone, and asking again for the
  same block yields nothing.
\<close>

theorem block_gets_its_bundles:
  assumes "s = run pool_step cs (pool_with_config c)" "get_next_bundles n s = (bs, s')"
  shows "bs = filter (\<lambda>b. min_block b \<le> n \<and> n \<le> max_block b) (pending_queue s) \<and>
    sorted_wrt (\<lambda>x y. bid_amount y \<le> bid_amount x) bs \<and>
    pending_queue s' = filter (\<lambda>b. n < min_block b) (pending_queue s) \<and> get_next_bundles n s' = ([], s')"
proof -
  have "by_bid (pending_queue s)"
    using pool.inv_run [OF pool_inv_new run_ok_always, of cs c] assms(1) by (simp add: pool_inv_def)
  then have f: "by_bid (filter (in_window n) (pending_queue s))" by (rule by_bid_filter)
  then have bs: "bs = filter (in_window n) (pending_queue s)"
    using assms(2) by (auto simp: get_next_bundles_def sort_by_bid)
  moreover have "pending_queue s' = filter (\<lambda>b. \<not> in_window n b \<and> n < min_block b) (pending_queue s)"
    and s': "s' = s\<lparr>pending_queue := pending_queue s'\<rparr>"
    using assms(2) by (auto simp: get_next_bundles_def)
  moreover have later: "(\<lambda>b. \<not> in_window n b \<and> n < min_block b) = (\<lambda>b. n < min_block b)"
    by (auto simp: in_window_def fun_eq_iff)
  ultimately have q: "pending_queue s' = filter (\<lambda>b. n < min_block b) (pending_queue s)" by simp
  have "get_next_bundles n s' = ([], s')"
  proof -
    have "filter (in_window n) (pending_queue s') = []"
      unfolding q by (auto simp: in_window_def filter_empty_conv dest: leD)
    moreover have "filter (\<lambda>b. \<not> in_window n b \<and> n < min_block b) (pending_queue s') = pending_queue s'"
      unfolding later q by simp
    ultimately show ?thesis by (simp add: get_next_bundles_def)
  qed
  with bs f q show ?thesis by (simp add: by_bid_def in_window_def [abs_def])
qed

section \<open>Reputation\<close>

text \<open>Calls that name a searcher in a bundle or on the whitelist create a profile; private transactions do not.\<close>

fun names :: "address \<Rightarrow> pool_call \<Rightarrow> bool" where
  "names a (Submit_bundle now b) = (searcher b = a)"
| "names a (Whitelist now a') = (a' = a)"
| "names a c = False"

lemma keys_step:
  assumes "map_of (profiles s) a = None" "\<not> names a c"
  shows "map_of (profiles (pool_step c s)) a = None \<and> pool_config (pool_step c s) = pool_config s"
proof (cases c)
  case (Submit_bundle now b)
  then show ?thesis
    using assms by (auto simp: submit_bundle_def update_searcher_stats_def add_bundle_def Let_def or_panic_def uadd_def update_conv)
next
  case (Report r)
  with assms show ?thesis
    by (auto simp: report_bundle_result_def update_searcher_reputation_def map_of_entry_pool Let_def split: option.split)
qed (use assms in \<open>auto simp: submit_private_def add_bundle_def get_next_bundles_def add_to_whitelist_def
       remove_from_whitelist_def update_conv map_of_entry_pool Let_def\<close>)

lemma keys_run:
  "map_of (profiles s) a = None \<Longrightarrow> list_all (\<lambda>c. \<not> names a c) cs \<Longrightarrow>
     map_of (profiles (run pool_step cs s)) a = None \<and> pool_config (run pool_step cs s) = pool_config s"
proof (induction cs arbitrary: s)
  case (Cons c cs)
  with keys_step [of s a c] Cons.IH [of "pool_step c s"] show ?case by simp
qed simp

text \<open>
  A sender that only uses private transactions is never judged: whatever results are reported for its bundles, it has
  no profile and keeps its access, while a searcher with a profile needs the minimum reputation.
\<close>

theorem private_senders_are_never_judged:
  assumes "\<not> whitelist_only c" "list_all (\<lambda>call. \<not> names (pt_sender tx) call) cs"
  shows "fst (submit_private i tx (run pool_step cs (pool_with_config c))) = Ok i"
proof -
  have "map_of (profiles (run pool_step cs (pool_with_config c))) (pt_sender tx) = None \<and>
      pool_config (run pool_step cs (pool_with_config c)) = c"
    using keys_run [of "pool_with_config c" "pt_sender tx" cs] assms(2) by (simp add: pool_with_config_def)
  with assms(1) show ?thesis by (simp add: submit_private_def verify_access_def)
qed

text \<open>
  The whitelist opens nothing to a searcher whose reputation is too low: outside the whitelist mode it is refused as
  before, because only a searcher without a profile gets the full score with the listing.
\<close>

theorem whitelisting_does_not_admit:
  assumes "\<not> whitelist_only (pool_config s)" "map_of (profiles s) (searcher b) = Some p"
    and "reputation p < min_reputation (pool_config s)"
  shows "submit_bundle now b (add_to_whitelist t (searcher b) s)
    = (Err PrivatePoolAccessDenied, add_to_whitelist t (searcher b) s)"
  using assms by (simp add: submit_bundle_def verify_access_def add_to_whitelist_def Let_def update_conv not_le [symmetric])

section \<open>Examples\<close>

definition sample_bundle :: "h256 \<Rightarrow> u256 \<Rightarrow> u64 \<Rightarrow> u64 \<Rightarrow> private_bundle" where
  "sample_bundle i bid lo hi = \<lparr> pb_id = i, pb_txs = [], min_block = lo, max_block = hi, searcher = 7, bid_amount = bid,
     revert_protection = True \<rparr>"

definition sample_report :: "h256 \<Rightarrow> bundle_result" where
  "sample_report i = \<lparr> br_bundle = i, br_block = 1, br_gas = 0, br_profit = 0, br_reverted = True, br_index = 0 \<rparr>"

definition sample_private :: protected_tx where
  "sample_private = \<lparr> pt_hash = 1, pt_sender = 9, pt_nonce = 0, pt_gas_price = 5, pt_data = [],
     pt_protection = By_private_pool, pt_time = 0 \<rparr>"

definition sample_calls :: "pool_call list" where
  "sample_calls = [Submit_bundle 1 (sample_bundle 11 2000000000 1 5), Submit_bundle 2 (sample_bundle 12 3000000000 1 5),
     Submit_bundle 3 (sample_bundle 13 4000000000 6 9)]"

lemma sample_queue:
  "pending_queue (run pool_step sample_calls private_pool_new)
     = [sample_bundle 13 4000000000 6 9, sample_bundle 12 3000000000 1 5, sample_bundle 11 2000000000 1 5]"
  by (simp add: sample_calls_def private_pool_new_def pool_with_config_def pool_config_default_def submit_bundle_def
      verify_access_def add_bundle_def update_searcher_stats_def searcher_profile_new_def sample_bundle_def Let_def uadd_def)

theorem block_gets_its_bundles_witness:
  "fst (get_next_bundles 4 (run pool_step sample_calls private_pool_new))
     = [sample_bundle 12 3000000000 1 5, sample_bundle 11 2000000000 1 5]"
proof -
  let ?s = "run pool_step sample_calls (pool_with_config pool_config_default)"
  have "fst (get_next_bundles 4 ?s) = filter (\<lambda>b. min_block b \<le> 4 \<and> 4 \<le> max_block b) (pending_queue ?s)"
    using block_gets_its_bundles [OF refl, of 4 sample_calls pool_config_default "fst (get_next_bundles 4 ?s)"
        "snd (get_next_bundles 4 ?s)"] by simp
  then show ?thesis
    using sample_queue by (simp add: private_pool_new_def sample_bundle_def)
qed

theorem private_senders_are_never_judged_witness:
  "fst (submit_private 3 sample_private
     (run pool_step [Submit_private 1 sample_private, Report (sample_report 1), Report (sample_report 1)] private_pool_new)) = Ok 3"
  using private_senders_are_never_judged [of pool_config_default sample_private
      "[Submit_private 1 sample_private, Report (sample_report 1), Report (sample_report 1)]" 3]
  by (simp add: private_pool_new_def pool_config_default_def del: run.simps)

theorem whitelisting_does_not_admit_witness:
  "fst (submit_bundle 6 (sample_bundle 12 3000000000 1 5) (add_to_whitelist 5 7
     (run pool_step [Submit_bundle 1 (sample_bundle 11 2000000000 1 5), Report (sample_report 11)] private_pool_new)))
     = Err PrivatePoolAccessDenied"
proof -
  let ?s = "run pool_step [Submit_bundle 1 (sample_bundle 11 2000000000 1 5), Report (sample_report 11)] private_pool_new"
  have s: "map_of (profiles ?s) 7 = Some \<lparr> sp_address = 7, reputation = 45, bundles_submitted = 1, bundles_successful = 0,
      sp_bid_value = 2000000000, whitelisted = False, last_activity = 1 \<rparr>" "pool_config ?s = pool_config_default"
    by (simp_all add: private_pool_new_def pool_with_config_def pool_config_default_def submit_bundle_def
      verify_access_def add_bundle_def update_searcher_stats_def searcher_profile_new_def sample_bundle_def Let_def uadd_def
      sample_report_def report_bundle_result_def update_searcher_reputation_def judge_def saturating_sub_def)
  have "submit_bundle 6 (sample_bundle 12 3000000000 1 5) (add_to_whitelist 5 (searcher (sample_bundle 12 3000000000 1 5)) ?s)
     = (Err PrivatePoolAccessDenied, add_to_whitelist 5 (searcher (sample_bundle 12 3000000000 1 5)) ?s)"
  proof (rule whitelisting_does_not_admit)
    show "\<not> whitelist_only (pool_config ?s)" unfolding s(2) by (simp add: pool_config_default_def)
    show "map_of (profiles ?s) (searcher (sample_bundle 12 3000000000 1 5)) = Some \<lparr> sp_address = 7, reputation = 45,
        bundles_submitted = 1, bundles_successful = 0, sp_bid_value = 2000000000, whitelisted = False, last_activity = 1 \<rparr>"
      using s(1) by (simp add: sample_bundle_def)
    show "reputation \<lparr> sp_address = 7, reputation = 45, bundles_submitted = 1, bundles_successful = 0,
        sp_bid_value = 2000000000, whitelisted = False, last_activity = 1 \<rparr> < min_reputation (pool_config ?s)"
      unfolding s(2) by (simp add: pool_config_default_def)
  qed
  then show ?thesis by (simp add: sample_bundle_def)
qed

end
