(* ===== verification/CommitReveal.thy ===== *)
theory CommitReveal
  imports BatchAuction
begin

text \<open>
  The commit-reveal scheme of \<^verbatim>\<open>src/dex/mev_protection/commit_reveal.rs\<close>. Keccak is an argument, and so are the random
  nonce value of a commitment and the clock (in seconds). The commitments are iterated over, so they are an association
  list.
\<close>

section \<open>State\<close>

record commitment =
  com_hash :: h256
  com_sender :: address
  com_time :: u64
  reveal_deadline :: u64
  com_revealed :: bool

record revealed_tx =
  rev_hash :: h256
  rev_tx :: protected_tx
  rev_nonce :: h256
  rev_time :: u64

record commit_reveal =
  commitments :: "(h256 \<times> commitment) list"
  revealed_txs :: "(h256 \<times> revealed_tx) list"
  pending_reveals :: "revealed_tx list"
  reveal_timeout :: u64
  min_commit_period :: u64

definition commit_reveal_new :: "u64 \<Rightarrow> commit_reveal" where
  "commit_reveal_new timeout = \<lparr> commitments = [], revealed_txs = [], pending_reveals = [],
     reveal_timeout = timeout, min_commit_period = 1 \<rparr>"

section \<open>The commitment\<close>

definition commitment_bytes :: "protected_tx \<Rightarrow> h256 \<Rightarrow> u8 list" where
  "commitment_bytes tx nonce =
     be_bytes 32 (pt_hash tx) @ be_bytes 20 (pt_sender tx) @ le_bytes 8 (pt_nonce tx) @ le_bytes 32 (pt_gas_price tx)
     @ pt_data tx @ be_bytes 32 nonce"

definition compute_commitment :: "(u8 list \<Rightarrow> h256) \<Rightarrow> protected_tx \<Rightarrow> h256 \<Rightarrow> h256" where
  "compute_commitment keccak tx nonce = keccak (commitment_bytes tx nonce)"

definition verify_commitment :: "(u8 list \<Rightarrow> h256) \<Rightarrow> h256 \<Rightarrow> protected_tx \<Rightarrow> h256 \<Rightarrow> bool" where
  "verify_commitment keccak h tx nonce \<longleftrightarrow> compute_commitment keccak tx nonce = h"

section \<open>Operations\<close>

text \<open>\<^verbatim>\<open>store_commitment_data\<close> has an empty body.\<close>

definition store_commitment_data :: "h256 \<Rightarrow> protected_tx \<Rightarrow> h256 \<Rightarrow> commit_reveal \<Rightarrow> commit_reveal" where
  "store_commitment_data h tx nonce s = s"

text \<open>The clock is read twice, for the time and for the deadline.\<close>

definition submit_commitment ::
  "(u8 list \<Rightarrow> h256) \<Rightarrow> h256 \<Rightarrow> u64 \<Rightarrow> u64 \<Rightarrow> protected_tx \<Rightarrow> commit_reveal \<Rightarrow> (mev_error, h256) outcome \<times> commit_reveal" where
  "submit_commitment keccak nonce t0 t1 tx s =
     (let h = compute_commitment keccak tx nonce;
          c = \<lparr> com_hash = h, com_sender = pt_sender tx, com_time = t0, reveal_deadline = t1 + reveal_timeout s,
                com_revealed = False \<rparr>
      in (Ok h, store_commitment_data h tx nonce (s\<lparr>commitments := AList.update h c (commitments s)\<rparr>)))"

definition reveal_transaction ::
  "(u8 list \<Rightarrow> h256) \<Rightarrow> u64 \<Rightarrow> h256 \<Rightarrow> protected_tx \<Rightarrow> h256 \<Rightarrow> commit_reveal
     \<Rightarrow> (mev_error, unit) outcome \<times> commit_reveal" where
  "reveal_transaction keccak now h tx nonce s =
     (case map_of (commitments s) h of
        None \<Rightarrow> (Err InvalidCommitment, s)
      | Some c \<Rightarrow>
          if com_revealed c then (Err InvalidCommitment, s)
          else if reveal_deadline c < now then (Err RevealTimeout, s)
          else if now < com_time c + min_commit_period s then (Err InvalidCommitment, s)
          else if compute_commitment keccak tx nonce \<noteq> h then (Err InvalidCommitment, s)
          else
            let r = \<lparr> rev_hash = h, rev_tx = tx, rev_nonce = nonce, rev_time = now \<rparr>
            in (Ok (), s\<lparr>commitments := AList.map_entry h (\<lambda>c. c\<lparr>com_revealed := True\<rparr>) (commitments s),
                  revealed_txs := AList.update h r (revealed_txs s),
                  pending_reveals := pending_reveals s @ [r]\<rparr>))"

text \<open>
  A reveal is ready a second later; the ready transactions are sorted by gas price and nonce (the pair as one number) and
  then reversed.
\<close>

fun ready_key :: "protected_tx \<Rightarrow> nat" where
  "ready_key tx = unat (pt_gas_price tx) * 2 ^ 64 + unat (pt_nonce tx)"

definition get_ready_transactions :: "u64 \<Rightarrow> commit_reveal \<Rightarrow> protected_tx list \<times> commit_reveal" where
  "get_ready_transactions now s =
     (rev (sort_key ready_key (map rev_tx (filter (\<lambda>r. rev_time r + 1 \<le> now) (pending_reveals s)))),
      s\<lparr>pending_reveals := filter (\<lambda>r. \<not> rev_time r + 1 \<le> now) (pending_reveals s)\<rparr>)"

definition expired :: "u64 \<Rightarrow> commitment \<Rightarrow> bool" where
  "expired now c \<longleftrightarrow> \<not> com_revealed c \<and> reveal_deadline c < now"

definition slash_expired_commitments :: "u64 \<Rightarrow> commit_reveal \<Rightarrow> address list \<times> commit_reveal" where
  "slash_expired_commitments now s =
     (map (\<lambda>(h, c). com_sender c) (filter (\<lambda>(h, c). expired now c) (commitments s)),
      s\<lparr>commitments := filter (\<lambda>(h, c). \<not> expired now c) (commitments s)\<rparr>)"

fun batch_reveal ::
  "(u8 list \<Rightarrow> h256) \<Rightarrow> (nat \<Rightarrow> u64) \<Rightarrow> (h256 \<times> protected_tx \<times> h256) list \<Rightarrow> commit_reveal \<Rightarrow> h256 list \<times> commit_reveal" where
  "batch_reveal keccak clock [] s = ([], s)"
| "batch_reveal keccak clock ((h, tx, nonce) # rs) s =
     (case reveal_transaction keccak (clock 0) h tx nonce s of
        (Ok _, s) \<Rightarrow> (case batch_reveal keccak (\<lambda>i. clock (Suc i)) rs s of (hs, s) \<Rightarrow> (h # hs, s))
      | (_, s) \<Rightarrow> batch_reveal keccak (\<lambda>i. clock (Suc i)) rs s)"

section \<open>Reports\<close>

record commitment_status =
  st_hash :: h256
  st_sender :: address
  st_committed_at :: u64
  st_deadline :: u64
  st_revealed :: bool
  st_expired :: bool
  st_remaining :: "u64 option"

definition get_commitment_status :: "u64 \<Rightarrow> h256 \<Rightarrow> commit_reveal \<Rightarrow> commitment_status option" where
  "get_commitment_status now h s =
     map_option (\<lambda>c. let shown = map_of (revealed_txs s) h \<noteq> None in
       \<lparr> st_hash = h, st_sender = com_sender c, st_committed_at = com_time c, st_deadline = reveal_deadline c,
         st_revealed = shown, st_expired = (\<not> shown \<and> reveal_deadline c < now),
         st_remaining = (if now < reveal_deadline c then Some (reveal_deadline c - now) else None) \<rparr>)
       (map_of (commitments s) h)"

text \<open>Sum and count of the reveal times, in machine words that wrap.\<close>

fun reveal_times :: "(h256 \<times> commitment) list \<Rightarrow> (h256 \<times> revealed_tx) list \<Rightarrow> u64 \<times> u64 \<Rightarrow> u64 \<times> u64" where
  "reveal_times cs [] acc = acc"
| "reveal_times cs ((h, r) # rs) (t, n) =
     (case map_of cs h of
        None \<Rightarrow> reveal_times cs rs (t, n)
      | Some c \<Rightarrow> reveal_times cs rs (t + (rev_time r - com_time c), n + 1))"

definition calculate_average_reveal_time :: "commit_reveal \<Rightarrow> u64 option" where
  "calculate_average_reveal_time s =
     (case reveal_times (commitments s) (revealed_txs s) (0, 0) of (t, n) \<Rightarrow> if 0 < n then Some (t div n) else None)"

record commit_reveal_stats =
  cr_commitments :: nat
  cr_revealed :: nat
  cr_pending :: nat
  cr_expired :: nat
  cr_average :: "u64 option"

definition get_statistics :: "u64 \<Rightarrow> commit_reveal \<Rightarrow> commit_reveal_stats" where
  "get_statistics now s = \<lparr> cr_commitments = length (commitments s), cr_revealed = length (revealed_txs s),
     cr_pending = length (pending_reveals s), cr_expired = length (filter (\<lambda>(h, c). expired now c) (commitments s)),
     cr_average = calculate_average_reveal_time s \<rparr>"

section \<open>What a commitment binds\<close>

text \<open>
  The bytes that are hashed determine what they commit to: hash, sender, nonce, gas price and data of the
  transaction and the random nonce value. So a commitment can be opened in two ways only with a collision of Keccak.
  The protection type and the time of the transaction are not bound.
\<close>

theorem commitment_binds:
  "commitment_bytes tx n = commitment_bytes tx' n' \<longleftrightarrow>
     pt_hash tx = pt_hash tx' \<and> pt_sender tx = pt_sender tx' \<and> pt_nonce tx = pt_nonce tx' \<and>
     pt_gas_price tx = pt_gas_price tx' \<and> pt_data tx = pt_data tx' \<and> n = n'"
proof
  assume eq: "commitment_bytes tx n = commitment_bytes tx' n'"
  then have "length (commitment_bytes tx n) = length (commitment_bytes tx' n')" by simp
  then have "length (pt_data tx) = length (pt_data tx')" by (simp add: commitment_bytes_def)
  with eq show "pt_hash tx = pt_hash tx' \<and> pt_sender tx = pt_sender tx' \<and> pt_nonce tx = pt_nonce tx' \<and>
     pt_gas_price tx = pt_gas_price tx' \<and> pt_data tx = pt_data tx' \<and> n = n'"
    by (simp add: commitment_bytes_def append_eq_append_conv le_bytes_inj) (auto dest: be_bytes_inj [rotated])
qed (simp add: commitment_bytes_def)

section \<open>Runs\<close>

datatype reveal_call =
    Commit h256 u64 u64 protected_tx
  | Reveal u64 h256 protected_tx h256
  | Collect u64
  | Slash u64

fun reveal_step :: "(u8 list \<Rightarrow> h256) \<Rightarrow> reveal_call \<Rightarrow> commit_reveal \<Rightarrow> commit_reveal" where
  "reveal_step keccak (Commit nonce t0 t1 tx) s = snd (submit_commitment keccak nonce t0 t1 tx s)"
| "reveal_step keccak (Reveal now h tx nonce) s = snd (reveal_transaction keccak now h tx nonce s)"
| "reveal_step keccak (Collect now) s = snd (get_ready_transactions now s)"
| "reveal_step keccak (Slash now) s = snd (slash_expired_commitments now s)"

text \<open>A commitment is made with a nonce value that gives a hash not in use.\<close>

fun fresh_commitment :: "(u8 list \<Rightarrow> h256) \<Rightarrow> reveal_call \<Rightarrow> commit_reveal \<Rightarrow> bool" where
  "fresh_commitment keccak (Commit nonce t0 t1 tx) s \<longleftrightarrow>
     map_of (commitments s) (compute_commitment keccak tx nonce) = None \<and>
     map_of (revealed_txs s) (compute_commitment keccak tx nonce) = None"
| "fresh_commitment keccak c s \<longleftrightarrow> True"

text \<open>A reveal that opens its commitment, in the time between the commit period and the deadline.\<close>

definition opens :: "(u8 list \<Rightarrow> h256) \<Rightarrow> commit_reveal \<Rightarrow> revealed_tx \<Rightarrow> bool" where
  "opens keccak s r \<longleftrightarrow>
     compute_commitment keccak (rev_tx r) (rev_nonce r) = rev_hash r \<and>
     (\<exists>c. map_of (commitments s) (rev_hash r) = Some c \<and> com_revealed c \<and>
        com_time c + min_commit_period s \<le> rev_time r \<and> rev_time r \<le> reveal_deadline c)"

definition reveal_inv :: "(u8 list \<Rightarrow> h256) \<Rightarrow> commit_reveal \<Rightarrow> bool" where
  "reveal_inv keccak s \<longleftrightarrow>
     distinct (map fst (commitments s)) \<and>
     (\<forall>h c. map_of (commitments s) h = Some c \<longrightarrow>
        com_hash c = h \<and> (com_revealed c \<longleftrightarrow> map_of (revealed_txs s) h \<noteq> None)) \<and>
     (\<forall>h r. map_of (revealed_txs s) h = Some r \<longrightarrow> rev_hash r = h \<and> opens keccak s r) \<and>
     distinct (map rev_hash (pending_reveals s)) \<and>
     (\<forall>r \<in> set (pending_reveals s). map_of (revealed_txs s) (rev_hash r) = Some r)"

lemma map_of_filter_snd:
  "distinct (map fst m) \<Longrightarrow> map_of (filter (\<lambda>(h, c). P c) m) h =
     (case map_of m h of None \<Rightarrow> None | Some c \<Rightarrow> if P c then Some c else None)"
  by (induction m) (auto simp: map_of_eq_None_iff split: option.split dest: map_of_SomeD)

lemma map_of_entry_at: "map_of (AList.map_entry k f m) j = (if j = k then map_option f (map_of m j) else map_of m j)"
  by (induction m) auto

lemma keys_entry_at [simp]: "map fst (AList.map_entry k f m) = map fst m"
  by (induction m) auto

lemma reveal_inv_commit:
  assumes "reveal_inv keccak s" "fresh_commitment keccak (Commit nonce t0 t1 tx) s"
  shows "reveal_inv keccak (snd (submit_commitment keccak nonce t0 t1 tx s))"
proof -
  let ?h = "compute_commitment keccak tx nonce" and ?s = "snd (submit_commitment keccak nonce t0 t1 tx s)"
  have f: "map_of (commitments s) ?h = None" "map_of (revealed_txs s) ?h = None" using assms(2) by simp_all
  have opens: "opens keccak ?s r" if "opens keccak s r" for r
    using that f(1) by (auto simp: opens_def submit_commitment_def store_commitment_data_def Let_def update_conv)
  show ?thesis
    using assms(1) f opens unfolding reveal_inv_def
    by (auto simp: submit_commitment_def store_commitment_data_def Let_def update_conv distinct_update)
qed

lemma reveal_transaction_Ok:
  "reveal_transaction keccak now h tx nonce s = (Ok (), s') \<longleftrightarrow>
     (\<exists>c. map_of (commitments s) h = Some c \<and> \<not> com_revealed c \<and> com_time c + min_commit_period s \<le> now \<and>
        now \<le> reveal_deadline c \<and> compute_commitment keccak tx nonce = h) \<and>
     s' = s\<lparr>commitments := AList.map_entry h (\<lambda>c. c\<lparr>com_revealed := True\<rparr>) (commitments s),
       revealed_txs := AList.update h \<lparr> rev_hash = h, rev_tx = tx, rev_nonce = nonce, rev_time = now \<rparr> (revealed_txs s),
       pending_reveals := pending_reveals s @ [\<lparr> rev_hash = h, rev_tx = tx, rev_nonce = nonce, rev_time = now \<rparr>]\<rparr>"
  by (auto simp: reveal_transaction_def Let_def not_less split: option.splits)

lemma reveal_transaction_refused:
  "reveal_transaction keccak now h tx nonce s = (r, s') \<Longrightarrow> r \<noteq> Ok () \<Longrightarrow> s' = s"
  by (auto simp: reveal_transaction_def Let_def split: option.splits if_splits)

lemma reveal_inv_reveal:
  assumes "reveal_inv keccak s" "reveal_transaction keccak now h tx nonce s = (Ok (), s')"
  shows "reveal_inv keccak s'"
proof -
  let ?r = "\<lparr> rev_hash = h, rev_tx = tx, rev_nonce = nonce, rev_time = now \<rparr>"
  obtain c where c: "map_of (commitments s) h = Some c" "\<not> com_revealed c" "com_time c + min_commit_period s \<le> now"
    "now \<le> reveal_deadline c" "compute_commitment keccak tx nonce = h"
    and s': "s' = s\<lparr>commitments := AList.map_entry h (\<lambda>c. c\<lparr>com_revealed := True\<rparr>) (commitments s),
       revealed_txs := AList.update h ?r (revealed_txs s), pending_reveals := pending_reveals s @ [?r]\<rparr>"
    using assms(2) by (auto simp: reveal_transaction_Ok)
  have h: "map_of (revealed_txs s) h = None" using assms(1) c by (auto simp: reveal_inv_def)
  have new: "opens keccak s' ?r" using c by (simp add: opens_def s' map_of_entry_at)
  have old: "opens keccak s' r" if r: "opens keccak s r" for r
  proof -
    obtain d where d: "map_of (commitments s) (rev_hash r) = Some d" "com_revealed d" using r by (auto simp: opens_def)
    with c(1,2) have "rev_hash r \<noteq> h" by auto
    with r show ?thesis by (simp add: opens_def s' map_of_entry_at)
  qed
  have inv: "distinct (map fst (commitments s))" "distinct (map rev_hash (pending_reveals s))"
    "\<And>k d. map_of (commitments s) k = Some d \<Longrightarrow> com_hash d = k \<and> (com_revealed d \<longleftrightarrow> map_of (revealed_txs s) k \<noteq> None)"
    "\<And>k r. map_of (revealed_txs s) k = Some r \<Longrightarrow> rev_hash r = k \<and> opens keccak s r"
    "\<And>r. r \<in> set (pending_reveals s) \<Longrightarrow> map_of (revealed_txs s) (rev_hash r) = Some r"
    using assms(1) unfolding reveal_inv_def by blast+
  have other: "rev_hash r \<noteq> h" if "r \<in> set (pending_reveals s)" for r
    using inv(5) [OF that] h by auto
  have "distinct (map rev_hash (pending_reveals s'))"
    using inv(2) other by (auto simp: s')
  moreover have "com_hash d = k \<and> (com_revealed d \<longleftrightarrow> map_of (revealed_txs s') k \<noteq> None)"
    if "map_of (commitments s') k = Some d" for k d
    using that inv(3) [of k] by (auto simp: s' map_of_entry_at update_conv split: if_splits)
  moreover have "rev_hash r = k \<and> opens keccak s' r" if "map_of (revealed_txs s') k = Some r" for k r
  proof (cases "k = h")
    case True
    with that have "r = ?r" by (simp add: s' update_conv)
    with True new show ?thesis by simp
  next
    case False
    with that have "map_of (revealed_txs s) k = Some r" by (simp add: s' update_conv)
    with inv(4) old show ?thesis by blast
  qed
  moreover have "map_of (revealed_txs s') (rev_hash r) = Some r" if "r \<in> set (pending_reveals s')" for r
  proof (cases "r \<in> set (pending_reveals s)")
    case True
    with inv(5) other show ?thesis by (simp add: s' update_conv)
  next
    case False
    with that have "r = ?r" by (simp add: s')
    then show ?thesis by (simp add: s' update_conv)
  qed
  moreover have "distinct (map fst (commitments s'))" using inv(1) by (simp add: s')
  ultimately show ?thesis unfolding reveal_inv_def by blast
qed

lemma reveal_inv_slash:
  assumes "reveal_inv keccak s"
  shows "reveal_inv keccak (snd (slash_expired_commitments now s))"
proof -
  let ?s = "snd (slash_expired_commitments now s)"
  have dist: "distinct (map fst (commitments s))" using assms by (simp add: reveal_inv_def)
  have c: "map_of (commitments ?s) h =
      (case map_of (commitments s) h of None \<Rightarrow> None | Some c \<Rightarrow> if \<not> expired now c then Some c else None)" for h
    unfolding slash_expired_commitments_def by (simp add: map_of_filter_snd [OF dist])
  have "opens keccak ?s r" if r: "opens keccak s r" for r
  proof -
    obtain c where c': "map_of (commitments s) (rev_hash r) = Some c" "com_revealed c" using r by (auto simp: opens_def)
    then have "map_of (commitments ?s) (rev_hash r) = Some c" by (simp add: c expired_def)
    with r c' show ?thesis by (auto simp: opens_def slash_expired_commitments_def)
  qed
  moreover have "distinct (map fst (commitments ?s))" using dist by (simp add: slash_expired_commitments_def distinct_map_filter)
  moreover have "revealed_txs ?s = revealed_txs s" "pending_reveals ?s = pending_reveals s"
    by (simp_all add: slash_expired_commitments_def)
  ultimately show ?thesis using assms by (auto simp: reveal_inv_def c split: option.splits if_splits)
qed

lemma reveal_inv_step: "reveal_inv keccak s \<Longrightarrow> fresh_commitment keccak c s \<Longrightarrow> reveal_inv keccak (reveal_step keccak c s)"
proof (induction c)
  case (Commit nonce t0 t1 tx)
  then show ?case using reveal_inv_commit by (simp del: fresh_commitment.simps)
next
  case (Reveal now h tx nonce)
  obtain r s' where r: "reveal_transaction keccak now h tx nonce s = (r, s')" by fastforce
  show ?case
  proof (cases "r = Ok ()")
    case True
    with r reveal_inv_reveal Reveal(1) show ?thesis by simp
  next
    case False
    with reveal_transaction_refused [OF r] r Reveal(1) show ?thesis by simp
  qed
next
  case (Collect now)
  have "opens keccak (s\<lparr>pending_reveals := rs\<rparr>) r = opens keccak s r" for rs r by (simp add: opens_def)
  with Collect(1) show ?case by (simp add: get_ready_transactions_def reveal_inv_def distinct_map_filter)
next
  case (Slash now)
  then show ?case using reveal_inv_slash by simp
qed

interpretation reveals: invariant_of "reveal_step keccak" "fresh_commitment keccak" "reveal_inv keccak" for keccak
  by unfold_locales (rule reveal_inv_step)

lemma reveal_inv_new: "reveal_inv keccak (commit_reveal_new timeout)"
  by (simp add: reveal_inv_def commit_reveal_new_def)

text \<open>
  C36: in every run in which commitments have fresh hashes, each transaction waiting for execution opens its own
  commitment: hash and nonce value match, the reveal was made after the commit period and not after the deadline, the
  commitment is marked, and no commitment waits twice.
\<close>

theorem pending_reveals_open_their_commitments:
  assumes "run_ok (fresh_commitment keccak) (reveal_step keccak) cs (commit_reveal_new timeout)"
    and "s = run (reveal_step keccak) cs (commit_reveal_new timeout)"
  shows "distinct (map rev_hash (pending_reveals s)) \<and>
    (\<forall>r \<in> set (pending_reveals s).
       compute_commitment keccak (rev_tx r) (rev_nonce r) = rev_hash r \<and>
       (\<exists>c. map_of (commitments s) (rev_hash r) = Some c \<and> com_revealed c \<and>
          com_time c + min_commit_period s \<le> rev_time r \<and> rev_time r \<le> reveal_deadline c))"
  using reveals.inv_run [OF reveal_inv_new assms(1)] unfolding assms(2) reveal_inv_def opens_def by blast

text \<open>
  A commitment can be revealed exactly once: the reveal succeeds if and only if the commitment exists, is not
  revealed, its period has passed, its deadline has not, and the bytes match; whatever is tried afterwards under
  the same hash is refused and changes nothing.
\<close>

theorem reveal_succeeds_once:
  "((\<exists>s1. reveal_transaction keccak now h tx nonce s = (Ok (), s1)) \<longleftrightarrow>
     (\<exists>c. map_of (commitments s) h = Some c \<and> \<not> com_revealed c \<and> com_time c + min_commit_period s \<le> now \<and>
        now \<le> reveal_deadline c \<and> compute_commitment keccak tx nonce = h)) \<and>
   (\<forall>s1. reveal_transaction keccak now h tx nonce s = (Ok (), s1) \<longrightarrow>
     reveal_transaction keccak now' h tx' nonce' s1 = (Err InvalidCommitment, s1))"
  unfolding reveal_transaction_Ok by (auto simp: reveal_transaction_def map_of_entry_at)

lemma ready_key_le:
  "ready_key x \<le> ready_key y \<longleftrightarrow>
     pt_gas_price x < pt_gas_price y \<or> pt_gas_price x = pt_gas_price y \<and> pt_nonce x \<le> pt_nonce y"
proof -
  have n: "unat (pt_nonce x) < 2 ^ 64" "unat (pt_nonce y) < 2 ^ 64"
    using unsigned_less [of "pt_nonce x"] unsigned_less [of "pt_nonce y"] by simp_all
  have lt: "i * 2 ^ 64 + a \<le> j * 2 ^ 64 + b" if "i < j" "a < 2 ^ 64" for i j a b :: nat
  proof -
    have "i * 2 ^ 64 + 2 ^ 64 \<le> j * 2 ^ 64" using mult_le_mono1 [of "Suc i" j "2 ^ 64"] that(1) by simp
    with that(2) show ?thesis by linarith
  qed
  have gt: "\<not> j * 2 ^ 64 + a \<le> i * 2 ^ 64 + b" if "i < j" "b < 2 ^ 64" for i j a b :: nat
  proof -
    have "i * 2 ^ 64 + 2 ^ 64 \<le> j * 2 ^ 64" using mult_le_mono1 [of "Suc i" j "2 ^ 64"] that(1) by simp
    with that(2) show ?thesis by linarith
  qed
  consider "unat (pt_gas_price x) < unat (pt_gas_price y)" | "unat (pt_gas_price x) = unat (pt_gas_price y)"
    | "unat (pt_gas_price y) < unat (pt_gas_price x)" by linarith
  then show ?thesis
    using n lt gt by cases (auto simp: word_less_nat_alt word_le_nat_alt word_unat_eq_iff)
qed

text \<open>
  The transactions handed over for execution are those revealed at least a second ago, by descending gas price and
  then by descending nonce; the others keep waiting. So the later of two transactions of one sender comes first.
\<close>

theorem ready_transactions_are_sorted:
  "sorted_wrt (\<lambda>x y. pt_gas_price y < pt_gas_price x \<or> pt_gas_price y = pt_gas_price x \<and> pt_nonce y \<le> pt_nonce x)
     (fst (get_ready_transactions now s)) \<and>
   mset (fst (get_ready_transactions now s)) + mset (map rev_tx (pending_reveals (snd (get_ready_transactions now s))))
     = mset (map rev_tx (pending_reveals s)) \<and>
   set (pending_reveals (snd (get_ready_transactions now s))) = {r \<in> set (pending_reveals s). \<not> rev_time r + 1 \<le> now}"
proof -
  let ?l = "map rev_tx (filter (\<lambda>r. rev_time r + 1 \<le> now) (pending_reveals s))"
  have "sorted_wrt (\<lambda>x y. ready_key x \<le> ready_key y) (sort_key ready_key ?l)"
    using sorted_sort_key [of ready_key ?l] by (simp add: sorted_map)
  then have "sorted_wrt (\<lambda>x y. ready_key y \<le> ready_key x) (rev (sort_key ready_key ?l))"
    by (simp add: sorted_wrt_rev)
  moreover have "mset (map rev_tx (filter P l)) + mset (map rev_tx (filter (\<lambda>x. \<not> P x) l)) = mset (map rev_tx l)"
    for P and l :: "revealed_tx list" by (induction l) auto
  ultimately show ?thesis
    by (simp add: get_ready_transactions_def ready_key_le del: ready_key.simps mset_map)
qed

text \<open>
  Slashing removes exactly the commitments that are past their deadline without having been revealed and reports
  their senders; a revealed commitment is never slashed, and a second slashing at the same time finds nothing.
\<close>

theorem slashing_hits_expired_commitments:
  assumes "slash_expired_commitments now s = (slashed, s')"
  shows "set slashed = com_sender ` {c. \<exists>h. (h, c) \<in> set (commitments s) \<and> \<not> com_revealed c \<and> reveal_deadline c < now} \<and>
    set (commitments s') = {(h, c) \<in> set (commitments s). com_revealed c \<or> now \<le> reveal_deadline c} \<and>
    revealed_txs s' = revealed_txs s \<and> pending_reveals s' = pending_reveals s \<and>
    slash_expired_commitments now s' = ([], s')"
  using assms by (auto simp: slash_expired_commitments_def expired_def not_less image_iff filter_empty_conv) blast+

section \<open>Examples\<close>

definition sample_tx :: "u256 \<Rightarrow> protected_tx" where
  "sample_tx p = \<lparr> pt_hash = p, pt_sender = 1, pt_nonce = 0, pt_gas_price = p, pt_data = [],
     pt_protection = By_commit_reveal, pt_time = 0 \<rparr>"

definition sample_reveal :: reveal_call where
  "sample_reveal = Reveal 12 7 (sample_tx 5) 9"

theorem slashing_hits_expired_commitments_witness:
  "set (fst (slash_expired_commitments 30 (run (reveal_step (\<lambda>_. 7)) [Commit 9 10 10 (sample_tx 5)] (commit_reveal_new 10))))
     = {1}"
proof -
  let ?s = "run (reveal_step (\<lambda>_. 7)) [Commit 9 10 10 (sample_tx 5)] (commit_reveal_new 10)"
  let ?c = "\<lparr> com_hash = 7, com_sender = 1, com_time = 10, reveal_deadline = 20, com_revealed = False \<rparr>"
  have s: "commitments ?s = [(7, ?c)]"
    by (simp add: submit_commitment_def store_commitment_data_def compute_commitment_def commit_reveal_new_def Let_def
      sample_tx_def)
  have "{c. \<exists>h. (h, c) \<in> set (commitments ?s) \<and> \<not> com_revealed c \<and> reveal_deadline c < 30} = {?c}"
    unfolding s by auto
  with slashing_hits_expired_commitments [of 30 ?s, OF prod.collapse [symmetric]] show ?thesis
    by (simp only: image_insert image_empty commitment.simps)
qed

theorem pending_reveals_open_their_commitments_witness:
  "\<exists>r. pending_reveals (run (reveal_step (\<lambda>_. 7)) [Commit 9 10 10 (sample_tx 5), sample_reveal] (commit_reveal_new 10)) = [r] \<and>
     11 \<le> rev_time r \<and> rev_time r \<le> 20"
proof -
  let ?s = "run (reveal_step (\<lambda>_. 7)) [Commit 9 10 10 (sample_tx 5), sample_reveal] (commit_reveal_new 10)"
  have ok: "run_ok (fresh_commitment (\<lambda>_. 7)) (reveal_step (\<lambda>_. 7)) [Commit 9 10 10 (sample_tx 5), sample_reveal]
      (commit_reveal_new 10)"
    by (simp add: sample_reveal_def commit_reveal_new_def)
  obtain r where r: "pending_reveals ?s = [r]"
    by (simp add: sample_reveal_def submit_commitment_def store_commitment_data_def compute_commitment_def
      commit_reveal_new_def reveal_transaction_def Let_def)
  moreover have "commitments ?s = [(7, \<lparr> com_hash = 7, com_sender = 1, com_time = 10, reveal_deadline = 20, com_revealed = True \<rparr>)]"
    "min_commit_period ?s = 1"
    by (simp_all add: sample_reveal_def submit_commitment_def store_commitment_data_def compute_commitment_def
      commit_reveal_new_def reveal_transaction_def Let_def sample_tx_def)
  ultimately show ?thesis
    using pending_reveals_open_their_commitments [OF ok refl] by (auto split: if_splits)
qed

theorem reveal_succeeds_once_witness:
  "fst (reveal_transaction (\<lambda>_. 7) 13 7 (sample_tx 5) 9
     (run (reveal_step (\<lambda>_. 7)) [Commit 9 10 10 (sample_tx 5), sample_reveal] (commit_reveal_new 10))) = Err InvalidCommitment"
proof -
  let ?s = "run (reveal_step (\<lambda>_. 7)) [Commit 9 10 10 (sample_tx 5)] (commit_reveal_new 10)"
  have "reveal_transaction (\<lambda>_. 7) 12 7 (sample_tx 5) 9 ?s = (Ok (), snd (reveal_transaction (\<lambda>_. 7) 12 7 (sample_tx 5) 9 ?s))"
    by (simp add: submit_commitment_def store_commitment_data_def compute_commitment_def
      commit_reveal_new_def reveal_transaction_def Let_def)
  with reveal_succeeds_once [of "\<lambda>_. 7" 12 7 "sample_tx 5" 9 ?s 13 "sample_tx 5" 9] show ?thesis
    by (simp add: sample_reveal_def)
qed

end
