(* ===== verification/ThresholdEncryption.thy ===== *)
theory ThresholdEncryption
  imports BatchAuction
begin

text \<open>
  Threshold encryption of transactions, \<^verbatim>\<open>src/dex/mev_protection/threshold_encryption.rs\<close>. The AES-GCM cipher of the package
  \<^verbatim>\<open>aes_gcm\<close> (a key, a nonce and a text to a text or the message of an error), Keccak, the random key and nonce, and the
  clock are arguments. The pool is iterated over, so it is an association list.

  A call may hold the guard of the shares or of the commitments while it waits forever; the flags \<open>shares_taken\<close> and
  \<open>commitments_taken\<close> say that a suspended call holds them, \<open>commitments_queued\<close> that a writer waits for the commitments
  (the locks of \<^verbatim>\<open>tokio\<close> let no reader pass a writer that waits).
\<close>

section \<open>State\<close>

record encrypted_tx =
  en_hash :: h256
  encrypted_data :: "u8 list"
  key_shares_required :: nat
  participants :: "address list"
  en_time :: u64

record key_share =
  share_id :: nat
  share_data :: "u8 list"
  share_validator :: address
  share_tx :: h256

record decryption_commitment =
  dc_tx :: h256
  dc_validator :: address
  dc_hash :: h256
  dc_deadline :: u64

record threshold_system =
  threshold :: nat
  encrypted_pool :: "(h256 \<times> encrypted_tx) list"
  key_shares :: "h256 \<rightharpoonup> key_share list"
  decryption_commitments :: "h256 \<rightharpoonup> decryption_commitment list"
  decrypted_txs :: "protected_tx list"
  shares_taken :: bool
  commitments_taken :: bool
  commitments_queued :: bool

definition threshold_new :: "nat \<Rightarrow> threshold_system" where
  "threshold_new n = \<lparr> threshold = n, encrypted_pool = [], key_shares = Map.empty, decryption_commitments = Map.empty,
     decrypted_txs = [], shares_taken = False, commitments_taken = False, commitments_queued = False \<rparr>"

type_synonym cipher = "u8 list \<Rightarrow> u8 list \<Rightarrow> u8 list \<Rightarrow> string + u8 list"

section \<open>Encryption\<close>

definition tx_plain :: "protected_tx \<Rightarrow> u8 list" where
  "tx_plain tx = be_bytes 20 (pt_sender tx) @ le_bytes 8 (pt_nonce tx) @ le_bytes 32 (pt_gas_price tx) @ pt_data tx"

definition threshold_encrypt :: "cipher \<Rightarrow> u8 list \<Rightarrow> u8 list \<Rightarrow> u8 list \<Rightarrow> mev_error + u8 list" where
  "threshold_encrypt enc key nonce data =
     (case enc key nonce data of Inl e \<Rightarrow> Inl (EncryptionFailed e) | Inr c \<Rightarrow> Inr (nonce @ c))"

definition encrypt_transaction :: "cipher \<Rightarrow> u8 list \<Rightarrow> u8 list \<Rightarrow> protected_tx \<Rightarrow> mev_error + u8 list" where
  "encrypt_transaction enc key nonce tx = threshold_encrypt enc key nonce (tx_plain tx)"

definition select_participants :: "address list" where
  "select_participants = map (\<lambda>b. word_rcat (replicate 20 (b :: u8))) [1, 2, 3, 4, 5]"

text \<open>The shares of the key are not handed out.\<close>

definition distribute_key_shares :: "encrypted_tx \<Rightarrow> (mev_error, unit) outcome" where
  "distribute_key_shares e = Ok ()"

definition submit_encrypted ::
  "cipher \<Rightarrow> u8 list \<Rightarrow> u8 list \<Rightarrow> protected_tx \<Rightarrow> threshold_system \<Rightarrow> (mev_error, h256) outcome \<times> threshold_system" where
  "submit_encrypted enc key nonce tx s =
     (case encrypt_transaction enc key nonce tx of
        Inl e \<Rightarrow> (Err e, s)
      | Inr c \<Rightarrow>
          let e = \<lparr> en_hash = pt_hash tx, encrypted_data = c, key_shares_required = threshold s,
                    participants = select_participants, en_time = pt_time tx \<rparr>
          in and_then (distribute_key_shares e, s\<lparr>encrypted_pool := AList.update (pt_hash tx) e (encrypted_pool s)\<rparr>)
               (\<lambda>_ s. (Ok (pt_hash tx), s)))"

section \<open>Decryption\<close>

text \<open>The bytes of a share beyond the 32nd are ignored, and so are the shares beyond the threshold.\<close>

fun xor_share :: "u8 list \<Rightarrow> u8 list \<Rightarrow> u8 list" where
  "xor_share (k # ks) (b # bs) = xor k b # xor_share ks bs"
| "xor_share ks bs = ks"

definition xor_shares :: "u8 list list \<Rightarrow> u8 list" where
  "xor_shares shares = foldl xor_share (replicate 32 0) shares"

definition reconstruct_key :: "nat \<Rightarrow> u8 list list \<Rightarrow> mev_error + u8 list" where
  "reconstruct_key n shares = (if length shares < n then Inl ThresholdNotMet else Inr (xor_shares (take n shares)))"

definition threshold_decrypt :: "cipher \<Rightarrow> u8 list \<Rightarrow> u8 list \<Rightarrow> mev_error + u8 list" where
  "threshold_decrypt dec data key =
     (if length data < 12 then Inl (DecryptionFailed ''Invalid encrypted data'')
      else case dec key (take 12 data) (drop 12 data) of Inl e \<Rightarrow> Inl (DecryptionFailed e) | Inr d \<Rightarrow> Inr d)"

text \<open>\<^verbatim>\<open>from_be_bytes\<close>, and \<^verbatim>\<open>from_le_bytes\<close> on the reversed bytes.\<close>

definition of_be :: "u8 list \<Rightarrow> 'a::len word" where
  "of_be bs = foldl (\<lambda>a b. or (push_bit 8 a) (ucast b)) 0 bs"

definition parse_transaction :: "u64 \<Rightarrow> u8 list \<Rightarrow> h256 \<Rightarrow> mev_error + protected_tx" where
  "parse_transaction now data h =
     (if length data < 60 then Inl (DecryptionFailed ''Invalid transaction data'')
      else Inr \<lparr> pt_hash = h, pt_sender = of_be (take 20 data), pt_nonce = of_be (rev (take 8 (drop 20 data))),
                 pt_gas_price = of_be (rev (take 32 (drop 28 data))), pt_data = drop 60 data,
                 pt_protection = By_threshold, pt_time = now \<rparr>)"

definition decrypt_with_shares ::
  "cipher \<Rightarrow> u64 \<Rightarrow> nat \<Rightarrow> encrypted_tx \<Rightarrow> u8 list list \<Rightarrow> mev_error + protected_tx" where
  "decrypt_with_shares dec now n e shares =
     (case reconstruct_key n shares of
        Inl err \<Rightarrow> Inl err
      | Inr key \<Rightarrow>
          (case threshold_decrypt dec (encrypted_data e) key of
             Inl err \<Rightarrow> Inl err
           | Inr data \<Rightarrow> parse_transaction now data (en_hash e)))"

text \<open>Transactions that the key does not open are skipped; the ones it opens stay in the pool.\<close>

definition opened :: "cipher \<Rightarrow> u64 \<Rightarrow> u8 list list \<Rightarrow> threshold_system \<Rightarrow> protected_tx list" where
  "opened dec now shares s = concat (map (\<lambda>(h, e).
     case decrypt_with_shares dec now (threshold s) e shares of Inr tx \<Rightarrow> [tx] | Inl _ \<Rightarrow> []) (encrypted_pool s))"

definition decrypt_batch ::
  "cipher \<Rightarrow> u64 \<Rightarrow> u8 list list \<Rightarrow> threshold_system \<Rightarrow> (mev_error, protected_tx list) outcome \<times> threshold_system" where
  "decrypt_batch dec now shares s =
     (if length shares < threshold s then (Err ThresholdNotMet, s)
      else (Ok (opened dec now shares s), s\<lparr>decrypted_txs := decrypted_txs s @ opened dec now shares s\<rparr>))"

section \<open>Key shares\<close>

datatype te_lock = Shares_lock | Commitments_lock

definition verify_key_share :: "key_share \<Rightarrow> bool" where
  "verify_key_share share = True"

text \<open>It asks for a read guard of the shares.\<close>

definition attempt_decryption ::
  "(te_lock \<times> lock_mode) list \<Rightarrow> cipher \<Rightarrow> u64 \<Rightarrow> h256 \<Rightarrow> threshold_system \<Rightarrow> (mev_error, unit) outcome \<times> threshold_system" where
  "attempt_decryption held dec now h s =
     (if \<not> can_read held Shares_lock then (Hang, s)
      else case (key_shares s h, map_of (encrypted_pool s) h) of
        (Some shares, Some e) \<Rightarrow>
          if threshold s \<le> length shares
          then (case decrypt_with_shares dec now (threshold s) e (map share_data shares) of
                  Inl err \<Rightarrow> (Err err, s)
                | Inr tx \<Rightarrow> (Ok (), s\<lparr>decrypted_txs := decrypted_txs s @ [tx]\<rparr>))
          else (Ok (), s)
      | _ \<Rightarrow> (Ok (), s))"

definition shares_of :: "h256 \<Rightarrow> threshold_system \<Rightarrow> key_share list" where
  "shares_of h s = (case key_shares s h of None \<Rightarrow> [] | Some ks \<Rightarrow> ks)"

text \<open>The write guard of the shares is held over the attempt; a call that is suspended there keeps it.\<close>

definition submit_key_share :: "cipher \<Rightarrow> u64 \<Rightarrow> key_share \<Rightarrow> threshold_system \<Rightarrow> (mev_error, unit) outcome \<times> threshold_system" where
  "submit_key_share dec now share s =
     (if \<not> verify_key_share share then (Err (DecryptionFailed ''Invalid key share''), s)
      else if shares_taken s then (Hang, s)
      else
        let h = share_tx share;
            s1 = s\<lparr>key_shares := (key_shares s)(h \<mapsto> shares_of h s @ [share])\<rparr>
        in if threshold s1 \<le> length (shares_of h s1)
           then (case attempt_decryption [(Shares_lock, Write_Guard)] dec now h s1 of
                   (Hang, s2) \<Rightarrow> (Hang, s2\<lparr>shares_taken := True\<rparr>)
                 | (r, s2) \<Rightarrow> (r, s2))
           else (Ok (), s1))"

section \<open>Commitments\<close>

definition commit_to_decrypt ::
  "u64 \<Rightarrow> h256 \<Rightarrow> address \<Rightarrow> h256 \<Rightarrow> threshold_system \<Rightarrow> (mev_error, unit) outcome \<times> threshold_system" where
  "commit_to_decrypt now h validator c s =
     (if commitments_taken s then (Hang, s\<lparr>commitments_queued := True\<rparr>)
      else
        let d = \<lparr> dc_tx = h, dc_validator = validator, dc_hash = c, dc_deadline = now + 30 \<rparr>;
            ds = (case decryption_commitments s h of None \<Rightarrow> [] | Some ds \<Rightarrow> ds)
        in (Ok (), s\<lparr>decryption_commitments := (decryption_commitments s)(h \<mapsto> ds @ [d])\<rparr>))"

definition share_bytes :: "h256 \<Rightarrow> address \<Rightarrow> u8 list \<Rightarrow> u8 list" where
  "share_bytes h validator data = be_bytes 32 h @ be_bytes 20 validator @ data"

definition opens_commitment :: "(u8 list \<Rightarrow> h256) \<Rightarrow> decryption_commitment \<Rightarrow> u8 list \<Rightarrow> bool" where
  "opens_commitment keccak d data \<longleftrightarrow> keccak (share_bytes (dc_tx d) (dc_validator d) data) = dc_hash d"

text \<open>A read guard of the commitments is held while the share is submitted.\<close>

definition reveal_decryption ::
  "(u8 list \<Rightarrow> h256) \<Rightarrow> cipher \<Rightarrow> u64 \<Rightarrow> u64 \<Rightarrow> h256 \<Rightarrow> address \<Rightarrow> u8 list \<Rightarrow> threshold_system
     \<Rightarrow> (mev_error, unit) outcome \<times> threshold_system" where
  "reveal_decryption keccak dec now t h validator data s =
     (if commitments_queued s then (Hang, s)
      else case find (\<lambda>d. dc_validator d = validator) (case decryption_commitments s h of None \<Rightarrow> [] | Some ds \<Rightarrow> ds) of
        None \<Rightarrow> (Err InvalidCommitment, s)
      | Some d \<Rightarrow>
          if dc_deadline d < now then (Err RevealTimeout, s)
          else if \<not> opens_commitment keccak d data then (Err InvalidCommitment, s)
          else case submit_key_share dec t \<lparr> share_id = 0, share_data = data, share_validator = validator, share_tx = h \<rparr> s of
                 (Hang, s2) \<Rightarrow> (Hang, s2\<lparr>commitments_taken := True\<rparr>)
               | (r, s2) \<Rightarrow> (r, s2))"

section \<open>Runs\<close>

datatype threshold_call =
    Submit_encrypted "u8 list" "u8 list" protected_tx
  | Submit_share u64 key_share
  | Decrypt_batch u64 "u8 list list"
  | Commit_decrypt u64 h256 address h256
  | Reveal_decrypt u64 u64 h256 address "u8 list"

fun threshold_step ::
  "(u8 list \<Rightarrow> h256) \<Rightarrow> cipher \<Rightarrow> cipher \<Rightarrow> threshold_call \<Rightarrow> threshold_system \<Rightarrow> threshold_system" where
  "threshold_step keccak enc dec (Submit_encrypted key nonce tx) s = snd (submit_encrypted enc key nonce tx s)"
| "threshold_step keccak enc dec (Submit_share now share) s = snd (submit_key_share dec now share s)"
| "threshold_step keccak enc dec (Decrypt_batch now shares) s = snd (decrypt_batch dec now shares s)"
| "threshold_step keccak enc dec (Commit_decrypt now h v c) s = snd (commit_to_decrypt now h v c s)"
| "threshold_step keccak enc dec (Reveal_decrypt now t h v data) s = snd (reveal_decryption keccak dec now t h v data s)"

end
