(* ===== verification/ThresholdProps.thy ===== *)
theory ThresholdProps
  imports ThresholdEncryption
begin

text \<open>
  Properties of the threshold encryption: what is encrypted is recovered with shares of its key, every key has shares, and
  the share that reaches the threshold suspends its call forever.
\<close>

section \<open>Bytes of numbers\<close>

lemma be_bytes_Suc: "be_bytes (Suc k) w = be_bytes k (drop_bit 8 w) @ [ucast w]"
proof -
  have "8 * (Suc k - 1 - i) = 8 + 8 * (k - 1 - i)" if "i < k" for i using that by simp
  then show ?thesis by (simp add: be_bytes_def drop_bit_drop_bit cong: map_cong) (simp add: add.commute)
qed

lemma of_be_take_bit: "of_be (be_bytes k w) = take_bit (8 * k) (w :: 'a::len word)"
proof (induction k arbitrary: w)
  case (Suc k)
  have "of_be (be_bytes (Suc k) w) = or (push_bit 8 (of_be (be_bytes k (drop_bit 8 w)))) (ucast (ucast w :: u8))"
    by (simp add: be_bytes_Suc of_be_def)
  also have "\<dots> = take_bit (8 * Suc k) w"
    by (rule bit_word_eqI) (auto simp: Suc.IH bit_or_iff bit_push_bit_iff bit_take_bit_iff bit_drop_bit_eq bit_ucast_iff)
  finally show ?case .
qed (simp add: be_bytes_def of_be_def)

lemma of_be_be_bytes: "LENGTH('a::len) = 8 * k \<Longrightarrow> of_be (be_bytes k w) = (w :: 'a word)"
  by (metis of_be_take_bit take_bit_length_eq)

lemma of_be_le_bytes: "LENGTH('a::len) = 8 * k \<Longrightarrow> of_be (rev (le_bytes k w)) = (w :: 'a word)"
  by (simp add: le_bytes_def of_be_be_bytes)

lemma parse_plain: "parse_transaction now (tx_plain tx) h = Inr (tx\<lparr>pt_hash := h, pt_protection := By_threshold, pt_time := now\<rparr>)"
proof -
  have "drop 28 (tx_plain tx) = le_bytes 32 (pt_gas_price tx) @ pt_data tx" "drop 60 (tx_plain tx) = pt_data tx"
    "drop 20 (tx_plain tx) = le_bytes 8 (pt_nonce tx) @ le_bytes 32 (pt_gas_price tx) @ pt_data tx"
    by (simp_all add: tx_plain_def)
  moreover have "take 20 (tx_plain tx) = be_bytes 20 (pt_sender tx)" "\<not> length (tx_plain tx) < 60"
    by (simp_all add: tx_plain_def)
  ultimately show ?thesis
    by (simp add: parse_transaction_def of_be_be_bytes of_be_le_bytes)
qed

section \<open>Shares of a key\<close>

lemma length_xor_share [simp]: "length (xor_share ks bs) = length ks"
  by (induction ks bs rule: xor_share.induct) simp_all

lemma xor_share_zero: "length ks = n \<Longrightarrow> xor_share (replicate n 0) ks = ks"
  by (induction ks arbitrary: n) auto

lemma xor_share_cancel: "length bs = length ks \<Longrightarrow> xor_share (xor_share ks bs) bs = ks"
  by (induction ks bs rule: xor_share.induct) (simp_all add: xor.assoc)

lemma xor_share_simps [simp]: "xor_share [] bs = []" "xor_share ks [] = ks"
  by (cases bs; simp) (cases ks; simp)

lemma xor_share_swap: "xor_share (xor_share ks as) bs = xor_share (xor_share ks bs) as"
proof (induction ks arbitrary: as bs)
  case (Cons k ks)
  then show ?case by (cases as; cases bs) (simp_all add: ac_simps)
qed simp

lemma foldl_xor_swap: "foldl xor_share (xor_share ks bs) shares = xor_share (foldl xor_share ks shares) bs"
  by (induction shares arbitrary: ks) (simp_all add: xor_share_swap)

lemma xor_commute: "length ks = length bs \<Longrightarrow> xor_share ks bs = xor_share bs ks"
  by (induction ks bs rule: list_induct2) (simp_all add: xor.commute)

lemma length_foldl_xor [simp]: "length (foldl xor_share ks shares) = length ks"
  by (induction shares arbitrary: ks) simp_all

text \<open>Any shares can be completed to shares of a given key.\<close>

lemma completed_shares:
  assumes "length key = 32"
  shows "xor_shares (shares @ [foldl xor_share key shares]) = key"
proof -
  let ?zero = "replicate 32 (0 :: u8)"
  have "foldl xor_share key shares = foldl xor_share (xor_share ?zero key) shares"
    by (simp add: xor_share_zero assms)
  also have "\<dots> = xor_share (foldl xor_share ?zero shares) key"
    by (rule foldl_xor_swap)
  finally have "foldl xor_share key shares = xor_share key (foldl xor_share ?zero shares)"
    by (simp add: xor_commute assms)
  then have "xor_share (foldl xor_share ?zero shares) (foldl xor_share key shares)
      = xor_share (xor_share key (foldl xor_share ?zero shares)) (foldl xor_share ?zero shares)"
    using xor_commute [of "foldl xor_share ?zero shares" "foldl xor_share key shares"] assms by simp
  then show ?thesis by (simp add: xor_shares_def xor_share_cancel assms)
qed

text \<open>
  Every key of 32 bytes can be split: whatever the first shares are, a last one completes them, the key is reconstructed
  from all of them, and one share less is refused.
\<close>

theorem every_key_can_be_shared:
  assumes "length key = 32"
  shows "reconstruct_key (Suc (length shares)) (shares @ [foldl xor_share key shares]) = Inr key \<and>
    reconstruct_key (Suc (length shares)) shares = Inl ThresholdNotMet"
  using completed_shares [OF assms, of shares] by (simp add: reconstruct_key_def)

section \<open>Recovery\<close>

lemma decrypt_stored:
  assumes "\<And>c d. enc key nonce d = Inr c \<Longrightarrow> dec key nonce c = Inr d"
    and "length nonce = 12" and "encrypt_transaction enc key nonce tx = Inr c" and "encrypted_data e = c" and "en_hash e = pt_hash tx"
    and "n \<le> length shares" and "xor_shares (take n shares) = key"
  shows "decrypt_with_shares dec now n e shares = Inr (tx\<lparr>pt_protection := By_threshold, pt_time := now\<rparr>)"
proof -
  obtain d where d: "enc key nonce (tx_plain tx) = Inr d" "c = nonce @ d"
    using assms(3) by (auto simp: encrypt_transaction_def threshold_encrypt_def split: sum.splits)
  then have "threshold_decrypt dec c key = Inr (tx_plain tx)"
    using assms(1) [OF d(1)] assms(2) by (simp add: threshold_decrypt_def)
  then show ?thesis
    using assms(4-7) by (simp add: decrypt_with_shares_def reconstruct_key_def parse_plain)
qed

text \<open>
  C40: a transaction that was encrypted is recovered from the pool by any shares whose first ones make up its key, with its
  sender, nonce, price and data, and the batch that decrypts with them reports it. The hypothesis on the cipher is what
  AES-GCM promises: decrypting what was encrypted under the same key and nonce gives the text back.
\<close>

theorem encrypted_transactions_are_recovered:
  assumes cipher: "\<And>c d. enc key nonce d = Inr c \<Longrightarrow> dec key nonce c = Inr d"
    and "length nonce = 12" and "submit_encrypted enc key nonce tx s = (Ok h, s')"
    and "threshold s \<le> length shares" and "xor_shares (take (threshold s) shares) = key"
  shows "h = pt_hash tx \<and> (\<exists>txs. fst (decrypt_batch dec now shares s') = Ok txs \<and>
    tx\<lparr>pt_protection := By_threshold, pt_time := now\<rparr> \<in> set txs)"
proof -
  obtain c where c: "encrypt_transaction enc key nonce tx = Inr c"
    using assms(3) by (auto simp: submit_encrypted_def split: sum.splits)
  define e where "e = \<lparr> en_hash = pt_hash tx, encrypted_data = c, key_shares_required = threshold s,
                    participants = select_participants, en_time = pt_time tx \<rparr>"
  have s': "h = pt_hash tx" "s' = s\<lparr>encrypted_pool := AList.update (pt_hash tx) e (encrypted_pool s)\<rparr>"
    using assms(3) c by (auto simp: submit_encrypted_def distribute_key_shares_def e_def)
  have "map_of (encrypted_pool s') (pt_hash tx) = Some e" by (simp add: s'(2) update_conv)
  then have "(pt_hash tx, e) \<in> set (encrypted_pool s')" by (rule map_of_SomeD)
  moreover have "decrypt_with_shares dec now (threshold s') e shares = Inr (tx\<lparr>pt_protection := By_threshold, pt_time := now\<rparr>)"
    using decrypt_stored [of enc key nonce dec, OF cipher assms(2) c, of e "threshold s" shares now] assms(4,5) by (simp add: e_def s'(2))
  ultimately have "tx\<lparr>pt_protection := By_threshold, pt_time := now\<rparr> \<in> set (opened dec now shares s')"
    by (force simp: opened_def)
  with s' assms(4) show ?thesis by (simp add: decrypt_batch_def)
qed

section \<open>The share that reaches the threshold\<close>

lemma attempt_hangs: "attempt_decryption [(Shares_lock, Write_Guard)] dec now h s = (Hang, s)"
  by (simp add: attempt_decryption_def can_read_def)

lemma submit_key_share_cases:
  "submit_key_share dec now share s =
     (if shares_taken s then (Hang, s)
      else let s1 = s\<lparr>key_shares := (key_shares s)(share_tx share \<mapsto> shares_of (share_tx share) s @ [share])\<rparr>
           in if threshold s \<le> Suc (length (shares_of (share_tx share) s)) then (Hang, s1\<lparr>shares_taken := True\<rparr>) else (Ok (), s1))"
  by (simp add: submit_key_share_def verify_key_share_def attempt_hangs shares_of_def Let_def)

lemma share_frame: "decrypted_txs (snd (submit_key_share dec now share s)) = decrypted_txs s"
  "threshold (snd (submit_key_share dec now share s)) = threshold s"
  "shares_taken s \<Longrightarrow> shares_taken (snd (submit_key_share dec now share s))"
  by (simp_all add: submit_key_share_cases Let_def)

lemma reveal_frame:
  "\<exists>share. snd (reveal_decryption keccak dec now t h v data s) \<in>
     {s, snd (submit_key_share dec t share s), (snd (submit_key_share dec t share s))\<lparr>commitments_taken := True\<rparr>}"
proof -
  let ?share = "\<lparr> share_id = 0, share_data = data, share_validator = v, share_tx = h \<rparr>"
  obtain r s2 where "submit_key_share dec t ?share s = (r, s2)" by fastforce
  then have "snd (reveal_decryption keccak dec now t h v data s) \<in> {s, s2, s2\<lparr>commitments_taken := True\<rparr>}"
    by (cases r) (simp_all add: reveal_decryption_def split: option.split)
  with \<open>submit_key_share dec t ?share s = (r, s2)\<close> show ?thesis by (intro exI [of _ ?share]) simp
qed

lemma shares_of_simps [simp]:
  "shares_of h (s\<lparr>commitments_taken := b\<rparr>) = shares_of h s" "shares_of h (s\<lparr>commitments_queued := b\<rparr>) = shares_of h s"
  "shares_of h (s\<lparr>encrypted_pool := p\<rparr>) = shares_of h s" "shares_of h (s\<lparr>decrypted_txs := d\<rparr>) = shares_of h s"
  "shares_of h (s\<lparr>decryption_commitments := m\<rparr>) = shares_of h s"
  by (simp_all add: shares_of_def)

lemma taken_step: "shares_taken s \<Longrightarrow> shares_taken (threshold_step keccak enc dec c s)"
proof (cases c)
  case (Reveal_decrypt now t h v data)
  assume "shares_taken s"
  with Reveal_decrypt reveal_frame [of keccak dec now t h v data s] show ?thesis by (auto simp: share_frame)
qed (simp_all add: share_frame submit_encrypted_def decrypt_batch_def commit_to_decrypt_def distribute_key_shares_def Let_def
  split: sum.split)

interpretation taken: invariant_of "threshold_step keccak enc dec" "\<lambda>_ _. True" shares_taken
  by unfold_locales (rule taken_step)

text \<open>
  The share that reaches the threshold never returns: its call waits for the guard it holds itself. Nothing is decrypted
  by it, and every share that is submitted afterwards, to whatever transaction, waits forever too.
\<close>

theorem the_last_share_hangs:
  assumes "\<not> shares_taken s" and "threshold s \<le> length (shares_of (share_tx share) s) + 1"
    and "s' = run (threshold_step keccak enc dec) cs (snd (submit_key_share dec now share s))"
  shows "fst (submit_key_share dec now share s) = Hang \<and>
    decrypted_txs (snd (submit_key_share dec now share s)) = decrypted_txs s \<and>
    submit_key_share dec now' share' s' = (Hang, s')"
proof -
  have "shares_taken (snd (submit_key_share dec now share s))" "fst (submit_key_share dec now share s) = Hang"
    using assms(1,2) by (simp_all add: submit_key_share_cases Let_def)
  moreover from this(1) have "shares_taken s'"
    unfolding assms(3) by (rule taken.inv_run) (rule run_ok_always)
  ultimately show ?thesis by (simp add: share_frame) (simp add: submit_key_share_cases)
qed

section \<open>Shares never decrypt\<close>

definition waiting_shares :: "threshold_system \<Rightarrow> bool" where
  "waiting_shares s \<longleftrightarrow> decrypted_txs s = [] \<and> (shares_taken s \<or> (\<forall>h. shares_of h s = [] \<or> length (shares_of h s) < threshold s))"

fun no_batch :: "threshold_call \<Rightarrow> bool" where
  "no_batch (Decrypt_batch now shares) = False"
| "no_batch _ = True"

lemma waiting_submit: "waiting_shares s \<Longrightarrow> waiting_shares (snd (submit_key_share dec now share s))"
  by (auto simp: waiting_shares_def submit_key_share_cases Let_def shares_of_def)

lemma waiting_shares_step: "waiting_shares s \<Longrightarrow> no_batch c \<Longrightarrow> waiting_shares (threshold_step keccak enc dec c s)"
proof (cases c)
  case (Reveal_decrypt now t h v data)
  assume w: "waiting_shares s"
  have flag: "waiting_shares (u\<lparr>commitments_taken := True\<rparr>) = waiting_shares u" for u by (simp add: waiting_shares_def)
  from Reveal_decrypt reveal_frame [of keccak dec now t h v data s] show ?thesis
    by (auto simp: flag w waiting_submit)
next
  case (Submit_share now share)
  assume "waiting_shares s"
  with Submit_share show ?thesis by (simp add: waiting_submit)
qed (auto simp: submit_encrypted_def commit_to_decrypt_def distribute_key_shares_def waiting_shares_def Let_def split: sum.split)

interpretation shares_wait: invariant_of "threshold_step keccak enc dec" "\<lambda>c s. no_batch c" waiting_shares
  by unfold_locales (rule waiting_shares_step)

text \<open>
  Key shares alone decrypt nothing: in a run without a batch decryption no transaction is ever decrypted, and either every
  transaction has fewer shares than the threshold (or none) or the shares are locked up by a suspended call.
\<close>

theorem shares_never_decrypt:
  assumes "list_all no_batch cs" and "s = run (threshold_step keccak enc dec) cs (threshold_new n)"
  shows "decrypted_txs s = [] \<and> (shares_taken s \<or> shares_of h s = [] \<or> length (shares_of h s) < n)"
proof -
  have "threshold s = n"
  proof -
    have "threshold (threshold_step keccak enc dec c s) = threshold s" for c s
    proof (cases c)
      case (Reveal_decrypt now t h v data)
      with reveal_frame [of keccak dec now t h v data s] show ?thesis by (auto simp: share_frame)
    qed (simp_all add: share_frame submit_encrypted_def decrypt_batch_def commit_to_decrypt_def distribute_key_shares_def Let_def
      split: sum.split)
    then have "threshold (run (threshold_step keccak enc dec) cs s) = threshold s" for cs s
      by (induction cs arbitrary: s) simp_all
    then show ?thesis by (simp add: assms(2) threshold_new_def)
  qed
  moreover have "waiting_shares s"
    unfolding assms(2)
  proof (rule shares_wait.inv_run)
    show "waiting_shares (threshold_new n)" by (simp add: waiting_shares_def threshold_new_def shares_of_def)
    show "run_ok (\<lambda>c s. no_batch c) (threshold_step keccak enc dec) cs (threshold_new n)"
      using assms(1) by (induction cs arbitrary: n rule: rev_induct) (simp_all add: run_ok_append)
  qed
  ultimately show ?thesis by (auto simp: waiting_shares_def)
qed

section \<open>Examples\<close>

text \<open>A cipher that masks the text with the first byte of the key.\<close>

definition masking :: cipher where
  "masking key nonce data = Inr (map (xor (hd key)) data)"

lemma masking_back: "masking key nonce d = Inr c \<Longrightarrow> masking key nonce c = Inr d"
  by (auto simp: masking_def comp_def simp flip: xor.assoc)

definition sample_secret :: protected_tx where
  "sample_secret = \<lparr> pt_hash = 5, pt_sender = 1, pt_nonce = 2, pt_gas_price = 3, pt_data = [4, 5], pt_protection = By_threshold, pt_time = 6 \<rparr>"

definition sample_share :: key_share where
  "sample_share = \<lparr> share_id = 1, share_data = replicate 32 9, share_validator = 1, share_tx = 5 \<rparr>"

theorem every_key_can_be_shared_witness:
  "reconstruct_key 2 [replicate 32 1, foldl xor_share (replicate 32 7) [replicate 32 1]] = Inr (replicate 32 7)"
  using every_key_can_be_shared [of "replicate 32 7" "[replicate 32 1]"] by (simp del: foldl.simps add: numeral_2_eq_2)

theorem encrypted_transactions_are_recovered_witness:
  "\<exists>txs. fst (decrypt_batch masking 50 [replicate 32 9] (snd (submit_encrypted masking (replicate 32 9) (replicate 12 0) sample_secret
     (threshold_new 1)))) = Ok txs \<and> sample_secret\<lparr>pt_time := 50\<rparr> \<in> set txs"
proof -
  have s: "submit_encrypted masking (replicate 32 9) (replicate 12 0) sample_secret (threshold_new 1) =
      (Ok 5, snd (submit_encrypted masking (replicate 32 9) (replicate 12 0) sample_secret (threshold_new 1)))"
    by (simp add: submit_encrypted_def encrypt_transaction_def threshold_encrypt_def masking_def distribute_key_shares_def
        sample_secret_def Let_def)
  have k: "xor_shares (take (threshold (threshold_new 1)) [replicate 32 9]) = replicate 32 9" "threshold (threshold_new 1) \<le> length [replicate 32 (9 :: u8)]"
    by (simp_all add: threshold_new_def xor_shares_def xor_share_zero)
  have "sample_secret\<lparr>pt_protection := By_threshold, pt_time := 50\<rparr> = sample_secret\<lparr>pt_time := 50\<rparr>"
    by (simp add: sample_secret_def)
  then show ?thesis
    using encrypted_transactions_are_recovered [OF masking_back _ s k(2,1), where now = 50] by simp
qed

theorem the_last_share_hangs_witness:
  "fst (submit_key_share masking 1 sample_share (snd (submit_key_share masking 1 sample_share (threshold_new 1)))) = Hang"
proof -
  have "\<not> shares_taken (threshold_new 1)" "threshold (threshold_new 1) \<le> length (shares_of (share_tx sample_share) (threshold_new 1)) + 1"
    by (simp_all add: threshold_new_def)
  from the_last_share_hangs [OF this, where keccak = "\<lambda>_. 0" and enc = masking and dec = masking and cs = "[]" and now = 1 and now' = 1
      and share' = sample_share, OF run.simps(1) [symmetric]]
  show ?thesis by simp
qed

theorem shares_never_decrypt_witness:
  "decrypted_txs (run (threshold_step (\<lambda>_. 0) masking masking) [Submit_encrypted (replicate 32 9) (replicate 12 0) sample_secret,
     Submit_share 1 sample_share] (threshold_new 1)) = []"
proof -
  have "list_all no_batch [Submit_encrypted (replicate 32 9) (replicate 12 0) sample_secret, Submit_share 1 sample_share]" by simp
  from shares_never_decrypt [OF this refl, where keccak = "\<lambda>_. 0" and enc = masking and dec = masking and n = 1] show ?thesis by (simp del: run.simps)
qed

end
