(* ===== verification/MevProtection.thy ===== *)
theory MevProtection
  imports CommitReveal PrivatePool ThresholdProps
begin

text \<open>
  The protection system of \<^verbatim>\<open>src/dex/mev_protection/mod.rs\<close>: a transaction goes to the component its protection type names,
  and the batch auction and the threshold encryption give transactions back when they are enabled. What the components draw
  at random, read from the clock or take from packages is collected in one record.
\<close>

section \<open>State\<close>

record mev_config =
  batch_auction_enabled :: bool
  batch_interval_ms :: u64
  threshold_encryption_enabled :: bool
  encryption_threshold :: nat
  private_pool_enabled :: bool
  commit_reveal_enabled :: bool
  reveal_timeout_ms :: u64

definition mev_config_default :: mev_config where
  "mev_config_default = \<lparr> batch_auction_enabled = True, batch_interval_ms = 100, threshold_encryption_enabled = True,
     encryption_threshold = 3, private_pool_enabled = True, commit_reveal_enabled = True, reveal_timeout_ms = 10000 \<rparr>"

record mev_system =
  mev_config :: mev_config
  mev_auction :: batch_auction
  mev_threshold :: threshold_system
  mev_pool :: private_pool
  mev_reveal :: commit_reveal

text \<open>The interval is in nanoseconds, the timeout in whole seconds.\<close>

definition mev_new :: "mev_config \<Rightarrow> mev_system" where
  "mev_new c = \<lparr> mev_config = c, mev_auction = batch_auction_new (unat (batch_interval_ms c) * 1000000),
     mev_threshold = threshold_new (encryption_threshold c), mev_pool = private_pool_new,
     mev_reveal = commit_reveal_new (reveal_timeout_ms c div 1000) \<rparr>"

record surroundings =
  su_keccak :: "u8 list \<Rightarrow> h256"
  su_shuffle :: "h256 \<Rightarrow> batch_order list \<Rightarrow> batch_order list"
  su_encrypt :: cipher
  su_decrypt :: cipher
  su_key :: "u8 list"
  su_nonce :: "u8 list"
  su_id :: h256
  su_nanos :: "nat \<Rightarrow> u64"
  su_secs :: "nat \<Rightarrow> u64"

section \<open>Operations\<close>

text \<open>No flag of the configuration is looked at, and an unprotected transaction is not kept.\<close>

definition submit_transaction :: "surroundings \<Rightarrow> protected_tx \<Rightarrow> mev_system \<Rightarrow> (mev_error, h256) outcome \<times> mev_system" where
  "submit_transaction e tx s =
     (case pt_protection tx of
        By_batch_auction \<Rightarrow>
          (case submit_to_batch (su_id e) (su_nanos e) tx (mev_auction s) of (r, a) \<Rightarrow> (r, s\<lparr>mev_auction := a\<rparr>))
      | By_threshold \<Rightarrow>
          (case submit_encrypted (su_encrypt e) (su_key e) (su_nonce e) tx (mev_threshold s) of (r, t) \<Rightarrow> (r, s\<lparr>mev_threshold := t\<rparr>))
      | By_private_pool \<Rightarrow>
          (case submit_private (su_id e) tx (mev_pool s) of (r, p) \<Rightarrow> (r, s\<lparr>mev_pool := p\<rparr>))
      | By_commit_reveal \<Rightarrow>
          (case submit_commitment (su_keccak e) (su_id e) (su_secs e 0) (su_secs e 1) tx (mev_reveal s) of (r, c) \<Rightarrow> (r, s\<lparr>mev_reveal := c\<rparr>))
      | Unprotected \<Rightarrow> (Ok (pt_hash tx), s))"

definition process_batch :: "surroundings \<Rightarrow> mev_system \<Rightarrow> (mev_error, protected_tx list) outcome \<times> mev_system" where
  "process_batch e s =
     (if batch_auction_enabled (mev_config s)
      then case auction_batch (su_keccak e) (su_shuffle e) (su_nanos e 0) (mev_auction s) of (r, a) \<Rightarrow> (r, s\<lparr>mev_auction := a\<rparr>)
      else (Ok [], s))"

definition decrypt_transactions :: "surroundings \<Rightarrow> u8 list list \<Rightarrow> mev_system \<Rightarrow> (mev_error, protected_tx list) outcome \<times> mev_system" where
  "decrypt_transactions e shares s =
     (if threshold_encryption_enabled (mev_config s)
      then case decrypt_batch (su_decrypt e) (su_secs e 0) shares (mev_threshold s) of (r, t) \<Rightarrow> (r, s\<lparr>mev_threshold := t\<rparr>)
      else (Ok [], s))"

section \<open>What the system gives back\<close>

datatype mev_call = Submit_tx surroundings protected_tx | Process surroundings | Decrypt surroundings "u8 list list"

fun mev_step :: "mev_call \<Rightarrow> mev_system \<Rightarrow> mev_system" where
  "mev_step (Submit_tx e tx) s = snd (submit_transaction e tx s)"
| "mev_step (Process e) s = snd (process_batch e s)"
| "mev_step (Decrypt e shares) s = snd (decrypt_transactions e shares s)"

lemma mev_config_step: "mev_config (mev_step c s) = mev_config s"
  by (cases c) (auto simp: submit_transaction_def process_batch_def decrypt_transactions_def split: prod.split protection_type.split)

lemma mev_config_run: "mev_config (run mev_step cs s) = mev_config s"
  by (induction cs arbitrary: s) (simp_all add: mev_config_step)

text \<open>
  Protection that is switched off swallows transactions: they are accepted (for the batch auction, whatever the
  transaction), and no later call, in any run, gives a transaction back.
\<close>

theorem disabled_protection_swallows:
  assumes "s = run mev_step cs (mev_new c)"
  shows "(\<not> batch_auction_enabled c \<longrightarrow> process_batch e s = (Ok [], s) \<and>
      (pt_protection tx = By_batch_auction \<longrightarrow> fst (submit_transaction e tx s) = Ok (pt_hash tx))) \<and>
    (\<not> threshold_encryption_enabled c \<longrightarrow> decrypt_transactions e shares s = (Ok [], s)) \<and>
    (pt_protection tx = Unprotected \<longrightarrow> submit_transaction e tx s = (Ok (pt_hash tx), s))"
proof -
  have "mev_config s = c" by (simp add: assms mev_config_run mev_new_def)
  then show ?thesis
    by (simp add: process_batch_def decrypt_transactions_def submit_transaction_def submit_to_batch_def Let_def)
qed

text \<open>
  An encrypted transaction that was submitted to a system with threshold encryption is given back by a decryption with
  shares of its key (as many as the configuration asks for), if the cipher decrypts what it encrypted.
\<close>

theorem submitted_secrets_come_back:
  assumes cipher: "\<And>k n x y. su_encrypt e k n x = Inr y \<Longrightarrow> su_decrypt e' k n y = Inr x"
    and "s = run mev_step cs (mev_new c)" and "threshold_encryption_enabled c"
    and "pt_protection tx = By_threshold" and "length (su_nonce e) = 12"
    and "submit_transaction e tx s = (Ok h, s')"
    and "threshold (mev_threshold s) \<le> length shares" and "xor_shares (take (threshold (mev_threshold s)) shares) = su_key e"
  shows "\<exists>txs. fst (decrypt_transactions e' shares s') = Ok txs \<and> tx\<lparr>pt_time := su_secs e' 0\<rparr> \<in> set txs"
proof -
  obtain t where t: "submit_encrypted (su_encrypt e) (su_key e) (su_nonce e) tx (mev_threshold s) = (Ok h, t)"
      "s' = s\<lparr>mev_threshold := t\<rparr>"
    using assms(4,6) by (auto simp: submit_transaction_def split: prod.splits)
  obtain c d where cd: "encrypt_transaction (su_encrypt e) (su_key e) (su_nonce e) tx = Inr c"
    using t(1) by (auto simp: submit_encrypted_def split: sum.splits)
  define m where "m = \<lparr> en_hash = pt_hash tx, encrypted_data = c, key_shares_required = threshold (mev_threshold s),
                    participants = select_participants, en_time = pt_time tx \<rparr>"
  have t': "t = (mev_threshold s)\<lparr>encrypted_pool := AList.update (pt_hash tx) m (encrypted_pool (mev_threshold s))\<rparr>"
    using t(1) cd by (auto simp: submit_encrypted_def distribute_key_shares_def m_def)
  have "decrypt_with_shares (su_decrypt e') (su_secs e' 0) (threshold t) m shares = Inr (tx\<lparr>pt_protection := By_threshold, pt_time := su_secs e' 0\<rparr>)"
    using decrypt_stored [of "su_encrypt e" "su_key e" "su_nonce e" "su_decrypt e'", OF cipher assms(5) cd, of m "threshold t" shares]
      assms(7,8) by (simp add: m_def t')
  moreover have "(pt_hash tx, m) \<in> set (encrypted_pool t)"
    by (rule map_of_SomeD) (simp add: t' update_conv)
  moreover have "tx\<lparr>pt_protection := By_threshold, pt_time := su_secs e' 0\<rparr> = tx\<lparr>pt_time := su_secs e' 0\<rparr>"
    using assms(4) by (cases tx) simp
  ultimately have "tx\<lparr>pt_time := su_secs e' 0\<rparr> \<in> set (opened (su_decrypt e') (su_secs e' 0) shares t)"
    by (force simp: opened_def)
  moreover have "threshold_encryption_enabled (mev_config s')"
    using assms(2,3) by (simp add: t(2) mev_config_run mev_new_def)
  ultimately show ?thesis
    using assms(7) by (simp add: decrypt_transactions_def decrypt_batch_def t(2) t')
qed

section \<open>Examples\<close>

definition sample_surroundings :: surroundings where
  "sample_surroundings = \<lparr> su_keccak = (\<lambda>_. 0), su_shuffle = (\<lambda>_ b. b), su_encrypt = masking, su_decrypt = masking,
     su_key = replicate 32 9, su_nonce = replicate 12 0, su_id = 1, su_nanos = (\<lambda>i. of_nat i), su_secs = (\<lambda>_. 50) \<rparr>"

theorem disabled_protection_swallows_witness:
  "fst (process_batch sample_surroundings (run mev_step [Submit_tx sample_surroundings (sample_secret\<lparr>pt_protection := By_batch_auction\<rparr>)]
     (mev_new (mev_config_default\<lparr>batch_auction_enabled := False\<rparr>)))) = Ok []"
proof -
  let ?c = "mev_config_default\<lparr>batch_auction_enabled := False\<rparr>"
  let ?s = "run mev_step [Submit_tx sample_surroundings (sample_secret\<lparr>pt_protection := By_batch_auction\<rparr>)] (mev_new ?c)"
  have "\<not> batch_auction_enabled ?c" by simp
  then have "process_batch sample_surroundings ?s = (Ok [], ?s)"
    using disabled_protection_swallows [where c = ?c and e = sample_surroundings, OF refl] by blast
  then show ?thesis by (simp del: run.simps)
qed

lemma sample_system:
  "mev_threshold (mev_new (mev_config_default\<lparr>encryption_threshold := 1\<rparr>)) = threshold_new 1"
  "threshold_encryption_enabled (mev_config_default\<lparr>encryption_threshold := 1\<rparr>)"
  by (simp_all add: mev_new_def mev_config_default_def)

theorem submitted_secrets_come_back_witness:
  "\<exists>txs. fst (decrypt_transactions sample_surroundings [replicate 32 9]
     (snd (submit_transaction sample_surroundings sample_secret (mev_new (mev_config_default\<lparr>encryption_threshold := 1\<rparr>))))) = Ok txs \<and>
     sample_secret\<lparr>pt_time := 50\<rparr> \<in> set txs"
proof -
  let ?c = "mev_config_default\<lparr>encryption_threshold := 1\<rparr>" and ?e = sample_surroundings
  define s where "s = mev_new ?c"
  have sub: "submit_transaction ?e sample_secret s = (Ok 5, snd (submit_transaction ?e sample_secret s))"
  proof -
    obtain t where "submit_encrypted masking (replicate 32 9) (replicate 12 0) sample_secret (mev_threshold s) = (Ok 5, t)"
      by (simp add: submit_encrypted_def encrypt_transaction_def threshold_encrypt_def masking_def distribute_key_shares_def
          sample_secret_def Let_def)
    then show ?thesis by (simp add: submit_transaction_def sample_surroundings_def sample_secret_def)
  qed
  have cipher: "su_encrypt ?e k n x = Inr y \<Longrightarrow> su_decrypt ?e k n y = Inr x" for k n x y
    using masking_back [of k n x y] by (simp add: sample_surroundings_def)
  have run: "s = run mev_step [] (mev_new ?c)" by (simp add: s_def)
  have t: "threshold (mev_threshold s) = 1" unfolding s_def sample_system by (simp add: threshold_new_def)
  have k: "xor_shares (take (threshold (mev_threshold s)) [replicate 32 9]) = su_key ?e"
    by (simp add: t xor_shares_def xor_share_zero sample_surroundings_def)
  have other: "pt_protection sample_secret = By_threshold" "length (su_nonce ?e) = 12"
    by (simp_all add: sample_secret_def sample_surroundings_def)
  have len: "threshold (mev_threshold s) \<le> length [replicate 32 (9 :: u8)]" by (simp add: t)
  from submitted_secrets_come_back [OF cipher run sample_system(2) other sub len k]
  show ?thesis by (simp add: sample_surroundings_def s_def)
qed

end
