(* ===== verification/DataAvailability.thy ===== *)
theory DataAvailability
  imports TxBytes
begin

text \<open>
  The data availability layer of \<^verbatim>\<open>src/layer2/data_availability.rs\<close> with the configuration and the errors of
  \<^verbatim>\<open>src/layer2/mod.rs\<close>: data is compressed, cut into shards with parity, and stored under a hash.

  The gzip coder of the \<^verbatim>\<open>flate2\<close> package is an argument (\<open>None\<close> is a failure), and so is the clock.
\<close>

section \<open>State\<close>

datatype l2_error =
    RollupNotInitialized
  | L2_InvalidTransaction
  | BatchNotFound
  | ChallengePeriodNotExpired
  | InvalidProof
  | InsufficientBond
  | ChannelNotFound
  | DataNotAvailable
  | CompressionError
  | VerificationFailed

datatype storage_type = OnChain | IPFS | Celestia | EigenDA | Custom_storage

record da_config =
  da_storage_type :: storage_type
  compression_enabled :: bool
  erasure_coding_enabled :: bool
  replication_factor :: u32

record data_shard =
  shard_index :: nat
  shard_data :: "u8 list"
  shard_parity :: bool

record data_metadata =
  original_size :: nat
  compressed_size :: "nat option"
  shard_count :: nat
  storage_locations :: "string list"
  stored_at :: u64

record stored_data =
  sd_data :: "u8 list"
  sd_metadata :: data_metadata
  sd_shards :: "data_shard list"

record erasure_coder =
  data_shards :: nat
  parity_shards :: nat

record da_layer =
  da_configuration :: da_config
  da_storage :: "h256 \<rightharpoonup> stored_data"
  da_coder :: "erasure_coder option"
  da_compressor :: "nat option"

definition da_new :: "da_config \<Rightarrow> da_layer" where
  "da_new c = \<lparr> da_configuration = c, da_storage = Map.empty,
     da_coder = (if erasure_coding_enabled c then Some \<lparr> data_shards = 4, parity_shards = 2 \<rparr> else None),
     da_compressor = (if compression_enabled c then Some 6 else None) \<rparr>"

section \<open>Shards\<close>

text \<open>\<^verbatim>\<open>&data[start..end]\<close>; a range that is reversed or out of bounds panics.\<close>

definition slice :: "nat \<Rightarrow> nat \<Rightarrow> 'a list \<Rightarrow> 'a list option" where
  "slice i j xs = (if i \<le> j \<and> j \<le> length xs then Some (take (j - i) (drop i xs)) else None)"

fun cut_shards :: "nat list \<Rightarrow> nat \<Rightarrow> u8 list \<Rightarrow> data_shard list option" where
  "cut_shards [] n data = Some []"
| "cut_shards (i # is) n data =
     do { d \<leftarrow> slice (i * n) (min (i * n + n) (length data)) data;
          ds \<leftarrow> cut_shards is n data;
          Some (\<lparr> shard_index = i, shard_data = d, shard_parity = False \<rparr> # ds) }"

text \<open>\<^verbatim>\<open>parity[i] ^= byte.rotate_left(parity_index)\<close> for every byte of a shard; the parity is as long as the longest shard.\<close>

fun xor_into :: "u8 list \<Rightarrow> u8 list \<Rightarrow> u8 list" where
  "xor_into [] bs = []"
| "xor_into (p # ps) [] = p # ps"
| "xor_into (p # ps) (b # bs) = xor p b # xor_into ps bs"

definition generate_parity :: "data_shard list \<Rightarrow> nat \<Rightarrow> u8 list" where
  "generate_parity ds k =
     (if ds = [] then []
      else fold (\<lambda>sh p. xor_into p (map (word_rotl k) (shard_data sh))) ds
             (replicate (Max (set (map (\<lambda>sh. length (shard_data sh)) ds))) 0))"

text \<open>
  The parity of shard \<open>k + i\<close> is computed over all shards pushed so far, the earlier parity shards included
  (\<^verbatim>\<open>generate_parity(&shards, i)\<close>).
\<close>

fun add_parity :: "nat \<Rightarrow> nat list \<Rightarrow> data_shard list \<Rightarrow> data_shard list" where
  "add_parity k [] shards = shards"
| "add_parity k (i # is) shards =
     add_parity k is (shards @ [\<lparr> shard_index = k + i, shard_data = generate_parity shards i, shard_parity = True \<rparr>])"

definition encode :: "erasure_coder \<Rightarrow> u8 list \<Rightarrow> data_shard list option" where
  "encode c data =
     map_option (add_parity (data_shards c) [0..<parity_shards c])
       (cut_shards [0..<data_shards c] ((length data + data_shards c - 1) div data_shards c) data)"

definition decode :: "data_shard list \<Rightarrow> u8 list" where
  "decode shards = concat (map shard_data (sort_key shard_index (filter (\<lambda>sh. \<not> shard_parity sh) shards)))"

text \<open>Every shard counts as available.\<close>

definition is_shard_available :: "data_shard \<Rightarrow> bool" where
  "is_shard_available sh = True"

fun collect_from :: "nat \<Rightarrow> data_shard list \<Rightarrow> data_shard list \<Rightarrow> data_shard list" where
  "collect_from n [] acc = acc"
| "collect_from n (sh # shs) acc =
     (if is_shard_available sh
      then if n \<le> length (acc @ [sh]) then acc @ [sh] else collect_from n shs (acc @ [sh])
      else collect_from n shs acc)"

definition collect_shards :: "data_shard list \<Rightarrow> nat \<Rightarrow> (l2_error, data_shard list) outcome" where
  "collect_shards shards n =
     (let l = collect_from n shards [] in if length l < n then Err DataNotAvailable else Ok l)"

definition check_shard_availability :: "data_shard list \<Rightarrow> nat \<Rightarrow> bool" where
  "check_shard_availability shards n =
     (filter is_shard_available shards \<noteq> [] \<and> n \<le> length (filter is_shard_available shards))"

text \<open>The locations only name the kind of storage and the shard.\<close>

definition location_of :: "storage_type \<Rightarrow> nat \<Rightarrow> string" where
  "location_of k i =
     (case k of OnChain \<Rightarrow> ''onchain://shard/'' @ show_nat i | IPFS \<Rightarrow> ''ipfs://QmExample''
      | Celestia \<Rightarrow> ''celestia://namespace-example'' | EigenDA \<Rightarrow> ''eigenda://blob-example''
      | Custom_storage \<Rightarrow> ''custom://shard/'' @ show_nat i)"

definition distribute_shards :: "storage_type \<Rightarrow> data_shard list \<Rightarrow> string list" where
  "distribute_shards k shards = map (location_of k) [0..<length shards]"

section \<open>Operations\<close>

definition stored_of :: "u64 \<Rightarrow> u8 list \<Rightarrow> u8 list \<Rightarrow> data_shard list \<Rightarrow> da_layer \<Rightarrow> stored_data" where
  "stored_of now data c shards s = \<lparr> sd_data = c,
     sd_metadata = \<lparr> original_size = length data,
       compressed_size = (if da_compressor s \<noteq> None then Some (length c) else None),
       shard_count = length shards,
       storage_locations = distribute_shards (da_storage_type (da_configuration s)) shards, stored_at = now \<rparr>,
     sd_shards = shards \<rparr>"

definition store_data ::
  "(nat \<Rightarrow> u8 list \<Rightarrow> u8 list option) \<Rightarrow> u64 \<Rightarrow> h256 \<Rightarrow> u8 list \<Rightarrow> da_layer \<Rightarrow> (l2_error, unit) outcome \<times> da_layer" where
  "store_data compress now i data s =
     (case (case da_compressor s of None \<Rightarrow> Some data | Some level \<Rightarrow> compress level data) of
        None \<Rightarrow> (Err CompressionError, s)
      | Some c \<Rightarrow>
          or_panic s (case da_coder s of
              None \<Rightarrow> Some [\<lparr> shard_index = 0, shard_data = c, shard_parity = False \<rparr>]
            | Some coder \<Rightarrow> encode coder c)
            (\<lambda>shards. (Ok (), s\<lparr>da_storage := (da_storage s)(i \<mapsto> stored_of now data c shards s)\<rparr>)))"

definition join_shards :: "erasure_coder option \<Rightarrow> stored_data \<Rightarrow> (l2_error, u8 list) outcome" where
  "join_shards coder st =
     (case coder of
        None \<Rightarrow> Ok (sd_data st)
      | Some _ \<Rightarrow>
          (case collect_shards (sd_shards st) (length (sd_shards st) * 2 div 3) of
             Ok l \<Rightarrow> Ok (decode l) | Err e \<Rightarrow> Err e | Panic \<Rightarrow> Panic | Hang \<Rightarrow> Hang))"

definition retrieve_data :: "(u8 list \<Rightarrow> u8 list option) \<Rightarrow> h256 \<Rightarrow> da_layer \<Rightarrow> (l2_error, u8 list) outcome" where
  "retrieve_data decompress i s =
     (case da_storage s i of
        None \<Rightarrow> Err DataNotAvailable
      | Some st \<Rightarrow>
          (case join_shards (da_coder s) st of
             Ok d \<Rightarrow>
               (if da_compressor s = None then Ok d
                else case decompress d of None \<Rightarrow> Err CompressionError | Some d' \<Rightarrow> Ok d')
           | Err e \<Rightarrow> Err e | Panic \<Rightarrow> Panic | Hang \<Rightarrow> Hang))"

definition verify_availability :: "h256 \<Rightarrow> da_layer \<Rightarrow> bool" where
  "verify_availability i s =
     (case da_storage s i of
        None \<Rightarrow> False
      | Some st \<Rightarrow> check_shard_availability (sd_shards st)
          (if da_coder s \<noteq> None then length (sd_shards st) * 2 div 3 else 1))"

end
