(* ===== verification/Rollup.thy ===== *)
theory Rollup
  imports DataAvailability CommitReveal
begin

text \<open>
  The optimistic rollup of \<^verbatim>\<open>src/layer2/optimistic_rollup.rs\<close>, on top of the data availability layer.

  A call holds lock guards while it calls further. \<open>taken\<close> are the guards of calls that are suspended for ever; every
  other call releases its guards. \<open>held\<close> are the guards the caller of an operation holds. Keccak, the serialisation of a batch,
  gzip and the clock are arguments; a call reads the clock as often as the code does.
\<close>

section \<open>State\<close>

record l2_tx =
  l2_id :: h256
  l2_from :: address
  l2_to :: address
  l2_value :: u256
  l2_data :: "u8 list"
  l2_nonce :: u64
  l2_gas_price :: u256
  l2_gas_limit :: u64
  l2_signature :: "u8 list"
  l2_instant :: bool

datatype rollup_state = RB_Pending | RB_Submitted | RB_Challenged | RB_Finalized | RB_Invalid

record ro_batch =
  rb_id :: h256
  rb_txs :: "l2_tx list"
  rb_root :: h256
  rb_prev_root :: h256
  rb_time :: u64
  rb_block :: u64
  rb_proposer :: address
  rb_status :: rollup_state
  rb_deadline :: u64

record execution_step =
  es_pc :: u64
  es_opcode :: u8
  es_stack :: "u256 list"
  es_memory :: "u8 list"
  es_storage :: "(h256 \<times> h256) list"

record fraud_proof =
  fp_batch :: h256
  fp_invalid_root :: h256
  fp_correct_root :: h256
  fp_witness :: "u8 list"
  fp_trace :: "execution_step list"

datatype challenge_status = Ch_Pending | Ch_Verified | Ch_Rejected | Ch_Expired

record challenge =
  ch_batch :: h256
  ch_challenger :: address
  ch_bond :: u256
  ch_proof :: fraud_proof
  ch_status :: challenge_status
  ch_resolved :: "u64 option"

datatype rollup_lock = L_pending | L_batches | L_state_roots | L_challenges | L_sequencer

record rollup =
  ro_batch_size :: nat
  challenge_period :: u64
  min_bond :: u256
  ro_pending :: "l2_tx list"
  ro_batches :: "h256 \<rightharpoonup> ro_batch"
  ro_state_roots :: "u64 \<rightharpoonup> h256"
  ro_challenges :: "h256 \<rightharpoonup> challenge"
  seq_address :: address
  next_batch :: u64
  current_root :: h256
  ro_da :: da_layer
  taken :: "(rollup_lock \<times> lock_mode) list"

definition rollup_new :: "nat \<Rightarrow> u64 \<Rightarrow> u256 \<Rightarrow> da_layer \<Rightarrow> rollup" where
  "rollup_new n period bond da = \<lparr> ro_batch_size = n, challenge_period = period, min_bond = bond, ro_pending = [],
     ro_batches = Map.empty, ro_state_roots = Map.empty, ro_challenges = Map.empty, seq_address = 0, next_batch = 1,
     current_root = 0, ro_da = da, taken = [] \<rparr>"

type_synonym 'a rollup_result = "(l2_error, 'a) outcome \<times> rollup"

text \<open>Asking for a guard: a call that cannot get it keeps the ones it holds for ever.\<close>

definition ask_read ::
  "(rollup_lock \<times> lock_mode) list \<Rightarrow> rollup_lock \<Rightarrow> rollup \<Rightarrow> 'a rollup_result \<Rightarrow> 'a rollup_result" where
  "ask_read held l s r = (if can_read (held @ taken s) l then r else (Hang, s\<lparr>taken := held @ taken s\<rparr>))"

definition ask_write ::
  "(rollup_lock \<times> lock_mode) list \<Rightarrow> rollup_lock \<Rightarrow> rollup \<Rightarrow> 'a rollup_result \<Rightarrow> 'a rollup_result" where
  "ask_write held l s r = (if can_write (held @ taken s) l then r else (Hang, s\<lparr>taken := held @ taken s\<rparr>))"

section \<open>Roots and hashes\<close>

definition root_bytes :: "l2_tx list \<Rightarrow> h256 \<Rightarrow> u8 list" where
  "root_bytes txs prev = be_bytes 32 prev @
     concat (map (\<lambda>tx. be_bytes 32 (l2_id tx) @ be_bytes 20 (l2_from tx) @ be_bytes 20 (l2_to tx) @
       le_bytes 32 (l2_value tx) @ l2_data tx) txs)"

definition compute_state_root :: "(u8 list \<Rightarrow> h256) \<Rightarrow> l2_tx list \<Rightarrow> h256 \<Rightarrow> h256" where
  "compute_state_root keccak txs prev = keccak (root_bytes txs prev)"

definition recompute_state_root :: "(u8 list \<Rightarrow> h256) \<Rightarrow> l2_tx list \<Rightarrow> h256 \<Rightarrow> u8 list \<Rightarrow> h256" where
  "recompute_state_root keccak txs prev witness = compute_state_root keccak txs prev"

definition l2_hash :: "(u8 list \<Rightarrow> h256) \<Rightarrow> l2_tx \<Rightarrow> h256" where
  "l2_hash keccak tx = keccak (be_bytes 20 (l2_from tx) @ be_bytes 20 (l2_to tx) @ le_bytes 32 (l2_value tx) @
     le_bytes 8 (l2_nonce tx) @ l2_data tx)"

definition verify_execution_trace :: "(u8 list \<Rightarrow> h256) \<Rightarrow> execution_step list \<Rightarrow> h256" where
  "verify_execution_trace keccak trace = keccak (concat (map (\<lambda>st. le_bytes 8 (es_pc st) @ [es_opcode st] @
     concat (map (le_bytes 32) (es_stack st)) @ es_memory st) trace))"

definition verify_fraud_proof :: "(u8 list \<Rightarrow> h256) \<Rightarrow> fraud_proof \<Rightarrow> ro_batch \<Rightarrow> bool" where
  "verify_fraud_proof keccak p b \<longleftrightarrow>
     fp_batch p = rb_id b \<and> fp_invalid_root p = rb_root b \<and>
     verify_execution_trace keccak (fp_trace p) = fp_correct_root p"

definition l2_valid :: "l2_tx \<Rightarrow> bool" where
  "l2_valid tx \<longleftrightarrow> l2_gas_limit tx \<noteq> 0 \<and> l2_gas_price tx \<noteq> 0"

section \<open>Batches\<close>

definition ro_create_batch ::
  "(u8 list \<Rightarrow> h256) \<Rightarrow> (ro_batch \<Rightarrow> u8 list) \<Rightarrow> (nat \<Rightarrow> u8 list \<Rightarrow> u8 list option) \<Rightarrow> (nat \<Rightarrow> u64)
     \<Rightarrow> (rollup_lock \<times> lock_mode) list \<Rightarrow> rollup \<Rightarrow> h256 rollup_result" where
  "ro_create_batch keccak ser compress clock held s =
     ask_write held L_pending s
       (if ro_pending s = [] then (Err L2_InvalidTransaction, s)
        else
          let n = min (length (ro_pending s)) (ro_batch_size s);
              txs = take n (ro_pending s);
              s1 = s\<lparr>ro_pending := drop n (ro_pending s)\<rparr>
          in ask_write held L_sequencer s1
            (let i = ucast (next_batch s1);
                 root = compute_state_root keccak txs (current_root s1);
                 s2 = s1\<lparr>next_batch := next_batch s1 + 1, current_root := root\<rparr>;
                 b = \<lparr> rb_id = i, rb_txs = txs, rb_root = root, rb_prev_root = current_root s1, rb_time = clock 0,
                       rb_block = next_batch s1, rb_proposer = seq_address s1, rb_status = RB_Submitted,
                       rb_deadline = clock 1 + challenge_period s1 * 12 \<rparr>
             in case store_data compress (clock 2) i (ser b) (ro_da s2) of
                  (Ok _, da) \<Rightarrow>
                    let s3 = s2\<lparr>ro_da := da\<rparr>; held' = held @ [(L_sequencer, Write_Guard)] in
                    ask_write held' L_batches s3
                      (let s4 = s3\<lparr>ro_batches := (ro_batches s3)(i \<mapsto> b)\<rparr> in
                       ask_write (held' @ [(L_batches, Write_Guard)]) L_state_roots s4
                         (Ok i, s4\<lparr>ro_state_roots := (ro_state_roots s4)(rb_block b \<mapsto> root)\<rparr>))
                | (Err e, da) \<Rightarrow> (Err e, s2\<lparr>ro_da := da\<rparr>)
                | (Panic, da) \<Rightarrow> (Panic, s2\<lparr>ro_da := da\<rparr>)
                | (Hang, da) \<Rightarrow> (Hang, s2\<lparr>ro_da := da\<rparr>)))"

text \<open>A transaction that fills the batch creates it, under the write guard of the pending transactions.\<close>

definition ro_submit ::
  "(u8 list \<Rightarrow> h256) \<Rightarrow> (ro_batch \<Rightarrow> u8 list) \<Rightarrow> (nat \<Rightarrow> u8 list \<Rightarrow> u8 list option) \<Rightarrow> (nat \<Rightarrow> u64) \<Rightarrow> l2_tx
     \<Rightarrow> rollup \<Rightarrow> h256 rollup_result" where
  "ro_submit keccak ser compress clock tx s =
     (if \<not> l2_valid tx then (Err L2_InvalidTransaction, s)
      else ask_write [] L_pending s
        (let s1 = s\<lparr>ro_pending := ro_pending s @ [tx]\<rparr> in
         if ro_batch_size s \<le> length (ro_pending s1)
         then and_then (ro_create_batch keccak ser compress clock [(L_pending, Write_Guard)] s1) (\<lambda>_ s. (Ok (l2_hash keccak tx), s))
         else (Ok (l2_hash keccak tx), s1)))"

section \<open>Challenges\<close>

text \<open>The rewards and slashings are empty.\<close>

definition resolve_batch ::
  "h256 \<Rightarrow> u64 \<Rightarrow> h256 \<Rightarrow> rollup \<Rightarrow> rollup" where
  "resolve_batch i now root s =
     (case ro_batches s i of
        None \<Rightarrow> s
      | Some b \<Rightarrow>
          let (bs, cs) = (if root \<noteq> rb_root b then (RB_Invalid, Ch_Verified) else (RB_Submitted, Ch_Rejected)) in
          s\<lparr>ro_batches := (ro_batches s)(i \<mapsto> b\<lparr>rb_status := bs\<rparr>),
            ro_challenges := (case ro_challenges s i of
               None \<Rightarrow> ro_challenges s
             | Some c \<Rightarrow> (ro_challenges s)(i \<mapsto> c\<lparr>ch_status := cs, ch_resolved := Some now\<rparr>))\<rparr>)"

definition execute_challenge_resolution ::
  "(u8 list \<Rightarrow> h256) \<Rightarrow> u64 \<Rightarrow> (rollup_lock \<times> lock_mode) list \<Rightarrow> h256 \<Rightarrow> rollup \<Rightarrow> unit rollup_result" where
  "execute_challenge_resolution keccak now held i s =
     ask_read held L_challenges s
       (case ro_challenges s i of
          None \<Rightarrow> (Err InvalidProof, s)
        | Some c \<Rightarrow>
            ask_read (held @ [(L_challenges, Read_Guard)]) L_batches s
              (case ro_batches s i of
                 None \<Rightarrow> (Err BatchNotFound, s)
               | Some b \<Rightarrow>
                   let root = recompute_state_root keccak (rb_txs b) (rb_prev_root b) (fp_witness (ch_proof c)) in
                   ask_write held L_batches s
                     (ask_write (held @ [(L_batches, Write_Guard)]) L_challenges s
                        (Ok (), resolve_batch i now root s))))"

definition challenge_state_root ::
  "(u8 list \<Rightarrow> h256) \<Rightarrow> (nat \<Rightarrow> u64) \<Rightarrow> h256 \<Rightarrow> address \<Rightarrow> fraud_proof \<Rightarrow> rollup \<Rightarrow> unit rollup_result" where
  "challenge_state_root keccak clock i challenger p s =
     ask_read [] L_batches s
       (case ro_batches s i of
          None \<Rightarrow> (Err BatchNotFound, s)
        | Some b \<Rightarrow>
            if rb_status b \<noteq> RB_Submitted then (Err InvalidProof, s)
            else if rb_deadline b < clock 0 then (Err ChallengePeriodNotExpired, s)
            else if \<not> verify_fraud_proof keccak p b then (Err InvalidProof, s)
            else ask_write [(L_batches, Read_Guard)] L_challenges s
              (let c = \<lparr> ch_batch = i, ch_challenger = challenger, ch_bond = min_bond s, ch_proof = p,
                         ch_status = Ch_Pending, ch_resolved = None \<rparr>;
                   s1 = s\<lparr>ro_challenges := (ro_challenges s)(i \<mapsto> c)\<rparr>
               in ask_write [(L_challenges, Write_Guard)] L_batches s1
                 (let s2 = s1\<lparr>ro_batches := (ro_batches s1)(i \<mapsto> b\<lparr>rb_status := RB_Challenged\<rparr>)\<rparr> in
                  execute_challenge_resolution keccak (clock 1) [(L_challenges, Write_Guard), (L_batches, Write_Guard)] i s2)))"

definition ro_finalize :: "u64 \<Rightarrow> h256 \<Rightarrow> rollup \<Rightarrow> unit rollup_result" where
  "ro_finalize now i s =
     ask_write [] L_batches s
       (case ro_batches s i of
          None \<Rightarrow> (Err BatchNotFound, s)
        | Some b \<Rightarrow>
            if rb_status b \<noteq> RB_Submitted then (Err InvalidProof, s)
            else if now < rb_deadline b then (Err ChallengePeriodNotExpired, s)
            else (Ok (), s\<lparr>ro_batches := (ro_batches s)(i \<mapsto> b\<lparr>rb_status := RB_Finalized\<rparr>)\<rparr>))"

record batch_status_report =
  bs_id :: h256
  bs_state :: rollup_state
  bs_count :: nat
  bs_root :: h256
  bs_time :: u64
  bs_proposer :: address
  bs_finalized :: bool

definition ro_get_batch_status :: "h256 \<Rightarrow> rollup \<Rightarrow> batch_status_report option rollup_result" where
  "ro_get_batch_status i s =
     ask_read [] L_batches s
       (Ok (map_option (\<lambda>b. \<lparr> bs_id = rb_id b, bs_state = rb_status b, bs_count = length (rb_txs b), bs_root = rb_root b,
          bs_time = rb_time b, bs_proposer = rb_proposer b, bs_finalized = (rb_status b = RB_Finalized) \<rparr>) (ro_batches s i)), s)"

definition ro_has_batch :: "h256 \<Rightarrow> rollup \<Rightarrow> bool rollup_result" where
  "ro_has_batch i s = ask_read [] L_batches s (Ok (ro_batches s i \<noteq> None), s)"

end
