(* ===== verification/DataAvailabilityProps.thy ===== *)
theory DataAvailabilityProps
  imports DataAvailability
begin

text \<open>
  The data availability layer as a blob store: what was stored is retrieved, when cutting panics, and what the parity
  shards are worth.
\<close>

section \<open>Blob stores\<close>

text \<open>
  What a client of the layer relies on. \<open>wf\<close> are the states it can be in, \<open>faithful\<close> the data its coding can restore in a state.
\<close>

locale blob_store =
  fixes put :: "'i \<Rightarrow> 'd \<Rightarrow> 's \<Rightarrow> ('e, unit) outcome \<times> 's"
    and get :: "'i \<Rightarrow> 's \<Rightarrow> ('e, 'd) outcome"
    and wf :: "'s \<Rightarrow> bool"
    and faithful :: "'d \<Rightarrow> 's \<Rightarrow> bool"
  assumes put_get: "wf s \<Longrightarrow> faithful d s \<Longrightarrow> put i d s = (Ok (), s') \<Longrightarrow> get i s' = Ok d"
    and put_other: "wf s \<Longrightarrow> put i d s = (r, s') \<Longrightarrow> j \<noteq> i \<Longrightarrow> get j s' = get j s"
    and put_failed: "put i d s = (r, s') \<Longrightarrow> r \<noteq> Ok () \<Longrightarrow> s' = s"
    and put_wf: "wf s \<Longrightarrow> put i d s = (r, s') \<Longrightarrow> wf s'"
    and put_faithful: "put i d s = (r, s') \<Longrightarrow> faithful d' s' \<longleftrightarrow> faithful d' s"
begin

text \<open>Several blobs under different identifiers, up to the first failure.\<close>

fun put_list :: "('i \<times> 'd) list \<Rightarrow> 's \<Rightarrow> ('e, unit) outcome \<times> 's" where
  "put_list [] s = (Ok (), s)"
| "put_list ((i, d) # ids) s = and_then (put i d s) (\<lambda>_. put_list ids)"

lemma put_list_keeps: "wf s \<Longrightarrow> put_list ids s = (r, s') \<Longrightarrow> j \<notin> fst ` set ids \<Longrightarrow> get j s' = get j s"
proof (induction ids arbitrary: s)
  case (Cons id ids)
  obtain i d where id: "id = (i, d)" by (cases id)
  obtain r1 s1 where p: "put i d s = (r1, s1)" by fastforce
  have g: "get j s1 = get j s" "wf s1" using put_other [OF Cons.prems(1) p] put_wf [OF Cons.prems(1) p] Cons.prems(3) id by auto
  show ?case
  proof (cases r1)
    case (Ok u)
    with Cons.prems(2) id p have "put_list ids s1 = (r, s')" by simp
    with Cons.IH [OF g(2)] Cons.prems(3) g(1) show ?thesis by simp
  qed (use Cons.prems(2) id p g in auto)
qed simp

lemma put_list_gets:
  "wf s \<Longrightarrow> put_list ids s = (Ok (), s') \<Longrightarrow> distinct (map fst ids) \<Longrightarrow> \<forall>(i, d) \<in> set ids. faithful d s \<Longrightarrow>
     (i, d) \<in> set ids \<Longrightarrow> get i s' = Ok d"
proof (induction ids arbitrary: s)
  case (Cons id ids)
  obtain k b where id: "id = (k, b)" by (cases id)
  obtain s1 where p: "put k b s = (Ok (), s1)" "put_list ids s1 = (Ok (), s')" using Cons.prems(2) id by auto
  have w: "wf s1" by (rule put_wf [OF Cons.prems(1) p(1)])
  have f: "\<forall>(i, d) \<in> set ids. faithful d s1" using Cons.prems(4) put_faithful [OF p(1)] by auto
  show ?case
  proof (cases "(i, d) = (k, b)")
    case True
    moreover have "get k s' = get k s1" using put_list_keeps [OF w p(2)] Cons.prems(3) id by simp
    moreover have "get k s1 = Ok b" using put_get [OF Cons.prems(1) _ p(1)] Cons.prems(4) id by simp
    ultimately show ?thesis by simp
  next
    case False
    with Cons.IH [OF w p(2) _ f] Cons.prems(3,5) id show ?thesis by auto
  qed
qed simp

end

section \<open>Cutting and joining\<close>

lemma cut_shards_Some:
  "cut_shards [i..<i + k] n data = Some ds \<Longrightarrow>
     map shard_index ds = [i..<i + k] \<and> (\<forall>sh \<in> set ds. \<not> shard_parity sh) \<and>
     concat (map shard_data ds) = take (k * n) (drop (i * n) data)"
proof (induction k arbitrary: i ds)
  case (Suc k)
  have "[i..<i + Suc k] = i # [Suc i..<Suc i + k]" by (simp add: upt_conv_Cons del: upt_Suc)
  then obtain d es where d: "slice (i * n) (min (i * n + n) (length data)) data = Some d"
    "cut_shards [Suc i..<Suc i + k] n data = Some es"
    "ds = \<lparr> shard_index = i, shard_data = d, shard_parity = False \<rparr> # es"
    using Suc.prems by (auto simp: bind_eq_Some_conv simp del: upt_Suc)
  have "d = take n (drop (i * n) data)" using d(1) by (auto simp: slice_def min_def split: if_splits)
  then have "concat (map shard_data ds) = take (Suc k * n) (drop (i * n) data)"
    using Suc.IH [OF d(2)] d(3) by (simp add: take_add add.commute)
  with Suc.IH [OF d(2)] d(3) show ?case by (simp add: upt_conv_Cons del: upt_Suc)
qed simp

lemma cut_shards_None:
  "cut_shards is n data = None \<longleftrightarrow> (\<exists>i \<in> set is. length data < i * n)"
  by (induction "is") (auto simp: slice_def bind_eq_None_conv split: if_splits)

lemma ceil_4: "n \<le> 4 * ((n + 3) div 4)" for n :: nat
  by linarith

lemma three_quarters: "n < 3 * ((n + 3) div 4) \<longleftrightarrow> n = 1 \<or> n = 2 \<or> n = 5" for n :: nat
proof -
  define q where "q = (n + 3) div 4"
  have "4 * q \<le> n + 3" "n + 3 < 4 * q + 4" by (simp_all add: q_def)
  then have "n < 3 * q \<longleftrightarrow> q = 1 \<and> n < 3 \<or> q = 2 \<and> n < 6" by linarith
  also have "\<dots> \<longleftrightarrow> n = 1 \<or> n = 2 \<or> n = 5" using \<open>4 * q \<le> n + 3\<close> \<open>n + 3 < 4 * q + 4\<close> by linarith
  finally show ?thesis by (simp add: q_def)
qed

lemma encode_None: "encode \<lparr> data_shards = 4, parity_shards = p \<rparr> data = None \<longleftrightarrow> length data \<in> {1, 2, 5}"
proof -
  have "encode \<lparr> data_shards = 4, parity_shards = p \<rparr> data = None \<longleftrightarrow>
      (\<exists>i \<in> {0..<4}. length data < i * ((length data + 3) div 4))"
    by (simp add: encode_def cut_shards_None add.commute)
  also have "{0..<4} = {0, 1, 2, 3 :: nat}" by auto
  also have "(\<exists>i \<in> {0, 1, 2, 3}. length data < i * ((length data + 3) div 4)) \<longleftrightarrow>
      length data < 3 * ((length data + 3) div 4)"
    by auto
  also have "\<dots> \<longleftrightarrow> length data = 1 \<or> length data = 2 \<or> length data = 5" by (rule three_quarters)
  finally show ?thesis by simp
qed

lemma add_parity_append:
  "\<exists>ps. add_parity k is shards = shards @ ps \<and> length ps = length is \<and> (\<forall>sh \<in> set ps. shard_parity sh)"
proof (induction k "is" shards rule: add_parity.induct)
  case (2 k i "is" shards)
  let ?p = "\<lparr> shard_index = k + i, shard_data = generate_parity shards i, shard_parity = True \<rparr>"
  obtain ps where "add_parity k is (shards @ [?p]) = (shards @ [?p]) @ ps" "length ps = length is"
    "\<forall>sh \<in> set ps. shard_parity sh"
    using 2 by blast
  then show ?case by (intro exI [of _ "?p # ps"]) auto
qed simp

lemma encode_Some:
  assumes "encode \<lparr> data_shards = 4, parity_shards = p \<rparr> data = Some shards"
  obtains ds ps where "shards = ds @ ps" "length ds = 4" "length ps = p" "\<forall>sh \<in> set ps. shard_parity sh"
    "map shard_index ds = [0..<4]" "\<forall>sh \<in> set ds. \<not> shard_parity sh" "concat (map shard_data ds) = data"
    "shards = add_parity 4 [0..<p] ds"
proof -
  let ?n = "(length data + 3) div 4"
  obtain ds where ds: "cut_shards [0..<0 + 4] ?n data = Some ds" "shards = add_parity 4 [0..<p] ds"
    using assms by (auto simp: encode_def add.commute)
  note cut = cut_shards_Some [OF ds(1)]
  obtain ps where "shards = ds @ ps" "length ps = p" "\<forall>sh \<in> set ps. shard_parity sh"
    using add_parity_append [of 4 "[0..<p]" ds] ds(2) by auto
  moreover have "length ds = 4" using arg_cong [OF conjunct1 [OF cut], of length] by simp
  moreover have "concat (map shard_data ds) = data" using cut ceil_4 [of "length data"] by simp
  ultimately show thesis using that cut ds(2) by simp
qed

lemma collect_from_take: "length acc < n \<Longrightarrow> collect_from n shs acc = acc @ take (n - length acc) shs"
proof (induction n shs acc rule: collect_from.induct)
  case (2 n sh shs acc)
  show ?case
  proof (cases "n \<le> length (acc @ [sh])")
    case True
    with 2(3) have "n - length acc = 1" by simp
    with True show ?thesis by (simp add: is_shard_available_def)
  next
    case False
    then have "n - length acc = Suc (n - length (acc @ [sh]))" by simp
    with 2(1) [OF _ False] False show ?thesis by (simp add: is_shard_available_def)
  qed
qed simp

lemma collect_shards_prefix: "0 < n \<Longrightarrow> n \<le> length shards \<Longrightarrow> collect_shards shards n = Ok (take n shards)"
  by (simp add: collect_shards_def collect_from_take Let_def)

lemma decode_in_order:
  assumes "map shard_index ds = [0..<length ds]" "\<forall>sh \<in> set ds. \<not> shard_parity sh" "\<forall>sh \<in> set ps. shard_parity sh"
  shows "decode (filter P (ds @ ps)) = concat (map shard_data (filter P ds))"
proof -
  have "filter (\<lambda>sh. \<not> shard_parity sh) (filter P (ds @ ps)) = filter P ds"
    using assms(2,3) by (auto simp: filter_empty_conv intro: filter_cong)
  moreover have "sorted (map shard_index (filter P ds))"
    using sorted_filter [of shard_index ds P] assms(1) by simp
  then have "sort_key shard_index (filter P ds) = filter P ds" by (rule sort_key_id_if_sorted)
  ultimately show ?thesis by (simp only: decode_def)
qed

section \<open>Storing and retrieving\<close>

definition da_wf :: "da_layer \<Rightarrow> bool" where
  "da_wf s \<longleftrightarrow> (\<forall>c. da_coder s = Some c \<longrightarrow> c = \<lparr> data_shards = 4, parity_shards = 2 \<rparr>)"

definition da_faithful ::
  "(nat \<Rightarrow> u8 list \<Rightarrow> u8 list option) \<Rightarrow> (u8 list \<Rightarrow> u8 list option) \<Rightarrow> u8 list \<Rightarrow> da_layer \<Rightarrow> bool" where
  "da_faithful compress decompress data s \<longleftrightarrow>
     (\<forall>l c. da_compressor s = Some l \<longrightarrow> compress l data = Some c \<longrightarrow> decompress c = Some data)"

lemma store_data_Ok:
  assumes "store_data compress now i data s = (Ok (), s')"
  obtains c shards where "(case da_compressor s of None \<Rightarrow> Some data | Some level \<Rightarrow> compress level data) = Some c"
    "(case da_coder s of None \<Rightarrow> Some [\<lparr> shard_index = 0, shard_data = c, shard_parity = False \<rparr>]
      | Some coder \<Rightarrow> encode coder c) = Some shards"
    "s' = s\<lparr>da_storage := (da_storage s)(i \<mapsto> stored_of now data c shards s)\<rparr>"
  using assms unfolding store_data_def by (auto split: option.splits)

lemma store_data_failed: "store_data compress now i data s = (r, s') \<Longrightarrow> r \<noteq> Ok () \<Longrightarrow> s' = s"
  by (auto simp: store_data_def Let_def or_panic_def split: option.splits)

lemma retrieve_stored:
  assumes "da_wf s" "da_faithful compress decompress data s" "store_data compress now i data s = (Ok (), s')"
  shows "retrieve_data decompress i s' = Ok data"
proof -
  obtain c shards where c: "(case da_compressor s of None \<Rightarrow> Some data | Some level \<Rightarrow> compress level data) = Some c"
    and sh: "(case da_coder s of None \<Rightarrow> Some [\<lparr> shard_index = 0, shard_data = c, shard_parity = False \<rparr>]
      | Some coder \<Rightarrow> encode coder c) = Some shards"
    and st: "s' = s\<lparr>da_storage := (da_storage s)(i \<mapsto> stored_of now data c shards s)\<rparr>"
    by (rule store_data_Ok [OF assms(3)])
  have restored: "da_compressor s \<noteq> None \<longrightarrow> decompress c = Some data" "da_compressor s = None \<longrightarrow> c = data"
    using c assms(2) by (auto simp: da_faithful_def split: option.splits)
  have sd: "sd_data (stored_of now data c shards s) = c" "sd_shards (stored_of now data c shards s) = shards"
    by (simp_all add: stored_of_def)
  have "join_shards (da_coder s) (stored_of now data c shards s) = Ok c"
  proof (cases "da_coder s")
    case (Some coder)
    then have coder: "coder = \<lparr> data_shards = 4, parity_shards = 2 \<rparr>" using assms(1) by (simp add: da_wf_def)
    have "encode \<lparr> data_shards = 4, parity_shards = 2 \<rparr> c = Some shards" using sh Some coder by simp
    then obtain ds ps where e: "shards = ds @ ps" "length ds = 4" "length ps = 2" "\<forall>sh \<in> set ps. shard_parity sh"
      "map shard_index ds = [0..<4]" "\<forall>sh \<in> set ds. \<not> shard_parity sh" "concat (map shard_data ds) = c"
      by (rule encode_Some)
    have "collect_shards shards (length shards * 2 div 3) = Ok ds"
      using e by (simp add: collect_shards_prefix)
    moreover have "decode ds = c"
      using decode_in_order [of ds "[]" "\<lambda>_. True"] e by simp
    ultimately show ?thesis using Some by (simp add: join_shards_def sd)
  qed (simp add: join_shards_def sd)
  then show ?thesis using restored st by (cases "da_compressor s") (simp_all add: retrieve_data_def)
qed

interpretation da: blob_store "store_data compress now" "retrieve_data decompress" da_wf "da_faithful compress decompress"
  for compress decompress now
proof
  show "retrieve_data decompress i s' = Ok d"
    if "da_wf s" "da_faithful compress decompress d s" "store_data compress now i d s = (Ok (), s')" for s d i s'
    using retrieve_stored that by blast
next
  fix s i d r s' j
  assume p: "store_data compress now i d s = (r, s')"
  show "r \<noteq> Ok () \<Longrightarrow> s' = s" using store_data_failed [OF p] by simp
  have frame: "da_coder s' = da_coder s" "da_compressor s' = da_compressor s" "j \<noteq> i \<Longrightarrow> da_storage s' j = da_storage s j" for j
    using p by (auto simp: store_data_def Let_def or_panic_def split: option.splits)
  show "da_wf s \<Longrightarrow> da_wf s'" by (simp add: da_wf_def frame)
  show "j \<noteq> i \<Longrightarrow> retrieve_data decompress j s' = retrieve_data decompress j s"
    unfolding retrieve_data_def frame(1,2) by (simp add: frame(3))
  show "da_faithful compress decompress d' s' \<longleftrightarrow> da_faithful compress decompress d' s" for d'
    by (simp add: da_faithful_def frame)
qed

lemma da_wf_new: "da_wf (da_new c)"
  by (simp add: da_wf_def da_new_def)

text \<open>
  C33: what was stored is retrieved: after blobs were stored under different identifiers one after the other, each is read
  back exactly, whatever the storage, compression and erasure coding, if decompressing undoes compressing. Other
  identifiers are not affected.
\<close>

theorem stored_data_is_retrieved:
  assumes "da.put_list compress now ids (da_new c) = (Ok (), s')" "distinct (map fst ids)"
    and "\<forall>l d z. compress l d = Some z \<longrightarrow> decompress z = Some d"
  shows "(\<forall>(i, d) \<in> set ids. retrieve_data decompress i s' = Ok d) \<and>
    (\<forall>i. i \<notin> fst ` set ids \<longrightarrow> retrieve_data decompress i s' = Err DataNotAvailable)"
proof -
  have "da_faithful compress decompress d s" for d s using assms(3) by (simp add: da_faithful_def)
  then have "retrieve_data decompress i s' = Ok d" if "(i, d) \<in> set ids" for i d
    using da.put_list_gets [OF da_wf_new assms(1,2) _ that] by blast
  moreover have "retrieve_data decompress i (da_new c) = Err DataNotAvailable" for i
    by (simp add: retrieve_data_def da_new_def)
  ultimately show ?thesis using da.put_list_keeps [OF da_wf_new assms(1)] by auto
qed

text \<open>
  With erasure coding a blob of one, two or five bytes (after compression) panics, because the last shard would start
  behind the end of the data; every other blob that can be compressed is stored.
\<close>

theorem short_blobs_panic:
  assumes "erasure_coding_enabled c"
  shows "fst (store_data compress now i data (da_new c)) =
    (case (if compression_enabled c then compress 6 data else Some data) of
       None \<Rightarrow> Err CompressionError
     | Some z \<Rightarrow> if length z \<in> {1, 2, 5} then Panic else Ok ())"
proof -
  have "fst (store_data compress now i data (da_new c)) = (case (if compression_enabled c then compress 6 data else Some data) of
       None \<Rightarrow> Err CompressionError
     | Some z \<Rightarrow> (case encode \<lparr> data_shards = 4, parity_shards = 2 \<rparr> z of None \<Rightarrow> Panic | Some _ \<Rightarrow> Ok ()))"
    using assms by (simp add: store_data_def da_new_def or_panic_def split: option.split)
  also have "\<dots> = (case (if compression_enabled c then compress 6 data else Some data) of
       None \<Rightarrow> Err CompressionError | Some z \<Rightarrow> if length z \<in> {1, 2, 5} then Panic else Ok ())"
    using encode_None [of 2] by (intro option.case_cong refl) (metis (lifting) not_None_eq option.case(1,2))
  finally show ?thesis .
qed

section \<open>What the parity is worth\<close>

lemma length_xor_into [simp]: "length (xor_into p bs) = length p"
  by (induction p bs rule: xor_into.induct) simp_all

lemma rotl_xor_into: "map (word_rotl k) (xor_into p bs) = xor_into (map (word_rotl k) p) (map (word_rotl k) bs)"
  by (induction p bs rule: xor_into.induct) (simp_all add: word_rot_logs)

lemma rotl_0 [simp]: "word_rotl 0 (w :: u8) = w"
  by (rule bit_word_eqI) (simp add: bit_word_rotl_iff)

lemma map_rotl_0 [simp]: "map (word_rotl 0) bs = (bs :: u8 list)"
  by (induction bs) simp_all

lemma rotl_fold:
  "map (word_rotl k) (fold (\<lambda>sh p. xor_into p (map (word_rotl 0) (shard_data sh))) ds p) =
     fold (\<lambda>sh p. xor_into p (map (word_rotl k) (shard_data sh))) ds (map (word_rotl k) p)"
proof (induction ds arbitrary: p)
  case (Cons d ds)
  then show ?case by (simp add: Cons rotl_xor_into)
qed simp

lemma xor_into_self: "set (xor_into p p) \<subseteq> {0}"
  by (induction p) simp_all

lemma length_parity: "length (fold (\<lambda>sh p. xor_into p (f sh)) ds p) = length p"
  by (induction ds arbitrary: p) simp_all

lemma second_parity:
  assumes "ds \<noteq> []"
  shows "set (generate_parity (ds @ [\<lparr> shard_index = i, shard_data = generate_parity ds 0, shard_parity = True \<rparr>]) 1) \<subseteq> {0}"
proof -
  let ?m = "Max (set (map (\<lambda>sh. length (shard_data sh)) ds))"
  let ?p = "generate_parity ds 0"
  have p: "?p = fold (\<lambda>sh p. xor_into p (map (word_rotl 0) (shard_data sh))) ds (replicate ?m 0)"
    using assms by (simp add: generate_parity_def)
  then have len: "length ?p = ?m" by (simp add: length_parity)
  then have "Max (set (map (\<lambda>sh. length (shard_data sh)) (ds @ [\<lparr> shard_index = i, shard_data = ?p, shard_parity = True \<rparr>]))) = ?m"
    using assms by (simp add: Max_insert)
  moreover have "fold (\<lambda>sh p. xor_into p (map (word_rotl 1) (shard_data sh))) ds (replicate ?m 0) = map (word_rotl 1) ?p"
    using rotl_fold [of 1 ds "replicate ?m 0"] p by (simp add: map_replicate_const)
  ultimately have "generate_parity (ds @ [\<lparr> shard_index = i, shard_data = ?p, shard_parity = True \<rparr>]) 1 =
      xor_into (map (word_rotl 1) ?p) (map (word_rotl 1) ?p)"
    by (simp add: generate_parity_def)
  then show ?thesis using xor_into_self by simp
qed

text \<open>
  The second parity shard is always zero. It is computed over the data shards and the first parity shard, whose bytes
  cancel the data, so it protects nothing.
\<close>

theorem second_parity_is_zero:
  assumes "encode \<lparr> data_shards = 4, parity_shards = 2 \<rparr> data = Some shards"
  shows "length shards = 6 \<and> shard_parity (shards ! 5) \<and> set (shard_data (shards ! 5)) \<subseteq> {0}"
proof -
  obtain ds ps where e: "shards = ds @ ps" "length ds = 4" "length ps = 2" "\<forall>sh \<in> set ps. shard_parity sh"
    "map shard_index ds = [0..<4]" "\<forall>sh \<in> set ds. \<not> shard_parity sh" "concat (map shard_data ds) = data"
    and "shards = add_parity 4 [0..<2] ds" by (rule encode_Some [OF assms])
  moreover have "[0..<2] = [0, 1 :: nat]" by (simp add: upt_rec)
  ultimately have "ps = [\<lparr> shard_index = 4, shard_data = generate_parity ds 0, shard_parity = True \<rparr>,
      \<lparr> shard_index = 5, shard_data = generate_parity (ds @ [\<lparr> shard_index = 4,
      shard_data = generate_parity ds 0, shard_parity = True \<rparr>]) 1, shard_parity = True \<rparr>]" by simp
  then have "shards ! 5 = \<lparr> shard_index = 5, shard_data = generate_parity (ds @ [\<lparr> shard_index = 4,
      shard_data = generate_parity ds 0, shard_parity = True \<rparr>]) 1, shard_parity = True \<rparr>"
    using e(1,2) by (simp add: nth_append)
  moreover have "ds \<noteq> []" using e(2) by auto
  ultimately show ?thesis using second_parity e by simp
qed

lemma length_dropped:
  "length (concat (map f (filter P xs))) = length (concat (map f xs)) \<Longrightarrow> x \<in> set xs \<Longrightarrow> \<not> P x \<Longrightarrow> f x = []"
proof (induction xs)
  case (Cons y ys)
  have "length (concat (map f (filter P ys))) \<le> length (concat (map f ys))"
    by (induction ys) (auto simp: trans_le_add2)
  with Cons show ?case by (cases "P y") auto
qed simp

text \<open>
  The parity shards never help. Joining any selection of the shards of a blob gives the blob back if and only if no
  data shard with content is missing, whichever parity shards are there; a missing shard is not even noticed.
\<close>

theorem parity_recovers_nothing:
  assumes "encode \<lparr> data_shards = 4, parity_shards = 2 \<rparr> data = Some shards"
  shows "decode (filter available shards) = data \<longleftrightarrow>
    (\<forall>sh \<in> set shards. \<not> shard_parity sh \<and> shard_data sh \<noteq> [] \<longrightarrow> available sh)"
proof -
  obtain ds ps where e: "shards = ds @ ps" "length ds = 4" "length ps = 2" "\<forall>sh \<in> set ps. shard_parity sh"
    "map shard_index ds = [0..<4]" "\<forall>sh \<in> set ds. \<not> shard_parity sh" "concat (map shard_data ds) = data"
    by (rule encode_Some [OF assms])
  have d: "decode (filter available shards) = concat (map shard_data (filter available ds))"
    using decode_in_order e by simp
  have "concat (map shard_data (filter available ds)) = concat (map shard_data ds) \<longleftrightarrow>
      (\<forall>sh \<in> set ds. shard_data sh \<noteq> [] \<longrightarrow> available sh)"
  proof
    assume "concat (map shard_data (filter available ds)) = concat (map shard_data ds)"
    with length_dropped [of shard_data available ds] show "\<forall>sh \<in> set ds. shard_data sh \<noteq> [] \<longrightarrow> available sh" by auto
  next
    assume "\<forall>sh \<in> set ds. shard_data sh \<noteq> [] \<longrightarrow> available sh"
    then show "concat (map shard_data (filter available ds)) = concat (map shard_data ds)"
      by (induction ds) auto
  qed
  then show ?thesis using d e by auto
qed

section \<open>Examples\<close>

definition sample_da_config :: da_config where
  "sample_da_config = \<lparr> da_storage_type = OnChain, compression_enabled = False, erasure_coding_enabled = True,
     replication_factor = 3 \<rparr>"

lemmas evaluate_da =
  sample_da_config_def da_new_def store_data_def encode_def slice_def generate_parity_def stored_of_def
  distribute_shards_def location_of_def show_nat.simps

theorem stored_data_is_retrieved_witness:
  "retrieve_data Some 7 (snd (da.put_list (\<lambda>_. Some) 0 [(7, [1, 2, 3, 4, 9, 8])] (da_new sample_da_config))) = Ok [1, 2, 3, 4, 9, 8]"
proof -
  have "da.put_list (\<lambda>_. Some) 0 [(7, [1, 2, 3, 4, 9, 8])] (da_new sample_da_config) =
      (Ok (), snd (da.put_list (\<lambda>_. Some) 0 [(7, [1, 2, 3, 4, 9, 8])] (da_new sample_da_config)))"
    by (simp add: evaluate_da upt_rec)
  from stored_data_is_retrieved [OF this, of Some] show ?thesis by simp
qed

theorem short_blobs_panic_witness:
  "fst (store_data (\<lambda>_. Some) 0 7 [1, 2, 3, 4, 5] (da_new sample_da_config)) = Panic"
  by (subst short_blobs_panic) (simp_all add: sample_da_config_def)

lemma sample_encode:
  "\<exists>p q. encode \<lparr> data_shards = 4, parity_shards = 2 \<rparr> [1, 2, 3, 4, 9, 8] = Some
     [\<lparr> shard_index = 0, shard_data = [1, 2], shard_parity = False \<rparr>,
      \<lparr> shard_index = 1, shard_data = [3, 4], shard_parity = False \<rparr>,
      \<lparr> shard_index = 2, shard_data = [9, 8], shard_parity = False \<rparr>,
      \<lparr> shard_index = 3, shard_data = [], shard_parity = False \<rparr>,
      \<lparr> shard_index = 4, shard_data = p, shard_parity = True \<rparr>,
      \<lparr> shard_index = 5, shard_data = q, shard_parity = True \<rparr>]"
  by (simp add: encode_def slice_def upt_rec)

theorem second_parity_is_zero_witness:
  "\<exists>shards. encode \<lparr> data_shards = 4, parity_shards = 2 \<rparr> [1, 2, 3, 4, 9, 8] = Some shards \<and>
     set (shard_data (shards ! 5)) \<subseteq> {0}"
  using sample_encode second_parity_is_zero by blast

theorem parity_recovers_nothing_witness:
  "\<exists>shards. encode \<lparr> data_shards = 4, parity_shards = 2 \<rparr> [1, 2, 3, 4, 9, 8] = Some shards \<and>
     decode (filter (\<lambda>sh. shard_index sh \<noteq> 1) shards) \<noteq> [1, 2, 3, 4, 9, 8]"
proof -
  obtain p q where e: "encode \<lparr> data_shards = 4, parity_shards = 2 \<rparr> [1, 2, 3, 4, 9, 8] = Some
     [\<lparr> shard_index = 0, shard_data = [1, 2], shard_parity = False \<rparr>,
      \<lparr> shard_index = 1, shard_data = [3, 4], shard_parity = False \<rparr>,
      \<lparr> shard_index = 2, shard_data = [9, 8], shard_parity = False \<rparr>,
      \<lparr> shard_index = 3, shard_data = [], shard_parity = False \<rparr>,
      \<lparr> shard_index = 4, shard_data = p, shard_parity = True \<rparr>,
      \<lparr> shard_index = 5, shard_data = q, shard_parity = True \<rparr>]"
    using sample_encode by blast
  have "\<not> (\<forall>sh \<in> set (the (encode \<lparr> data_shards = 4, parity_shards = 2 \<rparr> [1, 2, 3, 4, 9, 8])).
      \<not> shard_parity sh \<and> shard_data sh \<noteq> [] \<longrightarrow> shard_index sh \<noteq> 1)"
    unfolding e by simp
  with parity_recovers_nothing [OF e, of "\<lambda>sh. shard_index sh \<noteq> 1"] e show ?thesis by (metis option.sel)
qed

end
