(* ===== verification/RollupProps.thy ===== *)
theory RollupProps
  imports Rollup DataAvailabilityProps
begin

text \<open>
  The optimistic rollup: what its batches satisfy in every run, the availability of their data, and the calls that are
  suspended for ever with the locks they leave behind.
\<close>

section \<open>Runs\<close>

datatype rollup_call =
    R_Submit "nat \<Rightarrow> u64" l2_tx
  | R_Create "nat \<Rightarrow> u64"
  | R_Challenge "nat \<Rightarrow> u64" h256 address fraud_proof
  | R_Finalize u64 h256

fun rollup_step ::
  "(u8 list \<Rightarrow> h256) \<Rightarrow> (ro_batch \<Rightarrow> u8 list) \<Rightarrow> (nat \<Rightarrow> u8 list \<Rightarrow> u8 list option) \<Rightarrow> rollup_call \<Rightarrow> rollup \<Rightarrow> rollup" where
  "rollup_step keccak ser compress (R_Submit clock tx) s = snd (ro_submit keccak ser compress clock tx s)"
| "rollup_step keccak ser compress (R_Create clock) s = snd (ro_create_batch keccak ser compress clock [] s)"
| "rollup_step keccak ser compress (R_Challenge clock i a p) s = snd (challenge_state_root keccak clock i a p s)"
| "rollup_step keccak ser compress (R_Finalize now i) s = snd (ro_finalize now i s)"

lemma snd_ask_write: "(can_write (held @ taken s) l \<Longrightarrow> P (snd r)) \<Longrightarrow> P (s\<lparr>taken := held @ taken s\<rparr>) \<Longrightarrow> P (snd (ask_write held l s r))"
  by (simp add: ask_write_def)

lemma snd_ask_read: "(can_read (held @ taken s) l \<Longrightarrow> P (snd r)) \<Longrightarrow> P (s\<lparr>taken := held @ taken s\<rparr>) \<Longrightarrow> P (snd (ask_read held l s r))"
  by (simp add: ask_read_def)

lemma can_write_own [simp]: "(l, m) \<in> set held \<Longrightarrow> \<not> can_write held l"
  by (auto simp: can_write_def list_all_iff)

lemma can_read_own [simp]: "(l, Write_Guard) \<in> set held \<Longrightarrow> \<not> can_read held l"
  by (auto simp: can_read_def list_all_iff)

text \<open>Resolving a challenge asks for the challenges, which the challenge holds.\<close>

lemma resolution_hangs:
  "execute_challenge_resolution keccak now [(L_challenges, Write_Guard), (L_batches, Write_Guard)] i s =
     (Hang, s\<lparr>taken := [(L_challenges, Write_Guard), (L_batches, Write_Guard)] @ taken s\<rparr>)"
  by (simp add: execute_challenge_resolution_def ask_read_def can_read_def)

lemma submit_full_hangs:
  "ro_create_batch keccak ser compress clock [(L_pending, Write_Guard)] s = (Hang, s\<lparr>taken := [(L_pending, Write_Guard)] @ taken s\<rparr>)"
  by (simp add: ro_create_batch_def ask_write_def can_write_def)

section \<open>The batches of a run\<close>

definition rollup_inv :: "(u8 list \<Rightarrow> h256) \<Rightarrow> rollup \<Rightarrow> bool" where
  "rollup_inv keccak s \<longleftrightarrow> da_wf (ro_da s) \<and> (\<forall>i b. ro_batches s i = Some b \<longrightarrow>
     rb_id b = i \<and> i = ucast (rb_block b) \<and> rb_root b = compute_state_root keccak (rb_txs b) (rb_prev_root b) \<and>
     rb_status b \<in> {RB_Submitted, RB_Challenged, RB_Finalized})"

lemma rollup_inv_taken [simp]: "rollup_inv keccak (s\<lparr>taken := t\<rparr>) = rollup_inv keccak s"
  and rollup_inv_pending [simp]: "rollup_inv keccak (s\<lparr>ro_pending := p\<rparr>) = rollup_inv keccak s"
  and rollup_inv_seq [simp]: "rollup_inv keccak (s\<lparr>next_batch := n, current_root := h\<rparr>) = rollup_inv keccak s"
  and rollup_inv_roots [simp]: "rollup_inv keccak (s\<lparr>ro_state_roots := m\<rparr>) = rollup_inv keccak s"
  and rollup_inv_challenges [simp]: "rollup_inv keccak (s\<lparr>ro_challenges := ch\<rparr>) = rollup_inv keccak s"
  by (simp_all add: rollup_inv_def)

lemma rollup_inv_da: "rollup_inv keccak s \<Longrightarrow> da_wf da \<Longrightarrow> rollup_inv keccak (s\<lparr>ro_da := da\<rparr>)"
  by (simp add: rollup_inv_def)

lemma rollup_inv_batch:
  "rollup_inv keccak s \<Longrightarrow> rb_id b = i \<Longrightarrow> i = ucast (rb_block b) \<Longrightarrow>
     rb_root b = compute_state_root keccak (rb_txs b) (rb_prev_root b) \<Longrightarrow>
     rb_status b \<in> {RB_Submitted, RB_Challenged, RB_Finalized} \<Longrightarrow>
     rollup_inv keccak (s\<lparr>ro_batches := (ro_batches s)(i \<mapsto> b)\<rparr>)"
  by (simp add: rollup_inv_def)

lemma rollup_inv_status:
  "rollup_inv keccak s \<Longrightarrow> ro_batches s i = Some b \<Longrightarrow> st \<in> {RB_Submitted, RB_Challenged, RB_Finalized} \<Longrightarrow>
     rollup_inv keccak (s\<lparr>ro_batches := (ro_batches s)(i \<mapsto> b\<lparr>rb_status := st\<rparr>)\<rparr>)"
  by (auto simp: rollup_inv_def)

lemma inv_ask_write: "rollup_inv keccak (snd r) \<Longrightarrow> rollup_inv keccak s \<Longrightarrow> rollup_inv keccak (snd (ask_write held l s r))"
  and inv_ask_read: "rollup_inv keccak (snd r) \<Longrightarrow> rollup_inv keccak s \<Longrightarrow> rollup_inv keccak (snd (ask_read held l s r))"
  by (simp_all add: ask_write_def ask_read_def)

lemma rollup_inv_create:
  assumes "rollup_inv keccak s"
  shows "rollup_inv keccak (snd (ro_create_batch keccak ser compress clock held s))"
proof -
  let ?n = "min (length (ro_pending s)) (ro_batch_size s)"
  let ?b = "\<lparr> rb_id = ucast (next_batch s), rb_txs = take ?n (ro_pending s),
      rb_root = compute_state_root keccak (take ?n (ro_pending s)) (current_root s), rb_prev_root = current_root s,
      rb_time = clock 0, rb_block = next_batch s, rb_proposer = seq_address s, rb_status = RB_Submitted,
      rb_deadline = clock 1 + challenge_period s * 12 \<rparr>"
  let ?s2 = "s\<lparr>ro_pending := drop ?n (ro_pending s), next_batch := next_batch s + 1, current_root := rb_root ?b\<rparr>"
  obtain r da where st: "store_data compress (clock 2) (ucast (next_batch s)) (ser ?b) (ro_da s) = (r, da)" by fastforce
  have "da_wf da" using da.put_wf [OF _ st] assms by (simp add: rollup_inv_def)
  then have inv: "rollup_inv keccak (?s2\<lparr>ro_da := da\<rparr>)" using assms by (simp add: rollup_inv_def)
  then have "rollup_inv keccak (?s2\<lparr>ro_da := da, ro_batches := (ro_batches s)(ucast (next_batch s) \<mapsto> ?b)\<rparr>)"
    by (simp add: rollup_inv_def)
  with inv st assms show ?thesis
    by (cases r) (auto simp: ro_create_batch_def Let_def simp del: fun_upd_apply intro!: inv_ask_write)
qed

lemma rollup_inv_step: "rollup_inv keccak s \<Longrightarrow> rollup_inv keccak (rollup_step keccak ser compress c s)"
proof (induction c)
  case (R_Submit clock tx)
  then show ?case
    by (simp add: ro_submit_def Let_def submit_full_hangs ask_write_def)
next
  case (R_Create clock)
  then show ?case by (simp add: rollup_inv_create)
next
  case (R_Challenge clock i a p)
  show ?case
  proof (cases "ro_batches s i")
    case None
    with R_Challenge show ?thesis by (simp add: challenge_state_root_def ask_read_def)
  next
    case (Some b)
    with R_Challenge have "rollup_inv keccak (s\<lparr>ro_batches := (ro_batches s)(i \<mapsto> b\<lparr>rb_status := RB_Challenged\<rparr>)\<rparr>)"
      by (intro rollup_inv_status) simp_all
    then have "rollup_inv keccak (s\<lparr>ro_challenges := ch, ro_batches := (ro_batches s)(i \<mapsto> b\<lparr>rb_status := RB_Challenged\<rparr>)\<rparr>)" for ch
      by (simp add: rollup_inv_def)
    with R_Challenge Some show ?thesis
      by (simp add: challenge_state_root_def Let_def resolution_hangs ask_read_def ask_write_def del: fun_upd_apply)
  qed
next
  case (R_Finalize now i)
  then show ?case
    by (cases "ro_batches s i") (simp_all add: ro_finalize_def ask_write_def rollup_inv_status del: fun_upd_apply)
qed

interpretation rollup: invariant_of "rollup_step keccak ser compress" "\<lambda>_ _. True" "rollup_inv keccak" for keccak ser compress
  by unfold_locales (rule rollup_inv_step)

text \<open>
  In every run each batch is filed under its own number, its state root is the one its transactions give from the root
  before it, and its status is submitted, challenged or finalised: no batch is ever found invalid, because what the
  resolution of a challenge would recompute is what the sequencer computed.
\<close>

theorem no_batch_is_ever_invalid:
  assumes "s = run (rollup_step keccak ser compress) cs (rollup_new n period bond (da_new c))"
    and "ro_batches s i = Some b"
  shows "rb_id b = i \<and> i = ucast (rb_block b) \<and> rb_root b = compute_state_root keccak (rb_txs b) (rb_prev_root b) \<and>
    rb_status b \<in> {RB_Submitted, RB_Challenged, RB_Finalized} \<and>
    recompute_state_root keccak (rb_txs b) (rb_prev_root b) w = rb_root b"
proof -
  have "rollup_inv keccak (rollup_new n period bond (da_new c))"
    by (simp add: rollup_inv_def rollup_new_def da_wf_new)
  from rollup.inv_run [OF this run_ok_always] assms show ?thesis
    by (auto simp: rollup_inv_def recompute_state_root_def)
qed

text \<open>
  A batch is created from the oldest pending transactions in their order, chained to the root before it, and its data
  is available: what the availability layer returns for it is the serialised batch, if decompressing undoes
  compressing.
\<close>

theorem created_batch_is_available:
  assumes "ro_create_batch keccak ser compress clock held s = (Ok i, s')" "da_wf (ro_da s)"
    and "\<forall>l d z. compress l d = Some z \<longrightarrow> decompress z = Some d"
  shows "\<exists>b. ro_batches s' = (ro_batches s)(i \<mapsto> b) \<and> rb_txs b @ ro_pending s' = ro_pending s \<and>
    length (rb_txs b) = min (length (ro_pending s)) (ro_batch_size s) \<and> rb_status b = RB_Submitted \<and>
    rb_prev_root b = current_root s \<and> rb_root b = current_root s' \<and>
    retrieve_data decompress i (ro_da s') = Ok (ser b) \<and> taken s' = taken s"
proof -
  let ?n = "min (length (ro_pending s)) (ro_batch_size s)"
  let ?b = "\<lparr> rb_id = ucast (next_batch s), rb_txs = take ?n (ro_pending s),
      rb_root = compute_state_root keccak (take ?n (ro_pending s)) (current_root s), rb_prev_root = current_root s,
      rb_time = clock 0, rb_block = next_batch s, rb_proposer = seq_address s, rb_status = RB_Submitted,
      rb_deadline = clock 1 + challenge_period s * 12 \<rparr>"
  obtain r da where st: "store_data compress (clock 2) (ucast (next_batch s)) (ser ?b) (ro_da s) = (r, da)" by fastforce
  have "r = Ok ()" using assms(1) st
    by (cases r) (auto simp: ro_create_batch_def ask_write_def Let_def split: if_splits)
  with st assms(1) have s': "i = ucast (next_batch s)"
    "s' = s\<lparr>ro_pending := drop ?n (ro_pending s), next_batch := next_batch s + 1, current_root := rb_root ?b, ro_da := da,
      ro_batches := (ro_batches s)(i \<mapsto> ?b), ro_state_roots := (ro_state_roots s)(next_batch s \<mapsto> rb_root ?b)\<rparr>"
    by (auto simp: ro_create_batch_def ask_write_def Let_def split: if_splits)
  have "da_faithful compress decompress (ser ?b) (ro_da s)" using assms(3) by (simp add: da_faithful_def)
  from da.put_get [OF assms(2) this] st \<open>r = Ok ()\<close> s'(1) have "retrieve_data decompress i da = Ok (ser ?b)" by blast
  then show ?thesis using s' by (intro exI [of _ ?b]) simp
qed

section \<open>Suspended calls\<close>

lemma fst_ask_write: "\<not> can_write (held @ taken s) l \<Longrightarrow> fst (ask_write held l s r) = Hang"
  by (simp add: ask_write_def)

text \<open>The guards of a suspended call stay for ever.\<close>

definition frozen :: "rollup_lock \<Rightarrow> (rollup \<Rightarrow> 'a) \<Rightarrow> 'a \<Rightarrow> rollup \<Rightarrow> bool" where
  "frozen l view v s \<longleftrightarrow> (l, Write_Guard) \<in> set (taken s) \<and> view s = v"

lemma batches_frozen_step:
  "frozen L_batches ro_batches B s \<Longrightarrow> frozen L_batches ro_batches B (rollup_step keccak ser compress c s)"
proof (induction c)
  case (R_Submit clock tx)
  then show ?case
    by (simp add: frozen_def ro_submit_def Let_def submit_full_hangs ask_write_def)
next
  case (R_Create clock)
  then have "(L_batches, Write_Guard) \<in> set (taken s)" "ro_batches s = B" by (simp_all add: frozen_def)
  then show ?case
    by (auto simp: frozen_def ro_create_batch_def Let_def ask_write_def split: prod.split outcome.split)
next
  case (R_Challenge clock i a p)
  then show ?case by (simp add: frozen_def challenge_state_root_def ask_read_def)
next
  case (R_Finalize now i)
  then have "\<not> can_write (taken s) L_batches" using can_write_own [of L_batches Write_Guard "taken s"] by (simp add: frozen_def)
  with R_Finalize show ?case by (simp add: frozen_def ro_finalize_def ask_write_def)
qed

interpretation frozen_batches: invariant_of "rollup_step keccak ser compress" "\<lambda>_ _. True" "frozen L_batches ro_batches B"
  for keccak ser compress B
  by unfold_locales (rule batches_frozen_step)

lemma pending_frozen_step:
  assumes "frozen L_pending (\<lambda>s. (ro_pending s, next_batch s)) B s"
  shows "frozen L_pending (\<lambda>s. (ro_pending s, next_batch s)) B (rollup_step keccak ser compress c s)"
proof -
  have s: "(L_pending, Write_Guard) \<in> set (taken s)" "(ro_pending s, next_batch s) = B" using assms by (simp_all add: frozen_def)
  then have hang: "ask_write [] L_pending s r = (Hang, s)" for r :: "h256 rollup_result"
    using can_write_own [of L_pending Write_Guard "taken s"] by (simp add: ask_write_def)
  show ?thesis
  proof (cases c)
    case (R_Submit clock tx)
    then show ?thesis using s by (simp add: frozen_def ro_submit_def hang)
  next
    case (R_Create clock)
    then show ?thesis using s by (simp add: frozen_def ro_create_batch_def hang)
  next
    case (R_Challenge clock i a p)
    then show ?thesis using s
      by (auto simp: frozen_def challenge_state_root_def Let_def resolution_hangs ask_read_def ask_write_def split: option.split)
  next
    case (R_Finalize now i)
    then show ?thesis using s by (auto simp: frozen_def ro_finalize_def ask_write_def split: option.split)
  qed
qed

interpretation frozen_pending: invariant_of "rollup_step keccak ser compress" "\<lambda>_ _. True"
    "frozen L_pending (\<lambda>s. (ro_pending s, next_batch s)) B"
  for keccak ser compress B
  by unfold_locales (rule pending_frozen_step)

lemma create_blocked:
  assumes "(L_batches, Write_Guard) \<in> set (taken s)"
  shows "fst (ro_create_batch keccak ser compress clock held s) \<noteq> Ok h"
proof -
  have "\<not> can_write (held @ (L_sequencer, Write_Guard) # taken s) L_batches"
    using assms by (intro can_write_own [of _ Write_Guard]) simp
  then show ?thesis by (auto simp: ro_create_batch_def Let_def ask_write_def split: prod.split outcome.split)
qed

text \<open>
  C34: a challenge that is accepted stops the rollup's batches. Any fraud proof that passes the check does, against any submitted
  batch before its deadline (and one that names the batch with an empty trace, which says nothing about its transactions,
  passes). The call never returns and the batch stays challenged in every later run; every later finalisation, challenge,
  status query and lookup of a batch waits for ever, and no later call of \<^verbatim>\<open>create_batch\<close> creates one: it waits too,
  unless it is refused before it asks for the batches.
\<close>

theorem accepted_challenge_stops_the_rollup:
  assumes "taken s = []" "ro_batches s i = Some b" "rb_status b = RB_Submitted" "clock 0 \<le> rb_deadline b"
    and "verify_fraud_proof keccak p b"
    and "s' = run (rollup_step keccak ser compress) cs (snd (challenge_state_root keccak clock i a p s))"
  shows "fst (challenge_state_root keccak clock i a p s) = Hang \<and>
    ro_batches s' = (ro_batches s)(i \<mapsto> b\<lparr>rb_status := RB_Challenged\<rparr>) \<and>
    fst (ro_finalize now j s') = Hang \<and> fst (challenge_state_root keccak clock' j a' p' s') = Hang \<and>
    fst (ro_get_batch_status j s') = Hang \<and> fst (ro_has_batch j s') = Hang \<and>
    fst (ro_create_batch keccak ser compress clock' [] s') \<noteq> Ok h \<and>
    verify_fraud_proof keccak \<lparr> fp_batch = rb_id b, fp_invalid_root = rb_root b, fp_correct_root = keccak [],
      fp_witness = [], fp_trace = [] \<rparr> b"
proof -
  have c: "challenge_state_root keccak clock i a p s = (Hang, s\<lparr>ro_challenges := (ro_challenges s)(i \<mapsto>
      \<lparr> ch_batch = i, ch_challenger = a, ch_bond = min_bond s, ch_proof = p, ch_status = Ch_Pending, ch_resolved = None \<rparr>),
      ro_batches := (ro_batches s)(i \<mapsto> b\<lparr>rb_status := RB_Challenged\<rparr>),
      taken := [(L_challenges, Write_Guard), (L_batches, Write_Guard)]\<rparr>)"
    using assms(1-5) by (simp add: challenge_state_root_def Let_def resolution_hangs ask_read_def ask_write_def can_read_def
      can_write_def not_less)
  let ?B = "(ro_batches s)(i \<mapsto> b\<lparr>rb_status := RB_Challenged\<rparr>)"
  have "frozen L_batches ro_batches ?B (snd (challenge_state_root keccak clock i a p s))"
    by (simp add: c frozen_def del: fun_upd_apply)
  from frozen_batches.inv_run [OF this run_ok_always] have "frozen L_batches ro_batches ?B s'"
    by (simp only: assms(6))
  then have s': "(L_batches, Write_Guard) \<in> set (taken s')" "ro_batches s' = ?B" by (simp_all add: frozen_def)
  have w: "fst (ask_write [] L_batches s' r) = Hang" for r :: "unit rollup_result"
    using can_write_own [OF s'(1)] by (simp add: ask_write_def)
  have r: "fst (ask_read [] L_batches s' r) = Hang" for r :: "'x rollup_result"
    using can_read_own [OF s'(1)] by (simp add: ask_read_def)
  have "fst (ro_finalize now j s') = Hang" unfolding ro_finalize_def by (rule w)
  moreover have "fst (challenge_state_root keccak clock' j a' p' s') = Hang" unfolding challenge_state_root_def by (rule r)
  moreover have "fst (ro_get_batch_status j s') = Hang" unfolding ro_get_batch_status_def by (rule r)
  moreover have "fst (ro_has_batch j s') = Hang" unfolding ro_has_batch_def by (rule r)
  moreover have "verify_fraud_proof keccak \<lparr> fp_batch = rb_id b, fp_invalid_root = rb_root b, fp_correct_root = keccak [],
      fp_witness = [], fp_trace = [] \<rparr> b"
    by (simp add: verify_fraud_proof_def verify_execution_trace_def)
  ultimately show ?thesis using c s'(2) create_blocked [OF s'(1)] by simp
qed

text \<open>
  The rollup never fills a batch by itself. A valid transaction that makes a full batch suspends its sender, because the
  batch is to be created under the guard of the pending transactions; in every later run nothing leaves or enters the
  pending transactions, no batch is created, and every later submission waits for ever.
\<close>

theorem full_batch_stops_the_rollup:
  assumes "taken s = []" "l2_valid tx" "ro_batch_size s \<le> length (ro_pending s) + 1"
    and "s' = run (rollup_step keccak ser compress) cs (snd (ro_submit keccak ser compress clock tx s))"
  shows "fst (ro_submit keccak ser compress clock tx s) = Hang \<and>
    ro_pending s' = ro_pending s @ [tx] \<and> next_batch s' = next_batch s \<and>
    fst (ro_create_batch keccak ser compress clock' [] s') = Hang \<and>
    (l2_valid tx' \<longrightarrow> fst (ro_submit keccak ser compress clock' tx' s') = Hang)"
proof -
  have c: "ro_submit keccak ser compress clock tx s =
      (Hang, s\<lparr>ro_pending := ro_pending s @ [tx], taken := [(L_pending, Write_Guard)]\<rparr>)"
    using assms(1-3) by (simp add: ro_submit_def Let_def submit_full_hangs ask_write_def can_write_def)
  have "frozen L_pending (\<lambda>s. (ro_pending s, next_batch s)) (ro_pending s @ [tx], next_batch s)
      (snd (ro_submit keccak ser compress clock tx s))"
    by (simp add: c frozen_def)
  from frozen_pending.inv_run [OF this run_ok_always]
  have "frozen L_pending (\<lambda>s. (ro_pending s, next_batch s)) (ro_pending s @ [tx], next_batch s) s'"
    by (simp only: assms(4))
  then have s': "(L_pending, Write_Guard) \<in> set (taken s')" "ro_pending s' = ro_pending s @ [tx]" "next_batch s' = next_batch s"
    by (simp_all add: frozen_def)
  have hang: "fst (ask_write [] L_pending s' r) = Hang" for r :: "h256 rollup_result"
    using can_write_own [OF s'(1)] by (simp add: ask_write_def)
  have "fst (ro_create_batch keccak ser compress clock' [] s') = Hang" unfolding ro_create_batch_def by (rule hang)
  moreover have "l2_valid tx' \<longrightarrow> fst (ro_submit keccak ser compress clock' tx' s') = Hang"
    by (simp add: ro_submit_def hang)
  ultimately show ?thesis using c s'(2,3) by simp
qed

section \<open>Examples\<close>

definition sample_l2 :: l2_tx where
  "sample_l2 = \<lparr> l2_id = 5, l2_from = 1, l2_to = 2, l2_value = 100, l2_data = [], l2_nonce = 0, l2_gas_price = 20, l2_gas_limit = 21000,
     l2_signature = [], l2_instant = False \<rparr>"

definition sample_rollup :: rollup where
  "sample_rollup = rollup_new 2 100 1000 (da_new \<lparr> da_storage_type = OnChain, compression_enabled = False,
     erasure_coding_enabled = False, replication_factor = 3 \<rparr>)"

definition sample_rb :: ro_batch where
  "sample_rb = \<lparr> rb_id = 1, rb_txs = [sample_l2], rb_root = 7, rb_prev_root = 0, rb_time = 10, rb_block = 1,
     rb_proposer = 0, rb_status = RB_Submitted, rb_deadline = 1210 \<rparr>"

lemmas evaluate_rollup =
  sample_rollup_def rollup_new_def da_new_def ro_submit_def ro_create_batch_def ask_write_def can_write_def
  Let_def l2_valid_def sample_l2_def sample_rb_def compute_state_root_def store_data_def stored_of_def

lemma sample_created:
  "\<exists>s. ro_create_batch (\<lambda>_. 7) (\<lambda>_. [1, 2, 3]) (\<lambda>_. Some) (\<lambda>_. 10) [] (sample_rollup\<lparr>ro_pending := [sample_l2]\<rparr>) = (Ok 1, s) \<and>
     ro_batches s 1 = Some sample_rb \<and> taken s = []"
  by (simp add: evaluate_rollup)

theorem no_batch_is_ever_invalid_witness:
  "rb_status sample_rb \<in> {RB_Submitted, RB_Challenged, RB_Finalized} \<and>
     recompute_state_root (\<lambda>_. 7) (rb_txs sample_rb) (rb_prev_root sample_rb) [] = rb_root sample_rb"
proof -
  let ?s = "run (rollup_step (\<lambda>_. 7) (\<lambda>_. [1, 2, 3]) (\<lambda>_. Some)) [R_Submit (\<lambda>_. 10) sample_l2, R_Create (\<lambda>_. 10)]
      (rollup_new 2 100 1000 (da_new \<lparr> da_storage_type = OnChain, compression_enabled = False,
        erasure_coding_enabled = False, replication_factor = 3 \<rparr>))"
  have "ro_batches ?s 1 = Some sample_rb" by (simp add: evaluate_rollup)
  from no_batch_is_ever_invalid [OF refl this] show ?thesis by blast
qed

theorem created_batch_is_available_witness:
  "\<exists>s. ro_create_batch (\<lambda>_. 7) (\<lambda>_. [1, 2, 3]) (\<lambda>_. Some) (\<lambda>_. 10) [] (sample_rollup\<lparr>ro_pending := [sample_l2]\<rparr>) = (Ok 1, s) \<and>
     retrieve_data Some 1 (ro_da s) = Ok [1, 2, 3]"
proof -
  obtain s where s: "ro_create_batch (\<lambda>_. 7) (\<lambda>_. [1, 2, 3]) (\<lambda>_. Some) (\<lambda>_. 10) [] (sample_rollup\<lparr>ro_pending := [sample_l2]\<rparr>)
      = (Ok 1, s)" using sample_created by blast
  have "da_wf (ro_da (sample_rollup\<lparr>ro_pending := [sample_l2]\<rparr>))" by (simp add: sample_rollup_def rollup_new_def da_wf_new)
  from created_batch_is_available [OF s this, of Some] s show ?thesis by auto
qed

text \<open>A proof with a trace of one step; afterwards a transaction is submitted and a batch is asked for.\<close>

definition sample_fraud :: fraud_proof where
  "sample_fraud = \<lparr> fp_batch = 1, fp_invalid_root = rb_root sample_rb, fp_correct_root = 7, fp_witness = [1],
     fp_trace = [\<lparr> es_pc = 0, es_opcode = 1, es_stack = [5], es_memory = [], es_storage = [] \<rparr>] \<rparr>"

theorem accepted_challenge_stops_the_rollup_witness:
  "\<exists>s. fst (challenge_state_root (\<lambda>_. 7) (\<lambda>_. 20) 1 3 sample_fraud s) = Hang \<and>
     (let s' = run (rollup_step (\<lambda>_. 7) (\<lambda>_. [1, 2, 3]) (\<lambda>_. Some)) [R_Submit (\<lambda>_. 30) sample_l2, R_Create (\<lambda>_. 30)]
       (snd (challenge_state_root (\<lambda>_. 7) (\<lambda>_. 20) 1 3 sample_fraud s))
      in fst (ro_finalize 2000 1 s') = Hang \<and> fst (ro_has_batch 1 s') = Hang)"
proof -
  obtain s :: rollup where s: "ro_batches s 1 = Some sample_rb" "taken s = []"
    using sample_created by blast
  have "rb_status sample_rb = RB_Submitted" "20 \<le> rb_deadline sample_rb" "verify_fraud_proof (\<lambda>_. 7) sample_fraud sample_rb"
    by (simp_all add: sample_rb_def sample_fraud_def verify_fraud_proof_def verify_execution_trace_def)
  from accepted_challenge_stops_the_rollup [OF s(2,1) this refl]
  show ?thesis unfolding Let_def by blast
qed

theorem full_batch_stops_the_rollup_witness:
  "fst (ro_submit (\<lambda>_. 7) (\<lambda>_. [1, 2, 3]) (\<lambda>_. Some) (\<lambda>_. 10) sample_l2 (sample_rollup\<lparr>ro_pending := [sample_l2]\<rparr>)) = Hang"
  using full_batch_stops_the_rollup [OF _ _ _ refl, of "sample_rollup\<lparr>ro_pending := [sample_l2]\<rparr>" sample_l2]
  by (simp add: sample_rollup_def rollup_new_def l2_valid_def sample_l2_def)

end
