(* ===== verification/Layer2.thy ===== *)
theory Layer2
  imports Rollup
begin

text \<open>
  The rest of layer 2: the rollup with validity proofs (\<^verbatim>\<open>src/layer2/zk_rollup.rs\<close>), state channels
  (\<^verbatim>\<open>src/layer2/state_channel.rs\<close>), and the manager that dispatches to them (\<^verbatim>\<open>src/layer2/mod.rs\<close>). Random identifiers and
  clocks are arguments.
\<close>

section \<open>The rollup with validity proofs\<close>

record zk_proof =
  pi_a :: "u8 list"
  pi_b :: "u8 list"
  pi_c :: "u8 list"
  public_inputs :: "u256 list"

record zk_batch =
  zb_id :: h256
  zb_txs :: "l2_tx list"
  zb_root :: h256
  zb_proof :: "zk_proof option"
  zb_status :: rollup_state
  zb_time :: u64

text \<open>\<open>zk_held\<close>: the write guard of the pending transactions, held by a suspended call.\<close>

record zk_rollup =
  zk_batch_size :: nat
  zk_pending :: "l2_tx list"
  zk_batches :: "h256 \<rightharpoonup> zk_batch"
  zk_held :: bool

definition zk_new :: "nat \<Rightarrow> zk_rollup" where
  "zk_new n = \<lparr> zk_batch_size = n, zk_pending = [], zk_batches = Map.empty, zk_held = False \<rparr>"

definition zk_state_root :: "(u8 list \<Rightarrow> h256) \<Rightarrow> l2_tx list \<Rightarrow> h256" where
  "zk_state_root keccak txs = keccak (concat (map (\<lambda>tx. be_bytes 32 (l2_id tx)) txs))"

definition generate_proof :: "l2_tx list \<Rightarrow> h256 \<Rightarrow> zk_proof" where
  "generate_proof txs root = \<lparr> pi_a = replicate 32 0, pi_b = replicate 64 0, pi_c = replicate 32 0, public_inputs = [0] \<rparr>"

definition zk_verify_proof :: "zk_proof \<Rightarrow> h256 \<Rightarrow> bool" where
  "zk_verify_proof p root = True"

text \<open>\<open>own\<close>: the caller holds the guard of the pending transactions.\<close>

definition zk_create_batch ::
  "(u8 list \<Rightarrow> h256) \<Rightarrow> h256 \<Rightarrow> u64 \<Rightarrow> bool \<Rightarrow> zk_rollup \<Rightarrow> (l2_error, h256) outcome \<times> zk_rollup" where
  "zk_create_batch keccak i now own s =
     (if own \<or> zk_held s then (Hang, s\<lparr>zk_held := True\<rparr>)
      else let txs = zk_pending s; root = zk_state_root keccak txs;
               b = \<lparr> zb_id = i, zb_txs = txs, zb_root = root, zb_proof = Some (generate_proof txs root),
                     zb_status = RB_Submitted, zb_time = now \<rparr>
           in (Ok i, s\<lparr>zk_pending := [], zk_batches := (zk_batches s)(i \<mapsto> b)\<rparr>))"

definition zk_submit ::
  "(u8 list \<Rightarrow> h256) \<Rightarrow> h256 \<Rightarrow> u64 \<Rightarrow> l2_tx \<Rightarrow> zk_rollup \<Rightarrow> (l2_error, h256) outcome \<times> zk_rollup" where
  "zk_submit keccak i now tx s =
     (if zk_held s then (Hang, s)
      else let s1 = s\<lparr>zk_pending := zk_pending s @ [tx]\<rparr> in
           if zk_batch_size s \<le> length (zk_pending s1)
           then and_then (zk_create_batch keccak i now True s1) (\<lambda>_ s. (Ok (l2_id tx), s))
           else (Ok (l2_id tx), s1))"

definition zk_finalize :: "h256 \<Rightarrow> zk_rollup \<Rightarrow> (l2_error, unit) outcome \<times> zk_rollup" where
  "zk_finalize i s =
     (case zk_batches s i of
        None \<Rightarrow> (Err BatchNotFound, s)
      | Some b \<Rightarrow>
          if (case zb_proof b of None \<Rightarrow> False | Some p \<Rightarrow> \<not> zk_verify_proof p (zb_root b)) then (Err InvalidProof, s)
          else (Ok (), s\<lparr>zk_batches := (zk_batches s)(i \<mapsto> b\<lparr>zb_status := RB_Finalized\<rparr>)\<rparr>))"

definition zk_get_batch_status :: "h256 \<Rightarrow> zk_rollup \<Rightarrow> batch_status_report option" where
  "zk_get_batch_status i s =
     map_option (\<lambda>b. \<lparr> bs_id = zb_id b, bs_state = zb_status b, bs_count = length (zb_txs b), bs_root = zb_root b,
       bs_time = zb_time b, bs_proposer = 0, bs_finalized = (zb_status b = RB_Finalized) \<rparr>) (zk_batches s i)"

definition zk_has_batch :: "h256 \<Rightarrow> zk_rollup \<Rightarrow> bool" where
  "zk_has_batch i s \<longleftrightarrow> zk_batches s i \<noteq> None"

section \<open>State channels\<close>

record channel_state =
  ch_balances :: "u256 list"
  ch_state_nonce :: u64
  ch_merkle_root :: h256

record state_channel =
  channel_id :: h256
  channel_participants :: "address list"
  channel_state_of :: channel_state
  channel_nonce :: u64
  channel_signatures :: "u8 list list"

definition channel_new :: "h256 \<Rightarrow> address list \<Rightarrow> channel_state \<Rightarrow> state_channel" where
  "channel_new i ps st = \<lparr> channel_id = i, channel_participants = ps, channel_state_of = st, channel_nonce = 0,
     channel_signatures = [] \<rparr>"

definition update_state :: "channel_state \<Rightarrow> u8 list list \<Rightarrow> state_channel \<Rightarrow> bool \<times> state_channel" where
  "update_state st sigs c =
     (if length sigs \<noteq> length (channel_participants c) then (False, c)
      else (True, c\<lparr>channel_state_of := st, channel_nonce := channel_nonce c + 1, channel_signatures := sigs\<rparr>))"

definition channel_finalize :: "state_channel \<Rightarrow> channel_state" where
  "channel_finalize c = channel_state_of c"

section \<open>The manager\<close>

datatype rollup_type = Optimistic_rollup | Zk_rollup | Hybrid_rollup

record layer2_manager =
  l2_type :: rollup_type
  l2_optimistic :: "rollup option"
  l2_zk :: "zk_rollup option"
  l2_channels :: "state_channel list"

definition manager_new :: "rollup_type \<Rightarrow> nat \<Rightarrow> u64 \<Rightarrow> u256 \<Rightarrow> da_config \<Rightarrow> layer2_manager" where
  "manager_new t n period bond c =
     \<lparr> l2_type = t,
       l2_optimistic = (if t = Optimistic_rollup \<or> t = Hybrid_rollup then Some (rollup_new n period bond (da_new c)) else None),
       l2_zk = (if t = Zk_rollup \<or> t = Hybrid_rollup then Some (zk_new n) else None), l2_channels = [] \<rparr>"

definition on_optimistic ::
  "(rollup \<Rightarrow> (l2_error, 'a) outcome \<times> rollup) \<Rightarrow> layer2_manager \<Rightarrow> (l2_error, 'a) outcome \<times> layer2_manager" where
  "on_optimistic f m =
     (case l2_optimistic m of
        None \<Rightarrow> (Err RollupNotInitialized, m)
      | Some r \<Rightarrow> (case f r of (x, r) \<Rightarrow> (x, m\<lparr>l2_optimistic := Some r\<rparr>)))"

definition on_zk ::
  "(zk_rollup \<Rightarrow> (l2_error, 'a) outcome \<times> zk_rollup) \<Rightarrow> layer2_manager \<Rightarrow> (l2_error, 'a) outcome \<times> layer2_manager" where
  "on_zk f m =
     (case l2_zk m of
        None \<Rightarrow> (Err RollupNotInitialized, m)
      | Some z \<Rightarrow> (case f z of (x, z) \<Rightarrow> (x, m\<lparr>l2_zk := Some z\<rparr>)))"

definition manager_submit ::
  "(u8 list \<Rightarrow> h256) \<Rightarrow> (ro_batch \<Rightarrow> u8 list) \<Rightarrow> (nat \<Rightarrow> u8 list \<Rightarrow> u8 list option) \<Rightarrow> (nat \<Rightarrow> u64) \<Rightarrow> h256 \<Rightarrow> l2_tx
     \<Rightarrow> layer2_manager \<Rightarrow> (l2_error, h256) outcome \<times> layer2_manager" where
  "manager_submit keccak ser compress clock i tx m =
     (if l2_type m = Optimistic_rollup \<or> (l2_type m = Hybrid_rollup \<and> \<not> l2_instant tx)
      then on_optimistic (ro_submit keccak ser compress clock tx) m
      else on_zk (zk_submit keccak i (clock 0) tx) m)"

definition create_state_channel ::
  "h256 \<Rightarrow> address list \<Rightarrow> channel_state \<Rightarrow> layer2_manager \<Rightarrow> (l2_error, h256) outcome \<times> layer2_manager" where
  "create_state_channel i ps st m = (Ok i, m\<lparr>l2_channels := l2_channels m @ [channel_new i ps st]\<rparr>)"

definition manager_batch_status ::
  "h256 \<Rightarrow> layer2_manager \<Rightarrow> (l2_error, batch_status_report option) outcome \<times> layer2_manager" where
  "manager_batch_status i m =
     (if l2_optimistic m \<noteq> None then on_optimistic (ro_get_batch_status i) m
      else (Ok (case l2_zk m of None \<Rightarrow> None | Some z \<Rightarrow> zk_get_batch_status i z), m))"

definition manager_challenge ::
  "(u8 list \<Rightarrow> h256) \<Rightarrow> (nat \<Rightarrow> u64) \<Rightarrow> h256 \<Rightarrow> address \<Rightarrow> fraud_proof \<Rightarrow> layer2_manager
     \<Rightarrow> (l2_error, unit) outcome \<times> layer2_manager" where
  "manager_challenge keccak clock i a p m = on_optimistic (challenge_state_root keccak clock i a p) m"

definition manager_finalize :: "u64 \<Rightarrow> h256 \<Rightarrow> layer2_manager \<Rightarrow> (l2_error, unit) outcome \<times> layer2_manager" where
  "manager_finalize now i m =
     (case l2_type m of
        Optimistic_rollup \<Rightarrow> on_optimistic (ro_finalize now i) m
      | Zk_rollup \<Rightarrow> on_zk (zk_finalize i) m
      | Hybrid_rollup \<Rightarrow>
          and_then (if l2_optimistic m \<noteq> None then on_optimistic (ro_has_batch i) m else (Ok False, m)) (\<lambda>found m.
            if found then on_optimistic (ro_finalize now i) m
            else if l2_zk m \<noteq> None then on_zk (zk_finalize i) m
            else (Ok (), m)))"

section \<open>The manager in use\<close>

datatype manager_call =
    M_Submit "nat \<Rightarrow> u64" h256 l2_tx
  | M_Challenge "nat \<Rightarrow> u64" h256 address fraud_proof
  | M_Finalize u64 h256
  | M_Channel h256 "address list" channel_state

fun manager_step ::
  "(u8 list \<Rightarrow> h256) \<Rightarrow> (ro_batch \<Rightarrow> u8 list) \<Rightarrow> (nat \<Rightarrow> u8 list \<Rightarrow> u8 list option) \<Rightarrow> manager_call
     \<Rightarrow> layer2_manager \<Rightarrow> layer2_manager" where
  "manager_step keccak ser compress (M_Submit clock i tx) m = snd (manager_submit keccak ser compress clock i tx m)"
| "manager_step keccak ser compress (M_Challenge clock i a p) m = snd (manager_challenge keccak clock i a p m)"
| "manager_step keccak ser compress (M_Finalize now i) m = snd (manager_finalize now i m)"
| "manager_step keccak ser compress (M_Channel i ps st) m = snd (create_state_channel i ps st m)"

text \<open>Nothing the manager offers creates a batch: the rollups create them on submission only, where they wait.\<close>

definition no_batches :: "layer2_manager \<Rightarrow> bool" where
  "no_batches m \<longleftrightarrow> (\<forall>r. l2_optimistic m = Some r \<longrightarrow> ro_batches r = Map.empty) \<and>
     (\<forall>z. l2_zk m = Some z \<longrightarrow> zk_batches z = Map.empty) \<and> (l2_type m \<noteq> Optimistic_rollup \<longrightarrow> l2_zk m \<noteq> None)"

lemma create_under_own_guard:
  "ro_create_batch keccak ser compress clock [(L_pending, Write_Guard)] s = (Hang, s\<lparr>taken := [(L_pending, Write_Guard)] @ taken s\<rparr>)"
  by (simp add: ro_create_batch_def ask_write_def can_write_def)

lemma ro_submit_batches: "ro_batches (snd (ro_submit keccak ser compress clock tx s)) = ro_batches s"
  by (simp add: ro_submit_def ask_write_def Let_def create_under_own_guard)

lemma zk_submit_batches: "zk_batches (snd (zk_submit keccak i now tx s)) = zk_batches s"
  by (simp add: zk_submit_def zk_create_batch_def Let_def)

lemma empty_rollup:
  "ro_batches s = Map.empty \<Longrightarrow> ro_batches (snd (ro_finalize now i s)) = Map.empty"
  "ro_batches s = Map.empty \<Longrightarrow> ro_batches (snd (challenge_state_root keccak clock i a p s)) = Map.empty"
  "ro_batches (snd (ro_has_batch i s)) = ro_batches s"
  by (simp_all add: ro_finalize_def challenge_state_root_def ro_has_batch_def ask_write_def ask_read_def)

lemma no_batches_optimistic:
  "no_batches m \<Longrightarrow> (\<And>r. ro_batches r = Map.empty \<Longrightarrow> ro_batches (snd (f r)) = Map.empty) \<Longrightarrow> no_batches (snd (on_optimistic f m))"
  by (auto simp: no_batches_def on_optimistic_def case_prod_beta split: option.split)

lemma no_batches_zk:
  "no_batches m \<Longrightarrow> (\<And>z. zk_batches z = Map.empty \<Longrightarrow> zk_batches (snd (f z)) = Map.empty) \<Longrightarrow> no_batches (snd (on_zk f m))"
  by (auto simp: no_batches_def on_zk_def case_prod_beta split: option.split)

lemma zk_finalize_empty: "zk_batches z = Map.empty \<Longrightarrow> zk_finalize i z = (Err BatchNotFound, z)"
  by (simp add: zk_finalize_def)

lemma no_batches_finalize: "no_batches m \<Longrightarrow> no_batches (snd (on_optimistic (ro_finalize now i) m))"
  "no_batches m \<Longrightarrow> no_batches (snd (on_zk (zk_finalize i) m))"
  "no_batches m \<Longrightarrow> no_batches (snd (on_optimistic (ro_has_batch i) m))"
  by (rule no_batches_optimistic no_batches_zk; simp add: empty_rollup zk_finalize_empty)+

lemma no_batches_step: "no_batches m \<Longrightarrow> no_batches (manager_step keccak ser compress c m)"
proof (induction c)
  case (M_Submit clock i tx)
  then show ?case
    by (auto simp: manager_submit_def ro_submit_batches zk_submit_batches intro: no_batches_optimistic no_batches_zk)
next
  case (M_Challenge clock i a p)
  then show ?case by (auto simp: manager_challenge_def empty_rollup intro: no_batches_optimistic)
next
  case (M_Finalize now i)
  obtain x m1 where h: "(if l2_optimistic m \<noteq> None then on_optimistic (ro_has_batch i) m else (Ok False, m)) = (x, m1)"
    by fastforce
  have "no_batches m1"
    using no_batches_finalize(3) [OF M_Finalize, of i] h M_Finalize by (auto split: if_splits)
  with M_Finalize h show ?case
    by (cases x; cases "l2_type m") (simp_all add: manager_finalize_def no_batches_finalize)
next
  case (M_Channel i ps st)
  then show ?case by (simp add: create_state_channel_def no_batches_def)
qed

lemma finalize_finds_nothing:
  assumes "no_batches m"
  shows "fst (manager_finalize now i m) \<noteq> Ok ()"
proof -
  have opt: "fst (on_optimistic (ro_finalize now i) m) \<noteq> Ok ()" if "no_batches m" for m
    using that by (simp add: no_batches_def on_optimistic_def ro_finalize_def ask_write_def split: option.split)
  have zk: "fst (on_zk (zk_finalize i) m) \<noteq> Ok ()" if "no_batches m" for m
    using that by (auto simp: no_batches_def on_zk_def zk_finalize_empty split: option.split)
  obtain x m1 where h: "(if l2_optimistic m \<noteq> None then on_optimistic (ro_has_batch i) m else (Ok False, m)) = (x, m1)"
    by fastforce
  have inv: "no_batches m1"
    using no_batches_finalize(3) [OF assms, of i] h assms by (auto split: if_splits)
  have "l2_zk m1 = l2_zk m" using h by (auto simp: on_optimistic_def split: if_splits option.splits prod.splits)
  with h assms opt zk inv show ?thesis
    by (cases x; cases "l2_type m") (auto simp: manager_finalize_def no_batches_def)
qed

interpretation manager: invariant_of "manager_step keccak ser compress" "\<lambda>_ _. True" no_batches for keccak ser compress
  by unfold_locales (rule no_batches_step)

text \<open>
  Layer 2 never has a batch. In every run of the manager, whichever rollup it is configured for, no submitted transaction
  ever gets into a batch, and no call finalises one.
\<close>

theorem layer2_never_has_a_batch:
  assumes "m = run (manager_step keccak ser compress) cs (manager_new t n period bond c)"
  shows "(\<forall>r. l2_optimistic m = Some r \<longrightarrow> ro_batches r = Map.empty) \<and>
    (\<forall>z. l2_zk m = Some z \<longrightarrow> zk_batches z = Map.empty) \<and>
    fst (manager_finalize now i m) \<noteq> Ok ()"
proof -
  have "no_batches (manager_new t n period bond c)"
    by (cases t) (simp_all add: no_batches_def manager_new_def rollup_new_def zk_new_def)
  then have inv: "no_batches m" unfolding assms by (rule manager.inv_run [OF _ run_ok_always])
  with finalize_finds_nothing [OF inv] show ?thesis by (simp add: no_batches_def)
qed

text \<open>
  A state channel checks the number of signatures and nothing else: any state, older ones included, replaces the current
  one when as many byte strings come with it as there are participants; otherwise nothing changes.
\<close>

lemma channel_takes_any_state:
  "fst (update_state st sigs c) \<longleftrightarrow> length sigs = length (channel_participants c)"
  "length sigs \<noteq> length (channel_participants c) \<Longrightarrow> update_state st sigs c = (False, c)"
  "length sigs = length (channel_participants c) \<Longrightarrow> length sigs' = length sigs \<Longrightarrow>
     channel_finalize (snd (update_state (channel_finalize c) sigs' (snd (update_state st sigs c)))) = channel_finalize c"
  by (simp_all add: update_state_def channel_finalize_def)

section \<open>Example\<close>

theorem layer2_never_has_a_batch_witness:
  "\<exists>z. l2_zk (run (manager_step (\<lambda>_. 7) (\<lambda>_. []) (\<lambda>_. Some)) [M_Finalize 3 4]
     (manager_new Zk_rollup 2 100 1000 \<lparr> da_storage_type = OnChain, compression_enabled = False,
        erasure_coding_enabled = False, replication_factor = 3 \<rparr>)) = Some z \<and> zk_batches z = Map.empty"
proof -
  let ?m = "run (manager_step (\<lambda>_. 7) (\<lambda>_. []) (\<lambda>_. Some)) [M_Finalize 3 4]
     (manager_new Zk_rollup 2 100 1000 \<lparr> da_storage_type = OnChain, compression_enabled = False,
        erasure_coding_enabled = False, replication_factor = 3 \<rparr>)"
  have "l2_zk ?m \<noteq> None"
    by (simp add: manager_new_def manager_finalize_def on_zk_def zk_new_def zk_finalize_def)
  with layer2_never_has_a_batch [OF refl, of "\<lambda>_. 7" "\<lambda>_. []" "\<lambda>_. Some" "[M_Finalize 3 4]"] show ?thesis by blast
qed

end
