(* ===== verification/Bridge.thy ===== *)
theory Bridge
  imports TxBytes
begin

text \<open>
  The asset bridge of \<^verbatim>\<open>src/cross_chain/bridge.rs\<close> with the errors and the configuration of \<^verbatim>\<open>src/cross_chain/mod.rs\<close>: locks,
  unlocks, mints and the liquidity they leave. Keccak, the clock and random identifiers are arguments; the fee in basis
  points stands for the floating-point percentage it is computed from.
\<close>

section \<open>State\<close>

datatype cross_error =
    ChainNotSupported
  | Invalid_Proof
  | TransferNotFound
  | TransferNotVerified
  | AmountTooLow
  | AmountTooHigh
  | RelayerError string
  | BridgeError string
  | LightClientError string

record token_info =
  ti_symbol :: string
  ti_decimals :: u8
  ti_addresses :: "u64 \<rightharpoonup> h256"

record bridge_config =
  escrow_address :: address
  fee_basis_points :: u64
  min_transfer_amount :: u256
  max_transfer_amount :: u256
  supported_tokens :: "token_info list"

record locked_asset =
  la_chain :: u64
  la_token :: h256
  la_owner :: "u8 list"
  la_amount :: u256
  lock_time :: u64
  unlock_time :: "u64 option"

record minted_asset =
  ma_chain :: u64
  ma_token :: h256
  ma_recipient :: "u8 list"
  ma_amount :: u256
  mint_time :: u64
  source_tx :: h256

record bridge_pool =
  bp_token :: h256
  total_liquidity :: u256
  available_liquidity :: u256
  pending_withdrawals :: u256

record bridge =
  br_config :: bridge_config
  locked_assets :: "(h256 \<times> locked_asset) list"
  minted_assets :: "(h256 \<times> minted_asset) list"
  token_mappings :: "(u64 \<times> h256) \<rightharpoonup> h256"
  bridge_pools :: "h256 \<rightharpoonup> bridge_pool"

definition bridge_new :: "bridge_config \<Rightarrow> bridge" where
  "bridge_new c = \<lparr> br_config = c, locked_assets = [], minted_assets = [], token_mappings = Map.empty,
     bridge_pools = Map.empty \<rparr>"

type_synonym 'a bridge_result = "(cross_error, 'a) outcome \<times> bridge"

section \<open>Liquidity\<close>

definition bridge_pool_new :: "h256 \<Rightarrow> bridge_pool" where
  "bridge_pool_new token = \<lparr> bp_token = token, total_liquidity = 0, available_liquidity = 0, pending_withdrawals = 0 \<rparr>"

definition pool_of :: "h256 \<Rightarrow> bridge \<Rightarrow> bridge_pool" where
  "pool_of token s = (case bridge_pools s token of None \<Rightarrow> bridge_pool_new token | Some p \<Rightarrow> p)"

definition put_pool :: "h256 \<Rightarrow> bridge_pool \<Rightarrow> bridge \<Rightarrow> bridge" where
  "put_pool token p s = s\<lparr>bridge_pools := (bridge_pools s)(token \<mapsto> p)\<rparr>"

text \<open>A total that overflows panics before it is stored, an available amount that overflows after the total was.\<close>

definition update_liquidity_pool :: "h256 \<Rightarrow> u256 \<Rightarrow> bool \<Rightarrow> bridge \<Rightarrow> unit bridge_result" where
  "update_liquidity_pool token amount is_lock s =
     (let p = pool_of token s in
      if is_lock then
        or_panic (put_pool token p s) (uadd (total_liquidity p) amount) (\<lambda>t.
          let p1 = p\<lparr>total_liquidity := t\<rparr>
          in or_panic (put_pool token p1 s) (uadd (available_liquidity p1) amount) (\<lambda>a.
               (Ok (), put_pool token (p1\<lparr>available_liquidity := a\<rparr>) s)))
      else if available_liquidity p < amount
      then (Err (BridgeError ''Insufficient liquidity''), put_pool token p s)
      else (Ok (), put_pool token (p\<lparr>available_liquidity := available_liquidity p - amount\<rparr>) s))"

section \<open>Locking\<close>

definition lock_id_bytes :: "u8 list \<Rightarrow> h256 \<Rightarrow> u256 \<Rightarrow> u64 \<Rightarrow> u8 list" where
  "lock_id_bytes owner token amount now = owner @ be_bytes 32 token @ le_bytes 32 amount @ le_bytes 8 now"

definition generate_lock_id :: "(u8 list \<Rightarrow> h256) \<Rightarrow> u64 \<Rightarrow> u8 list \<Rightarrow> h256 \<Rightarrow> u256 \<Rightarrow> h256" where
  "generate_lock_id keccak now owner token amount = keccak (lock_id_bytes owner token amount now)"

text \<open>The clock is read for the identifier and for the time of the lock.\<close>

definition lock_tokens ::
  "(u8 list \<Rightarrow> h256) \<Rightarrow> u64 \<Rightarrow> u64 \<Rightarrow> u64 \<Rightarrow> u8 list \<Rightarrow> h256 \<Rightarrow> u256 \<Rightarrow> bridge \<Rightarrow> h256 bridge_result" where
  "lock_tokens keccak t0 t1 chain owner token amount s =
     (if amount < min_transfer_amount (br_config s) then (Err AmountTooLow, s)
      else if max_transfer_amount (br_config s) < amount then (Err AmountTooHigh, s)
      else
        let i = generate_lock_id keccak t0 owner token amount;
            a = \<lparr> la_chain = chain, la_token = token, la_owner = owner, la_amount = amount, lock_time = t1, unlock_time = None \<rparr>
        in and_then (update_liquidity_pool token amount True (s\<lparr>locked_assets := AList.update i a (locked_assets s)\<rparr>))
             (\<lambda>_ s. (Ok i, s)))"

text \<open>The lock counts as released before the liquidity is checked.\<close>

definition unlock_tokens :: "u64 \<Rightarrow> h256 \<Rightarrow> bridge \<Rightarrow> unit bridge_result" where
  "unlock_tokens now i s =
     (case map_of (locked_assets s) i of
        None \<Rightarrow> (Err (BridgeError ''Lock not found''), s)
      | Some a \<Rightarrow>
          if unlock_time a \<noteq> None then (Err (BridgeError ''Already unlocked''), s)
          else update_liquidity_pool (la_token a) (la_amount a) False
                 (s\<lparr>locked_assets := AList.update i (a\<lparr>unlock_time := Some now\<rparr>) (locked_assets s)\<rparr>))"

section \<open>Minting\<close>

definition wrapped_bytes :: "u64 \<Rightarrow> h256 \<Rightarrow> u8 list" where
  "wrapped_bytes chain token = string_bytes ''WRAPPED_TOKEN'' @ le_bytes 8 chain @ be_bytes 32 token"

definition derive_wrapped_token_address :: "(u8 list \<Rightarrow> h256) \<Rightarrow> u64 \<Rightarrow> h256 \<Rightarrow> h256" where
  "derive_wrapped_token_address keccak chain token = keccak (wrapped_bytes chain token)"

definition get_wrapped_token :: "(u8 list \<Rightarrow> h256) \<Rightarrow> u64 \<Rightarrow> h256 \<Rightarrow> bridge \<Rightarrow> h256" where
  "get_wrapped_token keccak chain token s =
     (case token_mappings s (chain, token) of
        Some t \<Rightarrow> t | None \<Rightarrow> derive_wrapped_token_address keccak chain token)"

definition mint_tokens ::
  "(u8 list \<Rightarrow> h256) \<Rightarrow> h256 \<Rightarrow> u64 \<Rightarrow> u64 \<Rightarrow> u8 list \<Rightarrow> h256 \<Rightarrow> u256 \<Rightarrow> bridge \<Rightarrow> h256 bridge_result" where
  "mint_tokens keccak i now chain recipient token amount s =
     (let m = \<lparr> ma_chain = chain, ma_token = get_wrapped_token keccak chain token s, ma_recipient = recipient,
                ma_amount = amount, mint_time = now, source_tx = i \<rparr>
      in (Ok i, s\<lparr>minted_assets := AList.update i m (minted_assets s)\<rparr>))"

text \<open>Burning returns a random identifier and does nothing.\<close>

definition burn_tokens :: "h256 \<Rightarrow> u64 \<Rightarrow> u8 list \<Rightarrow> h256 \<Rightarrow> u256 \<Rightarrow> bridge \<Rightarrow> h256 bridge_result" where
  "burn_tokens i chain owner token amount s = (Ok i, s)"

definition add_token_mapping :: "u64 \<Rightarrow> h256 \<Rightarrow> u64 \<Rightarrow> h256 \<Rightarrow> bridge \<Rightarrow> bridge" where
  "add_token_mapping c t c' t' s = s\<lparr>token_mappings := (token_mappings s)((c, t) \<mapsto> t', (c', t') \<mapsto> t)\<rparr>"

section \<open>Amounts\<close>

definition open_lock :: "h256 \<Rightarrow> locked_asset \<Rightarrow> bool" where
  "open_lock token a \<longleftrightarrow> la_token a = token \<and> unlock_time a = None"

definition get_locked_amount :: "h256 \<Rightarrow> bridge \<Rightarrow> (cross_error, u256) outcome" where
  "get_locked_amount token s =
     (case sum_checked 0 (map (\<lambda>(i, a). la_amount a) (filter (\<lambda>(i, a). open_lock token a) (locked_assets s))) of
        None \<Rightarrow> Panic | Some v \<Rightarrow> Ok v)"

definition get_minted_amount :: "h256 \<Rightarrow> bridge \<Rightarrow> (cross_error, u256) outcome" where
  "get_minted_amount token s =
     (case sum_checked 0 (map (\<lambda>(i, m). ma_amount m) (filter (\<lambda>(i, m). ma_token m = token) (minted_assets s))) of
        None \<Rightarrow> Panic | Some v \<Rightarrow> Ok v)"

definition calculate_fee :: "u256 \<Rightarrow> bridge \<Rightarrow> (cross_error, u256) outcome" where
  "calculate_fee amount s =
     (case umul amount (ucast (fee_basis_points (br_config s))) of None \<Rightarrow> Panic | Some v \<Rightarrow> Ok (v div 10000))"

section \<open>Runs\<close>

datatype bridge_call =
    Lock u64 u64 u64 "u8 list" h256 u256
  | Unlock u64 h256
  | Mint h256 u64 u64 "u8 list" h256 u256
  | Burn h256 u64 "u8 list" h256 u256
  | Map_token u64 h256 u64 h256

fun bridge_step :: "(u8 list \<Rightarrow> h256) \<Rightarrow> bridge_call \<Rightarrow> bridge \<Rightarrow> bridge" where
  "bridge_step keccak (Lock t0 t1 chain owner token amount) s = snd (lock_tokens keccak t0 t1 chain owner token amount s)"
| "bridge_step keccak (Unlock now i) s = snd (unlock_tokens now i s)"
| "bridge_step keccak (Mint i now chain recipient token amount) s = snd (mint_tokens keccak i now chain recipient token amount s)"
| "bridge_step keccak (Burn i chain owner token amount) s = snd (burn_tokens i chain owner token amount s)"
| "bridge_step keccak (Map_token c t c' t') s = add_token_mapping c t c' t' s"

end
