(* ===== verification/Ibc.thy ===== *)
theory Ibc
  imports Bridge
begin

text \<open>
  The packet handler of \<^verbatim>\<open>src/cross_chain/ibc.rs\<close>: channels and their states, packets sent, received and acknowledged.
  Keccak and the clocks (in nanoseconds for identifiers, in seconds for timeouts) are arguments. The checks of proofs are
  the constants the code returns.
\<close>

section \<open>State\<close>

datatype ibc_state = Channel_Init | Channel_TryOpen | Channel_Open | Channel_Closed

datatype channel_order = Ordered_channel | Unordered_channel

record ibc_channel =
  ic_id :: string
  ic_port :: string
  ic_counterparty :: string
  ic_counterparty_port :: string
  ic_connection :: string
  ic_state :: ibc_state
  ic_version :: string
  ic_ordering :: channel_order

record ibc_packet =
  pk_sequence :: u64
  pk_source_port :: string
  pk_source_channel :: string
  pk_destination_port :: string
  pk_destination_channel :: string
  pk_data :: "u8 list"
  pk_timeout_height :: u64
  pk_timeout_time :: u64

record ibc =
  ibc_channels :: "string \<rightharpoonup> ibc_channel"
  packet_commitments :: "(string \<times> u64) \<rightharpoonup> h256"
  packet_receipts :: "(string \<times> u64) \<rightharpoonup> bool"
  packet_acks :: "(string \<times> u64) \<rightharpoonup> u8 list"
  next_sequence :: "string \<rightharpoonup> u64"

definition ibc_new :: ibc where
  "ibc_new = \<lparr> ibc_channels = Map.empty, packet_commitments = Map.empty, packet_receipts = Map.empty,
     packet_acks = Map.empty, next_sequence = Map.empty \<rparr>"

type_synonym 'a ibc_result = "(cross_error, 'a) outcome \<times> ibc"

section \<open>Channels\<close>

definition create_channel :: "u64 \<Rightarrow> string \<Rightarrow> string \<Rightarrow> string \<Rightarrow> channel_order \<Rightarrow> ibc \<Rightarrow> string ibc_result" where
  "create_channel nanos port connection version order s =
     (let i = ''channel-'' @ show_nat (unat nanos)
      in (Ok i, s\<lparr>ibc_channels := (ibc_channels s)(i \<mapsto> \<lparr> ic_id = i, ic_port = port, ic_counterparty = [],
           ic_counterparty_port = [], ic_connection = connection, ic_state = Channel_Init, ic_version = version,
           ic_ordering = order \<rparr>)\<rparr>))"

definition put_channel :: "string \<Rightarrow> ibc_channel \<Rightarrow> ibc \<Rightarrow> ibc" where
  "put_channel i c s = s\<lparr>ibc_channels := (ibc_channels s)(i \<mapsto> c)\<rparr>"

definition with_channel :: "string \<Rightarrow> ibc \<Rightarrow> (ibc_channel \<Rightarrow> 'a ibc_result) \<Rightarrow> 'a ibc_result" where
  "with_channel i s f =
     (case ibc_channels s i of None \<Rightarrow> (Err (LightClientError ''Channel not found''), s) | Some c \<Rightarrow> f c)"

definition channel_open_try :: "string \<Rightarrow> string \<Rightarrow> string \<Rightarrow> ibc \<Rightarrow> unit ibc_result" where
  "channel_open_try i counterparty port s = with_channel i s (\<lambda>c.
     if ic_state c \<noteq> Channel_Init then (Err (LightClientError ''Invalid channel state''), s)
     else (Ok (), put_channel i (c\<lparr>ic_counterparty := counterparty, ic_counterparty_port := port,
            ic_state := Channel_TryOpen\<rparr>) s))"

definition channel_open_confirm :: "string \<Rightarrow> ibc \<Rightarrow> unit ibc_result" where
  "channel_open_confirm i s = with_channel i s (\<lambda>c.
     if ic_state c \<noteq> Channel_TryOpen then (Err (LightClientError ''Invalid channel state''), s)
     else (Ok (), put_channel i (c\<lparr>ic_state := Channel_Open\<rparr>) s))"

definition close_channel :: "string \<Rightarrow> ibc \<Rightarrow> unit ibc_result" where
  "close_channel i s = with_channel i s (\<lambda>c. (Ok (), put_channel i (c\<lparr>ic_state := Channel_Closed\<rparr>) s))"

definition get_channel :: "string \<Rightarrow> ibc \<Rightarrow> ibc_channel option" where
  "get_channel i s = ibc_channels s i"

section \<open>Packets\<close>

definition packet_bytes :: "ibc_packet \<Rightarrow> u8 list" where
  "packet_bytes p = le_bytes 8 (pk_sequence p) @ string_bytes (pk_source_port p) @ string_bytes (pk_source_channel p)
     @ string_bytes (pk_destination_port p) @ string_bytes (pk_destination_channel p) @ pk_data p
     @ le_bytes 8 (pk_timeout_height p) @ le_bytes 8 (pk_timeout_time p)"

definition compute_packet_commitment :: "(u8 list \<Rightarrow> h256) \<Rightarrow> ibc_packet \<Rightarrow> h256" where
  "compute_packet_commitment keccak p = keccak (packet_bytes p)"

definition send_packet ::
  "(u8 list \<Rightarrow> h256) \<Rightarrow> u64 \<Rightarrow> string \<Rightarrow> string \<Rightarrow> u8 list \<Rightarrow> u64 \<Rightarrow> ibc \<Rightarrow> u64 ibc_result" where
  "send_packet keccak now i port data timeout s = with_channel i s (\<lambda>c.
     if ic_state c \<noteq> Channel_Open then (Err (LightClientError ''Channel not open''), s)
     else
       let n = (case next_sequence s i of None \<Rightarrow> 1 | Some n \<Rightarrow> n);
           p = \<lparr> pk_sequence = n, pk_source_port = port, pk_source_channel = i, pk_destination_port = ic_counterparty_port c,
                 pk_destination_channel = ic_counterparty c, pk_data = data, pk_timeout_height = timeout,
                 pk_timeout_time = now + 3600 \<rparr>
       in (Ok n, s\<lparr>next_sequence := (next_sequence s)(i \<mapsto> n + 1),
                  packet_commitments := (packet_commitments s)((i, n) \<mapsto> compute_packet_commitment keccak p)\<rparr>))"

definition verify_packet_commitment :: "ibc_packet \<Rightarrow> u8 list \<Rightarrow> bool" where
  "verify_packet_commitment p bs = True"

definition process_packet_data :: "u8 list \<Rightarrow> u8 list" where
  "process_packet_data data = [1]"

text \<open>Neither the receipts nor the timeout nor the order of the sequence numbers are looked at.\<close>

definition receive_packet :: "ibc_packet \<Rightarrow> u8 list \<Rightarrow> ibc \<Rightarrow> u8 list ibc_result" where
  "receive_packet p bs s = with_channel (pk_destination_channel p) s (\<lambda>c.
     if ic_state c \<noteq> Channel_Open then (Err (LightClientError ''Channel not open''), s)
     else if \<not> verify_packet_commitment p bs then (Err Invalid_Proof, s)
     else
       let key = (pk_destination_channel p, pk_sequence p); ack = process_packet_data (pk_data p)
       in (Ok ack, s\<lparr>packet_receipts := (packet_receipts s)(key \<mapsto> True), packet_acks := (packet_acks s)(key \<mapsto> ack)\<rparr>))"

definition verify_acknowledgement :: "string \<Rightarrow> u64 \<Rightarrow> u8 list \<Rightarrow> u8 list \<Rightarrow> bool" where
  "verify_acknowledgement i n ack bs = True"

definition acknowledge_packet :: "string \<Rightarrow> u64 \<Rightarrow> u8 list \<Rightarrow> u8 list \<Rightarrow> ibc \<Rightarrow> unit ibc_result" where
  "acknowledge_packet i n ack bs s = with_channel i s (\<lambda>_.
     if \<not> verify_acknowledgement i n ack bs then (Err Invalid_Proof, s)
     else (Ok (), s\<lparr>packet_commitments := (packet_commitments s)((i, n) := None)\<rparr>))"

section \<open>Runs\<close>

datatype ibc_call =
    Create u64 string string string channel_order
  | Open_try string string string
  | Open_confirm string
  | Close string
  | Send u64 string string "u8 list" u64
  | Receive ibc_packet "u8 list"
  | Acknowledge string u64 "u8 list" "u8 list"

fun ibc_step :: "(u8 list \<Rightarrow> h256) \<Rightarrow> ibc_call \<Rightarrow> ibc \<Rightarrow> ibc" where
  "ibc_step keccak (Create nanos port connection version order) s = snd (create_channel nanos port connection version order s)"
| "ibc_step keccak (Open_try i c p) s = snd (channel_open_try i c p s)"
| "ibc_step keccak (Open_confirm i) s = snd (channel_open_confirm i s)"
| "ibc_step keccak (Close i) s = snd (close_channel i s)"
| "ibc_step keccak (Send now i port data timeout) s = snd (send_packet keccak now i port data timeout s)"
| "ibc_step keccak (Receive p bs) s = snd (receive_packet p bs s)"
| "ibc_step keccak (Acknowledge i n ack bs) s = snd (acknowledge_packet i n ack bs s)"

section \<open>Commitments and sequence numbers\<close>

lemma with_channel_split:
  "P (with_channel i s f) \<longleftrightarrow>
     (ibc_channels s i = None \<longrightarrow> P (Err (LightClientError ''Channel not found''), s)) \<and>
     (\<forall>c. ibc_channels s i = Some c \<longrightarrow> P (f c))"
  by (auto simp: with_channel_def split: option.split)

lemmas ibc_call_defs = create_channel_def channel_open_try_def channel_open_confirm_def close_channel_def send_packet_def
  receive_packet_def acknowledge_packet_def put_channel_def

text \<open>The packets a channel has sent.\<close>

definition sent_on :: "string \<Rightarrow> ibc \<Rightarrow> u64" where
  "sent_on i s = (case next_sequence s i of None \<Rightarrow> 1 | Some n \<Rightarrow> n) - 1"

definition sequence_inv :: "ibc \<Rightarrow> bool" where
  "sequence_inv s \<longleftrightarrow>
     (\<forall>i n. packet_commitments s (i, n) \<noteq> None \<longrightarrow> 0 < n \<and> n \<le> sent_on i s) \<and>
     (\<forall>i. next_sequence s i \<noteq> Some 0)"

text \<open>The environment sends less than \<open>2 ^ 64 - 1\<close> packets on a channel.\<close>

fun sequence_room :: "ibc_call \<Rightarrow> ibc \<Rightarrow> bool" where
  "sequence_room (Send now i port data timeout) s \<longleftrightarrow> unat (sent_on i s) + 2 < 2 ^ 64"
| "sequence_room c s \<longleftrightarrow> True"

lemma sequence_inv_send:
  assumes "sequence_inv s" "unat (sent_on i s) + 2 < 2 ^ 64"
  shows "sequence_inv (snd (send_packet keccak now i port data timeout s))"
proof (cases "\<exists>c. ibc_channels s i = Some c \<and> ic_state c = Channel_Open")
  case False
  then have "snd (send_packet keccak now i port data timeout s) = s"
    by (auto simp: send_packet_def with_channel_def split: option.split)
  with assms(1) show ?thesis by simp
next
  case True
  let ?n = "sent_on i s + 1" and ?s = "snd (send_packet keccak now i port data timeout s)"
  obtain h where s: "?s = s\<lparr>next_sequence := (next_sequence s)(i \<mapsto> ?n + 1), packet_commitments := (packet_commitments s)((i, ?n) \<mapsto> h)\<rparr>"
    using True by (auto simp: send_packet_def with_channel_def sent_on_def Let_def split: option.split)
  have n: "unat ?n = unat (sent_on i s) + 1" "unat (?n + 1) = unat (sent_on i s) + 2"
    using assms(2) by (simp_all add: unat_word_ariths)
  then have "?n + 1 \<noteq> 0" "0 < ?n" by (auto simp: word_less_nat_alt simp flip: unat_eq_0)
  moreover have "m \<le> ?n" if "m \<le> sent_on i s" for m using that n by (simp add: word_le_nat_alt)
  ultimately show ?thesis
    using assms(1) unfolding s sequence_inv_def by (auto simp: sent_on_def)
qed

lemma sequence_inv_step:
  assumes "sequence_inv s" "sequence_room c s"
  shows "sequence_inv (ibc_step keccak c s)"
proof (cases c)
  case (Send now i port data timeout)
  with assms show ?thesis by (simp add: sequence_inv_send)
qed (use assms in \<open>auto simp: ibc_call_defs sequence_inv_def sent_on_def Let_def split: with_channel_split if_splits\<close>)

interpretation sequences: invariant_of "ibc_step keccak" sequence_room sequence_inv
  by unfold_locales (rule sequence_inv_step)

lemma sequence_inv_new: "sequence_inv ibc_new"
  by (simp add: sequence_inv_def ibc_new_def)

text \<open>
  On a handler in use (less than \<open>2 ^ 64 - 2\<close> packets per channel), a packet that is sent gets the next sequence number
  of its channel, its commitment overwrites none that waits for an acknowledgement, and every other commitment stays.
\<close>

theorem sent_packets_are_numbered:
  assumes "s = run (ibc_step keccak) cs ibc_new"
    and "run_ok sequence_room (ibc_step keccak) (cs @ [Send now i port data timeout]) ibc_new"
    and "send_packet keccak now i port data timeout s = (Ok n, s')"
  shows "n = sent_on i s + 1 \<and> sent_on i s' = n \<and> packet_commitments s (i, n) = None \<and>
    packet_commitments s' (i, n) \<noteq> None \<and> (\<forall>k. k \<noteq> (i, n) \<longrightarrow> packet_commitments s' k = packet_commitments s k)"
proof -
  have inv: "sequence_inv s" and room: "unat (sent_on i s) + 2 < 2 ^ 64"
    using assms(1,2) sequences.inv_run [OF sequence_inv_new, of keccak cs] by (auto simp: run_ok_append)
  have n: "n = sent_on i s + 1" and s': "s' = s\<lparr>next_sequence := (next_sequence s)(i \<mapsto> n + 1), packet_commitments := packet_commitments s'\<rparr>"
    and k: "packet_commitments s' (i, n) \<noteq> None" "\<forall>k. k \<noteq> (i, n) \<longrightarrow> packet_commitments s' k = packet_commitments s k"
    using assms(3) by (auto simp: send_packet_def with_channel_def sent_on_def Let_def split: option.splits if_splits)
  have "\<not> n \<le> sent_on i s"
    using room by (simp add: n word_le_nat_alt unat_word_ariths)
  with inv have "packet_commitments s (i, n) = None" unfolding sequence_inv_def by blast
  moreover have "sent_on i s' = n" by (subst s') (simp add: sent_on_def)
  ultimately show ?thesis using n k by blast
qed

section \<open>Channels that were closed\<close>

definition closed_at :: "string \<Rightarrow> ibc \<Rightarrow> bool" where
  "closed_at i s \<longleftrightarrow> map_option ic_state (ibc_channels s i) = Some Channel_Closed"

fun not_created :: "string \<Rightarrow> ibc_call \<Rightarrow> bool" where
  "not_created i (Create nanos port connection version order) \<longleftrightarrow> ''channel-'' @ show_nat (unat nanos) \<noteq> i"
| "not_created i _ \<longleftrightarrow> True"

lemma closed_step: "closed_at i s \<Longrightarrow> not_created i c \<Longrightarrow> closed_at i (ibc_step keccak c s)"
  by (cases c) (auto simp: ibc_call_defs closed_at_def Let_def split: with_channel_split if_splits)

interpretation closed: invariant_of "ibc_step keccak" "\<lambda>c s. not_created i c" "closed_at i"
  by unfold_locales (rule closed_step)

lemma run_ok_list_all: "list_all P cs \<Longrightarrow> run_ok (\<lambda>c s. P c) step cs s"
  by (induction cs arbitrary: s) auto

lemma closed_refuses:
  assumes "closed_at i s"
  shows "send_packet keccak now i port data timeout s = (Err (LightClientError ''Channel not open''), s)"
    and "pk_destination_channel p = i \<Longrightarrow> receive_packet p bs s = (Err (LightClientError ''Channel not open''), s)"
  using assms by (auto simp: closed_at_def send_packet_def receive_packet_def with_channel_def)

text \<open>
  A closed channel stays closed, whatever is called (short of creating a channel of the same identifier), and every
  packet to it or from it is refused with the state as it was.
\<close>

theorem closed_channels_stay_closed:
  assumes "close_channel i s0 = (Ok (), s1)" and "list_all (not_created i) cs" and "s = run (ibc_step keccak) cs s1"
  shows "closed_at i s \<and>
    send_packet keccak now i port data timeout s = (Err (LightClientError ''Channel not open''), s) \<and>
    (pk_destination_channel p = i \<longrightarrow> receive_packet p bs s = (Err (LightClientError ''Channel not open''), s))"
proof -
  have "closed_at i s1"
    using assms(1) by (auto simp: close_channel_def with_channel_def put_channel_def closed_at_def split: option.splits)
  then have "closed_at i s"
    unfolding assms(3) by (rule closed.inv_run) (rule run_ok_list_all [OF assms(2)])
  then show ?thesis by (simp add: closed_refuses)
qed

section \<open>What is not checked\<close>

text \<open>
  A packet that was accepted is accepted again, with the same acknowledgement: the receipts are written and never read.
\<close>

theorem replayed_packets_are_accepted:
  assumes "receive_packet p bs s = (Ok ack, s')"
  shows "receive_packet p bs' s' = (Ok ack, s')"
  using assms by (auto simp: receive_packet_def with_channel_def verify_packet_commitment_def process_packet_data_def Let_def
      split: option.splits if_splits)

text \<open>
  The commitment of a packet does not tell its port from its channel: letters moved from one to the other leave it as
  it is.
\<close>

theorem commitments_join_port_and_channel:
  "compute_packet_commitment keccak (p\<lparr>pk_source_port := a @ b, pk_source_channel := c\<rparr>) =
   compute_packet_commitment keccak (p\<lparr>pk_source_port := a, pk_source_channel := b @ c\<rparr>)"
  by (simp add: compute_packet_commitment_def packet_bytes_def string_bytes_def)

section \<open>Examples\<close>

definition sample_channel :: ibc_channel where
  "sample_channel = \<lparr> ic_id = ''channel-1'', ic_port = ''transfer'', ic_counterparty = ''channel-2'',
     ic_counterparty_port = ''transfer'', ic_connection = ''connection-0'', ic_state = Channel_Open, ic_version = ''ics20-1'',
     ic_ordering = Unordered_channel \<rparr>"

definition sample_ibc :: ibc where
  "sample_ibc = put_channel ''channel-1'' sample_channel ibc_new"

definition sample_packet :: ibc_packet where
  "sample_packet = \<lparr> pk_sequence = 1, pk_source_port = ''transfer'', pk_source_channel = ''channel-2'',
     pk_destination_port = ''transfer'', pk_destination_channel = ''channel-1'', pk_data = [1, 2, 3], pk_timeout_height = 10,
     pk_timeout_time = 20 \<rparr>"

definition handshake :: "ibc_call list" where
  "handshake = [Create 1 ''transfer'' ''connection-0'' ''ics20-1'' Unordered_channel, Open_try ''channel-1'' ''channel-2'' ''transfer'',
     Open_confirm ''channel-1'']"

lemma run_handshake: "run (ibc_step keccak) handshake ibc_new = sample_ibc"
  proof -
  have "show_nat (unat (1 :: u64)) = ''1''" by code_simp
  then show ?thesis
    by (simp add: handshake_def sample_ibc_def sample_channel_def ibc_new_def ibc_call_defs with_channel_def Let_def)
qed

lemmas sample_ibc_defs = sample_ibc_def sample_channel_def put_channel_def ibc_new_def with_channel_def sent_on_def

theorem sent_packets_are_numbered_witness:
  "fst (send_packet (\<lambda>_. 0) 5 ''channel-1'' ''transfer'' [1] 9 sample_ibc) = Ok 1 \<and>
   packet_commitments sample_ibc (''channel-1'', 1) = None"
proof -
  obtain s' where s': "send_packet (\<lambda>_. 0) 5 ''channel-1'' ''transfer'' [1] 9 sample_ibc = (Ok 1, s')"
    by (simp add: send_packet_def sample_ibc_defs Let_def)
  have ok: "run_ok sequence_room (ibc_step (\<lambda>_. 0)) (handshake @ [Send 5 ''channel-1'' ''transfer'' [1] 9]) ibc_new"
    unfolding run_ok_append run_handshake by (simp add: handshake_def) (simp add: sample_ibc_defs)
  from sent_packets_are_numbered [OF run_handshake [of "\<lambda>_. 0", symmetric] ok s'] s' show ?thesis by simp
qed

theorem closed_channels_stay_closed_witness:
  "closed_at ''channel-1'' (run (ibc_step (\<lambda>_. 0)) [Open_confirm ''channel-1''] (snd (close_channel ''channel-1'' sample_ibc)))"
proof -
  have c: "close_channel ''channel-1'' sample_ibc = (Ok (), snd (close_channel ''channel-1'' sample_ibc))"
    by (simp add: close_channel_def sample_ibc_defs)
  from closed_channels_stay_closed [OF c, of "[Open_confirm ''channel-1'']", OF _ refl] show ?thesis by simp
qed

theorem replayed_packets_are_accepted_witness:
  "fst (receive_packet sample_packet [] (snd (receive_packet sample_packet [] sample_ibc))) = Ok [1]"
proof -
  have r: "receive_packet sample_packet [] sample_ibc = (Ok [1], snd (receive_packet sample_packet [] sample_ibc))"
    by (simp add: receive_packet_def sample_packet_def sample_ibc_defs verify_packet_commitment_def process_packet_data_def Let_def)
  show ?thesis using replayed_packets_are_accepted [OF r, of "[]"] by simp
qed

end
