(* ===== verification/BridgeProps.thy ===== *)
theory BridgeProps
  imports Bridge
begin

text \<open>
  The bridge: the liquidity of a token is what its open locks hold as long as lock identifiers do not collide, unlocking
  succeeds exactly once, and what happens when two locks collide.
\<close>

section \<open>Sums over the locks\<close>

definition open_value :: "h256 \<Rightarrow> locked_asset \<Rightarrow> nat" where
  "open_value token a = (if open_lock token a then unat (la_amount a) else 0)"

definition open_total :: "h256 \<Rightarrow> (h256 \<times> locked_asset) list \<Rightarrow> nat" where
  "open_total token m = (\<Sum>(i, a) \<leftarrow> m. open_value token a)"

lemma open_total_simps [simp]:
  "open_total token [] = 0"
  "open_total token ((i, a) # m) = open_value token a + open_total token m"
  by (simp_all add: open_total_def)

lemma open_total_update:
  "open_total token (AList.update i a m) + (case map_of m i of None \<Rightarrow> 0 | Some b \<Rightarrow> open_value token b)
    = open_total token m + open_value token a"
  by (induction m) auto

lemma open_value_le: "map_of m i = Some a \<Longrightarrow> open_value token a \<le> open_total token m"
  by (induction m) (auto split: if_splits)

lemma locked_amount:
  assumes "open_total token (locked_assets s) = unat v"
  shows "get_locked_amount token s = Ok v"
proof -
  have "sum_list (map unat (map (\<lambda>(i, a). la_amount a) (filter (\<lambda>(i, a). open_lock token a) m))) = open_total token m" for m
    by (induction m) (auto simp: open_value_def)
  then have "sum_checked 0 (map (\<lambda>(i, a). la_amount a) (filter (\<lambda>(i, a). open_lock token a) (locked_assets s))) = Some v"
    unfolding sum_checked_Some using assms by simp
  then show ?thesis by (simp add: get_locked_amount_def)
qed

section \<open>The invariant\<close>

lemma put_pool_simps [simp]:
  "pool_of t (put_pool token p s) = (if t = token then p else pool_of t s)"
  "locked_assets (put_pool token p s) = locked_assets s" "minted_assets (put_pool token p s) = minted_assets s"
  by (simp_all add: pool_of_def put_pool_def)

lemma pool_of_frame: "bridge_pools s' = bridge_pools s \<Longrightarrow> pool_of t s' = pool_of t s"
  by (simp add: pool_of_def)

text \<open>\<open>covered\<close> is kept by all calls that do not panic, \<open>balanced\<close> by those whose lock identifier is fresh as well.\<close>

definition covered :: "bridge \<Rightarrow> bool" where
  "covered s \<longleftrightarrow> (\<forall>t. open_total t (locked_assets s) \<le> unat (available_liquidity (pool_of t s)) \<and>
     available_liquidity (pool_of t s) \<le> total_liquidity (pool_of t s))"

definition balanced :: "bridge \<Rightarrow> bool" where
  "balanced s \<longleftrightarrow> covered s \<and> (\<forall>t. open_total t (locked_assets s) = unat (available_liquidity (pool_of t s)))"

fun no_panic :: "(u8 list \<Rightarrow> h256) \<Rightarrow> bridge_call \<Rightarrow> bridge \<Rightarrow> bool" where
  "no_panic keccak (Lock t0 t1 chain owner token amount) s \<longleftrightarrow> fst (lock_tokens keccak t0 t1 chain owner token amount s) \<noteq> Panic"
| "no_panic keccak c s \<longleftrightarrow> True"

fun fresh_lock :: "(u8 list \<Rightarrow> h256) \<Rightarrow> bridge_call \<Rightarrow> bridge \<Rightarrow> bool" where
  "fresh_lock keccak (Lock t0 t1 chain owner token amount) s \<longleftrightarrow>
     map_of (locked_assets s) (generate_lock_id keccak t0 owner token amount) = None"
| "fresh_lock keccak c s \<longleftrightarrow> True"

lemma lock_tokens_cases:
  assumes "lock_tokens keccak t0 t1 chain owner token amount s = (r, s')" "r \<noteq> Panic"
  obtains "s' = s" "\<not> is_ok r"
  | a t where "r = Ok (generate_lock_id keccak t0 owner token amount)"
      "la_token a = token" "la_amount a = amount" "unlock_time a = None"
      "locked_assets s' = AList.update (generate_lock_id keccak t0 owner token amount) a (locked_assets s)"
      "\<And>u. pool_of u s' = (if u = token then (pool_of token s)\<lparr>total_liquidity := t,
          available_liquidity := available_liquidity (pool_of token s) + amount\<rparr> else pool_of u s)"
      "unat t = unat (total_liquidity (pool_of token s)) + unat amount"
      "unat (available_liquidity (pool_of token s) + amount) = unat (available_liquidity (pool_of token s)) + unat amount"
proof -
  let ?i = "generate_lock_id keccak t0 owner token amount"
  let ?a = "\<lparr> la_chain = chain, la_token = token, la_owner = owner, la_amount = amount, lock_time = t1, unlock_time = None \<rparr>"
  let ?s = "s\<lparr>locked_assets := AList.update ?i ?a (locked_assets s)\<rparr>"
  show thesis
  proof (cases "amount < min_transfer_amount (br_config s) \<or> max_transfer_amount (br_config s) < amount")
    case True
    with assms(1) show thesis by (intro that(1)) (auto simp: lock_tokens_def split: if_splits)
  next
    case False
    then have l: "and_then (update_liquidity_pool token amount True ?s) (\<lambda>_ s. (Ok ?i, s)) = (r, s')"
      using assms(1) by (simp add: lock_tokens_def Let_def)
    have p: "pool_of u ?s = pool_of u s" for u by (rule pool_of_frame) simp
    obtain t v where t: "uadd (total_liquidity (pool_of token s)) amount = Some t"
      and v: "uadd (available_liquidity (pool_of token s)) amount = Some v"
      using l assms(2) by (auto simp: update_liquidity_pool_def Let_def p or_panic_def split: option.splits)
    have v': "v = available_liquidity (pool_of token s) + amount" using v by (auto simp: uadd_def split: if_splits)
    have "(r, s') = (Ok ?i, put_pool token ((pool_of token s)\<lparr>total_liquidity := t, available_liquidity := v\<rparr>) ?s)"
      using l t v by (simp add: update_liquidity_pool_def Let_def p)
    then show thesis
      using t v v' p by (intro that(2) [of ?a t]) (auto simp: checked_ops)
  qed
qed

lemma unlock_tokens_cases:
  assumes "unlock_tokens now i s = (r, s')" "covered s"
  obtains "s' = s" "\<not> is_ok r" "\<And>a. map_of (locked_assets s) i = Some a \<Longrightarrow> unlock_time a \<noteq> None"
  | a where "r = Ok ()" "map_of (locked_assets s) i = Some a" "unlock_time a = None"
      "locked_assets s' = AList.update i (a\<lparr>unlock_time := Some now\<rparr>) (locked_assets s)"
      "\<And>u. pool_of u s' = (if u = la_token a then (pool_of u s)\<lparr>available_liquidity :=
          available_liquidity (pool_of u s) - la_amount a\<rparr> else pool_of u s)"
      "la_amount a \<le> available_liquidity (pool_of (la_token a) s)"
proof (cases "\<exists>a. map_of (locked_assets s) i = Some a \<and> unlock_time a = None")
  case False
  with assms(1) show thesis by (intro that(1)) (auto simp: unlock_tokens_def split: option.splits if_splits)
next
  case True
  then obtain a where a: "map_of (locked_assets s) i = Some a" "unlock_time a = None" by auto
  let ?s = "s\<lparr>locked_assets := AList.update i (a\<lparr>unlock_time := Some now\<rparr>) (locked_assets s)\<rparr>"
  have p: "pool_of u ?s = pool_of u s" for u by (rule pool_of_frame) simp
  have "unat (la_amount a) \<le> open_total (la_token a) (locked_assets s)"
    using open_value_le [OF a(1), of "la_token a"] a(2) by (simp add: open_value_def open_lock_def)
  also have "\<dots> \<le> unat (available_liquidity (pool_of (la_token a) s))" using assms(2) by (simp add: covered_def)
  finally have le: "la_amount a \<le> available_liquidity (pool_of (la_token a) s)" by (simp add: word_le_nat_alt)
  then have "(r, s') = (Ok (), put_pool (la_token a) ((pool_of (la_token a) s)\<lparr>available_liquidity :=
      available_liquidity (pool_of (la_token a) s) - la_amount a\<rparr>) ?s)"
    using assms(1) a by (simp add: unlock_tokens_def update_liquidity_pool_def Let_def p leD [OF le])
  with a le p show thesis by (intro that(2) [of a]) auto
qed

lemma covered_lock:
  assumes "covered s" "lock_tokens keccak t0 t1 chain owner token amount s = (r, s')" "r \<noteq> Panic"
  shows "covered s'"
  using assms(2,3)
proof (cases rule: lock_tokens_cases)
  case 1
  with assms(1) show ?thesis by simp
next
  case (2 a t)
  show ?thesis
    unfolding covered_def
  proof
    fix u
    have "open_total u (locked_assets s') \<le> open_total u (locked_assets s) + open_value u a"
      unfolding 2(5) using open_total_update [of u _ a "locked_assets s"] by (metis le_add1)
    moreover have "open_value u a = (if u = token then unat amount else 0)"
      using 2(2-4) by (simp add: open_value_def open_lock_def)
    moreover have "open_total u (locked_assets s) \<le> unat (available_liquidity (pool_of u s))"
      "unat (available_liquidity (pool_of u s)) \<le> unat (total_liquidity (pool_of u s))"
      using assms(1) by (auto simp: covered_def word_le_nat_alt)
    ultimately show "open_total u (locked_assets s') \<le> unat (available_liquidity (pool_of u s')) \<and>
        available_liquidity (pool_of u s') \<le> total_liquidity (pool_of u s')"
      using 2(6) [of u] 2(7,8) by (cases "u = token") (simp_all add: word_le_nat_alt)
  qed
qed

lemma covered_unlock:
  assumes "covered s" "unlock_tokens now i s = (r, s')"
  shows "covered s' \<and> (balanced s \<longrightarrow> balanced s')"
  using assms(2,1)
proof (cases rule: unlock_tokens_cases)
  case 1
  with assms(1) show ?thesis by simp
next
  case (2 a)
  have "open_total u (locked_assets s') + open_value u a = open_total u (locked_assets s)" for u
    using open_total_update [of u i "a\<lparr>unlock_time := Some now\<rparr>" "locked_assets s"] 2(2,4)
    by (simp add: open_value_def open_lock_def)
  moreover have "open_value u a = (if u = la_token a then unat (la_amount a) else 0)" for u
    using 2(3) by (simp add: open_value_def open_lock_def)
  moreover have "unat (available_liquidity (pool_of (la_token a) s) - la_amount a)
      = unat (available_liquidity (pool_of (la_token a) s)) - unat (la_amount a)"
    using 2(6) by (simp add: unat_sub)
  ultimately have "open_total u (locked_assets s') + (if u = la_token a then unat (la_amount a) else 0)
      = open_total u (locked_assets s)"
    "unat (available_liquidity (pool_of u s')) = unat (available_liquidity (pool_of u s))
      - (if u = la_token a then unat (la_amount a) else 0)"
    "total_liquidity (pool_of u s') = total_liquidity (pool_of u s)" for u
    using 2(5) [of u] by simp_all
  note new = this
  have "open_total u (locked_assets s') \<le> unat (available_liquidity (pool_of u s')) \<and>
      unat (available_liquidity (pool_of u s')) \<le> unat (total_liquidity (pool_of u s')) \<and>
      (balanced s \<longrightarrow> open_total u (locked_assets s') = unat (available_liquidity (pool_of u s')))" for u
    using new [of u] assms(1) [unfolded covered_def word_le_nat_alt, rule_format, of u]
    by (auto simp: balanced_def dest: spec [of _ u] split: if_splits)
  then show ?thesis by (auto simp: covered_def balanced_def word_le_nat_alt)
qed

lemma balanced_lock:
  assumes "balanced s" "lock_tokens keccak t0 t1 chain owner token amount s = (r, s')" "r \<noteq> Panic"
    and "map_of (locked_assets s) (generate_lock_id keccak t0 owner token amount) = None"
  shows "balanced s'"
proof -
  have cov: "covered s'" using assms(1-3) by (auto simp: balanced_def intro: covered_lock)
  show ?thesis
    using assms(2,3)
  proof (cases rule: lock_tokens_cases)
    case 1
    with assms(1) show ?thesis by simp
  next
    case (2 a t)
    have "open_total u (locked_assets s') = open_total u (locked_assets s) + open_value u a" for u
      unfolding 2(5) using open_total_update [of u _ a "locked_assets s"] assms(4) by (metis add.right_neutral option.case(1))
    moreover have "open_value u a = (if u = token then unat amount else 0)" for u
      using 2(2-4) by (simp add: open_value_def open_lock_def)
    ultimately have "open_total u (locked_assets s') = unat (available_liquidity (pool_of u s'))" for u
      using assms(1) 2(6) [of u] 2(8) by (simp add: balanced_def)
    with cov show ?thesis by (simp add: balanced_def)
  qed
qed

lemma other_calls:
  "pool_of u (bridge_step keccak (Mint i now chain recipient token amount) s) = pool_of u s"
  "locked_assets (bridge_step keccak (Mint i now chain recipient token amount) s) = locked_assets s"
  "pool_of u (bridge_step keccak (Burn i chain owner token amount) s) = pool_of u s"
  "locked_assets (bridge_step keccak (Burn i chain owner token amount) s) = locked_assets s"
  "pool_of u (bridge_step keccak (Map_token c t c' t') s) = pool_of u s"
  "locked_assets (bridge_step keccak (Map_token c t c' t') s) = locked_assets s"
  by (simp_all add: mint_tokens_def burn_tokens_def add_token_mapping_def pool_of_def Let_def)

lemma covered_step: "covered s \<Longrightarrow> no_panic keccak c s \<Longrightarrow> covered (bridge_step keccak c s)"
proof (cases c)
  case (Lock t0 t1 chain owner token amount)
  assume "covered s" "no_panic keccak c s"
  with Lock show ?thesis
    by (cases "lock_tokens keccak t0 t1 chain owner token amount s") (auto intro: covered_lock)
next
  case (Unlock now i)
  assume "covered s"
  with Unlock covered_unlock show ?thesis by (cases "unlock_tokens now i s") auto
qed (simp_all add: covered_def other_calls del: bridge_step.simps)

lemma balanced_step:
  "balanced s \<Longrightarrow> no_panic keccak c s \<and> fresh_lock keccak c s \<Longrightarrow> balanced (bridge_step keccak c s)"
proof (cases c)
  case (Lock t0 t1 chain owner token amount)
  assume "balanced s" "no_panic keccak c s \<and> fresh_lock keccak c s"
  with Lock show ?thesis
    by (cases "lock_tokens keccak t0 t1 chain owner token amount s") (auto intro: balanced_lock)
next
  case (Unlock now i)
  assume "balanced s"
  moreover from this have "covered s" by (simp add: balanced_def)
  ultimately show ?thesis using Unlock covered_unlock [of s now i] by (cases "unlock_tokens now i s") auto
qed (simp_all add: balanced_def covered_def other_calls del: bridge_step.simps)

lemma balanced_new: "balanced (bridge_new c)" "covered (bridge_new c)"
  by (simp_all add: balanced_def covered_def bridge_new_def pool_of_def bridge_pool_new_def)

interpretation solvent: invariant_of "bridge_step keccak" "no_panic keccak" covered
  by unfold_locales (rule covered_step)

interpretation balance_of_locks: invariant_of "bridge_step keccak" "\<lambda>c s. no_panic keccak c s \<and> fresh_lock keccak c s" balanced
  by unfold_locales (rule balanced_step)

section \<open>Properties\<close>

text \<open>
  In every run without a panicking lock every open lock is covered by the available liquidity of its token: it is
  unlocked when it is asked for, which takes its amount out of the liquidity, and a second time it is refused.
\<close>

theorem open_locks_can_be_unlocked:
  assumes "run_ok (no_panic keccak) (bridge_step keccak) cs (bridge_new c)" "s = run (bridge_step keccak) cs (bridge_new c)"
    and "map_of (locked_assets s) i = Some a" "unlock_time a = None"
  shows "\<exists>s'. unlock_tokens now i s = (Ok (), s') \<and>
    unat (available_liquidity (pool_of (la_token a) s')) + unat (la_amount a)
      = unat (available_liquidity (pool_of (la_token a) s)) \<and>
    unlock_tokens now' i s' = (Err (BridgeError ''Already unlocked''), s')"
proof -
  have s: "covered s" unfolding assms(2) by (rule solvent.inv_run [OF balanced_new(2) assms(1)])
  obtain r s' where u: "unlock_tokens now i s = (r, s')" by fastforce
  from u s show ?thesis
  proof (cases rule: unlock_tokens_cases)
    case 1
    with assms(3,4) show ?thesis by blast
  next
    case (2 b)
    then have "b = a" using assms(3) by simp
    with 2 u show ?thesis
      by (simp add: unlock_tokens_def update_conv' unat_sub) (simp add: word_le_nat_alt)
  qed
qed

text \<open>
  In every run whose locks have fresh identifiers the reported locked amount of a token is its available liquidity.
\<close>

theorem locked_amount_is_the_liquidity:
  assumes "run_ok (\<lambda>c s. no_panic keccak c s \<and> fresh_lock keccak c s) (bridge_step keccak) cs (bridge_new c)"
    and "s = run (bridge_step keccak) cs (bridge_new c)"
  shows "get_locked_amount token s = Ok (available_liquidity (pool_of token s))"
proof -
  have "balanced s" unfolding assms(2) by (rule balance_of_locks.inv_run [OF balanced_new(1) assms(1)])
  then show ?thesis by (intro locked_amount) (simp add: balanced_def)
qed

text \<open>
  The identifier of a lock depends on owner, token, amount and second only. Locking the same amount twice in one second
  yields one identifier: the second lock replaces the first, the liquidity counts both, and only one amount is ever
  unlocked.
\<close>

theorem equal_locks_of_a_second_collide:
  assumes "run_ok (\<lambda>c s. no_panic keccak c s \<and> fresh_lock keccak c s) (bridge_step keccak) cs (bridge_new c)"
    and "s = run (bridge_step keccak) cs (bridge_new c)"
    and "map_of (locked_assets s) (generate_lock_id keccak t0 owner token amount) = None"
    and "lock_tokens keccak t0 t1 chain owner token amount s = (Ok i, s1)"
    and "lock_tokens keccak t0 t2 chain owner token amount s1 = (Ok j, s2)"
    and "unlock_tokens now i s2 = (r, s3)"
  shows "i = j \<and> r = Ok () \<and>
    unat (available_liquidity (pool_of token s3)) = open_total token (locked_assets s3) + unat amount \<and>
    fst (unlock_tokens now' j s3) = Err (BridgeError ''Already unlocked'')"
proof -
  have s: "balanced s" unfolding assms(2) by (rule balance_of_locks.inv_run [OF balanced_new(1) assms(1)])
  have s1: "balanced s1" by (rule balanced_lock [OF s assms(4) _ assms(3)]) simp
  have s2: "covered s2" using s1 assms(5) by (auto simp: balanced_def intro: covered_lock)
  let ?i = "generate_lock_id keccak t0 owner token amount"
  obtain a where a: "i = ?i" "la_token a = token" "la_amount a = amount" "unlock_time a = None"
    "locked_assets s1 = AList.update ?i a (locked_assets s)"
    using assms(4) by (cases rule: lock_tokens_cases) auto
  obtain b t where b: "j = ?i" "la_token b = token" "la_amount b = amount" "unlock_time b = None"
    "locked_assets s2 = AList.update ?i b (locked_assets s1)"
    "\<And>u. pool_of u s2 = (if u = token then (pool_of token s1)\<lparr>total_liquidity := t,
       available_liquidity := available_liquidity (pool_of token s1) + amount\<rparr> else pool_of u s1)"
    "unat (available_liquidity (pool_of token s1) + amount) = unat (available_liquidity (pool_of token s1)) + unat amount"
    using assms(5) by (cases rule: lock_tokens_cases) auto
  have v: "open_value token a = unat amount" "open_value token b = unat amount"
    using a b by (simp_all add: open_value_def open_lock_def)
  have m: "map_of (locked_assets s1) ?i = Some a" "map_of (locked_assets s2) ?i = Some b"
    by (simp_all add: a(5) b(5) update_conv')
  have "open_total token (locked_assets s2) = open_total token (locked_assets s1)"
    using open_total_update [of token ?i b "locked_assets s1"] m(1) v by (simp add: b(5))
  then have o2: "unat (available_liquidity (pool_of token s2)) = open_total token (locked_assets s2) + unat amount"
    using s1 b(6) [of token] b(7) by (simp add: balanced_def)
  show ?thesis
    using assms(6) s2
  proof (cases rule: unlock_tokens_cases)
    case 1
    with m a b show ?thesis by auto
  next
    case (2 d)
    then have d: "d = b" using m a by simp
    have "open_total token (locked_assets s3) + unat amount = open_total token (locked_assets s2)"
      using open_total_update [of token ?i "b\<lparr>unlock_time := Some now\<rparr>" "locked_assets s2"] m(2) v 2(4) a(1) d
      by (simp add: open_value_def open_lock_def)
    moreover have "unat (available_liquidity (pool_of token s3)) = unat (available_liquidity (pool_of token s2)) - unat amount"
      using 2(5) [of token] 2(6) d b by (simp add: unat_sub)
    ultimately show ?thesis
      using o2 2(1,4) a(1) b(1) d by (simp add: unlock_tokens_def update_conv')
  qed
qed

section \<open>Examples\<close>

definition sample_bridge :: bridge where
  "sample_bridge = bridge_new \<lparr> escrow_address = 0, fee_basis_points = 30, min_transfer_amount = 1, max_transfer_amount = 1000,
     supported_tokens = [] \<rparr>"

definition sample_lock :: bridge_call where
  "sample_lock = Lock 50 50 1 [9] 4 100"

lemmas sample_bridge_simps = sample_bridge_def sample_lock_def bridge_new_def lock_tokens_def update_liquidity_pool_def
  pool_of_def put_pool_def bridge_pool_new_def generate_lock_id_def uadd_def

lemma sample_locks_ok:
  "run_ok (\<lambda>c s. no_panic (\<lambda>_. 7) c s \<and> fresh_lock (\<lambda>_. 7) c s) (bridge_step (\<lambda>_. 7)) [sample_lock] sample_bridge"
  "run_ok (no_panic (\<lambda>_. 7)) (bridge_step (\<lambda>_. 7)) [sample_lock] sample_bridge"
  by (simp_all add: sample_bridge_simps Let_def)

lemma sample_locked:
  "locked_assets (run (bridge_step (\<lambda>_. 7)) [sample_lock] sample_bridge) = [(7, \<lparr> la_chain = 1, la_token = 4, la_owner = [9],
     la_amount = 100, lock_time = 50, unlock_time = None \<rparr>)]"
  by (simp add: sample_bridge_simps Let_def)

theorem open_locks_can_be_unlocked_witness:
  "\<exists>s'. unlock_tokens 60 7 (run (bridge_step (\<lambda>_. 7)) [sample_lock] sample_bridge) = (Ok (), s') \<and>
     unlock_tokens 61 7 s' = (Err (BridgeError ''Already unlocked''), s')"
  using open_locks_can_be_unlocked [OF sample_locks_ok(2) [unfolded sample_bridge_def] refl, of 7, where now = 60 and now' = 61]
    sample_locked [unfolded sample_bridge_def] unfolding sample_bridge_def by (simp del: run.simps) blast

theorem locked_amount_is_the_liquidity_witness:
  "get_locked_amount 4 (run (bridge_step (\<lambda>_. 7)) [sample_lock] sample_bridge) = Ok 100"
proof -
  have "available_liquidity (pool_of 4 (run (bridge_step (\<lambda>_. 7)) [sample_lock] sample_bridge)) = 100"
    by (simp add: sample_bridge_simps Let_def)
  then show ?thesis
    using locked_amount_is_the_liquidity [OF sample_locks_ok(1) [unfolded sample_bridge_def] refl, of 4]
    unfolding sample_bridge_def by (simp del: run.simps)
qed

theorem equal_locks_of_a_second_collide_witness:
  "\<exists>s1 s2 s3. lock_tokens (\<lambda>_. 7) 50 50 1 [9] 4 100 sample_bridge = (Ok 7, s1) \<and>
     lock_tokens (\<lambda>_. 7) 50 50 1 [9] 4 100 s1 = (Ok 7, s2) \<and> unlock_tokens 60 7 s2 = (Ok (), s3) \<and>
     unat (available_liquidity (pool_of 4 s3)) = open_total 4 (locked_assets s3) + 100"
proof -
  let ?s1 = "snd (lock_tokens (\<lambda>_. 7) 50 50 1 [9] 4 100 sample_bridge)"
  let ?s2 = "snd (lock_tokens (\<lambda>_. 7) 50 50 1 [9] 4 100 ?s1)"
  let ?r = "unlock_tokens 60 7 ?s2"
  have l: "lock_tokens (\<lambda>_. 7) 50 50 1 [9] 4 100 sample_bridge = (Ok 7, ?s1)"
    "lock_tokens (\<lambda>_. 7) 50 50 1 [9] 4 100 ?s1 = (Ok 7, ?s2)"
    by (simp_all add: sample_bridge_simps Let_def)
  have f: "map_of (locked_assets (run (bridge_step (\<lambda>_. 7)) [] sample_bridge)) (generate_lock_id (\<lambda>_. 7) 50 [9] 4 100) = None"
    by (simp add: sample_bridge_simps)
  have "fst ?r = Ok () \<and> unat (available_liquidity (pool_of 4 (snd ?r))) = open_total 4 (locked_assets (snd ?r)) + unat (100 :: u256)"
    using equal_locks_of_a_second_collide [of "\<lambda>_. 7" "[]", OF _ refl f [unfolded sample_bridge_def], of 50 1 7 ?s1 50 7 ?s2 60
        "fst ?r" "snd ?r" 61] l
    unfolding sample_bridge_def by simp
  then have "?r = (Ok (), snd ?r) \<and> unat (available_liquidity (pool_of 4 (snd ?r))) = open_total 4 (locked_assets (snd ?r)) + 100"
    by (cases ?r) simp
  with l show ?thesis by blast
qed

end
