(* ===== verification/Relayer.thy ===== *)
theory Relayer
  imports Bridge "HOL-Library.Multiset"
begin

text \<open>
  The message relayer of \<^verbatim>\<open>src/cross_chain/relayer.rs\<close>: submitted transfers, their confirmations and the batches that are
  relayed, one tick of the loop at a time. Sending a message succeeds in the code as it is; the branch for a failure is kept.
\<close>

section \<open>State\<close>

datatype relay_status = Relay_Pending | Relay_Confirming | Relay_Ready | Relay_Relayed | Relay_Failed

record relay_message =
  rl_id :: h256
  rl_source :: u64
  rl_destination :: u64
  rl_nonce :: u64
  rl_payload :: "u8 list"
  rl_time :: u64
  rl_confirmations :: u64
  rl_status :: relay_status
  rl_retries :: u32

record relayer_config =
  min_confirmations :: u64
  relay_batch_size :: nat
  relay_interval_ms :: u64
  max_retry_attempts :: u32

record relayer =
  rl_config :: relayer_config
  message_queue :: "relay_message list"
  pending_messages :: "(h256 \<times> relay_message) list"
  relayed_messages :: "(h256 \<times> relay_message) list"
  chain_nonces :: "u64 \<rightharpoonup> u64"
  rl_active :: bool

definition relayer_new :: "relayer_config \<Rightarrow> relayer" where
  "relayer_new c = \<lparr> rl_config = c, message_queue = [], pending_messages = [], relayed_messages = [],
     chain_nonces = Map.empty, rl_active = False \<rparr>"

definition relayer_start :: "relayer \<Rightarrow> relayer" where
  "relayer_start s = s\<lparr>rl_active := True\<rparr>"

definition relayer_stop :: "relayer \<Rightarrow> relayer" where
  "relayer_stop s = s\<lparr>rl_active := False\<rparr>"

section \<open>Submission\<close>

definition get_next_nonce :: "u64 \<Rightarrow> relayer \<Rightarrow> u64 \<times> relayer" where
  "get_next_nonce chain s =
     (let n = (case chain_nonces s chain of None \<Rightarrow> 0 | Some n \<Rightarrow> n) + 1
      in (n, s\<lparr>chain_nonces := (chain_nonces s)(chain \<mapsto> n)\<rparr>))"

text \<open>The chains of a transfer are constants; the message enters the queue and the pending messages.\<close>

definition submit_transfer :: "u64 \<Rightarrow> h256 \<Rightarrow> relayer \<Rightarrow> relayer" where
  "submit_transfer now i s =
     (case get_next_nonce 1 s of (n, s) \<Rightarrow>
        let m = \<lparr> rl_id = i, rl_source = 1, rl_destination = 2, rl_nonce = n, rl_payload = [], rl_time = now,
                  rl_confirmations = 0, rl_status = Relay_Pending, rl_retries = 0 \<rparr>
        in s\<lparr>message_queue := message_queue s @ [m], pending_messages := AList.update i m (pending_messages s)\<rparr>)"

section \<open>A tick\<close>

definition confirm :: "u64 \<Rightarrow> relay_message \<Rightarrow> relay_message" where
  "confirm n m =
     (if rl_status m = Relay_Pending
      then let m1 = m\<lparr>rl_confirmations := rl_confirmations m + 1\<rparr>
           in if n \<le> rl_confirmations m1 then m1\<lparr>rl_status := Relay_Ready\<rparr> else m1
      else m)"

definition becomes_ready :: "u64 \<Rightarrow> relay_message \<Rightarrow> bool" where
  "becomes_ready n m \<longleftrightarrow> rl_status m = Relay_Pending \<and> rl_status (confirm n m) = Relay_Ready"

definition process_pending_messages :: "relayer \<Rightarrow> relayer" where
  "process_pending_messages s =
     (let n = min_confirmations (rl_config s) in
      s\<lparr>pending_messages := map (\<lambda>(i, m). (i, confirm n m)) (pending_messages s),
        message_queue := message_queue s @ map (confirm n) (filter (becomes_ready n) (map snd (pending_messages s)))\<rparr>)"

text \<open>Messages that are not ready go back to the end of the queue.\<close>

fun take_batch :: "nat \<Rightarrow> relay_message list \<Rightarrow> relay_message list \<Rightarrow> relay_message list \<times> relay_message list" where
  "take_batch 0 q b = (b, q)"
| "take_batch (Suc n) [] b = take_batch n [] b"
| "take_batch (Suc n) (m # q) b =
     (if rl_status m = Relay_Ready then take_batch n q (b @ [m]) else take_batch n (q @ [m]) b)"

definition relay_message_out :: "relay_message \<Rightarrow> (cross_error, unit) outcome" where
  "relay_message_out m = Ok ()"

definition relay_one :: "relay_message \<Rightarrow> relayer \<Rightarrow> relayer" where
  "relay_one m s =
     (if is_ok (relay_message_out m)
      then s\<lparr>relayed_messages := AList.update (rl_id m) (m\<lparr>rl_status := Relay_Relayed\<rparr>) (relayed_messages s),
             pending_messages := AList.delete (rl_id m) (pending_messages s)\<rparr>
      else let m1 = m\<lparr>rl_retries := rl_retries m + 1\<rparr>
           in if max_retry_attempts (rl_config s) \<le> rl_retries m1 then s
              else s\<lparr>message_queue := message_queue s @ [m1]\<rparr>)"

definition relay_ready_messages :: "relayer \<Rightarrow> relayer" where
  "relay_ready_messages s =
     (case take_batch (min (relay_batch_size (rl_config s)) (length (message_queue s))) (message_queue s) [] of
        (b, q) \<Rightarrow> fold relay_one b (s\<lparr>message_queue := q\<rparr>))"

definition relay_tick :: "relayer \<Rightarrow> relayer" where
  "relay_tick s = (if rl_active s then relay_ready_messages (process_pending_messages s) else s)"

section \<open>Reports\<close>

definition get_message_status :: "h256 \<Rightarrow> relayer \<Rightarrow> relay_status option" where
  "get_message_status i s =
     (case map_of (pending_messages s) i of
        Some m \<Rightarrow> Some (rl_status m)
      | None \<Rightarrow> map_option rl_status (map_of (relayed_messages s) i))"

record relayer_stats =
  rs_pending :: nat
  rs_relayed :: nat
  rs_queue :: nat
  rs_failed :: nat

definition relayer_get_stats :: "relayer \<Rightarrow> relayer_stats" where
  "relayer_get_stats s = \<lparr> rs_pending = length (pending_messages s), rs_relayed = length (relayed_messages s),
     rs_queue = length (message_queue s),
     rs_failed = length (filter (\<lambda>(i, m). rl_status m = Relay_Failed) (pending_messages s)) \<rparr>"

section \<open>Batches\<close>

lemma take_batch_sets:
  "take_batch n q b = (b', q') \<Longrightarrow> mset b' + mset q' = mset b + mset q \<and> length b' \<le> length b + n \<and>
     filter (\<lambda>m. rl_status m \<noteq> Relay_Ready) b' = filter (\<lambda>m. rl_status m \<noteq> Relay_Ready) b"
proof (induction n q b rule: take_batch.induct)
  case (3 n m q b)
  then show ?case by (cases "rl_status m = Relay_Ready") fastforce+
qed auto

lemma take_batch_all:
  "take_batch (length q) (q @ r) b
    = (b @ filter (\<lambda>m. rl_status m = Relay_Ready) q, r @ filter (\<lambda>m. rl_status m \<noteq> Relay_Ready) q)"
proof (induction q arbitrary: r b)
  case (Cons m q)
  then show ?case by (cases "rl_status m = Relay_Ready") (simp_all add: Cons.IH)
qed simp

lemma fold_relay_one:
  "message_queue (fold relay_one b s) = message_queue s" "rl_config (fold relay_one b s) = rl_config s"
  "rl_active (fold relay_one b s) = rl_active s"
  by (induction b arbitrary: s) (simp_all add: relay_one_def relay_message_out_def)

section \<open>What is relayed\<close>

datatype relayer_call = Submit_transfer u64 h256 | Tick | Start_relayer | Stop_relayer

fun relayer_step :: "relayer_call \<Rightarrow> relayer \<Rightarrow> relayer" where
  "relayer_step (Submit_transfer now i) s = submit_transfer now i s"
| "relayer_step Tick s = relay_tick s"
| "relayer_step Start_relayer s = relayer_start s"
| "relayer_step Stop_relayer s = relayer_stop s"

definition waiting :: "u64 \<Rightarrow> relay_message \<Rightarrow> bool" where
  "waiting n m \<longleftrightarrow> rl_status m = Relay_Pending \<and> (rl_confirmations m = 0 \<or> rl_confirmations m < n)"

definition confirmed :: "u64 \<Rightarrow> relay_status \<Rightarrow> relay_message \<Rightarrow> bool" where
  "confirmed n st m \<longleftrightarrow> rl_status m = st \<and> n \<le> rl_confirmations m \<and> 0 < rl_confirmations m"

definition relayer_inv :: "relayer \<Rightarrow> bool" where
  "relayer_inv s \<longleftrightarrow> (let n = min_confirmations (rl_config s) in
     (\<forall>(i, m) \<in> set (pending_messages s). waiting n m \<or> confirmed n Relay_Ready m) \<and>
     (\<forall>m \<in> set (message_queue s). waiting n m \<or> confirmed n Relay_Ready m) \<and>
     (\<forall>(i, m) \<in> set (relayed_messages s). rl_id m = i \<and> confirmed n Relay_Relayed m))"

lemma confirm_ok:
  assumes "waiting n m \<or> confirmed n Relay_Ready m"
  shows "waiting n (confirm n m) \<or> confirmed n Relay_Ready (confirm n m)"
proof (cases "rl_status m = Relay_Pending")
  case True
  with assms have w: "rl_confirmations m = 0 \<or> rl_confirmations m < n" by (auto simp: waiting_def confirmed_def)
  have "unat (rl_confirmations m + 1) = unat (rl_confirmations m) + 1"
    using w
  proof
    assume "rl_confirmations m < n"
    then have "unat (rl_confirmations m) + 1 \<le> unat n" by (simp add: word_less_nat_alt)
    also have "unat n < 2 ^ 64" using unsigned_less [of n] by simp
    finally show ?thesis by (simp add: unat_word_ariths)
  qed simp
  then have "0 < rl_confirmations m + 1" by (simp add: word_less_nat_alt)
  then show ?thesis by (auto simp: confirm_def waiting_def confirmed_def True Let_def not_le)
next
  case False
  with assms show ?thesis by (simp add: confirm_def)
qed

lemma set_delete_sub: "set (AList.delete i xs) \<subseteq> set xs"
  by (auto simp: AList.delete_eq)

lemma relayer_inv_relay:
  "relayer_inv s \<Longrightarrow> \<forall>m \<in> set b. confirmed (min_confirmations (rl_config s)) Relay_Ready m \<Longrightarrow>
     relayer_inv (fold relay_one b s)"
proof (induction b arbitrary: s)
  case (Cons m b)
  have "relayer_inv (relay_one m s)"
    using Cons.prems set_update_sub [of "rl_id m" "m\<lparr>rl_status := Relay_Relayed\<rparr>" "relayed_messages s"]
      set_delete_sub [of "rl_id m" "pending_messages s"]
    by (fastforce simp: relayer_inv_def relay_one_def relay_message_out_def confirmed_def Let_def)
  moreover have "rl_config (relay_one m s) = rl_config s" by (simp add: relay_one_def relay_message_out_def)
  ultimately show ?case using Cons by simp
qed simp

lemma relayer_inv_process:
  assumes "relayer_inv s"
  shows "relayer_inv (process_pending_messages s)"
proof -
  let ?n = "min_confirmations (rl_config s)"
  have p: "waiting ?n (confirm ?n m) \<or> confirmed ?n Relay_Ready (confirm ?n m)" if "(i, m) \<in> set (pending_messages s)" for i m
    using assms that by (intro confirm_ok) (auto simp: relayer_inv_def Let_def)
  then show ?thesis
    using assms by (auto simp: relayer_inv_def process_pending_messages_def Let_def) (use p in blast)+
qed

lemma relayer_inv_tick:
  assumes "relayer_inv s"
  shows "relayer_inv (relay_tick s)"
proof (cases "rl_active s")
  case True
  let ?s = "process_pending_messages s"
  obtain b q where t: "take_batch (min (relay_batch_size (rl_config ?s)) (length (message_queue ?s))) (message_queue ?s) [] = (b, q)"
    by fastforce
  have i: "relayer_inv ?s" by (rule relayer_inv_process [OF assms])
  have m: "set_mset (mset b + mset q) = set (message_queue ?s)"
    using take_batch_sets [OF t] by (metis add.left_neutral mset.simps(1) set_mset_mset)
  then have sub: "set b \<subseteq> set (message_queue ?s)" "set q \<subseteq> set (message_queue ?s)" by auto
  have ready: "\<forall>m \<in> set b. rl_status m = Relay_Ready"
    using take_batch_sets [OF t] by (simp add: filter_empty_conv)
  have "\<forall>m \<in> set b. confirmed (min_confirmations (rl_config ?s)) Relay_Ready m"
  proof
    fix m assume "m \<in> set b"
    with sub i ready show "confirmed (min_confirmations (rl_config ?s)) Relay_Ready m"
      by (fastforce simp: relayer_inv_def waiting_def Let_def)
  qed
  moreover have "relayer_inv (?s\<lparr>message_queue := q\<rparr>)"
    using i sub by (fastforce simp: relayer_inv_def Let_def)
  ultimately have "relayer_inv (fold relay_one b (?s\<lparr>message_queue := q\<rparr>))"
    by (intro relayer_inv_relay) simp_all
  with True t show ?thesis by (simp add: relay_tick_def relay_ready_messages_def)
qed (use assms in \<open>simp add: relay_tick_def\<close>)

lemma relayer_inv_step:
  assumes "relayer_inv s"
  shows "relayer_inv (relayer_step c s)"
proof (cases c)
  case (Submit_transfer now i)
  have "relayer_inv (submit_transfer now i s)"
    using assms set_update_sub [of i _ "pending_messages s"]
    by (fastforce simp: relayer_inv_def submit_transfer_def get_next_nonce_def waiting_def Let_def)
  with Submit_transfer show ?thesis by simp
next
  case Tick
  with relayer_inv_tick [OF assms] show ?thesis by simp
qed (use assms in \<open>simp_all add: relayer_start_def relayer_stop_def relayer_inv_def Let_def\<close>)

interpretation relays: invariant_of relayer_step "\<lambda>_ _. True" relayer_inv
  by unfold_locales (rule relayer_inv_step)

text \<open>
  In every run of the relayer every message it has relayed is filed under its identifier, marked as relayed, and was
  confirmed as often as the configuration asks for, and at least once.
\<close>

theorem relayed_messages_are_confirmed:
  assumes "s = run relayer_step cs (relayer_new c)" "(i, m) \<in> set (relayed_messages s)"
  shows "rl_id m = i \<and> rl_status m = Relay_Relayed \<and> min_confirmations (rl_config s) \<le> rl_confirmations m \<and>
    0 < rl_confirmations m"
proof -
  have "relayer_inv (relayer_new c)" by (simp add: relayer_inv_def relayer_new_def)
  then have "relayer_inv s" unfolding assms(1) by (rule relays.inv_run) (rule run_ok_always)
  with assms(2) show ?thesis by (auto simp: relayer_inv_def confirmed_def Let_def)
qed

section \<open>What stays in the queue\<close>

definition stale :: "relayer \<Rightarrow> nat" where
  "stale s = length (filter (\<lambda>m. rl_status m = Relay_Pending) (message_queue s))"

fun is_submission :: "relayer_call \<Rightarrow> bool" where
  "is_submission (Submit_transfer now i) = True"
| "is_submission c = False"

lemma stale_tick: "stale (relay_tick s) = stale s"
proof (cases "rl_active s")
  case True
  let ?s = "process_pending_messages s"
  obtain b q where t: "take_batch (min (relay_batch_size (rl_config ?s)) (length (message_queue ?s))) (message_queue ?s) [] = (b, q)"
    by fastforce
  have "filter (\<lambda>m. rl_status m = Relay_Pending) b = []"
    using take_batch_sets [OF t] by (auto simp: filter_empty_conv)
  moreover have "mset b + mset q = mset (message_queue ?s)" using take_batch_sets [OF t] by simp
  ultimately have "mset (filter (\<lambda>m. rl_status m = Relay_Pending) q) = mset (filter (\<lambda>m. rl_status m = Relay_Pending) (message_queue ?s))"
    by (metis (no_types, lifting) add_0 filter_union_mset mset.simps(1) mset_filter)
  then have "length (filter (\<lambda>m. rl_status m = Relay_Pending) q) = stale ?s"
    unfolding stale_def by (rule mset_eq_length)
  moreover have "stale ?s = stale s"
    by (auto simp: stale_def process_pending_messages_def filter_empty_conv becomes_ready_def Let_def)
  ultimately show ?thesis
    using True t by (simp add: relay_tick_def relay_ready_messages_def stale_def fold_relay_one)
qed (simp add: relay_tick_def)

text \<open>
  Every submission leaves a copy of its message in the queue for ever: the copy is never confirmed, never relayed and
  never removed, so the queue grows with every transfer.
\<close>

theorem every_submission_stays_in_the_queue:
  "length (filter (\<lambda>m. rl_status m = Relay_Pending) (message_queue (run relayer_step cs (relayer_new c))))
    = length (filter is_submission cs)"
proof -
  have "stale (run relayer_step cs s) = stale s + length (filter is_submission cs)" for s
  proof (induction cs arbitrary: s)
    case (Cons d cs)
    show ?case
      by (cases d) (simp_all add: Cons.IH stale_tick,
        simp_all add: stale_def submit_transfer_def get_next_nonce_def relayer_start_def relayer_stop_def Let_def)
  qed simp
  from this [of "relayer_new c"] show ?thesis by (simp add: stale_def relayer_new_def)
qed

section \<open>Every transfer is relayed\<close>

definition at_confirmation :: "u64 \<Rightarrow> relay_message \<Rightarrow> relay_message" where
  "at_confirmation n m = m\<lparr>rl_confirmations := n\<rparr>"

lemma at_confirmation_simps [simp]:
  "rl_status (at_confirmation n m) = rl_status m" "rl_id (at_confirmation n m) = rl_id m"
  "rl_confirmations (at_confirmation n m) = n" "(at_confirmation n m)\<lparr>rl_confirmations := k\<rparr> = at_confirmation k m"
  by (simp_all add: at_confirmation_def)

definition in_step :: "u64 \<Rightarrow> relay_message list \<Rightarrow> relayer \<Rightarrow> bool" where
  "in_step n ms s \<longleftrightarrow> rl_active s \<and> message_queue s = ms \<and> pending_messages s = map (\<lambda>m. (rl_id m, at_confirmation n m)) ms"

lemma update_fresh: "k \<notin> fst ` set m \<Longrightarrow> AList.update k v m = m @ [(k, v)]"
  by (induction m) auto

lemma submitted:
  assumes "distinct ids"
  obtains ms where "map rl_id ms = ids" "\<forall>m \<in> set ms. rl_status m = Relay_Pending"
    "in_step 0 ms (fold (submit_transfer now) ids (relayer_start (relayer_new c)))"
    "rl_config (fold (submit_transfer now) ids (relayer_start (relayer_new c))) = c"
  using assms
proof (induction ids arbitrary: thesis rule: rev_induct)
  case Nil
  show thesis by (rule Nil(1) [of "[]"]) (simp_all add: in_step_def relayer_start_def relayer_new_def)
next
  case (snoc i ids)
  let ?s = "fold (submit_transfer now) ids (relayer_start (relayer_new c))"
  obtain ms where ms: "map rl_id ms = ids" "\<forall>m \<in> set ms. rl_status m = Relay_Pending" "in_step 0 ms ?s" "rl_config ?s = c"
    using snoc.IH snoc.prems(2) by auto
  let ?m = "\<lparr> rl_id = i, rl_source = 1, rl_destination = 2, rl_nonce = fst (get_next_nonce 1 ?s), rl_payload = [],
    rl_time = now, rl_confirmations = 0, rl_status = Relay_Pending, rl_retries = 0 \<rparr>"
  have "fst ` set (pending_messages ?s) = set ids"
    using ms by (force simp: in_step_def image_image simp flip: ms(1))
  then have "AList.update i ?m (pending_messages ?s) = pending_messages ?s @ [(i, ?m)]"
    using snoc.prems(2) by (intro update_fresh) auto
  then have "in_step 0 (ms @ [?m]) (submit_transfer now i ?s)" "rl_config (submit_transfer now i ?s) = c"
    using ms(3,4) by (simp_all add: in_step_def submit_transfer_def get_next_nonce_def at_confirmation_def Let_def)
  then show thesis using ms by (intro snoc.prems(1) [of "ms @ [?m]"]) simp_all
qed

lemma tick_waits:
  assumes "in_step n ms s" "\<forall>m \<in> set ms. rl_status m = Relay_Pending" "length ms \<le> relay_batch_size (rl_config s)"
    and "\<not> min_confirmations (rl_config s) \<le> n + 1"
  shows "in_step (n + 1) ms (relay_tick s) \<and> rl_config (relay_tick s) = rl_config s"
proof -
  let ?k = "min_confirmations (rl_config s)" and ?s = "process_pending_messages s"
  have "confirm ?k (at_confirmation n m) = at_confirmation (n + 1) m" if "m \<in> set ms" for m
    using that assms(2,4) by (simp add: confirm_def Let_def)
  then have s: "pending_messages ?s = map (\<lambda>m. (rl_id m, at_confirmation (n + 1) m)) ms" "message_queue ?s = ms"
    "rl_config ?s = rl_config s" "rl_active ?s"
    using assms(1,2) by (auto simp: process_pending_messages_def in_step_def becomes_ready_def filter_empty_conv Let_def)
  have "take_batch (length ms) (ms @ []) [] = ([], ms)"
    unfolding take_batch_all using assms(2) by (auto simp: filter_empty_conv filter_id_conv)
  then have "relay_ready_messages ?s = ?s\<lparr>message_queue := ms\<rparr>"
    using s assms(3) by (simp add: relay_ready_messages_def min_def)
  then show ?thesis using s assms(1) by (simp add: relay_tick_def in_step_def)
qed

lemma relayed_batch:
  "map_of (pending_messages (fold relay_one b s)) i
    = (if i \<in> rl_id ` set b then None else map_of (pending_messages s) i)"
  "i \<in> rl_id ` set b \<or> (\<exists>m. map_of (relayed_messages s) i = Some m \<and> rl_status m = Relay_Relayed) \<Longrightarrow>
     \<exists>m. map_of (relayed_messages (fold relay_one b s)) i = Some m \<and> rl_status m = Relay_Relayed"
proof (induction b arbitrary: s)
  case (Cons m b)
  case 1
  show ?case using Cons.IH(1) [of "relay_one m s"] by (simp add: relay_one_def relay_message_out_def delete_conv')
  case 2
  then show ?case
    using Cons.IH(2) [of "relay_one m s"] by (auto simp: relay_one_def relay_message_out_def update_conv')
qed simp_all

lemma tick_relays:
  assumes "in_step n ms s" "\<forall>m \<in> set ms. rl_status m = Relay_Pending" "2 * length ms \<le> relay_batch_size (rl_config s)"
    and "min_confirmations (rl_config s) \<le> n + 1" "m \<in> set ms"
  shows "get_message_status (rl_id m) (relay_tick s) = Some Relay_Relayed"
proof -
  let ?k = "min_confirmations (rl_config s)" and ?s = "process_pending_messages s"
  let ?up = "\<lambda>m. (at_confirmation (n + 1) m)\<lparr>rl_status := Relay_Ready\<rparr>"
  have up: "confirm ?k (at_confirmation n m) = ?up m" if "m \<in> set ms" for m
    using that assms(2,4) by (simp add: confirm_def Let_def)
  then have "filter (becomes_ready ?k) (map (at_confirmation n) ms) = map (at_confirmation n) ms"
    using assms(2) by (auto simp: filter_id_conv becomes_ready_def)
  then have s: "message_queue ?s = ms @ map ?up ms" "rl_config ?s = rl_config s"
    using assms(1) up by (simp_all add: process_pending_messages_def in_step_def Let_def comp_def)
  have "take_batch (length (ms @ map ?up ms)) ((ms @ map ?up ms) @ []) [] = (map ?up ms, ms)"
    unfolding take_batch_all using assms(2) by (auto simp: filter_empty_conv filter_id_conv)
  then have "relay_ready_messages ?s = fold relay_one (map ?up ms) (?s\<lparr>message_queue := ms\<rparr>)"
    using s min_absorb2 [of "length (ms @ map ?up ms)" "relay_batch_size (rl_config s)"] assms(3)
    by (simp add: relay_ready_messages_def)
  moreover have "rl_id m \<in> rl_id ` set (map ?up ms)" using assms(5) by (auto simp: image_image)
  ultimately show ?thesis
    using relayed_batch [where b = "map ?up ms" and s = "?s\<lparr>message_queue := ms\<rparr>" and i = "rl_id m"] assms(1)
    by (auto simp: get_message_status_def relay_tick_def in_step_def)
qed

lemma unat_of_nat_Suc: "Suc j < 2 ^ 64 \<Longrightarrow> unat (of_nat j + 1 :: u64) = Suc j"
proof -
  assume "Suc j < 2 ^ 64"
  then have "unat (of_nat (Suc j) :: u64) = Suc j" by (simp only: unat_of_nat) simp
  then show ?thesis by (simp add: add.commute)
qed

text \<open>
  Transfers submitted to a running relayer are relayed together, after as many ticks as the configuration asks for
  confirmations (at least one), when a batch holds them and their stale copies; before that they are pending.
\<close>

theorem transfers_are_relayed:
  assumes "distinct ids" "2 * length ids \<le> relay_batch_size c" "i \<in> set ids"
    and "s = fold (submit_transfer now) ids (relayer_start (relayer_new c))" "k = max 1 (unat (min_confirmations c))"
  shows "get_message_status i ((relay_tick ^^ k) s) = Some Relay_Relayed \<and>
    (\<forall>j < k. get_message_status i ((relay_tick ^^ j) s) = Some Relay_Pending)"
proof -
  obtain ms where ms: "map rl_id ms = ids" "\<forall>m \<in> set ms. rl_status m = Relay_Pending" "in_step 0 ms s" "rl_config s = c"
    using submitted [OF assms(1), of now c] assms(4) by blast
  have len: "length ms = length ids" by (simp flip: ms(1))
  have k: "k < 2 ^ 64" using unsigned_less [of "min_confirmations c"] assms(5) by simp
  have upto: "in_step (of_nat j) ms ((relay_tick ^^ j) s) \<and> rl_config ((relay_tick ^^ j) s) = c" if "j < k" for j
    using that
  proof (induction j)
    case (Suc j)
    then have "unat (of_nat j + 1 :: u64) = Suc j" using k by (intro unat_of_nat_Suc) simp
    then have "\<not> min_confirmations c \<le> of_nat j + 1"
      using Suc.prems assms(5) by (simp add: word_le_nat_alt)
    then show ?case using tick_waits [of "of_nat j" ms "(relay_tick ^^ j) s"] Suc ms(2) len assms(2) by (simp add: add.commute)
  qed (use ms in simp)
  obtain m where m: "m \<in> set ms" "rl_id m = i" using ms(1) assms(3) by auto
  show ?thesis
  proof (intro conjI allI impI)
    have "0 < k" using assms(5) by simp
    then obtain j where j: "k = Suc j" by (cases k) auto
    have "unat (of_nat j + 1 :: u64) = Suc j" using k j by (intro unat_of_nat_Suc) simp
    then have "min_confirmations c \<le> of_nat j + 1" using j assms(5) by (simp add: word_le_nat_alt)
    then show "get_message_status i ((relay_tick ^^ k) s) = Some Relay_Relayed"
      using tick_relays [of "of_nat j" ms "(relay_tick ^^ j) s" m] upto [of j] j ms(2) len assms(2) m by simp
  next
    fix j assume "j < k"
    then have p: "pending_messages ((relay_tick ^^ j) s) = map (\<lambda>m. (rl_id m, at_confirmation (of_nat j) m)) ms"
      using upto by (simp add: in_step_def)
    have "distinct (map fst (map (\<lambda>m. (rl_id m, at_confirmation (of_nat j) m)) ms))"
      using assms(1) ms(1) by (simp add: comp_def)
    then have "map_of (pending_messages ((relay_tick ^^ j) s)) i = Some (at_confirmation (of_nat j) m)"
      unfolding p using m by (intro map_of_is_SomeI) auto
    then show "get_message_status i ((relay_tick ^^ j) s) = Some Relay_Pending"
      using ms(2) m(1) by (simp add: get_message_status_def)
  qed
qed

section \<open>Examples\<close>

definition sample_relayer_config :: relayer_config where
  "sample_relayer_config = \<lparr> min_confirmations = 2, relay_batch_size = 10, relay_interval_ms = 100, max_retry_attempts = 3 \<rparr>"

theorem transfers_are_relayed_witness:
  "get_message_status 6 ((relay_tick ^^ 2) (fold (submit_transfer 1) [5, 6] (relayer_start (relayer_new sample_relayer_config))))
     = Some Relay_Relayed"
proof -
  have "distinct [5, 6 :: h256]" "2 * length [5, 6 :: h256] \<le> relay_batch_size sample_relayer_config" "(6 :: h256) \<in> set [5, 6]"
    "2 = max 1 (unat (min_confirmations sample_relayer_config))"
    by (simp_all add: sample_relayer_config_def)
  from transfers_are_relayed [OF this(1-3) refl this(4)] show ?thesis by (rule conjunct1)
qed

theorem relayed_messages_are_confirmed_witness:
  "list_all (\<lambda>(i, m). 2 \<le> rl_confirmations m) (relayed_messages (run relayer_step
     [Start_relayer, Submit_transfer 1 5, Tick, Tick] (relayer_new sample_relayer_config)))"
  unfolding list_all_iff
proof (intro ballI, clarify)
  let ?s = "run relayer_step [Start_relayer, Submit_transfer 1 5, Tick, Tick] (relayer_new sample_relayer_config)"
  have c: "rl_config (relay_tick s) = rl_config s" for s
    by (simp add: relay_tick_def relay_ready_messages_def process_pending_messages_def fold_relay_one Let_def split: prod.split)
  have "min_confirmations (rl_config ?s) = 2"
    by (simp add: c submit_transfer_def get_next_nonce_def relayer_start_def relayer_new_def sample_relayer_config_def Let_def)
  moreover fix i m assume "(i, m) \<in> set (relayed_messages ?s)"
  ultimately show "2 \<le> rl_confirmations m" using relayed_messages_are_confirmed [OF refl] by metis
qed

end
