(* ===== verification/LightClient.thy ===== *)
theory LightClient
  imports Bridge
begin

text \<open>
  The light client of \<^verbatim>\<open>src/cross_chain/light_client.rs\<close>: trusted headers, their verification, and Merkle proofs of
  transactions. Keccak, the Ed25519 check of the package \<^verbatim>\<open>ed25519_dalek\<close> (a key, a hash and a signature of the right
  lengths), the decoding of headers and the clock are arguments.
\<close>

section \<open>State\<close>

datatype chain_type = EVM | Cosmos | Substrate | Solana | Bitcoin

datatype consensus_type = ProofOfWork | ProofOfStake | DelegatedProofOfStake | ProofOfAuthority | BFT

record chain_info =
  ci_id :: u64
  ci_name :: string
  ci_type :: chain_type
  ci_consensus :: consensus_type
  ci_finality :: u64
  ci_block_time :: u64

record header_signature =
  hsig_validator :: address
  hsig_bytes :: "u8 list"

record block_header =
  hd_chain :: u64
  hd_height :: u64
  hd_time :: u64
  hd_previous :: h256
  hd_state_root :: h256
  hd_tx_root :: h256
  hd_receipts_root :: h256
  hd_validators_hash :: h256
  hd_signatures :: "header_signature list"

record lc_validator =
  lv_address :: address
  lv_key :: "u8 list"
  lv_power :: u64

record validator_set =
  vs_validators :: "lc_validator list"
  vs_total :: u64
  vs_threshold :: u64

record sync_state =
  latest_height :: u64
  latest_timestamp :: u64
  syncing :: bool
  sync_error :: "string option"

record light_client =
  lc_info :: chain_info
  trusted_headers :: "block_header list"
  validator_sets :: "(u64 \<times> validator_set) list"
  lc_sync :: sync_state
  max_clock_drift :: u64
  trusting_period :: u64

definition light_client_new :: "chain_info \<Rightarrow> light_client" where
  "light_client_new c = \<lparr> lc_info = c, trusted_headers = [], validator_sets = [],
     lc_sync = \<lparr> latest_height = 0, latest_timestamp = 0, syncing = False, sync_error = None \<rparr>,
     max_clock_drift = 10, trusting_period = 86400 * 7 \<rparr>"

definition genesis_set :: validator_set where
  "genesis_set = \<lparr> vs_validators = [\<lparr> lv_address = word_rcat (replicate 20 (1 :: u8)), lv_key = replicate 32 0, lv_power = 1000 \<rparr>],
     vs_total = 1000, vs_threshold = 667 \<rparr>"

text \<open>A chain that is not supported leaves the client marked as syncing.\<close>

definition lc_initialize :: "light_client \<Rightarrow> (cross_error, unit) outcome \<times> light_client" where
  "lc_initialize s =
     (let s1 = s\<lparr>lc_sync := (lc_sync s)\<lparr>syncing := True\<rparr>\<rparr>;
          finish = (\<lambda>s. (Ok (), s\<lparr>lc_sync := (lc_sync s)\<lparr>syncing := False\<rparr>\<rparr>))
      in case ci_type (lc_info s1) of
           EVM \<Rightarrow> finish (s1\<lparr>validator_sets := AList.update 0 genesis_set (validator_sets s1)\<rparr>)
         | Cosmos \<Rightarrow> finish s1
         | Substrate \<Rightarrow> finish s1
         | _ \<Rightarrow> (Err ChainNotSupported, s1))"

section \<open>Headers\<close>

definition header_bytes :: "block_header \<Rightarrow> u8 list" where
  "header_bytes h = le_bytes 8 (hd_chain h) @ le_bytes 8 (hd_height h) @ le_bytes 8 (hd_time h) @ be_bytes 32 (hd_previous h)
     @ be_bytes 32 (hd_state_root h) @ be_bytes 32 (hd_tx_root h) @ be_bytes 32 (hd_receipts_root h)
     @ be_bytes 32 (hd_validators_hash h)"

definition hash_header :: "(u8 list \<Rightarrow> h256) \<Rightarrow> block_header \<Rightarrow> h256" where
  "hash_header keccak h = keccak (header_bytes h)"

definition lc_verify_signature :: "(u8 list \<Rightarrow> h256 \<Rightarrow> u8 list \<Rightarrow> bool) \<Rightarrow> h256 \<Rightarrow> u8 list \<Rightarrow> u8 list \<Rightarrow> bool" where
  "lc_verify_signature ed msg sg key = (if length sg \<noteq> 64 \<or> length key \<noteq> 32 then False else ed key msg sg)"

text \<open>Every signature of a known validator counts, repeated ones too; the sum wraps.\<close>

fun signed_power ::
  "(u8 list \<Rightarrow> h256 \<Rightarrow> u8 list \<Rightarrow> bool) \<Rightarrow> lc_validator list \<Rightarrow> h256 \<Rightarrow> header_signature list \<Rightarrow> u64 \<Rightarrow> u64" where
  "signed_power ed vs msg [] p = p"
| "signed_power ed vs msg (sg # sgs) p =
     (case find (\<lambda>v. lv_address v = hsig_validator sg) vs of
        Some v \<Rightarrow> signed_power ed vs msg sgs (if lc_verify_signature ed msg (hsig_bytes sg) (lv_key v) then p + lv_power v else p)
      | None \<Rightarrow> signed_power ed vs msg sgs p)"

definition set_for :: "u64 \<Rightarrow> light_client \<Rightarrow> validator_set option" where
  "set_for n s =
     (case map_of (validator_sets s) n of
        Some vs \<Rightarrow> Some vs
      | None \<Rightarrow> if validator_sets s = [] then None else Some (snd (last (validator_sets s))))"

definition verify_signatures ::
  "(u8 list \<Rightarrow> h256) \<Rightarrow> (u8 list \<Rightarrow> h256 \<Rightarrow> u8 list \<Rightarrow> bool) \<Rightarrow> block_header \<Rightarrow> light_client \<Rightarrow> (cross_error, unit) outcome" where
  "verify_signatures keccak ed h s =
     (case set_for (hd_height h) s of
        None \<Rightarrow> Err Invalid_Proof
      | Some vs \<Rightarrow>
          if signed_power ed (vs_validators vs) (hash_header keccak h) (hd_signatures h) 0 < vs_threshold vs
          then Err Invalid_Proof else Ok ())"

definition verify_proof_of_work :: "block_header \<Rightarrow> (cross_error, unit) outcome" where
  "verify_proof_of_work h = Ok ()"

definition follows :: "(u8 list \<Rightarrow> h256) \<Rightarrow> chain_info \<Rightarrow> block_header \<Rightarrow> block_header \<Rightarrow> bool" where
  "follows keccak c prev h \<longleftrightarrow> hd_height h = hd_height prev + 1 \<and> hd_previous h = hash_header keccak prev \<and>
     saturating_sub (hd_time h) (hd_time prev) \<le> ci_block_time c * 2"

definition verify_header ::
  "(u8 list \<Rightarrow> h256) \<Rightarrow> (u8 list \<Rightarrow> h256 \<Rightarrow> u8 list \<Rightarrow> bool) \<Rightarrow> block_header \<Rightarrow> light_client \<Rightarrow> (cross_error, unit) outcome" where
  "verify_header keccak ed h s =
     (if trusted_headers s \<noteq> [] \<and> \<not> follows keccak (lc_info s) (last (trusted_headers s)) h then Err Invalid_Proof
      else case ci_consensus (lc_info s) of
        ProofOfStake \<Rightarrow> verify_signatures keccak ed h s
      | BFT \<Rightarrow> verify_signatures keccak ed h s
      | ProofOfWork \<Rightarrow> verify_proof_of_work h
      | _ \<Rightarrow> Ok ())"

text \<open>At most a hundred headers are kept.\<close>

definition trust_header :: "block_header \<Rightarrow> light_client \<Rightarrow> light_client" where
  "trust_header h s =
     (let hs = trusted_headers s @ [h]
      in s\<lparr>trusted_headers := (if 100 < length hs then tl hs else hs),
           lc_sync := (lc_sync s)\<lparr>latest_height := hd_height h, latest_timestamp := hd_time h\<rparr>\<rparr>)"

definition update_header ::
  "(u8 list \<Rightarrow> h256) \<Rightarrow> (u8 list \<Rightarrow> h256 \<Rightarrow> u8 list \<Rightarrow> bool) \<Rightarrow> (u8 list \<Rightarrow> string + block_header) \<Rightarrow> u8 list \<Rightarrow> light_client
     \<Rightarrow> (cross_error, unit) outcome \<times> light_client" where
  "update_header keccak ed parse data s =
     (case parse data of
        Inl e \<Rightarrow> (Err (LightClientError e), s)
      | Inr h \<Rightarrow> and_then (verify_header keccak ed h s, s) (\<lambda>_ s. (Ok (), trust_header h s)))"

section \<open>Proofs of transactions\<close>

record merkle_proof =
  mp_height :: u64
  mp_tx :: h256
  mp_path :: "h256 list"
  mp_root :: h256

definition hash_pair :: "(u8 list \<Rightarrow> h256) \<Rightarrow> h256 \<Rightarrow> h256 \<Rightarrow> h256" where
  "hash_pair keccak a b = (if a < b then keccak (be_bytes 32 a @ be_bytes 32 b) else keccak (be_bytes 32 b @ be_bytes 32 a))"

definition compute_merkle_root :: "(u8 list \<Rightarrow> h256) \<Rightarrow> h256 \<Rightarrow> h256 list \<Rightarrow> h256" where
  "compute_merkle_root keccak leaf path = foldl (hash_pair keccak) leaf path"

definition lc_get_header :: "u64 \<Rightarrow> light_client \<Rightarrow> block_header option" where
  "lc_get_header n s = find (\<lambda>h. hd_height h = n) (trusted_headers s)"

definition verify_transaction :: "(u8 list \<Rightarrow> h256) \<Rightarrow> merkle_proof \<Rightarrow> light_client \<Rightarrow> (cross_error, bool) outcome" where
  "verify_transaction keccak p s =
     (case find (\<lambda>h. hd_height h = mp_height p) (trusted_headers s) of
        None \<Rightarrow> Err Invalid_Proof
      | Some h \<Rightarrow>
          if compute_merkle_root keccak (mp_tx p) (mp_path p) \<noteq> mp_root p then Ok False
          else if hd_tx_root h \<noteq> mp_root p then Ok False
          else Ok True)"

section \<open>Synchronisation\<close>

definition get_latest_height :: "light_client \<Rightarrow> u64" where
  "get_latest_height s = latest_height (lc_sync s)"

definition is_synced :: "u64 \<Rightarrow> light_client \<Rightarrow> bool" where
  "is_synced now s \<longleftrightarrow> now - latest_timestamp (lc_sync s) < ci_block_time (lc_info s) * 3"

definition bisection_verify ::
  "(u8 list \<Rightarrow> h256) \<Rightarrow> (u8 list \<Rightarrow> h256 \<Rightarrow> u8 list \<Rightarrow> bool) \<Rightarrow> block_header \<Rightarrow> block_header \<Rightarrow> light_client
     \<Rightarrow> (cross_error, bool) outcome" where
  "bisection_verify keccak ed untrusted trusted s =
     (if hd_height untrusted \<le> hd_height trusted then Err Invalid_Proof
      else if hd_time untrusted \<le> hd_time trusted then Err Invalid_Proof
      else if hd_time trusted + trusting_period s < hd_time untrusted
      then Err (LightClientError ''Header outside trusting period'')
      else fst (and_then (verify_header keccak ed untrusted s, ()) (\<lambda>_ s. (Ok True, s))))"

end
