(* ===== verification/LightClientProps.thy ===== *)
theory LightClientProps
  imports LightClient
begin

text \<open>
  The light client: the trusted headers form a chain, Merkle proofs of their transactions verify, and what the check of
  signatures counts.
\<close>

section \<open>The chain of trusted headers\<close>

datatype light_client_call = Init_client | Update_client "u8 list"

fun light_client_step ::
  "(u8 list \<Rightarrow> h256) \<Rightarrow> (u8 list \<Rightarrow> h256 \<Rightarrow> u8 list \<Rightarrow> bool) \<Rightarrow> (u8 list \<Rightarrow> string + block_header) \<Rightarrow> light_client_call
     \<Rightarrow> light_client \<Rightarrow> light_client" where
  "light_client_step keccak ed parse Init_client s = snd (lc_initialize s)"
| "light_client_step keccak ed parse (Update_client data) s = snd (update_header keccak ed parse data s)"

fun linked :: "(u8 list \<Rightarrow> h256) \<Rightarrow> chain_info \<Rightarrow> block_header list \<Rightarrow> bool" where
  "linked keccak c (h # h' # hs) \<longleftrightarrow> follows keccak c h h' \<and> linked keccak c (h' # hs)"
| "linked keccak c hs \<longleftrightarrow> True"

lemma linked_snoc: "linked keccak c hs \<Longrightarrow> hs = [] \<or> follows keccak c (last hs) h \<Longrightarrow> linked keccak c (hs @ [h])"
  by (induction keccak c hs rule: linked.induct) auto

lemma linked_tl: "linked keccak c hs \<Longrightarrow> linked keccak c (tl hs)"
  by (cases "(keccak, c, hs)" rule: linked.cases) auto

lemma linked_heights:
  "linked keccak c hs \<Longrightarrow> i < length hs \<Longrightarrow> hd_height (hs ! i) = hd_height (hs ! 0) + of_nat i"
proof (induction keccak c hs arbitrary: i rule: linked.induct)
  case (1 keccak c h h' hs)
  then show ?case by (cases i) (auto simp: follows_def)
qed auto

definition chain_inv :: "(u8 list \<Rightarrow> h256) \<Rightarrow> light_client \<Rightarrow> bool" where
  "chain_inv keccak s \<longleftrightarrow> linked keccak (lc_info s) (trusted_headers s) \<and> length (trusted_headers s) \<le> 100 \<and>
     (trusted_headers s \<noteq> [] \<longrightarrow> latest_height (lc_sync s) = hd_height (last (trusted_headers s)) \<and>
        latest_timestamp (lc_sync s) = hd_time (last (trusted_headers s)))"

lemma initialize_frame:
  "trusted_headers (snd (lc_initialize s)) = trusted_headers s" "lc_info (snd (lc_initialize s)) = lc_info s"
  "latest_height (lc_sync (snd (lc_initialize s))) = latest_height (lc_sync s)"
  "latest_timestamp (lc_sync (snd (lc_initialize s))) = latest_timestamp (lc_sync s)"
  by (cases "ci_type (lc_info s)"; simp add: lc_initialize_def Let_def)+

lemma chain_inv_step:
  assumes "chain_inv keccak s"
  shows "chain_inv keccak (light_client_step keccak ed parse c s)"
proof (cases c)
  case Init_client
  with assms show ?thesis by (simp add: chain_inv_def initialize_frame)
next
  case (Update_client data)
  have trusted: "chain_inv keccak (trust_header h s)" if ok: "verify_header keccak ed h s = Ok ()" for h
  proof -
    let ?hs = "trusted_headers s @ [h]"
    have "linked keccak (lc_info s) ?hs"
      using assms ok by (intro linked_snoc) (auto simp: chain_inv_def verify_header_def split: if_splits)
    moreover from this have "linked keccak (lc_info s) (tl ?hs)" by (rule linked_tl)
    moreover have "last (tl ?hs) = h" if "100 < length ?hs"
      using that by (cases "trusted_headers s") auto
    ultimately show ?thesis
      using assms by (auto simp: chain_inv_def trust_header_def Let_def)
  qed
  show ?thesis
  proof (cases "parse data")
    case (Inl e)
    with assms Update_client show ?thesis by (simp add: update_header_def)
  next
    case (Inr h)
    with trusted [of h] assms Update_client show ?thesis
      by (cases "verify_header keccak ed h s") (simp_all add: update_header_def)
  qed
qed

interpretation headers: invariant_of "light_client_step keccak ed parse" "\<lambda>_ _. True" "chain_inv keccak"
  by unfold_locales (rule chain_inv_step)

lemma chain_inv_run: "chain_inv keccak (run (light_client_step keccak ed parse) cs (light_client_new c))"
  by (rule headers.inv_run [OF _ run_ok_always]) (simp add: chain_inv_def light_client_new_def)

lemma nth_linked: "linked keccak c hs \<Longrightarrow> Suc i < length hs \<Longrightarrow> follows keccak c (hs ! i) (hs ! Suc i)"
proof (induction keccak c hs arbitrary: i rule: linked.induct)
  case (1 keccak c h h' hs)
  then show ?case by (cases i) auto
qed auto

text \<open>
  C30: in every run the trusted headers are at most a hundred and form a chain: each has the height after its predecessor,
  names its hash and is at most two block times later; the reported height and time are those of the last one.
\<close>

theorem trusted_headers_form_a_chain:
  assumes "s = run (light_client_step keccak ed parse) cs (light_client_new c)"
  shows "length (trusted_headers s) \<le> 100 \<and>
    (\<forall>i. Suc i < length (trusted_headers s) \<longrightarrow> follows keccak (lc_info s) (trusted_headers s ! i) (trusted_headers s ! Suc i)) \<and>
    (trusted_headers s \<noteq> [] \<longrightarrow> get_latest_height s = hd_height (last (trusted_headers s)))"
  using chain_inv_run [of keccak ed parse cs c] nth_linked
  unfolding assms chain_inv_def get_latest_height_def by blast

section \<open>Merkle trees\<close>

datatype merkle_tree = MLeaf h256 | MNode merkle_tree merkle_tree

fun tree_root :: "(u8 list \<Rightarrow> h256) \<Rightarrow> merkle_tree \<Rightarrow> h256" where
  "tree_root keccak (MLeaf h) = h"
| "tree_root keccak (MNode l r) = hash_pair keccak (tree_root keccak l) (tree_root keccak r)"

text \<open>The nodes of a tree with the roots of the siblings on the way up.\<close>

fun node_paths :: "(u8 list \<Rightarrow> h256) \<Rightarrow> merkle_tree \<Rightarrow> (merkle_tree \<times> h256 list) list" where
  "node_paths keccak (MLeaf h) = [(MLeaf h, [])]"
| "node_paths keccak (MNode l r) = (MNode l r, []) #
     map (\<lambda>(t, p). (t, p @ [tree_root keccak r])) (node_paths keccak l) @
     map (\<lambda>(t, p). (t, p @ [tree_root keccak l])) (node_paths keccak r)"

lemma hash_pair_commute: "hash_pair keccak a b = hash_pair keccak b a"
  by (auto simp: hash_pair_def)

lemma node_path_root:
  "(u, p) \<in> set (node_paths keccak t) \<Longrightarrow> compute_merkle_root keccak (tree_root keccak u) p = tree_root keccak t"
proof (induction t arbitrary: u p)
  case (MNode l r)
  then show ?case
    by (auto simp: compute_merkle_root_def hash_pair_commute)
qed (simp add: compute_merkle_root_def)

lemma find_header:
  assumes "linked keccak c hs" "length hs \<le> 100" "h \<in> set hs"
  shows "find (\<lambda>h'. hd_height h' = hd_height h) hs = Some h"
proof -
  obtain k where k: "k < length hs" "hs ! k = h" using assms(3) by (auto simp: in_set_conv_nth)
  have "hd_height (hs ! j) \<noteq> hd_height h" if "j < k" for j
  proof
    assume "hd_height (hs ! j) = hd_height h"
    then have "(of_nat j :: u64) = of_nat k"
      using linked_heights [OF assms(1), of j] linked_heights [OF assms(1), of k] that k by simp
    then have "unat (of_nat j :: u64) = unat (of_nat k :: u64)" by simp
    then show False using that k assms(2) by (simp add: unat_of_nat)
  qed
  then show ?thesis using k by (auto simp: find_Some_iff)
qed

text \<open>
  When a trusted header has the root of a tree of transactions, the proof of every leaf verifies; so does the proof of
  every inner node, which is not told from a transaction.
\<close>

theorem proofs_of_all_nodes_verify:
  assumes "s = run (light_client_step keccak ed parse) cs (light_client_new c)"
    and "h \<in> set (trusted_headers s)" "hd_tx_root h = tree_root keccak t" "(u, p) \<in> set (node_paths keccak t)"
  shows "verify_transaction keccak \<lparr> mp_height = hd_height h, mp_tx = tree_root keccak u, mp_path = p,
     mp_root = tree_root keccak t \<rparr> s = Ok True"
proof -
  have "find (\<lambda>h'. hd_height h' = hd_height h) (trusted_headers s) = Some h"
    using chain_inv_run [of keccak ed parse cs c] assms(1,2) by (intro find_header) (auto simp: chain_inv_def)
  then show ?thesis using node_path_root [OF assms(4)] assms(3) by (simp add: verify_transaction_def)
qed

text \<open>
  A transaction is accepted only with a path of hashes from it to the transactions root of a trusted header of the
  height it names.
\<close>

theorem accepted_transactions_have_a_path:
  assumes "verify_transaction keccak p s = Ok True"
  shows "\<exists>h \<in> set (trusted_headers s). hd_height h = mp_height p \<and>
    foldl (hash_pair keccak) (mp_tx p) (mp_path p) = hd_tx_root h"
  using assms
  by (auto simp: verify_transaction_def compute_merkle_root_def find_Some_iff split: option.splits if_splits)

section \<open>Signatures\<close>

lemma repeated_power:
  assumes "find (\<lambda>v. lv_address v = hsig_validator sg) vs = Some v" "lc_verify_signature ed msg (hsig_bytes sg) (lv_key v)"
  shows "signed_power ed vs msg (replicate n sg) p = p + of_nat n * lv_power v"
  using assms by (induction n arbitrary: p) (simp_all add: algebra_simps)

text \<open>
  A validator outvotes all others by repeating itself: \<open>n\<close> copies of one good signature count as \<open>n\<close> times its power.
\<close>

theorem repeated_signatures_reach_the_threshold:
  assumes "set_for (hd_height h) s = Some vset" "find (\<lambda>v. lv_address v = hsig_validator sg) (vs_validators vset) = Some v"
    and "lc_verify_signature ed (hash_header keccak h) (hsig_bytes sg) (lv_key v)"
    and "unat (vs_threshold vset) \<le> n * unat (lv_power v)" "n * unat (lv_power v) < 2 ^ 64"
    and "hd_signatures h = replicate n sg"
  shows "verify_signatures keccak ed h s = Ok ()"
proof -
  have "unat (of_nat n * lv_power v) = (n * unat (lv_power v)) mod 2 ^ 64"
    by (simp add: unat_word_ariths unat_of_nat mod_mult_left_eq)
  then have "vs_threshold vset \<le> of_nat n * lv_power v"
    using assms(4,5) by (simp add: word_le_nat_alt)
  then show ?thesis
    using assms(1,6) repeated_power [OF assms(2,3), of n 0] by (simp add: verify_signatures_def not_less)
qed

text \<open>
  For chains other than EVM no validators are ever known, so a client whose chain is checked by signatures never trusts
  a header.
\<close>

theorem signed_chains_need_evm:
  assumes "ci_type c \<noteq> EVM" "ci_consensus c \<in> {ProofOfStake, BFT}"
  shows "trusted_headers (run (light_client_step keccak ed parse) cs (light_client_new c)) = []"
proof -
  have "lc_info s = c \<and> trusted_headers s = [] \<and> validator_sets s = [] \<Longrightarrow>
      trusted_headers (run (light_client_step keccak ed parse) cs s) = []" for s
  proof (induction cs arbitrary: s)
    case (Cons d cs)
    have "lc_info (light_client_step keccak ed parse d s) = c \<and> trusted_headers (light_client_step keccak ed parse d s) = [] \<and>
        validator_sets (light_client_step keccak ed parse d s) = []"
    proof (cases d)
      case Init_client
      with Cons.prems assms(1) show ?thesis by (cases "ci_type c") (simp_all add: lc_initialize_def)
    next
      case (Update_client data)
      have "verify_header keccak ed h s = Err Invalid_Proof" for h
        using Cons.prems assms(2) by (auto simp: verify_header_def verify_signatures_def set_for_def)
      with Cons.prems Update_client show ?thesis by (simp add: update_header_def split: sum.split)
    qed
    then show ?case using Cons.IH by simp
  qed simp
  then show ?thesis by (simp add: light_client_new_def)
qed

section \<open>Examples\<close>

definition sample_chain :: chain_info where
  "sample_chain = \<lparr> ci_id = 1, ci_name = [], ci_type = EVM, ci_consensus = ProofOfWork, ci_finality = 1, ci_block_time = 12 \<rparr>"

definition sample_header :: block_header where
  "sample_header = \<lparr> hd_chain = 1, hd_height = 5, hd_time = 100, hd_previous = 0, hd_state_root = 0, hd_tx_root = 7,
     hd_receipts_root = 0, hd_validators_hash = 0, hd_signatures = [] \<rparr>"

definition sample_client :: light_client where
  "sample_client = run (light_client_step (\<lambda>_. 7) (\<lambda>_ _ _. True) (\<lambda>_. Inr sample_header)) [Update_client []]
     (light_client_new sample_chain)"

lemma sample_client_simps:
  "trusted_headers sample_client = [sample_header]" "lc_info sample_client = sample_chain" "validator_sets sample_client = []"
  by (simp_all add: sample_client_def update_header_def verify_header_def verify_proof_of_work_def trust_header_def
      light_client_new_def sample_chain_def Let_def)

theorem trusted_headers_form_a_chain_witness:
  "get_latest_height sample_client = 5"
  using trusted_headers_form_a_chain [OF sample_client_def] by (simp add: sample_client_simps) (simp add: sample_header_def)

theorem proofs_of_all_nodes_verify_witness:
  "verify_transaction (\<lambda>_. 7) \<lparr> mp_height = 5, mp_tx = 1, mp_path = [2], mp_root = 7 \<rparr> sample_client = Ok True"
  using proofs_of_all_nodes_verify [OF sample_client_def, of sample_header "MNode (MLeaf 1) (MLeaf 2)" "MLeaf 1" "[2]"]
  by (simp add: sample_client_simps hash_pair_def) (simp add: sample_header_def)

theorem accepted_transactions_have_a_path_witness:
  "\<exists>h \<in> set (trusted_headers sample_client). hd_height h = 5 \<and> hash_pair (\<lambda>_. 7) 1 2 = hd_tx_root h"
proof -
  have "verify_transaction (\<lambda>_. 7) \<lparr> mp_height = 5, mp_tx = 1, mp_path = [2], mp_root = 7 \<rparr> sample_client = Ok True"
    by (simp add: verify_transaction_def sample_client_simps sample_header_def compute_merkle_root_def hash_pair_def)
  from accepted_transactions_have_a_path [OF this] show ?thesis by simp
qed

definition sample_vset :: validator_set where
  "sample_vset = \<lparr> vs_validators = [\<lparr> lv_address = 1, lv_key = replicate 32 0, lv_power = 300 \<rparr>,
     \<lparr> lv_address = 2, lv_key = replicate 32 0, lv_power = 700 \<rparr>], vs_total = 1000, vs_threshold = 667 \<rparr>"

theorem repeated_signatures_reach_the_threshold_witness:
  "verify_signatures (\<lambda>_. 7) (\<lambda>_ _ _. True)
     (sample_header\<lparr>hd_signatures := replicate 3 \<lparr> hsig_validator = 1, hsig_bytes = replicate 64 0 \<rparr>\<rparr>)
     (sample_client\<lparr>validator_sets := [(0, sample_vset)]\<rparr>) = Ok ()"
  by (rule repeated_signatures_reach_the_threshold [where vset = sample_vset and n = 3
        and v = "\<lparr> lv_address = 1, lv_key = replicate 32 0, lv_power = 300 \<rparr>"
        and sg = "\<lparr> hsig_validator = 1, hsig_bytes = replicate 64 0 \<rparr>"])
     (simp_all add: set_for_def sample_vset_def sample_header_def lc_verify_signature_def)

theorem signed_chains_need_evm_witness:
  "trusted_headers (run (light_client_step (\<lambda>_. 7) (\<lambda>_ _ _. True) (\<lambda>_. Inr sample_header)) [Init_client, Update_client []]
     (light_client_new (sample_chain\<lparr>ci_type := Cosmos, ci_consensus := BFT\<rparr>))) = []"
  by (rule signed_chains_need_evm) simp_all

end
