(* ===== verification/CrossChain.thy ===== *)
theory CrossChain
  imports BridgeProps Relayer LightClientProps
begin

text \<open>
  The cross-chain manager of \<^verbatim>\<open>src/cross_chain/mod.rs\<close>, which drives the bridge, the relayer and a light client per chain:
  transfers are initiated, verified and completed. The clocks read by the bridge and the relayer, Keccak, the signature check
  and the decoding of headers are arguments.
\<close>

section \<open>State\<close>

datatype transfer_status = Transfer_Pending | Locked | Proving | Verified | Minting | Completed | Transfer_Failed string

record pending_transfer =
  pt_id :: h256
  pt_source :: u64
  pt_destination :: u64
  pt_sender :: "u8 list"
  pt_recipient :: "u8 list"
  pt_token :: h256
  pt_amount :: u256
  pt_status :: transfer_status
  pt_proof :: "merkle_proof option"

record cross_config =
  cc_chains :: "chain_info list"
  cc_relayer :: relayer_config
  cc_bridge :: bridge_config
  cc_threshold :: u32

record cross_chain =
  xc_config :: cross_config
  xc_clients :: "u64 \<rightharpoonup> light_client"
  xc_bridge :: bridge
  xc_relayer :: relayer
  xc_transfers :: "pending_transfer list"

definition cross_chain_new :: "cross_config \<Rightarrow> cross_chain" where
  "cross_chain_new c = \<lparr> xc_config = c, xc_clients = Map.empty, xc_bridge = bridge_new (cc_bridge c),
     xc_relayer = relayer_new (cc_relayer c), xc_transfers = [] \<rparr>"

type_synonym 'a cross_result = "(cross_error, 'a) outcome \<times> cross_chain"

section \<open>Operations\<close>

text \<open>A client that cannot be initialised is not kept.\<close>

definition initialize_chain :: "chain_info \<Rightarrow> cross_chain \<Rightarrow> unit cross_result" where
  "initialize_chain c s =
     (case lc_initialize (light_client_new c) of
        (Ok _, client) \<Rightarrow> (Ok (), s\<lparr>xc_clients := (xc_clients s)(ci_id c \<mapsto> client)\<rparr>)
      | (Err e, client) \<Rightarrow> (Err e, s)
      | (Panic, client) \<Rightarrow> (Panic, s)
      | (Hang, client) \<Rightarrow> (Hang, s))"

definition initiate_transfer ::
  "(u8 list \<Rightarrow> h256) \<Rightarrow> u64 \<Rightarrow> u64 \<Rightarrow> u64 \<Rightarrow> u64 \<Rightarrow> u64 \<Rightarrow> u8 list \<Rightarrow> u8 list \<Rightarrow> h256 \<Rightarrow> u256 \<Rightarrow> cross_chain \<Rightarrow> h256 cross_result" where
  "initiate_transfer keccak t0 t1 t2 source destination sender recipient token amount s =
     (if amount < min_transfer_amount (cc_bridge (xc_config s)) then (Err AmountTooLow, s)
      else if max_transfer_amount (cc_bridge (xc_config s)) < amount then (Err AmountTooHigh, s)
      else case lock_tokens keccak t0 t1 source sender token amount (xc_bridge s) of (r, b) \<Rightarrow>
        and_then (r, s\<lparr>xc_bridge := b\<rparr>) (\<lambda>i s.
          let t = \<lparr> pt_id = i, pt_source = source, pt_destination = destination, pt_sender = sender, pt_recipient = recipient,
                    pt_token = token, pt_amount = amount, pt_status = Locked, pt_proof = None \<rparr>
          in (Ok i, s\<lparr>xc_transfers := xc_transfers s @ [t], xc_relayer := submit_transfer t2 i (xc_relayer s)\<rparr>)))"

definition find_transfer :: "h256 \<Rightarrow> cross_chain \<Rightarrow> pending_transfer option" where
  "find_transfer i s = find (\<lambda>t. pt_id t = i) (xc_transfers s)"

definition verify_transfer :: "(u8 list \<Rightarrow> h256) \<Rightarrow> h256 \<Rightarrow> cross_chain \<Rightarrow> (cross_error, bool) outcome" where
  "verify_transfer keccak i s =
     (case find_transfer i s of
        None \<Rightarrow> Err TransferNotFound
      | Some t \<Rightarrow>
          (case xc_clients s (pt_source t) of
             None \<Rightarrow> Err ChainNotSupported
           | Some client \<Rightarrow>
               (case pt_proof t of Some p \<Rightarrow> verify_transaction keccak p client | None \<Rightarrow> Ok False)))"

text \<open>The status of the transfer that was found first.\<close>

fun set_status :: "h256 \<Rightarrow> transfer_status \<Rightarrow> pending_transfer list \<Rightarrow> pending_transfer list" where
  "set_status i st [] = []"
| "set_status i st (t # ts) = (if pt_id t = i then t\<lparr>pt_status := st\<rparr> # ts else t # set_status i st ts)"

definition complete_transfer ::
  "(u8 list \<Rightarrow> h256) \<Rightarrow> h256 \<Rightarrow> u64 \<Rightarrow> h256 \<Rightarrow> cross_chain \<Rightarrow> unit cross_result" where
  "complete_transfer keccak mint_id now i s =
     (case find_transfer i s of
        None \<Rightarrow> (Err TransferNotFound, s)
      | Some t \<Rightarrow>
          if pt_status t \<noteq> Verified then (Err TransferNotVerified, s)
          else
            let s1 = s\<lparr>xc_transfers := set_status i Minting (xc_transfers s)\<rparr>
            in case mint_tokens keccak mint_id now (pt_destination t) (pt_recipient t) (pt_token t) (pt_amount t) (xc_bridge s1) of
                 (r, b) \<Rightarrow> and_then (r, s1\<lparr>xc_bridge := b\<rparr>) (\<lambda>_ s.
                   (Ok (), s\<lparr>xc_transfers := set_status i Completed (xc_transfers s)\<rparr>)))"

definition get_transfer_status :: "h256 \<Rightarrow> cross_chain \<Rightarrow> transfer_status option" where
  "get_transfer_status i s = map_option pt_status (find_transfer i s)"

definition update_light_client ::
  "(u8 list \<Rightarrow> h256) \<Rightarrow> (u8 list \<Rightarrow> h256 \<Rightarrow> u8 list \<Rightarrow> bool) \<Rightarrow> (u8 list \<Rightarrow> string + block_header) \<Rightarrow> u64 \<Rightarrow> u8 list \<Rightarrow> cross_chain
     \<Rightarrow> unit cross_result" where
  "update_light_client keccak ed parse chain data s =
     (case xc_clients s chain of
        None \<Rightarrow> (Err ChainNotSupported, s)
      | Some client \<Rightarrow>
          (case update_header keccak ed parse data client of
             (r, client') \<Rightarrow> (r, s\<lparr>xc_clients := (xc_clients s)(chain \<mapsto> client')\<rparr>)))"

section \<open>Runs\<close>

datatype cross_call =
    Add_chain chain_info
  | Initiate u64 u64 u64 u64 u64 "u8 list" "u8 list" h256 u256
  | Complete h256 u64 h256
  | Update u64 "u8 list"

fun cross_step ::
  "(u8 list \<Rightarrow> h256) \<Rightarrow> (u8 list \<Rightarrow> h256 \<Rightarrow> u8 list \<Rightarrow> bool) \<Rightarrow> (u8 list \<Rightarrow> string + block_header) \<Rightarrow> cross_call \<Rightarrow> cross_chain
     \<Rightarrow> cross_chain" where
  "cross_step keccak ed parse (Add_chain c) s = snd (initialize_chain c s)"
| "cross_step keccak ed parse (Initiate t0 t1 t2 a b sender recipient token amount) s =
     snd (initiate_transfer keccak t0 t1 t2 a b sender recipient token amount s)"
| "cross_step keccak ed parse (Complete m now i) s = snd (complete_transfer keccak m now i s)"
| "cross_step keccak ed parse (Update chain data) s = snd (update_light_client keccak ed parse chain data s)"

section \<open>What every run keeps\<close>

text \<open>A transfer that is recorded waits: locked, without a proof, its lock open and its message pending.\<close>

definition transfer_waits :: "cross_chain \<Rightarrow> pending_transfer \<Rightarrow> bool" where
  "transfer_waits s t \<longleftrightarrow> pt_status t = Locked \<and> pt_proof t = None \<and>
     (\<exists>a. map_of (locked_assets (xc_bridge s)) (pt_id t) = Some a) \<and>
     get_message_status (pt_id t) (xc_relayer s) = Some Relay_Pending"

definition cross_inv :: "cross_chain \<Rightarrow> bool" where
  "cross_inv s \<longleftrightarrow> list_all (transfer_waits s) (xc_transfers s) \<and> minted_assets (xc_bridge s) = [] \<and>
     list_all (\<lambda>(i, a). unlock_time a = None) (locked_assets (xc_bridge s)) \<and>
     list_all (\<lambda>(i, m). rl_status m = Relay_Pending) (pending_messages (xc_relayer s)) \<and> \<not> rl_active (xc_relayer s)"

lemma transfer_waits_mono:
  assumes "transfer_waits s t"
    and "locked_assets (xc_bridge s') = locked_assets (xc_bridge s) \<or>
      (\<exists>i a. locked_assets (xc_bridge s') = AList.update i a (locked_assets (xc_bridge s)))"
    and "xc_relayer s' = xc_relayer s"
  shows "transfer_waits s' t"
  using assms by (auto simp: transfer_waits_def update_conv)

lemma list_all_update:
  "list_all P xs \<Longrightarrow> P (k, v) \<Longrightarrow> list_all P (AList.update k v xs)"
  by (induction xs) (auto split: if_splits)

lemma update_pool_frame:
  "locked_assets (snd (update_liquidity_pool token amount lk b)) = locked_assets b"
  "minted_assets (snd (update_liquidity_pool token amount lk b)) = minted_assets b"
  by (auto simp: update_liquidity_pool_def Let_def split: or_panic_split)

lemma lock_tokens_frame:
  assumes "lock_tokens keccak t0 t1 chain owner token amount b = (r, b')"
  shows "minted_assets b' = minted_assets b"
    and "locked_assets b' = locked_assets b \<and> (\<forall>i. r \<noteq> Ok i) \<or>
      (\<exists>a. unlock_time a = None \<and> la_amount a = amount \<and> la_token a = token \<and> la_owner a = owner \<and> la_chain a = chain \<and>
        locked_assets b' = AList.update (generate_lock_id keccak t0 owner token amount) a (locked_assets b) \<and>
        (\<forall>i. r = Ok i \<longrightarrow> i = generate_lock_id keccak t0 owner token amount))"
proof -
  let ?i = "generate_lock_id keccak t0 owner token amount"
  let ?a = "\<lparr> la_chain = chain, la_token = token, la_owner = owner, la_amount = amount, lock_time = t1, unlock_time = None \<rparr>"
  let ?b = "b\<lparr>locked_assets := AList.update ?i ?a (locked_assets b)\<rparr>"
  let ?p = "update_liquidity_pool token amount True ?b"
  have "(r, b') = (Err AmountTooLow, b) \<or> (r, b') = (Err AmountTooHigh, b) \<or> (r, b') = and_then ?p (\<lambda>_ s. (Ok ?i, s))"
    using assms by (simp add: lock_tokens_def Let_def split: if_splits)
  moreover have "b' = snd ?p \<and> (\<forall>i. r = Ok i \<longrightarrow> i = ?i)" if "(r, b') = and_then ?p (\<lambda>_ s. (Ok ?i, s))"
    using that by (cases ?p; cases "fst ?p") auto
  ultimately have "b' = b \<and> (\<forall>i. r \<noteq> Ok i) \<or> b' = snd ?p \<and> (\<forall>i. r = Ok i \<longrightarrow> i = ?i)"
    by blast
  then consider (same) "b' = b" "\<forall>i. r \<noteq> Ok i" | (new) "b' = snd ?p" "\<forall>i. r = Ok i \<longrightarrow> i = ?i"
    by blast
  note cs = this
  from cs show "minted_assets b' = minted_assets b"
    by cases (simp_all add: update_pool_frame)
  have "unlock_time ?a = None \<and> la_amount ?a = amount \<and> la_token ?a = token \<and> la_owner ?a = owner \<and> la_chain ?a = chain"
    by simp
  moreover have "locked_assets (snd ?p) = AList.update ?i ?a (locked_assets b)"
    by (simp add: update_pool_frame)
  ultimately show "locked_assets b' = locked_assets b \<and> (\<forall>i. r \<noteq> Ok i) \<or>
      (\<exists>a. unlock_time a = None \<and> la_amount a = amount \<and> la_token a = token \<and> la_owner a = owner \<and> la_chain a = chain \<and>
        locked_assets b' = AList.update ?i a (locked_assets b) \<and> (\<forall>i. r = Ok i \<longrightarrow> i = ?i))"
    by (cases rule: cs) metis+
qed

lemma submit_transfer_frame:
  obtains m where "rl_id m = i" "rl_status m = Relay_Pending"
    "pending_messages (submit_transfer now i r) = AList.update i m (pending_messages r)"
    "rl_active (submit_transfer now i r) = rl_active r" "relayed_messages (submit_transfer now i r) = relayed_messages r"
  by (rule that [of "\<lparr> rl_id = i, rl_source = 1, rl_destination = 2, rl_nonce = fst (get_next_nonce 1 r), rl_payload = [], rl_time = now,
                  rl_confirmations = 0, rl_status = Relay_Pending, rl_retries = 0 \<rparr>"])
    (simp_all add: submit_transfer_def get_next_nonce_def Let_def)

lemma pending_after_submit:
  assumes "get_message_status i r = Some Relay_Pending \<or> i = j"
  shows "get_message_status i (submit_transfer now j r) = Some Relay_Pending"
proof -
  obtain m where "rl_status m = Relay_Pending"
    "pending_messages (submit_transfer now j r) = AList.update j m (pending_messages r)"
    "relayed_messages (submit_transfer now j r) = relayed_messages r"
    by (rule submit_transfer_frame [of j now r])
  with assms show ?thesis by (auto simp: get_message_status_def update_conv split: option.splits)
qed

text \<open>What a successful call leaves behind.\<close>

lemma initiate_cases:
  assumes "initiate_transfer keccak t0 t1 t2 source destination sender recipient token amount s = (r, s')"
  shows "xc_transfers s' = xc_transfers s \<and> xc_relayer s' = xc_relayer s \<and> minted_assets (xc_bridge s') = minted_assets (xc_bridge s) \<and>
      (\<forall>i. r \<noteq> Ok i) \<and>
      (locked_assets (xc_bridge s') = locked_assets (xc_bridge s) \<or>
       (\<exists>i a. unlock_time a = None \<and> locked_assets (xc_bridge s') = AList.update i a (locked_assets (xc_bridge s)))) \<or>
    (\<exists>i a t. r = Ok i \<and> i = generate_lock_id keccak t0 sender token amount \<and>
      minted_assets (xc_bridge s') = minted_assets (xc_bridge s) \<and>
      unlock_time a = None \<and> la_amount a = amount \<and> la_token a = token \<and> la_owner a = sender \<and> la_chain a = source \<and>
      locked_assets (xc_bridge s') = AList.update i a (locked_assets (xc_bridge s)) \<and>
      pt_id t = i \<and> pt_status t = Locked \<and> pt_proof t = None \<and> xc_transfers s' = xc_transfers s @ [t] \<and>
      xc_relayer s' = submit_transfer t2 i (xc_relayer s))"
proof (cases "amount < min_transfer_amount (cc_bridge (xc_config s)) \<or> max_transfer_amount (cc_bridge (xc_config s)) < amount")
  case True
  with assms show ?thesis by (auto simp: initiate_transfer_def split: if_splits)
next
  case False
  obtain r1 b where l: "lock_tokens keccak t0 t1 source sender token amount (xc_bridge s) = (r1, b)" by fastforce
  note frame = lock_tokens_frame [OF l]
  show ?thesis
  proof (cases "\<exists>i. r1 = Ok i")
    case True
    then obtain i where i: "r1 = Ok i" by blast
    with frame(2) obtain a where "unlock_time a = None" "la_amount a = amount" "la_token a = token" "la_owner a = sender"
      "la_chain a = source" "locked_assets b = AList.update i a (locked_assets (xc_bridge s))"
      "i = generate_lock_id keccak t0 sender token amount" by auto
    with frame(1) False assms l i show ?thesis by (auto simp: initiate_transfer_def Let_def split: if_splits)
  next
    case not_ok: False
    then have s': "s' = s\<lparr>xc_bridge := b\<rparr>" and r: "\<forall>i. r \<noteq> Ok i"
      using False assms l by (cases r1; auto simp: initiate_transfer_def split: if_splits)+
    with frame show ?thesis by auto
  qed
qed

lemma find_waiting: "cross_inv s \<Longrightarrow> find_transfer i s = Some t \<Longrightarrow> transfer_waits s t"
  by (auto simp: cross_inv_def find_transfer_def list_all_iff find_Some_iff)

lemma complete_refused: "cross_inv s \<Longrightarrow> complete_transfer keccak m now i s =
    (Err (if find_transfer i s = None then TransferNotFound else TransferNotVerified), s)"
  using find_waiting [of s i] by (auto simp: complete_transfer_def transfer_waits_def split: option.split)

lemma cross_inv_initiate:
  assumes inv: "cross_inv s"
  shows "cross_inv (snd (initiate_transfer keccak t0 t1 t2 source destination sender recipient token amount s))"
proof -
  obtain r s' where c: "initiate_transfer keccak t0 t1 t2 source destination sender recipient token amount s = (r, s')" by fastforce
  from initiate_cases [OF c] have "cross_inv s'"
  proof (elim disjE exE conjE)
    assume "xc_transfers s' = xc_transfers s" "xc_relayer s' = xc_relayer s" "minted_assets (xc_bridge s') = minted_assets (xc_bridge s)"
      "locked_assets (xc_bridge s') = locked_assets (xc_bridge s)"
    with inv show ?thesis by (auto simp: cross_inv_def transfer_waits_def list_all_iff)
  next
    fix i a
    assume "xc_transfers s' = xc_transfers s" "xc_relayer s' = xc_relayer s" "minted_assets (xc_bridge s') = minted_assets (xc_bridge s)"
      "unlock_time a = None" "locked_assets (xc_bridge s') = AList.update i a (locked_assets (xc_bridge s))"
    with inv show ?thesis by (auto simp: cross_inv_def transfer_waits_def update_conv list_all_update elim!: list.pred_mono_strong)
  next
    fix i a t
    assume new: "minted_assets (xc_bridge s') = minted_assets (xc_bridge s)" "unlock_time a = None"
      "locked_assets (xc_bridge s') = AList.update i a (locked_assets (xc_bridge s))" "pt_id t = i" "pt_status t = Locked"
      "pt_proof t = None" "xc_transfers s' = xc_transfers s @ [t]" "xc_relayer s' = submit_transfer t2 i (xc_relayer s)"
    obtain m where m: "rl_status m = Relay_Pending" "pending_messages (submit_transfer t2 i (xc_relayer s)) = AList.update i m (pending_messages (xc_relayer s))"
      "rl_active (submit_transfer t2 i (xc_relayer s)) = rl_active (xc_relayer s)"
      by (rule submit_transfer_frame [of i t2 "xc_relayer s"])
    have "transfer_waits s' u" if "transfer_waits s u" for u
      using that by (auto simp: transfer_waits_def new update_conv pending_after_submit)
    moreover have "transfer_waits s' t" by (simp add: transfer_waits_def new update_conv pending_after_submit)
    ultimately show ?thesis
      using inv by (auto simp: cross_inv_def new m list_all_update elim!: list.pred_mono_strong)
  qed
  then show ?thesis by (simp add: c)
qed

lemma cross_inv_clients: "cross_inv s \<Longrightarrow> cross_inv (s\<lparr>xc_clients := c\<rparr>)"
  by (simp add: cross_inv_def transfer_waits_def [abs_def])

lemma cross_inv_initialize: "cross_inv s \<Longrightarrow> cross_inv (snd (initialize_chain i s))"
  by (simp add: initialize_chain_def cross_inv_clients split: prod.split outcome.split)

lemma cross_inv_update: "cross_inv s \<Longrightarrow> cross_inv (snd (update_light_client keccak ed parse n data s))"
  by (simp add: update_light_client_def cross_inv_clients split: prod.split option.split)

lemma cross_inv_step: "cross_inv s \<Longrightarrow> cross_inv (cross_step keccak ed parse c s)"
  by (cases c) (simp_all add: cross_inv_initiate cross_inv_initialize cross_inv_update complete_refused)

interpretation transfers: invariant_of "cross_step keccak ed parse" "\<lambda>_ _. True" cross_inv
  by unfold_locales (rule cross_inv_step)

lemma cross_inv_new: "cross_inv (cross_chain_new c)"
  by (simp add: cross_inv_def cross_chain_new_def bridge_new_def relayer_new_def)

lemma cross_inv_run: "cross_inv (run (cross_step keccak ed parse) cs (cross_chain_new c))"
  by (rule transfers.inv_run [OF cross_inv_new run_ok_always])

section \<open>Transfers\<close>

text \<open>
  A transfer the manager accepts is within the limits, holds its amount in an open lock of the sender, is reported as
  locked, and its message waits at the relayer; transfers recorded before are reported as before.
\<close>

theorem initiated_transfers_are_locked:
  assumes "s = run (cross_step keccak ed parse) cs (cross_chain_new c)"
    and "initiate_transfer keccak t0 t1 t2 source destination sender recipient token amount s = (Ok i, s')"
  shows "amount \<in> {min_transfer_amount (cc_bridge (xc_config s)) .. max_transfer_amount (cc_bridge (xc_config s))} \<and>
    (\<exists>a. map_of (locked_assets (xc_bridge s')) i = Some a \<and> la_amount a = amount \<and> la_token a = token \<and> la_owner a = sender \<and>
      unlock_time a = None) \<and>
    get_transfer_status i s' = Some Locked \<and> get_message_status i (xc_relayer s') = Some Relay_Pending \<and>
    (\<forall>j. j \<noteq> i \<longrightarrow> get_transfer_status j s' = get_transfer_status j s)"
proof -
  have inv: "cross_inv s'"
    using cross_inv_initiate [OF cross_inv_run [of keccak ed parse cs c], of keccak t0 t1 t2 source destination sender recipient token amount] assms
    by simp
  have amount: "\<not> amount < min_transfer_amount (cc_bridge (xc_config s))" "\<not> max_transfer_amount (cc_bridge (xc_config s)) < amount"
    using assms(2) by (auto simp: initiate_transfer_def split: if_splits)
  from initiate_cases [OF assms(2)] obtain a t where new: "unlock_time a = None" "la_amount a = amount" "la_token a = token"
    "la_owner a = sender" "locked_assets (xc_bridge s') = AList.update i a (locked_assets (xc_bridge s))" "pt_id t = i"
    "xc_transfers s' = xc_transfers s @ [t]" by auto
  have "find_transfer i s' \<noteq> None"
    by (auto simp: find_transfer_def new find_None_iff)
  then obtain u where u: "find_transfer i s' = Some u" by blast
  moreover have "pt_id u = i" using u by (auto simp: find_transfer_def find_Some_iff)
  moreover have "transfer_waits s' u" by (rule find_waiting [OF inv u])
  moreover have "find_transfer j s' = find_transfer j s" if "j \<noteq> i" for j
  proof -
    have "find (\<lambda>t. pt_id t = j) (ts @ [t]) = find (\<lambda>t. pt_id t = j) ts" for ts
      using that new(6) by (induction ts) auto
    then show ?thesis by (simp add: find_transfer_def new)
  qed
  ultimately show ?thesis
    using amount new(1-4) by (auto simp: get_transfer_status_def transfer_waits_def new(5) update_conv not_less)
qed

text \<open>
  C29: in every run of the manager no transfer gets further than locked: verification never answers yes, completion is always
  refused and changes nothing, nothing is minted, no lock is released, and no message leaves the relayer's pending ones.
\<close>

theorem transfers_never_complete:
  assumes "s = run (cross_step keccak ed parse) cs (cross_chain_new c)"
  shows "verify_transfer keccak i s \<noteq> Ok True \<and>
    complete_transfer keccak m now i s = (Err (if find_transfer i s = None then TransferNotFound else TransferNotVerified), s) \<and>
    get_transfer_status i s \<in> {None, Some Locked} \<and>
    minted_assets (xc_bridge s) = [] \<and>
    (\<forall>a. map_of (locked_assets (xc_bridge s)) i = Some a \<longrightarrow> unlock_time a = None) \<and>
    (get_transfer_status i s = Some Locked \<longrightarrow> get_message_status i (xc_relayer s) = Some Relay_Pending)"
proof -
  have inv: "cross_inv s" unfolding assms by (rule cross_inv_run)
  have w: "transfer_waits s t \<and> pt_id t = i" if "find_transfer i s = Some t" for t
    using find_waiting [OF inv that] that by (auto simp: find_transfer_def find_Some_iff)
  have "unlock_time a = None" if "map_of (locked_assets (xc_bridge s)) i = Some a" for a
    using inv map_of_SomeD [OF that] by (auto simp: cross_inv_def list_all_iff)
  moreover have "verify_transfer keccak i s \<noteq> Ok True"
    using w by (auto simp: verify_transfer_def transfer_waits_def split: option.split)
  moreover have "minted_assets (xc_bridge s) = []" using inv by (simp add: cross_inv_def)
  moreover have "get_transfer_status i s \<in> {None, Some Locked} \<and>
      (get_transfer_status i s = Some Locked \<longrightarrow> get_message_status i (xc_relayer s) = Some Relay_Pending)"
    using w by (cases "find_transfer i s") (auto simp: get_transfer_status_def transfer_waits_def)
  ultimately show ?thesis using complete_refused [OF inv] by auto
qed

section \<open>Examples\<close>

definition sample_cross_config :: cross_config where
  "sample_cross_config = \<lparr> cc_chains = [], cc_relayer = sample_relayer_config,
     cc_bridge = \<lparr> escrow_address = 0, fee_basis_points = 10, min_transfer_amount = 10, max_transfer_amount = 1000, supported_tokens = [] \<rparr>,
     cc_threshold = 2 \<rparr>"

definition sample_transfer :: "h256 cross_result" where
  "sample_transfer = initiate_transfer (\<lambda>_. 7) 1 1 1 1 2 [1] [2] 3 100 (cross_chain_new sample_cross_config)"

lemma sample_transfer_Ok: "sample_transfer = (Ok 7, snd sample_transfer)"
  by (simp add: sample_transfer_def initiate_transfer_def lock_tokens_def update_liquidity_pool_def pool_of_def bridge_pool_new_def
      generate_lock_id_def cross_chain_new_def bridge_new_def sample_cross_config_def uadd_def Let_def)

theorem initiated_transfers_are_locked_witness:
  "get_transfer_status 7 (snd sample_transfer) = Some Locked"
  using initiated_transfers_are_locked [OF run.simps(1) [symmetric], OF sample_transfer_Ok [unfolded sample_transfer_def]]
  by (simp add: sample_transfer_def)

theorem transfers_never_complete_witness:
  "verify_transfer (\<lambda>_. 7) 7 (snd sample_transfer) \<noteq> Ok True \<and> get_transfer_status 7 (snd sample_transfer) = Some Locked"
proof -
  have s: "snd sample_transfer = run (cross_step (\<lambda>_. 7) (\<lambda>_ _ _. True) (\<lambda>_. Inl [])) [Initiate 1 1 1 1 2 [1] [2] 3 100]
      (cross_chain_new sample_cross_config)" by (simp add: sample_transfer_def)
  have found: "get_transfer_status 7 (snd sample_transfer) \<noteq> None"
    by (simp add: sample_transfer_def initiate_transfer_def lock_tokens_def update_liquidity_pool_def pool_of_def bridge_pool_new_def
      generate_lock_id_def cross_chain_new_def bridge_new_def sample_cross_config_def uadd_def get_transfer_status_def
      find_transfer_def Let_def)
  from transfers_never_complete [OF s, of 7 1 1]
  have "verify_transfer (\<lambda>_. 7) 7 (snd sample_transfer) \<noteq> Ok True" "get_transfer_status 7 (snd sample_transfer) \<in> {None, Some Locked}"
    by simp_all
  with found show ?thesis by auto
qed

end
