(* ===== verification/MemoryCache.thy ===== *)
theory MemoryCache
  imports Prelude "HOL-Library.Multiset"
begin

text \<open>
  The memory cache of \<^verbatim>\<open>src/storage/cache.rs\<close>: values under string keys, evicted in the order of a queue when the sum of their
  sizes would exceed a bound. Sizes are numbers; that the subtractions are exact is part of the invariant. Instants are
  nanoseconds and arguments. The maps are iterated over, so they are association lists.
\<close>

section \<open>State\<close>

record cache_entry =
  ce_value :: "u8 list"
  ce_size :: nat
  last_access :: nat
  ce_count :: nat

record mem_cache =
  cache_data :: "(string \<times> cache_entry) list"
  lru_queue :: "string list"
  max_bytes :: nat
  current_bytes :: nat
  access_counts :: "(string \<times> nat) list"

definition mem_cache_new :: "nat \<Rightarrow> mem_cache" where
  "mem_cache_new n = \<lparr> cache_data = [], lru_queue = [], max_bytes = n, current_bytes = 0, access_counts = [] \<rparr>"

section \<open>Reading\<close>

definition mem_get :: "nat \<Rightarrow> string \<Rightarrow> mem_cache \<Rightarrow> u8 list option \<times> mem_cache" where
  "mem_get now key s =
     (case map_of (cache_data s) key of
        None \<Rightarrow> (None, s)
      | Some e \<Rightarrow> (Some (ce_value e),
          s\<lparr>cache_data := AList.update key (e\<lparr>last_access := now, ce_count := ce_count e + 1\<rparr>) (cache_data s),
            lru_queue := filter (\<lambda>k. k \<noteq> key) (lru_queue s) @ [key],
            access_counts := AList.update key
              ((case map_of (access_counts s) key of None \<Rightarrow> 0 | Some n \<Rightarrow> n) + 1) (access_counts s)\<rparr>))"

fun mem_prefetch :: "(nat \<Rightarrow> nat) \<Rightarrow> nat \<Rightarrow> string list \<Rightarrow> mem_cache \<Rightarrow> u8 list option list \<times> mem_cache" where
  "mem_prefetch clock i [] s = ([], s)"
| "mem_prefetch clock i (k # ks) s =
     (case mem_get (clock i) k s of (v, s1) \<Rightarrow> (case mem_prefetch clock (Suc i) ks s1 of (vs, s2) \<Rightarrow> (v # vs, s2)))"

definition mem_batch_get :: "string list \<Rightarrow> mem_cache \<Rightarrow> u8 list option list" where
  "mem_batch_get ks s = map (\<lambda>k. map_option ce_value (map_of (cache_data s) k)) ks"

section \<open>Removing\<close>

text \<open>The entry leaves the data and its size the sum.\<close>

definition drop_entry :: "string \<Rightarrow> cache_entry \<Rightarrow> mem_cache \<Rightarrow> mem_cache" where
  "drop_entry key e s = s\<lparr>cache_data := AList.delete key (cache_data s), current_bytes := current_bytes s - ce_size e\<rparr>"

definition mem_remove :: "string \<Rightarrow> mem_cache \<Rightarrow> mem_cache" where
  "mem_remove key s =
     (case map_of (cache_data s) key of
        None \<Rightarrow> s
      | Some e \<Rightarrow> (drop_entry key e s)\<lparr>lru_queue := filter (\<lambda>k. k \<noteq> key) (lru_queue s),
          access_counts := AList.delete key (access_counts s)\<rparr>)"

text \<open>The first key of the queue is taken out, also when it is not cached any more or was put again later.\<close>

definition evict_one :: "mem_cache \<Rightarrow> mem_cache" where
  "evict_one s =
     (case lru_queue s of
        [] \<Rightarrow> s
      | key # q \<Rightarrow>
          (case map_of (cache_data s) key of
             None \<Rightarrow> s\<lparr>lru_queue := q\<rparr>
           | Some e \<Rightarrow> (drop_entry key e s)\<lparr>lru_queue := q, access_counts := AList.delete key (access_counts s)\<rparr>))"

text \<open>With an empty queue the loop would never end: \<open>None\<close>.\<close>

function evict_until :: "nat \<Rightarrow> mem_cache \<Rightarrow> mem_cache option" where
  "evict_until n s =
     (if current_bytes s + n \<le> max_bytes s then Some s
      else if lru_queue s = [] then None
      else evict_until n (evict_one s))"
  by pat_completeness auto

termination
  by (relation "measure (\<lambda>(n, s). length (lru_queue s))")
    (auto simp: evict_one_def drop_entry_def neq_Nil_conv split: option.split)

declare evict_until.simps [simp del]

definition is_cold :: "nat \<Rightarrow> cache_entry \<Rightarrow> bool" where
  "is_cold now e \<longleftrightarrow> 300 * 10 ^ 9 < now - last_access e"

definition evict_cold_entries :: "nat \<Rightarrow> mem_cache \<Rightarrow> mem_cache" where
  "evict_cold_entries now s =
     (let cold = filter (\<lambda>(k, e). is_cold now e) (cache_data s); gone = map fst cold
      in s\<lparr>cache_data := filter (\<lambda>(k, e). k \<notin> set gone) (cache_data s),
           current_bytes := current_bytes s - sum_list (map (\<lambda>(k, e). ce_size e) cold),
           lru_queue := filter (\<lambda>k. k \<notin> set gone) (lru_queue s),
           access_counts := filter (\<lambda>(k, n). k \<notin> set gone) (access_counts s)\<rparr>)"

definition mem_clear :: "mem_cache \<Rightarrow> mem_cache" where
  "mem_clear s = s\<lparr>cache_data := [], lru_queue := [], access_counts := [], current_bytes := 0\<rparr>"

section \<open>Writing\<close>

text \<open>The queue keeps the earlier occurrences of a key that is put again.\<close>

definition mem_put :: "nat \<Rightarrow> string \<Rightarrow> u8 list \<Rightarrow> mem_cache \<Rightarrow> (unit, unit) outcome \<times> mem_cache" where
  "mem_put now key v s =
     (let n = length v in
      if max_bytes s < n then (Ok (), s)
      else
        let s1 = (case map_of (cache_data s) key of None \<Rightarrow> s | Some e \<Rightarrow> drop_entry key e s)
        in case evict_until n s1 of
             None \<Rightarrow> (Hang, s1)
           | Some s2 \<Rightarrow>
               let e = \<lparr> ce_value = v, ce_size = n, last_access = now, ce_count = 1 \<rparr>
               in (Ok (), s2\<lparr>cache_data := AList.update key e (cache_data s2), current_bytes := current_bytes s2 + n,
                            lru_queue := lru_queue s2 @ [key]\<rparr>))"

fun mem_batch_put :: "(nat \<Rightarrow> nat) \<Rightarrow> nat \<Rightarrow> (string \<times> u8 list) list \<Rightarrow> mem_cache \<Rightarrow> (unit, unit) outcome \<times> mem_cache" where
  "mem_batch_put clock i [] s = (Ok (), s)"
| "mem_batch_put clock i ((k, v) # items) s = and_then (mem_put (clock i) k v s) (\<lambda>_ s. mem_batch_put clock (Suc i) items s)"

section \<open>Reports\<close>

definition mem_size :: "mem_cache \<Rightarrow> nat" where
  "mem_size s = current_bytes s"

definition mem_entry_count :: "mem_cache \<Rightarrow> nat" where
  "mem_entry_count s = length (cache_data s)"

definition get_hot_keys :: "nat \<Rightarrow> mem_cache \<Rightarrow> (string \<times> nat) list" where
  "get_hot_keys n s = take n (sort_key (\<lambda>(k, c). - int c) (access_counts s))"

record cache_stats =
  total_entries :: nat
  total_bytes :: nat
  stats_max :: nat
  hot_entries :: nat
  cold_entries :: nat

definition mem_stats :: "nat \<Rightarrow> mem_cache \<Rightarrow> cache_stats" where
  "mem_stats now s =
     (let hot = filter (\<lambda>(k, e). now - last_access e < 60 * 10 ^ 9) (cache_data s)
      in \<lparr> total_entries = length (cache_data s), total_bytes = current_bytes s, stats_max = max_bytes s,
           hot_entries = length hot, cold_entries = length (cache_data s) - length hot \<rparr>)"

section \<open>Runs\<close>

datatype cache_call =
    Cache_get nat string
  | Cache_put nat string "u8 list"
  | Cache_remove string
  | Cache_evict nat
  | Cache_clear

fun cache_step :: "cache_call \<Rightarrow> mem_cache \<Rightarrow> mem_cache" where
  "cache_step (Cache_get now k) s = snd (mem_get now k s)"
| "cache_step (Cache_put now k v) s = snd (mem_put now k v s)"
| "cache_step (Cache_remove k) s = mem_remove k s"
| "cache_step (Cache_evict now) s = evict_cold_entries now s"
| "cache_step Cache_clear s = mem_clear s"

section \<open>The invariant\<close>

definition bytes_of :: "(string \<times> cache_entry) list \<Rightarrow> nat" where
  "bytes_of m = (\<Sum>(k, e) \<leftarrow> m. ce_size e)"

lemma bytes_of_simps [simp]: "bytes_of [] = 0" "bytes_of ((k, e) # m) = ce_size e + bytes_of m"
  by (simp_all add: bytes_of_def)

lemma bytes_of_delete: "distinct (map fst m) \<Longrightarrow> map_of m k = Some e \<Longrightarrow> bytes_of (AList.delete k m) + ce_size e = bytes_of m"
proof (induction m)
  case (Cons x m)
  obtain j f where x: "x = (j, f)" by (cases x)
  show ?case
  proof (cases "j = k")
    case True
    with Cons.prems(1) have "AList.delete k m = m" by (auto simp: x delete_conv' intro: delete_id)
    with True Cons.prems(2) show ?thesis by (simp add: x)
  next
    case False
    with Cons show ?thesis by (simp add: x)
  qed
qed simp

lemma bytes_of_update_fresh: "k \<notin> fst ` set m \<Longrightarrow> bytes_of (AList.update k e m) = bytes_of m + ce_size e"
  by (induction m) auto

lemma bytes_of_filter: "bytes_of (filter P m) + bytes_of (filter (\<lambda>x. \<not> P x) m) = bytes_of m"
  by (induction m) auto

definition cache_wf :: "mem_cache \<Rightarrow> bool" where
  "cache_wf s \<longleftrightarrow> distinct (map fst (cache_data s)) \<and> current_bytes s = bytes_of (cache_data s) \<and>
     current_bytes s \<le> max_bytes s \<and> fst ` set (cache_data s) \<subseteq> set (lru_queue s) \<and>
     (\<forall>(k, e) \<in> set (cache_data s). ce_size e = length (ce_value e))"

lemma cache_wfD:
  assumes "cache_wf s" "map_of (cache_data s) k = Some e"
  shows "ce_size e \<le> current_bytes s" "current_bytes (drop_entry k e s) = bytes_of (cache_data (drop_entry k e s))"
    "k \<in> set (lru_queue s)" "ce_size e = length (ce_value e)"
proof -
  have d: "bytes_of (AList.delete k (cache_data s)) + ce_size e = current_bytes s"
    using assms bytes_of_delete [of "cache_data s" k e] by (simp add: cache_wf_def)
  then show "ce_size e \<le> current_bytes s" "current_bytes (drop_entry k e s) = bytes_of (cache_data (drop_entry k e s))"
    by (simp_all add: drop_entry_def)
  show "k \<in> set (lru_queue s)" "ce_size e = length (ce_value e)"
    using assms map_of_SomeD [OF assms(2)] by (auto simp: cache_wf_def intro: rev_image_eqI)
qed

lemma bytes_of_update_same: "map_of m k = Some e \<Longrightarrow> ce_size f = ce_size e \<Longrightarrow> bytes_of (AList.update k f m) = bytes_of m"
  by (induction m) (auto split: if_splits)

text \<open>A smaller cache: its entries are entries of the other one.\<close>

definition shrunk :: "mem_cache \<Rightarrow> mem_cache \<Rightarrow> bool" where
  "shrunk s s' \<longleftrightarrow> max_bytes s' = max_bytes s \<and> current_bytes s' \<le> current_bytes s \<and>
     (\<forall>k e. map_of (cache_data s') k = Some e \<longrightarrow> map_of (cache_data s) k = Some e)"

lemma shrunk_refl: "shrunk s s"
  by (simp add: shrunk_def)

lemma shrunk_trans: "shrunk s s1 \<Longrightarrow> shrunk s1 s2 \<Longrightarrow> shrunk s s2"
  by (auto simp: shrunk_def)

lemma set_delete: "set (AList.delete k m) = {x \<in> set m. fst x \<noteq> k}"
  by (auto simp: AList.delete_eq)

lemma wf_drop_entry:
  assumes "cache_wf s" "map_of (cache_data s) k = Some e"
  shows "cache_wf (drop_entry k e s)" "shrunk s (drop_entry k e s)" "map_of (cache_data (drop_entry k e s)) k = None"
proof -
  have "current_bytes (drop_entry k e s) = bytes_of (cache_data (drop_entry k e s))" by (rule cache_wfD(2) [OF assms])
  then show "cache_wf (drop_entry k e s)"
    using assms(1) by (auto simp: cache_wf_def drop_entry_def set_delete distinct_delete)
  show "shrunk s (drop_entry k e s)" "map_of (cache_data (drop_entry k e s)) k = None"
    by (auto simp: shrunk_def drop_entry_def delete_conv' split: if_splits)
qed

lemma wf_queue:
  assumes "cache_wf s" "fst ` set (cache_data s) \<subseteq> set q"
  shows "cache_wf (s\<lparr>lru_queue := q, access_counts := a\<rparr>)"
  using assms by (simp add: cache_wf_def)

lemma evict_one_wf: "cache_wf s \<Longrightarrow> cache_wf (evict_one s) \<and> shrunk s (evict_one s)"
proof (cases "lru_queue s")
  case (Cons k q)
  assume wf: "cache_wf s"
  then have sub: "fst ` set (cache_data s) \<subseteq> insert k (set q)" by (simp add: cache_wf_def Cons)
  show ?thesis
  proof (cases "map_of (cache_data s) k")
    case None
    then have "fst ` set (cache_data s) \<subseteq> set q" using sub by (auto simp: map_of_eq_None_iff)
    with wf None Cons show ?thesis by (auto simp: evict_one_def cache_wf_def shrunk_def)
  next
    case (Some e)
    note d = wf_drop_entry [OF wf Some]
    have "fst ` set (cache_data (drop_entry k e s)) \<subseteq> set q" using sub by (auto simp: drop_entry_def set_delete)
    with d(1) have "cache_wf ((drop_entry k e s)\<lparr>lru_queue := q, access_counts := AList.delete k (access_counts s)\<rparr>)"
      by (rule wf_queue)
    moreover have "shrunk s ((drop_entry k e s)\<lparr>lru_queue := q, access_counts := AList.delete k (access_counts s)\<rparr>)"
      using d(2) by (simp add: shrunk_def)
    ultimately show ?thesis by (simp add: evict_one_def Cons Some)
  qed
qed (simp add: evict_one_def shrunk_refl)

lemma wf_empty_queue: "cache_wf s \<Longrightarrow> lru_queue s = [] \<Longrightarrow> current_bytes s = 0"
  by (simp add: cache_wf_def)

lemma evict_until_ends:
  "cache_wf s \<Longrightarrow> n \<le> max_bytes s \<Longrightarrow>
     \<exists>s'. evict_until n s = Some s' \<and> cache_wf s' \<and> shrunk s s' \<and> current_bytes s' + n \<le> max_bytes s"
proof (induction n s rule: evict_until.induct)
  case (1 n s)
  show ?case
  proof (cases "current_bytes s + n \<le> max_bytes s")
    case True
    with "1.prems" show ?thesis by (simp add: evict_until.simps [of n s] shrunk_refl)
  next
    case False
    then have q: "lru_queue s \<noteq> []" using "1.prems" wf_empty_queue by force
    have e: "cache_wf (evict_one s)" "shrunk s (evict_one s)" using evict_one_wf [OF "1.prems"(1)] by simp_all
    then have m: "max_bytes (evict_one s) = max_bytes s" by (simp add: shrunk_def)
    with "1.IH" [OF False q e(1)] "1.prems"(2) obtain s' where "evict_until n (evict_one s) = Some s'" "cache_wf s'"
        "shrunk (evict_one s) s'" "current_bytes s' + n \<le> max_bytes s" by auto
    with False q shrunk_trans [OF e(2)] show ?thesis by (auto simp: evict_until.simps [of n s])
  qed
qed

section \<open>Writing and reading\<close>

lemma put_Ok:
  assumes "cache_wf s" "length v \<le> max_bytes s"
  obtains s' e where "mem_put now k v s = (Ok (), s')" "cache_wf s'" "max_bytes s' = max_bytes s"
    "map_of (cache_data s') k = Some e" "ce_value e = v"
    "\<And>j f. j \<noteq> k \<Longrightarrow> map_of (cache_data s') j = Some f \<Longrightarrow> map_of (cache_data s) j = Some f"
proof -
  define s1 where "s1 = (case map_of (cache_data s) k of None \<Rightarrow> s | Some e \<Rightarrow> drop_entry k e s)"
  have s1: "cache_wf s1" "shrunk s s1" "map_of (cache_data s1) k = None"
    using assms(1) wf_drop_entry [OF assms(1)] by (auto simp: s1_def shrunk_refl split: option.split)
  then have max1: "max_bytes s1 = max_bytes s" by (simp add: shrunk_def)
  obtain s2 where s2: "evict_until (length v) s1 = Some s2" "cache_wf s2" "shrunk s1 s2" "current_bytes s2 + length v \<le> max_bytes s"
    using evict_until_ends [OF s1(1), of "length v"] assms(2) max1 by auto
  let ?e = "\<lparr> ce_value = v, ce_size = length v, last_access = now, ce_count = 1 \<rparr>"
  define s' where "s' = s2\<lparr>cache_data := AList.update k ?e (cache_data s2), current_bytes := current_bytes s2 + length v,
      lru_queue := lru_queue s2 @ [k]\<rparr>"
  have k: "map_of (cache_data s2) k = None" using s1(3) s2(3) by (cases "map_of (cache_data s2) k") (auto simp: shrunk_def)
  then have kk: "k \<notin> fst ` set (cache_data s2)" by (simp add: map_of_eq_None_iff)
  have "cache_wf s'"
    using s2(2,4) k kk max1 s2(3) set_update_sub [of k ?e "cache_data s2"]
    by (auto simp: s'_def cache_wf_def bytes_of_update_fresh dom_update distinct_update shrunk_def)
  moreover have "mem_put now k v s = (Ok (), s')"
    using assms(2) s2(1) by (simp add: mem_put_def s1_def [symmetric] s'_def Let_def)
  moreover have "map_of (cache_data s') k = Some ?e" "max_bytes s' = max_bytes s"
    using s2(3) max1 by (simp_all add: s'_def update_conv' shrunk_def)
  moreover have "map_of (cache_data s) j = Some f" if "j \<noteq> k" "map_of (cache_data s') j = Some f" for j f
    using that s2(3) s1(2) by (simp add: s'_def update_conv' shrunk_def)
  ultimately show thesis using that by auto
qed

text \<open>What the calls do to a plain map, from which nothing is ever evicted.\<close>

fun store_call :: "nat \<Rightarrow> cache_call \<Rightarrow> (string \<rightharpoonup> u8 list) \<Rightarrow> (string \<rightharpoonup> u8 list)" where
  "store_call n (Cache_put now k v) m = (if length v \<le> n then m(k \<mapsto> v) else m)"
| "store_call n (Cache_remove k) m = m(k := None)"
| "store_call n Cache_clear m = Map.empty"
| "store_call n _ m = m"

definition cached :: "mem_cache \<Rightarrow> (string \<rightharpoonup> u8 list)" where
  "cached s = (\<lambda>k. map_option ce_value (map_of (cache_data s) k))"

definition mem_ok :: "nat \<Rightarrow> mem_cache \<Rightarrow> (string \<rightharpoonup> u8 list) \<Rightarrow> bool" where
  "mem_ok n s m \<longleftrightarrow> cache_wf s \<and> max_bytes s = n \<and> cached s \<subseteq>\<^sub>m m"

lemma mem_okI:
  assumes "cache_wf s" "max_bytes s = n" "\<And>k e. map_of (cache_data s) k = Some e \<Longrightarrow> m k = Some (ce_value e)"
  shows "mem_ok n s m"
  using assms by (auto simp: mem_ok_def cached_def map_le_def)

lemma mem_okD:
  assumes "mem_ok n s m"
  shows "cache_wf s" "max_bytes s = n" "\<And>k e. map_of (cache_data s) k = Some e \<Longrightarrow> m k = Some (ce_value e)"
  using assms by (auto simp: mem_ok_def cached_def map_le_def dom_def)

lemma mem_ok_get:
  assumes "mem_ok n s m"
  shows "mem_ok n (snd (mem_get now k s)) m"
proof (cases "map_of (cache_data s) k")
  case None
  with assms show ?thesis by (simp add: mem_get_def)
next
  case (Some e)
  note ok = mem_okD [OF assms]
  let ?e = "e\<lparr>last_access := now, ce_count := ce_count e + 1\<rparr>"
  let ?m = "AList.update k ?e (cache_data s)"
  have d: "distinct (map fst (cache_data s))" using ok(1) by (simp add: cache_wf_def)
  have k: "k \<in> fst ` set (cache_data s)" using map_of_SomeD [OF Some] by (force intro: rev_image_eqI)
  have dom: "fst ` set ?m = fst ` set (cache_data s)" using k by (auto simp: dom_update)
  have "bytes_of ?m = bytes_of (cache_data s)" by (rule bytes_of_update_same [OF Some]) simp
  moreover have "\<forall>(k, e) \<in> set ?m. ce_size e = length (ce_value e)"
    using set_update_sub [of k ?e "cache_data s"] ok(1) cache_wfD(4) [OF ok(1) Some] by (fastforce simp: cache_wf_def)
  ultimately have "cache_wf (snd (mem_get now k s))"
    using ok(1) Some d dom by (auto simp: mem_get_def cache_wf_def distinct_update)
  then show ?thesis
    by (rule mem_okI) (use ok(2) ok(3) Some in \<open>auto simp: mem_get_def update_conv' split: if_splits\<close>)
qed

lemma mem_ok_put:
  assumes "mem_ok n s m"
  shows "mem_ok n (snd (mem_put now k v s)) (store_call n (Cache_put now k v) m)"
proof (cases "length v \<le> n")
  case True
  with mem_okD(1,2) [OF assms] obtain s' e where "mem_put now k v s = (Ok (), s')" "cache_wf s'" "max_bytes s' = n"
    "map_of (cache_data s') k = Some e" "ce_value e = v"
    "\<And>j f. j \<noteq> k \<Longrightarrow> map_of (cache_data s') j = Some f \<Longrightarrow> map_of (cache_data s) j = Some f"
    using put_Ok [where s = s and v = v and now = now and k = k] by metis
  with True mem_okD(3) [OF assms] show ?thesis by (auto intro!: mem_okI)
next
  case False
  with assms mem_okD(2) [OF assms] show ?thesis by (simp add: mem_put_def)
qed

lemma mem_ok_remove:
  assumes "mem_ok n s m"
  shows "mem_ok n (mem_remove k s) (m(k := None))"
proof (cases "map_of (cache_data s) k")
  case None
  with assms show ?thesis by (auto simp: mem_remove_def intro!: mem_okI dest: mem_okD)
next
  case (Some e)
  note ok = mem_okD [OF assms] and d = wf_drop_entry [OF mem_okD(1) [OF assms] Some]
  have "fst ` set (cache_data (drop_entry k e s)) \<subseteq> set (filter (\<lambda>j. j \<noteq> k) (lru_queue s))"
    using ok(1) by (auto simp: drop_entry_def set_delete cache_wf_def)
  from wf_queue [OF d(1) this] have "cache_wf (mem_remove k s)" by (simp add: mem_remove_def Some)
  then show ?thesis
  proof (rule mem_okI)
    have data: "cache_data (mem_remove k s) = cache_data (drop_entry k e s)" by (simp add: mem_remove_def Some)
    show "max_bytes (mem_remove k s) = n" using ok(2) by (simp add: mem_remove_def Some drop_entry_def)
    fix j f
    assume j: "map_of (cache_data (mem_remove k s)) j = Some f"
    then have "j \<noteq> k" using d(3) by (auto simp: data)
    moreover have "map_of (cache_data s) j = Some f" using d(2) j by (simp add: shrunk_def data)
    ultimately show "(m(k := None)) j = Some (ce_value f)" using ok(3) by simp
  qed
qed

lemma cold_keys:
  assumes "distinct (map fst m)"
  shows "filter (\<lambda>(k, e). k \<notin> fst ` {x \<in> set m. P (snd x)}) m = filter (\<lambda>x. \<not> P (snd x)) m"
proof (rule filter_cong [OF refl])
  fix x
  assume x: "x \<in> set m"
  have same: "y = x" if y: "y \<in> set m" "fst y = fst x" for y
  proof -
    have "(fst x, snd y) \<in> set m" "(fst x, snd x) \<in> set m" using y x by (metis prod.collapse)+
    then have "snd y = snd x" by (rule eq_key_imp_eq_value [OF assms])
    with y(2) show ?thesis by (simp add: prod_eq_iff)
  qed
  have "fst x \<in> fst ` {x \<in> set m. P (snd x)} \<longleftrightarrow> P (snd x)"
  proof
    assume "fst x \<in> fst ` {x \<in> set m. P (snd x)}"
    then obtain y where y: "y \<in> set m" "P (snd y)" "fst y = fst x" by (auto simp: image_iff)
    with same [OF y(1,3)] show "P (snd x)" by simp
  next
    assume "P (snd x)"
    with x show "fst x \<in> fst ` {x \<in> set m. P (snd x)}" by (intro imageI) simp
  qed
  then show "(case x of (k, e) \<Rightarrow> k \<notin> fst ` {x \<in> set m. P (snd x)}) = (\<not> P (snd x))" by (simp add: case_prod_beta)
qed

lemma mem_ok_evict:
  assumes "mem_ok n s m"
  shows "mem_ok n (evict_cold_entries now s) m"
proof -
  note ok = mem_okD [OF assms]
  let ?P = "\<lambda>x. is_cold now (snd x)"
  let ?kept = "filter (\<lambda>x. \<not> ?P x) (cache_data s)"
  have d: "distinct (map fst (cache_data s))" using ok(1) by (simp add: cache_wf_def)
  have [simp]: "(\<lambda>(k, e). is_cold now e) = ?P" by (simp add: fun_eq_iff)
  have gone: "set (map fst (filter ?P (cache_data s))) = fst ` {x \<in> set (cache_data s). ?P x}" by auto
  have data: "cache_data (evict_cold_entries now s) = ?kept"
    using cold_keys [OF d, of "is_cold now"] by (simp add: evict_cold_entries_def Let_def gone case_prod_beta)
  have "bytes_of (filter ?P (cache_data s)) + bytes_of ?kept = current_bytes s"
    using ok(1) bytes_of_filter [of ?P] by (simp add: cache_wf_def)
  then have cur: "current_bytes (evict_cold_entries now s) = bytes_of ?kept"
    by (simp add: evict_cold_entries_def Let_def bytes_of_def [symmetric])
  have sub: "set ?kept \<subseteq> set (cache_data s)" by auto
  have q: "lru_queue (evict_cold_entries now s) = filter (\<lambda>k. k \<notin> fst ` {x \<in> set (cache_data s). ?P x}) (lru_queue s)"
    by (simp add: evict_cold_entries_def Let_def gone case_prod_beta)
  have "fst ` set ?kept \<subseteq> set (lru_queue (evict_cold_entries now s))"
  proof
    fix k
    assume "k \<in> fst ` set ?kept"
    then obtain e where e: "(k, e) \<in> set (cache_data s)" "\<not> is_cold now e" by auto
    have "f = e" if "(k, f) \<in> set (cache_data s)" for f using eq_key_imp_eq_value [OF d] that e by blast
    with e(2) have "k \<notin> fst ` {x \<in> set (cache_data s). ?P x}" by auto
    with e(1) ok(1) show "k \<in> set (lru_queue (evict_cold_entries now s))" by (force simp: q cache_wf_def)
  qed
  moreover have "bytes_of ?kept \<le> max_bytes s" using ok(1) bytes_of_filter [of ?P "cache_data s"] by (simp add: cache_wf_def)
  moreover have max: "max_bytes (evict_cold_entries now s) = n" using ok(2) by (simp add: evict_cold_entries_def Let_def)
  moreover have "distinct (map fst ?kept)" by (rule distinct_map_filter [OF d])
  ultimately have "cache_wf (evict_cold_entries now s)"
    using ok(1,2) unfolding cache_wf_def data cur by (auto simp: cache_wf_def)
  then show ?thesis
  proof (rule mem_okI [OF _ max])
    fix k e
    assume "map_of (cache_data (evict_cold_entries now s)) k = Some e"
    then have "(k, e) \<in> set (cache_data s)" using sub by (auto simp: data dest: map_of_SomeD)
    with d ok(3) show "m k = Some (ce_value e)" by simp
  qed
qed

lemma mem_ok_step: "mem_ok n s m \<Longrightarrow> mem_ok n (cache_step c s) (store_call n c m)"
proof (cases c)
  case (Cache_put now k v)
  assume "mem_ok n s m"
  then show ?thesis using mem_ok_put [of n s m now k v] by (simp add: Cache_put)
next
  case Cache_clear
  assume "mem_ok n s m"
  then show ?thesis using mem_okD(2) by (auto simp: Cache_clear mem_clear_def cache_wf_def intro!: mem_okI)
qed (simp_all add: mem_ok_get mem_ok_remove mem_ok_evict)

lemma mem_ok_run: "mem_ok n s m \<Longrightarrow> mem_ok n (run cache_step cs s) (run (store_call n) cs m)"
  by (induction cs arbitrary: s m) (simp_all add: mem_ok_step)

lemma mem_ok_new: "mem_ok n (mem_cache_new n) Map.empty"
  by (rule mem_okI) (simp_all add: mem_cache_new_def cache_wf_def)

lemmas cache_run = mem_okD [OF mem_ok_run [OF mem_ok_new]]

text \<open>In every run of a cache the sizes of the entries sum up to the recorded size, which stays within the bound, and
  a further put ends: the queue never runs dry while there is something to evict.\<close>

theorem cache_stays_in_bounds:
  "case run cache_step cs (mem_cache_new n) of s \<Rightarrow>
     mem_size s = bytes_of (cache_data s) \<and> mem_size s \<le> n \<and> fst (mem_put now k v s) = Ok ()"
proof -
  let ?s = "run cache_step cs (mem_cache_new n)"
  have wf: "cache_wf ?s" and n: "max_bytes ?s = n" by (rule cache_run)+
  have "fst (mem_put now k v ?s) = Ok ()"
  proof (cases "length v \<le> n")
    case True
    with n put_Ok [OF wf, where v = v and now = now and k = k] show ?thesis by (metis fst_conv)
  next
    case False
    with n show ?thesis by (simp add: mem_put_def)
  qed
  with wf n show ?thesis by (simp add: cache_wf_def mem_size_def)
qed

text \<open>C19: a cached value is the one last put: whatever a run of the cache leaves is part of what the same calls leave in a
  plain map, where a put that is larger than the whole cache changes nothing.\<close>

theorem cache_refines_the_map:
  "cached (run cache_step cs (mem_cache_new n)) \<subseteq>\<^sub>m run (store_call n) cs Map.empty"
  using mem_ok_run [OF mem_ok_new, of n cs] by (simp add: mem_ok_def)

text \<open>A value that does not fit leaves the old one in place, and a key that is put again keeps its old place in the queue,
  so the entry just written is the first to go.\<close>

lemma oversized_put_keeps_the_old_value:
  "max_bytes s < length v \<Longrightarrow> mem_put now k v s = (Ok (), s)"
  by (simp add: mem_put_def)

lemma put_again_is_evicted_first:
  "map_of (cache_data (run cache_step
     [Cache_put 0 ''a'' [1], Cache_put 1 ''b'' [2], Cache_put 2 ''a'' [3], Cache_put 3 ''c'' [4]] (mem_cache_new 2))) ''a'' = None"
  by (simp add: mem_cache_new_def mem_put_def evict_until.simps evict_one_def drop_entry_def Let_def)

end
