(* ===== verification/Layered.thy ===== *)
theory Layered
  imports MemoryCache "HOL-Library.List_Lexorder" "HOL-Library.Char_ord"
begin

text \<open>
  The layered storage of \<^verbatim>\<open>src/storage/layered.rs\<close>: a memory cache in front of RocksDB, with a batch of writes on their way to
  the database, a Bloom filter before both and a cache of prefetched values before the memory cache. RocksDB is a map from keys
  to values; whether an access of it succeeds is an argument of the calls (\<open>rd\<close>, \<open>wr\<close>), as are the hash of the standard library
  and what the clocks show. The cold storage is the stub of the code, which finds nothing; the queue of I/O operations is
  never used.
\<close>

section \<open>State\<close>

datatype storage_error =
    Storage_NotFound | IoError string | SerializationError string | DatabaseError string | InvalidKey string

record storage_counters =
  l1_hits :: u64
  l1_misses :: u64
  l2_hits :: u64
  l2_misses :: u64
  l3_hits :: u64
  total_reads :: u64
  total_writes :: u64
  avg_read_latency :: u64
  avg_write_latency :: u64

record layered_storage =
  memory_cache :: mem_cache
  database :: "(string \<times> u8 list) list"
  write_batch :: "(string \<times> u8 list) list"
  batch_counter :: nat
  bloom_bits :: "bool list"
  prefetch_cache :: "string \<rightharpoonup> u8 list"
  counters :: storage_counters

definition l1_cache_size :: nat where
  "l1_cache_size = 10000000"

definition bloom_filter_size :: nat where
  "bloom_filter_size = 1000000"

definition batch_write_size :: nat where
  "batch_write_size = 1000"

definition bloom_new :: "nat \<Rightarrow> bool list" where
  "bloom_new n = replicate n False"

text \<open>The database is opened, not created: \<open>db\<close> is what it holds already, and none of that is in the filter.\<close>

definition layered_new :: "(string \<times> u8 list) list \<Rightarrow> layered_storage" where
  "layered_new db = \<lparr> memory_cache = mem_cache_new l1_cache_size, database = db, write_batch = [], batch_counter = 0,
     bloom_bits = bloom_new bloom_filter_size, prefetch_cache = Map.empty,
     counters = \<lparr> l1_hits = 0, l1_misses = 0, l2_hits = 0, l2_misses = 0, l3_hits = 0, total_reads = 0, total_writes = 0,
       avg_read_latency = 0, avg_write_latency = 0 \<rparr> \<rparr>"

section \<open>The Bloom filter\<close>

type_synonym key_hash = "string \<Rightarrow> nat \<Rightarrow> u64"

definition bloom_index :: "key_hash \<Rightarrow> bool list \<Rightarrow> string \<Rightarrow> nat \<Rightarrow> nat" where
  "bloom_index hash bits k i = unat (hash k i) mod length bits"

definition bloom_add :: "key_hash \<Rightarrow> string \<Rightarrow> bool list \<Rightarrow> bool list" where
  "bloom_add hash k bits = fold (\<lambda>i bits. bits[bloom_index hash bits k i := True]) [0..<3] bits"

definition might_contain :: "key_hash \<Rightarrow> string \<Rightarrow> bool list \<Rightarrow> bool" where
  "might_contain hash k bits \<longleftrightarrow> list_all (\<lambda>i. bits ! bloom_index hash bits k i) [0..<3]"

section \<open>Latencies\<close>

text \<open>The count of calls wraps; at zero the average divides by it and panics.\<close>

definition average :: "u64 \<Rightarrow> u64 \<Rightarrow> u64 \<Rightarrow> u64 option" where
  "average n avg latency = udiv (avg * (n - 1) + latency) n"

definition update_avg_read_latency :: "u64 \<Rightarrow> layered_storage \<Rightarrow> (storage_error, unit) outcome \<times> layered_storage" where
  "update_avg_read_latency latency s =
     (let c = counters s; n = total_reads c + 1; s1 = s\<lparr>counters := c\<lparr>total_reads := n\<rparr>\<rparr>
      in or_panic s1 (average n (avg_read_latency c) latency)
           (\<lambda>a. (Ok (), s1\<lparr>counters := (counters s1)\<lparr>avg_read_latency := a\<rparr>\<rparr>)))"

definition update_avg_write_latency :: "u64 \<Rightarrow> layered_storage \<Rightarrow> (storage_error, unit) outcome \<times> layered_storage" where
  "update_avg_write_latency latency s =
     (let c = counters s; n = total_writes c + 1; s1 = s\<lparr>counters := c\<lparr>total_writes := n\<rparr>\<rparr>
      in or_panic s1 (average n (avg_write_latency c) latency)
           (\<lambda>a. (Ok (), s1\<lparr>counters := (counters s1)\<lparr>avg_write_latency := a\<rparr>\<rparr>)))"

section \<open>Reading\<close>

text \<open>What the clocks show during a call: the instant for the memory cache, and the latencies of the three layers.\<close>

record storage_clock =
  sc_now :: nat
  sc_l1 :: u64
  sc_l2 :: u64
  sc_l3 :: u64

definition get_from_l1 :: "storage_clock \<Rightarrow> string \<Rightarrow> layered_storage \<Rightarrow> (storage_error, u8 list option) outcome \<times> layered_storage" where
  "get_from_l1 t k s =
     (case mem_get (sc_now t) k (memory_cache s) of (r, m) \<Rightarrow>
        let c = counters s;
            s1 = s\<lparr>memory_cache := m,
                   counters := (if r \<noteq> None then c\<lparr>l1_hits := l1_hits c + 1\<rparr> else c\<lparr>l1_misses := l1_misses c + 1\<rparr>)\<rparr>
        in and_then (update_avg_read_latency (sc_l1 t) s1) (\<lambda>_ s. (Ok r, s)))"

text \<open>A read of the database that fails counts as nothing found, and is not counted.\<close>

definition get_from_l2 :: "bool \<Rightarrow> storage_clock \<Rightarrow> string \<Rightarrow> layered_storage \<Rightarrow> (storage_error, u8 list option) outcome \<times> layered_storage" where
  "get_from_l2 rd t k s =
     (if \<not> rd then (Ok None, s)
      else
        let r = map_of (database s) k; c = counters s;
            s1 = s\<lparr>counters := (if r \<noteq> None then c\<lparr>l2_hits := l2_hits c + 1\<rparr> else c\<lparr>l2_misses := l2_misses c + 1\<rparr>)\<rparr>
        in and_then (update_avg_read_latency (sc_l2 t) s1) (\<lambda>_ s. (Ok r, s)))"

definition get_from_l3 :: "storage_clock \<Rightarrow> string \<Rightarrow> layered_storage \<Rightarrow> (storage_error, u8 list option) outcome \<times> layered_storage" where
  "get_from_l3 t k s =
     and_then (update_avg_read_latency (sc_l3 t) (s\<lparr>counters := (counters s)\<lparr>l3_hits := l3_hits (counters s) + 1\<rparr>\<rparr>))
       (\<lambda>_ s. (Ok None, s))"

definition put_in_cache :: "nat \<Rightarrow> string \<Rightarrow> u8 list \<Rightarrow> layered_storage \<Rightarrow> (storage_error, unit) outcome \<times> layered_storage" where
  "put_in_cache now k v s =
     (case mem_put now k v (memory_cache s) of (r, m) \<Rightarrow>
        ((case r of Ok _ \<Rightarrow> Ok () | Err _ \<Rightarrow> Ok () | Panic \<Rightarrow> Panic | Hang \<Rightarrow> Hang), s\<lparr>memory_cache := m\<rparr>))"

text \<open>\<^verbatim>\<open>db.put\<close>, \<^verbatim>\<open>db.delete\<close> and \<^verbatim>\<open>db.write\<close>.\<close>

definition database_call ::
  "bool \<Rightarrow> ((string \<times> u8 list) list \<Rightarrow> (string \<times> u8 list) list) \<Rightarrow> layered_storage \<Rightarrow> (storage_error, unit) outcome \<times> layered_storage" where
  "database_call wr f s = (if wr then (Ok (), s\<lparr>database := f (database s)\<rparr>) else (Err (DatabaseError []), s))"

definition storage_get ::
  "key_hash \<Rightarrow> bool \<Rightarrow> bool \<Rightarrow> storage_clock \<Rightarrow> string \<Rightarrow> layered_storage \<Rightarrow> (storage_error, u8 list) outcome \<times> layered_storage" where
  "storage_get hash rd wr t k s =
     (if \<not> might_contain hash k (bloom_bits s) then (Err Storage_NotFound, s)
      else case prefetch_cache s k of
        Some v \<Rightarrow> (Ok v, s)
      | None \<Rightarrow>
          and_then (get_from_l1 t k s) (\<lambda>r s.
            case r of Some v \<Rightarrow> (Ok v, s)
            | None \<Rightarrow> and_then (get_from_l2 rd t k s) (\<lambda>r s.
                case r of Some v \<Rightarrow> and_then (put_in_cache (sc_now t) k v s) (\<lambda>_ s. (Ok v, s))
                | None \<Rightarrow> and_then (get_from_l3 t k s) (\<lambda>r s.
                    case r of Some v \<Rightarrow> and_then (database_call wr (AList.update k v) s)
                                (\<lambda>_ s. and_then (put_in_cache (sc_now t) k v s) (\<lambda>_ s. (Ok v, s)))
                    | None \<Rightarrow> (Err Storage_NotFound, s)))))"

text \<open>The task that prefetches a key.\<close>

definition prefetch_task ::
  "key_hash \<Rightarrow> bool \<Rightarrow> bool \<Rightarrow> storage_clock \<Rightarrow> string \<Rightarrow> layered_storage \<Rightarrow> layered_storage" where
  "prefetch_task hash rd wr t k s =
     (case storage_get hash rd wr t k s of
        (Ok v, s1) \<Rightarrow> s1\<lparr>prefetch_cache := (prefetch_cache s1)(k \<mapsto> v)\<rparr>
      | (_, s1) \<Rightarrow> s1)"

text \<open>The tasks may run before or after the read; here they run first, in the order of their keys.\<close>

definition get_with_prefetch ::
  "key_hash \<Rightarrow> bool \<Rightarrow> bool \<Rightarrow> storage_clock \<Rightarrow> string \<Rightarrow> string list \<Rightarrow> layered_storage \<Rightarrow> (storage_error, u8 list) outcome \<times> layered_storage" where
  "get_with_prefetch hash rd wr t k ks s = storage_get hash rd wr t k (fold (prefetch_task hash rd wr t) ks s)"

definition storage_contains ::
  "key_hash \<Rightarrow> bool \<Rightarrow> bool \<Rightarrow> storage_clock \<Rightarrow> string \<Rightarrow> layered_storage \<Rightarrow> (storage_error, bool) outcome \<times> layered_storage" where
  "storage_contains hash rd wr t k s =
     (if \<not> might_contain hash k (bloom_bits s) then (Ok False, s)
      else case storage_get hash rd wr t k s of
        (Ok v, s1) \<Rightarrow> (Ok True, s1)
      | (Err e, s1) \<Rightarrow> (Ok False, s1)
      | (Panic, s1) \<Rightarrow> (Panic, s1)
      | (Hang, s1) \<Rightarrow> (Hang, s1))"

text \<open>The iterator starts at the prefix and goes up the keys in the order of their bytes.\<close>

definition has_prefix :: "string \<Rightarrow> string \<Rightarrow> bool" where
  "has_prefix prefix k \<longleftrightarrow> take (length prefix) k = prefix"

definition iter_prefix :: "string \<Rightarrow> layered_storage \<Rightarrow> (string \<times> u8 list) list" where
  "iter_prefix prefix s =
     takeWhile (\<lambda>(k, v). has_prefix prefix k) (dropWhile (\<lambda>(k, v). k < prefix) (sort_key fst (database s)))"

section \<open>Writing\<close>

definition write_all :: "(string \<times> u8 list) list \<Rightarrow> (string \<times> u8 list) list \<Rightarrow> (string \<times> u8 list) list" where
  "write_all batch db = fold (\<lambda>(k, v). AList.update k v) batch db"

text \<open>The batch is replaced by an empty one before the database has taken it.\<close>

definition write_out :: "bool \<Rightarrow> layered_storage \<Rightarrow> (storage_error, unit) outcome \<times> layered_storage" where
  "write_out wr s =
     and_then (database_call wr (write_all (write_batch s)) (s\<lparr>write_batch := []\<rparr>)) (\<lambda>_ s. (Ok (), s\<lparr>batch_counter := 0\<rparr>))"

definition storage_put ::
  "key_hash \<Rightarrow> bool \<Rightarrow> nat \<Rightarrow> u64 \<Rightarrow> string \<Rightarrow> u8 list \<Rightarrow> layered_storage \<Rightarrow> (storage_error, unit) outcome \<times> layered_storage" where
  "storage_put hash wr now latency k v s =
     and_then (put_in_cache now k v (s\<lparr>bloom_bits := bloom_add hash k (bloom_bits s)\<rparr>)) (\<lambda>_ s.
       let s1 = s\<lparr>write_batch := write_batch s @ [(k, v)], batch_counter := batch_counter s + 1\<rparr>
       in and_then (if batch_write_size \<le> batch_counter s1 then write_out wr s1 else (Ok (), s1))
            (\<lambda>_ s. update_avg_write_latency latency s))"

definition flush_batch :: "bool \<Rightarrow> layered_storage \<Rightarrow> (storage_error, unit) outcome \<times> layered_storage" where
  "flush_batch wr s = (if write_batch s = [] then (Ok (), s) else write_out wr s)"

definition storage_delete :: "bool \<Rightarrow> string \<Rightarrow> layered_storage \<Rightarrow> (storage_error, unit) outcome \<times> layered_storage" where
  "storage_delete wr k s = database_call wr (AList.delete k) (s\<lparr>memory_cache := mem_remove k (memory_cache s)\<rparr>)"

fun cache_all :: "key_hash \<Rightarrow> nat \<Rightarrow> (string \<times> u8 list) list \<Rightarrow> layered_storage \<Rightarrow> (storage_error, unit) outcome \<times> layered_storage" where
  "cache_all hash now [] s = (Ok (), s)"
| "cache_all hash now ((k, v) # items) s =
     and_then (put_in_cache now k v (s\<lparr>bloom_bits := bloom_add hash k (bloom_bits s)\<rparr>)) (\<lambda>_ s. cache_all hash now items s)"

definition storage_batch_put ::
  "key_hash \<Rightarrow> bool \<Rightarrow> nat \<Rightarrow> (string \<times> u8 list) list \<Rightarrow> layered_storage \<Rightarrow> (storage_error, unit) outcome \<times> layered_storage" where
  "storage_batch_put hash wr now items s = and_then (cache_all hash now items s) (\<lambda>_ s. database_call wr (write_all items) s)"

definition storage_batch_delete :: "bool \<Rightarrow> string list \<Rightarrow> layered_storage \<Rightarrow> (storage_error, unit) outcome \<times> layered_storage" where
  "storage_batch_delete wr ks s =
     database_call wr (fold AList.delete ks) (s\<lparr>memory_cache := fold mem_remove ks (memory_cache s)\<rparr>)"

text \<open>Compaction changes nothing that can be read from the database.\<close>

definition storage_compact :: "nat \<Rightarrow> layered_storage \<Rightarrow> (storage_error, unit) outcome \<times> layered_storage" where
  "storage_compact now s = (Ok (), s\<lparr>memory_cache := evict_cold_entries now (memory_cache s)\<rparr>)"

definition archive_old_data :: "u64 \<Rightarrow> layered_storage \<Rightarrow> (storage_error, unit) outcome \<times> layered_storage" where
  "archive_old_data cutoff s = (Ok (), s)"

datatype storage_call =
    St_Get bool storage_clock string
  | St_Prefetch bool storage_clock string
  | St_Put bool nat u64 string "u8 list"
  | St_Flush bool
  | St_Delete bool string
  | St_Batch_Put bool nat "(string \<times> u8 list) list"
  | St_Batch_Delete bool "string list"
  | St_Compact nat

fun storage_step :: "key_hash \<Rightarrow> storage_call \<Rightarrow> layered_storage \<Rightarrow> layered_storage" where
  "storage_step hash (St_Get rd t k) s = snd (storage_get hash rd True t k s)"
| "storage_step hash (St_Prefetch rd t k) s = prefetch_task hash rd True t k s"
| "storage_step hash (St_Put wr now latency k v) s = snd (storage_put hash wr now latency k v s)"
| "storage_step hash (St_Flush wr) s = snd (flush_batch wr s)"
| "storage_step hash (St_Delete wr k) s = snd (storage_delete wr k s)"
| "storage_step hash (St_Batch_Put wr now items) s = snd (storage_batch_put hash wr now items s)"
| "storage_step hash (St_Batch_Delete wr ks) s = snd (storage_batch_delete wr ks s)"
| "storage_step hash (St_Compact now) s = snd (storage_compact now s)"

end
