(* ===== verification/LayeredProps.thy ===== *)
theory LayeredProps
  imports Layered
begin

text \<open>
  Properties of the layered storage: the Bloom filter, what reads return in every run, the map with a batch of waiting puts
  that the storage implements, and the order of the keys of an iteration.
\<close>

section \<open>The Bloom filter never forgets\<close>

definition bits_le :: "bool list \<Rightarrow> bool list \<Rightarrow> bool" where
  "bits_le b b' \<longleftrightarrow> length b' = length b \<and> (\<forall>i < length b. b ! i \<longrightarrow> b' ! i)"

lemma bits_le_refl [simp]: "bits_le b b"
  by (simp add: bits_le_def)

lemma bits_le_trans: "bits_le a b \<Longrightarrow> bits_le b c \<Longrightarrow> bits_le a c"
  by (simp add: bits_le_def)

lemma bits_le_set: "bits_le b (b[i := True])"
  by (cases "i < length b") (auto simp: bits_le_def nth_list_update)

lemma bloom_add_le: "bits_le b (bloom_add hash k b)"
proof -
  have "bits_le b (fold (\<lambda>i bits. bits[bloom_index hash bits k i := True]) is b)" for "is"
    by (induction "is" arbitrary: b) (auto intro: bits_le_trans [OF bits_le_set])
  then show ?thesis by (simp add: bloom_add_def)
qed

lemma might_contain_mono:
  assumes "bits_le b b'" "b \<noteq> []" "might_contain hash k b"
  shows "might_contain hash k b'"
proof -
  have "bloom_index hash b' k i = bloom_index hash b k i" "bloom_index hash b k i < length b" for i
    using assms(1,2) by (simp_all add: bloom_index_def bits_le_def)
  with assms show ?thesis by (auto simp: might_contain_def bits_le_def list_all_iff)
qed

lemma might_contain_add: "b \<noteq> [] \<Longrightarrow> might_contain hash k (bloom_add hash k b)"
proof -
  assume "b \<noteq> []"
  then have i: "bloom_index hash b k i < length b" for i by (simp add: bloom_index_def)
  have same: "bloom_index hash (b'[j := True]) k i = bloom_index hash b' k i" for b' i j by (simp add: bloom_index_def)
  have three: "[0..<3] = [0, 1, 2 :: nat]" by (simp add: upt_rec)
  show ?thesis unfolding might_contain_def bloom_add_def three by (simp add: same i nth_list_update)
qed

lemma might_contain_add_mono: "b \<noteq> [] \<Longrightarrow> might_contain hash k b \<Longrightarrow> might_contain hash k (bloom_add hash j b)"
  by (rule might_contain_mono [OF bloom_add_le])

section \<open>What a read does\<close>

lemma read_latency:
  obtains c where "update_avg_read_latency l s = (Ok (), s\<lparr>counters := c\<rparr>)"
  | c where "update_avg_read_latency l s = (Panic, s\<lparr>counters := c\<rparr>)"
proof (cases "average (total_reads (counters s) + 1) (avg_read_latency (counters s)) l")
  case None
  show thesis by (rule that(2)) (simp add: update_avg_read_latency_def Let_def None)
next
  case (Some a)
  show thesis by (rule that(1)) (simp add: update_avg_read_latency_def Let_def Some)
qed

lemma write_latency:
  obtains c where "update_avg_write_latency l s = (Ok (), s\<lparr>counters := c\<rparr>)"
  | c where "update_avg_write_latency l s = (Panic, s\<lparr>counters := c\<rparr>)"
proof (cases "average (total_writes (counters s) + 1) (avg_write_latency (counters s)) l")
  case None
  show thesis by (rule that(2)) (simp add: update_avg_write_latency_def Let_def None)
next
  case (Some a)
  show thesis by (rule that(1)) (simp add: update_avg_write_latency_def Let_def Some)
qed

lemma l1_read:
  obtains c where "get_from_l1 t k s = (Ok (fst (mem_get (sc_now t) k (memory_cache s))),
      s\<lparr>memory_cache := snd (mem_get (sc_now t) k (memory_cache s)), counters := c\<rparr>)"
  | c where "get_from_l1 t k s = (Panic, s\<lparr>memory_cache := snd (mem_get (sc_now t) k (memory_cache s)), counters := c\<rparr>)"
proof -
  obtain r m where m: "mem_get (sc_now t) k (memory_cache s) = (r, m)" by (metis surj_pair)
  let ?s = "s\<lparr>memory_cache := m, counters := (if r \<noteq> None then (counters s)\<lparr>l1_hits := l1_hits (counters s) + 1\<rparr>
      else (counters s)\<lparr>l1_misses := l1_misses (counters s) + 1\<rparr>)\<rparr>"
  show thesis
    by (rule read_latency [of "sc_l1 t" ?s]) (use that in \<open>auto simp: get_from_l1_def m Let_def\<close>)
qed

lemma l2_read:
  obtains c where "get_from_l2 rd t k s = (Ok (if rd then map_of (database s) k else None), s\<lparr>counters := c\<rparr>)"
  | c where "get_from_l2 rd t k s = (Panic, s\<lparr>counters := c\<rparr>)"
proof (cases rd)
  case True
  let ?s = "s\<lparr>counters := (if map_of (database s) k \<noteq> None then (counters s)\<lparr>l2_hits := l2_hits (counters s) + 1\<rparr>
      else (counters s)\<lparr>l2_misses := l2_misses (counters s) + 1\<rparr>)\<rparr>"
  show thesis
    by (rule read_latency [of "sc_l2 t" ?s]) (use that True in \<open>auto simp: get_from_l2_def Let_def\<close>)
next
  case False
  then show thesis using that(1) [of "counters s"] by (simp add: get_from_l2_def)
qed

lemma l3_read:
  obtains c where "get_from_l3 t k s = (Ok None, s\<lparr>counters := c\<rparr>)"
  | c where "get_from_l3 t k s = (Panic, s\<lparr>counters := c\<rparr>)"
  by (rule read_latency [of "sc_l3 t" "s\<lparr>counters := (counters s)\<lparr>l3_hits := l3_hits (counters s) + 1\<rparr>\<rparr>"])
    (use that in \<open>auto simp: get_from_l3_def\<close>)

lemma mem_get_result:
  "fst (mem_get now k m) = cached m k" "cached m k = None \<Longrightarrow> mem_get now k m = (None, m)"
  by (auto simp: mem_get_def cached_def split: option.split)

text \<open>The layers in the order in which they are asked.\<close>

lemma storage_get_cases:
  assumes "storage_get hash rd wr t k s = (r, s')"
  obtains (filtered) "\<not> might_contain hash k (bloom_bits s)" "r = Err Storage_NotFound" "s' = s"
  | (prefetched) v where "might_contain hash k (bloom_bits s)" "prefetch_cache s k = Some v" "r = Ok v" "s' = s"
  | (l1) v c where "might_contain hash k (bloom_bits s)" "prefetch_cache s k = None" "cached (memory_cache s) k = Some v"
      "r \<in> {Ok v, Panic}" "s' = s\<lparr>memory_cache := snd (mem_get (sc_now t) k (memory_cache s)), counters := c\<rparr>"
  | (l2) v c where "might_contain hash k (bloom_bits s)" "prefetch_cache s k = None" "cached (memory_cache s) k = None"
      "rd" "map_of (database s) k = Some v"
      "r = (case fst (mem_put (sc_now t) k v (memory_cache s)) of Ok _ \<Rightarrow> Ok v | Err _ \<Rightarrow> Ok v | Panic \<Rightarrow> Panic | Hang \<Rightarrow> Hang)"
      "s' = s\<lparr>memory_cache := snd (mem_put (sc_now t) k v (memory_cache s)), counters := c\<rparr>"
  | (gone) c where "might_contain hash k (bloom_bits s)" "prefetch_cache s k = None" "cached (memory_cache s) k = None"
      "\<not> rd \<or> map_of (database s) k = None" "r = Err Storage_NotFound" "s' = s\<lparr>counters := c\<rparr>"
  | (panic) c where "might_contain hash k (bloom_bits s)" "prefetch_cache s k = None" "cached (memory_cache s) k = None"
      "r = Panic" "s' = s\<lparr>counters := c\<rparr>"
proof (cases "might_contain hash k (bloom_bits s) \<and> prefetch_cache s k = None")
  case False
  with assms show thesis by (auto simp: storage_get_def split: option.splits if_splits intro: filtered prefetched)
next
  case True
  note found = True [THEN conjunct1] True [THEN conjunct2]
  let ?m = "mem_get (sc_now t) k (memory_cache s)"
  show thesis
  proof (cases "cached (memory_cache s) k")
    case (Some v)
    show thesis
      by (rule l1_read [of t k s]; rule l1 [OF found Some])
        (use assms True Some in \<open>auto simp: storage_get_def mem_get_result\<close>)
  next
    case None
    then have m: "?m = (None, memory_cache s)" by (rule mem_get_result)
    show thesis
    proof (rule l1_read [of t k s])
      fix c
      assume "get_from_l1 t k s = (Panic, s\<lparr>memory_cache := snd ?m, counters := c\<rparr>)"
      with assms True show thesis by (intro panic [OF found None, of c]) (auto simp: storage_get_def m)
    next
      fix c
      let ?s1 = "s\<lparr>counters := c\<rparr>"
      assume g1: "get_from_l1 t k s = (Ok (fst ?m), s\<lparr>memory_cache := snd ?m, counters := c\<rparr>)"
      show thesis
      proof (rule l2_read [of rd t k ?s1])
        fix d
        assume "get_from_l2 rd t k ?s1 = (Panic, ?s1\<lparr>counters := d\<rparr>)"
        with assms True g1 show thesis by (intro panic [OF found None, of d]) (auto simp: storage_get_def m)
      next
        fix d
        let ?s2 = "s\<lparr>counters := d\<rparr>"
        assume g2: "get_from_l2 rd t k ?s1 = (Ok (if rd then map_of (database ?s1) k else None), ?s1\<lparr>counters := d\<rparr>)"
        show thesis
        proof (cases "rd \<and> map_of (database s) k \<noteq> None")
          case True
          then obtain v where v: "rd" "map_of (database s) k = Some v" by auto
          obtain q n where q: "mem_put (sc_now t) k v (memory_cache s) = (q, n)" by (metis surj_pair)
          from assms found g1 g2 v show thesis
            by (intro l2 [OF found None v, of d]; cases q) (auto simp: storage_get_def m put_in_cache_def q)
        next
          case False
          then have n: "\<not> rd \<or> map_of (database s) k = None" by auto
          then have "(if rd then map_of (database ?s1) k else None) = None" by auto
          with g2 have g3: "get_from_l2 rd t k ?s1 = (Ok None, ?s2)" by (simp only:) simp
          show thesis
            by (rule l3_read [of t k ?s2])
              (use assms found g1 g3 gone [OF found None n] panic [OF found None] in \<open>auto simp: storage_get_def m\<close>)
        qed
      qed
    qed
  qed
qed

section \<open>What survives every call\<close>

lemma database_call_frame:
  "memory_cache (snd (database_call wr f s)) = memory_cache s" "prefetch_cache (snd (database_call wr f s)) = prefetch_cache s"
  "bloom_bits (snd (database_call wr f s)) = bloom_bits s" "write_batch (snd (database_call wr f s)) = write_batch s"
  "database (snd (database_call wr f s)) = (if wr then f (database s) else database s)"
  by (simp_all add: database_call_def)

lemma storage_get_frame:
  "bloom_bits (snd (storage_get hash rd wr t k s)) = bloom_bits s" "prefetch_cache (snd (storage_get hash rd wr t k s)) = prefetch_cache s"
  "database (snd (storage_get hash rd wr t k s)) = database s" "write_batch (snd (storage_get hash rd wr t k s)) = write_batch s"
proof -
  obtain r s' where g: "storage_get hash rd wr t k s = (r, s')" by (metis surj_pair)
  show "bloom_bits (snd (storage_get hash rd wr t k s)) = bloom_bits s" "prefetch_cache (snd (storage_get hash rd wr t k s)) = prefetch_cache s"
    "database (snd (storage_get hash rd wr t k s)) = database s" "write_batch (snd (storage_get hash rd wr t k s)) = write_batch s"
    using g by (cases rule: storage_get_cases [OF g]; simp)+
qed

text \<open>What \<open>put\<close> leaves behind, whatever its outcome, when the memory cache takes the value.\<close>

lemma mem_put_result: "cache_wf m \<Longrightarrow> fst (mem_put now k v m) = Ok ()"
  by (cases "length v \<le> max_bytes m") (metis put_Ok fst_conv, simp add: mem_put_def)

lemma cache_takes:
  assumes "cache_wf (memory_cache s)"
  shows "put_in_cache now k v s = (Ok (), s\<lparr>memory_cache := snd (mem_put now k v (memory_cache s))\<rparr>)"
  using mem_put_result [OF assms, of now k v]
  by (cases "mem_put now k v (memory_cache s)") (simp add: put_in_cache_def)

section \<open>Only what was written is read\<close>

definition cache_holds :: "(string \<times> u8 list) set \<Rightarrow> mem_cache \<Rightarrow> bool" where
  "cache_holds W m \<longleftrightarrow> cache_wf m \<and> max_bytes m = l1_cache_size \<and> (\<forall>k v. cached m k = Some v \<longrightarrow> (k, v) \<in> W)"

lemma cache_holds_step:
  assumes "cache_holds W m" and "\<And>now k v. c = Cache_put now k v \<Longrightarrow> (k, v) \<in> W"
  shows "cache_holds W (cache_step c m)"
proof -
  have "mem_ok l1_cache_size m (cached m)" using assms(1) by (simp add: cache_holds_def mem_ok_def)
  from mem_ok_step [OF this, of c]
  have "cache_wf (cache_step c m)" "max_bytes (cache_step c m) = l1_cache_size"
    and le: "cached (cache_step c m) \<subseteq>\<^sub>m store_call l1_cache_size c (cached m)" by (simp_all add: mem_ok_def)
  moreover have "(k, v) \<in> W" if "store_call l1_cache_size c (cached m) k = Some v" for k v
    using that assms by (cases c) (auto simp: cache_holds_def split: if_splits)
  ultimately show ?thesis by (auto simp: cache_holds_def map_le_def dom_def)
qed

lemmas cache_holds_get = cache_holds_step [where c = "Cache_get now k" for now k, simplified]
lemmas cache_holds_put = cache_holds_step [where c = "Cache_put now k v" for now k v, simplified]
lemmas cache_holds_remove = cache_holds_step [where c = "Cache_remove k" for k, simplified]
lemmas cache_holds_evict = cache_holds_step [where c = "Cache_evict now" for now, simplified]

lemma cache_holds_mono: "cache_holds W m \<Longrightarrow> W \<subseteq> W' \<Longrightarrow> cache_holds W' m"
  by (auto simp: cache_holds_def)

lemma cache_holds_removes: "cache_holds W m \<Longrightarrow> cache_holds W (fold mem_remove ks m)"
  by (induction ks arbitrary: m) (simp_all add: cache_holds_remove)

definition only_written :: "(string \<times> u8 list) set \<Rightarrow> layered_storage \<Rightarrow> bool" where
  "only_written W s \<longleftrightarrow> cache_holds W (memory_cache s) \<and> set (database s) \<subseteq> W \<and> set (write_batch s) \<subseteq> W \<and>
     (\<forall>k v. prefetch_cache s k = Some v \<longrightarrow> (k, v) \<in> W)"

lemma only_written_mono: "only_written W s \<Longrightarrow> W \<subseteq> W' \<Longrightarrow> only_written W' s"
  by (auto simp: only_written_def intro: cache_holds_mono)

lemma set_write_all: "set (write_all batch db) \<subseteq> set db \<union> set batch"
proof (induction batch arbitrary: db)
  case (Cons x batch)
  then show ?case using set_update_sub [of "fst x" "snd x" db] by (cases x) (fastforce simp: write_all_def)
qed (simp add: write_all_def)

lemma set_delete_all: "set (fold AList.delete ks db) \<subseteq> set db"
proof (induction ks arbitrary: db)
  case (Cons k ks)
  have "set (AList.delete k db) \<subseteq> set db" by (auto simp: set_delete)
  with Cons [of "AList.delete k db"] show ?case by auto
qed simp

text \<open>A read gives a value that was written, and only moves written values between the layers.\<close>

lemma only_written_get:
  assumes "only_written W s" and g: "storage_get hash rd wr t k s = (r, s')"
  shows "only_written W s' \<and> (\<forall>v. r = Ok v \<longrightarrow> (k, v) \<in> W)"
  using g
proof (cases rule: storage_get_cases)
  case (l1 v c)
  with assms(1) show ?thesis by (auto simp: only_written_def cache_holds_get) (auto simp: cache_holds_def)
next
  case (l2 v c)
  then have v: "(k, v) \<in> W" using assms(1) map_of_SomeD by (fastforce simp: only_written_def)
  with assms(1) l2 show ?thesis by (auto simp: only_written_def cache_holds_put split: outcome.splits)
qed (use assms(1) in \<open>auto simp: only_written_def\<close>)

lemma only_written_database_call:
  "only_written W s \<Longrightarrow> set (f (database s)) \<subseteq> W \<Longrightarrow> only_written W (snd (database_call wr f s))"
  by (simp add: only_written_def database_call_def)

lemma only_written_write_out: "only_written W s \<Longrightarrow> only_written W (snd (write_out wr s))"
  using set_write_all [of "write_batch s" "database s"]
  by (auto simp: write_out_def database_call_def only_written_def)

lemma only_written_latency: "only_written W s \<Longrightarrow> only_written W (snd (update_avg_write_latency l s))"
  by (rule write_latency [of l s]) (simp_all add: only_written_def)

lemma only_written_cache: "only_written W s \<Longrightarrow> cache_wf (memory_cache s)"
  by (simp add: only_written_def cache_holds_def)

lemma only_written_put:
  assumes "only_written W s" "(k, v) \<in> W"
  shows "only_written W (snd (storage_put hash wr now l k v s))"
proof -
  let ?s1 = "s\<lparr>bloom_bits := bloom_add hash k (bloom_bits s), memory_cache := snd (mem_put now k v (memory_cache s)),
      write_batch := write_batch s @ [(k, v)], batch_counter := Suc (batch_counter s)\<rparr>"
  have p: "put_in_cache now k v (s\<lparr>bloom_bits := b\<rparr>) =
      (Ok (), s\<lparr>bloom_bits := b, memory_cache := snd (mem_put now k v (memory_cache s))\<rparr>)" for b
    using cache_takes [of "s\<lparr>bloom_bits := b\<rparr>" now k v] only_written_cache [OF assms(1)] by simp
  have s1: "only_written W ?s1"
    using assms by (auto simp: only_written_def intro: cache_holds_put)
  have "only_written W (snd (and_then (if batch_write_size \<le> batch_counter ?s1 then write_out wr ?s1 else (Ok (), ?s1))
      (\<lambda>_ s. update_avg_write_latency l s)))"
  proof (rule snd_and_then)
    fix a s2
    assume "(if batch_write_size \<le> batch_counter ?s1 then write_out wr ?s1 else (Ok (), ?s1)) = (Ok a, s2)"
    then have "only_written W s2" using s1 only_written_write_out [OF s1, of wr] by (auto split: if_splits)
    then show "only_written W (snd (update_avg_write_latency l s2))" by (rule only_written_latency)
  next
    show "only_written W (snd (if batch_write_size \<le> batch_counter ?s1 then write_out wr ?s1 else (Ok (), ?s1)))"
      using s1 only_written_write_out [OF s1, of wr] by simp
  qed
  then show ?thesis
    by (cases "batch_write_size \<le> Suc (batch_counter s)") (simp_all add: storage_put_def p Let_def)
qed

lemma only_written_cache_all:
  assumes "only_written W s" "set items \<subseteq> W"
  shows "\<exists>s'. cache_all hash now items s = (Ok (), s') \<and> only_written W s' \<and> database s' = database s"
  using assms
proof (induction items arbitrary: s)
  case (Cons x items)
  obtain k v where x: "x = (k, v)" by (cases x)
  let ?s1 = "s\<lparr>bloom_bits := bloom_add hash k (bloom_bits s), memory_cache := snd (mem_put now k v (memory_cache s))\<rparr>"
  have "put_in_cache now k v (s\<lparr>bloom_bits := b\<rparr>) = (Ok (), s\<lparr>bloom_bits := b, memory_cache := snd (mem_put now k v (memory_cache s))\<rparr>)" for b
    using cache_takes [of "s\<lparr>bloom_bits := b\<rparr>" now k v] only_written_cache [OF Cons.prems(1)] by simp
  moreover have "only_written W ?s1" using Cons.prems by (auto simp: only_written_def x intro: cache_holds_put)
  ultimately show ?case using Cons.IH [of ?s1] Cons.prems(2) by (auto simp: x)
qed simp

text \<open>What a call writes.\<close>

fun written_by :: "storage_call \<Rightarrow> (string \<times> u8 list) list" where
  "written_by (St_Put wr now l k v) = [(k, v)]"
| "written_by (St_Batch_Put wr now items) = items"
| "written_by _ = []"

lemma only_written_step:
  assumes "only_written W s"
  shows "only_written (W \<union> set (written_by c)) (storage_step hash c s)"
proof (cases c)
  case (St_Get rd t k)
  obtain r s' where g: "storage_get hash rd True t k s = (r, s')" by (metis surj_pair)
  with only_written_get [OF assms g] show ?thesis by (simp add: St_Get)
next
  case (St_Prefetch rd t k)
  obtain r s' where g: "storage_get hash rd True t k s = (r, s')" by (metis surj_pair)
  with only_written_get [OF assms g] show ?thesis
    by (cases r) (auto simp: St_Prefetch prefetch_task_def only_written_def)
next
  case (St_Put wr now l k v)
  have "only_written (insert (k, v) W) s" using assms by (rule only_written_mono) auto
  then have "only_written (insert (k, v) W) (snd (storage_put hash wr now l k v s))" by (rule only_written_put) simp
  then show ?thesis by (simp add: St_Put)
next
  case (St_Flush wr)
  with assms show ?thesis by (simp add: flush_batch_def only_written_write_out)
next
  case (St_Delete wr k)
  have "only_written W (s\<lparr>memory_cache := mem_remove k (memory_cache s)\<rparr>)"
    using assms by (simp add: only_written_def cache_holds_remove)
  moreover have "set (AList.delete k (database s)) \<subseteq> W" using assms by (auto simp: set_delete only_written_def)
  ultimately show ?thesis by (simp add: St_Delete storage_delete_def only_written_database_call)
next
  case (St_Batch_Put wr now items)
  let ?W = "W \<union> set items"
  have s: "only_written ?W s" using assms by (rule only_written_mono) simp
  obtain s' where s': "cache_all hash now items s = (Ok (), s')" "only_written ?W s'" "database s' = database s"
    using only_written_cache_all [OF s, of items hash now] by auto
  moreover have "set (write_all items (database s')) \<subseteq> ?W" using set_write_all [of items "database s"] s s'(3) by (auto simp: only_written_def)
  ultimately show ?thesis by (simp add: St_Batch_Put storage_batch_put_def only_written_database_call)
next
  case (St_Batch_Delete wr ks)
  have "only_written W (s\<lparr>memory_cache := fold mem_remove ks (memory_cache s)\<rparr>)"
    using assms by (simp add: only_written_def cache_holds_removes)
  moreover have "set (fold AList.delete ks (database s)) \<subseteq> W" using assms set_delete_all [of ks "database s"] by (auto simp: only_written_def)
  ultimately show ?thesis by (simp add: St_Batch_Delete storage_batch_delete_def only_written_database_call)
next
  case (St_Compact now)
  with assms show ?thesis by (simp add: storage_compact_def only_written_def cache_holds_evict)
qed

lemma only_written_run:
  "only_written W s \<Longrightarrow> only_written (W \<union> set (concat (map written_by cs))) (run (storage_step hash) cs s)"
proof (induction cs arbitrary: s W)
  case (Cons c cs)
  from Cons.IH [OF only_written_step [OF Cons.prems, of c hash]] show ?case by (simp add: Un_assoc)
qed simp

lemma only_written_new: "only_written (set db) (layered_new db)"
  by (simp add: only_written_def layered_new_def cache_holds_def mem_cache_new_def cache_wf_def cached_def)

text \<open>
  In every run of the storage, whatever accesses of the database fail, a read gives a value that was put under the key at
  some time, or that the database held for it from the start.
\<close>

theorem reads_give_written_values:
  assumes "storage_get hash rd wr t k (run (storage_step hash) cs (layered_new db)) = (Ok v, s)"
  shows "(k, v) \<in> set db \<or> (k, v) \<in> set (concat (map written_by cs))"
  using only_written_get [OF only_written_run [OF only_written_new] assms] by auto

section \<open>Values that are never replaced\<close>

text \<open>A prefetched value comes first in every read, and no call drops it.\<close>

definition frozen_key :: "key_hash \<Rightarrow> string \<Rightarrow> u8 list \<Rightarrow> layered_storage \<Rightarrow> bool" where
  "frozen_key hash k v s \<longleftrightarrow> prefetch_cache s k = Some v \<and> bloom_bits s \<noteq> [] \<and> might_contain hash k (bloom_bits s)"

lemma frozen_read: "frozen_key hash k v s \<Longrightarrow> storage_get hash rd wr t k s = (Ok v, s)"
  by (simp add: frozen_key_def storage_get_def)

lemma frozen_frame:
  "frozen_key hash k v s \<Longrightarrow> prefetch_cache s' = prefetch_cache s \<Longrightarrow> bits_le (bloom_bits s) (bloom_bits s') \<Longrightarrow> frozen_key hash k v s'"
  by (auto simp: frozen_key_def bits_le_def intro: might_contain_mono [unfolded bits_le_def])

definition grown :: "layered_storage \<Rightarrow> layered_storage \<Rightarrow> bool" where
  "grown s s' \<longleftrightarrow> prefetch_cache s' = prefetch_cache s \<and> bits_le (bloom_bits s) (bloom_bits s')"

lemma grown_refl: "grown s s"
  by (simp add: grown_def)

lemma grown_trans: "grown s s1 \<Longrightarrow> grown s1 s2 \<Longrightarrow> grown s s2"
  by (auto simp: grown_def intro: bits_le_trans)

lemma grown_put_in_cache: "grown s (snd (put_in_cache now k v (s\<lparr>bloom_bits := bloom_add hash j (bloom_bits s)\<rparr>)))"
  by (simp add: put_in_cache_def grown_def bloom_add_le split: prod.split)

lemma grown_database: "grown s (snd (database_call wr f (s\<lparr>memory_cache := m\<rparr>)))" "grown s (snd (database_call wr f s))"
  by (simp_all add: grown_def database_call_def)

lemma grown_write_out: "grown s (snd (write_out wr s))"
  by (simp add: grown_def write_out_def database_call_def)

lemma grown_latency: "grown s (snd (update_avg_write_latency l s))"
  by (rule write_latency [of l s]) (simp_all add: grown_def)

lemma grown_then:
  assumes "grown s (snd p)" "\<And>a s1. p = (Ok a, s1) \<Longrightarrow> grown s1 (snd (f a s1))"
  shows "grown s (snd (and_then p f))"
  by (rule snd_and_then) (use assms in \<open>auto intro: grown_trans\<close>)

lemma grown_put: "grown s (snd (storage_put hash wr now l k v s))"
  unfolding storage_put_def Let_def
proof (rule grown_then [OF grown_put_in_cache], rule grown_then)
  fix a s1
  show "grown s1 (snd (if batch_write_size \<le> batch_counter (s1\<lparr>write_batch := write_batch s1 @ [(k, v)], batch_counter := batch_counter s1 + 1\<rparr>)
      then write_out wr (s1\<lparr>write_batch := write_batch s1 @ [(k, v)], batch_counter := batch_counter s1 + 1\<rparr>)
      else (Ok (), s1\<lparr>write_batch := write_batch s1 @ [(k, v)], batch_counter := batch_counter s1 + 1\<rparr>)))"
    by (simp add: grown_def write_out_def database_call_def)
qed (rule grown_latency)

lemma grown_cache_all: "grown s (snd (cache_all hash now items s))"
proof (induction hash now items s rule: cache_all.induct)
  case (2 hash now k v items s)
  show ?case unfolding cache_all.simps by (rule grown_then [OF grown_put_in_cache]) (rule "2.IH")
qed (simp add: grown_refl)

lemma frozen_step: "frozen_key hash k v s \<Longrightarrow> frozen_key hash k v (storage_step hash c s)"
proof (cases c)
  case (St_Prefetch rd t j)
  assume f: "frozen_key hash k v s"
  show ?thesis
  proof (cases "j = k")
    case True
    with f frozen_read [OF f] show ?thesis by (simp add: St_Prefetch prefetch_task_def frozen_key_def)
  next
    case False
    with f storage_get_frame [of hash rd True t j s] show ?thesis
      by (auto simp: St_Prefetch prefetch_task_def frozen_key_def split: prod.split outcome.split)
  qed
next
  case (St_Get rd t j)
  assume "frozen_key hash k v s"
  then show ?thesis by (simp add: St_Get frozen_key_def storage_get_frame)
next
  case (St_Put wr now l j w)
  assume "frozen_key hash k v s"
  with grown_put [of s hash wr now l j w] show ?thesis unfolding grown_def St_Put by (auto intro: frozen_frame)
next
  case (St_Batch_Put wr now items)
  assume f: "frozen_key hash k v s"
  have "grown s (snd (storage_batch_put hash wr now items s))"
    unfolding storage_batch_put_def by (rule grown_then [OF grown_cache_all grown_database(2)])
  with f show ?thesis unfolding grown_def St_Batch_Put by (auto intro: frozen_frame)
next
  case (St_Flush wr)
  assume f: "frozen_key hash k v s"
  with grown_write_out [of s wr] show ?thesis unfolding grown_def St_Flush by (auto simp: flush_batch_def intro: frozen_frame)
next
  case (St_Delete wr j)
  assume f: "frozen_key hash k v s"
  with grown_database(1) [of s] show ?thesis unfolding grown_def St_Delete by (auto simp: storage_delete_def intro: frozen_frame)
next
  case (St_Batch_Delete wr ks)
  assume f: "frozen_key hash k v s"
  with grown_database(1) [of s] show ?thesis unfolding grown_def St_Batch_Delete by (auto simp: storage_batch_delete_def intro: frozen_frame)
next
  case (St_Compact now)
  assume "frozen_key hash k v s"
  then show ?thesis by (simp add: St_Compact storage_compact_def frozen_key_def)
qed

interpretation frozen_values: invariant_of "storage_step hash" "\<lambda>_ _. True" "frozen_key hash k v" for hash k v
  by unfold_locales (rule frozen_step)

text \<open>
  A value that was prefetched is what every later read of its key gives, in every run: the cache of prefetched values is
  asked before all layers, and neither a put nor a deletion removes anything from it.
\<close>

theorem prefetched_values_are_frozen:
  assumes "prefetch_cache s k = Some v" "might_contain hash k (bloom_bits s)" "bloom_bits s \<noteq> []"
  shows "fst (storage_get hash rd wr t k (run (storage_step hash) cs s)) = Ok v"
proof -
  have "frozen_key hash k v s" using assms by (simp add: frozen_key_def)
  then have "frozen_key hash k v (run (storage_step hash) cs s)" by (rule frozen_values.inv_run [OF _ run_ok_always])
  then show ?thesis by (simp add: frozen_read)
qed

section \<open>A new start\<close>

lemma empty_filter: "\<not> might_contain hash k (bloom_bits (layered_new db))"
  by (simp add: might_contain_def layered_new_def bloom_new_def bloom_index_def bloom_filter_size_def upt_rec)

text \<open>
  A storage that is opened over a database finds none of its keys, although the database has them and an iteration lists
  them: the filter starts empty, and no code fills it.
\<close>

theorem restart_hides_everything:
  "fst (storage_get hash rd wr t k (layered_new db)) = Err Storage_NotFound
   \<and> fst (storage_contains hash rd wr t k (layered_new db)) = Ok False
   \<and> set (iter_prefix [] (layered_new db)) = set db"
proof -
  have "takeWhile (\<lambda>(k, v). has_prefix [] k) xs = xs" "dropWhile (\<lambda>(k, v). k < []) xs = xs" for xs :: "(string \<times> u8 list) list"
    by (induction xs) (auto simp: has_prefix_def)
  then have "iter_prefix [] (layered_new db) = sort_key fst db" by (simp add: iter_prefix_def layered_new_def)
  with empty_filter [of hash k db] show ?thesis by (simp add: storage_get_def storage_contains_def)
qed

section \<open>The storage implements a map\<close>

text \<open>
  What the storage promises: a map, and the puts that wait in the write batch. Reaching a thousand, and a flush, move the puts
  into the map; all other writes go there at once.
\<close>

type_synonym storage_spec = "(string \<rightharpoonup> u8 list) \<times> (string \<times> u8 list) list"

definition settled :: "string \<Rightarrow> storage_spec \<Rightarrow> bool" where
  "settled k x \<longleftrightarrow> k \<notin> fst ` set (snd x)"

definition flushed :: "storage_spec \<Rightarrow> (string \<rightharpoonup> u8 list)" where
  "flushed x = fst x ++ map_of (rev (snd x))"

fun map_call :: "storage_call \<Rightarrow> storage_spec \<Rightarrow> storage_spec" where
  "map_call (St_Put wr now l k v) (m, p) =
     (if length p + 1 < batch_write_size then (m, p @ [(k, v)]) else (flushed (m, p @ [(k, v)]), []))"
| "map_call (St_Flush wr) (m, p) = (flushed (m, p), [])"
| "map_call (St_Batch_Put wr now items) (m, p) = (m ++ map_of (rev items), p)"
| "map_call (St_Batch_Delete wr ks) (m, p) = (m |` (- set ks), p)"
| "map_call (St_Delete wr k) (m, p) = (m(k := None), p)"
| "map_call _ x = x"

text \<open>The calls: values that fit into the memory cache, accesses that succeed, and nothing but puts on keys that wait.\<close>

fun call_fits :: "storage_call \<Rightarrow> storage_spec \<Rightarrow> bool" where
  "call_fits (St_Get rd t k) x = (rd \<and> settled k x)"
| "call_fits (St_Put wr now l k v) x = (wr \<and> length v \<le> l1_cache_size)"
| "call_fits (St_Flush wr) x = wr"
| "call_fits (St_Delete wr k) x = (wr \<and> settled k x)"
| "call_fits (St_Batch_Put wr now items) x = (wr \<and> list_all (\<lambda>(k, v). length v \<le> l1_cache_size \<and> settled k x) items)"
| "call_fits (St_Batch_Delete wr ks) x = (wr \<and> list_all (\<lambda>k. settled k x) ks)"
| "call_fits (St_Compact now) x = True"
| "call_fits (St_Prefetch rd t k) x = False"

definition backs :: "key_hash \<Rightarrow> storage_spec \<Rightarrow> layered_storage \<Rightarrow> bool" where
  "backs hash x s \<longleftrightarrow> mem_ok l1_cache_size (memory_cache s) (flushed x) \<and> map_of (database s) = fst x \<and>
     write_batch s = snd x \<and> batch_counter s = length (snd x) \<and> length (snd x) < batch_write_size \<and>
     prefetch_cache s = Map.empty \<and> bloom_bits s \<noteq> [] \<and> (\<forall>k \<in> dom (flushed x). might_contain hash k (bloom_bits s))"

lemma flushed_settled: "settled k x \<Longrightarrow> flushed x k = fst x k"
  by (force simp: flushed_def settled_def map_add_def dest!: map_of_SomeD split: option.split)

lemma flushed_put: "flushed (m, p @ [(k, v)]) = (flushed (m, p))(k \<mapsto> v)"
  by (simp add: flushed_def)

lemma flushed_delete:
  assumes "\<forall>k \<in> K. settled k (m, p)"
  shows "flushed (m |` (- K), p) = flushed (m, p) |` (- K)"
proof
  fix k
  show "flushed (m |` (- K), p) k = (flushed (m, p) |` (- K)) k"
    using assms flushed_settled [of k "(m |` (- K), p)"]
    by (cases "k \<in> K") (auto simp: settled_def flushed_def map_add_def restrict_map_def)
qed

lemma flushed_batch:
  assumes "\<forall>k \<in> dom f. settled k (m, p)"
  shows "flushed (m ++ f, p) = flushed (m, p) ++ f"
proof
  fix k
  show "flushed (m ++ f, p) k = (flushed (m, p) ++ f) k"
  proof (cases "f k")
    case None
    then show ?thesis by (simp add: flushed_def map_add_def split: option.split)
  next
    case (Some v)
    then have "settled k (m ++ f, p)" using assms by (auto simp: settled_def)
    from flushed_settled [OF this] Some show ?thesis by (simp add: map_add_def)
  qed
qed

lemma map_of_write_all: "map_of (write_all items db) = map_of db ++ map_of (rev items)"
  by (induction items arbitrary: db) (auto simp: write_all_def update_conv' fun_eq_iff map_add_def split: option.split)

lemma map_of_delete_all: "map_of (fold AList.delete ks db) = map_of db |` (- set ks)"
  by (induction ks arbitrary: db) (auto simp: delete_conv' fun_eq_iff restrict_map_def)

lemma mem_ok_put_same:
  assumes "mem_ok n c m" "m k = Some v"
  shows "mem_ok n (snd (mem_put now k v c)) m"
proof -
  have "store_call n (Cache_put now k v) m = m" using assms(2) by (simp add: fun_upd_idem)
  with mem_ok_put [OF assms(1), of now k v] show ?thesis by simp
qed

lemma mem_ok_removes: "mem_ok n c m \<Longrightarrow> mem_ok n (fold mem_remove ks c) (m |` (- set ks))"
proof (induction ks arbitrary: c m)
  case (Cons k ks)
  have "(m(k := None)) |` (- set ks) = m |` (- set (k # ks))" by (auto simp: restrict_map_def fun_eq_iff)
  moreover note Cons.IH [OF mem_ok_remove [OF Cons.prems, of k]]
  ultimately show ?case by (simp only: fold_simps(2))
qed (simp add: restrict_map_def)

lemma backs_get:
  assumes b: "backs hash x s" and k: "settled k x" and g: "storage_get hash True wr t k s = (r, s')"
  shows "backs hash x s' \<and> (r = Panic \<or> r = (case fst x k of None \<Rightarrow> Err Storage_NotFound | Some v \<Rightarrow> Ok v))"
  using g
proof (cases rule: storage_get_cases)
  case filtered
  with b have "flushed x k = None" by (auto simp: backs_def dom_def)
  with filtered b k show ?thesis by (simp add: flushed_settled)
next
  case (prefetched v)
  with b show ?thesis by (simp add: backs_def)
next
  case (l1 v c)
  have ok: "mem_ok l1_cache_size (memory_cache s) (flushed x)" using b by (simp add: backs_def)
  with l1(3) have "flushed x k = Some v" by (auto simp: mem_ok_def map_le_def dom_def)
  with k have "fst x k = Some v" by (simp add: flushed_settled)
  with l1 b mem_ok_get [OF ok] show ?thesis by (auto simp: backs_def)
next
  case (l2 v c)
  have ok: "mem_ok l1_cache_size (memory_cache s) (flushed x)" and m: "fst x k = Some v" using b l2(5) by (auto simp: backs_def)
  have "fst (mem_put (sc_now t) k v (memory_cache s)) = Ok ()"
    using ok by (intro mem_put_result) (simp add: mem_ok_def)
  with l2 b m mem_ok_put_same [OF ok, of k v] k show ?thesis by (simp add: backs_def flushed_settled)
next
  case (gone c)
  with b show ?thesis by (auto simp: backs_def)
next
  case (panic c)
  with b show ?thesis by (simp add: backs_def)
qed

text \<open>Reads are counted, at most three times each; only where the count wraps does a read panic.\<close>

definition read_count :: "layered_storage \<Rightarrow> nat" where
  "read_count s = unat (total_reads (counters s))"

definition counts_reads :: "nat \<Rightarrow> layered_storage \<Rightarrow> (storage_error, 'a) outcome \<times> layered_storage \<Rightarrow> bool" where
  "counts_reads n s p \<longleftrightarrow> (cache_wf (memory_cache s) \<longrightarrow> cache_wf (memory_cache (snd p)) \<and>
     read_count (snd p) \<le> read_count s + n \<and> (read_count s + n < 2 ^ 64 \<longrightarrow> fst p \<noteq> Panic))"

lemma counts_reads_then:
  assumes "counts_reads n s p" and "\<And>a s1. p = (Ok a, s1) \<Longrightarrow> counts_reads k s1 (f a s1)"
  shows "counts_reads (n + k) s (and_then p f)"
proof (cases p)
  case (Pair r s1)
  show ?thesis
  proof (cases r)
    case (Ok a)
    with assms(2) Pair have "counts_reads k s1 (f a s1)" by simp
    with assms(1) show ?thesis by (auto simp: counts_reads_def Pair Ok)
  qed (use assms(1) in \<open>auto simp: counts_reads_def Pair\<close>)
qed

lemma counts_reads_free:
  assumes "counts_reads n s p" and "\<And>a s1. p = (Ok a, s1) \<Longrightarrow> counts_reads 0 s1 (f a s1)"
  shows "counts_reads n s (and_then p f)"
  using counts_reads_then [OF assms] by simp

lemma counts_reads_mono: "counts_reads n s p \<Longrightarrow> n \<le> k \<Longrightarrow> counts_reads k s p"
  by (auto simp: counts_reads_def)

lemma counts_reads_here: "counts_reads 0 s (Ok a, s)" "counts_reads 0 s (Err e, s)"
  by (simp_all add: counts_reads_def)

lemma counts_reads_latency:
  assumes "cache_wf (memory_cache s) \<Longrightarrow> cache_wf (memory_cache s1)" "total_reads (counters s1) = total_reads (counters s)"
  shows "counts_reads 1 s (and_then (update_avg_read_latency l s1) (\<lambda>_ s. (Ok r, s)))"
proof -
  let ?n = "total_reads (counters s)"
  have le: "unat (?n + 1) \<le> Suc (unat ?n)" by (cases "?n + 1 = 0") (simp_all add: unatSuc add.commute)
  have "unat ?n + 1 < 2 ^ 64 \<Longrightarrow> ?n + 1 \<noteq> 0" using unat_eq_zero [of "?n + 1"] by (auto simp: unat_word_ariths)
  then have some: "2 ^ 64 \<le> unat ?n + 1" if "average (?n + 1) avg l = None" for avg
    using that by (auto simp: average_def udiv_def not_less [symmetric] split: if_splits)
  show ?thesis
  proof (cases "average (?n + 1) (avg_read_latency (counters s1)) l")
    case None
    from some [OF this] None le assms show ?thesis
      by (simp add: counts_reads_def update_avg_read_latency_def Let_def read_count_def)
  next
    case (Some a)
    with le assms show ?thesis
      by (simp add: counts_reads_def update_avg_read_latency_def Let_def read_count_def)
  qed
qed

lemma cache_wf_get: "cache_wf m \<Longrightarrow> cache_wf (snd (mem_get now k m))"
  and cache_wf_put: "cache_wf m \<Longrightarrow> cache_wf (snd (mem_put now k v m))"
  using mem_ok_get [of "max_bytes m" m "cached m" now k] mem_ok_put [of "max_bytes m" m "cached m" now k v]
  by (simp_all add: mem_ok_def)

lemma counts_reads_layers:
  "counts_reads 1 s (get_from_l1 t k s)" "counts_reads 1 s (get_from_l2 rd t k s)" "counts_reads 1 s (get_from_l3 t k s)"
proof -
  obtain r m where m: "mem_get (sc_now t) k (memory_cache s) = (r, m)" by fastforce
  show "counts_reads 1 s (get_from_l1 t k s)"
    unfolding get_from_l1_def m prod.case Let_def
    by (rule counts_reads_latency) (use cache_wf_get [of "memory_cache s" "sc_now t" k] m in simp_all)
  show "counts_reads 1 s (get_from_l2 rd t k s)"
  proof (cases rd)
    case True
    then show ?thesis unfolding get_from_l2_def Let_def by (simp only: not_True_eq_False if_False) (rule counts_reads_latency, simp_all)
  next
    case False
    then show ?thesis using counts_reads_mono [OF counts_reads_here(1) [of s None], of 1] by (simp add: get_from_l2_def)
  qed
  show "counts_reads 1 s (get_from_l3 t k s)"
    unfolding get_from_l3_def by (rule counts_reads_latency) simp_all
qed

lemma counts_reads_cache: "counts_reads 0 s (put_in_cache now k v s)"
  unfolding counts_reads_def
proof
  assume "cache_wf (memory_cache s)"
  from cache_takes [OF this] cache_wf_put [OF this]
  show "cache_wf (memory_cache (snd (put_in_cache now k v s))) \<and> read_count (snd (put_in_cache now k v s)) \<le> read_count s + 0 \<and>
     (read_count s + 0 < 2 ^ 64 \<longrightarrow> fst (put_in_cache now k v s) \<noteq> Panic)"
    by (simp add: read_count_def)
qed

lemma counts_reads_database: "counts_reads 0 s (database_call wr f s)"
  by (simp add: counts_reads_def database_call_def read_count_def)

lemma counts_reads_get: "counts_reads 3 s (storage_get hash rd wr t k s)"
proof -
  have kept: "counts_reads 0 s (and_then (put_in_cache (sc_now t) k v s) (\<lambda>_ s. (Ok v, s)))" for s v
    by (rule counts_reads_free [OF counts_reads_cache]) (simp add: counts_reads_here)
  have third: "counts_reads 1 s (and_then (get_from_l3 t k s) (\<lambda>r s. case r of Some v \<Rightarrow> and_then (database_call wr (AList.update k v) s)
      (\<lambda>_ s. and_then (put_in_cache (sc_now t) k v s) (\<lambda>_ s. (Ok v, s))) | None \<Rightarrow> (Err Storage_NotFound, s)))" for s
  proof (rule counts_reads_free [OF counts_reads_layers(3)])
    fix r s1
    show "counts_reads 0 s1 (case r of Some v \<Rightarrow> and_then (database_call wr (AList.update k v) s1)
      (\<lambda>_ s. and_then (put_in_cache (sc_now t) k v s) (\<lambda>_ s. (Ok v, s))) | None \<Rightarrow> (Err Storage_NotFound, s1))"
      by (cases r) (auto intro!: counts_reads_free [OF counts_reads_database] kept counts_reads_here)
  qed
  have second: "counts_reads 2 s (and_then (get_from_l2 rd t k s) (\<lambda>r s. case r of Some v \<Rightarrow>
      and_then (put_in_cache (sc_now t) k v s) (\<lambda>_ s. (Ok v, s))
    | None \<Rightarrow> and_then (get_from_l3 t k s) (\<lambda>r s. case r of Some v \<Rightarrow> and_then (database_call wr (AList.update k v) s)
      (\<lambda>_ s. and_then (put_in_cache (sc_now t) k v s) (\<lambda>_ s. (Ok v, s))) | None \<Rightarrow> (Err Storage_NotFound, s))))" for s
    unfolding one_add_one [symmetric]
    by (rule counts_reads_then [OF counts_reads_layers(2)])
      (auto simp: third [unfolded One_nat_def] counts_reads_mono [OF kept] split: option.split)
  have three: "(3 :: nat) = 1 + 2" by simp
  have "counts_reads 3 s (and_then (get_from_l1 t k s) (\<lambda>r s. case r of Some v \<Rightarrow> (Ok v, s)
    | None \<Rightarrow> and_then (get_from_l2 rd t k s) (\<lambda>r s. case r of Some v \<Rightarrow>
      and_then (put_in_cache (sc_now t) k v s) (\<lambda>_ s. (Ok v, s))
    | None \<Rightarrow> and_then (get_from_l3 t k s) (\<lambda>r s. case r of Some v \<Rightarrow> and_then (database_call wr (AList.update k v) s)
      (\<lambda>_ s. and_then (put_in_cache (sc_now t) k v s) (\<lambda>_ s. (Ok v, s))) | None \<Rightarrow> (Err Storage_NotFound, s)))))"
    unfolding three
    by (rule counts_reads_then [OF counts_reads_layers(1)])
      (simp add: second counts_reads_mono [OF counts_reads_here(1)] split: option.split)
  moreover have "counts_reads 3 s (Ok v, s)" "counts_reads 3 s (Err e :: (storage_error, u8 list) outcome, s)" for v :: "u8 list" and e
    by (simp_all add: counts_reads_mono [OF counts_reads_here(1)] counts_reads_mono [OF counts_reads_here(2)])
  ultimately show ?thesis by (simp add: storage_get_def split: option.split)
qed

lemma backs_cache_all:
  assumes "mem_ok l1_cache_size (memory_cache s) m" "bloom_bits s \<noteq> []" "list_all (\<lambda>(k, v). length v \<le> l1_cache_size) items"
  shows "\<exists>s'. cache_all hash now items s = (Ok (), s') \<and> mem_ok l1_cache_size (memory_cache s') (m ++ map_of (rev items))
    \<and> database s' = database s \<and> write_batch s' = write_batch s \<and> batch_counter s' = batch_counter s \<and> prefetch_cache s' = prefetch_cache s
    \<and> bits_le (bloom_bits s) (bloom_bits s') \<and> (\<forall>k \<in> fst ` set items. might_contain hash k (bloom_bits s'))"
  using assms
proof (induction items arbitrary: s m)
  case (Cons x items)
  obtain k v where x: "x = (k, v)" by (cases x)
  let ?s1 = "s\<lparr>bloom_bits := bloom_add hash k (bloom_bits s), memory_cache := snd (mem_put now k v (memory_cache s))\<rparr>"
  have p: "put_in_cache now k v (s\<lparr>bloom_bits := b\<rparr>) = (Ok (), s\<lparr>bloom_bits := b, memory_cache := snd (mem_put now k v (memory_cache s))\<rparr>)" for b
    using cache_takes [of "s\<lparr>bloom_bits := b\<rparr>" now k v] Cons.prems(1) by (simp add: mem_ok_def)
  have m1: "mem_ok l1_cache_size (memory_cache ?s1) (m(k \<mapsto> v))"
    using mem_ok_put [OF Cons.prems(1), of now k v] Cons.prems(3) by (simp add: x)
  have le: "bits_le (bloom_bits s) (bloom_bits ?s1)" by (simp add: bloom_add_le)
  with Cons.prems(2) have ne: "bloom_bits ?s1 \<noteq> []" by (auto simp: bits_le_def)
  have items: "list_all (\<lambda>(k, v). length v \<le> l1_cache_size) items" using Cons.prems(3) by simp
  from Cons.IH [OF m1 ne items] obtain s' where s': "cache_all hash now items ?s1 = (Ok (), s')"
      "mem_ok l1_cache_size (memory_cache s') (m(k \<mapsto> v) ++ map_of (rev items))"
      "database s' = database ?s1" "write_batch s' = write_batch ?s1" "batch_counter s' = batch_counter ?s1" "prefetch_cache s' = prefetch_cache ?s1"
      "bits_le (bloom_bits ?s1) (bloom_bits s')" "\<forall>k \<in> fst ` set items. might_contain hash k (bloom_bits s')"
    by blast
  have "cache_all hash now (x # items) s = (Ok (), s')" using s'(1) by (simp add: x p)
  moreover
  have "m(k \<mapsto> v) ++ map_of (rev items) = m ++ map_of (rev (x # items))" by (simp add: x)
  with s'(2) have "mem_ok l1_cache_size (memory_cache s') (m ++ map_of (rev (x # items)))" by (simp only:)
  moreover have "might_contain hash k (bloom_bits s')"
    using might_contain_mono [OF s'(7) ne] might_contain_add [OF Cons.prems(2)] by simp
  then have "\<forall>k \<in> fst ` set (x # items). might_contain hash k (bloom_bits s')" using s'(8) by (simp add: x)
  ultimately show ?case using s'(3-6) bits_le_trans [OF le s'(7)] by simp
qed simp

lemma backs_put:
  assumes b: "backs hash (m, p) s" and v: "length v \<le> l1_cache_size"
  shows "backs hash (map_call (St_Put True now l k v) (m, p)) (snd (storage_put hash True now l k v s))"
proof -
  let ?s1 = "s\<lparr>bloom_bits := bloom_add hash k (bloom_bits s), memory_cache := snd (mem_put now k v (memory_cache s)),
    write_batch := p @ [(k, v)], batch_counter := length p + 1\<rparr>"
  let ?s2 = "if length p + 1 < batch_write_size then ?s1
    else ?s1\<lparr>write_batch := [], database := write_all (p @ [(k, v)]) (database s), batch_counter := 0\<rparr>"
  have ok: "mem_ok l1_cache_size (memory_cache s) (flushed (m, p))" and ne: "bloom_bits s \<noteq> []" using b by (simp_all add: backs_def)
  have put: "mem_ok l1_cache_size (snd (mem_put now k v (memory_cache s))) (flushed (m, p @ [(k, v)]))"
    using mem_ok_put [OF ok, of now k v] v by (simp add: flushed_put)
  have cache: "put_in_cache now k v (s\<lparr>bloom_bits := c\<rparr>) =
      (Ok (), s\<lparr>bloom_bits := c, memory_cache := snd (mem_put now k v (memory_cache s))\<rparr>)" for c
    using cache_takes [of "s\<lparr>bloom_bits := c\<rparr>" now k v] ok by (simp add: mem_ok_def)
  have wb: "write_batch s = p" "batch_counter s = length p" using b by (simp_all add: backs_def)
  have "snd (storage_put hash True now l k v s) = snd (update_avg_write_latency l ?s2)"
    by (simp add: storage_put_def cache wb Let_def write_out_def database_call_def not_less)
  then obtain c where s': "snd (storage_put hash True now l k v s) = ?s2\<lparr>counters := c\<rparr>"
    using write_latency [of l ?s2] by (metis snd_conv)
  have "bloom_add hash k (bloom_bits s) \<noteq> []" using bloom_add_le [of "bloom_bits s" hash k] ne by (auto simp: bits_le_def)
  moreover have "might_contain hash j (bloom_add hash k (bloom_bits s))" if "j \<in> dom (flushed (m, p @ [(k, v)]))" for j
    using that b ne might_contain_add [OF ne, of hash k] might_contain_add_mono [OF ne, of hash j k]
    by (cases "j = k") (auto simp: flushed_put backs_def)
  ultimately have "backs hash (m, p @ [(k, v)]) ?s1" if "length p + 1 < batch_write_size"
    using that b put by (simp add: backs_def)
  moreover have "backs hash (flushed (m, p @ [(k, v)]), []) (?s1\<lparr>write_batch := [], database := write_all (p @ [(k, v)]) (database s), batch_counter := 0\<rparr>)"
    using b put \<open>bloom_add hash k (bloom_bits s) \<noteq> []\<close>
      \<open>\<And>j. j \<in> dom (flushed (m, p @ [(k, v)])) \<Longrightarrow> might_contain hash j (bloom_add hash k (bloom_bits s))\<close>
    by (simp add: backs_def flushed_def map_of_write_all batch_write_size_def)
  moreover have "backs hash x (s\<lparr>counters := c\<rparr>) = backs hash x s" for x s by (simp add: backs_def)
  ultimately show ?thesis by (simp add: s')
qed

lemma backs_batch_put:
  assumes b: "backs hash (m, p) s" and items: "list_all (\<lambda>(k, v). length v \<le> l1_cache_size \<and> settled k (m, p)) items"
  shows "backs hash (m ++ map_of (rev items), p) (snd (storage_batch_put hash True now items s))"
proof -
  have prems: "mem_ok l1_cache_size (memory_cache s) (flushed (m, p))" "bloom_bits s \<noteq> []" "list_all (\<lambda>(k, v). length v \<le> l1_cache_size) items"
    using b items by (auto simp: backs_def list_all_iff)
  obtain s' where s': "cache_all hash now items s = (Ok (), s')" "mem_ok l1_cache_size (memory_cache s') (flushed (m, p) ++ map_of (rev items))"
    "database s' = database s" "write_batch s' = write_batch s" "batch_counter s' = batch_counter s" "prefetch_cache s' = prefetch_cache s"
    "bits_le (bloom_bits s) (bloom_bits s')" "\<forall>k \<in> fst ` set items. might_contain hash k (bloom_bits s')"
    using backs_cache_all [OF prems, of hash now] by auto
  have new: "flushed (m ++ map_of (rev items), p) = flushed (m, p) ++ map_of (rev items)"
    using items by (intro flushed_batch) (auto simp: dom_map_of_conv_image_fst list_all_iff)
  have "might_contain hash k (bloom_bits s')" if "k \<in> dom (flushed (m, p) ++ map_of (rev items))" for k
  proof (cases "k \<in> fst ` set items")
    case False
    with that have "k \<in> dom (flushed (m, p))" by (auto simp: dom_map_of_conv_image_fst)
    with b show ?thesis by (intro might_contain_mono [OF s'(7) prems(2)]) (simp add: backs_def)
  next
    case True
    with s'(8) show ?thesis by blast
  qed
  moreover have "bloom_bits s' \<noteq> []" using s'(7) prems(2) by (auto simp: bits_le_def)
  ultimately show ?thesis
    using b s' by (simp add: storage_batch_put_def database_call_def backs_def map_of_write_all new)
qed

lemma backs_step:
  assumes b: "backs hash x s" and c: "call_fits c x"
  shows "backs hash (map_call c x) (storage_step hash c s)"
proof -
  obtain m p where x: "x = (m, p)" by fastforce
  show ?thesis
  proof (cases c)
    case (St_Get rd t k)
    with c obtain r s' where g: "storage_get hash True True t k s = (r, s')" "rd" "settled k x" by (metis surj_pair call_fits.simps(1))
    with backs_get [OF b g(3,1)] show ?thesis by (simp add: St_Get)
  next
    case (St_Put wr now l k v)
    with c b backs_put [of hash m p s v now l k] show ?thesis by (simp add: x)
  next
    case (St_Batch_Put wr now items)
    with c b backs_batch_put [of hash m p s items now] show ?thesis by (simp add: x)
  next
    case (St_Batch_Delete wr ks)
    have "flushed (m |` (- set ks), p) = flushed (m, p) |` (- set ks)"
      using c by (intro flushed_delete) (simp add: St_Batch_Delete x list_all_iff)
    with b c show ?thesis
      by (auto simp: St_Batch_Delete x storage_batch_delete_def database_call_def backs_def map_of_delete_all mem_ok_removes)
  next
    case (St_Delete wr k)
    have one: "f(k := None) = f |` (- {k})" for f :: "string \<rightharpoonup> u8 list" by (auto simp: restrict_map_def)
    have "flushed (m(k := None), p) = (flushed (m, p))(k := None)"
      unfolding one using c by (intro flushed_delete) (simp add: St_Delete x)
    with b c show ?thesis
      by (auto simp: St_Delete x storage_delete_def database_call_def backs_def delete_conv' mem_ok_remove)
  next
    case (St_Flush wr)
    with b c show ?thesis
      by (auto simp: x flush_batch_def write_out_def database_call_def backs_def flushed_def map_of_write_all batch_write_size_def)
  next
    case (St_Compact now)
    with b show ?thesis by (simp add: x storage_compact_def backs_def mem_ok_evict)
  qed (use c in auto)
qed

lemma backs_run: "backs hash x s \<Longrightarrow> run_ok call_fits map_call cs x \<Longrightarrow> backs hash (run map_call cs x) (run (storage_step hash) cs s)"
  by (induction cs arbitrary: s x) (simp_all add: backs_step)

lemma backs_new: "backs hash (Map.empty, []) (layered_new [])"
proof -
  have "backs hash (Map.empty, []) s \<longleftrightarrow> mem_ok l1_cache_size (memory_cache s) Map.empty \<and> map_of (database s) = Map.empty \<and>
     write_batch s = [] \<and> batch_counter s = 0 \<and> prefetch_cache s = Map.empty \<and> 0 < length (bloom_bits s)" for s
    by (simp add: backs_def flushed_def batch_write_size_def)
  then show ?thesis by (simp add: layered_new_def mem_ok_new bloom_new_def bloom_filter_size_def)
qed

lemma read_count_kept:
  "read_count (snd (put_in_cache now k v s)) = read_count s"
  "read_count (snd (update_avg_write_latency l s)) = read_count s"
  "read_count (snd (database_call wr f s)) = read_count s"
  "read_count (snd (write_out wr s)) = read_count s"
  by (simp_all add: put_in_cache_def update_avg_write_latency_def database_call_def write_out_def Let_def read_count_def
      split: prod.split or_panic_split)

lemma read_count_then:
  assumes "read_count (snd p) = read_count s" "\<And>a s1. p = (Ok a, s1) \<Longrightarrow> read_count (snd (f a s1)) = read_count s1"
  shows "read_count (snd (and_then p f)) = read_count s"
  by (rule snd_and_then [where I = "\<lambda>s'. read_count s' = read_count s"]) (use assms in auto)

lemma read_count_update:
  "read_count (s\<lparr>bloom_bits := b\<rparr>) = read_count s" "read_count (s\<lparr>write_batch := w, batch_counter := n\<rparr>) = read_count s"
  by (simp_all add: read_count_def)

lemma read_count_cache_all: "read_count (snd (cache_all hash now items s)) = read_count s"
proof (induction hash now items s rule: cache_all.induct)
  case (2 hash now k v items s)
  show ?case unfolding cache_all.simps
    by (rule read_count_then) (simp_all add: read_count_kept read_count_update 2)
qed simp

lemma read_count_put: "read_count (snd (storage_put hash wr now l k v s)) = read_count s"
  unfolding storage_put_def Let_def
proof (rule read_count_then)
  fix s1 :: layered_storage
  let ?s2 = "s1\<lparr>write_batch := write_batch s1 @ [(k, v)], batch_counter := batch_counter s1 + 1\<rparr>"
  show "read_count (snd (and_then (if batch_write_size \<le> batch_counter ?s2 then write_out wr ?s2 else (Ok (), ?s2))
      (\<lambda>_ s. update_avg_write_latency l s))) = read_count s1"
    by (rule read_count_then) (simp_all add: read_count_kept read_count_update)
qed (simp add: read_count_kept read_count_update)

lemma counts_reads_step:
  assumes "cache_wf (memory_cache s)" "call_fits c x"
  shows "read_count (storage_step hash c s) \<le> read_count s + 3"
proof (cases c)
  case (St_Get rd t k)
  with counts_reads_get [of s hash rd True t k] assms(1) show ?thesis by (simp add: counts_reads_def)
next
  case (St_Batch_Put wr now items)
  have "read_count (snd (storage_batch_put hash wr now items s)) = read_count s"
    unfolding storage_batch_put_def by (rule read_count_then) (simp_all add: read_count_cache_all read_count_kept)
  then show ?thesis by (simp add: St_Batch_Put)
qed (use assms(2) in \<open>simp_all add: read_count_put read_count_kept flush_batch_def storage_batch_delete_def storage_delete_def
    storage_compact_def\<close>, simp_all add: read_count_def)

lemma counts_reads_run:
  assumes "backs hash x s" "run_ok call_fits map_call cs x"
  shows "read_count (run (storage_step hash) cs s) \<le> read_count s + 3 * length cs"
  using assms
proof (induction cs arbitrary: s x)
  case (Cons c cs)
  have wf: "cache_wf (memory_cache s)" using Cons.prems(1) by (simp add: backs_def mem_ok_def)
  from Cons.prems(2) have c: "call_fits c x" "run_ok call_fits map_call cs (map_call c x)" by simp_all
  from Cons.IH [OF backs_step [OF Cons.prems(1) c(1)] c(2)] counts_reads_step [OF wf c(1), of hash] show ?case by simp
qed simp

text \<open>
  C24: on an empty database the storage implements a map. In any sequence of puts, reads, deletions, batch writes, batch
  deletions, compactions and flushes, while values fit into the memory cache (10 MB), accesses of the database succeed and a key whose put
  waits in the write batch is touched by puts only until it is written out (by a flush, or by the thousandth put of the
  batch), a read of a key that does not wait gives exactly what the map has, and the database holds the map. The storage
  counts reads on 64 bits, at most three per call: below 2 ^ 64 no read panics. Prefetches are not among the calls: a
  prefetched value is frozen.
\<close>

theorem storage_implements_a_map:
  assumes "run_ok call_fits map_call cs (Map.empty, [])" "run map_call cs (Map.empty, []) = (m, p)"
    and "settled k (m, p)" "3 * length cs + 3 < 2 ^ 64"
  shows "fst (storage_get hash True wr t k (run (storage_step hash) cs (layered_new []))) =
      (case m k of None \<Rightarrow> Err Storage_NotFound | Some v \<Rightarrow> Ok v)
    \<and> map_of (database (run (storage_step hash) cs (layered_new []))) = m"
proof -
  let ?s = "run (storage_step hash) cs (layered_new [])"
  have b: "backs hash (m, p) ?s" using backs_run [OF backs_new assms(1), of hash] assms(2) by simp
  obtain r s' where g: "storage_get hash True wr t k ?s = (r, s')" by fastforce
  have "read_count (layered_new []) = 0" by (simp add: read_count_def layered_new_def)
  with counts_reads_run [OF backs_new assms(1), of hash] assms(4) have "read_count ?s + 3 < 2 ^ 64" by linarith
  moreover have "cache_wf (memory_cache ?s)" using b by (simp add: backs_def mem_ok_def)
  ultimately have "r \<noteq> Panic" using counts_reads_get [of ?s hash True wr t k] g by (simp add: counts_reads_def)
  with backs_get [OF b assms(3) g] b show ?thesis by (simp add: g backs_def)
qed

text \<open>The fixed instant and latencies of the examples.\<close>

definition sample_clock :: storage_clock where
  "sample_clock = \<lparr> sc_now = 0, sc_l1 = 1, sc_l2 = 2, sc_l3 = 3 \<rparr>"

definition sample_hash :: key_hash where
  "sample_hash k i = word_of_nat (length k + i)"

lemma average_starts: "average 1 0 l = Some l"
  by (simp add: average_def udiv_def)

lemma sample_average: "average 2 1 2 = Some 1" "average 3 1 3 = Some 1" "average 2 5 5 = Some 5"
  by (simp_all add: average_def udiv_def)

lemmas eval_storage = storage_get_def get_from_l1_def get_from_l2_def get_from_l3_def update_avg_read_latency_def update_avg_write_latency_def
  average_starts sample_average put_in_cache_def mem_get_def mem_put_def evict_until.simps drop_entry_def evict_one_def Let_def
  storage_put_def database_call_def write_all_def layered_new_def mem_cache_new_def l1_cache_size_def batch_write_size_def
  sample_clock_def

lemma filter_found [simp]:
  "might_contain hash k (bloom_add hash k (bloom_new bloom_filter_size))"
  "might_contain hash k (bloom_add hash j (bloom_add hash k (bloom_new bloom_filter_size)))"
proof -
  have ne: "bloom_new bloom_filter_size \<noteq> []" by (simp add: bloom_new_def bloom_filter_size_def)
  show 1: "might_contain hash k (bloom_add hash k (bloom_new bloom_filter_size))" by (rule might_contain_add [OF ne])
  have "bloom_add hash k (bloom_new bloom_filter_size) \<noteq> []"
    using bloom_add_le [of "bloom_new bloom_filter_size" hash k] ne by (auto simp: bits_le_def)
  from might_contain_add_mono [OF this 1]
  show "might_contain hash k (bloom_add hash j (bloom_add hash k (bloom_new bloom_filter_size)))" .
qed

theorem storage_implements_a_map_witness:
  "\<exists>cs. run_ok call_fits map_call cs (Map.empty, []) \<and>
     cs = [St_Put True 0 5 ''a'' [1], St_Batch_Put True 0 [(''b'', [2])], St_Put True 0 5 ''a'' [3], St_Flush True, St_Delete True ''b''] \<and>
     fst (storage_get sample_hash True True sample_clock ''a'' (run (storage_step sample_hash) cs (layered_new []))) = Ok [3] \<and>
     fst (storage_get sample_hash True True sample_clock ''b'' (run (storage_step sample_hash) cs (layered_new []))) = Err Storage_NotFound"
proof -
  let ?cs = "[St_Put True 0 5 ''a'' [1], St_Batch_Put True 0 [(''b'', [2])], St_Put True 0 5 ''a'' [3], St_Flush True, St_Delete True ''b'']"
  let ?m = "(flushed (Map.empty ++ map_of (rev [(''b'', [2])]), [(''a'', [1]), (''a'', [3])]))(''b'' := None) :: string \<rightharpoonup> u8 list"
  have fits: "run_ok call_fits map_call ?cs (Map.empty, [])" "run map_call ?cs (Map.empty, []) = (?m, [])"
    by (simp_all add: l1_cache_size_def settled_def batch_write_size_def)
  have "settled k (?m, [])" for k by (simp add: settled_def)
  note map = storage_implements_a_map [where hash = sample_hash and wr = True and t = sample_clock, OF fits this, THEN conjunct1]
  have "?m ''a'' = Some [3]" "?m ''b'' = None" by (simp_all add: flushed_def map_add_def)
  with fits(1) map [of "''a''"] map [of "''b''"] show ?thesis by (intro exI [of _ ?cs]) simp
qed

theorem reads_give_written_values_witness:
  "(''a'', [1]) \<in> set (concat (map written_by [St_Put True 0 5 ''a'' [1]]))"
proof -
  obtain s where "storage_get sample_hash True True sample_clock ''a'' (run (storage_step sample_hash) [St_Put True 0 5 ''a'' [1]] (layered_new []))
      = (Ok [1], s)"
    by (simp add: eval_storage)
  from reads_give_written_values [OF this] show ?thesis by simp
qed

lemma sample_prefetched:
  "prefetch_cache (run (storage_step hash) [St_Put True 0 5 k [1], St_Prefetch True sample_clock k] (layered_new [])) k = Some [1]"
  "bloom_bits (run (storage_step hash) [St_Put True 0 5 k [1], St_Prefetch True sample_clock k] (layered_new [])) =
     bloom_add hash k (bloom_new bloom_filter_size)"
  by (simp_all add: eval_storage prefetch_task_def)

theorem prefetched_values_are_frozen_witness:
  "fst (storage_get sample_hash True True sample_clock ''a'' (run (storage_step sample_hash)
     [St_Put True 0 5 ''a'' [1], St_Prefetch True sample_clock ''a'', St_Put True 0 5 ''a'' [2]] (layered_new []))) = Ok [1]"
proof -
  let ?s = "run (storage_step sample_hash) [St_Put True 0 5 ''a'' [1], St_Prefetch True sample_clock ''a''] (layered_new [])"
  have "bloom_bits ?s \<noteq> []"
    unfolding sample_prefetched using bloom_add_le [of "bloom_new bloom_filter_size" sample_hash "''a''"]
    by (auto simp: bits_le_def bloom_new_def bloom_filter_size_def)
  note frozen_key = prefetched_values_are_frozen [OF sample_prefetched(1) _ this, where hash = sample_hash and rd = True and wr = True and t = sample_clock
      and cs = "[St_Put True 0 5 ''a'' [2]]"]
  have "might_contain sample_hash ''a'' (bloom_bits ?s)" by (simp only: sample_prefetched(2) filter_found)
  from frozen_key [OF this] show ?thesis by (simp only: run.simps)
qed

text \<open>A put that is followed by a deletion reaches the database after it: the value comes back.\<close>

lemma deleted_values_come_back:
  "fst (storage_get hash True True sample_clock k
     (run (storage_step hash) [St_Put True 0 5 k [1], St_Delete True k, St_Flush True] (layered_new []))) = Ok [1]"
  by (simp add: eval_storage storage_delete_def mem_remove_def flush_batch_def write_out_def)

text \<open>A put that leaves the memory cache before the batch is written is not found.\<close>

lemma unflushed_puts_are_lost:
  assumes "j \<noteq> k" "length v \<le> l1_cache_size" "length w \<le> l1_cache_size" "l1_cache_size < length v + length w"
  shows "fst (storage_get hash True True sample_clock k
     (run (storage_step hash) [St_Put True 0 5 k v, St_Put True 0 5 j w] (layered_new []))) = Err Storage_NotFound"
  using assms by (simp add: eval_storage)

text \<open>A batch whose write fails is gone from the storage, although its call reports an error.\<close>

lemma failed_flushes_lose_the_batch:
  "write_batch s \<noteq> [] \<Longrightarrow> fst (flush_batch False s) = Err (DatabaseError []) \<and> write_batch (snd (flush_batch False s)) = []
     \<and> database (snd (flush_batch False s)) = database s"
  by (simp add: flush_batch_def write_out_def database_call_def)

section \<open>Iterations\<close>

lemma starts_with_simps [simp]:
  "has_prefix [] k" "\<not> has_prefix (c # p) []" "has_prefix (c # p) (d # k) \<longleftrightarrow> d = c \<and> has_prefix p k"
  by (auto simp: has_prefix_def)

lemma starts_with_le: "has_prefix p k \<Longrightarrow> p \<le> k"
proof (induction p arbitrary: k)
  case (Cons c p)
  then show ?case by (cases k) auto
qed simp

lemma starts_with_between: "p \<le> k \<Longrightarrow> k \<le> l \<Longrightarrow> has_prefix p l \<Longrightarrow> has_prefix p k"
proof (induction p arbitrary: k l)
  case (Cons c p)
  from Cons.prems obtain d k' where k: "k = d # k'" by (cases k) auto
  from Cons.prems k obtain e l' where l: "l = e # l'" by (cases l) auto
  from Cons.prems k l have "d = c" by auto
  with Cons k l show ?case by auto
qed simp

lemma prefix_block:
  assumes "sorted (map fst xs)"
  shows "takeWhile (\<lambda>(k, v). has_prefix p k) (dropWhile (\<lambda>(k, v). k < p) xs) = filter (\<lambda>(k, v). has_prefix p k) xs"
  using assms
proof (induction xs)
  case (Cons x xs)
  obtain k v where x: "x = (k, v)" by (cases x)
  show ?case
  proof (cases "k < p")
    case True
    with starts_with_le [of p k] have "\<not> has_prefix p k" by auto
    with True Cons show ?thesis by (simp add: x)
  next
    case False
    have above: "\<forall>y \<in> set (x # xs). k \<le> fst y" using Cons.prems by (auto simp: x)
    have tail: "dropWhile (\<lambda>(k, v). k < p) ys = ys" if "set ys \<subseteq> set (x # xs)" for ys
      using that False above by (cases ys) force+
    show ?thesis
    proof (cases "has_prefix p k")
      case True
      have "dropWhile (\<lambda>(k, v). k < p) xs = xs" by (rule tail) auto
      with True False Cons show ?thesis by (auto simp: x)
    next
      case none: False
      have "\<not> has_prefix p (fst y)" if "y \<in> set xs" for y
        using starts_with_between [of p k "fst y"] above that False [unfolded not_less] none by auto
      then have "filter (\<lambda>(k, v). has_prefix p k) xs = []" by (auto simp: filter_empty_conv)
      with False none show ?thesis by (simp add: x)
    qed
  qed
qed simp

text \<open>An iteration lists the entries of the database with the prefix, in the order of their keys, and no others.\<close>

lemma iteration_lists_the_prefix:
  "iter_prefix p s = filter (\<lambda>(k, v). has_prefix p k) (sort_key fst (database s))"
  unfolding iter_prefix_def by (rule prefix_block) simp

end
