(* ===== verification/Snapshots.thy ===== *)
theory Snapshots
  imports Prelude
begin

text \<open>
  \<^verbatim>\<open>src/storage/snapshot.rs\<close>: full snapshots of a state, deltas between two states, and the synchronisation that would
  fetch both from peers. The maps are iterated over, so they are association lists. Clocks and random roots are arguments;
  the downloads are the simulated ones of the code. The session and task records of the synchronisation are
  never used there, and its counters of bytes are never written.
\<close>

section \<open>States, snapshots and deltas\<close>

record account_snapshot =
  as_nonce :: u64
  as_balance :: u256
  as_storage_root :: h256
  as_code_hash :: "h256 option"

record state_data =
  sd_root :: h256
  sd_accounts :: "(address \<times> account_snapshot) list"
  sd_storage :: "((address \<times> h256) \<times> h256) list"
  sd_code :: "(h256 \<times> u8 list) list"

definition state_data_default :: state_data where
  "state_data_default = \<lparr> sd_root = 0, sd_accounts = [], sd_storage = [], sd_code = [] \<rparr>"

record snapshot_metadata =
  total_accounts :: u64
  total_storage_keys :: u64
  total_contracts :: u64
  snapshot_size_bytes :: u64
  creation_time_ms :: u64

record snapshot =
  sn_height :: u64
  sn_root :: h256
  sn_timestamp :: u64
  sn_accounts :: "(address \<times> account_snapshot) list"
  sn_storage :: "((address \<times> h256) \<times> h256) list"
  sn_code :: "(h256 \<times> u8 list) list"
  sn_metadata :: snapshot_metadata

datatype state_change =
    Account_Created address account_snapshot
  | Account_Updated address account_snapshot account_snapshot
  | Account_Deleted address
  | Storage_Updated address h256 h256 h256
  | Code_Deployed address h256 "u8 list"

record proof_node =
  pn_hash :: h256
  pn_path :: "u8 list"
  pn_value :: "u8 list option"

record state_proof =
  proof_root :: h256
  proof_nodes :: "proof_node list"

record state_delta =
  from_height :: u64
  to_height :: u64
  changes :: "state_change list"
  delta_proof :: state_proof

datatype sync_error = NoPeersAvailable | DownloadFailed string | VerificationFailed | Sync_Timeout

record peer_score =
  success_count :: u64
  failure_count :: u64
  avg_latency_ms :: u64
  last_seen :: u64

record snapshot_metrics =
  snapshots_created :: u64
  snapshots_applied :: u64
  deltas_created :: u64
  deltas_applied :: u64
  sync_sessions_started :: u64
  sync_sessions_completed :: u64

record snapshot_manager =
  snapshots :: "(u64 \<times> snapshot) list"
  deltas :: "(u64 \<times> state_delta) list"
  current_height :: u64
  peer_scores :: "(u8 list \<times> peer_score) list"
  snapshot_interval :: u64
  max_snapshots :: nat
  sync_metrics :: snapshot_metrics

definition snapshot_manager_new :: "u64 \<Rightarrow> snapshot_manager" where
  "snapshot_manager_new interval = \<lparr> snapshots = [], deltas = [], current_height = 0, peer_scores = [], snapshot_interval = interval,
     max_snapshots = 10, sync_metrics = \<lparr> snapshots_created = 0, snapshots_applied = 0, deltas_created = 0, deltas_applied = 0,
       sync_sessions_started = 0, sync_sessions_completed = 0 \<rparr> \<rparr>"

section \<open>Snapshots\<close>

definition estimate_size :: "state_data \<Rightarrow> u64" where
  "estimate_size st =
     word_of_nat (length (sd_accounts st) * 100 + length (sd_storage st) * 64 + sum_list (map (\<lambda>(h, c). length c) (sd_code st)))"

definition take_snapshot :: "u64 \<Rightarrow> u64 \<Rightarrow> u64 \<Rightarrow> state_data \<Rightarrow> snapshot" where
  "take_snapshot now millis height st =
     \<lparr> sn_height = height, sn_root = sd_root st, sn_timestamp = now, sn_accounts = sd_accounts st, sn_storage = sd_storage st,
       sn_code = sd_code st,
       sn_metadata = \<lparr> total_accounts = word_of_nat (length (sd_accounts st)), total_storage_keys = word_of_nat (length (sd_storage st)),
         total_contracts = word_of_nat (length (sd_code st)), snapshot_size_bytes = estimate_size st, creation_time_ms = millis \<rparr> \<rparr>"

definition drop_oldest :: "nat \<Rightarrow> (u64 \<times> snapshot) list \<Rightarrow> (u64 \<times> snapshot) list" where
  "drop_oldest n m = (if n < length m then AList.delete (Min (fst ` set m)) m else m)"

definition create_snapshot_at :: "u64 \<Rightarrow> u64 \<Rightarrow> u64 \<Rightarrow> state_data \<Rightarrow> snapshot_manager \<Rightarrow> snapshot \<times> snapshot_manager" where
  "create_snapshot_at now millis height st s =
     (let snap = take_snapshot now millis height st
      in (snap, s\<lparr>snapshots := drop_oldest (max_snapshots s) (AList.update height snap (snapshots s)),
                  sync_metrics := (sync_metrics s)\<lparr>snapshots_created := snapshots_created (sync_metrics s) + 1\<rparr>,
                  current_height := height\<rparr>))"

definition apply_snapshot :: "snapshot \<Rightarrow> state_data \<Rightarrow> snapshot_manager \<Rightarrow> state_data \<times> snapshot_manager" where
  "apply_snapshot snap st s =
     (st\<lparr>sd_accounts := sn_accounts snap, sd_storage := sn_storage snap, sd_code := sn_code snap, sd_root := sn_root snap\<rparr>,
      s\<lparr>current_height := sn_height snap,
        sync_metrics := (sync_metrics s)\<lparr>snapshots_applied := snapshots_applied (sync_metrics s) + 1\<rparr>\<rparr>)"

section \<open>Deltas\<close>

definition account_changes :: "(address \<times> account_snapshot) list \<Rightarrow> (address \<times> account_snapshot) list \<Rightarrow> state_change list" where
  "account_changes old new = concat (map (\<lambda>(a, n).
     case map_of old a of
       None \<Rightarrow> [Account_Created a n]
     | Some o' \<Rightarrow> if o' = n then [] else [Account_Updated a o' n]) new)"

definition account_deletions :: "(address \<times> account_snapshot) list \<Rightarrow> (address \<times> account_snapshot) list \<Rightarrow> state_change list" where
  "account_deletions old new = map Account_Deleted (filter (\<lambda>a. map_of new a = None) (map fst old))"

definition storage_changes :: "((address \<times> h256) \<times> h256) list \<Rightarrow> ((address \<times> h256) \<times> h256) list \<Rightarrow> state_change list" where
  "storage_changes old new = concat (map (\<lambda>((a, k), v).
     case map_of old (a, k) of
       None \<Rightarrow> [Storage_Updated a k 0 v]
     | Some w \<Rightarrow> if w = v then [] else [Storage_Updated a k w v]) new)"

text \<open>New code is reported with the first account that has it.\<close>

definition code_changes ::
  "(address \<times> account_snapshot) list \<Rightarrow> (h256 \<times> u8 list) list \<Rightarrow> (h256 \<times> u8 list) list \<Rightarrow> state_change list" where
  "code_changes accounts old new = concat (map (\<lambda>(h, c).
     if map_of old h = None then
       (case find (\<lambda>(a, x). as_code_hash x = Some h) accounts of None \<Rightarrow> [] | Some (a, x) \<Rightarrow> [Code_Deployed a h c])
     else []) new)"

definition delta_between :: "u64 \<Rightarrow> u64 \<Rightarrow> state_data \<Rightarrow> state_data \<Rightarrow> state_delta" where
  "delta_between h h' old new =
     \<lparr> from_height = h, to_height = h',
       changes = account_changes (sd_accounts old) (sd_accounts new) @ account_deletions (sd_accounts old) (sd_accounts new)
         @ storage_changes (sd_storage old) (sd_storage new) @ code_changes (sd_accounts new) (sd_code old) (sd_code new),
       delta_proof = \<lparr> proof_root = sd_root new, proof_nodes = [] \<rparr> \<rparr>"

definition create_delta :: "u64 \<Rightarrow> u64 \<Rightarrow> state_data \<Rightarrow> state_data \<Rightarrow> snapshot_manager \<Rightarrow> state_delta \<times> snapshot_manager" where
  "create_delta h h' old new s =
     (let d = delta_between h h' old new
      in (d, s\<lparr>deltas := AList.update h' d (deltas s),
               sync_metrics := (sync_metrics s)\<lparr>deltas_created := deltas_created (sync_metrics s) + 1\<rparr>\<rparr>))"

fun apply_change :: "state_change \<Rightarrow> state_data \<Rightarrow> state_data" where
  "apply_change (Account_Created a x) st = st\<lparr>sd_accounts := AList.update a x (sd_accounts st)\<rparr>"
| "apply_change (Account_Updated a o' x) st = st\<lparr>sd_accounts := AList.update a x (sd_accounts st)\<rparr>"
| "apply_change (Account_Deleted a) st = st\<lparr>sd_accounts := AList.delete a (sd_accounts st)\<rparr>"
| "apply_change (Storage_Updated a k w v) st = st\<lparr>sd_storage := AList.update (a, k) v (sd_storage st)\<rparr>"
| "apply_change (Code_Deployed a h c) st = st\<lparr>sd_code := AList.update h c (sd_code st)\<rparr>"

definition apply_delta :: "state_delta \<Rightarrow> state_data \<Rightarrow> snapshot_manager \<Rightarrow> state_data \<times> snapshot_manager" where
  "apply_delta d st s =
     (fold apply_change (changes d) st,
      s\<lparr>current_height := to_height d,
        sync_metrics := (sync_metrics s)\<lparr>deltas_applied := deltas_applied (sync_metrics s) + 1\<rparr>\<rparr>)"

section \<open>Synchronisation\<close>

definition score_of :: "peer_score \<Rightarrow> u64" where
  "score_of p = (if failure_count p = 0 then - 1 else success_count p div failure_count p)"

text \<open>Of several best peers the last.\<close>

definition select_best_peer :: "snapshot_manager \<Rightarrow> (sync_error, u8 list) outcome" where
  "select_best_peer s =
     (case peer_scores s of
        [] \<Rightarrow> Err NoPeersAvailable
      | x # xs \<Rightarrow> Ok (fst (foldl (\<lambda>b y. if score_of (snd b) \<le> score_of (snd y) then y else b) x xs)))"

definition update_peer_score :: "u64 \<Rightarrow> u8 list \<Rightarrow> bool \<Rightarrow> u64 \<Rightarrow> snapshot_manager \<Rightarrow> snapshot_manager" where
  "update_peer_score now i success latency s =
     (let p = (case map_of (peer_scores s) i of
                 None \<Rightarrow> \<lparr> success_count = 0, failure_count = 0, avg_latency_ms = 0, last_seen = now \<rparr>
               | Some p \<Rightarrow> p);
          p1 = (if success then p\<lparr>success_count := success_count p + 1\<rparr> else p\<lparr>failure_count := failure_count p + 1\<rparr>)
      in s\<lparr>peer_scores := AList.update i (p1\<lparr>avg_latency_ms := (avg_latency_ms p * 9 + latency) div 10, last_seen := now\<rparr>) (peer_scores s)\<rparr>)"

definition download_snapshot :: "h256 \<Rightarrow> u64 \<Rightarrow> u64 \<Rightarrow> snapshot_manager \<Rightarrow> (sync_error, snapshot) outcome" where
  "download_snapshot root now height s =
     (case select_best_peer s of
        Ok _ \<Rightarrow> Ok \<lparr> sn_height = height, sn_root = root, sn_timestamp = now, sn_accounts = [], sn_storage = [], sn_code = [],
                   sn_metadata = \<lparr> total_accounts = 0, total_storage_keys = 0, total_contracts = 0, snapshot_size_bytes = 0, creation_time_ms = 0 \<rparr> \<rparr>
      | Err e \<Rightarrow> Err e | Panic \<Rightarrow> Panic | Hang \<Rightarrow> Hang)"

definition download_delta :: "h256 \<Rightarrow> u64 \<Rightarrow> u64 \<Rightarrow> snapshot_manager \<Rightarrow> (sync_error, state_delta) outcome" where
  "download_delta root h h' s =
     (case select_best_peer s of
        Ok _ \<Rightarrow> Ok \<lparr> from_height = h, to_height = h', changes = [], delta_proof = \<lparr> proof_root = root, proof_nodes = [] \<rparr> \<rparr>
      | Err e \<Rightarrow> Err e | Panic \<Rightarrow> Panic | Hang \<Rightarrow> Hang)"

text \<open>The deltas after a snapshot, one after the other; an error ends the synchronisation.\<close>

fun sync_deltas :: "h256 \<Rightarrow> u64 list \<Rightarrow> state_data \<Rightarrow> snapshot_manager \<Rightarrow> (sync_error, unit) outcome \<times> snapshot_manager" where
  "sync_deltas root [] st s = (Ok (), s)"
| "sync_deltas root (h # hs) st s =
     (case download_delta root (h - 1) h s of
        Ok d \<Rightarrow> (case apply_delta d st s of (st, s) \<Rightarrow> sync_deltas root hs st s)
      | Err e \<Rightarrow> (Err e, s) | Panic \<Rightarrow> (Panic, s) | Hang \<Rightarrow> (Hang, s))"

text \<open>\<^verbatim>\<open>a..b\<close>, \<^verbatim>\<open>a..=b\<close> and the heights of the chunks of a hundred, whose ends may wrap.\<close>

definition heights :: "u64 \<Rightarrow> u64 \<Rightarrow> u64 list" where
  "heights a b = map word_of_nat [unat a..<unat b]"

definition heights_incl :: "u64 \<Rightarrow> u64 \<Rightarrow> u64 list" where
  "heights_incl a b = map word_of_nat [unat a..<Suc (unat b)]"

definition chunk_starts :: "u64 \<Rightarrow> u64 \<Rightarrow> u64 list" where
  "chunk_starts a b = map (\<lambda>i. word_of_nat (unat a + 100 * i)) [0..<(unat b - unat a + 99) div 100]"

definition chunk_heights :: "u64 \<Rightarrow> u64 \<Rightarrow> u64 list" where
  "chunk_heights a b = concat (map (\<lambda>c. heights c (min (c + 100) b)) (chunk_starts a b))"

definition sync_from_snapshot :: "h256 \<Rightarrow> u64 \<Rightarrow> u64 \<Rightarrow> u64 \<Rightarrow> snapshot_manager \<Rightarrow> (sync_error, unit) outcome \<times> snapshot_manager" where
  "sync_from_snapshot root now h target s =
     (case download_snapshot root now h s of
        Ok snap \<Rightarrow> (case apply_snapshot snap state_data_default s of (st, s) \<Rightarrow>
          sync_deltas root (heights_incl (h + 1) target) st s)
      | Err e \<Rightarrow> (Err e, s) | Panic \<Rightarrow> (Panic, s) | Hang \<Rightarrow> (Hang, s))"

text \<open>Here downloads that fail are left out. They are applied in the order of the heights.\<close>

fun sync_heights :: "h256 \<Rightarrow> u64 list \<Rightarrow> state_data \<Rightarrow> snapshot_manager \<Rightarrow> snapshot_manager" where
  "sync_heights root [] st s = s"
| "sync_heights root (h # hs) st s =
     (case download_delta root h (h + 1) s of
        Ok d \<Rightarrow> (case apply_delta d st s of (st, s) \<Rightarrow> sync_heights root hs st s)
      | _ \<Rightarrow> sync_heights root hs st s)"

definition sync_incremental :: "h256 \<Rightarrow> u64 \<Rightarrow> u64 \<Rightarrow> snapshot_manager \<Rightarrow> (sync_error, unit) outcome \<times> snapshot_manager" where
  "sync_incremental root h h' s = (Ok (), sync_heights root (chunk_heights h h') state_data_default s)"

definition best_snapshot :: "u64 \<Rightarrow> snapshot_manager \<Rightarrow> u64 option" where
  "best_snapshot target s =
     (let hs = filter (\<lambda>h. h \<le> target \<and> current_height s < h) (map fst (snapshots s))
      in if hs = [] then None else Some (Max (set hs)))"

definition sync_to_height :: "h256 \<Rightarrow> u64 \<Rightarrow> u64 \<Rightarrow> snapshot_manager \<Rightarrow> (sync_error, unit) outcome \<times> snapshot_manager" where
  "sync_to_height root now target s =
     (if target \<le> current_height s then (Ok (), s)
      else
        let s1 = s\<lparr>sync_metrics := (sync_metrics s)\<lparr>sync_sessions_started := sync_sessions_started (sync_metrics s) + 1\<rparr>\<rparr>
        in and_then (case best_snapshot target s1 of
             Some h \<Rightarrow> sync_from_snapshot root now h target s1
           | None \<Rightarrow> sync_incremental root (current_height s1) target s1)
           (\<lambda>_ s. (Ok (), s\<lparr>sync_metrics := (sync_metrics s)\<lparr>sync_sessions_completed := sync_sessions_completed (sync_metrics s) + 1\<rparr>\<rparr>)))"

section \<open>Access\<close>

definition get_snapshot :: "u64 \<Rightarrow> snapshot_manager \<Rightarrow> snapshot option" where
  "get_snapshot h s = map_of (snapshots s) h"

definition get_delta :: "u64 \<Rightarrow> snapshot_manager \<Rightarrow> state_delta option" where
  "get_delta h s = map_of (deltas s) h"

definition list_snapshots :: "snapshot_manager \<Rightarrow> u64 list" where
  "list_snapshots s = sort (map fst (snapshots s))"

definition cleanup_old_data :: "u64 \<Rightarrow> snapshot_manager \<Rightarrow> snapshot_manager" where
  "cleanup_old_data h s = s\<lparr>snapshots := filter (\<lambda>(k, x). h \<le> k) (snapshots s), deltas := filter (\<lambda>(k, x). h \<le> k) (deltas s)\<rparr>"

definition verify_state_proof :: "state_proof \<Rightarrow> u8 list \<Rightarrow> u8 list \<Rightarrow> bool" where
  "verify_state_proof p key value \<longleftrightarrow> proof_nodes p \<noteq> []"

record manager_report =
  report_metrics :: snapshot_metrics
  report_height :: u64
  snapshot_count :: nat
  delta_count :: nat

definition manager_metrics :: "snapshot_manager \<Rightarrow> manager_report" where
  "manager_metrics s = \<lparr> report_metrics = sync_metrics s, report_height = current_height s, snapshot_count = length (snapshots s),
     delta_count = length (deltas s) \<rparr>"

datatype snapshots_call =
    Make_Snapshot u64 u64 u64 state_data
  | Make_Delta u64 u64 state_data state_data
  | Apply_Snapshot snapshot state_data
  | Apply_Delta state_delta state_data
  | Sync_To h256 u64 u64
  | Cleanup u64

fun snapshots_step :: "snapshots_call \<Rightarrow> snapshot_manager \<Rightarrow> snapshot_manager" where
  "snapshots_step (Make_Snapshot now ms h st) s = snd (create_snapshot_at now ms h st s)"
| "snapshots_step (Make_Delta h h' old new) s = snd (create_delta h h' old new s)"
| "snapshots_step (Apply_Snapshot snap st) s = snd (apply_snapshot snap st s)"
| "snapshots_step (Apply_Delta d st) s = snd (apply_delta d st s)"
| "snapshots_step (Sync_To root now target) s = snd (sync_to_height root now target s)"
| "snapshots_step (Cleanup h) s = cleanup_old_data h s"

section \<open>What a delta carries over\<close>

lemma account_changes_Cons:
  "account_changes old ((a, n) # xs) =
     (case map_of old a of None \<Rightarrow> [Account_Created a n] | Some x \<Rightarrow> if x = n then [] else [Account_Updated a x n]) @ account_changes old xs"
  by (simp add: account_changes_def)

lemma storage_changes_Cons:
  "storage_changes old (((a, k), v) # xs) =
     (case map_of old (a, k) of None \<Rightarrow> [Storage_Updated a k 0 v] | Some w \<Rightarrow> if w = v then [] else [Storage_Updated a k w v])
       @ storage_changes old xs"
  by (simp add: storage_changes_def)

lemma code_changes_Cons:
  "code_changes accounts old ((h, c) # xs) =
     (if map_of old h = None then
        (case find (\<lambda>(a, x). as_code_hash x = Some h) accounts of None \<Rightarrow> [] | Some (a, x) \<Rightarrow> [Code_Deployed a h c])
      else []) @ code_changes accounts old xs"
  by (simp add: code_changes_def)

lemma apply_account_changes:
  "sd_root (fold apply_change (account_changes old xs) st) = sd_root st"
  "sd_storage (fold apply_change (account_changes old xs) st) = sd_storage st"
  "sd_code (fold apply_change (account_changes old xs) st) = sd_code st"
  by (induction xs arbitrary: st) (auto simp: account_changes_Cons account_changes_def [of _ "[]"] split: option.split)

lemma apply_deletions:
  "sd_root (fold apply_change (map Account_Deleted ks) st) = sd_root st"
  "sd_storage (fold apply_change (map Account_Deleted ks) st) = sd_storage st"
  "sd_code (fold apply_change (map Account_Deleted ks) st) = sd_code st"
  "map_of (sd_accounts (fold apply_change (map Account_Deleted ks) st)) a =
     (if a \<in> set ks then None else map_of (sd_accounts st) a)"
  by (induction ks arbitrary: st) (auto simp: delete_conv')

lemma apply_storage_changes:
  "sd_root (fold apply_change (storage_changes old xs) st) = sd_root st"
  "sd_accounts (fold apply_change (storage_changes old xs) st) = sd_accounts st"
  "sd_code (fold apply_change (storage_changes old xs) st) = sd_code st"
  by (induction xs arbitrary: st) (auto simp: storage_changes_Cons storage_changes_def [of _ "[]"] split: option.split)

lemma apply_code_changes:
  "sd_root (fold apply_change (code_changes accounts old xs) st) = sd_root st"
  "sd_accounts (fold apply_change (code_changes accounts old xs) st) = sd_accounts st"
  "sd_storage (fold apply_change (code_changes accounts old xs) st) = sd_storage st"
  by (induction xs arbitrary: st) (auto simp: code_changes_Cons code_changes_def [of _ _ "[]"] split: option.split)

lemma accounts_after_changes:
  assumes "distinct (map fst xs)"
  shows "map_of (sd_accounts (fold apply_change (account_changes old xs) st)) a =
    (case map_of xs a of
       Some n \<Rightarrow> if map_of old a = Some n then map_of (sd_accounts st) a else Some n
     | None \<Rightarrow> map_of (sd_accounts st) a)"
  using assms
proof (induction xs arbitrary: st)
  case (Cons x xs)
  obtain b n where x: "x = (b, n)" by (cases x)
  from Cons.prems have "map_of xs b = None" by (simp add: x map_of_eq_None_iff)
  with Cons show ?case
    by (cases "map_of old b") (auto simp: x account_changes_Cons update_conv split: option.split)
qed (simp add: account_changes_def)

lemma storage_after_changes:
  assumes "distinct (map fst xs)"
  shows "map_of (sd_storage (fold apply_change (storage_changes old xs) st)) k =
    (case map_of xs k of
       Some v \<Rightarrow> if map_of old k = Some v then map_of (sd_storage st) k else Some v
     | None \<Rightarrow> map_of (sd_storage st) k)"
  using assms
proof (induction xs arbitrary: st)
  case (Cons x xs)
  obtain b j v where x: "x = ((b, j), v)" by (metis surj_pair)
  from Cons.prems have "map_of xs (b, j) = None" by (simp add: x map_of_eq_None_iff)
  with Cons show ?case
    by (cases "map_of old (b, j)") (auto simp: x storage_changes_Cons update_conv split: option.split)
qed (simp add: storage_changes_def)

definition has_code :: "(address \<times> account_snapshot) list \<Rightarrow> h256 \<Rightarrow> bool" where
  "has_code accounts h \<longleftrightarrow> (\<exists>(a, x) \<in> set accounts. as_code_hash x = Some h)"

lemma find_has_code: "find (\<lambda>(a, x). as_code_hash x = Some h) accounts = None \<longleftrightarrow> \<not> has_code accounts h"
  by (auto simp: find_None_iff has_code_def)

lemma code_after_changes:
  assumes "distinct (map fst xs)"
  shows "map_of (sd_code (fold apply_change (code_changes accounts old xs) st)) h =
    (if map_of old h = None \<and> has_code accounts h \<and> map_of xs h \<noteq> None then map_of xs h else map_of (sd_code st) h)"
  using assms
proof (induction xs arbitrary: st)
  case (Cons x xs)
  obtain g c where x: "x = (g, c)" by (cases x)
  from Cons.prems have "map_of xs g = None" by (simp add: x map_of_eq_None_iff)
  with Cons find_has_code [of g accounts] show ?case
    by (cases "find (\<lambda>(a, x). as_code_hash x = Some g) accounts") (auto simp: x code_changes_Cons update_conv)
qed (simp add: code_changes_def)

text \<open>
  C28: a delta applied to the state it was taken from gives the accounts of the new state exactly. Of the storage it gives the
  slots of the new state, but the slots that the new state no longer has keep their old value, and so does the code; code that
  no account of the new state has is not carried over. The root stays the old one, so that the result of a delta with changes is
  a state whose root is not the root of its own content.
\<close>

theorem deltas_restore_the_accounts:
  assumes "distinct (map fst (sd_accounts new))" "distinct (map fst (sd_storage new))" "distinct (map fst (sd_code new))"
    and "apply_delta (delta_between h h' old new) old s = (st, s')"
  shows "map_of (sd_accounts st) = map_of (sd_accounts new)
    \<and> map_of (sd_storage st) = map_of (sd_storage old) ++ map_of (sd_storage new)
    \<and> (\<forall>k. map_of (sd_code st) k =
         (if map_of (sd_code old) k = None \<and> has_code (sd_accounts new) k then map_of (sd_code new) k else map_of (sd_code old) k))
    \<and> sd_root st = sd_root old \<and> current_height s' = h'"
proof -
  have "map_of (sd_accounts st) a = map_of (sd_accounts new) a" for a
  proof (cases "map_of (sd_accounts new) a")
    case None
    moreover have "a \<notin> fst ` set (sd_accounts old) \<Longrightarrow> map_of (sd_accounts old) a = None"
      by (simp add: map_of_eq_None_iff)
    ultimately show ?thesis
      using assms(1,4)
      by (simp add: apply_delta_def delta_between_def account_deletions_def apply_code_changes apply_storage_changes apply_deletions
          accounts_after_changes) (auto simp: apply_code_changes apply_storage_changes apply_deletions accounts_after_changes)
  next
    case (Some n)
    with assms(1,4) show ?thesis
      by (auto simp: apply_delta_def delta_between_def account_deletions_def apply_code_changes apply_storage_changes apply_deletions
          accounts_after_changes)
  qed
  moreover have "map_of (sd_storage st) k = (map_of (sd_storage old) ++ map_of (sd_storage new)) k" for k
    using assms(2,4)
    by (auto simp: apply_delta_def delta_between_def account_deletions_def apply_code_changes apply_deletions apply_account_changes
        storage_after_changes map_add_def split: option.split)
  moreover have "map_of (sd_code st) k =
      (if map_of (sd_code old) k = None \<and> has_code (sd_accounts new) k then map_of (sd_code new) k else map_of (sd_code old) k)" for k
    using assms(3,4)
    by (cases "map_of (sd_code new) k")
      (auto simp: apply_delta_def delta_between_def account_deletions_def apply_storage_changes apply_deletions
        apply_account_changes code_after_changes)
  moreover have "sd_root st = sd_root old" and "current_height s' = h'"
    using assms(4)
    by (auto simp: apply_delta_def delta_between_def account_deletions_def apply_code_changes apply_storage_changes apply_deletions
        apply_account_changes)
  ultimately show ?thesis by blast
qed

definition sample_account :: "u64 \<Rightarrow> account_snapshot" where
  "sample_account n = \<lparr> as_nonce = n, as_balance = 100, as_storage_root = 0, as_code_hash = None \<rparr>"

definition sample_old :: state_data where
  "sample_old = \<lparr> sd_root = 7, sd_accounts = [(1, sample_account 0), (2, sample_account 0)], sd_storage = [((1, 5), 6)], sd_code = [] \<rparr>"

definition sample_new :: state_data where
  "sample_new = \<lparr> sd_root = 8, sd_accounts = [(3, sample_account 0), (1, sample_account 1)], sd_storage = [((3, 5), 4)], sd_code = [] \<rparr>"

lemma sample_delta:
  "changes (delta_between 1 2 sample_old sample_new) =
     [Account_Created 3 (sample_account 0), Account_Updated 1 (sample_account 0) (sample_account 1), Account_Deleted 2, Storage_Updated 3 5 0 4]"
  by (simp add: delta_between_def sample_old_def sample_new_def sample_account_def account_changes_def account_deletions_def
      storage_changes_def code_changes_def)

theorem deltas_restore_the_accounts_witness:
  "map_of (sd_accounts (fst (apply_delta (delta_between 1 2 sample_old sample_new) sample_old (snapshot_manager_new 10)))) =
     map_of (sd_accounts sample_new)
   \<and> map_of (sd_storage (fst (apply_delta (delta_between 1 2 sample_old sample_new) sample_old (snapshot_manager_new 10)))) (1, 5) = Some 6
   \<and> map_of (sd_storage sample_new) (1, 5) = None"
proof -
  obtain st s' where a: "apply_delta (delta_between 1 2 sample_old sample_new) sample_old (snapshot_manager_new 10) = (st, s')"
    by (cases "apply_delta (delta_between 1 2 sample_old sample_new) sample_old (snapshot_manager_new 10)")
  have "distinct (map fst (sd_accounts sample_new))" "distinct (map fst (sd_storage sample_new))" "distinct (map fst (sd_code sample_new))"
    by (simp_all add: sample_new_def)
  from deltas_restore_the_accounts [OF this a] a show ?thesis
    by (simp add: sample_old_def sample_new_def)
qed

section \<open>What a snapshot restores, and how many are kept\<close>

lemma snapshots_restore_the_state:
  "fst (apply_snapshot (fst (create_snapshot_at now ms h st s)) st' s') = st"
  by (simp add: apply_snapshot_def create_snapshot_at_def take_snapshot_def Let_def)

lemma length_drop_oldest: "length m \<le> Suc n \<Longrightarrow> distinct (map fst m) \<Longrightarrow> length (drop_oldest n m) \<le> n"
proof -
  assume m: "length m \<le> Suc n" "distinct (map fst m)"
  show "length (drop_oldest n m) \<le> n"
  proof (cases "n < length m")
    case True
    then have "m \<noteq> []" by auto
    then have "Min (fst ` set m) \<in> fst ` set m" by (intro Min_in) auto
    then obtain v where "(Min (fst ` set m), v) \<in> set m" by auto
    then have "length (AList.delete (Min (fst ` set m)) m) < length m"
      unfolding AList.delete_eq by (rule length_filter_less) simp
    with m True show ?thesis by (simp add: drop_oldest_def)
  next
    case False
    then show ?thesis by (simp add: drop_oldest_def)
  qed
qed

definition manager_ok :: "snapshot_manager \<Rightarrow> bool" where
  "manager_ok s \<longleftrightarrow> distinct (map fst (snapshots s)) \<and> length (snapshots s) \<le> max_snapshots s \<and> peer_scores s = []"

lemma distinct_drop_oldest: "distinct (map fst m) \<Longrightarrow> distinct (map fst (drop_oldest n m))"
  by (simp add: drop_oldest_def distinct_delete)

lemma manager_ok_create: "manager_ok s \<Longrightarrow> manager_ok (snd (create_snapshot_at now ms h st s))"
  using length_update_le [of h "take_snapshot now ms h st" "snapshots s"]
  by (auto simp: manager_ok_def create_snapshot_at_def Let_def distinct_update intro!: length_drop_oldest distinct_drop_oldest)

lemma downloads_fail:
  assumes "peer_scores s = []"
  shows "download_snapshot root now h s = Err NoPeersAvailable" "download_delta root h h' s = Err NoPeersAvailable"
  using assms by (simp_all add: download_snapshot_def download_delta_def select_best_peer_def)

lemma sync_heights_idle: "peer_scores s = [] \<Longrightarrow> sync_heights root hs st s = s"
  by (induction hs arbitrary: st) (simp_all add: downloads_fail)

lemma sync_to_height_result:
  assumes "peer_scores s = []" "current_height s < target"
  shows "sync_to_height root now target s =
    (if best_snapshot target s = None
     then (Ok (), s\<lparr>sync_metrics := (sync_metrics s)\<lparr>sync_sessions_started := sync_sessions_started (sync_metrics s) + 1,
            sync_sessions_completed := sync_sessions_completed (sync_metrics s) + 1\<rparr>\<rparr>)
     else (Err NoPeersAvailable,
           s\<lparr>sync_metrics := (sync_metrics s)\<lparr>sync_sessions_started := sync_sessions_started (sync_metrics s) + 1\<rparr>\<rparr>))"
proof -
  let ?s1 = "s\<lparr>sync_metrics := (sync_metrics s)\<lparr>sync_sessions_started := sync_sessions_started (sync_metrics s) + 1\<rparr>\<rparr>"
  have b: "best_snapshot target ?s1 = best_snapshot target s" by (simp add: best_snapshot_def)
  have p: "peer_scores ?s1 = []" using assms(1) by simp
  show ?thesis
    using assms(2)
    by (cases "best_snapshot target s")
      (simp_all add: sync_to_height_def Let_def b sync_incremental_def sync_heights_idle [OF p] sync_from_snapshot_def
        downloads_fail [OF p])
qed

lemma sync_to_height_frame:
  assumes "peer_scores s = []"
  shows "snapshots (snd (sync_to_height root now target s)) = snapshots s
    \<and> peer_scores (snd (sync_to_height root now target s)) = []
    \<and> max_snapshots (snd (sync_to_height root now target s)) = max_snapshots s"
proof (cases "current_height s < target")
  case True
  show ?thesis unfolding sync_to_height_result [OF assms True] by (simp add: assms)
next
  case False
  then have "target \<le> current_height s" by simp
  then show ?thesis by (simp add: sync_to_height_def assms)
qed

lemma max_snapshots_step: "peer_scores s = [] \<Longrightarrow> max_snapshots (snapshots_step c s) = max_snapshots s"
  by (cases c) (auto simp: create_snapshot_at_def create_delta_def apply_snapshot_def apply_delta_def cleanup_old_data_def Let_def
      sync_to_height_frame)

lemma distinct_filter_keys: "distinct (map fst m) \<Longrightarrow> distinct (map fst (filter p m))"
  by (induction m) auto

lemma manager_ok_step: "manager_ok s \<Longrightarrow> manager_ok (snapshots_step c s)"
proof (cases c)
  case (Make_Snapshot now ms h st)
  then show "manager_ok s \<Longrightarrow> ?thesis" by (simp add: manager_ok_create)
next
  case (Sync_To root now target)
  then show "manager_ok s \<Longrightarrow> ?thesis" by (simp add: manager_ok_def sync_to_height_frame)
next
  case (Cleanup h)
  then show "manager_ok s \<Longrightarrow> ?thesis"
    by (auto simp: manager_ok_def cleanup_old_data_def distinct_filter_keys intro: order_trans [OF length_filter_le])
qed (simp_all add: manager_ok_def create_delta_def apply_snapshot_def apply_delta_def Let_def)

interpretation manager_runs: invariant_of snapshots_step "\<lambda>_ _. True" manager_ok
  by unfold_locales (rule manager_ok_step)

lemma manager_ok_run: "manager_ok (run snapshots_step cs (snapshot_manager_new interval))"
  by (rule manager_runs.inv_run) (simp_all add: manager_ok_def snapshot_manager_new_def run_ok_always)

lemma max_snapshots_run: "manager_ok s \<Longrightarrow> max_snapshots (run snapshots_step cs s) = max_snapshots s"
  by (induction cs arbitrary: s) (simp_all add: manager_ok_step max_snapshots_step manager_ok_def [of s for s, THEN iffD1, THEN conjunct2, THEN conjunct2])

lemma at_most_ten_snapshots: "length (snapshots (run snapshots_step cs (snapshot_manager_new interval))) \<le> 10"
  using manager_ok_run [of cs interval] max_snapshots_run [of "snapshot_manager_new interval" cs]
  by (simp add: manager_ok_def snapshot_manager_new_def)

text \<open>A snapshot below all of ten kept ones is dropped by the call that takes it, and becomes the current height all the same.\<close>

lemma old_snapshot_is_dropped_at_once:
  assumes "length (snapshots s) = max_snapshots s" "snapshots s \<noteq> []" "\<forall>k \<in> fst ` set (snapshots s). h < k"
  shows "get_snapshot h (snd (create_snapshot_at now ms h st s)) = None
    \<and> current_height (snd (create_snapshot_at now ms h st s)) = h"
proof -
  let ?x = "take_snapshot now ms h st"
  have "h \<notin> fst ` set (snapshots s)" using assms(3) by auto
  then have l: "length (AList.update h ?x (snapshots s)) = Suc (length (snapshots s))"
    by (simp add: length_update)
  have "Min (insert h (fst ` set (snapshots s))) = h"
    using assms(3) by (intro Min_eqI) auto
  with l assms(1) show ?thesis
    by (simp add: get_snapshot_def create_snapshot_at_def Let_def drop_oldest_def dom_update delete_conv')
qed

text \<open>
  No call makes a peer known to the synchronisation, so it can download nothing: in every run, asking for a height above
  the current one ends with success and moves nothing when there is no newer snapshot of its own, and fails for want of peers
  when there is one. Either way no snapshot, no delta and no height is changed.
\<close>

theorem sync_moves_nothing:
  assumes "s = run snapshots_step cs (snapshot_manager_new interval)" and "current_height s < target"
  shows "fst (sync_to_height root now target s) = (if best_snapshot target s = None then Ok () else Err NoPeersAvailable)
    \<and> current_height (snd (sync_to_height root now target s)) = current_height s
    \<and> snapshots (snd (sync_to_height root now target s)) = snapshots s
    \<and> deltas (snd (sync_to_height root now target s)) = deltas s"
  using manager_ok_run [of cs interval] assms(2) unfolding assms(1) [symmetric]
  by (simp add: manager_ok_def sync_to_height_result)

theorem sync_moves_nothing_witness:
  "fst (sync_to_height 0 0 5 (snapshot_manager_new 10)) = Ok ()
   \<and> current_height (snd (sync_to_height 0 0 5 (snapshot_manager_new 10))) = 0"
  using sync_moves_nothing [where s = "snapshot_manager_new 10" and cs = "[]" and interval = 10 and root = 0 and now = 0 and target = 5]
  by (simp add: snapshot_manager_new_def best_snapshot_def)

end
