(* ===== verification/Privacy.thy ===== *)
theory Privacy
  imports TxBytes
begin

text \<open>
  The privacy engine of \<^verbatim>\<open>src/privacy/\<close>: the commitment tree (\<^verbatim>\<open>commitment.rs\<close>), the placeholder proofs
  (\<^verbatim>\<open>privacy_proof.rs\<close>), ring signatures and stealth addresses, and the engine that puts them together (\<^verbatim>\<open>mod.rs\<close>). Keccak
  is an argument, as are the clock and what is drawn at random (blinding factors, ephemeral keys, identifiers).
\<close>

type_synonym keccak = "u8 list \<Rightarrow> h256"

definition keccak_bytes :: "keccak \<Rightarrow> u8 list \<Rightarrow> u8 list" where
  "keccak_bytes keccak bs = be_bytes 32 (keccak bs)"

section \<open>Data\<close>

datatype proof_system = Groth16 | Plonk | Bulletproofs | Starks

datatype commitment_scheme = Pedersen | Hash_Based | Polynomial_Scheme

record privacy_config =
  anonymity_set_size :: nat
  proof_system_of :: proof_system
  commitment_scheme_of :: commitment_scheme
  enable_stealth_addresses :: bool

record amount_commitment =
  cm_value :: "u8 list"
  cm_scheme :: commitment_scheme

record privacy_proof =
  pi_a :: "u8 list"
  pi_b :: "u8 list"
  pi_c :: "u8 list"
  public_inputs :: "u8 list list"

record ring_signature =
  key_image :: "u8 list"
  ring_signatures :: "u8 list list"
  ring_members :: "u8 list list"

record path_proof =
  mp_leaf :: h256
  mp_path :: "h256 list"
  mp_indices :: "bool list"

record stealth_address =
  ephemeral_pubkey :: "u8 list"
  stealth_pubkey :: "u8 list"
  view_tag :: "u8 list"

record shield_note =
  sn_commitment :: amount_commitment
  sn_nullifier :: h256
  sn_owner :: address
  sn_amount :: u256
  sn_secret :: "u8 list"
  sn_pool :: h256

record shielded_pool =
  sp_id :: h256
  sp_total_shielded :: u256
  sp_commitment_root :: h256
  sp_nullifier_set :: "h256 list"
  sp_epoch :: u64

record private_transaction =
  pv_id :: h256
  pv_stealth :: stealth_address
  pv_commitment :: amount_commitment
  pv_proof :: privacy_proof
  pv_ring :: ring_signature
  pv_merkle :: path_proof
  pv_memo :: "u8 list"
  pv_timestamp :: u64

datatype privacy_error =
    InvalidZkProof | InvalidRingSignature | NullifierAlreadyUsed | CommitmentNotFound | StealthAddressGenerationFailed
  | MemoEncryptionFailed | MemoDecryptionFailed

definition commitment_hash :: "keccak \<Rightarrow> amount_commitment \<Rightarrow> h256" where
  "commitment_hash keccak c = keccak (cm_value c)"

section \<open>The commitment tree\<close>

text \<open>The node table and the cached root of the struct are never filled.\<close>

type_synonym commitment_tree = "h256 list"

definition hash_two :: "keccak \<Rightarrow> h256 \<Rightarrow> h256 \<Rightarrow> h256" where
  "hash_two keccak a b = keccak (be_bytes 32 a @ be_bytes 32 b)"

definition tree_insert :: "keccak \<Rightarrow> amount_commitment \<Rightarrow> commitment_tree \<Rightarrow> commitment_tree" where
  "tree_insert keccak c leaves = leaves @ [commitment_hash keccak c]"

text \<open>The last node of an odd level is paired with itself.\<close>

fun next_level :: "keccak \<Rightarrow> h256 list \<Rightarrow> h256 list" where
  "next_level keccak [] = []"
| "next_level keccak [x] = [hash_two keccak x x]"
| "next_level keccak (x # y # zs) = hash_two keccak x y # next_level keccak zs"

lemma length_next_level: "length (next_level keccak xs) = (length xs + 1) div 2"
  by (induction keccak xs rule: next_level.induct) auto

function compute_root :: "keccak \<Rightarrow> h256 list \<Rightarrow> h256" where
  "compute_root keccak level = (if length level \<le> 1 then hd level else compute_root keccak (next_level keccak level))"
  by pat_completeness auto

termination
  by (relation "measure (\<lambda>(keccak, level). length level)") (auto simp: length_next_level)

declare compute_root.simps [simp del]

definition commitment_root :: "keccak \<Rightarrow> commitment_tree \<Rightarrow> h256" where
  "commitment_root keccak leaves = (if leaves = [] then 0 else compute_root keccak leaves)"

function proof_path :: "keccak \<Rightarrow> nat \<Rightarrow> h256 list \<Rightarrow> h256 list \<times> bool list" where
  "proof_path keccak i level =
     (if length level \<le> 1 then ([], [])
      else
        let right = (i mod 2 = 1); s = (if right then i - 1 else i + 1)
        in case proof_path keccak (i div 2) (next_level keccak level) of
             (path, rights) \<Rightarrow> ((if s < length level then level ! s else level ! i) # path, right # rights))"
  by pat_completeness auto

termination
  by (relation "measure (\<lambda>(keccak, i, level). length level)") (auto simp: length_next_level)

declare proof_path.simps [simp del]

definition position_of :: "h256 \<Rightarrow> h256 list \<Rightarrow> nat" where
  "position_of leaf leaves = (if leaf \<in> set leaves then length (takeWhile (\<lambda>l. l \<noteq> leaf) leaves) else 0)"

definition generate_merkle_proof :: "keccak \<Rightarrow> h256 \<Rightarrow> commitment_tree \<Rightarrow> path_proof" where
  "generate_merkle_proof keccak leaf leaves =
     (case proof_path keccak (position_of leaf leaves) leaves of
        (path, rights) \<Rightarrow> \<lparr> mp_leaf = leaf, mp_path = path, mp_indices = rights \<rparr>)"

fun root_from :: "keccak \<Rightarrow> h256 \<Rightarrow> (h256 \<times> bool) list \<Rightarrow> h256" where
  "root_from keccak cur [] = cur"
| "root_from keccak cur ((sibling, right) # steps) =
     root_from keccak (if right then hash_two keccak sibling cur else hash_two keccak cur sibling) steps"

definition verify_merkle_proof :: "keccak \<Rightarrow> path_proof \<Rightarrow> h256 \<Rightarrow> bool" where
  "verify_merkle_proof keccak p root \<longleftrightarrow> root_from keccak (mp_leaf p) (zip (mp_path p) (mp_indices p)) = root"

section \<open>Commitments to amounts\<close>

definition create_commitment :: "keccak \<Rightarrow> commitment_scheme \<Rightarrow> u256 \<Rightarrow> u8 list \<Rightarrow> amount_commitment \<times> u8 list" where
  "create_commitment keccak scheme amount blinding =
     (let label = (case scheme of Pedersen \<Rightarrow> string_bytes ''PEDERSEN'' | Hash_Based \<Rightarrow> [] | Polynomial_Scheme \<Rightarrow> string_bytes ''POLYNOMIAL'')
      in (\<lparr> cm_value = keccak_bytes keccak (label @ le_bytes 32 amount @ blinding), cm_scheme = scheme \<rparr>, blinding))"

section \<open>Proofs and signatures\<close>

definition generate_zk_proof :: "proof_system \<Rightarrow> u256 \<Rightarrow> privacy_proof" where
  "generate_zk_proof system amount =
     (case system of
        Groth16 \<Rightarrow> \<lparr> pi_a = replicate 32 1, pi_b = replicate 64 2, pi_c = replicate 32 3, public_inputs = [replicate 32 4] \<rparr>
      | Plonk \<Rightarrow> \<lparr> pi_a = replicate 32 5, pi_b = replicate 64 6, pi_c = replicate 32 7, public_inputs = [replicate 32 8] \<rparr>
      | Bulletproofs \<Rightarrow> \<lparr> pi_a = le_bytes 32 amount, pi_b = replicate 64 0, pi_c = replicate 32 0, public_inputs = [] \<rparr>
      | Starks \<Rightarrow> \<lparr> pi_a = replicate 32 9, pi_b = replicate 64 10, pi_c = replicate 32 11, public_inputs = [replicate 32 12] \<rparr>)"

definition verify_zk_proof :: "privacy_proof \<Rightarrow> amount_commitment \<Rightarrow> bool" where
  "verify_zk_proof p c \<longleftrightarrow> pi_a p \<noteq> [] \<and> pi_b p \<noteq> [] \<and> pi_c p \<noteq> []"

definition verify_unshield_proof :: "privacy_proof \<Rightarrow> shield_note \<Rightarrow> bool" where
  "verify_unshield_proof p note \<longleftrightarrow> public_inputs p \<noteq> []"

definition generate_ring_members :: "address \<Rightarrow> nat \<Rightarrow> u8 list list" where
  "generate_ring_members signer n = be_bytes 20 signer # map (\<lambda>i. replicate 20 (word_of_nat i)) [1..<n]"

definition generate_key_image :: "keccak \<Rightarrow> address \<Rightarrow> h256 \<Rightarrow> u8 list" where
  "generate_key_image keccak signer message = keccak_bytes keccak (be_bytes 20 signer @ be_bytes 32 message)"

definition ring_sign :: "keccak \<Rightarrow> address \<Rightarrow> h256 \<Rightarrow> nat \<Rightarrow> ring_signature" where
  "ring_sign keccak signer message n =
     (let members = generate_ring_members signer n; image = generate_key_image keccak signer message
      in \<lparr> key_image = image, ring_signatures = map (\<lambda>_. keccak_bytes keccak (image @ be_bytes 32 message)) members,
           ring_members = members \<rparr>)"

definition ring_verify :: "ring_signature \<Rightarrow> h256 \<Rightarrow> bool" where
  "ring_verify s message \<longleftrightarrow> length (ring_signatures s) = length (ring_members s)"

section \<open>Stealth addresses\<close>

definition shared_secret :: "keccak \<Rightarrow> u8 list \<Rightarrow> u8 list \<Rightarrow> u8 list" where
  "shared_secret keccak ephemeral key = keccak_bytes keccak (ephemeral @ key)"

definition generate_stealth_address :: "keccak \<Rightarrow> u8 list \<Rightarrow> address \<Rightarrow> stealth_address" where
  "generate_stealth_address keccak ephemeral recipient =
     (let secret = shared_secret keccak ephemeral (be_bytes 20 recipient)
      in \<lparr> ephemeral_pubkey = ephemeral, stealth_pubkey = take 20 (keccak_bytes keccak (be_bytes 20 recipient @ secret)),
           view_tag = take 4 secret \<rparr>)"

definition check_ownership :: "keccak \<Rightarrow> stealth_address \<Rightarrow> u8 list \<Rightarrow> bool" where
  "check_ownership keccak a view_key \<longleftrightarrow> take 4 (shared_secret keccak (ephemeral_pubkey a) view_key) = view_tag a"

section \<open>The engine\<close>

record privacy_engine =
  pe_config :: privacy_config
  pe_tree :: commitment_tree

definition privacy_engine_new :: "privacy_config \<Rightarrow> privacy_engine" where
  "privacy_engine_new config = \<lparr> pe_config = config, pe_tree = [] \<rparr>"

fun xor_bytes :: "u8 list \<Rightarrow> u8 list \<Rightarrow> u8 list" where
  "xor_bytes (d # ds) (k # ks) = xor d k # xor_bytes ds ks"
| "xor_bytes ds ks = []"

text \<open>\<^verbatim>\<open>key.iter().cycle()\<close>, as far as the data goes.\<close>

definition cycle :: "nat \<Rightarrow> u8 list \<Rightarrow> u8 list" where
  "cycle n ks = map (\<lambda>i. ks ! (i mod length ks)) [0..<n]"

definition encrypt_memo :: "keccak \<Rightarrow> u8 list option \<Rightarrow> address \<Rightarrow> u8 list" where
  "encrypt_memo keccak memo recipient =
     (case memo of None \<Rightarrow> []
      | Some m \<Rightarrow> xor_bytes m (cycle (length m) (keccak_bytes keccak (be_bytes 20 recipient))))"

definition create_private_transaction ::
  "keccak \<Rightarrow> u64 \<Rightarrow> h256 \<Rightarrow> u8 list \<Rightarrow> u8 list \<Rightarrow> address \<Rightarrow> address \<Rightarrow> u256 \<Rightarrow> u8 list option \<Rightarrow> privacy_engine \<Rightarrow>
     private_transaction \<times> privacy_engine" where
  "create_private_transaction keccak now fresh_id ephemeral blinding sender recipient amount memo s =
     (let config = pe_config s;
          stealth = (if enable_stealth_addresses config then generate_stealth_address keccak ephemeral recipient
                     else \<lparr> ephemeral_pubkey = replicate 32 0, stealth_pubkey = be_bytes 20 recipient, view_tag = replicate 4 0 \<rparr>)
      in case create_commitment keccak (commitment_scheme_of config) amount blinding of (c, b) \<Rightarrow>
        let tree = tree_insert keccak c (pe_tree s)
        in (\<lparr> pv_id = fresh_id, pv_stealth = stealth, pv_commitment = c, pv_proof = generate_zk_proof (proof_system_of config) amount,
              pv_ring = ring_sign keccak sender (commitment_hash keccak c) (anonymity_set_size config),
              pv_merkle = generate_merkle_proof keccak (commitment_hash keccak c) tree,
              pv_memo = encrypt_memo keccak memo recipient, pv_timestamp = now \<rparr>, s\<lparr>pe_tree := tree\<rparr>))"

text \<open>The root the path is compared with is the hash of the commitment, not the root of the tree.\<close>

definition verify_private_transaction :: "keccak \<Rightarrow> private_transaction \<Rightarrow> privacy_engine \<Rightarrow> bool" where
  "verify_private_transaction keccak tx s \<longleftrightarrow>
     verify_zk_proof (pv_proof tx) (pv_commitment tx) \<and>
     ring_verify (pv_ring tx) (commitment_hash keccak (pv_commitment tx)) \<and>
     verify_merkle_proof keccak (pv_merkle tx) (commitment_hash keccak (pv_commitment tx))"

definition create_shielded_pool :: "keccak \<Rightarrow> h256 \<Rightarrow> u256 \<Rightarrow> privacy_engine \<Rightarrow> shielded_pool" where
  "create_shielded_pool keccak fresh_id deposit s =
     \<lparr> sp_id = fresh_id, sp_total_shielded = deposit, sp_commitment_root = commitment_root keccak (pe_tree s), sp_nullifier_set = [],
       sp_epoch = 0 \<rparr>"

definition generate_nullifier :: "keccak \<Rightarrow> address \<Rightarrow> h256 \<Rightarrow> h256" where
  "generate_nullifier keccak user c = keccak (be_bytes 20 user @ be_bytes 32 c)"

definition shield_tokens ::
  "keccak \<Rightarrow> u8 list \<Rightarrow> address \<Rightarrow> u256 \<Rightarrow> h256 \<Rightarrow> privacy_engine \<Rightarrow> shield_note \<times> privacy_engine" where
  "shield_tokens keccak blinding user amount pool s =
     (case create_commitment keccak (commitment_scheme_of (pe_config s)) amount blinding of (c, secret) \<Rightarrow>
        (\<lparr> sn_commitment = c, sn_nullifier = generate_nullifier keccak user (commitment_hash keccak c), sn_owner = user,
           sn_amount = amount, sn_secret = secret, sn_pool = pool \<rparr>, s\<lparr>pe_tree := tree_insert keccak c (pe_tree s)\<rparr>))"

definition unshield_tokens :: "shield_note \<Rightarrow> privacy_proof \<Rightarrow> (privacy_error, u256) outcome" where
  "unshield_tokens note p = (if verify_unshield_proof p note then Ok (sn_amount note) else Err InvalidZkProof)"

section \<open>Paths lead to the root\<close>

lemma next_level_nth:
  "2 * k < length xs \<Longrightarrow> next_level keccak xs ! k = hash_two keccak (xs ! (2 * k)) (if 2 * k + 1 < length xs then xs ! (2 * k + 1) else xs ! (2 * k))"
proof (induction keccak xs arbitrary: k rule: next_level.induct)
  case (3 keccak x y zs)
  then show ?case by (cases k) auto
qed auto

lemma path_leads_to_root:
  "i < length level \<Longrightarrow> proof_path keccak i level = (path, rights) \<Longrightarrow> root_from keccak (level ! i) (zip path rights) = compute_root keccak level"
proof (induction keccak i level arbitrary: path rights rule: proof_path.induct)
  case (1 keccak i level)
  show ?case
  proof (cases "length level \<le> 1")
    case True
    with "1.prems" show ?thesis by (cases level) (auto simp: proof_path.simps compute_root.simps)
  next
    case False
    define right s where "right = (i mod 2 = 1)" and "s = (if right then i - 1 else i + 1)"
    obtain p q where pq: "proof_path keccak (i div 2) (next_level keccak level) = (p, q)" by fastforce
    have "i div 2 < length (next_level keccak level)" using "1.prems"(1) by (simp add: length_next_level)
    from "1.IH" [OF False right_def s_def this pq]
    have up: "root_from keccak (next_level keccak level ! (i div 2)) (zip p q) = compute_root keccak (next_level keccak level)" .
    have path: "path = (if s < length level then level ! s else level ! i) # p" "rights = right # q"
      using "1.prems"(2) False pq unfolding proof_path.simps [of keccak i level] by (auto simp: Let_def right_def s_def)
    have "next_level keccak level ! (i div 2) =
      (if right then hash_two keccak (level ! s) (level ! i)
       else hash_two keccak (level ! i) (if s < length level then level ! s else level ! i))"
    proof (cases right)
      case True
      then have "i = 2 * (i div 2) + 1" unfolding right_def by presburger
      then obtain k where "i = 2 * k + 1" by blast
      with True "1.prems"(1) next_level_nth [of k level keccak] show ?thesis by (simp add: s_def)
    next
      case False
      then have "i = 2 * (i div 2)" unfolding right_def by presburger
      then obtain k where "i = 2 * k" by blast
      with False "1.prems"(1) next_level_nth [of k level keccak] show ?thesis by (simp add: s_def)
    qed
    moreover have "s < length level" if right using that "1.prems"(1) by (simp add: s_def)
    ultimately have "root_from keccak (level ! i) (zip path rights) = root_from keccak (next_level keccak level ! (i div 2)) (zip p q)"
      by (simp add: path)
    with up False show ?thesis by (simp add: compute_root.simps [of keccak level])
  qed
qed

lemma position_of_nth: "leaf \<in> set leaves \<Longrightarrow> position_of leaf leaves < length leaves \<and> leaves ! position_of leaf leaves = leaf"
proof -
  assume leaf: "leaf \<in> set leaves"
  then have "length (takeWhile (\<lambda>l. l \<noteq> leaf) leaves) < length leaves" by (induction leaves) auto
  with leaf nth_length_takeWhile [OF this] show ?thesis by (simp add: position_of_def)
qed

lemma merkle_root_from_proof:
  assumes "leaf \<in> set leaves"
  shows "verify_merkle_proof keccak (generate_merkle_proof keccak leaf leaves) root \<longleftrightarrow> root = commitment_root keccak leaves"
proof -
  obtain p q where pq: "proof_path keccak (position_of leaf leaves) leaves = (p, q)" by fastforce
  note pos = position_of_nth [OF assms]
  have "root_from keccak leaf (zip p q) = compute_root keccak leaves"
    using path_leads_to_root [OF _ pq] pos by simp
  moreover have "leaves \<noteq> []" using assms by auto
  ultimately show ?thesis using pq by (auto simp: generate_merkle_proof_def verify_merkle_proof_def commitment_root_def)
qed

text \<open>C18: a proof generated for any leaf of the commitment tree is accepted for the root of the tree, whatever the size of
  the tree, and for no other root.\<close>

theorem merkle_proofs_verify:
  "\<forall>leaf \<in> set leaves. verify_merkle_proof keccak (generate_merkle_proof keccak leaf leaves) root \<longleftrightarrow> root = commitment_root keccak leaves"
  using merkle_root_from_proof by blast

theorem merkle_proofs_verify_witness:
  "verify_merkle_proof (\<lambda>bs. word_of_nat (length bs) + ucast (last bs)) (generate_merkle_proof (\<lambda>bs. word_of_nat (length bs) + ucast (last bs)) 7 [5, 6, 7])
     (commitment_root (\<lambda>bs. word_of_nat (length bs) + ucast (last bs)) [5, 6, 7])"
proof -
  have "7 \<in> set [5, 6, 7 :: h256]" by simp
  with merkle_proofs_verify show ?thesis by blast
qed

text \<open>A private transaction is accepted exactly if the tree had no other root than its own commitment when it was made:
  the first transaction of an engine is, and a later one only if hashes of the tree collide.\<close>

theorem private_transactions_prove_the_wrong_root:
  "case create_private_transaction keccak now i ephemeral blinding sender recipient amount memo s of (tx, s') \<Rightarrow>
     verify_private_transaction keccak tx s'' \<longleftrightarrow> commitment_root keccak (pe_tree s') = commitment_hash keccak (pv_commitment tx)"
proof -
  show ?thesis
    by (auto simp: create_private_transaction_def create_commitment_def Let_def verify_private_transaction_def verify_zk_proof_def
        generate_zk_proof_def ring_verify_def ring_sign_def merkle_root_from_proof tree_insert_def le_bytes_def be_bytes_def
        split: proof_system.split)
qed

text \<open>With a second leaf in the tree the comparison fails, here for the length in place of the hash.\<close>

definition length_hash :: keccak where
  "length_hash bs = word_of_nat (length bs)"

lemma second_transaction_is_refused:
  "case create_private_transaction length_hash now i ephemeral blinding sender recipient amount memo s of
     (tx, s') \<Rightarrow> length (pe_tree s) = 1 \<longrightarrow> \<not> verify_private_transaction length_hash tx s'"
proof -
  have "compute_root length_hash [a, b] = 64" for a b by (simp add: compute_root.simps hash_two_def length_hash_def)
  then show ?thesis
    by (auto simp: create_private_transaction_def create_commitment_def Let_def verify_private_transaction_def merkle_root_from_proof
        tree_insert_def commitment_root_def commitment_hash_def length_hash_def keccak_bytes_def length_Suc_conv)
qed

lemma xor_bytes_twice: "length ks = length ds \<Longrightarrow> xor_bytes (xor_bytes ds ks) ks = ds"
  by (induction ds ks rule: xor_bytes.induct) (auto simp: xor.assoc)

lemma length_xor_bytes: "length (xor_bytes ds ks) = min (length ds) (length ks)"
  by (induction ds ks rule: xor_bytes.induct) auto

text \<open>A memo is no secret: encrypting it again, for which the public address of the recipient is enough, gives it back.\<close>

theorem memos_are_readable:
  "encrypt_memo keccak (Some (encrypt_memo keccak (Some memo) recipient)) recipient = memo"
  by (simp add: encrypt_memo_def xor_bytes_twice length_xor_bytes cycle_def)

text \<open>The proofs that the prover hands out for any transaction unshield any note, as often as one likes; the sender is
  the first member of every ring.\<close>

lemma any_note_can_be_unshielded:
  "system \<noteq> Bulletproofs \<Longrightarrow> unshield_tokens note (generate_zk_proof system amount) = Ok (sn_amount note)"
  by (cases system) (simp_all add: unshield_tokens_def verify_unshield_proof_def generate_zk_proof_def)

lemma rings_begin_with_the_signer: "hd (ring_members (ring_sign keccak signer message n)) = be_bytes 20 signer"
  by (simp add: ring_sign_def generate_ring_members_def Let_def)

end
