(* ===== verification/Network.thy ===== *)
theory Network
  imports Tendermint
begin

text \<open>
  \<^verbatim>\<open>src/network/mod.rs\<close>: the transaction pool, and the peer-to-peer front end as far as it is written: the connection
  to a peer is a queue whose other end is a task of the node itself, which hands the messages on to channels. The hash is an
  argument, as is the serialisation (bincode): \<open>ser\<close> and \<open>de\<close> for each kind of payload.
\<close>

section \<open>The transaction pool\<close>

record tx_pool =
  pool_pending :: "(h256 \<times> block_tx) list"
  pool_queued :: "(address \<times> block_tx list) list"
  pool_max_size :: nat
  pool_max_per_account :: nat

definition tx_pool_new :: tx_pool where
  "tx_pool_new = \<lparr> pool_pending = [], pool_queued = [], pool_max_size = 10000, pool_max_per_account = 100 \<rparr>"

definition account_count :: "address \<Rightarrow> (h256 \<times> block_tx) list \<Rightarrow> nat" where
  "account_count a m = length (filter (\<lambda>(h, t). tx_from t = a) m)"

definition queued_of :: "address \<Rightarrow> tx_pool \<Rightarrow> block_tx list" where
  "queued_of a p = (case map_of (pool_queued p) a of None \<Rightarrow> [] | Some q \<Rightarrow> q)"

definition pool_add :: "(u8 list \<Rightarrow> h256) \<Rightarrow> block_tx \<Rightarrow> tx_pool \<Rightarrow> bool \<times> tx_pool" where
  "pool_add sha tx p =
     (if pool_max_size p \<le> length (pool_pending p) then (False, p)
      else if pool_max_per_account p \<le> account_count (tx_from tx) (pool_pending p) then
        (False, p\<lparr>pool_queued := AList.update (tx_from tx) (queued_of (tx_from tx) p @ [tx]) (pool_queued p)\<rparr>)
      else (True, p\<lparr>pool_pending := AList.update (tx_hash sha tx) tx (pool_pending p)\<rparr>))"

definition get_pending :: "nat \<Rightarrow> tx_pool \<Rightarrow> block_tx list" where
  "get_pending limit p = take limit (sort_key (\<lambda>t. - int (unat (tx_gas_price t))) (map snd (pool_pending p)))"

text \<open>The account's transaction queued last takes the free place.\<close>

definition pool_remove :: "(u8 list \<Rightarrow> h256) \<Rightarrow> h256 \<Rightarrow> tx_pool \<Rightarrow> block_tx option \<times> tx_pool" where
  "pool_remove sha h p =
     (case map_of (pool_pending p) h of
        None \<Rightarrow> (None, p)
      | Some tx \<Rightarrow>
          let p1 = p\<lparr>pool_pending := AList.delete h (pool_pending p)\<rparr>; q = queued_of (tx_from tx) p
          in (Some tx,
              if q = [] then p1
              else p1\<lparr>pool_queued := AList.update (tx_from tx) (butlast q) (pool_queued p1),
                      pool_pending := AList.update (tx_hash sha (last q)) (last q) (pool_pending p1)\<rparr>))"

definition pool_clear :: "tx_pool \<Rightarrow> tx_pool" where
  "pool_clear p = p\<lparr>pool_pending := [], pool_queued := []\<rparr>"

definition prune_old_transactions :: "(address \<rightharpoonup> u64) \<Rightarrow> tx_pool \<Rightarrow> tx_pool" where
  "prune_old_transactions nonces p =
     p\<lparr>pool_pending := filter (\<lambda>(h, t). case nonces (tx_from t) of None \<Rightarrow> True | Some n \<Rightarrow> n \<le> tx_nonce t) (pool_pending p)\<rparr>"

datatype tx_pool_call = Pool_Add block_tx | Pool_Remove h256 | Pool_Clear | Pool_Prune "address \<rightharpoonup> u64"

fun tx_pool_step :: "(u8 list \<Rightarrow> h256) \<Rightarrow> tx_pool_call \<Rightarrow> tx_pool \<Rightarrow> tx_pool" where
  "tx_pool_step sha (Pool_Add tx) p = snd (pool_add sha tx p)"
| "tx_pool_step sha (Pool_Remove h) p = snd (pool_remove sha h p)"
| "tx_pool_step sha Pool_Clear p = pool_clear p"
| "tx_pool_step sha (Pool_Prune nonces) p = prune_old_transactions nonces p"

section \<open>Peers and messages\<close>

datatype message_type = Msg_Consensus | Msg_Transaction | Msg_Block | Msg_State_Sync | Msg_Ping | Msg_Pong

record network_message =
  nm_type :: message_type
  nm_payload :: "u8 list"
  nm_sender :: "u8 list"

record consensus_message =
  cmsg_height :: u64
  cmsg_round :: u32
  cmsg_type :: u8
  cmsg_data :: "u8 list"

record network_block =
  nb_height :: u64
  nb_hash :: h256
  nb_parent :: h256
  nb_transactions :: "block_tx list"
  nb_state_root :: h256

record peer =
  peer_address :: string
  latency_ms :: u64
  bandwidth_mbps :: u64
  message_queue :: "network_message list"

text \<open>
  A channel of the handler: whether its receiver is alive, and what arrived. \<open>peers_stuck\<close>: a task waits for the write guard
  of the peers under its own read guard, and all that come later wait behind it.
\<close>

record 'a channel_end =
  receiver_alive :: bool
  arrived :: "'a list"

record message_handler =
  consensus_channel :: "consensus_message channel_end"
  transaction_channel :: "block_tx channel_end"
  block_channel :: "network_block channel_end"

record network =
  node_id :: "u8 list"
  peers :: "(u8 list \<times> peer) list"
  handler :: message_handler
  net_pool :: tx_pool
  peers_stuck :: bool

record codec =
  ser_tx :: "block_tx \<Rightarrow> u8 list"
  de_tx :: "u8 list \<Rightarrow> block_tx option"
  ser_consensus :: "consensus_message \<Rightarrow> u8 list"
  de_consensus :: "u8 list \<Rightarrow> consensus_message option"
  ser_block :: "network_block \<Rightarrow> u8 list"
  de_block :: "u8 list \<Rightarrow> network_block option"

text \<open>The receivers are dropped where the channels are made.\<close>

definition dropped_channel :: "'a channel_end" where
  "dropped_channel = \<lparr> receiver_alive = False, arrived = [] \<rparr>"

definition network_new :: "u8 list \<Rightarrow> network" where
  "network_new i = \<lparr> node_id = i, peers = [],
     handler = \<lparr> consensus_channel = dropped_channel, transaction_channel = dropped_channel, block_channel = dropped_channel \<rparr>,
     net_pool = tx_pool_new, peers_stuck = False \<rparr>"

definition channel_send :: "'a \<Rightarrow> 'a channel_end \<Rightarrow> 'a channel_end" where
  "channel_send x c = (if receiver_alive c then c\<lparr>arrived := arrived c @ [x]\<rparr> else c)"

definition enqueue :: "network_message \<Rightarrow> u8 list \<times> peer \<Rightarrow> u8 list \<times> peer" where
  "enqueue m ip = (case ip of (i, p) \<Rightarrow> (i, p\<lparr>message_queue := message_queue p @ [m]\<rparr>))"

definition send_to_all :: "network_message \<Rightarrow> network \<Rightarrow> (unit, unit) outcome \<times> network" where
  "send_to_all m n = (if peers_stuck n then (Hang, n) else (Ok (), n\<lparr>peers := map (enqueue m) (peers n)\<rparr>))"

definition broadcast_transaction ::
  "(u8 list \<Rightarrow> h256) \<Rightarrow> codec \<Rightarrow> block_tx \<Rightarrow> network \<Rightarrow> (unit, unit) outcome \<times> network" where
  "broadcast_transaction sha C tx n =
     send_to_all \<lparr> nm_type = Msg_Transaction, nm_payload = ser_tx C tx, nm_sender = node_id n \<rparr>
       (n\<lparr>net_pool := snd (pool_add sha tx (net_pool n))\<rparr>)"

text \<open>The peers in the order in which they are sent to.\<close>

definition by_latency :: "network \<Rightarrow> (u8 list \<times> peer) list" where
  "by_latency n = sort_key (\<lambda>(i, p). latency_ms p) (peers n)"

definition broadcast_consensus_message :: "codec \<Rightarrow> consensus_message \<Rightarrow> network \<Rightarrow> (unit, unit) outcome \<times> network" where
  "broadcast_consensus_message C m n =
     (let sent = \<lparr> nm_type = Msg_Consensus, nm_payload = ser_consensus C m, nm_sender = node_id n \<rparr>; order = map fst (by_latency n)
      in if peers_stuck n then (Hang, n)
         else (Ok (), n\<lparr>peers := map (\<lambda>ip. if fst ip \<in> set order then enqueue sent ip else ip) (peers n)\<rparr>))"

definition sync_block :: "codec \<Rightarrow> network_block \<Rightarrow> network \<Rightarrow> (unit, unit) outcome \<times> network" where
  "sync_block C b n = send_to_all \<lparr> nm_type = Msg_Block, nm_payload = ser_block C b, nm_sender = node_id n \<rparr> n"

definition add_peer :: "u8 list \<Rightarrow> string \<Rightarrow> network \<Rightarrow> (unit, unit) outcome \<times> network" where
  "add_peer i addr n =
     (if peers_stuck n then (Hang, n)
      else (Ok (), n\<lparr>peers := AList.update i \<lparr> peer_address = addr, latency_ms = 0, bandwidth_mbps = 100, message_queue = [] \<rparr> (peers n)\<rparr>))"

definition handle_network_message :: "codec \<Rightarrow> network_message \<Rightarrow> message_handler \<Rightarrow> message_handler" where
  "handle_network_message C m h =
     (case nm_type m of
        Msg_Consensus \<Rightarrow>
          (case de_consensus C (nm_payload m) of None \<Rightarrow> h
           | Some x \<Rightarrow> h\<lparr>consensus_channel := channel_send x (consensus_channel h)\<rparr>)
      | Msg_Transaction \<Rightarrow>
          (case de_tx C (nm_payload m) of None \<Rightarrow> h
           | Some x \<Rightarrow> h\<lparr>transaction_channel := channel_send x (transaction_channel h)\<rparr>)
      | Msg_Block \<Rightarrow>
          (case de_block C (nm_payload m) of None \<Rightarrow> h
           | Some x \<Rightarrow> h\<lparr>block_channel := channel_send x (block_channel h)\<rparr>)
      | _ \<Rightarrow> h)"

text \<open>The task of a peer takes the next message of its queue.\<close>

definition peer_task :: "codec \<Rightarrow> u8 list \<Rightarrow> network \<Rightarrow> network" where
  "peer_task C i n =
     (case map_of (peers n) i of
        None \<Rightarrow> n
      | Some p \<Rightarrow>
          (case message_queue p of
             [] \<Rightarrow> n
           | m # ms \<Rightarrow> n\<lparr>peers := AList.update i (p\<lparr>message_queue := ms\<rparr>) (peers n), handler := handle_network_message C m (handler n)\<rparr>))"

text \<open>For a known peer the read guard of the \<^verbatim>\<open>if let\<close> is still held where the write guard is asked for.\<close>

definition measure_peer_latency :: "u8 list \<Rightarrow> network \<Rightarrow> (unit, u64 option) outcome \<times> network" where
  "measure_peer_latency i n =
     (if peers_stuck n then (Hang, n)
      else case map_of (peers n) i of
        None \<Rightarrow> (Ok None, n)
      | Some p \<Rightarrow>
          (Hang, n\<lparr>peers := AList.update i (p\<lparr>message_queue := message_queue p @
                      [\<lparr> nm_type = Msg_Ping, nm_payload = [], nm_sender = node_id n \<rparr>]\<rparr>) (peers n), peers_stuck := True\<rparr>))"

definition get_peer_count :: "network \<Rightarrow> (unit, nat) outcome" where
  "get_peer_count n = (if peers_stuck n then Hang else Ok (length (peers n)))"

definition get_tx_pool_size :: "network \<Rightarrow> nat" where
  "get_tx_pool_size n = length (pool_pending (net_pool n))"

datatype network_call =
    Net_Transaction block_tx
  | Net_Consensus consensus_message
  | Net_Block network_block
  | Net_Peer "u8 list" string
  | Net_Task "u8 list"
  | Net_Latency "u8 list"

fun network_step :: "(u8 list \<Rightarrow> h256) \<Rightarrow> codec \<Rightarrow> network_call \<Rightarrow> network \<Rightarrow> network" where
  "network_step sha C (Net_Transaction tx) n = snd (broadcast_transaction sha C tx n)"
| "network_step sha C (Net_Consensus m) n = snd (broadcast_consensus_message C m n)"
| "network_step sha C (Net_Block b) n = snd (sync_block C b n)"
| "network_step sha C (Net_Peer i a) n = snd (add_peer i a n)"
| "network_step sha C (Net_Task i) n = peer_task C i n"
| "network_step sha C (Net_Latency i) n = snd (measure_peer_latency i n)"

section \<open>The limits of the pool\<close>

definition pool_wf :: "(u8 list \<Rightarrow> h256) \<Rightarrow> tx_pool \<Rightarrow> bool" where
  "pool_wf sha p \<longleftrightarrow> distinct (map fst (pool_pending p)) \<and> length (pool_pending p) \<le> pool_max_size p \<and>
     (\<forall>a. account_count a (pool_pending p) \<le> pool_max_per_account p) \<and>
     (\<forall>(h, t) \<in> set (pool_pending p). h = tx_hash sha t) \<and> (\<forall>(a, q) \<in> set (pool_queued p). \<forall>t \<in> set q. tx_from t = a)"

lemma account_count_simps [simp]:
  "account_count a [] = 0" "account_count a ((h, t) # m) = (if tx_from t = a then 1 else 0) + account_count a m"
  by (simp_all add: account_count_def)

lemma account_count_update: "account_count a (AList.update h t m) \<le> (if tx_from t = a then 1 else 0) + account_count a m"
  by (induction m) auto

lemma account_count_filter: "account_count a (filter P m) \<le> account_count a m"
  by (induction m) auto

lemma delete_counts:
  assumes "distinct (map fst m)" "map_of m h = Some t"
  shows "account_count a m = (if tx_from t = a then 1 else 0) + account_count a (AList.delete h m)"
    "length m = Suc (length (AList.delete h m))"
proof -
  have "account_count a m = (if tx_from t = a then 1 else 0) + account_count a (AList.delete h m) \<and> length m = Suc (length (AList.delete h m))"
    using assms
  proof (induction m)
    case (Cons x m)
    obtain j u where x: "x = (j, u)" by (cases x)
    show ?case
    proof (cases "j = h")
      case True
      with Cons.prems have "AList.delete h m = m" "u = t" by (auto simp: x intro!: delete_id)
      with True show ?thesis by (simp add: x)
    next
      case False
      with Cons show ?thesis by (simp add: x)
    qed
  qed simp
  then show "account_count a m = (if tx_from t = a then 1 else 0) + account_count a (AList.delete h m)"
    "length m = Suc (length (AList.delete h m))" by simp_all
qed

lemma queued_of_from: "pool_wf sha p \<Longrightarrow> t \<in> set (queued_of a p) \<Longrightarrow> tx_from t = a"
proof (cases "map_of (pool_queued p) a")
  case (Some q)
  moreover assume "pool_wf sha p" "t \<in> set (queued_of a p)"
  ultimately show ?thesis using map_of_SomeD [OF Some] by (auto simp: pool_wf_def queued_of_def)
qed (simp add: queued_of_def)

lemma queued_update:
  assumes "\<forall>(a, q) \<in> set m. \<forall>t \<in> set q. tx_from t = a" "\<And>t. t \<in> set q \<Longrightarrow> tx_from t = a"
  shows "\<forall>(a, q) \<in> set (AList.update a q m). \<forall>t \<in> set q. tx_from t = a"
  using assms set_update_sub [of a q m] by fastforce

lemma pool_wf_add:
  assumes wf: "pool_wf sha p"
  shows "pool_wf sha (snd (pool_add sha tx p))"
proof -
  let ?a = "tx_from tx" and ?m = "pool_pending p"
  consider "pool_max_size p \<le> length ?m" | "length ?m < pool_max_size p" "pool_max_per_account p \<le> account_count ?a ?m"
    | "length ?m < pool_max_size p" "account_count ?a ?m < pool_max_per_account p" by linarith
  then show ?thesis
  proof cases
    case 1
    with wf show ?thesis by (simp add: pool_add_def)
  next
    case 2
    have "\<forall>(a, q) \<in> set (AList.update ?a (queued_of ?a p @ [tx]) (pool_queued p)). \<forall>t \<in> set q. tx_from t = a"
      by (rule queued_update) (use wf queued_of_from [OF wf] in \<open>auto simp: pool_wf_def\<close>)
    with 2 wf show ?thesis by (simp add: pool_add_def pool_wf_def)
  next
    case 3
    let ?n = "AList.update (tx_hash sha tx) tx ?m"
    have "account_count a ?n \<le> pool_max_per_account p" for a
    proof (cases "?a = a")
      case True
      with account_count_update [of a "tx_hash sha tx" tx ?m] 3(2) show ?thesis by simp
    next
      case False
      then have "account_count a ?n \<le> account_count a ?m" using account_count_update [of a "tx_hash sha tx" tx ?m] by simp
      with wf show ?thesis unfolding pool_wf_def by (meson le_trans)
    qed
    moreover have "length ?n \<le> pool_max_size p" using length_update_le [of "tx_hash sha tx" tx ?m] 3(1) by simp
    moreover have "\<forall>(h, t) \<in> set ?n. h = tx_hash sha t"
      using set_update_sub [of "tx_hash sha tx" tx ?m] wf by (auto simp: pool_wf_def)
    ultimately show ?thesis using 3 wf by (simp add: pool_add_def pool_wf_def distinct_update)
  qed
qed

lemma pool_wf_remove:
  assumes wf: "pool_wf sha p"
  shows "pool_wf sha (snd (pool_remove sha h p))"
proof (cases "map_of (pool_pending p) h")
  case None
  with wf show ?thesis by (simp add: pool_remove_def)
next
  case (Some tx)
  let ?m = "AList.delete h (pool_pending p)" and ?q = "queued_of (tx_from tx) p"
  have d: "distinct (map fst (pool_pending p))" using wf by (simp add: pool_wf_def)
  note counts = delete_counts [OF d Some]
  have sub: "set ?m \<subseteq> set (pool_pending p)" by (auto simp: AList.delete_eq)
  have c: "account_count a ?m \<le> pool_max_per_account p" for a
    using wf counts(1) [of a] unfolding pool_wf_def by (metis add_leE)
  have l: "length ?m < pool_max_size p" using wf counts(2) by (simp add: pool_wf_def)
  show ?thesis
  proof (cases "?q = []")
    case True
    with Some wf sub c l d show ?thesis by (auto simp: pool_remove_def pool_wf_def Let_def distinct_delete)
  next
    case False
    let ?t = "last ?q"
    have t: "tx_from ?t = tx_from tx" using queued_of_from [OF wf, of ?t] False by simp
    have "account_count a (AList.update (tx_hash sha ?t) ?t ?m) \<le> pool_max_per_account p" for a
      using account_count_update [of a "tx_hash sha ?t" ?t ?m] wf counts(1) [of a] c [of a] t
      by (auto simp: pool_wf_def split: if_splits) (metis Suc_le_eq le_trans)
    moreover have "length (AList.update (tx_hash sha ?t) ?t ?m) \<le> pool_max_size p"
      using length_update_le [of "tx_hash sha ?t" ?t ?m] l by simp
    moreover have "\<forall>(h, t) \<in> set (AList.update (tx_hash sha ?t) ?t ?m). h = tx_hash sha t"
      using set_update_sub [of "tx_hash sha ?t" ?t ?m] sub wf by (fastforce simp: pool_wf_def)
    moreover have "\<forall>(a, q) \<in> set (AList.update (tx_from tx) (butlast ?q) (pool_queued p)). \<forall>t \<in> set q. tx_from t = a"
      by (rule queued_update) (use wf queued_of_from [OF wf] in \<open>auto simp: pool_wf_def dest: in_set_butlastD\<close>)
    ultimately show ?thesis using Some False d by (simp add: pool_remove_def pool_wf_def Let_def distinct_delete distinct_update)
  qed
qed

lemma pool_wf_step: "pool_wf sha p \<Longrightarrow> pool_wf sha (tx_pool_step sha c p)"
proof (cases c)
  case (Pool_Prune nonces)
  assume wf: "pool_wf sha p"
  have "account_count a (filter P (pool_pending p)) \<le> pool_max_per_account p" for a P
    using account_count_filter [of a P "pool_pending p"] wf unfolding pool_wf_def by (meson le_trans)
  moreover have "length (filter P (pool_pending p)) \<le> pool_max_size p" for P
    using length_filter_le [of P "pool_pending p"] wf unfolding pool_wf_def by (meson le_trans)
  ultimately show ?thesis using wf by (auto simp: Pool_Prune prune_old_transactions_def pool_wf_def distinct_map_filter)
qed (auto simp: pool_wf_add pool_wf_remove, auto simp: pool_clear_def pool_wf_def)

interpretation pool_runs: invariant_of "tx_pool_step sha" "\<lambda>_ _. True" "pool_wf sha" for sha
  by unfold_locales (rule pool_wf_step)

lemma pool_wf_new: "pool_wf sha tx_pool_new"
  by (simp add: pool_wf_def tx_pool_new_def)

lemma tx_pool_step_limits [simp]:
  "pool_max_size (tx_pool_step sha c p) = pool_max_size p" "pool_max_per_account (tx_pool_step sha c p) = pool_max_per_account p"
  by (cases c; simp add: pool_add_def pool_remove_def pool_clear_def prune_old_transactions_def Let_def split: option.split)+

lemma pool_run_limits [simp]:
  "pool_max_size (run (tx_pool_step sha) cs p) = pool_max_size p"
  "pool_max_per_account (run (tx_pool_step sha) cs p) = pool_max_per_account p"
  by (induction cs arbitrary: p) auto

text \<open>After any run of the pool at most 10000 transactions are pending and at most 100 of an account, no matter how
  queued ones move up, and each is filed under its hash.\<close>

theorem pool_limits_hold:
  "case run (tx_pool_step sha) cs tx_pool_new of p \<Rightarrow>
     length (pool_pending p) \<le> 10000 \<and> account_count a (pool_pending p) \<le> 100 \<and>
     list_all (\<lambda>(h, t). h = tx_hash sha t) (pool_pending p)"
proof -
  let ?p = "run (tx_pool_step sha) cs tx_pool_new"
  have "pool_wf sha ?p" by (rule pool_runs.inv_run [OF pool_wf_new run_ok_always])
  then have "length (pool_pending ?p) \<le> pool_max_size ?p" "account_count a (pool_pending ?p) \<le> pool_max_per_account ?p"
    "list_all (\<lambda>(h, t). h = tx_hash sha t) (pool_pending ?p)" by (auto simp: pool_wf_def list_all_iff)
  then show ?thesis by (simp add: tx_pool_new_def)
qed

text \<open>The place of a removed transaction goes to the one that waits the shortest.\<close>

lemma the_last_queued_moves_up:
  assumes "map_of (pool_pending p) h = Some tx" "queued_of (tx_from tx) p = q @ [t]"
  shows "queued_of (tx_from tx) (snd (pool_remove sha h p)) = q" "map_of (pool_pending (snd (pool_remove sha h p))) (tx_hash sha t) = Some t"
  using assms by (auto simp: pool_remove_def Let_def queued_of_def update_conv')

section \<open>What the network delivers\<close>

definition nothing_arrived :: "network \<Rightarrow> bool" where
  "nothing_arrived n \<longleftrightarrow> consensus_channel (handler n) = dropped_channel \<and> transaction_channel (handler n) = dropped_channel \<and>
     block_channel (handler n) = dropped_channel"

lemma channel_send_dropped [simp]: "channel_send x dropped_channel = dropped_channel"
  by (simp add: channel_send_def dropped_channel_def)

lemma nothing_arrived_step: "nothing_arrived n \<Longrightarrow> nothing_arrived (network_step sha C c n)"
  by (cases c) (auto simp: nothing_arrived_def broadcast_transaction_def broadcast_consensus_message_def sync_block_def send_to_all_def
      add_peer_def peer_task_def handle_network_message_def measure_peer_latency_def Let_def
      split: option.split list.split message_type.split)

interpretation network_runs: invariant_of "network_step sha C" "\<lambda>_ _. True" nothing_arrived for sha C
  by unfold_locales (rule nothing_arrived_step)

text \<open>Whatever peers are added and messages broadcast, and however their tasks are scheduled, no consensus message,
  transaction or block ever reaches another part of the node; and measuring the latency of a known peer never returns.\<close>

theorem network_delivers_nothing:
  "case run (network_step sha C) cs (network_new i) of n \<Rightarrow>
     arrived (consensus_channel (handler n)) = [] \<and> arrived (transaction_channel (handler n)) = [] \<and>
     arrived (block_channel (handler n)) = [] \<and> (map_of (peers n) j = None \<or> fst (measure_peer_latency j n) = Hang)"
proof -
  let ?n = "run (network_step sha C) cs (network_new i)"
  have "nothing_arrived (network_new i)" by (simp add: nothing_arrived_def network_new_def)
  then have "nothing_arrived ?n" by (rule network_runs.inv_run [OF _ run_ok_always])
  moreover have "map_of (peers ?n) j = None \<or> fst (measure_peer_latency j ?n) = Hang"
    by (cases "map_of (peers ?n) j") (simp_all add: measure_peer_latency_def)
  ultimately show ?thesis by (simp add: nothing_arrived_def dropped_channel_def)
qed

lemma latency_stops_the_node:
  "peers_stuck n \<Longrightarrow> fst (broadcast_transaction sha C tx n) = Hang \<and> fst (sync_block C b n) = Hang \<and> fst (add_peer i a n) = Hang \<and> get_peer_count n = Hang"
  by (simp add: broadcast_transaction_def send_to_all_def sync_block_def add_peer_def get_peer_count_def)

end
