(* ===== verification/MemoryPools.thy ===== *)
theory MemoryPools
  imports Prelude "HOL-Library.Multiset"
begin

unbundle bit_operations_syntax

text \<open>
  The pools and allocators of \<^verbatim>\<open>src/optimization/memory_pool.rs\<close>. What the global allocator answers is an argument: the
  address of new memory, or nothing. The memory of an arena is named by the number of its chunk, so a pointer is a chunk and
  an offset. Sizes and counts wrap at 64 bits.
\<close>

type_synonym usize = "64 word"

section \<open>Object pools\<close>

record 'a object_pool =
  op_pool :: "'a list"
  op_max :: nat

definition object_pool_new :: "nat \<Rightarrow> 'a object_pool" where
  "object_pool_new n = \<lparr> op_pool = [], op_max = n \<rparr>"

definition op_acquire :: "'a \<Rightarrow> 'a object_pool \<Rightarrow> 'a \<times> 'a object_pool" where
  "op_acquire made p = (case op_pool p of [] \<Rightarrow> (made, p) | x # xs \<Rightarrow> (x, p\<lparr>op_pool := xs\<rparr>))"

text \<open>The end of the life of an acquired object.\<close>

definition op_drop :: "('a \<Rightarrow> 'a) \<Rightarrow> 'a \<Rightarrow> 'a object_pool \<Rightarrow> 'a object_pool" where
  "op_drop reset x p = (if length (op_pool p) < op_max p then p\<lparr>op_pool := op_pool p @ [reset x]\<rparr> else p)"

definition op_clear :: "'a object_pool \<Rightarrow> 'a object_pool" where
  "op_clear p = p\<lparr>op_pool := []\<rparr>"

definition op_size :: "'a object_pool \<Rightarrow> nat" where
  "op_size p = length (op_pool p)"

text \<open>Buffers of a fixed size: the last one that came back is the first to be handed out, as it came back.\<close>

definition fixed_acquire :: "nat \<Rightarrow> u8 list object_pool \<Rightarrow> u8 list \<times> u8 list object_pool" where
  "fixed_acquire n p = (case op_pool p of [] \<Rightarrow> (replicate n 0, p) | x # xs \<Rightarrow> (last (x # xs), p\<lparr>op_pool := butlast (x # xs)\<rparr>))"

definition fixed_drop :: "u8 list \<Rightarrow> u8 list object_pool \<Rightarrow> u8 list object_pool" where
  "fixed_drop b p = op_drop id b p"

section \<open>The slab allocator\<close>

text \<open>The free list is a stack; its top comes first here.\<close>

record slab =
  sl_memory :: nat
  sl_free :: "nat list"
  sl_used :: usize

record slab_allocator =
  slabs :: "slab list"
  block_size :: nat
  slab_size :: nat

definition slab_new :: "nat \<Rightarrow> nat \<Rightarrow> slab_allocator" where
  "slab_new bs n = \<lparr> slabs = [], block_size = bs, slab_size = (bs * n) mod 2 ^ 64 \<rparr>"

text \<open>A block of the first slab that has a free one.\<close>

fun take_block :: "nat \<Rightarrow> slab list \<Rightarrow> (nat \<times> slab list) option" where
  "take_block bs [] = None"
| "take_block bs (s # ss) =
     (case sl_free s of
        [] \<Rightarrow> map_option (\<lambda>(p, ss). (p, s # ss)) (take_block bs ss)
      | i # free \<Rightarrow> Some (sl_memory s + i * bs, s\<lparr>sl_free := free, sl_used := sl_used s + 1\<rparr> # ss))"

definition slab_allocate :: "nat option \<Rightarrow> slab_allocator \<Rightarrow> (unit, nat) outcome \<times> slab_allocator" where
  "slab_allocate mem a =
     (case take_block (block_size a) (slabs a) of
        Some (p, ss) \<Rightarrow> (Ok p, a\<lparr>slabs := ss\<rparr>)
      | None \<Rightarrow>
          if 2 ^ 63 \<le> slab_size a then (Panic, a)
          else case mem of
            None \<Rightarrow> (Panic, a)
          | Some m \<Rightarrow>
              if block_size a = 0 then (Panic, a)
              else (Ok m, a\<lparr>slabs := slabs a @ [\<lparr> sl_memory = m, sl_free = [1..<slab_size a div block_size a], sl_used = 1 \<rparr>]\<rparr>))"

fun give_block :: "nat \<Rightarrow> nat \<Rightarrow> nat \<Rightarrow> slab list \<Rightarrow> slab list option" where
  "give_block bs n p [] = None"
| "give_block bs n p (s # ss) =
     (if sl_memory s \<le> p \<and> p < sl_memory s + n then
        Some (s\<lparr>sl_free := (p - sl_memory s) div bs # sl_free s, sl_used := sl_used s - 1\<rparr> # ss)
      else map_option (\<lambda>ss. s # ss) (give_block bs n p ss))"

definition slab_deallocate :: "nat \<Rightarrow> slab_allocator \<Rightarrow> (unit, unit) outcome \<times> slab_allocator" where
  "slab_deallocate p a =
     (case give_block (block_size a) (slab_size a) p (slabs a) of
        None \<Rightarrow> (Panic, a)
      | Some ss \<Rightarrow> (Ok (), a\<lparr>slabs := ss\<rparr>))"

record slab_report =
  total_slabs :: usize
  total_blocks :: usize
  used_blocks :: usize
  free_blocks :: usize
  report_block_size :: usize

definition slab_stats :: "slab_allocator \<Rightarrow> slab_report" where
  "slab_stats a =
     (let t = word_of_nat (length (slabs a)) * word_of_nat (slab_size a div block_size a); u = sum_list (map sl_used (slabs a))
      in \<lparr> total_slabs = word_of_nat (length (slabs a)), total_blocks = t, used_blocks = u, free_blocks = t - u,
           report_block_size = word_of_nat (block_size a) \<rparr>)"

section \<open>The arena\<close>

text \<open>\<open>ch_id\<close> is which memory the chunk has.\<close>

record arena_chunk =
  ch_id :: nat
  ch_capacity :: usize
  ch_used :: usize

record arena =
  old_chunks :: "arena_chunk list"
  current_chunk :: "arena_chunk option"
  chunk_size :: usize
  next_id :: nat

definition arena_new :: "usize \<Rightarrow> arena" where
  "arena_new n = \<lparr> old_chunks = [], current_chunk = Some \<lparr> ch_id = 0, ch_capacity = n, ch_used = 0 \<rparr>, chunk_size = n, next_id = 1 \<rparr>"

definition align_up :: "usize \<Rightarrow> usize \<Rightarrow> usize" where
  "align_up u a = (u + a - 1) AND NOT (a - 1)"

definition new_chunk :: "usize \<Rightarrow> arena \<Rightarrow> (nat \<times> usize) \<times> arena" where
  "new_chunk n a =
     ((next_id a, 0),
      a\<lparr>old_chunks := (case current_chunk a of None \<Rightarrow> old_chunks a | Some c \<Rightarrow> old_chunks a @ [c]),
        current_chunk := Some \<lparr> ch_id = next_id a, ch_capacity = max n (chunk_size a), ch_used = n \<rparr>, next_id := next_id a + 1\<rparr>)"

definition arena_allocate :: "usize \<Rightarrow> usize \<Rightarrow> arena \<Rightarrow> (nat \<times> usize) \<times> arena" where
  "arena_allocate n al a =
     (case current_chunk a of
        None \<Rightarrow> new_chunk n a
      | Some c \<Rightarrow>
          let off = align_up (ch_used c) al
          in if off + n \<le> ch_capacity c then ((ch_id c, off), a\<lparr>current_chunk := Some (c\<lparr>ch_used := off + n\<rparr>)\<rparr>)
             else new_chunk n a)"

definition arena_clear :: "arena \<Rightarrow> arena" where
  "arena_clear a = a\<lparr>old_chunks := [], current_chunk := Some \<lparr> ch_id = next_id a, ch_capacity = chunk_size a, ch_used = 0 \<rparr>,
     next_id := next_id a + 1\<rparr>"

record arena_report =
  chunks_count :: usize
  total_allocated :: usize
  total_used :: usize

text \<open>The utilisation, a floating-point quotient of the other two, is left out.\<close>

definition arena_stats :: "arena \<Rightarrow> arena_report" where
  "arena_stats a =
     (let cs = old_chunks a @ (case current_chunk a of None \<Rightarrow> [] | Some c \<Rightarrow> [c])
      in \<lparr> chunks_count = word_of_nat (length cs), total_allocated = sum_list (map ch_capacity cs), total_used = sum_list (map ch_used cs) \<rparr>)"

section \<open>Thread-local pools\<close>

text \<open>Of a vector only the capacity matters: it comes back cleared.\<close>

record local_pool =
  small_objects :: "nat list"
  medium_objects :: "nat list"
  large_objects :: "nat list"

definition local_pool_new :: local_pool where
  "local_pool_new = \<lparr> small_objects = [], medium_objects = [], large_objects = [] \<rparr>"

definition pop_or :: "nat \<Rightarrow> nat list \<Rightarrow> nat \<times> nat list" where
  "pop_or n xs = (if xs = [] then (n, []) else (last xs, butlast xs))"

definition local_allocate :: "nat \<Rightarrow> local_pool \<Rightarrow> nat \<times> local_pool" where
  "local_allocate n p =
     (if n \<le> 64 then (case pop_or n (small_objects p) of (c, xs) \<Rightarrow> (c, p\<lparr>small_objects := xs\<rparr>))
      else if n \<le> 1024 then (case pop_or n (medium_objects p) of (c, xs) \<Rightarrow> (c, p\<lparr>medium_objects := xs\<rparr>))
      else (case pop_or n (large_objects p) of (c, xs) \<Rightarrow> (c, p\<lparr>large_objects := xs\<rparr>)))"

definition keep_up_to :: "nat \<Rightarrow> nat list \<Rightarrow> nat list" where
  "keep_up_to c xs = (if length xs < 100 then xs @ [c] else xs)"

definition local_deallocate :: "nat \<Rightarrow> local_pool \<Rightarrow> local_pool" where
  "local_deallocate c p =
     (if c \<le> 64 then p\<lparr>small_objects := keep_up_to c (small_objects p)\<rparr>
      else if c \<le> 1024 then p\<lparr>medium_objects := keep_up_to c (medium_objects p)\<rparr>
      else p\<lparr>large_objects := keep_up_to c (large_objects p)\<rparr>)"

section \<open>Objects come back reset\<close>

datatype 'a op_call = Op_Acquire 'a | Op_Drop 'a | Op_Clear

fun op_step :: "('a \<Rightarrow> 'a) \<Rightarrow> 'a op_call \<Rightarrow> 'a object_pool \<Rightarrow> 'a object_pool" where
  "op_step reset (Op_Acquire made) p = snd (op_acquire made p)"
| "op_step reset (Op_Drop x) p = op_drop reset x p"
| "op_step reset Op_Clear p = op_clear p"

definition op_wf :: "('a \<Rightarrow> 'a) \<Rightarrow> nat \<Rightarrow> 'a object_pool \<Rightarrow> bool" where
  "op_wf reset n p \<longleftrightarrow> op_max p = n \<and> length (op_pool p) \<le> n \<and> set (op_pool p) \<subseteq> range reset"

lemma op_wf_step: "op_wf reset n p \<Longrightarrow> op_wf reset n (op_step reset c p)"
  by (cases c) (auto simp: op_wf_def op_acquire_def op_drop_def op_clear_def split: list.splits)

interpretation op_runs: invariant_of "op_step reset" "\<lambda>_ _. True" "op_wf reset n" for reset n
  by unfold_locales (rule op_wf_step)

text \<open>In every run an acquired object is fresh or went through the reset, and the pool keeps at most its maximum.\<close>

lemma acquired_objects_are_reset:
  "op_size (run (op_step reset) cs (object_pool_new n)) \<le> n
   \<and> (fst (op_acquire made (run (op_step reset) cs (object_pool_new n))) = made
      \<or> fst (op_acquire made (run (op_step reset) cs (object_pool_new n))) \<in> range reset)"
proof -
  have "op_wf reset n (run (op_step reset) cs (object_pool_new n))"
    by (rule op_runs.inv_run [OF _ run_ok_always]) (simp add: op_wf_def object_pool_new_def)
  then show ?thesis by (auto simp: op_wf_def op_size_def op_acquire_def split: list.split)
qed

text \<open>Buffers of a fixed size are handed on with the bytes of their last user.\<close>

lemma fixed_buffers_keep_their_bytes:
  "length (op_pool p) < op_max p \<Longrightarrow> fst (fixed_acquire n (fixed_drop b p)) = b"
  by (cases "op_pool p") (simp_all add: fixed_acquire_def fixed_drop_def op_drop_def)

text \<open>A vector that is too small for the request is handed out when its class fits.\<close>

lemma local_vectors_may_be_too_small: "fst (local_allocate 64 (local_deallocate 1 local_pool_new)) = 1"
  by (simp add: local_allocate_def local_deallocate_def local_pool_new_def keep_up_to_def pop_or_def)

section \<open>Blocks do not overlap\<close>

text \<open>
  A client that gives back only what it holds: the blocks it holds are kept with the allocator. New memory does not overlap the
  memory of the slabs, which is what the global allocator promises.
\<close>

datatype slab_call = Slab_Alloc nat | Slab_Free nat

fun slab_step :: "slab_call \<Rightarrow> slab_allocator \<times> nat list \<Rightarrow> slab_allocator \<times> nat list" where
  "slab_step (Slab_Alloc m) (a, held) =
     (case slab_allocate (Some m) a of (Ok p, a') \<Rightarrow> (a', p # held) | (_, a') \<Rightarrow> (a', held))"
| "slab_step (Slab_Free p) (a, held) = (snd (slab_deallocate p a), remove1 p held)"

definition clear_of :: "nat \<Rightarrow> nat \<Rightarrow> slab \<Rightarrow> bool" where
  "clear_of len m s \<longleftrightarrow> m + len \<le> sl_memory s \<or> sl_memory s + len \<le> m"

fun slab_ok :: "slab_call \<Rightarrow> slab_allocator \<times> nat list \<Rightarrow> bool" where
  "slab_ok (Slab_Alloc m) (a, held) = list_all (clear_of (slab_size a) m) (slabs a)"
| "slab_ok (Slab_Free p) (a, held) = (p \<in> set held)"

definition addresses :: "nat \<Rightarrow> (slab \<Rightarrow> nat list) \<Rightarrow> slab list \<Rightarrow> nat list" where
  "addresses bs f ss = concat (map (\<lambda>s. map (\<lambda>i. sl_memory s + i * bs) (f s)) ss)"

lemma addresses_simps [simp]:
  "addresses bs f [] = []"
  "addresses bs f (s # ss) = map (\<lambda>i. sl_memory s + i * bs) (f s) @ addresses bs f ss"
  "addresses bs f (ss @ ts) = addresses bs f ss @ addresses bs f ts"
  by (simp_all add: addresses_def)

definition slabs_wf :: "nat \<Rightarrow> nat \<Rightarrow> slab list \<Rightarrow> bool" where
  "slabs_wf bs n ss \<longleftrightarrow> sorted_wrt (\<lambda>s t. clear_of (bs * n) (sl_memory s) t) ss \<and>
     list_all (\<lambda>s. set (sl_free s) \<subseteq> {..<n} \<and> unat (sl_used s) + length (sl_free s) = n) ss"

definition slab_inv :: "nat \<Rightarrow> nat \<Rightarrow> slab_allocator \<times> nat list \<Rightarrow> bool" where
  "slab_inv bs n x \<longleftrightarrow> (case x of (a, held) \<Rightarrow>
     block_size a = bs \<and> slab_size a = bs * n \<and> slabs_wf bs n (slabs a) \<and>
     mset held + mset (addresses bs sl_free (slabs a)) = mset (addresses bs (\<lambda>s. [0..<n]) (slabs a)))"

lemma take_block_SomeD:
  assumes "take_block bs ss = Some (p, ss')"
  obtains pre s post i free where "ss = pre @ s # post" "sl_free s = i # free" "p = sl_memory s + i * bs"
    "ss' = pre @ s\<lparr>sl_free := free, sl_used := sl_used s + 1\<rparr> # post"
  using assms
proof (induction ss arbitrary: ss' thesis)
  case (Cons s ss)
  show thesis
  proof (cases "sl_free s")
    case Nil
    with Cons.prems obtain ts where ts: "take_block bs ss = Some (p, ts)" "ss' = s # ts" by auto
    show thesis
      by (rule Cons.IH [OF _ ts(1)]) (use Cons.prems(1) [of "s # _"] ts(2) in auto)
  next
    case (Cons i free)
    with Cons.prems show thesis by (intro Cons.prems(1) [of "[]"]) auto
  qed
qed simp

lemma give_block_SomeD:
  assumes "give_block bs n p ss = Some ss'"
  obtains pre s post where "ss = pre @ s # post" "sl_memory s \<le> p" "p < sl_memory s + n"
    "ss' = pre @ s\<lparr>sl_free := (p - sl_memory s) div bs # sl_free s, sl_used := sl_used s - 1\<rparr> # post"
  using assms
proof (induction ss arbitrary: ss' thesis)
  case (Cons s ss)
  show thesis
  proof (cases "sl_memory s \<le> p \<and> p < sl_memory s + n")
    case True
    with Cons.prems show thesis by (intro Cons.prems(1) [of "[]"]) auto
  next
    case False
    with Cons.prems obtain ts where ts: "give_block bs n p ss = Some ts" "ss' = s # ts" by auto
    show thesis
      by (rule Cons.IH [OF _ ts(1)]) (use Cons.prems(1) [of "s # _"] ts(2) in auto)
  qed
qed simp

lemma give_block_finds: "s \<in> set ss \<Longrightarrow> sl_memory s \<le> p \<Longrightarrow> p < sl_memory s + n \<Longrightarrow> give_block bs n p ss \<noteq> None"
  by (induction ss) auto

lemma addresses_all: "a \<in> set (addresses bs (\<lambda>s. [0..<n]) ss) \<longleftrightarrow> (\<exists>s \<in> set ss. \<exists>i < n. a = sl_memory s + i * bs)"
  by (induction ss) auto

lemma block_in_slab: "i < n \<Longrightarrow> i * bs + bs \<le> bs * n" for i n bs :: nat
  by (metis Suc_leI mult.commute mult_Suc_right add.commute mult_le_mono2)

text \<open>Different blocks of slabs that are apart do not overlap.\<close>

lemma blocks_apart:
  assumes "sorted_wrt (\<lambda>s t. clear_of (bs * n) (sl_memory s) t) ss"
    and "s \<in> set ss" "t \<in> set ss" "i < n" "j < n" "sl_memory s + i * bs \<noteq> sl_memory t + j * bs"
  shows "sl_memory s + i * bs + bs \<le> sl_memory t + j * bs \<or> sl_memory t + j * bs + bs \<le> sl_memory s + i * bs"
  using assms
proof (induction ss)
  case (Cons u ss)
  note b = block_in_slab [OF \<open>i < n\<close>, of bs] block_in_slab [OF \<open>j < n\<close>, of bs]
  show ?case
  proof (cases "s = u \<and> t = u")
    case True
    with Cons.prems(6) have "i < j \<or> j < i" by (metis linorder_neqE_nat)
    with True block_in_slab [of i j bs] block_in_slab [of j i bs] show ?thesis by (auto simp: mult.commute)
  next
    case False
    with Cons.prems(1-3) consider "clear_of (bs * n) (sl_memory s) t" | "clear_of (bs * n) (sl_memory t) s" | "s \<in> set ss" "t \<in> set ss"
      by auto
    then show ?thesis
      using b Cons.IH Cons.prems by cases (auto simp: clear_of_def)
  qed
qed simp

lemma distinct_blocks:
  assumes "sorted_wrt (\<lambda>s t. clear_of (bs * n) (sl_memory s) t) ss" "0 < bs"
  shows "distinct (addresses bs (\<lambda>s. [0..<n]) ss)"
  using assms(1)
proof (induction ss)
  case (Cons s ss)
  have "a \<notin> set (addresses bs (\<lambda>s. [0..<n]) ss)" if i: "a = sl_memory s + i * bs" "i < n" for a i
  proof
    assume "a \<in> set (addresses bs (\<lambda>s. [0..<n]) ss)"
    then obtain t j where t: "t \<in> set ss" "j < n" "a = sl_memory t + j * bs" by (auto simp: addresses_all)
    with Cons.prems have "clear_of (bs * n) (sl_memory s) t" by simp
    with i t assms(2) block_in_slab [OF i(2), of bs] block_in_slab [OF t(2), of bs] show False by (auto simp: clear_of_def)
  qed
  then show ?case using Cons assms(2) by (auto simp: distinct_map inj_on_def)
qed simp

lemma slab_count_pos: "set (sl_free s) \<subseteq> {..<n} \<Longrightarrow> unat (sl_used s) + length (sl_free s) = n \<Longrightarrow> sl_free s = i # free \<Longrightarrow> n < 2 ^ 64
   \<Longrightarrow> unat (sl_used s + 1) = unat (sl_used s) + 1"
  by (auto simp: unat_word_ariths)

lemma slab_inv_alloc:
  assumes inv: "slab_inv bs n (a, held)" and ok: "slab_ok (Slab_Alloc m) (a, held)" and n: "0 < bs" "0 < n" "bs * n < 2 ^ 63"
  shows "\<exists>p a'. slab_allocate (Some m) a = (Ok p, a') \<and> slab_inv bs n (a', p # held) \<and> p \<notin> set held"
proof -
  have a: "block_size a = bs" "slab_size a = bs * n" and wf: "slabs_wf bs n (slabs a)"
    and m: "mset held + mset (addresses bs sl_free (slabs a)) = mset (addresses bs (\<lambda>s. [0..<n]) (slabs a))"
    using inv by (auto simp: slab_inv_def)
  have n64: "n < 2 ^ 64"
  proof -
    have "n \<le> bs * n" using n(1) by simp
    from le_less_trans [OF this n(3)] show ?thesis by simp
  qed
  show ?thesis
  proof (cases "take_block bs (slabs a)")
    case (Some x)
    obtain p ss' where "x = (p, ss')" by (cases x)
    with Some have t: "take_block bs (slabs a) = Some (p, ss')" by simp
    then obtain pre s post i free where s: "slabs a = pre @ s # post" "sl_free s = i # free" "p = sl_memory s + i * bs"
      "ss' = pre @ s\<lparr>sl_free := free, sl_used := sl_used s + 1\<rparr> # post" by (rule take_block_SomeD)
    have cnt: "set (sl_free s) \<subseteq> {..<n}" "unat (sl_used s) + length (sl_free s) = n" using wf s(1) by (auto simp: slabs_wf_def)
    then have "unat (sl_used s + 1) = unat (sl_used s) + 1" using slab_count_pos s(2) n64 by blast
    with wf s cnt have wf': "slabs_wf bs n ss'" by (auto simp: slabs_wf_def sorted_wrt_append clear_of_def)
    have m': "mset (p # held) + mset (addresses bs sl_free ss') = mset (addresses bs (\<lambda>s. [0..<n]) ss')"
      using m s by simp
    have "distinct (addresses bs (\<lambda>s. [0..<n]) ss')"
      using wf' n(1) by (intro distinct_blocks) (auto simp: slabs_wf_def)
    then have "distinct (p # held)"
      by (metis m' distinct_append mset_append mset_eq_imp_distinct_iff)
    with t a wf' m' show ?thesis by (auto simp: slab_allocate_def slab_inv_def)
  next
    case None
    let ?s = "\<lparr> sl_memory = m, sl_free = [1..<n], sl_used = 1 \<rparr>" and ?ss = "slabs a"
    let ?a = "a\<lparr>slabs := slabs a @ [?s]\<rparr>"
    have alloc: "slab_allocate (Some m) a = (Ok m, ?a)" using None a n by (simp add: slab_allocate_def)
    have wf': "slabs_wf bs n (slabs ?a)"
      using wf ok a n by (auto simp: slabs_wf_def sorted_wrt_append clear_of_def list_all_iff)
    have split: "[0..<n] = 0 # [1..<n]" using n(2) by (simp add: upt_conv_Cons)
    have m': "mset (m # held) + mset (addresses bs sl_free (slabs ?a)) = mset (addresses bs (\<lambda>s. [0..<n]) (slabs ?a))"
      using m by (simp add: split)
    have "distinct (addresses bs (\<lambda>s. [0..<n]) (slabs ?a))"
      using wf' n(1) by (intro distinct_blocks) (auto simp: slabs_wf_def)
    then have "distinct (m # held)"
      by (metis m' distinct_append mset_append mset_eq_imp_distinct_iff)
    with alloc a wf' m' show ?thesis by (auto simp: slab_inv_def)
  qed
qed

lemma slab_inv_free:
  assumes inv: "slab_inv bs n (a, held)" and p: "p \<in> set held" and n: "0 < bs" "0 < n"
  shows "\<exists>a'. slab_deallocate p a = (Ok (), a') \<and> slab_inv bs n (a', remove1 p held)"
proof -
  have a: "block_size a = bs" "slab_size a = bs * n" and wf: "slabs_wf bs n (slabs a)"
    and m: "mset held + mset (addresses bs sl_free (slabs a)) = mset (addresses bs (\<lambda>s. [0..<n]) (slabs a))"
    using inv by (auto simp: slab_inv_def)
  have "p \<in># mset (addresses bs (\<lambda>s. [0..<n]) (slabs a))" using p by (simp add: m [symmetric])
  then obtain t j where t: "t \<in> set (slabs a)" "j < n" "p = sl_memory t + j * bs" by (auto simp: addresses_all)
  have "give_block bs (bs * n) p (slabs a) \<noteq> None"
    using t block_in_slab [OF t(2), of bs] n by (intro give_block_finds [of t]) auto
  then obtain ss' where g: "give_block bs (bs * n) p (slabs a) = Some ss'" by auto
  then obtain pre s post where s: "slabs a = pre @ s # post" "sl_memory s \<le> p" "p < sl_memory s + bs * n"
    "ss' = pre @ s\<lparr>sl_free := (p - sl_memory s) div bs # sl_free s, sl_used := sl_used s - 1\<rparr> # post"
    by (rule give_block_SomeD)
  have same: "sl_memory s = sl_memory t"
  proof (rule ccontr)
    assume d: "sl_memory s \<noteq> sl_memory t"
    then have "clear_of (bs * n) (sl_memory s) t \<or> clear_of (bs * n) (sl_memory t) s"
      using wf t(1) s(1) by (auto simp: slabs_wf_def sorted_wrt_append)
    with s(2,3) t(2,3) block_in_slab [OF t(2), of bs] n show False by (auto simp: clear_of_def)
  qed
  then have q: "(p - sl_memory s) div bs = j" "p = sl_memory s + j * bs" using t(3) n(1) by simp_all
  have dist: "distinct (addresses bs (\<lambda>s. [0..<n]) (slabs a))"
    using wf n(1) by (intro distinct_blocks) (auto simp: slabs_wf_def)
  then have "distinct (held @ addresses bs sl_free (slabs a))"
    by (metis m mset_append mset_eq_imp_distinct_iff)
  then have free: "p \<notin> set (addresses bs sl_free (slabs a))" "distinct (map (\<lambda>i. sl_memory s + i * bs) (sl_free s))"
    using p s(1) by auto
  then have j: "j \<notin> set (sl_free s)" "distinct (sl_free s)" using s(1) q(2) by (auto simp: distinct_map)
  have cnt: "set (sl_free s) \<subseteq> {..<n}" "unat (sl_used s) + length (sl_free s) = n" using wf s(1) by (auto simp: slabs_wf_def)
  have "length (sl_free s) = card (set (sl_free s))" using j(2) by (simp add: distinct_card)
  also have "\<dots> < card {..<n}" using cnt(1) j(1) t(2) by (intro psubset_card_mono) auto
  finally have "0 < unat (sl_used s)" using cnt(2) by simp
  then have "unat (sl_used s - 1) = unat (sl_used s) - 1" by (metis unat_minus_one unat_eq_zero less_irrefl)
  with wf s cnt t(2) q \<open>0 < unat (sl_used s)\<close> have wf': "slabs_wf bs n ss'"
    by (auto simp: slabs_wf_def sorted_wrt_append clear_of_def)
  have "mset (remove1 p held) + add_mset p (mset (addresses bs sl_free (slabs a))) = mset (addresses bs (\<lambda>s. [0..<n]) (slabs a))"
    using m p unfolding m [symmetric] by (simp add: insert_DiffM2 flip: add_mset_add_single union_mset_add_mset_left)
  then have "mset (remove1 p held) + mset (addresses bs sl_free ss') = mset (addresses bs (\<lambda>s. [0..<n]) ss')"
    using s q by simp
  with g a wf' show ?thesis by (auto simp: slab_deallocate_def slab_inv_def)
qed

definition slab_run_inv :: "nat \<Rightarrow> nat \<Rightarrow> slab_allocator \<times> nat list \<Rightarrow> bool" where
  "slab_run_inv bs n x \<longleftrightarrow> 0 < bs \<and> 0 < n \<and> bs * n < 2 ^ 63 \<and> slab_inv bs n x"

interpretation slab_runs: invariant_of slab_step slab_ok "slab_run_inv bs n" for bs n
proof unfold_locales
  fix x c
  assume inv: "slab_run_inv bs n x" and ok: "slab_ok c x"
  obtain a held where x: "x = (a, held)" by (cases x)
  show "slab_run_inv bs n (slab_step c x)"
  proof (cases c)
    case (Slab_Alloc m)
    with inv ok x slab_inv_alloc [of bs n a held m] show ?thesis by (auto simp: slab_run_inv_def)
  next
    case (Slab_Free p)
    with inv ok x slab_inv_free [of bs n a held p] show ?thesis by (auto simp: slab_run_inv_def)
  qed
qed

lemma slab_run_inv_new:
  assumes "0 < bs" "0 < n" "bs * n < 2 ^ 63"
  shows "slab_run_inv bs n (slab_new bs n, [])"
  using assms by (simp add: slab_run_inv_def slab_inv_def slab_new_def slabs_wf_def)

lemma used_and_free:
  "slabs_wf bs n ss \<Longrightarrow> sum_list (map (\<lambda>s. unat (sl_used s)) ss) + length (addresses bs sl_free ss) = length (addresses bs (\<lambda>s. [0..<n]) ss)"
  by (induction ss) (auto simp: slabs_wf_def)

lemma used_is_held:
  assumes "slab_inv bs n (a, held)"
  shows "used_blocks (slab_stats a) = word_of_nat (length held)"
proof -
  have m: "mset held + mset (addresses bs sl_free (slabs a)) = mset (addresses bs (\<lambda>s. [0..<n]) (slabs a))" and wf: "slabs_wf bs n (slabs a)"
    using assms by (auto simp: slab_inv_def)
  have "length held + length (addresses bs sl_free (slabs a)) = length (addresses bs (\<lambda>s. [0..<n]) (slabs a))"
    using arg_cong [OF m, of size] by (simp only: size_union size_mset)
  then have "sum_list (map (\<lambda>s. unat (sl_used s)) (slabs a)) = length held"
    using used_and_free [OF wf] by linarith
  moreover have "sum_list (map sl_used ss) = word_of_nat (sum_list (map (\<lambda>s. unat (sl_used s)) ss))" for ss :: "slab list"
    by (induction ss) simp_all
  ultimately show ?thesis by (simp add: slab_stats_def Let_def)
qed

text \<open>
  C27: in every run of a slab allocator whose client gives back only blocks it holds, an allocation succeeds whenever the system
  has memory, the new block overlaps none of the blocks that are held, and the reported number of used blocks is the number
  of blocks held.
\<close>

theorem slab_blocks_do_not_overlap:
  assumes "0 < bs" "0 < n" "bs * n < 2 ^ 63"
    and "run_ok slab_ok slab_step (cs @ [Slab_Alloc m]) (slab_new bs n, [])"
    and "run slab_step cs (slab_new bs n, []) = (a, held)"
  shows "\<exists>p a'. slab_allocate (Some m) a = (Ok p, a') \<and> (\<forall>q \<in> set held. p + bs \<le> q \<or> q + bs \<le> p)
    \<and> used_blocks (slab_stats a) = word_of_nat (length held)"
proof -
  have inv: "slab_inv bs n (a, held)"
    using slab_runs.inv_run_prefix [OF slab_run_inv_new [OF assms(1-3)] assms(4)] assms(5) by (simp add: slab_run_inv_def)
  have ok: "slab_ok (Slab_Alloc m) (a, held)" using assms(4,5) by (simp add: run_ok_append)
  obtain p a' where p: "slab_allocate (Some m) a = (Ok p, a')" "slab_inv bs n (a', p # held)" "p \<notin> set held"
    using slab_inv_alloc [OF inv ok assms(1-3)] by auto
  have m: "mset (p # held) + mset (addresses bs sl_free (slabs a')) = mset (addresses bs (\<lambda>s. [0..<n]) (slabs a'))"
    and wf: "slabs_wf bs n (slabs a')" using p(2) by (auto simp: slab_inv_def)
  have block: "x \<in> set (addresses bs (\<lambda>s. [0..<n]) (slabs a'))" if "x \<in> set (p # held)" for x
  proof -
    have "x \<in># mset (p # held) + mset (addresses bs sl_free (slabs a'))" using that by auto
    then show ?thesis unfolding m by simp
  qed
  have "p + bs \<le> q \<or> q + bs \<le> p" if "q \<in> set held" for q
  proof -
    have "p \<noteq> q" using that p(3) by auto
    from block [of p] obtain s i where s: "s \<in> set (slabs a')" "i < n" "p = sl_memory s + i * bs" by (auto simp: addresses_all)
    from block [of q] that obtain t j where t: "t \<in> set (slabs a')" "j < n" "q = sl_memory t + j * bs" by (auto simp: addresses_all)
    have "sorted_wrt (\<lambda>s t. clear_of (bs * n) (sl_memory s) t) (slabs a')" using wf by (simp add: slabs_wf_def)
    from blocks_apart [OF this s(1) t(1) s(2) t(2)] \<open>p \<noteq> q\<close> show ?thesis by (simp add: s(3) t(3))
  qed
  with p(1) used_is_held [OF inv] show ?thesis by blast
qed

theorem slab_blocks_do_not_overlap_witness:
  "\<exists>p a'. slab_allocate (Some 4096) (fst (run slab_step [Slab_Alloc 1024, Slab_Alloc 2048, Slab_Free 1024] (slab_new 64 2, []))) = (Ok p, a')
     \<and> (p + 64 \<le> 1088 \<or> 1088 + 64 \<le> p)"
proof -
  let ?cs = "[Slab_Alloc 1024, Slab_Alloc 2048, Slab_Free 1024]"
  obtain a where r: "run slab_step ?cs (slab_new 64 2, []) = (a, [1088])"
    by (simp add: slab_new_def slab_allocate_def slab_deallocate_def upt_rec)
  have "run_ok slab_ok slab_step (?cs @ [Slab_Alloc 4096]) (slab_new 64 2, [])"
    by (simp add: slab_new_def slab_allocate_def slab_deallocate_def upt_rec clear_of_def)
  note w = slab_blocks_do_not_overlap [OF _ _ _ this r]
  have "fst (run slab_step ?cs (slab_new 64 2, [])) = a" by (simp only: r fst_conv)
  with w show ?thesis by (simp only:) auto
qed

text \<open>Giving a block back twice is not noticed: it is handed out twice.\<close>

lemma freed_twice_held_twice:
  "snd (run slab_step [Slab_Alloc 1024, Slab_Free 1024, Slab_Free 1024, Slab_Alloc 4096, Slab_Alloc 4096] (slab_new 64 2, [])) = [1024, 1024]"
  by (simp add: slab_new_def slab_allocate_def slab_deallocate_def upt_rec)

section \<open>Regions of an arena do not overlap\<close>

text \<open>Alignments are powers of two.\<close>

lemma align_up_value:
  assumes "unat u < 2 ^ 62" "k < 62"
  shows "unat (align_up u (2 ^ k)) = (unat u + 2 ^ k - 1) div 2 ^ k * 2 ^ k"
proof -
  have k: "(2 :: nat) ^ k \<le> 2 ^ 62" using assms(2) by (intro power_increasing) auto
  have "unat (word_of_nat (2 ^ k) :: usize) = 2 ^ k"
    using assms(2) by (simp add: unsigned_of_nat take_bit_nat_eq_self del: of_nat_power)
  then have p: "unat (2 ^ k :: usize) = 2 ^ k" by simp
  have "unat u + 2 ^ k < 2 ^ LENGTH(64)" using assms(1) k by simp
  then have "unat (u + 2 ^ k) = unat u + 2 ^ k" using p by (simp add: unat_word_ariths)
  moreover have "(0 :: nat) < 2 ^ k" by simp
  ultimately have w: "unat (u + 2 ^ k - 1) = unat u + 2 ^ k - 1"
    by (metis add_gr_0 less_irrefl unat_eq_zero unat_minus_one)
  have "(2 ^ k - 1 :: usize) = mask k" by (simp add: mask_eq_decr_exp)
  moreover have "x AND NOT (mask k) = push_bit k (drop_bit k x)" for x :: usize
    by (rule bit_eqI) (auto simp: bit_simps)
  ultimately have "align_up u (2 ^ k) = push_bit k (drop_bit k (u + 2 ^ k - 1))"
    by (simp add: align_up_def)
  then have "align_up u (2 ^ k) = ((u + 2 ^ k - 1) - take_bit k (u + 2 ^ k - 1))"
    by (metis add_diff_cancel_right' bits_ident)
  moreover have "take_bit k x \<le> x" for x :: usize by (simp add: word_le_nat_alt unsigned_take_bit_eq)
  ultimately have "unat (align_up u (2 ^ k)) = unat (u + 2 ^ k - 1) - unat (u + 2 ^ k - 1) mod 2 ^ k"
    by (simp add: unat_sub take_bit_eq_mod unat_mod p)
  then show ?thesis unfolding w by (metis minus_mod_eq_div_mult)
qed

lemma align_up_bounds:
  assumes "unat u < 2 ^ 62" "k < 62"
  shows "unat u \<le> unat (align_up u (2 ^ k))" "unat (align_up u (2 ^ k)) < 2 ^ 63" "2 ^ k dvd unat (align_up u (2 ^ k))"
proof -
  have k: "(2 :: nat) ^ k \<le> 2 ^ 62" using assms(2) by (intro power_increasing) auto
  have "unat u + 2 ^ k - 1 = (unat u + 2 ^ k - 1) div 2 ^ k * 2 ^ k + (unat u + 2 ^ k - 1) mod 2 ^ k"
    by (rule div_mult_mod_eq [symmetric])
  moreover have "(unat u + 2 ^ k - 1) mod 2 ^ k < 2 ^ k" by simp
  ultimately show "unat u \<le> unat (align_up u (2 ^ k))" unfolding align_up_value [OF assms] by linarith
  have "(unat u + 2 ^ k - 1) div 2 ^ k * 2 ^ k \<le> unat u + 2 ^ k - 1" by (rule div_times_less_eq_dividend)
  moreover have "unat u + 2 ^ k - 1 < 2 ^ 63" using assms(1) k by simp
  ultimately show "unat (align_up u (2 ^ k)) < 2 ^ 63" unfolding align_up_value [OF assms] by (rule le_less_trans)
  show "2 ^ k dvd unat (align_up u (2 ^ k))" unfolding align_up_value [OF assms] by simp
qed

text \<open>A client that keeps the regions it was given: the pointer and the number of bytes.\<close>

datatype arena_call = Arena_Alloc usize nat | Arena_Clear

fun arena_step :: "arena_call \<Rightarrow> arena \<times> ((nat \<times> usize) \<times> usize) list \<Rightarrow> arena \<times> ((nat \<times> usize) \<times> usize) list" where
  "arena_step (Arena_Alloc n k) (a, given) = (case arena_allocate n (2 ^ k) a of (p, a') \<Rightarrow> (a', (p, n) # given))"
| "arena_step Arena_Clear (a, given) = (arena_clear a, given)"

definition small_call :: "arena_call \<Rightarrow> bool" where
  "small_call c \<longleftrightarrow> (case c of Arena_Alloc n k \<Rightarrow> unat n < 2 ^ 62 \<and> k < 62 | Arena_Clear \<Rightarrow> True)"

fun region_apart :: "(nat \<times> usize) \<times> usize \<Rightarrow> (nat \<times> usize) \<times> usize \<Rightarrow> bool" where
  "region_apart ((i, x), n) ((j, y), m) \<longleftrightarrow> i \<noteq> j \<or> unat x + unat n \<le> unat y \<or> unat y + unat m \<le> unat x"

fun region_below :: "nat \<Rightarrow> nat \<Rightarrow> nat \<Rightarrow> (nat \<times> usize) \<times> usize \<Rightarrow> bool" where
  "region_below c u next ((i, x), n) \<longleftrightarrow> i < next \<and> (i = c \<longrightarrow> unat x + unat n \<le> u)"

definition arena_inv :: "arena \<times> ((nat \<times> usize) \<times> usize) list \<Rightarrow> bool" where
  "arena_inv x \<longleftrightarrow> (case x of (a, given) \<Rightarrow> case current_chunk a of None \<Rightarrow> False | Some c \<Rightarrow>
     unat (ch_used c) \<le> unat (ch_capacity c) \<and> unat (ch_capacity c) < 2 ^ 62 \<and> unat (chunk_size a) < 2 ^ 62 \<and> ch_id c < next_id a \<and>
     sorted_wrt region_apart given \<and> list_all (region_below (ch_id c) (unat (ch_used c)) (next_id a)) given)"

lemma region_below_new: "region_below c u m r \<Longrightarrow> region_below m v (m + 1) r \<and> region_apart ((m, 0), n) r"
  by (cases r; cases "fst r") auto

lemma region_below_mono: "region_below c u m r \<Longrightarrow> u \<le> v \<Longrightarrow> region_below c v m r"
  by (cases r; cases "fst r") auto

lemma region_below_apart: "region_below c u m r \<Longrightarrow> u \<le> unat x \<Longrightarrow> region_apart ((c, x), n) r"
  by (cases r; cases "fst r") auto

lemma arena_inv_new_chunk:
  assumes "arena_inv (a, given)" "unat n < 2 ^ 62" "new_chunk n a = (p, a')"
  shows "arena_inv (a', (p, n) # given)"
proof -
  obtain c where c: "current_chunk a = Some c" using assms(1) by (auto simp: arena_inv_def split: option.splits)
  have "unat (max n (chunk_size a)) < 2 ^ 62" using assms(1,2) by (auto simp: arena_inv_def c max_def)
  moreover have "unat n \<le> unat (max n (chunk_size a))" by (simp add: word_le_nat_alt [symmetric])
  moreover have "\<forall>r \<in> set given. region_below (next_id a) (unat n) (next_id a + 1) r \<and> region_apart ((next_id a, 0), n) r"
    using assms(1) region_below_new by (auto simp: arena_inv_def c list_all_iff)
  ultimately show ?thesis
    using assms(1,3) by (auto simp: arena_inv_def new_chunk_def c list_all_iff)
qed

lemma arena_inv_alloc:
  assumes inv: "arena_inv (a, given)" and n: "unat n < 2 ^ 62" "k < 62" and al: "arena_allocate n (2 ^ k) a = (p, a')"
  shows "arena_inv (a', (p, n) # given)"
proof -
  obtain c where c: "current_chunk a = Some c" using inv by (auto simp: arena_inv_def split: option.splits)
  let ?off = "align_up (ch_used c) (2 ^ k)"
  have u: "unat (ch_used c) < 2 ^ 62" using inv by (auto simp: arena_inv_def c)
  note off = align_up_bounds [OF u n(2)]
  have "unat ?off + unat n < 2 ^ LENGTH(64)" using off(2) n(1) by simp
  then have sum: "unat (?off + n) = unat ?off + unat n" by (simp add: unat_word_ariths)
  show ?thesis
  proof (cases "?off + n \<le> ch_capacity c")
    case False
    with al have "new_chunk n a = (p, a')" by (simp add: arena_allocate_def c Let_def)
    then show ?thesis by (rule arena_inv_new_chunk [OF inv n(1)])
  next
    case True
    then have cap: "unat ?off + unat n \<le> unat (ch_capacity c)" by (simp add: word_le_nat_alt sum)
    have p: "p = (ch_id c, ?off)" "a' = a\<lparr>current_chunk := Some (c\<lparr>ch_used := ?off + n\<rparr>)\<rparr>"
      using al True by (simp_all add: arena_allocate_def c Let_def)
    have "region_below (ch_id c) (unat ?off + unat n) (next_id a) r" "region_apart ((ch_id c, ?off), n) r" if "r \<in> set given" for r
    proof -
      have r: "region_below (ch_id c) (unat (ch_used c)) (next_id a) r" using that inv by (simp add: arena_inv_def c list_all_iff)
      show "region_below (ch_id c) (unat ?off + unat n) (next_id a) r" by (rule region_below_mono [OF r]) (use off(1) in simp)
      show "region_apart ((ch_id c, ?off), n) r" by (rule region_below_apart [OF r off(1)])
    qed
    with inv cap show ?thesis by (auto simp: arena_inv_def p c sum list_all_iff)
  qed
qed

lemma arena_inv_clear: "arena_inv (a, given) \<Longrightarrow> arena_inv (arena_clear a, given)"
proof -
  assume inv: "arena_inv (a, given)"
  then obtain c where c: "current_chunk a = Some c" by (auto simp: arena_inv_def split: option.splits)
  have "\<forall>r \<in> set given. region_below (next_id a) 0 (next_id a + 1) r"
    using inv region_below_new by (auto simp: arena_inv_def c list_all_iff)
  with inv show ?thesis by (auto simp: arena_inv_def arena_clear_def c list_all_iff)
qed

interpretation arena_runs: invariant_of arena_step "\<lambda>c _. small_call c" arena_inv
proof unfold_locales
  fix x c
  assume "arena_inv x" "small_call c"
  then show "arena_inv (arena_step c x)"
    by (cases "(c, x)" rule: arena_step.cases) (auto simp: small_call_def arena_inv_clear intro: arena_inv_alloc split: prod.split)
qed

lemma run_ok_all: "list_all P cs \<Longrightarrow> run_ok (\<lambda>c _. P c) step cs s"
  by (induction cs arbitrary: s) simp_all

text \<open>
  The regions an arena hands out in a run, also across clearings, never overlap, as long as sizes and alignments stay
  below 2^62: two regions lie in different chunks or apart in the same chunk.
\<close>

theorem arena_regions_do_not_overlap:
  assumes "unat n < 2 ^ 62" "list_all small_call cs"
  shows "sorted_wrt region_apart (snd (run arena_step cs (arena_new n, [])))"
proof -
  have "arena_inv (arena_new n, [])" using assms(1) by (simp add: arena_inv_def arena_new_def)
  from arena_runs.inv_run [OF this run_ok_all [OF assms(2)]]
  show ?thesis
    by (cases "run arena_step cs (arena_new n, [])") (auto simp: arena_inv_def split: option.splits)
qed

lemma sample_regions:
  "snd (run arena_step [Arena_Alloc 100 3, Arena_Alloc 30 3, Arena_Alloc 10 0] (arena_new 128, [])) =
     [((1, 30), 10), ((1, 0), 30), ((0, 0), 100)]"
  by (simp add: arena_new_def arena_allocate_def new_chunk_def align_up_def Let_def)

theorem arena_regions_do_not_overlap_witness:
  "sorted_wrt region_apart [((1, 30), 10), ((1, 0), 30), ((0, 0), 100)]"
proof -
  have "list_all small_call [Arena_Alloc 100 3, Arena_Alloc 30 3, Arena_Alloc 10 0]" by (simp add: small_call_def)
  from arena_regions_do_not_overlap [OF _ this, of 128] show ?thesis unfolding sample_regions by simp
qed

text \<open>A size near the end of the address range wraps in the comparison, and a pointer without memory is handed out.\<close>

lemma huge_sizes_wrap:
  "fst (arena_allocate (- 1) 1 (snd (arena_allocate 16 1 (arena_new 64)))) = (0, 16)"
  by (simp add: arena_new_def arena_allocate_def new_chunk_def align_up_def Let_def)

end
