(* ===== verification/ZeroCopy.thy ===== *)
theory ZeroCopy
  imports Prelude
begin

text \<open>
  The buffers of \<^verbatim>\<open>src/optimization/zero_copy.rs\<close>: views into shared bytes, strings on top of them, the ring buffer and the
  shared regions. Shared bytes carry a number that stands for the identity of their \<^verbatim>\<open>Arc\<close>. Mapped files and the system
  calls for copying between descriptors are left out. Positions are numbers: none exceeds twice the size of a buffer.
\<close>

section \<open>Views\<close>

record zero_copy_buffer =
  zc_id :: nat
  zc_data :: "u8 list"
  zc_offset :: nat
  zc_len :: nat

text \<open>A new buffer has the length zero, whatever its data.\<close>

definition zc_new :: "nat \<Rightarrow> u8 list \<Rightarrow> zero_copy_buffer" where
  "zc_new i data = \<lparr> zc_id = i, zc_data = data, zc_offset = 0, zc_len = 0 \<rparr>"

definition zc_from_bytes :: "nat \<Rightarrow> u8 list \<Rightarrow> zero_copy_buffer" where
  "zc_from_bytes i data = \<lparr> zc_id = i, zc_data = data, zc_offset = 0, zc_len = length data \<rparr>"

definition zc_slice :: "nat \<Rightarrow> nat \<Rightarrow> zero_copy_buffer \<Rightarrow> (unit, zero_copy_buffer) outcome" where
  "zc_slice a b z =
     (if a \<le> b \<and> b \<le> zc_len z then Ok (z\<lparr>zc_offset := zc_offset z + a, zc_len := b - a\<rparr>) else Panic)"

definition zc_as_slice :: "zero_copy_buffer \<Rightarrow> (unit, u8 list) outcome" where
  "zc_as_slice z =
     (if zc_offset z + zc_len z \<le> length (zc_data z) then Ok (take (zc_len z) (drop (zc_offset z) (zc_data z))) else Panic)"

definition zc_is_empty :: "zero_copy_buffer \<Rightarrow> bool" where
  "zc_is_empty z \<longleftrightarrow> zc_len z = 0"

definition zc_split_at :: "nat \<Rightarrow> zero_copy_buffer \<Rightarrow> (unit, zero_copy_buffer \<times> zero_copy_buffer) outcome" where
  "zc_split_at m z =
     (if m \<le> zc_len z then Ok (z\<lparr>zc_len := m\<rparr>, z\<lparr>zc_offset := zc_offset z + m, zc_len := zc_len z - m\<rparr>) else Panic)"

text \<open>Adjacent views of the same bytes are joined without a copy.\<close>

definition zc_concat :: "nat \<Rightarrow> zero_copy_buffer \<Rightarrow> zero_copy_buffer \<Rightarrow> (unit, zero_copy_buffer) outcome" where
  "zc_concat fresh y z =
     (if zc_id y = zc_id z \<and> zc_offset y + zc_len y = zc_offset z then Ok (y\<lparr>zc_len := zc_len y + zc_len z\<rparr>)
      else case (zc_as_slice y, zc_as_slice z) of
        (Ok bs, Ok cs) \<Rightarrow> Ok (zc_from_bytes fresh (bs @ cs))
      | _ \<Rightarrow> Panic)"

section \<open>Strings\<close>

definition zcs_new :: "nat \<Rightarrow> u8 list \<Rightarrow> zero_copy_buffer" where
  "zcs_new i s = zc_new i s"

text \<open>\<open>utf8\<close> is the check of the standard library.\<close>

definition zcs_from_buffer :: "(u8 list \<Rightarrow> bool) \<Rightarrow> zero_copy_buffer \<Rightarrow> (unit, zero_copy_buffer) outcome" where
  "zcs_from_buffer utf8 z =
     (case zc_as_slice z of Ok bs \<Rightarrow> if utf8 bs then Ok z else Err () | Err e \<Rightarrow> Err e | Panic \<Rightarrow> Panic | Hang \<Rightarrow> Hang)"

definition is_char_boundary :: "u8 list \<Rightarrow> nat \<Rightarrow> bool" where
  "is_char_boundary s i \<longleftrightarrow> i = 0 \<or> i = length s \<or> i < length s \<and> (s ! i < 128 \<or> 192 \<le> s ! i)"

definition zcs_substring :: "nat \<Rightarrow> nat \<Rightarrow> zero_copy_buffer \<Rightarrow> (unit, zero_copy_buffer) outcome" where
  "zcs_substring a b z =
     (case zc_as_slice z of
        Ok s \<Rightarrow> if is_char_boundary s a \<and> is_char_boundary s b then zc_slice a b z else Err ()
      | Err e \<Rightarrow> Err e | Panic \<Rightarrow> Panic | Hang \<Rightarrow> Hang)"

section \<open>The ring buffer\<close>

record ring_buffer =
  rb_buffer :: "u8 list"
  rb_capacity :: nat
  rb_read :: nat
  rb_write :: nat
  rb_full :: bool

definition ring_new :: "nat \<Rightarrow> ring_buffer" where
  "ring_new n = \<lparr> rb_buffer = replicate n 0, rb_capacity = n, rb_read = 0, rb_write = 0, rb_full = False \<rparr>"

definition available_write :: "ring_buffer \<Rightarrow> nat" where
  "available_write r =
     (if rb_full r then 0
      else if rb_read r \<le> rb_write r then rb_capacity r - rb_write r + rb_read r
      else rb_read r - rb_write r)"

definition available_read :: "ring_buffer \<Rightarrow> nat" where
  "available_read r =
     (if rb_full r then rb_capacity r
      else if rb_read r \<le> rb_write r then rb_write r - rb_read r
      else rb_capacity r - rb_read r + rb_write r)"

text \<open>\<^verbatim>\<open>copy_from_slice\<close> into the bytes from a position on.\<close>

definition put_slice :: "nat \<Rightarrow> u8 list \<Rightarrow> u8 list \<Rightarrow> u8 list" where
  "put_slice i bs buf = take i buf @ bs @ drop (i + length bs) buf"

definition ring_write :: "u8 list \<Rightarrow> ring_buffer \<Rightarrow> nat \<times> ring_buffer" where
  "ring_write bs r =
     (let n = min (length bs) (available_write r)
      in if n = 0 then (0, r)
         else
           let f = min (rb_capacity r - rb_write r) n;
               b1 = put_slice (rb_write r) (take f bs) (rb_buffer r);
               b2 = (if 0 < n - f then put_slice 0 (take (n - f) (drop f bs)) b1 else b1);
               w = (rb_write r + n) mod rb_capacity r
           in (n, r\<lparr>rb_buffer := b2, rb_write := w, rb_full := (rb_full r \<or> w = rb_read r)\<rparr>))"

definition ring_read :: "nat \<Rightarrow> ring_buffer \<Rightarrow> u8 list \<times> ring_buffer" where
  "ring_read len r =
     (let n = min len (available_read r)
      in if n = 0 then ([], r)
         else
           let f = min (rb_capacity r - rb_read r) n
           in (take f (drop (rb_read r) (rb_buffer r)) @ (if 0 < n - f then take (n - f) (rb_buffer r) else []),
               r\<lparr>rb_read := (rb_read r + n) mod rb_capacity r, rb_full := False\<rparr>))"

definition ring_read_zero_copy :: "nat \<Rightarrow> nat \<Rightarrow> ring_buffer \<Rightarrow> zero_copy_buffer \<times> zero_copy_buffer option" where
  "ring_read_zero_copy i j r =
     (if available_read r = 0 then (zc_from_bytes i [], None)
      else if rb_read r < rb_write r then
        (zc_from_bytes i (take (rb_write r - rb_read r) (drop (rb_read r) (rb_buffer r))), None)
      else
        (zc_from_bytes i (take (rb_capacity r - rb_read r) (drop (rb_read r) (rb_buffer r))),
         if 0 < rb_write r then Some (zc_from_bytes j (take (rb_write r) (rb_buffer r))) else None))"

section \<open>Shared regions\<close>

definition region_new :: "nat \<Rightarrow> nat \<Rightarrow> zero_copy_buffer" where
  "region_new i n = \<lparr> zc_id = i, zc_data = replicate n 0, zc_offset = 0, zc_len = n \<rparr>"

definition clone_region :: "nat \<Rightarrow> nat \<Rightarrow> zero_copy_buffer \<Rightarrow> (unit, zero_copy_buffer) outcome" where
  "clone_region off n z = (if off + n \<le> zc_len z then Ok (z\<lparr>zc_offset := zc_offset z + off, zc_len := n\<rparr>) else Panic)"

section \<open>Views give the bytes they stand for\<close>

definition zc_wf :: "zero_copy_buffer \<Rightarrow> bool" where
  "zc_wf z \<longleftrightarrow> zc_offset z + zc_len z \<le> length (zc_data z)"

definition zc_bytes :: "zero_copy_buffer \<Rightarrow> u8 list" where
  "zc_bytes z = take (zc_len z) (drop (zc_offset z) (zc_data z))"

lemma zc_as_slice_wf: "zc_wf z \<Longrightarrow> zc_as_slice z = Ok (zc_bytes z)"
  by (simp add: zc_as_slice_def zc_wf_def zc_bytes_def)

lemma length_zc_bytes: "zc_wf z \<Longrightarrow> length (zc_bytes z) = zc_len z"
  by (simp add: zc_bytes_def zc_wf_def)

lemma zc_slice_bytes:
  assumes "zc_wf z" "zc_slice a b z = Ok y"
  shows "zc_wf y \<and> zc_bytes y = take (b - a) (drop a (zc_bytes z))"
proof -
  from assms(2) have ab: "a \<le> b" "b \<le> zc_len z" "y = z\<lparr>zc_offset := zc_offset z + a, zc_len := b - a\<rparr>"
    by (auto simp: zc_slice_def split: if_splits)
  moreover have "min (b - a) (zc_len z - a) = b - a" using ab(2) by simp
  ultimately show ?thesis
    using assms(1) by (simp add: zc_wf_def zc_bytes_def drop_take add.commute)
qed

lemma zc_split_bytes:
  assumes "zc_wf z" "zc_split_at m z = Ok (x, y)"
  shows "zc_wf x \<and> zc_wf y \<and> zc_bytes x @ zc_bytes y = zc_bytes z \<and> length (zc_bytes x) = m"
proof -
  from assms(2) have m: "m \<le> zc_len z" "x = z\<lparr>zc_len := m\<rparr>" "y = z\<lparr>zc_offset := zc_offset z + m, zc_len := zc_len z - m\<rparr>"
    by (auto simp: zc_split_at_def split: if_splits)
  then have "zc_bytes x @ zc_bytes y = take (m + (zc_len z - m)) (drop (zc_offset z) (zc_data z))"
    unfolding take_add by (simp add: zc_bytes_def add.commute)
  with m assms(1) show ?thesis by (simp add: zc_wf_def zc_bytes_def)
qed

lemma zc_concat_bytes:
  assumes "zc_wf y" "zc_wf z" "zc_id y = zc_id z \<Longrightarrow> zc_data y = zc_data z"
  shows "\<exists>x. zc_concat i y z = Ok x \<and> zc_wf x \<and> zc_bytes x = zc_bytes y @ zc_bytes z"
proof (cases "zc_id y = zc_id z \<and> zc_offset y + zc_len y = zc_offset z")
  case True
  then have "zc_bytes y @ zc_bytes z = take (zc_len y + zc_len z) (drop (zc_offset y) (zc_data y))"
    using assms(3) unfolding take_add by (simp add: zc_bytes_def add.commute)
  with True assms show ?thesis by (auto simp: zc_concat_def zc_wf_def zc_bytes_def)
next
  case False
  have "zc_wf (zc_from_bytes i bs) \<and> zc_bytes (zc_from_bytes i bs) = bs" for bs by (simp add: zc_from_bytes_def zc_wf_def zc_bytes_def)
  with False assms show ?thesis by (auto simp: zc_concat_def zc_as_slice_wf)
qed

text \<open>
  Splitting a view anywhere within it and joining the parts gives the view back, without a copy; slices and joins of other
  views give the bytes they should.
\<close>

theorem split_views_join_again:
  assumes "zc_wf z" "m \<le> zc_len z"
  shows "\<exists>x y. zc_split_at m z = Ok (x, y) \<and> zc_concat i x y = Ok z \<and> zc_as_slice x = Ok (take m (zc_bytes z))
    \<and> zc_as_slice y = Ok (drop m (zc_bytes z))"
proof -
  let ?x = "z\<lparr>zc_len := m\<rparr>" and ?y = "z\<lparr>zc_offset := zc_offset z + m, zc_len := zc_len z - m\<rparr>"
  have s: "zc_split_at m z = Ok (?x, ?y)" using assms(2) by (simp add: zc_split_at_def)
  from zc_split_bytes [OF assms(1) s] have "zc_bytes ?x = take m (zc_bytes z)" "zc_bytes ?y = drop m (zc_bytes z)"
    by (metis append_eq_conv_conj)+
  moreover have "zc_wf ?x" "zc_wf ?y" using zc_split_bytes [OF assms(1) s] by simp_all
  moreover have "zc_concat i ?x ?y = Ok z" using assms(2) by (simp add: zc_concat_def)
  ultimately show ?thesis using s by (auto simp: zc_as_slice_wf)
qed

theorem split_views_join_again_witness:
  "zc_wf (zc_from_bytes 0 [1, 2, 3]) \<and> (\<exists>x y. zc_split_at 2 (zc_from_bytes 0 [1, 2, 3]) = Ok (x, y) \<and> zc_as_slice y = Ok [3])"
proof -
  have z: "zc_wf (zc_from_bytes 0 [1, 2, 3])" "2 \<le> zc_len (zc_from_bytes 0 [1, 2, 3])" by (simp_all add: zc_from_bytes_def zc_wf_def)
  have "drop 2 (zc_bytes (zc_from_bytes 0 [1, 2, 3])) = [3]" by (simp add: zc_from_bytes_def zc_bytes_def)
  with split_views_join_again [OF z, of 0] z(1) show ?thesis by auto
qed

text \<open>The data of a new buffer cannot be read.\<close>

lemma new_buffers_are_empty: "zc_as_slice (zc_new i data) = Ok [] \<and> zc_as_slice (zcs_new i data) = Ok []"
  by (simp add: zc_as_slice_def zc_new_def zcs_new_def)

section \<open>The ring buffer is a bounded queue\<close>

definition wrap :: "nat \<Rightarrow> nat \<Rightarrow> nat" where
  "wrap c x = (if x < c then x else x - c)"

lemma mod_wrap: "x < 2 * c \<Longrightarrow> x mod c = wrap c x"
  by (auto simp: wrap_def not_less le_mod_geq)

text \<open>The distance of a position from another, both counted from \<open>r\<close>.\<close>

lemma wrap_distance:
  assumes "r < c" "a \<le> c" "i < c"
  shows "wrap c (wrap c (r + i) + c - wrap c (r + a)) = (if i < a then c - a + i else i - a)"
  using assms by (cases "r + i < c"; cases "r + a < c") (simp_all add: wrap_def, auto)

definition ring_wf :: "ring_buffer \<Rightarrow> bool" where
  "ring_wf r \<longleftrightarrow> length (rb_buffer r) = rb_capacity r \<and> (rb_capacity r = 0 \<longrightarrow> rb_read r = 0 \<and> rb_write r = 0) \<and>
     (0 < rb_capacity r \<longrightarrow> rb_read r < rb_capacity r \<and> rb_write r < rb_capacity r) \<and> (rb_full r \<longrightarrow> rb_read r = rb_write r)"

text \<open>The bytes that wait, the oldest first.\<close>

definition ring_bytes :: "ring_buffer \<Rightarrow> u8 list" where
  "ring_bytes r = map (\<lambda>i. rb_buffer r ! wrap (rb_capacity r) (rb_read r + i)) [0..<available_read r]"

lemma length_ring_bytes [simp]: "length (ring_bytes r) = available_read r"
  by (simp add: ring_bytes_def)

lemma ring_available: "ring_wf r \<Longrightarrow> available_read r + available_write r = rb_capacity r"
  by (auto simp: ring_wf_def available_read_def available_write_def)

lemma nth_put_slice:
  "i + length bs \<le> length buf \<Longrightarrow> p < length buf \<Longrightarrow>
     put_slice i bs buf ! p = (if i \<le> p \<and> p < i + length bs then bs ! (p - i) else buf ! p)"
  by (auto simp: put_slice_def nth_append)

lemma length_put_slice: "i + length bs \<le> length buf \<Longrightarrow> length (put_slice i bs buf) = length buf"
  by (simp add: put_slice_def)

lemma ring_write_spec:
  assumes wf: "ring_wf r" and w: "ring_write bs r = (n, r')"
  shows "n = min (length bs) (available_write r) \<and> ring_wf r' \<and> rb_capacity r' = rb_capacity r \<and>
    ring_bytes r' = ring_bytes r @ take n bs"
proof (cases "min (length bs) (available_write r) = 0")
  case True
  with w wf show ?thesis by (auto simp: ring_write_def)
next
  case False
  let ?c = "rb_capacity r" and ?w = "rb_write r"
  define f where "f = min (?c - ?w) n"
  define b1 where "b1 = put_slice ?w (take f bs) (rb_buffer r)"
  define b2 where "b2 = (if 0 < n - f then put_slice 0 (take (n - f) (drop f bs)) b1 else b1)"
  have n: "n = min (length bs) (available_write r)" "0 < n" using w False by (auto simp: ring_write_def Let_def)
  have "ring_write bs r = (n, r\<lparr>rb_buffer := b2, rb_write := (?w + n) mod ?c, rb_full := (rb_full r \<or> (?w + n) mod ?c = rb_read r)\<rparr>)"
    unfolding ring_write_def Let_def n(1) [symmetric] f_def [symmetric] b1_def [symmetric] b2_def [symmetric] using n(2) by simp
  with w have r': "r' = r\<lparr>rb_buffer := b2, rb_write := (?w + n) mod ?c, rb_full := (rb_full r \<or> (?w + n) mod ?c = rb_read r)\<rparr>"
    by simp
  have avail: "available_read r + available_write r = ?c" by (rule ring_available [OF wf])
  have nle: "n \<le> available_write r" "n \<le> length bs" using n(1) by simp_all
  then have c: "0 < ?c" using n(2) avail by simp
  have nf: "\<not> rb_full r" using n by (auto simp: available_write_def)
  have pos: "rb_read r < ?c" "?w < ?c" "length (rb_buffer r) = ?c" using wf c by (auto simp: ring_wf_def)
  have write_pos: "?w = wrap ?c (rb_read r + available_read r)"
    using pos nf by (auto simp: available_read_def wrap_def)
  have "available_read r' = available_read r + n \<and> ring_wf r'"
  proof -
    have m: "(?w + n) mod ?c = wrap ?c (?w + n)" using pos nle avail by (intro mod_wrap) simp
    have "length b1 = ?c" using pos nle by (simp add: b1_def f_def length_put_slice)
    then have len2: "length b2 = ?c" using nle avail by (auto simp: b2_def length_put_slice)
    have room: "n \<le> (if rb_read r \<le> ?w then ?c - ?w + rb_read r else rb_read r - ?w)"
      using nle(1) nf by (simp add: available_write_def)
    have old: "available_read r = (if rb_read r \<le> ?w then ?w - rb_read r else ?c - rb_read r + ?w)"
      using nf by (simp add: available_read_def)
    have new: "available_read r' = (if wrap ?c (?w + n) = rb_read r then ?c
        else if rb_read r \<le> wrap ?c (?w + n) then wrap ?c (?w + n) - rb_read r else ?c - rb_read r + wrap ?c (?w + n))"
      using nf by (simp add: r' m available_read_def)
    have "n \<le> ?c" using nle avail by simp
    then have "wrap ?c (?w + n) < ?c" using pos by (auto simp: wrap_def)
    then have "ring_wf r'" using pos len2 c nf by (simp add: r' m ring_wf_def)
    moreover have "available_read r' = available_read r + n"
    proof (cases "rb_read r \<le> ?w")
      case True
      with pos room n(2) show ?thesis unfolding new old by (cases "?w + n < ?c") (simp_all add: wrap_def, linarith)
    next
      case False
      with pos room n(2) show ?thesis unfolding new old by (simp add: wrap_def) linarith
    qed
    ultimately show ?thesis by blast
  qed
  moreover have b2: "b2 ! p = (if wrap ?c (p + ?c - ?w) < n then bs ! wrap ?c (p + ?c - ?w) else rb_buffer r ! p)" if "p < ?c" for p
  proof -
    have f: "f \<le> ?c - ?w" "f \<le> n" by (simp_all add: f_def)
    have l1: "length b1 = ?c" using pos f nle by (simp add: b1_def length_put_slice)
    have b1: "b1 ! p = (if ?w \<le> p \<and> p < ?w + f then bs ! (p - ?w) else rb_buffer r ! p)"
      using that pos f nle by (auto simp: b1_def nth_put_slice less_diff_conv2)
    show ?thesis
    proof (cases "n \<le> ?c - ?w")
      case True
      then have "f = n" by (simp add: f_def)
      with that pos True show ?thesis by (auto simp: b2_def b1 wrap_def)
    next
      case False
      then have fw: "f = ?c - ?w" by (simp add: f_def)
      have "n - f \<le> ?c" using nle avail by simp
      then have "b2 ! p = (if p < n - f then bs ! (f + p) else b1 ! p)"
        using that l1 nle False fw by (auto simp: b2_def nth_put_slice)
      then show ?thesis
        using that pos fw False nle avail nf by (auto simp: b1 wrap_def add.commute)
    qed
  qed
  moreover have "ring_bytes r' = ring_bytes r @ take n bs"
  proof (rule nth_equalityI)
    show "length (ring_bytes r') = length (ring_bytes r @ take n bs)" using calculation(1) nle by simp
    fix i
    assume "i < length (ring_bytes r')"
    then have i: "i < available_read r + n" using calculation(1) by simp
    let ?p = "wrap ?c (rb_read r + i)"
    have p: "?p < ?c" using pos i nle avail by (auto simp: wrap_def)
    have "ring_bytes r' ! i = b2 ! ?p" using i calculation(1) by (simp add: ring_bytes_def r' del: upt_Suc)
    also have "\<dots> = (if i < available_read r then rb_buffer r ! ?p else bs ! (i - available_read r))"
    proof (cases "i < available_read r")
      case True
      have "\<not> wrap ?c (?p + ?c - ?w) < n"
        using True wrap_distance [OF pos(1), of "available_read r" i] i nle avail by (simp add: write_pos)
      with True show ?thesis by (simp add: b2 [OF p])
    next
      case False
      have "wrap ?c (?p + ?c - ?w) = i - available_read r"
        using False wrap_distance [OF pos(1), of "available_read r" i] i nle avail by (simp add: write_pos)
      moreover have "i - available_read r < n" using False i by simp
      ultimately show ?thesis using False by (simp add: b2 [OF p])
    qed
    also have "\<dots> = (ring_bytes r @ take n bs) ! i" using i nle by (simp add: nth_append ring_bytes_def)
    finally show "ring_bytes r' ! i = (ring_bytes r @ take n bs) ! i" .
  qed
  ultimately show ?thesis using n(1) by (simp add: r')
qed

lemma ring_read_spec:
  assumes wf: "ring_wf r" and q: "ring_read len r = (bs, r')"
  shows "bs = take len (ring_bytes r) \<and> ring_wf r' \<and> rb_capacity r' = rb_capacity r \<and> ring_bytes r' = drop len (ring_bytes r)"
proof (cases "min len (available_read r) = 0")
  case True
  then have "len = 0 \<or> ring_bytes r = []" by (auto simp: ring_bytes_def)
  with True q wf show ?thesis by (auto simp: ring_read_def)
next
  case False
  let ?c = "rb_capacity r" and ?r = "rb_read r"
  define n where "n = min len (available_read r)"
  define f where "f = min (?c - ?r) n"
  have n: "0 < n" "n \<le> available_read r" using False by (simp_all add: n_def)
  have "ring_read len r = (take f (drop ?r (rb_buffer r)) @ (if 0 < n - f then take (n - f) (rb_buffer r) else []),
      r\<lparr>rb_read := (?r + n) mod ?c, rb_full := False\<rparr>)"
    unfolding ring_read_def Let_def n_def [symmetric] f_def [symmetric] using n(1) by simp
  with q have bs: "bs = take f (drop ?r (rb_buffer r)) @ take (n - f) (rb_buffer r)"
    and r': "r' = r\<lparr>rb_read := (?r + n) mod ?c, rb_full := False\<rparr>" by auto
  have avail: "available_read r \<le> ?c" using ring_available [OF wf] by simp
  then have c: "0 < ?c" using n by simp
  then have pos: "?r < ?c" "rb_write r < ?c" "length (rb_buffer r) = ?c" "rb_full r \<longrightarrow> ?r = rb_write r"
    using wf by (auto simp: ring_wf_def)
  have m: "(?r + n) mod ?c = wrap ?c (?r + n)" using pos n avail by (intro mod_wrap) simp
  have rest: "available_read r' = available_read r - n \<and> ring_wf r'"
    using pos n avail c unfolding r' m by (auto simp: available_read_def ring_wf_def wrap_def split: if_splits)
  have "bs = take n (ring_bytes r)"
  proof (rule nth_equalityI)
    have "length bs = n" using pos n avail by (auto simp: bs f_def min_def)
    then show "length bs = length (take n (ring_bytes r))" using n by simp
    fix i
    assume "i < length bs"
    then have i: "i < n" using \<open>length bs = n\<close> by simp
    show "bs ! i = take n (ring_bytes r) ! i"
      using i pos n avail by (auto simp: bs ring_bytes_def nth_append f_def wrap_def min_def add.commute)
  qed
  moreover have "ring_bytes r' = drop n (ring_bytes r)"
  proof (rule nth_equalityI)
    show "length (ring_bytes r') = length (drop n (ring_bytes r))" using rest by simp
    fix i
    assume "i < length (ring_bytes r')"
    then have i: "i < available_read r - n" using rest by simp
    have "wrap ?c (wrap ?c (?r + n) + i) = wrap ?c (?r + (n + i))"
      using i pos n avail by (auto simp: wrap_def)
    moreover have "n + i < available_read r" using i by simp
    ultimately show "ring_bytes r' ! i = drop n (ring_bytes r) ! i"
      using i rest n by (simp add: ring_bytes_def r' m del: upt_Suc)
  qed
  moreover have "take n (ring_bytes r) = take len (ring_bytes r)" "drop n (ring_bytes r) = drop len (ring_bytes r)"
    by (auto simp: n_def min_def)
  ultimately show ?thesis using rest by (simp add: r')
qed

text \<open>Reading without a copy shows the same bytes, in one or two parts.\<close>

lemma ring_read_zero_copy_bytes:
  assumes "ring_wf r"
  shows "case ring_read_zero_copy i j r of (x, y) \<Rightarrow>
     zc_bytes x @ (case y of None \<Rightarrow> [] | Some z \<Rightarrow> zc_bytes z) = ring_bytes r"
proof -
  have b: "zc_bytes (zc_from_bytes k bs) = bs" for k bs by (simp add: zc_bytes_def zc_from_bytes_def)
  obtain bs r' where q: "ring_read (available_read r) r = (bs, r')" by (metis surj_pair)
  then have bytes: "ring_bytes r = bs" using ring_read_spec [OF assms q] by simp
  have pos: "available_read r \<noteq> 0 \<Longrightarrow> rb_read r < rb_capacity r \<and> rb_write r < rb_capacity r" "rb_full r \<longrightarrow> rb_read r = rb_write r"
    using assms by (auto simp: ring_wf_def available_read_def split: if_splits)
  show ?thesis
  proof (cases "available_read r = 0 \<or> rb_read r < rb_write r")
    case True
    then show ?thesis
    proof (rule disjE)
      assume "rb_read r < rb_write r"
      then have a: "available_read r = rb_write r - rb_read r" using pos(2) by (auto simp: available_read_def)
      have n: "available_read r \<noteq> 0" using a \<open>rb_read r < rb_write r\<close> by simp
      have f: "min (rb_capacity r - rb_read r) (available_read r) = available_read r"
        using pos(1) [OF n] unfolding a by (intro min_absorb2 diff_le_mono) simp
      have "bs = take (available_read r) (drop (rb_read r) (rb_buffer r))"
        using q n unfolding ring_read_def Let_def min.idem f by auto
      with n a \<open>rb_read r < rb_write r\<close> show ?thesis by (simp add: ring_read_zero_copy_def b bytes)
    next
      assume "available_read r = 0"
      moreover from this have "ring_bytes r = []" by (simp add: ring_bytes_def)
      ultimately show ?thesis by (simp add: ring_read_zero_copy_def b)
    qed
  next
    case False
    then have a: "available_read r = rb_capacity r - rb_read r + rb_write r"
      using pos by (auto simp: available_read_def split: if_splits)
    have n: "available_read r \<noteq> 0" "\<not> rb_read r < rb_write r" using False by simp_all
    have f: "min (rb_capacity r - rb_read r) (available_read r) = rb_capacity r - rb_read r" using a by simp
    have "bs = take (rb_capacity r - rb_read r) (drop (rb_read r) (rb_buffer r)) @ take (rb_write r) (rb_buffer r)"
      using q n(1) unfolding ring_read_def Let_def min.idem f by (auto simp: a)
    with n show ?thesis by (cases "rb_write r") (simp_all add: ring_read_zero_copy_def b bytes)
  qed
qed

text \<open>The calls of a ring buffer and what they answer, and the same for a queue of bytes that holds at most its capacity.\<close>

datatype ring_call = Ring_Write "u8 list" | Ring_Read nat

datatype ring_answer = Wrote nat | Got "u8 list"

fun ring_answers :: "ring_call list \<Rightarrow> ring_buffer \<Rightarrow> ring_answer list" where
  "ring_answers [] r = []"
| "ring_answers (Ring_Write bs # cs) r = (case ring_write bs r of (n, r') \<Rightarrow> Wrote n # ring_answers cs r')"
| "ring_answers (Ring_Read n # cs) r = (case ring_read n r of (bs, r') \<Rightarrow> Got bs # ring_answers cs r')"

fun queue_answers :: "nat \<Rightarrow> ring_call list \<Rightarrow> u8 list \<Rightarrow> ring_answer list" where
  "queue_answers c [] q = []"
| "queue_answers c (Ring_Write bs # cs) q =
     (let n = min (length bs) (c - length q) in Wrote n # queue_answers c cs (q @ take n bs))"
| "queue_answers c (Ring_Read n # cs) q = Got (take n q) # queue_answers c cs (drop n q)"

lemma ring_answers_queue: "ring_wf r \<Longrightarrow> ring_answers cs r = queue_answers (rb_capacity r) cs (ring_bytes r)"
proof (induction cs arbitrary: r)
  case (Cons c cs)
  show ?case
  proof (cases c)
    case (Ring_Write bs)
    obtain n r' where w: "ring_write bs r = (n, r')" by (metis surj_pair)
    have "available_write r = rb_capacity r - length (ring_bytes r)" using ring_available [OF Cons.prems] by simp
    with ring_write_spec [OF Cons.prems w] Cons.IH [of r'] w show ?thesis by (simp add: Ring_Write Let_def)
  next
    case (Ring_Read n)
    obtain bs r' where q: "ring_read n r = (bs, r')" by (metis surj_pair)
    with ring_read_spec [OF Cons.prems q] Cons.IH [of r'] show ?thesis by (simp add: Ring_Read)
  qed
qed simp

text \<open>
  C25: a ring buffer is a bounded first-in first-out queue: every sequence of writes and reads gets the answers of a queue of
  bytes with the capacity of the buffer, a capacity of zero included.
\<close>

theorem ring_buffer_is_a_bounded_queue:
  "ring_answers cs (ring_new c) = queue_answers c cs []"
proof -
  have "ring_wf (ring_new c)" by (simp add: ring_wf_def ring_new_def)
  from ring_answers_queue [OF this, of cs] show ?thesis by (simp add: ring_new_def ring_bytes_def available_read_def)
qed

end
