(* ===== verification/KeyManagement.thy ===== *)
theory KeyManagement
  imports TxBytes
begin

text \<open>
  The key manager and the multi-signature wallet of \<^verbatim>\<open>src/security/key_management.rs\<close>. AES-GCM under the constant key of the
  code, Ed25519, SHA-3, the hardware wallet, clocks and random values are arguments. Software keys come as pairs of a
  private and a public part.
\<close>

section \<open>Keys\<close>

datatype key_type = Key_Signing | Key_Encryption | Key_Consensus | Key_Trading

datatype key_status = Key_Active | Key_Rotating | Key_Deprecated | Key_Compromised | Key_Recovered

datatype key_error =
    KeyNotFound | KeyNotActive | InvalidThreshold | HardwareNotAvailable | EncryptionFailed | DecryptionFailed
  | InsufficientShares | InvalidShares | UnauthorizedSigner | TransactionNotFound

record key_management_config =
  rotation_interval_days :: u32
  key_derivation_iterations :: u32
  backup_threshold :: u32
  recovery_threshold :: u32

record key_metadata =
  km_id :: h256
  km_type :: key_type
  km_status :: key_status
  km_created :: u64
  km_rotated :: "u64 option"
  km_expiry :: "u64 option"
  km_usage :: u64
  km_hardware :: bool

record key_entry =
  ke_metadata :: key_metadata
  ke_encrypted :: "u8 list"
  ke_public :: "u8 list"

record recovery_share =
  rs_id :: h256
  rs_key :: h256
  rs_index :: u32
  rs_share :: "u8 list"
  rs_validator :: address

record hardware_wallet =
  hw_generate :: "key_type \<Rightarrow> (key_error, u8 list) outcome"
  hw_sign :: "h256 \<Rightarrow> u8 list \<Rightarrow> (key_error, u8 list) outcome"

record key_manager =
  kmgr_config :: key_management_config
  manager_keys :: "(h256 \<times> key_entry) list"
  hardware_interface :: "hardware_wallet option"
  recovery_shares :: "recovery_share list"

definition key_manager_new :: "key_management_config \<Rightarrow> key_manager" where
  "key_manager_new config = \<lparr> kmgr_config = config, manager_keys = [], hardware_interface = None, recovery_shares = [] \<rparr>"

definition set_hardware_wallet :: "hardware_wallet \<Rightarrow> key_manager \<Rightarrow> key_manager" where
  "set_hardware_wallet hw s = s\<lparr>hardware_interface := Some hw\<rparr>"

text \<open>The packages: encryption and decryption under the constant key, signatures, the hash.\<close>

record key_crypto =
  kc_encrypt :: "u8 list \<Rightarrow> u8 list option"
  kc_decrypt :: "u8 list \<Rightarrow> u8 list option"
  kc_sign :: "u8 list \<Rightarrow> u8 list \<Rightarrow> u8 list"
  kc_sha3 :: "u8 list \<Rightarrow> u8 list"

definition encrypt_key :: "key_crypto \<Rightarrow> u8 list \<Rightarrow> (key_error, u8 list) outcome" where
  "encrypt_key C k = (case kc_encrypt C k of None \<Rightarrow> Err EncryptionFailed | Some c \<Rightarrow> Ok c)"

definition decrypt_key :: "key_crypto \<Rightarrow> u8 list \<Rightarrow> (key_error, u8 list) outcome" where
  "decrypt_key C c = (case kc_decrypt C c of None \<Rightarrow> Err DecryptionFailed | Some k \<Rightarrow> Ok k)"

section \<open>Making and rotating keys\<close>

text \<open>What is random in a new key: the identifier and the pair of a software key.\<close>

record fresh_key =
  fk_id :: h256
  fk_private :: "u8 list"
  fk_public :: "u8 list"

definition key_material ::
  "key_type \<Rightarrow> bool \<Rightarrow> fresh_key \<Rightarrow> key_manager \<Rightarrow> (key_error, u8 list \<times> u8 list) outcome" where
  "key_material kt hw f s =
     (case (hw, hardware_interface s) of
        (True, Some h) \<Rightarrow>
          (case hw_generate h kt of Ok p \<Rightarrow> Ok ([], p) | Err e \<Rightarrow> Err e | Panic \<Rightarrow> Panic | Hang \<Rightarrow> Hang)
      | _ \<Rightarrow> Ok (fk_private f, fk_public f))"

text \<open>The flag of the metadata is what was asked for, not where the key is.\<close>

definition generate_key ::
  "key_crypto \<Rightarrow> u64 \<Rightarrow> fresh_key \<Rightarrow> key_type \<Rightarrow> bool \<Rightarrow> key_manager \<Rightarrow> (key_error, h256) outcome \<times> key_manager" where
  "generate_key C now f kt hw s =
     and_then (key_material kt hw f s, s) (\<lambda>(sk, pk) s.
       and_then (if sk \<noteq> [] then encrypt_key C sk else Ok [], s) (\<lambda>enc s.
         let m = \<lparr> km_id = fk_id f, km_type = kt, km_status = Key_Active, km_created = now, km_rotated = None,
                   km_expiry = Some (now + 86400 * ucast (rotation_interval_days (kmgr_config s))), km_usage = 0, km_hardware = hw \<rparr>
         in (Ok (fk_id f), s\<lparr>manager_keys := AList.update (fk_id f)
               \<lparr> ke_metadata = m, ke_encrypted = enc, ke_public = pk \<rparr> (manager_keys s)\<rparr>)))"

definition set_metadata :: "h256 \<Rightarrow> (key_metadata \<Rightarrow> key_metadata) \<Rightarrow> key_manager \<Rightarrow> key_manager" where
  "set_metadata i f s =
     (case map_of (manager_keys s) i of
        None \<Rightarrow> s
      | Some e \<Rightarrow> s\<lparr>manager_keys := AList.update i (e\<lparr>ke_metadata := f (ke_metadata e)\<rparr>) (manager_keys s)\<rparr>)"

definition rotate_key ::
  "key_crypto \<Rightarrow> u64 \<Rightarrow> fresh_key \<Rightarrow> h256 \<Rightarrow> key_manager \<Rightarrow> (key_error, h256) outcome \<times> key_manager" where
  "rotate_key C now f i s =
     (case map_of (manager_keys s) i of
        None \<Rightarrow> (Err KeyNotFound, s)
      | Some e \<Rightarrow>
          and_then (generate_key C now f (km_type (ke_metadata e)) (km_hardware (ke_metadata e))
                      (set_metadata i (\<lambda>m. m\<lparr>km_status := Key_Rotating, km_rotated := Some now\<rparr>) s))
            (\<lambda>j s. (Ok j, set_metadata i (\<lambda>m. m\<lparr>km_status := Key_Deprecated\<rparr>) s)))"

definition should_rotate :: "u64 \<Rightarrow> key_metadata \<Rightarrow> bool" where
  "should_rotate now m \<longleftrightarrow> (case km_expiry m of None \<Rightarrow> False | Some x \<Rightarrow> x \<le> now) \<or> 1000000 < km_usage m"

definition keys_to_rotate :: "u64 \<Rightarrow> key_type \<Rightarrow> key_manager \<Rightarrow> h256 list" where
  "keys_to_rotate now kt s = map fst (filter (\<lambda>(i, e). km_type (ke_metadata e) = kt \<and> km_status (ke_metadata e) = Key_Active \<and>
     should_rotate now (ke_metadata e)) (manager_keys s))"

fun rotate_all ::
  "key_crypto \<Rightarrow> u64 \<Rightarrow> (h256 \<times> fresh_key) list \<Rightarrow> key_manager \<Rightarrow> (key_error, h256 list) outcome \<times> key_manager" where
  "rotate_all C now [] s = (Ok [], s)"
| "rotate_all C now ((i, f) # fs) s =
     and_then (rotate_key C now f i s) (\<lambda>j s. and_then (rotate_all C now fs s) (\<lambda>js s. (Ok (j # js), s)))"

definition batch_rotate ::
  "key_crypto \<Rightarrow> u64 \<Rightarrow> (nat \<Rightarrow> fresh_key) \<Rightarrow> key_type \<Rightarrow> key_manager \<Rightarrow> (key_error, h256 list) outcome \<times> key_manager" where
  "batch_rotate C now fresh kt s =
     (let ks = keys_to_rotate now kt s in rotate_all C now (zip ks (map fresh [0..<length ks])) s)"

section \<open>Signing\<close>

text \<open>The use is counted before the key is looked for in the hardware or decrypted.\<close>

definition key_sign ::
  "key_crypto \<Rightarrow> h256 \<Rightarrow> u8 list \<Rightarrow> key_manager \<Rightarrow> (key_error, u8 list) outcome \<times> key_manager" where
  "key_sign C i msg s =
     (case map_of (manager_keys s) i of
        None \<Rightarrow> (Err KeyNotFound, s)
      | Some e \<Rightarrow>
          if km_status (ke_metadata e) \<noteq> Key_Active then (Err KeyNotActive, s)
          else
            let s1 = set_metadata i (\<lambda>m. m\<lparr>km_usage := km_usage m + 1\<rparr>) s
            in if km_hardware (ke_metadata e) then
                 (case hardware_interface s of
                    None \<Rightarrow> (Err HardwareNotAvailable, s1)
                  | Some h \<Rightarrow> (hw_sign h i msg, s1))
               else
                 and_then (decrypt_key C (ke_encrypted e), s1)
                   (\<lambda>k s. if length k = 32 then (Ok (kc_sign C k msg), s) else (Panic, s)))"

section \<open>Recovery\<close>

text \<open>The \<^verbatim>\<open>k\<close> of the sharing is not used: every share is the secret.\<close>

definition split_secret :: "u8 list \<Rightarrow> u32 \<Rightarrow> u32 \<Rightarrow> u8 list list" where
  "split_secret secret n k = replicate (unat n) secret"

definition combine_shares :: "u8 list list \<Rightarrow> (key_error, u8 list) outcome" where
  "combine_shares shares = (case shares of [] \<Rightarrow> Err InsufficientShares | x # xs \<Rightarrow> Ok x)"

definition create_recovery_seed :: "key_crypto \<Rightarrow> u64 \<Rightarrow> h256 \<Rightarrow> u8 list" where
  "create_recovery_seed C now i = kc_sha3 C (be_bytes 32 i @ le_bytes 8 now)"

definition create_recovery_shares ::
  "key_crypto \<Rightarrow> u64 \<Rightarrow> (nat \<Rightarrow> h256) \<Rightarrow> h256 \<Rightarrow> u32 \<Rightarrow> u32 \<Rightarrow> key_manager \<Rightarrow>
     (key_error, recovery_share list) outcome \<times> key_manager" where
  "create_recovery_shares C now ids i n k s =
     (if n < k then (Err InvalidThreshold, s)
      else case map_of (manager_keys s) i of
        None \<Rightarrow> (Err KeyNotFound, s)
      | Some e \<Rightarrow>
          let secret = (if km_hardware (ke_metadata e) then create_recovery_seed C now i else ke_encrypted e);
              shares = map (\<lambda>(j, x). \<lparr> rs_id = ids j, rs_key = i, rs_index = word_of_nat j, rs_share = x, rs_validator = 0 \<rparr>)
                (zip [0..<unat n] (split_secret secret n k))
          in (Ok shares, s\<lparr>recovery_shares := recovery_shares s @ shares\<rparr>))"

definition recover_key ::
  "u64 \<Rightarrow> h256 \<Rightarrow> recovery_share list \<Rightarrow> key_manager \<Rightarrow> (key_error, h256) outcome \<times> key_manager" where
  "recover_key now j shares s =
     (case shares of
        [] \<Rightarrow> (Err InsufficientShares, s)
      | x # xs \<Rightarrow>
          if \<not> list_all (\<lambda>y. rs_key y = rs_key x) (x # xs) then (Err InvalidShares, s)
          else and_then (combine_shares (map rs_share (x # xs)), s) (\<lambda>secret s.
            let m = \<lparr> km_id = j, km_type = Key_Signing, km_status = Key_Recovered, km_created = now, km_rotated = None,
                      km_expiry = Some (now + 86400 * 30), km_usage = 0, km_hardware = False \<rparr>
            in (Ok j, s\<lparr>manager_keys := AList.update j \<lparr> ke_metadata = m, ke_encrypted = secret, ke_public = [] \<rparr> (manager_keys s)\<rparr>)))"

datatype key_manager_call =
    Key_Generate u64 fresh_key key_type bool
  | Key_Rotate u64 fresh_key h256
  | Key_Rotate_All u64 "nat \<Rightarrow> fresh_key" key_type
  | Key_Use h256 "u8 list"
  | Key_Share u64 "nat \<Rightarrow> h256" h256 u32 u32
  | Key_Recover u64 h256 "recovery_share list"

fun key_step :: "key_crypto \<Rightarrow> key_manager_call \<Rightarrow> key_manager \<Rightarrow> key_manager" where
  "key_step C (Key_Generate now f kt hw) s = snd (generate_key C now f kt hw s)"
| "key_step C (Key_Rotate now f i) s = snd (rotate_key C now f i s)"
| "key_step C (Key_Rotate_All now fresh kt) s = snd (batch_rotate C now fresh kt s)"
| "key_step C (Key_Use i msg) s = snd (key_sign C i msg s)"
| "key_step C (Key_Share now ids i n k) s = snd (create_recovery_shares C now ids i n k s)"
| "key_step C (Key_Recover now j shares) s = snd (recover_key now j shares s)"

section \<open>Multi-signature wallets\<close>

record pending_transaction =
  pt_hash :: h256
  pt_data :: "u8 list"
  pt_signatures :: "(address \<times> u8 list) list"
  pt_created :: u64
  pt_expiry :: u64

text \<open>\<open>ms_executed\<close> is what the wallet has printed as executed.\<close>

record multisig_wallet =
  ms_id :: h256
  ms_signers :: "address list"
  ms_threshold :: u32
  ms_pending :: "(h256 \<times> pending_transaction) list"
  ms_executed :: "pending_transaction list"

definition multisig_new :: "h256 \<Rightarrow> address list \<Rightarrow> u32 \<Rightarrow> (key_error, multisig_wallet) outcome" where
  "multisig_new i signers t =
     (if t = 0 \<or> word_of_nat (length signers) < t then Err InvalidThreshold
      else Ok \<lparr> ms_id = i, ms_signers = signers, ms_threshold = t, ms_pending = [], ms_executed = [] \<rparr>)"

definition multisig_submit :: "u64 \<Rightarrow> h256 \<Rightarrow> u8 list \<Rightarrow> multisig_wallet \<Rightarrow> (key_error, h256) outcome \<times> multisig_wallet" where
  "multisig_submit now h data w =
     (Ok h, w\<lparr>ms_pending := AList.update h
        \<lparr> pt_hash = h, pt_data = data, pt_signatures = [], pt_created = now, pt_expiry = now + 86400 \<rparr> (ms_pending w)\<rparr>)"

definition execute_multisig :: "pending_transaction \<Rightarrow> multisig_wallet \<Rightarrow> multisig_wallet" where
  "execute_multisig tx w = w\<lparr>ms_executed := ms_executed w @ [tx]\<rparr>"

definition multisig_sign ::
  "h256 \<Rightarrow> address \<Rightarrow> u8 list \<Rightarrow> multisig_wallet \<Rightarrow> (key_error, bool) outcome \<times> multisig_wallet" where
  "multisig_sign h signer sig w =
     (if signer \<notin> set (ms_signers w) then (Err UnauthorizedSigner, w)
      else case map_of (ms_pending w) h of
        None \<Rightarrow> (Err TransactionNotFound, w)
      | Some tx \<Rightarrow>
          let tx1 = tx\<lparr>pt_signatures := AList.update signer sig (pt_signatures tx)\<rparr>
          in if unat (ms_threshold w) \<le> length (pt_signatures tx1) then
               (Ok True, (execute_multisig tx1 w)\<lparr>ms_pending := AList.delete h (AList.update h tx1 (ms_pending w))\<rparr>)
             else (Ok False, w\<lparr>ms_pending := AList.update h tx1 (ms_pending w)\<rparr>))"

datatype multisig_call = Ms_Submit u64 h256 "u8 list" | Ms_Sign h256 address "u8 list"

fun multisig_step :: "multisig_call \<Rightarrow> multisig_wallet \<Rightarrow> multisig_wallet" where
  "multisig_step (Ms_Submit now h data) w = snd (multisig_submit now h data w)"
| "multisig_step (Ms_Sign h a sig) w = snd (multisig_sign h a sig w)"

section \<open>Keys that are not active\<close>

definition key_of :: "key_manager \<Rightarrow> h256 \<Rightarrow> key_entry option" where
  "key_of s i = map_of (manager_keys s) i"

lemma key_of_set_metadata:
  "key_of (set_metadata j f s) i = (if i = j then map_option (\<lambda>e. e\<lparr>ke_metadata := f (ke_metadata e)\<rparr>) (key_of s j) else key_of s i)"
  by (auto simp: key_of_def set_metadata_def update_conv' split: option.split)

lemma generate_key_cases:
  obtains r where "generate_key C now f kt hw s = (r, s)" "\<not> is_ok r"
  | e where "generate_key C now f kt hw s = (Ok (fk_id f), s\<lparr>manager_keys := AList.update (fk_id f) e (manager_keys s)\<rparr>)"
      "km_status (ke_metadata e) = Key_Active" "km_hardware (ke_metadata e) = hw"
proof -
  obtain q where q: "(key_material kt hw f s, s) = (q, s)" by simp
  show thesis
  proof (cases q)
    case (Ok pp)
    obtain sk pk where pp: "pp = (sk, pk)" by (cases pp)
    show thesis
    proof (cases "if sk \<noteq> [] then encrypt_key C sk else Ok []")
      case enc: (Ok enc)
      show thesis by (rule that(2)) (use q Ok enc in \<open>auto simp: generate_key_def pp Let_def simp del: if_split\<close>)
    qed (use that(1) q Ok in \<open>auto simp: generate_key_def pp split del: if_split\<close>)
  qed (use that(1) q in \<open>auto simp: generate_key_def\<close>)
qed

lemma key_of_generate: "i \<noteq> fk_id f \<Longrightarrow> key_of (snd (generate_key C now f kt hw s)) i = key_of s i"
  by (rule generate_key_cases [of C now f kt hw s]) (auto simp: key_of_def update_conv')

text \<open>A key that exists and is not active.\<close>

definition retired :: "h256 \<Rightarrow> key_manager \<Rightarrow> bool" where
  "retired i s \<longleftrightarrow> (case key_of s i of None \<Rightarrow> False | Some e \<Rightarrow> km_status (ke_metadata e) \<noteq> Key_Active)"

lemma retired_sign: "retired i s \<Longrightarrow> key_sign C i msg s = (Err KeyNotActive, s)"
  by (auto simp: retired_def key_of_def key_sign_def split: option.splits)

lemma retired_cong: "key_of s' i = key_of s i \<Longrightarrow> retired i s' \<longleftrightarrow> retired i s"
  unfolding retired_def by simp

lemma retired_set_metadata:
  assumes "\<And>m. km_status m \<noteq> Key_Active \<Longrightarrow> km_status (f m) \<noteq> Key_Active" and "retired i s"
  shows "retired i (set_metadata j f s)"
proof -
  from assms(2) obtain e where e: "key_of s i = Some e" "km_status (ke_metadata e) \<noteq> Key_Active"
    by (auto simp: retired_def split: option.splits)
  from e(1) assms(1) [OF e(2)] e(2) show ?thesis by (cases "i = j") (simp_all add: retired_def key_of_set_metadata)
qed

lemma retired_generate: "retired i s \<Longrightarrow> fk_id f \<noteq> i \<Longrightarrow> retired i (snd (generate_key C now f kt hw s))"
  using retired_cong [OF key_of_generate [of i f C now kt hw s]] by auto

lemma retired_rotate:
  assumes "retired i s" "fk_id f \<noteq> i"
  shows "retired i (snd (rotate_key C now f j s))"
proof (cases "map_of (manager_keys s) j")
  case (Some e)
  let ?s1 = "set_metadata j (\<lambda>m. m\<lparr>km_status := Key_Rotating, km_rotated := Some now\<rparr>) s"
  have "retired i ?s1" using assms(1) by (intro retired_set_metadata) simp_all
  then have g: "retired i (snd (generate_key C now f kt hw ?s1))" for kt hw
    using assms(2) by (rule retired_generate)
  show ?thesis
    unfolding rotate_key_def Some option.case
  proof (rule snd_and_then)
    fix k s2
    assume "generate_key C now f (km_type (ke_metadata e)) (km_hardware (ke_metadata e)) ?s1 = (Ok k, s2)"
    then have "retired i s2" using g by (metis snd_conv)
    then show "retired i (snd (Ok k, set_metadata j (\<lambda>m. m\<lparr>km_status := Key_Deprecated\<rparr>) s2))"
      using retired_set_metadata [of "\<lambda>m. m\<lparr>km_status := Key_Deprecated\<rparr>" i s2 j] by simp
  qed (rule g)
qed (use assms(1) in \<open>simp add: rotate_key_def\<close>)

lemma retired_rotate_all:
  "retired i s \<Longrightarrow> \<forall>(j, f) \<in> set fs. fk_id f \<noteq> i \<Longrightarrow> retired i (snd (rotate_all C now fs s))"
proof (induction C now fs s rule: rotate_all.induct)
  case (2 C now j f fs s)
  have r: "retired i (snd (rotate_key C now f j s))" using "2.prems" by (intro retired_rotate) auto
  show ?case
    unfolding rotate_all.simps
  proof (rule snd_and_then)
    fix k s1
    assume k: "rotate_key C now f j s = (Ok k, s1)"
    with r have "retired i s1" by simp
    with "2.IH" [of s1] "2.prems"(2) have "retired i (snd (rotate_all C now fs s1))" by simp
    then show "retired i (snd (and_then (rotate_all C now fs s1) (\<lambda>js s. (Ok (k # js), s))))"
      by (cases "rotate_all C now fs s1"; cases "fst (rotate_all C now fs s1)") simp_all
  qed (rule r)
qed simp

text \<open>The random identifiers of a call are not \<open>i\<close>.\<close>

definition fresh_for :: "h256 \<Rightarrow> key_manager_call \<Rightarrow> bool" where
  "fresh_for i c \<longleftrightarrow> (case c of
     Key_Generate now f kt hw \<Rightarrow> fk_id f \<noteq> i | Key_Rotate now f j \<Rightarrow> fk_id f \<noteq> i | Key_Rotate_All now fresh kt \<Rightarrow> (\<forall>n. fk_id (fresh n) \<noteq> i)
   | Key_Recover now j shares \<Rightarrow> j \<noteq> i | _ \<Rightarrow> True)"

lemma retired_step:
  assumes "retired i s" "fresh_for i c"
  shows "retired i (key_step C c s)"
proof (cases c)
  case (Key_Generate now f kt hw)
  with assms show ?thesis by (simp add: fresh_for_def retired_generate)
next
  case (Key_Rotate now f j)
  with assms show ?thesis by (simp add: fresh_for_def retired_rotate)
next
  case (Key_Rotate_All now fresh kt)
  with assms show ?thesis
    by (auto simp: batch_rotate_def Let_def fresh_for_def intro!: retired_rotate_all dest!: set_zip_rightD)
next
  case (Key_Use j msg)
  let ?s1 = "set_metadata j (\<lambda>m. m\<lparr>km_usage := km_usage m + 1\<rparr>) s"
  have "retired i ?s1" using assms(1) by (intro retired_set_metadata) simp_all
  moreover have "snd (key_sign C j msg s) \<in> {s, ?s1}"
    by (simp add: key_sign_def Let_def decrypt_key_def split: option.split)
  ultimately show ?thesis using assms(1) by (auto simp: Key_Use)
next
  case (Key_Share now ids j n k)
  have "key_of (key_step C c s) i = key_of s i"
    by (auto simp: Key_Share create_recovery_shares_def Let_def key_of_def split: option.split)
  with assms(1) show ?thesis by (rule retired_cong [THEN iffD2, rotated])
next
  case (Key_Recover now j shares)
  have "key_of (key_step C c s) i = key_of s i"
    using assms(2) by (cases shares) (auto simp: Key_Recover recover_key_def combine_shares_def Let_def key_of_def fresh_for_def update_conv')
  with assms(1) show ?thesis by (rule retired_cong [THEN iffD2, rotated])
qed

interpretation retired_keys: invariant_of "key_step C" "\<lambda>c _. fresh_for i c" "retired i" for C i
  by unfold_locales (rule retired_step)

lemma recovered_retired: "recover_key now j shares s = (Ok j', s') \<Longrightarrow> j' = j \<and> retired j s'"
  by (auto simp: recover_key_def combine_shares_def Let_def retired_def key_of_def update_conv' split: list.splits if_splits)

text \<open>
  A recovered key never signs: whatever is done to it and to other keys after its recovery, as long as new identifiers do
  not repeat its own, a signature with it is refused because it is not active.
\<close>

theorem recovered_keys_never_sign:
  assumes "recover_key now j shares s = (Ok i, s')" and "run_ok (\<lambda>c _. fresh_for i c) (key_step C) cs s'"
  shows "fst (key_sign C i msg (run (key_step C) cs s')) = Err KeyNotActive"
proof -
  have "retired i s'" using recovered_retired [OF assms(1)] by simp
  then have "retired i (run (key_step C) cs s')" by (rule retired_keys.inv_run [OF _ assms(2)])
  then show ?thesis by (simp add: retired_sign)
qed

definition sample_recovery_share :: recovery_share where
  "sample_recovery_share = \<lparr> rs_id = 1, rs_key = 2, rs_index = 0, rs_share = [5], rs_validator = 0 \<rparr>"

definition sample_key_config :: key_management_config where
  "sample_key_config = \<lparr> rotation_interval_days = 30, key_derivation_iterations = 1, backup_threshold = 2, recovery_threshold = 2 \<rparr>"

definition plain_crypto :: key_crypto where
  "plain_crypto = \<lparr> kc_encrypt = Some, kc_decrypt = Some, kc_sign = (\<lambda>k m. take 2 k @ m), kc_sha3 = id \<rparr>"

theorem recovered_keys_never_sign_witness:
  "fst (recover_key 0 9 [sample_recovery_share] (key_manager_new sample_key_config)) = Ok 9
   \<and> fst (key_sign plain_crypto 9 [1] (run (key_step plain_crypto) [Key_Use 9 [3]] (snd (recover_key 0 9 [sample_recovery_share] (key_manager_new sample_key_config)))))
       = Err KeyNotActive"
proof -
  obtain s' where s': "recover_key 0 9 [sample_recovery_share] (key_manager_new sample_key_config) = (Ok 9, s')"
    by (simp add: recover_key_def combine_shares_def)
  have "run_ok (\<lambda>c _. fresh_for 9 c) (key_step plain_crypto) [Key_Use 9 [3]] s'" by (simp add: fresh_for_def)
  from recovered_keys_never_sign [OF s' this] s' show ?thesis by simp
qed

section \<open>Shares, software keys and flags\<close>

text \<open>
  The threshold of the recovery means nothing: whatever it is, any one of the shares that were made of a software key
  recovers the encrypted key.
\<close>

theorem one_share_is_enough:
  assumes "create_recovery_shares C now ids i n k s = (Ok shares, s')" and "x \<in> set shares"
    and "map_of (manager_keys s) i = Some e" and "\<not> km_hardware (ke_metadata e)"
  shows "\<exists>s''. recover_key now' j [x] s' = (Ok j, s'') \<and> map_option ke_encrypted (map_of (manager_keys s'') j) = Some (ke_encrypted e)"
proof -
  have "shares = map (\<lambda>(m, y). \<lparr> rs_id = ids m, rs_key = i, rs_index = word_of_nat m, rs_share = y, rs_validator = 0 \<rparr>)
      (zip [0..<unat n] (replicate (unat n) (ke_encrypted e)))"
    using assms(1,3,4) by (auto simp: create_recovery_shares_def Let_def split_secret_def split: if_splits)
  with assms(2) have "rs_share x = ke_encrypted e" by (auto dest: set_zip_rightD)
  then show ?thesis by (simp add: recover_key_def combine_shares_def Let_def update_conv')
qed

definition sample_fresh :: fresh_key where
  "sample_fresh = \<lparr> fk_id = 4, fk_private = replicate 32 7, fk_public = [8] \<rparr>"

definition sample_manager :: key_manager where
  "sample_manager = snd (generate_key plain_crypto 0 sample_fresh Key_Signing False (key_manager_new sample_key_config))"

lemma sample_manager_key:
  "\<exists>e. map_of (manager_keys sample_manager) 4 = Some e \<and> \<not> km_hardware (ke_metadata e) \<and> ke_encrypted e = replicate 32 7"
  by (simp add: sample_manager_def generate_key_def key_material_def encrypt_key_def plain_crypto_def sample_fresh_def key_manager_new_def Let_def)

theorem one_share_is_enough_witness:
  "\<exists>shares s' x s''. create_recovery_shares plain_crypto 0 word_of_nat 4 5 3 sample_manager = (Ok shares, s') \<and> x \<in> set shares
     \<and> recover_key 1 9 [x] s' = (Ok 9, s'') \<and> map_option ke_encrypted (map_of (manager_keys s'') 9) = Some (replicate 32 7)"
proof -
  obtain e where e: "map_of (manager_keys sample_manager) 4 = Some e" "\<not> km_hardware (ke_metadata e)" "ke_encrypted e = replicate 32 7"
    using sample_manager_key by blast
  obtain shares s' where s: "create_recovery_shares plain_crypto 0 word_of_nat 4 5 3 sample_manager = (Ok shares, s')"
    by (simp add: create_recovery_shares_def e Let_def)
  then have "shares \<noteq> []" by (auto simp: create_recovery_shares_def e Let_def split_secret_def upt_rec)
  then have "hd shares \<in> set shares" by simp
  from one_share_is_enough [OF s this e(1,2), of 1 9] s this e(3) show ?thesis by metis
qed

text \<open>A key that was just made in software signs with its private part.\<close>

lemma software_keys_sign:
  assumes "generate_key C now f kt False s = (Ok i, s')" "length (fk_private f) = 32"
    and "\<And>c. kc_encrypt C (fk_private f) = Some c \<Longrightarrow> kc_decrypt C c = Some (fk_private f)"
  shows "fst (key_sign C i msg s') = Ok (kc_sign C (fk_private f) msg)"
proof -
  have "fk_private f \<noteq> []" using assms(2) by auto
  with assms show ?thesis
    by (auto simp: generate_key_def key_material_def encrypt_key_def Let_def key_sign_def update_conv' decrypt_key_def split: option.splits)
qed

text \<open>A key that is asked for in hardware when there is none is made in software, flagged as hardware, and never signs.\<close>

lemma missing_hardware_makes_dead_keys:
  assumes "hardware_interface s = None" "generate_key C now f kt True s = (Ok i, s')"
  shows "fst (key_sign C i msg s') = Err HardwareNotAvailable"
  using assms
  by (auto simp: generate_key_def key_material_def encrypt_key_def Let_def key_sign_def update_conv' split: if_splits option.splits)

text \<open>A rotation whose new key cannot be made leaves the old one rotating, which is not active either.\<close>

lemma failed_rotation_retires_the_key:
  assumes "map_of (manager_keys s) i = Some e" "\<not> is_ok (fst (rotate_key C now f i s))" "fk_id f \<noteq> i"
  shows "retired i (snd (rotate_key C now f i s))"
proof -
  let ?s1 = "set_metadata i (\<lambda>m. m\<lparr>km_status := Key_Rotating, km_rotated := Some now\<rparr>) s"
  have "key_of s i = Some e" using assms(1) by (simp add: key_of_def)
  then have r: "retired i ?s1" by (simp add: retired_def key_of_set_metadata)
  show ?thesis
  proof (cases rule: generate_key_cases [of C now f "km_type (ke_metadata e)" "km_hardware (ke_metadata e)" ?s1])
    case (1 q)
    with r assms(1) show ?thesis by (cases q) (simp_all add: rotate_key_def)
  next
    case (2 n)
    with assms(1,2) show ?thesis by (simp add: rotate_key_def)
  qed
qed

section \<open>What a multi-signature wallet executes\<close>

definition signed_by :: "address list \<Rightarrow> pending_transaction \<Rightarrow> bool" where
  "signed_by signers tx \<longleftrightarrow> distinct (map fst (pt_signatures tx)) \<and> fst ` set (pt_signatures tx) \<subseteq> set signers"

definition multisig_wf :: "address list \<Rightarrow> u32 \<Rightarrow> multisig_wallet \<Rightarrow> bool" where
  "multisig_wf signers t w \<longleftrightarrow> ms_signers w = signers \<and> ms_threshold w = t \<and> 0 < unat t \<and>
     (\<forall>x \<in> set (ms_pending w). signed_by signers (snd x) \<and> length (pt_signatures (snd x)) < unat t) \<and>
     (\<forall>tx \<in> set (ms_executed w). signed_by signers tx \<and> length (pt_signatures tx) = unat t)"

lemma set_alist_delete_sub: "set (AList.delete k m) \<subseteq> set m"
  by (induction m) auto

lemma alist_delete_update: "AList.delete k (AList.update k v m) = AList.delete k m"
  by (induction m) auto

lemma multisig_wf_pending:
  assumes "multisig_wf signers t w" "signed_by signers tx" "length (pt_signatures tx) < unat t"
  shows "multisig_wf signers t (w\<lparr>ms_pending := AList.update h tx (ms_pending w)\<rparr>)"
proof -
  have "\<forall>x \<in> set (AList.update h tx (ms_pending w)). signed_by signers (snd x) \<and> length (pt_signatures (snd x)) < unat t"
  proof
    fix x
    assume "x \<in> set (AList.update h tx (ms_pending w))"
    then have "x = (h, tx) \<or> x \<in> set (ms_pending w)" using set_update_sub by fastforce
    with assms show "signed_by signers (snd x) \<and> length (pt_signatures (snd x)) < unat t" by (auto simp: multisig_wf_def)
  qed
  with assms(1) show ?thesis by (simp add: multisig_wf_def)
qed

lemma multisig_wf_executed:
  assumes "multisig_wf signers t w" "signed_by signers tx" "length (pt_signatures tx) = unat t"
  shows "multisig_wf signers t ((execute_multisig tx w)\<lparr>ms_pending := AList.delete h (ms_pending w)\<rparr>)"
proof -
  have "\<forall>x \<in> set (AList.delete h (ms_pending w)). signed_by signers (snd x) \<and> length (pt_signatures (snd x)) < unat t"
    using assms(1) set_alist_delete_sub [of h "ms_pending w"] unfolding multisig_wf_def by blast
  with assms show ?thesis by (simp add: multisig_wf_def execute_multisig_def)
qed

lemma multisig_wf_step: "multisig_wf signers t w \<Longrightarrow> multisig_wf signers t (multisig_step c w)"
proof (cases c)
  case (Ms_Submit now h data)
  assume wf: "multisig_wf signers t w"
  then have "0 < unat t" by (simp add: multisig_wf_def)
  with wf show ?thesis by (simp add: Ms_Submit multisig_submit_def multisig_wf_pending signed_by_def)
next
  case (Ms_Sign h a sig)
  assume wf: "multisig_wf signers t w"
  show ?thesis
  proof (cases "a \<in> set (ms_signers w) \<and> map_of (ms_pending w) h \<noteq> None")
    case False
    then have "multisig_step c w = w" by (cases "map_of (ms_pending w) h") (simp_all add: Ms_Sign multisig_sign_def split: if_splits)
    with wf show ?thesis by simp
  next
    case True
    then obtain tx where tx: "map_of (ms_pending w) h = Some tx" and a: "a \<in> set signers" using wf by (auto simp: multisig_wf_def)
    define tx1 where "tx1 = tx\<lparr>pt_signatures := AList.update a sig (pt_signatures tx)\<rparr>"
    have t: "ms_threshold w = t" using wf by (simp add: multisig_wf_def)
    have old: "signed_by signers tx" "length (pt_signatures tx) < unat t"
      using wf map_of_SomeD [OF tx] by (force simp: multisig_wf_def)+
    have "signed_by signers tx1" using old(1) a by (auto simp: signed_by_def tx1_def distinct_update dom_update)
    moreover have "length (pt_signatures tx1) \<le> unat t" using old(2) length_update_le [of a sig "pt_signatures tx"] by (simp add: tx1_def)
    ultimately show ?thesis
      using wf True tx
      by (simp add: Ms_Sign multisig_sign_def Let_def t alist_delete_update multisig_wf_pending multisig_wf_executed flip: tx1_def)
  qed
qed

interpretation multisig_runs: invariant_of multisig_step "\<lambda>_ _. True" "multisig_wf signers t" for signers t
  by unfold_locales (rule multisig_wf_step)

text \<open>
  C26: in every run of a multi-signature wallet each executed transaction carries the signatures of exactly as many different
  signers of the wallet as its threshold asks for. (What the signatures are is never looked at.)
\<close>

theorem multisig_executes_at_the_threshold:
  assumes "multisig_new i signers t = Ok w" and "tx \<in> set (ms_executed (run multisig_step cs w))"
  shows "distinct (map fst (pt_signatures tx)) \<and> set (map fst (pt_signatures tx)) \<subseteq> set signers \<and> length (pt_signatures tx) = unat t"
proof -
  have "multisig_wf signers t w"
    using assms(1) by (auto simp: multisig_new_def multisig_wf_def unat_gt_0 split: if_splits)
  then have "multisig_wf signers t (run multisig_step cs w)" by (rule multisig_runs.inv_run [OF _ run_ok_always])
  with assms(2) have "signed_by signers tx \<and> length (pt_signatures tx) = unat t" by (simp add: multisig_wf_def)
  then show ?thesis by (simp add: signed_by_def)
qed

theorem multisig_executes_at_the_threshold_witness:
  "\<exists>w tx. multisig_new 0 [1, 2, 3] 2 = Ok w
     \<and> ms_executed (run multisig_step [Ms_Submit 0 7 [5], Ms_Sign 7 1 [], Ms_Sign 7 1 [9], Ms_Sign 7 3 []] w) = [tx]
     \<and> length (pt_signatures tx) = 2"
proof -
  obtain w where w: "multisig_new 0 [1, 2, 3] 2 = Ok w" by (simp add: multisig_new_def)
  let ?cs = "[Ms_Submit 0 7 [5], Ms_Sign 7 1 [], Ms_Sign 7 1 [9], Ms_Sign 7 3 []]"
  obtain tx where tx: "ms_executed (run multisig_step ?cs w) = [tx]"
    using w by (auto simp: multisig_new_def multisig_submit_def multisig_sign_def execute_multisig_def Let_def)
  with multisig_executes_at_the_threshold [OF w, of tx ?cs] w show ?thesis by auto
qed

end
