(* ===== verification/Hyperliquid.thy ===== *)
theory Hyperliquid
  imports DefiErrors TxBytes
begin

text \<open>
  The connector to the external exchange, \<^verbatim>\<open>src/hyperliquid\<close>: the rate limiter of the client (\<^verbatim>\<open>api.rs\<close>), the connector
  with its markets, orders and positions (\<^verbatim>\<open>connector.rs\<close>) and the order manager on top of it (\<^verbatim>\<open>order_manager.rs\<close>). What the
  exchange answers, the clock, random identifiers and the way a hash is printed are arguments. The margin fractions of a
  market are floating-point constants that no code reads, and left out.
\<close>

section \<open>Errors\<close>

datatype hl_error =
    HL_Api string | HL_Connection | HL_Invalid_Symbol | HL_Insufficient_Balance | HL_Invalid_Leverage | HL_Order_Not_Found
  | HL_Position_Not_Found | HL_Spot_Disabled | HL_Vault_Disabled | HL_Rate_Limit | HL_Unauthorized | HL_Network

fun defi_error_of :: "hl_error \<Rightarrow> defi_error" where
  "defi_error_of HL_Insufficient_Balance = Insufficient_Balance"
| "defi_error_of HL_Invalid_Leverage = Excessive_Leverage"
| "defi_error_of HL_Position_Not_Found = Position_Not_Found"
| "defi_error_of HL_Unauthorized = Not_Authorized"
| "defi_error_of _ = Oracle_Error"

section \<open>The rate limiter and the requests\<close>

record rate_limiter =
  max_requests :: u32
  window_seconds :: u64
  requests :: "u64 list"

definition limiter_new :: "u32 \<Rightarrow> u64 \<Rightarrow> rate_limiter" where
  "limiter_new m w = \<lparr> max_requests = m, window_seconds = w, requests = [] \<rparr>"

definition check_rate_limit :: "u64 \<Rightarrow> rate_limiter \<Rightarrow> (hl_error, unit) outcome \<times> rate_limiter" where
  "check_rate_limit now l =
     (let kept = filter (\<lambda>t. now - t < window_seconds l) (requests l)
      in if unat (max_requests l) \<le> length kept then (Err HL_Rate_Limit, l\<lparr>requests := kept\<rparr>)
         else (Ok (), l\<lparr>requests := kept @ [now]\<rparr>))"

text \<open>A request passes the limiter and gives the answer of the exchange; one that is signed passes it twice.\<close>

definition make_request :: "u64 \<Rightarrow> (hl_error, 'a) outcome \<Rightarrow> rate_limiter \<Rightarrow> (hl_error, 'a) outcome \<times> rate_limiter" where
  "make_request now answer l = and_then (check_rate_limit now l) (\<lambda>_ l. (answer, l))"

definition signed_request :: "u64 \<Rightarrow> (hl_error, 'a) outcome \<Rightarrow> rate_limiter \<Rightarrow> (hl_error, 'a) outcome \<times> rate_limiter" where
  "signed_request now answer l = and_then (check_rate_limit now l) (\<lambda>_ l. make_request now answer l)"

section \<open>Numbers in answers\<close>

text \<open>\<^verbatim>\<open>U256::from_dec_str\<close> and \<^verbatim>\<open>str::parse::<i128>\<close>.\<close>

fun read_digits :: "nat \<Rightarrow> string \<Rightarrow> nat option" where
  "read_digits n [] = Some n"
| "read_digits n (c # cs) =
     (if 48 \<le> (of_char c :: nat) \<and> (of_char c :: nat) \<le> 57 then read_digits (10 * n + (of_char c - 48)) cs else None)"

definition from_dec_str :: "string \<Rightarrow> u256 option" where
  "from_dec_str s = (case read_digits 0 s of None \<Rightarrow> None | Some n \<Rightarrow> if n < 2 ^ 256 then Some (word_of_nat n) else None)"

definition parse_magnitude :: "nat \<Rightarrow> string \<Rightarrow> nat option" where
  "parse_magnitude bound s =
     (if s = [] then None else case read_digits 0 s of None \<Rightarrow> None | Some n \<Rightarrow> if n < bound then Some n else None)"

fun parse_i128 :: "string \<Rightarrow> u128 option" where
  "parse_i128 [] = None"
| "parse_i128 (c # s) =
     (if c = CHR ''-'' then map_option (\<lambda>n. - word_of_nat n) (parse_magnitude (2 ^ 127 + 1) s)
      else if c = CHR ''+'' then map_option word_of_nat (parse_magnitude (2 ^ 127) s)
      else map_option word_of_nat (parse_magnitude (2 ^ 127) (c # s)))"

definition dec_or_zero :: "string \<Rightarrow> u256" where
  "dec_or_zero s = (case from_dec_str s of Some v \<Rightarrow> v | None \<Rightarrow> 0)"

definition i128_or_zero :: "string \<Rightarrow> u128" where
  "i128_or_zero s = (case parse_i128 s of Some v \<Rightarrow> v | None \<Rightarrow> 0)"

text \<open>\<^verbatim>\<open>U256::as_u32\<close> panics when the value does not fit.\<close>

definition as_u32 :: "u256 \<Rightarrow> u32 option" where
  "as_u32 a = (if unat a < 2 ^ 32 then Some (ucast a) else None)"

section \<open>What the exchange answers\<close>

record position_data =
  pd_coin :: string
  pd_szi :: string
  pd_leverage :: u32
  pd_entry_px :: "string option"
  pd_mark_px :: string
  pd_unrealized_pnl :: string
  pd_realized_pnl :: string
  pd_since_open :: string

record user_state =
  us_account_value :: string
  us_total_margin_used :: string
  us_asset_positions :: "position_data list"

record asset_meta =
  am_name :: string
  am_sz_decimals :: u32

section \<open>Markets, orders and positions\<close>

datatype hl_side = Side_Buy | Side_Sell

datatype perp_order_type = OT_Market | OT_Limit | OT_StopLoss | OT_TakeProfit | OT_TrailingStop u32

datatype hl_order_type = HO_Market | HO_Limit | HO_Stop | HO_StopLimit | HO_TakeProfit | HO_TakeProfitLimit | HO_TrailingStop

datatype hl_order_status = HS_Pending | HS_Open | HS_PartiallyFilled | HS_Filled | HS_Cancelled | HS_Rejected | HS_Expired

datatype time_in_force = GoodTillCancel | ImmediateOrCancel | FillOrKill | PostOnly | GoodTillTime u64

record hl_market =
  hm_symbol :: string
  hm_base_asset :: string
  hm_quote_asset :: string
  hm_asset_id :: u32
  hm_max_leverage :: u32
  hm_min_size :: u256
  hm_size_increment :: u256
  hm_price_precision :: u32
  hm_maker_fee :: u64
  hm_taker_fee :: u64

record hl_order =
  ho_id :: u64
  ho_client_id :: "string option"
  ho_account :: address
  ho_symbol :: string
  ho_side :: hl_side
  ho_type :: hl_order_type
  ho_size :: u256
  ho_price :: "u256 option"
  ho_filled :: u256
  ho_average_price :: "u256 option"
  ho_status :: hl_order_status
  ho_reduce_only :: bool
  ho_post_only :: bool
  ho_time_in_force :: time_in_force
  ho_created :: u64
  ho_updated :: u64

record hl_position =
  hp_id :: h256
  hp_account :: address
  hp_symbol :: string
  hp_size :: u256
  hp_entry_price :: u256
  hp_mark_price :: u256
  hp_liquidation_price :: u256
  hp_unrealized_pnl :: u128
  hp_realized_pnl :: u128
  hp_margin :: u256
  hp_leverage :: u32
  hp_is_long :: bool
  hp_funding_accrued :: u128
  hp_last_funding :: u64
  hp_created :: u64
  hp_updated :: u64

record account_info =
  ai_address :: address
  ai_balance :: u256
  ai_margin_used :: u256
  ai_available_margin :: u256
  ai_unrealized_pnl :: u128
  ai_realized_pnl :: u128
  ai_total_positions :: u32
  ai_leverage :: u32

record risk_metrics =
  rm_account :: address
  rm_total_exposure :: u256
  rm_margin_ratio :: u32
  rm_leverage :: u32
  rm_unrealized_pnl :: u128
  rm_realized_pnl :: u128
  rm_liquidation_price :: "u256 option"
  rm_health_factor :: u32
  rm_var_95 :: u256
  rm_max_drawdown :: u64

section \<open>The connector\<close>

record connector =
  hc_limiter :: rate_limiter
  hc_markets :: "(string \<times> hl_market) list"
  hc_positions :: "(address \<times> hl_position list) list"
  hc_orders :: "(address \<times> hl_order list) list"

text \<open>A request of the connector goes through its client.\<close>

definition connector_request ::
  "(rate_limiter \<Rightarrow> (hl_error, 'a) outcome \<times> rate_limiter) \<Rightarrow> connector \<Rightarrow> (hl_error, 'a) outcome \<times> connector" where
  "connector_request f c = (case f (hc_limiter c) of (r, l) \<Rightarrow> (r, c\<lparr>hc_limiter := l\<rparr>))"

definition market_of :: "nat \<Rightarrow> asset_meta \<Rightarrow> hl_market" where
  "market_of n a = \<lparr> hm_symbol = am_name a, hm_base_asset = am_name a, hm_quote_asset = ''USDC'',
     hm_asset_id = word_of_nat n, hm_max_leverage = 50, hm_min_size = 1, hm_size_increment = 1,
     hm_price_precision = am_sz_decimals a, hm_maker_fee = - 2, hm_taker_fee = 5 \<rparr>"

text \<open>The identifier of an asset is the number of markets so far.\<close>

fun load_markets :: "asset_meta list \<Rightarrow> (string \<times> hl_market) list \<Rightarrow> (string \<times> hl_market) list" where
  "load_markets [] m = m"
| "load_markets (a # as) m = load_markets as (AList.update (am_name a) (market_of (length m) a) m)"

definition connector_new :: "u64 \<Rightarrow> (hl_error, asset_meta list) outcome \<Rightarrow> (hl_error, connector) outcome" where
  "connector_new now answer =
     (case make_request now answer (limiter_new 100 60) of
        (Ok universe, l) \<Rightarrow> Ok \<lparr> hc_limiter = l, hc_markets = load_markets universe [], hc_positions = [], hc_orders = [] \<rparr>
      | (Err e, l) \<Rightarrow> Err e
      | (Panic, l) \<Rightarrow> Panic
      | (Hang, l) \<Rightarrow> Hang)"

definition get_market :: "string \<Rightarrow> connector \<Rightarrow> (hl_error, hl_market) outcome \<times> connector" where
  "get_market symbol c =
     (case map_of (hc_markets c) symbol of None \<Rightarrow> (Err HL_Invalid_Symbol, c) | Some m \<Rightarrow> (Ok m, c))"

definition account_info_of :: "address \<Rightarrow> user_state \<Rightarrow> account_info option" where
  "account_info_of account u =
     (let value = dec_or_zero (us_account_value u);
          used = dec_or_zero (us_total_margin_used u);
          info = (\<lambda>lev. \<lparr> ai_address = account, ai_balance = value, ai_margin_used = used,
            ai_available_margin = (if used < value then value - used else 0),
            ai_unrealized_pnl = sum_list (map (\<lambda>p. i128_or_zero (pd_unrealized_pnl p)) (us_asset_positions u)),
            ai_realized_pnl = sum_list (map (\<lambda>p. i128_or_zero (pd_realized_pnl p)) (us_asset_positions u)),
            ai_total_positions = word_of_nat (length (us_asset_positions u)), ai_leverage = lev \<rparr>)
      in if 0 < value then do { x \<leftarrow> umul used 100; lev \<leftarrow> as_u32 (x div value); Some (info lev) } else Some (info 0))"

definition get_account_info ::
  "u64 \<Rightarrow> (hl_error, user_state) outcome \<Rightarrow> address \<Rightarrow> connector \<Rightarrow> (hl_error, account_info) outcome \<times> connector" where
  "get_account_info now answer account c =
     and_then (connector_request (make_request now answer) c) (\<lambda>u c.
       or_panic c (account_info_of account u) (\<lambda>i. (Ok i, c)))"

definition hl_liquidation_price :: "u256 \<Rightarrow> bool \<Rightarrow> u32 \<Rightarrow> u256 option" where
  "hl_liquidation_price entry is_long leverage =
     (if leverage = 0 then Some 0
      else do {
        x \<leftarrow> umul entry 100;
        d \<leftarrow> umul (ucast leverage) 10000;
        change \<leftarrow> udiv x d;
        if is_long then Some (if change < entry then entry - change else 0) else uadd entry change
      })"

definition position_margin :: "u256 \<Rightarrow> u256 \<Rightarrow> u32 \<Rightarrow> u256 option" where
  "position_margin sz entry leverage = (if 0 < leverage then do { x \<leftarrow> umul sz entry; udiv x (ucast leverage) } else Some 0)"

definition position_size :: "position_data \<Rightarrow> u256" where
  "position_size p = dec_or_zero (filter (\<lambda>c. c \<noteq> CHR ''-'') (pd_szi p))"

definition hl_position_of :: "u64 \<Rightarrow> address \<Rightarrow> h256 \<Rightarrow> position_data \<Rightarrow> hl_position option" where
  "hl_position_of now account i p =
     (let sz = position_size p;
          is_long = take 1 (pd_szi p) \<noteq> ''-'';
          entry = (case pd_entry_px p of None \<Rightarrow> 0 | Some px \<Rightarrow> dec_or_zero px)
      in do {
        margin \<leftarrow> position_margin sz entry (pd_leverage p);
        liq \<leftarrow> hl_liquidation_price entry is_long (pd_leverage p);
        Some \<lparr> hp_id = i, hp_account = account, hp_symbol = pd_coin p, hp_size = sz, hp_entry_price = entry,
          hp_mark_price = dec_or_zero (pd_mark_px p), hp_liquidation_price = liq,
          hp_unrealized_pnl = i128_or_zero (pd_unrealized_pnl p), hp_realized_pnl = i128_or_zero (pd_realized_pnl p),
          hp_margin = margin, hp_leverage = pd_leverage p, hp_is_long = is_long,
          hp_funding_accrued = i128_or_zero (pd_since_open p), hp_last_funding = 0, hp_created = 0, hp_updated = now \<rparr>
      })"

text \<open>Positions of size zero are left out; \<open>ids n\<close> is the random identifier made for the \<open>n\<close>-th of the answer.\<close>

fun positions_of :: "u64 \<Rightarrow> address \<Rightarrow> (nat \<Rightarrow> h256) \<Rightarrow> nat \<Rightarrow> position_data list \<Rightarrow> hl_position list option" where
  "positions_of now account ids n [] = Some []"
| "positions_of now account ids n (p # ps) =
     (if position_size p = 0 then positions_of now account ids (Suc n) ps
      else do { x \<leftarrow> hl_position_of now account (ids n) p; xs \<leftarrow> positions_of now account ids (Suc n) ps; Some (x # xs) })"

definition get_positions ::
  "u64 \<Rightarrow> (hl_error, user_state) outcome \<Rightarrow> (nat \<Rightarrow> h256) \<Rightarrow> address \<Rightarrow> connector \<Rightarrow>
     (hl_error, hl_position list) outcome \<times> connector" where
  "get_positions now answer ids account c =
     and_then (connector_request (make_request now answer) c) (\<lambda>u c.
       or_panic c (positions_of now account ids 0 (us_asset_positions u)) (\<lambda>ps.
         (Ok ps, c\<lparr>hc_positions := AList.update account ps (hc_positions c)\<rparr>)))"

definition adjust_leverage ::
  "u64 \<Rightarrow> (u32 \<Rightarrow> (hl_error, unit) outcome) \<Rightarrow> string \<Rightarrow> u32 \<Rightarrow> connector \<Rightarrow> (hl_error, unit) outcome \<times> connector" where
  "adjust_leverage now answer symbol leverage c =
     and_then (get_market symbol c) (\<lambda>m c.
       if hm_max_leverage m < leverage then (Err HL_Invalid_Leverage, c)
       else connector_request (signed_request now (answer (hm_asset_id m))) c)"

definition orders_of :: "address \<Rightarrow> connector \<Rightarrow> hl_order list" where
  "orders_of account c = (case map_of (hc_orders c) account of None \<Rightarrow> [] | Some os \<Rightarrow> os)"

definition hl_cancel_order ::
  "u64 \<Rightarrow> (u32 \<Rightarrow> u64 \<Rightarrow> (hl_error, unit) outcome) \<Rightarrow> address \<Rightarrow> u64 \<Rightarrow> connector \<Rightarrow> (hl_error, unit) outcome \<times> connector" where
  "hl_cancel_order now answer account i c =
     (case find (\<lambda>x. ho_id x = i) (orders_of account c) of
        None \<Rightarrow> (Err HL_Order_Not_Found, c)
      | Some x \<Rightarrow>
          and_then (get_market (ho_symbol x) c) (\<lambda>m c.
            and_then (connector_request (signed_request now (answer (hm_asset_id m) i)) c) (\<lambda>_ c.
              (Ok (), c\<lparr>hc_orders := AList.update account (filter (\<lambda>y. ho_id y \<noteq> i) (orders_of account c)) (hc_orders c)\<rparr>))))"

definition cancel_all_orders ::
  "u64 \<Rightarrow> (u32 \<Rightarrow> u64 \<Rightarrow> (hl_error, unit) outcome) \<Rightarrow> address \<Rightarrow> connector \<Rightarrow> (hl_error, unit) outcome \<times> connector" where
  "cancel_all_orders now answer account c =
     (Ok (), fold (\<lambda>x c. snd (hl_cancel_order now answer account (ho_id x) c)) (orders_of account c) c)"

fun put_first :: "('a \<Rightarrow> bool) \<Rightarrow> 'a \<Rightarrow> 'a list \<Rightarrow> 'a list" where
  "put_first P x [] = [x]"
| "put_first P x (y # ys) = (if P y then x # ys else y # put_first P x ys)"

definition update_order_cache :: "address \<Rightarrow> hl_order \<Rightarrow> connector \<Rightarrow> connector" where
  "update_order_cache account x c =
     c\<lparr>hc_orders := AList.update account (put_first (\<lambda>y. ho_id y = ho_id x) x (orders_of account c)) (hc_orders c)\<rparr>"

definition update_position_cache :: "address \<Rightarrow> hl_position \<Rightarrow> connector \<Rightarrow> connector" where
  "update_position_cache account x c =
     c\<lparr>hc_positions := AList.update account
        (put_first (\<lambda>y. hp_symbol y = hp_symbol x) x (case map_of (hc_positions c) account of None \<Rightarrow> [] | Some ps \<Rightarrow> ps))
        (hc_positions c)\<rparr>"

definition remove_position_from_cache :: "address \<Rightarrow> string \<Rightarrow> connector \<Rightarrow> connector" where
  "remove_position_from_cache account symbol c =
     (case map_of (hc_positions c) account of
        None \<Rightarrow> c
      | Some ps \<Rightarrow> c\<lparr>hc_positions := AList.update account (filter (\<lambda>y. hp_symbol y \<noteq> symbol) ps) (hc_positions c)\<rparr>)"

fun exposures :: "hl_position list \<Rightarrow> u256 list option" where
  "exposures [] = Some []"
| "exposures (p # ps) = do { x \<leftarrow> umul (hp_size p) (hp_mark_price p); xs \<leftarrow> exposures ps; Some (x # xs) }"

definition risk_of :: "address \<Rightarrow> account_info \<Rightarrow> hl_position list \<Rightarrow> risk_metrics option" where
  "risk_of account i ps = do {
     xs \<leftarrow> exposures ps;
     exposure \<leftarrow> sum_checked 0 xs;
     ratio \<leftarrow> (if 0 < ai_balance i then do { x \<leftarrow> umul (ai_margin_used i) 10000; as_u32 (x div ai_balance i) } else Some 0);
     v \<leftarrow> umul exposure 200;
     Some \<lparr> rm_account = account, rm_total_exposure = exposure, rm_margin_ratio = ratio, rm_leverage = ai_leverage i,
       rm_unrealized_pnl = ai_unrealized_pnl i, rm_realized_pnl = ai_realized_pnl i,
       rm_liquidation_price = (let ls = map hp_liquidation_price (filter hp_is_long ps) in if ls = [] then None else Some (Min (set ls))),
       rm_health_factor = (if 0 < ratio then 1000000 div ratio else 10000), rm_var_95 = v div 10000, rm_max_drawdown = 0 \<rparr>
   }"

definition get_account_risk_metrics ::
  "u64 \<Rightarrow> (hl_error, user_state) outcome \<Rightarrow> (hl_error, user_state) outcome \<Rightarrow> (nat \<Rightarrow> h256) \<Rightarrow> address \<Rightarrow> connector \<Rightarrow>
     (hl_error, risk_metrics) outcome \<times> connector" where
  "get_account_risk_metrics now answer answer' ids account c =
     and_then (get_account_info now answer account c) (\<lambda>i c.
       and_then (get_positions now answer' ids account c) (\<lambda>ps c.
         or_panic c (risk_of account i ps) (\<lambda>r. (Ok r, c))))"

section \<open>The order manager\<close>

record pending_order =
  po_account :: address
  po_order_id :: u64
  po_symbol :: string
  po_submitted :: u64

record order_manager =
  om_connector :: connector
  om_pending :: "pending_order list"

definition order_manager_new :: "connector \<Rightarrow> order_manager" where
  "order_manager_new c = \<lparr> om_connector = c, om_pending = [] \<rparr>"

definition with_connector ::
  "(connector \<Rightarrow> (hl_error, 'a) outcome \<times> connector) \<Rightarrow> order_manager \<Rightarrow> (hl_error, 'a) outcome \<times> order_manager" where
  "with_connector f s = (case f (om_connector s) of (r, c) \<Rightarrow> (r, s\<lparr>om_connector := c\<rparr>))"

fun convert_order_type :: "perp_order_type \<Rightarrow> hl_order_type" where
  "convert_order_type OT_Market = HO_Market"
| "convert_order_type OT_Limit = HO_Limit"
| "convert_order_type OT_StopLoss = HO_Stop"
| "convert_order_type OT_TakeProfit = HO_TakeProfit"
| "convert_order_type (OT_TrailingStop _) = HO_TrailingStop"

text \<open>
  What an operation takes from outside: the clock in seconds and in nanoseconds (the identifier of the order), the answer about
  the account and the random hash that stands for a transaction of the exchange.
\<close>

record order_ticket =
  tk_now :: u64
  tk_nanos :: u64
  tk_answer :: "(hl_error, user_state) outcome"
  tk_hash :: h256

definition new_order ::
  "order_ticket \<Rightarrow> string \<Rightarrow> address \<Rightarrow> string \<Rightarrow> bool \<Rightarrow> hl_order_type \<Rightarrow> u256 \<Rightarrow> u256 option \<Rightarrow> hl_order" where
  "new_order t client account symbol buy ty sz price = \<lparr> ho_id = tk_nanos t, ho_client_id = Some client, ho_account = account,
     ho_symbol = symbol, ho_side = (if buy then Side_Buy else Side_Sell), ho_type = ty, ho_size = sz, ho_price = price,
     ho_filled = 0, ho_average_price = None, ho_status = HS_Pending, ho_reduce_only = False, ho_post_only = False,
     ho_time_in_force = GoodTillCancel, ho_created = tk_now t, ho_updated = tk_now t \<rparr>"

definition order_value :: "u256 \<Rightarrow> u256 option \<Rightarrow> u256 option" where
  "order_value sz price = umul sz (case price of None \<Rightarrow> 1 | Some p \<Rightarrow> p)"

definition place_order ::
  "order_ticket \<Rightarrow> address \<Rightarrow> string \<Rightarrow> u256 \<Rightarrow> u32 \<Rightarrow> bool \<Rightarrow> perp_order_type \<Rightarrow> u256 option \<Rightarrow> order_manager \<Rightarrow>
     (hl_error, h256) outcome \<times> order_manager" where
  "place_order t account symbol sz leverage is_long ty price s =
     and_then (with_connector (get_market symbol) s) (\<lambda>m s.
       if hm_max_leverage m < leverage then (Err HL_Invalid_Leverage, s)
       else if sz < hm_min_size m then (Err (HL_Api ''Order size below minimum''), s)
       else and_then (with_connector (get_account_info (tk_now t) (tk_answer t) account) s) (\<lambda>i s.
         or_panic s (do { v \<leftarrow> order_value sz price; udiv v (ucast leverage) }) (\<lambda>required.
           if ai_available_margin i < required then (Err HL_Insufficient_Balance, s)
           else
             let x = (new_order t (''order_'' @ show_nat (unat (tk_nanos t))) account symbol is_long (convert_order_type ty) sz price)
                       \<lparr>ho_post_only := (ty = OT_Limit)\<rparr>
             in (Ok (tk_hash t), s\<lparr>om_connector := update_order_cache account x (om_connector s),
                   om_pending := om_pending s @ [\<lparr> po_account = account, po_order_id = tk_nanos t, po_symbol = symbol,
                     po_submitted = tk_now t \<rparr>]\<rparr>))))"

definition place_spot_order ::
  "order_ticket \<Rightarrow> address \<Rightarrow> string \<Rightarrow> string \<Rightarrow> u256 \<Rightarrow> bool \<Rightarrow> perp_order_type \<Rightarrow> u256 option \<Rightarrow> order_manager \<Rightarrow>
     (hl_error, h256) outcome \<times> order_manager" where
  "place_spot_order t account base quote amount is_buy ty price s =
     and_then (with_connector (get_account_info (tk_now t) (tk_answer t) account) s) (\<lambda>i s.
       or_panic s (if is_buy then order_value amount price else Some amount) (\<lambda>required.
         if ai_balance i < required then (Err HL_Insufficient_Balance, s)
         else
           let x = new_order t (''spot_order_'' @ show_nat (unat (tk_nanos t))) account (base @ ''-'' @ quote) is_buy
                     (convert_order_type ty) amount price
           in (Ok (tk_hash t), s\<lparr>om_connector := update_order_cache account x (om_connector s)\<rparr>)))"

definition close_hl_position ::
  "(h256 \<Rightarrow> string) \<Rightarrow> (nat \<Rightarrow> h256) \<Rightarrow> order_ticket \<Rightarrow> address \<Rightarrow> h256 \<Rightarrow> bool \<Rightarrow> order_manager \<Rightarrow>
     (hl_error, h256) outcome \<times> order_manager" where
  "close_hl_position show_hash ids t account i reduce_only s =
     and_then (with_connector (get_positions (tk_now t) (tk_answer t) ids account) s) (\<lambda>ps s.
       case find (\<lambda>p. hp_id p = i) ps of
         None \<Rightarrow> (Err HL_Position_Not_Found, s)
       | Some p \<Rightarrow>
           let x = (new_order t (''close_'' @ show_hash i) account (hp_symbol p) (\<not> hp_is_long p) HO_Market (hp_size p) None)
                     \<lparr>ho_reduce_only := reduce_only, ho_time_in_force := ImmediateOrCancel\<rparr>
           in (Ok (tk_hash t), s\<lparr>om_connector := update_order_cache account x (om_connector s)\<rparr>))"

definition modify_order ::
  "(u32 \<Rightarrow> u64 \<Rightarrow> (hl_error, unit) outcome) \<Rightarrow> order_ticket \<Rightarrow> address \<Rightarrow> u64 \<Rightarrow> u256 option \<Rightarrow> u256 option \<Rightarrow> order_manager \<Rightarrow>
     (hl_error, unit) outcome \<times> order_manager" where
  "modify_order cancel t account i new_size new_price s =
     (case find (\<lambda>x. ho_id x = i) (orders_of account (om_connector s)) of
        None \<Rightarrow> (Err HL_Order_Not_Found, s)
      | Some x \<Rightarrow>
          and_then (with_connector (hl_cancel_order (tk_now t) cancel account i) s) (\<lambda>_ s.
            and_then (place_order t account (ho_symbol x) (case new_size of None \<Rightarrow> ho_size x | Some v \<Rightarrow> v) 1
                (ho_side x = Side_Buy) OT_Limit (case new_price of None \<Rightarrow> ho_price x | Some p \<Rightarrow> Some p) s)
              (\<lambda>_ s. (Ok (), s))))"

definition update_pending_orders :: "u64 \<Rightarrow> order_manager \<Rightarrow> order_manager" where
  "update_pending_orders now s = s\<lparr>om_pending := filter (\<lambda>p. now - po_submitted p < 60) (om_pending s)\<rparr>"

section \<open>Examples\<close>

text \<open>An exchange whose answer is an account of a million.\<close>

definition sample_state :: user_state where
  "sample_state = \<lparr> us_account_value = ''1000000'', us_total_margin_used = ''0'', us_asset_positions = [] \<rparr>"

lemma sample_balance: "get_account_info now (Ok sample_state) u c =
    (case check_rate_limit now (hc_limiter c) of
       (Ok _, l) \<Rightarrow> (Ok \<lparr> ai_address = u, ai_balance = 1000000, ai_margin_used = 0, ai_available_margin = 1000000,
            ai_unrealized_pnl = 0, ai_realized_pnl = 0, ai_total_positions = 0, ai_leverage = 0 \<rparr>, c\<lparr>hc_limiter := l\<rparr>)
     | (Err e, l) \<Rightarrow> (Err e, c\<lparr>hc_limiter := l\<rparr>) | (Panic, l) \<Rightarrow> (Panic, c\<lparr>hc_limiter := l\<rparr>) | (Hang, l) \<Rightarrow> (Hang, c\<lparr>hc_limiter := l\<rparr>))"
  by (cases "(check_rate_limit now (hc_limiter c), \<lambda>(_ :: unit) (l :: rate_limiter). (Ok sample_state :: (hl_error, user_state) outcome, l))" rule: and_then.cases)
    (simp_all add: get_account_info_def connector_request_def make_request_def account_info_of_def sample_state_def dec_or_zero_def
      from_dec_str_def Let_def umul_def as_u32_def)

end
