(* ===== verification/HyperliquidProps.thy ===== *)
theory HyperliquidProps
  imports Hyperliquid
begin

text \<open>
  Properties of the connector to the external exchange: the rate limit, the orders it caches in every run, what an accepted
  order needs, and the closing of positions.
\<close>

section \<open>The rate limit\<close>

text \<open>The instants at which requests were let through.\<close>

fun accepted :: "u64 list \<Rightarrow> rate_limiter \<Rightarrow> u64 list" where
  "accepted [] l = []"
| "accepted (now # ts) l =
     (if is_ok (fst (check_rate_limit now l)) then now # accepted ts (snd (check_rate_limit now l))
      else accepted ts (snd (check_rate_limit now l)))"

definition within_window :: "u64 \<Rightarrow> u64 \<Rightarrow> u64 \<Rightarrow> bool" where
  "within_window a w t \<longleftrightarrow> a \<le> t \<and> unat t < unat a + unat w"

definition limiter_inv :: "u32 \<Rightarrow> u64 \<Rightarrow> u64 list \<Rightarrow> u64 \<Rightarrow> rate_limiter \<Rightarrow> bool" where
  "limiter_inv m w log n l \<longleftrightarrow> max_requests l = m \<and> window_seconds l = w \<and> list_all (\<lambda>t. t \<le> n) log \<and> list_all (\<lambda>t. t \<le> n) (requests l) \<and>
     filter (\<lambda>t. n - t < w) log = filter (\<lambda>t. n - t < w) (requests l) \<and> (\<forall>a. length (filter (within_window a w) log) \<le> unat m)"

lemma later_window:
  fixes n now t w :: u64
  assumes "t \<le> n" "n \<le> now" "now - t < w"
  shows "n - t < w"
  using assms by (simp add: word_less_nat_alt word_le_nat_alt unat_sub)

lemma filter_later:
  fixes now n w :: u64
  assumes "list_all (\<lambda>t. t \<le> n) ts" "n \<le> now"
  shows "filter (\<lambda>t. now - t < w) ts = filter (\<lambda>t. now - t < w) (filter (\<lambda>t. n - t < w) ts)"
proof -
  have "filter (\<lambda>t. now - t < w) ts = filter (\<lambda>t. now - t < w \<and> n - t < w) ts"
    using assms later_window by (intro filter_cong) (auto simp: list_all_iff)
  then show ?thesis by (simp add: conj_commute)
qed

lemma filter_length_le: "(\<And>t. t \<in> set ts \<Longrightarrow> P t \<Longrightarrow> Q t) \<Longrightarrow> length (filter P ts) \<le> length (filter Q ts)"
  by (induction ts) auto

lemma limiter_inv_step:
  assumes inv: "limiter_inv m w log n l" and le: "n \<le> now"
  shows "limiter_inv m w (if is_ok (fst (check_rate_limit now l)) then log @ [now] else log) now (snd (check_rate_limit now l))"
proof -
  define kept where "kept = filter (\<lambda>t. now - t < w) (requests l)"
  have m: "max_requests l = m" "window_seconds l = w" and old: "list_all (\<lambda>t. t \<le> n) log" "list_all (\<lambda>t. t \<le> n) (requests l)"
    and b: "\<And>a. length (filter (within_window a w) log) \<le> unat m" using inv by (auto simp: limiter_inv_def)
  have kept: "filter (\<lambda>t. now - t < w) log = kept"
    unfolding kept_def filter_later [OF old(1) le] filter_later [OF old(2) le] using inv by (simp add: limiter_inv_def)
  have again: "filter (\<lambda>t. now - t < w) kept = kept" by (simp add: kept_def)
  have new: "list_all (\<lambda>t. t \<le> now) log" "list_all (\<lambda>t. t \<le> now) kept"
    using old le by (auto simp: list_all_iff kept_def)
  show ?thesis
  proof (cases "unat m \<le> length kept")
    case True
    then have "check_rate_limit now l = (Err HL_Rate_Limit, l\<lparr>requests := kept\<rparr>)" by (simp add: check_rate_limit_def m kept_def Let_def)
    then show ?thesis using m new b by (simp add: limiter_inv_def kept again)
  next
    case False
    then have c: "check_rate_limit now l = (Ok (), l\<lparr>requests := kept @ [now]\<rparr>)" by (simp add: check_rate_limit_def m kept_def Let_def)
    have "length (filter (within_window a w) (log @ [now])) \<le> unat m" for a
    proof (cases "within_window a w now")
      case True
      have "length (filter (within_window a w) log) \<le> length (filter (\<lambda>t. now - t < w) log)"
        using new(1) True
        by (intro filter_length_le) (auto simp: within_window_def list_all_iff word_less_nat_alt word_le_nat_alt unat_sub)
      with False True show ?thesis by (simp add: kept)
    qed (use b in simp)
    with m new show ?thesis by (simp add: c limiter_inv_def kept again)
  qed
qed

lemma limiter_inv_run:
  "limiter_inv m w log n l \<Longrightarrow> sorted (n # ts) \<Longrightarrow> length (filter (within_window a w) (log @ accepted ts l)) \<le> unat m"
proof (induction ts arbitrary: log n l)
  case (Cons now ts)
  then have "n \<le> now" "sorted (now # ts)" by auto
  from Cons.IH [OF limiter_inv_step [OF Cons.prems(1) this(1)] this(2)] show ?case by (simp split: if_splits)
qed (simp add: limiter_inv_def)

text \<open>
  C23: while the clock does not go back, the limiter lets at most the permitted number of requests through in any window of
  its length, wherever the window starts.
\<close>

theorem rate_limit_holds:
  assumes "sorted ts"
  shows "length (filter (\<lambda>t. a \<le> t \<and> unat t < unat a + unat w) (accepted ts (limiter_new m w))) \<le> unat m"
proof -
  have "limiter_inv m w [] 0 (limiter_new m w)" by (simp add: limiter_inv_def limiter_new_def)
  moreover have "sorted (0 # ts)" using assms by simp
  ultimately have "length (filter (within_window a w) ([] @ accepted ts (limiter_new m w))) \<le> unat m" by (rule limiter_inv_run)
  then show ?thesis by (simp add: within_window_def cong: filter_cong)
qed

theorem rate_limit_holds_witness:
  "sorted [1, 1, 2, 61 :: u64] \<and> length (filter (\<lambda>t. 1 \<le> t \<and> unat t < unat (1 :: u64) + unat (60 :: u64)) (accepted [1, 1, 2, 61] (limiter_new 2 60))) \<le> 2
   \<and> accepted [1, 1, 2, 61] (limiter_new 2 60) = [1, 1, 61]"
proof -
  have s: "sorted [1, 1, 2, 61 :: u64]" by simp
  have "accepted [1, 1, 2, 61] (limiter_new 2 60) = [1, 1, 61]" by (simp add: check_rate_limit_def limiter_new_def)
  with s rate_limit_holds [OF s, of 1 60 2] show ?thesis by simp
qed

text \<open>A request that is signed takes two places: one of the two may be left over.\<close>

lemma signed_requests_count_twice:
  assumes "signed_request now answer l = (Ok r, l')" and "0 < window_seconds l"
  shows "length (requests l') = length (filter (\<lambda>t. now - t < window_seconds l) (requests l)) + 2"
  using assms by (auto simp: signed_request_def make_request_def check_rate_limit_def Let_def split: if_splits)

section \<open>Numbers with a point\<close>

lemma read_digits_point: "CHR ''.'' \<in> set s \<Longrightarrow> read_digits n s = None"
  by (induction n s rule: read_digits.induct) auto

text \<open>A value with a decimal point reads as zero, so an account whose value has one cannot place any order.\<close>

lemma decimals_read_as_zero: "CHR ''.'' \<in> set s \<Longrightarrow> dec_or_zero s = 0"
  by (simp add: dec_or_zero_def from_dec_str_def read_digits_point)

lemma decimal_account_is_empty:
  assumes "CHR ''.'' \<in> set (us_account_value u)" "account_info_of account u = Some i"
  shows "ai_balance i = 0 \<and> ai_available_margin i = 0"
  using assms by (auto simp: account_info_of_def Let_def decimals_read_as_zero)

section \<open>The cached orders\<close>

datatype order_call =
    OM_Place order_ticket address string u256 u32 bool perp_order_type "u256 option"
  | OM_Spot order_ticket address string string u256 bool perp_order_type "u256 option"
  | OM_Close "h256 \<Rightarrow> string" "nat \<Rightarrow> h256" order_ticket address h256 bool
  | OM_Modify "u32 \<Rightarrow> u64 \<Rightarrow> (hl_error, unit) outcome" order_ticket address u64 "u256 option" "u256 option"
  | OM_Cancel u64 "u32 \<Rightarrow> u64 \<Rightarrow> (hl_error, unit) outcome" address u64
  | OM_Cancel_All u64 "u32 \<Rightarrow> u64 \<Rightarrow> (hl_error, unit) outcome" address
  | OM_Prune u64

fun order_call_step :: "order_call \<Rightarrow> order_manager \<Rightarrow> order_manager" where
  "order_call_step (OM_Place t a sy sz lev lg ty p) s = snd (place_order t a sy sz lev lg ty p s)"
| "order_call_step (OM_Spot t a b q amount buy ty p) s = snd (place_spot_order t a b q amount buy ty p s)"
| "order_call_step (OM_Close sh ids t a i r) s = snd (close_hl_position sh ids t a i r s)"
| "order_call_step (OM_Modify cancel t a i sz p) s = snd (modify_order cancel t a i sz p s)"
| "order_call_step (OM_Cancel now answer a i) s = snd (with_connector (hl_cancel_order now answer a i) s)"
| "order_call_step (OM_Cancel_All now answer a) s = snd (with_connector (cancel_all_orders now answer a) s)"
| "order_call_step (OM_Prune now) s = update_pending_orders now s"

definition all_waiting :: "address \<Rightarrow> hl_order list \<Rightarrow> bool" where
  "all_waiting a xs \<longleftrightarrow> distinct (map ho_id xs) \<and>
     list_all (\<lambda>x. ho_account x = a \<and> ho_status x = HS_Pending \<and> ho_filled x = 0 \<and> ho_average_price x = None) xs"

definition orders_wf :: "connector \<Rightarrow> bool" where
  "orders_wf c \<longleftrightarrow> (\<forall>a. all_waiting a (orders_of a c))"

lemma orders_of_update: "orders_of b (c\<lparr>hc_orders := AList.update a xs m\<rparr>) = (if b = a then xs else (case map_of m b of None \<Rightarrow> [] | Some os \<Rightarrow> os))"
  by (simp add: orders_of_def update_conv')

lemma orders_wf_same: "hc_orders c' = hc_orders c \<Longrightarrow> orders_wf c' \<longleftrightarrow> orders_wf c"
  by (simp add: orders_wf_def orders_of_def)

lemma orders_wf_update: "orders_wf c \<Longrightarrow> all_waiting a xs \<Longrightarrow> orders_wf (c\<lparr>hc_orders := AList.update a xs (hc_orders c)\<rparr>)"
  by (auto simp: orders_wf_def orders_of_update) (simp add: orders_of_def)

lemma set_put_first: "set (put_first P x ys) \<subseteq> insert x (set ys)"
  by (induction P x ys rule: put_first.induct) auto

lemma waiting_put_first:
  assumes "all_waiting a ys" "ho_account x = a" "ho_status x = HS_Pending" "ho_filled x = 0" "ho_average_price x = None"
  shows "all_waiting a (put_first (\<lambda>y. ho_id y = ho_id x) x ys)"
  using assms
proof (induction ys)
  case (Cons y ys)
  have "ho_id ` set (put_first (\<lambda>y. ho_id y = ho_id x) x ys) \<subseteq> insert (ho_id x) (ho_id ` set ys)"
    using set_put_first [of "\<lambda>y. ho_id y = ho_id x" x ys] by auto
  with Cons show ?case by (auto simp: all_waiting_def)
qed (simp add: all_waiting_def)

lemma waiting_filter: "all_waiting a xs \<Longrightarrow> all_waiting a (filter P xs)"
  by (auto simp: all_waiting_def distinct_map inj_on_def list_all_iff)

lemma cache_wf:
  assumes "orders_wf c" "ho_account x = a" "ho_status x = HS_Pending" "ho_filled x = 0" "ho_average_price x = None"
  shows "orders_wf (update_order_cache a x c)"
  unfolding update_order_cache_def using assms by (intro orders_wf_update waiting_put_first) (auto simp: orders_wf_def)

lemma request_orders [simp]: "hc_orders (snd (connector_request f c)) = hc_orders c"
  by (simp add: connector_request_def split: prod.split)

lemma with_connector_connector: "om_connector (snd (with_connector f s)) = snd (f (om_connector s))"
  by (cases "f (om_connector s)") (simp add: with_connector_def)

lemma cached_order: "ho_id x = k \<Longrightarrow> find (\<lambda>y. ho_id y = k) (orders_of a (update_order_cache a x c)) = Some x"
proof -
  assume k: "ho_id x = k"
  have "find (\<lambda>y. ho_id y = k) (put_first (\<lambda>y. ho_id y = k) x xs) = Some x" for xs by (induction xs) (auto simp: k)
  then show ?thesis by (simp add: update_order_cache_def orders_of_update k)
qed

lemma cancel_wf: "orders_wf c \<Longrightarrow> orders_wf (snd (hl_cancel_order now answer a i c))"
proof -
  assume wf: "orders_wf c"
  show ?thesis
  proof (cases "find (\<lambda>x. ho_id x = i) (orders_of a c)")
    case (Some x)
    show ?thesis
    proof (cases "map_of (hc_markets c) (ho_symbol x)")
      case m: (Some m)
      obtain r c' where r: "connector_request (signed_request now (answer (hm_asset_id m) i)) c = (r, c')" by fastforce
      then have "hc_orders c' = hc_orders c" by (metis request_orders snd_conv)
      then have "orders_wf c'" using wf orders_wf_same [THEN iffD2] by blast
      then have "all_waiting a (orders_of a c')" by (simp add: orders_wf_def)
      note new = orders_wf_update [OF \<open>orders_wf c'\<close> waiting_filter [OF this, of "\<lambda>y. ho_id y \<noteq> i"]]
      have "hl_cancel_order now answer a i c = and_then (r, c') (\<lambda>_ c. (Ok (),
          c\<lparr>hc_orders := AList.update a (filter (\<lambda>y. ho_id y \<noteq> i) (orders_of a c)) (hc_orders c)\<rparr>))"
        by (simp only: hl_cancel_order_def Some get_market_def m r option.case and_then.simps)
      then show ?thesis using new \<open>orders_wf c'\<close> by (cases r) simp_all
    qed (simp add: hl_cancel_order_def Some get_market_def wf)
  qed (simp add: hl_cancel_order_def wf)
qed

lemma cancel_each_wf: "orders_wf c \<Longrightarrow> orders_wf (fold (\<lambda>x c. snd (hl_cancel_order now answer a (ho_id x) c)) xs c)"
  by (induction xs arbitrary: c) (simp_all add: cancel_wf)

lemma cancel_all_wf: "orders_wf c \<Longrightarrow> orders_wf (snd (cancel_all_orders now answer a c))"
  by (simp add: cancel_all_orders_def cancel_each_wf)

lemma info_orders: "get_account_info now answer a c = (r, c') \<Longrightarrow> hc_orders c' = hc_orders c"
proof -
  assume i: "get_account_info now answer a c = (r, c')"
  obtain q d where q: "connector_request (make_request now answer) c = (q, d)" by fastforce
  have "hc_orders d = hc_orders c" using request_orders [of "make_request now answer" c] by (simp add: q)
  with i show ?thesis by (cases q) (auto simp: get_account_info_def q or_panic_def split: option.splits)
qed

lemma positions_orders: "get_positions now answer ids a c = (r, c') \<Longrightarrow> hc_orders c' = hc_orders c"
proof -
  assume i: "get_positions now answer ids a c = (r, c')"
  obtain q d where q: "connector_request (make_request now answer) c = (q, d)" by fastforce
  have "hc_orders d = hc_orders c" using request_orders [of "make_request now answer" c] by (simp add: q)
  with i show ?thesis by (cases q) (auto simp: get_positions_def q or_panic_def split: option.splits)
qed

text \<open>Either a call changes no orders, or it files one new order.\<close>

lemma place_order_cases:
  obtains (refused) "\<not> is_ok (fst (place_order t a sy sz lev lg ty p s))"
      "hc_orders (om_connector (snd (place_order t a sy sz lev lg ty p s))) = hc_orders (om_connector s)"
  | (placed) m i req c where "map_of (hc_markets (om_connector s)) sy = Some m" "lev \<le> hm_max_leverage m" "hm_min_size m \<le> sz"
      "get_account_info (tk_now t) (tk_answer t) a (om_connector s) = (Ok i, c)"
      "do { v \<leftarrow> order_value sz p; udiv v (ucast lev) } = Some req" "req \<le> ai_available_margin i"
      "place_order t a sy sz lev lg ty p s = (Ok (tk_hash t), s\<lparr>om_connector := update_order_cache a
         ((new_order t (''order_'' @ show_nat (unat (tk_nanos t))) a sy lg (convert_order_type ty) sz p)\<lparr>ho_post_only := (ty = OT_Limit)\<rparr>) c,
         om_pending := om_pending s @ [\<lparr> po_account = a, po_order_id = tk_nanos t, po_symbol = sy, po_submitted = tk_now t \<rparr>]\<rparr>)"
proof (cases "map_of (hc_markets (om_connector s)) sy")
  case None
  then show ?thesis by (intro refused) (simp_all add: place_order_def with_connector_def get_market_def)
next
  case (Some m)
  obtain r c where i: "get_account_info (tk_now t) (tk_answer t) a (om_connector s) = (r, c)" by fastforce
  have same: "hc_orders c = hc_orders (om_connector s)" by (rule info_orders [OF i])
  show ?thesis
  proof (cases "hm_max_leverage m < lev \<or> sz < hm_min_size m \<or> \<not> is_ok r")
    case True
    with same show ?thesis by (intro refused; cases r) (auto simp: place_order_def with_connector_def get_market_def Some i)
  next
    case False
    then obtain ai where ai: "r = Ok ai" by (auto simp: is_ok_iff)
    show ?thesis
    proof (cases "do { v \<leftarrow> order_value sz p; udiv v (ucast lev) }")
      case None
      with False same show ?thesis by (intro refused) (simp_all add: place_order_def with_connector_def get_market_def Some i ai)
    next
      case req: (Some req)
      show ?thesis
      proof (cases "ai_available_margin ai < req")
        case True
        with False same req show ?thesis by (intro refused) (simp_all add: place_order_def with_connector_def get_market_def Some i ai)
      next
        case enough: False
        show ?thesis
          by (rule placed [of m ai c req])
            (use False enough req in \<open>simp_all add: Some i ai not_less place_order_def with_connector_def get_market_def Let_def\<close>)
      qed
    qed
  qed
qed

lemma place_order_wf:
  assumes "orders_wf (om_connector s)"
  shows "orders_wf (om_connector (snd (place_order t a sy sz lev lg ty p s)))"
proof (cases rule: place_order_cases [of t a sy sz lev lg ty p s])
  case refused
  from orders_wf_same [OF refused(2)] assms show ?thesis by blast
next
  case (placed m i req c)
  from orders_wf_same [OF info_orders [OF placed(4)]] assms have "orders_wf c" by blast
  then show ?thesis unfolding placed(7) by (simp add: cache_wf new_order_def)
qed

lemma place_spot_wf:
  assumes "orders_wf (om_connector s)"
  shows "orders_wf (om_connector (snd (place_spot_order t a b q amount buy ty p s)))"
proof -
  obtain r c where i: "get_account_info (tk_now t) (tk_answer t) a (om_connector s) = (r, c)" by fastforce
  from orders_wf_same [OF info_orders [OF i]] assms have wf: "orders_wf c" by blast
  note I = snd_or_panic [where I = "\<lambda>s. orders_wf (om_connector s)"]
  show ?thesis
  proof (cases r)
    case (Ok ai)
    show ?thesis unfolding place_spot_order_def with_connector_def i Ok prod.case and_then.simps
      by (intro I) (simp_all add: wf Let_def cache_wf new_order_def)
  qed (simp_all add: place_spot_order_def with_connector_def i wf)
qed

lemma close_wf:
  assumes "orders_wf (om_connector s)"
  shows "orders_wf (om_connector (snd (close_hl_position sh ids t a i ro s)))"
proof -
  obtain r c where q: "get_positions (tk_now t) (tk_answer t) ids a (om_connector s) = (r, c)" by fastforce
  from orders_wf_same [OF positions_orders [OF q]] assms have wf: "orders_wf c" by blast
  show ?thesis
  proof (cases r)
    case (Ok ps)
    then show ?thesis
      by (simp add: close_hl_position_def with_connector_def q wf Let_def cache_wf new_order_def split: option.split)
  qed (simp_all add: close_hl_position_def with_connector_def q wf)
qed

lemma modify_wf:
  assumes "orders_wf (om_connector s)"
  shows "orders_wf (om_connector (snd (modify_order cancel t a i sz p s)))"
proof (cases "find (\<lambda>x. ho_id x = i) (orders_of a (om_connector s))")
  case (Some x)
  obtain r c where q: "hl_cancel_order (tk_now t) cancel a i (om_connector s) = (r, c)" by fastforce
  have wf: "orders_wf c" using cancel_wf [OF assms, of "tk_now t" cancel a i] by (simp add: q)
  show ?thesis
  proof (cases r)
    case (Ok u)
    let ?s = "s\<lparr>om_connector := c\<rparr>"
    have "orders_wf (om_connector ?s)" using wf by simp
    note P = place_order_wf [OF this]
    obtain q' s' where q': "place_order t a (ho_symbol x) (case sz of None \<Rightarrow> ho_size x | Some v \<Rightarrow> v) 1 (ho_side x = Side_Buy) OT_Limit
        (case p of None \<Rightarrow> ho_price x | Some v \<Rightarrow> Some v) ?s = (q', s')" by fastforce
    have "orders_wf (om_connector s')"
      using P [of t a "ho_symbol x" "case sz of None \<Rightarrow> ho_size x | Some v \<Rightarrow> v" 1 "ho_side x = Side_Buy" OT_Limit
          "case p of None \<Rightarrow> ho_price x | Some v \<Rightarrow> Some v"] unfolding q' by simp
    then show ?thesis unfolding modify_order_def Some with_connector_def q Ok prod.case and_then.simps option.case q'
      by (cases q') simp_all
  qed (simp_all add: modify_order_def Some with_connector_def q wf)
qed (simp add: modify_order_def assms)

lemma order_call_wf: "orders_wf (om_connector s) \<Longrightarrow> orders_wf (om_connector (order_call_step c s))"
proof (cases c)
  case (OM_Cancel now answer a i)
  assume "orders_wf (om_connector s)"
  from cancel_wf [OF this, of now answer a i] show ?thesis by (simp add: OM_Cancel with_connector_connector)
next
  case (OM_Cancel_All now answer a)
  assume "orders_wf (om_connector s)"
  from cancel_all_wf [OF this, of now answer a] show ?thesis by (simp add: OM_Cancel_All with_connector_connector)
qed (simp_all add: place_order_wf place_spot_wf close_wf modify_wf update_pending_orders_def)

interpretation order_runs: invariant_of order_call_step "\<lambda>_ _. True" "\<lambda>s. orders_wf (om_connector s)"
  by unfold_locales (rule order_call_wf)

text \<open>
  C22: in every run the orders that are cached for an account carry different identifiers and belong to it, and each of them
  is still pending with nothing filled: no code ever moves an order on.
\<close>

theorem orders_stay_pending:
  assumes "connector_new now answer = Ok c"
  shows "distinct (map ho_id (orders_of a (om_connector (run order_call_step cs (order_manager_new c)))))
    \<and> list_all (\<lambda>x. ho_account x = a \<and> ho_status x = HS_Pending \<and> ho_filled x = 0)
        (orders_of a (om_connector (run order_call_step cs (order_manager_new c))))"
proof -
  have "hc_orders c = []" using assms by (auto simp: connector_new_def split: prod.splits outcome.splits)
  then have "orders_wf c" by (simp add: orders_wf_def orders_of_def all_waiting_def)
  then have "orders_wf (om_connector (order_manager_new c))" by (simp add: order_manager_new_def)
  then have "orders_wf (om_connector (run order_call_step cs (order_manager_new c)))" by (rule order_runs.inv_run [OF _ run_ok_always])
  then show ?thesis by (auto simp: orders_wf_def all_waiting_def list_all_iff)
qed

definition sample_ticket :: order_ticket where
  "sample_ticket = \<lparr> tk_now = 10, tk_nanos = 77, tk_answer = Ok sample_state, tk_hash = 3 \<rparr>"

definition market_connector :: connector where
  "market_connector = \<lparr> hc_limiter = \<lparr> max_requests = 100, window_seconds = 60, requests = [0] \<rparr>,
     hc_markets = [(''BTC'', market_of 0 \<lparr> am_name = ''BTC'', am_sz_decimals = 3 \<rparr>)], hc_positions = [], hc_orders = [] \<rparr>"

lemma market_connector_new: "connector_new 0 (Ok [\<lparr> am_name = ''BTC'', am_sz_decimals = 3 \<rparr>]) = Ok market_connector"
  by (simp add: connector_new_def make_request_def check_rate_limit_def limiter_new_def market_connector_def)

lemma sample_placed:
  "\<exists>s'. place_order sample_ticket 7 ''BTC'' 10 2 True OT_Limit (Some 5) (order_manager_new market_connector) = (Ok 3, s')"
  by (simp add: place_order_def with_connector_def order_manager_new_def get_market_def market_connector_def market_of_def sample_ticket_def
      sample_balance check_rate_limit_def order_value_def umul_def udiv_def Let_def)

theorem orders_stay_pending_witness:
  "orders_of 7 (om_connector (run order_call_step [OM_Place sample_ticket 7 ''BTC'' 10 2 True OT_Limit (Some 5)] (order_manager_new market_connector))) \<noteq> []
   \<and> list_all (\<lambda>x. ho_account x = 7 \<and> ho_status x = HS_Pending \<and> ho_filled x = 0)
     (orders_of 7 (om_connector (run order_call_step [OM_Place sample_ticket 7 ''BTC'' 10 2 True OT_Limit (Some 5)] (order_manager_new market_connector))))"
proof -
  have "orders_of 7 (om_connector (snd (place_order sample_ticket 7 ''BTC'' 10 2 True OT_Limit (Some 5) (order_manager_new market_connector)))) \<noteq> []"
    by (simp add: place_order_def with_connector_def order_manager_new_def get_market_def market_connector_def market_of_def sample_ticket_def
        sample_balance check_rate_limit_def order_value_def umul_def udiv_def Let_def update_order_cache_def orders_of_def)
  with orders_stay_pending [OF market_connector_new, of 7 "[OM_Place sample_ticket 7 ''BTC'' 10 2 True OT_Limit (Some 5)]"]
  show ?thesis by simp
qed


section \<open>What an accepted order needs\<close>

text \<open>
  A perpetual order is accepted only with a leverage between one and the limit of its market, at least the minimal size,
  and a value that the available margin covers at this leverage; it is then cached under its identifier and reported as pending.
\<close>

theorem accepted_orders_are_covered:
  assumes "place_order t a sy sz lev lg ty p s = (Ok h, s')"
  shows "\<exists>m i c x. map_of (hc_markets (om_connector s)) sy = Some m
    \<and> get_account_info (tk_now t) (tk_answer t) a (om_connector s) = (Ok i, c)
    \<and> 0 < lev \<and> lev \<le> hm_max_leverage m \<and> hm_min_size m \<le> sz
    \<and> unat sz * (case p of None \<Rightarrow> 1 | Some v \<Rightarrow> unat v) < (unat (ai_available_margin i) + 1) * unat lev
    \<and> find (\<lambda>y. ho_id y = tk_nanos t) (orders_of a (om_connector s')) = Some x \<and> ho_size x = sz \<and> ho_symbol x = sy
    \<and> om_pending s' = om_pending s @ [\<lparr> po_account = a, po_order_id = tk_nanos t, po_symbol = sy, po_submitted = tk_now t \<rparr>]"
proof (cases rule: place_order_cases [of t a sy sz lev lg ty p s])
  case refused
  with assms show ?thesis by simp
next
  case (placed m i req c)
  obtain v where v: "order_value sz p = Some v" "udiv v (ucast lev) = Some req" using placed(5) by (auto simp: bind_eq_Some_conv)
  have lev: "0 < unat lev" and req: "unat req = unat v div unat lev" using v(2) by (auto simp: checked_ops)
  have val: "unat v = unat sz * (case p of None \<Rightarrow> 1 | Some v \<Rightarrow> unat v)" using v(1) by (cases p) (simp_all add: order_value_def checked_ops)
  have "unat v < (unat req + 1) * unat lev" unfolding req using lev by (simp add: dividend_less_div_times add.commute)
  moreover have "(unat req + 1) * unat lev \<le> (unat (ai_available_margin i) + 1) * unat lev" using placed(6) by (simp add: word_le_nat_alt)
  ultimately have cover: "unat sz * (case p of None \<Rightarrow> 1 | Some v \<Rightarrow> unat v) < (unat (ai_available_margin i) + 1) * unat lev"
    unfolding val by linarith
  let ?x = "(new_order t (''order_'' @ show_nat (unat (tk_nanos t))) a sy lg (convert_order_type ty) sz p)\<lparr>ho_post_only := (ty = OT_Limit)\<rparr>"
  have id: "ho_id ?x = tk_nanos t" "ho_size ?x = sz" "ho_symbol ?x = sy" by (simp_all add: new_order_def)
  have s': "s' = s\<lparr>om_connector := update_order_cache a ?x c,
         om_pending := om_pending s @ [\<lparr> po_account = a, po_order_id = tk_nanos t, po_symbol = sy, po_submitted = tk_now t \<rparr>]\<rparr>"
    using assms placed(7) by simp
  have cached: "find (\<lambda>y. ho_id y = tk_nanos t) (orders_of a (om_connector s')) = Some ?x"
    using cached_order [OF id(1), of a c] by (simp add: s')
  have "0 < lev" using lev by (simp add: unat_gt_0 word_gt_0)
  with placed(1-4) cover cached id(2,3) s' show ?thesis by (intro exI [of _ m] exI [of _ i] exI [of _ c] exI [of _ ?x]) simp
qed

theorem accepted_orders_are_covered_witness:
  "\<exists>s' i c. place_order sample_ticket 7 ''BTC'' 10 2 True OT_Limit (Some 5) (order_manager_new market_connector) = (Ok 3, s')
     \<and> get_account_info 10 (Ok sample_state) 7 market_connector = (Ok i, c) \<and> 10 * 5 < (unat (ai_available_margin i) + 1) * unat (2 :: u32)"
proof -
  obtain s' where s': "place_order sample_ticket 7 ''BTC'' 10 2 True OT_Limit (Some 5) (order_manager_new market_connector) = (Ok 3, s')"
    using sample_placed by blast
  from accepted_orders_are_covered [OF s'] obtain i c where
    "get_account_info (tk_now sample_ticket) (tk_answer sample_ticket) 7 (om_connector (order_manager_new market_connector)) = (Ok i, c)"
    "unat (10 :: u256) * unat (5 :: u256) < (unat (ai_available_margin i) + 1) * unat (2 :: u32)" by auto
  with s' show ?thesis by (simp add: sample_ticket_def order_manager_new_def)
qed


text \<open>A modification cancels the order before it is known whether the new one is accepted.\<close>

lemma failed_modification_loses_the_order:
  assumes "find (\<lambda>x. ho_id x = i) (orders_of a (om_connector s)) = Some x"
    and "hl_cancel_order (tk_now t) cancel a i (om_connector s) = (Ok (), c)"
    and "place_order t a (ho_symbol x) (ho_size x) 1 (ho_side x = Side_Buy) OT_Limit (ho_price x) (s\<lparr>om_connector := c\<rparr>) = (Err e, s')"
  shows "modify_order cancel t a i None None s = (Err e, s') \<and> find (\<lambda>x. ho_id x = i) (orders_of a (om_connector s')) = None"
proof -
  let ?P = "place_order t a (ho_symbol x) (ho_size x) 1 (ho_side x = Side_Buy) OT_Limit (ho_price x) (s\<lparr>om_connector := c\<rparr>)"
  obtain m where m: "map_of (hc_markets (om_connector s)) (ho_symbol x) = Some m"
    using assms(1,2) by (cases "map_of (hc_markets (om_connector s)) (ho_symbol x)") (simp_all add: hl_cancel_order_def get_market_def)
  obtain d where "c = d\<lparr>hc_orders := AList.update a (filter (\<lambda>y. ho_id y \<noteq> i) (orders_of a d)) (hc_orders d)\<rparr>"
    using assms(2) unfolding hl_cancel_order_def assms(1) get_market_def m by auto
  then have "find (\<lambda>x. ho_id x = i) (orders_of a c) = None" by (simp add: orders_of_update find_None_iff)
  moreover have "orders_of a (om_connector s') = orders_of a c"
  proof (cases rule: place_order_cases [of t a "ho_symbol x" "ho_size x" 1 "ho_side x = Side_Buy" OT_Limit "ho_price x" "s\<lparr>om_connector := c\<rparr>"])
    case refused
    then show ?thesis using assms(3) by (simp add: orders_of_def)
  next
    case placed
    then show ?thesis using assms(3) by simp
  qed
  ultimately show ?thesis using assms by (simp add: modify_order_def with_connector_def)
qed

section \<open>Closing a position\<close>

lemma positions_of_ids: "positions_of now a ids n ps = Some xs \<Longrightarrow> x \<in> set xs \<Longrightarrow> hp_id x \<in> range ids"
  by (induction now a ids n ps arbitrary: xs rule: positions_of.induct)
    (auto simp: bind_eq_Some_conv hl_position_of_def Let_def split: if_splits)

text \<open>
  A position cannot be closed: its identifier is random and made anew by the call that looks it up, so it is not found
  and no order is filed, unless one of the new identifiers repeats the old one.
\<close>

theorem positions_cannot_be_closed:
  assumes "i \<notin> range ids"
  shows "\<not> is_ok (fst (close_hl_position sh ids t a i ro s))
    \<and> hc_orders (om_connector (snd (close_hl_position sh ids t a i ro s))) = hc_orders (om_connector s)"
proof -
  obtain r c where q: "get_positions (tk_now t) (tk_answer t) ids a (om_connector s) = (r, c)" by fastforce
  note same = positions_orders [OF q]
  show ?thesis
  proof (cases r)
    case (Ok ps)
    obtain u n where "positions_of (tk_now t) a ids n u = Some ps"
      using q Ok by (auto simp: get_positions_def)
    then have "find (\<lambda>p. hp_id p = i) ps = None" using positions_of_ids assms by (fastforce simp: find_None_iff)
    with same show ?thesis by (simp add: close_hl_position_def with_connector_def q Ok)
  qed (simp_all add: close_hl_position_def with_connector_def q same)
qed

theorem positions_cannot_be_closed_witness:
  "\<not> is_ok (fst (close_hl_position (\<lambda>_. []) (\<lambda>_. 5) sample_ticket 7 6 True (order_manager_new market_connector)))"
proof -
  have "(6 :: h256) \<notin> range (\<lambda>_ :: nat. 5)" by simp
  from positions_cannot_be_closed [OF this] show ?thesis by blast
qed


section \<open>Liquidation prices\<close>

text \<open>The liquidation price of a position is within one per cent of its entry price, whatever the leverage.\<close>

lemma liquidation_price_is_close:
  assumes "hl_liquidation_price entry is_long lev = Some v" "lev \<noteq> 0"
  shows "(is_long \<longrightarrow> v \<le> entry \<and> 99 * unat entry \<le> 100 * unat v) \<and> (\<not> is_long \<longrightarrow> entry \<le> v \<and> 100 * unat v \<le> 101 * unat entry)"
proof -
  obtain ch where ch: "unat ch = unat entry div (100 * unat lev)"
    and v: "(if is_long then Some (if ch < entry then entry - ch else 0) else uadd entry ch) = Some v"
    using assms by (auto simp: hl_liquidation_price_def bind_eq_Some_conv checked_ops)
  have "0 < unat lev" using assms(2) by (simp add: unat_gt_0)
  then have "unat entry div (100 * unat lev) \<le> unat entry div 100" by (intro div_le_mono2) simp_all
  then have le: "100 * unat ch \<le> unat entry" unfolding ch by linarith
  show ?thesis
  proof (cases is_long)
    case True
    have "unat v = unat entry - unat ch"
      using v True by (auto simp: unat_sub word_less_nat_alt word_le_nat_alt split: if_splits)
    with le True show ?thesis by (simp add: word_le_nat_alt)
  next
    case False
    then have "unat v = unat entry + unat ch" using v by (simp add: checked_ops)
    with le False show ?thesis by (simp add: word_le_nat_alt)
  qed
qed

end
