(* ===== verification/Vaults.thy ===== *)
theory Vaults
  imports Hyperliquid
begin

text \<open>
  The vaults of \<^verbatim>\<open>src/hyperliquid/vault_integration.rs\<close>: deposits against shares, withdrawals, creation and reports. Clock,
  answers of the exchange and random hashes are arguments; calls run one after the other.
\<close>

section \<open>Vaults, deposits and the manager\<close>

datatype vault_strategy =
    Market_Making | Arbitrage_Strategy | Trend_Following | Delta_Neutral | Yield_Strategy | Mixed_Strategy | Custom_Strategy string

record vault =
  va_address :: address
  va_name :: string
  va_description :: string
  va_manager :: address
  va_locked :: u256
  va_share_price :: u256
  va_shares :: u256
  va_performance_fee :: u32
  va_management_fee :: u32
  va_min_deposit :: u256
  va_lock_period :: u64
  va_strategy :: vault_strategy
  va_created :: u64
  va_rebalanced :: u64

record vault_deposit =
  de_vault :: address
  de_depositor :: address
  de_amount :: u256
  de_shares :: u256
  de_price :: u256
  de_time :: u64
  de_unlock :: u64
  de_hash :: h256

record vault_withdrawal =
  wd_vault :: address
  wd_withdrawer :: address
  wd_shares :: u256
  wd_received :: u256
  wd_price :: u256
  wd_fee :: u256
  wd_time :: u64
  wd_hash :: h256

record vault_performance =
  vp_vault :: address
  vp_locked :: u256
  vp_apy :: u32
  vp_sharpe :: u32
  vp_drawdown :: u32
  vp_trades :: u64
  vp_win_rate :: u32

record vault_manager =
  vm_connector :: connector
  vm_vaults :: "(address \<times> vault) list"
  vm_deposits :: "(address \<times> vault_deposit list) list"
  vm_performance :: "address \<rightharpoonup> vault_performance"

definition vault_manager_new :: "connector \<Rightarrow> vault_manager" where
  "vault_manager_new c = \<lparr> vm_connector = c, vm_vaults = [], vm_deposits = [], vm_performance = Map.empty \<rparr>"

definition get_vault :: "address \<Rightarrow> vault_manager \<Rightarrow> (hl_error, vault) outcome \<times> vault_manager" where
  "get_vault a s = (case map_of (vm_vaults s) a of None \<Rightarrow> (Err (HL_Api ''Vault not found''), s) | Some v \<Rightarrow> (Ok v, s))"

definition user_deposits_of :: "address \<Rightarrow> vault_manager \<Rightarrow> vault_deposit list" where
  "user_deposits_of account s = (case map_of (vm_deposits s) account of None \<Rightarrow> [] | Some ds \<Rightarrow> ds)"

definition get_user_shares :: "address \<Rightarrow> address \<Rightarrow> vault_manager \<Rightarrow> u256 option" where
  "get_user_shares account a s = sum_checked 0 (map de_shares (filter (\<lambda>d. de_vault d = a) (user_deposits_of account s)))"

definition calculate_shares_for_deposit :: "vault \<Rightarrow> u256 \<Rightarrow> u256 option" where
  "calculate_shares_for_deposit v amount =
     (if va_shares v = 0 then Some amount else do { x \<leftarrow> umul amount (va_shares v); udiv x (va_locked v) })"

definition calculate_withdrawal_amount :: "vault \<Rightarrow> u256 \<Rightarrow> u256 option" where
  "calculate_withdrawal_amount v shares =
     (if va_shares v = 0 then Some 0 else do { x \<leftarrow> umul shares (va_locked v); udiv x (va_shares v) })"

section \<open>Operations\<close>

definition vault_account ::
  "u64 \<Rightarrow> (hl_error, user_state) outcome \<Rightarrow> address \<Rightarrow> vault_manager \<Rightarrow> (hl_error, account_info) outcome \<times> vault_manager" where
  "vault_account now answer account s =
     (case get_account_info now answer account (vm_connector s) of (r, c) \<Rightarrow> (r, s\<lparr>vm_connector := c\<rparr>))"

definition vault_deposit_of :: "u64 \<Rightarrow> h256 \<Rightarrow> address \<Rightarrow> address \<Rightarrow> vault \<Rightarrow> u256 \<Rightarrow> u256 \<Rightarrow> vault_deposit" where
  "vault_deposit_of now hash account a v amount shares = \<lparr> de_vault = a, de_depositor = account, de_amount = amount,
     de_shares = shares, de_price = va_share_price v, de_time = now, de_unlock = now + va_lock_period v, de_hash = hash \<rparr>"

text \<open>The deposit is recorded before the sums of the vault, either of which panics when it overflows.\<close>

definition vault_deposit_call ::
  "u64 \<Rightarrow> (hl_error, user_state) outcome \<Rightarrow> h256 \<Rightarrow> address \<Rightarrow> address \<Rightarrow> u256 \<Rightarrow> vault_manager \<Rightarrow>
     (hl_error, h256) outcome \<times> vault_manager" where
  "vault_deposit_call now answer hash account a amount s =
     and_then (get_vault a s) (\<lambda>v s.
       if amount < va_min_deposit v then (Err (HL_Api ''Amount below minimum deposit''), s)
       else and_then (vault_account now answer account s) (\<lambda>i s.
         if ai_balance i < amount then (Err HL_Insufficient_Balance, s)
         else or_panic s (calculate_shares_for_deposit v amount) (\<lambda>shares.
           let d = vault_deposit_of now hash account a v amount shares;
               s1 = s\<lparr>vm_deposits := AList.update account (user_deposits_of account s @ [d]) (vm_deposits s)\<rparr>
           in or_panic s1 (uadd (va_locked v) amount) (\<lambda>locked.
             let s2 = s1\<lparr>vm_vaults := AList.update a (v\<lparr>va_locked := locked\<rparr>) (vm_vaults s1)\<rparr>
             in or_panic s2 (uadd (va_shares v) shares) (\<lambda>n.
               (Ok (de_hash d), s1\<lparr>vm_vaults := AList.update a (v\<lparr>va_locked := locked, va_shares := n\<rparr>) (vm_vaults s1)\<rparr>))))))"

definition performance_fee_of :: "vault \<Rightarrow> u256 \<Rightarrow> u256 option" where
  "performance_fee_of v amount = do { x \<leftarrow> umul amount (ucast (va_performance_fee v)); udiv x 10000 }"

text \<open>The record of the withdrawal is made for its hash; nothing else of it is used.\<close>

definition vault_withdraw ::
  "u64 \<Rightarrow> h256 \<Rightarrow> address \<Rightarrow> address \<Rightarrow> u256 \<Rightarrow> vault_manager \<Rightarrow> (hl_error, h256) outcome \<times> vault_manager" where
  "vault_withdraw now hash account a shares s =
     and_then (get_vault a s) (\<lambda>v s.
       or_panic s (get_user_shares account a s) (\<lambda>held.
         if held < shares then (Err (HL_Api ''Insufficient shares''), s)
         else case map_of (vm_deposits s) account of
           None \<Rightarrow> (Err (HL_Api ''No deposits found''), s)
         | Some ds \<Rightarrow>
             if find (\<lambda>d. de_vault d = a \<and> de_unlock d \<le> now) ds = None then (Err (HL_Api ''Shares still locked''), s)
             else or_panic s (calculate_withdrawal_amount v shares) (\<lambda>amount.
               or_panic s (performance_fee_of v amount) (\<lambda>fee.
                 or_panic s (usub amount fee) (\<lambda>received.
                   let w = \<lparr> wd_vault = a, wd_withdrawer = account, wd_shares = shares, wd_received = received,
                         wd_price = va_share_price v, wd_fee = fee, wd_time = now, wd_hash = hash \<rparr>;
                       v' = v\<lparr>va_locked := (if amount < va_locked v then va_locked v - amount else 0),
                         va_shares := (if shares < va_shares v then va_shares v - shares else 0)\<rparr>
                   in (Ok (wd_hash w), s\<lparr>vm_vaults := AList.update a v' (vm_vaults s),
                         vm_deposits := AList.update account
                           (filter (\<lambda>d. de_vault d \<noteq> a \<or> shares < de_shares d) ds) (vm_deposits s)\<rparr>))))))"

definition get_performance :: "address \<Rightarrow> vault_manager \<Rightarrow> (hl_error, vault_performance) outcome \<times> vault_manager" where
  "get_performance a s =
     (case vm_performance s a of
        Some p \<Rightarrow> (Ok p, s)
      | None \<Rightarrow> and_then (get_vault a s) (\<lambda>v s.
          let p = \<lparr> vp_vault = a, vp_locked = va_locked v, vp_apy = 1500, vp_sharpe = 150, vp_drawdown = 1000, vp_trades = 0,
                vp_win_rate = 0 \<rparr>
          in (Ok p, s\<lparr>vm_performance := (vm_performance s)(a \<mapsto> p)\<rparr>)))"

text \<open>The address is the first twenty bytes of the name, filled up with zeros.\<close>

definition generate_vault_address :: "string \<Rightarrow> address" where
  "generate_vault_address name = fold (\<lambda>b a. 256 * a + b) (take 20 (map of_char name @ replicate 20 0)) 0"

record vault_request =
  vr_manager :: address
  vr_name :: string
  vr_description :: string
  vr_strategy :: vault_strategy
  vr_performance_fee :: u32
  vr_management_fee :: u32
  vr_min_deposit :: u256
  vr_lock_period :: u64

definition vault_of :: "u64 \<Rightarrow> vault_request \<Rightarrow> vault" where
  "vault_of now q = \<lparr> va_address = generate_vault_address (vr_name q), va_name = vr_name q, va_description = vr_description q,
     va_manager = vr_manager q, va_locked = 0, va_share_price = 1000000, va_shares = 0,
     va_performance_fee = vr_performance_fee q, va_management_fee = vr_management_fee q, va_min_deposit = vr_min_deposit q,
     va_lock_period = vr_lock_period q, va_strategy = vr_strategy q, va_created = now, va_rebalanced = now \<rparr>"

definition create_vault :: "u64 \<Rightarrow> vault_request \<Rightarrow> vault_manager \<Rightarrow> (hl_error, address) outcome \<times> vault_manager" where
  "create_vault now q s =
     (if 5000 < vr_performance_fee q then (Err (HL_Api ''Performance fee too high''), s)
      else if 500 < vr_management_fee q then (Err (HL_Api ''Management fee too high''), s)
      else let a = generate_vault_address (vr_name q)
           in (Ok a, s\<lparr>vm_vaults := AList.update a (vault_of now q) (vm_vaults s)\<rparr>))"

definition list_vaults :: "vault_manager \<Rightarrow> vault list" where
  "list_vaults s = map snd (vm_vaults s)"

definition rebalance_vault :: "u64 \<Rightarrow> address \<Rightarrow> address \<Rightarrow> vault_manager \<Rightarrow> (hl_error, unit) outcome \<times> vault_manager" where
  "rebalance_vault now a manager s =
     and_then (get_vault a s) (\<lambda>v s.
       if va_manager v \<noteq> manager then (Err HL_Unauthorized, s)
       else if now - va_rebalanced v < 3600 then (Err (HL_Api ''Too soon to rebalance''), s)
       else (Ok (), s\<lparr>vm_vaults := AList.update a (v\<lparr>va_rebalanced := now\<rparr>) (vm_vaults s)\<rparr>))"

datatype vault_call =
    V_Deposit u64 "(hl_error, user_state) outcome" h256 address address u256
  | V_Withdraw u64 h256 address address u256
  | V_Performance address
  | V_Create u64 vault_request
  | V_Rebalance u64 address address

fun vault_step :: "vault_call \<Rightarrow> vault_manager \<Rightarrow> vault_manager" where
  "vault_step (V_Deposit now answer hash account a amount) s = snd (vault_deposit_call now answer hash account a amount s)"
| "vault_step (V_Withdraw now hash account a shares) s = snd (vault_withdraw now hash account a shares s)"
| "vault_step (V_Performance a) s = snd (get_performance a s)"
| "vault_step (V_Create now q) s = snd (create_vault now q s)"
| "vault_step (V_Rebalance now a manager) s = snd (rebalance_vault now a manager s)"

section \<open>The value of a share\<close>

text \<open>A vault has value exactly when it has shares, and its fee is at most half.\<close>

definition vault_wf :: "vault \<Rightarrow> bool" where
  "vault_wf v \<longleftrightarrow> (va_shares v = 0 \<longleftrightarrow> va_locked v = 0) \<and> va_performance_fee v \<le> 5000"

text \<open>\<open>keeps_value v v'\<close>: a share of \<open>v'\<close> is worth at least what a share of \<open>v\<close> is, cross-multiplied.\<close>

definition keeps_value :: "vault \<Rightarrow> vault \<Rightarrow> bool" where
  "keeps_value v v' \<longleftrightarrow> unat (va_locked v) * unat (va_shares v') \<le> unat (va_locked v') * unat (va_shares v)"

lemma keeps_value_same: "va_locked v' = va_locked v \<Longrightarrow> va_shares v' = va_shares v \<Longrightarrow> keeps_value v v'"
  by (simp add: keeps_value_def)

lemma shares_for_deposit_bound:
  assumes "vault_wf v" "calculate_shares_for_deposit v amount = Some x"
  shows "unat (va_locked v) * unat x \<le> unat amount * unat (va_shares v)"
  using assms by (auto simp: calculate_shares_for_deposit_def vault_wf_def bind_eq_Some_conv checked_ops split: if_splits)

lemma withdrawal_amount_bound:
  assumes "calculate_withdrawal_amount v shares = Some x"
  shows "unat x * unat (va_shares v) \<le> unat shares * unat (va_locked v)"
  using assms by (auto simp: calculate_withdrawal_amount_def bind_eq_Some_conv checked_ops split: if_splits)

text \<open>The two intermediate states of a deposit.\<close>

lemma deposit_keeps_value:
  assumes wf: "vault_wf v" and x: "calculate_shares_for_deposit v amount = Some x" and l: "uadd (va_locked v) amount = Some l"
  shows "va_shares v \<noteq> 0 \<Longrightarrow> vault_wf (v\<lparr>va_locked := l\<rparr>)"
    and "keeps_value v (v\<lparr>va_locked := l\<rparr>)"
    and "uadd (va_shares v) x = Some n \<Longrightarrow> vault_wf (v\<lparr>va_locked := l, va_shares := n\<rparr>) \<and> keeps_value v (v\<lparr>va_locked := l, va_shares := n\<rparr>)"
proof -
  have l': "unat l = unat (va_locked v) + unat amount" using l by (simp add: checked_ops)
  show "keeps_value v (v\<lparr>va_locked := l\<rparr>)" by (simp add: keeps_value_def l')
  show "vault_wf (v\<lparr>va_locked := l\<rparr>)" if "va_shares v \<noteq> 0"
  proof -
    have "va_locked v \<noteq> 0" using wf that by (simp add: vault_wf_def)
    then have "l \<noteq> 0" using l' by (simp add: unat_eq_zero [symmetric])
    with wf that show ?thesis by (simp add: vault_wf_def)
  qed
  assume "uadd (va_shares v) x = Some n"
  then have n: "unat n = unat (va_shares v) + unat x" by (simp add: checked_ops)
  have "n = 0 \<longleftrightarrow> l = 0"
  proof (cases "va_shares v = 0")
    case True
    then have "va_locked v = 0" "x = amount" using wf x by (auto simp: vault_wf_def calculate_shares_for_deposit_def)
    with True l' n have "unat n = unat l" by simp
    then show ?thesis by (simp add: word_unat_eq_iff)
  next
    case False
    then have "va_locked v \<noteq> 0" using wf by (simp add: vault_wf_def)
    with False l' n show ?thesis by (metis add_is_0 unat_eq_zero)
  qed
  moreover have "keeps_value v (v\<lparr>va_locked := l, va_shares := n\<rparr>)"
    using shares_for_deposit_bound [OF wf x] by (simp add: keeps_value_def l' n algebra_simps)
  ultimately show "vault_wf (v\<lparr>va_locked := l, va_shares := n\<rparr>) \<and> keeps_value v (v\<lparr>va_locked := l, va_shares := n\<rparr>)"
    using wf by (simp add: vault_wf_def)
qed

text \<open>A deposit whose shares overflow leaves shares behind, so the vault had some.\<close>

lemma overflowing_shares: "uadd (va_shares v) x = None \<Longrightarrow> va_shares v \<noteq> 0"
  using unat_less_256 [of x] by (auto simp: uadd_None)

lemma withdrawal_keeps_value:
  assumes wf: "vault_wf v" and x: "calculate_withdrawal_amount v shares = Some x"
  defines "v' \<equiv> v\<lparr>va_locked := (if x < va_locked v then va_locked v - x else 0), va_shares := (if shares < va_shares v then va_shares v - shares else 0)\<rparr>"
  shows "vault_wf v' \<and> keeps_value v v' \<and> unat (va_shares v') = unat (va_shares v) - unat shares \<and> va_locked v' \<le> va_locked v"
proof -
  have b: "unat x * unat (va_shares v) \<le> unat shares * unat (va_locked v)" using withdrawal_amount_bound [OF x] .
  have l: "unat (va_locked v') = unat (va_locked v) - unat x" and n: "unat (va_shares v') = unat (va_shares v) - unat shares"
    by (auto simp: v'_def unat_sub word_less_nat_alt word_le_nat_alt not_less)
  have "unat (va_shares v') = 0 \<longleftrightarrow> unat (va_locked v') = 0"
  proof (cases "va_shares v = 0")
    case True
    then show ?thesis using wf n l by (simp add: vault_wf_def)
  next
    case False
    then have S: "0 < unat (va_shares v)" and L: "0 < unat (va_locked v)" using wf by (auto simp: vault_wf_def unat_gt_0)
    have xv: "unat x = unat shares * unat (va_locked v) div unat (va_shares v)"
      using x False by (auto simp: calculate_withdrawal_amount_def bind_eq_Some_conv checked_ops)
    show ?thesis
    proof (cases "unat shares < unat (va_shares v)")
      case True
      then have "unat shares * unat (va_locked v) < unat (va_locked v) * unat (va_shares v)" using L by (simp add: mult.commute)
      with b have "unat x * unat (va_shares v) < unat (va_locked v) * unat (va_shares v)" by (rule le_less_trans)
      then have "unat x < unat (va_locked v)" using S by simp
      then show ?thesis using True l n by simp
    next
      case False
      then have "unat (va_locked v) * unat (va_shares v) \<le> unat shares * unat (va_locked v)" by (simp add: mult.commute)
      then have "unat (va_locked v) \<le> unat x" using S unfolding xv by (simp only: less_eq_div_iff_mult_less_eq)
      with False l n show ?thesis by simp
    qed
  qed
  then have "va_shares v' = 0 \<longleftrightarrow> va_locked v' = 0" by (simp add: unat_eq_zero)
  moreover have "keeps_value v v'"
  proof -
    have "unat (va_locked v) * (unat (va_shares v) - unat shares) \<le> (unat (va_locked v) - unat x) * unat (va_shares v)"
      using b unfolding diff_mult_distrib diff_mult_distrib2 by (simp only: mult.commute [of "unat (va_locked v)" "unat shares"] diff_le_mono2)
    then show ?thesis by (simp add: keeps_value_def l n)
  qed
  moreover have "va_locked v' \<le> va_locked v" by (simp add: word_le_nat_alt l)
  ultimately show ?thesis using wf n by (simp add: vault_wf_def v'_def)
qed

section \<open>Every call keeps the value of the shares\<close>

definition vaults_wf :: "vault_manager \<Rightarrow> bool" where
  "vaults_wf s \<longleftrightarrow> (\<forall>a v. map_of (vm_vaults s) a = Some v \<longrightarrow> vault_wf v)"

text \<open>\<open>good_change s s'\<close>: each vault of \<open>s'\<close> is one of \<open>s\<close> whose shares have kept their value.\<close>

definition good_change :: "vault_manager \<Rightarrow> vault_manager \<Rightarrow> bool" where
  "good_change s s' \<longleftrightarrow> (\<forall>a v'. map_of (vm_vaults s') a = Some v' \<longrightarrow>
     vault_wf v' \<and> (\<exists>v. map_of (vm_vaults s) a = Some v \<and> keeps_value v v'))"

lemma good_change_same: "vaults_wf s \<Longrightarrow> vm_vaults s' = vm_vaults s \<Longrightarrow> good_change s s'"
  by (auto simp: good_change_def vaults_wf_def intro: keeps_value_same)

lemma good_change_update:
  assumes "vaults_wf s" "map_of (vm_vaults s) a = Some v" "vault_wf w" "keeps_value v w" "vm_vaults s' = AList.update a w (vm_vaults s)"
  shows "good_change s s'"
  using assms by (auto simp: good_change_def vaults_wf_def update_conv' intro: keeps_value_same)

lemma deposit_good:
  assumes wf: "vaults_wf s"
  shows "good_change s (snd (vault_deposit_call now answer hash account a amount s))"
proof (cases "map_of (vm_vaults s) a")
  case None
  then show ?thesis by (simp add: vault_deposit_call_def get_vault_def good_change_same [OF wf])
next
  case (Some v)
  have v: "vault_wf v" using wf Some by (simp add: vaults_wf_def)
  note same = good_change_same [OF wf] and upd = good_change_update [OF wf Some]
  obtain r c where "get_account_info now answer account (vm_connector s) = (r, c)" by fastforce
  then have i: "vault_account now answer account s = (r, s\<lparr>vm_connector := c\<rparr>)" by (simp add: vault_account_def)
  show ?thesis
  proof (cases "is_ok r \<and> \<not> amount < va_min_deposit v")
    case False
    then show ?thesis
      by (cases r) (simp_all add: vault_deposit_call_def get_vault_def Some i same)
  next
    case True
    then obtain ai where r: "r = Ok ai" by (auto simp: is_ok_iff)
    show ?thesis
    proof (cases "calculate_shares_for_deposit v amount")
      case None
      with True show ?thesis by (simp add: vault_deposit_call_def get_vault_def Some i r same)
    next
      case x: (Some x)
      show ?thesis
      proof (cases "uadd (va_locked v) amount")
        case None
        with True x show ?thesis by (simp add: vault_deposit_call_def get_vault_def Some i r Let_def same)
      next
        case l: (Some l)
        note k = deposit_keeps_value [OF v x l]
        show ?thesis
        proof (cases "uadd (va_shares v) x")
          case None
          with True x l k(1) [OF overflowing_shares [OF None]] k(2) show ?thesis
            by (auto simp: vault_deposit_call_def get_vault_def Some i r Let_def intro: same upd)
        next
          case n: (Some n)
          with True x l k(3) [OF n] show ?thesis
            by (auto simp: vault_deposit_call_def get_vault_def Some i r Let_def intro: same upd)
        qed
      qed
    qed
  qed
qed

lemma snd_if: "(b \<Longrightarrow> I (snd x)) \<Longrightarrow> (\<not> b \<Longrightarrow> I (snd y)) \<Longrightarrow> I (snd (if b then x else y))"
  by simp

lemma snd_option_case:
  "(m = None \<Longrightarrow> I (snd x)) \<Longrightarrow> (\<And>y. m = Some y \<Longrightarrow> I (snd (f y))) \<Longrightarrow> I (snd (case m of None \<Rightarrow> x | Some y \<Rightarrow> f y))"
  by (cases m) simp_all

lemma withdraw_good:
  assumes wf: "vaults_wf s"
  shows "good_change s (snd (vault_withdraw now hash account a shares s))"
proof (cases "map_of (vm_vaults s) a")
  case None
  then show ?thesis by (simp add: vault_withdraw_def get_vault_def good_change_same [OF wf])
next
  case (Some v)
  have v: "vault_wf v" using wf Some by (simp add: vaults_wf_def)
  have s: "good_change s s" by (rule good_change_same [OF wf]) simp
  note I = snd_or_panic [where I = "good_change s"] snd_if [where I = "good_change s"] snd_option_case [where I = "good_change s"]
  have last: "good_change s (s\<lparr>vm_vaults := AList.update a (v\<lparr>va_locked := (if x < va_locked v then va_locked v - x else 0),
      va_shares := (if shares < va_shares v then va_shares v - shares else 0)\<rparr>) (vm_vaults s), vm_deposits := ds\<rparr>)"
    if x: "calculate_withdrawal_amount v shares = Some x" for x ds
    by (rule good_change_update [OF wf Some]) (use withdrawal_keeps_value [OF v x] in simp_all)
  show ?thesis
    unfolding vault_withdraw_def get_vault_def Some option.case and_then.simps Let_def
    by (intro I; (simp only: snd_conv s)?; rule last)
qed

lemma other_calls_good:
  assumes wf: "vaults_wf s"
  shows "good_change s (snd (get_performance a s))" "good_change s (snd (rebalance_vault now a m s))"
proof -
  show "good_change s (snd (get_performance a s))"
    by (auto simp: get_performance_def get_vault_def Let_def intro: good_change_same [OF wf] split: option.split)
  show "good_change s (snd (rebalance_vault now a m s))"
  proof (cases "map_of (vm_vaults s) a")
    case None
    then show ?thesis by (simp add: rebalance_vault_def get_vault_def good_change_same [OF wf])
  next
    case (Some v)
    have "vault_wf (v\<lparr>va_rebalanced := now\<rparr>)" using wf Some by (auto simp: vaults_wf_def vault_wf_def)
    from good_change_update [OF wf Some this] show ?thesis
      by (simp add: rebalance_vault_def get_vault_def Some good_change_same [OF wf] keeps_value_same)
  qed
qed

lemma create_vaults:
  "map_of (vm_vaults (snd (create_vault now q s))) a = Some v \<Longrightarrow>
     map_of (vm_vaults s) a = Some v \<or> a = generate_vault_address (vr_name q) \<and> v = vault_of now q \<and> vault_wf v"
  by (auto simp: create_vault_def Let_def update_conv' vault_of_def vault_wf_def not_less split: if_splits)

text \<open>The address a call may file a new vault under.\<close>

fun creates :: "vault_call \<Rightarrow> address option" where
  "creates (V_Create now q) = Some (generate_vault_address (vr_name q))"
| "creates _ = None"

lemma vault_step_good: "vaults_wf s \<Longrightarrow> creates c = None \<Longrightarrow> good_change s (vault_step c s)"
  by (cases c) (simp_all add: deposit_good withdraw_good other_calls_good)

lemma vaults_wf_step: "vaults_wf s \<Longrightarrow> vaults_wf (vault_step c s)"
proof (cases "creates c")
  case None
  assume "vaults_wf s"
  from vault_step_good [OF this None] show ?thesis by (auto simp: good_change_def vaults_wf_def)
next
  case (Some a)
  assume wf: "vaults_wf s"
  from Some obtain now q where c: "c = V_Create now q" by (cases c) auto
  show ?thesis unfolding vaults_wf_def
  proof (intro allI impI)
    fix b v
    assume "map_of (vm_vaults (vault_step c s)) b = Some v"
    then have "map_of (vm_vaults s) b = Some v \<or> vault_wf v" using create_vaults [of now q s b v] by (auto simp: c)
    with wf show "vault_wf v" by (auto simp: vaults_wf_def)
  qed
qed

interpretation vault_runs: invariant_of vault_step "\<lambda>_ _. True" vaults_wf
  by unfold_locales (rule vaults_wf_step)

lemma vaults_wf_reachable: "vaults_wf (run vault_step cs (vault_manager_new c))"
  by (rule vault_runs.inv_run [OF _ run_ok_always]) (simp add: vaults_wf_def vault_manager_new_def)

text \<open>
  C20: in every run no call lowers what a share of a vault is worth, whatever its outcome, panics between the two sums of a
  deposit included; only the creation of a vault under the same address starts it anew.
\<close>

theorem no_call_lowers_the_share_value:
  assumes "s = run vault_step cs (vault_manager_new c)" and "creates call \<noteq> Some a"
    and "map_of (vm_vaults s) a = Some v" and "map_of (vm_vaults (vault_step call s)) a = Some v'"
  shows "unat (va_locked v) * unat (va_shares v') \<le> unat (va_locked v') * unat (va_shares v)"
proof -
  have wf: "vaults_wf s" using vaults_wf_reachable assms(1) by simp
  show ?thesis
  proof (cases "creates call")
    case None
    from vault_step_good [OF wf None] assms(3,4) show ?thesis by (fastforce simp: good_change_def keeps_value_def)
  next
    case (Some b)
    then obtain now q where call: "call = V_Create now q" "b = generate_vault_address (vr_name q)" by (cases call) auto
    with Some assms(2-4) create_vaults [of now q s a v'] show ?thesis by auto
  qed
qed

text \<open>A connector without markets, and a request for a vault.\<close>

definition sample_connector :: connector where
  "sample_connector = \<lparr> hc_limiter = limiter_new 100 60, hc_markets = [], hc_positions = [], hc_orders = [] \<rparr>"

definition sample_request :: vault_request where
  "sample_request = \<lparr> vr_manager = 9, vr_name = ''v'', vr_description = [], vr_strategy = Mixed_Strategy, vr_performance_fee = 1000,
     vr_management_fee = 100, vr_min_deposit = 1, vr_lock_period = 10 \<rparr>"

abbreviation sample_vault :: address where
  "sample_vault \<equiv> generate_vault_address ''v''"

text \<open>Two users with a hundred shares each.\<close>

definition two_depositors :: "vault_call list" where
  "two_depositors = [V_Create 5 sample_request, V_Deposit 5 (Ok sample_state) 1 7 sample_vault 100,
     V_Deposit 6 (Ok sample_state) 2 8 sample_vault 100]"

lemma two_depositors_vault:
  "\<exists>c p. run vault_step two_depositors (vault_manager_new sample_connector) =
     \<lparr> vm_connector = c,
       vm_vaults = [(sample_vault, (vault_of 5 sample_request)\<lparr>va_locked := 200, va_shares := 200\<rparr>)],
       vm_deposits = [(7, [vault_deposit_of 5 1 7 sample_vault (vault_of 5 sample_request) 100 100]),
                      (8, [vault_deposit_of 6 2 8 sample_vault (vault_of 5 sample_request) 100 100])], vm_performance = p \<rparr>"
  by (simp add: two_depositors_def vault_manager_new_def create_vault_def sample_request_def Let_def vault_deposit_call_def get_vault_def
      vault_account_def sample_balance sample_connector_def check_rate_limit_def limiter_new_def calculate_shares_for_deposit_def
      vault_of_def user_deposits_of_def uadd_def umul_def udiv_def vault_deposit_of_def)

section \<open>Withdrawals that are not charged\<close>

lemma withdrawal_fee:
  assumes "vault_wf v" "unat x * 5000 < 2 ^ 256"
  shows "\<exists>fee received. performance_fee_of v x = Some fee \<and> usub x fee = Some received"
proof -
  have f: "unat (ucast (va_performance_fee v) :: u256) \<le> 5000"
  proof -
    have "unat (ucast (va_performance_fee v) :: u256) = unat (va_performance_fee v)" by simp
    then show ?thesis using assms(1) by (simp add: vault_wf_def word_le_nat_alt)
  qed
  have le: "unat x * unat (ucast (va_performance_fee v) :: u256) \<le> unat x * 5000" using f by simp
  from le assms(2) have lt: "unat x * unat (ucast (va_performance_fee v) :: u256) < 2 ^ 256" by (rule le_less_trans)
  then obtain y where y: "umul x (ucast (va_performance_fee v)) = Some y" by (simp add: umul_def del: unat_ucast_u32)
  then obtain fee where fee: "udiv y 10000 = Some fee" by (cases "udiv y 10000") (auto simp: udiv_None)
  have "unat fee = unat y div 10000" using fee by (simp add: checked_ops)
  moreover have "unat y \<le> unat x * 5000" using y le by (simp add: checked_ops)
  ultimately have "unat fee \<le> unat x" by linarith
  then obtain r where "usub x fee = Some r" by (cases "usub x fee") (auto simp: usub_None)
  with y fee show ?thesis by (simp add: performance_fee_of_def)
qed

lemma withdrawal_amount:
  assumes "vault_wf v" "unat shares * unat (va_locked v) < 2 ^ 256"
  shows "\<exists>x. calculate_withdrawal_amount v shares = Some x \<and> unat x \<le> unat shares * unat (va_locked v)"
proof (cases "va_shares v = 0")
  case False
  obtain y where y: "umul shares (va_locked v) = Some y" using assms(2) by (cases "umul shares (va_locked v)") (auto simp: umul_None)
  with False obtain x where x: "udiv y (va_shares v) = Some x" by (cases "udiv y (va_shares v)") (auto simp: udiv_None)
  from y x have "unat x \<le> unat shares * unat (va_locked v)" by (simp add: checked_ops)
  with y x False show ?thesis by (simp add: calculate_withdrawal_amount_def)
qed (simp add: calculate_withdrawal_amount_def)

lemma held_shares:
  assumes "list_ex (\<lambda>d. de_vault d = a \<and> de_unlock d \<le> now) ds" "list_all (\<lambda>d. de_vault d = a \<longrightarrow> shares < de_shares d) ds"
    and "sum_checked 0 (map de_shares (filter (\<lambda>d. de_vault d = a) ds)) = Some held"
  shows "shares \<le> held"
proof -
  obtain d where d: "d \<in> set ds" "de_vault d = a" using assms(1) by (auto simp: list_ex_iff)
  then have "unat shares < unat (de_shares d)" using assms(2) by (auto simp: list_all_iff word_less_nat_alt)
  also have "\<dots> \<le> sum_list (map unat (map de_shares (filter (\<lambda>d. de_vault d = a) ds)))"
    using d by (intro member_le_sum_list) auto
  also have "\<dots> = unat held" using assms(3) by (simp add: sum_checked_Some)
  finally show ?thesis by (simp add: word_le_nat_alt)
qed

text \<open>What a user with more than \<open>shares\<close> in each of its deposits finds, before and after a withdrawal of them.\<close>

definition can_withdraw :: "u64 \<Rightarrow> address \<Rightarrow> address \<Rightarrow> u256 \<Rightarrow> vault_deposit list \<Rightarrow> vault_manager \<Rightarrow> bool" where
  "can_withdraw now account a shares ds s \<longleftrightarrow> map_of (vm_deposits s) account = Some ds \<and>
     list_all (\<lambda>d. de_vault d = a \<longrightarrow> shares < de_shares d) ds \<and> list_ex (\<lambda>d. de_vault d = a \<and> de_unlock d \<le> now) ds \<and>
     sum_checked 0 (map de_shares (filter (\<lambda>d. de_vault d = a) ds)) \<noteq> None"

lemma withdrawal_changes_no_deposit:
  assumes c: "can_withdraw now account a shares ds s" and v: "map_of (vm_vaults s) a = Some v" "vault_wf v"
    and small: "unat shares * unat (va_locked v) * 5000 < 2 ^ 256"
  shows "\<exists>s' v'. vault_withdraw now hash account a shares s = (Ok hash, s') \<and> can_withdraw now account a shares ds s' \<and>
     map_of (vm_vaults s') a = Some v' \<and> vault_wf v' \<and> unat (va_shares v') = unat (va_shares v) - unat shares \<and> va_locked v' \<le> va_locked v"
proof -
  have ds: "map_of (vm_deposits s) account = Some ds" and all: "list_all (\<lambda>d. de_vault d = a \<longrightarrow> shares < de_shares d) ds"
    and ex: "list_ex (\<lambda>d. de_vault d = a \<and> de_unlock d \<le> now) ds" using c by (simp_all add: can_withdraw_def)
  obtain held where held: "sum_checked 0 (map de_shares (filter (\<lambda>d. de_vault d = a) ds)) = Some held" using c by (auto simp: can_withdraw_def)
  have "\<not> held < shares" using held_shares [OF ex all held] by simp
  moreover have "find (\<lambda>d. de_vault d = a \<and> de_unlock d \<le> now) ds \<noteq> None" using ex by (auto simp: find_None_iff list_ex_iff)
  moreover obtain x where x: "calculate_withdrawal_amount v shares = Some x" "unat x \<le> unat shares * unat (va_locked v)"
    using withdrawal_amount [OF v(2), of shares] small by auto
  moreover obtain fee r where "performance_fee_of v x = Some fee" "usub x fee = Some r"
    using withdrawal_fee [OF v(2), of x] x(2) small by force
  moreover have keep: "filter (\<lambda>d. de_vault d \<noteq> a \<or> shares < de_shares d) ds = ds" using all by (auto simp: filter_id_conv list_all_iff)
  ultimately have w: "vault_withdraw now hash account a shares s = (Ok hash, s\<lparr>vm_vaults := AList.update a
      (v\<lparr>va_locked := (if x < va_locked v then va_locked v - x else 0), va_shares := (if shares < va_shares v then va_shares v - shares else 0)\<rparr>)
      (vm_vaults s), vm_deposits := AList.update account ds (vm_deposits s)\<rparr>)"
    by (simp add: vault_withdraw_def get_vault_def v(1) get_user_shares_def user_deposits_of_def ds held Let_def)
  from withdrawal_keeps_value [OF v(2) x(1)] c show ?thesis unfolding w by (simp add: can_withdraw_def update_conv')
qed

lemma withdrawals_go_on:
  assumes "can_withdraw now account a shares ds s" "map_of (vm_vaults s) a = Some v" "vault_wf v"
    and "unat shares * unat (va_locked v) * 5000 < 2 ^ 256"
  shows "\<exists>v'. can_withdraw now account a shares ds (run vault_step (replicate n (V_Withdraw now hash account a shares)) s) \<and>
     map_of (vm_vaults (run vault_step (replicate n (V_Withdraw now hash account a shares)) s)) a = Some v' \<and> vault_wf v' \<and>
     unat (va_shares v') = unat (va_shares v) - n * unat shares"
  using assms
proof (induction n arbitrary: s v)
  case (Suc n)
  obtain s' v' where s': "vault_withdraw now hash account a shares s = (Ok hash, s')" "can_withdraw now account a shares ds s'"
    "map_of (vm_vaults s') a = Some v'" "vault_wf v'" "unat (va_shares v') = unat (va_shares v) - unat shares" "va_locked v' \<le> va_locked v"
    using withdrawal_changes_no_deposit [OF Suc.prems] by blast
  have "unat shares * unat (va_locked v') * 5000 \<le> unat shares * unat (va_locked v) * 5000" using s'(6) by (simp add: word_le_nat_alt)
  with Suc.prems(4) have "unat shares * unat (va_locked v') * 5000 < 2 ^ 256" by linarith
  from Suc.IH [OF s'(2-4) this] s'(1,5) show ?case by (simp add: diff_diff_eq)
qed simp

text \<open>
  C21: a user whose deposits each have more shares than a withdrawal asks for can repeat the withdrawal until the vault is
  empty, whoever deposited the rest: its own deposits are never reduced.
\<close>

theorem partial_withdrawals_empty_the_vault:
  assumes "s = run vault_step cs (vault_manager_new c)"
    and "map_of (vm_vaults s) a = Some v" and "map_of (vm_deposits s) account = Some ds"
    and "list_all (\<lambda>d. de_vault d = a \<longrightarrow> shares < de_shares d) ds" and "list_ex (\<lambda>d. de_vault d = a \<and> de_unlock d \<le> now) ds"
    and "get_user_shares account a s \<noteq> None" and "unat shares * unat (va_locked v) * 5000 < 2 ^ 256"
    and "unat (va_shares v) \<le> n * unat shares"
  shows "map_option va_locked (map_of (vm_vaults (run vault_step (replicate n (V_Withdraw now hash account a shares)) s)) a) = Some 0
    \<and> map_of (vm_deposits (run vault_step (replicate n (V_Withdraw now hash account a shares)) s)) account = Some ds"
proof -
  have "vault_wf v" using vaults_wf_reachable [of cs c] assms(1,2) by (simp add: vaults_wf_def)
  moreover have "can_withdraw now account a shares ds s"
    using assms(3-6) by (simp add: can_withdraw_def get_user_shares_def user_deposits_of_def)
  ultimately obtain v' where v': "can_withdraw now account a shares ds (run vault_step (replicate n (V_Withdraw now hash account a shares)) s)"
    "map_of (vm_vaults (run vault_step (replicate n (V_Withdraw now hash account a shares)) s)) a = Some v'" "vault_wf v'"
    "unat (va_shares v') = unat (va_shares v) - n * unat shares"
    using withdrawals_go_on [of now account a shares ds s v n hash] assms(2,7) by blast
  have "va_shares v' = 0" using v'(4) assms(8) by (simp add: unat_eq_zero [symmetric])
  with v'(1-3) show ?thesis by (simp add: vault_wf_def can_withdraw_def)
qed

theorem partial_withdrawals_empty_the_vault_witness:
  "map_option va_locked (map_of (vm_vaults (run vault_step (replicate 3 (V_Withdraw 20 3 7 sample_vault 99))
     (run vault_step two_depositors (vault_manager_new sample_connector)))) sample_vault) = Some 0"
proof -
  obtain s where s: "s = run vault_step two_depositors (vault_manager_new sample_connector)" by simp
  have ds: "map_of (vm_deposits s) 7 = Some [vault_deposit_of 5 1 7 sample_vault (vault_of 5 sample_request) 100 100]"
    and v: "map_of (vm_vaults s) sample_vault = Some ((vault_of 5 sample_request)\<lparr>va_locked := 200, va_shares := 200\<rparr>)"
    using two_depositors_vault s by auto
  have "get_user_shares 7 sample_vault s = Some 100"
    by (simp add: get_user_shares_def user_deposits_of_def ds vault_deposit_of_def uadd_def)
  with partial_withdrawals_empty_the_vault [OF s v ds, of 99 20 3 3] show ?thesis unfolding s
    by (simp add: vault_deposit_of_def vault_of_def sample_request_def)
qed

theorem no_call_lowers_the_share_value_witness:
  "\<exists>v v'. map_of (vm_vaults (run vault_step two_depositors (vault_manager_new sample_connector))) sample_vault = Some v
     \<and> map_of (vm_vaults (vault_step (V_Withdraw 20 3 7 sample_vault 99)
          (run vault_step two_depositors (vault_manager_new sample_connector)))) sample_vault = Some v'
     \<and> unat (va_locked v) * unat (va_shares v') \<le> unat (va_locked v') * unat (va_shares v)"
proof -
  obtain s where s: "s = run vault_step two_depositors (vault_manager_new sample_connector)" by simp
  let ?c = "V_Withdraw 20 3 7 sample_vault 99"
  have ds: "map_of (vm_deposits s) 7 = Some [vault_deposit_of 5 1 7 sample_vault (vault_of 5 sample_request) 100 100]"
    and v: "map_of (vm_vaults s) sample_vault = Some ((vault_of 5 sample_request)\<lparr>va_locked := 200, va_shares := 200\<rparr>)"
    using two_depositors_vault s by auto
  have "vault_wf ((vault_of 5 sample_request)\<lparr>va_locked := 200, va_shares := 200\<rparr>)"
    by (simp add: vault_wf_def vault_of_def sample_request_def)
  moreover have "can_withdraw 20 7 sample_vault 99 [vault_deposit_of 5 1 7 sample_vault (vault_of 5 sample_request) 100 100] s"
    using ds by (simp add: can_withdraw_def vault_deposit_of_def vault_of_def sample_request_def uadd_def)
  ultimately obtain s' v' where "vault_withdraw 20 3 7 sample_vault 99 s = (Ok 3, s')" "map_of (vm_vaults s') sample_vault = Some v'"
    using withdrawal_changes_no_deposit [of 20 7 sample_vault 99 _ s _ 3] v by force
  then have v': "map_of (vm_vaults (vault_step ?c s)) sample_vault = Some v'" by simp
  have "creates ?c \<noteq> Some sample_vault" by simp
  from no_call_lowers_the_share_value [OF s this v v'] v v' show ?thesis unfolding s by blast
qed

text \<open>Names that agree in their first twenty bytes share an address: the second vault replaces the first, deposits and all.\<close>

lemma equal_prefixes_share_an_address:
  assumes "take 20 n = take 20 m" "20 \<le> length n" "20 \<le> length m"
  shows "generate_vault_address n = generate_vault_address m"
  using assms by (simp add: generate_vault_address_def take_map)

lemma created_vaults_are_empty:
  assumes "fst (create_vault now q s) = Ok a"
  shows "map_option va_locked (map_of (vm_vaults (snd (create_vault now q s))) a) = Some 0 \<and> vm_deposits (snd (create_vault now q s)) = vm_deposits s"
  using assms by (auto simp: create_vault_def Let_def vault_of_def update_conv' split: if_splits)

text \<open>The first report about a vault is kept for ever.\<close>

lemma first_report_is_kept:
  assumes "vm_performance s a = Some p"
  shows "fst (get_performance a (run vault_step cs s)) = Ok p"
proof -
  have step: "vm_performance (vault_step c s) a = Some p" if "vm_performance s a = Some p" for c s
  proof (cases c)
    case (V_Deposit now answer hash account b amount)
    have "vm_performance (snd (vault_account now answer account s)) = vm_performance s" for s
      by (simp add: vault_account_def split: prod.split)
    then show ?thesis using that unfolding V_Deposit vault_step.simps vault_deposit_call_def get_vault_def
      by (auto simp: Let_def intro!: snd_and_then [where I = "\<lambda>s. vm_performance s a = Some p"] snd_or_panic [where I = "\<lambda>s. vm_performance s a = Some p"]
          split: option.split if_splits) (metis snd_conv)+
  next
    case (V_Withdraw now hash account b shares)
    then show ?thesis using that
      by (auto simp: vault_withdraw_def get_vault_def Let_def intro!: snd_or_panic [where I = "\<lambda>s. vm_performance s a = Some p"] split: option.split)
  qed (use that in \<open>auto simp: get_performance_def create_vault_def rebalance_vault_def get_vault_def Let_def split: option.split\<close>)
  have "vm_performance (run vault_step cs s) a = Some p" using assms by (induction cs arbitrary: s) (simp_all add: step)
  then show ?thesis by (simp add: get_performance_def)
qed

section \<open>The integration\<close>

text \<open>
  The front of \<^verbatim>\<open>src/hyperliquid/mod.rs\<close>. Order manager and vaults share one connector: it is kept with the order manager and
  lent to the vaults for a call. The market data it also forwards to are not modelled.
\<close>

record hl_config =
  max_slippage_bps :: u32
  default_leverage :: u32
  enable_vault_trading :: bool
  enable_spot_trading :: bool

definition hl_config_default :: hl_config where
  "hl_config_default = \<lparr> max_slippage_bps = 50, default_leverage = 10, enable_vault_trading = True, enable_spot_trading = True \<rparr>"

record integration =
  hi_config :: hl_config
  hi_orders :: order_manager
  hi_vaults :: "vault_manager option"

definition integration_new :: "hl_config \<Rightarrow> connector \<Rightarrow> integration" where
  "integration_new cfg c = \<lparr> hi_config = cfg, hi_orders = order_manager_new c,
     hi_vaults = (if enable_vault_trading cfg then Some (vault_manager_new c) else None) \<rparr>"

definition with_orders ::
  "(order_manager \<Rightarrow> (hl_error, 'a) outcome \<times> order_manager) \<Rightarrow> integration \<Rightarrow> (hl_error, 'a) outcome \<times> integration" where
  "with_orders f s = (case f (hi_orders s) of (r, m) \<Rightarrow> (r, s\<lparr>hi_orders := m\<rparr>))"

definition with_vaults ::
  "(vault_manager \<Rightarrow> (hl_error, 'a) outcome \<times> vault_manager) \<Rightarrow> integration \<Rightarrow> (hl_error, 'a) outcome \<times> integration" where
  "with_vaults f s =
     (case hi_vaults s of
        None \<Rightarrow> (Err HL_Vault_Disabled, s)
      | Some m \<Rightarrow> (case f (m\<lparr>vm_connector := om_connector (hi_orders s)\<rparr>) of
          (r, m') \<Rightarrow> (r, s\<lparr>hi_vaults := Some m', hi_orders := (hi_orders s)\<lparr>om_connector := vm_connector m'\<rparr>\<rparr>)))"

definition place_perpetual_order ::
  "order_ticket \<Rightarrow> address \<Rightarrow> string \<Rightarrow> u256 \<Rightarrow> u32 \<Rightarrow> bool \<Rightarrow> perp_order_type \<Rightarrow> u256 option \<Rightarrow> integration \<Rightarrow>
     (hl_error, h256) outcome \<times> integration" where
  "place_perpetual_order t account symbol sz leverage is_long ty price =
     with_orders (place_order t account symbol sz leverage is_long ty price)"

definition integration_spot_order ::
  "order_ticket \<Rightarrow> address \<Rightarrow> string \<Rightarrow> string \<Rightarrow> u256 \<Rightarrow> bool \<Rightarrow> perp_order_type \<Rightarrow> u256 option \<Rightarrow> integration \<Rightarrow>
     (hl_error, h256) outcome \<times> integration" where
  "integration_spot_order t account base quote amount is_buy ty price s =
     (if \<not> enable_spot_trading (hi_config s) then (Err HL_Spot_Disabled, s)
      else with_orders (place_spot_order t account base quote amount is_buy ty price) s)"

definition integration_close ::
  "(h256 \<Rightarrow> string) \<Rightarrow> (nat \<Rightarrow> h256) \<Rightarrow> order_ticket \<Rightarrow> address \<Rightarrow> h256 \<Rightarrow> bool \<Rightarrow> integration \<Rightarrow>
     (hl_error, h256) outcome \<times> integration" where
  "integration_close show_hash ids t account i reduce_only = with_orders (close_hl_position show_hash ids t account i reduce_only)"

definition integration_leverage ::
  "u64 \<Rightarrow> (u32 \<Rightarrow> (hl_error, unit) outcome) \<Rightarrow> string \<Rightarrow> u32 \<Rightarrow> integration \<Rightarrow> (hl_error, unit) outcome \<times> integration" where
  "integration_leverage now answer symbol leverage = with_orders (with_connector (adjust_leverage now answer symbol leverage))"

definition deposit_to_vault ::
  "u64 \<Rightarrow> (hl_error, user_state) outcome \<Rightarrow> h256 \<Rightarrow> address \<Rightarrow> address \<Rightarrow> u256 \<Rightarrow> integration \<Rightarrow>
     (hl_error, h256) outcome \<times> integration" where
  "deposit_to_vault now answer hash account a amount = with_vaults (vault_deposit_call now answer hash account a amount)"

definition withdraw_from_vault ::
  "u64 \<Rightarrow> h256 \<Rightarrow> address \<Rightarrow> address \<Rightarrow> u256 \<Rightarrow> integration \<Rightarrow> (hl_error, h256) outcome \<times> integration" where
  "withdraw_from_vault now hash account a shares = with_vaults (vault_withdraw now hash account a shares)"

definition get_vault_performance :: "address \<Rightarrow> integration \<Rightarrow> (hl_error, vault_performance) outcome \<times> integration" where
  "get_vault_performance a = with_vaults (get_performance a)"

text \<open>The integration never creates a vault, so each deposit into one that it made itself is refused.\<close>

lemma integration_has_no_vaults:
  assumes "hi_vaults s = map_option (\<lambda>m. m\<lparr>vm_connector := d\<rparr>) (hi_vaults (integration_new cfg c))"
  shows "fst (deposit_to_vault now answer hash account a amount s) =
      Err (if enable_vault_trading cfg then HL_Api ''Vault not found'' else HL_Vault_Disabled)
    \<and> map_option vm_vaults (hi_vaults (snd (deposit_to_vault now answer hash account a amount s))) = map_option vm_vaults (hi_vaults s)"
  using assms by (simp add: integration_new_def deposit_to_vault_def with_vaults_def vault_deposit_call_def get_vault_def vault_manager_new_def)

end
