(* ===== verification/Spec2Isabelle.thy ===== *)
theory Spec2Isabelle
  imports DexRouter DefiEngine PerpetualProps HotStuff OptimisticBftProps MerkleTrieProps ScheduleProps BatchAuctionProps
    PrivatePoolProps MevProtection RollupProps Layer2 Ibc CrossChain LayeredProps Snapshots Privacy Network
    MemoryPools ZeroCopy KeyManagement HyperliquidProps Vaults
begin

text \<open>
  A verification library of \<^verbatim>\<open>dex-blockchain-expert\<close>, a decentralised exchange and blockchain node in Rust. All paths are
  below \<^verbatim>\<open>src/dex-blockchain-expert/src/\<close>.

  \<^bold>\<open>The program.\<close> Transactions change accounts and contract storage (\<^verbatim>\<open>state_machine/\<close>), whose state lives in a Merkle
  Patricia trie and key-value storage (\<^verbatim>\<open>storage/\<close>). Nodes agree on blocks of transactions with one of three consensus
  protocols (\<^verbatim>\<open>consensus/\<close>) and reach each other through \<^verbatim>\<open>network/\<close>. The exchange (\<^verbatim>\<open>dex/\<close>) has automated market makers and
  an order book behind one engine, with routing and protection against front-running around them. The finance modules
  (\<^verbatim>\<open>defi/\<close>) offer flash loans, perpetual futures, options, lending and yield. Rollups and data availability (\<^verbatim>\<open>layer2/\<close>),
  bridges (\<^verbatim>\<open>cross_chain/\<close>) and shielded transactions (\<^verbatim>\<open>privacy/\<close>) surround this core.

  \<^bold>\<open>The theories.\<close> A record carries the fields of the struct of nearly the same name, a definition the body of the function of
  the same name. Theories whose name ends in \<open>Props\<close> hold the longer proofs about the theory they are named after.
  \<^item> \<open>Prelude\<close>: outcomes of calls, lock guards, checked arithmetic, association lists, runs of calls, and the locale
    \<open>invariant_of\<close>: an invariant that every permitted call keeps holds in every run. It is interpreted by the components.
  \<^item> \<open>Amm\<close>: \<^verbatim>\<open>dex/amm.rs\<close>. The square root, the product of the reserves, the LP supply, fair redemption.
  \<^item> \<open>OrderBook\<close>, \<open>OrderMatching\<close>, \<open>OrderBookProps\<close>: \<^verbatim>\<open>dex/orderbook.rs\<close>. The view of a side as one queue, the queue walk as the
    specification of matching; the book invariant, conservation, limits, cancellation and the market estimate.
  \<^item> \<open>DexEngine\<close>: \<^verbatim>\<open>dex/mod.rs\<close> and \<^verbatim>\<open>dex/matching_engine.rs\<close>, on pools and book; its invariant is built from theirs.
  \<^item> \<open>PathFinder\<close>, \<open>GasOptimizer\<close>, \<open>LiquidityAggregator\<close>, \<open>SmartRouter\<close>: \<^verbatim>\<open>dex/smart_routing/\<close>, the searches for paths, their gas, what a
    pool pays, the choice of a route. \<open>DexRouter\<close>: \<^verbatim>\<open>dex/router.rs\<close>, which closes the route argument of the engine.
  \<^item> \<open>BatchAuction\<close>, \<open>CommitReveal\<close>, \<open>PrivatePool\<close>, \<open>ThresholdEncryption\<close> (with \<open>ThresholdProps\<close>): the files of these names under
    \<^verbatim>\<open>dex/mev_protection/\<close>; \<open>MevProtection\<close>: the system of its \<^verbatim>\<open>mod.rs\<close> that dispatches to them.
  \<^item> \<open>DefiErrors\<close>, \<open>FlashLoan\<close>, \<open>Perpetual\<close>, \<open>Options\<close>, \<open>Ledgers\<close>: \<^verbatim>\<open>defi/\<close>, the last for lending and yield farming; \<open>DefiEngine\<close>:
    the engine of \<^verbatim>\<open>defi/mod.rs\<close> and its portfolio.
  \<^item> \<open>TxBytes\<close>, \<open>StateDB\<close>, \<open>Executor\<close>, \<open>Interleaving\<close>, \<open>BlockProps\<close>, \<open>ParallelExec\<close>, \<open>ParallelProps\<close>, \<open>ScheduleProps\<close>: the bytes of
    transactions, the accounts database, single transactions and groups of concurrent workers, blocks cut into batches
    (\<^verbatim>\<open>state_machine/\<close>). A transaction among others is the steps of \<open>tx_step\<close>, one for every awaited call of the database; the
    workers of a group (\<open>worker_step\<close>) and of a batch (\<open>batch_step\<close>) make them in the order of a schedule, a list of worker numbers
    that is universally quantified. \<open>Interleaving\<close> has the sequential specification \<open>run_spec\<close> on maps of accounts and the
    invariant of a pool of workers on disjoint accounts; \<open>BlockProps\<close> and \<open>ScheduleProps\<close> apply it to groups and batches.
  \<^item> \<open>MerkleTrie\<close>, \<open>MemoryCache\<close>, \<open>Layered\<close>, \<open>Snapshots\<close>: \<^verbatim>\<open>merkle_trie.rs\<close>, \<^verbatim>\<open>cache.rs\<close>, \<^verbatim>\<open>layered.rs\<close> and \<^verbatim>\<open>snapshot.rs\<close> of \<^verbatim>\<open>storage/\<close>.
  \<^item> \<open>Tendermint\<close>, \<open>HotStuff\<close>, \<open>OptimisticBft\<close>: \<^verbatim>\<open>consensus/\<close>. The first as ticks of the loop of \<^verbatim>\<open>start\<close>, the others as step relations
    over their tasks, with reachability and invariants by rule induction.
  \<^item> \<open>DataAvailability\<close>, \<open>Rollup\<close>, \<open>Layer2\<close>: \<^verbatim>\<open>layer2/\<close>, the last for the zk rollup, the channels and the manager.
  \<^item> \<open>Bridge\<close>, \<open>Relayer\<close>, \<open>LightClient\<close>, \<open>Ibc\<close>, \<open>CrossChain\<close>: \<^verbatim>\<open>cross_chain/\<close>, the last for the manager over the first three.
  \<^item> \<open>Privacy\<close>: \<^verbatim>\<open>privacy/\<close>. \<open>Network\<close>: \<^verbatim>\<open>network/mod.rs\<close>, the transaction pool and the front end to the peers.
  \<^item> \<open>MemoryPools\<close>, \<open>ZeroCopy\<close>: the files \<^verbatim>\<open>memory_pool.rs\<close> and \<^verbatim>\<open>zero_copy.rs\<close> of \<^verbatim>\<open>optimization/\<close>. \<open>KeyManagement\<close>:
    \<^verbatim>\<open>security/key_management.rs\<close>, the keys of a node and multi-signature wallets.
  \<^item> \<open>Hyperliquid\<close>: \<^verbatim>\<open>api.rs\<close>, \<^verbatim>\<open>connector.rs\<close> and \<^verbatim>\<open>order_manager.rs\<close> of \<^verbatim>\<open>hyperliquid/\<close>, the rate limiter, the connector and the orders;
    \<open>Vaults\<close>: its \<^verbatim>\<open>vault_integration.rs\<close>, and the front of its \<^verbatim>\<open>mod.rs\<close> over both.
\<close>

text \<open>
  \<^bold>\<open>Conventions.\<close> A call returns an \<open>outcome\<close>: \<open>Ok\<close> with a value, \<open>Err\<close> with an error of the code's error type, \<open>Panic\<close>, or
  \<open>Hang\<close> for a call that waits for ever, and where it has a state the state it leaves behind, so what a failed call has
  changed already is part of the model. \<^verbatim>\<open>U256\<close> arithmetic panics on overflow, native integers wrap (the release profile),
  and a \<^verbatim>\<open>u128\<close> or \<^verbatim>\<open>i128\<close> taken out of a \<^verbatim>\<open>U256\<close> panics when it does not fit. A lock requested while the same call holds a
  conflicting guard of it is \<open>Hang\<close>, and the guards the call holds stay taken: the states carry what later calls must then
  wait for. Addresses, hashes and token identifiers are words, byte strings are lists of 8-bit words, maps are functions
  to options or association lists where the code iterates over them. Clocks and random identifiers are arguments.

  \<^bold>\<open>Parameters.\<close> Hash functions, ciphers, signatures, compression and serialisation (packages \<^verbatim>\<open>sha2\<close>, \<^verbatim>\<open>sha3\<close>, \<^verbatim>\<open>aes-gcm\<close>,
  \<^verbatim>\<open>ed25519-dalek\<close>, \<^verbatim>\<open>flate2\<close>, \<^verbatim>\<open>bincode\<close>), the key-value backend, shuffles and the operations of floating-point numbers are
  arguments of the definitions that use them: single functions, or a record of them in \<open>GasOptimizer\<close>, \<open>SmartRouter\<close> and
  \<open>Network\<close>. Most properties hold for every instance; those that need more state it as a premise: that stored bytes can be
  decoded, that decryption undoes encryption, that a hash does not collide on the values at hand, or that it tells the
  kinds of nodes of the trie apart. Their witnesses instantiate the parameters.

  \<^bold>\<open>Fuel.\<close> Recursions that are not structural end by a measure: square roots, funding loops, the matching loops, groups of an
  executor, the layered sort, evictions, the path searches (depth and hops left), the roots and paths of Merkle trees. The
  two iterations of the stable pool are the 255 rounds of the code. Only the recursions of the trie take fuel, the number
  of nodes of the store plus one (\<open>fuel_for\<close>): a path through the nodes visits none twice unless the hash function has a
  cycle, and an insertion ends one step below a leaf. The register property shows that commits and lookups return
  \<open>Ok\<close> with this fuel for every hash function, and the two-key properties that it is enough across splits.

  \<^bold>\<open>What the lemmas show.\<close> The exchange core is right where it is used alone: matching is price-time priority, conserves
  quantity and exhausts the book; the book's invariant holds in every run; pools never lose value to a swap or a
  redemption, however the calls end; the first route found is a shortest one. A block of transfers and calls that the
  parallel executor completes is, under every schedule of its workers, a sequential execution in the order of its batches, and so
  is a group whose transactions share no account; the layered storage is a map, for keys that do not wait in its write batch; the path cache and the memory cache never change what is read; stored blobs,
  encrypted transactions, deltas and paths of Merkle trees come back as they should. Around this core the theorems also
  state what the code does where it does something else than its comments say: calls that wait for their own locks,
  orders that are never matched, routes that are never evaluated, certificates that are never accepted, votes and
  signatures that are counted by number, conflicting transactions that run in reverse, concurrent transfers that lose
  each other, storage written under keys nobody reads, trie paths of odd length that do not survive packing, transfers
  between chains that never complete, proofs that are compared with the wrong root, messages that never arrive.
\<close>

text \<open>
  \<^bold>\<open>Not modelled.\<close> The liquidity rewards of \<^verbatim>\<open>dex/liquidity.rs\<close> are a stub. Of \<^verbatim>\<open>hyperliquid/\<close> the encoding of requests and the
  WebSocket client are input and output, and \<^verbatim>\<open>market_data.rs\<close> is one line with escaped line breaks after its first functions;
  the portfolio of \<open>DefiEngine\<close> takes the positions at the exchange as an argument. \<^verbatim>\<open>evm_compat/\<close> wraps the \<^verbatim>\<open>revm\<close> package, \<^verbatim>\<open>security/formal_verification.rs\<close>
  searches the text of contracts for key words, \<^verbatim>\<open>ai_trading/\<close> computes signals in floating point. \<^verbatim>\<open>optimization/async_io.rs\<close> and the mapped files of \<^verbatim>\<open>zero_copy.rs\<close> are input and output,
  \<^verbatim>\<open>batch_processor.rs\<close> groups requests by the clock; the core calls none of them. \<^verbatim>\<open>monitoring/\<close> exports metrics and \<^verbatim>\<open>main.rs\<close>
  starts the components. A call of a vault (\<^verbatim>\<open>vault_integration.rs\<close>) is one step although the code awaits in its middle, and a
  single call of the accounts database is one step too. Floating-point results are arguments throughout, and nothing is claimed about their values.
\<close>

end
